(* ===== verification/Prelude.thy ===== *)
theory Prelude
  imports Main "HOL-Library.Word"
begin

text \<open>
  Shared vocabulary of the development: how JavaScript values are represented, the
  array and string operations of the language that the modelled sources call, thrown
  errors as values of a sum type, and the generic lemmas on lists and integers that the
  component theories use.

  Conventions.
  \<^item> A JavaScript number that the sources use as a line number, column, offset, index or
    count is an \<^typ>\<open>int\<close>: these are integers of magnitude below \<open>2^53\<close>, on which the
    arithmetic of the language is exact. Where the source truncates to 32 bits
    (\<open>x | 0\<close>, typed arrays) the truncation is written out.
  \<^item> A string is its list of UTF-16 code units, each a \<^typ>\<open>16 word\<close>, so that
    \<open>length\<close> is what \<open>str.length\<close> returns.
  \<^item> An array is a list. An element read outside the array is \<open>undefined\<close> in the
    source and \<^const>\<open>None\<close> here.
  \<^item> \<open>throw\<close> is the left injection of \<open>js_error + 'a\<close>; \<open>throw new Error\<close> is \<open>PlainError\<close>.
\<close>

section \<open>Representation of JavaScript values\<close>

type_synonym code_unit = "16 word"
type_synonym js_string = "code_unit list"

datatype js_error =
    BugIndicatingError
  | TypeError
  | RangeError
  | IllegalArgumentError
  | NotSupportedError
  | PlainError

type_synonym 'a result = "js_error + 'a"

abbreviation LF :: code_unit where
  "LF \<equiv> 10"

abbreviation CR :: code_unit where
  "CR \<equiv> 13"

text \<open>A literal string of the source\<close>

definition js :: "string \<Rightarrow> js_string" where
  "js s = map of_char s"

text \<open>\<open>Number.MAX_SAFE_INTEGER\<close>\<close>

definition MAX_SAFE_INTEGER :: int where
  "MAX_SAFE_INTEGER = 2 ^ 53 - 1"

named_theorems result_simps \<open>evaluation of the error-carrying operations\<close>
named_theorems denot \<open>what an operation does to the set of numbers or text it denotes\<close>

section \<open>Thrown errors\<close>

fun ebind :: "'a result \<Rightarrow> ('a \<Rightarrow> 'b result) \<Rightarrow> 'b result" where
  "ebind (Inl e) f = Inl e"
| "ebind (Inr a) f = f a"

definition emap :: "('a \<Rightarrow> 'b) \<Rightarrow> 'a result \<Rightarrow> 'b result" where
  "emap f r = ebind r (\<lambda>a. Inr (f a))"

text \<open>A \<open>for ... of\<close> loop whose body may throw.\<close>

fun efold :: "('a \<Rightarrow> 's \<Rightarrow> 's result) \<Rightarrow> 'a list \<Rightarrow> 's \<Rightarrow> 's result" where
  "efold f [] s = Inr s"
| "efold f (x # xs) s = ebind (f x s) (efold f xs)"

text \<open>\<open>arr.map(f)\<close> where \<open>f\<close> may throw.\<close>

fun emapM :: "('a \<Rightarrow> 'b result) \<Rightarrow> 'a list \<Rightarrow> 'b list result" where
  "emapM f [] = Inr []"
| "emapM f (x # xs) = ebind (f x) (\<lambda>y. ebind (emapM f xs) (\<lambda>ys. Inr (y # ys)))"

lemma emap_simps [simp]: "emap f (Inl e) = Inl e" "emap f (Inr a) = Inr (f a)"
  by (simp_all add: emap_def)

lemma ebind_Inr_iff: "ebind m f = Inr b \<longleftrightarrow> (\<exists>a. m = Inr a \<and> f a = Inr b)"
  by (cases m) auto

lemma emap_Inr_iff: "emap f m = Inr b \<longleftrightarrow> (\<exists>a. m = Inr a \<and> b = f a)"
  by (cases m) auto

lemma emapM_Inr_map: "(\<And>x. x \<in> set xs \<Longrightarrow> f x = Inr (g x)) \<Longrightarrow> emapM f xs = Inr (map g xs)"
  by (induction xs) auto

lemma efold_Inr_foldl:
  assumes "\<And>x s. x \<in> set xs \<Longrightarrow> P s \<Longrightarrow> f x s = Inr (g s x) \<and> P (g s x)" and "P s"
  shows "efold f xs s = Inr (foldl g s xs) \<and> P (foldl g s xs)"
  using assms by (induction xs arbitrary: s) auto

lemmas result_iffs = ebind_Inr_iff emap_Inr_iff

section \<open>Integer operations of the language\<close>

text \<open>\<open>x | 0\<close> on an integer: wrap to a signed 32-bit value.\<close>

definition to_int32 :: "int \<Rightarrow> int" where
  "to_int32 x = (x + 2 ^ 31) mod 2 ^ 32 - 2 ^ 31"

text \<open>The remainder operator \<open>a % b\<close> takes the sign of the dividend.\<close>

definition js_rem :: "int \<Rightarrow> int \<Rightarrow> int" where
  "js_rem a b = sgn a * (\<bar>a\<bar> mod \<bar>b\<bar>)"

definition int32_range :: "int \<Rightarrow> bool" where
  "int32_range x \<longleftrightarrow> - (2 ^ 31) \<le> x \<and> x < 2 ^ 31"

lemma to_int32_id [simp]: "int32_range x \<Longrightarrow> to_int32 x = x"
  by (simp add: to_int32_def int32_range_def)

lemma to_int32_range: "int32_range (to_int32 x)"
  by (simp add: to_int32_def int32_range_def)

lemma js_rem_nonneg [simp]: "0 \<le> a \<Longrightarrow> 0 < b \<Longrightarrow> js_rem a b = a mod b"
  by (cases "a = 0") (simp_all add: js_rem_def)

section \<open>Array and string operations of the language\<close>

text \<open>\<open>arr[i]\<close>\<close>

definition js_get :: "'a list \<Rightarrow> int \<Rightarrow> 'a option" where
  "js_get xs i = (if 0 \<le> i \<and> i < int (length xs) then Some (xs ! nat i) else None)"

text \<open>\<open>arr[i] = v\<close> on a typed array: no effect outside of it; \<open>NaN\<close> is stored as 0.\<close>

definition typed_put :: "32 word list \<Rightarrow> int \<Rightarrow> 32 word option \<Rightarrow> 32 word list" where
  "typed_put xs i v =
     (if 0 \<le> i \<and> i < int (length xs)
      then xs[nat i := (case v of None \<Rightarrow> 0 | Some w \<Rightarrow> w)] else xs)"

text \<open>
  The elements from index \<open>a\<close> up to, but not including, index \<open>b\<close>; both indices are
  already clamped to the list.
\<close>

definition seg :: "int \<Rightarrow> int \<Rightarrow> 'a list \<Rightarrow> 'a list" where
  "seg a b xs = take (nat (b - a)) (drop (nat a) xs)"

text \<open>\<open>str.substring(a, b)\<close>: clamp both indices to the string, then swap them if needed.\<close>

definition js_substring :: "'a list \<Rightarrow> int \<Rightarrow> int \<Rightarrow> 'a list" where
  "js_substring s a b =
     (let n = int (length s);
          a' = min (max a 0) n;
          b' = min (max b 0) n
      in seg (min a' b') (max a' b') s)"

text \<open>\<open>str.substring(a)\<close>\<close>

definition js_substring_from :: "'a list \<Rightarrow> int \<Rightarrow> 'a list" where
  "js_substring_from s a = js_substring s a (int (length s))"

text \<open>\<open>arr.slice(a, b)\<close>: a negative index counts from the end.\<close>

definition js_slice :: "'a list \<Rightarrow> int \<Rightarrow> int \<Rightarrow> 'a list" where
  "js_slice s a b =
     (let n = int (length s);
          a' = (if a < 0 then max (n + a) 0 else min a n);
          b' = (if b < 0 then max (n + b) 0 else min b n)
      in seg a' b' s)"

text \<open>\<open>arr.slice(a)\<close>\<close>

definition js_slice_from :: "'a list \<Rightarrow> int \<Rightarrow> 'a list" where
  "js_slice_from s a = js_slice s a (int (length s))"

text \<open>\<open>arr.splice(i, n, ...items)\<close> for \<open>i\<close> and \<open>n\<close> that are not negative: the array it leaves.\<close>

definition js_splice :: "'a list \<Rightarrow> int \<Rightarrow> int \<Rightarrow> 'a list \<Rightarrow> 'a list" where
  "js_splice xs i n items = take (nat i) xs @ items @ drop (nat i + nat n) xs"

text \<open>White space and line terminators, which \<open>\s\<close> matches and \<open>str.trim()\<close> removes at both ends.\<close>

definition js_space :: "code_unit \<Rightarrow> bool" where
  "js_space c \<longleftrightarrow> c \<in> {0x09, 0x0A, 0x0B, 0x0C, 0x0D, 0x20, 0xA0, 0x1680, 0x2028, 0x2029, 0x202F, 0x205F, 0x3000, 0xFEFF}
     \<or> 0x2000 \<le> c \<and> c \<le> 0x200A"

definition js_trimStart :: "js_string \<Rightarrow> js_string" where
  "js_trimStart s = dropWhile js_space s"

definition js_trimEnd :: "js_string \<Rightarrow> js_string" where
  "js_trimEnd s = rev (dropWhile js_space (rev s))"

definition js_trim :: "js_string \<Rightarrow> js_string" where
  "js_trim s = js_trimEnd (js_trimStart s)"

subsection \<open>Facts about segments\<close>

lemma js_get_Some_iff: "js_get xs i = Some x \<longleftrightarrow> 0 \<le> i \<and> i < int (length xs) \<and> xs ! nat i = x"
  by (auto simp: js_get_def)

lemma js_get_int [simp]: "k < length xs \<Longrightarrow> js_get xs (int k) = Some (xs ! k)"
  by (simp add: js_get_def)

lemma js_substring_seg:
  "0 \<le> a \<Longrightarrow> a \<le> b \<Longrightarrow> b \<le> int (length s) \<Longrightarrow> js_substring s a b = seg a b s"
  by (simp add: js_substring_def)

lemma js_substring_from_seg:
  "0 \<le> a \<Longrightarrow> a \<le> int (length s) \<Longrightarrow> js_substring_from s a = seg a (int (length s)) s"
  by (simp add: js_substring_from_def js_substring_seg)

lemma length_seg:
  "0 \<le> a \<Longrightarrow> a \<le> b \<Longrightarrow> b \<le> int (length s) \<Longrightarrow> int (length (seg a b s)) = b - a"
  by (auto simp: seg_def min_def)

lemma seg_empty [simp]: "b \<le> a \<Longrightarrow> seg a b s = []"
  by (simp add: seg_def)

lemma seg_all [simp]: "seg 0 (int (length s)) s = s"
  by (simp add: seg_def)

lemma seg_append_seg:
  assumes "0 \<le> a" "a \<le> b" "b \<le> c"
  shows "seg a b s @ seg b c s = seg a c s"
proof -
  have "nat (c - a) = nat (b - a) + nat (c - b)" and "nat b = nat (b - a) + nat a"
    using assms by linarith+
  then show ?thesis
    by (simp add: seg_def take_add)
qed

lemma seg_to_end: "0 \<le> a \<Longrightarrow> seg a (int (length s)) s = drop (nat a) s"
  by (simp add: seg_def)

lemma seg_from_start: "seg 0 b s = take (nat b) s"
  by (simp add: seg_def)

lemma seg_seg:
  assumes "0 \<le> a" "a \<le> b" "0 \<le> p" "p \<le> q" "q \<le> b - a"
  shows "seg p q (seg a b s) = seg (a + p) (a + q) s"
proof -
  have 1: "nat (q - p) \<le> nat (b - a) - nat p" and 2: "nat p + nat a = nat (a + p)"
    and 3: "a + q - (a + p) = q - p"
    using assms by linarith+
  have "seg p q (seg a b s) = take (nat (q - p)) (drop (nat p) (drop (nat a) s))"
    unfolding seg_def drop_take take_take min_absorb1 [OF 1] ..
  then show ?thesis
    unfolding seg_def drop_drop 2 3 .
qed

text \<open>A segment of a concatenation, by the side of the seam it lies on.\<close>

lemma seg_append_left:
  "0 \<le> a \<Longrightarrow> b \<le> int (length xs) \<Longrightarrow> seg a b (xs @ ys) = seg a b xs"
proof (cases "a \<le> b")
  case True
  assume "0 \<le> a" "b \<le> int (length xs)"
  with True have "nat (b - a) \<le> length xs - nat a" and "nat a \<le> length xs"
    by linarith+
  then show ?thesis by (simp add: seg_def)
qed simp

lemma seg_append_right:
  assumes "int (length xs) \<le> a"
  shows "seg a b (xs @ ys) = seg (a - int (length xs)) (b - int (length xs)) ys"
proof -
  have "nat (a - int (length xs)) = nat a - length xs" "drop (nat a) xs = []"
    using assms by (auto simp: nat_diff_distrib)
  then show ?thesis by (simp add: seg_def)
qed

lemma seg_append_across:
  assumes "0 \<le> a" "a \<le> int (length xs)" "int (length xs) \<le> b"
  shows "seg a b (xs @ ys) = seg a (int (length xs)) xs @ seg 0 (b - int (length xs)) ys"
  using seg_append_seg [of a "int (length xs)" b "xs @ ys"] assms
  by (simp add: seg_append_left seg_append_right)

lemma seg_append_across3:
  assumes "0 \<le> a" "a \<le> int (length xs)" "int (length xs) \<le> b"
  shows "seg a b (xs @ ys @ zs) = seg a (int (length xs)) xs @ seg 0 (b - int (length xs)) (ys @ zs)"
  using seg_append_across [OF assms, of "ys @ zs"] by simp

lemma js_splice_append [simp]:
  "js_splice (B @ M @ A) (int (length B)) (int (length M)) items = B @ items @ A"
  by (simp add: js_splice_def)

lemma nth_append_hd_last:
  assumes "M \<noteq> []"
  shows "(B @ M @ A) ! length B = hd M" "(B @ M @ A) ! (length B + length M - 1) = last M"
  using assms by (cases M rule: rev_cases; auto simp: nth_append hd_conv_nth; fail)+

section \<open>Loops over an array\<close>

text \<open>\<open>while (i < arr.length && p(arr[i])) { i++; }\<close>: the final index.\<close>

function scan_while :: "('a \<Rightarrow> bool) \<Rightarrow> 'a list \<Rightarrow> nat \<Rightarrow> nat" where
  "scan_while p xs i = (if i < length xs \<and> p (xs ! i) then scan_while p xs (Suc i) else i)"
  by pat_completeness auto
termination
  by (relation "measure (\<lambda>(p, xs, i). length xs - i)") auto

declare scan_while.simps [simp del]

lemma scan_while_takeWhile: "scan_while p xs i = i + length (takeWhile p (drop i xs))"
proof (induction p xs i rule: scan_while.induct)
  case (1 p xs i)
  show ?case
  proof (cases "i < length xs")
    case True
    then have "drop i xs = xs ! i # drop (Suc i) xs" by (simp add: Cons_nth_drop_Suc)
    with 1 True show ?thesis by (subst scan_while.simps) simp
  next
    case False
    then show ?thesis by (subst scan_while.simps) simp
  qed
qed

lemma scan_while_0: "scan_while p xs 0 = length (takeWhile p xs)"
  by (simp add: scan_while_takeWhile)

text \<open>\<open>for (let i = lo; i < hi; i++) { f(i); }\<close>: the numbers it visits.\<close>

definition int_upto :: "int \<Rightarrow> int \<Rightarrow> int list" where
  "int_upto a b = map (\<lambda>k. a + int k) [0..<nat (b - a)]"

lemma set_int_upto [simp]: "set (int_upto a b) = {a..<b}"
proof -
  have "k \<in> (\<lambda>n. a + int n) ` {0..<nat (b - a)}" if "a \<le> k" "k < b" for k
    using that by (intro image_eqI [of _ _ "nat (k - a)"]) auto
  then show ?thesis by (auto simp: int_upto_def)
qed

lemma length_int_upto [simp]: "length (int_upto a b) = nat (b - a)"
  by (simp add: int_upto_def)

lemma nth_int_upto [simp]: "i < nat (b - a) \<Longrightarrow> int_upto a b ! i = a + int i"
  by (simp add: int_upto_def)

section \<open>Generic facts\<close>

lemma foldl_append_concat: "foldl (\<lambda>acc x. acc @ f x) a xs = a @ concat (map f xs)"
  by (induction xs arbitrary: a) auto

lemma sum_list_foldl_int: "foldl (\<lambda>acc x. acc + f x) (a::int) xs = a + sum_list (map f xs)"
  by (induction xs arbitrary: a) auto

text \<open>Adjacent comparison with a transitive relation is comparison of all pairs.\<close>

fun checkAdjacentItems :: "'a list \<Rightarrow> ('a \<Rightarrow> 'a \<Rightarrow> bool) \<Rightarrow> bool" where
  "checkAdjacentItems (a # b # xs) P = (P a b \<and> checkAdjacentItems (b # xs) P)"
| "checkAdjacentItems _ P = True"

end
