(* ===== verification/ArraysFind.thy ===== *)
theory ArraysFind
  imports Prelude
begin

text \<open>
  Model of \<open>base/common/arraysFind.ts\<close>: linear and binary searches over arrays and the
  stateful \<open>MonotonousArray\<close>.

  The binary searches read \<open>array[k]\<close> only for \<open>startIdx \<le> k < endIdxEx\<close>
  (\<open>last_loop_cong\<close>, \<open>first_loop_cong\<close>), so for indices into the array the reads are
  never \<open>undefined\<close>. The contracts of the two search directions are locales; the linear
  scan and the binary search both interpret the first one.
\<close>

section \<open>Definitions\<close>

text \<open>\<open>findLastIdx\<close>: \<open>fromIndex\<close> counts down to 0.\<close>

fun findLastIdx_loop :: "'a list \<Rightarrow> ('a \<Rightarrow> bool) \<Rightarrow> nat \<Rightarrow> int" where
  "findLastIdx_loop xs p 0 = -1"
| "findLastIdx_loop xs p (Suc i) = (if p (xs ! i) then int i else findLastIdx_loop xs p i)"

definition findLastIdx :: "'a list \<Rightarrow> ('a \<Rightarrow> bool) \<Rightarrow> int" where
  "findLastIdx xs p = findLastIdx_loop xs p (length xs)"

definition findLast :: "'a list \<Rightarrow> ('a \<Rightarrow> bool) \<Rightarrow> 'a option" where
  "findLast xs p = (let idx = findLastIdx xs p in if idx = -1 then None else js_get xs idx)"

function last_loop :: "'a list \<Rightarrow> ('a \<Rightarrow> bool) \<Rightarrow> int \<Rightarrow> int \<Rightarrow> int" where
  "last_loop xs p i j =
     (if i < j then
        let k = (i + j) div 2
        in if p (xs ! nat k) then last_loop xs p (k + 1) j else last_loop xs p i k
      else i - 1)"
  by pat_completeness auto
termination
  by (relation "measure (\<lambda>(xs, p, i, j). nat (j - i))") auto

definition findLastIdxMonotonous_between :: "'a list \<Rightarrow> ('a \<Rightarrow> bool) \<Rightarrow> int \<Rightarrow> int \<Rightarrow> int" where
  "findLastIdxMonotonous_between xs p startIdx endIdxEx = last_loop xs p startIdx endIdxEx"

definition findLastIdxMonotonous :: "'a list \<Rightarrow> ('a \<Rightarrow> bool) \<Rightarrow> int" where
  "findLastIdxMonotonous xs p = findLastIdxMonotonous_between xs p 0 (int (length xs))"

definition findLastMonotonous :: "'a list \<Rightarrow> ('a \<Rightarrow> bool) \<Rightarrow> 'a option" where
  "findLastMonotonous xs p =
     (let idx = findLastIdxMonotonous xs p in if idx = -1 then None else js_get xs idx)"

function first_loop :: "'a list \<Rightarrow> ('a \<Rightarrow> bool) \<Rightarrow> int \<Rightarrow> int \<Rightarrow> int" where
  "first_loop xs p i j =
     (if i < j then
        let k = (i + j) div 2
        in if p (xs ! nat k) then first_loop xs p i k else first_loop xs p (k + 1) j
      else i)"
  by pat_completeness auto
termination
  by (relation "measure (\<lambda>(xs, p, i, j). nat (j - i))") auto

definition findFirstIdxMonotonousOrArrLen_between ::
    "'a list \<Rightarrow> ('a \<Rightarrow> bool) \<Rightarrow> int \<Rightarrow> int \<Rightarrow> int" where
  "findFirstIdxMonotonousOrArrLen_between xs p startIdx endIdxEx = first_loop xs p startIdx endIdxEx"

definition findFirstIdxMonotonousOrArrLen :: "'a list \<Rightarrow> ('a \<Rightarrow> bool) \<Rightarrow> int" where
  "findFirstIdxMonotonousOrArrLen xs p =
     findFirstIdxMonotonousOrArrLen_between xs p 0 (int (length xs))"

definition findFirstMonotonous :: "'a list \<Rightarrow> ('a \<Rightarrow> bool) \<Rightarrow> 'a option" where
  "findFirstMonotonous xs p =
     (let idx = findFirstIdxMonotonousOrArrLen xs p
      in if idx = int (length xs) then None else js_get xs idx)"

text \<open>The source compares with \<open>array.length\<close> even when \<open>endIdxEx\<close> is given.\<close>

definition findFirstIdxMonotonous :: "'a list \<Rightarrow> ('a \<Rightarrow> bool) \<Rightarrow> int \<Rightarrow> int \<Rightarrow> int" where
  "findFirstIdxMonotonous xs p startIdx endIdxEx =
     (let idx = findFirstIdxMonotonousOrArrLen_between xs p startIdx endIdxEx
      in if idx = int (length xs) then -1 else idx)"

text \<open>
  \<open>MonotonousArray\<close>: its fields, and \<open>findLastMonotonous\<close>, which returns the item and
  the updated object. \<open>assertInvariants\<close> is the static flag of the class.
\<close>

record 'a monotonous_array =
  ma_array :: "'a list"
  ma_findLastMonotonousLastIdx :: int
  ma_prevFindLastPredicate :: "('a \<Rightarrow> bool) option"

definition MonotonousArray_new :: "'a list \<Rightarrow> 'a monotonous_array" where
  "MonotonousArray_new xs =
     \<lparr>ma_array = xs, ma_findLastMonotonousLastIdx = 0, ma_prevFindLastPredicate = None\<rparr>"

definition MonotonousArray_findLastMonotonous ::
    "bool \<Rightarrow> 'a monotonous_array \<Rightarrow> ('a \<Rightarrow> bool) \<Rightarrow> ('a option \<times> 'a monotonous_array) result" where
  "MonotonousArray_findLastMonotonous assertInvariants m p =
     ebind
       (if assertInvariants then
          (case ma_prevFindLastPredicate m of
             None \<Rightarrow> Inr (m\<lparr>ma_prevFindLastPredicate := Some p\<rparr>)
           | Some q \<Rightarrow>
               if list_ex (\<lambda>item. q item \<and> \<not> p item) (ma_array m) then Inl BugIndicatingError
               else Inr (m\<lparr>ma_prevFindLastPredicate := Some p\<rparr>))
        else Inr m)
       (\<lambda>m. let idx = findLastIdxMonotonous_between (ma_array m) p
                        (ma_findLastMonotonousLastIdx m) (int (length (ma_array m)))
            in Inr (if idx = -1 then None else js_get (ma_array m) idx,
                    m\<lparr>ma_findLastMonotonousLastIdx := idx + 1\<rparr>))"

text \<open>Extremal elements by a comparator; the comparator returns a number.\<close>

fun max_loop :: "(int \<Rightarrow> bool) \<Rightarrow> ('a \<Rightarrow> 'a \<Rightarrow> int) \<Rightarrow> 'a list \<Rightarrow> 'a \<Rightarrow> 'a" where
  "max_loop better cmp [] m = m"
| "max_loop better cmp (x # xs) m = max_loop better cmp xs (if better (cmp x m) then x else m)"

definition findFirstMax :: "'a list \<Rightarrow> ('a \<Rightarrow> 'a \<Rightarrow> int) \<Rightarrow> 'a option" where
  "findFirstMax xs cmp =
     (case xs of [] \<Rightarrow> None | x # rest \<Rightarrow> Some (max_loop (\<lambda>c. c > 0) cmp rest x))"

definition findLastMax :: "'a list \<Rightarrow> ('a \<Rightarrow> 'a \<Rightarrow> int) \<Rightarrow> 'a option" where
  "findLastMax xs cmp =
     (case xs of [] \<Rightarrow> None | x # rest \<Rightarrow> Some (max_loop (\<lambda>c. c \<ge> 0) cmp rest x))"

definition findFirstMin :: "'a list \<Rightarrow> ('a \<Rightarrow> 'a \<Rightarrow> int) \<Rightarrow> 'a option" where
  "findFirstMin xs cmp = findFirstMax xs (\<lambda>a b. - cmp a b)"

fun maxIdx_loop :: "('a \<Rightarrow> 'a \<Rightarrow> int) \<Rightarrow> 'a list \<Rightarrow> nat \<Rightarrow> 'a list \<Rightarrow> nat \<Rightarrow> nat" where
  "maxIdx_loop cmp xs i [] maxIdx = maxIdx"
| "maxIdx_loop cmp xs i (x # rest) maxIdx =
     maxIdx_loop cmp xs (Suc i) rest (if cmp x (xs ! maxIdx) > 0 then i else maxIdx)"

definition findMaxIdx :: "'a list \<Rightarrow> ('a \<Rightarrow> 'a \<Rightarrow> int) \<Rightarrow> int" where
  "findMaxIdx xs cmp = (if xs = [] then -1 else int (maxIdx_loop cmp xs 1 (tl xs) 0))"

fun mapFindFirst :: "'a list \<Rightarrow> ('a \<Rightarrow> 'b option) \<Rightarrow> 'b option" where
  "mapFindFirst [] f = None"
| "mapFindFirst (x # xs) f = (case f x of Some y \<Rightarrow> Some y | None \<Rightarrow> mapFindFirst xs f)"

declare last_loop.simps [simp del] first_loop.simps [simp del]

section \<open>The binary search loops\<close>

text \<open>The loops read the array only between the two bounds.\<close>

lemma last_loop_cong:
  assumes "\<And>k. i \<le> k \<Longrightarrow> k < j \<Longrightarrow> p (xs ! nat k) = q (ys ! nat k)"
  shows "last_loop xs p i j = last_loop ys q i j"
  using assms
proof (induction xs p i j rule: last_loop.induct)
  case (1 xs p i j)
  let ?k = "(i + j) div 2"
  show ?case
  proof (cases "i < j")
    case True
    then have "i \<le> ?k" "?k < j" by auto
    with 1 True have "last_loop xs p (?k + 1) j = last_loop ys q (?k + 1) j" if "p (xs ! nat ?k)"
      using that by (auto simp: Let_def)
    moreover from 1 True \<open>?k < j\<close> have "last_loop xs p i ?k = last_loop ys q i ?k" if "\<not> p (xs ! nat ?k)"
      using that by (auto simp: Let_def)
    ultimately show ?thesis
      using True 1(3) [OF \<open>i \<le> ?k\<close> \<open>?k < j\<close>]
      by (simp add: last_loop.simps [of xs p i j] last_loop.simps [of ys q i j] Let_def)
  qed (simp add: last_loop.simps)
qed

text \<open>
  Without any assumption on the predicate the search ends at a boundary: the reported
  index satisfies the predicate (unless it is \<open>startIdx - 1\<close>) and the next one does not
  (unless it is \<open>endIdxEx\<close>).
\<close>

lemma last_loop_boundary:
  assumes "i \<le> j"
  shows "i - 1 \<le> last_loop xs p i j" "last_loop xs p i j < j"
    "last_loop xs p i j \<noteq> i - 1 \<Longrightarrow> p (xs ! nat (last_loop xs p i j))"
    "last_loop xs p i j + 1 \<noteq> j \<Longrightarrow> \<not> p (xs ! nat (last_loop xs p i j + 1))"
  using assms
proof (induction xs p i j rule: last_loop.induct)
  case (1 xs p i j)
  let ?k = "(i + j) div 2"
  { case 1 with "1.IH" show ?case by (subst last_loop.simps) (force simp: Let_def) }
  { case 2 with "1.IH" show ?case by (subst last_loop.simps) (force simp: Let_def) }
  { case 3
    with "1.IH"(3,7) show ?case
      by (cases "last_loop xs p (?k + 1) j = ?k")
        (auto simp: last_loop.simps [of xs p i j] Let_def split: if_splits) }
  { case 4
    with "1.IH"(4,8) show ?case
      by (cases "last_loop xs p i ?k + 1 = ?k")
        (auto simp: last_loop.simps [of xs p i j] Let_def split: if_splits) }
qed

text \<open>The two loops are the same search with the predicate negated.\<close>

lemma first_loop_last_loop: "first_loop xs p i j = last_loop xs (\<lambda>x. \<not> p x) i j + 1"
proof (induction xs p i j rule: first_loop.induct)
  case (1 xs p i j)
  then show ?case
    by (auto simp: first_loop.simps [of xs p i j] last_loop.simps [of xs _ i j] Let_def)
qed

lemma first_loop_cong:
  assumes "\<And>k. i \<le> k \<Longrightarrow> k < j \<Longrightarrow> p (xs ! nat k) = q (ys ! nat k)"
  shows "first_loop xs p i j = first_loop ys q i j"
  unfolding first_loop_last_loop using assms by (intro arg_cong2 [of _ _ _ _ "(+)"] last_loop_cong) auto

section \<open>Contracts of the searches\<close>

text \<open>
  \<open>prefix_pred p xs\<close>: \<open>arr.map(p)\<close> is \<open>[true, ..., true, false, ..., false]\<close>.
\<close>

definition prefix_pred :: "('a \<Rightarrow> bool) \<Rightarrow> 'a list \<Rightarrow> bool" where
  "prefix_pred p xs \<longleftrightarrow> (\<forall>a b. a \<le> b \<longrightarrow> b < length xs \<longrightarrow> p (xs ! b) \<longrightarrow> p (xs ! a))"

lemma prefix_predD: "prefix_pred p xs \<Longrightarrow> a \<le> b \<Longrightarrow> b < length xs \<Longrightarrow> p (xs ! b) \<Longrightarrow> p (xs ! a)"
  unfolding prefix_pred_def by blast

lemma prefix_pred_sorted_wrt:
  assumes "sorted_wrt R xs" and "\<And>x y. R x y \<Longrightarrow> p y \<Longrightarrow> p x"
  shows "prefix_pred p xs"
  using assms unfolding prefix_pred_def by (metis le_neq_implies_less sorted_wrt_nth_less)

lemma take_all_takeWhile: "list_all p (take (length (takeWhile p xs)) xs)"
  by (metis list_all_iff set_takeWhileD takeWhile_eq_take)

lemma nth_takeWhile_prefix: "k < length (takeWhile p xs) \<Longrightarrow> p (xs ! k)"
  using nth_mem set_takeWhileD takeWhile_nth by metis

locale last_index_search =
  fixes find :: "'a list \<Rightarrow> ('a \<Rightarrow> bool) \<Rightarrow> int"
  assumes find_lower: "-1 \<le> find xs p"
    and find_upper: "find xs p < int (length xs)"
    and find_hit: "prefix_pred p xs \<Longrightarrow> find xs p \<noteq> -1 \<Longrightarrow> p (xs ! nat (find xs p))"
    and find_miss: "prefix_pred p xs \<Longrightarrow> find xs p < int k \<Longrightarrow> k < length xs \<Longrightarrow> \<not> p (xs ! k)"
begin

lemma find_iff:
  assumes "prefix_pred p xs" "k < length xs"
  shows "p (xs ! k) \<longleftrightarrow> int k \<le> find xs p"
proof (cases "int k \<le> find xs p")
  case True
  then have "k \<le> nat (find xs p)" and "nat (find xs p) < length xs" and "find xs p \<noteq> -1"
    using find_upper [of xs p] by linarith+
  with True show ?thesis
    using prefix_predD [OF assms(1)] find_hit [OF assms(1)] by blast
next
  case False
  then show ?thesis using find_miss [OF assms(1) _ assms(2)] by auto
qed

lemma find_eq_takeWhile:
  assumes "prefix_pred p xs"
  shows "find xs p = int (length (takeWhile p xs)) - 1"
proof (rule antisym)
  let ?n = "length (takeWhile p xs)"
  show "find xs p \<le> int ?n - 1"
  proof (cases "?n < length xs")
    case True
    then have "\<not> p (xs ! ?n)" by (rule nth_length_takeWhile)
    with find_iff [OF assms True] show ?thesis by simp
  next
    case False
    with find_upper [of xs p] show ?thesis by linarith
  qed
  show "int ?n - 1 \<le> find xs p"
  proof (cases ?n)
    case 0
    with find_lower show ?thesis by simp
  next
    case (Suc m)
    then have "p (xs ! m)" and "m < length xs"
      using nth_takeWhile_prefix [of m p xs] length_takeWhile_le [of p xs] by auto
    with find_iff [OF assms] Suc show ?thesis by simp
  qed
qed

end

locale first_index_search =
  fixes find :: "'a list \<Rightarrow> ('a \<Rightarrow> bool) \<Rightarrow> int"
  assumes find_lower: "0 \<le> find xs p"
    and find_upper: "find xs p \<le> int (length xs)"
    and find_hit: "prefix_pred (\<lambda>x. \<not> p x) xs \<Longrightarrow> find xs p < int (length xs) \<Longrightarrow> p (xs ! nat (find xs p))"
    and find_before: "prefix_pred (\<lambda>x. \<not> p x) xs \<Longrightarrow> int k < find xs p \<Longrightarrow> \<not> p (xs ! k)"

text \<open>A search for the first index is a search for the last index of the complement.\<close>

sublocale first_index_search \<subseteq> compl: last_index_search "\<lambda>xs p. find xs (\<lambda>x. \<not> p x) - 1"
proof
  fix xs :: "'a list" and p and k :: nat
  let ?f = "find xs (\<lambda>x. \<not> p x)"
  show "-1 \<le> ?f - 1" using find_lower [of xs "\<lambda>x. \<not> p x"] by linarith
  show "?f - 1 < int (length xs)" using find_upper [of xs "\<lambda>x. \<not> p x"] by linarith
  assume mono: "prefix_pred p xs"
  then have mono': "prefix_pred (\<lambda>x. \<not> \<not> p x) xs" by simp
  show "p (xs ! nat (?f - 1))" if "?f - 1 \<noteq> -1"
  proof -
    have "int (nat (?f - 1)) < ?f" using that find_lower [of xs "\<lambda>x. \<not> p x"] by linarith
    from find_before [OF mono' this] show ?thesis by simp
  qed
  show "\<not> p (xs ! k)" if "?f - 1 < int k" "k < length xs"
  proof -
    from that have "?f < int (length xs)" and "nat ?f \<le> k" by linarith+
    with find_hit [OF mono'] that(2) prefix_predD [OF mono] show ?thesis by blast
  qed
qed

context first_index_search
begin

lemma find_eq_takeWhile_not:
  assumes "prefix_pred (\<lambda>x. \<not> p x) xs"
  shows "find xs p = int (length (takeWhile (\<lambda>x. \<not> p x) xs))"
  using compl.find_eq_takeWhile [OF assms] by simp

end

subsection \<open>Providers\<close>

lemma findLastIdx_loop_bounds: "-1 \<le> findLastIdx_loop xs p n \<and> findLastIdx_loop xs p n < int n"
  by (induction n) auto

lemma findLastIdx_loop_hit:
  "findLastIdx_loop xs p n \<noteq> -1 \<Longrightarrow> p (xs ! nat (findLastIdx_loop xs p n))"
  by (induction n) auto

lemma findLastIdx_loop_miss: "findLastIdx_loop xs p n < int k \<Longrightarrow> k < n \<Longrightarrow> \<not> p (xs ! k)"
  by (induction n) (auto simp: less_Suc_eq split: if_splits)

interpretation scan: last_index_search findLastIdx
  by unfold_locales
    (simp_all add: findLastIdx_def findLastIdx_loop_bounds findLastIdx_loop_hit findLastIdx_loop_miss)

lemma last_loop_miss:
  assumes mono: "prefix_pred p xs" and "0 \<le> i" "i \<le> j" "j \<le> int (length xs)"
    and "last_loop xs p i j < int k" "int k < j"
  shows "\<not> p (xs ! k)"
proof
  let ?r = "last_loop xs p i j"
  assume "p (xs ! k)"
  have "nat (?r + 1) \<le> k" and "k < length xs"
    using assms last_loop_boundary(1) [of i j xs p] by linarith+
  then have "p (xs ! nat (?r + 1))"
    using prefix_predD [OF mono] \<open>p (xs ! k)\<close> by blast
  moreover have "?r + 1 \<noteq> j" using assms by linarith
  ultimately show False using last_loop_boundary(4) [OF \<open>i \<le> j\<close>] by blast
qed

lemmas findLastIdxMonotonous_defs = findLastIdxMonotonous_def findLastIdxMonotonous_between_def
lemmas findFirstIdxMonotonous_defs =
  findFirstIdxMonotonousOrArrLen_def findFirstIdxMonotonousOrArrLen_between_def

interpretation bsearch_last: last_index_search findLastIdxMonotonous
proof
  fix xs :: "'a list" and p and k :: nat
  note bnd = last_loop_boundary [of 0 "int (length xs)" xs p]
  show "-1 \<le> findLastIdxMonotonous xs p" "findLastIdxMonotonous xs p < int (length xs)"
    using bnd(1,2) by (simp_all add: findLastIdxMonotonous_defs)
  show "p (xs ! nat (findLastIdxMonotonous xs p))" if "findLastIdxMonotonous xs p \<noteq> -1"
    using bnd(3) that by (simp add: findLastIdxMonotonous_defs)
  show "\<not> p (xs ! k)"
    if "prefix_pred p xs" "findLastIdxMonotonous xs p < int k" "k < length xs"
    using last_loop_miss [OF that(1), of 0 "int (length xs)" k] that(2,3)
    by (simp add: findLastIdxMonotonous_defs)
qed

interpretation bsearch_first: first_index_search findFirstIdxMonotonousOrArrLen
proof
  fix xs :: "'a list" and p and k :: nat
  let ?r = "findLastIdxMonotonous xs (\<lambda>x. \<not> p x)"
  have eq: "findFirstIdxMonotonousOrArrLen xs p = ?r + 1"
    by (simp add: findFirstIdxMonotonous_defs findLastIdxMonotonous_defs first_loop_last_loop)
  show "0 \<le> findFirstIdxMonotonousOrArrLen xs p" "findFirstIdxMonotonousOrArrLen xs p \<le> int (length xs)"
    using bsearch_last.find_lower [of xs "\<lambda>x. \<not> p x"] bsearch_last.find_upper [of xs "\<lambda>x. \<not> p x"]
    unfolding eq by linarith+
  assume mono: "prefix_pred (\<lambda>x. \<not> p x) xs"
  show "p (xs ! nat (findFirstIdxMonotonousOrArrLen xs p))"
    if "findFirstIdxMonotonousOrArrLen xs p < int (length xs)"
  proof -
    have "?r < int (nat (?r + 1))" "nat (?r + 1) < length xs"
      using that bsearch_last.find_lower [of xs "\<lambda>x. \<not> p x"] unfolding eq by linarith+
    with bsearch_last.find_miss [OF mono] show ?thesis unfolding eq by blast
  qed
  show "\<not> p (xs ! k)" if "int k < findFirstIdxMonotonousOrArrLen xs p"
  proof -
    have "int k \<le> ?r" "k < length xs"
      using that bsearch_last.find_upper [of xs "\<lambda>x. \<not> p x"] unfolding eq by linarith+
    with bsearch_last.find_iff [OF mono] show ?thesis by simp
  qed
qed

lemmas search_takeWhile = bsearch_last.find_eq_takeWhile bsearch_first.find_eq_takeWhile_not

section \<open>Properties of the searches\<close>

text \<open>
  On a predicate that is true on a prefix of the array, the binary search
  returns what the linear scan \<open>findLastIdx\<close> returns, which is the index of the last
  item that satisfies the predicate, or -1.
\<close>

theorem findLastIdxMonotonous_scan:
  assumes "prefix_pred p xs"
  shows "findLastIdxMonotonous xs p = findLastIdx xs p \<and>
    findLastIdxMonotonous xs p = int (length (takeWhile p xs)) - 1"
  using assms bsearch_last.find_eq_takeWhile scan.find_eq_takeWhile by metis

theorem findLastIdxMonotonous_scan_witness:
  "prefix_pred (\<lambda>x. x < (3::int)) [1, 2, 5] \<and>
   findLastIdxMonotonous [1, 2, 5] (\<lambda>x. x < (3::int)) = findLastIdx [1, 2, 5] (\<lambda>x. x < (3::int))"
proof -
  have h: "prefix_pred (\<lambda>x. x < (3::int)) [1, 2, 5]"
    by (rule prefix_pred_sorted_wrt [where R = "(\<le>)"]) auto
  with findLastIdxMonotonous_scan [OF h] show ?thesis by simp
qed

subsection \<open>MonotonousArray\<close>

text \<open>
  The invariant between two calls: every item before the remembered index satisfies the
  predicate of the last call, and so, by the contract of the class, every later one.
\<close>

definition ma_inv :: "'a monotonous_array \<Rightarrow> ('a \<Rightarrow> bool) \<Rightarrow> bool" where
  "ma_inv m q \<longleftrightarrow>
     0 \<le> ma_findLastMonotonousLastIdx m \<and>
     ma_findLastMonotonousLastIdx m \<le> int (length (ma_array m)) \<and>
     list_all q (take (nat (ma_findLastMonotonousLastIdx m)) (ma_array m)) \<and>
     (case ma_prevFindLastPredicate m of None \<Rightarrow> True
      | Some r \<Rightarrow> list_all (\<lambda>x. r x \<longrightarrow> q x) (ma_array m))"

lemma ma_inv_new: "ma_inv (MonotonousArray_new xs) q"
  by (simp add: ma_inv_def MonotonousArray_new_def)

text \<open>Starting the search behind items that satisfy the predicate changes nothing.\<close>

lemma last_loop_skip:
  assumes "prefix_pred p xs" "0 \<le> i" "i \<le> int (length xs)" "list_all p (take (nat i) xs)"
  shows "last_loop xs p i (int (length xs)) = findLastIdxMonotonous xs p"
proof (rule antisym)
  let ?r = "last_loop xs p i (int (length xs))" and ?f = "findLastIdxMonotonous xs p"
  note bnd = last_loop_boundary [OF assms(3), of xs p]
  show "?r \<le> ?f"
  proof (cases "?r = i - 1")
    case True
    show ?thesis
    proof (cases "i = 0")
      case False
      then have "nat ?r < length (take (nat i) xs)" "nat ?r < length xs"
        using True assms(2,3) by auto
      then have "p (xs ! nat ?r)" using assms(4) by (metis list_all_length nth_take length_take min_less_iff_conj)
      then show ?thesis
        using bsearch_last.find_iff [OF assms(1) \<open>nat ?r < length xs\<close>] True False assms(2) by simp
    qed (use True bsearch_last.find_lower [of xs p] in simp)
  next
    case False
    then have "p (xs ! nat ?r)" "nat ?r < length xs" using bnd assms(2) by auto
    then show ?thesis
      using bsearch_last.find_iff [OF assms(1) \<open>nat ?r < length xs\<close>] bnd(1) False assms(2) by simp
  qed
  show "?f \<le> ?r"
  proof (rule ccontr)
    assume "\<not> ?f \<le> ?r"
    then have "?r < int (nat ?f)" "nat ?f < length xs"
      using bsearch_last.find_upper [of xs p] bnd(1) assms(2) by linarith+
    with last_loop_miss [OF assms(1-3) order_refl, of "nat ?f"] have "\<not> p (xs ! nat ?f)"
      by (metis of_nat_less_iff)
    moreover have "p (xs ! nat ?f)"
      using bsearch_last.find_hit [OF assms(1)] \<open>\<not> ?f \<le> ?r\<close> bnd(1) assms(2) by auto
    ultimately show False by simp
  qed
qed

text \<open>
  If every item that satisfied the previous predicate satisfies the
  current one, a call never throws, returns the item a fresh search returns although it
  resumes where the last call stopped, and re-establishes the invariant for the next call.
\<close>

theorem MonotonousArray_findLastMonotonous_fresh:
  assumes "ma_inv m q" "prefix_pred p (ma_array m)" "\<And>x. q x \<Longrightarrow> p x"
  shows "\<exists>m'. MonotonousArray_findLastMonotonous assertInvariants m p =
      Inr (findLastMonotonous (ma_array m) p, m') \<and> ma_array m' = ma_array m \<and> ma_inv m' p"
proof -
  let ?xs = "ma_array m" and ?i = "ma_findLastMonotonousLastIdx m"
  let ?m = "if assertInvariants then m\<lparr>ma_prevFindLastPredicate := Some p\<rparr> else m"
  let ?f = "findLastIdxMonotonous ?xs p"
  let ?m' = "?m\<lparr>ma_findLastMonotonousLastIdx := ?f + 1\<rparr>"
  have weaker: "list_all p (take (nat ?i) ?xs)"
    using assms(1,3) by (auto simp: ma_inv_def list_all_iff)
  have fresh: "last_loop ?xs p ?i (int (length ?xs)) = ?f"
    using assms(1,2) weaker by (intro last_loop_skip) (auto simp: ma_inv_def)
  have "\<not> list_ex (\<lambda>item. r item \<and> \<not> p item) ?xs" if "ma_prevFindLastPredicate m = Some r" for r
    using that assms(1,3) by (auto simp: ma_inv_def list_ex_iff list_all_iff)
  then have "MonotonousArray_findLastMonotonous assertInvariants m p =
      Inr (findLastMonotonous ?xs p, ?m')"
    using fresh
    by (auto simp: MonotonousArray_findLastMonotonous_def findLastMonotonous_def
        findLastIdxMonotonous_between_def Let_def split: option.splits)
  moreover have "list_all p (take (nat (?f + 1)) ?xs)"
    using take_all_takeWhile [of p ?xs] by (simp add: bsearch_last.find_eq_takeWhile [OF assms(2)])
  then have "ma_inv ?m' p"
    using assms(1,3) bsearch_last.find_lower [of ?xs p] bsearch_last.find_upper [of ?xs p]
    by (auto simp: ma_inv_def list_all_iff split: option.splits)
  ultimately show ?thesis by auto
qed

theorem MonotonousArray_findLastMonotonous_fresh_witness:
  "\<exists>m'. MonotonousArray_findLastMonotonous True (MonotonousArray_new [1, 2, 5 :: int]) (\<lambda>x. x < 3) =
     Inr (findLastMonotonous [1, 2, 5] (\<lambda>x. x < (3::int)), m') \<and> ma_array m' = [1, 2, 5]"
proof -
  let ?m = "MonotonousArray_new [1, 2, 5 :: int]"
  have "prefix_pred (\<lambda>x. x < (3::int)) [1, 2, 5]"
    by (rule prefix_pred_sorted_wrt [where R = "(\<le>)"]) auto
  then have "prefix_pred (\<lambda>x. x < 3) (ma_array ?m)" by (simp add: MonotonousArray_new_def)
  from MonotonousArray_findLastMonotonous_fresh [OF ma_inv_new [of _ "\<lambda>_. False"] this, of True]
  show ?thesis by (auto simp: MonotonousArray_new_def)
qed

subsection \<open>Extremal elements\<close>

locale comparator =
  fixes cmp :: "'a \<Rightarrow> 'a \<Rightarrow> int"
  assumes cmp_flip: "sgn (cmp a b) = - sgn (cmp b a)"
    and cmp_trans: "cmp a b \<le> 0 \<Longrightarrow> cmp b c \<le> 0 \<Longrightarrow> cmp a c \<le> 0"
begin

lemma cmp_neg_iff: "cmp a b < 0 \<longleftrightarrow> 0 < cmp b a"
  using cmp_flip [of a b] by (auto simp: sgn_if split: if_splits)

lemma cmp_nonpos_iff: "cmp a b \<le> 0 \<longleftrightarrow> 0 \<le> cmp b a"
  using cmp_neg_iff [of b a] by linarith

lemma cmp_refl: "cmp a a = 0"
  using cmp_neg_iff [of a a] by linarith

lemma cmp_less_trans: "cmp a b < 0 \<Longrightarrow> cmp b c \<le> 0 \<Longrightarrow> cmp a c < 0"
  using cmp_trans [of b c a] cmp_neg_iff [of a b] cmp_nonpos_iff [of c a] by linarith

lemma cmp_le_less_trans: "cmp a b \<le> 0 \<Longrightarrow> cmp b c < 0 \<Longrightarrow> cmp a c < 0"
  using cmp_trans [of c a b] cmp_neg_iff [of b c] cmp_nonpos_iff [of c a] by linarith

lemma max_loop_first:
  "\<exists>ys zs. m # xs = ys @ max_loop (\<lambda>c. c > 0) cmp xs m # zs \<and>
     (\<forall>y \<in> set ys. cmp y (max_loop (\<lambda>c. c > 0) cmp xs m) < 0) \<and>
     (\<forall>z \<in> set zs. cmp z (max_loop (\<lambda>c. c > 0) cmp xs m) \<le> 0)"
proof (induction xs arbitrary: m)
  case (Cons x xs)
  define b where "b = (if cmp x m > 0 then x else m)"
  define r where "r = max_loop (\<lambda>c. c > 0) cmp xs b"
  from Cons.IH [of b] obtain ys zs where split: "b # xs = ys @ r # zs"
    and before: "\<forall>y \<in> set ys. cmp y r < 0" and after: "\<forall>z \<in> set zs. cmp z r \<le> 0"
    unfolding r_def by blast
  have top: "cmp b r \<le> 0"
    using split before cmp_refl by (cases ys) auto
  have "\<exists>ys zs. m # x # xs = ys @ r # zs \<and> (\<forall>y \<in> set ys. cmp y r < 0) \<and> (\<forall>z \<in> set zs. cmp z r \<le> 0)"
  proof (cases "cmp x m > 0")
    case True
    then have "cmp m r < 0" using top cmp_less_trans [of m x r] cmp_neg_iff by (simp add: b_def)
    with True split before after show ?thesis
      by - (rule exI [of _ "m # ys"], rule exI [of _ zs], simp add: b_def)
  next
    case False
    then have xm: "cmp x m \<le> 0" and b: "b = m" by (simp_all add: b_def)
    show ?thesis
    proof (cases ys)
      case Nil
      with split after xm b show ?thesis
        by - (rule exI [of _ "[]"], rule exI [of _ "x # zs"], simp)
    next
      case (Cons y ys')
      with split before after b cmp_le_less_trans [OF xm, of r] show ?thesis
        by - (rule exI [of _ "m # x # ys'"], rule exI [of _ zs], simp)
    qed
  qed
  then show ?case by (simp add: r_def b_def)
qed (rule exI [of _ "[]"], rule exI [of _ "[]"], simp)

lemma findFirstMax_first:
  assumes "findFirstMax xs cmp = Some m"
  shows "\<exists>ys zs. xs = ys @ m # zs \<and> (\<forall>y \<in> set ys. cmp y m < 0) \<and> (\<forall>z \<in> set zs. cmp z m \<le> 0)"
  using assms max_loop_first by (auto simp: findFirstMax_def split: list.splits)

end

end
