(* ===== verification/PositionRange.thy ===== *)
theory PositionRange
  imports Prelude ArraysFind
begin

text \<open>
  Model of \<open>editor/common/core/position.ts\<close> and \<open>editor/common/core/range.ts\<close>: positions
  as a linear order, ranges as closed intervals of positions.

  A \<open>Position\<close> and a \<open>Range\<close> are immutable values of the source, so they are
  datatypes here and the order of positions is an instance of the library's class of
  linear orders. The static methods and the instance methods that forward to them are
  one definition each. An argument of type \<open>IRange\<close> need not be ordered; an object of
  class \<open>Range\<close> is (\<open>range_ok\<close>), because its constructor swaps its arguments.
\<close>

section \<open>Positions\<close>

datatype Position = Position (lineNumber: int) (column: int)

definition Position_with :: "Position \<Rightarrow> int option \<Rightarrow> int option \<Rightarrow> Position" where
  "Position_with p newLineNumber newColumn =
     (let l = (case newLineNumber of None \<Rightarrow> lineNumber p | Some x \<Rightarrow> x);
          c = (case newColumn of None \<Rightarrow> column p | Some x \<Rightarrow> x)
      in if l = lineNumber p \<and> c = column p then p else Position l c)"

definition Position_delta :: "Position \<Rightarrow> int \<Rightarrow> int \<Rightarrow> Position" where
  "Position_delta p deltaLineNumber deltaColumn =
     Position_with p (Some (lineNumber p + deltaLineNumber)) (Some (column p + deltaColumn))"

text \<open>\<open>Position.equals\<close> on arguments that may be \<open>null\<close>.\<close>

fun Position_equals :: "Position option \<Rightarrow> Position option \<Rightarrow> bool" where
  "Position_equals None None = True"
| "Position_equals (Some a) (Some b) = (lineNumber a = lineNumber b \<and> column a = column b)"
| "Position_equals _ _ = False"

definition Position_isBefore :: "Position \<Rightarrow> Position \<Rightarrow> bool" where
  "Position_isBefore a b =
     (if lineNumber a < lineNumber b then True
      else if lineNumber b < lineNumber a then False
      else column a < column b)"

definition Position_isBeforeOrEqual :: "Position \<Rightarrow> Position \<Rightarrow> bool" where
  "Position_isBeforeOrEqual a b =
     (if lineNumber a < lineNumber b then True
      else if lineNumber b < lineNumber a then False
      else column a \<le> column b)"

definition Position_compare :: "Position \<Rightarrow> Position \<Rightarrow> int" where
  "Position_compare a b =
     (let aLineNumber = to_int32 (lineNumber a);
          bLineNumber = to_int32 (lineNumber b)
      in if aLineNumber = bLineNumber
         then to_int32 (column a) - to_int32 (column b)
         else aLineNumber - bLineNumber)"

definition Position_clone :: "Position \<Rightarrow> Position" where
  "Position_clone p = Position (lineNumber p) (column p)"

definition Position_lift :: "Position \<Rightarrow> Position" where
  "Position_lift p = Position (lineNumber p) (column p)"

instantiation Position :: linorder
begin

definition less_eq_Position_def: "a \<le> b \<longleftrightarrow> Position_isBeforeOrEqual a b"
definition less_Position_def: "a < b \<longleftrightarrow> Position_isBefore a b"

instance
  by standard
    (auto simp: less_eq_Position_def less_Position_def Position_isBefore_def
      Position_isBeforeOrEqual_def split: if_splits intro: Position.expand)

end

lemmas position_order = less_eq_Position_def less_Position_def

lemma Position_le_iff:
  "a \<le> b \<longleftrightarrow> lineNumber a < lineNumber b \<or> lineNumber a = lineNumber b \<and> column a \<le> column b"
  by (auto simp: less_eq_Position_def Position_isBeforeOrEqual_def)

lemma Position_less_iff:
  "a < b \<longleftrightarrow> lineNumber a < lineNumber b \<or> lineNumber a = lineNumber b \<and> column a < column b"
  by (auto simp: less_Position_def Position_isBefore_def)

lemma Position_eq_iff: "a = b \<longleftrightarrow> lineNumber a = lineNumber b \<and> column a = column b"
  by (cases a; cases b) auto

section \<open>Ranges\<close>

datatype Range = MkRange
  (startLineNumber: int) (startColumn: int) (endLineNumber: int) (endColumn: int)

text \<open>The constructor of class \<open>Range\<close> orders its two positions.\<close>

definition Range_new :: "int \<Rightarrow> int \<Rightarrow> int \<Rightarrow> int \<Rightarrow> Range" where
  "Range_new sl sc el ec =
     (if sl > el \<or> (sl = el \<and> sc > ec) then MkRange el ec sl sc else MkRange sl sc el ec)"

definition Range_isEmpty :: "Range \<Rightarrow> bool" where
  "Range_isEmpty r \<longleftrightarrow> startLineNumber r = endLineNumber r \<and> startColumn r = endColumn r"

definition Range_containsPosition :: "Range \<Rightarrow> Position \<Rightarrow> bool" where
  "Range_containsPosition r p =
     (if lineNumber p < startLineNumber r \<or> lineNumber p > endLineNumber r then False
      else if lineNumber p = startLineNumber r \<and> column p < startColumn r then False
      else if lineNumber p = endLineNumber r \<and> column p > endColumn r then False
      else True)"

definition Range_strictContainsPosition :: "Range \<Rightarrow> Position \<Rightarrow> bool" where
  "Range_strictContainsPosition r p =
     (if lineNumber p < startLineNumber r \<or> lineNumber p > endLineNumber r then False
      else if lineNumber p = startLineNumber r \<and> column p \<le> startColumn r then False
      else if lineNumber p = endLineNumber r \<and> column p \<ge> endColumn r then False
      else True)"

definition Range_containsRange :: "Range \<Rightarrow> Range \<Rightarrow> bool" where
  "Range_containsRange r other =
     (if startLineNumber other < startLineNumber r \<or> endLineNumber other < startLineNumber r then False
      else if startLineNumber other > endLineNumber r \<or> endLineNumber other > endLineNumber r then False
      else if startLineNumber other = startLineNumber r \<and> startColumn other < startColumn r then False
      else if endLineNumber other = endLineNumber r \<and> endColumn other > endColumn r then False
      else True)"

definition Range_strictContainsRange :: "Range \<Rightarrow> Range \<Rightarrow> bool" where
  "Range_strictContainsRange r other =
     (if startLineNumber other < startLineNumber r \<or> endLineNumber other < startLineNumber r then False
      else if startLineNumber other > endLineNumber r \<or> endLineNumber other > endLineNumber r then False
      else if startLineNumber other = startLineNumber r \<and> startColumn other \<le> startColumn r then False
      else if endLineNumber other = endLineNumber r \<and> endColumn other \<ge> endColumn r then False
      else True)"

definition Range_plusRange :: "Range \<Rightarrow> Range \<Rightarrow> Range" where
  "Range_plusRange a b =
     (let (sl, sc) =
            (if startLineNumber b < startLineNumber a then (startLineNumber b, startColumn b)
             else if startLineNumber b = startLineNumber a
               then (startLineNumber b, min (startColumn b) (startColumn a))
             else (startLineNumber a, startColumn a));
          (el, ec) =
            (if endLineNumber b > endLineNumber a then (endLineNumber b, endColumn b)
             else if endLineNumber b = endLineNumber a
               then (endLineNumber b, max (endColumn b) (endColumn a))
             else (endLineNumber a, endColumn a))
      in Range_new sl sc el ec)"

definition Range_intersectRanges :: "Range \<Rightarrow> Range \<Rightarrow> Range option" where
  "Range_intersectRanges a b =
     (let (sl, sc) =
            (if startLineNumber a < startLineNumber b then (startLineNumber b, startColumn b)
             else if startLineNumber a = startLineNumber b
               then (startLineNumber a, max (startColumn a) (startColumn b))
             else (startLineNumber a, startColumn a));
          (el, ec) =
            (if endLineNumber a > endLineNumber b then (endLineNumber b, endColumn b)
             else if endLineNumber a = endLineNumber b
               then (endLineNumber a, min (endColumn a) (endColumn b))
             else (endLineNumber a, endColumn a))
      in if sl > el then None
         else if sl = el \<and> sc > ec then None
         else Some (Range_new sl sc el ec))"

fun Range_equalsRange :: "Range option \<Rightarrow> Range option \<Rightarrow> bool" where
  "Range_equalsRange None None = True"
| "Range_equalsRange (Some a) (Some b) =
     (startLineNumber a = startLineNumber b \<and> startColumn a = startColumn b \<and>
      endLineNumber a = endLineNumber b \<and> endColumn a = endColumn b)"
| "Range_equalsRange _ _ = False"

definition Range_getEndPosition :: "Range \<Rightarrow> Position" where
  "Range_getEndPosition r = Position (endLineNumber r) (endColumn r)"

definition Range_getStartPosition :: "Range \<Rightarrow> Position" where
  "Range_getStartPosition r = Position (startLineNumber r) (startColumn r)"

definition Range_setEndPosition :: "Range \<Rightarrow> int \<Rightarrow> int \<Rightarrow> Range" where
  "Range_setEndPosition r el ec = Range_new (startLineNumber r) (startColumn r) el ec"

definition Range_setStartPosition :: "Range \<Rightarrow> int \<Rightarrow> int \<Rightarrow> Range" where
  "Range_setStartPosition r sl sc = Range_new sl sc (endLineNumber r) (endColumn r)"

definition Range_collapseToStart :: "Range \<Rightarrow> Range" where
  "Range_collapseToStart r =
     Range_new (startLineNumber r) (startColumn r) (startLineNumber r) (startColumn r)"

definition Range_collapseToEnd :: "Range \<Rightarrow> Range" where
  "Range_collapseToEnd r = Range_new (endLineNumber r) (endColumn r) (endLineNumber r) (endColumn r)"

definition Range_delta :: "Range \<Rightarrow> int \<Rightarrow> Range" where
  "Range_delta r lineCount =
     Range_new (startLineNumber r + lineCount) (startColumn r) (endLineNumber r + lineCount) (endColumn r)"

definition Range_fromPositions :: "Position \<Rightarrow> Position \<Rightarrow> Range" where
  "Range_fromPositions s e = Range_new (lineNumber s) (column s) (lineNumber e) (column e)"

fun Range_lift :: "Range option \<Rightarrow> Range option" where
  "Range_lift None = None"
| "Range_lift (Some r) =
     Some (Range_new (startLineNumber r) (startColumn r) (endLineNumber r) (endColumn r))"

definition Range_areIntersectingOrTouching :: "Range \<Rightarrow> Range \<Rightarrow> bool" where
  "Range_areIntersectingOrTouching a b =
     (if endLineNumber a < startLineNumber b \<or>
         (endLineNumber a = startLineNumber b \<and> endColumn a < startColumn b) then False
      else if endLineNumber b < startLineNumber a \<or>
         (endLineNumber b = startLineNumber a \<and> endColumn b < startColumn a) then False
      else True)"

definition Range_areIntersecting :: "Range \<Rightarrow> Range \<Rightarrow> bool" where
  "Range_areIntersecting a b =
     (if endLineNumber a < startLineNumber b \<or>
         (endLineNumber a = startLineNumber b \<and> endColumn a \<le> startColumn b) then False
      else if endLineNumber b < startLineNumber a \<or>
         (endLineNumber b = startLineNumber a \<and> endColumn b \<le> startColumn a) then False
      else True)"

fun Range_compareRangesUsingStarts :: "Range option \<Rightarrow> Range option \<Rightarrow> int" where
  "Range_compareRangesUsingStarts (Some a) (Some b) =
     (let asl = to_int32 (startLineNumber a); bsl = to_int32 (startLineNumber b)
      in if asl = bsl then
           (let asc = to_int32 (startColumn a); bsc = to_int32 (startColumn b)
            in if asc = bsc then
                 (let ael = to_int32 (endLineNumber a); bel = to_int32 (endLineNumber b)
                  in if ael = bel then to_int32 (endColumn a) - to_int32 (endColumn b)
                     else ael - bel)
               else asc - bsc)
         else asl - bsl)"
| "Range_compareRangesUsingStarts a b =
     (if a \<noteq> None then 1 else 0) - (if b \<noteq> None then 1 else 0)"

definition Range_compareRangesUsingEnds :: "Range \<Rightarrow> Range \<Rightarrow> int" where
  "Range_compareRangesUsingEnds a b =
     (if endLineNumber a = endLineNumber b then
        (if endColumn a = endColumn b then
           (if startLineNumber a = startLineNumber b then startColumn a - startColumn b
            else startLineNumber a - startLineNumber b)
         else endColumn a - endColumn b)
      else endLineNumber a - endLineNumber b)"

definition Range_spansMultipleLines :: "Range \<Rightarrow> bool" where
  "Range_spansMultipleLines r \<longleftrightarrow> endLineNumber r > startLineNumber r"

section \<open>Ordered ranges and their endpoints\<close>

abbreviation rstart :: "Range \<Rightarrow> Position" where
  "rstart \<equiv> Range_getStartPosition"

abbreviation rend :: "Range \<Rightarrow> Position" where
  "rend \<equiv> Range_getEndPosition"

definition range_ok :: "Range \<Rightarrow> bool" where
  "range_ok r \<longleftrightarrow> rstart r \<le> rend r"

definition int32_position :: "Position \<Rightarrow> bool" where
  "int32_position p \<longleftrightarrow> int32_range (lineNumber p) \<and> int32_range (column p)"

named_theorems endpoint \<open>endpoints of the ranges that the operations return\<close>

lemma Range_eq_iff: "a = b \<longleftrightarrow> rstart a = rstart b \<and> rend a = rend b"
  by (cases a; cases b) (auto simp: Range_getStartPosition_def Range_getEndPosition_def)

lemma endpoint_fields [simp]:
  "lineNumber (rstart r) = startLineNumber r" "column (rstart r) = startColumn r"
  "lineNumber (rend r) = endLineNumber r" "column (rend r) = endColumn r"
  by (simp_all add: Range_getStartPosition_def Range_getEndPosition_def)

lemma Range_new_endpoints [endpoint]:
  "rstart (Range_new sl sc el ec) = min (Position sl sc) (Position el ec)"
  "rend (Range_new sl sc el ec) = max (Position sl sc) (Position el ec)"
  by (auto simp: Range_new_def min_def max_def Position_le_iff Position_eq_iff)

lemma Range_new_ok [simp]: "range_ok (Range_new sl sc el ec)"
  by (auto simp: range_ok_def endpoint min_def max_def)

lemma Range_fromPositions_endpoints [endpoint]:
  "rstart (Range_fromPositions p q) = min p q"
  "rend (Range_fromPositions p q) = max p q"
  by (simp_all add: Range_fromPositions_def endpoint)

lemma Range_fromPositions_ok [simp]: "range_ok (Range_fromPositions p q)"
  by (simp add: Range_fromPositions_def)

lemma Range_containsPosition_iff:
  "Range_containsPosition r p \<longleftrightarrow> rstart r \<le> p \<and> p \<le> rend r"
  by (auto simp: Range_containsPosition_def Position_le_iff)

lemma Range_strictContainsPosition_iff:
  "Range_strictContainsPosition r p \<longleftrightarrow> rstart r < p \<and> p < rend r"
  by (auto simp: Range_strictContainsPosition_def Position_less_iff)

lemma Range_containsRange_iff:
  "range_ok r' \<Longrightarrow> Range_containsRange r r' \<longleftrightarrow> rstart r \<le> rstart r' \<and> rend r' \<le> rend r"
  by (auto simp: Range_containsRange_def range_ok_def Position_le_iff)

lemma Range_strictContainsRange_iff:
  "range_ok r' \<Longrightarrow> Range_strictContainsRange r r' \<longleftrightarrow> rstart r < rstart r' \<and> rend r' < rend r"
  by (auto simp: Range_strictContainsRange_def range_ok_def Position_le_iff Position_less_iff)

lemma Range_plusRange_endpoints [endpoint]:
  assumes "range_ok a" "range_ok b"
  shows "rstart (Range_plusRange a b) = min (rstart a) (rstart b)"
    "rend (Range_plusRange a b) = max (rend a) (rend b)"
proof -
  have "Range_plusRange a b =
      Range_fromPositions (min (rstart a) (rstart b)) (max (rend a) (rend b))"
    by (auto simp: Range_plusRange_def Range_fromPositions_def min_def max_def Position_le_iff)
  moreover have "min (rstart a) (rstart b) \<le> max (rend a) (rend b)"
    using assms by (auto simp: range_ok_def min_le_iff_disj le_max_iff_disj)
  ultimately show "rstart (Range_plusRange a b) = min (rstart a) (rstart b)"
    "rend (Range_plusRange a b) = max (rend a) (rend b)"
    by (simp_all add: endpoint)
qed

lemma Range_intersectRanges_eq:
  "Range_intersectRanges a b =
     (if max (rstart a) (rstart b) \<le> min (rend a) (rend b)
      then Some (Range_fromPositions (max (rstart a) (rstart b)) (min (rend a) (rend b))) else None)"
  by (auto simp: Range_intersectRanges_def Range_fromPositions_def min_def max_def Position_le_iff)

lemma Range_areIntersectingOrTouching_iff:
  "Range_areIntersectingOrTouching a b \<longleftrightarrow> rstart b \<le> rend a \<and> rstart a \<le> rend b"
  by (auto simp: Range_areIntersectingOrTouching_def Position_le_iff)

lemma Range_areIntersecting_iff:
  "Range_areIntersecting a b \<longleftrightarrow> rstart b < rend a \<and> rstart a < rend b"
  by (auto simp: Range_areIntersecting_def Position_less_iff)

lemma Range_isEmpty_iff: "Range_isEmpty r \<longleftrightarrow> rstart r = rend r"
  by (auto simp: Range_isEmpty_def Position_eq_iff)

lemmas range_iffs = Range_containsPosition_iff Range_strictContainsPosition_iff
  Range_areIntersectingOrTouching_iff Range_areIntersecting_iff Range_isEmpty_iff

section \<open>Comparators\<close>

interpretation position_cmp: comparator Position_compare
  by unfold_locales (auto simp: Position_compare_def Let_def sgn_if split: if_splits)

interpretation range_ends_cmp: comparator Range_compareRangesUsingEnds
  by unfold_locales (auto simp: Range_compareRangesUsingEnds_def sgn_if split: if_splits)

interpretation range_starts_cmp: comparator "\<lambda>a b. Range_compareRangesUsingStarts (Some a) (Some b)"
  by unfold_locales (auto simp: Let_def sgn_if split: if_splits)

text \<open>
  On positions whose line and column fit in 32 bits, \<open>Position.compare\<close> has the sign
  of the position order that \<open>isBefore\<close> and \<open>isBeforeOrEqual\<close> decide, and is 0 exactly
  on equal positions.
\<close>

theorem Position_compare_order:
  assumes "int32_position a" "int32_position b"
  shows "(Position_compare a b < 0 \<longleftrightarrow> Position_isBefore a b) \<and>
    (Position_compare a b \<le> 0 \<longleftrightarrow> Position_isBeforeOrEqual a b) \<and>
    (Position_compare a b = 0 \<longleftrightarrow> a = b)"
  using assms
  by (auto simp: Position_compare_def Position_isBefore_def Position_isBeforeOrEqual_def
      int32_position_def Position_eq_iff)

theorem Position_compare_order_witness:
  "int32_position (Position 3 7) \<and> int32_position (Position 3 9) \<and>
   Position_compare (Position 3 7) (Position 3 9) < 0"
proof -
  have h: "int32_position (Position 3 7)" "int32_position (Position 3 9)"
    by (simp_all add: int32_position_def int32_range_def)
  with Position_compare_order [OF h] show ?thesis by (simp add: Position_isBefore_def)
qed

text \<open>
  The wrap-around is observable: \<open>Number.MAX_SAFE_INTEGER\<close>, which the sources use as
  a column for the end of a line, truncates to -1, so \<open>Position.compare\<close> places that
  position before column 1 of the same line while \<open>isBefore\<close> places it after.
\<close>

theorem Position_compare_wraps:
  "Position_compare (Position 1 MAX_SAFE_INTEGER) (Position 1 1) < 0 \<and>
   Position_isBefore (Position 1 1) (Position 1 MAX_SAFE_INTEGER)"
  by (simp add: Position_compare_def Position_isBefore_def MAX_SAFE_INTEGER_def to_int32_def)

section \<open>Ranges as sets of positions\<close>

text \<open>
  \<open>Range.containsRange\<close> decides inclusion of the sets of positions of the two ranges.
\<close>

theorem Range_containsRange_subset:
  assumes "range_ok r'"
  shows "Range_containsRange r r' \<longleftrightarrow>
    (\<forall>p. Range_containsPosition r' p \<longrightarrow> Range_containsPosition r p)"
  using assms
  by (auto simp: Range_containsRange_iff range_iffs range_ok_def intro: order_trans)

theorem Range_containsRange_subset_witness:
  "Range_containsRange (MkRange 1 1 4 2) (MkRange 2 5 4 1) \<longleftrightarrow>
    (\<forall>p. Range_containsPosition (MkRange 2 5 4 1) p \<longrightarrow> Range_containsPosition (MkRange 1 1 4 2) p)"
proof -
  have h: "range_ok (MkRange 2 5 4 1)" by (simp add: range_ok_def Position_le_iff)
  show ?thesis by (rule Range_containsRange_subset [OF h])
qed

text \<open>
  \<open>Range.plusRange\<close> of two ranges is the least range that contains both.
\<close>

theorem Range_plusRange_least:
  assumes "range_ok a" "range_ok b"
  shows "range_ok (Range_plusRange a b) \<and>
    Range_containsRange (Range_plusRange a b) a \<and> Range_containsRange (Range_plusRange a b) b \<and>
    (\<forall>c. Range_containsRange c a \<longrightarrow> Range_containsRange c b \<longrightarrow>
       Range_containsRange c (Range_plusRange a b))"
proof -
  have ok: "range_ok (Range_plusRange a b)"
    by (simp add: Range_plusRange_def case_prod_unfold)
  with assms show ?thesis
    by (simp add: Range_containsRange_iff endpoint)
qed

theorem Range_plusRange_least_witness:
  "Range_containsRange (Range_plusRange (MkRange 1 4 2 1) (MkRange 1 2 1 9)) (MkRange 1 4 2 1) \<and>
   Range_plusRange (MkRange 1 4 2 1) (MkRange 1 2 1 9) = MkRange 1 2 2 1"
proof -
  have h: "range_ok (MkRange 1 4 2 1)" "range_ok (MkRange 1 2 1 9)"
    by (simp_all add: range_ok_def Position_le_iff)
  from Range_plusRange_least [OF h] show ?thesis
    by (simp add: Range_plusRange_def Range_new_def)
qed

text \<open>
  \<open>Range.intersectRanges\<close> returns an ordered range that contains exactly the positions
  both ranges contain, and \<open>null\<close> exactly when they share no position, which is when
  \<open>areIntersectingOrTouching\<close> is false.
\<close>

theorem Range_intersectRanges_exact:
  assumes "range_ok a" "range_ok b"
  shows "(case Range_intersectRanges a b of
      None \<Rightarrow> \<not> Range_areIntersectingOrTouching a b \<and>
        \<not> (\<exists>p. Range_containsPosition a p \<and> Range_containsPosition b p)
    | Some c \<Rightarrow> Range_areIntersectingOrTouching a b \<and> range_ok c \<and>
        (\<forall>p. Range_containsPosition c p \<longleftrightarrow> Range_containsPosition a p \<and> Range_containsPosition b p))"
proof -
  have "Range_areIntersectingOrTouching a b \<longleftrightarrow> max (rstart a) (rstart b) \<le> min (rend a) (rend b)"
    using assms by (auto simp: range_iffs range_ok_def)
  moreover have "max (rstart a) (rstart b) \<le> min (rend a) (rend b)"
    if "Range_containsPosition a p" "Range_containsPosition b p" for p
    using that order_trans by (auto simp: range_iffs)
  ultimately show ?thesis
    by (auto simp: Range_intersectRanges_eq range_iffs endpoint min_absorb1 max_absorb2)
qed

theorem Range_intersectRanges_exact_witness:
  "Range_intersectRanges (MkRange 1 1 2 5) (MkRange 2 5 3 1) = Some (MkRange 2 5 2 5) \<and>
   Range_areIntersectingOrTouching (MkRange 1 1 2 5) (MkRange 2 5 3 1)"
proof -
  have h: "range_ok (MkRange 1 1 2 5)" "range_ok (MkRange 2 5 3 1)"
    by (simp_all add: range_ok_def Position_le_iff)
  have i: "Range_intersectRanges (MkRange 1 1 2 5) (MkRange 2 5 3 1) = Some (MkRange 2 5 2 5)"
    by (simp add: Range_intersectRanges_def Range_new_def)
  from Range_intersectRanges_exact [OF h] show ?thesis by (simp add: i)
qed

text \<open>
  For two ranges neither of which is empty, \<open>Range.areIntersecting\<close> holds exactly when
  the intersection is not empty. In particular it is false on ranges that only touch,
  where its comment says that it returns true.
\<close>

theorem Range_areIntersecting_touching:
  assumes "range_ok a" "range_ok b" "\<not> Range_isEmpty a" "\<not> Range_isEmpty b"
  shows "(Range_areIntersecting a b \<longleftrightarrow>
      (\<exists>c. Range_intersectRanges a b = Some c \<and> \<not> Range_isEmpty c)) \<and>
    (Range_getEndPosition a = Range_getStartPosition b \<longrightarrow>
      \<not> Range_areIntersecting a b \<and> Range_areIntersectingOrTouching a b)"
proof -
  have "rstart a < rend a" "rstart b < rend b"
    using assms by (auto simp: range_ok_def range_iffs)
  moreover have "Range_areIntersecting a b \<longleftrightarrow> max (rstart a) (rstart b) < min (rend a) (rend b)"
    using calculation by (auto simp: range_iffs)
  moreover have "(\<exists>c. Range_intersectRanges a b = Some c \<and> \<not> Range_isEmpty c) \<longleftrightarrow>
      max (rstart a) (rstart b) < min (rend a) (rend b)"
    by (simp add: Range_intersectRanges_eq Range_isEmpty_iff endpoint min_absorb1 max_absorb2
        order.strict_iff_order del: max_less_iff_conj min_less_iff_conj
        max.bounded_iff min.bounded_iff)
  ultimately show ?thesis
    by (auto simp: range_iffs)
qed

theorem Range_areIntersecting_touching_witness:
  "\<not> Range_areIntersecting (MkRange 1 1 2 5) (MkRange 2 5 3 1)"
proof -
  have h: "range_ok (MkRange 1 1 2 5)" "range_ok (MkRange 2 5 3 1)"
    "\<not> Range_isEmpty (MkRange 1 1 2 5)" "\<not> Range_isEmpty (MkRange 2 5 3 1)"
    by (simp_all add: range_ok_def Position_le_iff Range_isEmpty_def)
  from Range_areIntersecting_touching [OF h, THEN conjunct2] show ?thesis
    by (simp add: Range_getEndPosition_def Range_getStartPosition_def)
qed

end
