(* ===== verification/Selection.thy ===== *)
theory Selection
  imports PositionRange
begin

text \<open>
  Model of \<open>editor/common/core/selection.ts\<close>: a range with an orientation. The class
  extends \<open>Range\<close>: a selection carries the ordered range and the two positions it was
  made from.
\<close>

datatype SelectionDirection = LTR | RTL

record Selection =
  sel_range :: Range
  selectionStartLineNumber :: int
  selectionStartColumn :: int
  positionLineNumber :: int
  positionColumn :: int

definition Selection_new :: "int \<Rightarrow> int \<Rightarrow> int \<Rightarrow> int \<Rightarrow> Selection" where
  "Selection_new sl sc pl pc =
     \<lparr>sel_range = Range_new sl sc pl pc,
      selectionStartLineNumber = sl, selectionStartColumn = sc,
      positionLineNumber = pl, positionColumn = pc\<rparr>"

definition Selection_selectionsEqual :: "Selection \<Rightarrow> Selection \<Rightarrow> bool" where
  "Selection_selectionsEqual a b \<longleftrightarrow>
     selectionStartLineNumber a = selectionStartLineNumber b \<and>
     selectionStartColumn a = selectionStartColumn b \<and>
     positionLineNumber a = positionLineNumber b \<and>
     positionColumn a = positionColumn b"

definition Selection_getDirection :: "Selection \<Rightarrow> SelectionDirection" where
  "Selection_getDirection s =
     (if selectionStartLineNumber s = startLineNumber (sel_range s) \<and>
         selectionStartColumn s = startColumn (sel_range s)
      then LTR else RTL)"

definition Selection_setEndPosition :: "Selection \<Rightarrow> int \<Rightarrow> int \<Rightarrow> Selection" where
  "Selection_setEndPosition s el ec =
     (if Selection_getDirection s = LTR
      then Selection_new (startLineNumber (sel_range s)) (startColumn (sel_range s)) el ec
      else Selection_new el ec (startLineNumber (sel_range s)) (startColumn (sel_range s)))"

definition Selection_getPosition :: "Selection \<Rightarrow> Position" where
  "Selection_getPosition s = Position (positionLineNumber s) (positionColumn s)"

definition Selection_getSelectionStart :: "Selection \<Rightarrow> Position" where
  "Selection_getSelectionStart s = Position (selectionStartLineNumber s) (selectionStartColumn s)"

definition Selection_setStartPosition :: "Selection \<Rightarrow> int \<Rightarrow> int \<Rightarrow> Selection" where
  "Selection_setStartPosition s sl sc =
     (if Selection_getDirection s = LTR
      then Selection_new sl sc (endLineNumber (sel_range s)) (endColumn (sel_range s))
      else Selection_new (endLineNumber (sel_range s)) (endColumn (sel_range s)) sl sc)"

definition Selection_fromPositions :: "Position \<Rightarrow> Position \<Rightarrow> Selection" where
  "Selection_fromPositions s e = Selection_new (lineNumber s) (column s) (lineNumber e) (column e)"

definition Selection_fromRange :: "Range \<Rightarrow> SelectionDirection \<Rightarrow> Selection" where
  "Selection_fromRange r d =
     (if d = LTR
      then Selection_new (startLineNumber r) (startColumn r) (endLineNumber r) (endColumn r)
      else Selection_new (endLineNumber r) (endColumn r) (startLineNumber r) (startColumn r))"

definition Selection_liftSelection :: "Selection \<Rightarrow> Selection" where
  "Selection_liftSelection s =
     Selection_new (selectionStartLineNumber s) (selectionStartColumn s)
       (positionLineNumber s) (positionColumn s)"

text \<open>\<open>selectionsArrEqual\<close>: a missing array is \<^const>\<open>None\<close>.\<close>

fun selectionsArrEqual_loop :: "Selection list \<Rightarrow> Selection list \<Rightarrow> bool" where
  "selectionsArrEqual_loop (a # as) (b # bs) =
     (if \<not> Selection_selectionsEqual a b then False else selectionsArrEqual_loop as bs)"
| "selectionsArrEqual_loop _ _ = True"

fun Selection_selectionsArrEqual :: "Selection list option \<Rightarrow> Selection list option \<Rightarrow> bool" where
  "Selection_selectionsArrEqual (Some a) (Some b) =
     (if length a \<noteq> length b then False else selectionsArrEqual_loop a b)"
| "Selection_selectionsArrEqual None None = True"
| "Selection_selectionsArrEqual _ _ = False"

definition Selection_createWithDirection ::
    "int \<Rightarrow> int \<Rightarrow> int \<Rightarrow> int \<Rightarrow> SelectionDirection \<Rightarrow> Selection" where
  "Selection_createWithDirection sl sc el ec d =
     (if d = LTR then Selection_new sl sc el ec else Selection_new el ec sl sc)"

section \<open>The class invariant\<close>

text \<open>Every selection is the one its constructor makes from its two positions.\<close>

definition selection_ok :: "Selection \<Rightarrow> bool" where
  "selection_ok s \<longleftrightarrow> Selection_liftSelection s = s"

lemma selection_ok_new [simp]: "selection_ok (Selection_new a b c d)"
  by (simp add: selection_ok_def Selection_liftSelection_def Selection_new_def)

lemma selection_ok_ops [simp]:
  "selection_ok (Selection_setEndPosition s a b)" "selection_ok (Selection_setStartPosition s a b)"
  "selection_ok (Selection_fromPositions p q)" "selection_ok (Selection_fromRange r dir)"
  "selection_ok (Selection_createWithDirection a b c d dir)"
  by (simp_all add: Selection_setEndPosition_def Selection_setStartPosition_def
      Selection_fromPositions_def Selection_fromRange_def Selection_createWithDirection_def)

lemma selection_ok_cases:
  assumes "selection_ok s"
  obtains p q where "s = Selection_fromPositions p q"
    "Selection_getSelectionStart s = p" "Selection_getPosition s = q"
  using assms
  unfolding selection_ok_def Selection_liftSelection_def
  by (metis Position.sel Selection_fromPositions_def Selection_getPosition_def
      Selection_getSelectionStart_def)

lemma selection_fields [simp]:
  "sel_range (Selection_new a b c d) = Range_new a b c d"
  "selectionStartLineNumber (Selection_new a b c d) = a"
  "selectionStartColumn (Selection_new a b c d) = b"
  "positionLineNumber (Selection_new a b c d) = c"
  "positionColumn (Selection_new a b c d) = d"
  by (simp_all add: Selection_new_def)

lemma selection_range: "sel_range (Selection_fromPositions p q) = Range_fromPositions p q"
  by (simp add: Selection_fromPositions_def Range_fromPositions_def)

lemma selectionsEqual_iff:
  "selection_ok a \<Longrightarrow> selection_ok b \<Longrightarrow> Selection_selectionsEqual a b \<longleftrightarrow> a = b"
  unfolding selection_ok_def Selection_selectionsEqual_def
  by (metis Selection_liftSelection_def)

lemma getDirection_fromPositions:
  "Selection_getDirection (Selection_fromPositions p q) = (if p \<le> q then LTR else RTL)"
  by (auto simp: Selection_getDirection_def Selection_fromPositions_def Range_new_def Position_le_iff)

lemmas getDirection_new =
  getDirection_fromPositions [unfolded Selection_fromPositions_def]

lemma selectionsArrEqual_loop_iff:
  "length a = length b \<Longrightarrow>
   selectionsArrEqual_loop a b \<longleftrightarrow> list_all2 Selection_selectionsEqual a b"
  by (induction a b rule: selectionsArrEqual_loop.induct) auto

section \<open>Properties\<close>

text \<open>
  A selection is determined by its range and its direction: rebuilding it with
  \<open>fromRange\<close> from the two gives the same selection back.
\<close>

theorem Selection_fromRange_roundtrip:
  assumes "selection_ok s"
  shows "Selection_fromRange (sel_range s) (Selection_getDirection s) = s"
proof -
  from assms obtain p q where s: "s = Selection_fromPositions p q" by (rule selection_ok_cases)
  show ?thesis
    by (auto simp: s getDirection_new Selection_fromRange_def Selection_fromPositions_def
        Range_new_def Position_le_iff)
qed

theorem Selection_fromRange_roundtrip_witness:
  "Selection_getDirection (Selection_new 3 1 2 4) = RTL \<and>
   Selection_fromRange (sel_range (Selection_new 3 1 2 4)) RTL = Selection_new 3 1 2 4"
proof -
  have d: "Selection_getDirection (Selection_new 3 1 2 4) = RTL"
    by (simp add: Selection_getDirection_def Range_new_def)
  with Selection_fromRange_roundtrip [OF selection_ok_new, of 3 1 2 4] show ?thesis by simp
qed

text \<open>
  \<open>setEndPosition\<close> on a selection that runs from left to right moves its active
  position, as its comment says. On one that runs from right to left it moves the
  anchor instead and keeps the active position, which its comment does not say.
\<close>

theorem Selection_setEndPosition_moves:
  assumes "selection_ok s"
  shows "if Selection_getDirection s = LTR
    then Selection_getPosition (Selection_setEndPosition s l c) = Position l c \<and>
         Selection_getSelectionStart (Selection_setEndPosition s l c) = Selection_getSelectionStart s
    else Selection_getPosition (Selection_setEndPosition s l c) = Selection_getPosition s \<and>
         Selection_getSelectionStart (Selection_setEndPosition s l c) = Position l c"
proof -
  from assms obtain p q where s: "s = Selection_fromPositions p q" by (rule selection_ok_cases)
  show ?thesis
    by (auto simp: s getDirection_new Selection_setEndPosition_def
        Selection_getPosition_def Selection_getSelectionStart_def Selection_fromPositions_def
        Range_new_def Position_le_iff Position_eq_iff)
qed

theorem Selection_setEndPosition_moves_witness:
  "Selection_getPosition (Selection_setEndPosition (Selection_new 3 1 2 4) 9 9) = Position 2 4"
proof -
  have d: "Selection_getDirection (Selection_new 3 1 2 4) = RTL"
    by (simp add: Selection_getDirection_def Range_new_def)
  with Selection_setEndPosition_moves [OF selection_ok_new, of 3 1 2 4 9 9] show ?thesis
    by (simp add: Selection_getPosition_def)
qed

end
