(* ===== verification/Intervals.thy ===== *)
theory Intervals
  imports Prelude ArraysFind
begin

text \<open>
  The library behind the two kinds of half-open integer intervals of the sources,
  \<open>OffsetRange\<close> and \<open>LineRange\<close>, and behind their sets: a contract for the operations on
  single intervals, and facts about lists of intervals that are sorted with gaps between
  them. A list is described by the two functions that read an interval's bounds.
\<close>

section \<open>Single intervals\<close>

locale half_open =
  fixes lo hi :: "'r \<Rightarrow> int"
    and mk :: "int \<Rightarrow> int \<Rightarrow> 'r result"
    and join :: "'r \<Rightarrow> 'r \<Rightarrow> 'r result"
    and intersect :: "'r \<Rightarrow> 'r \<Rightarrow> 'r option result"
  assumes bounds_inj: "lo r = lo r' \<Longrightarrow> hi r = hi r' \<Longrightarrow> r = r'"
    and mk_ok: "a \<le> b \<Longrightarrow> \<exists>r. mk a b = Inr r \<and> lo r = a \<and> hi r = b"
    and mk_throws: "b < a \<Longrightarrow> mk a b = Inl BugIndicatingError"
    and join_mk: "join r s = mk (min (lo r) (lo s)) (max (hi r) (hi s))"
    and intersect_mk: "intersect r s =
      (if max (lo r) (lo s) \<le> min (hi r) (hi s)
       then emap Some (mk (max (lo r) (lo s)) (min (hi r) (hi s))) else Inr None)"
begin

lemma mk_Inr_iff: "mk a b = Inr r \<longleftrightarrow> a \<le> b \<and> lo r = a \<and> hi r = b"
proof (cases "a \<le> b")
  case True
  then show ?thesis using mk_ok [OF True] bounds_inj by (metis sum.inject(2))
next
  case False
  then show ?thesis using mk_throws by simp
qed

lemma mk_valid: "mk a b = Inr r \<Longrightarrow> lo r \<le> hi r"
  by (simp add: mk_Inr_iff)

lemma join_valid:
  assumes "lo r \<le> hi r" "lo s \<le> hi s"
  shows "\<exists>t. join r s = Inr t \<and> lo t = min (lo r) (lo s) \<and> hi t = max (hi r) (hi s)"
proof -
  have "min (lo r) (lo s) \<le> max (hi r) (hi s)" using assms by linarith
  then show ?thesis unfolding join_mk by (rule mk_ok)
qed

text \<open>The joined interval is the least interval that contains both.\<close>

lemma join_least:
  assumes "lo r \<le> hi r" "lo s \<le> hi s"
  shows "\<exists>t. join r s = Inr t \<and> lo t \<le> hi t \<and> {lo r..<hi r} \<union> {lo s..<hi s} \<subseteq> {lo t..<hi t} \<and>
    (\<forall>a b. a \<le> lo r \<and> a \<le> lo s \<and> hi r \<le> b \<and> hi s \<le> b \<longrightarrow> a \<le> lo t \<and> hi t \<le> b)"
  using join_valid [OF assms] assms by force

text \<open>The intersection holds exactly the common numbers; it is missing only if there are none.\<close>

lemma intersect_exact:
  "\<exists>t. intersect r s = Inr t \<and>
    (case t of None \<Rightarrow> {lo r..<hi r} \<inter> {lo s..<hi s} = {}
     | Some u \<Rightarrow> lo u \<le> hi u \<and> {lo u..<hi u} = {lo r..<hi r} \<inter> {lo s..<hi s} \<and>
         lo u = max (lo r) (lo s) \<and> hi u = min (hi r) (hi s))"
proof (cases "max (lo r) (lo s) \<le> min (hi r) (hi s)")
  case True
  from mk_ok [OF True] obtain u where "mk (max (lo r) (lo s)) (min (hi r) (hi s)) = Inr u"
    "lo u = max (lo r) (lo s)" "hi u = min (hi r) (hi s)" by blast
  with True show ?thesis by (auto simp: intersect_mk)
next
  case False
  then show ?thesis by (auto simp: intersect_mk)
qed

end

section \<open>Sorted lists of intervals with gaps\<close>

definition gap_sorted :: "('r \<Rightarrow> int) \<Rightarrow> ('r \<Rightarrow> int) \<Rightarrow> 'r list \<Rightarrow> bool" where
  "gap_sorted lo hi xs \<longleftrightarrow> sorted_wrt (\<lambda>a b. hi a < lo b) xs \<and> list_all (\<lambda>x. lo x \<le> hi x) xs"

definition covered :: "('r \<Rightarrow> int) \<Rightarrow> ('r \<Rightarrow> int) \<Rightarrow> 'r list \<Rightarrow> int set" where
  "covered lo hi xs = (\<Union>x \<in> set xs. {lo x..<hi x})"

lemma covered_simps [simp]:
  "covered lo hi [] = {}"
  "covered lo hi (x # xs) = {lo x..<hi x} \<union> covered lo hi xs"
  "covered lo hi (xs @ ys) = covered lo hi xs \<union> covered lo hi ys"
  by (auto simp: covered_def)

lemma covered_iff: "k \<in> covered lo hi xs \<longleftrightarrow> (\<exists>x \<in> set xs. lo x \<le> k \<and> k < hi x)"
  by (auto simp: covered_def)

lemma finite_covered [simp]: "finite (covered lo hi xs)"
  by (simp add: covered_def)

lemma gap_sorted_Nil [simp]: "gap_sorted lo hi []"
  by (simp add: gap_sorted_def)

lemma gap_sorted_Cons:
  "gap_sorted lo hi (x # xs) \<longleftrightarrow>
     lo x \<le> hi x \<and> (\<forall>y \<in> set xs. hi x < lo y) \<and> gap_sorted lo hi xs"
  by (auto simp: gap_sorted_def list_all_iff)

lemma gap_sorted_append:
  "gap_sorted lo hi (xs @ ys) \<longleftrightarrow>
     gap_sorted lo hi xs \<and> gap_sorted lo hi ys \<and> (\<forall>x \<in> set xs. \<forall>y \<in> set ys. hi x < lo y)"
  by (auto simp: gap_sorted_def list_all_iff sorted_wrt_append)

lemma gap_sorted_valid: "gap_sorted lo hi xs \<Longrightarrow> x \<in> set xs \<Longrightarrow> lo x \<le> hi x"
  by (auto simp: gap_sorted_def list_all_iff)

text \<open>Comparisons of the bounds with a number are monotonous along such a list.\<close>

lemma gap_sorted_prefix_pred:
  assumes "gap_sorted lo hi xs"
  shows "prefix_pred (\<lambda>x. lo x \<le> k) xs" "prefix_pred (\<lambda>x. lo x < k) xs"
    "prefix_pred (\<lambda>x. hi x < k) xs" "prefix_pred (\<lambda>x. hi x \<le> k) xs"
proof -
  have "sorted_wrt (\<lambda>a b. lo a \<le> hi a \<and> hi a < lo b \<and> lo b \<le> hi b) xs"
    using assms by (induction xs) (auto simp: gap_sorted_Cons gap_sorted_valid)
  then show "prefix_pred (\<lambda>x. lo x \<le> k) xs" "prefix_pred (\<lambda>x. lo x < k) xs"
    "prefix_pred (\<lambda>x. hi x < k) xs" "prefix_pred (\<lambda>x. hi x \<le> k) xs"
    by (auto elim!: prefix_pred_sorted_wrt)
qed

lemma sorted_dropWhile_not:
  assumes "prefix_pred p xs" "x \<in> set (dropWhile p xs)"
  shows "\<not> p x"
proof
  assume "p x"
  let ?t = "length (takeWhile p xs)"
  from assms(2) obtain n where n: "n < length xs - ?t" "xs ! (?t + n) = x"
    by (auto simp: dropWhile_eq_drop in_set_conv_nth)
  then have "p (xs ! ?t)" using prefix_predD [OF assms(1), of ?t "?t + n"] \<open>p x\<close> by simp
  then show False using nth_length_takeWhile [of p xs] n(1) by simp
qed

subsection \<open>Inserting an interval\<close>

text \<open>
  The part of a list before, touching and after the interval from \<open>a\<close> to \<open>b\<close>.
\<close>

abbreviation part_before :: "('r \<Rightarrow> int) \<Rightarrow> int \<Rightarrow> 'r list \<Rightarrow> 'r list" where
  "part_before hi a xs \<equiv> takeWhile (\<lambda>x. hi x < a) xs"

abbreviation part_touching :: "('r \<Rightarrow> int) \<Rightarrow> ('r \<Rightarrow> int) \<Rightarrow> int \<Rightarrow> int \<Rightarrow> 'r list \<Rightarrow> 'r list" where
  "part_touching lo hi a b xs \<equiv> takeWhile (\<lambda>x. lo x \<le> b) (dropWhile (\<lambda>x. hi x < a) xs)"

abbreviation part_after :: "('r \<Rightarrow> int) \<Rightarrow> ('r \<Rightarrow> int) \<Rightarrow> int \<Rightarrow> int \<Rightarrow> 'r list \<Rightarrow> 'r list" where
  "part_after lo hi a b xs \<equiv> dropWhile (\<lambda>x. lo x \<le> b) (dropWhile (\<lambda>x. hi x < a) xs)"

lemma parts_append:
  "part_before hi a xs @ part_touching lo hi a b xs @ part_after lo hi a b xs = xs"
  by simp

lemma parts_bounds:
  assumes "gap_sorted lo hi xs" "a \<le> b"
  shows "\<And>x. x \<in> set (part_before hi a xs) \<Longrightarrow> hi x < a"
    and "\<And>x. x \<in> set (part_touching lo hi a b xs) \<Longrightarrow> a \<le> hi x \<and> lo x \<le> b"
    and "\<And>x. x \<in> set (part_after lo hi a b xs) \<Longrightarrow> b < lo x"
proof -
  have drop: "gap_sorted lo hi (dropWhile (\<lambda>x. hi x < a) xs)"
    using assms(1) gap_sorted_append [of lo hi "part_before hi a xs"] by (metis takeWhile_dropWhile_id)
  show "hi x < a" if "x \<in> set (part_before hi a xs)" for x
    using set_takeWhileD [OF that] by simp
  show "a \<le> hi x \<and> lo x \<le> b" if "x \<in> set (part_touching lo hi a b xs)" for x
    using set_takeWhileD [OF that]
      sorted_dropWhile_not [OF gap_sorted_prefix_pred(3) [OF assms(1), of a], of x]
    by (simp add: not_less)
  show "b < lo x" if "x \<in> set (part_after lo hi a b xs)" for x
    using sorted_dropWhile_not [OF gap_sorted_prefix_pred(1) [OF drop] that] by simp
qed

lemma part_lengths:
  assumes "gap_sorted lo hi xs" "a \<le> b"
  shows "length (takeWhile (\<lambda>x. lo x \<le> b) xs) =
    length (part_before hi a xs) + length (part_touching lo hi a b xs)"
proof -
  have "lo x \<le> b" if "x \<in> set (part_before hi a xs)" for x
    using set_takeWhileD [OF that] gap_sorted_valid [OF assms(1)] assms(2) by fastforce
  then have "takeWhile (\<lambda>x. lo x \<le> b) (part_before hi a xs @ dropWhile (\<lambda>x. hi x < a) xs) =
      part_before hi a xs @ part_touching lo hi a b xs"
    by (rule takeWhile_append2)
  then show ?thesis by simp
qed

lemma covered_between:
  assumes "gap_sorted lo hi xs" "a \<le> b"
  shows "covered lo hi xs \<inter> {a..<b} = covered lo hi (part_touching lo hi a b xs) \<inter> {a..<b}"
proof -
  have "covered lo hi xs = covered lo hi (part_before hi a xs) \<union>
      covered lo hi (part_touching lo hi a b xs) \<union> covered lo hi (part_after lo hi a b xs)"
    using arg_cong [OF parts_append [of hi a xs lo b], of "covered lo hi"]
    by (simp only: covered_simps Un_assoc)
  then show ?thesis
    using parts_bounds(1,3) [OF assms] by (fastforce simp: covered_iff)
qed

lemma gap_sorted_hd_last:
  assumes "gap_sorted lo hi xs" "x \<in> set xs"
  shows "lo (hd xs) \<le> lo x \<and> hi x \<le> hi (last xs)"
proof -
  have "lo (hd xs) \<le> lo x"
    using assms by (cases xs) (auto simp: gap_sorted_Cons)
  moreover have "hi x \<le> hi (last xs)"
    using assms by (induction xs rule: rev_induct) (force simp: gap_sorted_append gap_sorted_Cons)+
  ultimately show ?thesis ..
qed

lemma covered_touching:
  assumes "gap_sorted lo hi ms" "ms \<noteq> []" "a \<le> b"
    and touch: "\<And>x. x \<in> set ms \<Longrightarrow> a \<le> hi x \<and> lo x \<le> b"
  shows "{min a (lo (hd ms))..<max b (hi (last ms))} = {a..<b} \<union> covered lo hi ms"
proof (intro set_eqI iffI)
  fix k assume k: "k \<in> {min a (lo (hd ms))..<max b (hi (last ms))}"
  have "hd ms \<in> set ms" "last ms \<in> set ms" using assms(2) by auto
  with touch [of "hd ms"] touch [of "last ms"] k show "k \<in> {a..<b} \<union> covered lo hi ms"
    by (force simp: covered_iff)
next
  fix k assume "k \<in> {a..<b} \<union> covered lo hi ms"
  then show "k \<in> {min a (lo (hd ms))..<max b (hi (last ms))}"
    using gap_sorted_hd_last [OF assms(1)] by (fastforce simp: covered_iff)
qed

text \<open>
  Replacing the touching part by one interval that spans it keeps the list sorted with
  gaps and adds exactly the numbers of the interval.
\<close>

lemma insert_interval:
  assumes sorted: "gap_sorted lo hi xs" and "a \<le> b"
    and new: "if part_touching lo hi a b xs = [] then lo r = a \<and> hi r = b
      else lo r = min a (lo (hd (part_touching lo hi a b xs))) \<and>
           hi r = max b (hi (last (part_touching lo hi a b xs)))"
  shows "gap_sorted lo hi (part_before hi a xs @ [r] @ part_after lo hi a b xs)"
    and "covered lo hi (part_before hi a xs @ [r] @ part_after lo hi a b xs) =
      covered lo hi xs \<union> {a..<b}"
proof -
  let ?B = "part_before hi a xs" and ?M = "part_touching lo hi a b xs"
    and ?A = "part_after lo hi a b xs"
  note bnds = parts_bounds [OF sorted \<open>a \<le> b\<close>]
  have xs: "?B @ ?M @ ?A = xs" by (rule parts_append)
  from sorted have "gap_sorted lo hi (?B @ ?M @ ?A)" unfolding xs .
  then have parts: "gap_sorted lo hi ?B" "gap_sorted lo hi ?M" "gap_sorted lo hi ?A"
    "\<forall>x \<in> set ?B. \<forall>y \<in> set ?A. hi x < lo y" "\<forall>x \<in> set ?B. \<forall>y \<in> set ?M. hi x < lo y"
    "\<forall>x \<in> set ?M. \<forall>y \<in> set ?A. hi x < lo y"
    unfolding gap_sorted_append set_append by blast+
  have cov: "covered lo hi xs = covered lo hi ?B \<union> covered lo hi ?M \<union> covered lo hi ?A"
    using arg_cong [OF xs, of "covered lo hi"] by (simp only: covered_simps Un_assoc)
  have "(\<forall>x \<in> set ?B. hi x < lo r) \<and> (\<forall>y \<in> set ?A. hi r < lo y) \<and> lo r \<le> hi r \<and>
      {lo r..<hi r} = {a..<b} \<union> covered lo hi ?M"
  proof (cases "?M = []")
    case True
    with new bnds \<open>a \<le> b\<close> show ?thesis by auto
  next
    case False
    then have mem: "hd ?M \<in> set ?M" "last ?M \<in> set ?M" by (rule hd_in_set, rule last_in_set)
    from False new have r: "lo r = min a (lo (hd ?M))" "hi r = max b (hi (last ?M))" by auto
    have "{lo r..<hi r} = {a..<b} \<union> covered lo hi ?M"
      unfolding r by (rule covered_touching [OF parts(2) False \<open>a \<le> b\<close> bnds(2)])
    moreover have "\<forall>x \<in> set ?B. hi x < lo r" "\<forall>y \<in> set ?A. hi r < lo y"
      using parts(5,6) mem bnds(1,3) unfolding r by auto
    moreover have "lo r \<le> hi r" using \<open>a \<le> b\<close> unfolding r by linarith
    ultimately show ?thesis by simp
  qed
  then show "gap_sorted lo hi (?B @ [r] @ ?A)" "covered lo hi (?B @ [r] @ ?A) = covered lo hi xs \<union> {a..<b}"
    using parts(1,3,4) unfolding cov by (auto simp: gap_sorted_append gap_sorted_Cons)
qed

end
