(* ===== verification/OffsetRange.thy ===== *)
theory OffsetRange
  imports Intervals
begin

text \<open>
  Model of \<open>editor/common/core/offsetRange.ts\<close>: half-open ranges of offsets and sets of
  offsets kept as sorted lists of ranges. The constructor throws on an inverted range,
  so every operation that constructs a range returns a result.
\<close>

section \<open>OffsetRange\<close>

datatype OffsetRange = MkOffsetRange (or_start: int) (or_endExclusive: int)

definition OffsetRange_new :: "int \<Rightarrow> int \<Rightarrow> OffsetRange result" where
  "OffsetRange_new s e = (if s > e then Inl BugIndicatingError else Inr (MkOffsetRange s e))"

definition OffsetRange_tryCreate :: "int \<Rightarrow> int \<Rightarrow> OffsetRange option result" where
  "OffsetRange_tryCreate s e = (if s > e then Inr None else emap Some (OffsetRange_new s e))"

definition OffsetRange_ofLength :: "int \<Rightarrow> OffsetRange result" where
  "OffsetRange_ofLength n = OffsetRange_new 0 n"

definition OffsetRange_ofStartAndLength :: "int \<Rightarrow> int \<Rightarrow> OffsetRange result" where
  "OffsetRange_ofStartAndLength s n = OffsetRange_new s (s + n)"

definition OffsetRange_emptyAt :: "int \<Rightarrow> OffsetRange result" where
  "OffsetRange_emptyAt k = OffsetRange_new k k"

definition OffsetRange_isEmpty :: "OffsetRange \<Rightarrow> bool" where
  "OffsetRange_isEmpty r \<longleftrightarrow> or_start r = or_endExclusive r"

definition OffsetRange_delta :: "OffsetRange \<Rightarrow> int \<Rightarrow> OffsetRange result" where
  "OffsetRange_delta r k = OffsetRange_new (or_start r + k) (or_endExclusive r + k)"

definition OffsetRange_deltaStart :: "OffsetRange \<Rightarrow> int \<Rightarrow> OffsetRange result" where
  "OffsetRange_deltaStart r k = OffsetRange_new (or_start r + k) (or_endExclusive r)"

definition OffsetRange_deltaEnd :: "OffsetRange \<Rightarrow> int \<Rightarrow> OffsetRange result" where
  "OffsetRange_deltaEnd r k = OffsetRange_new (or_start r) (or_endExclusive r + k)"

definition OffsetRange_length :: "OffsetRange \<Rightarrow> int" where
  "OffsetRange_length r = or_endExclusive r - or_start r"

definition OffsetRange_equals :: "OffsetRange \<Rightarrow> OffsetRange \<Rightarrow> bool" where
  "OffsetRange_equals r s \<longleftrightarrow> or_start r = or_start s \<and> or_endExclusive r = or_endExclusive s"

definition OffsetRange_containsRange :: "OffsetRange \<Rightarrow> OffsetRange \<Rightarrow> bool" where
  "OffsetRange_containsRange r s \<longleftrightarrow> or_start r \<le> or_start s \<and> or_endExclusive s \<le> or_endExclusive r"

definition OffsetRange_contains :: "OffsetRange \<Rightarrow> int \<Rightarrow> bool" where
  "OffsetRange_contains r k \<longleftrightarrow> or_start r \<le> k \<and> k < or_endExclusive r"

definition OffsetRange_join :: "OffsetRange \<Rightarrow> OffsetRange \<Rightarrow> OffsetRange result" where
  "OffsetRange_join r s =
     OffsetRange_new (min (or_start r) (or_start s)) (max (or_endExclusive r) (or_endExclusive s))"

definition OffsetRange_intersect :: "OffsetRange \<Rightarrow> OffsetRange \<Rightarrow> OffsetRange option result" where
  "OffsetRange_intersect r s =
     (let a = max (or_start r) (or_start s); b = min (or_endExclusive r) (or_endExclusive s)
      in if a \<le> b then emap Some (OffsetRange_new a b) else Inr None)"

definition OffsetRange_intersectionLength :: "OffsetRange \<Rightarrow> OffsetRange \<Rightarrow> int" where
  "OffsetRange_intersectionLength r s =
     (let a = max (or_start r) (or_start s); b = min (or_endExclusive r) (or_endExclusive s)
      in max 0 (b - a))"

definition OffsetRange_intersects :: "OffsetRange \<Rightarrow> OffsetRange \<Rightarrow> bool" where
  "OffsetRange_intersects r s =
     (let a = max (or_start r) (or_start s); b = min (or_endExclusive r) (or_endExclusive s)
      in a < b)"

definition OffsetRange_intersectsOrTouches :: "OffsetRange \<Rightarrow> OffsetRange \<Rightarrow> bool" where
  "OffsetRange_intersectsOrTouches r s =
     (let a = max (or_start r) (or_start s); b = min (or_endExclusive r) (or_endExclusive s)
      in a \<le> b)"

definition OffsetRange_isBefore :: "OffsetRange \<Rightarrow> OffsetRange \<Rightarrow> bool" where
  "OffsetRange_isBefore r s \<longleftrightarrow> or_endExclusive r \<le> or_start s"

definition OffsetRange_isAfter :: "OffsetRange \<Rightarrow> OffsetRange \<Rightarrow> bool" where
  "OffsetRange_isAfter r s \<longleftrightarrow> or_start r \<ge> or_endExclusive s"

definition OffsetRange_slice :: "OffsetRange \<Rightarrow> 'a list \<Rightarrow> 'a list" where
  "OffsetRange_slice r arr = js_slice arr (or_start r) (or_endExclusive r)"

definition OffsetRange_substring :: "OffsetRange \<Rightarrow> js_string \<Rightarrow> js_string" where
  "OffsetRange_substring r str = js_substring str (or_start r) (or_endExclusive r)"

definition OffsetRange_clip :: "OffsetRange \<Rightarrow> int \<Rightarrow> int result" where
  "OffsetRange_clip r v =
     (if OffsetRange_isEmpty r then Inl BugIndicatingError
      else Inr (max (or_start r) (min (or_endExclusive r - 1) v)))"

definition OffsetRange_clipCyclic :: "OffsetRange \<Rightarrow> int \<Rightarrow> int result" where
  "OffsetRange_clipCyclic r v =
     (if OffsetRange_isEmpty r then Inl BugIndicatingError
      else if v < or_start r
        then Inr (or_endExclusive r - js_rem (or_start r - v) (OffsetRange_length r))
      else if v \<ge> or_endExclusive r
        then Inr (or_start r + js_rem (v - or_start r) (OffsetRange_length r))
      else Inr v)"

definition OffsetRange_map :: "OffsetRange \<Rightarrow> (int \<Rightarrow> 'a) \<Rightarrow> 'a list" where
  "OffsetRange_map r f = map f (int_upto (or_start r) (or_endExclusive r))"

text \<open>\<open>forEach\<close> runs a callback for its effect: here on a state \<open>'s\<close>.\<close>

definition OffsetRange_forEach :: "OffsetRange \<Rightarrow> (int \<Rightarrow> 's \<Rightarrow> 's) \<Rightarrow> 's \<Rightarrow> 's" where
  "OffsetRange_forEach r f = fold f (int_upto (or_start r) (or_endExclusive r))"

section \<open>OffsetRangeSet\<close>

text \<open>The static \<open>OffsetRange.addRange\<close> updates the array it is given.\<close>

definition OffsetRange_addRange :: "OffsetRange \<Rightarrow> OffsetRange list \<Rightarrow> OffsetRange list result" where
  "OffsetRange_addRange r sortedRanges =
     (let i = scan_while (\<lambda>x. or_endExclusive x < or_start r) sortedRanges 0;
          j = scan_while (\<lambda>x. or_start x \<le> or_endExclusive r) sortedRanges i
      in if i = j then Inr (js_splice sortedRanges (int i) 0 [r])
         else let s = min (or_start r) (or_start (sortedRanges ! i));
                  e = max (or_endExclusive r) (or_endExclusive (sortedRanges ! (j - 1)))
              in emap (\<lambda>new. js_splice sortedRanges (int i) (int (j - i)) [new]) (OffsetRange_new s e))"

record OffsetRangeSet =
  ors_sortedRanges :: "OffsetRange list"

definition OffsetRangeSet_new :: OffsetRangeSet where
  "OffsetRangeSet_new = \<lparr>ors_sortedRanges = []\<rparr>"

definition OffsetRangeSet_addRange :: "OffsetRangeSet \<Rightarrow> OffsetRange \<Rightarrow> OffsetRangeSet result" where
  "OffsetRangeSet_addRange rs r =
     (let xs = ors_sortedRanges rs;
          i = scan_while (\<lambda>x. or_endExclusive x < or_start r) xs 0;
          j = scan_while (\<lambda>x. or_start x \<le> or_endExclusive r) xs i
      in if i = j then Inr (rs\<lparr>ors_sortedRanges := js_splice xs (int i) 0 [r]\<rparr>)
         else let s = min (or_start r) (or_start (xs ! i));
                  e = max (or_endExclusive r) (or_endExclusive (xs ! (j - 1)))
              in emap (\<lambda>new. rs\<lparr>ors_sortedRanges := js_splice xs (int i) (int (j - i)) [new]\<rparr>)
                   (OffsetRange_new s e))"

definition OffsetRangeSet_intersectsStrict :: "OffsetRangeSet \<Rightarrow> OffsetRange \<Rightarrow> bool" where
  "OffsetRangeSet_intersectsStrict rs other =
     (let xs = ors_sortedRanges rs;
          i = scan_while (\<lambda>x. or_endExclusive x \<le> or_start other) xs 0
      in i < length xs \<and> or_start (xs ! i) < or_endExclusive other)"

definition OffsetRangeSet_intersectWithRange ::
    "OffsetRangeSet \<Rightarrow> OffsetRange \<Rightarrow> OffsetRangeSet result" where
  "OffsetRangeSet_intersectWithRange rs other =
     efold (\<lambda>r result. ebind (OffsetRange_intersect r other)
         (\<lambda>intersection. case intersection of
            None \<Rightarrow> Inr result | Some x \<Rightarrow> OffsetRangeSet_addRange result x))
       (ors_sortedRanges rs) OffsetRangeSet_new"

definition OffsetRangeSet_length :: "OffsetRangeSet \<Rightarrow> int" where
  "OffsetRangeSet_length rs = foldl (\<lambda>prev cur. prev + OffsetRange_length cur) 0 (ors_sortedRanges rs)"

definition OffsetRangeSet_intersectWithRangeLength :: "OffsetRangeSet \<Rightarrow> OffsetRange \<Rightarrow> int result" where
  "OffsetRangeSet_intersectWithRangeLength rs other =
     emap OffsetRangeSet_length (OffsetRangeSet_intersectWithRange rs other)"

section \<open>Single ranges\<close>

abbreviation or_ok :: "OffsetRange \<Rightarrow> bool" where
  "or_ok r \<equiv> or_start r \<le> or_endExclusive r"

definition or_set :: "OffsetRange \<Rightarrow> int set" where
  "or_set r = {or_start r..<or_endExclusive r}"

lemma in_or_set: "k \<in> or_set r \<longleftrightarrow> or_start r \<le> k \<and> k < or_endExclusive r"
  by (simp add: or_set_def)

interpretation offset_range: half_open or_start or_endExclusive OffsetRange_new OffsetRange_join
  OffsetRange_intersect
  by unfold_locales
    (auto simp: OffsetRange_new_def OffsetRange_join_def OffsetRange_intersect_def
      intro: OffsetRange.expand)

lemma OffsetRange_new_Inr [simp]: "s \<le> e \<Longrightarrow> OffsetRange_new s e = Inr (MkOffsetRange s e)"
  by (simp add: OffsetRange_new_def)

lemma OffsetRange_delta_Inr [simp]:
  "or_ok r \<Longrightarrow> OffsetRange_delta r k = Inr (MkOffsetRange (or_start r + k) (or_endExclusive r + k))"
  by (simp add: OffsetRange_delta_def)

lemma OffsetRange_ofStartAndLength_Inr [simp]:
  "0 \<le> n \<Longrightarrow> OffsetRange_ofStartAndLength s n = Inr (MkOffsetRange s (s + n))"
  by (simp add: OffsetRange_ofStartAndLength_def)

lemma OffsetRange_contains_iff: "OffsetRange_contains r k \<longleftrightarrow> k \<in> or_set r"
  by (simp add: OffsetRange_contains_def in_or_set)

lemma OffsetRange_intersect_cases:
  obtains t where "OffsetRange_intersect r s = Inr t"
    and "case t of None \<Rightarrow> or_set r \<inter> or_set s = {}
      | Some u \<Rightarrow> or_ok u \<and> or_set u = or_set r \<inter> or_set s"
    and "OffsetRange_intersectionLength r s = (case t of None \<Rightarrow> 0 | Some u \<Rightarrow> OffsetRange_length u)"
proof -
  obtain t where t: "OffsetRange_intersect r s = Inr t"
    and spec: "case t of None \<Rightarrow> or_set r \<inter> or_set s = {}
      | Some u \<Rightarrow> or_ok u \<and> or_set u = or_set r \<inter> or_set s \<and>
          or_start u = max (or_start r) (or_start s) \<and>
          or_endExclusive u = min (or_endExclusive r) (or_endExclusive s)"
    using offset_range.intersect_exact [of r s] unfolding or_set_def by blast
  have "OffsetRange_intersectionLength r s = (case t of None \<Rightarrow> 0 | Some u \<Rightarrow> OffsetRange_length u)"
    using spec t
    by (auto simp: OffsetRange_intersectionLength_def OffsetRange_length_def OffsetRange_intersect_def
        Let_def split: option.splits if_splits)
  with t spec show ?thesis by (intro that [of t]) (auto split: option.splits)
qed

text \<open>
  \<open>OffsetRange.intersect\<close> never throws, and its result contains an offset exactly
  when both ranges do; when the result is \<open>undefined\<close> no offset is in both.
\<close>

theorem OffsetRange_intersect_exact:
  "\<exists>t. OffsetRange_intersect r s = Inr t \<and>
     (\<forall>n. OffsetRange_contains r n \<and> OffsetRange_contains s n \<longleftrightarrow>
        (case t of None \<Rightarrow> False | Some u \<Rightarrow> OffsetRange_contains u n)) \<and>
     OffsetRange_intersectionLength r s = (case t of None \<Rightarrow> 0 | Some u \<Rightarrow> OffsetRange_length u)"
proof (rule OffsetRange_intersect_cases [of r s])
  fix t
  assume "OffsetRange_intersect r s = Inr t"
    and "case t of None \<Rightarrow> or_set r \<inter> or_set s = {}
      | Some u \<Rightarrow> or_ok u \<and> or_set u = or_set r \<inter> or_set s"
    and "OffsetRange_intersectionLength r s = (case t of None \<Rightarrow> 0 | Some u \<Rightarrow> OffsetRange_length u)"
  then show ?thesis
    unfolding OffsetRange_contains_iff by (intro exI [of _ t]) (auto split: option.splits)
qed

lemma OffsetRange_clip_contained:
  "or_ok r \<Longrightarrow> OffsetRange_clip r v = Inr c \<Longrightarrow>
   OffsetRange_contains r c \<and> (\<forall>n. OffsetRange_contains r n \<longrightarrow> \<bar>c - v\<bar> \<le> \<bar>n - v\<bar>)"
  by (auto simp: OffsetRange_clip_def OffsetRange_contains_def OffsetRange_isEmpty_def split: if_splits)

text \<open>
  On a range that is not empty, \<open>clipCyclic\<close> returns a number that differs from its
  argument by a multiple of the length, as its comment says, and the number lies in the
  range unless the argument is below the range by a multiple of the length: then the
  result is \<open>endExclusive\<close>, which the range does not contain.
\<close>

theorem OffsetRange_clipCyclic_contained:
  assumes "or_start r < or_endExclusive r"
  shows "\<exists>c. OffsetRange_clipCyclic r v = Inr c \<and> OffsetRange_length r dvd c - v \<and>
    (OffsetRange_contains r c \<longleftrightarrow>
       \<not> (v < or_start r \<and> OffsetRange_length r dvd or_start r - v)) \<and>
    (v < or_start r \<and> OffsetRange_length r dvd or_start r - v \<longrightarrow> c = or_endExclusive r)"
proof -
  define n where "n = OffsetRange_length r"
  define a where "a = or_start r"
  have n: "0 < n" and e: "or_endExclusive r = a + n"
    using assms by (auto simp: n_def a_def OffsetRange_length_def)
  consider "v < a" | "a + n \<le> v" | "a \<le> v" "v < a + n" by linarith
  then show ?thesis
  proof cases
    case 1
    let ?m = "(a - v) mod n"
    have m: "0 \<le> ?m" "?m < n" using n by auto
    moreover have "n dvd a + n - ?m - v"
    proof -
      have "a + n - ?m - v = n + n * ((a - v) div n)"
        using minus_mod_eq_mult_div [of "a - v" n] by linarith
      then show ?thesis by (metis dvd_add dvd_refl dvd_triv_left)
    qed
    moreover have "n dvd a - v \<longleftrightarrow> ?m = 0" by (simp add: dvd_eq_mod_eq_0)
    moreover have "OffsetRange_clipCyclic r v = Inr (a + n - ?m)"
      using 1 n by (simp add: OffsetRange_clipCyclic_def OffsetRange_isEmpty_def
          n_def [symmetric] a_def [symmetric] e)
    moreover have "OffsetRange_contains r (a + n - ?m) \<longleftrightarrow> ?m \<noteq> 0"
      using m by (auto simp: OffsetRange_contains_def a_def [symmetric] e)
    ultimately show ?thesis
      using 1 by (auto simp: n_def [symmetric] a_def [symmetric] e)
  next
    case 2
    let ?m = "(v - a) mod n"
    have "0 \<le> ?m" "?m < n" using n by auto
    moreover have "n dvd a + ?m - v"
    proof -
      have "a + ?m - v = n * - ((v - a) div n)"
        using minus_mod_eq_mult_div [of "v - a" n] by (simp add: algebra_simps)
      then show ?thesis by simp
    qed
    ultimately show ?thesis
      using 2 n by (auto simp: OffsetRange_clipCyclic_def OffsetRange_isEmpty_def
          OffsetRange_contains_def n_def [symmetric] a_def [symmetric] e)
  next
    case 3
    then show ?thesis
      using n by (auto simp: OffsetRange_clipCyclic_def OffsetRange_isEmpty_def
          OffsetRange_contains_def n_def [symmetric] a_def [symmetric] e)
  qed
qed

theorem OffsetRange_clipCyclic_contained_witness:
  "OffsetRange_clipCyclic (MkOffsetRange 5 10) 0 = Inr 10 \<and>
   \<not> OffsetRange_contains (MkOffsetRange 5 10) 10"
  using OffsetRange_clipCyclic_contained [of "MkOffsetRange 5 10" 0]
  by (simp add: OffsetRange_length_def OffsetRange_contains_def)

section \<open>Sets of offsets\<close>

abbreviation ors_ok :: "OffsetRange list \<Rightarrow> bool" where
  "ors_ok \<equiv> gap_sorted or_start or_endExclusive"

abbreviation ors_set :: "OffsetRange list \<Rightarrow> int set" where
  "ors_set \<equiv> covered or_start or_endExclusive"

lemma OffsetRange_addRange_parts:
  fixes r xs
  defines "B \<equiv> part_before or_endExclusive (or_start r) xs"
    and "M \<equiv> part_touching or_start or_endExclusive (or_start r) (or_endExclusive r) xs"
    and "A \<equiv> part_after or_start or_endExclusive (or_start r) (or_endExclusive r) xs"
  shows "OffsetRange_addRange r xs =
    (if M = [] then Inr (B @ [r] @ A)
     else emap (\<lambda>new. B @ [new] @ A)
       (OffsetRange_new (min (or_start r) (or_start (hd M))) (max (or_endExclusive r) (or_endExclusive (last M)))))"
proof -
  have xs: "xs = B @ M @ A" by (simp add: B_def M_def A_def)
  have i: "scan_while (\<lambda>x. or_endExclusive x < or_start r) xs 0 = length B"
    by (simp add: scan_while_0 B_def)
  have j: "scan_while (\<lambda>x. or_start x \<le> or_endExclusive r) xs (length B) = length B + length M"
    by (simp add: scan_while_takeWhile B_def M_def dropWhile_eq_drop)
  have at: "xs ! length B = hd M" "xs ! (length B + length M - 1) = last M" if "M \<noteq> []"
    unfolding xs by (rule nth_append_hd_last [OF that])+
  have splice: "js_splice xs (int (length B)) (int (length M)) items = B @ items @ A" for items
    by (simp only: xs js_splice_append)
  show ?thesis
  proof (cases "M = []")
    case True
    with splice [of "[r]"] show ?thesis by (simp add: OffsetRange_addRange_def i j)
  next
    case False
    with at splice show ?thesis by (simp add: OffsetRange_addRange_def i j)
  qed
qed

lemma OffsetRange_addRange_spec:
  assumes "ors_ok xs" "or_ok r"
  shows "\<exists>ys. OffsetRange_addRange r xs = Inr ys \<and> ors_ok ys \<and> ors_set ys = ors_set xs \<union> or_set r"
proof -
  let ?B = "part_before or_endExclusive (or_start r) xs"
    and ?M = "part_touching or_start or_endExclusive (or_start r) (or_endExclusive r) xs"
    and ?A = "part_after or_start or_endExclusive (or_start r) (or_endExclusive r) xs"
  define new where "new = (if ?M = [] then r else MkOffsetRange (min (or_start r) (or_start (hd ?M)))
    (max (or_endExclusive r) (or_endExclusive (last ?M))))"
  have "OffsetRange_addRange r xs = Inr (?B @ [new] @ ?A)"
    using assms(2) by (auto simp: OffsetRange_addRange_parts new_def)
  then show ?thesis
    using insert_interval [OF assms, where r = new] by (auto simp: new_def or_set_def)
qed

lemma OffsetRangeSet_addRange_eq:
  "OffsetRangeSet_addRange rs r =
     emap (\<lambda>xs. rs\<lparr>ors_sortedRanges := xs\<rparr>) (OffsetRange_addRange r (ors_sortedRanges rs))"
  by (simp add: OffsetRangeSet_addRange_def OffsetRange_addRange_def Let_def OffsetRange_new_def)

text \<open>
  \<open>OffsetRangeSet.addRange\<close> on a set that is sorted with gaps and a valid range never
  throws, keeps the set sorted with gaps, and adds exactly the offsets of the range.
\<close>

theorem OffsetRangeSet_addRange_union:
  assumes "ors_ok (ors_sortedRanges rs)" "or_ok r"
  shows "\<exists>rs'. OffsetRangeSet_addRange rs r = Inr rs' \<and> ors_ok (ors_sortedRanges rs') \<and>
    ors_set (ors_sortedRanges rs') = ors_set (ors_sortedRanges rs) \<union> or_set r"
  using OffsetRange_addRange_spec [OF assms] by (auto simp: OffsetRangeSet_addRange_eq)

theorem OffsetRangeSet_addRange_union_witness:
  "\<exists>rs'. OffsetRangeSet_addRange \<lparr>ors_sortedRanges = [MkOffsetRange 1 3, MkOffsetRange 5 6]\<rparr>
       (MkOffsetRange 3 5) = Inr rs' \<and>
     ors_set (ors_sortedRanges rs') =
       ors_set [MkOffsetRange 1 3, MkOffsetRange 5 6] \<union> or_set (MkOffsetRange 3 5)"
  using OffsetRangeSet_addRange_union
    [of "\<lparr>ors_sortedRanges = [MkOffsetRange 1 3, MkOffsetRange 5 6]\<rparr>" "MkOffsetRange 3 5"]
  by (auto simp: gap_sorted_Cons)

lemma ors_set_Cons: "ors_set (x # xs) = or_set x \<union> ors_set xs"
  by (simp add: or_set_def)

lemma intersectWithRange_fold:
  assumes "ors_ok (ors_sortedRanges res)"
  shows "\<exists>rs'. efold (\<lambda>r result. ebind (OffsetRange_intersect r other)
           (\<lambda>i. case i of None \<Rightarrow> Inr result | Some x \<Rightarrow> OffsetRangeSet_addRange result x)) xs res = Inr rs' \<and>
     ors_ok (ors_sortedRanges rs') \<and>
     ors_set (ors_sortedRanges rs') = ors_set (ors_sortedRanges res) \<union> (ors_set xs \<inter> or_set other)"
  using assms
proof (induction xs arbitrary: res)
  case (Cons x xs)
  obtain t where t: "OffsetRange_intersect x other = Inr t"
    "case t of None \<Rightarrow> or_set x \<inter> or_set other = {}
      | Some u \<Rightarrow> or_ok u \<and> or_set u = or_set x \<inter> or_set other"
    by (rule OffsetRange_intersect_cases)
  let ?add = "case t of None \<Rightarrow> Inr res | Some y \<Rightarrow> OffsetRangeSet_addRange res y"
  have "\<exists>res'. ?add = Inr res' \<and> ors_ok (ors_sortedRanges res') \<and>
    ors_set (ors_sortedRanges res') = ors_set (ors_sortedRanges res) \<union> (or_set x \<inter> or_set other)"
  proof (cases t)
    case (Some u)
    with t(2) Cons.prems OffsetRange_addRange_spec [of "ors_sortedRanges res" u] show ?thesis
      by (auto simp: OffsetRangeSet_addRange_eq)
  qed (use t(2) Cons.prems in auto)
  then obtain res' where add: "?add = Inr res'" and ok: "ors_ok (ors_sortedRanges res')"
    and cov: "ors_set (ors_sortedRanges res') = ors_set (ors_sortedRanges res) \<union> (or_set x \<inter> or_set other)"
    by blast
  from Cons.IH [OF ok] add t(1) show ?case
    unfolding ors_set_Cons cov by (simp add: Int_Un_distrib2 Un_assoc)
qed simp

text \<open>
  \<open>OffsetRangeSet.intersectWithRange\<close> never throws; it returns a set that is sorted
  with gaps and holds exactly the offsets of the set that lie in the range.
\<close>

theorem OffsetRangeSet_intersectWithRange_exact:
  "\<exists>rs'. OffsetRangeSet_intersectWithRange rs other = Inr rs' \<and> ors_ok (ors_sortedRanges rs') \<and>
     ors_set (ors_sortedRanges rs') = ors_set (ors_sortedRanges rs) \<inter> or_set other"
  using intersectWithRange_fold [of OffsetRangeSet_new other "ors_sortedRanges rs"]
  by (auto simp: OffsetRangeSet_intersectWithRange_def OffsetRangeSet_new_def)

text \<open>The length of a set is the number of its offsets.\<close>

lemma ors_length_card: "ors_ok xs \<Longrightarrow> sum_list (map OffsetRange_length xs) = int (card (ors_set xs))"
proof (induction xs)
  case (Cons x xs)
  have "or_set x \<inter> ors_set xs = {}"
    using Cons.prems by (fastforce simp: gap_sorted_Cons covered_iff in_or_set)
  then have "card (ors_set (x # xs)) = card (or_set x) + card (ors_set xs)"
    unfolding ors_set_Cons by (intro card_Un_disjoint) (simp_all add: or_set_def)
  with Cons show ?case by (simp add: gap_sorted_Cons OffsetRange_length_def or_set_def)
qed simp

text \<open>
  \<open>intersectWithRangeLength\<close> counts the offsets of the set that lie in the range.
\<close>

theorem OffsetRangeSet_intersectWithRangeLength_card:
  "OffsetRangeSet_intersectWithRangeLength rs other =
     Inr (int (card (ors_set (ors_sortedRanges rs) \<inter> or_set other)))"
proof -
  obtain rs' where rs': "OffsetRangeSet_intersectWithRange rs other = Inr rs'"
    and ok: "ors_ok (ors_sortedRanges rs')"
    and cov: "ors_set (ors_sortedRanges rs') = ors_set (ors_sortedRanges rs) \<inter> or_set other"
    using intersectWithRange_fold [of OffsetRangeSet_new other "ors_sortedRanges rs"]
    by (auto simp: OffsetRangeSet_intersectWithRange_def OffsetRangeSet_new_def)
  show ?thesis
    using ors_length_card [OF ok]
    by (simp add: OffsetRangeSet_intersectWithRangeLength_def rs' OffsetRangeSet_length_def
        sum_list_foldl_int cov)
qed

lemma intersectsStrict_iff:
  assumes "ors_ok (ors_sortedRanges rs)"
  shows "OffsetRangeSet_intersectsStrict rs other \<longleftrightarrow>
    (\<exists>x \<in> set (ors_sortedRanges rs). or_start other < or_endExclusive x \<and> or_start x < or_endExclusive other)"
proof -
  let ?xs = "ors_sortedRanges rs" and ?p = "\<lambda>x. or_endExclusive x \<le> or_start other"
  have dw: "dropWhile ?p ?xs = drop (length (takeWhile ?p ?xs)) ?xs" by (rule dropWhile_eq_drop)
  have sorted: "ors_ok (dropWhile ?p ?xs)"
    using assms gap_sorted_append [of or_start or_endExclusive "takeWhile ?p ?xs"]
    by (metis takeWhile_dropWhile_id)
  have eq: "OffsetRangeSet_intersectsStrict rs other \<longleftrightarrow>
      dropWhile ?p ?xs \<noteq> [] \<and> or_start (hd (dropWhile ?p ?xs)) < or_endExclusive other"
    by (auto simp: OffsetRangeSet_intersectsStrict_def scan_while_0 dw hd_drop_conv_nth Let_def)
  have mem: "x \<in> set (dropWhile ?p ?xs) \<longleftrightarrow> x \<in> set ?xs \<and> \<not> ?p x" for x
  proof -
    have "set ?xs = set (takeWhile ?p ?xs) \<union> set (dropWhile ?p ?xs)"
      by (metis set_append takeWhile_dropWhile_id)
    then show ?thesis
      using sorted_dropWhile_not [OF gap_sorted_prefix_pred(4) [OF assms], of x "or_start other"]
      by (auto dest: set_takeWhileD)
  qed
  show ?thesis
  proof
    assume "OffsetRangeSet_intersectsStrict rs other"
    with eq mem [of "hd (dropWhile ?p ?xs)"] show "\<exists>x \<in> set ?xs. or_start other < or_endExclusive x \<and>
        or_start x < or_endExclusive other" by (meson hd_in_set not_le)
  next
    assume "\<exists>x \<in> set ?xs. or_start other < or_endExclusive x \<and> or_start x < or_endExclusive other"
    then obtain x where "x \<in> set ?xs" "\<not> ?p x" and lt: "or_start x < or_endExclusive other"
      by (auto simp: not_le)
    then have x: "x \<in> set (dropWhile ?p ?xs)" unfolding mem by simp
    then have "dropWhile ?p ?xs \<noteq> []" by (metis empty_iff empty_set)
    with gap_sorted_hd_last [OF sorted x] lt show "OffsetRangeSet_intersectsStrict rs other"
      unfolding eq by simp
  qed
qed

text \<open>
  When neither the range nor a range of the set is empty, \<open>intersectsStrict\<close> decides
  whether some offset is in both.
\<close>

theorem OffsetRangeSet_intersectsStrict_iff:
  assumes "ors_ok (ors_sortedRanges rs)"
    and "\<forall>x \<in> set (ors_sortedRanges rs). \<not> OffsetRange_isEmpty x" and "or_start other < or_endExclusive other"
  shows "OffsetRangeSet_intersectsStrict rs other \<longleftrightarrow>
    ors_set (ors_sortedRanges rs) \<inter> or_set other \<noteq> {}"
proof -
  have "(or_start other < or_endExclusive x \<and> or_start x < or_endExclusive other) \<longleftrightarrow>
      or_set x \<inter> or_set other \<noteq> {}" if "x \<in> set (ors_sortedRanges rs)" for x
  proof -
    have "or_start x < or_endExclusive x"
      using that assms(1,2) gap_sorted_valid [OF assms(1) that] by (auto simp: OffsetRange_isEmpty_def)
    then have "max (or_start x) (or_start other) \<in> or_set x \<inter> or_set other"
      if "or_start other < or_endExclusive x" "or_start x < or_endExclusive other"
      using that assms(3) by (auto simp: in_or_set)
    moreover have "or_start other < or_endExclusive x \<and> or_start x < or_endExclusive other"
      if "k \<in> or_set x \<inter> or_set other" for k
      using that by (auto simp: in_or_set)
    ultimately show ?thesis by blast
  qed
  moreover have "ors_set (ors_sortedRanges rs) = (\<Union>x \<in> set (ors_sortedRanges rs). or_set x)"
    by (simp add: covered_def or_set_def)
  ultimately show ?thesis
    unfolding intersectsStrict_iff [OF assms(1)] by blast
qed

theorem OffsetRangeSet_intersectsStrict_iff_witness:
  "OffsetRangeSet_intersectsStrict \<lparr>ors_sortedRanges = [MkOffsetRange 1 3, MkOffsetRange 5 6]\<rparr>
     (MkOffsetRange 3 5) \<longleftrightarrow>
   ors_set [MkOffsetRange 1 3, MkOffsetRange 5 6] \<inter> or_set (MkOffsetRange 3 5) \<noteq> {}"
  using OffsetRangeSet_intersectsStrict_iff
    [of "\<lparr>ors_sortedRanges = [MkOffsetRange 1 3, MkOffsetRange 5 6]\<rparr>" "MkOffsetRange 3 5"]
  by (simp add: gap_sorted_Cons OffsetRange_isEmpty_def)

text \<open>
  A set that was given an empty range reports an intersection with a range around it
  although it contains no offset at all.
\<close>

theorem OffsetRangeSet_intersectsStrict_empty_range:
  "\<exists>rs. OffsetRangeSet_addRange OffsetRangeSet_new (MkOffsetRange 5 5) = Inr rs \<and>
     OffsetRangeSet_intersectsStrict rs (MkOffsetRange 3 7) \<and> ors_set (ors_sortedRanges rs) = {}"
  by (simp add: OffsetRangeSet_addRange_def OffsetRangeSet_new_def OffsetRangeSet_intersectsStrict_def
      scan_while.simps js_splice_def)

end
