(* ===== verification/LineRange.thy ===== *)
theory LineRange
  imports Intervals PositionRange OffsetRange
begin

text \<open>
  Model of \<open>editor/common/core/lineRange.ts\<close>: half-open ranges of line numbers and sets of
  lines kept as sorted lists of ranges that neither touch nor intersect.
\<close>

section \<open>LineRange\<close>

datatype LineRange = MkLineRange (lr_startLineNumber: int) (lr_endLineNumberExclusive: int)

definition LineRange_new :: "int \<Rightarrow> int \<Rightarrow> LineRange result" where
  "LineRange_new s e = (if s > e then Inl BugIndicatingError else Inr (MkLineRange s e))"

definition LineRange_fromRange :: "Range \<Rightarrow> LineRange result" where
  "LineRange_fromRange r = LineRange_new (startLineNumber r) (endLineNumber r)"

definition LineRange_fromRangeInclusive :: "Range \<Rightarrow> LineRange result" where
  "LineRange_fromRangeInclusive r = LineRange_new (startLineNumber r) (endLineNumber r + 1)"

fun LineRange_subtract :: "LineRange \<Rightarrow> LineRange option \<Rightarrow> LineRange list result" where
  "LineRange_subtract a None = Inr [a]"
| "LineRange_subtract a (Some b) =
     (if lr_startLineNumber a < lr_startLineNumber b \<and>
         lr_endLineNumberExclusive b < lr_endLineNumberExclusive a then
        ebind (LineRange_new (lr_startLineNumber a) (lr_startLineNumber b)) (\<lambda>x.
        ebind (LineRange_new (lr_endLineNumberExclusive b) (lr_endLineNumberExclusive a)) (\<lambda>y.
        Inr [x, y]))
      else if lr_startLineNumber b \<le> lr_startLineNumber a \<and>
         lr_endLineNumberExclusive a \<le> lr_endLineNumberExclusive b then Inr []
      else if lr_endLineNumberExclusive b < lr_endLineNumberExclusive a then
        emap (\<lambda>x. [x]) (LineRange_new (max (lr_endLineNumberExclusive b) (lr_startLineNumber a))
          (lr_endLineNumberExclusive a))
      else
        emap (\<lambda>x. [x]) (LineRange_new (lr_startLineNumber a)
          (min (lr_startLineNumber b) (lr_endLineNumberExclusive a))))"

fun lineRange_join_loop :: "LineRange list \<Rightarrow> int \<Rightarrow> int \<Rightarrow> int \<times> int" where
  "lineRange_join_loop [] s e = (s, e)"
| "lineRange_join_loop (x # xs) s e =
     lineRange_join_loop xs (min s (lr_startLineNumber x)) (max e (lr_endLineNumberExclusive x))"

definition LineRange_joinAll :: "LineRange list \<Rightarrow> LineRange result" where
  "LineRange_joinAll lineRanges =
     (case lineRanges of
        [] \<Rightarrow> Inl BugIndicatingError
      | x # xs \<Rightarrow>
          (let (s, e) = lineRange_join_loop xs (lr_startLineNumber x) (lr_endLineNumberExclusive x)
           in LineRange_new s e))"

definition LineRange_ofLength :: "int \<Rightarrow> int \<Rightarrow> LineRange result" where
  "LineRange_ofLength s n = LineRange_new s (s + n)"

definition LineRange_deserialize :: "int \<times> int \<Rightarrow> LineRange result" where
  "LineRange_deserialize p = LineRange_new (fst p) (snd p)"

definition LineRange_contains :: "LineRange \<Rightarrow> int \<Rightarrow> bool" where
  "LineRange_contains r l \<longleftrightarrow> lr_startLineNumber r \<le> l \<and> l < lr_endLineNumberExclusive r"

definition LineRange_isEmpty :: "LineRange \<Rightarrow> bool" where
  "LineRange_isEmpty r \<longleftrightarrow> lr_startLineNumber r = lr_endLineNumberExclusive r"

definition LineRange_delta :: "LineRange \<Rightarrow> int \<Rightarrow> LineRange result" where
  "LineRange_delta r k = LineRange_new (lr_startLineNumber r + k) (lr_endLineNumberExclusive r + k)"

definition LineRange_deltaLength :: "LineRange \<Rightarrow> int \<Rightarrow> LineRange result" where
  "LineRange_deltaLength r k = LineRange_new (lr_startLineNumber r) (lr_endLineNumberExclusive r + k)"

definition LineRange_length :: "LineRange \<Rightarrow> int" where
  "LineRange_length r = lr_endLineNumberExclusive r - lr_startLineNumber r"

definition LineRange_join :: "LineRange \<Rightarrow> LineRange \<Rightarrow> LineRange result" where
  "LineRange_join r s =
     LineRange_new (min (lr_startLineNumber r) (lr_startLineNumber s))
       (max (lr_endLineNumberExclusive r) (lr_endLineNumberExclusive s))"

definition LineRange_intersect :: "LineRange \<Rightarrow> LineRange \<Rightarrow> LineRange option result" where
  "LineRange_intersect r s =
     (let a = max (lr_startLineNumber r) (lr_startLineNumber s);
          b = min (lr_endLineNumberExclusive r) (lr_endLineNumberExclusive s)
      in if a \<le> b then emap Some (LineRange_new a b) else Inr None)"

definition LineRange_intersectsStrict :: "LineRange \<Rightarrow> LineRange \<Rightarrow> bool" where
  "LineRange_intersectsStrict r s \<longleftrightarrow>
     lr_startLineNumber r < lr_endLineNumberExclusive s \<and> lr_startLineNumber s < lr_endLineNumberExclusive r"

definition LineRange_overlapOrTouch :: "LineRange \<Rightarrow> LineRange \<Rightarrow> bool" where
  "LineRange_overlapOrTouch r s \<longleftrightarrow>
     lr_startLineNumber r \<le> lr_endLineNumberExclusive s \<and> lr_startLineNumber s \<le> lr_endLineNumberExclusive r"

definition LineRange_equals :: "LineRange \<Rightarrow> LineRange \<Rightarrow> bool" where
  "LineRange_equals r s \<longleftrightarrow>
     lr_startLineNumber r = lr_startLineNumber s \<and> lr_endLineNumberExclusive r = lr_endLineNumberExclusive s"

definition LineRange_toInclusiveRange :: "LineRange \<Rightarrow> Range option" where
  "LineRange_toInclusiveRange r =
     (if LineRange_isEmpty r then None
      else Some (Range_new (lr_startLineNumber r) 1 (lr_endLineNumberExclusive r - 1) MAX_SAFE_INTEGER))"

definition LineRange_toExclusiveRange :: "LineRange \<Rightarrow> Range" where
  "LineRange_toExclusiveRange r = Range_new (lr_startLineNumber r) 1 (lr_endLineNumberExclusive r) 1"

definition LineRange_mapToLineArray :: "LineRange \<Rightarrow> (int \<Rightarrow> 'a) \<Rightarrow> 'a list" where
  "LineRange_mapToLineArray r f = map f (int_upto (lr_startLineNumber r) (lr_endLineNumberExclusive r))"

definition LineRange_forEach :: "LineRange \<Rightarrow> (int \<Rightarrow> 's \<Rightarrow> 's) \<Rightarrow> 's \<Rightarrow> 's" where
  "LineRange_forEach r f = fold f (int_upto (lr_startLineNumber r) (lr_endLineNumberExclusive r))"

definition LineRange_serialize :: "LineRange \<Rightarrow> int \<times> int" where
  "LineRange_serialize r = (lr_startLineNumber r, lr_endLineNumberExclusive r)"

definition LineRange_includes :: "LineRange \<Rightarrow> int \<Rightarrow> bool" where
  "LineRange_includes r l \<longleftrightarrow> lr_startLineNumber r \<le> l \<and> l < lr_endLineNumberExclusive r"

definition LineRange_toOffsetRange :: "LineRange \<Rightarrow> OffsetRange result" where
  "LineRange_toOffsetRange r =
     OffsetRange_new (lr_startLineNumber r - 1) (lr_endLineNumberExclusive r - 1)"

definition LineRange_distanceToRange :: "LineRange \<Rightarrow> LineRange \<Rightarrow> int" where
  "LineRange_distanceToRange r s =
     (if lr_endLineNumberExclusive r \<le> lr_startLineNumber s
        then lr_startLineNumber s - lr_endLineNumberExclusive r
      else if lr_endLineNumberExclusive s \<le> lr_startLineNumber r
        then lr_startLineNumber r - lr_endLineNumberExclusive s
      else 0)"

definition LineRange_distanceToLine :: "LineRange \<Rightarrow> int \<Rightarrow> int" where
  "LineRange_distanceToLine r l =
     (if LineRange_contains r l then 0
      else if l < lr_startLineNumber r then lr_startLineNumber r - l
      else l - lr_endLineNumberExclusive r)"

section \<open>LineRangeSet\<close>

record LineRangeSet =
  lrs_normalizedRanges :: "LineRange list"

definition LineRangeSet_new :: "LineRange list \<Rightarrow> LineRangeSet" where
  "LineRangeSet_new xs = \<lparr>lrs_normalizedRanges = xs\<rparr>"

definition LineRangeSet_addRange :: "LineRangeSet \<Rightarrow> LineRange \<Rightarrow> LineRangeSet result" where
  "LineRangeSet_addRange rs r =
     (if LineRange_length r = 0 then Inr rs
      else
        let xs = lrs_normalizedRanges rs;
            joinRangeStartIdx = findFirstIdxMonotonousOrArrLen xs
              (\<lambda>x. lr_endLineNumberExclusive x \<ge> lr_startLineNumber r);
            joinRangeEndIdxExclusive = findLastIdxMonotonous xs
              (\<lambda>x. lr_startLineNumber x \<le> lr_endLineNumberExclusive r) + 1
        in if joinRangeStartIdx = joinRangeEndIdxExclusive then
             Inr (rs\<lparr>lrs_normalizedRanges := js_splice xs joinRangeStartIdx 0 [r]\<rparr>)
           else if joinRangeStartIdx = joinRangeEndIdxExclusive - 1 then
             emap (\<lambda>joined. rs\<lparr>lrs_normalizedRanges := xs[nat joinRangeStartIdx := joined]\<rparr>)
               (LineRange_join (xs ! nat joinRangeStartIdx) r)
           else
             ebind (LineRange_join (xs ! nat joinRangeStartIdx) (xs ! nat (joinRangeEndIdxExclusive - 1)))
               (\<lambda>outer. emap (\<lambda>joinRange. rs\<lparr>lrs_normalizedRanges :=
                    js_splice xs joinRangeStartIdx (joinRangeEndIdxExclusive - joinRangeStartIdx) [joinRange]\<rparr>)
                  (LineRange_join outer r)))"

definition LineRangeSet_contains :: "LineRangeSet \<Rightarrow> int \<Rightarrow> bool" where
  "LineRangeSet_contains rs l =
     (case findLastMonotonous (lrs_normalizedRanges rs) (\<lambda>r. lr_startLineNumber r \<le> l) of
        None \<Rightarrow> False | Some r \<Rightarrow> lr_endLineNumberExclusive r > l)"

definition LineRangeSet_intersects :: "LineRangeSet \<Rightarrow> LineRange \<Rightarrow> bool" where
  "LineRangeSet_intersects rs rng =
     (case findLastMonotonous (lrs_normalizedRanges rs)
             (\<lambda>r. lr_startLineNumber r < lr_endLineNumberExclusive rng) of
        None \<Rightarrow> False | Some r \<Rightarrow> lr_endLineNumberExclusive r > lr_startLineNumber rng)"

text \<open>
  \<open>getUnion\<close>: the merge loop over both arrays. The two lists are what the indices
  \<open>i1\<close> and \<open>i2\<close> have not reached yet.
\<close>

fun union_push :: "LineRange option \<Rightarrow> LineRange list \<Rightarrow> LineRange \<Rightarrow> (LineRange \<times> LineRange list) result" where
  "union_push None result nxt = Inr (nxt, result)"
| "union_push (Some current) result nxt =
     (if lr_endLineNumberExclusive current \<ge> lr_startLineNumber nxt
      then emap (\<lambda>c. (c, result)) (LineRange_new (lr_startLineNumber current)
             (max (lr_endLineNumberExclusive current) (lr_endLineNumberExclusive nxt)))
      else Inr (nxt, result @ [current]))"

fun union_loop :: "LineRange list \<Rightarrow> LineRange list \<Rightarrow> LineRange option \<Rightarrow> LineRange list \<Rightarrow>
    LineRange list result" where
  "union_loop (x # xs) (y # ys) current result =
     (if lr_startLineNumber x < lr_startLineNumber y
      then ebind (union_push current result x) (\<lambda>(c, res). union_loop xs (y # ys) (Some c) res)
      else ebind (union_push current result y) (\<lambda>(c, res). union_loop (x # xs) ys (Some c) res))"
| "union_loop (x # xs) [] current result =
     ebind (union_push current result x) (\<lambda>(c, res). union_loop xs [] (Some c) res)"
| "union_loop [] (y # ys) current result =
     ebind (union_push current result y) (\<lambda>(c, res). union_loop [] ys (Some c) res)"
| "union_loop [] [] None result = Inr result"
| "union_loop [] [] (Some c) result = Inr (result @ [c])"

definition LineRangeSet_getUnion :: "LineRangeSet \<Rightarrow> LineRangeSet \<Rightarrow> LineRangeSet result" where
  "LineRangeSet_getUnion this other =
     (if lrs_normalizedRanges this = [] then Inr other
      else if lrs_normalizedRanges other = [] then Inr this
      else emap LineRangeSet_new
        (union_loop (lrs_normalizedRanges this) (lrs_normalizedRanges other) None []))"

fun subtract_loop :: "LineRange list \<Rightarrow> int \<Rightarrow> LineRange list \<Rightarrow> (int \<times> LineRange list) result" where
  "subtract_loop [] s result = Inr (s, result)"
| "subtract_loop (r # rs) s result =
     ebind (if lr_startLineNumber r > s
            then emap (\<lambda>x. result @ [x]) (LineRange_new s (lr_startLineNumber r))
            else Inr result)
       (\<lambda>result. subtract_loop rs (lr_endLineNumberExclusive r) result)"

definition LineRangeSet_subtractFrom :: "LineRangeSet \<Rightarrow> LineRange \<Rightarrow> LineRangeSet result" where
  "LineRangeSet_subtractFrom rs rng =
     (let xs = lrs_normalizedRanges rs;
          joinRangeStartIdx = findFirstIdxMonotonousOrArrLen xs
            (\<lambda>x. lr_endLineNumberExclusive x \<ge> lr_startLineNumber rng);
          joinRangeEndIdxExclusive = findLastIdxMonotonous xs
            (\<lambda>x. lr_startLineNumber x \<le> lr_endLineNumberExclusive rng) + 1
      in if joinRangeStartIdx = joinRangeEndIdxExclusive then Inr (LineRangeSet_new [rng])
         else ebind (subtract_loop (js_slice xs joinRangeStartIdx joinRangeEndIdxExclusive)
                 (lr_startLineNumber rng) [])
           (\<lambda>(s, result).
              if s < lr_endLineNumberExclusive rng
              then emap (\<lambda>x. LineRangeSet_new (result @ [x]))
                     (LineRange_new s (lr_endLineNumberExclusive rng))
              else Inr (LineRangeSet_new result)))"

fun intersection_loop :: "LineRange list \<Rightarrow> LineRange list \<Rightarrow> LineRange list \<Rightarrow> LineRange list result" where
  "intersection_loop (r1 # xs) (r2 # ys) result =
     ebind (LineRange_intersect r1 r2) (\<lambda>i.
       let result' = (case i of None \<Rightarrow> result
                      | Some x \<Rightarrow> if \<not> LineRange_isEmpty x then result @ [x] else result)
       in if lr_endLineNumberExclusive r1 < lr_endLineNumberExclusive r2
          then intersection_loop xs (r2 # ys) result'
          else intersection_loop (r1 # xs) ys result')"
| "intersection_loop _ _ result = Inr result"

definition LineRangeSet_getIntersection :: "LineRangeSet \<Rightarrow> LineRangeSet \<Rightarrow> LineRangeSet result" where
  "LineRangeSet_getIntersection this other =
     emap LineRangeSet_new
       (intersection_loop (lrs_normalizedRanges this) (lrs_normalizedRanges other) [])"

definition LineRangeSet_getWithDelta :: "LineRangeSet \<Rightarrow> int \<Rightarrow> LineRangeSet result" where
  "LineRangeSet_getWithDelta rs k =
     emap LineRangeSet_new (emapM (\<lambda>r. LineRange_delta r k) (lrs_normalizedRanges rs))"

text \<open>\<open>LineRange.joinMany\<close> of sorted arrays of line ranges.\<close>

definition LineRange_joinMany :: "LineRange list list \<Rightarrow> LineRange list result" where
  "LineRange_joinMany lineRanges =
     (case lineRanges of
        [] \<Rightarrow> Inr []
      | xs # rest \<Rightarrow>
          emap lrs_normalizedRanges
            (efold (\<lambda>ys result. LineRangeSet_getUnion result (LineRangeSet_new ys)) rest
               (LineRangeSet_new xs)))"

section \<open>Correctness of single line ranges\<close>

abbreviation lr_ok :: "LineRange \<Rightarrow> bool" where
  "lr_ok r \<equiv> lr_startLineNumber r \<le> lr_endLineNumberExclusive r"

definition lr_set :: "LineRange \<Rightarrow> int set" where
  "lr_set r = {lr_startLineNumber r..<lr_endLineNumberExclusive r}"

lemma in_lr_set: "l \<in> lr_set r \<longleftrightarrow> lr_startLineNumber r \<le> l \<and> l < lr_endLineNumberExclusive r"
  by (simp add: lr_set_def)

lemma LineRange_new_Inr [simp]: "s \<le> e \<Longrightarrow> LineRange_new s e = Inr (MkLineRange s e)"
  by (simp add: LineRange_new_def)

interpretation line_range: half_open lr_startLineNumber lr_endLineNumberExclusive LineRange_new
  LineRange_join LineRange_intersect
  by unfold_locales
    (auto simp: LineRange_new_def LineRange_join_def LineRange_intersect_def intro: LineRange.expand)

lemma LineRange_join_Inr [simp]:
  "lr_ok r \<Longrightarrow> lr_ok s \<Longrightarrow> LineRange_join r s =
     Inr (MkLineRange (min (lr_startLineNumber r) (lr_startLineNumber s))
       (max (lr_endLineNumberExclusive r) (lr_endLineNumberExclusive s)))"
  by (simp add: LineRange_join_def le_max_iff_disj min_le_iff_disj)

lemma LineRange_contains_set: "LineRange_contains r l \<longleftrightarrow> l \<in> lr_set r"
  and LineRange_includes_set: "LineRange_includes r l \<longleftrightarrow> l \<in> lr_set r"
  by (simp_all add: LineRange_contains_def LineRange_includes_def in_lr_set)

lemma LineRange_mapToLineArray_set: "set (LineRange_mapToLineArray r f) = f ` lr_set r"
  by (simp add: LineRange_mapToLineArray_def lr_set_def)

lemma LineRange_serialize_roundtrip: "lr_ok r \<Longrightarrow> LineRange_deserialize (LineRange_serialize r) = Inr r"
  by (simp add: LineRange_deserialize_def LineRange_serialize_def)

lemma LineRange_intersectsStrict_set:
  "LineRange_isEmpty r \<or> LineRange_isEmpty s \<or> (LineRange_intersectsStrict r s \<longleftrightarrow> lr_set r \<inter> lr_set s \<noteq> {})"
  if "lr_ok r" "lr_ok s"
proof (cases "LineRange_intersectsStrict r s \<and> \<not> LineRange_isEmpty r \<and> \<not> LineRange_isEmpty s")
  case True
  then have "max (lr_startLineNumber r) (lr_startLineNumber s) \<in> lr_set r \<inter> lr_set s"
    using that by (auto simp: LineRange_intersectsStrict_def LineRange_isEmpty_def in_lr_set)
  with True show ?thesis by blast
qed (auto simp: LineRange_intersectsStrict_def in_lr_set)

text \<open>
  Subtracting one valid line range from another never throws and returns at most two
  valid ranges, in ascending order, that hold exactly the lines of the first range that are
  not in the second.
\<close>

theorem LineRange_subtract_exact:
  assumes "lr_ok a" "lr_ok b"
  shows "\<exists>rs. LineRange_subtract a (Some b) = Inr rs \<and> length rs \<le> 2 \<and> list_all lr_ok rs \<and>
    sorted_wrt (\<lambda>x y. lr_endLineNumberExclusive x \<le> lr_startLineNumber y) rs \<and>
    (\<Union>r \<in> set rs. lr_set r) = lr_set a - lr_set b"
  using assms by (auto simp: in_lr_set)

theorem LineRange_subtract_exact_witness:
  "\<exists>rs. LineRange_subtract (MkLineRange 1 9) (Some (MkLineRange 3 5)) = Inr rs \<and>
     (\<Union>r \<in> set rs. lr_set r) = lr_set (MkLineRange 1 9) - lr_set (MkLineRange 3 5)"
  using LineRange_subtract_exact [of "MkLineRange 1 9" "MkLineRange 3 5"] by auto

text \<open>
  \<open>distanceToLine\<close> of a line before the range is the number of lines to the first line
  of the range, and 0 inside; of a line after the range it is one less than the number of
  lines to the last line of the range, so that the line right after a range has distance 0
  although the range does not contain it.
\<close>

theorem LineRange_distanceToLine_asymmetric:
  assumes "lr_startLineNumber r < lr_endLineNumberExclusive r"
  shows "(l \<in> lr_set r \<longrightarrow> LineRange_distanceToLine r l = 0) \<and>
    (l < lr_startLineNumber r \<longrightarrow> LineRange_distanceToLine r l = Min ((\<lambda>k. \<bar>k - l\<bar>) ` lr_set r)) \<and>
    (lr_endLineNumberExclusive r \<le> l \<longrightarrow>
       LineRange_distanceToLine r l = Min ((\<lambda>k. \<bar>k - l\<bar>) ` lr_set r) - 1)"
proof -
  have fin: "finite ((\<lambda>k. \<bar>k - l\<bar>) ` lr_set r)" by (simp add: lr_set_def)
  have "Min ((\<lambda>k. \<bar>k - l\<bar>) ` lr_set r) = lr_startLineNumber r - l" if "l < lr_startLineNumber r"
    using that assms by (intro Min_eqI [OF fin]) (auto simp: in_lr_set intro!: image_eqI [of _ _ "lr_startLineNumber r"])
  moreover have "Min ((\<lambda>k. \<bar>k - l\<bar>) ` lr_set r) = l - lr_endLineNumberExclusive r + 1"
    if "lr_endLineNumberExclusive r \<le> l"
    using that assms
    by (intro Min_eqI [OF fin]) (auto simp: in_lr_set intro!: image_eqI [of _ _ "lr_endLineNumberExclusive r - 1"])
  ultimately show ?thesis
    using assms by (auto simp: LineRange_distanceToLine_def LineRange_contains_set in_lr_set)
qed

theorem LineRange_distanceToLine_asymmetric_witness:
  "LineRange_distanceToLine (MkLineRange 3 5) 5 = Min ((\<lambda>k. \<bar>k - 5\<bar>) ` lr_set (MkLineRange 3 5)) - 1"
  using LineRange_distanceToLine_asymmetric [of "MkLineRange 3 5" 5] by simp

section \<open>Correctness of sets of lines\<close>

abbreviation lrs_ok :: "LineRange list \<Rightarrow> bool" where
  "lrs_ok \<equiv> gap_sorted lr_startLineNumber lr_endLineNumberExclusive"

abbreviation lrs_set :: "LineRange list \<Rightarrow> int set" where
  "lrs_set \<equiv> covered lr_startLineNumber lr_endLineNumberExclusive"

abbreviation lrs_nonempty :: "LineRange list \<Rightarrow> bool" where
  "lrs_nonempty \<equiv> list_all (\<lambda>r. lr_startLineNumber r < lr_endLineNumberExclusive r)"

text \<open>The two binary searches of \<open>addRange\<close> and \<open>subtractFrom\<close> delimit the touching ranges.\<close>

lemma lrs_search:
  assumes "lrs_ok xs" "lr_ok r"
  shows "findFirstIdxMonotonousOrArrLen xs (\<lambda>x. lr_endLineNumberExclusive x \<ge> lr_startLineNumber r) =
      int (length (part_before lr_endLineNumberExclusive (lr_startLineNumber r) xs))"
    and "findLastIdxMonotonous xs (\<lambda>x. lr_startLineNumber x \<le> lr_endLineNumberExclusive r) + 1 =
      int (length (part_before lr_endLineNumberExclusive (lr_startLineNumber r) xs) +
        length (part_touching lr_startLineNumber lr_endLineNumberExclusive (lr_startLineNumber r)
          (lr_endLineNumberExclusive r) xs))"
proof -
  show "findFirstIdxMonotonousOrArrLen xs (\<lambda>x. lr_endLineNumberExclusive x \<ge> lr_startLineNumber r) =
      int (length (part_before lr_endLineNumberExclusive (lr_startLineNumber r) xs))"
    using gap_sorted_prefix_pred(3) [OF assms(1), of "lr_startLineNumber r"]
      search_takeWhile(2) [of "\<lambda>x. lr_endLineNumberExclusive x \<ge> lr_startLineNumber r" xs]
    by (simp add: not_le)
  show "findLastIdxMonotonous xs (\<lambda>x. lr_startLineNumber x \<le> lr_endLineNumberExclusive r) + 1 =
      int (length (part_before lr_endLineNumberExclusive (lr_startLineNumber r) xs) +
        length (part_touching lr_startLineNumber lr_endLineNumberExclusive (lr_startLineNumber r)
          (lr_endLineNumberExclusive r) xs))"
    unfolding part_lengths [OF assms, symmetric]
    using search_takeWhile(1) [OF gap_sorted_prefix_pred(1) [OF assms(1), of "lr_endLineNumberExclusive r"]]
    by simp
qed

lemma LineRangeSet_addRange_parts:
  fixes r rs
  defines "xs \<equiv> lrs_normalizedRanges rs"
  defines "B \<equiv> part_before lr_endLineNumberExclusive (lr_startLineNumber r) xs"
    and "M \<equiv> part_touching lr_startLineNumber lr_endLineNumberExclusive (lr_startLineNumber r)
      (lr_endLineNumberExclusive r) xs"
    and "A \<equiv> part_after lr_startLineNumber lr_endLineNumberExclusive (lr_startLineNumber r)
      (lr_endLineNumberExclusive r) xs"
  assumes ok: "lrs_ok xs" and r: "lr_startLineNumber r < lr_endLineNumberExclusive r"
  shows "LineRangeSet_addRange rs r = Inr (rs\<lparr>lrs_normalizedRanges := B @
    [if M = [] then r else MkLineRange (min (lr_startLineNumber r) (lr_startLineNumber (hd M)))
       (max (lr_endLineNumberExclusive r) (lr_endLineNumberExclusive (last M)))] @ A\<rparr>)"
proof -
  have xs: "xs = B @ M @ A" by (simp add: B_def M_def A_def)
  have valid: "lr_ok x" if "x \<in> set xs" for x using gap_sorted_valid [OF ok that] .
  have sorted: "lrs_ok M" using ok unfolding xs gap_sorted_append by blast
  note search = lrs_search [OF ok less_imp_le [OF r], folded B_def M_def]
  note search' = search(1) search(2) [unfolded of_nat_add]
  have splice: "js_splice xs (int (length B)) (int (length M)) items = B @ items @ A" for items
    by (simp only: xs js_splice_append)
  have len: "LineRange_length r \<noteq> 0" using r by (simp add: LineRange_length_def)
  consider (none) "M = []" | (one) m where "M = [m]" | (many) "2 \<le> length M"
    by (cases M rule: rev_cases; cases "butlast M") (auto simp: Suc_le_eq)
  then show ?thesis
  proof cases
    case none
    with splice [of "[r]"] show ?thesis
      by (simp add: LineRangeSet_addRange_def len xs_def [symmetric] search' Let_def)
  next
    case one
    then have "lr_ok m" "xs ! length B = m" and upd: "xs[length B := v] = B @ v # A" for v
      using valid xs by simp_all
    with one r show ?thesis
      by (simp add: LineRangeSet_addRange_def len xs_def [symmetric] search' Let_def
          min.commute max.commute)
  next
    case many
    then have M: "M \<noteq> []" by auto
    have at: "xs ! length B = hd M" "xs ! (length B + length M - 1) = last M"
      unfolding xs by (rule nth_append_hd_last [OF M])+
    have "nat (int (length B) + int (length M) - 1) = length B + length M - 1" using many by linarith
    moreover have "hd M \<in> set M" "last M \<in> set M" using M by simp_all
    then have "lr_ok (hd M)" "lr_ok (last M)"
      "lr_startLineNumber (hd M) \<le> lr_startLineNumber (last M)"
      "lr_endLineNumberExclusive (hd M) \<le> lr_endLineNumberExclusive (last M)"
      using valid xs gap_sorted_hd_last [OF sorted] by auto
    ultimately show ?thesis
      using many M at splice r
      by (simp add: LineRangeSet_addRange_def len xs_def [symmetric] search' Let_def
          min.commute max.commute)
  qed
qed

text \<open>
  C31: \<open>LineRangeSet.addRange\<close> on a normalized set and a valid range never throws, leaves a
  normalized set without empty ranges, and adds exactly the lines of the range.
\<close>

theorem LineRangeSet_addRange_union:
  assumes ok: "lrs_ok (lrs_normalizedRanges rs)" "lrs_nonempty (lrs_normalizedRanges rs)" and r: "lr_ok r"
  shows "\<exists>rs'. LineRangeSet_addRange rs r = Inr rs' \<and> lrs_ok (lrs_normalizedRanges rs') \<and>
    lrs_nonempty (lrs_normalizedRanges rs') \<and>
    lrs_set (lrs_normalizedRanges rs') = lrs_set (lrs_normalizedRanges rs) \<union> lr_set r"
proof (cases "lr_startLineNumber r = lr_endLineNumberExclusive r")
  case True
  with ok show ?thesis by (simp add: LineRangeSet_addRange_def LineRange_length_def lr_set_def)
next
  case False
  with r have lt: "lr_startLineNumber r < lr_endLineNumberExclusive r" by simp
  let ?xs = "lrs_normalizedRanges rs"
  let ?B = "part_before lr_endLineNumberExclusive (lr_startLineNumber r) ?xs"
    and ?M = "part_touching lr_startLineNumber lr_endLineNumberExclusive (lr_startLineNumber r)
      (lr_endLineNumberExclusive r) ?xs"
    and ?A = "part_after lr_startLineNumber lr_endLineNumberExclusive (lr_startLineNumber r)
      (lr_endLineNumberExclusive r) ?xs"
  let ?new = "if ?M = [] then r else MkLineRange (min (lr_startLineNumber r) (lr_startLineNumber (hd ?M)))
       (max (lr_endLineNumberExclusive r) (lr_endLineNumberExclusive (last ?M)))"
  have eq: "LineRangeSet_addRange rs r = Inr (rs\<lparr>lrs_normalizedRanges := ?B @ [?new] @ ?A\<rparr>)"
    by (rule LineRangeSet_addRange_parts [OF ok(1) lt])
  have "if ?M = [] then lr_startLineNumber ?new = lr_startLineNumber r \<and>
      lr_endLineNumberExclusive ?new = lr_endLineNumberExclusive r
    else lr_startLineNumber ?new = min (lr_startLineNumber r) (lr_startLineNumber (hd ?M)) \<and>
      lr_endLineNumberExclusive ?new = max (lr_endLineNumberExclusive r) (lr_endLineNumberExclusive (last ?M))"
    by simp
  note ins = insert_interval [OF ok(1) r this]
  have "lr_startLineNumber ?new < lr_endLineNumberExclusive ?new" using lt by auto
  moreover have "lrs_nonempty ?B" "lrs_nonempty ?A"
    using ok(2) by (auto simp: list_all_iff dest: set_takeWhileD set_dropWhileD)
  ultimately have "lrs_nonempty (?B @ [?new] @ ?A)" by simp
  with ins eq show ?thesis by (simp add: lr_set_def)
qed

theorem LineRangeSet_addRange_union_witness:
  "\<exists>rs'. LineRangeSet_addRange \<lparr>lrs_normalizedRanges = [MkLineRange 1 3, MkLineRange 5 6, MkLineRange 9 10]\<rparr>
       (MkLineRange 3 5) = Inr rs' \<and> lrs_ok (lrs_normalizedRanges rs') \<and>
     lrs_set (lrs_normalizedRanges rs') =
       lrs_set [MkLineRange 1 3, MkLineRange 5 6, MkLineRange 9 10] \<union> lr_set (MkLineRange 3 5)"
  using LineRangeSet_addRange_union
    [of "\<lparr>lrs_normalizedRanges = [MkLineRange 1 3, MkLineRange 5 6, MkLineRange 9 10]\<rparr>" "MkLineRange 3 5"]
  by (auto simp: gap_sorted_Cons)

subsection \<open>Membership\<close>

lemma findLastMonotonous_last:
  assumes "prefix_pred p xs"
  shows "findLastMonotonous xs p =
    (if takeWhile p xs = [] then None else Some (last (takeWhile p xs)))"
proof -
  have "xs ! (length (takeWhile p xs) - 1) = last (takeWhile p xs)" if "takeWhile p xs \<noteq> []"
    using that by (simp add: last_conv_nth takeWhile_nth)
  then show ?thesis
    using bsearch_last.find_eq_takeWhile [OF assms] length_takeWhile_le [of p xs]
    by (cases "length (takeWhile p xs)") (auto simp: findLastMonotonous_def)
qed

lemma gap_sorted_last_hit:
  assumes "gap_sorted lo hi xs" and pre: "prefix_pred p xs" and x: "x \<in> set xs" "p x" "k < hi x"
  shows "takeWhile p xs \<noteq> [] \<and> k < hi (last (takeWhile p xs))"
proof -
  have "x \<in> set (takeWhile p xs) \<union> set (dropWhile p xs)"
    using x(1) by (metis set_append takeWhile_dropWhile_id)
  then have mem: "x \<in> set (takeWhile p xs)"
    using sorted_dropWhile_not [OF pre] x(2) by auto
  moreover have "gap_sorted lo hi (takeWhile p xs)"
    using assms(1) gap_sorted_append [of lo hi "takeWhile p xs" "dropWhile p xs"] by simp
  ultimately show ?thesis
    using gap_sorted_hd_last x(3) by (metis empty_iff empty_set order_less_le_trans)
qed

text \<open>
  On a normalized set, \<open>contains\<close> decides whether a line is in the set, and
  \<open>intersects\<close> whether the set has a range with a line in common with the given one (both
  by one binary search).
\<close>

theorem LineRangeSet_contains_intersects_iff:
  assumes "lrs_ok (lrs_normalizedRanges rs)" "lrs_nonempty (lrs_normalizedRanges rs)"
    and "lr_startLineNumber r < lr_endLineNumberExclusive r"
  shows "(LineRangeSet_contains rs l \<longleftrightarrow> l \<in> lrs_set (lrs_normalizedRanges rs)) \<and>
    (LineRangeSet_intersects rs r \<longleftrightarrow> lrs_set (lrs_normalizedRanges rs) \<inter> lr_set r \<noteq> {})"
proof
  let ?xs = "lrs_normalizedRanges rs"
  note pre = gap_sorted_prefix_pred(1,2) [OF assms(1)]
  let ?p = "\<lambda>x. lr_startLineNumber x \<le> l"
  have "LineRangeSet_contains rs l \<longleftrightarrow>
      takeWhile ?p ?xs \<noteq> [] \<and> l < lr_endLineNumberExclusive (last (takeWhile ?p ?xs))"
    by (simp add: LineRangeSet_contains_def findLastMonotonous_last [OF pre(1)])
  also have "\<dots> \<longleftrightarrow> l \<in> lrs_set ?xs"
    using gap_sorted_last_hit [OF assms(1) pre(1), of _ l l]
    unfolding covered_iff by (metis last_in_set set_takeWhileD)
  finally show "LineRangeSet_contains rs l \<longleftrightarrow> l \<in> lrs_set ?xs" .
  let ?q = "\<lambda>x. lr_startLineNumber x < lr_endLineNumberExclusive r"
  have "LineRangeSet_intersects rs r \<longleftrightarrow>
      takeWhile ?q ?xs \<noteq> [] \<and> lr_startLineNumber r < lr_endLineNumberExclusive (last (takeWhile ?q ?xs))"
    by (simp add: LineRangeSet_intersects_def findLastMonotonous_last [OF pre(2)])
  also have "\<dots> \<longleftrightarrow> (\<exists>x \<in> set ?xs. LineRange_intersectsStrict x r)"
    using gap_sorted_last_hit [OF assms(1) pre(2), of _ "lr_endLineNumberExclusive r" "lr_startLineNumber r"]
    unfolding LineRange_intersectsStrict_def by (metis last_in_set set_takeWhileD)
  also have "\<dots> \<longleftrightarrow> (\<exists>x \<in> set ?xs. lr_set x \<inter> lr_set r \<noteq> {})"
    using LineRange_intersectsStrict_set assms
    by (metis (no_types, lifting) LineRange_isEmpty_def gap_sorted_valid less_irrefl less_imp_le list_all_iff)
  also have "\<dots> \<longleftrightarrow> lrs_set ?xs \<inter> lr_set r \<noteq> {}"
    unfolding covered_def lr_set_def by blast
  finally show "LineRangeSet_intersects rs r \<longleftrightarrow> lrs_set ?xs \<inter> lr_set r \<noteq> {}" .
qed

theorem LineRangeSet_contains_intersects_iff_witness:
  "LineRangeSet_contains \<lparr>lrs_normalizedRanges = [MkLineRange 1 3, MkLineRange 5 6]\<rparr> 4 \<longleftrightarrow>
     4 \<in> lrs_set [MkLineRange 1 3, MkLineRange 5 6]"
  using LineRangeSet_contains_intersects_iff
    [of "\<lparr>lrs_normalizedRanges = [MkLineRange 1 3, MkLineRange 5 6]\<rparr>" "MkLineRange 3 5" 4]
  by (auto simp: gap_sorted_Cons)

subsection \<open>Union\<close>

lemma union_push_spec:
  assumes "lrs_ok (res @ [c])" "lr_ok nxt" "lr_startLineNumber c \<le> lr_startLineNumber nxt"
  shows "\<exists>c' res'. union_push (Some c) res nxt = Inr (c', res') \<and> lrs_ok (res' @ [c']) \<and>
    lr_startLineNumber c' \<le> lr_startLineNumber nxt \<and>
    lrs_set (res' @ [c']) = lrs_set (res @ [c]) \<union> lr_set nxt"
  using assms by (auto simp: gap_sorted_append gap_sorted_Cons lr_set_def le_max_iff_disj)

lemma union_loop_spec:
  assumes "lrs_ok xs" "lrs_ok ys" "lrs_ok (res @ [c])"
    and "\<forall>x \<in> set xs \<union> set ys. lr_startLineNumber c \<le> lr_startLineNumber x"
  shows "\<exists>zs. union_loop xs ys (Some c) res = Inr zs \<and> lrs_ok zs \<and>
    lrs_set zs = lrs_set (res @ [c]) \<union> lrs_set xs \<union> lrs_set ys"
  using assms
proof (induction "length xs + length ys" arbitrary: xs ys c res)
  case 0
  then show ?case by simp
next
  case (Suc n)
  define left where "left \<longleftrightarrow> xs \<noteq> [] \<and> (ys = [] \<or> lr_startLineNumber (hd xs) < lr_startLineNumber (hd ys))"
  define nxt where "nxt = (if left then hd xs else hd ys)"
  define xs' where "xs' = (if left then tl xs else xs)"
  define ys' where "ys' = (if left then ys else tl ys)"
  note defs = nxt_def xs'_def ys'_def left_def
  have step: "union_loop xs ys (Some c) res =
      ebind (union_push (Some c) res nxt) (\<lambda>(c, res). union_loop xs' ys' (Some c) res)"
    using Suc.hyps(2) by (cases xs; cases ys) (auto simp: defs)
  have nxt: "lr_ok nxt" "lr_startLineNumber c \<le> lr_startLineNumber nxt"
    and rest: "n = length xs' + length ys'" "lrs_ok xs'" "lrs_ok ys'"
      "\<forall>x \<in> set xs' \<union> set ys'. lr_startLineNumber nxt \<le> lr_startLineNumber x"
    and cov: "lrs_set xs \<union> lrs_set ys = lr_set nxt \<union> lrs_set xs' \<union> lrs_set ys'"
    using Suc.hyps(2) Suc.prems
    by (cases xs; cases ys; force simp: defs gap_sorted_Cons lr_set_def)+
  obtain c' res' where push: "union_push (Some c) res nxt = Inr (c', res')" "lrs_ok (res' @ [c'])"
    "lr_startLineNumber c' \<le> lr_startLineNumber nxt"
    "lrs_set (res' @ [c']) = lrs_set (res @ [c]) \<union> lr_set nxt"
    using union_push_spec [OF Suc.prems(3) nxt] by blast
  have "\<forall>x \<in> set xs' \<union> set ys'. lr_startLineNumber c' \<le> lr_startLineNumber x"
    using push(3) rest(4) order_trans by blast
  from Suc.hyps(1) [OF rest(1-3) push(2) this] show ?case
    using push(4) cov unfolding step push(1) by auto
qed

lemma getUnion_spec:
  assumes "lrs_ok (lrs_normalizedRanges a)" "lrs_ok (lrs_normalizedRanges b)"
  shows "\<exists>u. LineRangeSet_getUnion a b = Inr u \<and> lrs_ok (lrs_normalizedRanges u) \<and>
    lrs_set (lrs_normalizedRanges u) = lrs_set (lrs_normalizedRanges a) \<union> lrs_set (lrs_normalizedRanges b)"
proof (cases "lrs_normalizedRanges a = [] \<or> lrs_normalizedRanges b = []")
  case True
  with assms show ?thesis by (auto simp: LineRangeSet_getUnion_def)
next
  case False
  then obtain x xs y ys where ab: "lrs_normalizedRanges a = x # xs" "lrs_normalizedRanges b = y # ys"
    by (meson neq_Nil_conv)
  have "\<exists>zs. union_loop (x # xs) (y # ys) None [] = Inr zs \<and> lrs_ok zs \<and>
      lrs_set zs = lrs_set (x # xs) \<union> lrs_set (y # ys)"
  proof (cases "lr_startLineNumber x < lr_startLineNumber y")
    case True
    with assms union_loop_spec [of xs "y # ys" "[]" x] show ?thesis
      by (fastforce simp: ab gap_sorted_Cons)
  next
    case False
    with assms union_loop_spec [of "x # xs" ys "[]" y] show ?thesis
      by (fastforce simp: ab gap_sorted_Cons)
  qed
  then show ?thesis by (auto simp: LineRangeSet_getUnion_def ab LineRangeSet_new_def)
qed

text \<open>
  \<open>getUnion\<close> of two normalized sets never throws, and returns a normalized set that
  holds exactly the lines of both.
\<close>

theorem LineRangeSet_getUnion_exact:
  assumes "lrs_ok (lrs_normalizedRanges a)" "lrs_ok (lrs_normalizedRanges b)"
  shows "\<exists>u. LineRangeSet_getUnion a b = Inr u \<and> lrs_ok (lrs_normalizedRanges u) \<and>
    (\<forall>l. l \<in> lrs_set (lrs_normalizedRanges u) \<longleftrightarrow>
       l \<in> lrs_set (lrs_normalizedRanges a) \<or> l \<in> lrs_set (lrs_normalizedRanges b))"
  using getUnion_spec [OF assms] by auto

theorem LineRangeSet_getUnion_exact_witness:
  "\<exists>u. LineRangeSet_getUnion \<lparr>lrs_normalizedRanges = [MkLineRange 1 3, MkLineRange 5 6]\<rparr>
      \<lparr>lrs_normalizedRanges = [MkLineRange 3 4]\<rparr> = Inr u \<and> lrs_ok (lrs_normalizedRanges u)"
  using LineRangeSet_getUnion_exact [of "\<lparr>lrs_normalizedRanges = [MkLineRange 1 3, MkLineRange 5 6]\<rparr>"
      "\<lparr>lrs_normalizedRanges = [MkLineRange 3 4]\<rparr>"]
  by (auto simp: gap_sorted_Cons)

text \<open>\<open>joinMany\<close> folds \<open>getUnion\<close> over its arguments.\<close>

lemma LineRange_joinMany_spec:
  assumes "\<forall>xs \<in> set xss. lrs_ok xs"
  shows "\<exists>zs. LineRange_joinMany xss = Inr zs \<and> lrs_ok zs \<and> lrs_set zs = (\<Union>xs \<in> set xss. lrs_set xs)"
proof (cases xss)
  case Nil
  then show ?thesis by (simp add: LineRange_joinMany_def)
next
  case (Cons xs rest)
  have "\<exists>u. efold (\<lambda>ys result. LineRangeSet_getUnion result (LineRangeSet_new ys)) rest s = Inr u \<and>
      lrs_ok (lrs_normalizedRanges u) \<and>
      lrs_set (lrs_normalizedRanges u) = lrs_set (lrs_normalizedRanges s) \<union> (\<Union>ys \<in> set rest. lrs_set ys)"
    if "lrs_ok (lrs_normalizedRanges s)" "\<forall>ys \<in> set rest. lrs_ok ys" for s
    using that
  proof (induction rest arbitrary: s)
    case (Cons ys rest)
    obtain u where "LineRangeSet_getUnion s (LineRangeSet_new ys) = Inr u" "lrs_ok (lrs_normalizedRanges u)"
      "lrs_set (lrs_normalizedRanges u) = lrs_set (lrs_normalizedRanges s) \<union> lrs_set ys"
      using getUnion_spec [of s "LineRangeSet_new ys"] Cons.prems by (auto simp: LineRangeSet_new_def)
    with Cons.IH [of u] Cons.prems show ?case by (simp add: Un_assoc)
  qed simp
  from this [of "LineRangeSet_new xs"] assms show ?thesis
    by (auto simp: LineRange_joinMany_def Cons LineRangeSet_new_def)
qed

subsection \<open>Difference\<close>

lemma subtract_loop_spec:
  assumes "lrs_ok rs" "lrs_nonempty rs" "\<forall>x \<in> set rs. s \<le> lr_endLineNumberExclusive x"
    and "lrs_ok res" "\<forall>x \<in> set res. lr_endLineNumberExclusive x < s"
  shows "\<exists>s' res'. subtract_loop rs s res = Inr (s', res') \<and>
    s' = (if rs = [] then s else lr_endLineNumberExclusive (last rs)) \<and>
    lrs_ok res' \<and> (\<forall>x \<in> set res'. lr_endLineNumberExclusive x < s') \<and>
    lrs_set res' = lrs_set res \<union> ({s..<s'} - lrs_set rs)"
  using assms
proof (induction rs arbitrary: s res)
  case (Cons r rs)
  define e where "e = lr_endLineNumberExclusive r"
  define res1 where "res1 = (if lr_startLineNumber r > s then res @ [MkLineRange s (lr_startLineNumber r)] else res)"
  have step: "subtract_loop (r # rs) s res = subtract_loop rs e res1"
    by (simp add: res1_def e_def)
  have r: "lr_startLineNumber r < e" "s \<le> e" using Cons.prems by (auto simp: e_def)
  have res1: "lrs_ok res1" "\<forall>x \<in> set res1. lr_endLineNumberExclusive x < e"
    and cov1: "lrs_set res1 = lrs_set res \<union> ({s..<e} - lr_set r)"
    using Cons.prems r
    by (fastforce simp: res1_def e_def gap_sorted_append gap_sorted_Cons lr_set_def split: if_splits)+
  have after: "\<forall>x \<in> set rs. e < lr_startLineNumber x" and rs: "lrs_ok rs" "lrs_nonempty rs"
    using Cons.prems by (auto simp: gap_sorted_Cons e_def)
  then have ends: "\<forall>x \<in> set rs. e \<le> lr_endLineNumberExclusive x"
    by (force simp: list_all_iff)
  from Cons.IH [OF rs ends res1] obtain s' res' where IH: "subtract_loop rs e res1 = Inr (s', res')"
    "s' = (if rs = [] then e else lr_endLineNumberExclusive (last rs))" "lrs_ok res'"
    "\<forall>x \<in> set res'. lr_endLineNumberExclusive x < s'" "lrs_set res' = lrs_set res1 \<union> ({e..<s'} - lrs_set rs)"
    by blast
  have "e \<le> s'" using IH(2) ends by (cases rs) auto
  moreover have "lrs_set rs \<inter> {s..<e} = {}" using after by (force simp: covered_iff)
  ultimately have "({s..<e} - lr_set r) \<union> ({e..<s'} - lrs_set rs) = {s..<s'} - lrs_set (r # rs)"
    using r by (auto simp: lr_set_def e_def)
  with IH step show ?case by (auto simp: cov1 e_def)
qed simp

text \<open>
  \<open>subtractFrom\<close> of a normalized set without empty ranges never throws; what it returns
  is normalized and holds exactly the lines of the range that are not in the set.
\<close>

theorem LineRangeSet_subtractFrom_exact:
  assumes ok: "lrs_ok (lrs_normalizedRanges rs)" "lrs_nonempty (lrs_normalizedRanges rs)" and r: "lr_ok r"
  shows "\<exists>d. LineRangeSet_subtractFrom rs r = Inr d \<and> lrs_ok (lrs_normalizedRanges d) \<and>
    lrs_set (lrs_normalizedRanges d) = lr_set r - lrs_set (lrs_normalizedRanges rs)"
proof -
  let ?xs = "lrs_normalizedRanges rs"
  define B where "B = part_before lr_endLineNumberExclusive (lr_startLineNumber r) ?xs"
  define M where "M = part_touching lr_startLineNumber lr_endLineNumberExclusive (lr_startLineNumber r)
      (lr_endLineNumberExclusive r) ?xs"
  define A where "A = part_after lr_startLineNumber lr_endLineNumberExclusive (lr_startLineNumber r)
      (lr_endLineNumberExclusive r) ?xs"
  have xs: "?xs = B @ M @ A" by (simp add: B_def M_def A_def)
  note search = lrs_search [OF ok(1) r, folded B_def M_def, unfolded of_nat_add]
  have slice: "js_slice ?xs (int (length B)) (int (length B) + int (length M)) = M"
    by (simp add: js_slice_def seg_def xs)
  have cov: "lr_set r - lrs_set ?xs = lr_set r - lrs_set M"
    using covered_between [OF ok(1) r, folded M_def] by (auto simp: lr_set_def)
  show ?thesis
  proof (cases "M = []")
    case True
    with r cov show ?thesis
      by (auto simp: LineRangeSet_subtractFrom_def search LineRangeSet_new_def gap_sorted_Cons lr_set_def)
  next
    case False
    have M: "lrs_ok M" "lrs_nonempty M" using ok unfolding xs by (auto simp: gap_sorted_append)
    have touch: "lr_startLineNumber r \<le> lr_endLineNumberExclusive x"
      "lr_startLineNumber x \<le> lr_endLineNumberExclusive r" if "x \<in> set M" for x
      using parts_bounds(2) [OF ok(1) r, of x] that by (auto simp: M_def)
    obtain res where loop: "subtract_loop M (lr_startLineNumber r) [] =
          Inr (lr_endLineNumberExclusive (last M), res)" "lrs_ok res"
        "\<forall>x \<in> set res. lr_endLineNumberExclusive x < lr_endLineNumberExclusive (last M)"
        "lrs_set res = {lr_startLineNumber r..<lr_endLineNumberExclusive (last M)} - lrs_set M"
      using subtract_loop_spec [OF M, of "lr_startLineNumber r" "[]"] touch False by auto
    have last: "last M \<in> set M" using False by simp
    have "LineRangeSet_subtractFrom rs r = Inr (LineRangeSet_new
        (if lr_endLineNumberExclusive (last M) < lr_endLineNumberExclusive r
         then res @ [MkLineRange (lr_endLineNumberExclusive (last M)) (lr_endLineNumberExclusive r)] else res))"
      using False by (simp add: LineRangeSet_subtractFrom_def search Let_def slice loop(1))
    moreover have "lrs_set M \<inter> {lr_endLineNumberExclusive (last M)..} = {}"
      using gap_sorted_hd_last [OF M(1)] by (fastforce simp: covered_iff)
    moreover have "{lr_endLineNumberExclusive r..<lr_endLineNumberExclusive (last M)} \<subseteq> lrs_set M"
      using touch(2) [OF last] last by (auto simp: covered_iff intro!: bexI [of _ "last M"])
    then have "lrs_set res \<inter> {lr_endLineNumberExclusive r..} = {}" unfolding loop(4) by fastforce
    ultimately show ?thesis
      using loop(2-4) touch(1) [OF last] cov
      by (auto simp: LineRangeSet_new_def gap_sorted_append gap_sorted_Cons lr_set_def)
  qed
qed

theorem LineRangeSet_subtractFrom_exact_witness:
  "\<exists>d. LineRangeSet_subtractFrom \<lparr>lrs_normalizedRanges = [MkLineRange 1 3, MkLineRange 5 6]\<rparr>
      (MkLineRange 2 9) = Inr d \<and>
    lrs_set (lrs_normalizedRanges d) = lr_set (MkLineRange 2 9) - lrs_set [MkLineRange 1 3, MkLineRange 5 6]"
  using LineRangeSet_subtractFrom_exact
    [of "\<lparr>lrs_normalizedRanges = [MkLineRange 1 3, MkLineRange 5 6]\<rparr>" "MkLineRange 2 9"]
  by (auto simp: gap_sorted_Cons)

subsection \<open>Intersection\<close>

lemma intersection_loop_spec:
  assumes "lrs_ok xs" "lrs_ok ys" "lrs_ok res"
    and "\<forall>z \<in> set res. \<forall>x \<in> set xs. \<forall>y \<in> set ys.
      lr_endLineNumberExclusive z < max (lr_startLineNumber x) (lr_startLineNumber y)"
  shows "\<exists>zs. intersection_loop xs ys res = Inr zs \<and> lrs_ok zs \<and>
    lrs_set zs = lrs_set res \<union> (lrs_set xs \<inter> lrs_set ys)"
  using assms
proof (induction xs ys res rule: intersection_loop.induct)
  case (1 r1 xs r2 ys res)
  define a where "a = max (lr_startLineNumber r1) (lr_startLineNumber r2)"
  define b where "b = min (lr_endLineNumberExclusive r1) (lr_endLineNumberExclusive r2)"
  define res1 where "res1 = (if a < b then res @ [MkLineRange a b] else res)"
  define i where "i = (if a \<le> b then Some (MkLineRange a b) else None)"
  have i: "LineRange_intersect r1 r2 = Inr i"
    by (simp add: LineRange_intersect_def i_def a_def [symmetric] b_def [symmetric] Let_def)
  have res1_eq: "(case i of None \<Rightarrow> res | Some x \<Rightarrow> if \<not> LineRange_isEmpty x then res @ [x] else res) = res1"
    by (auto simp: i_def res1_def LineRange_isEmpty_def)
  have set1: "lrs_set res1 = lrs_set res \<union> (lr_set r1 \<inter> lr_set r2)"
    by (auto simp: res1_def a_def b_def lr_set_def)
  have ok1: "lrs_ok res1"
    using 1(5,6) by (auto simp: res1_def a_def gap_sorted_append gap_sorted_Cons)
  have piece: "lr_endLineNumberExclusive z < k"
    if "z \<in> set res1" "b < k" "\<forall>z \<in> set res. lr_endLineNumberExclusive z < k" for z k
    using that by (auto simp: res1_def split: if_splits)
  have r1: "\<forall>x \<in> set xs. lr_endLineNumberExclusive r1 < lr_startLineNumber x" "lrs_ok xs" "lr_ok r1"
    and r2: "\<forall>y \<in> set ys. lr_endLineNumberExclusive r2 < lr_startLineNumber y" "lrs_ok ys" "lr_ok r2"
    using 1(3,4) by (simp_all add: gap_sorted_Cons)
  show ?case
  proof (cases "lr_endLineNumberExclusive r1 < lr_endLineNumberExclusive r2")
    case True
    have "lr_endLineNumberExclusive z < max (lr_startLineNumber x) (lr_startLineNumber y)"
      if "z \<in> set res1" "x \<in> set xs" "y \<in> set (r2 # ys)" for z x y
    proof (rule piece [OF that(1)])
      show "b < max (lr_startLineNumber x) (lr_startLineNumber y)"
        using bspec [OF r1(1) that(2)] by (simp add: b_def less_max_iff_disj min_less_iff_disj)
    qed (use 1(6) that in auto)
    then have "\<forall>z \<in> set res1. \<forall>x \<in> set xs. \<forall>y \<in> set (r2 # ys).
        lr_endLineNumberExclusive z < max (lr_startLineNumber x) (lr_startLineNumber y)" by blast
    note IH = 1(1) [OF res1_eq [symmetric] True r1(2) 1(4) ok1 this]
    have "lr_set r1 \<inter> lrs_set ys = {}" using r2 True by (force simp: covered_iff in_lr_set)
    then have "lrs_set (r1 # xs) \<inter> lrs_set (r2 # ys) =
        (lr_set r1 \<inter> lr_set r2) \<union> (lrs_set xs \<inter> lrs_set (r2 # ys))"
      by (auto simp: lr_set_def)
    with IH True show ?thesis by (simp add: i res1_eq set1 Un_assoc)
  next
    case False
    have "lr_endLineNumberExclusive z < max (lr_startLineNumber x) (lr_startLineNumber y)"
      if "z \<in> set res1" "x \<in> set (r1 # xs)" "y \<in> set ys" for z x y
    proof (rule piece [OF that(1)])
      show "b < max (lr_startLineNumber x) (lr_startLineNumber y)"
        using bspec [OF r2(1) that(3)] by (simp add: b_def less_max_iff_disj min_less_iff_disj)
    qed (use 1(6) that in auto)
    then have "\<forall>z \<in> set res1. \<forall>x \<in> set (r1 # xs). \<forall>y \<in> set ys.
        lr_endLineNumberExclusive z < max (lr_startLineNumber x) (lr_startLineNumber y)" by blast
    note IH = 1(2) [OF res1_eq [symmetric] False 1(3) r2(2) ok1 this]
    have "lr_set r2 \<inter> lrs_set xs = {}" using r1 False by (force simp: covered_iff in_lr_set)
    then have "lrs_set (r1 # xs) \<inter> lrs_set (r2 # ys) =
        (lr_set r1 \<inter> lr_set r2) \<union> (lrs_set (r1 # xs) \<inter> lrs_set ys)"
      by (auto simp: lr_set_def)
    with IH False show ?thesis by (simp add: i res1_eq set1 Un_assoc)
  qed
qed auto

text \<open>
  \<open>getIntersection\<close> of two normalized sets never throws, and returns a normalized set
  that holds exactly the lines that are in both.
\<close>

theorem LineRangeSet_getIntersection_exact:
  assumes "lrs_ok (lrs_normalizedRanges a)" "lrs_ok (lrs_normalizedRanges b)"
  shows "\<exists>i. LineRangeSet_getIntersection a b = Inr i \<and> lrs_ok (lrs_normalizedRanges i) \<and>
    lrs_set (lrs_normalizedRanges i) = lrs_set (lrs_normalizedRanges a) \<inter> lrs_set (lrs_normalizedRanges b)"
  using intersection_loop_spec [OF assms, of "[]"]
  by (auto simp: LineRangeSet_getIntersection_def LineRangeSet_new_def)

theorem LineRangeSet_getIntersection_exact_witness:
  "\<exists>i. LineRangeSet_getIntersection \<lparr>lrs_normalizedRanges = [MkLineRange 1 3, MkLineRange 5 8]\<rparr>
      \<lparr>lrs_normalizedRanges = [MkLineRange 2 7]\<rparr> = Inr i \<and>
    lrs_set (lrs_normalizedRanges i) =
      lrs_set [MkLineRange 1 3, MkLineRange 5 8] \<inter> lrs_set [MkLineRange 2 7]"
  using LineRangeSet_getIntersection_exact [of "\<lparr>lrs_normalizedRanges = [MkLineRange 1 3, MkLineRange 5 8]\<rparr>"
      "\<lparr>lrs_normalizedRanges = [MkLineRange 2 7]\<rparr>"]
  by (auto simp: gap_sorted_Cons)

lemma LineRangeSet_getWithDelta_set:
  assumes "lrs_ok (lrs_normalizedRanges rs)"
  shows "\<exists>rs'. LineRangeSet_getWithDelta rs k = Inr rs' \<and> lrs_ok (lrs_normalizedRanges rs') \<and>
    lrs_set (lrs_normalizedRanges rs') = (\<lambda>l. l + k) ` lrs_set (lrs_normalizedRanges rs)"
proof -
  let ?d = "\<lambda>r. MkLineRange (lr_startLineNumber r + k) (lr_endLineNumberExclusive r + k)"
  have "emapM (\<lambda>r. LineRange_delta r k) (lrs_normalizedRanges rs) = Inr (map ?d (lrs_normalizedRanges rs))"
    using gap_sorted_valid [OF assms] by (intro emapM_Inr_map) (simp add: LineRange_delta_def)
  moreover have "lrs_ok (map ?d xs)" if "lrs_ok xs" for xs
    using that by (induction xs) (auto simp: gap_sorted_Cons)
  moreover have "lrs_set (map ?d xs) = (\<lambda>l. l + k) ` lrs_set xs" for xs
    by (induction xs) (simp_all add: image_Un)
  ultimately show ?thesis
    using assms by (simp add: LineRangeSet_getWithDelta_def LineRangeSet_new_def)
qed

end
