(* ===== verification/TextLengths.thy ===== *)
theory TextLengths
  imports PositionRange LineRange
begin

text \<open>
  Model of \<open>editor/common/core/textLength.ts\<close>: the length of a text as a number of line
  breaks and the number of columns after the last of them. The interface of such lengths is
  stated as a locale, because the bracket pair tree has a second, packed representation of
  them.
\<close>

section \<open>TextLength\<close>

datatype TextLength = TextLength (lineCount: int) (columnCount: int)

definition TextLength_zero :: TextLength where
  "TextLength_zero = TextLength 0 0"

definition TextLength_isZero :: "TextLength \<Rightarrow> bool" where
  "TextLength_isZero a \<longleftrightarrow> lineCount a = 0 \<and> columnCount a = 0"

definition TextLength_isLessThan :: "TextLength \<Rightarrow> TextLength \<Rightarrow> bool" where
  "TextLength_isLessThan a b =
     (if lineCount a \<noteq> lineCount b then lineCount a < lineCount b else columnCount a < columnCount b)"

definition TextLength_isGreaterThan :: "TextLength \<Rightarrow> TextLength \<Rightarrow> bool" where
  "TextLength_isGreaterThan a b =
     (if lineCount a \<noteq> lineCount b then lineCount a > lineCount b else columnCount a > columnCount b)"

definition TextLength_isGreaterThanOrEqualTo :: "TextLength \<Rightarrow> TextLength \<Rightarrow> bool" where
  "TextLength_isGreaterThanOrEqualTo a b =
     (if lineCount a \<noteq> lineCount b then lineCount a > lineCount b else columnCount a \<ge> columnCount b)"

definition TextLength_equals :: "TextLength \<Rightarrow> TextLength \<Rightarrow> bool" where
  "TextLength_equals a b \<longleftrightarrow> lineCount a = lineCount b \<and> columnCount a = columnCount b"

definition TextLength_compare :: "TextLength \<Rightarrow> TextLength \<Rightarrow> int" where
  "TextLength_compare a b =
     (if lineCount a \<noteq> lineCount b then lineCount a - lineCount b else columnCount a - columnCount b)"

definition TextLength_lengthDiffNonNegative :: "TextLength \<Rightarrow> TextLength \<Rightarrow> TextLength" where
  "TextLength_lengthDiffNonNegative a b =
     (if TextLength_isLessThan b a then TextLength_zero
      else if lineCount a = lineCount b then TextLength 0 (columnCount b - columnCount a)
      else TextLength (lineCount b - lineCount a) (columnCount b))"

definition TextLength_betweenPositions :: "Position \<Rightarrow> Position \<Rightarrow> TextLength" where
  "TextLength_betweenPositions p q =
     (if lineNumber p = lineNumber q then TextLength 0 (column q - column p)
      else TextLength (lineNumber q - lineNumber p) (column q - 1))"

definition TextLength_fromPosition :: "Position \<Rightarrow> TextLength" where
  "TextLength_fromPosition p = TextLength (lineNumber p - 1) (column p - 1)"

definition TextLength_ofRange :: "Range \<Rightarrow> TextLength" where
  "TextLength_ofRange r =
     TextLength_betweenPositions (Range_getStartPosition r) (Range_getEndPosition r)"

definition TextLength_add :: "TextLength \<Rightarrow> TextLength \<Rightarrow> TextLength" where
  "TextLength_add a b =
     (if lineCount b = 0 then TextLength (lineCount a) (columnCount a + columnCount b)
      else TextLength (lineCount a + lineCount b) (columnCount b))"

definition TextLength_createRange :: "TextLength \<Rightarrow> Position \<Rightarrow> Range" where
  "TextLength_createRange a p =
     (if lineCount a = 0
      then Range_new (lineNumber p) (column p) (lineNumber p) (column p + columnCount a)
      else Range_new (lineNumber p) (column p) (lineNumber p + lineCount a) (columnCount a + 1))"

definition TextLength_toRange :: "TextLength \<Rightarrow> Range" where
  "TextLength_toRange a = Range_new 1 1 (lineCount a + 1) (columnCount a + 1)"

definition TextLength_toLineRange :: "TextLength \<Rightarrow> LineRange result" where
  "TextLength_toLineRange a = LineRange_ofLength 1 (lineCount a)"

definition TextLength_addToPosition :: "TextLength \<Rightarrow> Position \<Rightarrow> Position" where
  "TextLength_addToPosition a p =
     (if lineCount a = 0 then Position (lineNumber p) (column p + columnCount a)
      else Position (lineNumber p + lineCount a) (columnCount a + 1))"

definition TextLength_addToRange :: "TextLength \<Rightarrow> Range \<Rightarrow> Range" where
  "TextLength_addToRange a r =
     Range_fromPositions (TextLength_addToPosition a (Range_getStartPosition r))
       (TextLength_addToPosition a (Range_getEndPosition r))"

subsection \<open>The length of a string\<close>

text \<open>
  \<open>for (const c of text)\<close> visits a string by code points: a high surrogate followed by a
  low surrogate is one step.
\<close>

definition is_high_surrogate :: "code_unit \<Rightarrow> bool" where
  "is_high_surrogate c \<longleftrightarrow> 0xD800 \<le> c \<and> c \<le> 0xDBFF"

definition is_low_surrogate :: "code_unit \<Rightarrow> bool" where
  "is_low_surrogate c \<longleftrightarrow> 0xDC00 \<le> c \<and> c \<le> 0xDFFF"

fun code_points :: "js_string \<Rightarrow> js_string list" where
  "code_points [] = []"
| "code_points [c] = [[c]]"
| "code_points (c # d # s) =
     (if is_high_surrogate c \<and> is_low_surrogate d then [c, d] # code_points s
      else [c] # code_points (d # s))"

definition ofText_step :: "int \<times> int \<Rightarrow> js_string \<Rightarrow> int \<times> int" where
  "ofText_step st c = (if c = [LF] then (fst st + 1, 0) else (fst st, snd st + 1))"

definition TextLength_ofText :: "js_string \<Rightarrow> TextLength" where
  "TextLength_ofText text =
     (let (line, col) = foldl ofText_step (0, 0) (code_points text) in TextLength line col)"

section \<open>The interface of lengths\<close>

locale length_monoid =
  fixes ok :: "'l \<Rightarrow> bool" and zero :: 'l and add :: "'l \<Rightarrow> 'l \<Rightarrow> 'l"
  assumes ok_zero: "ok zero"
    and ok_add: "ok a \<Longrightarrow> ok b \<Longrightarrow> ok (add a b)"
    and add_assoc: "ok a \<Longrightarrow> ok b \<Longrightarrow> ok c \<Longrightarrow> add (add a b) c = add a (add b c)"
    and zero_left: "ok a \<Longrightarrow> add zero a = a"
    and zero_right: "ok a \<Longrightarrow> add a zero = a"
begin

lemma ok_foldl: "ok a \<Longrightarrow> list_all ok xs \<Longrightarrow> ok (foldl add a xs)"
  by (induction xs arbitrary: a) (auto simp: ok_add)

lemma foldl_add: "ok a \<Longrightarrow> list_all ok xs \<Longrightarrow> foldl add a xs = add a (foldl add zero xs)"
proof (induction xs arbitrary: a)
  case (Cons x xs)
  then have "foldl add a (x # xs) = add (add a x) (foldl add zero xs)" by (simp add: ok_add)
  also have "\<dots> = add a (add x (foldl add zero xs))"
    using Cons.prems by (simp add: add_assoc ok_foldl ok_zero)
  also have "add x (foldl add zero xs) = foldl add zero (x # xs)"
    using Cons.prems Cons.IH [of x] by (simp add: zero_left)
  finally show ?case .
qed (simp add: zero_right)

lemma foldl_append:
  "list_all ok xs \<Longrightarrow> list_all ok ys \<Longrightarrow>
     foldl add zero (xs @ ys) = add (foldl add zero xs) (foldl add zero ys)"
  using foldl_add [of "foldl add zero xs" ys] by (simp add: ok_foldl ok_zero)

end

text \<open>
  A measure of strings in such lengths. It need not be additive everywhere: \<open>seam s t\<close> says
  that the boundary between \<open>s\<close> and \<open>t\<close> does not cut a unit of the measure in two.
\<close>

locale text_measure = length_monoid ok zero add
  for ok :: "'l \<Rightarrow> bool" and zero :: 'l and add :: "'l \<Rightarrow> 'l \<Rightarrow> 'l" +
  fixes measure :: "js_string \<Rightarrow> 'l" and seam :: "js_string \<Rightarrow> js_string \<Rightarrow> bool"
  assumes measure_ok: "ok (measure s)"
    and measure_Nil: "measure [] = zero"
    and measure_append: "seam s t \<Longrightarrow> measure (s @ t) = add (measure s) (measure t)"
begin

lemma measure_concat:
  assumes "\<And>i. i < length ss \<Longrightarrow> seam (concat (take i ss)) (ss ! i)"
  shows "measure (concat ss) = foldl add zero (map measure ss)"
  using assms
proof (induction ss rule: rev_induct)
  case (snoc s ss)
  have "seam (concat (take i ss)) (ss ! i)" if "i < length ss" for i
    using snoc.prems [of i] that by (simp add: nth_append)
  moreover have "seam (concat ss) s" using snoc.prems [of "length ss"] by simp
  ultimately show ?case using snoc.IH by (simp add: measure_append)
qed (simp add: measure_Nil)

end

section \<open>Laws of TextLength\<close>

definition tl_ok :: "TextLength \<Rightarrow> bool" where
  "tl_ok a \<longleftrightarrow> 0 \<le> lineCount a \<and> 0 \<le> columnCount a"

lemmas tl_defs = TextLength_zero_def TextLength_add_def TextLength_isLessThan_def TextLength_isGreaterThan_def
  TextLength_isGreaterThanOrEqualTo_def TextLength_lengthDiffNonNegative_def
  TextLength_betweenPositions_def TextLength_addToPosition_def tl_ok_def

lemma TextLength_eq_iff: "a = b \<longleftrightarrow> lineCount a = lineCount b \<and> columnCount a = columnCount b"
  by (cases a; cases b) auto

interpretation text_length: length_monoid tl_ok TextLength_zero TextLength_add
  by unfold_locales (auto simp: tl_defs TextLength_eq_iff)

interpretation text_length_cmp: comparator TextLength_compare
  by unfold_locales (auto simp: TextLength_compare_def sgn_if split: if_splits)

lemma TextLength_order_compare:
  "TextLength_isLessThan a b \<longleftrightarrow> TextLength_compare a b < 0"
  "TextLength_isGreaterThan a b \<longleftrightarrow> TextLength_compare a b > 0"
  "TextLength_isGreaterThanOrEqualTo a b \<longleftrightarrow> TextLength_compare a b \<ge> 0"
  "TextLength_equals a b \<longleftrightarrow> TextLength_compare a b = 0"
  by (auto simp: tl_defs TextLength_compare_def TextLength_equals_def)

text \<open>Lengths act on positions.\<close>

lemma addToPosition_add:
  "tl_ok a \<Longrightarrow> tl_ok b \<Longrightarrow>
     TextLength_addToPosition (TextLength_add a b) p =
     TextLength_addToPosition b (TextLength_addToPosition a p)"
  by (auto simp: tl_defs)

lemma addToPosition_zero [simp]: "TextLength_addToPosition TextLength_zero p = p"
  by (simp add: tl_defs)

lemma addToPosition_mono: "tl_ok a \<Longrightarrow> p \<le> TextLength_addToPosition a p"
  by (auto simp: tl_defs Position_le_iff)

lemma addToPosition_fields:
  "lineNumber (TextLength_addToPosition a p) = lineNumber p + lineCount a"
  "column (TextLength_addToPosition a p) = (if lineCount a = 0 then column p + columnCount a else columnCount a + 1)"
  by (simp_all add: TextLength_addToPosition_def)

lemma TextLength_createRange_endpoints [endpoint]:
  assumes "tl_ok a"
  shows "rstart (TextLength_createRange a p) = p"
    "rend (TextLength_createRange a p) = TextLength_addToPosition a p"
  using assms
  by (auto simp: TextLength_createRange_def Range_new_def tl_defs Position_eq_iff)

text \<open>
  The length between two positions is the one length that leads from the first to the
  second: adding it to the first position gives the second one, and the length between a
  position and that position moved by a length is this length again.
\<close>

theorem TextLength_between_add:
  assumes "p \<le> q" "1 \<le> column q" "tl_ok a"
  shows "tl_ok (TextLength_betweenPositions p q) \<and>
    TextLength_addToPosition (TextLength_betweenPositions p q) p = q \<and>
    TextLength_betweenPositions p (TextLength_addToPosition a p) = a"
  using assms by (auto simp: tl_defs Position_le_iff Position_eq_iff TextLength_eq_iff)

theorem TextLength_between_add_witness:
  "TextLength_addToPosition (TextLength_betweenPositions (Position 1 4) (Position 3 2)) (Position 1 4) = Position 3 2"
  using TextLength_between_add [of "Position 1 4" "Position 3 2" "TextLength 2 7"]
  by (auto simp: tl_ok_def Position_le_iff)

lemma lengthDiffNonNegative_add:
  assumes "tl_ok a" "tl_ok b"
  shows "TextLength_lengthDiffNonNegative a (TextLength_add a b) = b"
    and "\<not> TextLength_isLessThan b a \<Longrightarrow> TextLength_add a (TextLength_lengthDiffNonNegative a b) = b"
  using assms by (auto simp: tl_defs TextLength_eq_iff split: if_splits)

section \<open>The length of a string in code units\<close>

text \<open>
  The reference for positions in a string: the number of line feeds, and the number of code
  units after the last of them.
\<close>

definition tlen_step :: "TextLength \<Rightarrow> code_unit \<Rightarrow> TextLength" where
  "tlen_step a c = (if c = LF then TextLength (lineCount a + 1) 0 else TextLength (lineCount a) (columnCount a + 1))"

definition tlen :: "js_string \<Rightarrow> TextLength" where
  "tlen s = foldl tlen_step TextLength_zero s"

lemma tlen_Nil [simp]: "tlen [] = TextLength_zero"
  by (simp add: tlen_def)

lemma tlen_snoc: "tlen (s @ [c]) = tlen_step (tlen s) c"
  by (simp add: tlen_def)

lemma tlen_ok [simp]: "tl_ok (tlen s)"
  by (induction s rule: rev_induct) (auto simp: tlen_snoc tlen_step_def tl_defs)

lemma tlen_append: "tlen (s @ t) = TextLength_add (tlen s) (tlen t)"
proof (induction t rule: rev_induct)
  case Nil
  then show ?case by (simp add: text_length.zero_right)
next
  case (snoc c t)
  have "tlen ((s @ t) @ [c]) = tlen_step (TextLength_add (tlen s) (tlen t)) c"
    unfolding tlen_snoc snoc ..
  also have "\<dots> = TextLength_add (tlen s) (tlen_step (tlen t) c)"
    using tlen_ok [of t] by (auto simp: tlen_step_def tl_defs)
  finally show ?case by (simp add: tlen_snoc)
qed

interpretation code_unit_measure: text_measure tl_ok TextLength_zero TextLength_add tlen "\<lambda>_ _. True"
  by unfold_locales (simp_all add: tlen_append)

subsection \<open>ofText\<close>

definition pair_seam :: "js_string \<Rightarrow> js_string \<Rightarrow> bool" where
  "pair_seam s t \<longleftrightarrow> \<not> (s \<noteq> [] \<and> t \<noteq> [] \<and> is_high_surrogate (last s) \<and> is_low_surrogate (hd t))"

fun no_pairs :: "js_string \<Rightarrow> bool" where
  "no_pairs (c # d # s) \<longleftrightarrow> \<not> (is_high_surrogate c \<and> is_low_surrogate d) \<and> no_pairs (d # s)"
| "no_pairs [] \<longleftrightarrow> True"
| "no_pairs [c] \<longleftrightarrow> True"

lemma code_points_no_pairs: "no_pairs s \<Longrightarrow> code_points s = map (\<lambda>c. [c]) s"
  by (induction s rule: code_points.induct) auto

lemma no_pairs_append: "no_pairs (s @ t) \<longleftrightarrow> no_pairs s \<and> no_pairs t \<and> pair_seam s t"
proof (induction s rule: no_pairs.induct)
  case (3 c)
  then show ?case by (cases t) (auto simp: pair_seam_def)
qed (auto simp: pair_seam_def)

lemma code_points_append: "pair_seam s t \<Longrightarrow> code_points (s @ t) = code_points s @ code_points t"
proof (induction s rule: code_points.induct)
  case (2 c)
  then show ?case by (cases t) (auto simp: pair_seam_def)
next
  case (3 c d s)
  have "pair_seam s t" if "s \<noteq> []" using 3(3) that by (simp add: pair_seam_def)
  moreover have "pair_seam (d # s) t" using 3(3) by (simp add: pair_seam_def)
  moreover have "pair_seam [] t" by (simp add: pair_seam_def)
  ultimately show ?case using 3(1,2) by (cases "s = []") auto
qed simp

lemma ofText_step_pair: "ofText_step (l, c) x = (if x = [LF] then (l + 1, 0) else (l, c + 1))"
  by (simp add: ofText_step_def)

lemma ofText_step_nonneg:
  "0 \<le> fst (foldl ofText_step (0, 0) xs) \<and> 0 \<le> snd (foldl ofText_step (0, 0) xs)"
  by (induction xs rule: rev_induct) (auto simp: ofText_step_def)

lemma ofText_step_add:
  "foldl ofText_step (l, c) xs =
    (l + fst (foldl ofText_step (0, 0) xs),
     if fst (foldl ofText_step (0, 0) xs) = 0 then c + snd (foldl ofText_step (0, 0) xs)
     else snd (foldl ofText_step (0, 0) xs))"
proof (induction xs rule: rev_induct)
  case (snoc x xs)
  with ofText_step_nonneg [of xs] show ?case
    by (cases "foldl ofText_step (0, 0) xs") (simp add: ofText_step_pair)
qed simp

lemma TextLength_ofText_Nil [simp]: "TextLength_ofText [] = TextLength_zero"
  by (simp add: TextLength_ofText_def TextLength_zero_def)

interpretation code_point_measure: text_measure tl_ok TextLength_zero TextLength_add TextLength_ofText pair_seam
proof
  fix s t :: js_string
  obtain l c where s: "foldl ofText_step (0, 0) (code_points s) = (l, c)" by fastforce
  obtain l' c' where t: "foldl ofText_step (0, 0) (code_points t) = (l', c')" by fastforce
  have pos: "0 \<le> l" "0 \<le> c" "0 \<le> l'"
    using ofText_step_nonneg [of "code_points s"] ofText_step_nonneg [of "code_points t"] s t by simp_all
  show "tl_ok (TextLength_ofText s)" using pos by (simp add: TextLength_ofText_def s tl_ok_def)
  show "TextLength_ofText (s @ t) = TextLength_add (TextLength_ofText s) (TextLength_ofText t)"
    if "pair_seam s t"
    using ofText_step_add [of l c "code_points t"] pos
    by (auto simp: TextLength_ofText_def code_points_append [OF that] s t tl_defs)
qed simp

lemma ofText_tlen: "no_pairs s \<Longrightarrow> TextLength_ofText s = tlen s"
proof (induction s rule: rev_induct)
  case (snoc c s)
  then have np: "no_pairs s" "pair_seam s [c]" by (simp_all add: no_pairs_append)
  have "TextLength_ofText [c] = tlen [c]"
    by (simp add: TextLength_ofText_def ofText_step_def tlen_def tlen_step_def TextLength_zero_def)
  with snoc.IH [OF np(1)] show ?case
    using code_point_measure.measure_append [OF np(2)] by (simp add: tlen_append)
qed simp

text \<open>
  \<open>TextLength.ofText\<close> of a string without surrogate pairs is its length in lines and
  UTF-16 columns, the unit of every column in the editor; each surrogate pair makes the result
  one column too short, because the loop visits code points.
\<close>

theorem TextLength_ofText_units:
  "(no_pairs s \<longrightarrow> TextLength_ofText s = tlen s) \<and>
   (no_pairs s \<and> is_high_surrogate h \<and> is_low_surrogate l \<and> pair_seam s [h] \<longrightarrow>
      columnCount (TextLength_ofText (s @ [h, l])) = columnCount (tlen (s @ [h, l])) - 1)"
proof (intro conjI impI)
  assume a: "no_pairs s \<and> is_high_surrogate h \<and> is_low_surrogate l \<and> pair_seam s [h]"
  then have ne: "h \<noteq> LF" "l \<noteq> LF" by (auto simp: is_high_surrogate_def is_low_surrogate_def)
  have "pair_seam s [h, l]" using a by (simp add: pair_seam_def)
  from code_point_measure.measure_append [OF this] have
    "TextLength_ofText (s @ [h, l]) = TextLength_add (tlen s) (TextLength 0 1)"
    using a by (simp add: ofText_tlen) (simp add: TextLength_ofText_def ofText_step_def)
  moreover have "tlen (s @ [h, l]) = TextLength_add (tlen s) (TextLength 0 2)"
    using ne by (simp add: tlen_append) (simp add: tlen_def tlen_step_def TextLength_zero_def)
  ultimately show "columnCount (TextLength_ofText (s @ [h, l])) = columnCount (tlen (s @ [h, l])) - 1"
    by (simp add: TextLength_add_def)
qed (rule ofText_tlen)

theorem TextLength_ofText_units_witness:
  "TextLength_ofText [0x61, LF, 0x62] = tlen [0x61, LF, 0x62] \<and>
   columnCount (TextLength_ofText [0xD83D, 0xDE00]) = columnCount (tlen [0xD83D, 0xDE00]) - 1"
  using TextLength_ofText_units [of "[0x61, LF, 0x62]"] TextLength_ofText_units [of "[]" "0xD83D" "0xDE00"]
  by (simp add: is_high_surrogate_def is_low_surrogate_def pair_seam_def)

end
