(* ===== verification/PositionOffset.thy ===== *)
theory PositionOffset
  imports TextLengths OffsetRange
begin

text \<open>
  Model of \<open>editor/common/core/positionToOffset.ts\<close>: the table of line starts of a string
  and the conversions between offsets and positions. Reading the table outside its bounds
  yields \<open>undefined\<close> in the source and turns the result into \<open>NaN\<close>; such a result is
  \<^const>\<open>None\<close> here.
\<close>

section \<open>PositionOffsetTransformer\<close>

record PositionOffsetTransformer =
  pot_text :: js_string
  pot_lineStartOffsetByLineIdx :: "int list"
  pot_lineEndOffsetByLineIdx :: "int list"

text \<open>One iteration of the constructor's loop.\<close>

definition pot_step :: "js_string \<Rightarrow> int list \<times> int list \<Rightarrow> nat \<Rightarrow> int list \<times> int list" where
  "pot_step text st i =
     (if text ! i = LF
      then (fst st @ [int i + 1],
            snd st @ [if i > 0 \<and> text ! (i - 1) = CR then int i - 1 else int i])
      else st)"

definition PositionOffsetTransformer_new :: "js_string \<Rightarrow> PositionOffsetTransformer" where
  "PositionOffsetTransformer_new text =
     (let (starts, ends) = foldl (pot_step text) ([0], []) [0..<length text]
      in \<lparr>pot_text = text, pot_lineStartOffsetByLineIdx = starts,
          pot_lineEndOffsetByLineIdx = ends @ [int (length text)]\<rparr>)"

definition getOffset :: "PositionOffsetTransformer \<Rightarrow> Position \<Rightarrow> int option" where
  "getOffset t p =
     map_option (\<lambda>s. s + column p - 1) (js_get (pot_lineStartOffsetByLineIdx t) (lineNumber p - 1))"

text \<open>The range has a bound that is \<open>NaN\<close> (\<open>Inr None\<close>) when one of the lines does not exist.\<close>

definition getOffsetRange :: "PositionOffsetTransformer \<Rightarrow> Range \<Rightarrow> OffsetRange option result" where
  "getOffsetRange t r =
     (case (getOffset t (Range_getStartPosition r), getOffset t (Range_getEndPosition r)) of
        (Some a, Some b) \<Rightarrow> emap Some (OffsetRange_new a b)
      | _ \<Rightarrow> Inr None)"

definition getPosition :: "PositionOffsetTransformer \<Rightarrow> int \<Rightarrow> Position option" where
  "getPosition t k =
     (let idx = findLastIdxMonotonous (pot_lineStartOffsetByLineIdx t) (\<lambda>i. i \<le> k)
      in map_option (\<lambda>s. Position (idx + 1) (k - s + 1)) (js_get (pot_lineStartOffsetByLineIdx t) idx))"

definition getRange :: "PositionOffsetTransformer \<Rightarrow> OffsetRange \<Rightarrow> Range option" where
  "getRange t r =
     (case (getPosition t (or_start r), getPosition t (or_endExclusive r)) of
        (Some p, Some q) \<Rightarrow> Some (Range_fromPositions p q)
      | _ \<Rightarrow> None)"

definition getTextLength :: "PositionOffsetTransformer \<Rightarrow> OffsetRange \<Rightarrow> TextLength option" where
  "getTextLength t r = map_option TextLength_ofRange (getRange t r)"

definition pot_textLength :: "PositionOffsetTransformer \<Rightarrow> TextLength" where
  "pot_textLength t =
     (let lineIdx = length (pot_lineStartOffsetByLineIdx t) - 1
      in TextLength (int lineIdx) (int (length (pot_text t)) - pot_lineStartOffsetByLineIdx t ! lineIdx))"

definition getLineLength :: "PositionOffsetTransformer \<Rightarrow> int \<Rightarrow> int option" where
  "getLineLength t l =
     (case (js_get (pot_lineEndOffsetByLineIdx t) (l - 1), js_get (pot_lineStartOffsetByLineIdx t) (l - 1)) of
        (Some e, Some s) \<Rightarrow> Some (e - s)
      | _ \<Rightarrow> None)"

section \<open>The table of line starts\<close>

abbreviation line_starts :: "js_string \<Rightarrow> int list" where
  "line_starts s \<equiv> pot_lineStartOffsetByLineIdx (PositionOffsetTransformer_new s)"

lemma pot_text_new [simp]: "pot_text (PositionOffsetTransformer_new s) = s"
  by (simp add: PositionOffsetTransformer_new_def split: prod.splits)

lemma pot_loop_snoc:
  "foldl (pot_step (s @ [c])) st [0..<length (s @ [c])] =
     pot_step (s @ [c]) (foldl (pot_step s) st [0..<length s]) (length s)"
proof -
  have "foldl (pot_step (s @ [c])) st [0..<length s] = foldl (pot_step s) st [0..<length s]"
    by (rule foldl_cong) (auto simp: pot_step_def nth_append)
  then show ?thesis by simp
qed

lemma line_starts_Nil [simp]: "line_starts [] = [0]"
  by (simp add: PositionOffsetTransformer_new_def)

lemma line_starts_snoc:
  "line_starts (s @ [c]) = line_starts s @ (if c = LF then [int (length s) + 1] else [])"
  unfolding PositionOffsetTransformer_new_def pot_loop_snoc
  by (simp add: pot_step_def split: prod.splits)

lemma line_starts_bounds: "set (line_starts s) \<subseteq> {0..int (length s)}"
proof (induction s rule: rev_induct)
  case (snoc c s)
  then have "set (line_starts s) \<subseteq> {0..int (length (s @ [c]))}" by auto
  then show ?case by (auto simp: line_starts_snoc)
qed simp

lemma line_starts_sorted: "sorted_wrt (<) (line_starts s)"
proof (induction s rule: rev_induct)
  case (snoc c s)
  with line_starts_bounds [of s] show ?case by (auto simp: line_starts_snoc sorted_wrt_append)
qed simp

lemma line_starts_tlen:
  "int (length (line_starts s)) = lineCount (tlen s) + 1 \<and>
   last (line_starts s) = int (length s) - columnCount (tlen s) \<and> line_starts s \<noteq> []"
  by (induction s rule: rev_induct) (auto simp: line_starts_snoc tlen_snoc tlen_step_def TextLength_zero_def)

text \<open>The table of a string extends the table of each of its prefixes.\<close>

lemma line_starts_take:
  "n \<le> length s \<Longrightarrow> \<exists>zs. line_starts s = line_starts (take n s) @ zs \<and> (\<forall>z \<in> set zs. int n < z)"
proof (induction s rule: rev_induct)
  case (snoc c s)
  show ?case
  proof (cases "n \<le> length s")
    case True
    with snoc.IH obtain zs where "line_starts s = line_starts (take n s) @ zs" "\<forall>z \<in> set zs. int n < z"
      by blast
    with True show ?thesis
      by (intro exI [of _ "zs @ (if c = LF then [int (length s) + 1] else [])"]) (auto simp: line_starts_snoc)
  next
    case False
    with snoc.prems have "take n (s @ [c]) = s @ [c]" by simp
    then show ?thesis by (intro exI [of _ "[]"]) simp
  qed
qed simp

lemma line_starts_takeWhile:
  assumes "n \<le> length s"
  shows "takeWhile (\<lambda>i. i \<le> int n) (line_starts s) = line_starts (take n s)"
proof -
  from line_starts_take [OF assms] obtain zs where
    zs: "line_starts s = line_starts (take n s) @ zs" "\<forall>z \<in> set zs. int n < z" by blast
  have "takeWhile (\<lambda>i. i \<le> int n) zs = []" using zs(2) by (cases zs) auto
  moreover have "i \<le> int n" if "i \<in> set (line_starts (take n s))" for i
    using line_starts_bounds [of "take n s"] that assms by auto
  ultimately show ?thesis by (simp add: zs(1))
qed

lemma line_starts_prefix_pred: "prefix_pred (\<lambda>i. i \<le> k) (line_starts s)"
  by (rule prefix_pred_sorted_wrt [OF line_starts_sorted]) auto

lemma line_starts_nth:
  assumes "n \<le> length s"
  shows "js_get (line_starts s) (lineCount (tlen (take n s))) =
    Some (int n - columnCount (tlen (take n s)))"
proof -
  let ?p = "take n s"
  from line_starts_take [OF assms] obtain zs where
    zs: "line_starts s = line_starts ?p @ zs" by blast
  have p: "int (length (line_starts ?p)) = lineCount (tlen ?p) + 1" "line_starts ?p \<noteq> []"
    "last (line_starts ?p) = int n - columnCount (tlen ?p)"
    using line_starts_tlen [of ?p] assms by simp_all
  then have idx: "lineCount (tlen ?p) = int (length (line_starts ?p) - 1)"
    by (simp add: of_nat_diff Suc_le_eq)
  have "line_starts s ! (length (line_starts ?p) - 1) = last (line_starts ?p)"
    using p(2) by (simp add: zs nth_append last_conv_nth)
  moreover have "length (line_starts ?p) - 1 < length (line_starts s)"
    using p(2) by (simp add: zs length_greater_0_conv [symmetric] del: length_greater_0_conv)
  ultimately show ?thesis unfolding idx p(3) [symmetric] by simp
qed

section \<open>Positions of offsets\<close>

text \<open>The reference: the position of an offset is the length of the text before it.\<close>

definition pos_at :: "js_string \<Rightarrow> int \<Rightarrow> Position" where
  "pos_at s k = TextLength_addToPosition (tlen (take (nat k) s)) (Position 1 1)"

lemma pos_at_fields:
  "lineNumber (pos_at s k) = lineCount (tlen (take (nat k) s)) + 1"
  "column (pos_at s k) = columnCount (tlen (take (nat k) s)) + 1"
  by (simp_all add: pos_at_def addToPosition_fields)

lemma getPosition_pos_at:
  assumes "0 \<le> k" "k \<le> int (length s)"
  shows "getPosition (PositionOffsetTransformer_new s) k = Some (pos_at s k)"
proof -
  let ?p = "take (nat k) s"
  have n: "nat k \<le> length s" "int (nat k) = k" using assms by auto
  have "findLastIdxMonotonous (line_starts s) (\<lambda>i. i \<le> k) = lineCount (tlen ?p)"
    using search_takeWhile(1) [OF line_starts_prefix_pred [of k s]] line_starts_takeWhile [OF n(1)]
      line_starts_tlen [of ?p] n(2) by simp
  then show ?thesis
    using line_starts_nth [OF n(1)] n(2) by (simp add: getPosition_def Let_def Position_eq_iff pos_at_fields)
qed

lemma getOffset_pos_at:
  assumes "0 \<le> k" "k \<le> int (length s)"
  shows "getOffset (PositionOffsetTransformer_new s) (pos_at s k) = Some k"
  using line_starts_nth [of "nat k" s] assms by (simp add: getOffset_def pos_at_fields)

lemma pos_at_step:
  assumes "0 \<le> a" "a \<le> b" "b \<le> int (length s)"
  shows "pos_at s b = TextLength_addToPosition (tlen (seg a b s)) (pos_at s a)"
proof -
  have "take (nat b) s = take (nat a) s @ seg a b s"
    using seg_append_seg [of 0 a b s] assms by (simp add: seg_from_start)
  then show ?thesis by (simp add: pos_at_def tlen_append addToPosition_add)
qed

lemma tlen_eq_zero [simp]: "tlen s = TextLength_zero \<longleftrightarrow> s = []"
proof (cases s rule: rev_cases)
  case (snoc t c)
  then show ?thesis
    using tlen_ok [of t] by (auto simp: tlen_snoc tlen_step_def TextLength_zero_def tl_ok_def)
qed simp

lemma addToPosition_strict:
  "tl_ok a \<Longrightarrow> a \<noteq> TextLength_zero \<Longrightarrow> p < TextLength_addToPosition a p"
  by (auto simp: tl_defs Position_less_iff TextLength_eq_iff)

lemma pos_at_less:
  assumes "0 \<le> a" "a < b" "b \<le> int (length s)"
  shows "pos_at s a < pos_at s b"
proof -
  have "seg a b s \<noteq> []" using length_seg [of a b s] assms by auto
  then show ?thesis using pos_at_step [of a b s] assms by (simp add: addToPosition_strict)
qed

lemma pos_at_le_iff:
  assumes "0 \<le> a" "a \<le> int (length s)" "0 \<le> b" "b \<le> int (length s)"
  shows "pos_at s a \<le> pos_at s b \<longleftrightarrow> a \<le> b"
  using pos_at_less [of b a s] pos_at_less [of a b s] assms
  by (metis leD le_less linorder_le_less_linear)

lemma pos_at_eq_iff:
  assumes "0 \<le> a" "a \<le> int (length s)" "0 \<le> b" "b \<le> int (length s)"
  shows "pos_at s a = pos_at s b \<longleftrightarrow> a = b"
  using pos_at_le_iff assms by (metis order_antisym order_refl)

lemma pos_at_0 [simp]: "pos_at s 0 = Position 1 1"
  by (simp add: pos_at_def)

lemma pos_at_end: "pos_at s (int (length s)) = TextLength_addToPosition (tlen s) (Position 1 1)"
  by (simp add: pos_at_def)

text \<open>A position of the text: an existing line, and a column that stays before the next line.\<close>

definition text_position :: "js_string \<Rightarrow> Position \<Rightarrow> bool" where
  "text_position s p \<longleftrightarrow> 1 \<le> column p \<and>
     (case js_get (line_starts s) (lineNumber p - 1) of
        None \<Rightarrow> False
      | Some a \<Rightarrow> (case js_get (line_starts s) (lineNumber p) of
                     None \<Rightarrow> a + column p - 1 \<le> int (length s)
                   | Some b \<Rightarrow> a + column p - 1 < b))"

lemma text_position_pos_at:
  assumes "text_position s p"
  shows "\<exists>k. 0 \<le> k \<and> k \<le> int (length s) \<and> p = pos_at s k"
proof -
  let ?L = "line_starts s"
  from assms obtain a where a: "js_get ?L (lineNumber p - 1) = Some a" "1 \<le> column p"
    by (auto simp: text_position_def split: option.splits)
  define k where "k = a + column p - 1"
  have mem: "0 \<le> a" using a(1) line_starts_bounds [of s] by (force simp: js_get_Some_iff)
  have "k \<le> int (length s)"
  proof (cases "js_get ?L (lineNumber p)")
    case (Some b)
    then have "b \<in> set ?L" by (auto simp: js_get_Some_iff)
    with Some a assms line_starts_bounds [of s] show ?thesis by (auto simp: text_position_def k_def)
  qed (use assms a in \<open>auto simp: text_position_def k_def\<close>)
  moreover have "p = pos_at s k"
  proof -
    have bnd: "0 \<le> k" using mem a(2) by (simp add: k_def)
    have idx: "findLastIdxMonotonous ?L (\<lambda>i. i \<le> k) = lineNumber p - 1"
    proof -
      let ?n = "nat (lineNumber p - 1)"
      have n: "?n < length ?L" "?L ! ?n = a" "1 \<le> lineNumber p"
        using a(1) by (auto simp: js_get_Some_iff)
      have upper: "k < ?L ! Suc ?n" if "Suc ?n < length ?L"
      proof -
        have "js_get ?L (lineNumber p) = Some (?L ! Suc ?n)"
          using that n(3) by (simp add: js_get_def Suc_nat_eq_nat_zadd1 nat_less_iff)
        with assms a show ?thesis by (auto simp: text_position_def k_def)
      qed
      have hit: "?L ! ?n \<le> k" using n(2) a(2) by (simp add: k_def)
      let ?f = "findLastIdxMonotonous ?L (\<lambda>i. i \<le> k)"
      have "int ?n \<le> ?f" using bsearch_last.find_iff [OF line_starts_prefix_pred n(1)] hit by simp
      moreover have "\<not> int (Suc ?n) \<le> ?f"
        using bsearch_last.find_iff [OF line_starts_prefix_pred, of "Suc ?n" s k] upper
          bsearch_last.find_upper [of ?L "\<lambda>i. i \<le> k"] by fastforce
      ultimately show ?thesis using n(3) by linarith
    qed
    have "getPosition (PositionOffsetTransformer_new s) k = Some p"
      using a(1) by (simp add: getPosition_def Let_def idx) (simp add: k_def Position_eq_iff)
    with getPosition_pos_at [OF bnd \<open>k \<le> int (length s)\<close>] show ?thesis by simp
  qed
  moreover have "0 \<le> k" using mem a(2) by (simp add: k_def)
  ultimately show ?thesis by blast
qed

text \<open>
  C38: the two conversions of \<open>PositionOffsetTransformer\<close> are inverse to each other: every
  offset from 0 to the length of the text has a position, which is the length of the text before it, in
  lines ended by line feeds and columns, and maps back to the offset; every position of the text (the line is one of its
  lines, the column is at least 1 and at most that of the line feed, or in the last line that of the end) has an offset that maps back to the
  position; and later offsets have later positions.
\<close>

theorem PositionOffsetTransformer_roundtrip:
  "(0 \<le> k \<and> k \<le> int (length s) \<longrightarrow>
      getPosition (PositionOffsetTransformer_new s) k =
        Some (TextLength_addToPosition (tlen (take (nat k) s)) (Position 1 1)) \<and>
      Option.bind (getPosition (PositionOffsetTransformer_new s) k) (getOffset (PositionOffsetTransformer_new s)) = Some k) \<and>
   (text_position s p \<longrightarrow>
      Option.bind (getOffset (PositionOffsetTransformer_new s) p) (getPosition (PositionOffsetTransformer_new s)) = Some p) \<and>
   (0 \<le> a \<and> a < b \<and> b \<le> int (length s) \<longrightarrow>
      (\<exists>q r. getPosition (PositionOffsetTransformer_new s) a = Some q \<and>
         getPosition (PositionOffsetTransformer_new s) b = Some r \<and> q < r))"
proof (intro conjI impI)
  assume "text_position s p"
  then obtain k where "0 \<le> k" "k \<le> int (length s)" "p = pos_at s k" using text_position_pos_at by blast
  then show "Option.bind (getOffset (PositionOffsetTransformer_new s) p)
      (getPosition (PositionOffsetTransformer_new s)) = Some p"
    by (simp add: getOffset_pos_at getPosition_pos_at)
next
  assume "0 \<le> a \<and> a < b \<and> b \<le> int (length s)"
  then show "\<exists>q r. getPosition (PositionOffsetTransformer_new s) a = Some q \<and>
      getPosition (PositionOffsetTransformer_new s) b = Some r \<and> q < r"
    using getPosition_pos_at [of a s] getPosition_pos_at [of b s] pos_at_less [of a b s] by simp
qed (simp_all add: getPosition_pos_at getOffset_pos_at pos_at_def [symmetric])

theorem PositionOffsetTransformer_roundtrip_witness:
  "getPosition (PositionOffsetTransformer_new [0x61, LF, 0x62]) 2 = Some (Position 2 1) \<and>
   Option.bind (getOffset (PositionOffsetTransformer_new [0x61, LF, 0x62]) (Position 2 2))
     (getPosition (PositionOffsetTransformer_new [0x61, LF, 0x62])) = Some (Position 2 2)"
  using PositionOffsetTransformer_roundtrip [of 2 "[0x61, LF, 0x62]" "Position 2 2" 0 1]
  by (simp add: tlen_def tlen_step_def TextLength_zero_def TextLength_addToPosition_def text_position_def
      PositionOffsetTransformer_new_def pot_step_def js_get_def upt_rec)

section \<open>Ranges and lengths\<close>

lemma getRange_pos_at:
  assumes "0 \<le> or_start r" "or_ok r" "or_endExclusive r \<le> int (length s)"
  shows "getRange (PositionOffsetTransformer_new s) r =
    Some (Range_fromPositions (pos_at s (or_start r)) (pos_at s (or_endExclusive r)))"
  using assms by (simp add: getRange_def getPosition_pos_at)

lemma getOffsetRange_pos_at:
  assumes "0 \<le> a" "a \<le> b" "b \<le> int (length s)" "rstart r = pos_at s a" "rend r = pos_at s b"
  shows "getOffsetRange (PositionOffsetTransformer_new s) r = Inr (Some (MkOffsetRange a b))"
  using assms by (simp add: getOffsetRange_def getOffset_pos_at)

lemma pot_textLength_tlen: "pot_textLength (PositionOffsetTransformer_new s) = tlen s"
  using line_starts_tlen [of s]
  by (auto simp: pot_textLength_def Let_def TextLength_eq_iff last_conv_nth of_nat_diff Suc_le_eq)

text \<open>
  \<open>getTextLength\<close> of an offset range of the text is the length, in lines and columns, of
  the part of the text in the range, and \<open>textLength\<close> is the length of the whole text.
\<close>

theorem getTextLength_substring:
  assumes "0 \<le> or_start r" "or_ok r" "or_endExclusive r \<le> int (length s)"
  shows "getTextLength (PositionOffsetTransformer_new s) r = Some (tlen (OffsetRange_substring r s)) \<and>
    pot_textLength (PositionOffsetTransformer_new s) = tlen s"
proof -
  let ?p = "pos_at s (or_start r)" and ?q = "pos_at s (or_endExclusive r)"
    and ?t = "seg (or_start r) (or_endExclusive r) s"
  have q: "?q = TextLength_addToPosition (tlen ?t) ?p" by (rule pos_at_step [OF assms])
  have "?p \<le> ?q" unfolding q by (rule addToPosition_mono) simp
  then have "TextLength_ofRange (Range_fromPositions ?p ?q) = TextLength_betweenPositions ?p ?q"
    by (simp add: TextLength_ofRange_def endpoint min_def max_def)
  also have "\<dots> = tlen ?t"
    unfolding q using tlen_ok [of ?t] by (auto simp: tl_defs TextLength_eq_iff)
  finally show ?thesis
    using assms by (simp add: getTextLength_def getRange_pos_at OffsetRange_substring_def
        js_substring_seg pot_textLength_tlen)
qed

theorem getTextLength_substring_witness:
  "getTextLength (PositionOffsetTransformer_new [0x61, LF, 0x62]) (MkOffsetRange 0 3) =
     Some (tlen (OffsetRange_substring (MkOffsetRange 0 3) [0x61, LF, 0x62]))"
  using getTextLength_substring [of "MkOffsetRange 0 3" "[0x61, LF, 0x62]"] by simp

end
