(* ===== verification/OffsetEdits.thy ===== *)
theory OffsetEdits
  imports OffsetRange
begin

text \<open>
  Model of \<open>editor/common/core/offsetEdit.ts\<close>: edits of a string by offsets, their
  application, inversion, composition and rebasing.

  An \<open>OffsetEdit\<close> is a sorted list of disjoint replacements; its constructor throws
  otherwise. The loops of \<open>joinEdits\<close> become recursions over the queue of edits they
  consume.
\<close>

section \<open>The code\<close>

datatype SingleOffsetEdit = SingleOffsetEdit (replaceRange: OffsetRange) (newText: js_string)

definition SingleOffsetEdit_insert :: "int \<Rightarrow> js_string \<Rightarrow> SingleOffsetEdit result" where
  "SingleOffsetEdit_insert k text = emap (\<lambda>r. SingleOffsetEdit r text) (OffsetRange_emptyAt k)"

definition SingleOffsetEdit_isEmpty :: "SingleOffsetEdit \<Rightarrow> bool" where
  "SingleOffsetEdit_isEmpty e \<longleftrightarrow> length (newText e) = 0 \<and> OffsetRange_length (replaceRange e) = 0"

record ISingleOffsetEdit =
  json_txt :: js_string
  json_pos :: int
  json_len :: int

definition SingleOffsetEdit_fromJson :: "ISingleOffsetEdit \<Rightarrow> SingleOffsetEdit result" where
  "SingleOffsetEdit_fromJson data =
     emap (\<lambda>r. SingleOffsetEdit r (json_txt data)) (OffsetRange_ofStartAndLength (json_pos data) (json_len data))"

record OffsetEdit =
  oe_edits :: "SingleOffsetEdit list"

text \<open>The check of the constructor.\<close>

fun check_disjoint_sorted :: "SingleOffsetEdit list \<Rightarrow> int \<Rightarrow> bool" where
  "check_disjoint_sorted [] lastEndEx = True"
| "check_disjoint_sorted (e # es) lastEndEx =
     (if \<not> or_start (replaceRange e) \<ge> lastEndEx then False
      else check_disjoint_sorted es (or_endExclusive (replaceRange e)))"

definition OffsetEdit_new :: "SingleOffsetEdit list \<Rightarrow> OffsetEdit result" where
  "OffsetEdit_new edits =
     (if check_disjoint_sorted edits (-1) then Inr \<lparr>oe_edits = edits\<rparr> else Inl BugIndicatingError)"

definition OffsetEdit_empty :: "OffsetEdit result" where
  "OffsetEdit_empty = OffsetEdit_new []"

definition OffsetEdit_fromJson :: "ISingleOffsetEdit list \<Rightarrow> OffsetEdit result" where
  "OffsetEdit_fromJson data = ebind (emapM SingleOffsetEdit_fromJson data) OffsetEdit_new"

definition OffsetEdit_replace :: "OffsetRange \<Rightarrow> js_string \<Rightarrow> OffsetEdit result" where
  "OffsetEdit_replace r text = OffsetEdit_new [SingleOffsetEdit r text]"

definition OffsetEdit_insert :: "int \<Rightarrow> js_string \<Rightarrow> OffsetEdit result" where
  "OffsetEdit_insert k text = ebind (OffsetRange_emptyAt k) (\<lambda>r. OffsetEdit_replace r text)"

fun normalize_loop :: "SingleOffsetEdit list \<Rightarrow> SingleOffsetEdit list \<Rightarrow> SingleOffsetEdit option \<Rightarrow>
    SingleOffsetEdit list result" where
  "normalize_loop [] edits None = Inr edits"
| "normalize_loop [] edits (Some lastEdit) = Inr (edits @ [lastEdit])"
| "normalize_loop (e # es) edits lastEdit =
     (if length (newText e) = 0 \<and> OffsetRange_length (replaceRange e) = 0
      then normalize_loop es edits lastEdit
      else case lastEdit of
          None \<Rightarrow> normalize_loop es edits (Some e)
        | Some l \<Rightarrow>
            if or_endExclusive (replaceRange l) = or_start (replaceRange e)
            then ebind (OffsetRange_join (replaceRange l) (replaceRange e))
                   (\<lambda>r. normalize_loop es edits (Some (SingleOffsetEdit r (newText l @ newText e))))
            else normalize_loop es (edits @ [l]) (Some e))"

definition OffsetEdit_normalize :: "OffsetEdit \<Rightarrow> OffsetEdit result" where
  "OffsetEdit_normalize this = ebind (normalize_loop (oe_edits this) [] None) OffsetEdit_new"

fun apply_loop :: "SingleOffsetEdit list \<Rightarrow> js_string \<Rightarrow> int \<Rightarrow> js_string list \<Rightarrow> js_string list" where
  "apply_loop [] str pos resultText = resultText @ [js_substring_from str pos]"
| "apply_loop (e # es) str pos resultText =
     apply_loop es str (or_endExclusive (replaceRange e))
       (resultText @ [js_substring str pos (or_start (replaceRange e))] @ [newText e])"

definition OffsetEdit_apply :: "OffsetEdit \<Rightarrow> js_string \<Rightarrow> js_string" where
  "OffsetEdit_apply this str = concat (apply_loop (oe_edits this) str 0 [])"

fun inverse_loop :: "SingleOffsetEdit list \<Rightarrow> js_string \<Rightarrow> int \<Rightarrow> SingleOffsetEdit list result" where
  "inverse_loop [] originalStr offset = Inr []"
| "inverse_loop (e # es) originalStr offset =
     ebind (OffsetRange_ofStartAndLength (or_start (replaceRange e) + offset) (int (length (newText e))))
       (\<lambda>r. emap (\<lambda>rest. SingleOffsetEdit r
                (js_substring originalStr (or_start (replaceRange e)) (or_endExclusive (replaceRange e))) # rest)
          (inverse_loop es originalStr
             (offset + (int (length (newText e)) - OffsetRange_length (replaceRange e)))))"

definition OffsetEdit_inverse :: "OffsetEdit \<Rightarrow> js_string \<Rightarrow> OffsetEdit result" where
  "OffsetEdit_inverse this originalStr = ebind (inverse_loop (oe_edits this) originalStr 0) OffsetEdit_new"

fun newTextRanges_loop :: "SingleOffsetEdit list \<Rightarrow> int \<Rightarrow> OffsetRange list result" where
  "newTextRanges_loop [] offset = Inr []"
| "newTextRanges_loop (e # es) offset =
     ebind (OffsetRange_ofStartAndLength (or_start (replaceRange e) + offset) (int (length (newText e))))
       (\<lambda>r. emap (Cons r) (newTextRanges_loop es
             (offset + (int (length (newText e)) - OffsetRange_length (replaceRange e)))))"

definition OffsetEdit_getNewTextRanges :: "OffsetEdit \<Rightarrow> OffsetRange list result" where
  "OffsetEdit_getNewTextRanges this = newTextRanges_loop (oe_edits this) 0"

definition OffsetEdit_isEmpty :: "OffsetEdit \<Rightarrow> bool" where
  "OffsetEdit_isEmpty this \<longleftrightarrow> length (oe_edits this) = 0"

text \<open>The loop of \<open>tryRebase\<close>: our edits and the edits of the base that are left.\<close>

fun rebase_loop :: "SingleOffsetEdit list \<Rightarrow> SingleOffsetEdit list \<Rightarrow> int \<Rightarrow> SingleOffsetEdit list \<Rightarrow>
    SingleOffsetEdit list result" where
  "rebase_loop [] base offset newEdits = Inr newEdits"
| "rebase_loop (our # ours) [] offset newEdits =
     ebind (OffsetRange_delta (replaceRange our) offset)
       (\<lambda>r. rebase_loop ours [] offset (newEdits @ [SingleOffsetEdit r (newText our)]))"
| "rebase_loop (our # ours) (b # bs) offset newEdits =
     (if OffsetRange_intersects (replaceRange our) (replaceRange b)
      then rebase_loop ours (b # bs) offset newEdits
      else if or_start (replaceRange our) < or_start (replaceRange b)
      then ebind (OffsetRange_delta (replaceRange our) offset)
             (\<lambda>r. rebase_loop ours (b # bs) offset (newEdits @ [SingleOffsetEdit r (newText our)]))
      else rebase_loop (our # ours) bs
             (offset + (int (length (newText b)) - OffsetRange_length (replaceRange b))) newEdits)"

definition OffsetEdit_tryRebase :: "OffsetEdit \<Rightarrow> OffsetEdit \<Rightarrow> OffsetEdit result" where
  "OffsetEdit_tryRebase this base =
     ebind (rebase_loop (oe_edits this) (oe_edits base) 0 []) OffsetEdit_new"

fun applyToOffset_loop :: "SingleOffsetEdit list \<Rightarrow> int \<Rightarrow> int \<Rightarrow> int" where
  "applyToOffset_loop [] originalOffset accumulatedDelta = originalOffset + accumulatedDelta"
| "applyToOffset_loop (e # es) originalOffset accumulatedDelta =
     (if or_start (replaceRange e) \<le> originalOffset
      then if originalOffset < or_endExclusive (replaceRange e)
           then or_start (replaceRange e) + accumulatedDelta
           else applyToOffset_loop es originalOffset
                  (accumulatedDelta + (int (length (newText e)) - OffsetRange_length (replaceRange e)))
      else originalOffset + accumulatedDelta)"

definition OffsetEdit_applyToOffset :: "OffsetEdit \<Rightarrow> int \<Rightarrow> int" where
  "OffsetEdit_applyToOffset this originalOffset = applyToOffset_loop (oe_edits this) originalOffset 0"

definition OffsetEdit_applyToOffsetRange :: "OffsetEdit \<Rightarrow> OffsetRange \<Rightarrow> OffsetRange result" where
  "OffsetEdit_applyToOffsetRange this originalRange =
     OffsetRange_new (OffsetEdit_applyToOffset this (or_start originalRange))
       (OffsetEdit_applyToOffset this (or_endExclusive originalRange))"

fun applyInverseToOffset_loop :: "SingleOffsetEdit list \<Rightarrow> int \<Rightarrow> int \<Rightarrow> int" where
  "applyInverseToOffset_loop [] postEditsOffset accumulatedDelta = postEditsOffset - accumulatedDelta"
| "applyInverseToOffset_loop (e # es) postEditsOffset accumulatedDelta =
     (let editLength = int (length (newText e))
      in if or_start (replaceRange e) \<le> postEditsOffset - accumulatedDelta
         then if postEditsOffset - accumulatedDelta < or_start (replaceRange e) + editLength
              then or_start (replaceRange e)
              else applyInverseToOffset_loop es postEditsOffset
                     (accumulatedDelta + (editLength - OffsetRange_length (replaceRange e)))
         else postEditsOffset - accumulatedDelta)"

definition OffsetEdit_applyInverseToOffset :: "OffsetEdit \<Rightarrow> int \<Rightarrow> int" where
  "OffsetEdit_applyInverseToOffset this postEditsOffset =
     applyInverseToOffset_loop (oe_edits this) postEditsOffset 0"

subsection \<open>joinEdits\<close>

text \<open>The first inner loop: copy edits of the queue until one touches \<open>edit2\<close>.\<close>

fun join_copy :: "SingleOffsetEdit list \<Rightarrow> int \<Rightarrow> SingleOffsetEdit \<Rightarrow> SingleOffsetEdit list \<Rightarrow>
    SingleOffsetEdit list \<times> int \<times> SingleOffsetEdit list" where
  "join_copy [] edit1ToEdit2 edit2 result = ([], edit1ToEdit2, result)"
| "join_copy (edit1 # queue) edit1ToEdit2 edit2 result =
     (if or_start (replaceRange edit1) + edit1ToEdit2 + int (length (newText edit1))
           \<ge> or_start (replaceRange edit2)
      then (edit1 # queue, edit1ToEdit2, result)
      else join_copy queue
             (edit1ToEdit2 + (int (length (newText edit1)) - OffsetRange_length (replaceRange edit1)))
             edit2 (result @ [edit1]))"

text \<open>The second inner loop: consume the edits of the queue that intersect or touch \<open>edit2\<close>.\<close>

fun join_consume :: "SingleOffsetEdit list \<Rightarrow> int \<Rightarrow> SingleOffsetEdit \<Rightarrow> SingleOffsetEdit option \<Rightarrow>
    SingleOffsetEdit option \<Rightarrow>
    SingleOffsetEdit list \<times> int \<times> SingleOffsetEdit option \<times> SingleOffsetEdit option" where
  "join_consume [] edit1ToEdit2 edit2 firstIntersecting lastIntersecting =
     ([], edit1ToEdit2, firstIntersecting, lastIntersecting)"
| "join_consume (edit1 # queue) edit1ToEdit2 edit2 firstIntersecting lastIntersecting =
     (if or_start (replaceRange edit1) + edit1ToEdit2 > or_endExclusive (replaceRange edit2)
      then (edit1 # queue, edit1ToEdit2, firstIntersecting, lastIntersecting)
      else join_consume queue
             (edit1ToEdit2 + (int (length (newText edit1)) - OffsetRange_length (replaceRange edit1)))
             edit2
             (case firstIntersecting of None \<Rightarrow> Some edit1 | Some f \<Rightarrow> Some f) (Some edit1))"

text \<open>
  The body of the loop over the second edit's replacements, on the state of the queue, the
  result and \<open>edit1ToEdit2\<close>.
\<close>

type_synonym join_state = "SingleOffsetEdit list \<times> SingleOffsetEdit list \<times> int"

definition join_merge :: "SingleOffsetEdit \<Rightarrow> SingleOffsetEdit list \<Rightarrow> SingleOffsetEdit list \<Rightarrow> int \<Rightarrow> int \<Rightarrow>
    SingleOffsetEdit \<Rightarrow> SingleOffsetEdit \<Rightarrow> join_state result" where
  "join_merge edit2 queue result edit1ToEdit2 firstEdit1ToEdit2 firstIntersecting lastIntersecting =
     (let prefixLength = or_start (replaceRange edit2) -
            (or_start (replaceRange firstIntersecting) + firstEdit1ToEdit2);
          prefix = (if prefixLength > 0 then js_slice (newText firstIntersecting) 0 prefixLength else []);
          suffixLength = (or_endExclusive (replaceRange lastIntersecting) + edit1ToEdit2)
            - or_endExclusive (replaceRange edit2)
      in ebind (if suffixLength > 0
                then emap (\<lambda>r. let e = SingleOffsetEdit r (js_slice_from (newText lastIntersecting) (- suffixLength))
                               in (e # queue, edit1ToEdit2 -
                                    (int (length (newText e)) - OffsetRange_length (replaceRange e))))
                       (OffsetRange_ofStartAndLength (or_endExclusive (replaceRange lastIntersecting)) 0)
                else Inr (queue, edit1ToEdit2))
           (\<lambda>(queue, edit1ToEdit2).
              emap (\<lambda>newReplaceRange.
                  (queue, result @ [SingleOffsetEdit newReplaceRange (prefix @ newText edit2)], edit1ToEdit2))
                (OffsetRange_new
                   (min (or_start (replaceRange firstIntersecting))
                        (or_start (replaceRange edit2) - firstEdit1ToEdit2))
                   (or_endExclusive (replaceRange edit2) - edit1ToEdit2))))"

definition join_step :: "SingleOffsetEdit \<Rightarrow> join_state \<Rightarrow> join_state result" where
  "join_step edit2 st =
     (let (queue, result, edit1ToEdit2) = st;
          (queue, firstEdit1ToEdit2, result) = join_copy queue edit1ToEdit2 edit2 result;
          (queue, edit1ToEdit2, firstIntersecting, lastIntersecting) =
            join_consume queue firstEdit1ToEdit2 edit2 None None
      in case (firstIntersecting, lastIntersecting) of
           (Some f, Some l) \<Rightarrow> join_merge edit2 queue result edit1ToEdit2 firstEdit1ToEdit2 f l
         | _ \<Rightarrow> emap (\<lambda>r. (queue, result @ [SingleOffsetEdit r (newText edit2)], edit1ToEdit2))
                  (OffsetRange_delta (replaceRange edit2) (- edit1ToEdit2)))"

definition joinEdits :: "OffsetEdit \<Rightarrow> OffsetEdit \<Rightarrow> OffsetEdit result" where
  "joinEdits edits1 edits2 =
     ebind (OffsetEdit_normalize edits1) (\<lambda>edits1.
     ebind (OffsetEdit_normalize edits2) (\<lambda>edits2.
       if OffsetEdit_isEmpty edits1 then Inr edits2
       else if OffsetEdit_isEmpty edits2 then Inr edits1
       else ebind (efold join_step (oe_edits edits2) (oe_edits edits1, [], 0)) (\<lambda>(queue, result, _).
         ebind (OffsetEdit_new (result @ queue)) OffsetEdit_normalize)))"

definition OffsetEdit_compose :: "OffsetEdit \<Rightarrow> OffsetEdit \<Rightarrow> OffsetEdit result" where
  "OffsetEdit_compose this other = joinEdits this other"

section \<open>What an edit does\<close>

abbreviation e_start :: "SingleOffsetEdit \<Rightarrow> int" where
  "e_start e \<equiv> or_start (replaceRange e)"

abbreviation e_end :: "SingleOffsetEdit \<Rightarrow> int" where
  "e_end e \<equiv> or_endExclusive (replaceRange e)"

abbreviation e_new :: "SingleOffsetEdit \<Rightarrow> int" where
  "e_new e \<equiv> int (length (newText e))"

text \<open>
  The replacements \<open>es\<close> are sorted, disjoint and valid, and lie between the offsets \<open>p\<close> and
  \<open>n\<close>.
\<close>

fun edits_within :: "int \<Rightarrow> int \<Rightarrow> SingleOffsetEdit list \<Rightarrow> bool" where
  "edits_within p n [] \<longleftrightarrow> p \<le> n"
| "edits_within p n (e # es) \<longleftrightarrow> p \<le> e_start e \<and> e_start e \<le> e_end e \<and> edits_within (e_end e) n es"

text \<open>An edit of a string of length \<open>n\<close>.\<close>

definition oe_ok :: "int \<Rightarrow> OffsetEdit \<Rightarrow> bool" where
  "oe_ok n E \<longleftrightarrow> edits_within 0 n (oe_edits E)"

text \<open>The text that the replacements \<open>es\<close> make of the string from offset \<open>p\<close> on.\<close>

fun edited :: "int \<Rightarrow> SingleOffsetEdit list \<Rightarrow> js_string \<Rightarrow> js_string" where
  "edited p [] s = seg p (int (length s)) s"
| "edited p (e # es) s = seg p (e_start e) s @ newText e @ edited (e_end e) es s"

lemma edits_within_mono: "edits_within p n es \<Longrightarrow> q \<le> p \<Longrightarrow> edits_within q n es"
  by (cases es) auto

lemma edits_within_le: "edits_within p n es \<Longrightarrow> p \<le> n"
proof (induction es arbitrary: p)
  case (Cons e es)
  then have "e_end e \<le> n" by simp
  with Cons.prems show ?case by simp
qed simp

lemma edits_within_member:
  "edits_within p n es \<Longrightarrow> e \<in> set es \<Longrightarrow> p \<le> e_start e \<and> e_start e \<le> e_end e \<and> e_end e \<le> n"
proof (induction es arbitrary: p)
  case (Cons x es)
  then show ?case using Cons.IH [of "e_end x"] by (force dest: edits_within_le)
qed simp

lemma edits_within_append:
  "edits_within p n (xs @ ys) \<longleftrightarrow>
     edits_within p n xs \<and> edits_within (if xs = [] then p else e_end (last xs)) n ys"
proof (induction xs arbitrary: p)
  case Nil
  then show ?case by (auto dest: edits_within_le)
qed auto

lemma check_disjoint_sorted_within: "edits_within p n es \<Longrightarrow> q \<le> p \<Longrightarrow> check_disjoint_sorted es q"
  by (induction es arbitrary: p q) auto

lemma OffsetEdit_new_Inr: "edits_within 0 n es \<Longrightarrow> OffsetEdit_new es = Inr \<lparr>oe_edits = es\<rparr>"
  using check_disjoint_sorted_within [of 0 n es "-1"] by (simp add: OffsetEdit_new_def)

lemma apply_loop_edited:
  "0 \<le> p \<Longrightarrow> edits_within p (int (length s)) es \<Longrightarrow> concat (apply_loop es s p acc) = concat acc @ edited p es s"
proof (induction es arbitrary: p acc)
  case (Cons e es)
  have "e_end e \<le> int (length s)" using Cons.prems by (auto dest: edits_within_le)
  with Cons show ?case by (simp add: js_substring_seg)
qed (simp add: js_substring_from_seg)

lemma OffsetEdit_apply_edited: "oe_ok (int (length s)) E \<Longrightarrow> OffsetEdit_apply E s = edited 0 (oe_edits E) s"
  by (simp add: OffsetEdit_apply_def oe_ok_def apply_loop_edited)

text \<open>The text before an offset of the first replacement is not changed.\<close>

lemma edited_prefix:
  assumes "0 \<le> p" "p \<le> q" "edits_within q (int (length s)) es"
  shows "edited p es s = seg p q s @ edited q es s"
  using assms by (cases es) (auto simp: seg_append_seg edits_within_le simp flip: append_assoc)

definition total_delta :: "SingleOffsetEdit list \<Rightarrow> int" where
  "total_delta es = sum_list (map (\<lambda>e. e_new e - OffsetRange_length (replaceRange e)) es)"

lemma total_delta_simps [simp]:
  "total_delta [] = 0"
  "total_delta (e # es) = e_new e - OffsetRange_length (replaceRange e) + total_delta es"
  "total_delta (xs @ ys) = total_delta xs + total_delta ys"
  by (simp_all add: total_delta_def)

lemma length_edited:
  "0 \<le> p \<Longrightarrow> edits_within p (int (length s)) es \<Longrightarrow>
     int (length (edited p es s)) = int (length s) - p + total_delta es"
proof (induction es arbitrary: p)
  case (Cons e es)
  have "e_end e \<le> int (length s)" using Cons.prems by (auto dest: edits_within_le)
  with Cons show ?case by (simp add: length_seg OffsetRange_length_def)
qed (simp add: length_seg)

text \<open>A run of replacements and the rest of the edit.\<close>

lemma edited_append:
  assumes "0 \<le> p" "edits_within p (int (length s)) (B @ [l] @ rest)"
  shows "\<exists>X. edited p (B @ [l] @ rest) s = X @ newText l @ edited (e_end l) rest s \<and>
    int (length X) = e_start l + total_delta B - p"
  using assms
proof (induction B arbitrary: p)
  case Nil
  then have "e_start l \<le> int (length s)" by (auto dest: edits_within_le)
  with Nil show ?case by (intro exI [of _ "seg p (e_start l) s"]) (simp add: length_seg)
next
  case (Cons e B)
  then have "0 \<le> e_end e" "edits_within (e_end e) (int (length s)) (B @ [l] @ rest)" by simp_all
  from Cons.IH [OF this] obtain X
    where X: "edited (e_end e) (B @ [l] @ rest) s = X @ newText l @ edited (e_end l) rest s"
      "int (length X) = e_start l + total_delta B - e_end e" by blast
  have "e_start e \<le> int (length s)" using Cons.prems by (auto dest: edits_within_le)
  with X Cons.prems show ?case
    by (intro exI [of _ "seg p (e_start e) s @ newText e @ X"])
      (simp add: length_seg OffsetRange_length_def)
qed

section \<open>Normalization\<close>

lemma edits_skip_empty:
  assumes "length (newText e) = 0" "OffsetRange_length (replaceRange e) = 0" "0 \<le> p"
    "edits_within p (int (length s)) (xs @ e # es)"
  shows "edits_within p (int (length s)) (xs @ es) \<and> edited p (xs @ es) s = edited p (xs @ e # es) s"
  using assms(3,4)
proof (induction xs arbitrary: p)
  case Nil
  with assms(1,2) edited_prefix [of p "e_start e" s es] show ?case
    by (auto simp: OffsetRange_length_def intro: edits_within_mono)
qed auto

lemma edits_join_touching:
  fixes l e
  defines "j \<equiv> SingleOffsetEdit (MkOffsetRange (e_start l) (e_end e)) (newText l @ newText e)"
  assumes "e_end l = e_start e" "edits_within p (int (length s)) (xs @ l # e # es)"
  shows "edits_within p (int (length s)) (xs @ j # es) \<and> edited p (xs @ j # es) s = edited p (xs @ l # e # es) s"
  using assms(3) by (induction xs arbitrary: p) (auto simp: j_def assms(2))

lemma normalize_loop_spec:
  assumes "0 \<le> p" "edits_within p (int (length s)) (acc @ (case l of None \<Rightarrow> [] | Some x \<Rightarrow> [x]) @ es)"
  shows "\<exists>es'. normalize_loop es acc l = Inr es' \<and> edits_within p (int (length s)) es' \<and>
    edited p es' s = edited p (acc @ (case l of None \<Rightarrow> [] | Some x \<Rightarrow> [x]) @ es) s"
  using assms
proof (induction es acc l rule: normalize_loop.induct)
  case (3 e es edits lastEdit)
  let ?n = "int (length s)"
  show ?case
  proof (cases "length (newText e) = 0 \<and> OffsetRange_length (replaceRange e) = 0")
    case True
    with 3 edits_skip_empty [of e p s "edits @ (case lastEdit of None \<Rightarrow> [] | Some x \<Rightarrow> [x])" es] show ?thesis by simp
  next
    case False
    show ?thesis
    proof (cases lastEdit)
      case None
      with False 3(2) [OF False None 3(5)] 3(6) show ?thesis by auto
    next
      case (Some l)
      show ?thesis
      proof (cases "e_end l = e_start e")
        case True
        let ?j = "SingleOffsetEdit (MkOffsetRange (e_start l) (e_end e)) (newText l @ newText e)"
        have "e_start l \<le> e_end l" "e_start e \<le> e_end e"
          using 3(6) Some by (simp_all add: edits_within_append)
        then have j: "OffsetRange_join (replaceRange l) (replaceRange e) = Inr (MkOffsetRange (e_start l) (e_end e))"
          using True by (simp add: OffsetRange_join_def)
        from edits_join_touching [OF True, of p s edits es] 3(6) Some have
          within: "edits_within p ?n (edits @ (case Some ?j of None \<Rightarrow> [] | Some x \<Rightarrow> [x]) @ es)"
          and same: "edited p (edits @ ?j # es) s = edited p (edits @ l # e # es) s" by simp_all
        from 3(3) [OF False Some True 3(5) within] same show ?thesis
          using False Some True by (auto simp: j)
      next
        case False': False
        with False Some 3(4) [OF False Some False' 3(5)] 3(6) show ?thesis by auto
      qed
    qed
  qed
qed simp_all

lemma OffsetEdit_normalize_spec:
  assumes "oe_ok (int (length s)) E"
  shows "\<exists>E'. OffsetEdit_normalize E = Inr E' \<and> oe_ok (int (length s)) E' \<and>
    edited 0 (oe_edits E') s = edited 0 (oe_edits E) s"
  using normalize_loop_spec [of 0 s "[]" None "oe_edits E"] assms
  by (auto simp: OffsetEdit_normalize_def oe_ok_def OffsetEdit_new_Inr)

text \<open>
  Normalizing an edit of a string never throws and does not change what the edit makes of
  the string.
\<close>

theorem OffsetEdit_normalize_apply:
  assumes "oe_ok (int (length s)) E"
  shows "\<exists>E'. OffsetEdit_normalize E = Inr E' \<and> oe_ok (int (length s)) E' \<and>
    OffsetEdit_apply E' s = OffsetEdit_apply E s"
  using OffsetEdit_normalize_spec [OF assms] assms by (auto simp: OffsetEdit_apply_edited)

theorem OffsetEdit_normalize_apply_witness:
  "\<exists>E'. OffsetEdit_normalize \<lparr>oe_edits = [SingleOffsetEdit (MkOffsetRange 0 1) [5], SingleOffsetEdit (MkOffsetRange 1 2) [6]]\<rparr>
      = Inr E' \<and> OffsetEdit_apply E' [1, 2, 3] = OffsetEdit_apply
        \<lparr>oe_edits = [SingleOffsetEdit (MkOffsetRange 0 1) [5], SingleOffsetEdit (MkOffsetRange 1 2) [6]]\<rparr> [1, 2, 3]"
  using OffsetEdit_normalize_apply [of "[1, 2, 3]"
      "\<lparr>oe_edits = [SingleOffsetEdit (MkOffsetRange 0 1) [5], SingleOffsetEdit (MkOffsetRange 1 2) [6]]\<rparr>"]
  by (auto simp: oe_ok_def)

section \<open>Composition\<close>

lemma suffix_length:
  "seg p (int (length t)) t = A \<Longrightarrow> 0 \<le> p \<Longrightarrow> p \<le> int (length t) \<Longrightarrow> int (length t) - p = int (length A)"
  using length_seg [of p "int (length t)" t] by simp

lemma suffix_split:
  assumes "seg p (int (length t)) t = A @ B" "0 \<le> p" "int (length A) = x - p"
  shows "seg p x t = A" "seg x (int (length t)) t = B"
proof -
  have d: "drop (nat p) t = A @ B" using assms(1,2) by (simp add: seg_to_end)
  have x: "nat (x - p) = length A" "nat x = length A + nat p" "0 \<le> x" using assms(2,3) by linarith+
  show "seg p x t = A" by (simp add: seg_def d x(1))
  have "drop (nat x) t = drop (length A) (drop (nat p) t)" by (simp add: x(2))
  then show "seg x (int (length t)) t = B" using x(3) by (simp add: seg_to_end d)
qed

text \<open>
  The state of \<open>joinEdits\<close> between two steps: \<open>s\<close> is the original string, \<open>t\<close> what the
  first edit makes of it. Everything before offset \<open>p\<close> of \<open>t\<close> is settled; the text from there
  on is what the queue \<open>Q\<close> makes of \<open>s\<close> from offset \<open>p - d\<close> on.
\<close>

definition join_inv :: "js_string \<Rightarrow> js_string \<Rightarrow> SingleOffsetEdit list \<Rightarrow> int \<Rightarrow> int \<Rightarrow> bool" where
  "join_inv s t Q d p \<longleftrightarrow> 0 \<le> p \<and> p \<le> int (length t) \<and> 0 \<le> p - d \<and>
     edits_within (p - d) (int (length s)) Q \<and> seg p (int (length t)) t = edited (p - d) Q s"

lemma join_inv_length:
  assumes "join_inv s t Q d p"
  shows "int (length t) = int (length s) + d + total_delta Q"
proof -
  have "int (length (seg p (int (length t)) t)) = int (length s) - (p - d) + total_delta Q"
    using assms length_edited [of "p - d" s Q] by (simp add: join_inv_def)
  moreover have "int (length (seg p (int (length t)) t)) = int (length t) - p"
    using assms by (intro length_seg) (auto simp: join_inv_def)
  ultimately show ?thesis by linarith
qed

lemma join_copy_spec:
  assumes "join_inv s t Q d p" "p \<le> e_start e2"
  shows "\<exists>Q' d' cp p'. join_copy Q d e2 R = (Q', d', R @ cp) \<and> join_inv s t Q' d' p' \<and>
    p \<le> p' \<and> p' \<le> e_start e2 \<and> (Q' = [] \<or> e_start e2 \<le> e_start (hd Q') + d' + e_new (hd Q')) \<and>
    (\<forall>X. edited (p - d) (cp @ X) s = seg p p' t @ edited (p' - d') X s) \<and>
    (\<forall>n X. edits_within (p' - d') n X \<longrightarrow> edits_within (p - d) n (cp @ X))"
  using assms
proof (induction Q d e2 R arbitrary: p rule: join_copy.induct)
  case (1 d e2 R)
  then show ?case by (intro exI [of _ "[]"] exI [of _ d] exI [of _ p]) simp
next
  case (2 e1 Q d e2 R)
  show ?case
  proof (cases "e_start e1 + d + e_new e1 \<ge> e_start e2")
    case True
    with 2(2,3) show ?thesis
      by (intro exI [of _ "e1 # Q"] exI [of _ d] exI [of _ "[]"] exI [of _ p]) simp
  next
    case False
    define p1 where "p1 = e_start e1 + d + e_new e1"
    define d1 where "d1 = d + (e_new e1 - OffsetRange_length (replaceRange e1))"
    have diff: "p1 - d1 = e_end e1" by (simp add: p1_def d1_def OffsetRange_length_def)
    note inv = 2(2)[unfolded join_inv_def edits_within.simps edited.simps]
    have start: "e_start e1 \<le> int (length s)" using inv by (auto dest: edits_within_le)
    have len: "int (length (seg (p - d) (e_start e1) s @ newText e1)) = p1 - p"
      using inv start by (simp add: length_seg p1_def)
    have split: "seg p p1 t = seg (p - d) (e_start e1) s @ newText e1"
      "seg p1 (int (length t)) t = edited (e_end e1) Q s"
      using suffix_split [of p t "seg (p - d) (e_start e1) s @ newText e1", OF _ _ len] inv by auto
    have p1: "p \<le> p1" "p1 \<le> e_start e2" using len False by (simp_all add: p1_def)
    have "int (length t) = int (length s) + d1 + total_delta Q"
      using join_inv_length [OF 2(2)] by (simp add: d1_def)
    moreover have "int (length (edited (e_end e1) Q s)) = int (length s) - e_end e1 + total_delta Q"
      using inv by (intro length_edited) auto
    ultimately have "p1 \<le> int (length t)" using diff by simp
    then have inv1: "join_inv s t Q d1 p1"
      using inv p1 split(2) by (auto simp: join_inv_def diff)
    from 2(1) [OF False inv1 [unfolded d1_def] p1(2)] obtain Q' d' cp p' where IH:
      "join_copy Q d1 e2 (R @ [e1]) = (Q', d', (R @ [e1]) @ cp)" "join_inv s t Q' d' p'"
      "p1 \<le> p'" "p' \<le> e_start e2" "Q' = [] \<or> e_start e2 \<le> e_start (hd Q') + d' + e_new (hd Q')"
      "\<forall>X. edited (p1 - d1) (cp @ X) s = seg p1 p' t @ edited (p' - d') X s"
      "\<forall>n X. edits_within (p' - d') n X \<longrightarrow> edits_within (p1 - d1) n (cp @ X)"
      unfolding d1_def [symmetric] by blast
    have "edited (p - d) ((e1 # cp) @ X) s = seg p p' t @ edited (p' - d') X s" for X
    proof -
      have "seg p p' t = seg p p1 t @ seg p1 p' t" using inv p1 IH(3) by (simp add: seg_append_seg)
      then show ?thesis using IH(6) by (simp add: diff split(1))
    qed
    moreover have "edits_within (p - d) n ((e1 # cp) @ X)" if "edits_within (p' - d') n X" for n X
      using IH(7) that inv by (simp add: diff)
    ultimately show ?thesis
      using False IH(1-5) p1(1)
      by (intro exI [of _ Q'] exI [of _ d'] exI [of _ "e1 # cp"] exI [of _ p']) (simp add: d1_def)
  qed
qed

lemma join_consume_spec:
  "\<exists>B Q' d'. join_consume Q d e2 f l =
      (Q', d', (if B = [] then f else case f of None \<Rightarrow> Some (hd B) | Some x \<Rightarrow> Some x),
       (if B = [] then l else Some (last B))) \<and>
    Q = B @ Q' \<and> d' = d + total_delta B \<and>
    (B \<noteq> [] \<longrightarrow> e_start (last B) + d + total_delta (butlast B) \<le> e_end e2) \<and>
    (Q' = [] \<or> e_end e2 < e_start (hd Q') + d')"
proof (induction Q d e2 f l rule: join_consume.induct)
  case (1 d e2 f l)
  then show ?case by (intro exI [of _ "[]"] exI [of _ d]) simp
next
  case (2 e1 Q d e2 f l)
  show ?case
  proof (cases "e_start e1 + d > e_end e2")
    case True
    then show ?thesis by (intro exI [of _ "[]"] exI [of _ "e1 # Q"] exI [of _ d]) simp
  next
    case False
    from 2 [OF False] obtain B Q' d' where IH:
      "join_consume Q (d + (e_new e1 - OffsetRange_length (replaceRange e1))) e2
         (case f of None \<Rightarrow> Some e1 | Some f \<Rightarrow> Some f) (Some e1) =
       (Q', d', (if B = [] then (case f of None \<Rightarrow> Some e1 | Some f \<Rightarrow> Some f)
          else case (case f of None \<Rightarrow> Some e1 | Some f \<Rightarrow> Some f) of None \<Rightarrow> Some (hd B) | Some x \<Rightarrow> Some x),
        (if B = [] then Some e1 else Some (last B)))"
      "Q = B @ Q'" "d' = d + (e_new e1 - OffsetRange_length (replaceRange e1)) + total_delta B"
      "B \<noteq> [] \<longrightarrow> e_start (last B) + (d + (e_new e1 - OffsetRange_length (replaceRange e1))) +
         total_delta (butlast B) \<le> e_end e2"
      "Q' = [] \<or> e_end e2 < e_start (hd Q') + d'" by blast
    then show ?thesis
      using False
      by (intro exI [of _ "e1 # B"] exI [of _ Q'] exI [of _ d']) (auto split: option.splits)
  qed
qed

text \<open>The text of the merged replacement that comes before \<open>edit2\<close>.\<close>

lemma join_left:
  fixes e2 f d
  defines "a \<equiv> min (e_start f) (e_start e2 - d)" and "k \<equiv> e_start e2 - (e_start f + d)"
  assumes inv: "join_inv s t (f # Q) d p" and "p \<le> e_start e2"
    and touch: "e_start e2 \<le> e_start f + d + e_new f"
  shows "p - d \<le> a" "seg (p - d) a s @ (if k > 0 then js_slice (newText f) 0 k else []) = seg p (e_start e2) t"
proof -
  note i = inv [unfolded join_inv_def edits_within.simps edited.simps]
  show le: "p - d \<le> a" using i assms(4) by (simp add: a_def)
  have f: "e_start f \<le> int (length s)" using i by (auto dest: edits_within_le)
  show "seg (p - d) a s @ (if k > 0 then js_slice (newText f) 0 k else []) = seg p (e_start e2) t"
  proof (cases "k > 0")
    case True
    then have k: "a = e_start f" "0 \<le> k" "k \<le> e_new f" using touch by (simp_all add: a_def k_def)
    have slice: "js_slice (newText f) 0 k = take (nat k) (newText f)"
      using k by (simp add: js_slice_def seg_from_start)
    have "seg p (int (length t)) t = (seg (p - d) a s @ take (nat k) (newText f)) @
        drop (nat k) (newText f) @ edited (e_end f) Q s"
      using i k(1) by (metis append.assoc append_take_drop_id)
    moreover have "int (length (seg (p - d) a s @ take (nat k) (newText f))) = e_start e2 - p"
      using i f k by (simp add: length_seg) (simp add: k_def)
    ultimately have "seg p (e_start e2) t = seg (p - d) a s @ take (nat k) (newText f)"
      using i suffix_split(1) by blast
    with True slice show ?thesis by simp
  next
    case False
    then have a: "a = e_start e2 - d" "a \<le> e_start f" by (simp_all add: a_def k_def)
    have "seg p (int (length t)) t = seg (p - d) a s @ seg a (e_start f) s @ newText f @ edited (e_end f) Q s"
      using i le a(2) seg_append_seg [of "p - d" a "e_start f" s] by (metis append.assoc)
    moreover have "int (length (seg (p - d) a s)) = e_start e2 - p"
      using i f le a by (simp add: length_seg)
    ultimately have "seg p (e_start e2) t = seg (p - d) a s" using i suffix_split(1) by blast
    with False show ?thesis by simp
  qed
qed

text \<open>The rest of the queue after the replacements that \<open>edit2\<close> touches were merged into it.\<close>

lemma join_right:
  fixes e2 B d
  defines "l \<equiv> last B"
  defines "k \<equiv> (e_end l + (d + total_delta B)) - e_end e2"
  assumes inv: "join_inv s t (B @ Q) d p" and B: "B \<noteq> []" and "p \<le> e_end e2" "e_end e2 \<le> int (length t)"
    and last: "e_start l + d + total_delta (butlast B) \<le> e_end e2"
    and rest: "Q = [] \<or> e_end e2 < e_start (hd Q) + (d + total_delta B)"
  shows "if k > 0
    then k \<le> e_new l \<and> join_inv s t (SingleOffsetEdit (MkOffsetRange (e_end l) (e_end l))
           (js_slice_from (newText l) (- k)) # Q) (d + total_delta B - k) (e_end e2)
    else join_inv s t Q (d + total_delta B) (e_end e2) \<and> e_end l \<le> e_end e2 - (d + total_delta B)"
proof -
  have Bl: "B = butlast B @ [l]" using B by (simp add: l_def)
  have delta: "total_delta B = total_delta (butlast B) + e_new l - (e_end l - e_start l)"
    using arg_cong [OF Bl, of total_delta] by (simp add: OffsetRange_length_def)
  have BQ: "B @ Q = butlast B @ [l] @ Q" using Bl by (metis append.assoc)
  have i: "0 \<le> p" "0 \<le> p - d" "edits_within (p - d) (int (length s)) (butlast B @ [l] @ Q)"
    "seg p (int (length t)) t = edited (p - d) (butlast B @ [l] @ Q) s"
    using inv unfolding join_inv_def BQ by blast+
  then obtain X where X: "seg p (int (length t)) t = X @ newText l @ edited (e_end l) Q s"
    "int (length X) = e_start l + total_delta (butlast B) - (p - d)"
    using edited_append [OF i(2,3)] by auto
  have "edits_within (if butlast B = [] then p - d else e_end (last (butlast B))) (int (length s)) ([l] @ Q)"
    using i(3) by (simp only: edits_within_append)
  then have Q: "edits_within (e_end l) (int (length s)) Q" by simp
  have "l \<in> set (butlast B @ [l] @ Q)" by simp
  then have l0: "0 \<le> e_end l" using edits_within_member [OF i(3)] i(2) by force
  show ?thesis
  proof (cases "k > 0")
    case True
    then have k: "k \<le> e_new l" "e_end e2 - (d + total_delta B - k) = e_end l"
      using last by (simp_all add: k_def delta)
    define m where "m = nat (e_new l - k)"
    have slice: "js_slice_from (newText l) (- k) = drop m (newText l)"
      using True k(1) by (simp add: js_slice_from_def js_slice_def seg_def m_def)
    have A: "int (length (X @ take m (newText l))) = e_end e2 - p"
      using X(2) k(1) True by (simp add: m_def k_def delta)
    have "seg p (int (length t)) t = (X @ take m (newText l)) @ drop m (newText l) @ edited (e_end l) Q s"
      using X(1) by (metis append.assoc append_take_drop_id)
    from suffix_split(2) [OF this i(1) A] True k slice l0 Q assms(5,6) i(1) show ?thesis
      by (simp add: join_inv_def)
  next
    case False
    define q where "q = e_end e2 - (d + total_delta B)"
    have q: "e_end l \<le> q" using False by (simp add: q_def k_def)
    have "int (length t) = int (length s) + d + total_delta B + total_delta Q"
      using join_inv_length [OF inv] by simp
    then have "edits_within q (int (length s)) Q"
      using rest Q assms(6) by (cases Q) (auto simp: q_def)
    then have Qq: "edits_within q (int (length s)) Q" "q \<le> int (length s)" by (auto dest: edits_within_le)
    have A: "int (length (X @ newText l @ seg (e_end l) q s)) = e_end e2 - p"
      using X(2) q l0 Qq(2) by (simp add: length_seg q_def delta)
    have "seg p (int (length t)) t = (X @ newText l @ seg (e_end l) q s) @ edited q Q s"
      using X(1) edited_prefix [OF l0 q Qq(1)] by simp
    from suffix_split(2) [OF this i(1) A] False q l0 Qq(1) assms(5,6) i(1) show ?thesis
      by (simp add: join_inv_def q_def)
  qed
qed

lemma join_step_spec:
  assumes inv: "join_inv s t Q d p" and e2: "p \<le> e_start e2" "e_start e2 \<le> e_end e2" "e_end e2 \<le> int (length t)"
  shows "\<exists>Q' new d'. join_step e2 (Q, R, d) = Inr (Q', R @ new, d') \<and> join_inv s t Q' d' (e_end e2) \<and>
    (\<forall>X. edited (p - d) (new @ X) s = seg p (e_start e2) t @ newText e2 @ edited (e_end e2 - d') X s) \<and>
    (\<forall>n X. edits_within (e_end e2 - d') n X \<longrightarrow> edits_within (p - d) n (new @ X))"
proof -
  from join_copy_spec [OF inv e2(1)] obtain Q1 d1 cp p1 where
    copy: "join_copy Q d e2 R = (Q1, d1, R @ cp)" and inv1: "join_inv s t Q1 d1 p1"
    and p1: "p \<le> p1" "p1 \<le> e_start e2"
    and touch: "Q1 = [] \<or> e_start e2 \<le> e_start (hd Q1) + d1 + e_new (hd Q1)"
    and cp: "\<forall>X. edited (p - d) (cp @ X) s = seg p p1 t @ edited (p1 - d1) X s"
      "\<forall>n X. edits_within (p1 - d1) n X \<longrightarrow> edits_within (p - d) n (cp @ X)" by blast
  from join_consume_spec [of Q1 d1 e2 None None, unfolded option.simps(4)] obtain B Q2 d2 where
    consume: "join_consume Q1 d1 e2 None None =
      (Q2, d2, (if B = [] then None else Some (hd B)), (if B = [] then None else Some (last B)))"
    and B: "Q1 = B @ Q2" "d2 = d1 + total_delta B"
      "B \<noteq> [] \<longrightarrow> e_start (last B) + d1 + total_delta (butlast B) \<le> e_end e2"
      "Q2 = [] \<or> e_end e2 < e_start (hd Q2) + d2"
    by blast
  have seg: "seg p p1 t @ seg p1 (e_start e2) t = seg p (e_start e2) t"
    using inv p1 by (simp add: join_inv_def seg_append_seg)
  txt \<open>It is enough to give the one new replacement, and the queue that it leaves.\<close>
  have finish: ?thesis if "join_step e2 (Q, R, d) = Inr (Q', R @ cp @ [ne], d')"
    "join_inv s t Q' d' (e_end e2)" "p1 - d1 \<le> e_start ne" "e_start ne \<le> e_end ne" "e_end ne = e_end e2 - d'"
    "seg (p1 - d1) (e_start ne) s @ newText ne = seg p1 (e_start e2) t @ newText e2" for Q' ne d'
  proof (rule exI [of _ Q'], rule exI [of _ "cp @ [ne]"], rule exI [of _ d'], intro conjI allI impI)
    fix X n
    have "edited (p1 - d1) (ne # X) s = (seg (p1 - d1) (e_start ne) s @ newText ne) @ edited (e_end ne) X s"
      by simp
    then show "edited (p - d) ((cp @ [ne]) @ X) s =
        seg p (e_start e2) t @ newText e2 @ edited (e_end e2 - d') X s"
      using that(5,6) cp(1) by (simp flip: seg)
    show "edits_within (p - d) n ((cp @ [ne]) @ X)" if "edits_within (e_end e2 - d') n X"
      using that \<open>p1 - d1 \<le> e_start ne\<close> \<open>e_start ne \<le> e_end ne\<close> \<open>e_end ne = e_end e2 - d'\<close> cp(2) by simp
  qed (use that in auto)
  show ?thesis
  proof (cases "B = []")
    case True
    let ?ne = "SingleOffsetEdit (MkOffsetRange (e_start e2 - d1) (e_end e2 - d1)) (newText e2)"
    have Q: "Q1 = Q2" "d2 = d1" using B True by simp_all
    have len: "int (length t) = int (length s) + d1 + total_delta Q1" by (rule join_inv_length [OF inv1])
    have within: "edits_within (e_end e2 - d1) (int (length s)) Q1"
      using B(4) inv1 e2(3) len Q by (cases Q1) (auto simp: join_inv_def)
    have le: "0 \<le> p1 - d1" "p1 - d1 \<le> e_start e2 - d1" "0 \<le> p1" using inv1 p1 by (auto simp: join_inv_def)
    have bound: "e_end e2 - d1 \<le> int (length s)" using within by (rule edits_within_le)
    have tail: "seg p1 (int (length t)) t = seg (p1 - d1) q s @ edited q Q1 s"
      if "p1 - d1 \<le> q" "q \<le> e_end e2 - d1" for q
      using inv1 edited_prefix [OF le(1) that(1), of s Q1] edits_within_mono [OF within that(2)]
      by (simp add: join_inv_def)
    have "seg p1 (e_start e2) t = seg (p1 - d1) (e_start e2 - d1) s"
      using suffix_split(1) [OF tail le(3)] e2 le bound by (simp add: length_seg)
    moreover have "seg (e_end e2) (int (length t)) t = edited (e_end e2 - d1) Q1 s"
      using suffix_split(2) [OF tail [of "e_end e2 - d1"] le(3)] e2 p1 le bound by (simp add: length_seg)
    moreover have "join_step e2 (Q, R, d) = Inr (Q2, R @ cp @ [?ne], d2)"
      using consume True Q(2) e2(2) by (simp add: join_step_def copy OffsetRange_delta_def)
    ultimately show ?thesis
      using within e2 p1 le Q by (intro finish [of Q2 ?ne d2]) (simp_all add: join_inv_def)
  next
    case False
    define f where "f = hd B"
    define l where "l = last B"
    have Q1: "Q1 = f # tl B @ Q2" using B(1) False by (simp add: f_def)
    have f: "e_start e2 \<le> e_start f + d1 + e_new f" using touch Q1 by simp
    define k where "k = e_end l + d2 - e_end e2"
    define P where "P = (if e_start e2 - (e_start f + d1) > 0
      then js_slice (newText f) 0 (e_start e2 - (e_start f + d1)) else [])"
    define Q' where "Q' = (if k > 0 then SingleOffsetEdit (MkOffsetRange (e_end l) (e_end l))
        (js_slice_from (newText l) (- k)) # Q2 else Q2)"
    define d' where "d' = (if k > 0 then d2 - k else d2)"
    let ?a = "min (e_start f) (e_start e2 - d1)"
    let ?ne = "SingleOffsetEdit (MkOffsetRange ?a (e_end e2 - d')) (P @ newText e2)"
    note left = join_left [OF inv1 [unfolded Q1] p1(2) f, folded P_def]
    have "p1 \<le> e_end e2" using p1 e2 by simp
    note right = join_right [OF inv1 [unfolded B(1)] False this e2(3), folded l_def B(2), folded k_def, OF _ B(4)]
    have last: "e_start l + d1 + total_delta (butlast B) \<le> e_end e2" using B(3) False by (simp add: l_def)
    have inv': "join_inv s t Q' d' (e_end e2)" using right [OF last] by (auto simp: Q'_def d'_def)
    have fl: "e_start f \<le> e_end l"
    proof -
      have "edits_within (p1 - d1) (int (length s)) B"
        using inv1 B(1) by (simp add: join_inv_def edits_within_append)
      moreover have "edits_within (e_start f) (int (length s)) B"
        using calculation False by (cases B) (auto simp: f_def)
      ultimately show ?thesis using edits_within_member [of "e_start f" _ B l] False by (force simp: l_def)
    qed
    have end_ge: "?a \<le> e_end e2 - d'" using right [OF last] fl by (auto simp: d'_def k_def split: if_splits)
    have len: "int (length (js_slice_from (newText l) (- k))) = k" if "k > 0"
      using right [OF last] that by (simp add: js_slice_from_def js_slice_def length_seg Let_def)
    have "join_step e2 (Q, R, d) = Inr (Q', R @ cp @ [?ne], d')"
      using False end_ge len
      by (auto simp: join_step_def copy consume join_merge_def Let_def f_def [symmetric] l_def [symmetric]
          k_def [symmetric] P_def Q'_def d'_def OffsetRange_ofStartAndLength_def OffsetRange_length_def)
    with inv' left end_ge show ?thesis by (intro finish [of Q' ?ne d']) simp_all
  qed
qed

lemma join_fold_spec:
  assumes "join_inv s t Q d p" "edits_within p (int (length t)) E2"
  shows "\<exists>Q' new d'. efold join_step E2 (Q, R, d) = Inr (Q', R @ new, d') \<and>
    edits_within (p - d) (int (length s)) (new @ Q') \<and> edited (p - d) (new @ Q') s = edited p E2 t"
  using assms
proof (induction E2 arbitrary: Q d p R)
  case Nil
  then show ?case by (intro exI [of _ Q] exI [of _ "[]"] exI [of _ d]) (simp add: join_inv_def)
next
  case (Cons e2 E2)
  have "p \<le> e_start e2" "e_start e2 \<le> e_end e2" "e_end e2 \<le> int (length t)"
    using Cons.prems(2) by (auto dest: edits_within_le)
  from join_step_spec [OF Cons.prems(1) this, of R] obtain Q1 new1 d1 where step:
    "join_step e2 (Q, R, d) = Inr (Q1, R @ new1, d1)" "join_inv s t Q1 d1 (e_end e2)"
    "\<forall>X. edited (p - d) (new1 @ X) s = seg p (e_start e2) t @ newText e2 @ edited (e_end e2 - d1) X s"
    "\<forall>n X. edits_within (e_end e2 - d1) n X \<longrightarrow> edits_within (p - d) n (new1 @ X)" by blast
  from Cons.IH [OF step(2), of "R @ new1"] Cons.prems(2) obtain Q' new d' where IH:
    "efold join_step E2 (Q1, R @ new1, d1) = Inr (Q', (R @ new1) @ new, d')"
    "edits_within (e_end e2 - d1) (int (length s)) (new @ Q')"
    "edited (e_end e2 - d1) (new @ Q') s = edited (e_end e2) E2 t" by auto
  show ?case
    using step IH by (intro exI [of _ Q'] exI [of _ "new1 @ new"] exI [of _ d']) simp
qed

text \<open>
  C15: the invariant stated above \<open>joinEdits\<close> in the source. Composing an edit of a string
  with an edit of what the first one makes of it never throws; it gives an edit of the
  original string, and applying it is applying both edits in order.
\<close>

theorem OffsetEdit_compose_apply:
  assumes "oe_ok (int (length s)) E1" "oe_ok (int (length (OffsetEdit_apply E1 s))) E2"
  shows "\<exists>C. OffsetEdit_compose E1 E2 = Inr C \<and> oe_ok (int (length s)) C \<and>
    OffsetEdit_apply C s = OffsetEdit_apply E2 (OffsetEdit_apply E1 s)"
proof -
  define t where "t = OffsetEdit_apply E1 s"
  from OffsetEdit_normalize_spec [OF assms(1)] obtain F1 where
    F1: "OffsetEdit_normalize E1 = Inr F1" "oe_ok (int (length s)) F1" "edited 0 (oe_edits F1) s = t"
    using assms(1) by (auto simp: t_def OffsetEdit_apply_edited)
  from OffsetEdit_normalize_spec [OF assms(2)] obtain F2 where
    F2: "OffsetEdit_normalize E2 = Inr F2" "oe_ok (int (length t)) F2"
      "edited 0 (oe_edits F2) t = OffsetEdit_apply E2 t"
    using assms(2) by (auto simp: t_def OffsetEdit_apply_edited)
  have id: "edited 0 [] r = r" for r by simp
  show ?thesis
  proof (cases "OffsetEdit_isEmpty F1 \<or> OffsetEdit_isEmpty F2")
    case True
    then consider "oe_edits F1 = []" | "oe_edits F1 \<noteq> []" "oe_edits F2 = []"
      by (auto simp: OffsetEdit_isEmpty_def)
    then show ?thesis
    proof cases
      case 1
      then have "s = t" using F1(3) by simp
      with 1 F1 F2 show ?thesis
        unfolding t_def [symmetric]
        by (simp add: OffsetEdit_compose_def joinEdits_def OffsetEdit_isEmpty_def OffsetEdit_apply_edited)
    next
      case 2
      with F1 F2 show ?thesis
        by (simp add: OffsetEdit_compose_def joinEdits_def OffsetEdit_isEmpty_def OffsetEdit_apply_edited
            t_def [symmetric])
    qed
  next
    case False
    have "join_inv s t (oe_edits F1) 0 0" using F1 by (simp add: join_inv_def oe_ok_def)
    from join_fold_spec [OF this, of "oe_edits F2" "[]"] F2(2) obtain Q' new d' where fold:
      "efold join_step (oe_edits F2) (oe_edits F1, [], 0) = Inr (Q', new, d')"
      "edits_within 0 (int (length s)) (new @ Q')" "edited 0 (new @ Q') s = edited 0 (oe_edits F2) t"
      by (auto simp: oe_ok_def)
    obtain C where C: "OffsetEdit_normalize \<lparr>oe_edits = new @ Q'\<rparr> = Inr C" "oe_ok (int (length s)) C"
      "edited 0 (oe_edits C) s = edited 0 (new @ Q') s"
      using OffsetEdit_normalize_spec [of s "\<lparr>oe_edits = new @ Q'\<rparr>"] fold(2) by (auto simp: oe_ok_def)
    with False F1(1) F2 fold show ?thesis
      by (simp add: OffsetEdit_compose_def joinEdits_def OffsetEdit_new_Inr OffsetEdit_apply_edited
          t_def [symmetric])
  qed
qed

theorem OffsetEdit_compose_apply_witness:
  "\<exists>C. OffsetEdit_compose \<lparr>oe_edits = [SingleOffsetEdit (MkOffsetRange 1 2) [7, 8, 9]]\<rparr>
       \<lparr>oe_edits = [SingleOffsetEdit (MkOffsetRange 2 4) [5]]\<rparr> = Inr C \<and>
     OffsetEdit_apply C [1, 2, 3] = [1, 7, 5, 3]"
  using OffsetEdit_compose_apply [of "[1, 2, 3]" "\<lparr>oe_edits = [SingleOffsetEdit (MkOffsetRange 1 2) [7, 8, 9]]\<rparr>"
      "\<lparr>oe_edits = [SingleOffsetEdit (MkOffsetRange 2 4) [5]]\<rparr>"]
  by (auto simp: oe_ok_def OffsetEdit_apply_def js_substring_def js_substring_from_def seg_def)

text \<open>
  The strings \<open>s\<close> and \<open>t\<close> from the offsets \<open>p\<close> and \<open>p + off\<close> on are related by the
  replacements \<open>es\<close>; this is how the relation passes over the first of them.
\<close>

definition edit_rel :: "js_string \<Rightarrow> js_string \<Rightarrow> int \<Rightarrow> int \<Rightarrow> SingleOffsetEdit list \<Rightarrow> bool" where
  "edit_rel s t p off es \<longleftrightarrow> 0 \<le> p \<and> 0 \<le> p + off \<and> p + off \<le> int (length t) \<and>
     edits_within p (int (length s)) es \<and> seg (p + off) (int (length t)) t = edited p es s"

lemma edit_rel_step:
  fixes e off
  defines "x \<equiv> e_start e + off" and "off' \<equiv> off + (e_new e - OffsetRange_length (replaceRange e))"
  assumes rel: "edit_rel s t p off (e # es)"
  shows "edit_rel s t (e_end e) off' es" "seg (p + off) x t = seg p (e_start e) s"
    "seg x (e_end e + off') t = newText e" "0 \<le> x" "p + off \<le> x" "x + e_new e = e_end e + off'"
    "e_end e + off' \<le> int (length t)" "p \<le> e_start e" "e_start e \<le> e_end e" "e_end e \<le> int (length s)"
proof -
  note r = rel [unfolded edit_rel_def edits_within.simps]
  show e: "p \<le> e_start e" "e_start e \<le> e_end e" "e_end e \<le> int (length s)"
    using r by (auto dest: edits_within_le)
  show y: "x + e_new e = e_end e + off'" by (simp add: x_def off'_def OffsetRange_length_def)
  show x: "0 \<le> x" "p + off \<le> x" using r by (auto simp: x_def)
  have suf: "seg (p + off) (int (length t)) t = seg p (e_start e) s @ newText e @ edited (e_end e) es s"
    using r by simp
  have len: "int (length (seg p (e_start e) s)) = x - (p + off)"
    using r e by (simp add: length_seg x_def)
  note at_x = suffix_split [OF suf _ len]
  show "seg (p + off) x t = seg p (e_start e) s" using at_x(1) r by simp
  have at_y: "seg x (e_end e + off') t = newText e"
    "seg (e_end e + off') (int (length t)) t = edited (e_end e) es s"
    using suffix_split [OF at_x(2) x(1), of "e_end e + off'"] r y by auto
  then show "seg x (e_end e + off') t = newText e" by simp
  have "int (length t) - (p + off) = (x - (p + off)) + e_new e + int (length (edited (e_end e) es s))"
    using suffix_length [OF suf] r len by simp
  then show le: "e_end e + off' \<le> int (length t)" using y by simp
  show "edit_rel s t (e_end e) off' es" using r x y e at_y(2) le by (auto simp: edit_rel_def)
qed

lemma edit_rel_apply: "oe_ok (int (length s)) E \<Longrightarrow> edit_rel s (OffsetEdit_apply E s) 0 0 (oe_edits E)"
  by (simp add: edit_rel_def oe_ok_def OffsetEdit_apply_edited)

section \<open>Inversion\<close>

lemma inverse_loop_spec:
  assumes "edit_rel s t p off es"
  shows "\<exists>is. inverse_loop es s off = Inr is \<and> edits_within (p + off) (int (length t)) is \<and>
    edited (p + off) is t = seg p (int (length s)) s \<and>
    newTextRanges_loop es off = Inr (map replaceRange is) \<and>
    map (\<lambda>r. OffsetRange_substring r t) (map replaceRange is) = map newText es"
  using assms
proof (induction es arbitrary: p off)
  case Nil
  then show ?case by (auto simp: edit_rel_def)
next
  case (Cons e es)
  define x where "x = e_start e + off"
  define off' where "off' = off + (e_new e - OffsetRange_length (replaceRange e))"
  define y where "y = e_end e + off'"
  note step = edit_rel_step [OF Cons.prems, folded x_def off'_def, folded y_def]
  have p: "0 \<le> p" using Cons.prems by (simp add: edit_rel_def)
  from Cons.IH [OF step(1)] obtain "is" where IH:
    "inverse_loop es s off' = Inr is" "edits_within y (int (length t)) is"
    "edited y is t = seg (e_end e) (int (length s)) s" "newTextRanges_loop es off' = Inr (map replaceRange is)"
    "map (\<lambda>r. OffsetRange_substring r t) (map replaceRange is) = map newText es"
    unfolding y_def by blast
  let ?i = "SingleOffsetEdit (MkOffsetRange x y) (seg (e_start e) (e_end e) s)"
  have xy: "x \<le> y" using step(6) by linarith
  have range: "OffsetRange_ofStartAndLength x (e_new e) = Inr (MkOffsetRange x y)"
    using step(6) xy by (simp add: OffsetRange_ofStartAndLength_def)
  have "edited (p + off) (?i # is) t = seg p (int (length s)) s"
    using step(2,8-10) IH(3) p by (simp add: seg_append_seg)
  moreover have "OffsetRange_substring (MkOffsetRange x y) t = newText e"
    using step(3,4,7) xy by (simp add: OffsetRange_substring_def js_substring_seg)
  moreover have "js_substring s (e_start e) (e_end e) = seg (e_start e) (e_end e) s"
    using p step(8-10) by (simp add: js_substring_seg)
  ultimately show ?case
    using IH range step(5) xy
    by (intro exI [of _ "?i # is"]) (simp add: x_def [symmetric] off'_def [symmetric])
qed

text \<open>
  C18: the edit that \<open>inverse\<close> returns reverts the edit: it is an edit of the edited string
  and turns it into the original string. The ranges that \<open>getNewTextRanges\<close> returns are the
  places where the edited string holds the new texts.
\<close>

theorem OffsetEdit_inverse_apply:
  assumes "oe_ok (int (length s)) E"
  shows "\<exists>I. OffsetEdit_inverse E s = Inr I \<and> oe_ok (int (length (OffsetEdit_apply E s))) I \<and>
    OffsetEdit_apply I (OffsetEdit_apply E s) = s \<and>
    (\<exists>rs. OffsetEdit_getNewTextRanges E = Inr rs \<and>
       map (\<lambda>r. OffsetRange_substring r (OffsetEdit_apply E s)) rs = map newText (oe_edits E))"
proof -
  define t where "t = OffsetEdit_apply E s"
  from inverse_loop_spec [OF edit_rel_apply [OF assms]]
  obtain "is" where I: "inverse_loop (oe_edits E) s 0 = Inr is" "edits_within 0 (int (length t)) is"
    "edited 0 is t = s" "newTextRanges_loop (oe_edits E) 0 = Inr (map replaceRange is)"
    "map (\<lambda>r. OffsetRange_substring r t) (map replaceRange is) = map newText (oe_edits E)"
    by (auto simp: oe_ok_def t_def)
  have "OffsetEdit_inverse E s = Inr \<lparr>oe_edits = is\<rparr>"
    using I(1) OffsetEdit_new_Inr [OF I(2)] by (simp add: OffsetEdit_inverse_def)
  moreover have "OffsetEdit_apply \<lparr>oe_edits = is\<rparr> t = s"
    using I(2,3) by (simp add: OffsetEdit_apply_edited oe_ok_def)
  ultimately show ?thesis
    using I unfolding t_def [symmetric]
    by (intro exI [of _ "\<lparr>oe_edits = is\<rparr>"]) (auto simp: oe_ok_def OffsetEdit_getNewTextRanges_def)
qed

theorem OffsetEdit_inverse_apply_witness:
  "\<exists>I. OffsetEdit_inverse \<lparr>oe_edits = [SingleOffsetEdit (MkOffsetRange 1 2) [7, 8]]\<rparr> [1, 2, 3] = Inr I \<and>
     OffsetEdit_apply I [1, 7, 8, 3] = [1, 2, 3]"
  using OffsetEdit_inverse_apply [of "[1, 2, 3]" "\<lparr>oe_edits = [SingleOffsetEdit (MkOffsetRange 1 2) [7, 8]]\<rparr>"]
  by (auto simp: oe_ok_def OffsetEdit_apply_def js_substring_def js_substring_from_def seg_def)

section \<open>Rebasing\<close>

text \<open>The replacements of two edits, in the order of the text; at the same offset the base goes first.\<close>

fun merge_edits :: "SingleOffsetEdit list \<Rightarrow> SingleOffsetEdit list \<Rightarrow> SingleOffsetEdit list" where
  "merge_edits [] bs = bs"
| "merge_edits os [] = os"
| "merge_edits (our # os) (b # bs) =
     (if e_start our < e_start b then our # merge_edits os (b # bs) else b # merge_edits (our # os) bs)"

lemma merge_edits_Nil [simp]: "merge_edits os [] = os"
  by (cases os) simp_all

lemma merge_edits_within:
  "edits_within p n (merge_edits os bs) \<Longrightarrow> edits_within p n os \<and> edits_within p n bs"
proof (induction os bs arbitrary: p rule: merge_edits.induct)
  case (3 our os b bs)
  show ?case
  proof (cases "e_start our < e_start b")
    case True
    with 3 have "edits_within (e_end our) n os" "edits_within (e_end our) n (b # bs)" by auto
    with True 3(3) show ?thesis by auto
  next
    case False
    with 3 have "edits_within (e_end b) n (our # os)" "edits_within (e_end b) n bs" by auto
    with False 3(3) show ?thesis by auto
  qed
qed (auto dest: edits_within_le)

text \<open>The part of the base's text before the base's next replacement is the original text.\<close>

lemma edit_rel_prefix:
  assumes rel: "edit_rel s t p off bs" and q: "p \<le> q" "edits_within q (int (length s)) bs"
  shows "seg (p + off) (q + off) t = seg p q s" "edit_rel s t q off bs"
proof -
  note r = rel [unfolded edit_rel_def]
  have le: "q \<le> int (length s)" using q(2) by (rule edits_within_le)
  have suf: "seg (p + off) (int (length t)) t = seg p q s @ edited q bs s"
    using r edited_prefix [of p q s bs] q by simp
  have len: "int (length (seg p q s)) = q + off - (p + off)" using r q(1) le by (simp add: length_seg)
  note split = suffix_split [OF suf _ len]
  show "seg (p + off) (q + off) t = seg p q s" using split(1) r by simp
  have "int (length t) - (p + off) = int (length (seg p q s)) + int (length (edited q bs s))"
    using suffix_length [OF suf] r by simp
  with len have "q + off \<le> int (length t)" by simp
  then show "edit_rel s t q off bs" using r q split(2) by (auto simp: edit_rel_def)
qed

lemma nth_seg: "0 \<le> a \<Longrightarrow> a \<le> i \<Longrightarrow> i < b \<Longrightarrow> b \<le> int (length s) \<Longrightarrow> seg a b s ! nat (i - a) = s ! nat i"
  by (simp add: seg_def nat_diff_distrib nat_less_iff)

lemma edit_rel_nth:
  assumes rel: "edit_rel s t p off bs" and k: "p \<le> k" "edits_within (k + 1) (int (length s)) bs"
  shows "js_get t (k + off) = js_get s k"
proof -
  have le: "k + 1 \<le> int (length s)" using k(2) by (rule edits_within_le)
  note un = edit_rel_prefix [OF rel _ k(2)]
  have t: "k + 1 + off \<le> int (length t)" "0 \<le> p" "0 \<le> p + off"
    using un(2) rel k(1) by (simp_all add: edit_rel_def)
  have "t ! nat (k + off) = seg (p + off) (k + 1 + off) t ! nat (k + off - (p + off))"
    using nth_seg [of "p + off" "k + off" "k + 1 + off" t] t k(1) by simp
  also have "\<dots> = s ! nat k" using un(1) nth_seg [of p k "k + 1" s] t k(1) le by simp
  finally show ?thesis using t k(1) le by (simp add: js_get_def)
qed

lemma rebase_our:
  assumes rel: "edit_rel s t p off bs" and within: "edits_within p (int (length s)) (our # merge_edits os bs)"
    and IH: "\<And>r. \<lbrakk>edits_within (e_end our) (int (length s)) (merge_edits os bs); edit_rel s t (e_end our) off bs\<rbrakk> \<Longrightarrow>
      \<exists>R. rebase_loop os bs off (acc @ [SingleOffsetEdit r (newText our)]) =
          Inr ((acc @ [SingleOffsetEdit r (newText our)]) @ R) \<and> edits_within (e_end our + off) (int (length t)) R \<and>
        edited (e_end our + off) R t = edited (e_end our) (merge_edits os bs) s"
  shows "\<exists>R. ebind (OffsetRange_delta (replaceRange our) off)
        (\<lambda>r. rebase_loop os bs off (acc @ [SingleOffsetEdit r (newText our)])) = Inr (acc @ R) \<and>
      edits_within (p + off) (int (length t)) R \<and>
      edited (p + off) R t = edited p (our # merge_edits os bs) s"
proof -
  have our: "p \<le> e_start our" "e_start our \<le> e_end our"
    "edits_within (e_end our) (int (length s)) (merge_edits os bs)"
    using within by simp_all
  note bs = merge_edits_within [OF our(3), THEN conjunct2]
  note at_start = edit_rel_prefix [OF rel our(1) edits_within_mono [OF bs our(2)]]
  note at_end = edit_rel_prefix [OF rel order_trans [OF our(1,2)] bs]
  let ?r = "MkOffsetRange (e_start our + off) (e_end our + off)"
  from IH [OF our(3) at_end(2), of ?r] obtain R where
    "rebase_loop os bs off (acc @ [SingleOffsetEdit ?r (newText our)]) =
       Inr ((acc @ [SingleOffsetEdit ?r (newText our)]) @ R)"
    "edits_within (e_end our + off) (int (length t)) R"
    "edited (e_end our + off) R t = edited (e_end our) (merge_edits os bs) s" by blast
  then show ?thesis
    using our at_start(1) by (intro exI [of _ "SingleOffsetEdit ?r (newText our) # R"]) simp
qed

lemma rebase_loop_spec:
  assumes "edits_within p (int (length s)) (merge_edits os bs)" "edit_rel s t p off bs"
  shows "\<exists>R. rebase_loop os bs off acc = Inr (acc @ R) \<and> edits_within (p + off) (int (length t)) R \<and>
    edited (p + off) R t = edited p (merge_edits os bs) s"
  using assms
proof (induction os bs off acc arbitrary: p rule: rebase_loop.induct)
  case (1 bs off acc)
  then show ?case by (simp add: edit_rel_def)
next
  case (2 our os off acc)
  have "edits_within p (int (length s)) (our # merge_edits os [])" using 2(2) by simp
  from rebase_our [OF 2(3) this 2(1)] show ?case by (simp only: rebase_loop.simps merge_edits_Nil)
next
  case (3 our os b bs off acc)
  show ?case
  proof (cases "e_start our < e_start b")
    case True
    then have within: "edits_within p (int (length s)) (our # merge_edits os (b # bs))" using 3(4) by simp
    then have "edits_within (e_end our) (int (length s)) (merge_edits os (b # bs))" by simp
    from merge_edits_within [OF this] have no: "\<not> OffsetRange_intersects (replaceRange our) (replaceRange b)"
      by (simp add: OffsetRange_intersects_def Let_def)
    from rebase_our [OF 3(5) within 3(2) [OF no True]] show ?thesis
      by (simp only: rebase_loop.simps merge_edits.simps True no if_True if_False)
  next
    case False
    define off' where "off' = off + (e_new b - OffsetRange_length (replaceRange b))"
    note step = edit_rel_step [OF 3(5), folded off'_def]
    have b: "edits_within (e_end b) (int (length s)) (merge_edits (our # os) bs)" using False 3(4) by simp
    have no: "\<not> OffsetRange_intersects (replaceRange our) (replaceRange b)"
      using merge_edits_within [OF b] by (simp add: OffsetRange_intersects_def Let_def)
    obtain R where R: "rebase_loop (our # os) bs off' acc = Inr (acc @ R)"
      "edits_within (e_end b + off') (int (length t)) R"
      "edited (e_end b + off') R t = edited (e_end b) (merge_edits (our # os) bs) s"
      using 3(3) [OF no False b] step(1) by (auto simp: off'_def)
    have le: "p + off \<le> e_end b + off'" using step(5,6) by linarith
    have p: "0 \<le> p + off" using 3(5) by (simp add: edit_rel_def)
    have "edited (p + off) R t = seg (p + off) (e_end b + off') t @ edited (e_end b + off') R t"
      using p le R(2) by (rule edited_prefix)
    also have "seg (p + off) (e_end b + off') t = seg p (e_start b) s @ newText b"
      using seg_append_seg [of "p + off" "e_start b + off" "e_end b + off'" t] step(2,3,5,6) p by simp
    finally show ?thesis
      using R no False edits_within_mono [OF R(2) le] by (simp add: off'_def)
  qed
qed

text \<open>
  C21: \<open>tryRebase\<close> computes the three-way merge it documents. If the replacements of both
  edits, merged in the order of the text, are again an edit of the string, rebasing never
  throws, and applying the base and then the rebased edit is applying the merged edit.
\<close>

theorem OffsetEdit_tryRebase_merge:
  assumes "oe_ok (int (length s)) \<lparr>oe_edits = merge_edits (oe_edits E) (oe_edits B)\<rparr>"
  shows "\<exists>R. OffsetEdit_tryRebase E B = Inr R \<and> oe_ok (int (length (OffsetEdit_apply B s))) R \<and>
    OffsetEdit_apply R (OffsetEdit_apply B s) =
      OffsetEdit_apply \<lparr>oe_edits = merge_edits (oe_edits E) (oe_edits B)\<rparr> s"
proof -
  define t where "t = OffsetEdit_apply B s"
  have m: "edits_within 0 (int (length s)) (merge_edits (oe_edits E) (oe_edits B))"
    using assms by (simp add: oe_ok_def)
  have B: "oe_ok (int (length s)) B" using merge_edits_within [OF m] by (simp add: oe_ok_def)
  from rebase_loop_spec [OF m edit_rel_apply [OF B], of "[]"]
  obtain R where R: "rebase_loop (oe_edits E) (oe_edits B) 0 [] = Inr R"
    "edits_within 0 (int (length t)) R" "edited 0 R t = edited 0 (merge_edits (oe_edits E) (oe_edits B)) s"
    by (auto simp: t_def)
  then show ?thesis
    unfolding t_def [symmetric] using assms
    by (intro exI [of _ "\<lparr>oe_edits = R\<rparr>"])
      (simp add: OffsetEdit_tryRebase_def OffsetEdit_new_Inr oe_ok_def OffsetEdit_apply_edited)
qed

theorem OffsetEdit_tryRebase_merge_witness:
  "\<exists>R. OffsetEdit_tryRebase \<lparr>oe_edits = [SingleOffsetEdit (MkOffsetRange 2 3) [9]]\<rparr>
       \<lparr>oe_edits = [SingleOffsetEdit (MkOffsetRange 0 1) [7, 8]]\<rparr> = Inr R \<and>
     OffsetEdit_apply R [7, 8, 2, 3] = [7, 8, 2, 9]"
  using OffsetEdit_tryRebase_merge [of "[1, 2, 3]" "\<lparr>oe_edits = [SingleOffsetEdit (MkOffsetRange 2 3) [9]]\<rparr>"
      "\<lparr>oe_edits = [SingleOffsetEdit (MkOffsetRange 0 1) [7, 8]]\<rparr>"]
  by (auto simp: oe_ok_def OffsetEdit_apply_def js_substring_def js_substring_from_def seg_def)

text \<open>
  An insertion inside a range that the base replaces is not recognized as a conflict:
  for an insertion strictly inside a replacement of the base, \<open>tryRebase\<close> keeps the insertion
  and moves it by the full length change of the base, so that its offset can become negative
  and lie before the earlier edits, where \<open>tryRebase\<close> throws.
\<close>

theorem OffsetEdit_tryRebase_inner_insertion:
  assumes "a < k" "k < b"
  shows "OffsetEdit_tryRebase \<lparr>oe_edits = [SingleOffsetEdit (MkOffsetRange k k) text]\<rparr>
      \<lparr>oe_edits = [SingleOffsetEdit (MkOffsetRange a b) []]\<rparr> =
    (if -1 \<le> k - (b - a) then Inr \<lparr>oe_edits = [SingleOffsetEdit (MkOffsetRange (k - (b - a)) (k - (b - a))) text]\<rparr>
     else Inl BugIndicatingError)"
  using assms
  by (simp add: OffsetEdit_tryRebase_def OffsetRange_intersects_def OffsetRange_length_def OffsetRange_delta_def
      OffsetEdit_new_def)

theorem OffsetEdit_tryRebase_inner_insertion_witness:
  "OffsetEdit_tryRebase \<lparr>oe_edits = [SingleOffsetEdit (MkOffsetRange 3 3) [9]]\<rparr>
      \<lparr>oe_edits = [SingleOffsetEdit (MkOffsetRange 2 10) []]\<rparr> = Inl BugIndicatingError"
  using OffsetEdit_tryRebase_inner_insertion [of 2 3 10 "[9]"] by simp

section \<open>Offsets\<close>

definition untouched :: "int \<Rightarrow> SingleOffsetEdit list \<Rightarrow> bool" where
  "untouched k es \<longleftrightarrow> list_all (\<lambda>e. \<not> (e_start e \<le> k \<and> k < e_end e)) es"

lemma applyToOffset_lower:
  "edits_within p n es \<Longrightarrow> p \<le> k \<Longrightarrow> p + d \<le> applyToOffset_loop es k d"
proof (induction es arbitrary: p d)
  case (Cons e es)
  show ?case
  proof (cases "e_end e \<le> k")
    case True
    with Cons.prems Cons.IH [of "e_end e" "d + (e_new e - OffsetRange_length (replaceRange e))"] show ?thesis
      by (auto simp: OffsetRange_length_def)
  qed (use Cons.prems in auto)
qed simp

lemma applyToOffset_mono:
  "edits_within p n es \<Longrightarrow> k \<le> k' \<Longrightarrow> applyToOffset_loop es k d \<le> applyToOffset_loop es k' d"
proof (induction es arbitrary: p d)
  case (Cons e es)
  let ?d = "d + (e_new e - OffsetRange_length (replaceRange e))"
  have "e_end e + ?d \<le> applyToOffset_loop es k' ?d" if "e_end e \<le> k'"
    using Cons.prems that by (intro applyToOffset_lower [of _ n]) auto
  with Cons show ?case by (auto simp: OffsetRange_length_def)
qed simp

lemma applyInverseToOffset_loop_id:
  "edits_within p n es \<Longrightarrow> untouched k es \<Longrightarrow>
     applyInverseToOffset_loop es (applyToOffset_loop es k d) d = k"
proof (induction es arbitrary: p d)
  case (Cons e es)
  let ?d = "d + (e_new e - OffsetRange_length (replaceRange e))"
  have "e_end e + ?d \<le> applyToOffset_loop es k ?d" if "e_end e \<le> k"
    using Cons.prems that by (intro applyToOffset_lower [of _ n]) auto
  with Cons show ?case by (auto simp: untouched_def OffsetRange_length_def Let_def)
qed simp

lemma applyToOffset_loop_nth:
  assumes "edit_rel s t p d es" "p \<le> k" "k < int (length s)" "untouched k es"
  shows "js_get t (applyToOffset_loop es k d) = js_get s k"
  using assms
proof (induction es arbitrary: p d)
  case Nil
  then show ?case using edit_rel_nth [of s t p d "[]" k] by simp
next
  case (Cons e es)
  show ?case
  proof (cases "e_start e \<le> k")
    case True
    then have "e_end e \<le> k" "untouched k es" using Cons.prems(4) by (simp_all add: untouched_def)
    with Cons.IH [OF edit_rel_step(1) [OF Cons.prems(1)]] True Cons.prems(3) show ?thesis by simp
  next
    case False
    then have "edits_within (k + 1) (int (length s)) (e # es)" using Cons.prems(1) by (simp add: edit_rel_def)
    with False Cons.prems show ?thesis using edit_rel_nth [of s t p d "e # es" k] by simp
  qed
qed

text \<open>
  C36: how an edit maps offsets. \<open>applyToOffset\<close> is monotonous, so \<open>applyToOffsetRange\<close> of a
  valid range never throws; an offset whose character is not replaced is mapped to the offset
  of that character in the edited string, and \<open>applyInverseToOffset\<close> maps it back.
\<close>

theorem OffsetEdit_applyToOffset_tracks:
  assumes "oe_ok (int (length s)) E"
  shows "(\<forall>k k'. k \<le> k' \<longrightarrow> OffsetEdit_applyToOffset E k \<le> OffsetEdit_applyToOffset E k') \<and>
    (\<forall>r. or_ok r \<longrightarrow> (\<exists>r'. OffsetEdit_applyToOffsetRange E r = Inr r')) \<and>
    (\<forall>k. 0 \<le> k \<and> k < int (length s) \<and> untouched k (oe_edits E) \<longrightarrow>
       js_get (OffsetEdit_apply E s) (OffsetEdit_applyToOffset E k) = Some (s ! nat k) \<and>
       OffsetEdit_applyInverseToOffset E (OffsetEdit_applyToOffset E k) = k)"
proof (intro conjI allI impI)
  have within: "edits_within 0 (int (length s)) (oe_edits E)" using assms by (simp add: oe_ok_def)
  show mono: "OffsetEdit_applyToOffset E k \<le> OffsetEdit_applyToOffset E k'" if "k \<le> k'" for k k'
    using applyToOffset_mono [OF within that] by (simp add: OffsetEdit_applyToOffset_def)
  show "\<exists>r'. OffsetEdit_applyToOffsetRange E r = Inr r'" if "or_ok r" for r
    using mono [OF that] by (simp add: OffsetEdit_applyToOffsetRange_def)
  fix k assume k: "0 \<le> k \<and> k < int (length s) \<and> untouched k (oe_edits E)"
  show "js_get (OffsetEdit_apply E s) (OffsetEdit_applyToOffset E k) = Some (s ! nat k)"
    using applyToOffset_loop_nth [OF edit_rel_apply [OF assms], of k] k
    by (simp add: OffsetEdit_applyToOffset_def js_get_def)
  show "OffsetEdit_applyInverseToOffset E (OffsetEdit_applyToOffset E k) = k"
    using applyInverseToOffset_loop_id [OF within] k
    by (simp add: OffsetEdit_applyInverseToOffset_def OffsetEdit_applyToOffset_def)
qed

theorem OffsetEdit_applyToOffset_tracks_witness:
  "js_get (OffsetEdit_apply \<lparr>oe_edits = [SingleOffsetEdit (MkOffsetRange 0 1) [7, 8]]\<rparr> [1, 2, 3])
     (OffsetEdit_applyToOffset \<lparr>oe_edits = [SingleOffsetEdit (MkOffsetRange 0 1) [7, 8]]\<rparr> 2) = Some 3"
  using OffsetEdit_applyToOffset_tracks [of "[1, 2, 3]" "\<lparr>oe_edits = [SingleOffsetEdit (MkOffsetRange 0 1) [7, 8]]\<rparr>",
      THEN conjunct2, THEN conjunct2, rule_format, of 2]
  by (simp add: oe_ok_def untouched_def)

end
