(* ===== verification/JsStrings.thy ===== *)
theory JsStrings
  imports Prelude
begin

text \<open>
  Model of the string helpers of \<open>base/common/strings.ts\<close> that the modelled parts of the
  editor call, and of \<open>String.prototype.replaceAll\<close> as they use it.
\<close>

text \<open>\<open>commonPrefixLength\<close>: the loop compares the strings from the start and stops at the first difference.\<close>

fun commonPrefixLength :: "js_string \<Rightarrow> js_string \<Rightarrow> nat" where
  "commonPrefixLength (a # as) (b # bs) = (if a \<noteq> b then 0 else Suc (commonPrefixLength as bs))"
| "commonPrefixLength _ _ = 0"

text \<open>\<open>commonSuffixLength\<close>: the same loop, from the last index down.\<close>

function commonSuffixLength_loop :: "js_string \<Rightarrow> js_string \<Rightarrow> nat \<Rightarrow> nat" where
  "commonSuffixLength_loop a b i =
     (if i < min (length a) (length b)
      then if a ! (length a - 1 - i) \<noteq> b ! (length b - 1 - i) then i else commonSuffixLength_loop a b (Suc i)
      else min (length a) (length b))"
  by pat_completeness auto
termination
  by (relation "measure (\<lambda>(a, b, i). min (length a) (length b) - i)") auto

declare commonSuffixLength_loop.simps [simp del]

definition commonSuffixLength :: "js_string \<Rightarrow> js_string \<Rightarrow> nat" where
  "commonSuffixLength a b = commonSuffixLength_loop a b 0"

text \<open>\<open>s.replaceAll('\r\n', '\n')\<close>\<close>

fun crlf_to_lf :: "js_string \<Rightarrow> js_string" where
  "crlf_to_lf (c # d # s) = (if c = CR \<and> d = LF then LF # crlf_to_lf s else c # crlf_to_lf (d # s))"
| "crlf_to_lf s = s"

section \<open>Common prefixes and suffixes\<close>

lemma commonPrefixLength_take:
  "take (commonPrefixLength a b) a = take (commonPrefixLength a b) b \<and>
   commonPrefixLength a b \<le> length a \<and> commonPrefixLength a b \<le> length b"
  by (induction a b rule: commonPrefixLength.induct) auto

lemma commonPrefixLength_differ:
  "commonPrefixLength a b < length a \<Longrightarrow> commonPrefixLength a b < length b \<Longrightarrow>
     a ! commonPrefixLength a b \<noteq> b ! commonPrefixLength a b"
  by (induction a b rule: commonPrefixLength.induct) (auto split: if_splits)

lemma commonSuffixLength_loop_rev:
  assumes "i \<le> min (length a) (length b)"
  shows "commonSuffixLength_loop a b i = i + commonPrefixLength (drop i (rev a)) (drop i (rev b))"
  using assms
proof (induction a b i rule: commonSuffixLength_loop.induct)
  case (1 a b i)
  show ?case
  proof (cases "i < min (length a) (length b)")
    case True
    then have i: "i < length (rev a)" "i < length (rev b)" by simp_all
    have "rev a ! i = a ! (length a - 1 - i)" "rev b ! i = b ! (length b - 1 - i)"
      using i by (simp_all add: rev_nth)
    then show ?thesis
      using True 1 Cons_nth_drop_Suc [OF i(1)] Cons_nth_drop_Suc [OF i(2)]
      by (subst commonSuffixLength_loop.simps) (auto simp flip: Cons_nth_drop_Suc [OF i(1)] Cons_nth_drop_Suc [OF i(2)])
  next
    case False
    with 1(2) have "i = length a \<or> i = length b" "i = min (length a) (length b)" by linarith+
    then show ?thesis by (subst commonSuffixLength_loop.simps) auto
  qed
qed

lemma commonSuffixLength_rev: "commonSuffixLength a b = commonPrefixLength (rev a) (rev b)"
  by (simp add: commonSuffixLength_def commonSuffixLength_loop_rev)

lemma commonSuffixLength_drop:
  "drop (length a - commonSuffixLength a b) a = drop (length b - commonSuffixLength a b) b \<and>
   commonSuffixLength a b \<le> length a \<and> commonSuffixLength a b \<le> length b"
proof -
  have "rev (take (commonSuffixLength a b) (rev a)) = rev (take (commonSuffixLength a b) (rev b))"
    using commonPrefixLength_take [of "rev a" "rev b"] by (simp add: commonSuffixLength_rev)
  moreover have "commonSuffixLength a b \<le> length a" "commonSuffixLength a b \<le> length b"
    using commonPrefixLength_take [of "rev a" "rev b"] by (simp_all add: commonSuffixLength_rev)
  ultimately show ?thesis by (simp add: take_rev)
qed

end
