(* ===== verification/TextEdits.thy ===== *)
theory TextEdits
  imports PositionOffset OffsetEdits JsStrings
begin

text \<open>
  Model of \<open>editor/common/core/textEdit.ts\<close>: edits by line and column, the texts they are
  applied to, and the two implementations of such texts. An \<open>AbstractText\<close> is an object with
  two abstract members, so it is a record of these here; the contract that the members keep is
  the locale \<open>abstract_text\<close>.

  The constructor of \<open>TextEdit\<close> checks with \<open>assertFn\<close>, which reports a violation to the
  error handler of the program and does not throw: the constructed object is the same, and
  \<open>TextEdit_assertion\<close> is what is checked. The transformer that \<open>getTransformer\<close> caches is
  computed from an immutable text, so the cache has no state of its own here.
\<close>

section \<open>Texts\<close>

record AbstractText =
  at_getValueOfRange :: "Range \<Rightarrow> js_string result"
  at_length :: "TextLength result"

definition AbstractText_endPositionExclusive :: "AbstractText \<Rightarrow> Position result" where
  "AbstractText_endPositionExclusive t = emap (\<lambda>l. TextLength_addToPosition l (Position 1 1)) (at_length t)"

definition AbstractText_lineRange :: "AbstractText \<Rightarrow> LineRange result" where
  "AbstractText_lineRange t = ebind (at_length t) TextLength_toLineRange"

definition AbstractText_getValue :: "AbstractText \<Rightarrow> js_string result" where
  "AbstractText_getValue t = ebind (at_length t) (\<lambda>l. at_getValueOfRange t (TextLength_toRange l))"

definition AbstractText_getLineLength :: "AbstractText \<Rightarrow> int \<Rightarrow> int result" where
  "AbstractText_getLineLength t l =
     emap (\<lambda>s. int (length s)) (at_getValueOfRange t (Range_new l 1 l MAX_SAFE_INTEGER))"

definition AbstractText_getTransformer :: "AbstractText \<Rightarrow> PositionOffsetTransformer result" where
  "AbstractText_getTransformer t = emap PositionOffsetTransformer_new (AbstractText_getValue t)"

definition AbstractText_getLineAt :: "AbstractText \<Rightarrow> int \<Rightarrow> js_string result" where
  "AbstractText_getLineAt t l = at_getValueOfRange t (Range_new l 1 l MAX_SAFE_INTEGER)"

subsection \<open>LineBasedText and ArrayText\<close>

text \<open>The function that returns the content of a line is given to the constructor; it may throw.\<close>

fun lineBased_middle :: "(int \<Rightarrow> js_string result) \<Rightarrow> int list \<Rightarrow> js_string \<Rightarrow> js_string result" where
  "lineBased_middle getLineContent [] result = Inr result"
| "lineBased_middle getLineContent (i # is) result =
     ebind (getLineContent i) (\<lambda>c. lineBased_middle getLineContent is (result @ [LF] @ c))"

definition LineBasedText_getValueOfRange :: "(int \<Rightarrow> js_string result) \<Rightarrow> Range \<Rightarrow> js_string result" where
  "LineBasedText_getValueOfRange getLineContent r =
     (if startLineNumber r = endLineNumber r
      then emap (\<lambda>c. js_substring c (startColumn r - 1) (endColumn r - 1)) (getLineContent (startLineNumber r))
      else ebind (getLineContent (startLineNumber r)) (\<lambda>first.
           ebind (lineBased_middle getLineContent (int_upto (startLineNumber r + 1) (endLineNumber r))
                    (js_substring_from first (startColumn r - 1))) (\<lambda>result.
           emap (\<lambda>last. result @ [LF] @ js_substring last 0 (endColumn r - 1))
             (getLineContent (endLineNumber r)))))"

definition LineBasedText_getLineLength :: "(int \<Rightarrow> js_string result) \<Rightarrow> int \<Rightarrow> int result" where
  "LineBasedText_getLineLength getLineContent l = emap (\<lambda>c. int (length c)) (getLineContent l)"

definition LineBasedText_length :: "(int \<Rightarrow> js_string result) \<Rightarrow> int \<Rightarrow> TextLength result" where
  "LineBasedText_length getLineContent n =
     emap (\<lambda>lastLine. TextLength (n - 1) (int (length lastLine))) (getLineContent n)"

definition LineBasedText_new :: "(int \<Rightarrow> js_string result) \<Rightarrow> int \<Rightarrow> AbstractText result" where
  "LineBasedText_new getLineContent n =
     (if n \<ge> 1
      then Inr \<lparr>at_getValueOfRange = LineBasedText_getValueOfRange getLineContent,
                at_length = LineBasedText_length getLineContent n\<rparr>
      else Inl BugIndicatingError)"

text \<open>A missing line is \<open>undefined\<close>, and reading its \<open>substring\<close> or \<open>length\<close> throws.\<close>

definition array_line :: "js_string list \<Rightarrow> int \<Rightarrow> js_string result" where
  "array_line lines l = (case js_get lines (l - 1) of None \<Rightarrow> Inl TypeError | Some c \<Rightarrow> Inr c)"

definition ArrayText_new :: "js_string list \<Rightarrow> AbstractText result" where
  "ArrayText_new lines = LineBasedText_new (array_line lines) (int (length lines))"

subsection \<open>StringText\<close>

text \<open>
  A range with a line that does not exist has a bound \<open>NaN\<close>, which \<open>substring\<close> reads as 0.
\<close>

definition nan_to_0 :: "int option \<Rightarrow> int" where
  "nan_to_0 x = (case x of None \<Rightarrow> 0 | Some k \<Rightarrow> k)"

definition StringText_getValueOfRange :: "js_string \<Rightarrow> Range \<Rightarrow> js_string result" where
  "StringText_getValueOfRange s r =
     (let t = PositionOffsetTransformer_new s
      in emap (\<lambda>x. case x of
             Some offsetRange \<Rightarrow> OffsetRange_substring offsetRange s
           | None \<Rightarrow> js_substring s (nan_to_0 (getOffset t (Range_getStartPosition r)))
                       (nan_to_0 (getOffset t (Range_getEndPosition r))))
         (getOffsetRange t r))"

definition StringText_new :: "js_string \<Rightarrow> AbstractText" where
  "StringText_new s =
     \<lparr>at_getValueOfRange = StringText_getValueOfRange s,
      at_length = Inr (pot_textLength (PositionOffsetTransformer_new s))\<rparr>"

section \<open>Edits\<close>

definition rangeFromPositions :: "Position \<Rightarrow> Position \<Rightarrow> Range result" where
  "rangeFromPositions s e =
     (if lineNumber s = lineNumber e \<and> column s = MAX_SAFE_INTEGER then Inr (Range_fromPositions e e)
      else if \<not> Position_isBeforeOrEqual s e then Inl BugIndicatingError
      else Inr (Range_new (lineNumber s) (column s) (lineNumber e) (column e)))"

datatype SingleTextEdit = SingleTextEdit (te_range: Range) (te_text: js_string)

definition SingleTextEdit_isEmpty :: "SingleTextEdit \<Rightarrow> bool" where
  "SingleTextEdit_isEmpty e \<longleftrightarrow> Range_isEmpty (te_range e) \<and> length (te_text e) = 0"

definition SingleTextEdit_equals :: "SingleTextEdit \<Rightarrow> SingleTextEdit \<Rightarrow> bool" where
  "SingleTextEdit_equals a b \<longleftrightarrow>
     Range_equalsRange (Some (te_range a)) (Some (te_range b)) \<and> te_text a = te_text b"

record TextEdit =
  te_edits :: "SingleTextEdit list"

definition TextEdit_new :: "SingleTextEdit list \<Rightarrow> TextEdit" where
  "TextEdit_new edits = \<lparr>te_edits = edits\<rparr>"

definition TextEdit_assertion :: "SingleTextEdit list \<Rightarrow> bool" where
  "TextEdit_assertion edits = checkAdjacentItems edits
     (\<lambda>a b. Position_isBeforeOrEqual (Range_getEndPosition (te_range a)) (Range_getStartPosition (te_range b)))"

text \<open>A position that does not exist (\<open>NaN\<close>) cannot be passed on; it does not occur for an edit of the text.\<close>

definition TextEdit_fromOffsetEdit :: "OffsetEdit \<Rightarrow> AbstractText \<Rightarrow> TextEdit option result" where
  "TextEdit_fromOffsetEdit edit initialState =
     emap (\<lambda>t. map_option TextEdit_new (those (map (\<lambda>e.
            map_option (\<lambda>r. SingleTextEdit r (newText e)) (getRange t (replaceRange e))) (oe_edits edit))))
       (AbstractText_getTransformer initialState)"

definition TextEdit_single :: "Range \<Rightarrow> js_string \<Rightarrow> TextEdit" where
  "TextEdit_single originalRange text = TextEdit_new [SingleTextEdit originalRange text]"

definition TextEdit_insert :: "Position \<Rightarrow> js_string \<Rightarrow> TextEdit" where
  "TextEdit_insert p text = TextEdit_new [SingleTextEdit (Range_fromPositions p p) text]"

definition SingleTextEdit_toEdit :: "SingleTextEdit \<Rightarrow> TextEdit" where
  "SingleTextEdit_toEdit e = TextEdit_new [e]"

definition text_normalize_step :: "SingleTextEdit list \<Rightarrow> SingleTextEdit \<Rightarrow> SingleTextEdit list" where
  "text_normalize_step edits edit =
     (if length edits > 0 \<and> Position_equals (Some (Range_getEndPosition (te_range (last edits))))
           (Some (Range_getStartPosition (te_range edit)))
      then butlast edits @ [SingleTextEdit (Range_plusRange (te_range (last edits)) (te_range edit))
             (te_text (last edits) @ te_text edit)]
      else if \<not> SingleTextEdit_isEmpty edit then edits @ [edit]
      else edits)"

definition TextEdit_normalize :: "TextEdit \<Rightarrow> TextEdit" where
  "TextEdit_normalize this = TextEdit_new (foldl text_normalize_step [] (te_edits this))"

datatype PositionOrRange = APosition Position | ARange Range

fun mapPosition_loop :: "SingleTextEdit list \<Rightarrow> Position \<Rightarrow> int \<Rightarrow> int \<Rightarrow> int \<Rightarrow> PositionOrRange result" where
  "mapPosition_loop [] p lineDelta curLine columnDelta =
     Inr (APosition (Position (lineNumber p + lineDelta)
       (column p + (if lineNumber p + lineDelta = curLine then columnDelta else 0))))"
| "mapPosition_loop (edit # edits) p lineDelta curLine columnDelta =
     (let start = Range_getStartPosition (te_range edit)
      in if Position_isBeforeOrEqual p start then mapPosition_loop [] p lineDelta curLine columnDelta
         else let endp = Range_getEndPosition (te_range edit); len = TextLength_ofText (te_text edit)
         in if Position_isBefore p endp then
              let startPos = Position (lineNumber start + lineDelta)
                    (column start + (if lineNumber start + lineDelta = curLine then columnDelta else 0));
                  endPos = TextLength_addToPosition len startPos
              in emap ARange (rangeFromPositions startPos endPos)
            else
              let columnDelta0 = (if lineNumber start + lineDelta \<noteq> curLine then 0 else columnDelta);
                  lineDelta' = lineDelta + (lineCount len - (endLineNumber (te_range edit) - startLineNumber (te_range edit)));
                  columnDelta' =
                    (if lineCount len = 0 then
                       (if lineNumber endp \<noteq> lineNumber start then columnDelta0 + (columnCount len - (column endp - 1))
                        else columnDelta0 + (columnCount len - (column endp - column start)))
                     else columnCount len)
              in mapPosition_loop edits p lineDelta' (lineNumber endp + lineDelta') columnDelta')"

definition TextEdit_mapPosition :: "TextEdit \<Rightarrow> Position \<Rightarrow> PositionOrRange result" where
  "TextEdit_mapPosition this p = mapPosition_loop (te_edits this) p 0 0 0"

fun mapRange_getStart :: "PositionOrRange \<Rightarrow> Position" where
  "mapRange_getStart (APosition p) = p"
| "mapRange_getStart (ARange r) = Range_getStartPosition r"

fun mapRange_getEnd :: "PositionOrRange \<Rightarrow> Position" where
  "mapRange_getEnd (APosition p) = p"
| "mapRange_getEnd (ARange r) = Range_getEndPosition r"

definition TextEdit_mapRange :: "TextEdit \<Rightarrow> Range \<Rightarrow> Range result" where
  "TextEdit_mapRange this r =
     ebind (emap mapRange_getStart (TextEdit_mapPosition this (Range_getStartPosition r))) (\<lambda>s.
     ebind (emap mapRange_getEnd (TextEdit_mapPosition this (Range_getEndPosition r))) (\<lambda>e.
       rangeFromPositions s e))"

fun text_apply_loop :: "SingleTextEdit list \<Rightarrow> AbstractText \<Rightarrow> Position \<Rightarrow> js_string \<Rightarrow> js_string result" where
  "text_apply_loop [] text lastEditEnd result =
     ebind (AbstractText_endPositionExclusive text) (\<lambda>e.
     ebind (rangeFromPositions lastEditEnd e) (\<lambda>r.
       if \<not> Range_isEmpty r then emap (\<lambda>v. result @ v) (at_getValueOfRange text r) else Inr result))"
| "text_apply_loop (edit # edits) text lastEditEnd result =
     ebind (rangeFromPositions lastEditEnd (Range_getStartPosition (te_range edit))) (\<lambda>r.
     ebind (if \<not> Range_isEmpty r then emap (\<lambda>v. result @ v) (at_getValueOfRange text r) else Inr result) (\<lambda>result.
       text_apply_loop edits text (Range_getEndPosition (te_range edit)) (result @ te_text edit)))"

definition TextEdit_apply :: "TextEdit \<Rightarrow> AbstractText \<Rightarrow> js_string result" where
  "TextEdit_apply this text = text_apply_loop (te_edits this) text (Position 1 1) []"

definition TextEdit_applyToString :: "TextEdit \<Rightarrow> js_string \<Rightarrow> js_string result" where
  "TextEdit_applyToString this str = TextEdit_apply this (StringText_new str)"

fun newRanges_loop :: "SingleTextEdit list \<Rightarrow> int \<Rightarrow> int \<Rightarrow> int \<Rightarrow> Range list" where
  "newRanges_loop [] previousEditEndLineNumber lineOffset columnOffset = []"
| "newRanges_loop (edit # edits) previousEditEndLineNumber lineOffset columnOffset =
     (let textLength = TextLength_ofText (te_text edit);
          newRangeStart = Position_lift (Position (startLineNumber (te_range edit) + lineOffset)
            (startColumn (te_range edit) +
              (if startLineNumber (te_range edit) = previousEditEndLineNumber then columnOffset else 0)));
          newRange = TextLength_createRange textLength newRangeStart
      in newRange # newRanges_loop edits (endLineNumber (te_range edit))
           (endLineNumber newRange - endLineNumber (te_range edit))
           (endColumn newRange - endColumn (te_range edit)))"

definition TextEdit_getNewRanges :: "TextEdit \<Rightarrow> Range list" where
  "TextEdit_getNewRanges this = newRanges_loop (te_edits this) 0 0 0"

definition TextEdit_inverse :: "TextEdit \<Rightarrow> AbstractText \<Rightarrow> TextEdit result" where
  "TextEdit_inverse this doc =
     (let ranges = TextEdit_getNewRanges this
      in emap TextEdit_new (emapM (\<lambda>(e, r). emap (SingleTextEdit r) (at_getValueOfRange doc (te_range e)))
           (zip (te_edits this) ranges)))"

definition TextEdit_inverseMapPosition :: "TextEdit \<Rightarrow> Position \<Rightarrow> AbstractText \<Rightarrow> PositionOrRange result" where
  "TextEdit_inverseMapPosition this p doc =
     ebind (TextEdit_inverse this doc) (\<lambda>reversed. TextEdit_mapPosition reversed p)"

definition TextEdit_inverseMapRange :: "TextEdit \<Rightarrow> Range \<Rightarrow> AbstractText \<Rightarrow> Range result" where
  "TextEdit_inverseMapRange this r doc =
     ebind (TextEdit_inverse this doc) (\<lambda>reversed. TextEdit_mapRange reversed r)"

text \<open>The loop that \<open>toSingle\<close> and \<open>SingleTextEdit.joinEdits\<close> share: texts and the gaps between them.\<close>

fun join_texts :: "SingleTextEdit list \<Rightarrow> AbstractText \<Rightarrow> js_string \<Rightarrow> js_string result" where
  "join_texts (curEdit # nextEdit # edits) text acc =
     ebind (at_getValueOfRange text (Range_fromPositions (Range_getEndPosition (te_range curEdit))
              (Range_getStartPosition (te_range nextEdit))))
       (\<lambda>gapText. join_texts (nextEdit # edits) text (acc @ te_text curEdit @ gapText))"
| "join_texts [curEdit] text acc = Inr (acc @ te_text curEdit)"
| "join_texts [] text acc = Inr acc"

definition SingleTextEdit_joinEdits :: "SingleTextEdit list \<Rightarrow> AbstractText \<Rightarrow> SingleTextEdit result" where
  "SingleTextEdit_joinEdits edits initialValue =
     (case edits of
        [] \<Rightarrow> Inl BugIndicatingError
      | [e] \<Rightarrow> Inr e
      | _ \<Rightarrow> emap (SingleTextEdit (Range_fromPositions (Range_getStartPosition (te_range (hd edits)))
                 (Range_getEndPosition (te_range (last edits)))))
               (join_texts edits initialValue []))"

definition TextEdit_toSingle :: "TextEdit \<Rightarrow> AbstractText \<Rightarrow> SingleTextEdit result" where
  "TextEdit_toSingle this text =
     (case te_edits this of
        [] \<Rightarrow> Inl BugIndicatingError
      | [e] \<Rightarrow> Inr e
      | _ \<Rightarrow> emap (SingleTextEdit (Range_fromPositions (Range_getStartPosition (te_range (hd (te_edits this))))
                 (Range_getEndPosition (te_range (last (te_edits this))))))
               (join_texts (te_edits this) text []))"

definition SingleTextEdit_extendToCoverRange ::
    "SingleTextEdit \<Rightarrow> Range \<Rightarrow> AbstractText \<Rightarrow> SingleTextEdit result" where
  "SingleTextEdit_extendToCoverRange this r initialValue =
     (if Range_containsRange (te_range this) r then Inr this
      else let newRange = Range_plusRange (te_range this) r
      in ebind (at_getValueOfRange initialValue (Range_fromPositions (Range_getStartPosition newRange)
                  (Range_getStartPosition (te_range this)))) (\<lambda>textBefore.
         emap (\<lambda>textAfter. SingleTextEdit newRange (textBefore @ te_text this @ textAfter))
           (at_getValueOfRange initialValue (Range_fromPositions (Range_getEndPosition (te_range this))
                  (Range_getEndPosition newRange)))))"

definition SingleTextEdit_removeCommonPrefix :: "SingleTextEdit \<Rightarrow> AbstractText \<Rightarrow> SingleTextEdit result" where
  "SingleTextEdit_removeCommonPrefix this text =
     emap (\<lambda>original.
       let normalizedOriginalText = crlf_to_lf original;
           normalizedModifiedText = crlf_to_lf (te_text this);
           commonPrefixLen = commonPrefixLength normalizedOriginalText normalizedModifiedText;
           start = TextLength_addToPosition
             (TextLength_ofText (js_substring normalizedOriginalText 0 (int commonPrefixLen)))
             (Range_getStartPosition (te_range this))
       in SingleTextEdit (Range_fromPositions start (Range_getEndPosition (te_range this)))
            (js_substring_from normalizedModifiedText (int commonPrefixLen)))
     (at_getValueOfRange text (te_range this))"

definition SingleTextEdit_isEffectiveDeletion :: "SingleTextEdit \<Rightarrow> AbstractText \<Rightarrow> bool result" where
  "SingleTextEdit_isEffectiveDeletion this text =
     emap (\<lambda>existing.
       let new = crlf_to_lf (te_text this);
           old = crlf_to_lf existing;
           l = int (commonPrefixLength new old);
           new = js_substring_from new l;
           old = js_substring_from old l;
           r = int (commonSuffixLength new old);
           new = js_substring new 0 (int (length new) - r)
       in new = [])
     (at_getValueOfRange text (te_range this))"

section \<open>The contract of texts\<close>

text \<open>What is asked of every size here: columns stay below the number that marks the end of a line.\<close>

abbreviation small :: "js_string \<Rightarrow> bool" where
  "small s \<equiv> int (length s) + 1 < MAX_SAFE_INTEGER"

text \<open>The replacement of a text edit that an offset edit of the string \<open>s\<close> stands for.\<close>

definition text_edit_of :: "js_string \<Rightarrow> SingleOffsetEdit \<Rightarrow> SingleTextEdit" where
  "text_edit_of s e = SingleTextEdit (Range_fromPositions (pos_at s (e_start e)) (pos_at s (e_end e))) (newText e)"

lemma text_edit_of_fields:
  assumes "0 \<le> e_start e" "e_start e \<le> e_end e" "e_end e \<le> int (length s)"
  shows "rstart (te_range (text_edit_of s e)) = pos_at s (e_start e)"
    "rend (te_range (text_edit_of s e)) = pos_at s (e_end e)" "te_text (text_edit_of s e) = newText e"
  using pos_at_le_iff [of "e_start e" s "e_end e"] assms
  by (simp_all add: text_edit_of_def endpoint min_def max_def)

lemma rangeFromPositions_pos_at:
  assumes "small s" "0 \<le> a" "a \<le> b" "b \<le> int (length s)"
  shows "\<exists>r. rangeFromPositions (pos_at s a) (pos_at s b) = Inr r \<and> rstart r = pos_at s a \<and>
    rend r = pos_at s b \<and> (Range_isEmpty r \<longleftrightarrow> a = b)"
proof -
  have le: "pos_at s a \<le> pos_at s b" using assms pos_at_le_iff [of a s b] by simp
  have "column (pos_at s a) \<le> int (length (take (nat a) s)) + 1"
    using line_starts_tlen [of "take (nat a) s"] line_starts_bounds [of "take (nat a) s"]
    by (auto simp: pos_at_fields dest!: last_in_set)
  then have "column (pos_at s a) \<noteq> MAX_SAFE_INTEGER" using assms(1) by auto
  then have "rangeFromPositions (pos_at s a) (pos_at s b) = Inr (Range_fromPositions (pos_at s a) (pos_at s b))"
    using le by (simp add: rangeFromPositions_def Range_fromPositions_def position_order)
  with le show ?thesis
    using pos_at_eq_iff [of a s b] assms by (auto simp: Range_isEmpty_iff endpoint min_def max_def)
qed

locale abstract_text =
  fixes t :: AbstractText and s :: js_string
  assumes length_law: "at_length t = Inr (tlen s)"
    and value_law: "0 \<le> a \<Longrightarrow> a \<le> b \<Longrightarrow> b \<le> int (length s) \<Longrightarrow>
      rstart r = pos_at s a \<Longrightarrow> rend r = pos_at s b \<Longrightarrow> at_getValueOfRange t r = Inr (seg a b s)"
begin

lemma endPosition: "AbstractText_endPositionExclusive t = Inr (pos_at s (int (length s)))"
  by (simp add: AbstractText_endPositionExclusive_def length_law pos_at_end)

lemma getValue: "AbstractText_getValue t = Inr s"
proof -
  have "rstart (TextLength_toRange (tlen s)) = pos_at s 0"
    "rend (TextLength_toRange (tlen s)) = pos_at s (int (length s))"
    using tlen_ok [of s]
    by (auto simp: TextLength_toRange_def Range_new_def pos_at_end tl_defs Position_eq_iff)
  from value_law [OF _ _ _ this] show ?thesis
    by (simp add: AbstractText_getValue_def length_law)
qed

lemma getTransformer: "AbstractText_getTransformer t = Inr (PositionOffsetTransformer_new s)"
  by (simp add: AbstractText_getTransformer_def getValue)

lemma fromOffsetEdit:
  assumes "oe_ok (int (length s)) E"
  shows "TextEdit_fromOffsetEdit E t = Inr (Some (TextEdit_new (map (text_edit_of s) (oe_edits E))))"
proof -
  have "those (map (\<lambda>e. map_option (\<lambda>r. SingleTextEdit r (newText e))
      (getRange (PositionOffsetTransformer_new s) (replaceRange e))) es) = Some (map (text_edit_of s) es)"
    if "0 \<le> p" "edits_within p (int (length s)) es" for p es
    using that
  proof (induction es arbitrary: p)
    case (Cons e es)
    have "e_end e \<le> int (length s)" using Cons.prems by (auto dest: edits_within_le)
    with Cons show ?case using Cons.IH [of "e_end e"] by (simp add: getRange_pos_at text_edit_of_def)
  qed simp
  from this [of 0 "oe_edits E"] assms show ?thesis
    by (simp add: TextEdit_fromOffsetEdit_def getTransformer oe_ok_def)
qed

lemma gap_value:
  assumes "small s" "0 \<le> a" "a \<le> b" "b \<le> int (length s)"
  shows "ebind (rangeFromPositions (pos_at s a) (pos_at s b))
      (\<lambda>r. if \<not> Range_isEmpty r then emap (\<lambda>v. acc @ v) (at_getValueOfRange t r) else Inr acc) =
    Inr (acc @ seg a b s)"
  using rangeFromPositions_pos_at [OF assms] value_law [OF assms(2-4)] by auto

lemma text_apply_edited:
  "small s \<Longrightarrow> 0 \<le> p \<Longrightarrow> edits_within p (int (length s)) es \<Longrightarrow>
     text_apply_loop (map (text_edit_of s) es) t (pos_at s p) acc = Inr (acc @ edited p es s)"
proof (induction es arbitrary: p acc)
  case Nil
  then show ?case using gap_value [of p "int (length s)" acc] by (simp add: endPosition)
next
  case (Cons e es)
  have e: "p \<le> e_start e" "e_start e \<le> e_end e" "e_end e \<le> int (length s)" "0 \<le> e_end e"
    using Cons.prems by (auto dest: edits_within_le)
  obtain r where r: "rangeFromPositions (pos_at s p) (pos_at s (e_start e)) = Inr r"
    using rangeFromPositions_pos_at [of s p "e_start e"] Cons.prems e by auto
  have gap: "(if \<not> Range_isEmpty r then emap (\<lambda>v. acc @ v) (at_getValueOfRange t r) else Inr acc) =
      Inr (acc @ seg p (e_start e) s)"
    using gap_value [of p "e_start e" acc] Cons.prems e r by simp
  show ?case
    using Cons.IH [OF Cons.prems(1) e(4)] Cons.prems e text_edit_of_fields [of e s] by (simp add: r gap)
qed

lemma apply_edited:
  assumes "small s" "oe_ok (int (length s)) E"
  shows "TextEdit_apply (TextEdit_new (map (text_edit_of s) (oe_edits E))) t = Inr (OffsetEdit_apply E s)"
  using text_apply_edited [of 0 "oe_edits E" "[]"] assms
  by (simp add: TextEdit_apply_def TextEdit_new_def OffsetEdit_apply_edited oe_ok_def)

end

interpretation string_text: abstract_text "StringText_new s" s for s
proof
  show "at_length (StringText_new s) = Inr (tlen s)"
    by (simp add: StringText_new_def pot_textLength_tlen)
  show "at_getValueOfRange (StringText_new s) r = Inr (seg a b s)"
    if "0 \<le> a" "a \<le> b" "b \<le> int (length s)" "rstart r = pos_at s a" "rend r = pos_at s b" for a b r
    using that getOffsetRange_pos_at [OF that]
    by (simp add: StringText_new_def StringText_getValueOfRange_def OffsetRange_substring_def js_substring_seg)
qed

text \<open>
  C17: a text edit refines the offset edit it is made from. Converting an edit of a string by
  offsets into an edit by positions never fails, and applying the result to the string, by
  positions, never throws and gives what the edit by offsets gives. The string is shorter than
  \<open>2^53 - 2\<close>, and the edits are sorted, disjoint and within the string.
\<close>

theorem TextEdit_apply_refines:
  assumes "small s" "oe_ok (int (length s)) E"
  shows "\<exists>T. TextEdit_fromOffsetEdit E (StringText_new s) = Inr (Some T) \<and>
    TextEdit_applyToString T s = Inr (OffsetEdit_apply E s)"
  using string_text.fromOffsetEdit [OF assms(2)] string_text.apply_edited [OF assms]
  by (simp add: TextEdit_applyToString_def)

theorem TextEdit_apply_refines_witness:
  "\<exists>T. TextEdit_fromOffsetEdit \<lparr>oe_edits = [SingleOffsetEdit (MkOffsetRange 1 3) [0x78]]\<rparr>
      (StringText_new [0x61, LF, 0x62, 0x63]) = Inr (Some T) \<and>
    TextEdit_applyToString T [0x61, LF, 0x62, 0x63] = Inr [0x61, 0x78, 0x63]"
  using TextEdit_apply_refines [of "[0x61, LF, 0x62, 0x63]" "\<lparr>oe_edits = [SingleOffsetEdit (MkOffsetRange 1 3) [0x78]]\<rparr>"]
  by (auto simp: oe_ok_def MAX_SAFE_INTEGER_def OffsetEdit_apply_def js_substring_def js_substring_from_def seg_def)

section \<open>New ranges and inversion\<close>

text \<open>
  The position of an offset after a common piece of text, in two strings: the line moves by
  the same number of lines, and the column by the same number of columns if the piece has no
  line break.
\<close>

lemma pos_at_shift:
  assumes "0 \<le> p" "p \<le> q" "q \<le> int (length s)" "0 \<le> p'" "p' \<le> q'" "q' \<le> int (length t)"
    and "seg p q s = seg p' q' t"
  shows "lineNumber (pos_at t q') - lineNumber (pos_at t p') = lineNumber (pos_at s q) - lineNumber (pos_at s p)"
    "lineNumber (pos_at s p) \<le> lineNumber (pos_at s q)"
    "column (pos_at t q') = (if lineNumber (pos_at s q) = lineNumber (pos_at s p)
       then column (pos_at s q) + (column (pos_at t p') - column (pos_at s p)) else column (pos_at s q))"
proof -
  note s = pos_at_step [OF assms(1-3)] and t = pos_at_step [OF assms(4-6), folded assms(7)]
  show "lineNumber (pos_at t q') - lineNumber (pos_at t p') = lineNumber (pos_at s q) - lineNumber (pos_at s p)"
    "column (pos_at t q') = (if lineNumber (pos_at s q) = lineNumber (pos_at s p)
       then column (pos_at s q) + (column (pos_at t p') - column (pos_at s p)) else column (pos_at s q))"
    unfolding s t by (simp_all add: addToPosition_fields)
  show "lineNumber (pos_at s p) \<le> lineNumber (pos_at s q)"
    unfolding s using tlen_ok [of "seg p q s"] by (simp add: addToPosition_fields tl_ok_def)
qed

abbreviation range_at :: "js_string \<Rightarrow> OffsetRange \<Rightarrow> Range" where
  "range_at t r \<equiv> Range_fromPositions (pos_at t (or_start r)) (pos_at t (or_endExclusive r))"

lemma newRanges_loop_spec:
  assumes "edit_rel s t p off es" "list_all (\<lambda>e. no_pairs (newText e)) es"
    and "lineOffset = lineNumber (pos_at t (p + off)) - lineNumber (pos_at s p)"
    and "prev = lineNumber (pos_at s p) \<and> columnOffset = column (pos_at t (p + off)) - column (pos_at s p) \<or>
      prev < 1 \<and> column (pos_at t (p + off)) = column (pos_at s p)"
  shows "\<exists>rs. newTextRanges_loop es off = Inr rs \<and>
    newRanges_loop (map (text_edit_of s) es) prev lineOffset columnOffset = map (range_at t) rs"
  using assms
proof (induction es arbitrary: p off prev lineOffset columnOffset)
  case (Cons e es)
  define x where "x = e_start e + off"
  define off' where "off' = off + (e_new e - OffsetRange_length (replaceRange e))"
  define y where "y = e_end e + off'"
  note step = edit_rel_step [OF Cons.prems(1), folded x_def off'_def, folded y_def]
  have p: "0 \<le> p" "0 \<le> p + off" using Cons.prems(1) by (simp_all add: edit_rel_def)
  have xy: "x \<le> y" using step(6) by linarith
  have es: "e_start e \<le> int (length s)" "x \<le> int (length t)" "0 \<le> e_start e" using step p xy by simp_all
  note shift = pos_at_shift [OF p(1) step(8) es(1) p(2) step(5) es(2) step(2) [symmetric]]
  note fields = text_edit_of_fields [OF es(3) step(9,10)]
  have pos: "1 \<le> lineNumber (pos_at s p)"
    using tlen_ok [of "take (nat p) s"] by (simp add: pos_at_fields tl_ok_def)
  have start: "Position (startLineNumber (te_range (text_edit_of s e)) + lineOffset)
      (startColumn (te_range (text_edit_of s e)) +
        (if startLineNumber (te_range (text_edit_of s e)) = prev then columnOffset else 0)) = pos_at t x"
    using shift Cons.prems(3,4) pos fields(1) endpoint_fields(1,2) [of "te_range (text_edit_of s e)"]
    by (auto simp: Position_eq_iff)
  have len: "TextLength_ofText (te_text (text_edit_of s e)) = tlen (newText e)"
    using Cons.prems(2) fields(3) by (simp add: ofText_tlen)
  define r where "r = TextLength_createRange (tlen (newText e)) (pos_at t x)"
  have yx: "pos_at t y = TextLength_addToPosition (tlen (newText e)) (pos_at t x)"
    using pos_at_step [OF step(4) xy step(7)] step(3) by simp
  have r: "rstart r = pos_at t x" "rend r = pos_at t y"
    unfolding r_def yx by (simp_all add: TextLength_createRange_endpoints)
  have "r = range_at t (MkOffsetRange x y)"
    using r pos_at_le_iff [of x t y] step(4,7) es(2) xy by (simp add: Range_eq_iff endpoint min_def max_def)
  moreover have ends: "endLineNumber r = lineNumber (pos_at t y)" "endColumn r = column (pos_at t y)"
    "endLineNumber (te_range (text_edit_of s e)) = lineNumber (pos_at s (e_end e))"
    "endColumn (te_range (text_edit_of s e)) = column (pos_at s (e_end e))"
    using r(2) fields(2) by (metis endpoint_fields(3), metis endpoint_fields(4),
        metis endpoint_fields(3), metis endpoint_fields(4))
  moreover obtain rs where "newTextRanges_loop es off' = Inr rs"
    "newRanges_loop (map (text_edit_of s) es) (lineNumber (pos_at s (e_end e)))
      (lineNumber (pos_at t y) - lineNumber (pos_at s (e_end e)))
      (column (pos_at t y) - column (pos_at s (e_end e))) = map (range_at t) rs"
    using Cons.IH [OF step(1) _ refl disjI1 [OF conjI [OF refl refl]]] Cons.prems(2) unfolding y_def by auto
  moreover have "OffsetRange_ofStartAndLength x (e_new e) = Inr (MkOffsetRange x y)"
    using step(6) xy by (simp add: OffsetRange_ofStartAndLength_def)
  ultimately show ?case
    using start by (simp add: len Position_lift_def r_def [symmetric] x_def [symmetric] off'_def [symmetric] Let_def)
qed simp

lemma getNewRanges_spec:
  assumes "oe_ok (int (length s)) E" "list_all (\<lambda>e. no_pairs (newText e)) (oe_edits E)"
  shows "\<exists>rs. OffsetEdit_getNewTextRanges E = Inr rs \<and>
    TextEdit_getNewRanges (TextEdit_new (map (text_edit_of s) (oe_edits E))) = map (range_at (OffsetEdit_apply E s)) rs"
  using newRanges_loop_spec [OF edit_rel_apply [OF assms(1)] assms(2), of 0 0 0]
  by (simp add: OffsetEdit_getNewTextRanges_def TextEdit_getNewRanges_def TextEdit_new_def)

context abstract_text
begin

lemma inverse_edited:
  assumes ok: "oe_ok (int (length s)) E" and np: "list_all (\<lambda>e. no_pairs (newText e)) (oe_edits E)"
    and I: "OffsetEdit_inverse E s = Inr I"
  shows "TextEdit_inverse (TextEdit_new (map (text_edit_of s) (oe_edits E))) t =
    Inr (TextEdit_new (map (text_edit_of (OffsetEdit_apply E s)) (oe_edits I)))"
proof -
  define u where "u = OffsetEdit_apply E s"
  obtain "is" where loop: "inverse_loop (oe_edits E) s 0 = Inr is"
    "newTextRanges_loop (oe_edits E) 0 = Inr (map replaceRange is)" "edits_within 0 (int (length u)) is"
    using inverse_loop_spec [OF edit_rel_apply [OF ok]] by (auto simp: u_def)
  then have I_eq: "oe_edits I = is"
    using I OffsetEdit_new_Inr [OF loop(3)] by (auto simp: OffsetEdit_inverse_def)
  have ranges: "TextEdit_getNewRanges (TextEdit_new (map (text_edit_of s) (oe_edits E))) =
      map (range_at u) (map replaceRange is)"
    using getNewRanges_spec [OF ok np] loop(2) by (simp add: OffsetEdit_getNewTextRanges_def u_def)
  have "emapM (\<lambda>(e, r). emap (SingleTextEdit r) (at_getValueOfRange t (te_range e)))
      (zip (map (text_edit_of s) es) (map (range_at u) (map replaceRange js))) = Inr (map (text_edit_of u) js)"
    if "0 \<le> p" "edits_within p (int (length s)) es" "inverse_loop es s off = Inr js" for es js p off
    using that
  proof (induction es arbitrary: p off js)
    case (Cons e es)
    then obtain r ks where js: "js = SingleOffsetEdit r (js_substring s (e_start e) (e_end e)) # ks"
      "inverse_loop es s (off + (e_new e - OffsetRange_length (replaceRange e))) = Inr ks"
      by (auto simp: result_iffs)
    have e: "0 \<le> e_start e" "e_start e \<le> e_end e" "e_end e \<le> int (length s)"
      using Cons.prems by (auto dest: edits_within_le)
    have "at_getValueOfRange t (te_range (text_edit_of s e)) = Inr (js_substring s (e_start e) (e_end e))"
      using value_law [OF e] text_edit_of_fields(1,2) [OF e] e by (simp add: js_substring_seg)
    with Cons.IH [OF _ _ js(2), of "e_end e"] Cons.prems e js(1) show ?case
      by (simp add: text_edit_of_def [of u])
  qed simp
  from this [OF _ _ loop(1), of 0] ok show ?thesis
    by (simp add: TextEdit_inverse_def ranges I_eq u_def [symmetric] oe_ok_def)
      (simp add: TextEdit_new_def)
qed

end

text \<open>
  C19: the inverse of a text edit reverts it. For an edit of a string whose new texts have no
  surrogate pairs, \<open>inverse\<close> never throws, and applying its result to the edited string gives
  the original string; the ranges of the result are the places of the new texts.
\<close>

theorem TextEdit_inverse_apply:
  assumes "small s" "small (OffsetEdit_apply E s)" "oe_ok (int (length s)) E"
    and "list_all (\<lambda>e. no_pairs (newText e)) (oe_edits E)"
    and "TextEdit_fromOffsetEdit E (StringText_new s) = Inr (Some T)"
  shows "\<exists>I u. TextEdit_inverse T (StringText_new s) = Inr I \<and> TextEdit_applyToString T s = Inr u \<and>
    TextEdit_applyToString I u = Inr s \<and>
    map (at_getValueOfRange (StringText_new u)) (TextEdit_getNewRanges T) = map (Inr \<circ> te_text) (te_edits T)"
proof -
  let ?u = "OffsetEdit_apply E s"
  have T: "T = TextEdit_new (map (text_edit_of s) (oe_edits E))"
    using assms(5) string_text.fromOffsetEdit [OF assms(3)] by simp
  obtain "is" where loop: "inverse_loop (oe_edits E) s 0 = Inr is"
    "newTextRanges_loop (oe_edits E) 0 = Inr (map replaceRange is)" "edits_within 0 (int (length ?u)) is"
    "edited 0 is ?u = s" "map (\<lambda>r. OffsetRange_substring r ?u) (map replaceRange is) = map newText (oe_edits E)"
    using inverse_loop_spec [OF edit_rel_apply [OF assms(3)]] by auto
  define I where "I = \<lparr>oe_edits = is\<rparr>"
  have I: "OffsetEdit_inverse E s = Inr I" "oe_ok (int (length ?u)) I" "OffsetEdit_apply I ?u = s"
    using loop OffsetEdit_new_Inr [OF loop(3)]
    by (simp_all add: OffsetEdit_inverse_def I_def oe_ok_def OffsetEdit_apply_edited)
  have "at_getValueOfRange (StringText_new ?u) (range_at ?u (replaceRange i)) =
      Inr (OffsetRange_substring (replaceRange i) ?u)" if "i \<in> set is" for i
  proof -
    have i: "0 \<le> e_start i" "e_start i \<le> e_end i" "e_end i \<le> int (length ?u)"
      using edits_within_member [OF loop(3) that] by simp_all
    with string_text.value_law [OF i] pos_at_le_iff [of "e_start i" ?u "e_end i"] show ?thesis
      by (simp add: endpoint min_def max_def OffsetRange_substring_def js_substring_seg)
  qed
  then have "map (at_getValueOfRange (StringText_new ?u)) (map (range_at ?u) (map replaceRange is)) =
      map Inr (map newText (oe_edits E))"
    unfolding loop(5) [symmetric] by simp
  moreover have "TextEdit_getNewRanges T = map (range_at ?u) (map replaceRange is)"
    using getNewRanges_spec [OF assms(3,4)] loop(2) by (simp add: OffsetEdit_getNewTextRanges_def T)
  moreover have "te_edits T = map (text_edit_of s) (oe_edits E)" by (simp add: T TextEdit_new_def)
  ultimately show ?thesis
    using string_text.inverse_edited [OF assms(3,4) I(1)] string_text.apply_edited [OF assms(1,3)]
      string_text.apply_edited [OF assms(2) I(2)] I(3)
    by (simp add: T TextEdit_applyToString_def text_edit_of_def)
qed

theorem TextEdit_inverse_apply_witness:
  "\<exists>I u. TextEdit_inverse (TextEdit_new [text_edit_of [0x61, LF, 0x62, 0x63] (SingleOffsetEdit (MkOffsetRange 1 3) [0x78])])
      (StringText_new [0x61, LF, 0x62, 0x63]) = Inr I \<and> TextEdit_applyToString I u = Inr [0x61, LF, 0x62, 0x63]"
proof -
  let ?s = "[0x61, LF, 0x62, 0x63]" and ?E = "\<lparr>oe_edits = [SingleOffsetEdit (MkOffsetRange 1 3) [0x78]]\<rparr>"
  have ok: "oe_ok (int (length ?s)) ?E" by (simp add: oe_ok_def)
  have "TextEdit_fromOffsetEdit ?E (StringText_new ?s) =
      Inr (Some (TextEdit_new [text_edit_of ?s (SingleOffsetEdit (MkOffsetRange 1 3) [0x78])]))"
    using string_text.fromOffsetEdit [OF ok] by simp
  from TextEdit_inverse_apply [OF _ _ ok _ this] show ?thesis
    by (auto simp: MAX_SAFE_INTEGER_def OffsetEdit_apply_def js_substring_def js_substring_from_def seg_def)
qed

section \<open>Joining a text edit into one replacement\<close>

text \<open>The one replacement that spans a list of replacements, by offsets.\<close>

definition span_edit :: "js_string \<Rightarrow> SingleOffsetEdit list \<Rightarrow> SingleOffsetEdit" where
  "span_edit s es = SingleOffsetEdit (MkOffsetRange (e_start (hd es)) (e_end (last es)))
     (newText (hd es) @ concat (map2 (\<lambda>a b. seg (e_end a) (e_start b) s @ newText b) (butlast es) (tl es)))"

lemma edited_span:
  assumes "0 \<le> p" "edits_within p (int (length s)) es" "es \<noteq> []"
  shows "edited p es s = edited p [span_edit s es] s \<and> edits_within p (int (length s)) [span_edit s es]"
  using assms
proof (induction es arbitrary: p)
  case (Cons e es)
  show ?case
  proof (cases es)
    case Nil
    with Cons show ?thesis by (simp add: span_edit_def)
  next
    case (Cons f fs)
    have e: "p \<le> e_start e" "e_start e \<le> e_end e" "0 \<le> e_end e" using Cons.prems by auto
    have IH: "edited (e_end e) (f # fs) s = edited (e_end e) [span_edit s (f # fs)] s"
      "edits_within (e_end e) (int (length s)) [span_edit s (f # fs)]"
      using Cons.IH [OF e(3)] Cons.prems Cons by auto
    show ?thesis
      using IH e unfolding Cons by (simp add: span_edit_def)
  qed
qed simp

context abstract_text
begin

lemma join_texts_span:
  assumes "0 \<le> p" "edits_within p (int (length s)) es" "es \<noteq> []"
  shows "join_texts (map (text_edit_of s) es) t acc = Inr (acc @ newText (span_edit s es))"
  using assms
proof (induction es arbitrary: p acc)
  case (Cons e es)
  show ?case
  proof (cases es)
    case Nil
    then show ?thesis by (simp add: span_edit_def text_edit_of_def)
  next
    case (Cons f fs)
    have e: "0 \<le> e_start e" "e_start e \<le> e_end e" "0 \<le> e_end e" and f: "e_end e \<le> e_start f"
      "e_start f \<le> e_end f" "e_end f \<le> int (length s)"
      using Cons.prems Cons by (auto dest: edits_within_le)
    have "at_getValueOfRange t (Range_fromPositions (rend (te_range (text_edit_of s e)))
        (rstart (te_range (text_edit_of s f)))) = Inr (seg (e_end e) (e_start f) s)"
      using value_law [of "e_end e" "e_start f"] text_edit_of_fields [of e s] text_edit_of_fields [of f s]
        pos_at_le_iff [of "e_end e" s "e_start f"] e f
      by (simp add: endpoint min_def max_def)
    with Cons.IH [OF e(3)] Cons.prems Cons show ?thesis
      by (simp add: span_edit_def text_edit_of_def)
  qed
qed simp

lemma toSingle_span:
  assumes "oe_ok (int (length s)) E" "oe_edits E \<noteq> []"
  shows "TextEdit_toSingle (TextEdit_new (map (text_edit_of s) (oe_edits E))) t =
      Inr (text_edit_of s (span_edit s (oe_edits E)))"
    and "SingleTextEdit_joinEdits (map (text_edit_of s) (oe_edits E)) t =
      Inr (text_edit_of s (span_edit s (oe_edits E)))"
proof -
  obtain e es where E: "oe_edits E = e # es" using assms(2) by (cases "oe_edits E") auto
  have within: "edits_within 0 (int (length s)) (e # es)" using assms(1) by (simp add: oe_ok_def E)
  have e: "0 \<le> e_start e" "e_start e \<le> e_end e" "e_end e \<le> int (length s)"
    using edits_within_member [OF within, of e] by simp_all
  have l: "0 \<le> e_start (last (e # es))" "e_start (last (e # es)) \<le> e_end (last (e # es))"
    "e_end (last (e # es)) \<le> int (length s)"
    using edits_within_member [OF within, of "last (e # es)"] by simp_all
  have "last (map (text_edit_of s) (e # es)) = text_edit_of s (last (e # es))" by (rule last_map) simp
  then have "Range_fromPositions (rstart (te_range (text_edit_of s e)))
      (rend (te_range (last (map (text_edit_of s) (e # es))))) = te_range (text_edit_of s (span_edit s (e # es)))"
    using text_edit_of_fields(1) [OF e] text_edit_of_fields(2) [OF l]
    by (simp only: span_edit_def list.sel) (simp add: text_edit_of_def)
  moreover have "te_text (text_edit_of s (span_edit s (e # es))) = newText (span_edit s (e # es))"
    by (simp add: text_edit_of_def)
  moreover have "text_edit_of s (span_edit s [e]) = text_edit_of s e"
    by (simp add: span_edit_def text_edit_of_def)
  ultimately show "TextEdit_toSingle (TextEdit_new (map (text_edit_of s) (oe_edits E))) t =
      Inr (text_edit_of s (span_edit s (oe_edits E)))"
    "SingleTextEdit_joinEdits (map (text_edit_of s) (oe_edits E)) t = Inr (text_edit_of s (span_edit s (oe_edits E)))"
    using join_texts_span [OF _ within, of "[]"]
    by (cases es; simp add: TextEdit_toSingle_def SingleTextEdit_joinEdits_def TextEdit_new_def E
        SingleTextEdit.expand; fail)+
qed

end

text \<open>
  Joining the replacements of a text edit into one. \<open>toSingle\<close> and
  \<open>SingleTextEdit.joinEdits\<close> throw on an edit without replacements; otherwise they return one
  replacement, and applying it gives what applying the edit gives.
\<close>

theorem TextEdit_toSingle_apply:
  assumes "small s" "oe_ok (int (length s)) E" "TextEdit_fromOffsetEdit E (StringText_new s) = Inr (Some T)"
  shows "if te_edits T = []
    then TextEdit_toSingle T (StringText_new s) = Inl BugIndicatingError
    else \<exists>e. TextEdit_toSingle T (StringText_new s) = Inr e \<and>
      SingleTextEdit_joinEdits (te_edits T) (StringText_new s) = Inr e \<and>
      TextEdit_applyToString (SingleTextEdit_toEdit e) s = TextEdit_applyToString T s"
proof -
  have T: "T = TextEdit_new (map (text_edit_of s) (oe_edits E))" "te_edits T = map (text_edit_of s) (oe_edits E)"
    using assms(3) string_text.fromOffsetEdit [OF assms(2)] by (auto simp: TextEdit_new_def)
  show ?thesis
  proof (cases "oe_edits E = []")
    case True
    then show ?thesis by (simp add: T TextEdit_toSingle_def TextEdit_new_def)
  next
    case False
    define S where "S = \<lparr>oe_edits = [span_edit s (oe_edits E)]\<rparr>"
    have S: "oe_ok (int (length s)) S" "OffsetEdit_apply S s = OffsetEdit_apply E s"
      using edited_span [of 0 s "oe_edits E"] assms(2) False by (auto simp: S_def oe_ok_def OffsetEdit_apply_edited)
    have "TextEdit_applyToString (SingleTextEdit_toEdit (text_edit_of s (span_edit s (oe_edits E)))) s =
        TextEdit_applyToString T s"
      using string_text.apply_edited [OF assms(1) S(1)] string_text.apply_edited [OF assms(1,2)] S(2)
      by (simp add: T TextEdit_applyToString_def SingleTextEdit_toEdit_def S_def)
    with string_text.toSingle_span [OF assms(2) False] False show ?thesis by (simp add: T(2)) (simp add: T(1))
  qed
qed

theorem TextEdit_toSingle_apply_witness:
  "\<exists>e. TextEdit_toSingle (TextEdit_new (map (text_edit_of [0x61, LF, 0x62])
        [SingleOffsetEdit (MkOffsetRange 0 1) [], SingleOffsetEdit (MkOffsetRange 2 3) [0x78]]))
      (StringText_new [0x61, LF, 0x62]) = Inr e \<and>
     TextEdit_applyToString (SingleTextEdit_toEdit e) [0x61, LF, 0x62] = Inr [LF, 0x78]"
proof -
  let ?s = "[0x61, LF, 0x62]"
    and ?E = "\<lparr>oe_edits = [SingleOffsetEdit (MkOffsetRange 0 1) [], SingleOffsetEdit (MkOffsetRange 2 3) [0x78]]\<rparr>"
  have ok: "small ?s" "oe_ok (int (length ?s)) ?E" by (simp_all add: oe_ok_def MAX_SAFE_INTEGER_def)
  from TextEdit_toSingle_apply [OF ok string_text.fromOffsetEdit [OF ok(2)]] string_text.apply_edited [OF ok]
  show ?thesis
    by (auto simp: TextEdit_new_def TextEdit_applyToString_def OffsetEdit_apply_def js_substring_def
        js_substring_from_def seg_def)
qed

section \<open>Normalizing a text edit\<close>

text \<open>The same step on replacements by offsets.\<close>

definition offset_normalize_step :: "SingleOffsetEdit list \<Rightarrow> SingleOffsetEdit \<Rightarrow> SingleOffsetEdit list" where
  "offset_normalize_step es e =
     (if es \<noteq> [] \<and> e_end (last es) = e_start e
      then butlast es @ [SingleOffsetEdit (MkOffsetRange (e_start (last es)) (e_end e)) (newText (last es) @ newText e)]
      else if \<not> SingleOffsetEdit_isEmpty e then es @ [e] else es)"

lemma offset_normalize_step_edited:
  assumes "0 \<le> p" "edits_within p (int (length s)) (es @ e # rest)"
  shows "edits_within p (int (length s)) (offset_normalize_step es e @ rest) \<and>
    edited p (offset_normalize_step es e @ rest) s = edited p (es @ e # rest) s"
proof (cases "es \<noteq> [] \<and> e_end (last es) = e_start e")
  case True
  then have "es = butlast es @ [last es]" by simp
  then have "edits_within p (int (length s)) (butlast es @ last es # e # rest)" using assms(2)
    by (metis append.assoc append_Cons append_Nil)
  from edits_join_touching [OF _ this] True show ?thesis
    by (simp add: offset_normalize_step_def) (metis append.assoc append_Cons append_Nil append_butlast_last_id)
next
  case False
  with edits_skip_empty [of e p s es rest] assms show ?thesis
    by (auto simp: offset_normalize_step_def SingleOffsetEdit_isEmpty_def)
qed

lemma text_normalize_step_map:
  assumes "0 \<le> p" "edits_within p (int (length s)) (es @ [e])"
  shows "text_normalize_step (map (text_edit_of s) es) (text_edit_of s e) =
    map (text_edit_of s) (offset_normalize_step es e)"
proof -
  have e: "0 \<le> e_start e" "e_start e \<le> e_end e" "e_end e \<le> int (length s)"
    using edits_within_member [OF assms(2), of e] assms(1) by simp_all
  note fe = text_edit_of_fields [OF e]
  have empty: "SingleTextEdit_isEmpty (text_edit_of s e) \<longleftrightarrow> SingleOffsetEdit_isEmpty e"
    using e pos_at_eq_iff [of "e_start e" s "e_end e"] fe
    by (auto simp: SingleTextEdit_isEmpty_def SingleOffsetEdit_isEmpty_def Range_isEmpty_iff OffsetRange_length_def)
  show ?thesis
  proof (cases "es = []")
    case True
    with empty show ?thesis by (simp add: text_normalize_step_def offset_normalize_step_def)
  next
    case False
    define l where "l = last es"
    have l: "0 \<le> e_start l" "e_start l \<le> e_end l" "e_end l \<le> int (length s)"
      using edits_within_member [OF assms(2), of l] assms(1) False by (simp_all add: l_def)
    note fl = text_edit_of_fields [OF l]
    have last: "last (map (text_edit_of s) es) = text_edit_of s l" using False by (simp add: last_map l_def)
    have touch: "Position_equals (Some (rend (te_range (text_edit_of s l)))) (Some (rstart (te_range (text_edit_of s e))))
        \<longleftrightarrow> e_end l = e_start e"
      using pos_at_eq_iff [of "e_end l" s "e_start e"] l e unfolding fl fe by (simp add: Position_eq_iff)
    have "text_edit_of s (SingleOffsetEdit (MkOffsetRange (e_start l) (e_end e)) (newText l @ newText e)) =
        SingleTextEdit (Range_plusRange (te_range (text_edit_of s l)) (te_range (text_edit_of s e)))
          (te_text (text_edit_of s l) @ te_text (text_edit_of s e))" if "e_end l = e_start e"
    proof -
      have "pos_at s (e_start l) \<le> pos_at s (e_start e)" "pos_at s (e_end l) \<le> pos_at s (e_end e)"
        "pos_at s (e_start l) \<le> pos_at s (e_end e)"
        using l e that pos_at_le_iff [of "e_start l" s "e_start e"] pos_at_le_iff [of "e_end l" s "e_end e"]
          pos_at_le_iff [of "e_start l" s "e_end e"] by simp_all
      moreover have "range_ok (te_range (text_edit_of s l))" "range_ok (te_range (text_edit_of s e))"
        by (simp_all add: text_edit_of_def)
      ultimately show ?thesis
        unfolding fl(3) fe(3)
        by (simp add: text_edit_of_def [of s "SingleOffsetEdit _ _"] Range_eq_iff Range_plusRange_endpoints fl fe
            Range_fromPositions_endpoints min_def max_def)
    qed
    then show ?thesis
      using False touch empty
      by (simp add: text_normalize_step_def offset_normalize_step_def last l_def [symmetric] map_butlast)
  qed
qed

text \<open>
  \<open>normalize\<close> of a text edit joins touching replacements and drops empty ones; applying
  the normalized edit gives what applying the edit gives.
\<close>

theorem TextEdit_normalize_apply:
  assumes "small s" "oe_ok (int (length s)) E" "TextEdit_fromOffsetEdit E (StringText_new s) = Inr (Some T)"
  shows "TextEdit_applyToString (TextEdit_normalize T) s = TextEdit_applyToString T s"
proof -
  have T: "T = TextEdit_new (map (text_edit_of s) (oe_edits E))"
    using assms(3) string_text.fromOffsetEdit [OF assms(2)] by simp
  have "foldl text_normalize_step (map (text_edit_of s) acc) (map (text_edit_of s) es) =
      map (text_edit_of s) (foldl offset_normalize_step acc es) \<and>
      edits_within 0 (int (length s)) (foldl offset_normalize_step acc es) \<and>
      edited 0 (foldl offset_normalize_step acc es) s = edited 0 (acc @ es) s"
    if "edits_within 0 (int (length s)) (acc @ es)" for acc es
    using that
  proof (induction es arbitrary: acc)
    case (Cons e es)
    then have "edits_within 0 (int (length s)) (acc @ [e])"
      by (auto simp: edits_within_append dest: edits_within_le)
    from text_normalize_step_map [OF _ this] offset_normalize_step_edited [OF _ Cons.prems] Cons.IH show ?case by simp
  qed simp
  from this [of "[]" "oe_edits E"] assms(2) have
    N: "te_edits (TextEdit_normalize T) = map (text_edit_of s) (foldl offset_normalize_step [] (oe_edits E))"
    "oe_ok (int (length s)) \<lparr>oe_edits = foldl offset_normalize_step [] (oe_edits E)\<rparr>"
    "edited 0 (foldl offset_normalize_step [] (oe_edits E)) s = edited 0 (oe_edits E) s"
    by (simp_all add: oe_ok_def TextEdit_normalize_def T TextEdit_new_def)
  from N(1) have "TextEdit_normalize T = TextEdit_new (map (text_edit_of s) (foldl offset_normalize_step [] (oe_edits E)))"
    by (simp add: TextEdit_normalize_def TextEdit_new_def)
  with string_text.apply_edited [OF assms(1) N(2)] string_text.apply_edited [OF assms(1,2)] N(2,3) assms(2) show ?thesis
    by (simp add: TextEdit_applyToString_def T OffsetEdit_apply_edited)
qed

theorem TextEdit_normalize_apply_witness:
  "TextEdit_applyToString (TextEdit_normalize (TextEdit_new (map (text_edit_of [0x61, LF, 0x62])
        [SingleOffsetEdit (MkOffsetRange 0 1) [], SingleOffsetEdit (MkOffsetRange 1 2) [0x78]]))) [0x61, LF, 0x62] =
     Inr [0x78, 0x62]"
proof -
  let ?s = "[0x61, LF, 0x62]"
    and ?E = "\<lparr>oe_edits = [SingleOffsetEdit (MkOffsetRange 0 1) [], SingleOffsetEdit (MkOffsetRange 1 2) [0x78]]\<rparr>"
  have ok: "small ?s" "oe_ok (int (length ?s)) ?E" by (simp_all add: oe_ok_def MAX_SAFE_INTEGER_def)
  from TextEdit_normalize_apply [OF ok string_text.fromOffsetEdit [OF ok(2)]] string_text.apply_edited [OF ok]
  show ?thesis
    by (simp add: TextEdit_applyToString_def OffsetEdit_apply_def js_substring_def
        js_substring_from_def seg_def)
qed

section \<open>Texts given by lines\<close>

text \<open>The lines of a string, and the string of some lines.\<close>

fun lf_lines :: "js_string \<Rightarrow> js_string list" where
  "lf_lines [] = [[]]"
| "lf_lines (c # s) =
     (if c = LF then [] # lf_lines s else (c # hd (lf_lines s)) # tl (lf_lines s))"

fun lf_unlines :: "js_string list \<Rightarrow> js_string" where
  "lf_unlines [] = []"
| "lf_unlines [l] = l"
| "lf_unlines (l # m # ls) = l @ [LF] @ lf_unlines (m # ls)"

lemma lf_lines_nonempty [simp]: "lf_lines s \<noteq> []"
  by (cases s) auto

lemma lf_unlines_Cons: "ls \<noteq> [] \<Longrightarrow> lf_unlines (l # ls) = l @ [LF] @ lf_unlines ls"
  by (cases ls) auto

lemma lf_unlines_hd: "ls \<noteq> [] \<Longrightarrow> lf_unlines ((c # hd ls) # tl ls) = c # lf_unlines ls"
  by (cases ls rule: lf_unlines.cases) auto

lemma lf_unlines_lines [simp]: "lf_unlines (lf_lines s) = s"
  by (induction s) (auto simp: lf_unlines_Cons lf_unlines_hd)

lemma lf_lines_append:
  "lf_lines (s @ t) = butlast (lf_lines s) @ [last (lf_lines s) @ hd (lf_lines t)] @ tl (lf_lines t)"
proof (induction s)
  case (Cons c s)
  show ?case
  proof (cases "butlast (lf_lines s)")
    case Nil
    then have "lf_lines s = [last (lf_lines s)]" by (metis append_Nil append_butlast_last_id lf_lines_nonempty)
    then obtain l where "lf_lines s = [l]" by blast
    with Cons show ?thesis by simp
  next
    case (Cons l ls)
    then have "lf_lines s = l # ls @ [last (lf_lines s)]"
      by (metis append_Cons append_butlast_last_id lf_lines_nonempty)
    then obtain z where "lf_lines s = l # ls @ [z]" by blast
    with \<open>lf_lines (s @ t) = _\<close> show ?thesis by (simp add: butlast_append)
  qed
qed simp

lemma lf_lines_tlen:
  "int (length (lf_lines s)) = lineCount (tlen s) + 1" "int (length (last (lf_lines s))) = columnCount (tlen s)"
proof (induction s rule: rev_induct)
  case (snoc c s)
  obtain n where "length (lf_lines s) = Suc n" by (metis length_0_conv lf_lines_nonempty not0_implies_Suc)
  with snoc show "int (length (lf_lines (s @ [c]))) = lineCount (tlen (s @ [c])) + 1"
    "int (length (last (lf_lines (s @ [c])))) = columnCount (tlen (s @ [c]))"
    by (auto simp: lf_lines_append tlen_snoc tlen_step_def)
qed (simp_all add: TextLength_zero_def)

lemma lf_lines_pos_at:
  assumes "0 \<le> k" "k \<le> int (length s)"
  shows "lineNumber (pos_at s k) = int (length (lf_lines (take (nat k) s)))"
    "column (pos_at s k) = int (length (last (lf_lines (take (nat k) s)))) + 1"
  by (simp_all add: pos_at_fields lf_lines_tlen)

lemma lineBased_middle_map:
  "(\<And>i. i \<in> set is \<Longrightarrow> f i = Inr (g i)) \<Longrightarrow>
     lineBased_middle f is acc = Inr (acc @ concat (map (\<lambda>m. LF # m) (map g is)))"
  by (induction "is" arbitrary: acc) auto

lemma lf_unlines_middle: "lf_unlines (f # mid @ [z]) = f @ concat (map (\<lambda>m. LF # m) mid) @ LF # z"
  by (induction mid arbitrary: f) auto

lemma array_line_nth: "i < length ls \<Longrightarrow> array_line ls (int i + 1) = Inr (ls ! i)"
  by (simp add: array_line_def)

lemma LineBased_value:
  assumes r: "startLineNumber r = int (length LA) + 1" "startColumn r = int (length l) + 1"
    and "ls = LA @ [l @ f] @ mid @ [z @ g] @ LC"
    and e: "endLineNumber r = int (length LA) + int (length mid) + 2" "endColumn r = int (length z) + 1"
  shows "LineBasedText_getValueOfRange (array_line ls) r = Inr (lf_unlines (f # mid @ [z]))"
proof -
  let ?n = "length LA"
  have first: "array_line ls (startLineNumber r) = Inr (l @ f)"
    using array_line_nth [of ?n ls] by (simp add: r assms(3))
  have last: "array_line ls (endLineNumber r) = Inr (z @ g)"
    using array_line_nth [of "?n + length mid + 1" ls] by (simp add: e assms(3) nth_append algebra_simps)
  let ?is = "int_upto (startLineNumber r + 1) (endLineNumber r)"
  have at: "array_line ls (int ?n + 2 + int i) = Inr (mid ! i)" if "i < length mid" for i
    using array_line_nth [of "?n + 1 + i" ls] that by (simp add: assms(3) nth_append algebra_simps)
  have is_eq: "?is = map (\<lambda>i. int ?n + 2 + int i) [0..<length mid]"
    by (simp add: int_upto_def r e algebra_simps)
  have "array_line ls i = Inr (mid ! nat (i - int ?n - 2))" if "i \<in> set ?is" for i
    using that at unfolding is_eq by auto
  then have "lineBased_middle (array_line ls) ?is acc = Inr (acc @ concat (map (\<lambda>m. LF # m)
      (map (\<lambda>i. mid ! nat (i - int ?n - 2)) ?is)))" for acc
    by (rule lineBased_middle_map)
  moreover have "map (\<lambda>i. mid ! nat (i - int ?n - 2)) ?is = mid"
    unfolding is_eq by (simp add: map_nth o_def)
  ultimately have middle: "lineBased_middle (array_line ls) ?is acc = Inr (acc @ concat (map (\<lambda>m. LF # m) mid))" for acc
    by simp
  have "js_substring_from (l @ f) (startColumn r - 1) = f" "js_substring (z @ g) 0 (endColumn r - 1) = z"
    by (simp_all add: r e js_substring_from_seg js_substring_seg seg_def)
  moreover have "startLineNumber r \<noteq> endLineNumber r" by (simp add: r e)
  ultimately show ?thesis
    unfolding LineBasedText_getValueOfRange_def first last lf_unlines_middle by (simp add: middle)
qed

text \<open>The array text of the lines of a string keeps the contract with this string.\<close>

abbreviation lines_text :: "js_string \<Rightarrow> AbstractText" where
  "lines_text s \<equiv> \<lparr>at_getValueOfRange = LineBasedText_getValueOfRange (array_line (lf_lines s)),
     at_length = LineBasedText_length (array_line (lf_lines s)) (int (length (lf_lines s)))\<rparr>"

lemma ArrayText_lf_lines: "ArrayText_new (lf_lines s) = Inr (lines_text s)"
  by (simp add: ArrayText_new_def LineBasedText_new_def Suc_le_eq)

lemma LineBased_pos_at:
  assumes "0 \<le> a" "a \<le> b" "b \<le> int (length s)" "rstart r = pos_at s a" "rend r = pos_at s b"
  shows "LineBasedText_getValueOfRange (array_line (lf_lines s)) r = Inr (seg a b s)"
proof -
  define A where "A = take (nat a) s"
  define B where "B = seg a b s"
  define C where "C = drop (nat b) s"
  have AB: "take (nat b) s = A @ B" using seg_append_seg [of 0 a b s] assms by (simp add: seg_from_start A_def B_def)
  then have s: "s = A @ B @ C" by (metis C_def append.assoc append_take_drop_id)
  have r: "startLineNumber r = int (length (lf_lines A))" "startColumn r = int (length (last (lf_lines A))) + 1"
    "endLineNumber r = int (length (lf_lines (A @ B)))" "endColumn r = int (length (last (lf_lines (A @ B)))) + 1"
    using assms(4,5) lf_lines_pos_at [of a s] lf_lines_pos_at [of b s] assms(1-3) endpoint_fields [of r] AB
    by (simp_all add: A_def)
  define LA where "LA = butlast (lf_lines A)"
  define l where "l = last (lf_lines A)"
  have A: "lf_lines A = LA @ [l]" by (simp add: LA_def l_def)
  obtain g LC where C: "lf_lines C = g # LC" by (meson lf_lines_nonempty neq_Nil_conv)
  obtain f LB where B: "lf_lines B = f # LB" by (meson lf_lines_nonempty neq_Nil_conv)
  show ?thesis
  proof (cases LB rule: rev_cases)
    case Nil
    with B have f: "f = B" using lf_unlines_lines [of B] by simp
    have ls: "lf_lines s = LA @ [l @ B @ g] @ LC"
      by (simp add: s lf_lines_append A B C Nil f)
    have AB': "lf_lines (A @ B) = LA @ [l @ B]" by (simp add: lf_lines_append A B Nil f)
    have "array_line (lf_lines s) (startLineNumber r) = Inr (l @ B @ g)"
      using array_line_nth [of "length LA" "lf_lines s"] by (simp add: r A ls add.commute)
    moreover have "startLineNumber r = endLineNumber r" by (simp add: r A AB')
    moreover have "js_substring (l @ B @ g) (startColumn r - 1) (endColumn r - 1) = B"
      by (simp add: r A AB' js_substring_seg seg_def)
    ultimately show ?thesis by (simp add: LineBasedText_getValueOfRange_def B_def [symmetric])
  next
    case (snoc mid z)
    have ls: "lf_lines s = LA @ [l @ f] @ mid @ [z @ g] @ LC"
      by (simp add: s lf_lines_append A B C snoc butlast_append)
    have AB': "lf_lines (A @ B) = LA @ [l @ f] @ mid @ [z]" by (simp add: lf_lines_append A B snoc)
    have "lf_unlines (f # mid @ [z]) = B" using lf_unlines_lines [of B] by (simp add: B snoc)
    with LineBased_value [of r LA l "lf_lines s" f mid z g LC, OF _ _ ls] show ?thesis
      by (simp add: r A AB' B_def [symmetric])
  qed
qed

interpretation array_text: abstract_text "lines_text s" s for s
proof
  show "at_length (lines_text s) = Inr (tlen s)"
    using array_line_nth [of "length (lf_lines s) - 1" "lf_lines s"] lf_lines_tlen [of s]
    by (auto simp: LineBasedText_length_def TextLength_eq_iff of_nat_diff Suc_le_eq last_conv_nth)
qed (simp add: LineBased_pos_at)

text \<open>
  The two kinds of texts are interchangeable. For the lines of a string, \<open>ArrayText\<close> is
  constructed without an error, and every edit of the string gives the same result on it as on
  the \<open>StringText\<close> of the string; so does the inversion of an edit.
\<close>

theorem ArrayText_StringText_equivalent:
  assumes "small s" "oe_ok (int (length s)) E" "list_all (\<lambda>e. no_pairs (newText e)) (oe_edits E)"
  shows "\<exists>t T. ArrayText_new (lf_lines s) = Inr t \<and> AbstractText_getValue t = Inr s \<and>
    TextEdit_fromOffsetEdit E t = Inr (Some T) \<and>
    TextEdit_fromOffsetEdit E (StringText_new s) = Inr (Some T) \<and>
    TextEdit_apply T t = TextEdit_apply T (StringText_new s) \<and>
    TextEdit_inverse T t = TextEdit_inverse T (StringText_new s)"
proof -
  obtain I where I: "OffsetEdit_inverse E s = Inr I"
    using inverse_loop_spec [OF edit_rel_apply [OF assms(2)]] OffsetEdit_new_Inr
    by (fastforce simp: OffsetEdit_inverse_def)
  show ?thesis
    using array_text.fromOffsetEdit [OF assms(2)] string_text.fromOffsetEdit [OF assms(2)]
      array_text.apply_edited [OF assms(1,2)] string_text.apply_edited [OF assms(1,2)]
      array_text.inverse_edited [OF assms(2,3) I] string_text.inverse_edited [OF assms(2,3) I]
      array_text.getValue [of s] ArrayText_lf_lines [of s] by simp
qed

theorem ArrayText_StringText_equivalent_witness:
  "\<exists>t T. ArrayText_new [[0x61], [0x62, 0x63]] = Inr t \<and>
    TextEdit_fromOffsetEdit \<lparr>oe_edits = [SingleOffsetEdit (MkOffsetRange 1 3) [0x78]]\<rparr> t = Inr (Some T) \<and>
    TextEdit_apply T t = TextEdit_apply T (StringText_new [0x61, LF, 0x62, 0x63])"
  using ArrayText_StringText_equivalent [of "[0x61, LF, 0x62, 0x63]"
      "\<lparr>oe_edits = [SingleOffsetEdit (MkOffsetRange 1 3) [0x78]]\<rparr>"]
  by (auto simp: oe_ok_def MAX_SAFE_INTEGER_def)

section \<open>Mapping positions\<close>

text \<open>
  \<open>mapPosition\<close> after an insertion. A position at or before the insertion stays. A later
  position of the same line moves right by the length of an inserted text without line breaks,
  as it should. For an inserted text with line breaks the new line number is right, but the new
  column is too large by the number of columns before the insertion.
\<close>

theorem TextEdit_mapPosition_insert:
  fixes ins l c c'
  defines "T \<equiv> TextEdit_insert (Position l c) ins"
    and "q' \<equiv> TextLength_addToPosition (TextLength 0 (c' - c)) (TextLength_addToPosition (tlen ins) (Position l c))"
  assumes "no_pairs ins" "1 \<le> l" "1 \<le> c" "c < c'"
  shows "TextEdit_mapPosition T (Position l c) = Inr (APosition (Position l c)) \<and>
    (\<exists>q. TextEdit_mapPosition T (Position l c') = Inr (APosition q) \<and> lineNumber q = lineNumber q' \<and>
       column q = column q' + (if lineCount (tlen ins) = 0 then 0 else c - 1))"
proof -
  have "0 \<le> lineCount (tlen ins)" using tlen_ok [of ins] by (simp add: tl_ok_def)
  with assms(4-6) show ?thesis
    unfolding T_def q'_def
    by (auto simp: TextEdit_mapPosition_def TextEdit_insert_def TextEdit_new_def Range_fromPositions_def
        Range_new_def Range_getStartPosition_def Range_getEndPosition_def Position_isBeforeOrEqual_def
        Position_isBefore_def ofText_tlen [OF assms(3)] TextLength_addToPosition_def Let_def)
qed

theorem TextEdit_mapPosition_insert_witness:
  "\<exists>q. TextEdit_mapPosition (TextEdit_insert (Position 1 3) [LF, 0x61, 0x62]) (Position 1 5) = Inr (APosition q) \<and>
     lineNumber q = 2 \<and> column q = 5 + 2"
  using TextEdit_mapPosition_insert [of "[LF, 0x61, 0x62]" 1 3 5]
  by (auto simp: is_high_surrogate_def tlen_def tlen_step_def TextLength_zero_def TextLength_addToPosition_def)

end
