(* ===== verification/TextChanges.thy ===== *)
theory TextChanges
  imports JsStrings TextLengths
begin

text \<open>
  Model of \<open>editor/common/core/textChange.ts\<close>: text changes as the undo stack keeps them and
  the compression of two consecutive lists of changes into one. Their serialization is in the
  theory TextChangeIO.

  The compressor's fields that only mirror the arrays and their lengths are the lists here: the
  list \<open>prevs\<close> is \<open>prevEdit\<close> followed by the edits after \<open>prevIndex\<close>, and \<open>currs\<close>
  likewise.
\<close>

section \<open>TextChange\<close>

datatype TextChange = TextChange
  (tc_oldPosition: int) (tc_oldText: js_string) (tc_newPosition: int) (tc_newText: js_string)

definition TextChange_oldLength :: "TextChange \<Rightarrow> int" where
  "TextChange_oldLength c = int (length (tc_oldText c))"

definition TextChange_oldEnd :: "TextChange \<Rightarrow> int" where
  "TextChange_oldEnd c = tc_oldPosition c + int (length (tc_oldText c))"

definition TextChange_newLength :: "TextChange \<Rightarrow> int" where
  "TextChange_newLength c = int (length (tc_newText c))"

definition TextChange_newEnd :: "TextChange \<Rightarrow> int" where
  "TextChange_newEnd c = tc_newPosition c + int (length (tc_newText c))"

section \<open>TextChangeCompressor\<close>

definition rebaseCurr :: "int \<Rightarrow> TextChange \<Rightarrow> TextChange" where
  "rebaseCurr prevDeltaOffset c =
     TextChange (tc_oldPosition c - prevDeltaOffset) (tc_oldText c) (tc_newPosition c) (tc_newText c)"

definition rebasePrev :: "int \<Rightarrow> TextChange \<Rightarrow> TextChange" where
  "rebasePrev currDeltaOffset c =
     TextChange (tc_oldPosition c) (tc_oldText c) (tc_newPosition c + currDeltaOffset) (tc_newText c)"

text \<open>The offsets passed to \<open>substr\<close> are not negative.\<close>

definition splitPrev :: "TextChange \<Rightarrow> int \<Rightarrow> TextChange \<times> TextChange" where
  "splitPrev c offset =
     (let preText = take (nat offset) (tc_newText c);
          postText = drop (nat offset) (tc_newText c)
      in (TextChange (tc_oldPosition c) (tc_oldText c) (tc_newPosition c) preText,
          TextChange (TextChange_oldEnd c) [] (tc_newPosition c + offset) postText))"

definition splitCurr :: "TextChange \<Rightarrow> int \<Rightarrow> TextChange \<times> TextChange" where
  "splitCurr c offset =
     (let preText = take (nat offset) (tc_oldText c);
          postText = drop (nat offset) (tc_oldText c)
      in (TextChange (tc_oldPosition c) preText (tc_newPosition c) (tc_newText c),
          TextChange (tc_oldPosition c + offset) postText (TextChange_newEnd c) []))"

fun merge_loop :: "TextChange list \<Rightarrow> TextChange \<Rightarrow> TextChange list \<Rightarrow> TextChange list" where
  "merge_loop [] prev result = result @ [prev]"
| "merge_loop (cur # edits) prev result =
     (if TextChange_oldEnd prev = tc_oldPosition cur
      then merge_loop edits (TextChange (tc_oldPosition prev) (tc_oldText prev @ tc_oldText cur)
             (tc_newPosition prev) (tc_newText prev @ tc_newText cur)) result
      else merge_loop edits cur (result @ [prev]))"

fun merge_changes :: "TextChange list \<Rightarrow> TextChange list" where
  "merge_changes [] = []"
| "merge_changes (prev # edits) = merge_loop edits prev []"

definition removeNoOps :: "TextChange list \<Rightarrow> TextChange list" where
  "removeNoOps edits = filter (\<lambda>c. tc_oldText c \<noteq> tc_newText c) edits"

text \<open>The state of the compressor that its loop changes, beside the two lists.\<close>

record compressor =
  cmp_result :: "TextChange list"
  cmp_prevDeltaOffset :: int
  cmp_currDeltaOffset :: int

definition acceptCurr :: "TextChange \<Rightarrow> compressor \<Rightarrow> compressor" where
  "acceptCurr c st = st\<lparr>cmp_result := cmp_result st @ [rebaseCurr (cmp_prevDeltaOffset st) c],
     cmp_currDeltaOffset := cmp_currDeltaOffset st + (TextChange_newLength c - TextChange_oldLength c)\<rparr>"

definition acceptPrev :: "TextChange \<Rightarrow> compressor \<Rightarrow> compressor" where
  "acceptPrev c st = st\<lparr>cmp_result := cmp_result st @ [rebasePrev (cmp_currDeltaOffset st) c],
     cmp_prevDeltaOffset := cmp_prevDeltaOffset st + (TextChange_newLength c - TextChange_oldLength c)\<rparr>"

definition acceptMerged :: "TextChange \<Rightarrow> TextChange \<Rightarrow> compressor \<Rightarrow> compressor" where
  "acceptMerged mergePrev mergeCurr st = st\<lparr>
     cmp_result := cmp_result st @ [TextChange (tc_oldPosition mergePrev) (tc_oldText mergePrev)
       (tc_newPosition mergeCurr) (tc_newText mergeCurr)],
     cmp_prevDeltaOffset := cmp_prevDeltaOffset st + (TextChange_newLength mergePrev - TextChange_oldLength mergePrev),
     cmp_currDeltaOffset := cmp_currDeltaOffset st + (TextChange_newLength mergeCurr - TextChange_oldLength mergeCurr)\<rparr>"

function compress_loop :: "TextChange list \<Rightarrow> TextChange list \<Rightarrow> compressor \<Rightarrow> compressor" where
  "compress_loop [] [] st = st"
| "compress_loop [] (cur # currs) st = compress_loop [] currs (acceptCurr cur st)"
| "compress_loop (prev # prevs) [] st = compress_loop prevs [] (acceptPrev prev st)"
| "compress_loop (prev # prevs) (cur # currs) st =
     (if TextChange_oldEnd cur \<le> tc_newPosition prev then
        compress_loop (prev # prevs) currs (acceptCurr cur st)
      else if TextChange_newEnd prev \<le> tc_oldPosition cur then
        compress_loop prevs (cur # currs) (acceptPrev prev st)
      else if tc_oldPosition cur < tc_newPosition prev then
        (let (e1, e2) = splitCurr cur (tc_newPosition prev - tc_oldPosition cur)
         in compress_loop (prev # prevs) (e2 # currs) (acceptCurr e1 st))
      else if tc_newPosition prev < tc_oldPosition cur then
        (let (e1, e2) = splitPrev prev (tc_oldPosition cur - tc_newPosition prev)
         in compress_loop (e2 # prevs) (cur # currs) (acceptPrev e1 st))
      else if TextChange_oldEnd cur = TextChange_newEnd prev then
        compress_loop prevs currs (acceptMerged prev cur st)
      else if TextChange_oldEnd cur < TextChange_newEnd prev then
        (let (e1, e2) = splitPrev prev (TextChange_oldLength cur)
         in compress_loop (e2 # prevs) currs (acceptMerged e1 cur st))
      else
        (let (e1, e2) = splitCurr cur (TextChange_newLength prev)
         in compress_loop prevs (e2 # currs) (acceptMerged prev e1 st)))"
  by pat_completeness auto
termination
proof (relation "measure (\<lambda>(prevs, currs, st). length prevs + length currs +
    sum_list (map (\<lambda>c. length (tc_newText c)) prevs) + sum_list (map (\<lambda>c. length (tc_oldText c)) currs))")
qed (auto simp: splitPrev_def splitCurr_def Let_def TextChange_oldEnd_def TextChange_newEnd_def)

definition compress :: "TextChange list \<Rightarrow> TextChange list \<Rightarrow> TextChange list" where
  "compress prevEdits currEdits =
     removeNoOps (merge_changes (cmp_result (compress_loop prevEdits currEdits
       \<lparr>cmp_result = [], cmp_prevDeltaOffset = 0, cmp_currDeltaOffset = 0\<rparr>)))"

fun compressConsecutiveTextChanges :: "TextChange list option \<Rightarrow> TextChange list \<Rightarrow> TextChange list" where
  "compressConsecutiveTextChanges None currEdits = currEdits"
| "compressConsecutiveTextChanges (Some prevEdits) currEdits =
     (if length prevEdits = 0 then currEdits else compress prevEdits currEdits)"

section \<open>What a list of changes says\<close>

text \<open>
  The changes \<open>cs\<close> lead from the string \<open>S\<close> to the string \<open>T\<close>, which start at the offsets
  \<open>p\<close> and \<open>q\<close> of the whole old and new text: before each change the strings agree, and the
  change replaces its old text by its new text at its positions.
\<close>

fun leads :: "int \<Rightarrow> int \<Rightarrow> TextChange list \<Rightarrow> js_string \<Rightarrow> js_string \<Rightarrow> bool" where
  "leads p q [] S T \<longleftrightarrow> S = T"
| "leads p q (c # cs) S T \<longleftrightarrow>
     (\<exists>g S' T'. S = g @ tc_oldText c @ S' \<and> T = g @ tc_newText c @ T' \<and>
        tc_oldPosition c = p + int (length g) \<and> tc_newPosition c = q + int (length g) \<and>
        leads (TextChange_oldEnd c) (TextChange_newEnd c) cs S' T')"

lemma leads_ConsI:
  "S = g @ tc_oldText c @ S' \<Longrightarrow> T = g @ tc_newText c @ T' \<Longrightarrow>
     tc_oldPosition c = p + int (length g) \<Longrightarrow> tc_newPosition c = q + int (length g) \<Longrightarrow>
     leads (TextChange_oldEnd c) (TextChange_newEnd c) cs S' T' \<Longrightarrow> leads p q (c # cs) S T"
  by auto

lemmas tc_lengths = TextChange_oldEnd_def TextChange_newEnd_def TextChange_oldLength_def TextChange_newLength_def

text \<open>A change in two parts: the new text divided (the old text goes with the first part), or the old text.\<close>

lemma leads_splitPrev:
  assumes "leads p q (c # cs) S T" "0 \<le> k" "k \<le> TextChange_newLength c"
  shows "leads p q (fst (splitPrev c k) # snd (splitPrev c k) # cs) S T"
proof -
  from assms(1) obtain g S' T' where g: "S = g @ tc_oldText c @ S'" "T = g @ tc_newText c @ T'"
    "tc_oldPosition c = p + int (length g)" "tc_newPosition c = q + int (length g)"
    "leads (TextChange_oldEnd c) (TextChange_newEnd c) cs S' T'" by auto
  let ?n = "tc_newText c" and ?k = "nat k"
  have T: "T = g @ take ?k ?n @ drop ?k ?n @ T'" using g(2) by (metis append.assoc append_take_drop_id)
  have k: "?k \<le> length ?n" using assms(2,3) by (simp add: tc_lengths)
  let ?a = "fst (splitPrev c k)" and ?b = "snd (splitPrev c k)"
  have "leads (TextChange_oldEnd ?a) (TextChange_newEnd ?a) (?b # cs) S' (drop ?k ?n @ T')"
    by (rule leads_ConsI [of _ "[]" _ S' _ T']) (use g k assms(2) in \<open>auto simp: splitPrev_def tc_lengths add.assoc\<close>)
  then show ?thesis
    by (rule leads_ConsI [of S g, rotated -1]) (use g(1,3,4) T in \<open>simp_all add: splitPrev_def\<close>)
qed

lemma leads_splitCurr:
  assumes "leads p q (c # cs) S T" "0 \<le> k" "k \<le> TextChange_oldLength c"
  shows "leads p q (fst (splitCurr c k) # snd (splitCurr c k) # cs) S T"
proof -
  from assms(1) obtain g S' T' where g: "S = g @ tc_oldText c @ S'" "T = g @ tc_newText c @ T'"
    "tc_oldPosition c = p + int (length g)" "tc_newPosition c = q + int (length g)"
    "leads (TextChange_oldEnd c) (TextChange_newEnd c) cs S' T'" by auto
  let ?n = "tc_oldText c" and ?k = "nat k"
  have S: "S = g @ take ?k ?n @ drop ?k ?n @ S'" using g(1) by (metis append.assoc append_take_drop_id)
  have k: "?k \<le> length ?n" using assms(2,3) by (simp add: tc_lengths)
  let ?a = "fst (splitCurr c k)" and ?b = "snd (splitCurr c k)"
  have "leads (TextChange_oldEnd ?a) (TextChange_newEnd ?a) (?b # cs) (drop ?k ?n @ S') T'"
    by (rule leads_ConsI [of _ "[]" _ S' _ T']) (use g k assms(2) in \<open>auto simp: splitCurr_def tc_lengths add.assoc\<close>)
  then show ?thesis
    by (rule leads_ConsI [of S g, rotated -1]) (use g(2-4) S in \<open>simp_all add: splitCurr_def\<close>)
qed

text \<open>
  The state of the loop: \<open>prevs\<close> lead from \<open>S\<close> to \<open>U\<close> and \<open>currs\<close> from \<open>U\<close> to \<open>T\<close>;
  \<open>p\<close>, \<open>m\<close> and \<open>q\<close> are the offsets where the three strings start.
\<close>

definition between :: "int \<Rightarrow> int \<Rightarrow> int \<Rightarrow> TextChange list \<Rightarrow> TextChange list \<Rightarrow>
    js_string \<Rightarrow> js_string \<Rightarrow> js_string \<Rightarrow> bool" where
  "between p m q prevs currs S U T \<longleftrightarrow> leads p m prevs S U \<and> leads m q currs U T"

lemma append_prefix_split:
  assumes "g @ x = h @ y" "length g \<le> length h"
  shows "\<exists>r. h = g @ r \<and> x = r @ y"
  using assms by (auto simp: append_eq_append_conv2)

text \<open>Passing the gap that comes before a change.\<close>

lemma leads_gap:
  assumes "leads p q cs (g @ S) T"
    and "case cs of [] \<Rightarrow> True | c # _ \<Rightarrow> p + int (length g) \<le> tc_oldPosition c"
  shows "\<exists>T'. T = g @ T' \<and> leads (p + int (length g)) (q + int (length g)) cs S T'"
proof (cases cs)
  case (Cons c cs')
  with assms obtain h S' T' where h: "g @ S = h @ tc_oldText c @ S'" "T = h @ tc_newText c @ T'"
    "tc_oldPosition c = p + int (length h)" "tc_newPosition c = q + int (length h)"
    "leads (TextChange_oldEnd c) (TextChange_newEnd c) cs' S' T'" by auto
  then have "length g \<le> length h" using assms(2) Cons by simp
  from append_prefix_split [OF h(1) this] obtain r where "h = g @ r" "S = r @ tc_oldText c @ S'" by blast
  with h Cons show ?thesis by auto
qed (use assms in auto)

lemma leads_gap_new:
  assumes "leads p q cs S (g @ T)"
    and "case cs of [] \<Rightarrow> True | c # _ \<Rightarrow> q + int (length g) \<le> tc_newPosition c"
  shows "\<exists>S'. S = g @ S' \<and> leads (p + int (length g)) (q + int (length g)) cs S' T"
proof (cases cs)
  case (Cons c cs')
  with assms obtain h S' T' where h: "S = h @ tc_oldText c @ S'" "g @ T = h @ tc_newText c @ T'"
    "tc_oldPosition c = p + int (length h)" "tc_newPosition c = q + int (length h)"
    "leads (TextChange_oldEnd c) (TextChange_newEnd c) cs' S' T'" by auto
  then have "length g \<le> length h" using assms(2) Cons by simp
  from append_prefix_split [OF h(2) this] obtain r where "h = g @ r" "T = r @ tc_newText c @ T'" by blast
  with h Cons show ?thesis by auto
qed (use assms in auto)

section \<open>The compressed changes lead from the first text to the last\<close>

lemma between_acceptCurr:
  assumes "between p m q prevs (c # currs) S U T"
    and "case prevs of [] \<Rightarrow> True | d # _ \<Rightarrow> TextChange_oldEnd c \<le> tc_newPosition d"
  shows "\<exists>p' m' q' S' U' T'. between p' m' q' prevs currs S' U' T' \<and>
    m' - p' = m - p \<and> q' - m' = q - m + (TextChange_newLength c - TextChange_oldLength c) \<and>
    (\<forall>rest. leads p' q' rest S' T' \<longrightarrow> leads p q (rebaseCurr (m - p) c # rest) S T)"
proof -
  from assms(1) obtain g U' T' where g: "U = g @ tc_oldText c @ U'" "T = g @ tc_newText c @ T'"
    "tc_oldPosition c = m + int (length g)" "tc_newPosition c = q + int (length g)"
    "leads (TextChange_oldEnd c) (TextChange_newEnd c) currs U' T'"
    and prevs: "leads p m prevs S ((g @ tc_oldText c) @ U')" by (auto simp: between_def)
  from leads_gap_new [OF prevs] assms(2) g(3) obtain S' where
    S': "S = (g @ tc_oldText c) @ S'" "leads (p + int (length (g @ tc_oldText c))) (TextChange_oldEnd c) prevs S' U'"
    by (auto simp: tc_lengths add.assoc split: list.splits)
  show ?thesis
  proof (rule exI [of _ "p + int (length (g @ tc_oldText c))"], rule exI [of _ "TextChange_oldEnd c"], rule exI [of _ "TextChange_newEnd c"], rule exI [of _ S'], rule exI [of _ U'], rule exI [of _ T'], intro conjI allI impI)
    fix rest assume "leads (p + int (length (g @ tc_oldText c))) (TextChange_newEnd c) rest S' T'"
    then show "leads p q (rebaseCurr (m - p) c # rest) S T"
      using g S' by (intro leads_ConsI [of _ g _ S' _ T']) (auto simp: rebaseCurr_def tc_lengths algebra_simps)
  qed (use g S' in \<open>auto simp: between_def tc_lengths\<close>)
qed

lemma between_acceptPrev:
  assumes "between p m q (c # prevs) currs S U T"
    and "case currs of [] \<Rightarrow> True | d # _ \<Rightarrow> TextChange_newEnd c \<le> tc_oldPosition d"
  shows "\<exists>p' m' q' S' U' T'. between p' m' q' prevs currs S' U' T' \<and>
    m' - p' = m - p + (TextChange_newLength c - TextChange_oldLength c) \<and> q' - m' = q - m \<and>
    (\<forall>rest. leads p' q' rest S' T' \<longrightarrow> leads p q (rebasePrev (q - m) c # rest) S T)"
proof -
  from assms(1) obtain g S' U' where g: "S = g @ tc_oldText c @ S'" "U = g @ tc_newText c @ U'"
    "tc_oldPosition c = p + int (length g)" "tc_newPosition c = m + int (length g)"
    "leads (TextChange_oldEnd c) (TextChange_newEnd c) prevs S' U'"
    and currs: "leads m q currs ((g @ tc_newText c) @ U') T" by (auto simp: between_def)
  from leads_gap [OF currs] assms(2) g(4) obtain T' where
    T': "T = (g @ tc_newText c) @ T'" "leads (TextChange_newEnd c) (q + int (length (g @ tc_newText c))) currs U' T'"
    by (auto simp: tc_lengths add.assoc split: list.splits)
  show ?thesis
  proof (rule exI [of _ "TextChange_oldEnd c"], rule exI [of _ "TextChange_newEnd c"], rule exI [of _ "q + int (length (g @ tc_newText c))"], rule exI [of _ S'], rule exI [of _ U'], rule exI [of _ T'], intro conjI allI impI)
    fix rest assume "leads (TextChange_oldEnd c) (q + int (length (g @ tc_newText c))) rest S' T'"
    then show "leads p q (rebasePrev (q - m) c # rest) S T"
      using g T' by (intro leads_ConsI [of _ g _ S' _ T']) (auto simp: rebasePrev_def tc_lengths algebra_simps)
  qed (use g T' in \<open>auto simp: between_def tc_lengths\<close>)
qed

lemma between_acceptMerged:
  assumes "between p m q (c # prevs) (d # currs) S U T"
    and "tc_newPosition c = tc_oldPosition d" "TextChange_newEnd c = TextChange_oldEnd d"
  shows "\<exists>p' m' q' S' U' T'. between p' m' q' prevs currs S' U' T' \<and>
    m' - p' = m - p + (TextChange_newLength c - TextChange_oldLength c) \<and>
    q' - m' = q - m + (TextChange_newLength d - TextChange_oldLength d) \<and>
    (\<forall>rest. leads p' q' rest S' T' \<longrightarrow>
       leads p q (TextChange (tc_oldPosition c) (tc_oldText c) (tc_newPosition d) (tc_newText d) # rest) S T)"
proof -
  from assms(1) obtain g S' U' h U'' T' where
    g: "S = g @ tc_oldText c @ S'" "U = g @ tc_newText c @ U'"
      "tc_oldPosition c = p + int (length g)" "tc_newPosition c = m + int (length g)"
      "leads (TextChange_oldEnd c) (TextChange_newEnd c) prevs S' U'"
    and h: "U = h @ tc_oldText d @ U''" "T = h @ tc_newText d @ T'"
      "tc_oldPosition d = m + int (length h)" "tc_newPosition d = q + int (length h)"
      "leads (TextChange_oldEnd d) (TextChange_newEnd d) currs U'' T'" by (auto simp: between_def)
  have "length g = length h" using g(4) h(3) assms(2) by simp
  then have "g = h" "tc_newText c @ U' = tc_oldText d @ U''" using g(2) h(1) by auto
  moreover have "length (tc_newText c) = length (tc_oldText d)" using assms(2,3) by (simp add: tc_lengths)
  ultimately have eq: "g = h" "U' = U''" by auto
  show ?thesis
  proof (rule exI [of _ "TextChange_oldEnd c"], rule exI [of _ "TextChange_newEnd c"], rule exI [of _ "TextChange_newEnd d"], rule exI [of _ S'], rule exI [of _ U'], rule exI [of _ T'], intro conjI allI impI)
    let ?m = "TextChange (tc_oldPosition c) (tc_oldText c) (tc_newPosition d) (tc_newText d)"
    fix rest assume "leads (TextChange_oldEnd c) (TextChange_newEnd d) rest S' T'"
    then show "leads p q (?m # rest) S T"
      using g h eq by (intro leads_ConsI [of _ g _ S' _ T']) (auto simp: tc_lengths)
  qed (use g h eq assms(2,3) in \<open>auto simp: between_def tc_lengths\<close>)
qed

definition cmp_synced :: "compressor \<Rightarrow> int \<Rightarrow> int \<Rightarrow> int \<Rightarrow> bool" where
  "cmp_synced st p m q \<longleftrightarrow> cmp_prevDeltaOffset st = m - p \<and> cmp_currDeltaOffset st = q - m"

lemma between_split:
  assumes "between p m q (c # prevs) (d # currs) S U T"
  shows "0 \<le> k \<Longrightarrow> k \<le> TextChange_newLength c \<Longrightarrow>
      between p m q (fst (splitPrev c k) # snd (splitPrev c k) # prevs) (d # currs) S U T"
    and "0 \<le> k \<Longrightarrow> k \<le> TextChange_oldLength d \<Longrightarrow>
      between p m q (c # prevs) (fst (splitCurr d k) # snd (splitCurr d k) # currs) S U T"
  using assms leads_splitPrev leads_splitCurr unfolding between_def by blast+

text \<open>One step of the loop, given what the rest of it does.\<close>

lemma compress_step:
  assumes "\<exists>p' m' q' S' U' T'. between p' m' q' prevs currs S' U' T' \<and> m' - p' = cmp_prevDeltaOffset st' \<and>
      q' - m' = cmp_currDeltaOffset st' \<and> (\<forall>rest. leads p' q' rest S' T' \<longrightarrow> leads p q (r # rest) S T)"
    and IH: "\<And>p m q S U T. between p m q prevs currs S U T \<Longrightarrow> cmp_synced st' p m q \<Longrightarrow>
      \<exists>rs. cmp_result (compress_loop prevs currs st') = cmp_result st' @ rs \<and> leads p q rs S T"
    and "cmp_result st' = cmp_result st @ [r]"
  shows "\<exists>rs. cmp_result (compress_loop prevs currs st') = cmp_result st @ rs \<and> leads p q rs S T"
proof -
  from assms(1) obtain p' m' q' S' U' T' where st: "between p' m' q' prevs currs S' U' T'" "cmp_synced st' p' m' q'"
    "\<forall>rest. leads p' q' rest S' T' \<longrightarrow> leads p q (r # rest) S T" by (auto simp: cmp_synced_def)
  from IH [OF st(1,2)] obtain rs where "cmp_result (compress_loop prevs currs st') = cmp_result st' @ rs"
    "leads p' q' rs S' T'" by blast
  with st(3) assms(3) show ?thesis by (intro exI [of _ "r # rs"]) auto
qed

lemma compress_acceptCurr:
  assumes "between p m q prevs (c # currs) S U T" "cmp_synced st p m q"
    and "case prevs of [] \<Rightarrow> True | d # _ \<Rightarrow> TextChange_oldEnd c \<le> tc_newPosition d"
    and "\<And>p m q S U T. between p m q prevs currs S U T \<Longrightarrow> cmp_synced (acceptCurr c st) p m q \<Longrightarrow>
      \<exists>rs. cmp_result (compress_loop prevs currs (acceptCurr c st)) = cmp_result (acceptCurr c st) @ rs \<and> leads p q rs S T"
  shows "\<exists>rs. cmp_result (compress_loop prevs currs (acceptCurr c st)) = cmp_result st @ rs \<and> leads p q rs S T"
  by (rule compress_step [OF _ assms(4), where r = "rebaseCurr (m - p) c"])
    (use between_acceptCurr [OF assms(1,3)] assms(2) in \<open>auto simp: acceptCurr_def cmp_synced_def simp del: leads.simps\<close>)

lemma compress_acceptPrev:
  assumes "between p m q (c # prevs) currs S U T" "cmp_synced st p m q"
    and "case currs of [] \<Rightarrow> True | d # _ \<Rightarrow> TextChange_newEnd c \<le> tc_oldPosition d"
    and "\<And>p m q S U T. between p m q prevs currs S U T \<Longrightarrow> cmp_synced (acceptPrev c st) p m q \<Longrightarrow>
      \<exists>rs. cmp_result (compress_loop prevs currs (acceptPrev c st)) = cmp_result (acceptPrev c st) @ rs \<and> leads p q rs S T"
  shows "\<exists>rs. cmp_result (compress_loop prevs currs (acceptPrev c st)) = cmp_result st @ rs \<and> leads p q rs S T"
  by (rule compress_step [OF _ assms(4), where r = "rebasePrev (q - m) c"])
    (use between_acceptPrev [OF assms(1,3)] assms(2) in \<open>auto simp: acceptPrev_def cmp_synced_def simp del: leads.simps\<close>)

lemma compress_acceptMerged:
  assumes "between p m q (c # prevs) (d # currs) S U T" "cmp_synced st p m q"
    and "tc_newPosition c = tc_oldPosition d" "TextChange_newEnd c = TextChange_oldEnd d"
    and "\<And>p m q S U T. between p m q prevs currs S U T \<Longrightarrow> cmp_synced (acceptMerged c d st) p m q \<Longrightarrow>
      \<exists>rs. cmp_result (compress_loop prevs currs (acceptMerged c d st)) = cmp_result (acceptMerged c d st) @ rs \<and>
        leads p q rs S T"
  shows "\<exists>rs. cmp_result (compress_loop prevs currs (acceptMerged c d st)) = cmp_result st @ rs \<and> leads p q rs S T"
  by (rule compress_step [OF _ assms(5),
        where r = "TextChange (tc_oldPosition c) (tc_oldText c) (tc_newPosition d) (tc_newText d)"])
    (use between_acceptMerged [OF assms(1,3,4)] assms(2) in \<open>auto simp: acceptMerged_def cmp_synced_def simp del: leads.simps\<close>)

lemma split_fields:
  "tc_newPosition (fst (splitPrev c k)) = tc_newPosition c" "tc_newPosition (snd (splitPrev c k)) = tc_newPosition c + k"
  "tc_oldPosition (fst (splitCurr c k)) = tc_oldPosition c" "tc_oldPosition (snd (splitCurr c k)) = tc_oldPosition c + k"
  "0 \<le> k \<Longrightarrow> k \<le> TextChange_newLength c \<Longrightarrow> TextChange_newEnd (fst (splitPrev c k)) = tc_newPosition c + k"
  "0 \<le> k \<Longrightarrow> k \<le> TextChange_oldLength c \<Longrightarrow> TextChange_oldEnd (fst (splitCurr c k)) = tc_oldPosition c + k"
  by (auto simp: splitPrev_def splitCurr_def tc_lengths Let_def)

lemma compress_loop_spec:
  assumes "between p m q prevs currs S U T" "cmp_synced st p m q"
  shows "\<exists>rs. cmp_result (compress_loop prevs currs st) = cmp_result st @ rs \<and> leads p q rs S T"
  using assms
proof (induction prevs currs st arbitrary: p m q S U T rule: compress_loop.induct)
  case (1 st)
  then show ?case by (simp add: between_def)
next
  case (2 c currs st)
  from compress_acceptCurr [OF 2(2,3) _ 2(1)] show ?case by simp
next
  case (3 c prevs st)
  from compress_acceptPrev [OF 3(2,3) _ 3(1)] show ?case by simp
next
  case (4 c prevs d currs st)
  note IHs = 4(1-7) and bt = 4(8) and sync = 4(9)
  consider (a) "TextChange_oldEnd d \<le> tc_newPosition c"
    | (b) "\<not> TextChange_oldEnd d \<le> tc_newPosition c" "TextChange_newEnd c \<le> tc_oldPosition d"
    | (c) "\<not> TextChange_oldEnd d \<le> tc_newPosition c" "\<not> TextChange_newEnd c \<le> tc_oldPosition d"
        "tc_oldPosition d < tc_newPosition c"
    | (d) "\<not> TextChange_oldEnd d \<le> tc_newPosition c" "\<not> TextChange_newEnd c \<le> tc_oldPosition d"
        "\<not> tc_oldPosition d < tc_newPosition c" "tc_newPosition c < tc_oldPosition d"
    | (e) "\<not> TextChange_oldEnd d \<le> tc_newPosition c" "\<not> TextChange_newEnd c \<le> tc_oldPosition d"
        "\<not> tc_oldPosition d < tc_newPosition c" "\<not> tc_newPosition c < tc_oldPosition d"
    by linarith
  then show ?case
  proof cases
    case a
    from compress_acceptCurr [OF bt sync _ IHs(1) [OF a]] a show ?thesis by simp
  next
    case b
    from compress_acceptPrev [OF bt sync _ IHs(2) [OF b]] b show ?thesis by simp
  next
    case c
    let ?k = "tc_newPosition c - tc_oldPosition d"
    have k: "0 \<le> ?k" "?k \<le> TextChange_oldLength d" using c by (simp_all add: tc_lengths)
    note IH = IHs(3) [OF c, where x = "splitCurr d ?k", OF refl prod.collapse]
    from compress_acceptCurr [OF between_split(2) [OF bt k] sync _ IH] c k show ?thesis
      by (simp add: split_fields split_beta Let_def)
  next
    case d
    let ?k = "tc_oldPosition d - tc_newPosition c"
    have k: "0 \<le> ?k" "?k \<le> TextChange_newLength c" using d by (simp_all add: tc_lengths)
    note IH = IHs(4) [OF d, where x = "splitPrev c ?k", OF refl prod.collapse]
    from compress_acceptPrev [OF between_split(1) [OF bt k] sync _ IH] d k show ?thesis
      by (simp add: split_fields split_beta Let_def)
  next
    case e
    then have eq: "tc_newPosition c = tc_oldPosition d" by simp
    consider (same) "TextChange_oldEnd d = TextChange_newEnd c"
      | (short) "TextChange_oldEnd d \<noteq> TextChange_newEnd c" "TextChange_oldEnd d < TextChange_newEnd c"
      | (long) "TextChange_oldEnd d \<noteq> TextChange_newEnd c" "\<not> TextChange_oldEnd d < TextChange_newEnd c"
      by blast
    then show ?thesis
    proof cases
      case same
      from compress_acceptMerged [OF bt sync eq _ IHs(5) [OF e same]] e same show ?thesis by simp
    next
      case short
      let ?k = "TextChange_oldLength d"
      have k: "0 \<le> ?k" "?k \<le> TextChange_newLength c" using e eq short by (simp_all add: tc_lengths)
      have ends: "TextChange_newEnd (fst (splitPrev c ?k)) = TextChange_oldEnd d"
        using split_fields(5) [OF k] eq by (simp add: tc_lengths)
      note IH = IHs(6) [OF e short, where x = "splitPrev c ?k", OF refl prod.collapse]
      from compress_acceptMerged [OF between_split(1) [OF bt k] sync _ ends IH] e eq short show ?thesis
        by (simp add: split_fields split_beta Let_def)
    next
      case long
      let ?k = "TextChange_newLength c"
      have k: "0 \<le> ?k" "?k \<le> TextChange_oldLength d" using e eq long by (simp_all add: tc_lengths)
      have ends: "TextChange_newEnd c = TextChange_oldEnd (fst (splitCurr d ?k))"
        using split_fields(6) [OF k] eq by (simp add: tc_lengths)
      note IH = IHs(7) [OF e long, where x = "splitCurr d ?k", OF refl prod.collapse]
      from compress_acceptMerged [OF between_split(2) [OF bt k] sync _ ends IH] e eq long show ?thesis
        by (simp add: split_fields split_beta Let_def)
    qed
  qed
qed

text \<open>Merging adjacent changes and removing changes without effect.\<close>

lemma leads_extend:
  "leads (p + int (length h)) (q + int (length h)) cs S T \<Longrightarrow> leads p q cs (h @ S) (h @ T)"
proof (cases cs)
  case (Cons c cs')
  assume "leads (p + int (length h)) (q + int (length h)) cs S T"
  with Cons obtain g S' T' where "S = g @ tc_oldText c @ S'" "T = g @ tc_newText c @ T'"
    "tc_oldPosition c = p + int (length (h @ g))" "tc_newPosition c = q + int (length (h @ g))"
    "leads (TextChange_oldEnd c) (TextChange_newEnd c) cs' S' T'" by auto
  then show ?thesis unfolding Cons by (intro leads_ConsI [of _ "h @ g" _ S' _ T']) auto
qed simp

lemma leads_tail:
  assumes "\<And>p q S T. leads p q xs S T \<Longrightarrow> leads p q ys S T"
  shows "leads p q (rs @ xs) S T \<Longrightarrow> leads p q (rs @ ys) S T"
proof (induction rs arbitrary: p q S T)
  case (Cons r rs)
  then obtain g S' T' where "S = g @ tc_oldText r @ S'" "T = g @ tc_newText r @ T'"
    "tc_oldPosition r = p + int (length g)" "tc_newPosition r = q + int (length g)"
    "leads (TextChange_oldEnd r) (TextChange_newEnd r) (rs @ xs) S' T'" by auto
  with Cons.IH show ?case by (auto simp del: leads.simps intro!: leads_ConsI [of _ g _ S' _ T'])
qed (use assms in simp)

lemma leads_merge:
  assumes "leads p q (c # d # cs) S T" "TextChange_oldEnd c = tc_oldPosition d"
  shows "leads p q (TextChange (tc_oldPosition c) (tc_oldText c @ tc_oldText d) (tc_newPosition c)
    (tc_newText c @ tc_newText d) # cs) S T"
proof -
  from iffD1 [OF leads.simps(2) assms(1)] obtain g S' T' where g: "S = g @ tc_oldText c @ S'" "T = g @ tc_newText c @ T'"
    "tc_oldPosition c = p + int (length g)" "tc_newPosition c = q + int (length g)"
    "leads (TextChange_oldEnd c) (TextChange_newEnd c) (d # cs) S' T'" by blast
  from iffD1 [OF leads.simps(2) g(5)] assms(2) obtain S'' T'' where "S' = tc_oldText d @ S''" "T' = tc_newText d @ T''"
    "tc_newPosition d = TextChange_newEnd c" "leads (TextChange_oldEnd d) (TextChange_newEnd d) cs S'' T''" by auto
  with g assms(2) show ?thesis
    by (intro leads_ConsI [of _ g _ S'' _ T'']) (auto simp: tc_lengths add.assoc)
qed

lemma merge_loop_leads: "leads p q (res @ prev # edits) S T \<Longrightarrow> leads p q (merge_loop edits prev res) S T"
proof (induction edits prev res rule: merge_loop.induct)
  case (2 c edits prev res)
  show ?case
  proof (cases "TextChange_oldEnd prev = tc_oldPosition c")
    case True
    with 2(1) [OF True] leads_tail [OF leads_merge [OF _ True] 2(3)] show ?thesis by simp
  next
    case False
    with 2(2) [OF False] 2(3) show ?thesis by simp
  qed
qed simp

lemma removeNoOps_leads: "leads p q cs S T \<Longrightarrow> leads p q (removeNoOps cs) S T"
proof (induction cs arbitrary: p q S T)
  case (Cons c cs)
  from Cons.prems obtain g S' T' where g: "S = g @ tc_oldText c @ S'" "T = g @ tc_newText c @ T'"
    "tc_oldPosition c = p + int (length g)" "tc_newPosition c = q + int (length g)"
    "leads (TextChange_oldEnd c) (TextChange_newEnd c) cs S' T'" by auto
  note rest = Cons.IH [OF g(5)]
  show ?case
  proof (cases "tc_oldText c = tc_newText c")
    case True
    from leads_extend [of p "g @ tc_oldText c" q "removeNoOps cs" S' T'] rest g True show ?thesis
      by (simp add: removeNoOps_def tc_lengths add.assoc)
  next
    case False
    with leads_ConsI [OF g(1-4) rest] show ?thesis by (simp add: removeNoOps_def del: leads.simps)
  qed
qed (simp add: removeNoOps_def)

text \<open>
  C16: compressing two consecutive lists of changes. If the first list leads from one text to a
  second and the second list from there to a third, the compressed list leads from the first
  text to the third; so undoing or redoing it has the effect of both lists.
\<close>

theorem compressConsecutiveTextChanges_leads:
  assumes "leads 0 0 prevs s u" "leads 0 0 currs u t"
  shows "leads 0 0 (compressConsecutiveTextChanges (Some prevs) currs) s t \<and>
    list_all (\<lambda>c. tc_oldText c \<noteq> tc_newText c) (compress prevs currs)"
proof
  show "list_all (\<lambda>c. tc_oldText c \<noteq> tc_newText c) (compress prevs currs)"
    by (simp add: compress_def removeNoOps_def list_all_iff)
  let ?st = "\<lparr>cmp_result = [], cmp_prevDeltaOffset = 0, cmp_currDeltaOffset = 0\<rparr>"
  have "\<exists>rs. cmp_result (compress_loop prevs currs ?st) = rs \<and> leads 0 0 rs s t"
    using compress_loop_spec [of 0 0 0 prevs currs s u t ?st] assms by (simp add: between_def cmp_synced_def)
  then obtain rs where rs: "cmp_result (compress_loop prevs currs ?st) = rs" "leads 0 0 rs s t" by blast
  then have "leads 0 0 (merge_changes rs) s t"
    using merge_loop_leads [of 0 0 "[]"] by (cases rs) auto
  then have "leads 0 0 (compress prevs currs) s t" unfolding compress_def rs(1) by (rule removeNoOps_leads)
  moreover have "prevs = [] \<Longrightarrow> s = u" using assms(1) by simp
  ultimately show "leads 0 0 (compressConsecutiveTextChanges (Some prevs) currs) s t"
    using assms(2) by auto
qed

theorem compressConsecutiveTextChanges_leads_witness:
  "leads 0 0 (compressConsecutiveTextChanges (Some [TextChange 1 [2] 1 [7, 8]]) [TextChange 2 [8, 3] 2 [9]])
     [1, 2, 3] [1, 7, 9]"
proof -
  have "leads 0 0 [TextChange 1 [2] 1 [7, 8]] [1, 2, 3] [1, 7, 8, 3]"
    by (rule leads_ConsI [of _ "[1]" _ "[3]" _ "[3]"]) auto
  moreover have "leads 0 0 [TextChange 2 [8, 3] 2 [9]] [1, 7, 8, 3] [1, 7, 9]"
    by (rule leads_ConsI [of _ "[1, 7]" _ "[]" _ "[]"]) auto
  ultimately show ?thesis using compressConsecutiveTextChanges_leads by blast
qed

end
