(* ===== verification/TextChangeIO.thy ===== *)
theory TextChangeIO
  imports TextChanges
begin

text \<open>
  The serialization of text changes in \<open>editor/common/core/textChange.ts\<close>, with the buffer
  primitives of \<open>base/common/buffer.ts\<close> and the UTF-16 decoder of
  \<open>editor/common/core/stringBuilder.ts\<close>.

  A \<open>Uint8Array\<close> is a list of bytes that starts at the start of its buffer; a write outside of
  it has no effect. A read outside of it yields \<open>undefined\<close>, and the number made of it is
  \<open>NaN\<close> (\<^const>\<open>None\<close>): then the string that \<open>read\<close> decodes next lies outside of the
  buffer too, and creating its view throws a \<open>RangeError\<close>.
\<close>

type_synonym bytes = "8 word list"

section \<open>Buffer primitives\<close>

definition writeUInt16LE :: "bytes \<Rightarrow> int \<Rightarrow> nat \<Rightarrow> bytes" where
  "writeUInt16LE b v offset =
     (let b = b[offset := word_of_int (v mod 256)];
          v = (v mod 2 ^ 32) div 2 ^ 8
      in b[offset + 1 := word_of_int (v mod 256)])"

definition readUInt16LE :: "bytes \<Rightarrow> nat \<Rightarrow> int" where
  "readUInt16LE b offset = uint (b ! offset) + uint (b ! (offset + 1)) * 2 ^ 8"

definition writeUInt32BE :: "bytes \<Rightarrow> int \<Rightarrow> nat \<Rightarrow> bytes" where
  "writeUInt32BE b v offset =
     (let b = b[offset + 3 := word_of_int v];
          v = (v mod 2 ^ 32) div 2 ^ 8;
          b = b[offset + 2 := word_of_int v];
          v = v div 2 ^ 8;
          b = b[offset + 1 := word_of_int v];
          v = v div 2 ^ 8
      in b[offset := word_of_int v])"

definition readUInt32BE :: "bytes \<Rightarrow> nat \<Rightarrow> int option" where
  "readUInt32BE b offset =
     (if offset + 4 \<le> length b
      then Some (uint (b ! offset) * 2 ^ 24 + uint (b ! (offset + 1)) * 2 ^ 16 +
             uint (b ! (offset + 2)) * 2 ^ 8 + uint (b ! (offset + 3)))
      else None)"

section \<open>Decoding UTF-16\<close>

text \<open>\<open>TextDecoder\<close> replaces a surrogate that is not part of a pair by U+FFFD.\<close>

fun utf16_decode :: "js_string \<Rightarrow> js_string" where
  "utf16_decode [] = []"
| "utf16_decode [c] = (if is_high_surrogate c \<or> is_low_surrogate c then [0xFFFD] else [c])"
| "utf16_decode (c # d # s) =
     (if is_high_surrogate c \<and> is_low_surrogate d then c # d # utf16_decode s
      else (if is_high_surrogate c \<or> is_low_surrogate c then 0xFFFD else c) # utf16_decode (d # s))"

definition read_units :: "bytes \<Rightarrow> nat \<Rightarrow> nat \<Rightarrow> js_string" where
  "read_units b offset len = map (\<lambda>i. word_of_int (readUInt16LE b (offset + 2 * i))) [0..<len]"

definition compatDecodeUTF16LE :: "bytes \<Rightarrow> nat \<Rightarrow> nat \<Rightarrow> js_string" where
  "compatDecodeUTF16LE source offset len = read_units source offset len"

definition decodeUTF16LE :: "bytes \<Rightarrow> nat \<Rightarrow> nat \<Rightarrow> js_string result" where
  "decodeUTF16LE source offset len =
     (if offset mod 2 \<noteq> 0 \<or> offset + 2 * len > length source then Inl RangeError
      else let view = read_units source offset len
      in if len > 0 \<and> (view ! 0 = 0xFEFF \<or> view ! 0 = 0xFFFE)
         then Inr (compatDecodeUTF16LE source offset len)
         else Inr (utf16_decode view))"

section \<open>TextChange\<close>

definition TextChange_writeStringSize :: "js_string \<Rightarrow> nat" where
  "TextChange_writeStringSize str = 4 + 2 * length str"

fun writeString_loop :: "bytes \<Rightarrow> js_string \<Rightarrow> nat \<Rightarrow> bytes \<times> nat" where
  "writeString_loop b [] offset = (b, offset)"
| "writeString_loop b (c # str) offset = writeString_loop (writeUInt16LE b (uint c) offset) str (offset + 2)"

definition TextChange_writeString :: "bytes \<Rightarrow> js_string \<Rightarrow> nat \<Rightarrow> bytes \<times> nat" where
  "TextChange_writeString b str offset =
     writeString_loop (writeUInt32BE b (int (length str)) offset) str (offset + 4)"

definition TextChange_readString :: "bytes \<Rightarrow> nat \<Rightarrow> js_string result" where
  "TextChange_readString b offset =
     (case readUInt32BE b offset of
        None \<Rightarrow> Inl RangeError
      | Some len \<Rightarrow> decodeUTF16LE b (offset + 4) (nat len))"

definition TextChange_writeSize :: "TextChange \<Rightarrow> nat" where
  "TextChange_writeSize c =
     4 + 4 + TextChange_writeStringSize (tc_oldText c) + TextChange_writeStringSize (tc_newText c)"

definition TextChange_write :: "TextChange \<Rightarrow> bytes \<Rightarrow> nat \<Rightarrow> bytes \<times> nat" where
  "TextChange_write c b offset =
     (let b = writeUInt32BE b (tc_oldPosition c) offset; offset = offset + 4;
          b = writeUInt32BE b (tc_newPosition c) offset; offset = offset + 4;
          (b, offset) = TextChange_writeString b (tc_oldText c) offset;
          (b, offset) = TextChange_writeString b (tc_newText c) offset
      in (b, offset))"

definition TextChange_read :: "bytes \<Rightarrow> nat \<Rightarrow> TextChange list \<Rightarrow> (TextChange list \<times> nat) result" where
  "TextChange_read b offset dest =
     (case (readUInt32BE b offset, readUInt32BE b (offset + 4)) of
        (Some oldPosition, Some newPosition) \<Rightarrow>
          ebind (TextChange_readString b (offset + 8)) (\<lambda>oldText.
            let offset = offset + 8 + TextChange_writeStringSize oldText
            in ebind (TextChange_readString b offset) (\<lambda>newText.
              let offset = offset + TextChange_writeStringSize newText
              in Inr (dest @ [TextChange oldPosition oldText newPosition newText], offset)))
      | _ \<Rightarrow> Inl RangeError)"

section \<open>Bytes in place\<close>

text \<open>The list of bytes \<open>xs\<close> written over \<open>b\<close> from an offset on.\<close>

definition put :: "bytes \<Rightarrow> nat \<Rightarrow> bytes \<Rightarrow> bytes" where
  "put b offset xs = take offset b @ xs @ drop (offset + length xs) b"

lemma length_put [simp]: "offset + length xs \<le> length b \<Longrightarrow> length (put b offset xs) = length b"
  by (simp add: put_def)

lemma put_put:
  "offset + length xs + length ys \<le> length b \<Longrightarrow>
     put (put b offset xs) (offset + length xs) ys = put b offset (xs @ ys)"
  by (simp add: put_def ac_simps)

lemma put_Nil [simp]: "put b offset [] = b"
  by (simp add: put_def)

lemma put_update: "offset < length b \<Longrightarrow> b[offset := x] = put b offset [x]"
  by (simp add: put_def upd_conv_take_nth_drop)

definition bytes32 :: "int \<Rightarrow> bytes" where
  "bytes32 v = [word_of_int (v div 2 ^ 24), word_of_int (v div 2 ^ 16), word_of_int (v div 2 ^ 8), word_of_int v]"

definition bytes16 :: "code_unit \<Rightarrow> bytes" where
  "bytes16 c = [word_of_int (uint c mod 256), word_of_int (uint c div 256)]"

definition string_bytes :: "js_string \<Rightarrow> bytes" where
  "string_bytes str = bytes32 (int (length str)) @ concat (map bytes16 str)"

definition change_bytes :: "TextChange \<Rightarrow> bytes" where
  "change_bytes c = bytes32 (tc_oldPosition c) @ bytes32 (tc_newPosition c) @
     string_bytes (tc_oldText c) @ string_bytes (tc_newText c)"

lemma length_bytes [simp]: "length (bytes32 v) = 4" "length (bytes16 c) = 2"
  by (simp_all add: bytes32_def bytes16_def)

lemma length_string_bytes [simp]: "length (string_bytes str) = TextChange_writeStringSize str"
  by (simp add: string_bytes_def TextChange_writeStringSize_def length_concat sum_list_triv o_def)

lemma code_unit_high_byte:
  fixes c :: code_unit
  shows "uint c div 256 mod 256 = uint c div 256" and "uint c mod 2 ^ 32 = uint c"
proof -
  have "0 \<le> uint c" "uint c < 2 ^ 16" using uint_lt2p [of c] by simp_all
  then have "0 \<le> uint c div 256" "uint c div 256 < 256" "uint c < 2 ^ 32"
    by (simp_all add: pos_imp_zdiv_nonneg_iff)
  then show "uint c div 256 mod 256 = uint c div 256" "uint c mod 2 ^ 32 = uint c"
    by (simp_all add: mod_pos_pos_trivial)
qed

lemma writeUInt32BE_put:
  assumes "offset + 4 \<le> length b" "0 \<le> v" "v < 2 ^ 32"
  shows "writeUInt32BE b v offset = put b offset (bytes32 v)"
proof -
  have "b[offset + 3 := x3, offset + 2 := x2, offset + 1 := x1, offset := x0] = put b offset [x0, x1, x2, x3]"
    for x0 x1 x2 x3
    using assms(1) by (auto simp: put_def list_eq_iff_nth_eq nth_append nth_list_update nth_Cons split: nat.splits
        intro!: arg_cong [where f = "(!) b"])
  then show ?thesis
    using assms(2,3) by (simp add: writeUInt32BE_def bytes32_def Let_def zdiv_zmult2_eq [symmetric])
qed

lemma writeUInt16LE_put:
  assumes "offset + 2 \<le> length b"
  shows "writeUInt16LE b (uint c) offset = put b offset (bytes16 (c :: code_unit))"
proof -
  have "b[offset := x0, offset + 1 := x1] = put b offset [x0, x1]" for x0 x1
    using assms by (auto simp: put_def list_eq_iff_nth_eq nth_append nth_list_update nth_Cons split: nat.splits
        intro!: arg_cong [where f = "(!) b"])
  then show ?thesis
    using code_unit_high_byte [of c] by (simp add: writeUInt16LE_def bytes16_def Let_def)
qed

lemma writeString_loop_put:
  "offset + 2 * length str \<le> length b \<Longrightarrow>
     writeString_loop b str offset = (put b offset (concat (map bytes16 str)), offset + 2 * length str)"
proof (induction str arbitrary: b offset)
  case (Cons c str)
  have "length (concat (map bytes16 str)) = 2 * length str"
    by (simp add: length_concat o_def sum_list_triv)
  with Cons show ?case
    using put_put [of offset "bytes16 c" "concat (map bytes16 str)" b] by (simp add: writeUInt16LE_put)
qed simp

lemma TextChange_writeString_put:
  assumes "offset + TextChange_writeStringSize str \<le> length b" "int (length str) < 2 ^ 32"
  shows "TextChange_writeString b str offset =
    (put b offset (string_bytes str), offset + TextChange_writeStringSize str)"
proof -
  have "length (concat (map bytes16 str)) = 2 * length str"
    by (simp add: length_concat o_def sum_list_triv)
  with assms show ?thesis
    using put_put [of offset "bytes32 (int (length str))" "concat (map bytes16 str)" b]
    by (simp add: TextChange_writeString_def TextChange_writeStringSize_def writeUInt32BE_put
        writeString_loop_put string_bytes_def)
qed

definition change_fits :: "TextChange \<Rightarrow> bool" where
  "change_fits c \<longleftrightarrow> 0 \<le> tc_oldPosition c \<and> tc_oldPosition c < 2 ^ 32 \<and> 0 \<le> tc_newPosition c \<and>
     tc_newPosition c < 2 ^ 32 \<and> int (length (tc_oldText c)) < 2 ^ 32 \<and> int (length (tc_newText c)) < 2 ^ 32"

lemma TextChange_write_put:
  assumes "offset + TextChange_writeSize c \<le> length b" "change_fits c"
  shows "TextChange_write c b offset = (put b offset (change_bytes c), offset + TextChange_writeSize c)"
proof -
  let ?A = "bytes32 (tc_oldPosition c)" and ?B = "bytes32 (tc_newPosition c)"
    and ?C = "string_bytes (tc_oldText c)" and ?D = "string_bytes (tc_newText c)"
  have "put (put b offset ?A) (offset + 4) ?B = put b offset (?A @ ?B)"
    using put_put [of offset ?A ?B b] assms(1) by (simp add: TextChange_writeSize_def)
  moreover have "put (put b offset (?A @ ?B)) (offset + 8) ?C = put b offset (?A @ ?B @ ?C)"
    using put_put [of offset "?A @ ?B" ?C b] assms(1) by (simp add: TextChange_writeSize_def)
  moreover have "put (put b offset (?A @ ?B @ ?C)) (offset + 8 + TextChange_writeStringSize (tc_oldText c)) ?D =
      put b offset (?A @ ?B @ ?C @ ?D)"
    using put_put [of offset "?A @ ?B @ ?C" ?D b] assms(1) by (simp add: TextChange_writeSize_def add.assoc)
  ultimately show ?thesis
    using assms
    by (simp add: TextChange_write_def change_fits_def TextChange_writeSize_def writeUInt32BE_put
        TextChange_writeString_put change_bytes_def Let_def add.assoc)
qed

section \<open>Reading what was written\<close>

lemma uint_byte: "uint (word_of_int v :: 8 word) = v mod 256"
  by (simp add: uint_word_of_int)

lemma readUInt32BE_bytes:
  assumes "drop offset b = bytes32 v @ rest" "0 \<le> v" "v < 2 ^ 32"
  shows "readUInt32BE b offset = Some v"
proof -
  have len: "offset + 4 \<le> length b" using arg_cong [OF assms(1), of length] by (simp add: bytes32_def)
  have nth: "b ! (offset + i) = (bytes32 v @ rest) ! i" if "i < 4" for i
    using that len by (simp flip: assms(1))
  have "v div 2 ^ 24 < 2 ^ 8" "0 \<le> v div 2 ^ 24" using assms(2,3) by auto
  then have top: "v div 2 ^ 24 mod 256 = v div 2 ^ 24" by simp
  have step: "w div 256 * 256 + w mod 256 = w" for w :: int by simp
  have "v div 65536 * 256 + v div 256 mod 256 = v div 256"
    and "v div 16777216 * 256 + v div 65536 mod 256 = v div 65536"
    using step [of "v div 256"] step [of "v div 65536"] by (simp_all flip: zdiv_zmult2_eq)
  then have "v div 16777216 * 16777216 + v div 65536 mod 256 * 65536 + v div 256 mod 256 * 256 + v mod 256 = v"
    using step [of v] by linarith
  moreover have "uint (b ! offset) = v div 16777216" "uint (b ! (offset + 1)) = v div 65536 mod 256"
    "uint (b ! (offset + 2)) = v div 256 mod 256" "uint (b ! (offset + 3)) = v mod 256"
    using nth [of 0] nth [of 1] nth [of 2] nth [of 3] top
    by (simp_all add: bytes32_def uint_byte del: uint_div)
  ultimately show ?thesis using len unfolding readUInt32BE_def by simp
qed

lemma readUInt16LE_bytes: "bytes16 c = [x, y] \<Longrightarrow> word_of_int (uint x + uint y * 2 ^ 8) = c"
proof -
  assume "bytes16 c = [x, y]"
  then have "uint x = uint c mod 256" "uint y = uint c div 256 mod 256" by (auto simp: bytes16_def uint_byte)
  then have "uint x + uint y * 2 ^ 8 = uint c" using code_unit_high_byte (1) [of c] by simp
  then show ?thesis by simp
qed

lemma read_units_bytes:
  "drop offset b = concat (map bytes16 str) @ rest \<Longrightarrow> read_units b offset (length str) = str"
proof (induction str arbitrary: offset)
  case (Cons c str)
  obtain x y where xy: "bytes16 c = [x, y]" by (simp add: bytes16_def)
  have d: "drop offset b = x # y # concat (map bytes16 str) @ rest" using Cons.prems xy by simp
  have d1: "drop (offset + 1) b = y # concat (map bytes16 str) @ rest"
    using arg_cong [OF d, of "drop 1"] by simp
  have rest: "drop (offset + 2) b = concat (map bytes16 str) @ rest"
    using arg_cong [OF d1, of "drop 1"] by simp
  have b: "b ! offset = x" "b ! (offset + 1) = y"
    using nth_via_drop [OF d] nth_via_drop [OF d1] by simp_all
  have "read_units b offset (Suc (length str)) =
      word_of_int (readUInt16LE b offset) # read_units b (offset + 2) (length str)"
    unfolding read_units_def upt_conv_Cons [OF zero_less_Suc] map_Suc_upt [symmetric] by (simp add: o_def)
  with Cons.IH [OF rest] readUInt16LE_bytes [OF xy] show ?case
    by (simp add: readUInt16LE_def b b(2) [simplified])
qed (simp add: read_units_def)

definition decodable :: "js_string \<Rightarrow> bool" where
  "decodable str \<longleftrightarrow> utf16_decode str = str \<or> str \<noteq> [] \<and> (hd str = 0xFEFF \<or> hd str = 0xFFFE)"

lemma TextChange_readString_bytes:
  assumes "drop offset b = string_bytes str @ rest" "int (length str) < 2 ^ 32" "even offset" "decodable str"
  shows "TextChange_readString b offset = Inr str"
proof -
  have "drop offset b = bytes32 (int (length str)) @ concat (map bytes16 str) @ rest"
    using assms(1) by (simp add: string_bytes_def)
  note all = this
  have len: "readUInt32BE b offset = Some (int (length str))"
    using readUInt32BE_bytes [OF all] assms(2) by simp
  have d: "drop (offset + 4) b = concat (map bytes16 str) @ rest"
    using arg_cong [OF all, of "drop 4"] by (simp add: add.commute)
  have "offset + 4 + 2 * length str \<le> length b"
    using arg_cong [OF assms(1), of length]
    by (cases "offset \<le> length b") (auto simp: TextChange_writeStringSize_def)
  moreover have "even (offset + 4)" using assms(3) by simp
  moreover have "str \<noteq> [] \<Longrightarrow> str ! 0 = hd str" by (simp add: hd_conv_nth)
  ultimately show ?thesis
    using assms(4) read_units_bytes [OF d]
    by (auto simp: TextChange_readString_def len decodeUTF16LE_def compatDecodeUTF16LE_def decodable_def Let_def
        even_iff_mod_2_eq_zero)
qed

text \<open>
  C35: serialization round trip. Writing a change into a large enough buffer at an even offset
  and reading it back from there returns the change, and both advance the offset by
  \<open>writeSize\<close>; positions and lengths must fit into 32 bits, and the texts must be free of
  unpaired surrogates (or start with a byte order mark, for which the decoder has its own path).
\<close>

theorem TextChange_write_read_roundtrip:
  assumes "offset + TextChange_writeSize c \<le> length b" "even offset" "change_fits c"
    and "decodable (tc_oldText c)" "decodable (tc_newText c)"
  shows "TextChange_read (fst (TextChange_write c b offset)) offset dest =
      Inr (dest @ [c], offset + TextChange_writeSize c) \<and>
    snd (TextChange_write c b offset) = offset + TextChange_writeSize c"
proof -
  define b' where "b' = put b offset (change_bytes c)"
  let ?rest = "drop (offset + TextChange_writeSize c) b"
  have len: "length (change_bytes c) = TextChange_writeSize c"
    by (simp add: change_bytes_def TextChange_writeSize_def)
  have d0: "drop offset b' = change_bytes c @ ?rest"
    using assms(1) len by (simp add: b'_def put_def)
  have d: "drop (offset + n) b' = drop n (change_bytes c) @ drop (n - TextChange_writeSize c) ?rest" for n
    using arg_cong [OF d0, of "drop n"] len by (simp add: add.commute)
  let ?n = "8 + TextChange_writeStringSize (tc_oldText c)"
  have "readUInt32BE b' offset = Some (tc_oldPosition c)"
    using readUInt32BE_bytes [of offset b' "tc_oldPosition c"] d0 assms(3)
    by (simp add: change_bytes_def change_fits_def)
  moreover have "readUInt32BE b' (offset + 4) = Some (tc_newPosition c)"
    using readUInt32BE_bytes [of "offset + 4" b' "tc_newPosition c"] d [of 4] assms(3)
    by (simp add: change_bytes_def change_fits_def)
  moreover have "TextChange_readString b' (offset + 8) = Inr (tc_oldText c)"
    using TextChange_readString_bytes [of "offset + 8" b' "tc_oldText c"] d [of 8] assms(2-4)
    by (simp add: change_bytes_def change_fits_def)
  moreover have "TextChange_readString b' (offset + ?n) = Inr (tc_newText c)"
    using TextChange_readString_bytes [of "offset + ?n" b' "tc_newText c"] d [of ?n] assms(2,3,5)
    by (simp add: change_bytes_def change_fits_def TextChange_writeStringSize_def)
  ultimately show ?thesis
    using TextChange_write_put [OF assms(1,3)]
    by (simp add: TextChange_read_def b'_def [symmetric] TextChange_writeSize_def Let_def add.assoc)
qed

theorem TextChange_write_read_roundtrip_witness:
  "TextChange_read (fst (TextChange_write (TextChange 300 [0x61] 7 []) (replicate 20 0) 2)) 2 [] =
     Inr ([TextChange 300 [0x61] 7 []], 20)"
  using TextChange_write_read_roundtrip [of 2 "TextChange 300 [0x61] 7 []" "replicate 20 0" "[]"]
  by (simp add: TextChange_writeSize_def TextChange_writeStringSize_def change_fits_def decodable_def
      is_high_surrogate_def is_low_surrogate_def)

end
