(* ===== verification/PrefixSum.thy ===== *)
theory PrefixSum
  imports Prelude
begin

text \<open>
  Model of \<open>editor/common/model/prefixSumComputer.ts\<close>, with \<open>toUint32\<close> of
  \<open>base/common/uint.ts\<close> and \<open>arrayInsert\<close> of \<open>base/common/arrays.ts\<close>: the two classes
  that keep a sequence of heights or line lengths and answer for the sum of a prefix and for
  the element that a sum falls into. Both cache prefix sums and invalidate them from the first
  changed index on.

  The \<open>Uint32Array\<close>s of \<open>PrefixSumComputer\<close> are lists of 32-bit words, so that storing a sum
  wraps around as in the source. The arrays of \<open>ConstantTimePrefixSumComputer\<close> are lists of
  \<^typ>\<open>int option\<close>, where \<^const>\<open>None\<close> is \<open>undefined\<close>, a hole or \<open>NaN\<close>. Both classes implement
  the contract \<open>sum_index\<close>, from which it follows that they give the same answers.
\<close>

section \<open>Typed arrays and numbers\<close>

definition toUint32 :: "int \<Rightarrow> int" where
  "toUint32 v = (if v < 0 then 0 else if v > 4294967295 then 4294967295 else to_int32 v)"

text \<open>\<open>arr.set(src, offset)\<close>\<close>

definition typed_set :: "'a list \<Rightarrow> 'a list \<Rightarrow> int \<Rightarrow> 'a list result" where
  "typed_set xs src offset =
     (if offset < 0 \<or> offset + int (length src) > int (length xs) then Inl RangeError
      else Inr (take (nat offset) xs @ src @ drop (nat offset + length src) xs))"

datatype PrefixSumIndexOfResult = PrefixSumIndexOfResult
  (psr_index: "int option") (psr_remainder: "int option")

section \<open>PrefixSumComputer\<close>

record PrefixSumComputer =
  psc_values :: "32 word list"
  psc_prefixSum :: "32 word list"
  psc_prefixSumValidIndex :: int

definition PrefixSumComputer_new :: "32 word list \<Rightarrow> PrefixSumComputer" where
  "PrefixSumComputer_new vs =
     \<lparr>psc_values = vs, psc_prefixSum = replicate (length vs) 0, psc_prefixSumValidIndex = -1\<rparr>"

definition PrefixSumComputer_getCount :: "PrefixSumComputer \<Rightarrow> int" where
  "PrefixSumComputer_getCount st = int (length (psc_values st))"

definition keep_prefix :: "32 word list \<Rightarrow> int \<Rightarrow> nat \<Rightarrow> 32 word list result" where
  "keep_prefix oldPrefixSum validIndex n =
     (if validIndex \<ge> 0 then typed_set (replicate n 0) (js_slice oldPrefixSum 0 (validIndex + 1)) 0
      else Inr (replicate n 0))"

definition PrefixSumComputer_insertValues ::
    "PrefixSumComputer \<Rightarrow> int \<Rightarrow> 32 word list \<Rightarrow> (PrefixSumComputer \<times> bool) result" where
  "PrefixSumComputer_insertValues st insertIndex insertValues =
     (let insertIndex = toUint32 insertIndex;
          oldValues = psc_values st;
          oldPrefixSum = psc_prefixSum st;
          insertValuesLen = length insertValues
      in if insertValuesLen = 0 then Inr (st, False)
      else ebind (typed_set (replicate (length oldValues + insertValuesLen) 0) (js_slice oldValues 0 insertIndex) 0) (\<lambda>vs.
           ebind (typed_set vs (js_slice_from oldValues insertIndex) (insertIndex + int insertValuesLen)) (\<lambda>vs.
           ebind (typed_set vs insertValues insertIndex) (\<lambda>vs.
           let validIndex = (if insertIndex - 1 < psc_prefixSumValidIndex st then to_int32 (insertIndex - 1)
                             else psc_prefixSumValidIndex st)
           in emap (\<lambda>ps. (\<lparr>psc_values = vs, psc_prefixSum = ps, psc_prefixSumValidIndex = validIndex\<rparr>, True))
                (keep_prefix oldPrefixSum validIndex (length vs))))))"

definition PrefixSumComputer_setValue ::
    "PrefixSumComputer \<Rightarrow> int \<Rightarrow> int \<Rightarrow> PrefixSumComputer \<times> bool" where
  "PrefixSumComputer_setValue st index val =
     (let index = toUint32 index; val = toUint32 val
      in if map_option uint (js_get (psc_values st) index) = Some val then (st, False)
      else (st\<lparr>psc_values := typed_put (psc_values st) index (Some (word_of_int val)),
               psc_prefixSumValidIndex := (if index - 1 < psc_prefixSumValidIndex st then to_int32 (index - 1)
                                           else psc_prefixSumValidIndex st)\<rparr>, True))"

definition PrefixSumComputer_removeValues ::
    "PrefixSumComputer \<Rightarrow> int \<Rightarrow> int \<Rightarrow> (PrefixSumComputer \<times> bool) result" where
  "PrefixSumComputer_removeValues st startIndex count =
     (let startIndex = toUint32 startIndex;
          count = toUint32 count;
          oldValues = psc_values st;
          oldPrefixSum = psc_prefixSum st
      in if startIndex \<ge> int (length oldValues) then Inr (st, False)
      else let maxCount = int (length oldValues) - startIndex;
               count = (if count \<ge> maxCount then maxCount else count)
      in if count = 0 then Inr (st, False)
      else let n = int (length oldValues) - count
      in if n < 0 then Inl RangeError
      else ebind (typed_set (replicate (nat n) 0) (js_slice oldValues 0 startIndex) 0) (\<lambda>vs.
           ebind (typed_set vs (js_slice_from oldValues (startIndex + count)) startIndex) (\<lambda>vs.
           let validIndex = (if startIndex - 1 < psc_prefixSumValidIndex st then to_int32 (startIndex - 1)
                             else psc_prefixSumValidIndex st)
           in emap (\<lambda>ps. (\<lparr>psc_values = vs, psc_prefixSum = ps, psc_prefixSumValidIndex = validIndex\<rparr>, True))
                (keep_prefix oldPrefixSum validIndex (length vs)))))"

text \<open>\<open>for (let i = startIndex; i <= index; i++) { prefixSum[i] = prefixSum[i - 1] + values[i]; }\<close>\<close>

fun add_number :: "32 word option \<Rightarrow> 32 word option \<Rightarrow> 32 word option" where
  "add_number (Some a) (Some b) = Some (a + b)"
| "add_number _ _ = None"

function prefixSum_loop :: "32 word list \<Rightarrow> 32 word list \<Rightarrow> int \<Rightarrow> int \<Rightarrow> 32 word list" where
  "prefixSum_loop vs ps i index =
     (if i \<le> index
      then prefixSum_loop vs (typed_put ps i (add_number (js_get ps (i - 1)) (js_get vs i))) (i + 1) index
      else ps)"
  by pat_completeness auto
termination
  by (relation "measure (\<lambda>(vs, ps, i, index). nat (index + 1 - i))") auto

declare prefixSum_loop.simps [simp del]

definition PrefixSumComputer_getPrefixSum_internal ::
    "PrefixSumComputer \<Rightarrow> int \<Rightarrow> PrefixSumComputer \<times> int option" where
  "PrefixSumComputer_getPrefixSum_internal st index =
     (if index \<le> psc_prefixSumValidIndex st
      then (st, map_option uint (js_get (psc_prefixSum st) index))
      else let startIndex = psc_prefixSumValidIndex st + 1;
               ps = (if startIndex = 0 then typed_put (psc_prefixSum st) 0 (js_get (psc_values st) 0)
                     else psc_prefixSum st);
               startIndex = (if startIndex = 0 then startIndex + 1 else startIndex);
               index = (if index \<ge> int (length (psc_values st)) then int (length (psc_values st)) - 1 else index);
               ps = prefixSum_loop (psc_values st) ps startIndex index
      in (st\<lparr>psc_prefixSum := ps, psc_prefixSumValidIndex := max (psc_prefixSumValidIndex st) index\<rparr>,
          map_option uint (js_get ps index)))"

definition PrefixSumComputer_getTotalSum :: "PrefixSumComputer \<Rightarrow> PrefixSumComputer \<times> int option" where
  "PrefixSumComputer_getTotalSum st =
     (if length (psc_values st) = 0 then (st, Some 0)
      else PrefixSumComputer_getPrefixSum_internal st (int (length (psc_values st)) - 1))"

definition PrefixSumComputer_getPrefixSum :: "PrefixSumComputer \<Rightarrow> int \<Rightarrow> PrefixSumComputer \<times> int option" where
  "PrefixSumComputer_getPrefixSum st index =
     (if index < 0 then (st, Some 0) else PrefixSumComputer_getPrefixSum_internal st (toUint32 index))"

text \<open>
  The binary search of \<open>getIndexOf\<close>; it reads the arrays between \<open>low\<close> and \<open>high\<close> only, and
  \<open>mid\<close> is below \<open>2^31\<close>, so that its \<open>| 0\<close> is the division rounded down.
\<close>

function indexOf_loop ::
    "32 word list \<Rightarrow> 32 word list \<Rightarrow> int \<Rightarrow> int \<Rightarrow> int \<Rightarrow> int \<Rightarrow> int \<Rightarrow> int \<times> int" where
  "indexOf_loop vs ps s low high mid midStart =
     (if low \<le> high
      then let mid = low + (high - low) div 2;
               midStop = uint (ps ! nat mid);
               midStart = midStop - uint (vs ! nat mid)
           in if s < midStart then indexOf_loop vs ps s low (mid - 1) mid midStart
              else if s \<ge> midStop then indexOf_loop vs ps s (mid + 1) high mid midStart
              else (mid, midStart)
      else (mid, midStart))"
  by pat_completeness auto
termination
  by (relation "measure (\<lambda>(vs, ps, s, low, high, mid, midStart). nat (high + 1 - low))") auto

declare indexOf_loop.simps [simp del]

definition PrefixSumComputer_getIndexOf ::
    "PrefixSumComputer \<Rightarrow> int \<Rightarrow> PrefixSumComputer \<times> PrefixSumIndexOfResult" where
  "PrefixSumComputer_getIndexOf st s =
     (let st = fst (PrefixSumComputer_getTotalSum st);
          (mid, midStart) = indexOf_loop (psc_values st) (psc_prefixSum st) s 0
            (int (length (psc_values st)) - 1) 0 0
      in (st, PrefixSumIndexOfResult (Some mid) (Some (s - midStart))))"

section \<open>ConstantTimePrefixSumComputer\<close>

definition arrayInsert :: "'a list \<Rightarrow> int \<Rightarrow> 'a list \<Rightarrow> 'a list" where
  "arrayInsert target insertIndex insertArr =
     js_slice target 0 insertIndex @ insertArr @ js_slice_from target insertIndex"

text \<open>
  \<open>arr[i] = v\<close> on an array, which grows as needed (an index that is not an array index, like
  \<open>NaN\<close>, only sets a property), and \<open>arr.length = n\<close>, which throws for a number that is not a
  length.
\<close>

definition array_put :: "'a option list \<Rightarrow> int option \<Rightarrow> 'a option \<Rightarrow> 'a option list" where
  "array_put xs i v =
     (case i of None \<Rightarrow> xs
      | Some i \<Rightarrow> if i < 0 then xs
                  else (xs @ replicate (nat i + 1 - length xs) None)[nat i := v])"

definition array_setLength :: "'a option list \<Rightarrow> int option \<Rightarrow> 'a option list result" where
  "array_setLength xs n =
     (case n of None \<Rightarrow> Inl RangeError
      | Some n \<Rightarrow> if n < 0 \<or> n \<ge> 2 ^ 32 then Inl RangeError
                  else Inr (take (nat n) xs @ replicate (nat n - length xs) None))"

definition array_get :: "'a option list \<Rightarrow> int option \<Rightarrow> 'a option" where
  "array_get xs i = (case i of None \<Rightarrow> None | Some i \<Rightarrow> Option.bind (js_get xs i) id)"

fun plus_opt :: "int option \<Rightarrow> int option \<Rightarrow> int option" where
  "plus_opt (Some a) (Some b) = Some (a + b)"
| "plus_opt _ _ = None"

record ConstantTimePrefixSumComputer =
  ct_values :: "int option list"
  ct_isValid :: bool
  ct_validEndIndex :: int
  ct_prefixSum :: "int option list"
  ct_indexBySum :: "int option list"

definition ConstantTimePrefixSumComputer_new :: "int option list \<Rightarrow> ConstantTimePrefixSumComputer" where
  "ConstantTimePrefixSumComputer_new vs =
     \<lparr>ct_values = vs, ct_isValid = False, ct_validEndIndex = -1, ct_prefixSum = [], ct_indexBySum = []\<rparr>"

definition ConstantTimePrefixSumComputer_invalidate ::
    "ConstantTimePrefixSumComputer \<Rightarrow> int \<Rightarrow> ConstantTimePrefixSumComputer" where
  "ConstantTimePrefixSumComputer_invalidate st index =
     st\<lparr>ct_isValid := False, ct_validEndIndex := min (ct_validEndIndex st) (index - 1)\<rparr>"

definition ConstantTimePrefixSumComputer_removeValues ::
    "ConstantTimePrefixSumComputer \<Rightarrow> int \<Rightarrow> int \<Rightarrow> ConstantTimePrefixSumComputer" where
  "ConstantTimePrefixSumComputer_removeValues st start deleteCount =
     ConstantTimePrefixSumComputer_invalidate
       (st\<lparr>ct_values := js_splice (ct_values st) start deleteCount []\<rparr>) start"

definition ConstantTimePrefixSumComputer_insertValues ::
    "ConstantTimePrefixSumComputer \<Rightarrow> int \<Rightarrow> int option list \<Rightarrow> ConstantTimePrefixSumComputer" where
  "ConstantTimePrefixSumComputer_insertValues st insertIndex insertArr =
     ConstantTimePrefixSumComputer_invalidate
       (st\<lparr>ct_values := arrayInsert (ct_values st) insertIndex insertArr\<rparr>) insertIndex"

definition ConstantTimePrefixSumComputer_setValue ::
    "ConstantTimePrefixSumComputer \<Rightarrow> int \<Rightarrow> int \<Rightarrow> ConstantTimePrefixSumComputer" where
  "ConstantTimePrefixSumComputer_setValue st index val =
     (if array_get (ct_values st) (Some index) = Some val then st
      else ConstantTimePrefixSumComputer_invalidate
             (st\<lparr>ct_values := array_put (ct_values st) (Some index) (Some val)\<rparr>) index)"

text \<open>The inner and the outer loop of \<open>_ensureValid\<close>.\<close>

fun fill_index :: "int option \<Rightarrow> int \<Rightarrow> nat \<Rightarrow> int option list \<Rightarrow> int option list" where
  "fill_index sumAbove i 0 ix = ix"
| "fill_index sumAbove i (Suc j) ix =
     array_put (fill_index sumAbove i j ix) (plus_opt sumAbove (Some (int j))) (Some i)"

fun ensureValid_loop :: "int option list \<Rightarrow> int list \<Rightarrow> int option list \<times> int option list \<Rightarrow>
    int option list \<times> int option list" where
  "ensureValid_loop vs [] pi = pi"
| "ensureValid_loop vs (i # is) (ps, ix) =
     (let val = array_get vs (Some i);
          sumAbove = (if i > 0 then array_get ps (Some (i - 1)) else Some 0);
          ps = array_put ps (Some i) (plus_opt sumAbove val);
          ix = fill_index sumAbove i (case val of None \<Rightarrow> 0 | Some v \<Rightarrow> nat v) ix
      in ensureValid_loop vs is (ps, ix))"

definition ConstantTimePrefixSumComputer_ensureValid ::
    "ConstantTimePrefixSumComputer \<Rightarrow> ConstantTimePrefixSumComputer result" where
  "ConstantTimePrefixSumComputer_ensureValid st =
     (if ct_isValid st then Inr st
      else let len = int (length (ct_values st));
               (ps, ix) = ensureValid_loop (ct_values st) (int_upto (ct_validEndIndex st + 1) len)
                            (ct_prefixSum st, ct_indexBySum st)
      in ebind (array_setLength ps (Some len)) (\<lambda>ps.
         ebind (array_setLength ix (array_get ps (Some (int (length ps) - 1)))) (\<lambda>ix.
         Inr (st\<lparr>ct_isValid := True, ct_validEndIndex := len - 1, ct_prefixSum := ps, ct_indexBySum := ix\<rparr>))))"

definition ConstantTimePrefixSumComputer_getTotalSum ::
    "ConstantTimePrefixSumComputer \<Rightarrow> (ConstantTimePrefixSumComputer \<times> int) result" where
  "ConstantTimePrefixSumComputer_getTotalSum st =
     emap (\<lambda>st. (st, int (length (ct_indexBySum st)))) (ConstantTimePrefixSumComputer_ensureValid st)"

definition ConstantTimePrefixSumComputer_getPrefixSum ::
    "ConstantTimePrefixSumComputer \<Rightarrow> int \<Rightarrow> (ConstantTimePrefixSumComputer \<times> int option) result" where
  "ConstantTimePrefixSumComputer_getPrefixSum st count =
     emap (\<lambda>st. (st, if count = 0 then Some 0 else array_get (ct_prefixSum st) (Some (count - 1))))
       (ConstantTimePrefixSumComputer_ensureValid st)"

definition ConstantTimePrefixSumComputer_getIndexOf ::
    "ConstantTimePrefixSumComputer \<Rightarrow> int \<Rightarrow>
     (ConstantTimePrefixSumComputer \<times> PrefixSumIndexOfResult) result" where
  "ConstantTimePrefixSumComputer_getIndexOf st s =
     emap (\<lambda>st.
       let idx = array_get (ct_indexBySum st) (Some s);
           viewLinesAbove = (case idx of Some i \<Rightarrow> if i > 0 then array_get (ct_prefixSum st) (Some (i - 1)) else Some 0
                             | None \<Rightarrow> Some 0)
       in (st, PrefixSumIndexOfResult idx (map_option (\<lambda>v. s - v) viewLinesAbove)))
       (ConstantTimePrefixSumComputer_ensureValid st)"

section \<open>The element a sum falls into\<close>

text \<open>
  The contract of \<open>getIndexOf\<close>: a computer that keeps the values \<open>vals st\<close> finds, for a sum
  below their total, an element and the remainder of the sum within it, and keeps its values.
\<close>

definition locates :: "int list \<Rightarrow> int \<Rightarrow> PrefixSumIndexOfResult \<Rightarrow> bool" where
  "locates vs s r \<longleftrightarrow> (\<exists>i < length vs. r = PrefixSumIndexOfResult (Some (int i)) (Some (s - sum_list (take i vs))) \<and>
     sum_list (take i vs) \<le> s \<and> s < sum_list (take (Suc i) vs))"

lemma sum_list_take_mono:
  "(\<forall>v \<in> set vs. 0 \<le> v) \<Longrightarrow> i \<le> j \<Longrightarrow> sum_list (take i vs) \<le> sum_list (take j (vs :: int list))"
proof -
  assume nn: "\<forall>v \<in> set vs. 0 \<le> v" and "i \<le> j"
  then obtain k where j: "j = i + k" using le_Suc_ex by blast
  have "0 \<le> sum_list (take k (drop i vs))"
    by (rule sum_list_nonneg) (use nn in \<open>auto dest: in_set_takeD in_set_dropD\<close>)
  then show ?thesis by (simp add: j take_add)
qed

lemma locates_unique:
  assumes "\<forall>v \<in> set vs. 0 \<le> v" "locates vs s r" "locates vs s r'"
  shows "r = r'"
proof -
  obtain i j where i: "r = PrefixSumIndexOfResult (Some (int i)) (Some (s - sum_list (take i vs)))"
      "sum_list (take i vs) \<le> s" "s < sum_list (take (Suc i) vs)"
    and j: "r' = PrefixSumIndexOfResult (Some (int j)) (Some (s - sum_list (take j vs)))"
      "sum_list (take j vs) \<le> s" "s < sum_list (take (Suc j) vs)"
    using assms(2,3) unfolding locates_def by blast
  have "\<not> i < j" using sum_list_take_mono [OF assms(1), of "Suc i" j] i(3) j(2) by auto
  moreover have "\<not> j < i" using sum_list_take_mono [OF assms(1), of "Suc j" i] j(3) i(2) by auto
  ultimately have "i = j" by simp
  with i(1) j(1) show ?thesis by simp
qed

locale sum_index =
  fixes ok :: "'s \<Rightarrow> bool" and vals :: "'s \<Rightarrow> int list"
    and indexOf :: "'s \<Rightarrow> int \<Rightarrow> ('s \<times> PrefixSumIndexOfResult) result"
  assumes nonneg: "ok st \<Longrightarrow> v \<in> set (vals st) \<Longrightarrow> 0 \<le> v"
    and indexOf: "ok st \<Longrightarrow> 0 \<le> s \<Longrightarrow> s < sum_list (vals st) \<Longrightarrow>
      \<exists>st' r. indexOf st s = Inr (st', r) \<and> ok st' \<and> vals st' = vals st \<and> locates (vals st) s r"
begin

lemma indexOf_result:
  assumes "ok st" "0 \<le> s" "s < sum_list (vals st)" "locates (vals st) s r"
  shows "emap snd (indexOf st s) = Inr r"
  using indexOf [OF assms(1-3)] locates_unique [OF _ assms(4)] nonneg [OF assms(1)] by fastforce

text \<open>Queries do not disturb each other.\<close>

lemma indexOf_twice:
  assumes "ok st" "0 \<le> s" "s < sum_list (vals st)" "0 \<le> s'" "s' < sum_list (vals st)"
  shows "ebind (indexOf st s') (\<lambda>(st', _). emap snd (indexOf st' s)) = emap snd (indexOf st s)"
proof -
  obtain st1 r1 st' r where "indexOf st s' = Inr (st1, r1)" "ok st1" "vals st1 = vals st"
    "indexOf st s = Inr (st', r)" "locates (vals st) s r"
    using indexOf [OF assms(1,4,5)] indexOf [OF assms(1,2,3)] by blast
  then show ?thesis using indexOf_result [of st1 s r] assms(2,3) by simp
qed

end

locale sum_index_pair = a: sum_index ok1 vals1 indexOf1 + b: sum_index ok2 vals2 indexOf2
  for ok1 :: "'s \<Rightarrow> bool" and vals1 indexOf1 and ok2 :: "'t \<Rightarrow> bool" and vals2 indexOf2
begin

lemma same_answers:
  assumes "ok1 st1" "ok2 st2" "vals1 st1 = vals2 st2" "0 \<le> s" "s < sum_list (vals2 st2)"
  shows "emap snd (indexOf1 st1 s) = emap snd (indexOf2 st2 s)"
proof -
  obtain r where "locates (vals2 st2) s r" using b.indexOf [OF assms(2,4,5)] by blast
  then show ?thesis
    using a.indexOf_result [of st1 s r] b.indexOf_result [of st2 s r] assms by simp
qed

end

section \<open>PrefixSumComputer is correct\<close>

text \<open>
  The invariant: the cached sums up to \<open>prefixSumValidIndex\<close> are right (modulo \<open>2^32\<close>), and
  indices fit into 31 bits.
\<close>

definition sums_upto :: "32 word list \<Rightarrow> 32 word list \<Rightarrow> int \<Rightarrow> bool" where
  "sums_upto vs ps n \<longleftrightarrow> length ps = length vs \<and> (\<forall>k < length vs. int k \<le> n \<longrightarrow> ps ! k = sum_list (take (Suc k) vs))"

definition psc_ok :: "PrefixSumComputer \<Rightarrow> bool" where
  "psc_ok st \<longleftrightarrow> sums_upto (psc_values st) (psc_prefixSum st) (psc_prefixSumValidIndex st) \<and>
     -1 \<le> psc_prefixSumValidIndex st \<and> psc_prefixSumValidIndex st < int (length (psc_values st)) \<and>
     length (psc_values st) < 2 ^ 31"

lemma psc_ok_new [simp]: "length vs < 2 ^ 31 \<Longrightarrow> psc_ok (PrefixSumComputer_new vs)"
  by (simp add: psc_ok_def sums_upto_def PrefixSumComputer_new_def)

lemma toUint32_index [simp]: "0 \<le> i \<Longrightarrow> i < 2 ^ 31 \<Longrightarrow> toUint32 i = i"
  by (simp add: toUint32_def int32_range_def)

lemma sums_upto_put:
  assumes "sums_upto vs ps (i - 1)" "0 \<le> i" "i < int (length vs)"
    "v = Some (sum_list (take (Suc (nat i)) vs))"
  shows "sums_upto vs (typed_put ps i v) i"
  using assms by (auto simp: sums_upto_def typed_put_def nth_list_update)

lemma prefixSum_loop_sums:
  "sums_upto vs ps (i - 1) \<Longrightarrow> 1 \<le> i \<Longrightarrow> index < int (length vs) \<Longrightarrow>
     sums_upto vs (prefixSum_loop vs ps i index) (max (i - 1) index)"
proof (induction vs ps i index rule: prefixSum_loop.induct)
  case (1 vs ps i index)
  show ?case
  proof (cases "i \<le> index")
    case True
    let ?v = "add_number (js_get ps (i - 1)) (js_get vs i)"
    have k: "nat i = Suc (nat (i - 1))" "nat i < length vs" using 1 True by linarith+
    have "ps ! nat (i - 1) = sum_list (take (nat i) vs)" "length ps = length vs"
      using 1 True k by (auto simp: sums_upto_def)
    then have "?v = Some (sum_list (take (Suc (nat i)) vs))"
      using 1 True k by (simp add: js_get_def take_Suc_conv_app_nth)
    then have "sums_upto vs (typed_put ps i ?v) i"
      using 1 True by (intro sums_upto_put) auto
    with 1 True show ?thesis
      by (subst prefixSum_loop.simps) (auto simp: max_def split: if_splits)
  next
    case False
    with 1 show ?thesis by (subst prefixSum_loop.simps) simp
  qed
qed

lemma sums_upto_get:
  "sums_upto vs ps n \<Longrightarrow> 0 \<le> i \<Longrightarrow> i \<le> n \<Longrightarrow> i < int (length vs) \<Longrightarrow>
     js_get ps i = Some (sum_list (take (nat i + 1) vs))"
  by (simp add: sums_upto_def js_get_def)

lemma getPrefixSum_internal_sums:
  assumes "psc_ok st" "0 \<le> index" "psc_values st \<noteq> []"
  shows "\<exists>st'. PrefixSumComputer_getPrefixSum_internal st index =
      (st', Some (uint (sum_list (take (nat index + 1) (psc_values st))))) \<and>
    psc_ok st' \<and> psc_values st' = psc_values st \<and>
    psc_prefixSumValidIndex st' = max (psc_prefixSumValidIndex st) (min index (int (length (psc_values st)) - 1))"
proof (cases "index \<le> psc_prefixSumValidIndex st")
  case True
  then show ?thesis
    using assms sums_upto_get [of "psc_values st" "psc_prefixSum st" "psc_prefixSumValidIndex st" index]
    by (auto simp: PrefixSumComputer_getPrefixSum_internal_def psc_ok_def max_def min_def)
next
  case False
  define start where "start = psc_prefixSumValidIndex st + 1"
  define ps where "ps = (if start = 0 then typed_put (psc_prefixSum st) 0 (js_get (psc_values st) 0)
    else psc_prefixSum st)"
  define start' where "start' = (if start = 0 then start + 1 else start)"
  define index' where "index' = min index (int (length (psc_values st)) - 1)"
  define ps' where "ps' = prefixSum_loop (psc_values st) ps start' index'"
  have "sums_upto (psc_values st) ps (start' - 1)"
  proof (cases "start = 0")
    case True
    then have "psc_prefixSumValidIndex st = -1" by (simp add: start_def)
    with True assms show ?thesis
      unfolding start'_def ps_def psc_ok_def
      by (auto intro!: sums_upto_put simp: js_get_def take_Suc_conv_app_nth)
  next
    case False
    then show ?thesis using assms by (simp add: start'_def ps_def psc_ok_def start_def)
  qed
  moreover have "1 \<le> start'" "index' < int (length (psc_values st))" "0 \<le> index'" "start' - 1 \<le> index'"
    using assms False by (auto simp: start'_def start_def index'_def psc_ok_def neq_Nil_conv)
  ultimately have s: "sums_upto (psc_values st) ps' index'"
    using prefixSum_loop_sums [of "psc_values st" ps start' index'] by (simp add: ps'_def max_def split: if_splits)
  have "take (nat index + 1) (psc_values st) = take (nat index' + 1) (psc_values st)"
    using assms by (cases "index < int (length (psc_values st))") (auto simp: index'_def min_def)
  then have get: "js_get ps' index' = Some (sum_list (take (nat index + 1) (psc_values st)))"
    using sums_upto_get [OF s] \<open>index' < int (length (psc_values st))\<close> \<open>0 \<le> index'\<close> by simp
  have "PrefixSumComputer_getPrefixSum_internal st index =
      (st\<lparr>psc_prefixSum := ps', psc_prefixSumValidIndex := max (psc_prefixSumValidIndex st) index'\<rparr>,
       map_option uint (js_get ps' index'))"
    using False unfolding PrefixSumComputer_getPrefixSum_internal_def Let_def ps'_def ps_def start'_def start_def index'_def min_def
    by auto
  moreover have "max (psc_prefixSumValidIndex st) index' = index'"
    using False assms(1) by (auto simp: index'_def psc_ok_def)
  ultimately show ?thesis
    using s get assms \<open>0 \<le> index'\<close> \<open>index' < int (length (psc_values st))\<close>
    by (simp add: psc_ok_def index'_def)
qed

lemma sums_upto_keep:
  assumes "sums_upto vs ps n" "v \<le> n" "-1 \<le> v" "v < int (length vs)" "v < int (length vs')"
    "take (nat (v + 1)) vs' = take (nat (v + 1)) vs"
  shows "\<exists>ps'. keep_prefix ps v (length vs') = Inr ps' \<and> sums_upto vs' ps' v"
proof -
  have "ps ! k = sum_list (take (Suc k) vs')" if "int k \<le> v" for k
  proof -
    have "take (Suc k) vs' = take (Suc k) (take (nat (v + 1)) vs')" "k < length vs"
      using that assms(4) by (auto simp: take_take min_def)
    moreover have "min (Suc k) (nat (v + 1)) = Suc k" using that by simp
    ultimately have "take (Suc k) vs' = take (Suc k) vs" by (simp only: assms(6) take_take)
    then show ?thesis using that assms(1,2) \<open>k < length vs\<close> by (simp add: sums_upto_def)
  qed
  moreover have "nat (v + 1) \<le> length ps" using assms(1,4) by (simp add: sums_upto_def)
  ultimately show ?thesis
    using assms(3,5)
    by (auto simp: keep_prefix_def typed_set_def js_slice_def seg_def sums_upto_def nth_append)
qed

text \<open>What a change of the values from index \<open>i\<close> on does to the cache.\<close>

lemma psc_ok_changed:
  assumes "psc_ok st" "0 \<le> i" "i \<le> int (length (psc_values st))" "i \<le> int (length vs')" "length vs' < 2 ^ 31"
    "take (nat i) vs' = take (nat i) (psc_values st)"
    and "v = (if i - 1 < psc_prefixSumValidIndex st then to_int32 (i - 1) else psc_prefixSumValidIndex st)"
  shows "\<exists>ps'. keep_prefix (psc_prefixSum st) v (length vs') = Inr ps' \<and>
    psc_ok \<lparr>psc_values = vs', psc_prefixSum = ps', psc_prefixSumValidIndex = v\<rparr>"
proof -
  have v: "v = min (i - 1) (psc_prefixSumValidIndex st)"
    using assms(1-3,7) by (auto simp: psc_ok_def int32_range_def min_def)
  then have "take (nat (v + 1)) (take (nat i) vs') = take (nat (v + 1)) (take (nat i) (psc_values st))"
    using assms(6) by simp
  moreover have "min (nat (v + 1)) (nat i) = nat (v + 1)" using v by simp
  ultimately have "take (nat (v + 1)) vs' = take (nat (v + 1)) (psc_values st)" by (simp only: take_take)
  then show ?thesis
    using sums_upto_keep [of "psc_values st" "psc_prefixSum st" "psc_prefixSumValidIndex st" v vs'] assms v
    by (auto simp: psc_ok_def)
qed

lemma insert_arrays:
  assumes "i \<le> length vs"
  shows "typed_set (replicate (length vs + length ins) 0) (js_slice vs 0 (int i)) 0 =
      Inr (take i vs @ replicate (length vs + length ins - i) 0)"
    and "typed_set (take i vs @ replicate (length vs + length ins - i) 0) (js_slice_from vs (int i)) (int i + int (length ins)) =
      Inr (take i vs @ replicate (length ins) 0 @ drop i vs)"
    and "typed_set (take i vs @ replicate (length ins) 0 @ drop i vs) ins (int i) =
      Inr (take i vs @ ins @ drop i vs)"
  using assms
  by (auto simp: typed_set_def js_slice_def js_slice_from_def seg_def min_def nat_add_distrib)

lemma PrefixSumComputer_insertValues_ok:
  assumes "psc_ok st" "0 \<le> i" "i \<le> int (length (psc_values st))" "length (psc_values st) + length ins < 2 ^ 31"
  shows "\<exists>st'. PrefixSumComputer_insertValues st i ins = Inr (st', ins \<noteq> []) \<and> psc_ok st' \<and>
    psc_values st' = take (nat i) (psc_values st) @ ins @ drop (nat i) (psc_values st)"
proof (cases "ins = []")
  case True
  then show ?thesis using assms by (simp add: PrefixSumComputer_insertValues_def Let_def)
next
  case False
  let ?vs = "take (nat i) (psc_values st) @ ins @ drop (nat i) (psc_values st)"
  have i: "nat i \<le> length (psc_values st)" "int (nat i) = i" using assms by auto
  note arrays = insert_arrays [OF i(1), of ins, unfolded i(2)]
  have "i < 2 ^ 31" using assms by (simp add: psc_ok_def)
  moreover have "int (length ?vs) = int (length (psc_values st)) + int (length ins)" using i by simp
  ultimately show ?thesis
    using False assms arrays psc_ok_changed [OF assms(1-3), of ?vs]
    by (auto simp: PrefixSumComputer_insertValues_def Let_def)
qed

lemma remove_arrays:
  assumes "i + c \<le> length vs"
  shows "typed_set (replicate (length vs - c) 0) (js_slice vs 0 (int i)) 0 =
      Inr (take i vs @ replicate (length vs - c - i) 0)"
    and "typed_set (take i vs @ replicate (length vs - c - i) 0) (js_slice_from vs (int i + int c)) (int i) =
      Inr (take i vs @ drop (i + c) vs)"
  using assms
  by (auto simp: typed_set_def js_slice_def js_slice_from_def seg_def min_def nat_add_distrib)

lemma PrefixSumComputer_removeValues_ok:
  assumes "psc_ok st" "0 \<le> i" "i < 2 ^ 31" "0 \<le> count" "count < 2 ^ 31"
  shows "\<exists>st'. PrefixSumComputer_removeValues st i count =
      Inr (st', i < int (length (psc_values st)) \<and> count \<noteq> 0) \<and> psc_ok st' \<and>
    psc_values st' = take (nat i) (psc_values st) @ drop (nat i + nat count) (psc_values st)"
proof (cases "i < int (length (psc_values st)) \<and> count \<noteq> 0")
  case False
  then show ?thesis using assms by (auto simp: PrefixSumComputer_removeValues_def Let_def)
next
  case True
  define c where "c = nat (min count (int (length (psc_values st)) - i))"
  have c: "nat i + c \<le> length (psc_values st)" "int (nat i) = i" "int c = min count (int (length (psc_values st)) - i)"
    using True assms by (auto simp: c_def)
  let ?vs = "take (nat i) (psc_values st) @ drop (nat i + c) (psc_values st)"
  note arrays = remove_arrays [OF c(1), unfolded c(2)]
  have "drop (nat i + nat count) (psc_values st) = drop (nat i + c) (psc_values st)"
    using True assms(2,4) by (auto simp: c_def min_def nat_diff_distrib)
  moreover have "nat (int (length (psc_values st)) - int c) = length (psc_values st) - c"
    "\<not> int (length (psc_values st)) - int c < 0" using c(1) by auto
  moreover have "(if count \<ge> int (length (psc_values st)) - i then int (length (psc_values st)) - i else count) = int c"
    using c(3) by (simp add: min_def)
  moreover have "int c \<noteq> 0" using True assms by (auto simp: c_def)
  moreover have len: "int (length ?vs) = int (length (psc_values st)) - int c" using c(1) by simp
  moreover have "\<exists>ps'. keep_prefix (psc_prefixSum st) v (length ?vs) = Inr ps' \<and>
      psc_ok \<lparr>psc_values = ?vs, psc_prefixSum = ps', psc_prefixSumValidIndex = v\<rparr>"
    if "v = (if i - 1 < psc_prefixSumValidIndex st then to_int32 (i - 1) else psc_prefixSumValidIndex st)" for v
  proof (rule psc_ok_changed [OF assms(1,2) _ _ _ _ that])
    show "length ?vs < 2 ^ 31" using len assms(1) unfolding psc_ok_def by linarith
  qed (use True c len in auto)
  ultimately show ?thesis
    using True assms arrays
    by (auto simp: PrefixSumComputer_removeValues_def Let_def)
qed

lemma word_of_int_to_int32 [simp]: "word_of_int (to_int32 v) = (word_of_int v :: 32 word)"
proof -
  have "word_of_int (w mod 2 ^ 32) = (word_of_int w :: 32 word)" for w
    by (simp add: word_of_int_eq_iff take_bit_eq_mod)
  from this [of "v + 2 ^ 31"] show ?thesis by (simp add: to_int32_def)
qed

lemma PrefixSumComputer_setValue_ok:
  assumes "psc_ok st" "0 \<le> i" "i < int (length (psc_values st))" "0 \<le> val" "val < 2 ^ 32"
  shows "psc_ok (fst (PrefixSumComputer_setValue st i val)) \<and>
    psc_values (fst (PrefixSumComputer_setValue st i val)) = (psc_values st)[nat i := word_of_int val]"
proof (cases "map_option uint (js_get (psc_values st) i) = Some (toUint32 val)")
  case True
  then have "uint (psc_values st ! nat i) = to_int32 val"
    using assms by (auto simp: js_get_def toUint32_def)
  then have "psc_values st ! nat i = word_of_int val"
    by (metis word_of_int_to_int32 word_of_int_uint)
  then have "(psc_values st)[nat i := word_of_int val] = psc_values st"
    by (metis list_update_id)
  with True assms show ?thesis by (simp add: PrefixSumComputer_setValue_def psc_ok_def Let_def)
next
  case False
  let ?vs = "(psc_values st)[nat i := word_of_int val]"
  have i: "toUint32 i = i" using assms by (simp add: psc_ok_def)
  define v where "v = (if i - 1 < psc_prefixSumValidIndex st then to_int32 (i - 1) else psc_prefixSumValidIndex st)"
  have v: "v = min (i - 1) (psc_prefixSumValidIndex st)"
    using assms(1-3) by (auto simp: v_def psc_ok_def int32_range_def min_def)
  have "sums_upto ?vs (psc_prefixSum st) v"
    using assms(1) v by (auto simp: psc_ok_def sums_upto_def take_update_cancel)
  moreover have "word_of_int (toUint32 val) = (word_of_int val :: 32 word)"
    using assms by (simp add: toUint32_def)
  ultimately show ?thesis
    using False assms i v
    by (auto simp: PrefixSumComputer_setValue_def Let_def typed_put_def psc_ok_def simp flip: v_def)
qed

subsection \<open>Sums that fit into 32 bits\<close>

definition psc_vals :: "PrefixSumComputer \<Rightarrow> int list" where
  "psc_vals st = map uint (psc_values st)"

definition psc_fits :: "PrefixSumComputer \<Rightarrow> bool" where
  "psc_fits st \<longleftrightarrow> psc_ok st \<and> sum_list (psc_vals st) < 2 ^ 32"

lemma uint_sum_list:
  "sum_list (map uint ws) < 2 ^ 32 \<Longrightarrow> uint (sum_list ws) = sum_list (map uint (ws :: 32 word list))"
proof (induction ws)
  case (Cons w ws)
  have "0 \<le> sum_list (map uint ws)" by (rule sum_list_nonneg) auto
  moreover have "uint (w + sum_list ws) = (uint w + uint (sum_list ws)) mod 2 ^ 32"
    by (simp add: uint_word_ariths)
  moreover have "sum_list (map uint ws) < 2 ^ 32"
    using Cons.prems uint_ge_0 [of w] unfolding list.map sum_list.Cons by linarith
  ultimately show ?case using Cons by simp
qed simp

lemma uint_sum_take:
  assumes "sum_list (map uint vs) < 2 ^ 32"
  shows "uint (sum_list (take k vs)) = sum_list (take k (map uint (vs :: 32 word list)))"
proof -
  have "sum_list (take k (map uint vs)) \<le> sum_list (take (length vs) (map uint vs))"
    using sum_list_take_mono [of "map uint vs" k "length vs"] by (cases "k \<le> length vs") auto
  then show ?thesis using uint_sum_list [of "take k vs"] assms by (simp add: take_map)
qed

lemma indexOf_loop_locates:
  assumes fits: "sum_list (map uint vs) < 2 ^ 32" and sums: "sums_upto vs ps (int (length vs) - 1)"
  shows "0 \<le> low \<Longrightarrow> high < int (length vs) \<Longrightarrow> sum_list (take (nat low) (map uint vs)) \<le> s \<Longrightarrow>
    s < sum_list (take (nat (high + 1)) (map uint vs)) \<Longrightarrow>
    \<exists>i < length vs. indexOf_loop vs ps s low high mid midStart = (int i, sum_list (take i (map uint vs))) \<and>
      sum_list (take i (map uint vs)) \<le> s \<and> s < sum_list (take (Suc i) (map uint vs))"
  using fits sums
proof (induction vs ps s low high mid midStart rule: indexOf_loop.induct)
  case (1 vs ps s low high mid midStart)
  let ?S = "\<lambda>k. sum_list (take k (map uint vs))"
  have nn: "\<forall>v \<in> set (map uint vs). 0 \<le> v" by auto
  have le: "low \<le> high"
  proof (rule ccontr)
    assume "\<not> low \<le> high"
    then have "nat (high + 1) \<le> nat low" by linarith
    then have "?S (nat (high + 1)) \<le> ?S (nat low)" by (rule sum_list_take_mono [OF nn])
    with 1 show False by linarith
  qed
  define m where "m = low + (high - low) div 2"
  have m: "low \<le> m" "m \<le> high" "0 \<le> m" "nat m < length vs" "nat (m + 1) = Suc (nat m)" "nat (m - 1 + 1) = nat m"
    using le "1.prems" by (auto simp: m_def)
  have stop: "uint (ps ! nat m) = ?S (Suc (nat m))"
    using "1.prems"(5,6) m by (simp add: sums_upto_def uint_sum_take)
  have start: "uint (ps ! nat m) - uint (vs ! nat m) = ?S (nat m)"
    using m(4) by (simp add: stop take_Suc_conv_app_nth)
  note eq = indexOf_loop.simps [of vs ps s low high mid midStart]
  consider "s < ?S (nat m)" | "s \<ge> ?S (Suc (nat m))" "\<not> s < ?S (nat m)" | "?S (nat m) \<le> s" "s < ?S (Suc (nat m))"
    by linarith
  then show ?case
  proof cases
    case 1
    then show ?thesis
      using "1.IH"(1) [OF le m_def refl refl] "1.prems" m start eq le
      by (simp add: m_def [symmetric] Let_def stop)
  next
    case 2
    then show ?thesis
      using "1.IH"(2) [OF le m_def refl refl] "1.prems" m start eq le
      by (simp add: m_def [symmetric] Let_def stop)
  next
    case 3
    with m start eq le show ?thesis
      by (intro exI [of _ "nat m"]) (simp add: m_def [symmetric] Let_def stop)
  qed
qed

lemma PrefixSumComputer_getTotalSum_sums:
  assumes "psc_ok st"
  shows "\<exists>st'. PrefixSumComputer_getTotalSum st = (st', Some (uint (sum_list (psc_values st)))) \<and>
    psc_ok st' \<and> psc_values st' = psc_values st \<and> psc_prefixSumValidIndex st' = int (length (psc_values st)) - 1"
proof (cases "psc_values st = []")
  case True
  then show ?thesis using assms by (auto simp: PrefixSumComputer_getTotalSum_def psc_ok_def)
next
  case False
  then have "0 \<le> int (length (psc_values st)) - 1" "nat (int (length (psc_values st)) - 1) + 1 = length (psc_values st)"
    by (auto simp: neq_Nil_conv)
  then show ?thesis
    using getPrefixSum_internal_sums [of st "int (length (psc_values st)) - 1"] assms False
    by (auto simp: PrefixSumComputer_getTotalSum_def psc_ok_def max_def)
qed

lemma PrefixSumComputer_getIndexOf_locates:
  assumes "psc_fits st" "0 \<le> s" "s < sum_list (psc_vals st)"
  shows "\<exists>st' r. PrefixSumComputer_getIndexOf st s = (st', r) \<and> psc_fits st' \<and> psc_vals st' = psc_vals st \<and>
    locates (psc_vals st) s r"
proof -
  obtain st' where st': "fst (PrefixSumComputer_getTotalSum st) = st'" "psc_ok st'" "psc_values st' = psc_values st"
      "psc_prefixSumValidIndex st' = int (length (psc_values st)) - 1"
    using PrefixSumComputer_getTotalSum_sums [of st] assms(1) unfolding psc_fits_def by auto
  have "sums_upto (psc_values st) (psc_prefixSum st') (int (length (psc_values st)) - 1)"
    using st' by (simp add: psc_ok_def)
  from indexOf_loop_locates [OF _ this, of 0 "int (length (psc_values st)) - 1" s 0 0] assms
  obtain i where "i < length (psc_values st)"
    "indexOf_loop (psc_values st) (psc_prefixSum st') s 0 (int (length (psc_values st)) - 1) 0 0 =
       (int i, sum_list (take i (psc_vals st)))"
    "sum_list (take i (psc_vals st)) \<le> s" "s < sum_list (take (Suc i) (psc_vals st))"
    by (auto simp: psc_fits_def psc_vals_def)
  then show ?thesis
    using st' assms(1)
    by (auto simp: PrefixSumComputer_getIndexOf_def locates_def psc_fits_def psc_vals_def)
qed

definition psc_indexOf :: "PrefixSumComputer \<Rightarrow> int \<Rightarrow> (PrefixSumComputer \<times> PrefixSumIndexOfResult) result" where
  "psc_indexOf st s = Inr (PrefixSumComputer_getIndexOf st s)"

interpretation prefix_sum_computer: sum_index psc_fits psc_vals psc_indexOf
proof
  show "psc_fits st \<Longrightarrow> v \<in> set (psc_vals st) \<Longrightarrow> 0 \<le> v" for st v by (auto simp: psc_vals_def)
  show "\<exists>st' r. psc_indexOf st s = Inr (st', r) \<and> psc_fits st' \<and> psc_vals st' = psc_vals st \<and> locates (psc_vals st) s r"
    if "psc_fits st" "0 \<le> s" "s < sum_list (psc_vals st)" for st s
    using PrefixSumComputer_getIndexOf_locates [OF that] by (simp add: psc_indexOf_def)
qed

section \<open>ConstantTimePrefixSumComputer is correct\<close>

text \<open>The complete contents of the two caches for the values \<open>vs\<close>.\<close>

definition all_sums :: "int list \<Rightarrow> int option list" where
  "all_sums vs = map (\<lambda>i. Some (sum_list (take (Suc i) vs))) [0..<length vs]"

definition all_indices :: "int list \<Rightarrow> int option list" where
  "all_indices vs = concat (map (\<lambda>i. replicate (nat (vs ! i)) (Some (int i))) [0..<length vs])"

lemma all_sums_snoc [simp]: "all_sums (xs @ [x]) = all_sums xs @ [Some (sum_list xs + x)]"
  by (simp add: all_sums_def)

lemma all_indices_snoc [simp]: "all_indices (xs @ [x]) = all_indices xs @ replicate (nat x) (Some (int (length xs)))"
proof -
  have "map (\<lambda>i. replicate (nat ((xs @ [x]) ! i)) (Some (int i))) [0..<length xs] =
      map (\<lambda>i. replicate (nat (xs ! i)) (Some (int i))) [0..<length xs]"
    by (simp add: nth_append)
  note same = arg_cong [OF this, of concat]
  show ?thesis unfolding all_indices_def length_append_singleton upt_Suc_append [OF le0] map_append concat_append same
    by simp
qed

lemma all_caches_Nil [simp]: "all_sums [] = []" "all_indices [] = []"
  by (simp_all add: all_sums_def all_indices_def)

lemma length_all_sums [simp]: "length (all_sums vs) = length vs"
  by (simp add: all_sums_def)

lemma length_all_indices: "\<forall>v \<in> set vs. 0 \<le> v \<Longrightarrow> int (length (all_indices vs)) = sum_list vs"
  by (induction vs rule: rev_induct) auto

lemma all_sums_take: "take n (all_sums vs) = all_sums (take n vs)"
proof (rule nth_equalityI)
  fix i assume "i < length (take n (all_sums vs))"
  then have "i < n" "i < length vs" by simp_all
  moreover from this have "min (Suc i) n = Suc i" by simp
  ultimately show "take n (all_sums vs) ! i = all_sums (take n vs) ! i"
    by (simp add: all_sums_def take_take)
qed simp

lemma all_indices_append: "\<exists>zs. all_indices (xs @ ys) = all_indices xs @ zs"
proof (induction ys rule: rev_induct)
  case (snoc y ys)
  then show ?case using all_indices_snoc [of "xs @ ys" y] by auto
qed simp

lemma length_all_indices_take:
  "\<forall>v \<in> set vs. 0 \<le> v \<Longrightarrow> length (all_indices (take n vs)) = nat (sum_list (take n vs))"
  using length_all_indices [of "take n vs"] by (metis in_set_takeD nat_int)

lemma all_indices_take:
  assumes "\<forall>v \<in> set vs. 0 \<le> v"
  shows "take (nat (sum_list (take n vs))) (all_indices vs) = all_indices (take n vs)"
proof -
  obtain zs where "all_indices vs = all_indices (take n vs) @ zs"
    using all_indices_append [of "take n vs" "drop n vs"] by auto
  then show ?thesis using length_all_indices_take [OF assms, of n] by simp
qed

definition cached_upto :: "int list \<Rightarrow> nat \<Rightarrow> int option list \<Rightarrow> int option list \<Rightarrow> bool" where
  "cached_upto vs n ps ix \<longleftrightarrow> take n ps = all_sums (take n vs) \<and>
     take (nat (sum_list (take n vs))) ix = all_indices (take n vs)"

definition ct_inv :: "int list \<Rightarrow> ConstantTimePrefixSumComputer \<Rightarrow> bool" where
  "ct_inv vs st \<longleftrightarrow> ct_values st = map Some vs \<and> (\<forall>v \<in> set vs. 0 \<le> v) \<and> sum_list vs < 2 ^ 32 \<and>
     length vs < 2 ^ 32 \<and> -1 \<le> ct_validEndIndex st \<and> ct_validEndIndex st < int (length vs) \<and>
     cached_upto vs (nat (ct_validEndIndex st + 1)) (ct_prefixSum st) (ct_indexBySum st) \<and>
     (ct_isValid st \<longrightarrow> vs \<noteq> [] \<and> ct_prefixSum st = all_sums vs \<and> ct_indexBySum st = all_indices vs)"

lemma array_put_take:
  "n \<le> length xs \<Longrightarrow> take (Suc n) (array_put xs (Some (int n)) v) = take n xs @ [v]"
  by (cases "n = length xs") (auto simp: array_put_def take_Suc_conv_app_nth nth_append)

lemma fill_index_take:
  "k \<le> length ix \<Longrightarrow>
     take (k + j) (fill_index (Some (int k)) i j ix) = take k ix @ replicate j (Some i) \<and>
     k + j \<le> length (fill_index (Some (int k)) i j ix)"
proof (induction j)
  case (Suc j)
  let ?f = "fill_index (Some (int k)) i j ix"
  have "take (Suc (k + j)) (array_put ?f (Some (int (k + j))) (Some i)) = take (k + j) ?f @ [Some i]"
    using Suc by (intro array_put_take) simp
  moreover from this have "Suc (k + j) \<le> length (array_put ?f (Some (int (k + j))) (Some i))"
    using Suc by (auto simp: array_put_def)
  ultimately show ?case using Suc by (simp add: replicate_append_same)
qed simp

lemma cached_upto_step:
  assumes "cached_upto vs n ps ix" "n < length vs" "\<forall>v \<in> set vs. 0 \<le> v"
  defines "sumAbove \<equiv> (if int n > 0 then array_get ps (Some (int n - 1)) else Some 0)"
  shows "cached_upto vs (Suc n) (array_put ps (Some (int n)) (plus_opt sumAbove (Some (vs ! n))))
    (fill_index sumAbove (int n) (nat (vs ! n)) ix)"
proof -
  have ps: "take n ps = all_sums (take n vs)" and ix: "take (nat (sum_list (take n vs))) ix = all_indices (take n vs)"
    using assms(1) by (simp_all add: cached_upto_def)
  have n: "n \<le> length ps" using arg_cong [OF ps, of length] assms(2) by simp
  have nn: "0 \<le> sum_list (take n vs)" by (rule sum_list_nonneg) (use assms(3) in \<open>auto dest: in_set_takeD\<close>)
  then have k: "int (nat (sum_list (take n vs))) = sum_list (take n vs)" by simp
  have len: "nat (sum_list (take n vs)) \<le> length ix"
    using arg_cong [OF ix, of length] length_all_indices_take [OF assms(3), of n] by simp
  have above: "sumAbove = Some (sum_list (take n vs))"
  proof (cases n)
    case (Suc m)
    have "ps ! m = take n ps ! m" using Suc by simp
    also have "\<dots> = Some (sum_list (take n vs))"
      unfolding ps all_sums_take [symmetric] using Suc assms(2) by (simp add: all_sums_def del: upt_Suc)
    finally show ?thesis using Suc n by (simp add: sumAbove_def array_get_def js_get_def)
  qed (simp add: sumAbove_def)
  have take: "take (Suc n) vs = take n vs @ [vs ! n]" using assms(2) by (simp add: take_Suc_conv_app_nth)
  have "nat (sum_list (take (Suc n) vs)) = nat (sum_list (take n vs)) + nat (vs ! n)"
    using nn assms(2,3) by (simp add: take nat_add_distrib)
  then show ?thesis
    using ps ix assms(2) array_put_take [OF n, of "Some (sum_list (take n vs) + vs ! n)"]
      fill_index_take [OF len, of "nat (vs ! n)" "int n"]
    unfolding k by (simp add: cached_upto_def above take)
qed

lemma int_upto_Cons: "a < b \<Longrightarrow> int_upto a b = a # int_upto (a + 1) b"
proof -
  assume "a < b"
  then have "nat (b - a) = Suc (nat (b - (a + 1)))" by simp
  then show ?thesis by (simp add: int_upto_def upt_conv_Cons map_Suc_upt [symmetric] del: upt_Suc)
qed

lemma ensureValid_loop_cached:
  assumes "\<forall>v \<in> set vs. 0 \<le> v"
  shows "n \<le> length vs \<Longrightarrow> cached_upto vs n ps ix \<Longrightarrow>
    (case ensureValid_loop (map Some vs) (int_upto (int n) (int (length vs))) (ps, ix) of
       (ps', ix') \<Rightarrow> cached_upto vs (length vs) ps' ix')"
proof (induction "length vs - n" arbitrary: n ps ix)
  case 0
  then show ?case by (simp add: int_upto_def)
next
  case (Suc d)
  then have lt: "n < length vs" by simp
  note step = cached_upto_step [OF Suc.prems(2) lt assms]
  have "array_get (map Some vs) (Some (int n)) = Some (vs ! n)"
    using lt by (simp add: array_get_def js_get_def)
  moreover have "int_upto (int n) (int (length vs)) = int n # int_upto (int (Suc n)) (int (length vs))"
    using lt int_upto_Cons [of "int n" "int (length vs)"] by (simp add: add.commute)
  ultimately show ?case
    using Suc.hyps(1) [OF _ _ step] Suc.hyps(2) lt by (simp add: Let_def)
qed

text \<open>
  After \<open>_ensureValid\<close> the caches are complete, if there is a value; without values the new
  length of \<open>_indexBySum\<close> is \<open>undefined\<close>, and setting it throws.
\<close>

lemma ensureValid_complete:
  assumes "ct_inv vs st" "vs \<noteq> []"
  shows "\<exists>st'. ConstantTimePrefixSumComputer_ensureValid st = Inr st' \<and> ct_inv vs st' \<and>
    ct_prefixSum st' = all_sums vs \<and> ct_indexBySum st' = all_indices vs"
proof (cases "ct_isValid st")
  case True
  with assms show ?thesis by (auto simp: ConstantTimePrefixSumComputer_ensureValid_def ct_inv_def)
next
  case False
  let ?n = "nat (ct_validEndIndex st + 1)"
  have nn: "\<forall>v \<in> set vs. 0 \<le> v" using assms by (simp add: ct_inv_def)
  obtain ps ix where loop: "ensureValid_loop (map Some vs) (int_upto (ct_validEndIndex st + 1) (int (length vs)))
      (ct_prefixSum st, ct_indexBySum st) = (ps, ix)" by fastforce
  have "int ?n = ct_validEndIndex st + 1" "?n \<le> length vs" using assms(1) by (auto simp: ct_inv_def)
  with ensureValid_loop_cached [OF nn, of ?n "ct_prefixSum st" "ct_indexBySum st"] loop assms(1)
  have "cached_upto vs (length vs) ps ix" by (simp add: ct_inv_def)
  then have ps: "take (length vs) ps = all_sums vs" and ix: "take (nat (sum_list vs)) ix = all_indices vs"
    by (simp_all add: cached_upto_def)
  have "length vs \<le> length ps" using arg_cong [OF ps, of length] by simp
  then have "array_setLength ps (Some (int (length vs))) = Inr (all_sums vs)"
    using ps assms(1) by (auto simp: array_setLength_def ct_inv_def)
  moreover have "array_get (all_sums vs) (Some (int (length vs) - 1)) = Some (sum_list vs)"
    using assms(2) by (cases vs rule: rev_cases) (auto simp: array_get_def js_get_def nth_append)
  moreover have "nat (sum_list vs) \<le> length ix"
    using arg_cong [OF ix, of length] length_all_indices_take [OF nn, of "length vs"] by simp
  then have "array_setLength ix (Some (sum_list vs)) = Inr (all_indices vs)"
    using ix assms(1) nn by (auto simp: array_setLength_def ct_inv_def sum_list_nonneg linorder_not_less)
  ultimately have "ConstantTimePrefixSumComputer_ensureValid st = Inr (st\<lparr>ct_isValid := True,
      ct_validEndIndex := int (length vs) - 1, ct_prefixSum := all_sums vs, ct_indexBySum := all_indices vs\<rparr>)"
    using False loop assms(1) by (simp add: ConstantTimePrefixSumComputer_ensureValid_def ct_inv_def Let_def)
  moreover have "cached_upto vs (length vs) (all_sums vs) (all_indices vs)"
    using all_indices_take [OF nn, of "length vs"] by (simp add: cached_upto_def)
  ultimately show ?thesis using assms by (auto simp: ct_inv_def)
qed

lemma ensureValid_empty:
  "ct_inv [] st \<Longrightarrow> ConstantTimePrefixSumComputer_ensureValid st = Inl RangeError"
  by (auto simp: ct_inv_def ConstantTimePrefixSumComputer_ensureValid_def int_upto_def array_setLength_def
      array_get_def js_get_def)

lemma cached_upto_smaller:
  assumes "cached_upto vs n ps ix" "m \<le> n" "take m vs' = take m vs" "\<forall>v \<in> set vs. 0 \<le> v"
  shows "cached_upto vs' m ps ix"
proof -
  have "take m ps = take m (take n ps)" using assms(2) by (simp add: min_def)
  also have "\<dots> = all_sums (take m vs)"
    using assms(1,2) by (simp add: cached_upto_def all_sums_take min_def)
  finally have ps: "take m ps = all_sums (take m vs)" .
  have le: "sum_list (take m vs) \<le> sum_list (take n vs)" by (rule sum_list_take_mono [OF assms(4,2)])
  have "take (nat (sum_list (take m vs))) ix = take (nat (sum_list (take m vs))) (take (nat (sum_list (take n vs))) ix)"
    using le by (simp add: min_def)
  moreover have "take (nat (sum_list (take n vs))) ix = all_indices (take n vs)"
    using assms(1) by (simp add: cached_upto_def)
  ultimately have "take (nat (sum_list (take m vs))) ix = take (nat (sum_list (take m vs))) (all_indices (take n vs))"
    by simp
  then have "take (nat (sum_list (take m vs))) ix = all_indices (take m vs)"
    using all_indices_take [of "take n vs" m] assms(2,4) by (auto dest: in_set_takeD simp: min_def)
  with ps show ?thesis by (simp add: cached_upto_def assms(3))
qed

lemma ct_inv_changed:
  assumes "ct_inv vs st" "0 \<le> i" "i \<le> int (length vs)" "i \<le> int (length vs')" "take (nat i) vs' = take (nat i) vs"
    "\<forall>v \<in> set vs'. 0 \<le> v" "sum_list vs' < 2 ^ 32" "length vs' < 2 ^ 32"
  shows "ct_inv vs' (ConstantTimePrefixSumComputer_invalidate (st\<lparr>ct_values := map Some vs'\<rparr>) i)"
proof -
  let ?v = "min (ct_validEndIndex st) (i - 1)"
  have le: "nat (?v + 1) \<le> nat i" by simp
  have same: "take (nat (?v + 1)) vs' = take (nat (?v + 1)) vs"
    using arg_cong [OF assms(5), of "take (nat (?v + 1))"] unfolding take_take min_absorb1 [OF le] .
  have c: "cached_upto vs (nat (ct_validEndIndex st + 1)) (ct_prefixSum st) (ct_indexBySum st)" "\<forall>v \<in> set vs. 0 \<le> v"
    using assms(1) by (simp_all add: ct_inv_def)
  have "nat (?v + 1) \<le> nat (ct_validEndIndex st + 1)" by simp
  from cached_upto_smaller [OF c(1) this same c(2)]
  have "cached_upto vs' (nat (?v + 1)) (ct_prefixSum st) (ct_indexBySum st)" .
  moreover have "-1 \<le> ?v" "?v < int (length vs')" using assms(1-4) unfolding ct_inv_def by linarith+
  ultimately show ?thesis
    using assms(6-8) unfolding ct_inv_def ConstantTimePrefixSumComputer_invalidate_def by simp
qed

lemma ConstantTimePrefixSumComputer_insertValues_inv:
  assumes "ct_inv vs st" "0 \<le> i" "i \<le> int (length vs)" "\<forall>v \<in> set ins. 0 \<le> v" "sum_list vs + sum_list ins < 2 ^ 32"
    "length vs + length ins < 2 ^ 32"
  shows "ct_inv (take (nat i) vs @ ins @ drop (nat i) vs) (ConstantTimePrefixSumComputer_insertValues st i (map Some ins))"
proof -
  let ?vs = "take (nat i) vs @ ins @ drop (nat i) vs"
  have "arrayInsert (ct_values st) i (map Some ins) = map Some ?vs"
    using assms(1-3) by (auto simp: ct_inv_def arrayInsert_def js_slice_def js_slice_from_def seg_def take_map drop_map)
  moreover have "ct_inv ?vs (ConstantTimePrefixSumComputer_invalidate (st\<lparr>ct_values := map Some ?vs\<rparr>) i)"
  proof (rule ct_inv_changed [OF assms(1-3)])
    show "\<forall>v \<in> set ?vs. 0 \<le> v" using assms(1,4) by (auto simp: ct_inv_def dest: in_set_takeD in_set_dropD)
    show "sum_list ?vs < 2 ^ 32"
      using sum_list_append [of "take (nat i) vs" "drop (nat i) vs"] assms(5) by simp
  qed (use assms(2,3,6) in auto)
  ultimately show ?thesis by (simp only: ConstantTimePrefixSumComputer_insertValues_def)
qed

lemma ConstantTimePrefixSumComputer_removeValues_inv:
  assumes "ct_inv vs st" "0 \<le> i" "i \<le> int (length vs)" "0 \<le> count"
  shows "ct_inv (take (nat i) vs @ drop (nat i + nat count) vs) (ConstantTimePrefixSumComputer_removeValues st i count)"
proof -
  let ?vs = "take (nat i) vs @ drop (nat i + nat count) vs"
  have nn: "\<forall>v \<in> set vs. 0 \<le> v" using assms(1) by (simp add: ct_inv_def)
  have "0 \<le> sum_list (take (nat count) (drop (nat i) vs))"
    by (rule sum_list_nonneg) (use nn in \<open>auto dest: in_set_takeD in_set_dropD\<close>)
  moreover have "vs = take (nat i) vs @ take (nat count) (drop (nat i) vs) @ drop (nat i + nat count) vs"
    by (simp add: add.commute flip: drop_drop)
  then have "sum_list vs = sum_list (take (nat i) vs) + sum_list (take (nat count) (drop (nat i) vs)) +
      sum_list (drop (nat i + nat count) vs)"
    by (metis sum_list_append add.assoc)
  ultimately have sum: "sum_list ?vs < 2 ^ 32" using assms(1) by (simp add: ct_inv_def)
  have "js_splice (ct_values st) i count [] = map Some ?vs"
    using assms(1) by (simp add: ct_inv_def js_splice_def take_map drop_map)
  moreover have "ct_inv ?vs (ConstantTimePrefixSumComputer_invalidate (st\<lparr>ct_values := map Some ?vs\<rparr>) i)"
  proof (rule ct_inv_changed [OF assms(1-3) _ _ _ sum])
    show "\<forall>v \<in> set ?vs. 0 \<le> v" using nn by (auto dest: in_set_takeD in_set_dropD)
    have "length ?vs \<le> length vs" by simp
    then show "length ?vs < 2 ^ 32" using assms(1) unfolding ct_inv_def by linarith
  qed (use assms(2,3) in auto)
  ultimately show ?thesis by (simp only: ConstantTimePrefixSumComputer_removeValues_def)
qed

lemma ConstantTimePrefixSumComputer_setValue_inv:
  assumes "ct_inv vs st" "0 \<le> i" "i < int (length vs)" "0 \<le> val" "sum_list (vs[nat i := val]) < 2 ^ 32"
  shows "ct_inv (vs[nat i := val]) (ConstantTimePrefixSumComputer_setValue st i val)"
proof (cases "vs ! nat i = val")
  case True
  then have "vs[nat i := val] = vs" by (metis list_update_id)
  with True assms show ?thesis
    by (auto simp: ConstantTimePrefixSumComputer_setValue_def ct_inv_def array_get_def js_get_def)
next
  case False
  have "\<forall>v \<in> set (vs[nat i := val]). 0 \<le> v" using assms(1,4) set_update_subset_insert [of vs "nat i" val] by (auto simp: ct_inv_def)
  moreover have "array_put (ct_values st) (Some i) (Some val) = map Some (vs[nat i := val])"
    using assms(1-3) by (auto simp: ct_inv_def array_put_def map_update)
  moreover have "array_get (ct_values st) (Some i) \<noteq> Some val"
    using False assms(1-3) by (auto simp: ct_inv_def array_get_def js_get_def)
  ultimately show ?thesis
    unfolding ConstantTimePrefixSumComputer_setValue_def
    using ct_inv_changed [OF assms(1,2), of "vs[nat i := val]"] assms by (simp add: ct_inv_def)
qed

lemma all_indices_locate:
  assumes "\<forall>v \<in> set vs. 0 \<le> v" "0 \<le> s" "s < sum_list vs"
  shows "\<exists>i < length vs. array_get (all_indices vs) (Some s) = Some (int i) \<and>
    sum_list (take i vs) \<le> s \<and> s < sum_list (take (Suc i) vs)"
  using assms
proof (induction vs rule: rev_induct)
  case (snoc x xs)
  then have len: "int (length (all_indices xs)) = sum_list xs" by (intro length_all_indices) simp
  show ?case
  proof (cases "s < sum_list xs")
    case True
    with snoc obtain i where i: "i < length xs" "array_get (all_indices xs) (Some s) = Some (int i)"
      "sum_list (take i xs) \<le> s" "s < sum_list (take (Suc i) xs)" by auto
    moreover have "array_get (all_indices (xs @ [x])) (Some s) = array_get (all_indices xs) (Some s)"
      using True snoc.prems len by (auto simp: array_get_def js_get_def nth_append)
    ultimately show ?thesis by (intro exI [of _ i]) auto
  next
    case False
    then have "array_get (all_indices (xs @ [x])) (Some s) = Some (int (length xs))"
      using snoc.prems len by (auto simp: array_get_def js_get_def nth_append)
    with False snoc.prems show ?thesis by (intro exI [of _ "length xs"]) auto
  qed
qed simp

lemma all_sums_above:
  "i < length vs \<Longrightarrow> (if int i > 0 then array_get (all_sums vs) (Some (int i - 1)) else Some 0) = Some (sum_list (take i vs))"
  by (cases i) (auto simp: array_get_def js_get_def all_sums_def simp del: upt_Suc)

definition ct_vals :: "ConstantTimePrefixSumComputer \<Rightarrow> int list" where
  "ct_vals st = map the (ct_values st)"

definition ct_ok :: "ConstantTimePrefixSumComputer \<Rightarrow> bool" where
  "ct_ok st \<longleftrightarrow> ct_inv (ct_vals st) st"

lemma ct_vals_inv: "ct_inv vs st \<Longrightarrow> ct_vals st = vs"
  by (simp add: ct_inv_def ct_vals_def o_def)

interpretation constant_time: sum_index ct_ok ct_vals ConstantTimePrefixSumComputer_getIndexOf
proof
  show "ct_ok st \<Longrightarrow> v \<in> set (ct_vals st) \<Longrightarrow> 0 \<le> v" for st v by (simp add: ct_ok_def ct_inv_def)
  show "\<exists>st' r. ConstantTimePrefixSumComputer_getIndexOf st s = Inr (st', r) \<and> ct_ok st' \<and>
      ct_vals st' = ct_vals st \<and> locates (ct_vals st) s r"
    if "ct_ok st" "0 \<le> s" "s < sum_list (ct_vals st)" for st s
  proof -
    let ?vs = "ct_vals st"
    note s = that(2,3)
    have inv: "ct_inv ?vs st" "?vs \<noteq> []" "\<forall>v \<in> set ?vs. 0 \<le> v" using that by (auto simp: ct_ok_def ct_inv_def)
    obtain st' where st': "ConstantTimePrefixSumComputer_ensureValid st = Inr st'" "ct_inv ?vs st'"
      "ct_prefixSum st' = all_sums ?vs" "ct_indexBySum st' = all_indices ?vs"
      using ensureValid_complete [OF inv(1,2)] by blast
    obtain i where i: "i < length ?vs" "array_get (all_indices ?vs) (Some s) = Some (int i)"
      "sum_list (take i ?vs) \<le> s" "s < sum_list (take (Suc i) ?vs)"
      using all_indices_locate [OF inv(3) s] by blast
    show ?thesis
      using st' i ct_vals_inv [OF st'(2)] all_sums_above [OF i(1)]
      by (auto simp: ConstantTimePrefixSumComputer_getIndexOf_def locates_def ct_ok_def Let_def)
  qed
qed

interpretation prefix_sums: sum_index_pair psc_fits psc_vals psc_indexOf ct_ok ct_vals
    ConstantTimePrefixSumComputer_getIndexOf
  by unfold_locales

section \<open>Properties\<close>

text \<open>
  The computers that its operations reach from the constructor, with the sequence of values
  that the same edits of a plain list give.
\<close>

inductive psc_reaches :: "PrefixSumComputer \<Rightarrow> 32 word list \<Rightarrow> bool" where
  create: "length vs < 2 ^ 31 \<Longrightarrow> psc_reaches (PrefixSumComputer_new vs) vs"
| insertVals: "psc_reaches st vs \<Longrightarrow> 0 \<le> i \<Longrightarrow> i \<le> int (length vs) \<Longrightarrow> length vs + length ins < 2 ^ 31 \<Longrightarrow>
    PrefixSumComputer_insertValues st i ins = Inr (st', b) \<Longrightarrow>
    psc_reaches st' (take (nat i) vs @ ins @ drop (nat i) vs)"
| removeVals: "psc_reaches st vs \<Longrightarrow> 0 \<le> i \<Longrightarrow> i < 2 ^ 31 \<Longrightarrow> 0 \<le> n \<Longrightarrow> n < 2 ^ 31 \<Longrightarrow>
    PrefixSumComputer_removeValues st i n = Inr (st', b) \<Longrightarrow>
    psc_reaches st' (take (nat i) vs @ drop (nat i + nat n) vs)"
| setVal: "psc_reaches st vs \<Longrightarrow> 0 \<le> i \<Longrightarrow> i < int (length vs) \<Longrightarrow> 0 \<le> v \<Longrightarrow> v < 2 ^ 32 \<Longrightarrow>
    PrefixSumComputer_setValue st i v = (st', b) \<Longrightarrow> psc_reaches st' (vs[nat i := word_of_int v])"
| query: "psc_reaches st vs \<Longrightarrow> vs \<noteq> [] \<Longrightarrow> 0 \<le> i \<Longrightarrow> i < 2 ^ 31 \<Longrightarrow>
    PrefixSumComputer_getPrefixSum st i = (st', r) \<Longrightarrow> psc_reaches st' vs"
| total: "psc_reaches st vs \<Longrightarrow> PrefixSumComputer_getTotalSum st = (st', r) \<Longrightarrow> psc_reaches st' vs"
| indexOf: "psc_reaches st vs \<Longrightarrow> PrefixSumComputer_getIndexOf st s = (st', ior) \<Longrightarrow> psc_reaches st' vs"

lemma psc_reaches_ok: "psc_reaches st vs \<Longrightarrow> psc_ok st \<and> psc_values st = vs"
proof (induction rule: psc_reaches.induct)
  case (create vs)
  then show ?case by (simp add: PrefixSumComputer_new_def psc_ok_new [unfolded PrefixSumComputer_new_def])
next
  case (insertVals st vs i ins st' b)
  then show ?case using PrefixSumComputer_insertValues_ok [of st i ins] by auto
next
  case (removeVals st vs i n st' b)
  then show ?case using PrefixSumComputer_removeValues_ok [of st i n] by auto
next
  case (setVal st vs i v st' b)
  then show ?case using PrefixSumComputer_setValue_ok [of st i v] by auto
next
  case (query st vs i st' r)
  then show ?case using getPrefixSum_internal_sums [of st i] by (auto simp: PrefixSumComputer_getPrefixSum_def)
next
  case (total st vs st' r)
  then show ?case using PrefixSumComputer_getTotalSum_sums [of st] by auto
next
  case (indexOf st vs s st' ior)
  then show ?case
    using PrefixSumComputer_getTotalSum_sums [of st]
    by (auto simp: PrefixSumComputer_getIndexOf_def Let_def split: prod.splits)
qed

text \<open>
  C20: whatever values were inserted, removed and set, and whatever was asked before,
  \<open>getPrefixSum(index)\<close> of \<open>PrefixSumComputer\<close> returns the sum of the first \<open>index + 1\<close> values
  of the list that the same edits produce, as long as the total fits into 32 bits; the cache of
  prefix sums is invalidated far enough by every edit.
\<close>

theorem PrefixSumComputer_getPrefixSum_exact:
  assumes "psc_reaches st vs" "sum_list (map uint vs) < 2 ^ 32" "0 \<le> index" "index < int (length vs)"
  shows "snd (PrefixSumComputer_getPrefixSum st index) = Some (sum_list (take (nat index + 1) (map uint vs)))"
proof -
  have st: "psc_ok st" "psc_values st = vs" using psc_reaches_ok [OF assms(1)] by simp_all
  then have "index < 2 ^ 31" using assms(4) by (simp add: psc_ok_def)
  moreover have "psc_values st \<noteq> []" using st(2) assms(3,4) by auto
  ultimately show ?thesis
    using getPrefixSum_internal_sums [OF st(1) assms(3)] st(2) assms(2,3) uint_sum_take [of vs "nat index + 1"]
    by (auto simp: PrefixSumComputer_getPrefixSum_def)
qed

theorem PrefixSumComputer_getPrefixSum_exact_witness:
  "\<exists>st. PrefixSumComputer_insertValues (fst (PrefixSumComputer_getTotalSum (PrefixSumComputer_new [3, 4]))) 1 [7] = Inr (st, True) \<and>
     snd (PrefixSumComputer_getPrefixSum st 1) = Some 10"
proof -
  let ?s0 = "PrefixSumComputer_new [3, 4]"
  obtain s1 r where s1: "PrefixSumComputer_getTotalSum ?s0 = (s1, r)" by (rule prod.exhaust)
  have r1: "psc_reaches s1 [3, 4]" by (rule psc_reaches.total [OF psc_reaches.create s1]) simp
  obtain s2 where s2: "PrefixSumComputer_insertValues s1 1 [7] = Inr (s2, True)"
    using PrefixSumComputer_insertValues_ok [of s1 1 "[7]"] psc_reaches_ok [OF r1] by auto
  have "psc_reaches s2 (take (nat 1) [3, 4] @ [7] @ drop (nat 1) [3, 4])"
    by (rule psc_reaches.insertVals [OF r1 _ _ _ s2]) simp_all
  then have "psc_reaches s2 [3, 7, 4]" by simp
  then have "snd (PrefixSumComputer_getPrefixSum s2 1) = Some (sum_list (take (nat 1 + 1) (map uint [3, 7, 4 :: 32 word])))"
    by (rule PrefixSumComputer_getPrefixSum_exact) simp_all
  then have "snd (PrefixSumComputer_getPrefixSum s2 1) = Some 10" by simp
  with s1 s2 show ?thesis by (intro exI [of _ s2]) simp
qed

text \<open>
  For a sum below the total, \<open>getIndexOf\<close> of \<open>PrefixSumComputer\<close> (a binary search over
  cached prefix sums) and of \<open>ConstantTimePrefixSumComputer\<close> (a table lookup) return the same
  result when they hold the same values, and it is the index of the one element that the sum
  falls into with the remainder of the sum there.
\<close>

theorem prefix_sum_computers_getIndexOf_agree:
  assumes "psc_fits st" "ct_ok ct" "psc_vals st = ct_vals ct" "0 \<le> s" "s < sum_list (ct_vals ct)"
  shows "emap snd (ConstantTimePrefixSumComputer_getIndexOf ct s) = Inr (snd (PrefixSumComputer_getIndexOf st s)) \<and>
    locates (ct_vals ct) s (snd (PrefixSumComputer_getIndexOf st s))"
  using prefix_sums.same_answers [OF assms] prefix_sum_computer.indexOf [of st s] assms
  by (auto simp: psc_indexOf_def)

theorem prefix_sum_computers_getIndexOf_agree_witness:
  "emap snd (ConstantTimePrefixSumComputer_getIndexOf (ConstantTimePrefixSumComputer_new [Some 2, Some 0, Some 3]) 2) =
     Inr (snd (PrefixSumComputer_getIndexOf (PrefixSumComputer_new [2, 0, 3]) 2))"
  using prefix_sum_computers_getIndexOf_agree [of "PrefixSumComputer_new [2, 0, 3]"
      "ConstantTimePrefixSumComputer_new [Some 2, Some 0, Some 3]" 2]
  by (simp add: psc_fits_def psc_vals_def ct_vals_def ct_ok_def ct_inv_def cached_upto_def
      ConstantTimePrefixSumComputer_new_def PrefixSumComputer_new_def psc_ok_def sums_upto_def)

text \<open>
  Edits of a \<open>ConstantTimePrefixSumComputer\<close> keep its invariant (what is cached up to
  \<open>_validEndIndex\<close> is right) and act on its values as edits of a list: inserting, removing and
  setting values, for arguments within the array and totals below \<open>2^32\<close>.
\<close>

theorem ConstantTimePrefixSumComputer_edits:
  assumes "ct_inv vs st" "0 \<le> i" "i < int (length vs)" "\<forall>v \<in> set ins. 0 \<le> v" "sum_list vs + sum_list ins < 2 ^ 32"
    "length vs + length ins < 2 ^ 32" "0 \<le> n" "0 \<le> v" "sum_list (vs[nat i := v]) < 2 ^ 32"
  shows "ct_inv (take (nat i) vs @ ins @ drop (nat i) vs) (ConstantTimePrefixSumComputer_insertValues st i (map Some ins)) \<and>
    ct_inv (take (nat i) vs @ drop (nat i + nat n) vs) (ConstantTimePrefixSumComputer_removeValues st i n) \<and>
    ct_inv (vs[nat i := v]) (ConstantTimePrefixSumComputer_setValue st i v)"
  using ConstantTimePrefixSumComputer_insertValues_inv [OF assms(1,2) _ assms(4-6)]
    ConstantTimePrefixSumComputer_removeValues_inv [OF assms(1,2) _ assms(7)]
    ConstantTimePrefixSumComputer_setValue_inv [OF assms(1-3,8,9)] assms(3)
  by simp

theorem ConstantTimePrefixSumComputer_edits_witness:
  "ct_inv [1, 5] (ConstantTimePrefixSumComputer_setValue (ConstantTimePrefixSumComputer_new [Some 1, Some 2]) 1 5)"
  using ConstantTimePrefixSumComputer_edits [of "[1, 2]" "ConstantTimePrefixSumComputer_new [Some 1, Some 2]" 1 "[]" 0 5]
  by (simp add: ct_inv_def [of "[1, 2]"] cached_upto_def ConstantTimePrefixSumComputer_new_def)

text \<open>
  Every query of a \<open>ConstantTimePrefixSumComputer\<close> without values throws a \<open>RangeError\<close>,
  because \<open>_ensureValid\<close> then sets the length of an array to \<open>undefined\<close>.
\<close>

theorem ConstantTimePrefixSumComputer_empty_throws:
  "ConstantTimePrefixSumComputer_getTotalSum (ConstantTimePrefixSumComputer_new []) = Inl RangeError \<and>
   ConstantTimePrefixSumComputer_getPrefixSum (ConstantTimePrefixSumComputer_new []) 0 = Inl RangeError \<and>
   ConstantTimePrefixSumComputer_getIndexOf (ConstantTimePrefixSumComputer_new []) 0 = Inl RangeError"
  using ensureValid_empty [of "ConstantTimePrefixSumComputer_new []"]
  by (simp add: ConstantTimePrefixSumComputer_getTotalSum_def ConstantTimePrefixSumComputer_getPrefixSum_def
      ConstantTimePrefixSumComputer_getIndexOf_def ct_inv_def ConstantTimePrefixSumComputer_new_def cached_upto_def)

end
