(* ===== verification/ContextKeyValues.thy ===== *)
theory ContextKeyValues
  imports Prelude Complex_Main "HOL-Library.List_Lexorder"
begin

text \<open>
  The values that context key expressions of \<open>platform/contextkey/common/contextkey.ts\<close> compare,
  the operators of the language on them, the map of constants, and the expressions as data.

  Finite numbers are rationals. What the engine does to turn strings into numbers and values
  into strings, and to match a regular expression, is a parameter \<open>h\<close> of type \<open>js_host\<close>; the
  theorems hold for every such engine. A context is the function \<open>getValue\<close>.
\<close>

section \<open>Values and operators of the language\<close>

datatype js_number = NaN | NegInfinity | Finite rat | Infinity

fun number_less :: "js_number \<Rightarrow> js_number \<Rightarrow> bool" where
  "number_less (Finite a) (Finite b) = (a < b)"
| "number_less NegInfinity b = (b \<noteq> NaN \<and> b \<noteq> NegInfinity)"
| "number_less (Finite a) b = (b = Infinity)"
| "number_less _ _ = False"

definition number_eq :: "js_number \<Rightarrow> js_number \<Rightarrow> bool" where
  "number_eq a b \<longleftrightarrow> a = b \<and> a \<noteq> NaN"

definition number_le :: "js_number \<Rightarrow> js_number \<Rightarrow> bool" where
  "number_le a b \<longleftrightarrow> number_less a b \<or> number_eq a b"

datatype js_prim =
    Undefined
  | Null
  | Boolean bool
  | Number js_number
  | Str js_string

text \<open>A context value: a primitive, an array of primitives, or an object, given by its own keys.\<close>

datatype ContextKeyValue =
    Prim js_prim
  | Arr "js_prim list"
  | Obj "js_string list"

type_synonym IContext = "js_string \<Rightarrow> ContextKeyValue"

text \<open>
  A regular expression by its source and flags. \<open>RegExp.test\<close> is a function of these and the text: the parser removes the flags \<open>g\<close> and
  \<open>y\<close>, with which it would depend on the \<open>lastIndex\<close> of the object.
\<close>

datatype RegExp = RegExp (re_source: js_string) (re_flags: js_string)

record js_host =
  host_parseFloat :: "js_string \<Rightarrow> js_number"
  host_toNumber :: "js_string \<Rightarrow> js_number"
  host_numberToString :: "js_number \<Rightarrow> js_string"
  host_objectToString :: "ContextKeyValue \<Rightarrow> js_string"
  host_regexpTest :: "RegExp \<Rightarrow> js_string \<Rightarrow> bool"

text \<open>\<open>!!v\<close>\<close>

fun truthy_prim :: "js_prim \<Rightarrow> bool" where
  "truthy_prim Undefined = False"
| "truthy_prim Null = False"
| "truthy_prim (Boolean b) = b"
| "truthy_prim (Number n) = (n \<noteq> NaN \<and> n \<noteq> Finite 0)"
| "truthy_prim (Str s) = (s \<noteq> [])"

fun truthy :: "ContextKeyValue \<Rightarrow> bool" where
  "truthy (Prim p) = truthy_prim p"
| "truthy _ = True"

text \<open>\<open>a === b\<close> on primitives\<close>

fun strict_eq :: "js_prim \<Rightarrow> js_prim \<Rightarrow> bool" where
  "strict_eq (Number a) (Number b) = number_eq a b"
| "strict_eq a b = (a = b)"

fun to_number :: "js_host \<Rightarrow> js_prim \<Rightarrow> js_number" where
  "to_number h Undefined = NaN"
| "to_number h Null = Finite 0"
| "to_number h (Boolean b) = Finite (if b then 1 else 0)"
| "to_number h (Number n) = n"
| "to_number h (Str s) = host_toNumber h s"

fun prim_to_string :: "js_host \<Rightarrow> js_prim \<Rightarrow> js_string" where
  "prim_to_string h Undefined = js ''undefined''"
| "prim_to_string h Null = js ''null''"
| "prim_to_string h (Boolean b) = (if b then js ''true'' else js ''false'')"
| "prim_to_string h (Number n) = host_numberToString h n"
| "prim_to_string h (Str s) = s"

fun value_to_string :: "js_host \<Rightarrow> ContextKeyValue \<Rightarrow> js_string" where
  "value_to_string h (Prim p) = prim_to_string h p"
| "value_to_string h v = host_objectToString h v"

text \<open>\<open>a == b\<close> on primitives, and between any context value and a primitive\<close>

fun loose_eq_prim :: "js_host \<Rightarrow> js_prim \<Rightarrow> js_prim \<Rightarrow> bool" where
  "loose_eq_prim h Undefined b = (b = Undefined \<or> b = Null)"
| "loose_eq_prim h Null b = (b = Undefined \<or> b = Null)"
| "loose_eq_prim h a Undefined = False"
| "loose_eq_prim h a Null = False"
| "loose_eq_prim h (Str a) (Str b) = (a = b)"
| "loose_eq_prim h a b = number_eq (to_number h a) (to_number h b)"

fun loose_eq :: "js_host \<Rightarrow> ContextKeyValue \<Rightarrow> js_prim \<Rightarrow> bool" where
  "loose_eq h (Prim a) b = loose_eq_prim h a b"
| "loose_eq h v b = (b \<noteq> Undefined \<and> b \<noteq> Null \<and> loose_eq_prim h (Str (host_objectToString h v)) b)"

text \<open>\<open>a < b\<close> on primitives\<close>

fun js_less :: "js_host \<Rightarrow> js_prim \<Rightarrow> js_prim \<Rightarrow> bool" where
  "js_less h (Str a) (Str b) = (a < b)"
| "js_less h a b = number_less (to_number h a) (to_number h b)"

text \<open>\<open>arr.includes(item)\<close>: like \<open>===\<close>, but \<open>NaN\<close> equals itself.\<close>

fun array_includes :: "js_prim list \<Rightarrow> ContextKeyValue \<Rightarrow> bool" where
  "array_includes xs (Prim p) = (p \<in> set xs)"
| "array_includes xs v = False"

section \<open>Constants\<close>

type_synonym constants = "js_string \<Rightarrow> bool option"

definition setConstant :: "constants \<Rightarrow> js_string \<Rightarrow> bool \<Rightarrow> constants result" where
  "setConstant env key v = (if env key \<noteq> None then Inl IllegalArgumentError else Inr (env(key \<mapsto> v)))"

section \<open>Expressions\<close>

text \<open>
  The constructors carry the fields of the classes. The last argument of most is the field
  \<open>negated\<close> as the constructor received it: the source also fills a \<open>negated\<close> that is \<open>null\<close>
  at the first call of \<open>negate\<close>, with the value that \<open>negate\<close> returns again when it is asked
  again. A \<open>ContextKeyNotRegexExpr\<close> holds the key and the regular expression of its \<open>_actual\<close>,
  a \<open>ContextKeyNotInExpr\<close> those of its \<open>_negated\<close>.
\<close>

datatype ContextKeyExpression =
    FalseExpr
  | TrueExpr
  | DefinedExpr js_string "ContextKeyExpression option"
  | NotExpr js_string "ContextKeyExpression option"
  | EqualsExpr js_string js_prim "ContextKeyExpression option"
  | NotEqualsExpr js_string js_prim "ContextKeyExpression option"
  | AndExpr "ContextKeyExpression list" "ContextKeyExpression option"
  | RegexExpr js_string "RegExp option"
  | NotRegexExpr js_string "RegExp option"
  | OrExpr "ContextKeyExpression list" "ContextKeyExpression option"
  | InExpr js_string js_string
  | NotInExpr js_string js_string
  | GreaterExpr js_string js_prim "ContextKeyExpression option"
  | GreaterEqualsExpr js_string js_prim "ContextKeyExpression option"
  | SmallerExpr js_string js_prim "ContextKeyExpression option"
  | SmallerEqualsExpr js_string js_prim "ContextKeyExpression option"

text \<open>The discriminator \<open>type\<close>, a value of the enumeration \<open>ContextKeyExprType\<close>\<close>

fun ContextKeyExprType :: "ContextKeyExpression \<Rightarrow> int" where
  "ContextKeyExprType FalseExpr = 0"
| "ContextKeyExprType TrueExpr = 1"
| "ContextKeyExprType (DefinedExpr k n) = 2"
| "ContextKeyExprType (NotExpr k n) = 3"
| "ContextKeyExprType (EqualsExpr k v n) = 4"
| "ContextKeyExprType (NotEqualsExpr k v n) = 5"
| "ContextKeyExprType (AndExpr es n) = 6"
| "ContextKeyExprType (RegexExpr k r) = 7"
| "ContextKeyExprType (NotRegexExpr k r) = 8"
| "ContextKeyExprType (OrExpr es n) = 9"
| "ContextKeyExprType (InExpr k v) = 10"
| "ContextKeyExprType (NotInExpr k v) = 11"
| "ContextKeyExprType (GreaterExpr k v n) = 12"
| "ContextKeyExprType (GreaterEqualsExpr k v n) = 13"
| "ContextKeyExprType (SmallerExpr k v n) = 14"
| "ContextKeyExprType (SmallerEqualsExpr k v n) = 15"

definition cmp1 :: "js_string \<Rightarrow> js_string \<Rightarrow> int" where
  "cmp1 key1 key2 = (if key1 < key2 then -1 else if key1 > key2 then 1 else 0)"

definition cmp2 :: "js_host \<Rightarrow> js_string \<Rightarrow> js_prim \<Rightarrow> js_string \<Rightarrow> js_prim \<Rightarrow> int" where
  "cmp2 h key1 value1 key2 value2 =
     (if key1 < key2 then -1 else if key1 > key2 then 1
      else if js_less h value1 value2 then -1 else if js_less h value2 value1 then 1 else 0)"

lemma number_less_irrefl [simp]: "\<not> number_less a a"
  by (cases a) auto

lemma number_less_negate:
  "a \<noteq> NaN \<Longrightarrow> b \<noteq> NaN \<Longrightarrow> number_le a b \<longleftrightarrow> \<not> number_less b a"
  by (cases a; cases b) (auto simp: number_le_def number_eq_def)

lemma strict_eq_imp_eq: "strict_eq a b \<Longrightarrow> a = b"
  by (cases a; cases b) (auto simp: number_eq_def)

end
