(* ===== verification/ContextKeyScanner.thy ===== *)
theory ContextKeyScanner
  imports ContextKeyValues TextLengths
begin

text \<open>
  The scanner of \<open>platform/contextkey/common/scanner.ts\<close>, which splits a when-clause into tokens.

  Offsets only grow from 0 and are natural numbers here. A token is its type, which carries the
  lexeme or the flag \<open>isTripleEq\<close> of the types that have one, and its offset. Two things the
  scanner gets from its surroundings are parameters, the fields of \<open>scan_host\<close>: \<open>localize\<close> of
  \<open>nls.ts\<close> as a function of the key, the default text and the arguments, and the class \<open>\p{L}\<close> of
  regular expressions as a predicate on code points, which are one or two code units.
\<close>

section \<open>Tokens\<close>

datatype TokenType =
    LParen
  | RParen
  | Neg
  | Eq bool
  | NotEq bool
  | Lt
  | LtEq
  | Gt
  | GtEq
  | RegexOp
  | RegexStr js_string
  | TrueTok
  | FalseTok
  | InTok
  | NotTok
  | AndTok
  | OrTok
  | StrTok js_string
  | QuotedStr js_string
  | ErrorTok js_string
  | EOF

datatype Token = Token (tok_type: TokenType) (tok_offset: nat)

record LexingError =
  le_offset :: nat
  le_lexeme :: js_string
  le_additionalInfo :: "js_string option"

record scan_host =
  sh_localize :: "string \<Rightarrow> js_string \<Rightarrow> js_string list \<Rightarrow> js_string"
  sh_letter :: "js_string \<Rightarrow> bool"

definition hintDidYouMean :: "scan_host \<Rightarrow> js_string list \<Rightarrow> js_string option" where
  "hintDidYouMean sh meant =
     (case meant of
        [_] \<Rightarrow> Some (sh_localize sh ''contextkey.scanner.hint.didYouMean1'' (js ''Did you mean {0}?'') meant)
      | [_, _] \<Rightarrow> Some (sh_localize sh ''contextkey.scanner.hint.didYouMean2'' (js ''Did you mean {0} or {1}?'') meant)
      | [_, _, _] \<Rightarrow> Some (sh_localize sh ''contextkey.scanner.hint.didYouMean3'' (js ''Did you mean {0}, {1} or {2}?'') meant)
      | _ \<Rightarrow> None)"

definition hintDidYouForgetToOpenOrCloseQuote :: "scan_host \<Rightarrow> js_string" where
  "hintDidYouForgetToOpenOrCloseQuote sh =
     sh_localize sh ''contextkey.scanner.hint.didYouForgetToOpenOrCloseQuote''
       (js ''Did you forget to open or close the quote?'') []"

definition hintDidYouForgetToEscapeSlash :: "scan_host \<Rightarrow> js_string" where
  "hintDidYouForgetToEscapeSlash sh =
     sh_localize sh ''contextkey.scanner.hint.didYouForgetToEscapeSlash''
       (js ''Did you forget to escape the '' @ [0x27] @ js ''/'' @ [0x27] @
        js '' (slash) character? Put two backslashes before it to escape, e.g., '' @ [0x27, 0x5C, 0x5C, 0x2F, 0x27] @ js ''.'') []"

definition Scanner_getLexeme :: "Token \<Rightarrow> js_string" where
  "Scanner_getLexeme token =
     (case tok_type token of
        LParen \<Rightarrow> js ''(''
      | RParen \<Rightarrow> js '')''
      | Neg \<Rightarrow> js ''!''
      | Eq isTripleEq \<Rightarrow> if isTripleEq then js ''==='' else js ''==''
      | NotEq isTripleEq \<Rightarrow> if isTripleEq then js ''!=='' else js ''!=''
      | Lt \<Rightarrow> js ''<''
      | LtEq \<Rightarrow> js ''<=''
      | Gt \<Rightarrow> js ''>=''
      | GtEq \<Rightarrow> js ''>=''
      | RegexOp \<Rightarrow> js ''=~''
      | RegexStr lexeme \<Rightarrow> lexeme
      | TrueTok \<Rightarrow> js ''true''
      | FalseTok \<Rightarrow> js ''false''
      | InTok \<Rightarrow> js ''in''
      | NotTok \<Rightarrow> js ''not''
      | AndTok \<Rightarrow> js ''&&''
      | OrTok \<Rightarrow> js ''||''
      | StrTok lexeme \<Rightarrow> lexeme
      | QuotedStr lexeme \<Rightarrow> lexeme
      | ErrorTok lexeme \<Rightarrow> lexeme
      | EOF \<Rightarrow> js ''EOF'')"

definition Scanner_regexFlags :: "js_string" where
  "Scanner_regexFlags = js ''igsmyu''"

definition Scanner_keywords :: "js_string \<Rightarrow> TokenType option" where
  "Scanner_keywords lexeme =
     (if lexeme = js ''not'' then Some NotTok
      else if lexeme = js ''in'' then Some InTok
      else if lexeme = js ''false'' then Some FalseTok
      else if lexeme = js ''true'' then Some TrueTok
      else None)"

section \<open>The scanner\<close>

record Scanner =
  sc_input :: js_string
  sc_start :: nat
  sc_current :: nat
  sc_tokens :: "Token list"
  sc_errors :: "LexingError list"

definition Scanner_reset :: "Scanner \<Rightarrow> js_string \<Rightarrow> Scanner" where
  "Scanner_reset s val = s\<lparr>sc_input := val, sc_start := 0, sc_current := 0, sc_tokens := [], sc_errors := []\<rparr>"

definition Scanner_isAtEnd :: "Scanner \<Rightarrow> bool" where
  "Scanner_isAtEnd s \<longleftrightarrow> sc_current s \<ge> length (sc_input s)"

definition Scanner_match :: "Scanner \<Rightarrow> code_unit \<Rightarrow> Scanner \<times> bool" where
  "Scanner_match s expected =
     (if Scanner_isAtEnd s then (s, False)
      else if sc_input s ! sc_current s \<noteq> expected then (s, False)
      else (s\<lparr>sc_current := sc_current s + 1\<rparr>, True))"

definition Scanner_advance :: "Scanner \<Rightarrow> Scanner \<times> code_unit option" where
  "Scanner_advance s = (s\<lparr>sc_current := sc_current s + 1\<rparr>, js_get (sc_input s) (int (sc_current s)))"

definition Scanner_peek :: "Scanner \<Rightarrow> code_unit" where
  "Scanner_peek s = (if Scanner_isAtEnd s then 0 else sc_input s ! sc_current s)"

definition Scanner_push :: "Scanner \<Rightarrow> TokenType \<Rightarrow> nat \<Rightarrow> Scanner" where
  "Scanner_push s ty offset = s\<lparr>sc_tokens := sc_tokens s @ [Token ty offset]\<rparr>"

definition Scanner_addToken :: "Scanner \<Rightarrow> TokenType \<Rightarrow> Scanner" where
  "Scanner_addToken s ty = Scanner_push s ty (sc_start s)"

definition Scanner_error :: "Scanner \<Rightarrow> js_string option \<Rightarrow> Scanner" where
  "Scanner_error s additional =
     (let offset = sc_start s;
          lexeme = js_substring (sc_input s) (int (sc_start s)) (int (sc_current s));
          s = s\<lparr>sc_errors := sc_errors s @
                  [\<lparr>le_offset = offset, le_lexeme = lexeme, le_additionalInfo = additional\<rparr>]\<rparr>
      in Scanner_push s (ErrorTok lexeme) offset)"

text \<open>The class of \<open>stringRe\<close>, and the length of its match at the start of a string\<close>

definition stringRe_class :: "scan_host \<Rightarrow> js_string \<Rightarrow> bool" where
  "stringRe_class sh p \<longleftrightarrow>
     (case p of [c] \<Rightarrow>
          0x61 \<le> c \<and> c \<le> 0x7A \<or> 0x41 \<le> c \<and> c \<le> 0x5A \<or> 0x30 \<le> c \<and> c \<le> 0x39 \<or>
          c \<in> set (js ''_<>-./:*?+[]^,#@;%$'') \<or> c = 0x5C \<or> c = 0x22 \<or> sh_letter sh p
      | _ \<Rightarrow> sh_letter sh p)"

definition stringRe :: "scan_host \<Rightarrow> js_string \<Rightarrow> nat" where
  "stringRe sh s = length (concat (takeWhile (stringRe_class sh) (code_points s)))"

definition Scanner_string :: "scan_host \<Rightarrow> Scanner \<Rightarrow> Scanner" where
  "Scanner_string sh s =
     (let n = stringRe sh (drop (sc_start s) (sc_input s))
      in if n > 0
         then let s = s\<lparr>sc_current := sc_start s + n\<rparr>;
                  lexeme = js_substring (sc_input s) (int (sc_start s)) (int (sc_current s))
              in (case Scanner_keywords lexeme of
                    Some keyword \<Rightarrow> Scanner_addToken s keyword
                  | None \<Rightarrow> Scanner_push s (StrTok lexeme) (sc_start s))
         else s)"

function quotedString_loop :: "Scanner \<Rightarrow> Scanner" where
  "quotedString_loop s =
     (if Scanner_peek s \<noteq> 0x27 \<and> \<not> Scanner_isAtEnd s then quotedString_loop (fst (Scanner_advance s)) else s)"
  by pat_completeness auto
termination
  by (relation "measure (\<lambda>s. length (sc_input s) - sc_current s)") (auto simp: Scanner_isAtEnd_def Scanner_advance_def)

declare quotedString_loop.simps [simp del]

definition Scanner_quotedString :: "scan_host \<Rightarrow> Scanner \<Rightarrow> Scanner" where
  "Scanner_quotedString sh s =
     (let s = quotedString_loop s
      in if Scanner_isAtEnd s then Scanner_error s (Some (hintDidYouForgetToOpenOrCloseQuote sh))
         else let s = fst (Scanner_advance s)
         in Scanner_push s
              (QuotedStr (js_substring (sc_input s) (int (sc_start s) + 1) (int (sc_current s) - 1)))
              (sc_start s + 1))"

text \<open>The loop over a regular expression: the index behind the closing slash, if there is one\<close>

function regex_loop :: "js_string \<Rightarrow> nat \<Rightarrow> bool \<Rightarrow> bool \<Rightarrow> nat option" where
  "regex_loop input p inEscape inCharacterClass =
     (if p \<ge> length input then None
      else let ch = input ! p
      in if inEscape then regex_loop input (p + 1) False inCharacterClass
         else if ch = 0x2F \<and> \<not> inCharacterClass then Some (p + 1)
         else if ch = 0x5B then regex_loop input (p + 1) inEscape True
         else if ch = 0x5C then regex_loop input (p + 1) True inCharacterClass
         else if ch = 0x5D then regex_loop input (p + 1) inEscape False
         else regex_loop input (p + 1) inEscape inCharacterClass)"
  by pat_completeness auto
termination
  by (relation "measure (\<lambda>(input, p, _). length input - p)") auto

declare regex_loop.simps [simp del]

function flags_loop :: "js_string \<Rightarrow> nat \<Rightarrow> nat" where
  "flags_loop input p =
     (if p < length input \<and> input ! p \<in> set Scanner_regexFlags then flags_loop input (p + 1) else p)"
  by pat_completeness auto
termination
  by (relation "measure (\<lambda>(input, p). length input - p)") auto

declare flags_loop.simps [simp del]

definition Scanner_regex :: "scan_host \<Rightarrow> Scanner \<Rightarrow> Scanner" where
  "Scanner_regex sh s =
     (case regex_loop (sc_input s) (sc_current s) False False of
        None \<Rightarrow> Scanner_error (s\<lparr>sc_current := max (sc_current s) (length (sc_input s))\<rparr>)
                  (Some (hintDidYouForgetToEscapeSlash sh))
      | Some p \<Rightarrow>
          let s = s\<lparr>sc_current := flags_loop (sc_input s) p\<rparr>
          in Scanner_push s (RegexStr (js_substring (sc_input s) (int (sc_start s)) (int (sc_current s)))) (sc_start s))"

text \<open>One round of the loop of \<open>scan\<close>\<close>

definition scan_step :: "scan_host \<Rightarrow> Scanner \<Rightarrow> Scanner" where
  "scan_step sh s =
     (let s = s\<lparr>sc_start := sc_current s\<rparr>;
          (s, ch) = Scanner_advance s
      in if ch = Some 0x28 then Scanner_addToken s LParen
         else if ch = Some 0x29 then Scanner_addToken s RParen
         else if ch = Some 0x21
         then (case Scanner_match s 0x3D of
                 (s, True) \<Rightarrow> (case Scanner_match s 0x3D of (s, isTripleEq) \<Rightarrow> Scanner_push s (NotEq isTripleEq) (sc_start s))
               | (s, False) \<Rightarrow> Scanner_addToken s Neg)
         else if ch = Some 0x27 then Scanner_quotedString sh s
         else if ch = Some 0x2F then Scanner_regex sh s
         else if ch = Some 0x3D
         then (case Scanner_match s 0x3D of
                 (s, True) \<Rightarrow> (case Scanner_match s 0x3D of (s, isTripleEq) \<Rightarrow> Scanner_push s (Eq isTripleEq) (sc_start s))
               | (s, False) \<Rightarrow> (case Scanner_match s 0x7E of
                     (s, True) \<Rightarrow> Scanner_addToken s RegexOp
                   | (s, False) \<Rightarrow> Scanner_error s (hintDidYouMean sh [js ''=='', js ''=~''])))
         else if ch = Some 0x3C
         then (case Scanner_match s 0x3D of (s, m) \<Rightarrow> Scanner_addToken s (if m then LtEq else Lt))
         else if ch = Some 0x3E
         then (case Scanner_match s 0x3D of (s, m) \<Rightarrow> Scanner_addToken s (if m then GtEq else Gt))
         else if ch = Some 0x26
         then (case Scanner_match s 0x26 of
                 (s, True) \<Rightarrow> Scanner_addToken s AndTok
               | (s, False) \<Rightarrow> Scanner_error s (hintDidYouMean sh [js ''&&'']))
         else if ch = Some 0x7C
         then (case Scanner_match s 0x7C of
                 (s, True) \<Rightarrow> Scanner_addToken s OrTok
               | (s, False) \<Rightarrow> Scanner_error s (hintDidYouMean sh [js ''||'']))
         else if ch \<in> {Some 0x20, Some 0x0D, Some 0x09, Some 0x0A, Some 0xA0} then s
         else Scanner_string sh s)"

section \<open>A round advances\<close>

lemmas scan_ops = Scanner_match_def Scanner_advance_def Scanner_addToken_def Scanner_push_def Scanner_error_def
  Scanner_isAtEnd_def Let_def

lemma push_fields [simp]:
  "sc_input (Scanner_push s ty n) = sc_input s" "sc_current (Scanner_push s ty n) = sc_current s"
  "sc_start (Scanner_push s ty n) = sc_start s" "sc_tokens (Scanner_push s ty n) = sc_tokens s @ [Token ty n]"
  "sc_errors (Scanner_push s ty n) = sc_errors s"
  by (simp_all add: Scanner_push_def)

lemma addToken_fields [simp]:
  "sc_input (Scanner_addToken s ty) = sc_input s" "sc_current (Scanner_addToken s ty) = sc_current s"
  by (simp_all add: Scanner_addToken_def)

lemma error_fields [simp]:
  "sc_input (Scanner_error s a) = sc_input s" "sc_current (Scanner_error s a) = sc_current s"
  by (simp_all add: Scanner_error_def Let_def)

lemma match_fields [simp]:
  "sc_input (fst (Scanner_match s c)) = sc_input s" "sc_current s \<le> sc_current (fst (Scanner_match s c))"
  "sc_start (fst (Scanner_match s c)) = sc_start s"
  by (auto simp: Scanner_match_def)

lemma advance_fields [simp]:
  "sc_input (fst (Scanner_advance s)) = sc_input s" "sc_current (fst (Scanner_advance s)) = Suc (sc_current s)"
  "sc_start (fst (Scanner_advance s)) = sc_start s"
  by (simp_all add: Scanner_advance_def)

lemma quotedString_loop_fields [simp]:
  "sc_input (quotedString_loop s) = sc_input s \<and> sc_current s \<le> sc_current (quotedString_loop s) \<and>
   sc_start (quotedString_loop s) = sc_start s \<and> sc_tokens (quotedString_loop s) = sc_tokens s"
proof (induction s rule: quotedString_loop.induct)
  case (1 s)
  then show ?case by (subst (1 2 3 4) quotedString_loop.simps) (auto simp: Scanner_advance_def)
qed

lemma flags_loop_ge: "p \<le> flags_loop input p"
proof (induction input p rule: flags_loop.induct)
  case (1 input p)
  then show ?case by (subst flags_loop.simps) auto
qed

lemma regex_loop_gt: "regex_loop input p e c = Some q \<Longrightarrow> p < q"
proof (induction "length input - p" arbitrary: p e c rule: less_induct)
  case less
  then have "regex_loop input (p + 1) e c = Some q \<Longrightarrow> p < length input \<Longrightarrow> p < q" for e c
    by (metis Suc_eq_plus1 Suc_lessD diff_less_mono2 lessI)
  then show ?case
    using less.prems by (subst (asm) regex_loop.simps) (simp add: Let_def split: if_splits)
qed

lemma quotedString_fields:
  "sc_input (Scanner_quotedString sh s) = sc_input s \<and> sc_current s \<le> sc_current (Scanner_quotedString sh s)"
  using quotedString_loop_fields [of s] by (auto simp: Scanner_quotedString_def Let_def intro: le_SucI)

lemma regex_fields:
  "sc_input (Scanner_regex sh s) = sc_input s \<and> sc_current s \<le> sc_current (Scanner_regex sh s)"
proof (cases "regex_loop (sc_input s) (sc_current s) False False")
  case (Some p)
  then have "sc_current s \<le> flags_loop (sc_input s) p"
    using regex_loop_gt [OF Some] flags_loop_ge [of p "sc_input s"] by linarith
  with Some show ?thesis by (simp add: Scanner_regex_def Let_def)
qed (simp add: Scanner_regex_def)

lemma string_fields:
  "sc_current s = Suc (sc_start s) \<Longrightarrow>
   sc_input (Scanner_string sh s) = sc_input s \<and> sc_current s \<le> sc_current (Scanner_string sh s)"
  by (auto simp: Scanner_string_def Let_def split: option.split)

lemma scan_step_fields:
  "sc_input (scan_step sh s) = sc_input s \<and> sc_current s < sc_current (scan_step sh s)"
proof -
  define s0 where "s0 = fst (Scanner_advance (s\<lparr>sc_start := sc_current s\<rparr>))"
  define P :: "Scanner \<Rightarrow> bool" where "P = (\<lambda>s'. sc_input s' = sc_input s \<and> sc_current s < sc_current s')"
  have s0: "sc_input s0 = sc_input s" "sc_current s0 = Suc (sc_current s)" "sc_start s0 = sc_current s"
    by (simp_all add: s0_def)
  have m: "P s' \<Longrightarrow> P (fst (Scanner_match s' c))" for s' c
    using match_fields [of s' c] by (auto simp: P_def simp del: match_fields)
  have ops: "P s0" "P s' \<Longrightarrow> P (Scanner_push s' ty n)" "P s' \<Longrightarrow> P (Scanner_addToken s' ty)" "P s' \<Longrightarrow> P (Scanner_error s' a)"
    "P (Scanner_quotedString sh s0)" "P (Scanner_regex sh s0)" "P (Scanner_string sh s0)" for s' ty n a
    using quotedString_fields [of sh s0] regex_fields [of sh s0] string_fields [of s0 sh] s0 by (auto simp: P_def)
  obtain ch where eq: "Scanner_advance (s\<lparr>sc_start := sc_current s\<rparr>) = (s0, ch)"
    unfolding s0_def by (metis prod.collapse)
  have "P (scan_step sh s)"
    unfolding scan_step_def Let_def eq prod.case
    by (auto split: prod.split bool.split intro!: ops) (metis m ops(1) fst_conv)+
  then show ?thesis by (simp add: P_def)
qed

text \<open>The loop of \<open>scan\<close>\<close>

function scan_loop :: "scan_host \<Rightarrow> Scanner \<Rightarrow> Scanner" where
  "scan_loop sh s = (if \<not> Scanner_isAtEnd s then scan_loop sh (scan_step sh s) else s)"
  by pat_completeness auto
termination
  by (relation "measure (\<lambda>(sh, s). length (sc_input s) - sc_current s)")
    (use scan_step_fields in \<open>auto simp: Scanner_isAtEnd_def intro: diff_less_mono2\<close>)

declare scan_loop.simps [simp del]

definition Scanner_scan :: "scan_host \<Rightarrow> Scanner \<Rightarrow> Scanner \<times> Token list" where
  "Scanner_scan sh s =
     (let s = scan_loop sh s;
          s = s\<lparr>sc_start := sc_current s\<rparr>;
          s = Scanner_addToken s EOF
      in (s, sc_tokens s))"

end
