(* ===== verification/ContextKeyExprs.thy ===== *)
theory ContextKeyExprs
  imports ContextKeyValues
begin

text \<open>
  The operations of the sixteen expression classes of \<open>contextkey.ts\<close> that do not normalize:
  creation and negation of the leaf expressions, comparison, equality, evaluation,
  serialization, the keys and the mapping over leaves. Each class has its own definitions,
  named \<open><class>_<method>\<close>, and one recursive function per method dispatches on the class as
  the method call does; the classes \<open>ContextKeyAndExpr\<close> and \<open>ContextKeyOrExpr\<close> get that function
  for their calls on the subexpressions.
\<close>

section \<open>Creation of leaf expressions\<close>

definition ContextKeyDefinedExpr_create ::
    "constants \<Rightarrow> js_string \<Rightarrow> ContextKeyExpression option \<Rightarrow> ContextKeyExpression" where
  "ContextKeyDefinedExpr_create env key negated =
     (case env key of Some constantValue \<Rightarrow> if constantValue then TrueExpr else FalseExpr
      | None \<Rightarrow> DefinedExpr key negated)"

definition ContextKeyNotExpr_create ::
    "constants \<Rightarrow> js_string \<Rightarrow> ContextKeyExpression option \<Rightarrow> ContextKeyExpression" where
  "ContextKeyNotExpr_create env key negated =
     (case env key of Some constantValue \<Rightarrow> if constantValue then FalseExpr else TrueExpr
      | None \<Rightarrow> NotExpr key negated)"

definition ContextKeyEqualsExpr_create ::
    "constants \<Rightarrow> js_string \<Rightarrow> js_prim \<Rightarrow> ContextKeyExpression option \<Rightarrow> ContextKeyExpression" where
  "ContextKeyEqualsExpr_create env key val negated =
     (case val of
        Boolean b \<Rightarrow> if b then ContextKeyDefinedExpr_create env key negated
                     else ContextKeyNotExpr_create env key negated
      | _ \<Rightarrow> (case env key of
          Some constantValue \<Rightarrow>
            let trueValue = (if constantValue then js ''true'' else js ''false'')
            in if strict_eq val (Str trueValue) then TrueExpr else FalseExpr
        | None \<Rightarrow> EqualsExpr key val negated))"

definition ContextKeyNotEqualsExpr_create ::
    "constants \<Rightarrow> js_string \<Rightarrow> js_prim \<Rightarrow> ContextKeyExpression option \<Rightarrow> ContextKeyExpression" where
  "ContextKeyNotEqualsExpr_create env key val negated =
     (case val of
        Boolean b \<Rightarrow> if b then ContextKeyNotExpr_create env key negated
                     else ContextKeyDefinedExpr_create env key negated
      | _ \<Rightarrow> (case env key of
          Some constantValue \<Rightarrow>
            let falseValue = (if constantValue then js ''true'' else js ''false'')
            in if strict_eq val (Str falseValue) then FalseExpr else TrueExpr
        | None \<Rightarrow> NotEqualsExpr key val negated))"

definition ContextKeyInExpr_create :: "js_string \<Rightarrow> js_string \<Rightarrow> ContextKeyExpression" where
  "ContextKeyInExpr_create key valueKey = InExpr key valueKey"

definition ContextKeyNotInExpr_create :: "js_string \<Rightarrow> js_string \<Rightarrow> ContextKeyExpression" where
  "ContextKeyNotInExpr_create key valueKey = NotInExpr key valueKey"

definition ContextKeyRegexExpr_create :: "js_string \<Rightarrow> RegExp option \<Rightarrow> ContextKeyExpression" where
  "ContextKeyRegexExpr_create key regexp = RegexExpr key regexp"

definition ContextKeyNotRegexExpr_create :: "js_string \<Rightarrow> RegExp option \<Rightarrow> ContextKeyExpression" where
  "ContextKeyNotRegexExpr_create key regexp = NotRegexExpr key regexp"

definition withFloatOrStr ::
    "js_host \<Rightarrow> js_prim \<Rightarrow> (js_prim \<Rightarrow> ContextKeyExpression) \<Rightarrow> ContextKeyExpression" where
  "withFloatOrStr h val callback =
     (let val = (case val of
                   Str s \<Rightarrow> let n = host_parseFloat h s in if n \<noteq> NaN then Number n else val
                 | _ \<Rightarrow> val)
      in case val of Str s \<Rightarrow> callback val | Number n \<Rightarrow> callback val | _ \<Rightarrow> FalseExpr)"

definition ContextKeyGreaterExpr_create ::
    "js_host \<Rightarrow> js_string \<Rightarrow> js_prim \<Rightarrow> ContextKeyExpression option \<Rightarrow> ContextKeyExpression" where
  "ContextKeyGreaterExpr_create h key val negated = withFloatOrStr h val (\<lambda>v. GreaterExpr key v negated)"

definition ContextKeyGreaterEqualsExpr_create ::
    "js_host \<Rightarrow> js_string \<Rightarrow> js_prim \<Rightarrow> ContextKeyExpression option \<Rightarrow> ContextKeyExpression" where
  "ContextKeyGreaterEqualsExpr_create h key val negated = withFloatOrStr h val (\<lambda>v. GreaterEqualsExpr key v negated)"

definition ContextKeySmallerExpr_create ::
    "js_host \<Rightarrow> js_string \<Rightarrow> js_prim \<Rightarrow> ContextKeyExpression option \<Rightarrow> ContextKeyExpression" where
  "ContextKeySmallerExpr_create h key val negated = withFloatOrStr h val (\<lambda>v. SmallerExpr key v negated)"

definition ContextKeySmallerEqualsExpr_create ::
    "js_host \<Rightarrow> js_string \<Rightarrow> js_prim \<Rightarrow> ContextKeyExpression option \<Rightarrow> ContextKeyExpression" where
  "ContextKeySmallerEqualsExpr_create h key val negated = withFloatOrStr h val (\<lambda>v. SmallerEqualsExpr key v negated)"

section \<open>Negation of leaf expressions\<close>

definition ContextKeyFalseExpr_negate :: ContextKeyExpression where
  "ContextKeyFalseExpr_negate = TrueExpr"

definition ContextKeyTrueExpr_negate :: ContextKeyExpression where
  "ContextKeyTrueExpr_negate = FalseExpr"

definition ContextKeyDefinedExpr_negate :: "constants \<Rightarrow> js_string \<Rightarrow> ContextKeyExpression option \<Rightarrow> ContextKeyExpression" where
  "ContextKeyDefinedExpr_negate env key negated =
     (case negated of Some n \<Rightarrow> n | None \<Rightarrow> ContextKeyNotExpr_create env key (Some (DefinedExpr key negated)))"

definition ContextKeyNotExpr_negate :: "constants \<Rightarrow> js_string \<Rightarrow> ContextKeyExpression option \<Rightarrow> ContextKeyExpression" where
  "ContextKeyNotExpr_negate env key negated =
     (case negated of Some n \<Rightarrow> n | None \<Rightarrow> ContextKeyDefinedExpr_create env key (Some (NotExpr key negated)))"

definition ContextKeyEqualsExpr_negate :: "constants \<Rightarrow> js_string \<Rightarrow> js_prim \<Rightarrow> ContextKeyExpression option \<Rightarrow> ContextKeyExpression" where
  "ContextKeyEqualsExpr_negate env key val negated =
     (case negated of Some n \<Rightarrow> n | None \<Rightarrow> ContextKeyNotEqualsExpr_create env key val (Some (EqualsExpr key val negated)))"

definition ContextKeyNotEqualsExpr_negate :: "constants \<Rightarrow> js_string \<Rightarrow> js_prim \<Rightarrow> ContextKeyExpression option \<Rightarrow> ContextKeyExpression" where
  "ContextKeyNotEqualsExpr_negate env key val negated =
     (case negated of Some n \<Rightarrow> n | None \<Rightarrow> ContextKeyEqualsExpr_create env key val (Some (NotEqualsExpr key val negated)))"

definition ContextKeyGreaterExpr_negate :: "js_host \<Rightarrow> js_string \<Rightarrow> js_prim \<Rightarrow> ContextKeyExpression option \<Rightarrow> ContextKeyExpression" where
  "ContextKeyGreaterExpr_negate h key val negated =
     (case negated of Some n \<Rightarrow> n | None \<Rightarrow> ContextKeySmallerEqualsExpr_create h key val (Some (GreaterExpr key val negated)))"

definition ContextKeyGreaterEqualsExpr_negate :: "js_host \<Rightarrow> js_string \<Rightarrow> js_prim \<Rightarrow> ContextKeyExpression option \<Rightarrow> ContextKeyExpression" where
  "ContextKeyGreaterEqualsExpr_negate h key val negated =
     (case negated of Some n \<Rightarrow> n | None \<Rightarrow> ContextKeySmallerExpr_create h key val (Some (GreaterEqualsExpr key val negated)))"

definition ContextKeySmallerExpr_negate :: "js_host \<Rightarrow> js_string \<Rightarrow> js_prim \<Rightarrow> ContextKeyExpression option \<Rightarrow> ContextKeyExpression" where
  "ContextKeySmallerExpr_negate h key val negated =
     (case negated of Some n \<Rightarrow> n | None \<Rightarrow> ContextKeyGreaterEqualsExpr_create h key val (Some (SmallerExpr key val negated)))"

definition ContextKeySmallerEqualsExpr_negate :: "js_host \<Rightarrow> js_string \<Rightarrow> js_prim \<Rightarrow> ContextKeyExpression option \<Rightarrow> ContextKeyExpression" where
  "ContextKeySmallerEqualsExpr_negate h key val negated =
     (case negated of Some n \<Rightarrow> n | None \<Rightarrow> ContextKeyGreaterExpr_create h key val (Some (SmallerEqualsExpr key val negated)))"

definition ContextKeyInExpr_negate :: "js_string \<Rightarrow> js_string \<Rightarrow> ContextKeyExpression" where
  "ContextKeyInExpr_negate key val = ContextKeyNotInExpr_create key val"

definition ContextKeyNotInExpr_negate :: "js_string \<Rightarrow> js_string \<Rightarrow> ContextKeyExpression" where
  "ContextKeyNotInExpr_negate key val = ContextKeyInExpr_create key val"

definition ContextKeyRegexExpr_negate :: "js_string \<Rightarrow> RegExp option \<Rightarrow> ContextKeyExpression" where
  "ContextKeyRegexExpr_negate key val = ContextKeyNotRegexExpr_create key val"

definition ContextKeyNotRegexExpr_negate :: "js_string \<Rightarrow> RegExp option \<Rightarrow> ContextKeyExpression" where
  "ContextKeyNotRegexExpr_negate key val = RegexExpr key val"

section \<open>Comparison\<close>

definition ContextKeyFalseExpr_cmp :: "ContextKeyExpression \<Rightarrow> int" where
  "ContextKeyFalseExpr_cmp other = 0 - ContextKeyExprType other"

definition ContextKeyTrueExpr_cmp :: "ContextKeyExpression \<Rightarrow> int" where
  "ContextKeyTrueExpr_cmp other = 1 - ContextKeyExprType other"

definition ContextKeyDefinedExpr_cmp :: "js_string \<Rightarrow> ContextKeyExpression \<Rightarrow> int" where
  "ContextKeyDefinedExpr_cmp key other =
     (case other of DefinedExpr k _ \<Rightarrow> cmp1 key k | _ \<Rightarrow> 2 - ContextKeyExprType other)"

definition ContextKeyNotExpr_cmp :: "js_string \<Rightarrow> ContextKeyExpression \<Rightarrow> int" where
  "ContextKeyNotExpr_cmp key other =
     (case other of NotExpr k _ \<Rightarrow> cmp1 key k | _ \<Rightarrow> 3 - ContextKeyExprType other)"

definition ContextKeyEqualsExpr_cmp :: "js_host \<Rightarrow> js_string \<Rightarrow> js_prim \<Rightarrow> ContextKeyExpression \<Rightarrow> int" where
  "ContextKeyEqualsExpr_cmp h key val other =
     (case other of EqualsExpr k v _ \<Rightarrow> cmp2 h key val k v | _ \<Rightarrow> 4 - ContextKeyExprType other)"

definition ContextKeyNotEqualsExpr_cmp :: "js_host \<Rightarrow> js_string \<Rightarrow> js_prim \<Rightarrow> ContextKeyExpression \<Rightarrow> int" where
  "ContextKeyNotEqualsExpr_cmp h key val other =
     (case other of NotEqualsExpr k v _ \<Rightarrow> cmp2 h key val k v | _ \<Rightarrow> 5 - ContextKeyExprType other)"

definition ContextKeyGreaterExpr_cmp :: "js_host \<Rightarrow> js_string \<Rightarrow> js_prim \<Rightarrow> ContextKeyExpression \<Rightarrow> int" where
  "ContextKeyGreaterExpr_cmp h key val other =
     (case other of GreaterExpr k v _ \<Rightarrow> cmp2 h key val k v | _ \<Rightarrow> 12 - ContextKeyExprType other)"

definition ContextKeyGreaterEqualsExpr_cmp :: "js_host \<Rightarrow> js_string \<Rightarrow> js_prim \<Rightarrow> ContextKeyExpression \<Rightarrow> int" where
  "ContextKeyGreaterEqualsExpr_cmp h key val other =
     (case other of GreaterEqualsExpr k v _ \<Rightarrow> cmp2 h key val k v | _ \<Rightarrow> 13 - ContextKeyExprType other)"

definition ContextKeySmallerExpr_cmp :: "js_host \<Rightarrow> js_string \<Rightarrow> js_prim \<Rightarrow> ContextKeyExpression \<Rightarrow> int" where
  "ContextKeySmallerExpr_cmp h key val other =
     (case other of SmallerExpr k v _ \<Rightarrow> cmp2 h key val k v | _ \<Rightarrow> 14 - ContextKeyExprType other)"

definition ContextKeySmallerEqualsExpr_cmp :: "js_host \<Rightarrow> js_string \<Rightarrow> js_prim \<Rightarrow> ContextKeyExpression \<Rightarrow> int" where
  "ContextKeySmallerEqualsExpr_cmp h key val other =
     (case other of SmallerEqualsExpr k v _ \<Rightarrow> cmp2 h key val k v | _ \<Rightarrow> 15 - ContextKeyExprType other)"

definition ContextKeyInExpr_cmp :: "js_host \<Rightarrow> js_string \<Rightarrow> js_string \<Rightarrow> ContextKeyExpression \<Rightarrow> int" where
  "ContextKeyInExpr_cmp h key valueKey other =
     (case other of InExpr k v \<Rightarrow> cmp2 h key (Str valueKey) k (Str v) | _ \<Rightarrow> 10 - ContextKeyExprType other)"

definition ContextKeyNotInExpr_cmp :: "js_host \<Rightarrow> js_string \<Rightarrow> js_string \<Rightarrow> ContextKeyExpression \<Rightarrow> int" where
  "ContextKeyNotInExpr_cmp h key valueKey other =
     (case other of NotInExpr k v \<Rightarrow> cmp2 h key (Str valueKey) k (Str v) | _ \<Rightarrow> 11 - ContextKeyExprType other)"

definition regexp_source :: "RegExp option \<Rightarrow> js_string" where
  "regexp_source r = (case r of None \<Rightarrow> [] | Some re \<Rightarrow> re_source re)"

definition regex_cmp :: "js_string \<Rightarrow> RegExp option \<Rightarrow> js_string \<Rightarrow> RegExp option \<Rightarrow> int" where
  "regex_cmp key regexp otherKey otherRegexp =
     (if key < otherKey then -1 else if key > otherKey then 1
      else let thisSource = regexp_source regexp; otherSource = regexp_source otherRegexp
      in if thisSource < otherSource then -1 else if thisSource > otherSource then 1 else 0)"

definition ContextKeyRegexExpr_cmp :: "js_string \<Rightarrow> RegExp option \<Rightarrow> ContextKeyExpression \<Rightarrow> int" where
  "ContextKeyRegexExpr_cmp key regexp other =
     (case other of RegexExpr k r \<Rightarrow> regex_cmp key regexp k r | _ \<Rightarrow> 7 - ContextKeyExprType other)"

definition ContextKeyNotRegexExpr_cmp :: "js_string \<Rightarrow> RegExp option \<Rightarrow> ContextKeyExpression \<Rightarrow> int" where
  "ContextKeyNotRegexExpr_cmp key regexp other =
     (case other of NotRegexExpr k r \<Rightarrow> regex_cmp key regexp k r | _ \<Rightarrow> 8 - ContextKeyExprType other)"

fun cmp_arr :: "('a \<Rightarrow> 'a \<Rightarrow> int) \<Rightarrow> 'a list \<Rightarrow> 'a list \<Rightarrow> int" where
  "cmp_arr cmp (x # xs) (y # ys) = (let r = cmp x y in if r \<noteq> 0 then r else cmp_arr cmp xs ys)"
| "cmp_arr cmp _ _ = 0"

lemma cmp_arr_cong [fundef_cong]:
  "xs = xs' \<Longrightarrow> ys = ys' \<Longrightarrow> (\<And>x y. x \<in> set xs' \<Longrightarrow> f x y = g x y) \<Longrightarrow> cmp_arr f xs ys = cmp_arr g xs' ys'"
  by (induction g xs' ys' arbitrary: xs ys rule: cmp_arr.induct) (auto simp: Let_def)

definition arr_cmp :: "('a \<Rightarrow> 'a \<Rightarrow> int) \<Rightarrow> 'a list \<Rightarrow> 'a list \<Rightarrow> int" where
  "arr_cmp cmp xs ys =
     (if length xs < length ys then -1 else if length xs > length ys then 1 else cmp_arr cmp xs ys)"

lemma arr_cmp_cong [fundef_cong]:
  "xs = xs' \<Longrightarrow> ys = ys' \<Longrightarrow> (\<And>x y. x \<in> set xs' \<Longrightarrow> f x y = g x y) \<Longrightarrow> arr_cmp f xs ys = arr_cmp g xs' ys'"
  unfolding arr_cmp_def by (simp cong: cmp_arr_cong)

definition ContextKeyAndExpr_cmp ::
    "(ContextKeyExpression \<Rightarrow> ContextKeyExpression \<Rightarrow> int) \<Rightarrow> ContextKeyExpression list \<Rightarrow>
     ContextKeyExpression \<Rightarrow> int" where
  "ContextKeyAndExpr_cmp cmp expr other =
     (case other of AndExpr es _ \<Rightarrow> arr_cmp cmp expr es | _ \<Rightarrow> 6 - ContextKeyExprType other)"

lemma ContextKeyAndExpr_cmp_cong [fundef_cong]:
  "es = es' \<Longrightarrow> b = b' \<Longrightarrow> (\<And>x y. x \<in> set es' \<Longrightarrow> f x y = g x y) \<Longrightarrow>
     ContextKeyAndExpr_cmp f es b = ContextKeyAndExpr_cmp g es' b'"
  unfolding ContextKeyAndExpr_cmp_def by (simp cong: arr_cmp_cong split: ContextKeyExpression.split)

definition ContextKeyOrExpr_cmp ::
    "(ContextKeyExpression \<Rightarrow> ContextKeyExpression \<Rightarrow> int) \<Rightarrow> ContextKeyExpression list \<Rightarrow>
     ContextKeyExpression \<Rightarrow> int" where
  "ContextKeyOrExpr_cmp cmp expr other =
     (case other of OrExpr es _ \<Rightarrow> arr_cmp cmp expr es | _ \<Rightarrow> 9 - ContextKeyExprType other)"

lemma ContextKeyOrExpr_cmp_cong [fundef_cong]:
  "es = es' \<Longrightarrow> b = b' \<Longrightarrow> (\<And>x y. x \<in> set es' \<Longrightarrow> f x y = g x y) \<Longrightarrow>
     ContextKeyOrExpr_cmp f es b = ContextKeyOrExpr_cmp g es' b'"
  unfolding ContextKeyOrExpr_cmp_def by (simp cong: arr_cmp_cong split: ContextKeyExpression.split)

fun ContextKeyExpr_cmp :: "js_host \<Rightarrow> ContextKeyExpression \<Rightarrow> ContextKeyExpression \<Rightarrow> int" where
  "ContextKeyExpr_cmp h FalseExpr other = ContextKeyFalseExpr_cmp other"
| "ContextKeyExpr_cmp h TrueExpr other = ContextKeyTrueExpr_cmp other"
| "ContextKeyExpr_cmp h (DefinedExpr key n) other = ContextKeyDefinedExpr_cmp key other"
| "ContextKeyExpr_cmp h (NotExpr key n) other = ContextKeyNotExpr_cmp key other"
| "ContextKeyExpr_cmp h (EqualsExpr key val n) other = ContextKeyEqualsExpr_cmp h key val other"
| "ContextKeyExpr_cmp h (NotEqualsExpr key val n) other = ContextKeyNotEqualsExpr_cmp h key val other"
| "ContextKeyExpr_cmp h (AndExpr es n) other = ContextKeyAndExpr_cmp (ContextKeyExpr_cmp h) es other"
| "ContextKeyExpr_cmp h (RegexExpr key re) other = ContextKeyRegexExpr_cmp key re other"
| "ContextKeyExpr_cmp h (NotRegexExpr key re) other = ContextKeyNotRegexExpr_cmp key re other"
| "ContextKeyExpr_cmp h (OrExpr es n) other = ContextKeyOrExpr_cmp (ContextKeyExpr_cmp h) es other"
| "ContextKeyExpr_cmp h (InExpr key vk) other = ContextKeyInExpr_cmp h key vk other"
| "ContextKeyExpr_cmp h (NotInExpr key vk) other = ContextKeyNotInExpr_cmp h key vk other"
| "ContextKeyExpr_cmp h (GreaterExpr key val n) other = ContextKeyGreaterExpr_cmp h key val other"
| "ContextKeyExpr_cmp h (GreaterEqualsExpr key val n) other = ContextKeyGreaterEqualsExpr_cmp h key val other"
| "ContextKeyExpr_cmp h (SmallerExpr key val n) other = ContextKeySmallerExpr_cmp h key val other"
| "ContextKeyExpr_cmp h (SmallerEqualsExpr key val n) other = ContextKeySmallerEqualsExpr_cmp h key val other"

section \<open>Equality\<close>

definition ContextKeyFalseExpr_equals :: "ContextKeyExpression \<Rightarrow> bool" where
  "ContextKeyFalseExpr_equals other \<longleftrightarrow> ContextKeyExprType other = 0"

definition ContextKeyTrueExpr_equals :: "ContextKeyExpression \<Rightarrow> bool" where
  "ContextKeyTrueExpr_equals other \<longleftrightarrow> ContextKeyExprType other = 1"

definition ContextKeyDefinedExpr_equals :: "js_string \<Rightarrow> ContextKeyExpression \<Rightarrow> bool" where
  "ContextKeyDefinedExpr_equals key other = (case other of DefinedExpr k _ \<Rightarrow> key = k | _ \<Rightarrow> False)"

definition ContextKeyNotExpr_equals :: "js_string \<Rightarrow> ContextKeyExpression \<Rightarrow> bool" where
  "ContextKeyNotExpr_equals key other = (case other of NotExpr k _ \<Rightarrow> key = k | _ \<Rightarrow> False)"

definition ContextKeyEqualsExpr_equals :: "js_string \<Rightarrow> js_prim \<Rightarrow> ContextKeyExpression \<Rightarrow> bool" where
  "ContextKeyEqualsExpr_equals key val other =
     (case other of EqualsExpr k v _ \<Rightarrow> key = k \<and> strict_eq val v | _ \<Rightarrow> False)"

definition ContextKeyNotEqualsExpr_equals :: "js_string \<Rightarrow> js_prim \<Rightarrow> ContextKeyExpression \<Rightarrow> bool" where
  "ContextKeyNotEqualsExpr_equals key val other =
     (case other of NotEqualsExpr k v _ \<Rightarrow> key = k \<and> strict_eq val v | _ \<Rightarrow> False)"

definition ContextKeyGreaterExpr_equals :: "js_string \<Rightarrow> js_prim \<Rightarrow> ContextKeyExpression \<Rightarrow> bool" where
  "ContextKeyGreaterExpr_equals key val other =
     (case other of GreaterExpr k v _ \<Rightarrow> key = k \<and> strict_eq val v | _ \<Rightarrow> False)"

definition ContextKeyGreaterEqualsExpr_equals :: "js_string \<Rightarrow> js_prim \<Rightarrow> ContextKeyExpression \<Rightarrow> bool" where
  "ContextKeyGreaterEqualsExpr_equals key val other =
     (case other of GreaterEqualsExpr k v _ \<Rightarrow> key = k \<and> strict_eq val v | _ \<Rightarrow> False)"

definition ContextKeySmallerExpr_equals :: "js_string \<Rightarrow> js_prim \<Rightarrow> ContextKeyExpression \<Rightarrow> bool" where
  "ContextKeySmallerExpr_equals key val other =
     (case other of SmallerExpr k v _ \<Rightarrow> key = k \<and> strict_eq val v | _ \<Rightarrow> False)"

definition ContextKeySmallerEqualsExpr_equals :: "js_string \<Rightarrow> js_prim \<Rightarrow> ContextKeyExpression \<Rightarrow> bool" where
  "ContextKeySmallerEqualsExpr_equals key val other =
     (case other of SmallerEqualsExpr k v _ \<Rightarrow> key = k \<and> strict_eq val v | _ \<Rightarrow> False)"

definition ContextKeyInExpr_equals :: "js_string \<Rightarrow> js_string \<Rightarrow> ContextKeyExpression \<Rightarrow> bool" where
  "ContextKeyInExpr_equals key valueKey other = (case other of InExpr k v \<Rightarrow> key = k \<and> valueKey = v | _ \<Rightarrow> False)"

definition ContextKeyNotInExpr_equals :: "js_string \<Rightarrow> js_string \<Rightarrow> ContextKeyExpression \<Rightarrow> bool" where
  "ContextKeyNotInExpr_equals key valueKey other = (case other of NotInExpr k v \<Rightarrow> key = k \<and> valueKey = v | _ \<Rightarrow> False)"

definition ContextKeyRegexExpr_equals :: "js_string \<Rightarrow> RegExp option \<Rightarrow> ContextKeyExpression \<Rightarrow> bool" where
  "ContextKeyRegexExpr_equals key regexp other =
     (case other of RegexExpr k r \<Rightarrow> key = k \<and> regexp_source regexp = regexp_source r | _ \<Rightarrow> False)"

definition ContextKeyNotRegexExpr_equals :: "js_string \<Rightarrow> RegExp option \<Rightarrow> ContextKeyExpression \<Rightarrow> bool" where
  "ContextKeyNotRegexExpr_equals key regexp other =
     (case other of NotRegexExpr k r \<Rightarrow> key = k \<and> regexp_source regexp = regexp_source r | _ \<Rightarrow> False)"

fun equals_arr :: "('a \<Rightarrow> 'a \<Rightarrow> bool) \<Rightarrow> 'a list \<Rightarrow> 'a list \<Rightarrow> bool" where
  "equals_arr eq [] [] = True"
| "equals_arr eq (x # xs) (y # ys) = (if \<not> eq x y then False else equals_arr eq xs ys)"
| "equals_arr eq _ _ = False"

lemma equals_arr_cong [fundef_cong]:
  "xs = xs' \<Longrightarrow> ys = ys' \<Longrightarrow> (\<And>x y. x \<in> set xs' \<Longrightarrow> f x y = g x y) \<Longrightarrow> equals_arr f xs ys = equals_arr g xs' ys'"
  by (induction g xs' ys' arbitrary: xs ys rule: equals_arr.induct) auto

definition ContextKeyAndExpr_equals ::
    "(ContextKeyExpression \<Rightarrow> ContextKeyExpression \<Rightarrow> bool) \<Rightarrow> ContextKeyExpression list \<Rightarrow>
     ContextKeyExpression \<Rightarrow> bool" where
  "ContextKeyAndExpr_equals eq expr other =
     (case other of AndExpr es _ \<Rightarrow> if length expr \<noteq> length es then False else equals_arr eq expr es | _ \<Rightarrow> False)"

lemma ContextKeyAndExpr_equals_cong [fundef_cong]:
  "es = es' \<Longrightarrow> b = b' \<Longrightarrow> (\<And>x y. x \<in> set es' \<Longrightarrow> f x y = g x y) \<Longrightarrow>
     ContextKeyAndExpr_equals f es b = ContextKeyAndExpr_equals g es' b'"
  unfolding ContextKeyAndExpr_equals_def by (simp cong: equals_arr_cong split: ContextKeyExpression.split)

definition ContextKeyOrExpr_equals ::
    "(ContextKeyExpression \<Rightarrow> ContextKeyExpression \<Rightarrow> bool) \<Rightarrow> ContextKeyExpression list \<Rightarrow>
     ContextKeyExpression \<Rightarrow> bool" where
  "ContextKeyOrExpr_equals eq expr other =
     (case other of OrExpr es _ \<Rightarrow> if length expr \<noteq> length es then False else equals_arr eq expr es | _ \<Rightarrow> False)"

lemma ContextKeyOrExpr_equals_cong [fundef_cong]:
  "es = es' \<Longrightarrow> b = b' \<Longrightarrow> (\<And>x y. x \<in> set es' \<Longrightarrow> f x y = g x y) \<Longrightarrow>
     ContextKeyOrExpr_equals f es b = ContextKeyOrExpr_equals g es' b'"
  unfolding ContextKeyOrExpr_equals_def by (simp cong: equals_arr_cong split: ContextKeyExpression.split)

fun ContextKeyExpr_equalsTo :: "ContextKeyExpression \<Rightarrow> ContextKeyExpression \<Rightarrow> bool" where
  "ContextKeyExpr_equalsTo FalseExpr other = ContextKeyFalseExpr_equals other"
| "ContextKeyExpr_equalsTo TrueExpr other = ContextKeyTrueExpr_equals other"
| "ContextKeyExpr_equalsTo (DefinedExpr key n) other = ContextKeyDefinedExpr_equals key other"
| "ContextKeyExpr_equalsTo (NotExpr key n) other = ContextKeyNotExpr_equals key other"
| "ContextKeyExpr_equalsTo (EqualsExpr key val n) other = ContextKeyEqualsExpr_equals key val other"
| "ContextKeyExpr_equalsTo (NotEqualsExpr key val n) other = ContextKeyNotEqualsExpr_equals key val other"
| "ContextKeyExpr_equalsTo (AndExpr es n) other = ContextKeyAndExpr_equals ContextKeyExpr_equalsTo es other"
| "ContextKeyExpr_equalsTo (RegexExpr key re) other = ContextKeyRegexExpr_equals key re other"
| "ContextKeyExpr_equalsTo (NotRegexExpr key re) other = ContextKeyNotRegexExpr_equals key re other"
| "ContextKeyExpr_equalsTo (OrExpr es n) other = ContextKeyOrExpr_equals ContextKeyExpr_equalsTo es other"
| "ContextKeyExpr_equalsTo (InExpr key vk) other = ContextKeyInExpr_equals key vk other"
| "ContextKeyExpr_equalsTo (NotInExpr key vk) other = ContextKeyNotInExpr_equals key vk other"
| "ContextKeyExpr_equalsTo (GreaterExpr key val n) other = ContextKeyGreaterExpr_equals key val other"
| "ContextKeyExpr_equalsTo (GreaterEqualsExpr key val n) other = ContextKeyGreaterEqualsExpr_equals key val other"
| "ContextKeyExpr_equalsTo (SmallerExpr key val n) other = ContextKeySmallerExpr_equals key val other"
| "ContextKeyExpr_equalsTo (SmallerEqualsExpr key val n) other = ContextKeySmallerEqualsExpr_equals key val other"

section \<open>Evaluation\<close>

definition ContextKeyFalseExpr_evaluate :: bool where
  "ContextKeyFalseExpr_evaluate = False"

definition ContextKeyTrueExpr_evaluate :: bool where
  "ContextKeyTrueExpr_evaluate = True"

definition ContextKeyDefinedExpr_evaluate :: "IContext \<Rightarrow> js_string \<Rightarrow> bool" where
  "ContextKeyDefinedExpr_evaluate ctx key = truthy (ctx key)"

definition ContextKeyNotExpr_evaluate :: "IContext \<Rightarrow> js_string \<Rightarrow> bool" where
  "ContextKeyNotExpr_evaluate ctx key = (\<not> truthy (ctx key))"

definition ContextKeyEqualsExpr_evaluate :: "js_host \<Rightarrow> IContext \<Rightarrow> js_string \<Rightarrow> js_prim \<Rightarrow> bool" where
  "ContextKeyEqualsExpr_evaluate h ctx key val = loose_eq h (ctx key) val"

definition ContextKeyNotEqualsExpr_evaluate :: "js_host \<Rightarrow> IContext \<Rightarrow> js_string \<Rightarrow> js_prim \<Rightarrow> bool" where
  "ContextKeyNotEqualsExpr_evaluate h ctx key val = (\<not> loose_eq h (ctx key) val)"

definition ContextKeyInExpr_evaluate :: "IContext \<Rightarrow> js_string \<Rightarrow> js_string \<Rightarrow> bool" where
  "ContextKeyInExpr_evaluate ctx key valueKey =
     (let source = ctx valueKey; item = ctx key
      in case source of
           Arr xs \<Rightarrow> array_includes xs item
         | Obj keys \<Rightarrow> (case item of Prim (Str s) \<Rightarrow> s \<in> set keys | _ \<Rightarrow> False)
         | Prim p \<Rightarrow> False)"

definition ContextKeyNotInExpr_evaluate :: "IContext \<Rightarrow> js_string \<Rightarrow> js_string \<Rightarrow> bool" where
  "ContextKeyNotInExpr_evaluate ctx key valueKey = (\<not> ContextKeyInExpr_evaluate ctx key valueKey)"

definition ContextKeyRegexExpr_evaluate :: "js_host \<Rightarrow> IContext \<Rightarrow> js_string \<Rightarrow> RegExp option \<Rightarrow> bool" where
  "ContextKeyRegexExpr_evaluate h ctx key regexp =
     (case regexp of Some re \<Rightarrow> host_regexpTest h re (value_to_string h (ctx key)) | None \<Rightarrow> False)"

definition ContextKeyNotRegexExpr_evaluate :: "js_host \<Rightarrow> IContext \<Rightarrow> js_string \<Rightarrow> RegExp option \<Rightarrow> bool" where
  "ContextKeyNotRegexExpr_evaluate h ctx key regexp = (\<not> ContextKeyRegexExpr_evaluate h ctx key regexp)"

definition ContextKeyGreaterExpr_evaluate :: "js_host \<Rightarrow> IContext \<Rightarrow> js_string \<Rightarrow> js_prim \<Rightarrow> bool" where
  "ContextKeyGreaterExpr_evaluate h ctx key val =
     (case val of Number n \<Rightarrow> let v = host_parseFloat h (value_to_string h (ctx key)) in number_less n v | _ \<Rightarrow> False)"

definition ContextKeyGreaterEqualsExpr_evaluate :: "js_host \<Rightarrow> IContext \<Rightarrow> js_string \<Rightarrow> js_prim \<Rightarrow> bool" where
  "ContextKeyGreaterEqualsExpr_evaluate h ctx key val =
     (case val of Number n \<Rightarrow> let v = host_parseFloat h (value_to_string h (ctx key)) in number_le n v | _ \<Rightarrow> False)"

definition ContextKeySmallerExpr_evaluate :: "js_host \<Rightarrow> IContext \<Rightarrow> js_string \<Rightarrow> js_prim \<Rightarrow> bool" where
  "ContextKeySmallerExpr_evaluate h ctx key val =
     (case val of Number n \<Rightarrow> let v = host_parseFloat h (value_to_string h (ctx key)) in number_less v n | _ \<Rightarrow> False)"

definition ContextKeySmallerEqualsExpr_evaluate :: "js_host \<Rightarrow> IContext \<Rightarrow> js_string \<Rightarrow> js_prim \<Rightarrow> bool" where
  "ContextKeySmallerEqualsExpr_evaluate h ctx key val =
     (case val of Number n \<Rightarrow> let v = host_parseFloat h (value_to_string h (ctx key)) in number_le v n | _ \<Rightarrow> False)"

fun ContextKeyAndExpr_evaluate :: "('a \<Rightarrow> bool) \<Rightarrow> 'a list \<Rightarrow> bool" where
  "ContextKeyAndExpr_evaluate ev [] = True"
| "ContextKeyAndExpr_evaluate ev (e # es) = (if \<not> ev e then False else ContextKeyAndExpr_evaluate ev es)"

fun ContextKeyOrExpr_evaluate :: "('a \<Rightarrow> bool) \<Rightarrow> 'a list \<Rightarrow> bool" where
  "ContextKeyOrExpr_evaluate ev [] = False"
| "ContextKeyOrExpr_evaluate ev (e # es) = (if ev e then True else ContextKeyOrExpr_evaluate ev es)"

lemma ContextKeyAndExpr_evaluate_iff [simp]: "ContextKeyAndExpr_evaluate ev es \<longleftrightarrow> (\<forall>e \<in> set es. ev e)"
  by (induction es) auto

lemma ContextKeyOrExpr_evaluate_iff [simp]: "ContextKeyOrExpr_evaluate ev es \<longleftrightarrow> (\<exists>e \<in> set es. ev e)"
  by (induction es) auto

lemma evaluate_cong [fundef_cong]:
  "es = es' \<Longrightarrow> (\<And>e. e \<in> set es' \<Longrightarrow> f e = g e) \<Longrightarrow> ContextKeyAndExpr_evaluate f es = ContextKeyAndExpr_evaluate g es'"
  "es = es' \<Longrightarrow> (\<And>e. e \<in> set es' \<Longrightarrow> f e = g e) \<Longrightarrow> ContextKeyOrExpr_evaluate f es = ContextKeyOrExpr_evaluate g es'"
  by auto

fun ContextKeyExpr_evaluate :: "js_host \<Rightarrow> IContext \<Rightarrow> ContextKeyExpression \<Rightarrow> bool" where
  "ContextKeyExpr_evaluate h ctx FalseExpr = ContextKeyFalseExpr_evaluate"
| "ContextKeyExpr_evaluate h ctx TrueExpr = ContextKeyTrueExpr_evaluate"
| "ContextKeyExpr_evaluate h ctx (DefinedExpr key n) = ContextKeyDefinedExpr_evaluate ctx key"
| "ContextKeyExpr_evaluate h ctx (NotExpr key n) = ContextKeyNotExpr_evaluate ctx key"
| "ContextKeyExpr_evaluate h ctx (EqualsExpr key val n) = ContextKeyEqualsExpr_evaluate h ctx key val"
| "ContextKeyExpr_evaluate h ctx (NotEqualsExpr key val n) = ContextKeyNotEqualsExpr_evaluate h ctx key val"
| "ContextKeyExpr_evaluate h ctx (AndExpr es n) = ContextKeyAndExpr_evaluate (ContextKeyExpr_evaluate h ctx) es"
| "ContextKeyExpr_evaluate h ctx (RegexExpr key re) = ContextKeyRegexExpr_evaluate h ctx key re"
| "ContextKeyExpr_evaluate h ctx (NotRegexExpr key re) = ContextKeyNotRegexExpr_evaluate h ctx key re"
| "ContextKeyExpr_evaluate h ctx (OrExpr es n) = ContextKeyOrExpr_evaluate (ContextKeyExpr_evaluate h ctx) es"
| "ContextKeyExpr_evaluate h ctx (InExpr key vk) = ContextKeyInExpr_evaluate ctx key vk"
| "ContextKeyExpr_evaluate h ctx (NotInExpr key vk) = ContextKeyNotInExpr_evaluate ctx key vk"
| "ContextKeyExpr_evaluate h ctx (GreaterExpr key val n) = ContextKeyGreaterExpr_evaluate h ctx key val"
| "ContextKeyExpr_evaluate h ctx (GreaterEqualsExpr key val n) = ContextKeyGreaterEqualsExpr_evaluate h ctx key val"
| "ContextKeyExpr_evaluate h ctx (SmallerExpr key val n) = ContextKeySmallerExpr_evaluate h ctx key val"
| "ContextKeyExpr_evaluate h ctx (SmallerEqualsExpr key val n) = ContextKeySmallerEqualsExpr_evaluate h ctx key val"

section \<open>Serialization\<close>

definition ContextKeyFalseExpr_serialize :: "js_string" where
  "ContextKeyFalseExpr_serialize = js ''false''"

definition ContextKeyTrueExpr_serialize :: "js_string" where
  "ContextKeyTrueExpr_serialize = js ''true''"

definition ContextKeyDefinedExpr_serialize :: "js_string \<Rightarrow> js_string" where
  "ContextKeyDefinedExpr_serialize key = key"

definition ContextKeyNotExpr_serialize :: "js_string \<Rightarrow> js_string" where
  "ContextKeyNotExpr_serialize key = js ''!'' @ key"

definition ContextKeyEqualsExpr_serialize :: "js_host \<Rightarrow> js_string \<Rightarrow> js_prim \<Rightarrow> js_string" where
  "ContextKeyEqualsExpr_serialize h key val = key @ js '' == '' @ [0x27] @ prim_to_string h val @ [0x27]"

definition ContextKeyNotEqualsExpr_serialize :: "js_host \<Rightarrow> js_string \<Rightarrow> js_prim \<Rightarrow> js_string" where
  "ContextKeyNotEqualsExpr_serialize h key val = key @ js '' != '' @ [0x27] @ prim_to_string h val @ [0x27]"

definition ContextKeyInExpr_serialize :: "js_string \<Rightarrow> js_string \<Rightarrow> js_string" where
  "ContextKeyInExpr_serialize key valueKey = key @ js '' in '' @ [0x27] @ valueKey @ [0x27]"

definition ContextKeyNotInExpr_serialize :: "js_string \<Rightarrow> js_string \<Rightarrow> js_string" where
  "ContextKeyNotInExpr_serialize key valueKey = key @ js '' not in '' @ [0x27] @ valueKey @ [0x27]"

definition ContextKeyRegexExpr_serialize :: "js_string \<Rightarrow> RegExp option \<Rightarrow> js_string" where
  "ContextKeyRegexExpr_serialize key regexp = 
     key @ js '' =~ '' @ (case regexp of Some re \<Rightarrow> [0x2F] @ re_source re @ [0x2F] @ re_flags re | None \<Rightarrow> js ''/invalid/'')"

definition ContextKeyNotRegexExpr_serialize :: "js_string \<Rightarrow> RegExp option \<Rightarrow> js_string" where
  "ContextKeyNotRegexExpr_serialize key regexp = js ''!('' @ ContextKeyRegexExpr_serialize key regexp @ js '')''"

definition ContextKeyGreaterExpr_serialize :: "js_host \<Rightarrow> js_string \<Rightarrow> js_prim \<Rightarrow> js_string" where
  "ContextKeyGreaterExpr_serialize h key val = key @ js '' > '' @ prim_to_string h val"

definition ContextKeyGreaterEqualsExpr_serialize :: "js_host \<Rightarrow> js_string \<Rightarrow> js_prim \<Rightarrow> js_string" where
  "ContextKeyGreaterEqualsExpr_serialize h key val = key @ js '' >= '' @ prim_to_string h val"

definition ContextKeySmallerExpr_serialize :: "js_host \<Rightarrow> js_string \<Rightarrow> js_prim \<Rightarrow> js_string" where
  "ContextKeySmallerExpr_serialize h key val = key @ js '' < '' @ prim_to_string h val"

definition ContextKeySmallerEqualsExpr_serialize :: "js_host \<Rightarrow> js_string \<Rightarrow> js_prim \<Rightarrow> js_string" where
  "ContextKeySmallerEqualsExpr_serialize h key val = key @ js '' <= '' @ prim_to_string h val"

fun join_with :: "'a list \<Rightarrow> 'a list list \<Rightarrow> 'a list" where
  "join_with sep [] = []"
| "join_with sep [s] = s"
| "join_with sep (s # t # ss) = s @ sep @ join_with sep (t # ss)"

definition ContextKeyAndExpr_serialize :: "('a \<Rightarrow> js_string) \<Rightarrow> 'a list \<Rightarrow> js_string" where
  "ContextKeyAndExpr_serialize ser expr = join_with (js '' && '') (map ser expr)"

definition ContextKeyOrExpr_serialize :: "('a \<Rightarrow> js_string) \<Rightarrow> 'a list \<Rightarrow> js_string" where
  "ContextKeyOrExpr_serialize ser expr = join_with (js '' || '') (map ser expr)"

lemma serialize_cong [fundef_cong]:
  "es = es' \<Longrightarrow> (\<And>e. e \<in> set es' \<Longrightarrow> f e = g e) \<Longrightarrow> ContextKeyAndExpr_serialize f es = ContextKeyAndExpr_serialize g es'"
  "es = es' \<Longrightarrow> (\<And>e. e \<in> set es' \<Longrightarrow> f e = g e) \<Longrightarrow> ContextKeyOrExpr_serialize f es = ContextKeyOrExpr_serialize g es'"
  unfolding ContextKeyAndExpr_serialize_def ContextKeyOrExpr_serialize_def by (auto cong: map_cong)

fun ContextKeyExpr_serialize :: "js_host \<Rightarrow> ContextKeyExpression \<Rightarrow> js_string" where
  "ContextKeyExpr_serialize h FalseExpr = ContextKeyFalseExpr_serialize"
| "ContextKeyExpr_serialize h TrueExpr = ContextKeyTrueExpr_serialize"
| "ContextKeyExpr_serialize h (DefinedExpr key n) = ContextKeyDefinedExpr_serialize key"
| "ContextKeyExpr_serialize h (NotExpr key n) = ContextKeyNotExpr_serialize key"
| "ContextKeyExpr_serialize h (EqualsExpr key val n) = ContextKeyEqualsExpr_serialize h key val"
| "ContextKeyExpr_serialize h (NotEqualsExpr key val n) = ContextKeyNotEqualsExpr_serialize h key val"
| "ContextKeyExpr_serialize h (AndExpr es n) = ContextKeyAndExpr_serialize (ContextKeyExpr_serialize h) es"
| "ContextKeyExpr_serialize h (RegexExpr key re) = ContextKeyRegexExpr_serialize key re"
| "ContextKeyExpr_serialize h (NotRegexExpr key re) = ContextKeyNotRegexExpr_serialize key re"
| "ContextKeyExpr_serialize h (OrExpr es n) = ContextKeyOrExpr_serialize (ContextKeyExpr_serialize h) es"
| "ContextKeyExpr_serialize h (InExpr key vk) = ContextKeyInExpr_serialize key vk"
| "ContextKeyExpr_serialize h (NotInExpr key vk) = ContextKeyNotInExpr_serialize key vk"
| "ContextKeyExpr_serialize h (GreaterExpr key val n) = ContextKeyGreaterExpr_serialize h key val"
| "ContextKeyExpr_serialize h (GreaterEqualsExpr key val n) = ContextKeyGreaterEqualsExpr_serialize h key val"
| "ContextKeyExpr_serialize h (SmallerExpr key val n) = ContextKeySmallerExpr_serialize h key val"
| "ContextKeyExpr_serialize h (SmallerEqualsExpr key val n) = ContextKeySmallerEqualsExpr_serialize h key val"

section \<open>Keys and mapping\<close>

definition ContextKeyInExpr_keys :: "js_string \<Rightarrow> js_string \<Rightarrow> js_string list" where
  "ContextKeyInExpr_keys key valueKey = [key, valueKey]"

fun ContextKeyAndExpr_keys :: "('a \<Rightarrow> js_string list) \<Rightarrow> 'a list \<Rightarrow> js_string list" where
  "ContextKeyAndExpr_keys ks [] = []"
| "ContextKeyAndExpr_keys ks (e # es) = ks e @ ContextKeyAndExpr_keys ks es"

lemma keys_cong [fundef_cong]:
  "es = es' \<Longrightarrow> (\<And>e. e \<in> set es' \<Longrightarrow> f e = g e) \<Longrightarrow> ContextKeyAndExpr_keys f es = ContextKeyAndExpr_keys g es'"
  by (induction es arbitrary: es') auto

text \<open>The loop is the same in \<open>ContextKeyOrExpr\<close>.\<close>

fun ContextKeyExpr_keys :: "ContextKeyExpression \<Rightarrow> js_string list" where
  "ContextKeyExpr_keys FalseExpr = []"
| "ContextKeyExpr_keys TrueExpr = []"
| "ContextKeyExpr_keys (DefinedExpr key n) = [key]"
| "ContextKeyExpr_keys (NotExpr key n) = [key]"
| "ContextKeyExpr_keys (EqualsExpr key val n) = [key]"
| "ContextKeyExpr_keys (NotEqualsExpr key val n) = [key]"
| "ContextKeyExpr_keys (AndExpr es n) = ContextKeyAndExpr_keys ContextKeyExpr_keys es"
| "ContextKeyExpr_keys (RegexExpr key re) = [key]"
| "ContextKeyExpr_keys (NotRegexExpr key re) = [key]"
| "ContextKeyExpr_keys (OrExpr es n) = ContextKeyAndExpr_keys ContextKeyExpr_keys es"
| "ContextKeyExpr_keys (InExpr key vk) = ContextKeyInExpr_keys key vk"
| "ContextKeyExpr_keys (NotInExpr key vk) = ContextKeyInExpr_keys key vk"
| "ContextKeyExpr_keys (GreaterExpr key val n) = [key]"
| "ContextKeyExpr_keys (GreaterEqualsExpr key val n) = [key]"
| "ContextKeyExpr_keys (SmallerExpr key val n) = [key]"
| "ContextKeyExpr_keys (SmallerEqualsExpr key val n) = [key]"

text \<open>
  The functions of an \<open>IContextKeyExprMapper\<close>; \<open>mapRegex\<close> returns an expression of the class
  \<open>ContextKeyRegexExpr\<close>, here its two fields.
\<close>

record IContextKeyExprMapper =
  mapDefined :: "js_string \<Rightarrow> ContextKeyExpression"
  mapNot :: "js_string \<Rightarrow> ContextKeyExpression"
  mapEquals :: "js_string \<Rightarrow> js_prim \<Rightarrow> ContextKeyExpression"
  mapNotEquals :: "js_string \<Rightarrow> js_prim \<Rightarrow> ContextKeyExpression"
  mapGreater :: "js_string \<Rightarrow> js_prim \<Rightarrow> ContextKeyExpression"
  mapGreaterEquals :: "js_string \<Rightarrow> js_prim \<Rightarrow> ContextKeyExpression"
  mapSmaller :: "js_string \<Rightarrow> js_prim \<Rightarrow> ContextKeyExpression"
  mapSmallerEquals :: "js_string \<Rightarrow> js_prim \<Rightarrow> ContextKeyExpression"
  mapRegex :: "js_string \<Rightarrow> RegExp option \<Rightarrow> js_string \<times> RegExp option"
  mapIn :: "js_string \<Rightarrow> js_string \<Rightarrow> ContextKeyExpression"
  mapNotIn :: "js_string \<Rightarrow> js_string \<Rightarrow> ContextKeyExpression"

fun ContextKeyExpr_map :: "IContextKeyExprMapper \<Rightarrow> ContextKeyExpression \<Rightarrow> ContextKeyExpression" where
  "ContextKeyExpr_map m FalseExpr = FalseExpr"
| "ContextKeyExpr_map m TrueExpr = TrueExpr"
| "ContextKeyExpr_map m (DefinedExpr key n) = mapDefined m key"
| "ContextKeyExpr_map m (NotExpr key n) = mapNot m key"
| "ContextKeyExpr_map m (EqualsExpr key val n) = mapEquals m key val"
| "ContextKeyExpr_map m (NotEqualsExpr key val n) = mapNotEquals m key val"
| "ContextKeyExpr_map m (AndExpr es n) = AndExpr (map (ContextKeyExpr_map m) es) None"
| "ContextKeyExpr_map m (RegexExpr key re) = (case mapRegex m key re of (k, r) \<Rightarrow> RegexExpr k r)"
| "ContextKeyExpr_map m (NotRegexExpr key re) = (case mapRegex m key re of (k, r) \<Rightarrow> NotRegexExpr k r)"
| "ContextKeyExpr_map m (OrExpr es n) = OrExpr (map (ContextKeyExpr_map m) es) None"
| "ContextKeyExpr_map m (InExpr key vk) = mapIn m key vk"
| "ContextKeyExpr_map m (NotInExpr key vk) = mapNotIn m key vk"
| "ContextKeyExpr_map m (GreaterExpr key val n) = mapGreater m key val"
| "ContextKeyExpr_map m (GreaterEqualsExpr key val n) = mapGreaterEquals m key val"
| "ContextKeyExpr_map m (SmallerExpr key val n) = mapSmaller m key val"
| "ContextKeyExpr_map m (SmallerEqualsExpr key val n) = mapSmallerEquals m key val"

end
