(* ===== verification/ContextKeyNormalize.thy ===== *)
theory ContextKeyNormalize
  imports ContextKeyExprs
begin

text \<open>
  The normalizing operations of \<open>contextkey.ts\<close>: \<open>ContextKeyAndExpr.create\<close>,
  \<open>ContextKeyOrExpr.create\<close> and \<open>negate\<close>, which call each other, \<open>substituteConstants\<close>, and
  \<open>implies\<close>.

  The mutually recursive methods are one function \<open>ck\<close> of a call. Its result is \<^const>\<open>None\<close>
  when the call does not return, because it throws or runs forever; otherwise it is what the
  method returns, where \<open>undefined\<close> is \<^const>\<open>None\<close> again. The bodies of the methods are
  definitions of their own, with the function for their calls as an argument.
\<close>

section \<open>Definitions\<close>

datatype ck_call =
    CallNegate ContextKeyExpression
  | CallAnd "ContextKeyExpression option list" "ContextKeyExpression option" bool
  | CallOr "ContextKeyExpression option list" "ContextKeyExpression option" bool

type_synonym ck_result = "ContextKeyExpression option option"

fun mapM :: "('a \<Rightarrow> 'b option) \<Rightarrow> 'a list \<Rightarrow> 'b list option" where
  "mapM f [] = Some []"
| "mapM f (x # xs) = Option.bind (f x) (\<lambda>y. Option.bind (mapM f xs) (\<lambda>ys. Some (y # ys)))"

text \<open>The first loop of the two methods \<open>_normalizeArr\<close>: \<^const>\<open>None\<close> when it returns early.\<close>

fun and_collect :: "ContextKeyExpression option list \<Rightarrow> ContextKeyExpression list \<Rightarrow> bool \<Rightarrow>
    (ContextKeyExpression list \<times> bool) option" where
  "and_collect [] expr hasTrue = Some (expr, hasTrue)"
| "and_collect (None # arr) expr hasTrue = and_collect arr expr hasTrue"
| "and_collect (Some e # arr) expr hasTrue =
     (case e of
        TrueExpr \<Rightarrow> and_collect arr expr True
      | FalseExpr \<Rightarrow> None
      | AndExpr es _ \<Rightarrow> and_collect arr (expr @ es) hasTrue
      | _ \<Rightarrow> and_collect arr (expr @ [e]) hasTrue)"

fun or_collect :: "ContextKeyExpression option list \<Rightarrow> ContextKeyExpression list \<Rightarrow> bool \<Rightarrow>
    (ContextKeyExpression list \<times> bool) option" where
  "or_collect [] expr hasFalse = Some (expr, hasFalse)"
| "or_collect (None # arr) expr hasFalse = or_collect arr expr hasFalse"
| "or_collect (Some e # arr) expr hasFalse =
     (case e of
        FalseExpr \<Rightarrow> or_collect arr expr True
      | TrueExpr \<Rightarrow> None
      | OrExpr es _ \<Rightarrow> or_collect arr (expr @ es) hasFalse
      | _ \<Rightarrow> or_collect arr (expr @ [e]) hasFalse)"

text \<open>\<open>expr.sort(cmp)\<close>: the stable sort, here by insertion.\<close>

fun insert_by :: "('a \<Rightarrow> 'a \<Rightarrow> int) \<Rightarrow> 'a \<Rightarrow> 'a list \<Rightarrow> 'a list" where
  "insert_by cmp x [] = [x]"
| "insert_by cmp x (y # ys) = (if cmp x y \<le> 0 then x # y # ys else y # insert_by cmp x ys)"

definition expr_sort :: "js_host \<Rightarrow> ContextKeyExpression list \<Rightarrow> ContextKeyExpression list" where
  "expr_sort h expr = foldr (insert_by (ContextKeyExpr_cmp h)) expr []"

text \<open>\<open>eliminate duplicate terms\<close>\<close>

fun dedupe :: "ContextKeyExpression list \<Rightarrow> ContextKeyExpression list" where
  "dedupe (a # b # expr) =
     (if ContextKeyExpr_equalsTo a b then dedupe (a # expr) else a # dedupe (b # expr))"
| "dedupe [a] = [a]"
| "dedupe [] = []"

text \<open>The loop that distributes the last element, an \<open>Or\<close>, over the second to last one.\<close>

function distribute :: "js_host \<Rightarrow> (ck_call \<Rightarrow> ck_result) \<Rightarrow> bool \<Rightarrow> ContextKeyExpression list \<Rightarrow>
    ContextKeyExpression list option" where
  "distribute h call extraRedundantCheck expr =
     (if length expr > 1
      then (case last expr of
              OrExpr es _ \<Rightarrow>
                let secondToLastElement = last (butlast expr);
                    rest = butlast (butlast expr);
                    isFinished = (length rest = 0)
                in Option.bind (mapM (\<lambda>el. call (CallAnd [Some el, Some secondToLastElement] None extraRedundantCheck)) es)
                     (\<lambda>arr. Option.bind (call (CallOr arr None isFinished))
                        (\<lambda>resultElement. distribute h call extraRedundantCheck
                           (case resultElement of Some r \<Rightarrow> expr_sort h (rest @ [r]) | None \<Rightarrow> rest)))
            | _ \<Rightarrow> Some expr)
      else Some expr)"
  by pat_completeness auto

lemma length_insert_by [simp]: "length (insert_by cmp x ys) = Suc (length ys)"
  by (induction ys) auto

lemma length_expr_sort [simp]: "length (expr_sort h xs) = length xs"
  by (induction xs) (auto simp: expr_sort_def)

termination distribute
  by (relation "measure (\<lambda>(h, call, ex, expr). length expr)") (auto split: option.split)

declare distribute.simps [simp del]

text \<open>Is some element the negation of a later one?\<close>

fun negated_pair :: "(ck_call \<Rightarrow> ck_result) \<Rightarrow> ContextKeyExpression list \<Rightarrow> bool option" where
  "negated_pair call (a # b # expr) =
     Option.bind (call (CallNegate a)) (\<lambda>n. case n of
         None \<Rightarrow> None
       | Some n \<Rightarrow> if \<exists>e \<in> set (b # expr). ContextKeyExpr_equalsTo n e then Some True
                    else negated_pair call (b # expr))"
| "negated_pair call _ = Some False"

definition and_normalizeArr :: "js_host \<Rightarrow> (ck_call \<Rightarrow> ck_result) \<Rightarrow> ContextKeyExpression option list \<Rightarrow>
    ContextKeyExpression option \<Rightarrow> bool \<Rightarrow> ck_result" where
  "and_normalizeArr h call arr negated extraRedundantCheck =
     (case and_collect arr [] False of
        None \<Rightarrow> Some (Some FalseExpr)
      | Some (expr, hasTrue) \<Rightarrow>
          if length expr = 0 \<and> hasTrue then Some (Some TrueExpr)
          else if length expr = 0 then Some None
          else if length expr = 1 then Some (Some (hd expr))
          else let expr = dedupe (expr_sort h expr)
          in if length expr = 1 then Some (Some (hd expr))
          else Option.bind (distribute h call extraRedundantCheck expr) (\<lambda>expr.
            if length expr = 1 then Some (Some (hd expr))
            else if extraRedundantCheck
            then Option.bind (negated_pair call expr) (\<lambda>found.
              if found then Some (Some FalseExpr) else Some (Some (AndExpr expr negated)))
            else Some (Some (AndExpr expr negated))))"

definition or_normalizeArr :: "js_host \<Rightarrow> (ck_call \<Rightarrow> ck_result) \<Rightarrow> ContextKeyExpression option list \<Rightarrow>
    ContextKeyExpression option \<Rightarrow> bool \<Rightarrow> ck_result" where
  "or_normalizeArr h call arr negated extraRedundantCheck =
     (case or_collect arr [] False of
        None \<Rightarrow> Some (Some TrueExpr)
      | Some (expr, hasFalse) \<Rightarrow>
          if length expr = 0 \<and> hasFalse then Some (Some FalseExpr)
          else let expr = expr_sort h expr
          in if length expr = 0 then Some None
          else if length expr = 1 then Some (Some (hd expr))
          else let expr = dedupe expr
          in if length expr = 1 then Some (Some (hd expr))
          else if extraRedundantCheck
          then Option.bind (negated_pair call expr) (\<lambda>found.
            if found then Some (Some TrueExpr) else Some (Some (OrExpr expr negated)))
          else Some (Some (OrExpr expr negated)))"

text \<open>\<open>getTerminals\<close>; it throws on \<open>undefined\<close>.\<close>

definition getTerminals :: "ContextKeyExpression option \<Rightarrow> ContextKeyExpression list option" where
  "getTerminals node =
     (case node of None \<Rightarrow> None | Some (OrExpr es _) \<Rightarrow> Some es | Some e \<Rightarrow> Some [e])"

text \<open>The loop of \<open>ContextKeyOrExpr.negate\<close> that distributes the conjunction of the negations.\<close>

fun or_negate_loop :: "(ck_call \<Rightarrow> ck_result) \<Rightarrow> ContextKeyExpression option list \<Rightarrow>
    ContextKeyExpression option list option" where
  "or_negate_loop call (LEFT # RIGHT # result) =
     Option.bind (getTerminals LEFT) (\<lambda>lefts.
     Option.bind (getTerminals RIGHT) (\<lambda>rights.
     Option.bind (mapM (\<lambda>(l, r). call (CallAnd [Some l, Some r] None False))
                    (concat (map (\<lambda>l. map (\<lambda>r. (l, r)) rights) lefts))) (\<lambda>all.
     Option.bind (call (CallOr all None False)) (\<lambda>joined. or_negate_loop call (joined # result)))))"
| "or_negate_loop call result = Some result"

definition and_negate :: "(ck_call \<Rightarrow> ck_result) \<Rightarrow> ContextKeyExpression list \<Rightarrow> ContextKeyExpression option \<Rightarrow> ck_result" where
  "and_negate call expr negated =
     (case negated of
        Some n \<Rightarrow> Some (Some n)
      | None \<Rightarrow> Option.bind (mapM (\<lambda>e. call (CallNegate e)) expr) (\<lambda>result.
          call (CallOr result (Some (AndExpr expr negated)) True)))"

definition or_negate :: "(ck_call \<Rightarrow> ck_result) \<Rightarrow> ContextKeyExpression list \<Rightarrow> ContextKeyExpression option \<Rightarrow> ck_result" where
  "or_negate call expr negated =
     (case negated of
        Some n \<Rightarrow> Some (Some n)
      | None \<Rightarrow> Option.bind (mapM (\<lambda>e. call (CallNegate e)) expr) (\<lambda>result.
          Option.bind (or_negate_loop call result) (\<lambda>result.
            call (CallOr result (Some (OrExpr expr negated)) True))))"

fun expr_negate :: "js_host \<Rightarrow> constants \<Rightarrow> (ck_call \<Rightarrow> ck_result) \<Rightarrow> ContextKeyExpression \<Rightarrow> ck_result" where
  "expr_negate h env call FalseExpr = Some (Some ContextKeyFalseExpr_negate)"
| "expr_negate h env call TrueExpr = Some (Some ContextKeyTrueExpr_negate)"
| "expr_negate h env call (DefinedExpr key n) = Some (Some (ContextKeyDefinedExpr_negate env key n))"
| "expr_negate h env call (NotExpr key n) = Some (Some (ContextKeyNotExpr_negate env key n))"
| "expr_negate h env call (EqualsExpr key val n) = Some (Some (ContextKeyEqualsExpr_negate env key val n))"
| "expr_negate h env call (NotEqualsExpr key val n) = Some (Some (ContextKeyNotEqualsExpr_negate env key val n))"
| "expr_negate h env call (AndExpr es n) = and_negate call es n"
| "expr_negate h env call (RegexExpr key re) = Some (Some (ContextKeyRegexExpr_negate key re))"
| "expr_negate h env call (NotRegexExpr key re) = Some (Some (ContextKeyNotRegexExpr_negate key re))"
| "expr_negate h env call (OrExpr es n) = or_negate call es n"
| "expr_negate h env call (InExpr key vk) = Some (Some (ContextKeyInExpr_negate key vk))"
| "expr_negate h env call (NotInExpr key vk) = Some (Some (ContextKeyNotInExpr_negate key vk))"
| "expr_negate h env call (GreaterExpr key val n) = Some (Some (ContextKeyGreaterExpr_negate h key val n))"
| "expr_negate h env call (GreaterEqualsExpr key val n) = Some (Some (ContextKeyGreaterEqualsExpr_negate h key val n))"
| "expr_negate h env call (SmallerExpr key val n) = Some (Some (ContextKeySmallerExpr_negate h key val n))"
| "expr_negate h env call (SmallerEqualsExpr key val n) = Some (Some (ContextKeySmallerEqualsExpr_negate h key val n))"

text \<open>\<open>create\<close> of the two classes and \<open>negate\<close> of all\<close>

definition ck_body :: "js_host \<Rightarrow> constants \<Rightarrow> (ck_call \<Rightarrow> ck_result) \<Rightarrow> ck_call \<Rightarrow> ck_result" where
  "ck_body h env call c =
     (case c of
        CallNegate e \<Rightarrow> expr_negate h env call e
      | CallAnd arr negated extra \<Rightarrow> and_normalizeArr h call arr negated extra
      | CallOr arr negated extra \<Rightarrow> or_normalizeArr h call arr negated extra)"

section \<open>The recursive function\<close>

lemma bind_le:
  "option_ord a b \<Longrightarrow> (\<And>x. option_ord (f x) (g x)) \<Longrightarrow> option_ord (Option.bind a f) (Option.bind b g)"
  by (cases a; cases b) (auto simp: flat_ord_def)

lemma option_ord_refl [simp]: "option_ord a a"
  by (simp add: flat_ord_def)

lemma mapM_le: "(\<And>x. option_ord (f x) (g x)) \<Longrightarrow> option_ord (mapM f xs) (mapM g xs)"
  by (induction xs) (auto intro!: bind_le)

lemma distribute_le:
  assumes "\<And>c. option_ord (f c) (g c)"
  shows "option_ord (distribute h f ex expr) (distribute h g ex expr)"
proof (induction "length expr" arbitrary: expr rule: less_induct)
  case less
  show ?case
  proof (cases "length expr > 1")
    case True
    then have "length (case r of Some r \<Rightarrow> expr_sort h (butlast (butlast expr) @ [r]) | None \<Rightarrow> butlast (butlast expr)) < length expr" for r
      by (auto split: option.split)
    with less True assms show ?thesis
      by (subst (1 2) distribute.simps)
        (auto simp: Let_def split: ContextKeyExpression.split intro!: bind_le mapM_le)
  next
    case False
    then show ?thesis by (subst (1 2) distribute.simps) simp
  qed
qed

lemma negated_pair_le:
  "(\<And>c. option_ord (f c) (g c)) \<Longrightarrow> option_ord (negated_pair f expr) (negated_pair g expr)"
  by (induction expr rule: induct_list012) (auto intro!: bind_le split: option.split)

lemma or_negate_loop_le:
  assumes "\<And>c. option_ord (f c) (g c)"
  shows "option_ord (or_negate_loop f rs) (or_negate_loop g rs)"
proof (induction "length rs" arbitrary: rs rule: less_induct)
  case less
  then show ?case
    using assms by (cases rs rule: remdups_adj.cases) (auto intro!: bind_le mapM_le split: prod.split)
qed

lemma ck_body_le:
  assumes "\<And>c. option_ord (f c) (g c)"
  shows "option_ord (ck_body h env f c) (ck_body h env g c)"
proof (cases c)
  case (CallNegate e)
  with assms show ?thesis
    by (cases e) (auto simp: ck_body_def and_negate_def or_negate_def split: option.split
        intro!: bind_le mapM_le or_negate_loop_le)
next
  case (CallAnd arr n extra)
  with assms show ?thesis
    by (auto simp: ck_body_def and_normalizeArr_def Let_def split: option.split
        intro!: bind_le distribute_le negated_pair_le)
next
  case (CallOr arr n extra)
  with assms show ?thesis
    by (auto simp: ck_body_def or_normalizeArr_def Let_def split: option.split intro!: bind_le negated_pair_le)
qed

lemma ck_body_mono [partial_function_mono]:
  "(\<And>c. mono_option (\<lambda>f. call f c)) \<Longrightarrow> mono_option (\<lambda>f. ck_body h env (call f) c)"
  by (rule monotoneI, rule ck_body_le) (auto dest: monotoneD)

partial_function (option) ck :: "js_host \<Rightarrow> constants \<Rightarrow> ck_call \<Rightarrow> ck_result" where
  "ck h env c = ck_body h env (\<lambda>c. ck h env c) c"

definition ContextKeyAndExpr_create :: "js_host \<Rightarrow> constants \<Rightarrow> ContextKeyExpression option list \<Rightarrow>
    ContextKeyExpression option \<Rightarrow> bool \<Rightarrow> ck_result" where
  "ContextKeyAndExpr_create h env expr negated extraRedundantCheck = ck h env (CallAnd expr negated extraRedundantCheck)"

definition ContextKeyOrExpr_create :: "js_host \<Rightarrow> constants \<Rightarrow> ContextKeyExpression option list \<Rightarrow>
    ContextKeyExpression option \<Rightarrow> bool \<Rightarrow> ck_result" where
  "ContextKeyOrExpr_create h env expr negated extraRedundantCheck = ck h env (CallOr expr negated extraRedundantCheck)"

definition ContextKeyExpr_negate :: "js_host \<Rightarrow> constants \<Rightarrow> ContextKeyExpression \<Rightarrow> ck_result" where
  "ContextKeyExpr_negate h env e = ck h env (CallNegate e)"

definition ContextKeyExpr_and :: "js_host \<Rightarrow> constants \<Rightarrow> ContextKeyExpression option list \<Rightarrow> ck_result" where
  "ContextKeyExpr_and h env expr = ContextKeyAndExpr_create h env expr None True"

definition ContextKeyExpr_or :: "js_host \<Rightarrow> constants \<Rightarrow> ContextKeyExpression option list \<Rightarrow> ck_result" where
  "ContextKeyExpr_or h env expr = ContextKeyOrExpr_create h env expr None True"

section \<open>substituteConstants\<close>

text \<open>
  \<open>substituteConstants\<close> with a flag for whether the result is another object than \<open>this\<close>, which
  is what \<open>eliminateConstantsInArray\<close> tests.
\<close>

definition ContextKeyDefinedExpr_substituteConstants ::
    "constants \<Rightarrow> js_string \<Rightarrow> ContextKeyExpression \<Rightarrow> ContextKeyExpression \<times> bool" where
  "ContextKeyDefinedExpr_substituteConstants env key this =
     (case env key of Some constantValue \<Rightarrow> (if constantValue then TrueExpr else FalseExpr, True)
      | None \<Rightarrow> (this, False))"

definition ContextKeyNotExpr_substituteConstants ::
    "constants \<Rightarrow> js_string \<Rightarrow> ContextKeyExpression \<Rightarrow> ContextKeyExpression \<times> bool" where
  "ContextKeyNotExpr_substituteConstants env key this =
     (case env key of Some constantValue \<Rightarrow> (if constantValue then FalseExpr else TrueExpr, True)
      | None \<Rightarrow> (this, False))"

definition ContextKeyEqualsExpr_substituteConstants ::
    "constants \<Rightarrow> js_string \<Rightarrow> js_prim \<Rightarrow> ContextKeyExpression \<Rightarrow> ContextKeyExpression \<times> bool" where
  "ContextKeyEqualsExpr_substituteConstants env key val this =
     (case env key of
        Some constantValue \<Rightarrow>
          let trueValue = (if constantValue then js ''true'' else js ''false'')
          in (if strict_eq val (Str trueValue) then TrueExpr else FalseExpr, True)
      | None \<Rightarrow> (this, False))"

definition ContextKeyNotEqualsExpr_substituteConstants ::
    "constants \<Rightarrow> js_string \<Rightarrow> js_prim \<Rightarrow> ContextKeyExpression \<Rightarrow> ContextKeyExpression \<times> bool" where
  "ContextKeyNotEqualsExpr_substituteConstants env key val this =
     (case env key of
        Some constantValue \<Rightarrow>
          let falseValue = (if constantValue then js ''true'' else js ''false'')
          in (if strict_eq val (Str falseValue) then FalseExpr else TrueExpr, True)
      | None \<Rightarrow> (this, False))"

definition eliminateConstantsInArray :: "('a \<Rightarrow> ('b \<times> bool) option) \<Rightarrow> 'a list \<Rightarrow> ('b list \<times> bool) option" where
  "eliminateConstantsInArray subst arr =
     map_option (\<lambda>rs. (map fst rs, \<exists>r \<in> set rs. snd r)) (mapM subst arr)"

lemma mapM_cong [fundef_cong]:
  "xs = ys \<Longrightarrow> (\<And>x. x \<in> set ys \<Longrightarrow> f x = g x) \<Longrightarrow> mapM f xs = mapM g ys"
  by (induction ys arbitrary: xs) auto

lemma eliminateConstantsInArray_cong [fundef_cong]:
  "xs = ys \<Longrightarrow> (\<And>x. x \<in> set ys \<Longrightarrow> f x = g x) \<Longrightarrow> eliminateConstantsInArray f xs = eliminateConstantsInArray g ys"
  unfolding eliminateConstantsInArray_def by (simp cong: mapM_cong)

definition subst_leaf :: "ContextKeyExpression \<times> bool \<Rightarrow> (ContextKeyExpression option \<times> bool) option" where
  "subst_leaf r = Some (Some (fst r), snd r)"

fun ContextKeyExpr_substituteConstants :: "js_host \<Rightarrow> constants \<Rightarrow> ContextKeyExpression \<Rightarrow>
    (ContextKeyExpression option \<times> bool) option" where
  "ContextKeyExpr_substituteConstants h env (DefinedExpr key n) =
     subst_leaf (ContextKeyDefinedExpr_substituteConstants env key (DefinedExpr key n))"
| "ContextKeyExpr_substituteConstants h env (NotExpr key n) =
     subst_leaf (ContextKeyNotExpr_substituteConstants env key (NotExpr key n))"
| "ContextKeyExpr_substituteConstants h env (EqualsExpr key val n) =
     subst_leaf (ContextKeyEqualsExpr_substituteConstants env key val (EqualsExpr key val n))"
| "ContextKeyExpr_substituteConstants h env (NotEqualsExpr key val n) =
     subst_leaf (ContextKeyNotEqualsExpr_substituteConstants env key val (NotEqualsExpr key val n))"
| "ContextKeyExpr_substituteConstants h env (AndExpr es n) =
     Option.bind (eliminateConstantsInArray (ContextKeyExpr_substituteConstants h env) es) (\<lambda>(exprArr, changed).
       if \<not> changed then Some (Some (AndExpr es n), False)
       else map_option (\<lambda>r. (r, True)) (ContextKeyAndExpr_create h env exprArr n False))"
| "ContextKeyExpr_substituteConstants h env (OrExpr es n) =
     Option.bind (eliminateConstantsInArray (ContextKeyExpr_substituteConstants h env) es) (\<lambda>(exprArr, changed).
       if \<not> changed then Some (Some (OrExpr es n), False)
       else map_option (\<lambda>r. (r, True)) (ContextKeyOrExpr_create h env exprArr n False))"
| "ContextKeyExpr_substituteConstants h env e = Some (Some e, False)"

definition expressionsAreEqualWithConstantSubstitution ::
    "js_host \<Rightarrow> constants \<Rightarrow> ContextKeyExpression option \<Rightarrow> ContextKeyExpression option \<Rightarrow> bool option" where
  "expressionsAreEqualWithConstantSubstitution h env a b =
     (let subst = (\<lambda>e. case e of None \<Rightarrow> Some None
                       | Some e \<Rightarrow> map_option fst (ContextKeyExpr_substituteConstants h env e))
      in Option.bind (subst a) (\<lambda>aExpr. Option.bind (subst b) (\<lambda>bExpr.
           case (aExpr, bExpr) of
             (None, None) \<Rightarrow> Some True
           | (Some x, Some y) \<Rightarrow> Some (ContextKeyExpr_equalsTo x y)
           | _ \<Rightarrow> Some False)))"

section \<open>implies\<close>

fun allElementsIncluded :: "js_host \<Rightarrow> ContextKeyExpression list \<Rightarrow> ContextKeyExpression list \<Rightarrow> bool" where
  "allElementsIncluded h (p # ps) (q # qs) =
     (let c = ContextKeyExpr_cmp h p q
      in if c < 0 then False
         else if c = 0 then allElementsIncluded h ps qs
         else allElementsIncluded h (p # ps) qs)"
| "allElementsIncluded h ps qs = (ps = [])"

text \<open>The subexpressions of an expression of type \<open>Or\<close> or \<open>And\<close>\<close>

fun or_parts :: "ContextKeyExpression \<Rightarrow> ContextKeyExpression list option" where
  "or_parts (OrExpr es _) = Some es"
| "or_parts _ = None"

fun and_parts :: "ContextKeyExpression \<Rightarrow> ContextKeyExpression list option" where
  "and_parts (AndExpr es _) = Some es"
| "and_parts _ = None"

function implies :: "js_host \<Rightarrow> ContextKeyExpression \<Rightarrow> ContextKeyExpression \<Rightarrow> bool" where
  "implies h p q =
     (if p = FalseExpr \<or> q = TrueExpr then True
      else case or_parts p of
        Some ps \<Rightarrow> (case or_parts q of Some qs \<Rightarrow> allElementsIncluded h ps qs | None \<Rightarrow> False)
      | None \<Rightarrow> (case or_parts q of
          Some qs \<Rightarrow> (\<exists>element \<in> set qs. implies h p element)
        | None \<Rightarrow> (case and_parts p of
            Some ps \<Rightarrow> (case and_parts q of
                Some qs \<Rightarrow> allElementsIncluded h qs ps
              | None \<Rightarrow> (\<exists>element \<in> set ps. implies h element q))
          | None \<Rightarrow> ContextKeyExpr_equalsTo p q)))"
  by pat_completeness auto

lemma size_parts:
  "or_parts p = Some es \<Longrightarrow> e \<in> set es \<Longrightarrow> size e < size p"
  "and_parts p = Some es \<Longrightarrow> e \<in> set es \<Longrightarrow> size e < size p"
  by (cases p; auto dest: size_list_estimation' [of e es "size e" size]; fail)+

termination implies
  by (relation "measure (\<lambda>(h, p, q). size p + size q)") (auto dest: size_parts)

declare implies.simps [simp del]

end
