(* ===== verification/ContextKeyParser.thy ===== *)
theory ContextKeyParser
  imports ContextKeyScanner ContextKeyNormalize
begin

text \<open>
  The recursive-descent parser of \<open>contextkey.ts\<close>, \<open>deserialize\<close> and \<open>validateWhenClauses\<close>.

  A parsing function maps the state of the parser to \<^const>\<open>None\<close> when it does not return, because
  it throws another error than \<open>_parseError\<close>, because a call of \<open>and\<close>, \<open>or\<close> or \<open>negate\<close> does not
  return, or because it is out of fuel; otherwise to the new state and what it returns, or the
  left injection when it throws \<open>_parseError\<close>. The methods that call each other take a fuel
  argument, which \<open>parse\<close> starts with a bound on the depth of their calls.
\<close>

section \<open>State and errors\<close>

record ParsingError =
  pe_message :: js_string
  pe_offset :: nat
  pe_lexeme :: js_string
  pe_additionalInfo :: "js_string option"

record Parser =
  ps_scanner :: Scanner
  ps_tokens :: "Token list"
  ps_current :: nat
  ps_parsingErrors :: "ParsingError list"

text \<open>
  The configuration and the surroundings: whether the parser recovers from errors in regular
  expressions, the constants, the engine, and \<open>new RegExp(source, flags)\<close>, which is \<^const>\<open>None\<close>
  when it throws.
\<close>

record parser_host =
  ph_recovery :: bool
  ph_constants :: constants
  ph_js :: js_host
  ph_scan :: scan_host
  ph_newRegExp :: "js_string \<Rightarrow> js_string option \<Rightarrow> RegExp option"

type_synonym 'a parsing = "Parser \<Rightarrow> (Parser \<times> (unit + 'a)) option"

definition p_return :: "'a \<Rightarrow> 'a parsing" where
  "p_return a st = Some (st, Inr a)"

definition p_throw :: "'a parsing" where
  "p_throw st = Some (st, Inl ())"

definition p_bind :: "'a parsing \<Rightarrow> ('a \<Rightarrow> 'b parsing) \<Rightarrow> 'b parsing" where
  "p_bind m f st =
     (case m st of None \<Rightarrow> None | Some (st, Inl e) \<Rightarrow> Some (st, Inl e) | Some (st, Inr a) \<Rightarrow> f a st)"

definition p_lift :: "'a option \<Rightarrow> 'a parsing" where
  "p_lift r st = map_option (\<lambda>a. (st, Inr a)) r"

definition nls :: "parser_host \<Rightarrow> string \<Rightarrow> js_string \<Rightarrow> js_string list \<Rightarrow> js_string" where
  "nls c = sh_localize (ph_scan c)"

definition errorEmptyString :: "parser_host \<Rightarrow> js_string" where
  "errorEmptyString c = nls c ''contextkey.parser.error.emptyString'' (js ''Empty context key expression'') []"

definition hintEmptyString :: "parser_host \<Rightarrow> js_string" where
  "hintEmptyString c = nls c ''contextkey.parser.error.emptyString.hint''
     (js ''Did you forget to write an expression? You can also put '' @ [0x27] @ js ''false'' @ [0x27] @ js '' or '' @
      [0x27] @ js ''true'' @ [0x27] @ js '' to always evaluate to false or true, respectively.'') []"

definition errorNoInAfterNot :: "parser_host \<Rightarrow> js_string" where
  "errorNoInAfterNot c = nls c ''contextkey.parser.error.noInAfterNot''
     ([0x27] @ js ''in'' @ [0x27] @ js '' after '' @ [0x27] @ js ''not'' @ [0x27] @ js ''.'') []"

definition errorClosingParenthesis :: "parser_host \<Rightarrow> js_string" where
  "errorClosingParenthesis c = nls c ''contextkey.parser.error.closingParenthesis''
     (js ''closing parenthesis '' @ [0x27] @ js '')'' @ [0x27]) []"

definition errorUnexpectedToken :: "parser_host \<Rightarrow> js_string" where
  "errorUnexpectedToken c = nls c ''contextkey.parser.error.unexpectedToken'' (js ''Unexpected token'') []"

definition hintUnexpectedToken :: "parser_host \<Rightarrow> js_string" where
  "hintUnexpectedToken c = nls c ''contextkey.parser.error.unexpectedToken.hint''
     (js ''Did you forget to put && or || before the token?'') []"

definition errorUnexpectedEOF :: "parser_host \<Rightarrow> js_string" where
  "errorUnexpectedEOF c = nls c ''contextkey.parser.error.unexpectedEOF'' (js ''Unexpected end of expression'') []"

definition hintUnexpectedEOF :: "parser_host \<Rightarrow> js_string" where
  "hintUnexpectedEOF c = nls c ''contextkey.parser.error.unexpectedEOF.hint''
     (js ''Did you forget to put a context key?'') []"

section \<open>Access to the tokens\<close>

definition Parser_peek :: "Token parsing" where
  "Parser_peek st = p_lift (if ps_current st < length (ps_tokens st) then Some (ps_tokens st ! ps_current st) else None) st"

definition Parser_previous :: "Token parsing" where
  "Parser_previous st = p_lift (js_get (ps_tokens st) (int (ps_current st) - 1)) st"

definition Parser_isAtEnd :: "bool parsing" where
  "Parser_isAtEnd = p_bind Parser_peek (\<lambda>t. p_return (tok_type t = EOF))"

text \<open>\<open>_advance\<close>; only \<open>_consume\<close> returns its result, which no caller uses.\<close>

definition Parser_advance :: "unit parsing" where
  "Parser_advance = p_bind Parser_isAtEnd (\<lambda>e st. Some (if e then st else st\<lparr>ps_current := ps_current st + 1\<rparr>, Inr ()))"

definition Parser_check :: "TokenType \<Rightarrow> bool parsing" where
  "Parser_check ty = p_bind Parser_peek (\<lambda>t. p_return (tok_type t = ty))"

definition Parser_matchOne :: "TokenType \<Rightarrow> bool parsing" where
  "Parser_matchOne ty = p_bind (Parser_check ty) (\<lambda>b.
     if b then p_bind Parser_advance (\<lambda>_. p_return True) else p_return False)"

definition pushError :: "ParsingError \<Rightarrow> 'a parsing" where
  "pushError e st = p_throw (st\<lparr>ps_parsingErrors := ps_parsingErrors st @ [e]\<rparr>)"

text \<open>\<open>throw this._errExpectedButGot(expected, got)\<close>\<close>

definition Parser_errExpectedButGot :: "parser_host \<Rightarrow> js_string \<Rightarrow> Token \<Rightarrow> 'a parsing" where
  "Parser_errExpectedButGot c expected got =
     (let message = nls c ''contextkey.parser.error.expectedButGot''
            (js ''Expected: {0}'' @ [LF] @ js ''Received: '' @ [0x27] @ js ''{1}'' @ [0x27] @ js ''.'') [expected, Scanner_getLexeme got]
      in pushError \<lparr>pe_message = message, pe_offset = tok_offset got, pe_lexeme = Scanner_getLexeme got, pe_additionalInfo = None\<rparr>)"

definition Parser_consume :: "parser_host \<Rightarrow> TokenType \<Rightarrow> js_string \<Rightarrow> unit parsing" where
  "Parser_consume c ty message = p_bind (Parser_check ty) (\<lambda>b.
     if b then Parser_advance else p_bind Parser_peek (\<lambda>t. Parser_errExpectedButGot c message t))"

section \<open>Values and regular expressions\<close>

definition Parser_value :: "js_string parsing" where
  "Parser_value = p_bind Parser_peek (\<lambda>token.
     case tok_type token of
       StrTok lexeme \<Rightarrow> p_bind Parser_advance (\<lambda>_. p_return lexeme)
     | QuotedStr lexeme \<Rightarrow> p_bind Parser_advance (\<lambda>_. p_return lexeme)
     | TrueTok \<Rightarrow> p_bind Parser_advance (\<lambda>_. p_return (js ''true''))
     | FalseTok \<Rightarrow> p_bind Parser_advance (\<lambda>_. p_return (js ''false''))
     | InTok \<Rightarrow> p_bind Parser_advance (\<lambda>_. p_return (js ''in''))
     | _ \<Rightarrow> p_return [])"

definition Parser_removeFlagsGY :: "js_string \<Rightarrow> js_string" where
  "Parser_removeFlagsGY flags = filter (\<lambda>c. c \<noteq> 0x67 \<and> c \<noteq> 0x79) flags"

text \<open>\<open>s.indexOf(c)\<close> and \<open>s.lastIndexOf(c)\<close> for a single code unit; -1 if there is none\<close>

definition index_of :: "js_string \<Rightarrow> code_unit \<Rightarrow> int" where
  "index_of s c = (if c \<in> set s then int (length (takeWhile (\<lambda>x. x \<noteq> c) s)) else -1)"

definition last_index_of :: "js_string \<Rightarrow> code_unit \<Rightarrow> int" where
  "last_index_of s c = (if c \<in> set s then int (length s) - 1 - int (length (takeWhile (\<lambda>x. x \<noteq> c) (rev s))) else -1)"

text \<open>The regular expression that a lexeme \<open>/REGEX/FLAGS\<close> denotes\<close>

definition regexp_of_lexeme :: "parser_host \<Rightarrow> js_string \<Rightarrow> RegExp option" where
  "regexp_of_lexeme c regexLexeme =
     (let closingSlashIndex = last_index_of regexLexeme 0x2F;
          flags = (if closingSlashIndex = int (length regexLexeme) - 1 then None
                   else Some (Parser_removeFlagsGY (js_substring_from regexLexeme (closingSlashIndex + 1))))
      in ph_newRegExp c (js_substring regexLexeme 1 closingSlashIndex) flags)"

definition create_regex :: "parser_host \<Rightarrow> js_string \<Rightarrow> Token \<Rightarrow> js_string \<Rightarrow> ContextKeyExpression option parsing" where
  "create_regex c key expr regexLexeme =
     (case regexp_of_lexeme c regexLexeme of
        Some regexp \<Rightarrow> p_return (Some (ContextKeyRegexExpr_create key (Some regexp)))
      | None \<Rightarrow> Parser_errExpectedButGot c (js ''REGEX'') expr)"

text \<open>
  The number of opening less closing parentheses, where \<open>closing\<close> is the string in which the
  source looks for closing ones: for a following token it is the lexeme of the first token.
\<close>

definition paren_balance :: "js_string \<Rightarrow> js_string \<Rightarrow> int" where
  "paren_balance s closing =
     sum_list (map (\<lambda>i. if s ! i = 0x28 then 1 else if js_get closing (int i) = Some 0x29 then -1 else 0) [0..<length s])"

text \<open>The loop that reassembles a regular expression with unescaped slashes\<close>

definition is_conn :: "TokenType \<Rightarrow> bool" where
  "is_conn ty \<longleftrightarrow> ty = AndTok \<or> ty = OrTok"

fun regex_reconstruct :: "js_string \<Rightarrow> nat \<Rightarrow> int \<Rightarrow> js_string \<Rightarrow> js_string parsing" where
  "regex_reconstruct first 0 parenBalance acc = (\<lambda>st. None)"
| "regex_reconstruct first (Suc fuel) parenBalance acc =
     p_bind Parser_peek (\<lambda>followingToken. p_bind Parser_isAtEnd (\<lambda>atEnd.
       if atEnd \<or> is_conn (tok_type followingToken) then p_return acc
       else let parenBalance = (case tok_type followingToken of
                  LParen \<Rightarrow> parenBalance + 1
                | RParen \<Rightarrow> parenBalance - 1
                | RegexStr lexeme \<Rightarrow> parenBalance + paren_balance lexeme first
                | QuotedStr lexeme \<Rightarrow> parenBalance + paren_balance lexeme first
                | _ \<Rightarrow> parenBalance)
            in if parenBalance < 0 then p_return acc
               else p_bind Parser_advance (\<lambda>_.
                 regex_reconstruct first fuel parenBalance (acc @ Scanner_getLexeme followingToken))))"

definition isFalsyOrWhitespace :: "js_string \<Rightarrow> bool" where
  "isFalsyOrWhitespace str \<longleftrightarrow> list_all js_space str"

definition quoted_regex :: "parser_host \<Rightarrow> js_string \<Rightarrow> Token \<Rightarrow> js_string \<Rightarrow> ContextKeyExpression option parsing" where
  "quoted_regex c key expr serializedValue =
     (let start = index_of serializedValue 0x2F; last = last_index_of serializedValue 0x2F
      in if \<not> isFalsyOrWhitespace serializedValue \<and> start \<noteq> last \<and> start \<ge> 0
         then let val = js_slice serializedValue (start + 1) last;
                  caseIgnoreFlag = (if js_get serializedValue (last + 1) = Some 0x69 then js ''i'' else [])
              in (case ph_newRegExp c val (Some caseIgnoreFlag) of
                    Some regex \<Rightarrow> p_return (Some (ContextKeyRegexExpr_create key (Some regex)))
                  | None \<Rightarrow> Parser_errExpectedButGot c (js ''REGEX'') expr)
         else Parser_errExpectedButGot c (js ''REGEX'') expr)"

definition primary_regex :: "parser_host \<Rightarrow> js_string \<Rightarrow> ContextKeyExpression option parsing" where
  "primary_regex c key = p_bind Parser_peek (\<lambda>expr.
     if \<not> ph_recovery c
     then p_bind Parser_advance (\<lambda>_.
       case tok_type expr of
         RegexStr lexeme \<Rightarrow> create_regex c key expr lexeme
       | _ \<Rightarrow> Parser_errExpectedButGot c (js ''REGEX'') expr)
     else let reconstruct = (\<lambda>lexeme. p_bind Parser_advance (\<lambda>_ st.
            p_bind (regex_reconstruct lexeme (length (ps_tokens st) + 1) (paren_balance lexeme lexeme) lexeme)
              (create_regex c key expr) st))
          in (case tok_type expr of
                RegexStr lexeme \<Rightarrow> reconstruct lexeme
              | ErrorTok lexeme \<Rightarrow> reconstruct lexeme
              | QuotedStr lexeme \<Rightarrow> p_bind Parser_advance (\<lambda>_. quoted_regex c key expr lexeme)
              | _ \<Rightarrow> p_bind Parser_peek (\<lambda>t. Parser_errExpectedButGot c (js ''REGEX'') t)))"

section \<open>The grammar\<close>

text \<open>\<open>KEY == value\<close> and \<open>KEY != value\<close>, after the operator\<close>

fun is_quoted :: "TokenType \<Rightarrow> bool" where
  "is_quoted (QuotedStr _) = True"
| "is_quoted _ = False"

definition primary_equals :: "parser_host \<Rightarrow> js_string \<Rightarrow> ContextKeyExpression option parsing" where
  "primary_equals c key = p_bind Parser_value (\<lambda>right. p_bind Parser_previous (\<lambda>prev.
     if is_quoted (tok_type prev) then p_return (Some (ContextKeyEqualsExpr_create (ph_constants c) key (Str right) None))
     else if right = js ''true'' then p_return (Some (ContextKeyDefinedExpr_create (ph_constants c) key None))
     else if right = js ''false'' then p_return (Some (ContextKeyNotExpr_create (ph_constants c) key None))
     else p_return (Some (ContextKeyEqualsExpr_create (ph_constants c) key (Str right) None))))"

definition primary_notEquals :: "parser_host \<Rightarrow> js_string \<Rightarrow> ContextKeyExpression option parsing" where
  "primary_notEquals c key = p_bind Parser_value (\<lambda>right. p_bind Parser_previous (\<lambda>prev.
     if is_quoted (tok_type prev) then p_return (Some (ContextKeyNotEqualsExpr_create (ph_constants c) key (Str right) None))
     else if right = js ''true'' then p_return (Some (ContextKeyNotExpr_create (ph_constants c) key None))
     else if right = js ''false'' then p_return (Some (ContextKeyDefinedExpr_create (ph_constants c) key None))
     else p_return (Some (ContextKeyNotEqualsExpr_create (ph_constants c) key (Str right) None))))"

text \<open>What follows a key\<close>

definition primary_key :: "parser_host \<Rightarrow> js_string \<Rightarrow> ContextKeyExpression option parsing" where
  "primary_key c key =
     p_bind Parser_advance (\<lambda>_. p_bind (Parser_matchOne RegexOp) (\<lambda>isRegex.
       if isRegex then primary_regex c key
       else p_bind (Parser_matchOne NotTok) (\<lambda>isNot.
         if isNot then p_bind (Parser_consume c InTok (errorNoInAfterNot c)) (\<lambda>_. p_bind Parser_value (\<lambda>right.
           p_return (Some (ContextKeyNotInExpr_create key right))))
         else p_bind Parser_peek (\<lambda>maybeOp.
           let next = (\<lambda>create. p_bind Parser_advance (\<lambda>_. p_bind Parser_value (\<lambda>right. p_return (Some (create right)))))
           in case tok_type maybeOp of
             Eq _ \<Rightarrow> p_bind Parser_advance (\<lambda>_. primary_equals c key)
           | NotEq _ \<Rightarrow> p_bind Parser_advance (\<lambda>_. primary_notEquals c key)
           | Lt \<Rightarrow> next (\<lambda>v. ContextKeySmallerExpr_create (ph_js c) key (Str v) None)
           | LtEq \<Rightarrow> next (\<lambda>v. ContextKeySmallerEqualsExpr_create (ph_js c) key (Str v) None)
           | Gt \<Rightarrow> next (\<lambda>v. ContextKeyGreaterExpr_create (ph_js c) key (Str v) None)
           | GtEq \<Rightarrow> next (\<lambda>v. ContextKeyGreaterEqualsExpr_create (ph_js c) key (Str v) None)
           | InTok \<Rightarrow> next (\<lambda>v. ContextKeyInExpr_create key v)
           | _ \<Rightarrow> p_return (Some (ContextKeyDefinedExpr_create (ph_constants c) key None))))))"

text \<open>\<open>expr?.negate()\<close>\<close>

definition negate_opt :: "parser_host \<Rightarrow> ContextKeyExpression option \<Rightarrow> ContextKeyExpression option parsing" where
  "negate_opt c e = p_lift (case e of None \<Rightarrow> Some None | Some e \<Rightarrow> ContextKeyExpr_negate (ph_js c) (ph_constants c) e)"

definition expected_primary :: js_string where
  "expected_primary = js ''true | false | KEY '' @ [LF, 0x09] @ js ''| KEY '' @ [0x27] @ js ''=~'' @ [0x27] @ js '' REGEX '' @ [LF, 0x09] @
     js ''| KEY ('' @ [0x27] @ js ''=='' @ [0x27] @ js '' | '' @ [0x27] @ js ''!='' @ [0x27] @ js '' | '' @ [0x27] @ js ''<'' @ [0x27] @
     js '' | '' @ [0x27] @ js ''<='' @ [0x27] @ js '' | '' @ [0x27] @ js ''>'' @ [0x27] @ js '' | '' @ [0x27] @ js ''>='' @ [0x27] @
     js '' | '' @ [0x27] @ js ''in'' @ [0x27] @ js '' | '' @ [0x27] @ js ''not'' @ [0x27] @ js '' '' @ [0x27] @ js ''in'' @ [0x27] @ js '') value''"

definition expected_negated :: js_string where
  "expected_negated = js ''KEY | true | false | '' @ [0x27] @ js ''('' @ [0x27] @ js '' expression '' @ [0x27] @ js '')'' @ [0x27]"

definition advance_return :: "'a \<Rightarrow> 'a parsing" where
  "advance_return a = p_bind Parser_advance (\<lambda>_. p_return a)"

fun Parser_expr :: "parser_host \<Rightarrow> nat \<Rightarrow> ContextKeyExpression option parsing"
  and Parser_or :: "parser_host \<Rightarrow> nat \<Rightarrow> ContextKeyExpression option parsing"
  and or_loop :: "parser_host \<Rightarrow> nat \<Rightarrow> ContextKeyExpression option list \<Rightarrow> ContextKeyExpression option parsing"
  and Parser_and :: "parser_host \<Rightarrow> nat \<Rightarrow> ContextKeyExpression option parsing"
  and and_loop :: "parser_host \<Rightarrow> nat \<Rightarrow> ContextKeyExpression option list \<Rightarrow> ContextKeyExpression option parsing"
  and Parser_term :: "parser_host \<Rightarrow> nat \<Rightarrow> ContextKeyExpression option parsing"
  and Parser_primary :: "parser_host \<Rightarrow> nat \<Rightarrow> ContextKeyExpression option parsing" where
  "Parser_expr c (Suc fuel) = Parser_or c fuel"
| "Parser_or c (Suc fuel) = p_bind (Parser_and c fuel) (\<lambda>e. or_loop c fuel [e])"
| "or_loop c (Suc fuel) expr =
     p_bind (Parser_matchOne OrTok) (\<lambda>m.
       if m then p_bind (Parser_and c fuel) (\<lambda>right. or_loop c fuel (expr @ [right]))
       else if length expr = 1 then p_return (hd expr) else p_lift (ContextKeyExpr_or (ph_js c) (ph_constants c) expr))"
| "Parser_and c (Suc fuel) = p_bind (Parser_term c fuel) (\<lambda>e. and_loop c fuel [e])"
| "and_loop c (Suc fuel) expr =
     p_bind (Parser_matchOne AndTok) (\<lambda>m.
       if m then p_bind (Parser_term c fuel) (\<lambda>right. and_loop c fuel (expr @ [right]))
       else if length expr = 1 then p_return (hd expr) else p_lift (ContextKeyExpr_and (ph_js c) (ph_constants c) expr))"
| "Parser_term c (Suc fuel) =
     p_bind (Parser_matchOne Neg) (\<lambda>m.
       if m then p_bind Parser_peek (\<lambda>peek. case tok_type peek of
           TrueTok \<Rightarrow> advance_return (Some FalseExpr)
         | FalseTok \<Rightarrow> advance_return (Some TrueExpr)
         | LParen \<Rightarrow> p_bind Parser_advance (\<lambda>_. p_bind (Parser_expr c fuel) (\<lambda>expr.
             p_bind (Parser_consume c RParen (errorClosingParenthesis c)) (\<lambda>_. negate_opt c expr)))
         | StrTok lexeme \<Rightarrow> advance_return (Some (ContextKeyNotExpr_create (ph_constants c) lexeme None))
         | _ \<Rightarrow> Parser_errExpectedButGot c expected_negated peek)
       else Parser_primary c fuel)"
| "Parser_primary c (Suc fuel) =
     p_bind Parser_peek (\<lambda>peek. case tok_type peek of
         TrueTok \<Rightarrow> advance_return (Some TrueExpr)
       | FalseTok \<Rightarrow> advance_return (Some FalseExpr)
       | LParen \<Rightarrow> p_bind Parser_advance (\<lambda>_. p_bind (Parser_expr c fuel) (\<lambda>expr.
           p_bind (Parser_consume c RParen (errorClosingParenthesis c)) (\<lambda>_. p_return expr)))
       | StrTok key \<Rightarrow> primary_key c key
       | EOF \<Rightarrow> pushError \<lparr>pe_message = errorUnexpectedEOF c, pe_offset = tok_offset peek, pe_lexeme = [],
                  pe_additionalInfo = Some (hintUnexpectedEOF c)\<rparr>
       | _ \<Rightarrow> Parser_errExpectedButGot c expected_primary peek)"
| "Parser_expr c 0 = (\<lambda>st. None)"
| "Parser_or c 0 = (\<lambda>st. None)"
| "or_loop c 0 expr = (\<lambda>st. None)"
| "Parser_and c 0 = (\<lambda>st. None)"
| "and_loop c 0 expr = (\<lambda>st. None)"
| "Parser_term c 0 = (\<lambda>st. None)"
| "Parser_primary c 0 = (\<lambda>st. None)"

text \<open>The body of the \<open>try\<close> statement of \<open>parse\<close>\<close>

definition parse_tokens :: "parser_host \<Rightarrow> nat \<Rightarrow> ContextKeyExpression option parsing" where
  "parse_tokens c fuel = p_bind (Parser_expr c fuel) (\<lambda>expr. p_bind Parser_isAtEnd (\<lambda>atEnd.
     if \<not> atEnd then p_bind Parser_peek (\<lambda>peek.
       pushError \<lparr>pe_message = errorUnexpectedToken c, pe_offset = tok_offset peek, pe_lexeme = Scanner_getLexeme peek,
         pe_additionalInfo = (case tok_type peek of StrTok _ \<Rightarrow> Some (hintUnexpectedToken c) | _ \<Rightarrow> None)\<rparr>)
     else p_return expr))"

definition parse_fuel :: "nat \<Rightarrow> nat" where
  "parse_fuel n = 6 * n + 6"

definition Parser_parse :: "parser_host \<Rightarrow> Parser \<Rightarrow> js_string \<Rightarrow> (Parser \<times> ContextKeyExpression option) option" where
  "Parser_parse c st input =
     (if input = [] then
        Some (st\<lparr>ps_parsingErrors := ps_parsingErrors st @
          [\<lparr>pe_message = errorEmptyString c, pe_offset = 0, pe_lexeme = [], pe_additionalInfo = Some (hintEmptyString c)\<rparr>]\<rparr>, None)
      else
        let (scanner, tokens) = Scanner_scan (ph_scan c) (Scanner_reset (ps_scanner st) input);
            st = st\<lparr>ps_scanner := scanner, ps_tokens := tokens, ps_current := 0, ps_parsingErrors := []\<rparr>
        in case parse_tokens c (parse_fuel (length tokens)) st of
             None \<Rightarrow> None
           | Some (st, Inl _) \<Rightarrow> Some (st, None)
           | Some (st, Inr expr) \<Rightarrow> Some (st, expr))"

definition ContextKeyExpr_deserialize ::
    "parser_host \<Rightarrow> Parser \<Rightarrow> js_string option \<Rightarrow> (Parser \<times> ContextKeyExpression option) option" where
  "ContextKeyExpr_deserialize c parser serialized =
     (case serialized of None \<Rightarrow> Some (parser, None) | Some s \<Rightarrow> Parser_parse (c\<lparr>ph_recovery := False\<rparr>) parser s)"

record when_error =
  we_errorMessage :: js_string
  we_offset :: nat
  we_length :: nat

text \<open>The errors that one when-clause reports\<close>

definition clause_errors :: "parser_host \<Rightarrow> Parser \<Rightarrow> when_error list" where
  "clause_errors c parser =
     (if sc_errors (ps_scanner parser) \<noteq> [] then
        map (\<lambda>se. \<lparr>we_errorMessage = (case le_additionalInfo se of
                 Some info \<Rightarrow> if info \<noteq> [] then nls c ''contextkey.scanner.errorForLinterWithHint'' (js ''Unexpected token. Hint: {0}'') [info]
                               else nls c ''contextkey.scanner.errorForLinter'' (js ''Unexpected token.'') []
               | None \<Rightarrow> nls c ''contextkey.scanner.errorForLinter'' (js ''Unexpected token.'') []),
               we_offset = le_offset se, we_length = length (le_lexeme se)\<rparr>) (sc_errors (ps_scanner parser))
      else
        map (\<lambda>pe. \<lparr>we_errorMessage = (case pe_additionalInfo pe of
                 Some info \<Rightarrow> if info \<noteq> [] then pe_message pe @ js ''. '' @ info else pe_message pe
               | None \<Rightarrow> pe_message pe),
               we_offset = pe_offset pe, we_length = length (pe_lexeme pe)\<rparr>) (ps_parsingErrors parser))"

fun validate_loop :: "parser_host \<Rightarrow> Parser \<Rightarrow> js_string list \<Rightarrow> when_error list list option" where
  "validate_loop c parser [] = Some []"
| "validate_loop c parser (clause # clauses) =
     (case Parser_parse c parser clause of
        None \<Rightarrow> None
      | Some (parser, _) \<Rightarrow> map_option (\<lambda>rest. clause_errors c parser # rest) (validate_loop c parser clauses))"

definition new_parser :: Parser where
  "new_parser = \<lparr>ps_scanner = \<lparr>sc_input = [], sc_start = 0, sc_current = 0, sc_tokens = [], sc_errors = []\<rparr>,
     ps_tokens = [], ps_current = 0, ps_parsingErrors = []\<rparr>"

definition validateWhenClauses :: "parser_host \<Rightarrow> js_string list \<Rightarrow> when_error list list option" where
  "validateWhenClauses c whenClauses = validate_loop (c\<lparr>ph_recovery := False\<rparr>) new_parser whenClauses"

end
