(* ===== verification/ContextKeySemantics.thy ===== *)
theory ContextKeySemantics
  imports ContextKeyNormalize
begin

text \<open>
  What the normalizing operations mean: \<open>create\<close> of \<open>And\<close> and \<open>Or\<close> keep the value of the
  conjunction and disjunction, \<open>negate\<close> negates it, and \<open>implies\<close> only answers true for
  implications that hold.

  The expressions considered are \<open>fine\<close> for a context: a key that is registered as a constant has the
  constant's value and is not compared with \<open>==\<close> or \<open>!=\<close>, numeric comparisons compare numbers, regular expressions with the same source have the same flags (as
  \<open>equals\<close> only compares the source), and what a \<open>negated\<close> field holds is the negation.
\<close>

section \<open>Fine expressions\<close>

definition numeric_at :: "js_host \<Rightarrow> IContext \<Rightarrow> js_string \<Rightarrow> js_prim \<Rightarrow> bool" where
  "numeric_at h ctx key val \<longleftrightarrow> (\<exists>n. val = Number n \<and> n \<noteq> NaN) \<and>
     host_parseFloat h (value_to_string h (ctx key)) \<noteq> NaN"

definition regexp_fine :: "(js_string \<Rightarrow> js_string) \<Rightarrow> RegExp option \<Rightarrow> bool" where
  "regexp_fine flags re = (case re of None \<Rightarrow> True | Some r \<Rightarrow> re_source r \<noteq> [] \<and> re_flags r = flags (re_source r))"

text \<open>A key that is registered as a constant has the value of the constant in the context.\<close>

definition agrees :: "constants \<Rightarrow> IContext \<Rightarrow> js_string \<Rightarrow> bool" where
  "agrees env ctx k \<longleftrightarrow> (\<forall>b. env k = Some b \<longrightarrow> ctx k = Prim (Boolean b))"

fun leaf_fine :: "js_host \<Rightarrow> constants \<Rightarrow> IContext \<Rightarrow> (js_string \<Rightarrow> js_string) \<Rightarrow> ContextKeyExpression \<Rightarrow> bool" where
  "leaf_fine h env ctx flags (DefinedExpr k n) = agrees env ctx k"
| "leaf_fine h env ctx flags (NotExpr k n) = agrees env ctx k"
| "leaf_fine h env ctx flags (EqualsExpr k v n) = (env k = None \<and> (\<forall>b. v \<noteq> Boolean b))"
| "leaf_fine h env ctx flags (NotEqualsExpr k v n) = (env k = None \<and> (\<forall>b. v \<noteq> Boolean b))"
| "leaf_fine h env ctx flags (RegexExpr k re) = regexp_fine flags re"
| "leaf_fine h env ctx flags (NotRegexExpr k re) = regexp_fine flags re"
| "leaf_fine h env ctx flags (GreaterExpr k v n) = numeric_at h ctx k v"
| "leaf_fine h env ctx flags (GreaterEqualsExpr k v n) = numeric_at h ctx k v"
| "leaf_fine h env ctx flags (SmallerExpr k v n) = numeric_at h ctx k v"
| "leaf_fine h env ctx flags (SmallerEqualsExpr k v n) = numeric_at h ctx k v"
| "leaf_fine h env ctx flags (AndExpr es n) = (es \<noteq> [])"
| "leaf_fine h env ctx flags (OrExpr es n) = (es \<noteq> [])"
| "leaf_fine h env ctx flags e = True"

text \<open>The subexpressions and the \<open>negated\<close> field of an expression\<close>

fun parts :: "ContextKeyExpression \<Rightarrow> ContextKeyExpression list" where
  "parts (AndExpr es n) = es"
| "parts (OrExpr es n) = es"
| "parts e = []"

fun negated_of :: "ContextKeyExpression \<Rightarrow> ContextKeyExpression option" where
  "negated_of (DefinedExpr k n) = n"
| "negated_of (NotExpr k n) = n"
| "negated_of (EqualsExpr k v n) = n"
| "negated_of (NotEqualsExpr k v n) = n"
| "negated_of (GreaterExpr k v n) = n"
| "negated_of (GreaterEqualsExpr k v n) = n"
| "negated_of (SmallerExpr k v n) = n"
| "negated_of (SmallerEqualsExpr k v n) = n"
| "negated_of (AndExpr es n) = n"
| "negated_of (OrExpr es n) = n"
| "negated_of e = None"

lemma size_parts_negated:
  "e' \<in> set (parts e) \<Longrightarrow> size e' < size e"
  "negated_of e = Some e' \<Longrightarrow> size e' < size e"
  by (cases e; auto dest: size_list_estimation' [of e' _ "size e'" size]; fail)+

function fine :: "js_host \<Rightarrow> constants \<Rightarrow> IContext \<Rightarrow> (js_string \<Rightarrow> js_string) \<Rightarrow> ContextKeyExpression \<Rightarrow> bool" where
  "fine h env ctx flags e \<longleftrightarrow> leaf_fine h env ctx flags e \<and> (\<forall>e' \<in> set (parts e). fine h env ctx flags e') \<and>
     (case negated_of e of None \<Rightarrow> True
      | Some n \<Rightarrow> fine h env ctx flags n \<and> (ContextKeyExpr_evaluate h ctx n \<longleftrightarrow> \<not> ContextKeyExpr_evaluate h ctx e))"
  by pat_completeness auto
termination
  by (relation "measure (\<lambda>(h, env, ctx, flags, e). size e)") (auto dest: size_parts_negated)

declare fine.simps [simp del]

lemmas evaluate_defs = ContextKeyFalseExpr_evaluate_def ContextKeyTrueExpr_evaluate_def
  ContextKeyDefinedExpr_evaluate_def ContextKeyNotExpr_evaluate_def ContextKeyEqualsExpr_evaluate_def
  ContextKeyNotEqualsExpr_evaluate_def ContextKeyInExpr_evaluate_def ContextKeyNotInExpr_evaluate_def
  ContextKeyRegexExpr_evaluate_def ContextKeyNotRegexExpr_evaluate_def ContextKeyGreaterExpr_evaluate_def
  ContextKeyGreaterEqualsExpr_evaluate_def ContextKeySmallerExpr_evaluate_def ContextKeySmallerEqualsExpr_evaluate_def

lemmas negate_defs = ContextKeyFalseExpr_negate_def ContextKeyTrueExpr_negate_def
  ContextKeyDefinedExpr_negate_def ContextKeyNotExpr_negate_def ContextKeyEqualsExpr_negate_def
  ContextKeyNotEqualsExpr_negate_def ContextKeyInExpr_negate_def ContextKeyNotInExpr_negate_def
  ContextKeyRegexExpr_negate_def ContextKeyNotRegexExpr_negate_def ContextKeyGreaterExpr_negate_def
  ContextKeyGreaterEqualsExpr_negate_def ContextKeySmallerExpr_negate_def ContextKeySmallerEqualsExpr_negate_def

lemmas create_defs = ContextKeyDefinedExpr_create_def ContextKeyNotExpr_create_def
  ContextKeyEqualsExpr_create_def ContextKeyNotEqualsExpr_create_def ContextKeyInExpr_create_def
  ContextKeyNotInExpr_create_def ContextKeyRegexExpr_create_def ContextKeyNotRegexExpr_create_def
  ContextKeyGreaterExpr_create_def ContextKeyGreaterEqualsExpr_create_def
  ContextKeySmallerExpr_create_def ContextKeySmallerEqualsExpr_create_def withFloatOrStr_def

lemmas equals_defs = ContextKeyFalseExpr_equals_def ContextKeyTrueExpr_equals_def
  ContextKeyDefinedExpr_equals_def ContextKeyNotExpr_equals_def ContextKeyEqualsExpr_equals_def
  ContextKeyNotEqualsExpr_equals_def ContextKeyInExpr_equals_def ContextKeyNotInExpr_equals_def
  ContextKeyRegexExpr_equals_def ContextKeyNotRegexExpr_equals_def ContextKeyGreaterExpr_equals_def
  ContextKeyGreaterEqualsExpr_equals_def ContextKeySmallerExpr_equals_def ContextKeySmallerEqualsExpr_equals_def
  ContextKeyAndExpr_equals_def ContextKeyOrExpr_equals_def

section \<open>Equal expressions have the same value\<close>

lemma regexp_fine_source:
  "regexp_fine flags a \<Longrightarrow> regexp_fine flags b \<Longrightarrow> regexp_source a = regexp_source b \<Longrightarrow> a = b"
  by (cases a; cases b) (auto simp: regexp_fine_def regexp_source_def RegExp.expand)

lemma equals_arr_nth:
  "equals_arr eq xs ys \<longleftrightarrow> length xs = length ys \<and> (\<forall>i < length xs. eq (xs ! i) (ys ! i))"
  by (induction eq xs ys rule: equals_arr.induct) (auto simp: nth_Cons split: nat.split)

lemma fine_parts: "fine h env ctx flags e \<Longrightarrow> e' \<in> set (parts e) \<Longrightarrow> fine h env ctx flags e'"
  by (subst (asm) fine.simps) blast

lemma fine_leaf: "fine h env ctx flags e \<Longrightarrow> leaf_fine h env ctx flags e"
  by (subst (asm) fine.simps) blast

lemma equals_arr_values:
  assumes "\<And>x y. x \<in> set xs \<Longrightarrow> y \<in> set ys \<Longrightarrow> eq x y \<Longrightarrow> P x \<longleftrightarrow> P y" "equals_arr eq xs ys"
  shows "map P xs = map P ys"
  using assms by (induction eq xs ys rule: equals_arr.induct) (auto split: if_splits)

lemma equalsTo_value:
  "fine h env ctx flags a \<Longrightarrow> fine h env ctx flags b \<Longrightarrow> ContextKeyExpr_equalsTo a b \<Longrightarrow>
     ContextKeyExpr_evaluate h ctx a \<longleftrightarrow> ContextKeyExpr_evaluate h ctx b"
proof (induction a arbitrary: b rule: measure_induct_rule [of size])
  case (less a)
  have arr: "map (ContextKeyExpr_evaluate h ctx) (parts a) = map (ContextKeyExpr_evaluate h ctx) (parts b)"
    if "equals_arr ContextKeyExpr_equalsTo (parts a) (parts b)"
    by (rule equals_arr_values [OF _ that])
      (use less fine_parts size_parts_negated(1) in blast)
  have "(\<forall>e \<in> set xs. P e) \<longleftrightarrow> (\<forall>e \<in> set ys. P e)" "(\<exists>e \<in> set xs. P e) \<longleftrightarrow> (\<exists>e \<in> set ys. P e)"
    if "map P xs = map P ys" for xs ys and P :: "ContextKeyExpression \<Rightarrow> bool"
    using arg_cong [OF that, of set] by (auto simp: set_eq_iff image_iff)
  note lists = this [OF arr]
  show ?case
    using less.prems(3) fine_leaf [OF less.prems(1)] fine_leaf [OF less.prems(2)] lists
    by (cases a; cases b)
      (auto simp: equals_defs evaluate_defs dest!: strict_eq_imp_eq dest: regexp_fine_source split: if_splits)
qed

section \<open>The contract of the calls\<close>

text \<open>
  What a caller of \<open>create\<close> and \<open>negate\<close> relies on, for fine expressions, and what holds of a
  call that returns.
\<close>

definition all_of :: "(ContextKeyExpression \<Rightarrow> bool) \<Rightarrow> ContextKeyExpression option list \<Rightarrow> bool" where
  "all_of P arr \<longleftrightarrow> (\<forall>e. Some e \<in> set arr \<longrightarrow> P e)"

definition some_of :: "(ContextKeyExpression \<Rightarrow> bool) \<Rightarrow> ContextKeyExpression option list \<Rightarrow> bool" where
  "some_of P arr \<longleftrightarrow> (\<exists>e. Some e \<in> set arr \<and> P e)"

locale expression_semantics =
  fixes fine_expr :: "ContextKeyExpression \<Rightarrow> bool" and ev :: "ContextKeyExpression \<Rightarrow> bool"
    and h :: js_host and env :: constants
  assumes fine_const: "fine_expr TrueExpr" "fine_expr FalseExpr"
    and ev_const: "ev TrueExpr" "\<not> ev FalseExpr"
    and fine_And: "fine_expr (AndExpr es n) \<longleftrightarrow> es \<noteq> [] \<and> (\<forall>e \<in> set es. fine_expr e) \<and>
      (\<forall>m. n = Some m \<longrightarrow> fine_expr m \<and> (ev m \<longleftrightarrow> \<not> (\<forall>e \<in> set es. ev e)))"
    and fine_Or: "fine_expr (OrExpr es n) \<longleftrightarrow> es \<noteq> [] \<and> (\<forall>e \<in> set es. fine_expr e) \<and>
      (\<forall>m. n = Some m \<longrightarrow> fine_expr m \<and> (ev m \<longleftrightarrow> \<not> (\<exists>e \<in> set es. ev e)))"
    and ev_And: "ev (AndExpr es n) \<longleftrightarrow> (\<forall>e \<in> set es. ev e)"
    and ev_Or: "ev (OrExpr es n) \<longleftrightarrow> (\<exists>e \<in> set es. ev e)"
    and equals_ev: "fine_expr a \<Longrightarrow> fine_expr b \<Longrightarrow> ContextKeyExpr_equalsTo a b \<Longrightarrow> ev a \<longleftrightarrow> ev b"
    and neg_leaf: "fine_expr e \<Longrightarrow> and_parts e = None \<Longrightarrow> or_parts e = None \<Longrightarrow>
      \<exists>x. (\<forall>call. expr_negate h env call e = Some (Some x)) \<and> fine_expr x \<and> (ev x \<longleftrightarrow> \<not> ev e)"
begin

definition cached :: "bool \<Rightarrow> ContextKeyExpression option \<Rightarrow> bool" where
  "cached v n \<longleftrightarrow> (\<forall>m. n = Some m \<longrightarrow> fine_expr m \<and> (ev m \<longleftrightarrow> \<not> v))"

definition meets :: "ck_call \<Rightarrow> ContextKeyExpression option \<Rightarrow> bool" where
  "meets c r = (case c of
      CallNegate e \<Rightarrow> fine_expr e \<longrightarrow> (\<exists>x. r = Some x \<and> fine_expr x \<and> (ev x \<longleftrightarrow> \<not> ev e))
    | CallAnd arr n extra \<Rightarrow> all_of fine_expr arr \<longrightarrow> cached (all_of ev arr) n \<longrightarrow>
        (case r of None \<Rightarrow> set arr \<subseteq> {None} | Some x \<Rightarrow> fine_expr x \<and> (ev x \<longleftrightarrow> all_of ev arr))
    | CallOr arr n extra \<Rightarrow> all_of fine_expr arr \<longrightarrow> cached (some_of ev arr) n \<longrightarrow>
        (case r of None \<Rightarrow> set arr \<subseteq> {None} | Some x \<Rightarrow> fine_expr x \<and> (ev x \<longleftrightarrow> some_of ev arr)))"

lemma all_of_simps [simp]:
  "all_of P []" "all_of P (None # arr) = all_of P arr" "all_of P (Some e # arr) \<longleftrightarrow> P e \<and> all_of P arr"
  "\<not> some_of P []" "some_of P (None # arr) = some_of P arr" "some_of P (Some e # arr) \<longleftrightarrow> P e \<or> some_of P arr"
  by (auto simp: all_of_def some_of_def)

lemma and_collect_spec:
  "all_of fine_expr arr \<Longrightarrow>
    (case and_collect arr acc t of
       None \<Rightarrow> \<not> all_of ev arr
     | Some (es, t') \<Rightarrow> (\<forall>e \<in> set es. fine_expr e \<or> e \<in> set acc) \<and>
         ((\<forall>e \<in> set es. ev e) \<longleftrightarrow> (\<forall>e \<in> set acc. ev e) \<and> all_of ev arr) \<and>
         (es = [] \<longrightarrow> acc = [] \<and> (t' \<longleftrightarrow> t \<or> \<not> set arr \<subseteq> {None})))"
proof (induction arr acc t rule: and_collect.induct)
  case (3 e arr acc t)
  then show ?case
    by (cases e) (auto simp: fine_And ev_And ev_const split: option.splits; fastforce)+
qed (auto split: option.splits)

lemma or_collect_spec:
  "all_of fine_expr arr \<Longrightarrow>
    (case or_collect arr acc t of
       None \<Rightarrow> some_of ev arr
     | Some (es, t') \<Rightarrow> (\<forall>e \<in> set es. fine_expr e \<or> e \<in> set acc) \<and>
         ((\<exists>e \<in> set es. ev e) \<longleftrightarrow> (\<exists>e \<in> set acc. ev e) \<or> some_of ev arr) \<and>
         (es = [] \<longrightarrow> acc = [] \<and> (t' \<longleftrightarrow> t \<or> \<not> set arr \<subseteq> {None})))"
proof (induction arr acc t rule: or_collect.induct)
  case (3 e arr acc t)
  then show ?case
    by (cases e) (auto simp: fine_Or ev_Or ev_const split: option.splits; fastforce)+
qed (auto split: option.splits)

lemma set_insert_by [simp]: "set (insert_by cmp x ys) = insert x (set ys)"
  by (induction ys) auto

lemma set_expr_sort [simp]: "set (expr_sort h xs) = set xs"
  by (induction xs) (auto simp: expr_sort_def)

lemma dedupe_spec:
  "\<forall>e \<in> set es. fine_expr e \<Longrightarrow>
     set (dedupe es) \<subseteq> set es \<and> (es \<noteq> [] \<longrightarrow> dedupe es \<noteq> []) \<and> ev ` set (dedupe es) = ev ` set es"
proof (induction es rule: dedupe.induct)
  case (1 a b es)
  then show ?case using equals_ev [of a b] by (cases "ContextKeyExpr_equalsTo a b") auto
qed auto

lemma dedupe_values:
  assumes "\<forall>e \<in> set es. fine_expr e"
  shows "(\<forall>e \<in> set (dedupe es). ev e) \<longleftrightarrow> (\<forall>e \<in> set es. ev e)"
    and "(\<exists>e \<in> set (dedupe es). ev e) \<longleftrightarrow> (\<exists>e \<in> set es. ev e)"
  using dedupe_spec [OF assms] by (metis image_iff)+

lemma mapM_Some: "mapM f xs = Some ys \<Longrightarrow> list_all2 (\<lambda>x y. f x = Some y) xs ys"
  by (induction xs arbitrary: ys) (auto simp: bind_eq_Some_conv)

text \<open>Calls that meet their contract\<close>

lemma meets_negate:
  "meets (CallNegate e) r \<Longrightarrow> fine_expr e \<Longrightarrow> \<exists>x. r = Some x \<and> fine_expr x \<and> (ev x \<longleftrightarrow> \<not> ev e)"
  by (simp add: meets_def)

lemma meets_and_pair:
  "meets (CallAnd [Some a, Some b] None extra) r \<Longrightarrow> fine_expr a \<Longrightarrow> fine_expr b \<Longrightarrow>
     \<exists>x. r = Some x \<and> fine_expr x \<and> (ev x \<longleftrightarrow> ev a \<and> ev b)"
  by (cases r) (auto simp: meets_def cached_def)

lemma meets_or:
  "meets (CallOr arr n extra) r \<Longrightarrow> all_of fine_expr arr \<Longrightarrow> cached (some_of ev arr) n \<Longrightarrow> \<not> set arr \<subseteq> {None} \<Longrightarrow>
     \<exists>x. r = Some x \<and> fine_expr x \<and> (ev x \<longleftrightarrow> some_of ev arr)"
  by (cases r) (auto simp: meets_def)

lemma cached_None [simp]: "cached v None"
  by (simp add: cached_def)

lemma mapM_values:
  assumes "mapM f xs = Some rs" "\<And>x r. x \<in> set xs \<Longrightarrow> f x = Some r \<Longrightarrow> \<exists>y. r = Some y \<and> fine_expr y \<and> (ev y \<longleftrightarrow> P x)"
  shows "all_of fine_expr rs \<and> (all_of ev rs \<longleftrightarrow> (\<forall>x \<in> set xs. P x)) \<and> (some_of ev rs \<longleftrightarrow> (\<exists>x \<in> set xs. P x)) \<and>
    (\<forall>r \<in> set rs. r \<noteq> None) \<and> (xs \<noteq> [] \<longrightarrow> \<not> set rs \<subseteq> {None})"
  using assms
proof (induction xs arbitrary: rs)
  case (Cons x xs)
  then obtain r rs' where r: "f x = Some r" "mapM f xs = Some rs'" "rs = r # rs'"
    by (auto simp: bind_eq_Some_conv)
  moreover obtain y where "r = Some y" "fine_expr y" "ev y \<longleftrightarrow> P x" using Cons.prems(2) [OF _ r(1)] by auto
  ultimately show ?case using Cons.IH [of rs'] Cons.prems(2) by auto
qed simp

lemma distribute_spec:
  assumes call: "\<And>c r. call c = Some r \<Longrightarrow> meets c r"
  shows "distribute h call extra es = Some es' \<Longrightarrow> es \<noteq> [] \<Longrightarrow> \<forall>e \<in> set es. fine_expr e \<Longrightarrow>
    es' \<noteq> [] \<and> (\<forall>e \<in> set es'. fine_expr e) \<and> ((\<forall>e \<in> set es'. ev e) \<longleftrightarrow> (\<forall>e \<in> set es. ev e))"
proof (induction "length es" arbitrary: es rule: less_induct)
  case less
  show ?case
  proof (cases "length es > 1 \<and> (\<exists>os n. last es = OrExpr os n)")
    case False
    then have "distribute h call extra es = Some es"
      by (subst distribute.simps) (auto split: ContextKeyExpression.split)
    with less.prems show ?thesis by auto
  next
    case True
    then obtain rest b os n where es: "es = rest @ [b, OrExpr os n]"
      by (cases es rule: rev_cases, simp) (metis append.assoc append_Cons append_Nil length_append_singleton last_snoc
          less_irrefl list.size(3) One_nat_def rev_exhaust)
    have fin: "fine_expr b" "\<forall>o' \<in> set os. fine_expr o'" "os \<noteq> []" using less.prems(3) by (auto simp: es fine_Or)
    let ?and = "\<lambda>el. call (CallAnd [Some el, Some b] None extra)"
    from less.prems(1) obtain arr r where arr: "mapM ?and os = Some arr" and r: "call (CallOr arr None (rest = [])) = Some r"
      and rec: "distribute h call extra (case r of Some r \<Rightarrow> expr_sort h (rest @ [r]) | None \<Rightarrow> rest) = Some es'"
      by (subst (asm) distribute.simps) (auto simp: es butlast_append Let_def bind_eq_Some_conv)
    have vals: "all_of fine_expr arr" "some_of ev arr \<longleftrightarrow> (\<exists>o' \<in> set os. ev o' \<and> ev b)" "\<not> set arr \<subseteq> {None}"
    proof -
      have "\<exists>y. r = Some y \<and> fine_expr y \<and> (ev y \<longleftrightarrow> ev el \<and> ev b)" if "el \<in> set os" "?and el = Some r" for el r
        using that meets_and_pair [OF call] fin by auto
      note mapM_values [OF arr this]
      with fin(3) show "all_of fine_expr arr" "some_of ev arr \<longleftrightarrow> (\<exists>o' \<in> set os. ev o' \<and> ev b)" "\<not> set arr \<subseteq> {None}"
        by auto
    qed
    then obtain x where x: "r = Some x" "fine_expr x" "ev x \<longleftrightarrow> some_of ev arr"
      using meets_or [OF call [OF r]] by auto
    have "es' \<noteq> [] \<and> (\<forall>e \<in> set es'. fine_expr e) \<and>
        ((\<forall>e \<in> set es'. ev e) \<longleftrightarrow> (\<forall>e \<in> set (expr_sort h (rest @ [x])). ev e))"
    proof (rule less.hyps)
      show "length (expr_sort h (rest @ [x])) < length es" by (simp add: es)
      show "distribute h call extra (expr_sort h (rest @ [x])) = Some es'" using rec x(1) by simp
      show "expr_sort h (rest @ [x]) \<noteq> []" by (metis length_expr_sort length_0_conv snoc_eq_iff_butlast)
      show "\<forall>e \<in> set (expr_sort h (rest @ [x])). fine_expr e" using less.prems(3) x(2) by (auto simp: es)
    qed
    then show ?thesis using x(3) vals(2) by (auto simp: es ev_Or)
  qed
qed

lemma negated_pair_spec:
  assumes call: "\<And>c r. call c = Some r \<Longrightarrow> meets c r"
  shows "negated_pair call es = Some True \<Longrightarrow> \<forall>e \<in> set es. fine_expr e \<Longrightarrow>
    \<not> (\<forall>e \<in> set es. ev e) \<and> (\<exists>e \<in> set es. ev e)"
proof (induction es rule: induct_list012)
  case (3 a b es)
  obtain r where r: "call (CallNegate a) = Some r" using "3.prems"(1) by (auto simp: bind_eq_Some_conv)
  with "3.prems"(2) obtain n where n: "call (CallNegate a) = Some (Some n)" "fine_expr n" "ev n \<longleftrightarrow> \<not> ev a"
    using meets_negate [OF call [OF r]] by auto
  show ?case
  proof (cases "\<exists>e \<in> set (b # es). ContextKeyExpr_equalsTo n e")
    case True
    with 3 n show ?thesis using equals_ev [OF n(2)] by (metis insert_iff list.simps(15))
  next
    case False
    with 3 n show ?thesis by auto
  qed
qed auto

lemma or_negate_loop_spec:
  assumes call: "\<And>c r. call c = Some r \<Longrightarrow> meets c r"
  shows "or_negate_loop call rs = Some rs' \<Longrightarrow> all_of fine_expr rs \<Longrightarrow> \<forall>r \<in> set rs. r \<noteq> None \<Longrightarrow>
    all_of fine_expr rs' \<and> (\<forall>r \<in> set rs'. r \<noteq> None) \<and> (all_of ev rs' \<longleftrightarrow> all_of ev rs) \<and> length rs' \<le> 1 \<and>
    (rs \<noteq> [] \<longrightarrow> rs' \<noteq> [])"
proof (induction "length rs" arbitrary: rs rule: less_induct)
  case less
  show ?case
  proof (cases rs rule: remdups_adj.cases)
    case (3 L R rest)
    with less.prems obtain l r where lr: "L = Some l" "R = Some r" "fine_expr l" "fine_expr r" by auto
    have terminals: "\<exists>ts. getTerminals (Some e) = Some ts \<and> ts \<noteq> [] \<and> (\<forall>t \<in> set ts. fine_expr t) \<and> (ev e \<longleftrightarrow> (\<exists>t \<in> set ts. ev t))"
      if "fine_expr e" for e
      using that by (cases e) (auto simp: getTerminals_def fine_Or ev_Or)
    obtain ls where ls: "getTerminals L = Some ls" "ls \<noteq> []" "\<forall>t \<in> set ls. fine_expr t" "ev l \<longleftrightarrow> (\<exists>t \<in> set ls. ev t)"
      using terminals [OF lr(3)] lr(1) by auto
    obtain ks where ks: "getTerminals R = Some ks" "ks \<noteq> []" "\<forall>t \<in> set ks. fine_expr t" "ev r \<longleftrightarrow> (\<exists>t \<in> set ks. ev t)"
      using terminals [OF lr(4)] lr(2) by auto
    let ?pairs = "concat (map (\<lambda>l. map (\<lambda>r. (l, r)) ks) ls)"
    from less.prems(1) obtain all' j where all': "mapM (\<lambda>(l, r). call (CallAnd [Some l, Some r] None False)) ?pairs = Some all'"
      and j: "call (CallOr all' None False) = Some j" and rec: "or_negate_loop call (j # rest) = Some rs'"
      by (auto simp: 3 ls(1) ks(1) bind_eq_Some_conv)
    have "?pairs \<noteq> []" using ls(2) ks(2) by (cases ls; cases ks) auto
    have vals: "all_of fine_expr all'" "some_of ev all' \<longleftrightarrow> (\<exists>(a, b) \<in> set ?pairs. ev a \<and> ev b)" "\<not> set all' \<subseteq> {None}"
    proof -
      have "\<exists>y. r = Some y \<and> fine_expr y \<and> (ev y \<longleftrightarrow> (case p of (a, b) \<Rightarrow> ev a \<and> ev b))"
        if "p \<in> set ?pairs" "(case p of (l, r) \<Rightarrow> call (CallAnd [Some l, Some r] None False)) = Some r" for p r
        using that meets_and_pair [OF call] ls(3) ks(3) by auto
      note mapM_values [OF all' this]
      with \<open>?pairs \<noteq> []\<close> show "all_of fine_expr all'" "some_of ev all' \<longleftrightarrow> (\<exists>(a, b) \<in> set ?pairs. ev a \<and> ev b)"
        "\<not> set all' \<subseteq> {None}" by auto
    qed
    then obtain x where x: "j = Some x" "fine_expr x" "ev x \<longleftrightarrow> some_of ev all'"
      using meets_or [OF call [OF j]] by auto
    moreover have "(\<exists>(a, b) \<in> set ?pairs. ev a \<and> ev b) \<longleftrightarrow> ev l \<and> ev r" using ls(4) ks(4) by auto
    ultimately show ?thesis
      using less.hyps [of "j # rest"] rec less.prems lr vals(2) by (auto simp: 3)
  qed (use less.prems in auto)
qed

lemma and_normalizeArr_meets:
  assumes call: "\<And>c r. call c = Some r \<Longrightarrow> meets c r" and r: "and_normalizeArr h call arr n extra = Some r"
  shows "meets (CallAnd arr n extra) r"
proof -
  have "case r of None \<Rightarrow> set arr \<subseteq> {None} | Some x \<Rightarrow> fine_expr x \<and> (ev x \<longleftrightarrow> all_of ev arr)"
    if fin: "all_of fine_expr arr" and n: "cached (all_of ev arr) n"
  proof (cases "and_collect arr [] False")
    case None
    with r and_collect_spec [OF fin, of "[]" False] show ?thesis
      by (auto simp: and_normalizeArr_def fine_const ev_const)
  next
    case (Some p)
    obtain es t where p: "p = (es, t)" by fastforce
    have es: "\<forall>e \<in> set es. fine_expr e" "(\<forall>e \<in> set es. ev e) \<longleftrightarrow> all_of ev arr" "es = [] \<longrightarrow> (t \<longleftrightarrow> \<not> set arr \<subseteq> {None})"
      using and_collect_spec [OF fin, of "[]" False] Some p by auto
    define ds where "ds = dedupe (expr_sort h es)"
    show ?thesis
    proof (cases "length es \<le> 1")
      case True
      then show ?thesis
        using r Some p es ev_const fine_const by (cases es) (auto simp: and_normalizeArr_def split: if_splits)
    next
      case False
      then have ds: "ds \<noteq> []" "\<forall>e \<in> set ds. fine_expr e" "(\<forall>e \<in> set ds. ev e) \<longleftrightarrow> all_of ev arr"
        using dedupe_spec [of "expr_sort h es"] dedupe_values(1) [of "expr_sort h es"] es(1,2)
        by (auto simp: ds_def dest: arg_cong [of _ _ length])
      have "length es \<noteq> 0" "length es \<noteq> 1" using False by auto
      with r Some p have tail: "(if length ds = 1 then Some (Some (hd ds)) else Option.bind (distribute h call extra ds) (\<lambda>xs.
          if length xs = 1 then Some (Some (hd xs))
          else if extra then Option.bind (negated_pair call xs) (\<lambda>found.
            if found then Some (Some FalseExpr) else Some (Some (AndExpr xs n)))
          else Some (Some (AndExpr xs n)))) = Some r"
        by (simp only: and_normalizeArr_def Let_def option.case prod.case if_False simp_thms ds_def)
      show ?thesis
      proof (cases "length ds = 1")
        case True
        with tail ds show ?thesis by (cases ds) auto
      next
        case ds1: False
        obtain xs where xs: "distribute h call extra ds = Some xs"
          and r': "(if length xs = 1 then Some (Some (hd xs))
            else if extra then Option.bind (negated_pair call xs) (\<lambda>found.
              if found then Some (Some FalseExpr) else Some (Some (AndExpr xs n)))
            else Some (Some (AndExpr xs n))) = Some r"
          using tail ds1 by (cases "distribute h call extra ds") auto
        have "xs \<noteq> []" "\<forall>e \<in> set xs. fine_expr e" "(\<forall>e \<in> set xs. ev e) \<longleftrightarrow> all_of ev arr"
          using distribute_spec [OF call xs ds(1,2)] ds(3) by auto
        with r' n negated_pair_spec [OF call, where es = xs] show ?thesis
          by (cases xs) (auto simp: fine_And ev_And cached_def fine_const ev_const bind_eq_Some_conv split: if_splits)
      qed
    qed
  qed
  then show ?thesis by (simp add: meets_def)
qed

lemma or_normalizeArr_meets:
  assumes call: "\<And>c r. call c = Some r \<Longrightarrow> meets c r" and r: "or_normalizeArr h call arr n extra = Some r"
  shows "meets (CallOr arr n extra) r"
proof -
  have "case r of None \<Rightarrow> set arr \<subseteq> {None} | Some x \<Rightarrow> fine_expr x \<and> (ev x \<longleftrightarrow> some_of ev arr)"
    if fin: "all_of fine_expr arr" and n: "cached (some_of ev arr) n"
  proof (cases "or_collect arr [] False")
    case None
    with r or_collect_spec [OF fin, of "[]" False] show ?thesis
      by (auto simp: or_normalizeArr_def fine_const ev_const)
  next
    case (Some p)
    obtain es t where p: "p = (es, t)" by fastforce
    have es: "\<forall>e \<in> set es. fine_expr e" "(\<exists>e \<in> set es. ev e) \<longleftrightarrow> some_of ev arr" "es = [] \<longrightarrow> (t \<longleftrightarrow> \<not> set arr \<subseteq> {None})"
      using or_collect_spec [OF fin, of "[]" False] Some p by auto
    define ds where "ds = dedupe (expr_sort h es)"
    show ?thesis
    proof (cases "length es \<le> 1")
      case True
      then show ?thesis
        using r Some p es ev_const fine_const
        by (cases es) (auto simp: or_normalizeArr_def expr_sort_def Let_def split: if_splits)
    next
      case False
      then have ds: "ds \<noteq> []" "\<forall>e \<in> set ds. fine_expr e" "(\<exists>e \<in> set ds. ev e) \<longleftrightarrow> some_of ev arr"
        using dedupe_spec [of "expr_sort h es"] dedupe_values(2) [of "expr_sort h es"] es(1,2)
        by (auto simp: ds_def dest: arg_cong [of _ _ length])
      have "length es \<noteq> 0" "length es \<noteq> 1" using False by auto
      with r Some p have "(if length ds = 1 then Some (Some (hd ds))
            else if extra then Option.bind (negated_pair call ds) (\<lambda>found.
              if found then Some (Some TrueExpr) else Some (Some (OrExpr ds n)))
            else Some (Some (OrExpr ds n))) = Some r"
        by (simp only: or_normalizeArr_def Let_def option.case prod.case if_False simp_thms ds_def length_expr_sort)
      with ds n negated_pair_spec [OF call, where es = ds] show ?thesis
        by (cases ds) (auto simp: fine_Or ev_Or cached_def fine_const ev_const bind_eq_Some_conv split: if_splits)
    qed
  qed
  then show ?thesis by (simp add: meets_def)
qed

lemma mapM_negations:
  assumes call: "\<And>c r. call c = Some r \<Longrightarrow> meets c r" and "mapM (\<lambda>e. call (CallNegate e)) es = Some rs"
    and "\<forall>e \<in> set es. fine_expr e"
  shows "all_of fine_expr rs \<and> (all_of ev rs \<longleftrightarrow> (\<forall>e \<in> set es. \<not> ev e)) \<and> (some_of ev rs \<longleftrightarrow> (\<exists>e \<in> set es. \<not> ev e)) \<and>
    (\<forall>r \<in> set rs. r \<noteq> None) \<and> (es \<noteq> [] \<longrightarrow> \<not> set rs \<subseteq> {None})"
  by (rule mapM_values [OF assms(2)]) (use meets_negate [OF call] assms(3) in blast)

lemma expr_negate_meets:
  assumes call: "\<And>c r. call c = Some r \<Longrightarrow> meets c r" and r: "expr_negate h env call e = Some r"
  shows "meets (CallNegate e) r"
proof -
  have "\<exists>x. r = Some x \<and> fine_expr x \<and> (ev x \<longleftrightarrow> \<not> ev e)" if fin: "fine_expr e"
  proof (cases e rule: parts.cases)
    case (1 es n)
    show ?thesis
    proof (cases n)
      case None
      with r 1 obtain rs where rs: "mapM (\<lambda>e. call (CallNegate e)) es = Some rs" "call (CallOr rs (Some e) True) = Some r"
        by (auto simp: and_negate_def bind_eq_Some_conv)
      moreover have "es \<noteq> []" "\<forall>e \<in> set es. fine_expr e" using fin 1 by (auto simp: fine_And)
      ultimately show ?thesis
        using mapM_negations [OF call rs(1)] meets_or [OF call [OF rs(2)]] fin by (auto simp: 1 cached_def ev_And)
    qed (use r 1 fin in \<open>auto simp: and_negate_def fine_And ev_And\<close>)
  next
    case (2 es n)
    show ?thesis
    proof (cases n)
      case None
      with r 2 obtain rs rs' where rs: "mapM (\<lambda>e. call (CallNegate e)) es = Some rs" "or_negate_loop call rs = Some rs'"
          "call (CallOr rs' (Some e) True) = Some r"
        by (auto simp: or_negate_def bind_eq_Some_conv)
      have "es \<noteq> []" "\<forall>e \<in> set es. fine_expr e" using fin 2 by (auto simp: fine_Or)
      then have rs1: "all_of fine_expr rs" "all_of ev rs \<longleftrightarrow> (\<forall>e \<in> set es. \<not> ev e)" "\<forall>r \<in> set rs. r \<noteq> None" "rs \<noteq> []"
        using mapM_negations [OF call rs(1)] by auto
      then have rs2: "all_of fine_expr rs'" "all_of ev rs' \<longleftrightarrow> \<not> ev e" "\<forall>r \<in> set rs'. r \<noteq> None" "length rs' \<le> 1" "rs' \<noteq> []"
        using or_negate_loop_spec [OF call rs(2)] by (auto simp: 2 ev_Or)
      then obtain y where "rs' = [Some y]" by (cases rs') auto
      with rs2 meets_or [OF call [OF rs(3)]] fin show ?thesis by (auto simp: cached_def)
    qed (use r 2 fin in \<open>auto simp: or_negate_def fine_Or ev_Or\<close>)
  qed (use r neg_leaf [OF fin] in \<open>auto\<close>)
  then show ?thesis by (simp add: meets_def)
qed

lemma ck_meets:
  assumes "ck h env c = Some r"
  shows "meets c r"
proof -
  have "h = h \<longrightarrow> env = env \<longrightarrow> meets c r"
  proof (rule ck.raw_induct [where P = "\<lambda>h' env' c r. h' = h \<longrightarrow> env' = env \<longrightarrow> meets c r", OF _ assms], intro impI)
    fix ck' h' env' c r
    assume IH: "\<And>h' env' c r. ck' h' env' c = Some r \<Longrightarrow> h' = h \<longrightarrow> env' = env \<longrightarrow> meets c r"
      and body: "ck_body h' env' (ck' h' env') c = Some r" and eq: "h' = h" "env' = env"
    note call = IH [where h' = h and env' = env, simplified]
    show "meets c r"
      using body expr_negate_meets [OF call] and_normalizeArr_meets [OF call] or_normalizeArr_meets [OF call]
      by (cases c) (auto simp: ck_body_def eq)
  qed
  then show ?thesis by blast
qed

end

section \<open>The contract holds for evaluation in a context\<close>

lemma fine_leafI:
  "leaf_fine h env ctx flags e \<Longrightarrow> parts e = [] \<Longrightarrow> negated_of e = None \<Longrightarrow> fine h env ctx flags e"
  by (subst fine.simps) simp

lemma fine_negated:
  "fine h env ctx flags e \<Longrightarrow> negated_of e = Some n \<Longrightarrow>
     fine h env ctx flags n \<and> (ContextKeyExpr_evaluate h ctx n \<longleftrightarrow> \<not> ContextKeyExpr_evaluate h ctx e)"
  by (subst (asm) fine.simps) simp

text \<open>The negation of a leaf, when it is not cached, is a fine leaf that caches the original.\<close>

lemma fine_negation:
  assumes "fine h env ctx flags e" "leaf_fine h env ctx flags x" "parts x = []" "negated_of x = Some e \<or> negated_of x = None"
    "ContextKeyExpr_evaluate h ctx x \<longleftrightarrow> \<not> ContextKeyExpr_evaluate h ctx e"
  shows "fine h env ctx flags x \<and> (ContextKeyExpr_evaluate h ctx x \<longleftrightarrow> \<not> ContextKeyExpr_evaluate h ctx e)"
  using assms by (subst fine.simps) auto

lemma leaf_negate_fine:
  assumes "fine h env ctx flags e" "and_parts e = None" "or_parts e = None"
  shows "\<exists>x. (\<forall>call. expr_negate h env call e = Some (Some x)) \<and> fine h env ctx flags x \<and>
    (ContextKeyExpr_evaluate h ctx x \<longleftrightarrow> \<not> ContextKeyExpr_evaluate h ctx e)"
proof (cases "negated_of e")
  case (Some n)
  then have "expr_negate h env call e = Some (Some n)" for call
    using assms(2,3) by (cases e) (auto simp: negate_defs)
  with fine_negated [OF assms(1) Some] show ?thesis by blast
next
  case None
  note leaf = fine_leaf [OF assms(1)]
  have "\<exists>x. (\<forall>call. expr_negate h env call e = Some (Some x)) \<and> leaf_fine h env ctx flags x \<and> parts x = [] \<and>
      (negated_of x = Some e \<or> negated_of x = None) \<and> (ContextKeyExpr_evaluate h ctx x \<longleftrightarrow> \<not> ContextKeyExpr_evaluate h ctx e)"
    using None leaf assms(2,3)
    by (cases e) (auto simp: negate_defs create_defs evaluate_defs Let_def numeric_at_def agrees_def number_less_negate
        number_less_negate [of "host_parseFloat h (value_to_string h (ctx _))"] split: js_prim.split option.split)
  then show ?thesis using fine_negation [OF assms(1)] by blast
qed

interpretation ck_semantics: expression_semantics "fine h env ctx flags" "ContextKeyExpr_evaluate h ctx" h env
  for h env ctx flags
proof
  show "fine h env ctx flags TrueExpr" "fine h env ctx flags FalseExpr" by (auto intro: fine_leafI)
  show "ContextKeyExpr_evaluate h ctx TrueExpr" "\<not> ContextKeyExpr_evaluate h ctx FalseExpr" by (simp_all add: evaluate_defs)
  show "fine h env ctx flags (AndExpr es n) \<longleftrightarrow> es \<noteq> [] \<and> (\<forall>e \<in> set es. fine h env ctx flags e) \<and>
      (\<forall>m. n = Some m \<longrightarrow> fine h env ctx flags m \<and> (ContextKeyExpr_evaluate h ctx m \<longleftrightarrow> \<not> (\<forall>e \<in> set es. ContextKeyExpr_evaluate h ctx e)))" for es n
    by (subst fine.simps) (auto split: option.split)
  show "fine h env ctx flags (OrExpr es n) \<longleftrightarrow> es \<noteq> [] \<and> (\<forall>e \<in> set es. fine h env ctx flags e) \<and>
      (\<forall>m. n = Some m \<longrightarrow> fine h env ctx flags m \<and> (ContextKeyExpr_evaluate h ctx m \<longleftrightarrow> \<not> (\<exists>e \<in> set es. ContextKeyExpr_evaluate h ctx e)))" for es n
    by (subst fine.simps) (auto split: option.split)
  show "fine h env ctx flags a \<Longrightarrow> fine h env ctx flags b \<Longrightarrow> ContextKeyExpr_equalsTo a b \<Longrightarrow>
      ContextKeyExpr_evaluate h ctx a \<longleftrightarrow> ContextKeyExpr_evaluate h ctx b" for a b
    by (rule equalsTo_value)
  show "fine h env ctx flags e \<Longrightarrow> and_parts e = None \<Longrightarrow> or_parts e = None \<Longrightarrow>
      \<exists>x. (\<forall>call. expr_negate h env call e = Some (Some x)) \<and> fine h env ctx flags x \<and>
        (ContextKeyExpr_evaluate h ctx x \<longleftrightarrow> \<not> ContextKeyExpr_evaluate h ctx e)" for e
    by (rule leaf_negate_fine)
qed simp_all

end
