(* ===== verification/ContextKeyTotal.thy ===== *)
theory ContextKeyTotal
  imports ContextKeySemantics
begin

text \<open>
  The normalizing operations return. Expressions in disjunctive normal form are closed under
  \<open>negate\<close> and \<open>Or.create\<close>; they are closed under \<open>And.create\<close> when they have no leaf that sorts
  behind \<open>Or\<close> (\<open>in\<close>, \<open>not in\<close> and the comparisons), because \<open>And.create\<close> only distributes an
  \<open>Or\<close> that sorts last.
\<close>

section \<open>Disjunctive normal form\<close>

text \<open>
  With \<open>late\<close>, leaves of any type are allowed; without, only those that sort before \<open>Or\<close>. An
  \<open>And\<close> may hold another one: \<open>And.create\<close> does not flatten the result of a distribution.
\<close>

inductive lit :: "bool \<Rightarrow> ContextKeyExpression \<Rightarrow> bool" for late where
  plain: "and_parts e = None \<Longrightarrow> or_parts e = None \<Longrightarrow> late \<or> ContextKeyExprType e < 9 \<Longrightarrow>
    negated_of e = None \<Longrightarrow> lit late e"
| negated: "and_parts e = None \<Longrightarrow> or_parts e = None \<Longrightarrow> late \<or> ContextKeyExprType e < 9 \<Longrightarrow>
    negated_of e = Some n \<Longrightarrow> lit late n \<Longrightarrow> lit late e"

inductive conj_tree :: "bool \<Rightarrow> ContextKeyExpression \<Rightarrow> bool" for late where
  leaf: "lit late e \<Longrightarrow> conj_tree late e"
| node: "es \<noteq> [] \<Longrightarrow> (\<And>e. e \<in> set es \<Longrightarrow> conj_tree late e) \<Longrightarrow> conj_tree late (AndExpr es None)"

inductive dnf :: "bool \<Rightarrow> ContextKeyExpression \<Rightarrow> bool" for late where
  tree: "conj_tree late e \<Longrightarrow> dnf late e"
| disj: "es \<noteq> [] \<Longrightarrow> (\<And>e. e \<in> set es \<Longrightarrow> conj_tree late e) \<Longrightarrow> dnf late (OrExpr es None)"
| disj_negated: "es \<noteq> [] \<Longrightarrow> (\<And>e. e \<in> set es \<Longrightarrow> conj_tree late e) \<Longrightarrow> dnf late n \<Longrightarrow>
    dnf late (OrExpr es (Some n))"

inductive_cases conj_tree_AndE: "conj_tree late (AndExpr es n)"
inductive_cases dnf_OrE: "dnf late (OrExpr es n)"
inductive_cases litE: "lit late e"

lemma lit_const [simp]: "lit late TrueExpr" "lit late FalseExpr"
  by (auto intro: lit.plain)

lemma lit_shape: "lit late e \<Longrightarrow> and_parts e = None \<and> or_parts e = None"
  by (auto elim: lit.cases)

lemma lit_AndOr [simp]: "\<not> lit late (AndExpr es n)" "\<not> lit late (OrExpr es n)"
  by (auto elim: lit.cases)

lemma conj_tree_Or [simp]: "\<not> conj_tree late (OrExpr es n)"
  by (auto elim: conj_tree.cases)

lemma conj_tree_shape: "conj_tree late e \<Longrightarrow> or_parts e = None"
  by (cases e) auto

lemma conj_tree_And_iff: "conj_tree late (AndExpr es n) \<longleftrightarrow> es \<noteq> [] \<and> n = None \<and> (\<forall>e \<in> set es. conj_tree late e)"
  by (auto elim: conj_tree_AndE intro: conj_tree.node)

lemma dnf_cases:
  assumes "dnf late e"
  obtains (tree) "conj_tree late e" | (disj) es n where "e = OrExpr es n" "es \<noteq> []" "\<forall>e \<in> set es. conj_tree late e"
  using assms by (cases rule: dnf.cases) auto

lemma dnf_const [simp]: "dnf late TrueExpr" "dnf late FalseExpr"
  by (auto intro!: dnf.tree conj_tree.leaf)

lemma dnf_OrI: "es \<noteq> [] \<Longrightarrow> \<forall>e \<in> set es. conj_tree late e \<Longrightarrow> (\<And>m. n = Some m \<Longrightarrow> dnf late m) \<Longrightarrow> dnf late (OrExpr es n)"
  by (cases n) (auto intro: dnf.disj dnf.disj_negated)

section \<open>Negation of leaves\<close>

lemma negate_lit:
  assumes "lit late e"
  shows "\<exists>x. (\<forall>call. expr_negate h env call e = Some (Some x)) \<and> lit late x"
  using assms
proof (cases rule: lit.cases)
  case plain
  then have "\<exists>x. (\<forall>call. expr_negate h env call e = Some (Some x)) \<and> and_parts x = None \<and> or_parts x = None \<and>
      (late \<or> ContextKeyExprType x < 9) \<and> (negated_of x = Some e \<or> negated_of x = None)"
    by (cases e) (auto simp: negate_defs create_defs Let_def split: option.split js_prim.split)
  with assms show ?thesis by (metis lit.plain lit.negated)
next
  case (negated n)
  then have "expr_negate h env call e = Some (Some n)" for call by (cases e) (auto simp: negate_defs)
  with negated show ?thesis by blast
qed

lemma ck_unfold: "ck h env c = ck_body h env (ck h env) c"
  by (subst ck.simps) simp

lemma ck_simps:
  "ck h env (CallNegate e) = expr_negate h env (ck h env) e"
  "ck h env (CallAnd arr n extra) = and_normalizeArr h (ck h env) arr n extra"
  "ck h env (CallOr arr n extra) = or_normalizeArr h (ck h env) arr n extra"
  by (subst ck_unfold; simp add: ck_body_def; fail)+

section \<open>Loops that return\<close>

lemma mapM_total:
  "(\<And>x. x \<in> set xs \<Longrightarrow> \<exists>y. f x = Some y \<and> P y) \<Longrightarrow> \<exists>ys. mapM f xs = Some ys \<and> (\<forall>y \<in> set ys. P y) \<and> length ys = length xs"
proof (induction xs)
  case (Cons x xs)
  obtain y where "f x = Some y" "P y" using Cons.prems [of x] by auto
  moreover obtain ys where "mapM f xs = Some ys" "\<forall>y \<in> set ys. P y" "length ys = length xs" using Cons by auto
  ultimately show ?case by simp
qed simp

lemma negated_pair_total:
  "(\<And>e. e \<in> set es \<Longrightarrow> \<exists>x. call (CallNegate e) = Some (Some x)) \<Longrightarrow> \<exists>b. negated_pair call es = Some b"
proof (induction es rule: induct_list012)
  case (3 a b es)
  obtain x where "call (CallNegate a) = Some (Some x)" using "3.prems" [of a] by auto
  with 3 show ?case by auto
qed auto

lemma set_dedupe: "set (dedupe es) \<subseteq> set es \<and> (es \<noteq> [] \<longrightarrow> dedupe es \<noteq> [])"
  by (induction es rule: dedupe.induct) auto

text \<open>What \<open>_normalizeArr\<close> of \<open>Or\<close> does with the terms it collects\<close>

fun or_terms :: "ContextKeyExpression \<Rightarrow> ContextKeyExpression list" where
  "or_terms (OrExpr es n) = es"
| "or_terms e = [e]"

definition arr_terms :: "ContextKeyExpression option list \<Rightarrow> ContextKeyExpression set" where
  "arr_terms arr = (\<Union>e \<in> {e. Some e \<in> set arr}. set (or_terms e))"

lemma arr_terms_simps [simp]:
  "arr_terms [] = {}" "arr_terms (None # arr) = arr_terms arr" "arr_terms (Some e # arr) = set (or_terms e) \<union> arr_terms arr"
  by (auto simp: arr_terms_def)

lemma or_collect_terms: "or_collect arr acc t = Some (es, t') \<Longrightarrow> set es \<subseteq> set acc \<union> arr_terms arr"
proof (induction arr acc t rule: or_collect.induct)
  case (3 e arr acc t)
  then show ?case by (cases e) (simp_all, blast+)
qed auto

lemma expr_sort_Nil_iff [simp]: "expr_sort h es = [] \<longleftrightarrow> es = []"
  using length_expr_sort [of h es] by (metis length_0_conv)

lemma or_collect_nonempty:
  "or_collect arr acc t = Some ([], t') \<Longrightarrow>
   (\<And>es n. Some (OrExpr es n) \<in> set arr \<Longrightarrow> es \<noteq> []) \<Longrightarrow> acc = [] \<and> (t' \<longleftrightarrow> t \<or> \<not> set arr \<subseteq> {None})"
proof (induction arr acc t rule: or_collect.induct)
  case (3 e arr acc t)
  then show ?case by (cases e) (auto; fastforce)+
qed auto

text \<open>
  \<open>Or.create\<close> of terms whose negations return: the disjunction of the terms, or a single term.
\<close>

lemma or_create_total:
  assumes "\<And>t. t \<in> arr_terms arr \<Longrightarrow> P t" and "\<And>es n. Some (OrExpr es n) \<in> set arr \<Longrightarrow> es \<noteq> []"
    and "P TrueExpr" "P FalseExpr" and "\<And>t. P t \<Longrightarrow> \<exists>x. ck h env (CallNegate t) = Some (Some x)"
  shows "\<exists>r. ck h env (CallOr arr n extra) = Some r \<and>
    (case r of None \<Rightarrow> set arr \<subseteq> {None}
     | Some x \<Rightarrow> P x \<or> (\<exists>es. x = OrExpr es n \<and> es \<noteq> [] \<and> (\<forall>t \<in> set es. P t)))"
proof (cases "or_collect arr [] False")
  case None
  then show ?thesis using assms(3) by (simp add: ck_simps or_normalizeArr_def)
next
  case (Some p)
  obtain es t where p: "p = (es, t)" by fastforce
  have P: "\<forall>e \<in> set es. P e" using or_collect_terms [of arr "[]" False es t] assms(1) Some p by auto
  define ds where "ds = dedupe (expr_sort h es)"
  have ds: "\<forall>e \<in> set ds. P e" "es \<noteq> [] \<Longrightarrow> ds \<noteq> []"
    using set_dedupe [of "expr_sort h es"] P by (auto simp: ds_def ck_semantics.set_expr_sort)
  obtain b where b: "negated_pair (ck h env) ds = Some b" using negated_pair_total assms(5) ds(1) by blast
  show ?thesis
  proof (cases "length es \<le> 1")
    case True
    then show ?thesis
      using Some p P assms(4) or_collect_nonempty [of arr "[]" False t] assms(2)
      by (cases es) (auto simp: ck_simps or_normalizeArr_def expr_sort_def Let_def)
  next
    case False
    then have "length es \<noteq> 0" "length es \<noteq> 1" "es \<noteq> []" by auto
    then have "ck h env (CallOr arr n extra) = (if length ds = 1 then Some (Some (hd ds))
        else if extra then Some (Some (if b then TrueExpr else OrExpr ds n)) else Some (Some (OrExpr ds n)))"
      using b by (simp add: ck_simps or_normalizeArr_def Let_def Some p flip: ds_def)
    with ds \<open>es \<noteq> []\<close> assms(3) show ?thesis by (cases ds) auto
  qed
qed

section \<open>Negation returns\<close>

lemma or_terms_lit: "lit late x \<Longrightarrow> or_terms x = [x]"
  by (cases x) auto

lemma or_terms_tree: "conj_tree late x \<Longrightarrow> or_terms x = [x]"
  by (cases x) auto

lemma arr_terms_all: "(\<And>e. Some e \<in> set arr \<Longrightarrow> \<forall>t \<in> set (or_terms e). P t) \<Longrightarrow> t \<in> arr_terms arr \<Longrightarrow> P t"
  by (auto simp: arr_terms_def)

lemma negate_tree_total:
  "conj_tree late e \<Longrightarrow> \<exists>x. ck h env (CallNegate e) = Some (Some x) \<and> or_terms x \<noteq> [] \<and>
     (\<forall>t \<in> set (or_terms x). lit late t) \<and> dnf late x"
proof (induction rule: conj_tree.induct)
  case (leaf e)
  obtain x where "expr_negate h env (ck h env) e = Some (Some x)" "lit late x" using negate_lit [OF leaf, of h env] by blast
  then show ?case by (auto simp: ck_simps or_terms_lit intro: dnf.tree conj_tree.leaf)
next
  case (node es)
  let ?ok = "\<lambda>r. \<exists>x. r = Some x \<and> or_terms x \<noteq> [] \<and> (\<forall>t \<in> set (or_terms x). lit late t)"
  obtain rs where rs: "mapM (\<lambda>e. ck h env (CallNegate e)) es = Some rs" "\<forall>r \<in> set rs. ?ok r" "length rs = length es"
    using mapM_total [of es "\<lambda>e. ck h env (CallNegate e)" ?ok] node.IH by blast
  let ?n = "Some (AndExpr es None)"
  have "\<exists>r. ck h env (CallOr rs ?n True) = Some r \<and> (case r of None \<Rightarrow> set rs \<subseteq> {None}
      | Some x \<Rightarrow> lit late x \<or> (\<exists>ts. x = OrExpr ts ?n \<and> ts \<noteq> [] \<and> (\<forall>t \<in> set ts. lit late t)))"
  proof (rule or_create_total)
    have "\<forall>t \<in> set (or_terms e). lit late t" if "Some e \<in> set rs" for e using rs(2) that by blast
    then show "lit late t" if "t \<in> arr_terms rs" for t using that arr_terms_all [where P = "lit late"] by blast
    show "ts \<noteq> []" if "Some (OrExpr ts n) \<in> set rs" for ts n using bspec [OF rs(2) that] by simp
    show "\<exists>x. ck h env (CallNegate t) = Some (Some x)" if "lit late t" for t
      using negate_lit [OF that, of h env] by (auto simp: ck_simps)
  qed simp_all
  moreover have "\<not> set rs \<subseteq> {None}" using rs node.hyps(1) by (cases rs) auto
  ultimately obtain x where x: "ck h env (CallOr rs ?n True) = Some (Some x)"
      "lit late x \<or> (\<exists>ts. x = OrExpr ts ?n \<and> ts \<noteq> [] \<and> (\<forall>t \<in> set ts. lit late t))"
    by (auto split: option.splits)
  have "dnf late (AndExpr es None)" using node.hyps by (auto intro: dnf.tree conj_tree.node)
  with x have "dnf late x" "or_terms x \<noteq> []" "\<forall>t \<in> set (or_terms x). lit late t"
    by (auto simp: or_terms_lit intro!: dnf_OrI intro: dnf.tree conj_tree.leaf)
  moreover have "ck h env (CallNegate (AndExpr es None)) = Some (Some x)"
    using rs(1) x(1) by (simp add: ck_simps and_negate_def)
  ultimately show ?case by blast
qed

text \<open>\<open>Or.create\<close> of expressions in disjunctive normal form\<close>

lemma or_create_dnf:
  assumes "\<And>e. Some e \<in> set arr \<Longrightarrow> dnf late e" and "\<And>m. n = Some m \<Longrightarrow> dnf late m"
  shows "\<exists>r. ck h env (CallOr arr n extra) = Some r \<and>
    (case r of None \<Rightarrow> set arr \<subseteq> {None} | Some x \<Rightarrow> dnf late x)"
proof -
  have "\<exists>r. ck h env (CallOr arr n extra) = Some r \<and> (case r of None \<Rightarrow> set arr \<subseteq> {None}
      | Some x \<Rightarrow> conj_tree late x \<or> (\<exists>es. x = OrExpr es n \<and> es \<noteq> [] \<and> (\<forall>t \<in> set es. conj_tree late t)))"
  proof (rule or_create_total)
    have "\<forall>t \<in> set (or_terms e). conj_tree late t" if "Some e \<in> set arr" for e
      by (rule dnf_cases [OF assms(1) [OF that]]) (simp_all add: or_terms_tree)
    then show "conj_tree late t" if "t \<in> arr_terms arr" for t
      using that arr_terms_all [where P = "conj_tree late"] by blast
    show "ts \<noteq> []" if "Some (OrExpr ts n) \<in> set arr" for ts n using assms(1) [OF that] by (auto elim: dnf_OrE)
    show "\<exists>x. ck h env (CallNegate t) = Some (Some x)" if "conj_tree late t" for t
      using negate_tree_total [OF that, of h env] by blast
  qed (auto intro: conj_tree.leaf)
  then obtain r where r: "ck h env (CallOr arr n extra) = Some r" "case r of None \<Rightarrow> set arr \<subseteq> {None}
      | Some x \<Rightarrow> conj_tree late x \<or> (\<exists>es. x = OrExpr es n \<and> es \<noteq> [] \<and> (\<forall>t \<in> set es. conj_tree late t))" by blast
  then show ?thesis
    using assms(2) by (intro exI [of _ r]) (cases r; auto intro: dnf.tree intro!: dnf_OrI)
qed

section \<open>Conjunction returns\<close>

text \<open>The elements that \<open>And.create\<close> collects\<close>

fun and_items :: "ContextKeyExpression \<Rightarrow> ContextKeyExpression list" where
  "and_items (AndExpr es n) = es"
| "and_items e = [e]"

lemma and_collect_items:
  "and_collect arr acc t = Some (es, t') \<Longrightarrow> set es \<subseteq> set acc \<union> (\<Union>e \<in> {e. Some e \<in> set arr}. set (and_items e))"
proof (induction arr acc t rule: and_collect.induct)
  case (3 e arr acc t)
  have "{e'. Some e' \<in> set (Some e # arr)} = insert e {e. Some e \<in> set arr}" by auto
  then have U: "(\<Union>e' \<in> {e'. Some e' \<in> set (Some e # arr)}. set (and_items e')) =
      set (and_items e) \<union> (\<Union>e \<in> {e. Some e \<in> set arr}. set (and_items e))" by simp
  show ?case unfolding U using "3.IH" "3.prems" by (cases e) (simp_all, blast+)
qed auto

lemma dnf_and_items:
  assumes "dnf late e" "x \<in> set (and_items e)"
  shows "dnf late x"
  by (rule dnf_cases [OF assms(1)]; cases e) (use assms in \<open>auto simp: conj_tree_And_iff intro: dnf.tree\<close>)

lemma tree_and_items: "conj_tree late e \<Longrightarrow> x \<in> set (and_items e) \<Longrightarrow> conj_tree late x"
  by (cases e) (auto simp: conj_tree_And_iff)

text \<open>Sorting orders the elements by their types.\<close>

lemma cmp_types:
  "ContextKeyExpr_cmp h a b \<le> 0 \<Longrightarrow> ContextKeyExprType a \<le> ContextKeyExprType b"
  "ContextKeyExpr_cmp h a b > 0 \<Longrightarrow> ContextKeyExprType b \<le> ContextKeyExprType a"
  by (cases a; cases b; simp add: ContextKeyFalseExpr_cmp_def ContextKeyTrueExpr_cmp_def ContextKeyDefinedExpr_cmp_def
      ContextKeyNotExpr_cmp_def ContextKeyEqualsExpr_cmp_def ContextKeyNotEqualsExpr_cmp_def ContextKeyAndExpr_cmp_def
      ContextKeyRegexExpr_cmp_def ContextKeyNotRegexExpr_cmp_def ContextKeyOrExpr_cmp_def ContextKeyInExpr_cmp_def
      ContextKeyNotInExpr_cmp_def ContextKeyGreaterExpr_cmp_def ContextKeyGreaterEqualsExpr_cmp_def
      ContextKeySmallerExpr_cmp_def ContextKeySmallerEqualsExpr_cmp_def)+

abbreviation by_type :: "ContextKeyExpression list \<Rightarrow> bool" where
  "by_type es \<equiv> sorted_wrt (\<lambda>a b. ContextKeyExprType a \<le> ContextKeyExprType b) es"

lemma by_type_insert: "by_type ys \<Longrightarrow> by_type (insert_by (ContextKeyExpr_cmp h) x ys)"
proof (induction ys)
  case (Cons y ys)
  then show ?case
    using cmp_types [of h x y] by (auto simp: ck_semantics.set_insert_by dest: order_trans)
qed simp

lemma by_type_sort: "by_type (expr_sort h es)"
  by (induction es) (auto simp: expr_sort_def by_type_insert)

lemma by_type_dedupe: "by_type es \<Longrightarrow> by_type (dedupe es)"
proof (induction es rule: dedupe.induct)
  case (1 a b es)
  then show ?case using set_dedupe [of "b # es"] by auto
qed auto

text \<open>The number of disjunctions in a list\<close>

definition ors :: "ContextKeyExpression list \<Rightarrow> nat" where
  "ors es = length (filter (\<lambda>e. or_parts e \<noteq> None) es)"

definition arr_ors :: "ContextKeyExpression option list \<Rightarrow> nat" where
  "arr_ors arr = ors (concat (map (\<lambda>o'. case o' of None \<Rightarrow> [] | Some e \<Rightarrow> [e]) arr))"

lemma ors_simps [simp]: "ors [] = 0" "ors (e # es) = (if or_parts e = None then 0 else 1) + ors es" "ors (xs @ ys) = ors xs + ors ys"
  by (auto simp: ors_def)

lemma arr_ors_simps [simp]:
  "arr_ors [] = 0" "arr_ors (None # arr) = arr_ors arr" "arr_ors (Some e # arr) = (if or_parts e = None then 0 else 1) + arr_ors arr"
  by (auto simp: arr_ors_def)

lemma ors_insert_by [simp]: "ors (insert_by cmp x ys) = ors (x # ys)"
  by (induction ys) auto

lemma ors_sort [simp]: "ors (expr_sort h es) = ors es"
  by (induction es) (auto simp: expr_sort_def)

lemma ors_dedupe: "ors (dedupe es) \<le> ors es"
  by (induction es rule: dedupe.induct) (auto split: if_splits)

lemma ors_0: "\<forall>e \<in> set es. or_parts e = None \<Longrightarrow> ors es = 0"
  by (induction es) auto

lemma ors_tree_items: "conj_tree late (AndExpr es n) \<Longrightarrow> ors es = 0"
  by (rule ors_0) (auto simp: conj_tree_And_iff dest: conj_tree_shape)

lemma ors_collect:
  "and_collect arr acc t = Some (es, t') \<Longrightarrow> (\<And>e. Some e \<in> set arr \<Longrightarrow> dnf late e) \<Longrightarrow> ors es \<le> ors acc + arr_ors arr"
proof (induction arr acc t rule: and_collect.induct)
  case (3 e arr acc t)
  have IH: "\<And>e. Some e \<in> set arr \<Longrightarrow> dnf late e" using "3.prems"(2) by simp
  have "ors es' = 0" if "e = AndExpr es' n" for es' n
    by (rule dnf_cases [OF "3.prems"(2) [of e]]) (use that in \<open>auto dest: ors_tree_items\<close>)
  then show ?case using "3.IH" [OF _ _ IH] "3.prems"(1) by (cases e) fastforce+
qed auto

lemma and_collect_nonempty:
  "and_collect arr acc t = Some ([], t') \<Longrightarrow>
   (\<And>es n. Some (AndExpr es n) \<in> set arr \<Longrightarrow> es \<noteq> []) \<Longrightarrow> acc = [] \<and> (t' \<longleftrightarrow> t \<or> \<not> set arr \<subseteq> {None})"
proof (induction arr acc t rule: and_collect.induct)
  case (3 e arr acc t)
  then show ?case by (cases e) (auto; fastforce)+
qed auto

lemma dnf_And_nonempty: "dnf late (AndExpr es n) \<Longrightarrow> es \<noteq> []"
  by (erule dnf_cases) (auto simp: conj_tree_And_iff)

text \<open>A loop that leaves one element, or conjunctions only, lets \<open>And.create\<close> return.\<close>

definition distributed :: "bool \<Rightarrow> ContextKeyExpression list option \<Rightarrow> bool" where
  "distributed late r \<longleftrightarrow> (\<exists>xs. r = Some xs \<and> xs \<noteq> [] \<and> (\<forall>e \<in> set xs. dnf late e) \<and>
     (length xs = 1 \<or> (\<forall>e \<in> set xs. conj_tree late e)))"

lemma and_create_distributed:
  assumes arr: "\<And>e. Some e \<in> set arr \<Longrightarrow> dnf late e"
    and dist: "\<And>ds. ds \<noteq> [] \<Longrightarrow> by_type ds \<Longrightarrow> \<forall>e \<in> set ds. dnf late e \<Longrightarrow> ors ds \<le> arr_ors arr \<Longrightarrow>
      distributed late (distribute h (ck h env) extra ds)"
  shows "\<exists>r. ck h env (CallAnd arr None extra) = Some r \<and> (case r of None \<Rightarrow> set arr \<subseteq> {None} | Some x \<Rightarrow> dnf late x)"
proof (cases "and_collect arr [] False")
  case None
  then show ?thesis by (simp add: ck_simps and_normalizeArr_def)
next
  case (Some p)
  obtain es t where p: "p = (es, t)" by fastforce
  have "\<forall>e \<in> set es. dnf late e" using and_collect_items [of arr "[]" False es t] dnf_and_items [OF arr] Some p by fastforce
  moreover have "ors es \<le> arr_ors arr" using ors_collect [of arr "[]" False es t late] arr Some p by simp
  ultimately have es: "\<forall>e \<in> set es. dnf late e" "ors es \<le> arr_ors arr" by blast+
  define ds where "ds = dedupe (expr_sort h es)"
  have ds: "\<forall>e \<in> set ds. dnf late e" "es \<noteq> [] \<Longrightarrow> ds \<noteq> []" "by_type ds" "ors ds \<le> arr_ors arr"
    using set_dedupe [of "expr_sort h es"] es ors_dedupe [of "expr_sort h es"] by_type_dedupe [OF by_type_sort [of h es]]
    by (auto simp: ds_def ck_semantics.set_expr_sort)
  show ?thesis
  proof (cases "length es \<le> 1")
    case True
    then show ?thesis
      using Some p es(1) and_collect_nonempty [of arr "[]" False t] arr dnf_And_nonempty
      by (cases es) (auto simp: ck_simps and_normalizeArr_def)
  next
    case False
    then have len: "length es \<noteq> 0" "length es \<noteq> 1" "es \<noteq> []" by auto
    from dist [OF ds(2) [OF len(3)] ds(3,1,4)] obtain xs where
      xs: "distribute h (ck h env) extra ds = Some xs" "xs \<noteq> []" "\<forall>e \<in> set xs. dnf late e"
        "length xs = 1 \<or> (\<forall>e \<in> set xs. conj_tree late e)" by (auto simp: distributed_def)
    have "\<exists>b. negated_pair (ck h env) xs = Some b" if "\<forall>e \<in> set xs. conj_tree late e"
      using that negate_tree_total [of late _ h env] by (intro negated_pair_total) blast
    then obtain b where b: "length xs \<noteq> 1 \<Longrightarrow> negated_pair (ck h env) xs = Some b" using xs(4) by blast
    have "ck h env (CallAnd arr None extra) = (if length ds = 1 then Some (Some (hd ds))
        else if length xs = 1 then Some (Some (hd xs))
        else if extra then Some (Some (if b then FalseExpr else AndExpr xs None)) else Some (Some (AndExpr xs None)))"
      using b len xs(1) by (auto simp add: ck_simps and_normalizeArr_def Let_def Some p simp flip: ds_def)
    moreover have "dnf late (hd ds)" "dnf late (hd xs)" using ds(1) ds(2) [OF len(3)] xs(2,3) by auto
    moreover have "length xs \<noteq> 1 \<Longrightarrow> dnf late (AndExpr xs None)" using xs(2,4) by (auto intro: dnf.tree conj_tree.node)
    ultimately show ?thesis by auto
  qed
qed

lemma dnf_conj_tree: "dnf late e \<Longrightarrow> or_parts e = None \<Longrightarrow> conj_tree late e"
  by (erule dnf_cases) auto

lemma ors_0_iff: "ors es = 0 \<longleftrightarrow> (\<forall>e \<in> set es. or_parts e = None)"
  by (auto simp: ors_def filter_empty_conv)

lemma distribute_done: "or_parts (last es) = None \<Longrightarrow> distribute h call extra es = Some es"
  by (subst distribute.simps) (auto split: ContextKeyExpression.split)

lemma distributed_same:
  "es \<noteq> [] \<Longrightarrow> \<forall>e \<in> set es. dnf late e \<Longrightarrow> ors es = 0 \<Longrightarrow> distributed late (distribute h call extra es)"
  by (auto simp: distributed_def ors_0_iff distribute_done dnf_conj_tree)

lemma create_some:
  "\<exists>r. c = Some r \<and> (case r of None \<Rightarrow> set arr \<subseteq> {None} | Some x \<Rightarrow> P x) \<Longrightarrow> \<not> set arr \<subseteq> {None} \<Longrightarrow>
   \<exists>x. c = Some (Some x) \<and> P x"
  by (auto split: option.splits)

lemma or_create_some:
  assumes "rs \<noteq> []" "\<forall>r \<in> set rs. \<exists>x. r = Some x \<and> dnf late x" "\<And>m. n = Some m \<Longrightarrow> dnf late m"
  shows "\<exists>x. ck h env (CallOr rs n extra) = Some (Some x) \<and> dnf late x"
proof (rule create_some [OF or_create_dnf])
  show "dnf late e" if "Some e \<in> set rs" for e using bspec [OF assms(2) that] by simp
  show "\<not> set rs \<subseteq> {None}" using assms(1,2) by (cases rs) auto
qed (rule assms(3))

text \<open>\<open>And.create\<close> of conjunctions\<close>

lemma and_create_trees:
  assumes "\<And>e. Some e \<in> set arr \<Longrightarrow> conj_tree late e"
  shows "\<exists>r. ck h env (CallAnd arr None extra) = Some r \<and> (case r of None \<Rightarrow> set arr \<subseteq> {None} | Some x \<Rightarrow> dnf late x)"
proof (rule and_create_distributed)
  show "dnf late e" if "Some e \<in> set arr" for e using assms [OF that] by (rule dnf.tree)
  have "arr_ors arr = 0"
    using assms
  proof (induction arr)
    case (Cons o' arr)
    then show ?case using conj_tree_shape by (cases o') auto
  qed simp
  then show "distributed late (distribute h (ck h env) extra ds)"
    if "ds \<noteq> []" "\<forall>e \<in> set ds. dnf late e" "ors ds \<le> arr_ors arr" for ds
    using distributed_same that by auto
qed

text \<open>When no leaf sorts behind \<open>Or\<close>, a list sorted by type ends with an \<open>Or\<close> if it has one.\<close>

lemma lit_type: "lit False e \<Longrightarrow> ContextKeyExprType e < 9"
  by (auto elim: lit.cases)

lemma conj_tree_type: "conj_tree False e \<Longrightarrow> ContextKeyExprType e < 9"
  by (erule conj_tree.cases) (auto dest: lit_type)

lemma last_not_or:
  assumes "by_type es" "\<forall>e \<in> set es. dnf False e" "or_parts (last es) = None"
  shows "ors es = 0"
proof (cases es rule: rev_cases)
  case (snoc xs x)
  have "ContextKeyExprType x < 9" using assms by (auto simp: snoc intro: conj_tree_type dnf_conj_tree)
  then have "or_parts e = None" if "e \<in> set es" for e
    using assms(1,3) that by (cases e) (fastforce simp: snoc sorted_wrt_append)+
  then show ?thesis by (simp add: ors_0_iff)
qed simp

lemma distribute_total:
  assumes calls: "\<And>el b. conj_tree False el \<Longrightarrow> dnf False b \<Longrightarrow> or_parts b = None \<or> k > 1 \<Longrightarrow>
      \<exists>x. ck h env (CallAnd [Some el, Some b] None extra) = Some (Some x) \<and> dnf False x"
  shows "es \<noteq> [] \<Longrightarrow> by_type es \<Longrightarrow> \<forall>e \<in> set es. dnf False e \<Longrightarrow> ors es \<le> k \<Longrightarrow>
    distributed False (distribute h (ck h env) extra es)"
proof (induction "length es" arbitrary: es rule: less_induct)
  case less
  consider "or_parts (last es) = None" | "length es = 1" | rest b os n where "es = rest @ [b, OrExpr os n]"
    using less.prems(1) by (cases es rule: rev_cases; cases "butlast es" rule: rev_cases; cases "last es") auto
  then show ?case
  proof cases
    case 1
    with less.prems show ?thesis using last_not_or distributed_same by blast
  next
    case 2
    then have "distribute h (ck h env) extra es = Some es" by (subst distribute.simps) simp
    with 2 less.prems show ?thesis by (auto simp: distributed_def)
  next
    case (3 rest b os n)
    have os: "os \<noteq> []" "\<forall>o' \<in> set os. conj_tree False o'" using less.prems(3) by (auto simp: 3 elim: dnf_OrE)
    let ?ok = "\<lambda>r. \<exists>x. r = Some x \<and> dnf False x"
    have "or_parts b = None \<or> k > 1" "dnf False b" using less.prems(3,4) by (auto simp: 3 split: if_splits)
    then have "\<exists>y. ck h env (CallAnd [Some el, Some b] None extra) = Some y \<and> ?ok y" if "el \<in> set os" for el
      using calls [OF bspec [OF os(2) that]] by blast
    then obtain arr where arr: "mapM (\<lambda>el. ck h env (CallAnd [Some el, Some b] None extra)) os = Some arr"
        "\<forall>r \<in> set arr. ?ok r" "length arr = length os"
      using mapM_total [of os "\<lambda>el. ck h env (CallAnd [Some el, Some b] None extra)" ?ok] by blast
    then have "arr \<noteq> []" using os(1) by auto
    then obtain x where x: "ck h env (CallOr arr None (rest = [])) = Some (Some x)" "dnf False x"
      using or_create_some [of arr False None h env "rest = []"] arr(2) by auto
    have "distribute h (ck h env) extra es = distribute h (ck h env) extra (expr_sort h (rest @ [x]))"
      by (subst distribute.simps) (simp add: 3 butlast_append Let_def arr(1) x(1))
    moreover have "distributed False (distribute h (ck h env) extra (expr_sort h (rest @ [x])))"
    proof (rule less.hyps)
      show "length (expr_sort h (rest @ [x])) < length es" by (simp add: 3)
      show "ors (expr_sort h (rest @ [x])) \<le> k" using less.prems(4) by (auto simp: 3)
      show "\<forall>e \<in> set (expr_sort h (rest @ [x])). dnf False e" using less.prems(3) x(2) by (auto simp: 3 ck_semantics.set_expr_sort)
    qed (simp_all add: by_type_sort)
    ultimately show ?thesis by simp
  qed
qed

text \<open>\<open>And.create\<close> of expressions without late leaves; its inner calls have at most one \<open>Or\<close>.\<close>

lemma and_create_one_or:
  assumes "\<And>e. Some e \<in> set arr \<Longrightarrow> dnf False e" "arr_ors arr \<le> 1"
  shows "\<exists>r. ck h env (CallAnd arr None extra) = Some r \<and> (case r of None \<Rightarrow> set arr \<subseteq> {None} | Some x \<Rightarrow> dnf False x)"
proof (rule and_create_distributed [OF assms(1)])
  fix ds assume "ds \<noteq> []" "by_type ds" "\<forall>e \<in> set ds. dnf False e" "ors ds \<le> arr_ors arr"
  then show "distributed False (distribute h (ck h env) extra ds)"
  proof (intro distribute_total [where k = 1])
    fix el b assume "conj_tree False el" "dnf False b" "or_parts b = None \<or> 1 < (1::nat)"
    then show "\<exists>x. ck h env (CallAnd [Some el, Some b] None extra) = Some (Some x) \<and> dnf False x"
      by (intro create_some [OF and_create_trees]) (auto dest: dnf_conj_tree)
  qed (use assms(2) in auto)
qed

lemma and_create_dnf:
  assumes "\<And>e. Some e \<in> set arr \<Longrightarrow> dnf False e"
  shows "\<exists>r. ck h env (CallAnd arr None extra) = Some r \<and> (case r of None \<Rightarrow> set arr \<subseteq> {None} | Some x \<Rightarrow> dnf False x)"
proof (rule and_create_distributed [OF assms])
  fix ds assume ds: "ds \<noteq> []" "by_type ds" "\<forall>e \<in> set ds. dnf False e"
  show "distributed False (distribute h (ck h env) extra ds)"
  proof (rule distribute_total [OF _ ds order_refl])
    fix el b assume "conj_tree False el" "dnf False b"
    then show "\<exists>x. ck h env (CallAnd [Some el, Some b] None extra) = Some (Some x) \<and> dnf False x"
      using conj_tree_shape [of False el] by (intro create_some [OF and_create_one_or]) (auto intro: dnf.tree)
  qed
qed

section \<open>Negation of a disjunction returns\<close>

lemma getTerminals_dnf:
  assumes "dnf late e"
  shows "\<exists>ts. getTerminals (Some e) = Some ts \<and> ts \<noteq> [] \<and> (\<forall>t \<in> set ts. conj_tree late t)"
  using assms
proof (cases rule: dnf_cases)
  case tree
  then show ?thesis by (cases e) (auto simp: getTerminals_def)
qed (simp add: getTerminals_def)

lemma or_negate_loop_total:
  "\<forall>r \<in> set rs. \<exists>x. r = Some x \<and> dnf late x \<Longrightarrow>
     \<exists>rs'. or_negate_loop (ck h env) rs = Some rs' \<and> (\<forall>r \<in> set rs'. \<exists>x. r = Some x \<and> dnf late x) \<and> (rs \<noteq> [] \<longrightarrow> rs' \<noteq> [])"
proof (induction "length rs" arbitrary: rs rule: less_induct)
  case less
  show ?case
  proof (cases rs rule: remdups_adj.cases)
    case (3 L R rest)
    let ?ok = "\<lambda>r. \<exists>x. r = Some x \<and> dnf late x"
    from less.prems obtain ls ks where
      ls: "getTerminals L = Some ls" "ls \<noteq> []" "\<forall>t \<in> set ls. conj_tree late t" and
      ks: "getTerminals R = Some ks" "ks \<noteq> []" "\<forall>t \<in> set ks. conj_tree late t"
      by (auto simp: 3 dest!: getTerminals_dnf)
    let ?pairs = "concat (map (\<lambda>l. map (\<lambda>r. (l, r)) ks) ls)"
    let ?and = "\<lambda>(l, r). ck h env (CallAnd [Some l, Some r] None False)"
    have "\<exists>y. ?and p = Some y \<and> ?ok y" if p: "p \<in> set ?pairs" for p
    proof -
      obtain l r where lr: "p = (l, r)" "conj_tree late l" "conj_tree late r" using p ls(3) ks(3) by auto
      then have "\<exists>x. ck h env (CallAnd [Some l, Some r] None False) = Some (Some x) \<and> dnf late x"
        by (intro create_some [OF and_create_trees]) auto
      with lr(1) show ?thesis by auto
    qed
    then obtain all' where all': "mapM ?and ?pairs = Some all'" "\<forall>r \<in> set all'. ?ok r" "length all' = length ?pairs"
      using mapM_total [of ?pairs ?and ?ok] by blast
    have "?pairs \<noteq> []" using ls(2) ks(2) by (cases ls; cases ks) auto
    then have "all' \<noteq> []" using all'(3) by (metis length_0_conv)
    then obtain x where x: "ck h env (CallOr all' None False) = Some (Some x)" "dnf late x"
      using or_create_some [of all' late None h env False] all'(2) by auto
    have "or_negate_loop (ck h env) rs = or_negate_loop (ck h env) (Some x # rest)"
      by (simp add: 3 ls(1) ks(1) all'(1) x(1))
    then show ?thesis using less.hyps [of "Some x # rest"] less.prems x(2) by (auto simp: 3)
  qed (use less.prems in auto)
qed

lemma negate_dnf:
  assumes "dnf late e"
  shows "\<exists>x. ck h env (CallNegate e) = Some (Some x) \<and> dnf late x"
  using assms
proof (cases rule: dnf.cases)
  case tree
  then show ?thesis using negate_tree_total [of late e h env] by blast
next
  case (disj es)
  let ?ok = "\<lambda>r. \<exists>x. r = Some x \<and> dnf late x"
  obtain rs where rs: "mapM (\<lambda>e. ck h env (CallNegate e)) es = Some rs" "\<forall>r \<in> set rs. ?ok r" "length rs = length es"
    using mapM_total [of es "\<lambda>e. ck h env (CallNegate e)" ?ok] negate_tree_total [OF disj(3), of _ h env] by blast
  then obtain rs' where rs': "or_negate_loop (ck h env) rs = Some rs'" "\<forall>r \<in> set rs'. ?ok r" "rs' \<noteq> []"
    using or_negate_loop_total [OF rs(2), of h env] disj(2) by (metis length_0_conv)
  then obtain x where "ck h env (CallOr rs' (Some e) True) = Some (Some x)" "dnf late x"
    using or_create_some [OF rs'(3,2), of "Some e" h env True] assms by auto
  then show ?thesis using rs(1) rs'(1) by (auto simp: ck_simps(1) or_negate_def disj(1))
next
  case (disj_negated es n)
  then show ?thesis by (simp add: ck_simps or_negate_def)
qed

end
