(* ===== verification/ContextKeyLaws.thy ===== *)
theory ContextKeyLaws
  imports ContextKeyTotal
begin

text \<open>
  What the operations on context key expressions promise: \<open>negate\<close>, \<open>or\<close> and \<open>and\<close> return, and
  their results have the value of the negation, disjunction and conjunction; \<open>implies\<close> only
  answers true for implications that hold; and the inputs for which these promises fail.
\<close>

section \<open>Comparison and equality\<close>

text \<open>\<open>cmp2\<close> compares the values of \<open>==\<close> and \<open>!=\<close> as numbers unless both are strings.\<close>

fun string_values :: "ContextKeyExpression \<Rightarrow> bool" where
  "string_values (EqualsExpr k v n) = (case v of Str s \<Rightarrow> True | _ \<Rightarrow> False)"
| "string_values (NotEqualsExpr k v n) = (case v of Str s \<Rightarrow> True | _ \<Rightarrow> False)"
| "string_values (AndExpr es n) = (\<forall>e \<in> set es. string_values e)"
| "string_values (OrExpr es n) = (\<forall>e \<in> set es. string_values e)"
| "string_values e = True"

lemma string_values_parts: "string_values e \<Longrightarrow> e' \<in> set (parts e) \<Longrightarrow> string_values e'"
  by (cases e) auto

lemmas cmp_defs = ContextKeyFalseExpr_cmp_def ContextKeyTrueExpr_cmp_def ContextKeyDefinedExpr_cmp_def
  ContextKeyNotExpr_cmp_def ContextKeyEqualsExpr_cmp_def ContextKeyNotEqualsExpr_cmp_def ContextKeyAndExpr_cmp_def
  ContextKeyRegexExpr_cmp_def ContextKeyNotRegexExpr_cmp_def ContextKeyOrExpr_cmp_def ContextKeyInExpr_cmp_def
  ContextKeyNotInExpr_cmp_def ContextKeyGreaterExpr_cmp_def ContextKeyGreaterEqualsExpr_cmp_def
  ContextKeySmallerExpr_cmp_def ContextKeySmallerEqualsExpr_cmp_def

lemma cmp1_0 [simp]: "cmp1 a b = 0 \<longleftrightarrow> a = b"
  by (auto simp: cmp1_def)

lemma cmp2_Str_0 [simp]: "cmp2 h a (Str s) b (Str t) = 0 \<longleftrightarrow> a = b \<and> s = t"
  by (auto simp: cmp2_def)

lemma cmp2_Number_0: "x \<noteq> NaN \<Longrightarrow> y \<noteq> NaN \<Longrightarrow> cmp2 h a (Number x) b (Number y) = 0 \<longleftrightarrow> a = b \<and> x = y"
  by (cases x; cases y) (auto simp: cmp2_def)

lemma regex_cmp_0 [simp]: "regex_cmp a r b s = 0 \<longleftrightarrow> a = b \<and> regexp_source r = regexp_source s"
  by (auto simp: regex_cmp_def Let_def)

lemma arr_cmp_values:
  assumes "\<And>x y. x \<in> set xs \<Longrightarrow> y \<in> set ys \<Longrightarrow> cmp x y = 0 \<Longrightarrow> P x \<longleftrightarrow> P y" "arr_cmp cmp xs ys = 0"
  shows "map P xs = map P ys"
proof -
  have "length xs = length ys" "cmp_arr cmp xs ys = 0" using assms(2) by (auto simp: arr_cmp_def split: if_splits)
  then show ?thesis using assms(1) by (induction cmp xs ys rule: cmp_arr.induct) (auto simp: Let_def split: if_splits)
qed

text \<open>Leaves and nodes that compare as equal have the same value.\<close>

lemma cmp_value:
  "fine h env ctx flags a \<Longrightarrow> fine h env ctx flags b \<Longrightarrow> string_values a \<Longrightarrow> string_values b \<Longrightarrow>
     ContextKeyExpr_cmp h a b = 0 \<Longrightarrow> ContextKeyExpr_evaluate h ctx a \<longleftrightarrow> ContextKeyExpr_evaluate h ctx b"
proof (induction a arbitrary: b rule: measure_induct_rule [of size])
  case (less a)
  have arr: "map (ContextKeyExpr_evaluate h ctx) (parts a) = map (ContextKeyExpr_evaluate h ctx) (parts b)"
    if "arr_cmp (ContextKeyExpr_cmp h) (parts a) (parts b) = 0"
  proof (rule arr_cmp_values [OF _ that])
    fix x y assume "x \<in> set (parts a)" "y \<in> set (parts b)" "ContextKeyExpr_cmp h x y = 0"
    then show "ContextKeyExpr_evaluate h ctx x \<longleftrightarrow> ContextKeyExpr_evaluate h ctx y"
      by (intro less.IH fine_parts [OF less.prems(1)] fine_parts [OF less.prems(2)]
          string_values_parts [OF less.prems(3)] string_values_parts [OF less.prems(4)] size_parts_negated(1))
  qed
  have "(\<forall>e \<in> set xs. P e) \<longleftrightarrow> (\<forall>e \<in> set ys. P e)" "(\<exists>e \<in> set xs. P e) \<longleftrightarrow> (\<exists>e \<in> set ys. P e)"
    if "map P xs = map P ys" for xs ys and P :: "ContextKeyExpression \<Rightarrow> bool"
    using arg_cong [OF that, of set] by (auto simp: set_eq_iff image_iff)
  note lists = this [OF arr]
  show ?case
    using less.prems(3-) fine_leaf [OF less.prems(1)] fine_leaf [OF less.prems(2)] lists
    by (cases a; cases b)
      (auto simp: cmp_defs evaluate_defs numeric_at_def cmp2_Number_0 dest: regexp_fine_source split: js_prim.splits)
qed

section \<open>implies\<close>

lemma allElementsIncluded_values:
  assumes "\<forall>e \<in> set ps \<union> set qs. fine h env ctx flags e \<and> string_values e" "allElementsIncluded h ps qs"
  shows "\<forall>p \<in> set ps. \<exists>q \<in> set qs. ContextKeyExpr_evaluate h ctx p \<longleftrightarrow> ContextKeyExpr_evaluate h ctx q"
  using assms
proof (induction h ps qs rule: allElementsIncluded.induct)
  case (1 h p ps q qs)
  show ?case
  proof (cases "ContextKeyExpr_cmp h p q = 0")
    case True
    with 1 cmp_value [of h env ctx flags p q] show ?thesis by (auto simp: Let_def)
  next
    case False
    with 1 show ?thesis by (auto simp: Let_def split: if_splits)
  qed
qed auto

lemma fine_arr:
  "fine h env ctx flags e \<and> string_values e \<Longrightarrow> or_parts e = Some es \<or> and_parts e = Some es \<Longrightarrow>
     \<forall>e' \<in> set es. fine h env ctx flags e' \<and> string_values e'"
  using fine_parts string_values_parts by (cases e) auto

lemma evaluate_parts:
  "or_parts e = Some es \<Longrightarrow> ContextKeyExpr_evaluate h ctx e \<longleftrightarrow> (\<exists>x \<in> set es. ContextKeyExpr_evaluate h ctx x)"
  "and_parts e = Some es \<Longrightarrow> ContextKeyExpr_evaluate h ctx e \<longleftrightarrow> (\<forall>x \<in> set es. ContextKeyExpr_evaluate h ctx x)"
  by (cases e; auto; fail)+

lemma implies_values:
  "fine h env ctx flags p \<and> string_values p \<Longrightarrow> fine h env ctx flags q \<and> string_values q \<Longrightarrow> implies h p q \<Longrightarrow>
     ContextKeyExpr_evaluate h ctx p \<Longrightarrow> ContextKeyExpr_evaluate h ctx q"
proof (induction h p q rule: implies.induct)
  case (1 h p q)
  note imp = "1.prems"(3) [unfolded implies.simps [of h p q]]
  show ?case
  proof (cases "p = FalseExpr \<or> q = TrueExpr")
    case True
    with "1.prems"(4) show ?thesis by (auto simp: evaluate_defs)
  next
    case plain: False
    consider (or_or) ps qs where "or_parts p = Some ps" "or_parts q = Some qs"
      | (or_right) qs where "or_parts p = None" "or_parts q = Some qs"
      | (and_and) ps qs where "or_parts p = None" "or_parts q = None" "and_parts p = Some ps" "and_parts q = Some qs"
      | (and_leaf) ps where "or_parts p = None" "or_parts q = None" "and_parts p = Some ps" "and_parts q = None"
      | (leaf) "or_parts p = None" "or_parts q = None" "and_parts p = None"
      using imp plain by (cases "or_parts p"; cases "or_parts q"; cases "and_parts p"; cases "and_parts q") auto
    then show ?thesis
    proof cases
      case or_or
      then show ?thesis
        using imp plain "1.prems"(4) allElementsIncluded_values [of ps qs h env ctx flags] fine_arr [OF "1.prems"(1)] fine_arr [OF "1.prems"(2)]
        by (auto simp: evaluate_parts)
    next
      case or_right
      then obtain e where e: "e \<in> set qs" "implies h p e" using imp plain by auto
      with "1.IH"(2) [OF plain or_right e(1)] "1.prems"(1,4) fine_arr [OF "1.prems"(2)] or_right show ?thesis by (auto simp: evaluate_parts(1))
    next
      case and_and
      then show ?thesis
        using imp plain "1.prems"(4) allElementsIncluded_values [of qs ps h env ctx flags] fine_arr [OF "1.prems"(1)] fine_arr [OF "1.prems"(2)]
        by (auto simp: evaluate_parts(2))
    next
      case and_leaf
      then obtain e where e: "e \<in> set ps" "implies h e q" using imp plain by auto
      with "1.IH"(1) [OF plain and_leaf e(1)] "1.prems"(2,4) fine_arr [OF "1.prems"(1)] and_leaf show ?thesis by (auto simp: evaluate_parts(2))
    next
      case leaf
      with imp plain "1.prems" equalsTo_value [of h env ctx flags p q] show ?thesis by auto
    qed
  qed
qed

section \<open>The promises of the operations\<close>

text \<open>An engine and expressions for the examples\<close>

definition sample_host :: js_host where
  "sample_host = \<lparr>host_parseFloat = (\<lambda>s. NaN), host_toNumber = (\<lambda>s. NaN), host_numberToString = (\<lambda>n. js ''1''),
     host_objectToString = (\<lambda>v. js ''[object Object]''), host_regexpTest = (\<lambda>r s. re_source r = s)\<rparr>"

definition sample_context :: IContext where
  "sample_context k = Prim (if k = js ''a'' then Str (js ''x'') else Undefined)"

abbreviation "sample_a \<equiv> DefinedExpr (js ''a'') None"
abbreviation "sample_b \<equiv> NotExpr (js ''b'') None"
abbreviation "sample_x \<equiv> EqualsExpr (js ''a'') (Str (js ''x'')) None"
abbreviation "sample_in \<equiv> InExpr (js ''a'') (js ''c'')"

lemma sample_fine [simp]:
  "fine sample_host Map.empty sample_context flags sample_a" "fine sample_host Map.empty sample_context flags sample_b"
  "fine sample_host Map.empty sample_context flags sample_x" "fine sample_host Map.empty sample_context flags sample_in"
  by (auto simp: agrees_def intro: fine_leafI)

lemma sample_fine_lists [simp]:
  "fine sample_host Map.empty sample_context flags (OrExpr es None) \<longleftrightarrow> es \<noteq> [] \<and> (\<forall>e \<in> set es. fine sample_host Map.empty sample_context flags e)"
  "fine sample_host Map.empty sample_context flags (AndExpr es None) \<longleftrightarrow> es \<noteq> [] \<and> (\<forall>e \<in> set es. fine sample_host Map.empty sample_context flags e)"
  by (auto simp: ck_semantics.fine_Or ck_semantics.fine_And)

lemma sample_lit [simp]: "lit late sample_a" "lit late sample_b" "lit late sample_x" "lit True sample_in"
  by (auto intro: lit.plain)

lemma sample_tree [simp]:
  "conj_tree late sample_a" "conj_tree late sample_b" "conj_tree late sample_x" "conj_tree True sample_in"
  by (auto intro: conj_tree.leaf)

lemma sample_evaluate [simp]:
  "ContextKeyDefinedExpr_evaluate sample_context (js ''a'')" "ContextKeyNotExpr_evaluate sample_context (js ''b'')"
  "ContextKeyEqualsExpr_evaluate sample_host sample_context (js ''a'') (Str (js ''x''))"
  "\<not> ContextKeyInExpr_evaluate sample_context (js ''a'') (js ''c'')"
  by (simp_all add: evaluate_defs sample_context_def js_def)

lemma sample_dnf [simp]:
  "es \<noteq> [] \<Longrightarrow> \<forall>e \<in> set es. conj_tree late e \<Longrightarrow> dnf late (OrExpr es None)"
  "es \<noteq> [] \<Longrightarrow> \<forall>e \<in> set es. conj_tree late e \<Longrightarrow> dnf late (AndExpr es None)"
  "dnf late sample_b" "dnf True sample_in"
  by (auto intro: dnf.disj dnf.tree conj_tree.node)

text \<open>
  C1: \<open>negate\<close> of an expression in disjunctive normal form, with leaves of any type, returns an
  expression in disjunctive normal form that evaluates to the negation, in every context in
  which the expression is fine.
\<close>

theorem ContextKeyExpr_negate_correct:
  assumes "dnf True e" "fine h env ctx flags e"
  shows "\<exists>x. ContextKeyExpr_negate h env e = Some (Some x) \<and> dnf True x \<and>
    (ContextKeyExpr_evaluate h ctx x \<longleftrightarrow> \<not> ContextKeyExpr_evaluate h ctx e)"
proof -
  obtain x where x: "ck h env (CallNegate e) = Some (Some x)" "dnf True x" using negate_dnf [OF assms(1), of h env] by blast
  with ck_semantics.meets_negate [OF ck_semantics.ck_meets [OF x(1)] assms(2)] show ?thesis
    by (auto simp: ContextKeyExpr_negate_def)
qed

theorem ContextKeyExpr_negate_correct_witness:
  "\<exists>x. ContextKeyExpr_negate sample_host Map.empty (OrExpr [sample_in, AndExpr [sample_a, sample_b] None] None) = Some (Some x) \<and>
     dnf True x \<and> \<not> ContextKeyExpr_evaluate sample_host sample_context x"
  using ContextKeyExpr_negate_correct [of "OrExpr [sample_in, AndExpr [sample_a, sample_b] None] None" sample_host Map.empty
      sample_context "\<lambda>s. []"]
  by (simp add: conj_tree_And_iff)

text \<open>
  C24: \<open>ContextKeyExpr.or\<close> of expressions in disjunctive normal form, not all \<open>undefined\<close>, returns
  an expression in disjunctive normal form that evaluates to their disjunction, in every context
  in which all of them are fine: a key that is registered as a constant has the value of the constant in the context and is not
  compared with \<open>==\<close> or \<open>!=\<close>; nothing is compared with a Boolean by \<open>==\<close> or \<open>!=\<close>; what \<open><\<close>, \<open><=\<close>, \<open>>\<close> and \<open>>=\<close> compare is a
  number on both sides; regular expressions are not empty and those with the same source have the same flags; no conjunction or disjunction is empty; and what a
  \<open>negated\<close> field holds is fine and evaluates to the negation.
\<close>

theorem ContextKeyExpr_or_correct:
  assumes "\<And>e. Some e \<in> set arr \<Longrightarrow> dnf True e \<and> fine h env ctx flags e" "\<not> set arr \<subseteq> {None}"
  shows "\<exists>x. ContextKeyExpr_or h env arr = Some (Some x) \<and> dnf True x \<and>
    (ContextKeyExpr_evaluate h ctx x \<longleftrightarrow> (\<exists>e. Some e \<in> set arr \<and> ContextKeyExpr_evaluate h ctx e))"
proof -
  obtain x where x: "ck h env (CallOr arr None True) = Some (Some x)" "dnf True x"
    using create_some [OF or_create_dnf assms(2)] assms(1) by blast
  have "all_of (fine h env ctx flags) arr" using assms(1) by (auto simp: all_of_def)
  with ck_semantics.ck_meets [OF x(1), of ctx flags] x show ?thesis
    by (auto simp: ContextKeyExpr_or_def ContextKeyOrExpr_create_def ck_semantics.meets_def some_of_def)
qed

theorem ContextKeyExpr_or_correct_witness:
  "\<exists>x. ContextKeyExpr_or sample_host Map.empty [Some sample_in, None, Some (AndExpr [sample_a, sample_b] None)] = Some (Some x) \<and>
     dnf True x \<and> ContextKeyExpr_evaluate sample_host sample_context x"
proof -
  let ?arr = "[Some sample_in, None, Some (AndExpr [sample_a, sample_b] None)]"
  have "dnf True e \<and> fine sample_host Map.empty sample_context (\<lambda>s. []) e" if "Some e \<in> set ?arr" for e
    using that by auto
  then have "\<exists>x. ContextKeyExpr_or sample_host Map.empty ?arr = Some (Some x) \<and> dnf True x \<and>
      (ContextKeyExpr_evaluate sample_host sample_context x \<longleftrightarrow> (\<exists>e. Some e \<in> set ?arr \<and> ContextKeyExpr_evaluate sample_host sample_context e))"
    by (intro ContextKeyExpr_or_correct) auto
  then show ?thesis by auto
qed

text \<open>
  C2: \<open>ContextKeyExpr.and\<close> of expressions in disjunctive normal form without a leaf that sorts
  behind \<open>Or\<close> (\<open>in\<close>, \<open>not in\<close>, \<open><\<close>, \<open><=\<close>, \<open>>\<close>, \<open>>=\<close>), not all \<open>undefined\<close>, returns an expression in
  disjunctive normal form that evaluates to their conjunction, in every context
  in which all of them are fine: a key that is registered as a constant has the value of the constant in the context and is not
  compared with \<open>==\<close> or \<open>!=\<close>; nothing is compared with a Boolean by \<open>==\<close> or \<open>!=\<close>; what \<open><\<close>, \<open><=\<close>, \<open>>\<close> and \<open>>=\<close> compare is a
  number on both sides; regular expressions are not empty and those with the same source have the same flags; no conjunction or disjunction is empty; and what a
  \<open>negated\<close> field holds is fine and evaluates to the negation.
\<close>

theorem ContextKeyExpr_and_correct:
  assumes "\<And>e. Some e \<in> set arr \<Longrightarrow> dnf False e \<and> fine h env ctx flags e" "\<not> set arr \<subseteq> {None}"
  shows "\<exists>x. ContextKeyExpr_and h env arr = Some (Some x) \<and> dnf False x \<and>
    (ContextKeyExpr_evaluate h ctx x \<longleftrightarrow> (\<forall>e. Some e \<in> set arr \<longrightarrow> ContextKeyExpr_evaluate h ctx e))"
proof -
  obtain x where x: "ck h env (CallAnd arr None True) = Some (Some x)" "dnf False x"
    using create_some [OF and_create_dnf assms(2)] assms(1) by blast
  have "all_of (fine h env ctx flags) arr" using assms(1) by (auto simp: all_of_def)
  with ck_semantics.ck_meets [OF x(1), of ctx flags] x show ?thesis
    by (auto simp: ContextKeyExpr_and_def ContextKeyAndExpr_create_def ck_semantics.meets_def all_of_def)
qed

theorem ContextKeyExpr_and_correct_witness:
  "\<exists>x. ContextKeyExpr_and sample_host Map.empty [Some sample_b, None, Some (OrExpr [sample_a, sample_x] None)] = Some (Some x) \<and>
     dnf False x \<and> ContextKeyExpr_evaluate sample_host sample_context x"
proof -
  let ?arr = "[Some sample_b, None, Some (OrExpr [sample_a, sample_x] None)]"
  have "dnf False e \<and> fine sample_host Map.empty sample_context (\<lambda>s. []) e" if "Some e \<in> set ?arr" for e
    using that by auto
  then have "\<exists>x. ContextKeyExpr_and sample_host Map.empty ?arr = Some (Some x) \<and> dnf False x \<and>
      (ContextKeyExpr_evaluate sample_host sample_context x \<longleftrightarrow> (\<forall>e. Some e \<in> set ?arr \<longrightarrow> ContextKeyExpr_evaluate sample_host sample_context e))"
    by (intro ContextKeyExpr_and_correct) auto
  then show ?thesis by auto
qed

text \<open>
  C23: \<open>implies(p, q)\<close> only answers true when every context that satisfies \<open>p\<close> satisfies \<open>q\<close>, for
  fine expressions that compare keys with strings.
\<close>

theorem implies_sound:
  assumes "implies h p q" "fine h env ctx flags p" "fine h env ctx flags q" "string_values p" "string_values q"
    "ContextKeyExpr_evaluate h ctx p"
  shows "ContextKeyExpr_evaluate h ctx q"
  using implies_values assms by blast

theorem implies_sound_witness:
  "implies sample_host (AndExpr [sample_a, sample_x] None) (OrExpr [sample_b, sample_x] None) \<and>
   ContextKeyExpr_evaluate sample_host sample_context (OrExpr [sample_b, sample_x] None)"
proof
  show imp: "implies sample_host (AndExpr [sample_a, sample_x] None) (OrExpr [sample_b, sample_x] None)"
    by (subst implies.simps, simp, subst implies.simps, simp, subst implies.simps, simp add: equals_defs)
  show "ContextKeyExpr_evaluate sample_host sample_context (OrExpr [sample_b, sample_x] None)"
    by (rule implies_sound [OF imp, of Map.empty sample_context "\<lambda>s. []"]) simp_all
qed

text \<open>
  C40: A comparison with a number and its negation are both false in a context whose value is not
  a number, and \<open>or\<close> of the two is \<open>true\<close> all the same.
\<close>

theorem negated_comparison_not_a_number:
  assumes "n \<noteq> NaN" "host_parseFloat h (value_to_string h (ctx k)) = NaN"
  shows "\<exists>x. ContextKeyExpr_negate h env (GreaterExpr k (Number n) None) = Some (Some x) \<and>
    \<not> ContextKeyExpr_evaluate h ctx (GreaterExpr k (Number n) None) \<and> \<not> ContextKeyExpr_evaluate h ctx x \<and>
    ContextKeyExpr_or h env [Some (GreaterExpr k (Number n) None), Some x] = Some (Some TrueExpr)"
proof -
  let ?g = "GreaterExpr k (Number n) None" and ?s = "SmallerEqualsExpr k (Number n) (Some (GreaterExpr k (Number n) None))"
  have neg: "ck h env (CallNegate ?g) = Some (Some ?s)" by (simp add: ck_simps negate_defs create_defs Let_def)
  have "ContextKeyExpr_cmp h ?g ?s < 0" by (simp add: cmp_defs)
  then have "expr_sort h [?g, ?s] = [?g, ?s]" by (simp add: expr_sort_def)
  moreover have "dedupe [?g, ?s] = [?g, ?s]" by (simp add: equals_defs)
  moreover have "negated_pair (ck h env) [?g, ?s] = Some True" using assms(1) by (simp add: neg equals_defs number_eq_def)
  ultimately have "ContextKeyExpr_or h env [Some ?g, Some ?s] = Some (Some TrueExpr)"
    by (simp add: ContextKeyExpr_or_def ContextKeyOrExpr_create_def ck_simps(3) or_normalizeArr_def Let_def)
  moreover have "\<not> number_less n NaN" by (cases n) simp_all
  ultimately show ?thesis using neg assms(2)
    by (auto simp: ContextKeyExpr_negate_def evaluate_defs number_le_def number_eq_def Let_def)
qed

theorem negated_comparison_not_a_number_witness:
  "\<exists>x. ContextKeyExpr_negate sample_host Map.empty (GreaterExpr (js ''a'') (Number (Finite 5)) None) = Some (Some x) \<and>
     \<not> ContextKeyExpr_evaluate sample_host sample_context (GreaterExpr (js ''a'') (Number (Finite 5)) None) \<and>
     \<not> ContextKeyExpr_evaluate sample_host sample_context x \<and>
     ContextKeyExpr_or sample_host Map.empty [Some (GreaterExpr (js ''a'') (Number (Finite 5)) None), Some x] = Some (Some TrueExpr)"
  by (rule negated_comparison_not_a_number) (simp_all add: sample_host_def)

text \<open>
  \<open>and\<close> does not distribute a disjunction over a leaf that sorts behind \<open>Or\<close>, and the
  serialization of the result has no parentheses, so it reads as another expression.
\<close>

theorem and_late_leaf_serialized:
  "\<exists>x. ContextKeyExpr_and h Map.empty [Some (OrExpr [DefinedExpr (js ''a'') None, DefinedExpr (js ''b'') None] None),
      Some (InExpr c d)] = Some (Some x) \<and>
    ContextKeyExpr_serialize h x = js ''a || b && '' @ c @ js '' in '' @ [0x27] @ d @ [0x27]"
proof -
  let ?a = "DefinedExpr (js ''a'') None" and ?b = "DefinedExpr (js ''b'') None"
  let ?or = "OrExpr [?a, ?b] None" and ?in = "InExpr c d"
  let ?na = "NotExpr (js ''a'') (Some ?a)" and ?nb = "NotExpr (js ''b'') (Some ?b)"
  have ab: "js ''a'' < js ''b''" by (simp add: js_def)
  have "expr_sort h [?na, ?nb] = [?na, ?nb]" using ab by (simp add: expr_sort_def cmp_defs cmp1_def)
  moreover have "dedupe [?na, ?nb] = [?na, ?nb]" using ab by (simp add: equals_defs)
  moreover have "distribute h (ck h Map.empty) False [?na, ?nb] = Some [?na, ?nb]" by (simp add: distribute_done)
  ultimately have "ck h Map.empty (CallAnd [Some ?na, Some ?nb] None False) = Some (Some (AndExpr [?na, ?nb] None))"
    by (simp add: ck_simps(2) and_normalizeArr_def Let_def)
  moreover have "ck h Map.empty (CallNegate ?a) = Some (Some ?na)" "ck h Map.empty (CallNegate ?b) = Some (Some ?nb)"
    by (simp_all add: ck_simps(1) negate_defs create_defs)
  moreover have "ck h Map.empty (CallOr [Some (AndExpr es None)] n ex) = Some (Some (AndExpr es None))" for es n ex
    by (simp add: ck_simps(3) or_normalizeArr_def expr_sort_def)
  ultimately have "ck h Map.empty (CallNegate ?or) = Some (Some (AndExpr [?na, ?nb] None))"
    by (simp add: ck_simps(1) or_negate_def getTerminals_def)
  then have "negated_pair (ck h Map.empty) [?or, ?in] = Some False" by (simp add: equals_defs)
  moreover have "expr_sort h [?or, ?in] = [?or, ?in]" by (simp add: expr_sort_def cmp_defs)
  moreover have "dedupe [?or, ?in] = [?or, ?in]" by (simp add: equals_defs)
  moreover have "distribute h (ck h Map.empty) True [?or, ?in] = Some [?or, ?in]" by (simp add: distribute_done)
  ultimately have "ContextKeyExpr_and h Map.empty [Some ?or, Some ?in] = Some (Some (AndExpr [?or, ?in] None))"
    by (simp add: ContextKeyExpr_and_def ContextKeyAndExpr_create_def ck_simps(2) and_normalizeArr_def Let_def)
  then show ?thesis
    by (simp add: ContextKeyAndExpr_serialize_def ContextKeyOrExpr_serialize_def ContextKeyDefinedExpr_serialize_def
        ContextKeyInExpr_serialize_def js_def)
qed

end
