(* ===== verification/ContextKeyParsing.thy ===== *)
theory ContextKeyParsing
  imports ContextKeyParser ContextKeyLaws
begin

text \<open>
  Parsing functions only move forward in the tokens, and more fuel than what \<open>parse\<close> starts
  with does not change the result.
\<close>

section \<open>Parsing functions only move forward\<close>

definition steady :: "'a parsing \<Rightarrow> bool" where
  "steady m \<longleftrightarrow> (\<forall>st st' r. m st = Some (st', r) \<longrightarrow>
     ps_tokens st' = ps_tokens st \<and> ps_current st \<le> ps_current st' \<and> ps_scanner st' = ps_scanner st)"

lemma steadyD:
  "steady m \<Longrightarrow> m st = Some (st', r) \<Longrightarrow>
   ps_tokens st' = ps_tokens st \<and> ps_current st \<le> ps_current st' \<and> ps_scanner st' = ps_scanner st"
  by (auto simp: steady_def)

lemma steady_bind [simp]: "steady m \<Longrightarrow> (\<And>a. steady (f a)) \<Longrightarrow> steady (p_bind m f)"
  unfolding steady_def p_bind_def
  by (fastforce split: option.splits prod.splits sum.splits intro: order_trans)

lemma steady_basic [simp]:
  "steady (p_return a)" "steady p_throw" "steady (p_lift r)" "steady (\<lambda>st. None)" "steady (pushError e)"
  by (auto simp: steady_def p_return_def p_throw_def p_lift_def pushError_def)

lemma steady_if [simp]: "(b \<Longrightarrow> steady m) \<Longrightarrow> (\<not> b \<Longrightarrow> steady m') \<Longrightarrow> steady (if b then m else m')"
  by simp

lemma steady_peek [simp]: "steady Parser_peek" "steady Parser_previous"
  by (auto simp: steady_def Parser_peek_def Parser_previous_def p_lift_def)

lemma steady_isAtEnd [simp]: "steady Parser_isAtEnd"
  by (simp add: Parser_isAtEnd_def)

lemma steady_advance [simp]: "steady Parser_advance"
  unfolding Parser_advance_def by (rule steady_bind [OF steady_isAtEnd]) (auto simp: steady_def)

lemma steady_check [simp]: "steady (Parser_check ty)" "steady (Parser_errExpectedButGot c s t)"
  by (simp_all add: Parser_check_def Parser_errExpectedButGot_def Let_def)

lemma steady_tokens [simp]: "steady (Parser_matchOne ty)" "steady (Parser_consume c ty s)" "steady (advance_return a)" "steady (negate_opt c e)"
  by (simp_all add: Parser_matchOne_def Parser_consume_def advance_return_def negate_opt_def)

lemma steady_value [simp]: "steady Parser_value"
  by (simp add: Parser_value_def split: TokenType.split)

lemma steady_reconstruct [simp]: "steady (regex_reconstruct s n b acc)"
  by (induction n arbitrary: b acc) (simp_all add: Let_def)

lemma steady_read_state: "(\<And>n. steady (g n)) \<Longrightarrow> steady (\<lambda>st. g (f st) st)"
  by (simp add: steady_def)

lemma steady_create_regex [simp]: "steady (create_regex c k e l)" "steady (quoted_regex c k e l)"
  by (auto simp: create_regex_def quoted_regex_def Let_def split: option.split)

lemma steady_reconstruct_regex [simp]:
  "steady (\<lambda>st. p_bind (regex_reconstruct l (Suc (length (ps_tokens st))) b a) (create_regex c k e) st)"
  by (rule steady_read_state) simp

lemma steady_primary_regex [simp]: "steady (primary_regex c k)"
  unfolding primary_regex_def Let_def by (intro steady_bind steady_if steady_peek)
    (simp_all split: TokenType.split del: regex_reconstruct.simps)

lemma steady_primary_key [simp]: "steady (primary_key c k)"
proof -
  have "steady (primary_equals c k)" "steady (primary_notEquals c k)"
    by (simp_all add: primary_equals_def primary_notEquals_def)
  then show ?thesis by (simp add: primary_key_def Let_def split: TokenType.split)
qed

lemma steady_grammar:
  "steady (Parser_expr c n) \<and> steady (Parser_or c n) \<and> (\<forall>es. steady (or_loop c n es)) \<and> steady (Parser_and c n) \<and>
   (\<forall>es. steady (and_loop c n es)) \<and> steady (Parser_term c n) \<and> steady (Parser_primary c n)"
proof (induction n)
  case (Suc n)
  then show ?case by (simp split: TokenType.split)
qed simp

declare Parser_expr.simps [simp del] Parser_or.simps [simp del] or_loop.simps [simp del] Parser_and.simps [simp del]
  and_loop.simps [simp del] Parser_term.simps [simp del] Parser_primary.simps [simp del]

section \<open>Fuel\<close>

definition remaining :: "Parser \<Rightarrow> nat" where
  "remaining st = length (ps_tokens st) - ps_current st"

lemma p_bind_cong:
  assumes "m st = m' st" "\<And>a st'. m' st = Some (st', Inr a) \<Longrightarrow> f a st' = f' a st'"
  shows "p_bind m f st = p_bind m' f' st"
  using assms by (auto simp: p_bind_def split: option.split prod.split sum.split)

lemma remaining_steady: "steady m \<Longrightarrow> m st = Some (st', r) \<Longrightarrow> remaining st' \<le> remaining st"
  using steadyD [of m st st' r] by (simp add: remaining_def diff_le_mono2)

lemma bind_fuel:
  assumes "steady m" "m' st = m st" "\<And>a st'. remaining st' \<le> remaining st \<Longrightarrow> f' a st' = f a st'"
  shows "p_bind m' f' st = p_bind m f st"
  using assms remaining_steady [OF assms(1)] by (intro p_bind_cong) auto

lemma advance_result:
  "Parser_advance st = Some (st', r) \<Longrightarrow> Parser_peek st = Some (st, Inr t) \<Longrightarrow> tok_type t \<noteq> EOF \<Longrightarrow>
     remaining st' < remaining st"
  by (auto simp: Parser_advance_def Parser_isAtEnd_def p_bind_def p_return_def Parser_peek_def p_lift_def remaining_def
      split: if_splits)

lemma peek_result: "Parser_peek st = Some (st', r) \<Longrightarrow> st' = st \<and> (\<exists>t. r = Inr t)"
  by (auto simp: Parser_peek_def p_lift_def)

lemma peek_cong:
  assumes "\<And>t. Parser_peek st = Some (st, Inr t) \<Longrightarrow> f t st = g t st"
  shows "p_bind Parser_peek f st = p_bind Parser_peek g st"
proof (rule p_bind_cong [OF refl])
  fix t st' assume "Parser_peek st = Some (st', Inr t)"
  with peek_result [OF this] assms show "f t st' = g t st'" by auto
qed

lemma matchOne_result:
  assumes "Parser_matchOne ty st = Some (st', Inr True)" "ty \<noteq> EOF"
  shows "remaining st' < remaining st"
proof -
  obtain t where t: "Parser_peek st = Some (st, Inr t)" "tok_type t = ty"
    using assms(1) by (auto simp: Parser_matchOne_def Parser_check_def p_bind_def p_return_def split: option.splits sum.splits if_splits dest: peek_result)
  with assms show ?thesis
    using advance_result [OF _ t(1)]
    by (auto simp: Parser_matchOne_def Parser_check_def p_bind_def p_return_def split: option.splits sum.splits)
qed

lemma paren_fuel:
  assumes "\<And>st. n \<ge> 6 * remaining st + 6 \<Longrightarrow> Parser_expr c (Suc n) st = Parser_expr c n st"
    and "n \<ge> 6 * remaining st + 1" "Parser_peek st = Some (st, Inr t)" "tok_type t = LParen"
  shows "p_bind Parser_advance (\<lambda>_. p_bind (Parser_expr c (Suc n)) f) st = p_bind Parser_advance (\<lambda>_. p_bind (Parser_expr c n) f) st"
proof (rule p_bind_cong [OF refl])
  fix a st' assume "Parser_advance st = Some (st', Inr a)"
  then have "remaining st' < remaining st" using advance_result [OF _ assms(3)] assms(4) by simp
  with assms(2) have "Parser_expr c (Suc n) st' = Parser_expr c n st'" by (intro assms(1)) simp
  then show "p_bind (Parser_expr c (Suc n)) f st' = p_bind (Parser_expr c n) f st'" by (intro p_bind_cong) auto
qed

lemma fuel_step:
  "(\<forall>st. n \<ge> 6 * remaining st + 6 \<longrightarrow> Parser_expr c (Suc n) st = Parser_expr c n st) \<and>
   (\<forall>st. n \<ge> 6 * remaining st + 5 \<longrightarrow> Parser_or c (Suc n) st = Parser_or c n st) \<and>
   (\<forall>st es. n \<ge> 6 * remaining st + 3 \<longrightarrow> or_loop c (Suc n) es st = or_loop c n es st) \<and>
   (\<forall>st. n \<ge> 6 * remaining st + 4 \<longrightarrow> Parser_and c (Suc n) st = Parser_and c n st) \<and>
   (\<forall>st es. n \<ge> 6 * remaining st + 3 \<longrightarrow> and_loop c (Suc n) es st = and_loop c n es st) \<and>
   (\<forall>st. n \<ge> 6 * remaining st + 3 \<longrightarrow> Parser_term c (Suc n) st = Parser_term c n st) \<and>
   (\<forall>st. n \<ge> 6 * remaining st + 2 \<longrightarrow> Parser_primary c (Suc n) st = Parser_primary c n st)"
proof (induction n)
  case (Suc n)
  note steady = steady_grammar [of c n]
  have expr: "n \<ge> 6 * remaining st + 6 \<Longrightarrow> Parser_expr c (Suc n) st = Parser_expr c n st"
    and or: "n \<ge> 6 * remaining st + 5 \<Longrightarrow> Parser_or c (Suc n) st = Parser_or c n st"
    and or_loop: "n \<ge> 6 * remaining st + 3 \<Longrightarrow> or_loop c (Suc n) es st = or_loop c n es st"
    and "and": "n \<ge> 6 * remaining st + 4 \<Longrightarrow> Parser_and c (Suc n) st = Parser_and c n st"
    and and_loop: "n \<ge> 6 * remaining st + 3 \<Longrightarrow> and_loop c (Suc n) es st = and_loop c n es st"
    and "term": "n \<ge> 6 * remaining st + 3 \<Longrightarrow> Parser_term c (Suc n) st = Parser_term c n st"
    and primary: "n \<ge> 6 * remaining st + 2 \<Longrightarrow> Parser_primary c (Suc n) st = Parser_primary c n st" for st es
    using Suc.IH by blast+
  have match: "p_bind (Parser_matchOne ty) f st = p_bind (Parser_matchOne ty) g st"
    if "ty \<noteq> EOF" "\<And>st'. remaining st' < remaining st \<Longrightarrow> f True st' = g True st'" "\<And>st'. remaining st' \<le> remaining st \<Longrightarrow> f False st' = g False st'"
    for ty f g and st :: Parser
    using that matchOne_result [OF _ that(1)] remaining_steady [OF steady_tokens(1)]
    by (intro p_bind_cong [OF refl]) (case_tac a; simp)
  have "Parser_expr c (Suc (Suc n)) st = Parser_expr c (Suc n) st" if "Suc n \<ge> 6 * remaining st + 6" for st
    unfolding Parser_expr.simps using that by (intro or) simp
  moreover have "Parser_or c (Suc (Suc n)) st = Parser_or c (Suc n) st" if "Suc n \<ge> 6 * remaining st + 5" for st
    unfolding Parser_or.simps using that steady by (intro bind_fuel "and" or_loop) auto
  moreover have "or_loop c (Suc (Suc n)) es st = or_loop c (Suc n) es st" if "Suc n \<ge> 6 * remaining st + 3" for st es
    unfolding or_loop.simps(1) [of c n es] or_loop.simps(1) [of c "Suc n" es]
  proof (rule match)
    fix st' :: Parser assume "remaining st' < remaining st"
    with that steady show "(if True then p_bind (Parser_and c (Suc n)) (\<lambda>right. or_loop c (Suc n) (es @ [right])) else if length es = 1
          then p_return (hd es) else p_lift (ContextKeyExpr_or (ph_js c) (ph_constants c) es)) st' =
        (if True then p_bind (Parser_and c n) (\<lambda>right. or_loop c n (es @ [right])) else if length es = 1
          then p_return (hd es) else p_lift (ContextKeyExpr_or (ph_js c) (ph_constants c) es)) st'"
      by (simp only: if_True, intro bind_fuel "and" or_loop) auto
  qed simp_all
  moreover have "Parser_and c (Suc (Suc n)) st = Parser_and c (Suc n) st" if "Suc n \<ge> 6 * remaining st + 4" for st
    unfolding Parser_and.simps using that steady by (intro bind_fuel "term" and_loop) auto
  moreover have "and_loop c (Suc (Suc n)) es st = and_loop c (Suc n) es st" if "Suc n \<ge> 6 * remaining st + 3" for st es
    unfolding and_loop.simps(1) [of c n es] and_loop.simps(1) [of c "Suc n" es]
  proof (rule match)
    fix st' :: Parser assume "remaining st' < remaining st"
    with that steady show "(if True then p_bind (Parser_term c (Suc n)) (\<lambda>right. and_loop c (Suc n) (es @ [right])) else if length es = 1
          then p_return (hd es) else p_lift (ContextKeyExpr_and (ph_js c) (ph_constants c) es)) st' =
        (if True then p_bind (Parser_term c n) (\<lambda>right. and_loop c n (es @ [right])) else if length es = 1
          then p_return (hd es) else p_lift (ContextKeyExpr_and (ph_js c) (ph_constants c) es)) st'"
      by (simp only: if_True, intro bind_fuel "term" and_loop) auto
  qed simp_all
  moreover have "Parser_term c (Suc (Suc n)) st = Parser_term c (Suc n) st" if "Suc n \<ge> 6 * remaining st + 3" for st
    unfolding Parser_term.simps
  proof (rule match)
    fix st' :: Parser assume le: "remaining st' \<le> remaining st"
    then show "(if False then x else Parser_primary c (Suc n)) st' = (if False then y else Parser_primary c n) st'" for x y
      using primary [of st'] that by simp
  next
    fix st' :: Parser assume "remaining st' < remaining st"
    with that show "(if True then p_bind Parser_peek (\<lambda>peek. case tok_type peek of
           TrueTok \<Rightarrow> advance_return (Some FalseExpr)
         | FalseTok \<Rightarrow> advance_return (Some TrueExpr)
         | LParen \<Rightarrow> p_bind Parser_advance (\<lambda>_. p_bind (Parser_expr c (Suc n)) (\<lambda>expr.
             p_bind (Parser_consume c RParen (errorClosingParenthesis c)) (\<lambda>_. negate_opt c expr)))
         | StrTok lexeme \<Rightarrow> advance_return (Some (ContextKeyNotExpr_create (ph_constants c) lexeme None))
         | _ \<Rightarrow> Parser_errExpectedButGot c expected_negated peek) else x) st' =
       (if True then p_bind Parser_peek (\<lambda>peek. case tok_type peek of
           TrueTok \<Rightarrow> advance_return (Some FalseExpr)
         | FalseTok \<Rightarrow> advance_return (Some TrueExpr)
         | LParen \<Rightarrow> p_bind Parser_advance (\<lambda>_. p_bind (Parser_expr c n) (\<lambda>expr.
             p_bind (Parser_consume c RParen (errorClosingParenthesis c)) (\<lambda>_. negate_opt c expr)))
         | StrTok lexeme \<Rightarrow> advance_return (Some (ContextKeyNotExpr_create (ph_constants c) lexeme None))
         | _ \<Rightarrow> Parser_errExpectedButGot c expected_negated peek) else y) st'" for x y
      by (simp only: if_True, intro peek_cong)
        (auto split: TokenType.split intro!: paren_fuel [OF expr])
  qed simp
  moreover have "Parser_primary c (Suc (Suc n)) st = Parser_primary c (Suc n) st" if "Suc n \<ge> 6 * remaining st + 2" for st
    unfolding Parser_primary.simps using that
    by (intro peek_cong) (auto split: TokenType.split intro!: paren_fuel [OF expr])
  ultimately show ?case by blast
qed simp

text \<open>With any larger fuel the result for the same tokens is the same.\<close>

lemma parse_tokens_fuel:
  assumes "parse_fuel (length (ps_tokens st)) \<le> n"
  shows "parse_tokens c n st = parse_tokens c (parse_fuel (length (ps_tokens st))) st"
proof -
  have "Parser_expr c n st = Parser_expr c (parse_fuel (length (ps_tokens st))) st"
    using assms
  proof (induction n rule: dec_induct)
    case (step n)
    then have "n \<ge> 6 * remaining st + 6" by (simp add: parse_fuel_def remaining_def)
    with step fuel_step [of n c] show ?case by simp
  qed simp
  then show ?thesis unfolding parse_tokens_def by (intro p_bind_cong) auto
qed

definition sample_scan :: scan_host where
  "sample_scan = \<lparr>sh_localize = (\<lambda>k t args. t), sh_letter = (\<lambda>p. False)\<rparr>"

definition sample_parser :: parser_host where
  "sample_parser = \<lparr>ph_recovery = False, ph_constants = Map.empty, ph_js = sample_host, ph_scan = sample_scan,
     ph_newRegExp = (\<lambda>s f. Some (RegExp s (case f of None \<Rightarrow> [] | Some f \<Rightarrow> f)))\<rparr>"

end
