(* ===== verification/ContextKeyParserTotal.thy ===== *)
theory ContextKeyParserTotal
  imports ContextKeyParsing
begin

text \<open>
  The parser of context key expressions returns: for the tokens of every text, with the restriction
  that the text has no parentheses or none of the operators whose expressions sort behind \<open>Or\<close>, it
  returns an expression in disjunctive normal form, or it records one error.
\<close>

section \<open>The parser returns\<close>

text \<open>
  Token lists for which the constructors of the expressions are known to return: without parentheses (\<open>flat\<close>), or without the operators whose
  expressions sort behind \<open>Or\<close>. The last token is \<open>EOF\<close>, and the parser is in front of or at it.
\<close>

definition parsable :: "bool \<Rightarrow> Token list \<Rightarrow> bool" where
  "parsable flat toks \<longleftrightarrow> toks \<noteq> [] \<and> tok_type (last toks) = EOF \<and>
     (\<forall>t \<in> set toks. if flat then tok_type t \<noteq> LParen else tok_type t \<notin> {InTok, NotTok, Lt, LtEq, Gt, GtEq})"

definition safe :: "bool \<Rightarrow> Parser \<Rightarrow> bool" where
  "safe flat st \<longleftrightarrow> parsable flat (ps_tokens st) \<and> ps_current st < length (ps_tokens st)"

abbreviation cur_token :: "Parser \<Rightarrow> Token" where
  "cur_token st \<equiv> ps_tokens st ! ps_current st"

text \<open>A parsing function returns: with a value, or by throwing after it has recorded one error\<close>

definition outcome :: "Parser \<Rightarrow> Parser \<Rightarrow> unit + 'a \<Rightarrow> ('a \<Rightarrow> bool) \<Rightarrow> bool" where
  "outcome st st' r P = (case r of Inl _ \<Rightarrow> \<exists>e. ps_parsingErrors st' = ps_parsingErrors st @ [e]
     | Inr a \<Rightarrow> ps_parsingErrors st' = ps_parsingErrors st \<and> P a)"

definition goes :: "bool \<Rightarrow> Parser \<Rightarrow> 'a parsing \<Rightarrow> ('a \<Rightarrow> bool) \<Rightarrow> bool" where
  "goes flat st m P \<longleftrightarrow> (\<exists>st' r. m st = Some (st', r) \<and> safe flat st' \<and> ps_tokens st' = ps_tokens st \<and>
     ps_current st \<le> ps_current st' \<and> outcome st st' r P)"

lemma goes_return: "safe flat st \<Longrightarrow> P a \<Longrightarrow> goes flat st (p_return a) P"
  by (simp add: goes_def p_return_def outcome_def)

lemma goes_lift: "safe flat st \<Longrightarrow> r = Some a \<Longrightarrow> P a \<Longrightarrow> goes flat st (p_lift r) P"
  by (simp add: goes_def p_lift_def outcome_def)

lemma goes_error: "safe flat st \<Longrightarrow> goes flat st (pushError e) P" "safe flat st \<Longrightarrow> goes flat st (Parser_errExpectedButGot c s t) P"
  by (auto simp: goes_def pushError_def p_throw_def outcome_def safe_def Parser_errExpectedButGot_def Let_def)

lemma goes_bind:
  assumes "goes flat st m P"
    "\<And>st' a. safe flat st' \<Longrightarrow> ps_tokens st' = ps_tokens st \<Longrightarrow> ps_current st \<le> ps_current st' \<Longrightarrow> P a \<Longrightarrow> goes flat st' (f a) Q"
  shows "goes flat st (p_bind m f) Q"
proof -
  obtain st' r where m: "m st = Some (st', r)" "safe flat st'" "ps_tokens st' = ps_tokens st" "ps_current st \<le> ps_current st'" "outcome st st' r P"
    using assms(1) by (auto simp: goes_def)
  show ?thesis
  proof (cases r)
    case (Inl e)
    then show ?thesis using m by (auto simp: goes_def p_bind_def outcome_def)
  next
    case (Inr a)
    then have "goes flat st' (f a) Q" using assms(2) m by (simp add: outcome_def)
    then show ?thesis using m Inr by (fastforce simp: goes_def p_bind_def outcome_def split: sum.split)
  qed
qed

lemma goes_mono: "goes flat st m P \<Longrightarrow> (\<And>a. P a \<Longrightarrow> Q a) \<Longrightarrow> goes flat st m Q"
  by (fastforce simp: goes_def outcome_def split: sum.splits)

lemma goes_peek: "safe flat st \<Longrightarrow> goes flat st (f (cur_token st)) Q \<Longrightarrow> goes flat st (p_bind Parser_peek f) Q"
  by (simp add: goes_def p_bind_def Parser_peek_def p_lift_def safe_def)

lemma goes_isAtEnd: "safe flat st \<Longrightarrow> goes flat st (f (tok_type (cur_token st) = EOF)) Q \<Longrightarrow> goes flat st (p_bind Parser_isAtEnd f) Q"
  by (simp add: goes_def Parser_isAtEnd_def p_bind_def Parser_peek_def p_lift_def p_return_def safe_def)

lemma next_safe: "safe flat st \<Longrightarrow> tok_type (cur_token st) \<noteq> EOF \<Longrightarrow> safe flat (st\<lparr>ps_current := ps_current st + 1\<rparr>)"
proof -
  assume a: "safe flat st" "tok_type (cur_token st) \<noteq> EOF"
  then have "ps_current st \<noteq> length (ps_tokens st) - 1" by (auto simp: safe_def parsable_def last_conv_nth)
  with a(1) show ?thesis unfolding safe_def by simp linarith
qed

lemma goes_step:
  assumes "m st = Some (st', Inr a)" "ps_tokens st' = ps_tokens st" "ps_current st \<le> ps_current st'" "ps_parsingErrors st' = ps_parsingErrors st"
    "goes flat st' (f a) Q"
  shows "goes flat st (p_bind m f) Q"
proof -
  obtain st2 r where "f a st' = Some (st2, r)" "safe flat st2" "ps_tokens st2 = ps_tokens st'" "ps_current st' \<le> ps_current st2" "outcome st' st2 r Q"
    using assms(5) by (auto simp: goes_def)
  then show ?thesis using assms(1-4) unfolding goes_def
    by (intro exI [of _ st2] exI [of _ r]) (auto simp: p_bind_def outcome_def split: sum.splits)
qed

lemma goes_advance:
  assumes "safe flat st" "\<And>st'. safe flat st' \<Longrightarrow> ps_tokens st' = ps_tokens st \<Longrightarrow> ps_current st \<le> ps_current st' \<Longrightarrow>
    tok_type (cur_token st) \<noteq> EOF \<longrightarrow> ps_current st < ps_current st' \<Longrightarrow> goes flat st' (f ()) Q"
  shows "goes flat st (p_bind Parser_advance f) Q"
proof -
  define st' where "st' = (if tok_type (cur_token st) = EOF then st else st\<lparr>ps_current := ps_current st + 1\<rparr>)"
  have adv: "Parser_advance st = Some (st', Inr ())"
    using assms(1) by (auto simp: Parser_advance_def Parser_isAtEnd_def p_bind_def Parser_peek_def p_lift_def p_return_def safe_def st'_def)
  have st': "safe flat st'" "ps_tokens st' = ps_tokens st" "ps_current st \<le> ps_current st'" "ps_parsingErrors st' = ps_parsingErrors st"
    "tok_type (cur_token st) \<noteq> EOF \<longrightarrow> ps_current st < ps_current st'"
    using assms(1) next_safe [OF assms(1)] by (auto simp: st'_def)
  show ?thesis by (rule goes_step [where m = Parser_advance and st = st and f = f, OF adv st'(2-4) assms(2) [OF st'(1-3,5)]])
qed

lemma goes_advance_return: "safe flat st \<Longrightarrow> P a \<Longrightarrow> goes flat st (advance_return a) P"
  unfolding advance_return_def by (intro goes_advance goes_return)

lemma cur_in_tokens: "safe flat st \<Longrightarrow> cur_token st \<in> set (ps_tokens st)"
  by (simp add: safe_def)

lemma goes_match:
  assumes "safe flat st" "ty \<noteq> EOF"
    "\<And>st'. safe flat st' \<Longrightarrow> ps_tokens st' = ps_tokens st \<Longrightarrow> ps_current st < ps_current st' \<Longrightarrow> tok_type (cur_token st) = ty \<Longrightarrow> goes flat st' (f True) Q"
    "goes flat st (f False) Q"
  shows "goes flat st (p_bind (Parser_matchOne ty) f) Q"
proof (cases "tok_type (cur_token st) = ty")
  case True
  then have st': "Parser_matchOne ty st = Some (st\<lparr>ps_current := ps_current st + 1\<rparr>, Inr True)"
    using assms(1,2) by (simp add: Parser_matchOne_def Parser_check_def Parser_advance_def Parser_isAtEnd_def p_bind_def Parser_peek_def
        p_lift_def p_return_def safe_def)
  have "goes flat (st\<lparr>ps_current := ps_current st + 1\<rparr>) (f True) Q"
    using next_safe [OF assms(1)] True assms(2) by (intro assms(3)) auto
  then show ?thesis by (intro goes_step [where m = "Parser_matchOne ty" and st = st and f = f, OF st']) auto
next
  case False
  then have "Parser_matchOne ty st = Some (st, Inr False)"
    using assms(1) by (simp add: Parser_matchOne_def Parser_check_def p_bind_def Parser_peek_def p_lift_def p_return_def safe_def)
  with assms(4) show ?thesis by (simp add: goes_def p_bind_def)
qed

lemma goes_consume: "safe flat st \<Longrightarrow> goes flat st (Parser_consume c ty msg) (\<lambda>_. True)"
proof -
  assume st: "safe flat st"
  have "goes flat st Parser_advance (\<lambda>_. True)"
    using st next_safe [OF st]
    by (auto simp: goes_def Parser_advance_def Parser_isAtEnd_def p_bind_def Parser_peek_def p_lift_def p_return_def safe_def outcome_def)
  moreover have "Parser_check ty st = Some (st, Inr (tok_type (cur_token st) = ty))"
    using st by (simp add: Parser_check_def p_bind_def Parser_peek_def p_lift_def p_return_def safe_def)
  moreover have "goes flat st (p_bind Parser_peek (\<lambda>t. Parser_errExpectedButGot c msg t)) (\<lambda>_. True)"
    by (intro goes_peek goes_error st)
  ultimately show ?thesis by (auto simp: Parser_consume_def goes_def p_bind_def)
qed

section \<open>Values and regular expressions\<close>

lemma goes_value: "safe flat st \<Longrightarrow> goes flat st Parser_value (\<lambda>_. True)"
  unfolding Parser_value_def by (rule goes_peek) (auto split: TokenType.split intro!: goes_advance goes_return)

lemma goes_previous: "safe flat st \<Longrightarrow> 0 < ps_current st \<Longrightarrow> goes flat st Parser_previous (\<lambda>_. True)"
  by (auto simp: goes_def Parser_previous_def p_lift_def js_get_def outcome_def safe_def)

lemma goes_reconstruct:
  "safe flat st \<Longrightarrow> length (ps_tokens st) < ps_current st + n \<Longrightarrow> goes flat st (regex_reconstruct first n b acc) (\<lambda>_. True)"
proof (induction n arbitrary: st b acc)
  case (Suc n)
  have "goes flat st' (regex_reconstruct first n b' acc') (\<lambda>_. True)"
    if "safe flat st'" "ps_tokens st' = ps_tokens st" "ps_current st < ps_current st'" for st' b' acc'
    using that Suc.prems(2) by (intro Suc.IH) auto
  with Suc.prems(1) show ?case
    by (auto simp: Let_def intro!: goes_peek goes_isAtEnd goes_return goes_advance)
qed (simp add: safe_def)

abbreviation some_leaf :: "bool \<Rightarrow> ContextKeyExpression option \<Rightarrow> bool" where
  "some_leaf flat e \<equiv> \<exists>x. e = Some x \<and> lit flat x"

lemma goes_create_regex:
  "safe flat st \<Longrightarrow> goes flat st (create_regex c k e l) (some_leaf flat)" "safe flat st \<Longrightarrow> goes flat st (quoted_regex c k e l) (some_leaf flat)"
proof -
  have "lit flat (ContextKeyRegexExpr_create k r)" for r by (auto simp: create_defs intro: lit.plain)
  then show "safe flat st \<Longrightarrow> goes flat st (create_regex c k e l) (some_leaf flat)" "safe flat st \<Longrightarrow> goes flat st (quoted_regex c k e l) (some_leaf flat)"
    by (auto simp: create_regex_def quoted_regex_def Let_def split: option.split intro!: goes_return goes_error)
qed

lemma goes_reconstruct_regex:
  assumes "safe flat st"
  shows "goes flat st (\<lambda>st. p_bind (regex_reconstruct l (Suc (length (ps_tokens st))) b a) (create_regex c k e) st) (some_leaf flat)"
proof -
  have "goes flat st (p_bind (regex_reconstruct l (Suc (length (ps_tokens st))) b a) (create_regex c k e)) (some_leaf flat)"
    using assms by (intro goes_bind [OF goes_reconstruct] goes_create_regex) auto
  then show ?thesis unfolding goes_def .
qed

lemma goes_primary_regex:
  assumes "safe flat st"
  shows "goes flat st (primary_regex c k) (some_leaf flat)"
  unfolding primary_regex_def Let_def using assms
  by (intro goes_peek) (auto split: TokenType.split simp del: regex_reconstruct.simps
      intro!: goes_advance goes_create_regex goes_error goes_peek goes_reconstruct_regex)

section \<open>Keys and operators\<close>

lemma leaf_creates:
  "lit flat (ContextKeyDefinedExpr_create env k None)" "lit flat (ContextKeyNotExpr_create env k None)"
  "lit flat (ContextKeyEqualsExpr_create env k (Str v) None)" "lit flat (ContextKeyNotEqualsExpr_create env k (Str v) None)"
  "lit True (ContextKeyInExpr_create k v)" "lit True (ContextKeyNotInExpr_create k v)"
  "lit True (ContextKeySmallerExpr_create h k (Str v) None)" "lit True (ContextKeySmallerEqualsExpr_create h k (Str v) None)"
  "lit True (ContextKeyGreaterExpr_create h k (Str v) None)" "lit True (ContextKeyGreaterEqualsExpr_create h k (Str v) None)"
  by (auto simp: create_defs Let_def intro: lit.plain split: option.split js_prim.split)

lemma goes_equals:
  assumes "safe flat st" "0 < ps_current st"
  shows "goes flat st (primary_equals c k) (some_leaf flat)" "goes flat st (primary_notEquals c k) (some_leaf flat)"
  unfolding primary_equals_def primary_notEquals_def using assms
  by (auto intro!: goes_bind [OF goes_value] goes_bind [OF goes_previous] goes_return leaf_creates)

text \<open>A leaf of an operator whose expressions sort behind \<open>Or\<close>, which needs its token\<close>

lemma late_flat: "safe flat st \<Longrightarrow> t \<in> set (ps_tokens st) \<Longrightarrow> tok_type t \<in> {InTok, NotTok, Lt, LtEq, Gt, GtEq} \<Longrightarrow> flat"
  by (auto simp: safe_def parsable_def split: if_splits)

lemma goes_operand:
  assumes "safe flat st" "\<And>v. lit flat (create v)"
  shows "goes flat st (p_bind Parser_advance (\<lambda>_. p_bind Parser_value (\<lambda>right. p_return (Some (create right))))) (some_leaf flat)"
  using assms by (auto intro!: goes_advance goes_bind [OF goes_value] goes_return)

lemma goes_primary_key:
  assumes "safe flat st" "tok_type (cur_token st) \<noteq> EOF"
  shows "goes flat st (primary_key c k) (some_leaf flat)"
  unfolding primary_key_def Let_def
proof (rule goes_advance [OF assms(1)])
  fix st1 assume st1: "safe flat st1" "ps_tokens st1 = ps_tokens st" "tok_type (cur_token st) \<noteq> EOF \<longrightarrow> ps_current st < ps_current st1"
  then have pos: "0 < ps_current st1" using assms(2) by simp
  let ?next = "\<lambda>create. p_bind Parser_advance (\<lambda>_. p_bind Parser_value (\<lambda>right. p_return (Some (create right))))"
  let ?op = "\<lambda>maybeOp. case tok_type maybeOp of
             Eq _ \<Rightarrow> p_bind Parser_advance (\<lambda>_. primary_equals c k)
           | NotEq _ \<Rightarrow> p_bind Parser_advance (\<lambda>_. primary_notEquals c k)
           | Lt \<Rightarrow> ?next (\<lambda>v. ContextKeySmallerExpr_create (ph_js c) k (Str v) None)
           | LtEq \<Rightarrow> ?next (\<lambda>v. ContextKeySmallerEqualsExpr_create (ph_js c) k (Str v) None)
           | Gt \<Rightarrow> ?next (\<lambda>v. ContextKeyGreaterExpr_create (ph_js c) k (Str v) None)
           | GtEq \<Rightarrow> ?next (\<lambda>v. ContextKeyGreaterEqualsExpr_create (ph_js c) k (Str v) None)
           | InTok \<Rightarrow> ?next (\<lambda>v. ContextKeyInExpr_create k v)
           | _ \<Rightarrow> p_return (Some (ContextKeyDefinedExpr_create (ph_constants c) k None))"
  have late: "flat" if "tok_type (cur_token st1) \<in> {InTok, NotTok, Lt, LtEq, Gt, GtEq}"
    using late_flat [OF st1(1) cur_in_tokens [OF st1(1)] that] .
  have op: "goes flat st1 (p_bind Parser_peek ?op) (some_leaf flat)"
  proof (rule goes_peek [OF st1(1)])
    show "goes flat st1 (?op (cur_token st1)) (some_leaf flat)"
      using st1(1) pos late leaf_creates
      by (cases "tok_type (cur_token st1)") (auto intro!: goes_advance goes_equals goes_operand goes_return)
  qed
  have not_in: "goes flat st2 (p_bind (Parser_consume c InTok (errorNoInAfterNot c)) (\<lambda>_. p_bind Parser_value (\<lambda>right.
      p_return (Some (ContextKeyNotInExpr_create k right))))) (some_leaf flat)"
    if "safe flat st2" "tok_type (cur_token st1) = NotTok" for st2
    using that late leaf_creates by (auto intro!: goes_bind [OF goes_consume] goes_bind [OF goes_value] goes_return)
  show "goes flat st1 (p_bind (Parser_matchOne RegexOp) (\<lambda>isRegex.
       if isRegex then primary_regex c k
       else p_bind (Parser_matchOne NotTok) (\<lambda>isNot.
         if isNot then p_bind (Parser_consume c InTok (errorNoInAfterNot c)) (\<lambda>_. p_bind Parser_value (\<lambda>right.
           p_return (Some (ContextKeyNotInExpr_create k right))))
         else p_bind Parser_peek ?op))) (some_leaf flat)"
    using st1(1) op not_in by (intro goes_match) (auto intro!: goes_primary_regex goes_match)
qed

section \<open>The grammar\<close>

text \<open>What a term is, and what the operands of the connectives are\<close>

definition some_term :: "bool \<Rightarrow> ContextKeyExpression option \<Rightarrow> bool" where
  "some_term flat e \<longleftrightarrow> (\<exists>x. e = Some x \<and> (if flat then conj_tree True x else dnf False x))"

definition some_dnf :: "bool \<Rightarrow> ContextKeyExpression option \<Rightarrow> bool" where
  "some_dnf flat e \<longleftrightarrow> (\<exists>x. e = Some x \<and> dnf flat x)"

lemma leaf_term: "some_leaf flat e \<Longrightarrow> some_term flat e"
  by (cases flat) (auto simp: some_term_def intro: conj_tree.leaf dnf.tree)

lemma term_dnf: "some_term flat e \<Longrightarrow> some_dnf flat e"
  by (cases flat) (auto simp: some_term_def some_dnf_def intro: dnf.tree)

lemma not_flat_term: "\<not> flat \<Longrightarrow> some_term flat e \<longleftrightarrow> some_dnf flat e"
  by (simp add: some_term_def some_dnf_def)

lemma or_returns:
  assumes "es \<noteq> []" "\<forall>e \<in> set es. some_dnf flat e"
  shows "\<exists>e. ContextKeyExpr_or h env es = Some e \<and> some_dnf flat e"
proof -
  have "\<exists>x. ck h env (CallOr es None True) = Some (Some x) \<and> dnf flat x"
    by (rule or_create_some) (use assms in \<open>auto simp: some_dnf_def\<close>)
  then show ?thesis by (auto simp: ContextKeyExpr_or_def ContextKeyOrExpr_create_def some_dnf_def)
qed

lemma and_returns:
  assumes "es \<noteq> []" "\<forall>e \<in> set es. some_term flat e"
  shows "\<exists>e. ContextKeyExpr_and h env es = Some e \<and> some_dnf flat e"
proof -
  have "\<not> set es \<subseteq> {None}" using assms by (cases es) (auto simp: some_term_def)
  moreover have "\<exists>r. ck h env (CallAnd es None True) = Some r \<and> (case r of None \<Rightarrow> set es \<subseteq> {None} | Some x \<Rightarrow> dnf flat x)"
  proof (cases flat)
    case True
    have "conj_tree True e" if "Some e \<in> set es" for e using bspec [OF assms(2) that] True by (simp add: some_term_def)
    from and_create_trees [of es, OF this, where extra = True] show ?thesis unfolding eqTrueI [OF True] by simp
  next
    case False
    have "dnf False e" if "Some e \<in> set es" for e using bspec [OF assms(2) that] False by (simp add: some_term_def)
    from and_create_dnf [of es, OF this, where extra = True] show ?thesis unfolding eq_False [THEN iffD2, OF False] by simp
  qed
  ultimately obtain x where "ck h env (CallAnd es None True) = Some (Some x)" "dnf flat x" using create_some by blast
  then show ?thesis by (auto simp: ContextKeyExpr_and_def ContextKeyAndExpr_create_def some_dnf_def)
qed

lemma goes_negate: "safe flat st \<Longrightarrow> some_dnf flat e \<Longrightarrow> goes flat st (negate_opt c e) (some_dnf flat)"
proof -
  assume st: "safe flat st" and "some_dnf flat e"
  then obtain x where x: "e = Some x" "dnf flat x" by (auto simp: some_dnf_def)
  with negate_dnf [OF x(2), of "ph_js c" "ph_constants c"] obtain y where
      "e = Some x" "ContextKeyExpr_negate (ph_js c) (ph_constants c) x = Some (Some y)" "dnf flat y"
    by (auto simp: ContextKeyExpr_negate_def)
  then show ?thesis by (auto simp: negate_opt_def some_dnf_def intro!: goes_lift [OF st])
qed

text \<open>An expression in parentheses; there are none in flat tokens.\<close>

lemma goes_paren:
  assumes "safe flat st" "tok_type (cur_token st) = LParen" "n \<ge> 6 * remaining st + 1"
    "\<And>st. safe flat st \<Longrightarrow> n \<ge> 6 * remaining st + 6 \<Longrightarrow> goes flat st (Parser_expr c n) (some_dnf flat)"
    "\<And>st e. safe flat st \<Longrightarrow> some_dnf flat e \<Longrightarrow> goes flat st (f e) (some_dnf flat)"
  shows "goes flat st (p_bind Parser_advance (\<lambda>_. p_bind (Parser_expr c n) (\<lambda>expr. p_bind (Parser_consume c RParen msg) (\<lambda>_. f expr)))) (some_term flat)"
proof -
  have "\<not> flat" using cur_in_tokens [OF assms(1)] assms(1,2) by (auto simp: safe_def parsable_def split: if_splits)
  then have terms: "some_term flat = some_dnf flat" by (auto simp: not_flat_term)
  show ?thesis unfolding terms
  proof (rule goes_advance [OF assms(1)])
    fix st' assume st': "safe flat st'" "ps_tokens st' = ps_tokens st" "tok_type (cur_token st) \<noteq> EOF \<longrightarrow> ps_current st < ps_current st'"
    then have "remaining st' < remaining st" using assms(1,2) by (auto simp: remaining_def safe_def)
    then have "goes flat st' (Parser_expr c n) (some_dnf flat)" using assms(3) by (intro assms(4) st'(1)) simp
    then show "goes flat st' (p_bind (Parser_expr c n) (\<lambda>expr. p_bind (Parser_consume c RParen msg) (\<lambda>_. f expr))) (some_dnf flat)"
      by (rule goes_bind) (auto intro!: goes_bind [OF goes_consume] assms(5))
  qed
qed

text \<open>What the functions of the grammar achieve with a given fuel\<close>

definition grammar_goes :: "bool \<Rightarrow> parser_host \<Rightarrow> nat \<Rightarrow> bool" where
  "grammar_goes flat c n \<longleftrightarrow> (\<forall>st. safe flat st \<longrightarrow>
     (n \<ge> 6 * remaining st + 6 \<longrightarrow> goes flat st (Parser_expr c n) (some_dnf flat)) \<and>
     (n \<ge> 6 * remaining st + 5 \<longrightarrow> goes flat st (Parser_or c n) (some_dnf flat)) \<and>
     (n \<ge> 6 * remaining st + 3 \<longrightarrow> (\<forall>es. es \<noteq> [] \<and> (\<forall>e \<in> set es. some_dnf flat e) \<longrightarrow> goes flat st (or_loop c n es) (some_dnf flat))) \<and>
     (n \<ge> 6 * remaining st + 4 \<longrightarrow> goes flat st (Parser_and c n) (some_dnf flat)) \<and>
     (n \<ge> 6 * remaining st + 3 \<longrightarrow> (\<forall>es. es \<noteq> [] \<and> (\<forall>e \<in> set es. some_term flat e) \<longrightarrow> goes flat st (and_loop c n es) (some_dnf flat))) \<and>
     (n \<ge> 6 * remaining st + 3 \<longrightarrow> goes flat st (Parser_term c n) (some_term flat)) \<and>
     (n \<ge> 6 * remaining st + 2 \<longrightarrow> goes flat st (Parser_primary c n) (some_term flat)))"

lemma remaining_le: "ps_tokens st' = ps_tokens st \<Longrightarrow> ps_current st \<le> ps_current st' \<Longrightarrow> remaining st' \<le> remaining st"
  by (simp add: remaining_def diff_le_mono2)

lemma remaining_less: "safe flat st' \<Longrightarrow> ps_tokens st' = ps_tokens st \<Longrightarrow> ps_current st < ps_current st' \<Longrightarrow> remaining st' < remaining st"
  unfolding remaining_def safe_def by simp linarith

lemma loop_end:
  assumes "safe flat st" "es \<noteq> []" "\<forall>e \<in> set es. P e" "\<And>e. P e \<Longrightarrow> Q e" "\<exists>e. r = Some e \<and> Q e"
  shows "goes flat st (if length es = 1 then p_return (hd es) else p_lift r) Q"
  using assms by (cases es) (auto intro!: goes_return goes_lift)

text \<open>One round of the two loops over the operands of a connective\<close>

lemma loop_step:
  assumes "safe flat st" "ty \<noteq> EOF" "es \<noteq> []" "\<forall>e \<in> set es. P e" "\<And>e. P e \<Longrightarrow> Q e" "\<exists>e. r = Some e \<and> Q e"
    "\<And>st1. safe flat st1 \<Longrightarrow> remaining st1 < remaining st \<Longrightarrow> goes flat st1 operand P"
    "\<And>st1 e. safe flat st1 \<Longrightarrow> remaining st1 < remaining st \<Longrightarrow> P e \<Longrightarrow> goes flat st1 (loop (es @ [e])) Q"
  shows "goes flat st (p_bind (Parser_matchOne ty) (\<lambda>m.
       if m then p_bind operand (\<lambda>right. loop (es @ [right])) else if length es = 1 then p_return (hd es) else p_lift r)) Q"
proof (rule goes_match [OF assms(1,2)])
  fix st1 assume st1: "safe flat st1" "ps_tokens st1 = ps_tokens st" "ps_current st < ps_current st1"
  then have less: "remaining st1 < remaining st" by (rule remaining_less)
  have "goes flat st1 (p_bind operand (\<lambda>right. loop (es @ [right]))) Q"
  proof (rule goes_bind [OF assms(7) [OF st1(1) less]])
    fix st2 e assume "safe flat st2" "ps_tokens st2 = ps_tokens st1" "ps_current st1 \<le> ps_current st2" "P e"
    with less remaining_le [of st2 st1] show "goes flat st2 (loop (es @ [e])) Q" by (intro assms(8)) auto
  qed
  then show "goes flat st1 (if True then p_bind operand (\<lambda>right. loop (es @ [right])) else if length es = 1 then p_return (hd es) else p_lift r) Q"
    by simp
next
  show "goes flat st (if False then p_bind operand (\<lambda>right. loop (es @ [right])) else if length es = 1 then p_return (hd es) else p_lift r) Q"
    unfolding if_False by (rule loop_end [OF assms(1,3-6)])
qed

lemma first_operand:
  assumes "goes flat st operand P" "\<And>st1 e. safe flat st1 \<Longrightarrow> remaining st1 \<le> remaining st \<Longrightarrow> P e \<Longrightarrow> goes flat st1 (loop [e]) Q"
  shows "goes flat st (p_bind operand (\<lambda>e. loop [e])) Q"
  by (rule goes_bind [OF assms(1)]) (use assms(2) remaining_le in auto)

lemma primary_step:
  assumes "safe flat st" "6 * remaining st + 2 \<le> Suc n"
    "\<And>st. safe flat st \<Longrightarrow> 6 * remaining st + 6 \<le> n \<Longrightarrow> goes flat st (Parser_expr c n) (some_dnf flat)"
  shows "goes flat st (Parser_primary c (Suc n)) (some_term flat)"
  unfolding Parser_primary.simps
proof (rule goes_peek [OF assms(1)])
  have paren: "goes flat st (p_bind Parser_advance (\<lambda>_. p_bind (Parser_expr c n) (\<lambda>expr.
      p_bind (Parser_consume c RParen (errorClosingParenthesis c)) (\<lambda>_. p_return expr)))) (some_term flat)"
    if "tok_type (cur_token st) = LParen"
    using assms(2,3) that by (intro goes_paren [OF assms(1)] goes_return) auto
  have key: "goes flat st (primary_key c k) (some_term flat)" if "tok_type (cur_token st) \<noteq> EOF" for k
    using goes_mono [OF goes_primary_key [OF assms(1) that]] leaf_term by blast
  have constants_ok: "some_term flat (Some TrueExpr)" "some_term flat (Some FalseExpr)" by (auto intro!: leaf_term)
  show "goes flat st (case tok_type (cur_token st) of
         TrueTok \<Rightarrow> advance_return (Some TrueExpr)
       | FalseTok \<Rightarrow> advance_return (Some FalseExpr)
       | LParen \<Rightarrow> p_bind Parser_advance (\<lambda>_. p_bind (Parser_expr c n) (\<lambda>expr.
           p_bind (Parser_consume c RParen (errorClosingParenthesis c)) (\<lambda>_. p_return expr)))
       | StrTok key \<Rightarrow> primary_key c key
       | EOF \<Rightarrow> pushError \<lparr>pe_message = errorUnexpectedEOF c, pe_offset = tok_offset (cur_token st), pe_lexeme = [],
                  pe_additionalInfo = Some (hintUnexpectedEOF c)\<rparr>
       | _ \<Rightarrow> Parser_errExpectedButGot c expected_primary (cur_token st)) (some_term flat)"
    using assms(1) paren key constants_ok by (auto split: TokenType.split intro!: goes_advance_return goes_error)
qed

lemma term_step:
  assumes "safe flat st" "6 * remaining st + 3 \<le> Suc n"
    "\<And>st. safe flat st \<Longrightarrow> 6 * remaining st + 6 \<le> n \<Longrightarrow> goes flat st (Parser_expr c n) (some_dnf flat)"
    "\<And>st. safe flat st \<Longrightarrow> 6 * remaining st + 2 \<le> n \<Longrightarrow> goes flat st (Parser_primary c n) (some_term flat)"
  shows "goes flat st (Parser_term c (Suc n)) (some_term flat)"
  unfolding Parser_term.simps
proof (rule goes_match [OF assms(1)])
  let ?neg = "\<lambda>peek. case tok_type peek of
           TrueTok \<Rightarrow> advance_return (Some FalseExpr)
         | FalseTok \<Rightarrow> advance_return (Some TrueExpr)
         | LParen \<Rightarrow> p_bind Parser_advance (\<lambda>_. p_bind (Parser_expr c n) (\<lambda>expr.
             p_bind (Parser_consume c RParen (errorClosingParenthesis c)) (\<lambda>_. negate_opt c expr)))
         | StrTok lexeme \<Rightarrow> advance_return (Some (ContextKeyNotExpr_create (ph_constants c) lexeme None))
         | _ \<Rightarrow> Parser_errExpectedButGot c expected_negated peek"
  fix st1 assume st1: "safe flat st1" "ps_tokens st1 = ps_tokens st" "ps_current st < ps_current st1"
  then have less: "remaining st1 < remaining st" by (rule remaining_less)
  have paren: "goes flat st1 (p_bind Parser_advance (\<lambda>_. p_bind (Parser_expr c n) (\<lambda>expr.
      p_bind (Parser_consume c RParen (errorClosingParenthesis c)) (\<lambda>_. negate_opt c expr)))) (some_term flat)"
    if "tok_type (cur_token st1) = LParen"
    using assms(2,3) that less by (intro goes_paren [OF st1(1)] goes_negate) auto
  have leaves: "some_term flat (Some TrueExpr)" "some_term flat (Some FalseExpr)"
    "some_term flat (Some (ContextKeyNotExpr_create (ph_constants c) k None))" for k by (auto intro!: leaf_term leaf_creates)
  have "goes flat st1 (p_bind Parser_peek ?neg) (some_term flat)"
    using st1(1) paren leaves by (intro goes_peek) (auto split: TokenType.split intro!: goes_advance_return goes_error)
  then show "goes flat st1 (if True then p_bind Parser_peek ?neg else Parser_primary c n) (some_term flat)" by simp
next
  show "goes flat st (if False then p_bind Parser_peek f else Parser_primary c n) (some_term flat)" for f
    using assms(2) by (simp add: assms(4) [OF assms(1)])
qed simp

lemma grammar_returns: "grammar_goes flat c n"
proof (induction n)
  case 0
  then show ?case by (simp add: grammar_goes_def)
next
  case (Suc n)
  have expr_ok: "goes flat st (Parser_expr c n) (some_dnf flat)" if "safe flat st" "n \<ge> 6 * remaining st + 6" for st
    using Suc that by (simp add: grammar_goes_def)
  have or_ok: "goes flat st (Parser_or c n) (some_dnf flat)" if "safe flat st" "n \<ge> 6 * remaining st + 5" for st
    using Suc that by (simp add: grammar_goes_def)
  have or_loop_ok: "goes flat st (or_loop c n es) (some_dnf flat)"
    if "safe flat st" "n \<ge> 6 * remaining st + 3" "es \<noteq> []" "\<forall>e \<in> set es. some_dnf flat e" for st es
    using Suc that by (simp add: grammar_goes_def)
  have and_ok: "goes flat st (Parser_and c n) (some_dnf flat)" if "safe flat st" "n \<ge> 6 * remaining st + 4" for st
    using Suc that by (simp add: grammar_goes_def)
  have and_loop_ok: "goes flat st (and_loop c n es) (some_dnf flat)"
    if "safe flat st" "n \<ge> 6 * remaining st + 3" "es \<noteq> []" "\<forall>e \<in> set es. some_term flat e" for st es
    using Suc that by (simp add: grammar_goes_def)
  have term_ok: "goes flat st (Parser_term c n) (some_term flat)" if "safe flat st" "n \<ge> 6 * remaining st + 3" for st
    using Suc that by (simp add: grammar_goes_def)
  have primary_ok: "goes flat st (Parser_primary c n) (some_term flat)" if "safe flat st" "n \<ge> 6 * remaining st + 2" for st
    using Suc that by (simp add: grammar_goes_def)
  show ?case unfolding grammar_goes_def
  proof (intro allI impI conjI)
    fix st assume st: "safe flat st"
    show "goes flat st (Parser_expr c (Suc n)) (some_dnf flat)" if "6 * remaining st + 6 \<le> Suc n"
      unfolding Parser_expr.simps using that by (intro or_ok st) simp
    show "goes flat st (Parser_or c (Suc n)) (some_dnf flat)" if "6 * remaining st + 5 \<le> Suc n"
      unfolding Parser_or.simps using that by (intro first_operand [OF and_ok [OF st]] or_loop_ok) auto
    show "goes flat st (or_loop c (Suc n) es) (some_dnf flat)"
      if "6 * remaining st + 3 \<le> Suc n" "es \<noteq> [] \<and> (\<forall>e \<in> set es. some_dnf flat e)" for es
      unfolding or_loop.simps(1) using that or_returns [of es flat]
      by (intro loop_step [OF st, where P = "some_dnf flat"] and_ok or_loop_ok) auto
    show "goes flat st (Parser_and c (Suc n)) (some_dnf flat)" if "6 * remaining st + 4 \<le> Suc n"
      unfolding Parser_and.simps using that by (intro first_operand [OF term_ok [OF st]] and_loop_ok) auto
    show "goes flat st (and_loop c (Suc n) es) (some_dnf flat)"
      if "6 * remaining st + 3 \<le> Suc n" "es \<noteq> [] \<and> (\<forall>e \<in> set es. some_term flat e)" for es
      unfolding and_loop.simps(1) using that and_returns [of es flat] term_dnf
      by (intro loop_step [OF st, where P = "some_term flat"] term_ok and_loop_ok) auto
    show "goes flat st (Parser_term c (Suc n)) (some_term flat)" if "6 * remaining st + 3 \<le> Suc n"
      by (rule term_step [OF st that expr_ok primary_ok])
    show "goes flat st (Parser_primary c (Suc n)) (some_term flat)" if "6 * remaining st + 2 \<le> Suc n"
      by (rule primary_step [OF st that expr_ok])
  qed
qed

section \<open>The parser on a text\<close>

lemma parse_tokens_returns:
  assumes "safe flat st" "parse_fuel (length (ps_tokens st)) \<le> n"
  shows "goes flat st (parse_tokens c n) (some_dnf flat)"
proof -
  have "n \<ge> 6 * remaining st + 6" using assms(2) by (simp add: parse_fuel_def remaining_def)
  then have expr: "goes flat st (Parser_expr c n) (some_dnf flat)" using grammar_returns [of flat c n] assms(1) by (simp add: grammar_goes_def)
  show ?thesis unfolding parse_tokens_def
    by (rule goes_bind [OF expr]) (auto intro!: goes_isAtEnd goes_peek goes_return goes_error)
qed

text \<open>A value is returned only at the last token.\<close>

lemma parse_tokens_ends:
  assumes "safe flat st" "parse_fuel (length (ps_tokens st)) \<le> n"
  shows "\<exists>st' r. parse_tokens c n st = Some (st', r) \<and> outcome st st' r (some_dnf flat) \<and> (\<forall>x. r = Inr x \<longrightarrow> tok_type (cur_token st') = EOF)"
proof -
  obtain st' r where r: "parse_tokens c n st = Some (st', r)" "outcome st st' r (some_dnf flat)"
    using parse_tokens_returns [OF assms, of c] by (auto simp: goes_def)
  then have "tok_type (cur_token st') = EOF" if "r = Inr x" for x
    using that by (auto simp: parse_tokens_def p_bind_def Parser_isAtEnd_def Parser_peek_def p_lift_def p_return_def pushError_def p_throw_def
        split: option.splits sum.splits if_splits prod.splits)
  with r show ?thesis by blast
qed

lemma scan_ends: "\<exists>toks o1. snd (Scanner_scan sh s) = toks @ [Token EOF o1]"
  by (auto simp: Scanner_scan_def Let_def Scanner_addToken_def)

text \<open>The kinds of tokens that the scanner finds in a text, and those of the operators whose expressions sort behind \<open>Or\<close>\<close>

definition token_types :: "parser_host \<Rightarrow> Parser \<Rightarrow> js_string \<Rightarrow> TokenType set" where
  "token_types c st input = tok_type ` set (snd (Scanner_scan (ph_scan c) (Scanner_reset (ps_scanner st) input)))"

definition late_types :: "TokenType set" where
  "late_types = {InTok, NotTok, Lt, LtEq, Gt, GtEq}"

text \<open>
  C34: The parser returns. For every text, every state of the parser and every setting of its options, provided that the text has no opening
  parenthesis or none of the operators \<open>in\<close>, \<open>not\<close>, \<open><\<close>, \<open><=\<close>, \<open>>\<close> and \<open>>=\<close>, \<open>parse\<close> returns: the fuel is enough, no constructor diverges and
  no read is out of range. Either it returns an expression, and then it has recorded no error, no token is left over, and the expression is in
  disjunctive normal form, without an expression that sorts behind \<open>Or\<close> unless the text has one of these operators; or it returns nothing, and
  then it has recorded exactly one error (behind the earlier ones when the text is empty, as the earlier ones are only dropped behind the scan).
\<close>

theorem Parser_parse_returns:
  assumes "LParen \<notin> token_types c st input \<or> token_types c st input \<inter> late_types = {}"
  shows "\<exists>st' r. Parser_parse c st input = Some (st', r) \<and>
     (case r of
        None \<Rightarrow> \<exists>e. ps_parsingErrors st' = (if input = [] then ps_parsingErrors st else []) @ [e]
      | Some x \<Rightarrow> ps_parsingErrors st' = [] \<and> tok_type (cur_token st') = EOF \<and> dnf (token_types c st input \<inter> late_types \<noteq> {}) x)"
proof (cases "input = []")
  case True
  then show ?thesis by (simp add: Parser_parse_def)
next
  case False
  define flat where "flat = (token_types c st input \<inter> late_types \<noteq> {})"
  obtain sc toks where scan: "Scanner_scan (ph_scan c) (Scanner_reset (ps_scanner st) input) = (sc, toks)" by fastforce
  let ?st = "st\<lparr>ps_scanner := sc, ps_tokens := toks, ps_current := 0, ps_parsingErrors := []\<rparr>"
  have "toks \<noteq> [] \<and> tok_type (last toks) = EOF"
    using scan_ends [of "ph_scan c" "Scanner_reset (ps_scanner st) input"] by (auto simp: scan)
  moreover have "if flat then tok_type t \<noteq> LParen else tok_type t \<notin> late_types" if "t \<in> set toks" for t
    using assms imageI [OF that, of tok_type] by (auto simp: flat_def token_types_def scan)
  ultimately have "safe flat ?st" unfolding safe_def parsable_def late_types_def [symmetric] by simp
  from parse_tokens_ends [OF this, of "parse_fuel (length toks)" c] obtain st' r
    where "parse_tokens c (parse_fuel (length toks)) ?st = Some (st', r)" "outcome ?st st' r (some_dnf flat)"
      "\<forall>x. r = Inr x \<longrightarrow> tok_type (cur_token st') = EOF" by auto
  then show ?thesis using False unfolding flat_def [symmetric]
    by (auto simp: Parser_parse_def scan outcome_def some_dnf_def split: sum.splits)
qed

lemma sample_token_types:
  "tok_type ` set (snd (Scanner_scan sample_scan (Scanner_reset (ps_scanner new_parser) (js ''a && (b || !c)'')))) =
   {StrTok (js ''a''), AndTok, LParen, StrTok (js ''b''), OrTok, Neg, StrTok (js ''c''), RParen, EOF}"
  by code_simp

theorem Parser_parse_returns_witness:
  "token_types sample_parser new_parser (js ''a && (b || !c)'') =
     {StrTok (js ''a''), AndTok, LParen, StrTok (js ''b''), OrTok, Neg, StrTok (js ''c''), RParen, EOF} \<and>
   (\<exists>st' r. Parser_parse sample_parser new_parser (js ''a && (b || !c)'') = Some (st', r) \<and>
     (case r of None \<Rightarrow> \<exists>e. ps_parsingErrors st' = [e]
      | Some x \<Rightarrow> ps_parsingErrors st' = [] \<and> tok_type (cur_token st') = EOF \<and> dnf False x))"
proof -
  have types: "token_types sample_parser new_parser (js ''a && (b || !c)'') =
     {StrTok (js ''a''), AndTok, LParen, StrTok (js ''b''), OrTok, Neg, StrTok (js ''c''), RParen, EOF}"
    using sample_token_types by (simp add: token_types_def sample_parser_def)
  have plain: "(token_types sample_parser new_parser (js ''a && (b || !c)'') \<inter> late_types \<noteq> {}) = False"
    by (simp add: types late_types_def)
  have "(js ''a && (b || !c)'' = []) = False" by (simp add: js_def)
  then have "\<exists>st' r. Parser_parse sample_parser new_parser (js ''a && (b || !c)'') = Some (st', r) \<and>
     (case r of None \<Rightarrow> \<exists>e. ps_parsingErrors st' = [] @ [e]
      | Some x \<Rightarrow> ps_parsingErrors st' = [] \<and> tok_type (cur_token st') = EOF \<and> dnf False x)"
    using Parser_parse_returns [of sample_parser new_parser "js ''a && (b || !c)''", unfolded plain] plain by (simp only: if_False) simp
  then show ?thesis unfolding types append_Nil by simp
qed

end
