(* ===== verification/ContextKeyLexing.thy ===== *)
theory ContextKeyLexing
  imports ContextKeyScanner
begin

text \<open>
  What the scanner makes of the pieces of text that serialized expressions consist of: each is
  read as its token, when what follows it cannot belong to it.
\<close>

section \<open>Chunks\<close>

text \<open>
  \<open>lexes sh ok chunk tys\<close>: at the beginning of \<open>chunk\<close>, and before a rest that is \<open>ok\<close>, the scanner
  reads \<open>chunk\<close>, adds tokens of the types \<open>tys\<close> and no error, and goes on behind it.
\<close>

definition lexes :: "scan_host \<Rightarrow> (js_string \<Rightarrow> bool) \<Rightarrow> js_string \<Rightarrow> TokenType list \<Rightarrow> bool" where
  "lexes sh ok chunk tys \<longleftrightarrow> (\<forall>s rest. drop (sc_current s) (sc_input s) = chunk @ rest \<longrightarrow> ok rest \<longrightarrow>
     (\<exists>s'. scan_loop sh s = scan_loop sh s' \<and> sc_input s' = sc_input s \<and> sc_current s' = sc_current s + length chunk \<and>
        map tok_type (sc_tokens s') = map tok_type (sc_tokens s) @ tys \<and> sc_errors s' = sc_errors s))"

lemma lexes_append:
  assumes "lexes sh ok c t" "lexes sh ok' c' t'" "\<And>rest. ok' rest \<Longrightarrow> ok (c' @ rest)"
  shows "lexes sh ok' (c @ c') (t @ t')"
  unfolding lexes_def
proof (intro allI impI)
  fix s :: Scanner and rest assume drop: "drop (sc_current s) (sc_input s) = (c @ c') @ rest" and ok: "ok' rest"
  then obtain s1 where s1: "scan_loop sh s = scan_loop sh s1" "sc_input s1 = sc_input s" "sc_current s1 = sc_current s + length c"
      "map tok_type (sc_tokens s1) = map tok_type (sc_tokens s) @ t" "sc_errors s1 = sc_errors s"
    using assms(1,3) unfolding lexes_def by (metis append.assoc)
  have "drop (sc_current s1) (sc_input s1) = c' @ rest"
    using drop by (metis s1(2,3) add.commute append.assoc append_eq_conv_conj drop_drop)
  then obtain s2 where "scan_loop sh s1 = scan_loop sh s2" "sc_input s2 = sc_input s1" "sc_current s2 = sc_current s1 + length c'"
      "map tok_type (sc_tokens s2) = map tok_type (sc_tokens s1) @ t'" "sc_errors s2 = sc_errors s1"
    using assms(2) ok unfolding lexes_def by metis
  with s1 show "\<exists>s'. scan_loop sh s = scan_loop sh s' \<and> sc_input s' = sc_input s \<and> sc_current s' = sc_current s + length (c @ c') \<and>
      map tok_type (sc_tokens s') = map tok_type (sc_tokens s) @ (t @ t') \<and> sc_errors s' = sc_errors s"
    by (intro exI [of _ s2]) simp
qed

lemma lexes_weaken: "lexes sh ok c t \<Longrightarrow> (\<And>rest. ok' rest \<Longrightarrow> ok rest) \<Longrightarrow> lexes sh ok' c t"
  unfolding lexes_def by blast

lemma lexes_whole:
  assumes "lexes sh ok c t" "ok []"
  shows "map tok_type (snd (Scanner_scan sh (Scanner_reset s c))) = t @ [EOF] \<and>
    sc_errors (fst (Scanner_scan sh (Scanner_reset s c))) = []"
proof -
  let ?s = "Scanner_reset s c"
  have "drop (sc_current ?s) (sc_input ?s) = c @ []" by (simp add: Scanner_reset_def)
  then obtain s' where s': "scan_loop sh ?s = scan_loop sh s'" "sc_input s' = sc_input ?s" "sc_current s' = sc_current ?s + length c"
      "map tok_type (sc_tokens s') = map tok_type (sc_tokens ?s) @ t" "sc_errors s' = sc_errors ?s"
    using assms unfolding lexes_def by metis
  have "scan_loop sh s' = s'" using s'(2,3) by (subst scan_loop.simps) (simp add: Scanner_isAtEnd_def Scanner_reset_def)
  with s' show ?thesis by (simp add: Scanner_scan_def Let_def Scanner_addToken_def Scanner_reset_def Scanner_push_def)
qed

text \<open>One round of the scanner\<close>

lemma lexes_step:
  assumes "\<And>s rest. drop (sc_current s) (sc_input s) = c # chunk @ rest \<Longrightarrow> ok rest \<Longrightarrow>
     sc_current (scan_step sh s) = sc_current s + length (c # chunk) \<and>
     map tok_type (sc_tokens (scan_step sh s)) = map tok_type (sc_tokens s) @ tys \<and> sc_errors (scan_step sh s) = sc_errors s"
  shows "lexes sh ok (c # chunk) tys"
  unfolding lexes_def
proof (intro allI impI)
  fix s :: Scanner and rest assume drop: "drop (sc_current s) (sc_input s) = (c # chunk) @ rest" and ok: "ok rest"
  then have "sc_current s < length (sc_input s)" by (metis append_Cons drop_eq_Nil list.distinct(1) not_le)
  then have "scan_loop sh s = scan_loop sh (scan_step sh s)" by (subst scan_loop.simps) (simp add: Scanner_isAtEnd_def)
  with assms [of s rest] drop ok scan_step_fields [of sh s]
  show "\<exists>s'. scan_loop sh s = scan_loop sh s' \<and> sc_input s' = sc_input s \<and> sc_current s' = sc_current s + length (c # chunk) \<and>
      map tok_type (sc_tokens s') = map tok_type (sc_tokens s) @ tys \<and> sc_errors s' = sc_errors s"
    by (intro exI [of _ "scan_step sh s"]) simp
qed

text \<open>The first characters at the position of the scanner\<close>

lemma drop_get:
  assumes "drop n xs = c # rest"
  shows "n < length xs" "xs ! n = c" "js_get xs (int n) = Some c" "drop (Suc n) xs = rest"
proof -
  show n: "n < length xs" using assms by (metis drop_eq_Nil list.distinct(1) not_le)
  show "xs ! n = c" using assms n by (metis hd_drop_conv_nth list.sel(1))
  then show "js_get xs (int n) = Some c" using n by (simp add: js_get_def)
  show "drop (Suc n) xs = rest" using assms by (metis drop_Suc list.sel(3) tl_drop)
qed

lemma drop_end: "drop n xs = [] \<Longrightarrow> \<not> n < length xs"
  by simp

definition not_before :: "code_unit \<Rightarrow> js_string \<Rightarrow> bool" where
  "not_before c rest \<longleftrightarrow> (case rest of [] \<Rightarrow> True | x # _ \<Rightarrow> x \<noteq> c)"

lemma match_skip:
  assumes "drop (sc_current s) (sc_input s) = rest" "not_before c rest"
  shows "Scanner_match s c = (s, False)"
  using assms drop_get(1,2) [of "sc_current s" "sc_input s"]
  by (cases rest) (auto simp: Scanner_match_def Scanner_isAtEnd_def not_before_def)

lemma match_take:
  assumes "drop (sc_current s) (sc_input s) = c # rest"
  shows "Scanner_match s c = (s\<lparr>sc_current := sc_current s + 1\<rparr>, True)"
  using drop_get(1,2) [OF assms] by (simp add: Scanner_match_def Scanner_isAtEnd_def)

section \<open>Operators\<close>

lemmas step_simps = scan_step_def Scanner_advance_def Scanner_addToken_def Let_def

lemma lexes_space: "lexes sh (\<lambda>_. True) [0x20] []"
  by (rule lexes_step) (simp add: step_simps drop_get)

lemma lexes_LParen: "lexes sh (\<lambda>_. True) [0x28] [LParen]"
  by (rule lexes_step) (simp add: step_simps drop_get)

lemma lexes_RParen: "lexes sh (\<lambda>_. True) [0x29] [RParen]"
  by (rule lexes_step) (simp add: step_simps drop_get)

lemma lexes_Neg: "lexes sh (not_before 0x3D) [0x21] [Neg]"
  by (rule lexes_step) (simp add: step_simps drop_get match_skip)

lemma lexes_And: "lexes sh (\<lambda>_. True) [0x26, 0x26] [AndTok]"
  by (rule lexes_step) (simp add: step_simps drop_get match_take)

lemma lexes_Or: "lexes sh (\<lambda>_. True) [0x7C, 0x7C] [OrTok]"
  by (rule lexes_step) (simp add: step_simps drop_get match_take)

lemma lexes_Eq: "lexes sh (not_before 0x3D) [0x3D, 0x3D] [Eq False]"
proof (rule lexes_step)
  fix s :: Scanner and rest
  assume "drop (sc_current s) (sc_input s) = 0x3D # [0x3D] @ rest" "not_before 0x3D rest"
  note d = drop_get [OF this(1)] and ok = this(2)
  note d' = drop_get [OF d(4) [simplified]]
  show "sc_current (scan_step sh s) = sc_current s + length ([0x3D, 0x3D] :: js_string) \<and>
     map tok_type (sc_tokens (scan_step sh s)) = map tok_type (sc_tokens s) @ [Eq False] \<and> sc_errors (scan_step sh s) = sc_errors s"
    using d d' ok by (simp add: step_simps match_take match_skip)
qed

lemma lexes_NotEq: "lexes sh (not_before 0x3D) [0x21, 0x3D] [NotEq False]"
proof (rule lexes_step)
  fix s :: Scanner and rest
  assume "drop (sc_current s) (sc_input s) = 0x21 # [0x3D] @ rest" "not_before 0x3D rest"
  note d = drop_get [OF this(1)] and ok = this(2)
  note d' = drop_get [OF d(4) [simplified]]
  show "sc_current (scan_step sh s) = sc_current s + length ([0x21, 0x3D] :: js_string) \<and>
     map tok_type (sc_tokens (scan_step sh s)) = map tok_type (sc_tokens s) @ [NotEq False] \<and> sc_errors (scan_step sh s) = sc_errors s"
    using d d' ok by (simp add: step_simps match_take match_skip)
qed

lemma lexes_RegexOp: "lexes sh (\<lambda>_. True) [0x3D, 0x7E] [RegexOp]"
proof (rule lexes_step)
  fix s :: Scanner and rest
  assume "drop (sc_current s) (sc_input s) = 0x3D # [0x7E] @ rest"
  note d = drop_get [OF this(1)]
  show "sc_current (scan_step sh s) = sc_current s + length ([0x3D, 0x7E] :: js_string) \<and>
     map tok_type (sc_tokens (scan_step sh s)) = map tok_type (sc_tokens s) @ [RegexOp] \<and> sc_errors (scan_step sh s) = sc_errors s"
    using d by (simp add: step_simps match_take match_skip not_before_def)
qed

section \<open>Strings and keys\<close>

lemma substring_drop: "drop n xs = v @ rest \<Longrightarrow> js_substring xs (int n) (int (n + length v)) = v"
proof -
  assume d: "drop n xs = v @ rest"
  have len: "length xs - n = length v + length rest" using arg_cong [OF d, of length] by simp
  show ?thesis
  proof (cases "v = []")
    case True
    then show ?thesis by (simp add: js_substring_def seg_def Let_def)
  next
    case False
    with len have "n + length v \<le> length xs" by (cases v) auto
    then show ?thesis using d by (simp add: js_substring_seg seg_def)
  qed
qed

lemma quotedString_loop_run:
  "drop (sc_current s) (sc_input s) = v @ 0x27 # rest \<Longrightarrow> 0x27 \<notin> set v \<Longrightarrow>
     quotedString_loop s = s\<lparr>sc_current := sc_current s + length v\<rparr>"
proof (induction v arbitrary: s)
  case Nil
  then show ?case
    using drop_get(1,2) [of "sc_current s" "sc_input s"]
    by (subst quotedString_loop.simps) (simp add: Scanner_peek_def Scanner_isAtEnd_def)
next
  case (Cons x v)
  note d = drop_get [OF Cons.prems(1) [unfolded append_Cons]]
  have "quotedString_loop s = quotedString_loop (s\<lparr>sc_current := Suc (sc_current s)\<rparr>)"
    using d(1,2) Cons.prems(2) by (subst quotedString_loop.simps) (auto simp: Scanner_peek_def Scanner_isAtEnd_def Scanner_advance_def)
  also have "\<dots> = s\<lparr>sc_current := sc_current s + length (x # v)\<rparr>" using Cons.IH [of "s\<lparr>sc_current := Suc (sc_current s)\<rparr>"] Cons.prems(2) d(4) by simp
  finally show ?case .
qed

lemma lexes_quoted:
  assumes "0x27 \<notin> set v"
  shows "lexes sh (\<lambda>_. True) (0x27 # v @ [0x27]) [QuotedStr v]"
proof (rule lexes_step)
  fix s :: Scanner and rest
  assume drop: "drop (sc_current s) (sc_input s) = 0x27 # (v @ [0x27]) @ rest"
  note d = drop_get [OF drop]
  let ?s = "s\<lparr>sc_start := sc_current s, sc_current := Suc (sc_current s)\<rparr>"
  have loop: "quotedString_loop ?s = ?s\<lparr>sc_current := Suc (sc_current s) + length v\<rparr>"
    using quotedString_loop_run [of ?s v rest] assms d(4) by simp
  have "length (sc_input s) - Suc (sc_current s) = length v + 1 + length rest" using arg_cong [OF d(4), of length] by simp
  then have in_range: "Suc (sc_current s) + length v < length (sc_input s)" by simp
  have "js_substring (sc_input s) (int (sc_current s) + 1) (int (sc_current s) + 1 + int (length v)) = v"
    using substring_drop [of "Suc (sc_current s)" "sc_input s" v "0x27 # rest"] d(4) by (simp add: add_ac)
  moreover have "scan_step sh s = Scanner_quotedString sh ?s" using d(3) by (simp add: step_simps)
  ultimately show "sc_current (scan_step sh s) = sc_current s + length (0x27 # v @ [0x27]) \<and>
     map tok_type (sc_tokens (scan_step sh s)) = map tok_type (sc_tokens s) @ [QuotedStr v] \<and> sc_errors (scan_step sh s) = sc_errors s"
    using in_range by (simp add: Scanner_quotedString_def loop Scanner_isAtEnd_def Scanner_advance_def Let_def add_ac)
qed

text \<open>What ends a key: the end, a space or a closing parenthesis, which are no letters\<close>

definition letters_ok :: "scan_host \<Rightarrow> bool" where
  "letters_ok sh \<longleftrightarrow> \<not> sh_letter sh [0x20] \<and> \<not> sh_letter sh [0x29]"

definition boundary :: "js_string \<Rightarrow> bool" where
  "boundary rest \<longleftrightarrow> (case rest of [] \<Rightarrow> True | x # _ \<Rightarrow> x = 0x20 \<or> x = 0x29)"

definition word_ok :: "scan_host \<Rightarrow> js_string \<Rightarrow> bool" where
  "word_ok sh k \<longleftrightarrow> k \<noteq> [] \<and> list_all (stringRe_class sh) (code_points k) \<and>
     hd k \<notin> {0x28, 0x29, 0x21, 0x27, 0x2F, 0x3D, 0x3C, 0x3E, 0x26, 0x7C, 0x20, 0x0D, 0x09, 0x0A, 0xA0}"

lemma concat_code_points: "concat (code_points s) = s"
  by (induction s rule: code_points.induct) auto

lemma stringRe_word:
  assumes "word_ok sh k" "boundary rest" "letters_ok sh"
  shows "stringRe sh (k @ rest) = length k"
proof -
  have "pair_seam k rest" using assms(2) by (auto simp: pair_seam_def boundary_def is_low_surrogate_def split: list.splits)
  then have "code_points (k @ rest) = code_points k @ code_points rest" by (rule code_points_append)
  moreover have "takeWhile (stringRe_class sh) (code_points rest) = []"
  proof (cases rest)
    case (Cons x xs)
    then have x: "x = 0x20 \<or> x = 0x29" using assms(2) by (simp add: boundary_def)
    then have "hd (code_points rest) = [x]" "code_points rest \<noteq> []"
      by (cases xs; auto simp: Cons is_high_surrogate_def)+
    moreover have "\<not> stringRe_class sh [x]" using x assms(3) by (auto simp: stringRe_class_def letters_ok_def js_def)
    ultimately show ?thesis by (metis list.sel(1) takeWhile.simps(2) list.exhaust)
  qed simp
  ultimately have "takeWhile (stringRe_class sh) (code_points (k @ rest)) = code_points k"
    using assms(1) by (simp add: word_ok_def list_all_iff takeWhile_append2)
  then show ?thesis by (simp add: stringRe_def concat_code_points)
qed

definition word_type :: "js_string \<Rightarrow> TokenType" where
  "word_type k = (case Scanner_keywords k of Some t \<Rightarrow> t | None \<Rightarrow> StrTok k)"

lemma lexes_word:
  assumes "word_ok sh k" "letters_ok sh"
  shows "lexes sh boundary k [word_type k]"
proof -
  obtain x k' where k: "k = x # k'" using assms(1) by (cases k) (auto simp: word_ok_def)
  show ?thesis
    unfolding k
  proof (rule lexes_step)
    fix s :: Scanner and rest
    assume drop: "drop (sc_current s) (sc_input s) = x # k' @ rest" and ok: "boundary rest"
    note d = drop_get [OF drop]
    have "stringRe sh (drop (sc_current s) (sc_input s)) = length k" using stringRe_word [OF assms(1) ok assms(2)] drop by (simp add: k)
    moreover have "js_substring (sc_input s) (int (sc_current s)) (int (sc_current s + length k)) = k"
      using substring_drop [of "sc_current s" "sc_input s" k rest] drop by (simp add: k)
    moreover have "x \<notin> {0x28, 0x29, 0x21, 0x27, 0x2F, 0x3D, 0x3C, 0x3E, 0x26, 0x7C, 0x20, 0x0D, 0x09, 0x0A, 0xA0}"
      using assms(1) by (simp add: word_ok_def k)
    ultimately show "sc_current (scan_step sh s) = sc_current s + length (x # k') \<and>
     map tok_type (sc_tokens (scan_step sh s)) = map tok_type (sc_tokens s) @ [word_type (x # k')] \<and> sc_errors (scan_step sh s) = sc_errors s"
      using d(3) by (simp add: step_simps Scanner_string_def word_type_def k split: option.split)
  qed
qed

section \<open>Regular expressions\<close>

text \<open>The loop over a regular expression, on the text from its position\<close>

fun regex_end :: "js_string \<Rightarrow> bool \<Rightarrow> bool \<Rightarrow> nat option" where
  "regex_end [] inEscape inCharacterClass = None"
| "regex_end (ch # s) inEscape inCharacterClass =
     (if \<not> inEscape \<and> ch = 0x2F \<and> \<not> inCharacterClass then Some 1
      else map_option Suc (regex_end s (\<not> inEscape \<and> ch = 0x5C)
        (if inEscape then inCharacterClass else if ch = 0x5B then True else if ch = 0x5D then False else inCharacterClass)))"

lemma regex_loop_end: "regex_loop input p e c = map_option ((+) p) (regex_end (drop p input) e c)"
proof (induction "length input - p" arbitrary: p e c rule: less_induct)
  case less
  show ?case
  proof (cases "p < length input")
    case True
    then have "drop p input = input ! p # drop (Suc p) input" by (simp add: Cons_nth_drop_Suc)
    moreover have "(+) (Suc p) = (\<lambda>x. Suc (p + x))" by (rule ext) simp
    then have "regex_loop input (Suc p) e c = map_option (\<lambda>x. Suc (p + x)) (regex_end (drop (Suc p) input) e c)" for e c
      using less [of "Suc p" e c] True by simp
    ultimately show ?thesis
      using True by (subst regex_loop.simps) (auto simp: Let_def option.map_comp comp_def)
  next
    case False
    then show ?thesis by (subst regex_loop.simps) simp
  qed
qed

lemma regex_end_append: "regex_end s e c = Some n \<Longrightarrow> regex_end (s @ t) e c = Some n"
  by (induction s e c arbitrary: n rule: regex_end.induct) (auto split: if_splits)

lemma flags_loop_run:
  "drop p input = fs @ rest \<Longrightarrow> set fs \<subseteq> set Scanner_regexFlags \<Longrightarrow> rest = [] \<or> hd rest \<notin> set Scanner_regexFlags \<Longrightarrow>
     flags_loop input p = p + length fs"
proof (induction fs arbitrary: p)
  case Nil
  have "p < length input \<Longrightarrow> rest \<noteq> [] \<and> input ! p = hd rest"
    using Nil.prems(1) by (auto simp: hd_drop_conv_nth [symmetric])
  then show ?case using Nil.prems(3) by (subst flags_loop.simps) auto
next
  case (Cons f fs)
  note d = drop_get [OF Cons.prems(1) [unfolded append_Cons]]
  then show ?case using Cons.IH [of "Suc p"] Cons.prems(2,3) by (subst flags_loop.simps) simp
qed

text \<open>A source that ends where it should, and flags\<close>

definition regexp_ok :: "RegExp \<Rightarrow> bool" where
  "regexp_ok re \<longleftrightarrow> regex_end (re_source re @ [0x2F]) False False = Some (length (re_source re) + 1) \<and>
     set (re_flags re) \<subseteq> set Scanner_regexFlags"

lemma lexes_regex:
  assumes "regexp_ok re"
  shows "lexes sh boundary (0x2F # re_source re @ [0x2F] @ re_flags re) [RegexStr (0x2F # re_source re @ [0x2F] @ re_flags re)]"
proof (rule lexes_step)
  fix s :: Scanner and rest
  let ?re = "0x2F # re_source re @ [0x2F] @ re_flags re"
  assume drop: "drop (sc_current s) (sc_input s) = 0x2F # (re_source re @ [0x2F] @ re_flags re) @ rest" and ok: "boundary rest"
  note d = drop_get [OF drop]
  let ?s = "s\<lparr>sc_start := sc_current s, sc_current := Suc (sc_current s)\<rparr>"
  let ?p = "Suc (sc_current s) + (length (re_source re) + 1)"
  have "regex_end (drop (Suc (sc_current s)) (sc_input s)) False False = Some (length (re_source re) + 1)"
    using regex_end_append [of "re_source re @ [0x2F]" False False _ "re_flags re @ rest"] assms d(4) by (simp add: regexp_ok_def)
  then have "regex_loop (sc_input s) (Suc (sc_current s)) False False = Some ?p" by (simp add: regex_loop_end)
  moreover have "flags_loop (sc_input s) ?p = ?p + length (re_flags re)"
  proof (rule flags_loop_run)
    have "drop ?p (sc_input s) = drop (length (re_source re @ [0x2F])) (drop (Suc (sc_current s)) (sc_input s))"
      by (simp add: add_ac)
    also have "\<dots> = re_flags re @ rest" using d(4) by simp
    finally show "drop ?p (sc_input s) = re_flags re @ rest" .
    show "set (re_flags re) \<subseteq> set Scanner_regexFlags" using assms by (simp add: regexp_ok_def)
    show "rest = [] \<or> hd rest \<notin> set Scanner_regexFlags"
      using ok by (cases rest) (auto simp: boundary_def Scanner_regexFlags_def js_def)
  qed
  moreover have "js_substring (sc_input s) (int (sc_current s)) (int (sc_current s + length ?re)) = ?re"
    using substring_drop [of "sc_current s" "sc_input s" ?re rest] drop by simp
  moreover have "scan_step sh s = Scanner_regex sh ?s" using d(3) by (simp add: step_simps)
  ultimately show "sc_current (scan_step sh s) = sc_current s + length ?re \<and>
     map tok_type (sc_tokens (scan_step sh s)) = map tok_type (sc_tokens s) @ [RegexStr ?re] \<and> sc_errors (scan_step sh s) = sc_errors s"
    by (simp add: Scanner_regex_def Let_def add_ac)
qed

section \<open>Comparison operators\<close>

lemma lexes_comparison:
  "lexes sh (not_before 0x3D) [0x3C] [Lt]" "lexes sh (not_before 0x3D) [0x3E] [Gt]"
  "lexes sh (\<lambda>_. True) [0x3C, 0x3D] [LtEq]" "lexes sh (\<lambda>_. True) [0x3E, 0x3D] [GtEq]"
  by (rule lexes_step; simp add: step_simps drop_get match_skip match_take; fail)+

section \<open>Tokens and the text\<close>

text \<open>The lexeme of a token is the text at its offset; the lexeme of \<open>>\<close> is wrong and \<open>EOF\<close> has none.\<close>

definition token_in :: "js_string \<Rightarrow> Token \<Rightarrow> bool" where
  "token_in input t \<longleftrightarrow> tok_type t = Gt \<or> tok_type t = EOF \<or> (\<exists>rest. drop (tok_offset t) input = Scanner_getLexeme t @ rest)"

definition tokens_in :: "Scanner \<Rightarrow> bool" where
  "tokens_in s \<longleftrightarrow> (\<forall>t \<in> set (sc_tokens s). token_in (sc_input s) t)"

lemma substring_in:
  assumes "a \<le> b" "b \<le> length input"
  shows "\<exists>rest. drop a input = js_substring input (int a) (int b) @ rest"
proof -
  have "drop a input = take (b - a) (drop a input) @ drop (b - a) (drop a input)" by (rule append_take_drop_id [symmetric])
  then show ?thesis using assms by (simp add: js_substring_seg seg_def nat_diff_distrib') blast
qed

lemma tokens_in_push:
  "tokens_in s \<Longrightarrow> token_in (sc_input s) (Token ty n) \<Longrightarrow> tokens_in (Scanner_push s ty n)"
  by (auto simp: tokens_in_def)

lemma tokens_in_error:
  "tokens_in s \<Longrightarrow> sc_start s \<le> sc_current s \<Longrightarrow> sc_current s \<le> length (sc_input s) \<Longrightarrow> tokens_in (Scanner_error s a)"
  using substring_in [of "sc_start s" "sc_current s" "sc_input s"]
  by (auto simp: Scanner_error_def Let_def tokens_in_def token_in_def Scanner_getLexeme_def)

lemma getLexeme_keyword: "Scanner_keywords l = Some ty \<Longrightarrow> Scanner_getLexeme (Token ty n) = l"
  by (auto simp: Scanner_keywords_def Scanner_getLexeme_def split: if_splits)

lemma stringRe_le: "stringRe sh s \<le> length s"
proof -
  have "length (concat (takeWhile P ps)) \<le> length (concat ps)" for P and ps :: "js_string list"
    by (induction ps) auto
  from this [of "stringRe_class sh" "code_points s"] show ?thesis by (simp add: stringRe_def concat_code_points)
qed

lemma tokens_in_string:
  assumes "tokens_in s" "sc_start s \<le> length (sc_input s)"
  shows "tokens_in (Scanner_string sh s)"
proof -
  let ?n = "stringRe sh (drop (sc_start s) (sc_input s))"
  let ?l = "js_substring (sc_input s) (int (sc_start s)) (int (sc_start s + ?n))"
  have "sc_start s + ?n \<le> length (sc_input s)" using stringRe_le [of sh "drop (sc_start s) (sc_input s)"] assms(2) by simp
  then obtain rest where "drop (sc_start s) (sc_input s) = ?l @ rest" using substring_in [of "sc_start s"] by (meson le_add1)
  then have "token_in (sc_input s) (Token (case Scanner_keywords ?l of Some t \<Rightarrow> t | None \<Rightarrow> StrTok ?l) (sc_start s))"
    by (cases "Scanner_keywords ?l") (auto simp: token_in_def getLexeme_keyword, auto simp: Scanner_getLexeme_def)
  moreover have "tokens_in (s\<lparr>sc_current := n\<rparr>)" for n using assms(1) by (simp add: tokens_in_def)
  ultimately show ?thesis
    using assms(1) by (auto simp: Scanner_string_def Let_def Scanner_addToken_def intro!: tokens_in_push split: option.split)
qed

lemma tokens_in_quotedString:
  assumes "tokens_in s" "sc_current s = Suc (sc_start s)" "sc_current s \<le> length (sc_input s)"
  shows "tokens_in (Scanner_quotedString sh s)"
proof -
  define q where "q = quotedString_loop s"
  have q: "sc_input q = sc_input s" "sc_start q = sc_start s" "sc_tokens q = sc_tokens s" "Suc (sc_start s) \<le> sc_current q"
    using quotedString_loop_fields [of s] assms(2) by (auto simp: q_def)
  have le: "sc_current q \<le> length (sc_input s)"
  proof -
    have "sc_current s \<le> length (sc_input s) \<Longrightarrow> sc_current (quotedString_loop s) \<le> length (sc_input s)" for s
    proof (induction s rule: quotedString_loop.induct)
      case (1 s)
      show ?case
        using "1.IH" "1.prems" by (subst quotedString_loop.simps) (auto simp: Scanner_isAtEnd_def Scanner_advance_def)
    qed
    with assms(3) show ?thesis by (simp add: q_def)
  qed
  have tin: "tokens_in q" using assms(1) q by (simp add: tokens_in_def)
  show ?thesis
  proof (cases "Scanner_isAtEnd q")
    case True
    then show ?thesis using tin q le by (auto simp: Scanner_quotedString_def Let_def q_def [symmetric] intro!: tokens_in_error)
  next
    case False
    have "token_in (sc_input s) (Token (QuotedStr (js_substring (sc_input s) (int (Suc (sc_start s))) (int (sc_current q)))) (Suc (sc_start s)))"
      using substring_in [OF q(4) le] by (simp add: token_in_def Scanner_getLexeme_def)
    with False tin q show ?thesis
      by (auto simp: Scanner_quotedString_def Let_def q_def [symmetric] Scanner_advance_def tokens_in_def add_ac)
  qed
qed

lemma tokens_in_regex:
  assumes "tokens_in s" "sc_start s \<le> sc_current s" "sc_current s \<le> length (sc_input s)"
  shows "tokens_in (Scanner_regex sh s)"
proof (cases "regex_loop (sc_input s) (sc_current s) False False")
  case None
  have "tokens_in (s\<lparr>sc_current := length (sc_input s)\<rparr>)" using assms(1) by (simp add: tokens_in_def)
  with None assms(2,3) show ?thesis by (simp add: Scanner_regex_def max_def tokens_in_error)
next
  case (Some p)
  have regex_le: "regex_end u e c = Some k \<Longrightarrow> k \<le> length u" for u e c k
    by (induction u e c arbitrary: k rule: regex_end.induct) (auto split: if_splits)
  then have p: "p \<le> length (sc_input s)"
    using Some assms(3) by (fastforce simp: regex_loop_end)
  have flags_le: "p \<le> length u \<Longrightarrow> flags_loop u p \<le> length u" for u p
  proof (induction u p rule: flags_loop.induct)
    case (1 u p)
    then show ?case by (subst flags_loop.simps) auto
  qed
  let ?q = "flags_loop (sc_input s) p"
  have "sc_start s \<le> ?q" "?q \<le> length (sc_input s)"
    using regex_loop_gt [OF Some] flags_loop_ge [of p "sc_input s"] assms(2) flags_le [OF p] by auto
  from substring_in [OF this] have
    "token_in (sc_input s) (Token (RegexStr (js_substring (sc_input s) (int (sc_start s)) (int ?q))) (sc_start s))"
    by (simp add: token_in_def Scanner_getLexeme_def)
  with Some assms(1) show ?thesis by (auto simp: Scanner_regex_def Let_def tokens_in_def)
qed

lemma tokens_in_match:
  assumes "tokens_in s" "sc_current s \<le> length (sc_input s)" "Scanner_match s c = (s', b)"
  shows "tokens_in s'" "sc_input s' = sc_input s" "sc_start s' = sc_start s" "sc_current s \<le> sc_current s'" "sc_current s' \<le> length (sc_input s)"
    "b \<Longrightarrow> sc_current s < length (sc_input s) \<and> sc_input s ! sc_current s = c \<and> sc_current s' = Suc (sc_current s)"
  using assms by (auto simp: Scanner_match_def Scanner_isAtEnd_def tokens_in_def split: if_splits)

lemma tokens_in_if: "(c \<Longrightarrow> tokens_in a) \<Longrightarrow> (\<not> c \<Longrightarrow> tokens_in b) \<Longrightarrow> tokens_in (if c then a else b)"
  by simp

text \<open>A fixed lexeme that has just been read\<close>

lemma token_in_read:
  assumes "drop n input = rest" "take (length (Scanner_getLexeme (Token ty n))) rest = Scanner_getLexeme (Token ty n)"
  shows "token_in input (Token ty n)"
proof -
  have "rest = Scanner_getLexeme (Token ty n) @ drop (length (Scanner_getLexeme (Token ty n))) rest"
    using append_take_drop_id [of "length (Scanner_getLexeme (Token ty n))" rest] assms(2) by simp
  with assms(1) show ?thesis by (auto simp: token_in_def)
qed

lemma tokens_in_step:
  assumes "tokens_in s" "sc_current s < length (sc_input s)"
  shows "tokens_in (scan_step sh s)"
proof -
  obtain ch rest where d: "drop (sc_current s) (sc_input s) = ch # rest" using assms(2) by (metis Cons_nth_drop_Suc)
  note g = drop_get [OF d]
  define s0 where "s0 = s\<lparr>sc_start := sc_current s, sc_current := Suc (sc_current s)\<rparr>"
  have s0: "tokens_in s0" "sc_input s0 = sc_input s" "sc_start s0 = sc_current s" "sc_current s0 = Suc (sc_current s)"
      "Suc (sc_current s) \<le> length (sc_input s)"
    using assms by (auto simp: s0_def tokens_in_def)
  have adv: "Scanner_advance (s\<lparr>sc_start := sc_current s\<rparr>) = (s0, Some ch)"
    using g(3) by (simp add: Scanner_advance_def s0_def)
  have one: "tokens_in (Scanner_addToken s' ty)"
    if "tokens_in s'" "sc_input s' = sc_input s" "sc_start s' = sc_current s" "ty = Gt \<or> Scanner_getLexeme (Token ty (sc_current s)) = [ch]" for s' ty
    using that token_in_read [OF d, of ty] by (auto simp: Scanner_addToken_def intro!: tokens_in_push) (auto simp: token_in_def)
  have m1: "tokens_in s1 \<and> sc_input s1 = sc_input s \<and> sc_start s1 = sc_current s \<and> sc_start s1 \<le> sc_current s1 \<and>
      sc_current s1 \<le> length (sc_input s) \<and> (b \<longrightarrow> (\<exists>r. rest = c # r \<and> drop (sc_current s1) (sc_input s) = r))" if "Scanner_match s0 c = (s1, b)" for s1 b c
  proof -
    note m = tokens_in_match [OF s0(1) _ that]
    have "\<exists>r. rest = c # r \<and> drop (Suc (Suc (sc_current s))) (sc_input s) = r"
      if "Suc (sc_current s) < length (sc_input s)" "sc_input s ! Suc (sc_current s) = c"
      using Cons_nth_drop_Suc [OF that(1)] g(4) that(2) by auto
    with m s0 show ?thesis by auto
  qed
  have m2: "tokens_in s2 \<and> sc_input s2 = sc_input s \<and> sc_start s2 = sc_current s \<and> (b2 \<longrightarrow> (\<exists>r. rest = c # c2 # r))"
    if m: "Scanner_match s0 c = (s1, True)" "Scanner_match s1 c2 = (s2, b2)" for s1 s2 b2 c c2
  proof -
    note 1 = m1 [OF m(1)]
    then obtain r where r: "rest = c # r" "drop (sc_current s1) (sc_input s) = r" by blast
    have "\<exists>r'. r = c2 # r'" if "sc_current s1 < length (sc_input s)" "sc_input s ! sc_current s1 = c2"
      using Cons_nth_drop_Suc [OF that(1)] r(2) that(2) by auto
    with 1 r(1) tokens_in_match [OF _ _ m(2)] show ?thesis by auto
  qed
  have err: "tokens_in (Scanner_error s' a)"
    if "tokens_in s'" "sc_input s' = sc_input s" "sc_start s' = sc_current s" "sc_start s' \<le> sc_current s'" "sc_current s' \<le> length (sc_input s)" for s' a
    using that by (auto intro!: tokens_in_error)
  have two: "tokens_in (Scanner_push s' ty (sc_current s))"
    if "tokens_in s'" "sc_input s' = sc_input s" "sc_start s' = sc_current s"
       "take (length (Scanner_getLexeme (Token ty (sc_current s)))) (ch # rest) = Scanner_getLexeme (Token ty (sc_current s))" for s' ty
    using that token_in_read [OF d, of ty] by (auto intro!: tokens_in_push)
  have lexeme: "Scanner_getLexeme (Token LParen n) = [0x28]" "Scanner_getLexeme (Token RParen n) = [0x29]" "Scanner_getLexeme (Token Neg n) = [0x21]"
      "Scanner_getLexeme (Token Lt n) = [0x3C]" "Scanner_getLexeme (Token LtEq n) = [0x3C, 0x3D]" "Scanner_getLexeme (Token GtEq n) = [0x3E, 0x3D]"
      "Scanner_getLexeme (Token RegexOp n) = [0x3D, 0x7E]" "Scanner_getLexeme (Token AndTok n) = [0x26, 0x26]" "Scanner_getLexeme (Token OrTok n) = [0x7C, 0x7C]"
      "Scanner_getLexeme (Token (Eq b) n) = (if b then [0x3D, 0x3D, 0x3D] else [0x3D, 0x3D])"
      "Scanner_getLexeme (Token (NotEq b) n) = (if b then [0x21, 0x3D, 0x3D] else [0x21, 0x3D])" for n b
    by (simp_all add: Scanner_getLexeme_def js_def)
  have add: "Scanner_addToken s' ty = Scanner_push s' ty (sc_start s')" for s' ty by (simp add: Scanner_addToken_def)
  obtain s1 b1 s2 b2 s3 b3 s4 b4 s5 b5 where
    eqs: "Scanner_match s0 0x3D = (s1, b1)" "Scanner_match s1 0x3D = (s2, b2)" "Scanner_match s0 0x26 = (s4, b4)" "Scanner_match s0 0x7C = (s5, b5)"
      "Scanner_match s1 0x7E = (s3, b3)"
    by (metis prod.exhaust)
  have s1_False: "s1 = s0" if "\<not> b1" using eqs(1) that by (auto simp: Scanner_match_def split: if_splits)
  note 1 = m1 [OF eqs(1)] and 4 = m1 [OF eqs(3)] and 5 = m1 [OF eqs(4)]
  have 2: "tokens_in s2 \<and> sc_input s2 = sc_input s \<and> sc_start s2 = sc_current s \<and> (b2 \<longrightarrow> (\<exists>r. rest = 0x3D # 0x3D # r))" if b1
    by (rule m2 [OF _ eqs(2)]) (use eqs(1) that in simp)
  have 3: "\<not> b1 \<Longrightarrow> tokens_in s3 \<and> sc_input s3 = sc_input s \<and> sc_start s3 = sc_current s \<and> sc_start s3 \<le> sc_current s3 \<and>
      sc_current s3 \<le> length (sc_input s) \<and> (b3 \<longrightarrow> (\<exists>r. rest = 0x7E # r))"
    using m1 [of "0x7E" s3 b3] eqs(5) s1_False by auto
  have gt: "tokens_in (Scanner_addToken s1 Gt)" using one [of s1 Gt] 1 by simp
  show ?thesis
    unfolding scan_step_def Let_def adv prod.case eqs option.inject
  proof (intro tokens_in_if)
    show "tokens_in (case b1 of True \<Rightarrow> Scanner_push s2 (NotEq b2) (sc_start s2) | False \<Rightarrow> Scanner_addToken s1 Neg)" if "ch = 0x21"
      using 1 2 that unfolding add by (cases b1; cases b2) (auto simp: lexeme intro!: two)
    show "tokens_in (case b1 of True \<Rightarrow> Scanner_push s2 (Eq b2) (sc_start s2)
        | False \<Rightarrow> (case b3 of True \<Rightarrow> Scanner_addToken s3 RegexOp | False \<Rightarrow> Scanner_error s3 (hintDidYouMean sh [js ''=='', js ''=~''])))" if "ch = 0x3D"
      using 1 2 3 that unfolding add by (cases b1; cases b2; cases b3) (auto simp: lexeme intro!: two err)
    show "tokens_in (Scanner_addToken s1 (if b1 then LtEq else Lt))" if "ch = 0x3C"
      using 1 that unfolding add by (cases b1) (auto simp: lexeme intro!: two)
    show "tokens_in (Scanner_addToken s1 (if b1 then GtEq else Gt))" if "ch = 0x3E"
      using 1 that gt unfolding add by (cases b1) (auto simp: lexeme intro!: two)
    show "tokens_in (case b4 of True \<Rightarrow> Scanner_addToken s4 AndTok | False \<Rightarrow> Scanner_error s4 (hintDidYouMean sh [js ''&&'']))" if "ch = 0x26"
      using 4 that unfolding add by (cases b4) (auto simp: lexeme intro!: two err)
    show "tokens_in (case b5 of True \<Rightarrow> Scanner_addToken s5 OrTok | False \<Rightarrow> Scanner_error s5 (hintDidYouMean sh [js ''||'']))" if "ch = 0x7C"
      using 5 that unfolding add by (cases b5) (auto simp: lexeme intro!: two err)
  qed (use s0 in \<open>auto simp: lexeme intro!: one tokens_in_quotedString tokens_in_regex tokens_in_string\<close>)
qed

text \<open>
  C22: Every token of a scanned text has as its lexeme the text at its offset, and \<open>getLexeme\<close>
  returns it, except for \<open>>\<close>, for which \<open>getLexeme\<close> returns \<open>>=\<close>, and the final \<open>EOF\<close>.
\<close>

theorem Scanner_scan_lexemes:
  assumes "t \<in> set (snd (Scanner_scan sh (Scanner_reset s input)))" "tok_type t \<noteq> Gt" "tok_type t \<noteq> EOF"
  shows "\<exists>rest. drop (tok_offset t) input = Scanner_getLexeme t @ rest"
proof -
  have loop: "tokens_in s \<Longrightarrow> tokens_in (scan_loop sh s) \<and> sc_input (scan_loop sh s) = sc_input s" for s
  proof (induction sh s rule: scan_loop.induct)
    case (1 sh s)
    then show ?case
      using tokens_in_step [of s sh] scan_step_fields [of sh s]
      by (subst (1 2) scan_loop.simps) (auto simp: Scanner_isAtEnd_def)
  qed
  have "tokens_in (Scanner_reset s input)" "sc_input (Scanner_reset s input) = input" by (simp_all add: Scanner_reset_def tokens_in_def)
  from loop [OF this(1)] this(2) assms show ?thesis
    by (auto simp: Scanner_scan_def Let_def Scanner_addToken_def tokens_in_def token_in_def)
qed

theorem Scanner_scan_lexemes_witness:
  "\<exists>rest. drop 1 (js ''!a'') = Scanner_getLexeme (Token (StrTok (js ''a'')) 1) @ rest"
proof -
  let ?sh = "\<lparr>sh_localize = (\<lambda>k t args. t), sh_letter = (\<lambda>p. False)\<rparr>"
  let ?s = "\<lparr>sc_input = [], sc_start = 0, sc_current = 0, sc_tokens = [], sc_errors = []\<rparr>"
  have "snd (Scanner_scan ?sh (Scanner_reset ?s (js ''!a''))) = [Token Neg 0, Token (StrTok (js ''a'')) 1, Token EOF 2]" by code_simp
  then show ?thesis
    using Scanner_scan_lexemes [of "Token (StrTok (js ''a'')) 1" ?sh ?s "js ''!a''"] by simp
qed

text \<open>
  A character that starts no token is dropped: it yields neither a token nor an error.
\<close>

theorem Scanner_scan_skips_unknown:
  assumes "\<not> stringRe_class sh [x]" "x \<notin> {0x28, 0x29, 0x21, 0x27, 0x2F, 0x3D, 0x3C, 0x3E, 0x26, 0x7C, 0x20, 0x0D, 0x09, 0x0A, 0xA0}"
  shows "map tok_type (snd (Scanner_scan sh (Scanner_reset s [x]))) = [EOF] \<and> sc_errors (fst (Scanner_scan sh (Scanner_reset s [x]))) = []"
proof -
  have "lexes sh (\<lambda>rest. rest = []) [x] []"
  proof (rule lexes_step)
    fix s :: Scanner and rest assume "drop (sc_current s) (sc_input s) = x # [] @ rest" and "rest = []"
    then have d: "drop (sc_current s) (sc_input s) = [x]" by simp
    have "stringRe sh [x] = 0" using assms(1) by (simp add: stringRe_def)
    with d drop_get(3) [OF d] assms(2) show "sc_current (scan_step sh s) = sc_current s + length [x] \<and>
        map tok_type (sc_tokens (scan_step sh s)) = map tok_type (sc_tokens s) @ [] \<and> sc_errors (scan_step sh s) = sc_errors s"
      by (simp add: step_simps Scanner_string_def)
  qed
  from lexes_whole [OF this refl] show ?thesis by simp
qed

theorem Scanner_scan_skips_unknown_witness:
  "map tok_type (snd (Scanner_scan \<lparr>sh_localize = (\<lambda>k t args. t), sh_letter = (\<lambda>p. False)\<rparr> (Scanner_reset \<lparr>sc_input = [], sc_start = 0, sc_current = 0, sc_tokens = [], sc_errors = []\<rparr> [0x7B]))) = [EOF] \<and>
   sc_errors (fst (Scanner_scan \<lparr>sh_localize = (\<lambda>k t args. t), sh_letter = (\<lambda>p. False)\<rparr> (Scanner_reset \<lparr>sc_input = [], sc_start = 0, sc_current = 0, sc_tokens = [], sc_errors = []\<rparr> [0x7B]))) = []"
  by (rule Scanner_scan_skips_unknown) (simp_all add: stringRe_class_def js_def)

end
