(* ===== verification/ContextKeyRoundTrip.thy ===== *)
theory ContextKeyRoundTrip
  imports ContextKeyLexing ContextKeyParsing
begin

text \<open>
  Reading back what \<open>serialize\<close> wrote. The text of an expression in disjunctive normal form is
  scanned into the tokens of its leaves with \<open>&&\<close> and \<open>||\<close> between them, and parsing these gives
  an expression with the same value.
\<close>

section \<open>Readable expressions\<close>

text \<open>
  The keys are words of the scanner and no keywords, quoted values have no quote, numbers are
  printed as words that \<open>parseFloat\<close> reads back, and \<open>new RegExp\<close> gives a regular expression
  back from its source and flags, which are not \<open>g\<close> or \<open>y\<close>.
\<close>

definition key_ok :: "scan_host \<Rightarrow> js_string \<Rightarrow> bool" where
  "key_ok sh k \<longleftrightarrow> word_ok sh k \<and> Scanner_keywords k = None"

definition number_ok :: "parser_host \<Rightarrow> js_prim \<Rightarrow> bool" where
  "number_ok c v \<longleftrightarrow> (case v of Number n \<Rightarrow> n \<noteq> NaN \<and> key_ok (ph_scan c) (host_numberToString (ph_js c) n) \<and>
     host_parseFloat (ph_js c) (host_numberToString (ph_js c) n) = n | _ \<Rightarrow> False)"

definition quotable :: "js_prim \<Rightarrow> bool" where
  "quotable v \<longleftrightarrow> (case v of Str s \<Rightarrow> 0x27 \<notin> set s | _ \<Rightarrow> False)"

definition regexp_readable :: "parser_host \<Rightarrow> RegExp option \<Rightarrow> bool" where
  "regexp_readable c re \<longleftrightarrow> (case re of None \<Rightarrow> False | Some re \<Rightarrow> regexp_ok re \<and> 0x67 \<notin> set (re_flags re) \<and> 0x79 \<notin> set (re_flags re) \<and>
     ph_newRegExp c (re_source re) (if re_flags re = [] then None else Some (re_flags re)) = Some re)"

fun readable :: "parser_host \<Rightarrow> ContextKeyExpression \<Rightarrow> bool" where
  "readable c FalseExpr = True"
| "readable c TrueExpr = True"
| "readable c (DefinedExpr k n) = key_ok (ph_scan c) k"
| "readable c (NotExpr k n) = key_ok (ph_scan c) k"
| "readable c (EqualsExpr k v n) = (key_ok (ph_scan c) k \<and> quotable v)"
| "readable c (NotEqualsExpr k v n) = (key_ok (ph_scan c) k \<and> quotable v)"
| "readable c (AndExpr es n) = (es \<noteq> [] \<and> (\<forall>e \<in> set es. readable c e))"
| "readable c (RegexExpr k re) = (key_ok (ph_scan c) k \<and> regexp_readable c re)"
| "readable c (NotRegexExpr k re) = (key_ok (ph_scan c) k \<and> regexp_readable c re)"
| "readable c (OrExpr es n) = (es \<noteq> [] \<and> (\<forall>e \<in> set es. readable c e))"
| "readable c (InExpr k v) = (key_ok (ph_scan c) k \<and> quotable (Str v))"
| "readable c (NotInExpr k v) = (key_ok (ph_scan c) k \<and> quotable (Str v))"
| "readable c (GreaterExpr k v n) = (key_ok (ph_scan c) k \<and> number_ok c v)"
| "readable c (GreaterEqualsExpr k v n) = (key_ok (ph_scan c) k \<and> number_ok c v)"
| "readable c (SmallerExpr k v n) = (key_ok (ph_scan c) k \<and> number_ok c v)"
| "readable c (SmallerEqualsExpr k v n) = (key_ok (ph_scan c) k \<and> number_ok c v)"

definition regexp_lexeme :: "RegExp option \<Rightarrow> js_string" where
  "regexp_lexeme re = (case re of Some re \<Rightarrow> 0x2F # re_source re @ [0x2F] @ re_flags re | None \<Rightarrow> js ''/invalid/'')"

fun tokens_of :: "js_host \<Rightarrow> ContextKeyExpression \<Rightarrow> TokenType list" where
  "tokens_of h FalseExpr = [FalseTok]"
| "tokens_of h TrueExpr = [TrueTok]"
| "tokens_of h (DefinedExpr k n) = [StrTok k]"
| "tokens_of h (NotExpr k n) = [Neg, StrTok k]"
| "tokens_of h (EqualsExpr k v n) = [StrTok k, Eq False, QuotedStr (prim_to_string h v)]"
| "tokens_of h (NotEqualsExpr k v n) = [StrTok k, NotEq False, QuotedStr (prim_to_string h v)]"
| "tokens_of h (AndExpr es n) = join_with [AndTok] (map (tokens_of h) es)"
| "tokens_of h (RegexExpr k re) = [StrTok k, RegexOp, RegexStr (regexp_lexeme re)]"
| "tokens_of h (NotRegexExpr k re) = [Neg, LParen, StrTok k, RegexOp, RegexStr (regexp_lexeme re), RParen]"
| "tokens_of h (OrExpr es n) = join_with [OrTok] (map (tokens_of h) es)"
| "tokens_of h (InExpr k v) = [StrTok k, InTok, QuotedStr v]"
| "tokens_of h (NotInExpr k v) = [StrTok k, NotTok, InTok, QuotedStr v]"
| "tokens_of h (GreaterExpr k v n) = [StrTok k, Gt, StrTok (prim_to_string h v)]"
| "tokens_of h (GreaterEqualsExpr k v n) = [StrTok k, GtEq, StrTok (prim_to_string h v)]"
| "tokens_of h (SmallerExpr k v n) = [StrTok k, Lt, StrTok (prim_to_string h v)]"
| "tokens_of h (SmallerEqualsExpr k v n) = [StrTok k, LtEq, StrTok (prim_to_string h v)]"

section \<open>Scanning the text of an expression\<close>

lemma lexes_join:
  assumes "es \<noteq> []" "\<And>e. e \<in> set es \<Longrightarrow> lexes sh boundary (f e) (g e)" "lexes sh (\<lambda>_. True) sep t" "sep \<noteq> []" "hd sep = 0x20"
  shows "lexes sh boundary (join_with sep (map f es)) (join_with t (map g es))"
  using assms(1,2)
proof (induction es rule: induct_list012)
  case (3 a b es)
  have "lexes sh boundary (join_with sep (map f (b # es))) (join_with t (map g (b # es)))" using 3 by simp
  then have "lexes sh boundary (sep @ join_with sep (map f (b # es))) (t @ join_with t (map g (b # es)))"
    by (rule lexes_append [OF assms(3)]) simp
  then have "lexes sh boundary (f a @ sep @ join_with sep (map f (b # es))) (g a @ t @ join_with t (map g (b # es)))"
    using assms(4,5) by (intro lexes_append [OF "3.prems"(2)]) (cases sep; auto simp: boundary_def)+
  then show ?case by simp
qed simp_all

lemma word_boundary [simp]: "boundary (0x20 # s)" "boundary []" "boundary (0x29 # s)" "boundary (js ('' '' @ s'))"
  by (auto simp: boundary_def js_def)

lemma lexes_key: "key_ok sh k \<Longrightarrow> letters_ok sh \<Longrightarrow> lexes sh boundary k [StrTok k]"
  using lexes_word [of sh k] by (simp add: key_ok_def word_type_def)

lemma not_before_boundary: "boundary s \<Longrightarrow> not_before 0x3D s"
  by (auto simp: boundary_def not_before_def split: list.split)

text \<open>A key, a space, an operator and a space\<close>

lemma lexes_operator:
  assumes "key_ok sh k" "letters_ok sh" "lexes sh boundary op t" "lexes sh ok v t'"
  shows "lexes sh ok (k @ [0x20] @ op @ [0x20] @ v) (StrTok k # t @ t')"
proof -
  have "lexes sh ok ([0x20] @ v) ([] @ t')" by (rule lexes_append [OF lexes_space assms(4)]) simp
  then have "lexes sh ok (op @ [0x20] @ v) (t @ t')" using lexes_append [OF assms(3), of ok "[0x20] @ v" t'] by simp
  then have "lexes sh ok ([0x20] @ op @ [0x20] @ v) ([] @ t @ t')" by (rule lexes_append [OF lexes_space]) simp
  then show ?thesis using lexes_append [OF lexes_key [OF assms(1,2)], of ok "[0x20] @ op @ [0x20] @ v"] by simp
qed

lemma lexes_keyword:
  assumes "letters_ok sh"
  shows "lexes sh boundary (js ''in'') [InTok]" "lexes sh boundary (js ''not'') [NotTok]"
    "lexes sh boundary (js ''true'') [TrueTok]" "lexes sh boundary (js ''false'') [FalseTok]"
proof -
  have "word_ok sh (js ''in'')" "word_ok sh (js ''not'')" "word_ok sh (js ''true'')" "word_ok sh (js ''false'')"
    by (simp_all add: word_ok_def js_def stringRe_class_def is_high_surrogate_def)
  note this [THEN lexes_word, OF assms]
  then show "lexes sh boundary (js ''in'') [InTok]" "lexes sh boundary (js ''not'') [NotTok]"
    "lexes sh boundary (js ''true'') [TrueTok]" "lexes sh boundary (js ''false'') [FalseTok]"
    by (simp_all add: word_type_def Scanner_keywords_def js_def)
qed

lemma boundary_operators:
  "lexes sh boundary [0x3D, 0x3D] [Eq False]" "lexes sh boundary [0x21, 0x3D] [NotEq False]" "lexes sh boundary [0x3D, 0x7E] [RegexOp]"
  "lexes sh boundary [0x3C] [Lt]" "lexes sh boundary [0x3E] [Gt]" "lexes sh boundary [0x3C, 0x3D] [LtEq]" "lexes sh boundary [0x3E, 0x3D] [GtEq]"
  by (rule lexes_weaken [OF lexes_Eq] lexes_weaken [OF lexes_NotEq] lexes_weaken [OF lexes_RegexOp]
      lexes_weaken [OF lexes_comparison(1)] lexes_weaken [OF lexes_comparison(2)] lexes_weaken [OF lexes_comparison(3)]
      lexes_weaken [OF lexes_comparison(4)]; simp add: not_before_boundary; fail)+

lemma lexes_quoted_value:
  "quotable v \<Longrightarrow> lexes sh boundary ([0x27] @ prim_to_string h v @ [0x27]) [QuotedStr (prim_to_string h v)]"
  using lexes_weaken [OF lexes_quoted] by (auto simp: quotable_def split: js_prim.splits)

lemma lexes_number:
  "number_ok c v \<Longrightarrow> letters_ok (ph_scan c) \<Longrightarrow>
   lexes (ph_scan c) boundary (prim_to_string (ph_js c) v) [StrTok (prim_to_string (ph_js c) v)]"
  by (auto simp: number_ok_def lexes_key split: js_prim.splits)

lemma lexes_regex_expr:
  assumes "key_ok (ph_scan c) k" "regexp_readable c re" "letters_ok (ph_scan c)"
  shows "lexes (ph_scan c) boundary (ContextKeyRegexExpr_serialize k re) [StrTok k, RegexOp, RegexStr (regexp_lexeme re)]"
proof -
  obtain r where r: "re = Some r" "regexp_ok r" using assms(2) by (auto simp: regexp_readable_def split: option.splits)
  show ?thesis
    using lexes_operator [OF assms(1,3) boundary_operators(3) lexes_regex [OF r(2)]]
    by (simp add: ContextKeyRegexExpr_serialize_def r(1) regexp_lexeme_def js_def)
qed

lemmas serialize_defs = ContextKeyFalseExpr_serialize_def ContextKeyTrueExpr_serialize_def ContextKeyDefinedExpr_serialize_def
  ContextKeyNotExpr_serialize_def ContextKeyEqualsExpr_serialize_def ContextKeyNotEqualsExpr_serialize_def
  ContextKeyInExpr_serialize_def ContextKeyNotInExpr_serialize_def ContextKeyNotRegexExpr_serialize_def
  ContextKeyGreaterExpr_serialize_def ContextKeyGreaterEqualsExpr_serialize_def ContextKeySmallerExpr_serialize_def
  ContextKeySmallerEqualsExpr_serialize_def ContextKeyAndExpr_serialize_def ContextKeyOrExpr_serialize_def

lemma lexes_not:
  assumes "key_ok sh k" "letters_ok sh"
  shows "lexes sh boundary (0x21 # k) [Neg, StrTok k]"
proof -
  have "lexes sh boundary ([0x21] @ k) ([Neg] @ [StrTok k])"
    using assms(1) by (intro lexes_append [OF lexes_Neg lexes_key [OF assms]]) (cases k; auto simp: key_ok_def word_ok_def not_before_def)
  then show ?thesis by simp
qed

lemma lexes_not_in:
  assumes "key_ok sh k" "letters_ok sh" "quotable (Str v)"
  shows "lexes sh boundary (k @ [0x20] @ js ''not in '' @ [0x27] @ v @ [0x27]) [StrTok k, NotTok, InTok, QuotedStr v]"
proof -
  have "lexes sh boundary ([0x20] @ js ''in'') ([] @ [InTok])" using lexes_append [OF lexes_space lexes_keyword(1) [OF assms(2)]] by simp
  then have "lexes sh boundary (js ''not'' @ [0x20] @ js ''in'') ([NotTok] @ [InTok])"
    using lexes_append [OF lexes_keyword(2) [OF assms(2)]] by simp
  from lexes_operator [OF assms(1,2) this lexes_quoted_value [OF assms(3)]] show ?thesis by (simp add: js_def)
qed

lemma lexes_not_regex:
  assumes "key_ok (ph_scan c) k" "regexp_readable c re" "letters_ok (ph_scan c)"
  shows "lexes (ph_scan c) boundary (ContextKeyNotRegexExpr_serialize k re) [Neg, LParen, StrTok k, RegexOp, RegexStr (regexp_lexeme re), RParen]"
proof -
  have "lexes (ph_scan c) boundary (ContextKeyRegexExpr_serialize k re @ [0x29]) ([StrTok k, RegexOp, RegexStr (regexp_lexeme re)] @ [RParen])"
    using lexes_append [OF lexes_regex_expr [OF assms] lexes_weaken [OF lexes_RParen]] by simp
  then have "lexes (ph_scan c) boundary ([0x28] @ ContextKeyRegexExpr_serialize k re @ [0x29])
      ([LParen] @ [StrTok k, RegexOp, RegexStr (regexp_lexeme re)] @ [RParen])" by (intro lexes_append [OF lexes_LParen]) simp_all
  then have "lexes (ph_scan c) boundary ([0x21] @ [0x28] @ ContextKeyRegexExpr_serialize k re @ [0x29])
      ([Neg] @ [LParen] @ [StrTok k, RegexOp, RegexStr (regexp_lexeme re)] @ [RParen])"
    by (intro lexes_append [OF lexes_Neg]) (simp_all add: not_before_def)
  then show ?thesis by (simp add: ContextKeyNotRegexExpr_serialize_def js_def)
qed

lemma lexes_connective:
  "lexes sh (\<lambda>_. True) (js '' && '') [AndTok]" "lexes sh (\<lambda>_. True) (js '' || '') [OrTok]"
proof -
  have "lexes sh (\<lambda>_. True) ([0x20] @ op @ [0x20]) ([] @ t @ [])" if "lexes sh (\<lambda>_. True) op t" for op t
    by (intro lexes_append [OF lexes_space] lexes_append [OF that lexes_space]) simp_all
  from this [OF lexes_And] this [OF lexes_Or] show
    "lexes sh (\<lambda>_. True) (js '' && '') [AndTok]" "lexes sh (\<lambda>_. True) (js '' || '') [OrTok]" by (simp_all add: js_def)
qed

text \<open>The text of a readable expression is scanned into its tokens.\<close>

lemma lexes_serialize:
  assumes "letters_ok (ph_scan c)"
  shows "readable c e \<Longrightarrow> lexes (ph_scan c) boundary (ContextKeyExpr_serialize (ph_js c) e) (tokens_of (ph_js c) e)"
proof (induction e rule: measure_induct_rule [of size])
  case (less e)
  note op = lexes_operator [OF _ assms]
  show ?case
  proof (cases e)
    case (AndExpr es n)
    with less.prems less.IH [OF size_parts_negated(1)] show ?thesis
      unfolding AndExpr ContextKeyExpr_serialize.simps tokens_of.simps serialize_defs
      by (intro lexes_join lexes_connective(1)) (simp_all add: js_def)
  next
    case (OrExpr es n)
    with less.prems less.IH [OF size_parts_negated(1)] show ?thesis
      unfolding OrExpr ContextKeyExpr_serialize.simps tokens_of.simps serialize_defs
      by (intro lexes_join lexes_connective(2)) (simp_all add: js_def)
  next
    case (InExpr k v)
    with less.prems op [OF _ lexes_keyword(1) [OF assms] lexes_quoted_value [of "Str v"]] show ?thesis
      by (simp add: serialize_defs js_def)
  next
    case (NotInExpr k v)
    with less.prems lexes_not_in [OF _ assms, of k v] show ?thesis by (simp add: serialize_defs js_def)
  next
    case (EqualsExpr k v n)
    with less.prems op [OF _ boundary_operators(1) lexes_quoted_value [of v]] show ?thesis by (simp add: serialize_defs js_def)
  next
    case (NotEqualsExpr k v n)
    with less.prems op [OF _ boundary_operators(2) lexes_quoted_value [of v]] show ?thesis by (simp add: serialize_defs js_def)
  next
    case (GreaterExpr k v n)
    with less.prems op [OF _ boundary_operators(5) lexes_number [of c v]] assms show ?thesis by (simp add: serialize_defs js_def)
  next
    case (GreaterEqualsExpr k v n)
    with less.prems op [OF _ boundary_operators(7) lexes_number [of c v]] assms show ?thesis by (simp add: serialize_defs js_def)
  next
    case (SmallerExpr k v n)
    with less.prems op [OF _ boundary_operators(4) lexes_number [of c v]] assms show ?thesis by (simp add: serialize_defs js_def)
  next
    case (SmallerEqualsExpr k v n)
    with less.prems op [OF _ boundary_operators(6) lexes_number [of c v]] assms show ?thesis by (simp add: serialize_defs js_def)
  next
    case (NotExpr k n)
    with less.prems lexes_not [OF _ assms, of k] show ?thesis by (simp add: serialize_defs js_def)
  qed (use less.prems assms lexes_key [of "ph_scan c"] lexes_keyword lexes_regex_expr lexes_not_regex in \<open>auto simp: serialize_defs\<close>)
qed

section \<open>Parsing tokens\<close>

definition upcoming :: "Parser \<Rightarrow> TokenType list \<Rightarrow> bool" where
  "upcoming st tys \<longleftrightarrow> map tok_type (drop (ps_current st) (ps_tokens st)) = tys"

text \<open>
  \<open>parses m tys ok Q\<close>: on tokens of the types \<open>tys\<close> followed by an \<open>ok\<close> rest, \<open>m\<close> reads these
  tokens, reports no error and returns a value with \<open>Q\<close>.
\<close>

definition parses :: "'a parsing \<Rightarrow> TokenType list \<Rightarrow> (TokenType list \<Rightarrow> bool) \<Rightarrow> ('a \<Rightarrow> bool) \<Rightarrow> bool" where
  "parses m tys ok Q \<longleftrightarrow> (\<forall>st rest. upcoming st (tys @ rest) \<longrightarrow> ok rest \<longrightarrow>
     (\<exists>st' x. m st = Some (st', Inr x) \<and> upcoming st' rest \<and> ps_parsingErrors st' = ps_parsingErrors st \<and> Q x))"

lemma parsesI:
  "(\<And>st rest. upcoming st (tys @ rest) \<Longrightarrow> ok rest \<Longrightarrow>
     \<exists>st' x. m st = Some (st', Inr x) \<and> upcoming st' rest \<and> ps_parsingErrors st' = ps_parsingErrors st \<and> Q x) \<Longrightarrow> parses m tys ok Q"
  by (auto simp: parses_def)

lemma parses_bind:
  assumes "parses m t ok P" "\<And>x. P x \<Longrightarrow> parses (f x) t' ok' Q" "\<And>rest. ok' rest \<Longrightarrow> ok (t' @ rest)"
  shows "parses (p_bind m f) (t @ t') ok' Q"
proof (rule parsesI)
  fix st rest assume up: "upcoming st ((t @ t') @ rest)" and ok: "ok' rest"
  then obtain st1 x where 1: "m st = Some (st1, Inr x)" "upcoming st1 (t' @ rest)" "ps_parsingErrors st1 = ps_parsingErrors st" "P x"
    using assms(1,3) unfolding parses_def by (metis append.assoc)
  then obtain st2 y where "f x st1 = Some (st2, Inr y)" "upcoming st2 rest" "ps_parsingErrors st2 = ps_parsingErrors st1" "Q y"
    using assms(2) ok unfolding parses_def by metis
  with 1 show "\<exists>st' x. p_bind m f st = Some (st', Inr x) \<and> upcoming st' rest \<and> ps_parsingErrors st' = ps_parsingErrors st \<and> Q x"
    by (auto simp: p_bind_def)
qed

lemma parses_return: "Q x \<Longrightarrow> parses (p_return x) [] ok Q"
  by (auto simp: parses_def p_return_def)

lemma parses_lift: "r = Some x \<Longrightarrow> Q x \<Longrightarrow> parses (p_lift r) [] ok Q"
  by (auto simp: parses_def p_lift_def)

lemma parses_mono: "parses m t ok P \<Longrightarrow> (\<And>x. P x \<Longrightarrow> Q x) \<Longrightarrow> (\<And>rest. ok' rest \<Longrightarrow> ok rest) \<Longrightarrow> parses m t ok' Q"
  unfolding parses_def by blast

lemma upcoming_Cons:
  assumes "upcoming st (t # rest)"
  obtains tok where "Parser_peek st = Some (st, Inr tok)" "tok_type tok = t" "ps_tokens st ! ps_current st = tok" "ps_current st < length (ps_tokens st)"
    "t \<noteq> EOF \<Longrightarrow> Parser_advance st = Some (st\<lparr>ps_current := ps_current st + 1\<rparr>, Inr ())" "upcoming (st\<lparr>ps_current := ps_current st + 1\<rparr>) rest"
proof -
  obtain tok toks where d: "drop (ps_current st) (ps_tokens st) = tok # toks" "tok_type tok = t" "map tok_type toks = rest"
    using assms by (auto simp: upcoming_def)
  note g = drop_get [OF d(1)]
  show thesis
    by (rule that [of tok])
      (use d g in \<open>auto simp: Parser_peek_def p_lift_def Parser_advance_def Parser_isAtEnd_def p_bind_def p_return_def upcoming_def\<close>)
qed

lemma parses_advance: "t \<noteq> EOF \<Longrightarrow> parses Parser_advance [t] (\<lambda>_. True) (\<lambda>_. True)"
proof (rule parsesI)
  fix st rest assume "t \<noteq> EOF" "upcoming st ([t] @ rest)"
  then show "\<exists>st' x. Parser_advance st = Some (st', Inr x) \<and> upcoming st' rest \<and> ps_parsingErrors st' = ps_parsingErrors st \<and> True"
    by (auto elim!: upcoming_Cons)
qed

lemma parses_advance_then: "t \<noteq> EOF \<Longrightarrow> parses (f ()) ts ok Q \<Longrightarrow> parses (p_bind Parser_advance f) (t # ts) ok Q"
  using parses_bind [OF parses_advance, of t f ts ok Q] by simp

lemma parses_peek:
  assumes "\<And>tok rest. ok rest \<Longrightarrow> tys @ rest \<noteq> [] \<and> (tok_type tok = hd (tys @ rest) \<longrightarrow> parses (f tok) tys ok Q)"
  shows "parses (p_bind Parser_peek f) tys ok Q"
proof (rule parsesI)
  fix st rest assume up: "upcoming st (tys @ rest)" and ok: "ok rest"
  have "tys @ rest = hd (tys @ rest) # tl (tys @ rest)" using assms [OF ok] by auto
  with up obtain tok where tok: "Parser_peek st = Some (st, Inr tok)" "tok_type tok = hd (tys @ rest)" by (metis upcoming_Cons)
  with assms [OF ok] up ok have "\<exists>st' x. f tok st = Some (st', Inr x) \<and> upcoming st' rest \<and> ps_parsingErrors st' = ps_parsingErrors st \<and> Q x"
    unfolding parses_def by blast
  with tok(1) show "\<exists>st' x. p_bind Parser_peek f st = Some (st', Inr x) \<and> upcoming st' rest \<and> ps_parsingErrors st' = ps_parsingErrors st \<and> Q x"
    by (simp add: p_bind_def)
qed

lemma parses_peek_Cons: "(\<And>tok. tok_type tok = t \<Longrightarrow> parses (f tok) (t # ts) ok Q) \<Longrightarrow> parses (p_bind Parser_peek f) (t # ts) ok Q"
  by (rule parses_peek) simp

definition follow :: "TokenType set \<Rightarrow> TokenType list \<Rightarrow> bool" where
  "follow F rest \<longleftrightarrow> rest \<noteq> [] \<and> hd rest \<in> F"

lemma follow_concat: "follow F rest \<Longrightarrow> follow (insert s F) (concat (map (\<lambda>t. s # g t) ts) @ rest)"
  by (cases ts) (auto simp: follow_def)

lemma parses_peek_Nil:
  "(\<And>tok. tok_type tok \<in> F \<Longrightarrow> parses (f tok) [] (follow F) Q) \<Longrightarrow> parses (p_bind Parser_peek f) [] (follow F) Q"
  by (rule parses_peek) (auto simp: follow_def)

lemma parses_match:
  assumes "t \<noteq> EOF" "parses (f True) ts ok Q"
  shows "parses (p_bind (Parser_matchOne t) f) (t # ts) ok Q"
proof -
  have "parses (Parser_matchOne t) [t] (\<lambda>_. True) (\<lambda>b. b)"
  proof (rule parsesI)
    fix st rest assume "upcoming st ([t] @ rest)"
    then show "\<exists>st' x. Parser_matchOne t st = Some (st', Inr x) \<and> upcoming st' rest \<and> ps_parsingErrors st' = ps_parsingErrors st \<and> x"
      using assms(1) by (auto simp: Parser_matchOne_def Parser_check_def p_bind_def p_return_def elim!: upcoming_Cons)
  qed
  from parses_bind [OF this, of f ts ok Q] assms(2) show ?thesis by simp
qed

lemma parses_no_match:
  assumes "\<And>rest. ok rest \<Longrightarrow> tys @ rest \<noteq> [] \<and> hd (tys @ rest) \<noteq> t" "parses (f False) tys ok Q"
  shows "parses (p_bind (Parser_matchOne t) f) tys ok Q"
proof (rule parsesI)
  fix st rest assume up: "upcoming st (tys @ rest)" and ok: "ok rest"
  have "tys @ rest = hd (tys @ rest) # tl (tys @ rest)" using assms(1) [OF ok] by auto
  with up obtain tok where tok: "Parser_peek st = Some (st, Inr tok)" "tok_type tok = hd (tys @ rest)" by (metis upcoming_Cons)
  then have "Parser_matchOne t st = Some (st, Inr False)"
    using assms(1) [OF ok] by (simp add: Parser_matchOne_def Parser_check_def p_bind_def p_return_def)
  with assms(2) up ok show "\<exists>st' x. p_bind (Parser_matchOne t) f st = Some (st', Inr x) \<and> upcoming st' rest \<and>
      ps_parsingErrors st' = ps_parsingErrors st \<and> Q x"
    unfolding parses_def by (simp add: p_bind_def)
qed

lemma parses_no_match_Cons: "t' \<noteq> t \<Longrightarrow> parses (f False) (t' # ts) ok Q \<Longrightarrow> parses (p_bind (Parser_matchOne t) f) (t' # ts) ok Q"
  by (rule parses_no_match) simp_all

lemma parses_no_match_Nil: "t \<notin> F \<Longrightarrow> parses (f False) [] (follow F) Q \<Longrightarrow> parses (p_bind (Parser_matchOne t) f) [] (follow F) Q"
  by (rule parses_no_match) (auto simp: follow_def)

lemma parses_consume: "t \<noteq> EOF \<Longrightarrow> parses (f ()) ts ok Q \<Longrightarrow> parses (p_bind (Parser_consume c t msg) f) (t # ts) ok Q"
proof -
  assume "t \<noteq> EOF" and f: "parses (f ()) ts ok Q"
  then have "parses (Parser_consume c t msg) [t] (\<lambda>_. True) (\<lambda>_. True)"
    by (intro parsesI) (auto simp: Parser_consume_def Parser_check_def p_bind_def p_return_def elim!: upcoming_Cons)
  from parses_bind [OF this, of f ts ok Q] f show ?thesis by simp
qed

section \<open>Parsing leaves\<close>

lemma parses_value:
  assumes "t = StrTok v \<or> t = QuotedStr v"
  shows "parses Parser_value [t] ok (\<lambda>x. x = v)"
  unfolding Parser_value_def using assms
  by (intro parses_peek_Cons) (auto intro!: parses_advance_then parses_return)

lemma parses_value_then:
  assumes "t = StrTok v \<or> t = QuotedStr v" "Q (g v)"
  shows "parses (p_bind Parser_value (\<lambda>x. p_return (g x))) [t] ok Q"
  using parses_bind [OF parses_value [OF assms(1)], of "\<lambda>x. p_return (g x)" "[]" ok Q] assms(2) by (auto intro: parses_return)

lemma parses_quoted_value:
  assumes "\<And>tok. tok_type tok = QuotedStr v \<Longrightarrow> parses (f v tok) [] ok Q"
  shows "parses (p_bind Parser_value (\<lambda>x. p_bind Parser_previous (f x))) [QuotedStr v] ok Q"
proof (rule parsesI)
  fix st rest assume "upcoming st ([QuotedStr v] @ rest)" and ok: "ok rest"
  then obtain tok where tok: "Parser_peek st = Some (st, Inr tok)" "tok_type tok = QuotedStr v" "ps_tokens st ! ps_current st = tok"
      "ps_current st < length (ps_tokens st)" "Parser_advance st = Some (st\<lparr>ps_current := ps_current st + 1\<rparr>, Inr ())"
      "upcoming (st\<lparr>ps_current := ps_current st + 1\<rparr>) rest"
    by (auto elim!: upcoming_Cons)
  let ?st = "st\<lparr>ps_current := ps_current st + 1\<rparr>"
  have "Parser_value st = Some (?st, Inr v)" using tok by (simp add: Parser_value_def p_bind_def p_return_def)
  moreover have "Parser_previous ?st = Some (?st, Inr tok)" using tok by (simp add: Parser_previous_def p_lift_def js_get_def)
  moreover obtain st' x where "f v tok ?st = Some (st', Inr x)" "upcoming st' rest" "ps_parsingErrors st' = ps_parsingErrors ?st" "Q x"
    using assms [OF tok(2)] tok(6) ok unfolding parses_def by (metis append_Nil)
  ultimately show "\<exists>st' x. p_bind Parser_value (\<lambda>x. p_bind Parser_previous (f x)) st = Some (st', Inr x) \<and> upcoming st' rest \<and>
      ps_parsingErrors st' = ps_parsingErrors st \<and> Q x"
    by (simp add: p_bind_def)
qed

text \<open>What a leaf is read back as: itself without a cached negation, or the constant its key stands for\<close>

fun fresh :: "constants \<Rightarrow> ContextKeyExpression \<Rightarrow> ContextKeyExpression" where
  "fresh env (DefinedExpr k n) = ContextKeyDefinedExpr_create env k None"
| "fresh env (NotExpr k n) = ContextKeyNotExpr_create env k None"
| "fresh env (EqualsExpr k v n) = EqualsExpr k v None"
| "fresh env (NotEqualsExpr k v n) = NotEqualsExpr k v None"
| "fresh env (GreaterExpr k v n) = GreaterExpr k v None"
| "fresh env (GreaterEqualsExpr k v n) = GreaterEqualsExpr k v None"
| "fresh env (SmallerExpr k v n) = SmallerExpr k v None"
| "fresh env (SmallerEqualsExpr k v n) = SmallerEqualsExpr k v None"
| "fresh env e = e"

lemma last_index_of_append: "c \<notin> set fs \<Longrightarrow> last_index_of (s @ c # fs) c = int (length s)"
  by (simp add: last_index_of_def takeWhile_append2 takeWhile_append)

lemma regexp_of_lexeme_readable:
  assumes "regexp_readable c (Some re)"
  shows "regexp_of_lexeme c (regexp_lexeme (Some re)) = Some re"
proof -
  let ?l = "0x2F # re_source re @ [0x2F] @ re_flags re"
  have "set (re_flags re) \<subseteq> set Scanner_regexFlags" using assms by (simp add: regexp_readable_def regexp_ok_def)
  then have "0x2F \<notin> set (re_flags re)" by (auto simp: Scanner_regexFlags_def js_def)
  then have last: "last_index_of ?l 0x2F = int (length (re_source re)) + 1"
    using last_index_of_append [of "0x2F" "re_flags re" "0x2F # re_source re"] by simp
  have "js_substring ?l 1 (int (length (re_source re)) + 1) = re_source re"
    using substring_drop [of 1 ?l "re_source re" "0x2F # re_flags re"] by (simp add: add_ac)
  moreover have "js_substring_from ?l (int (length (re_source re)) + 1 + 1) = re_flags re"
    using substring_drop [of "length (re_source re) + 2" ?l "re_flags re" "[]"] by (simp add: js_substring_from_def add_ac)
  moreover have "Parser_removeFlagsGY (re_flags re) = re_flags re"
    using assms by (auto simp: regexp_readable_def Parser_removeFlagsGY_def filter_id_conv)
  moreover have "int (length (re_source re)) + 1 = int (length ?l) - 1 \<longleftrightarrow> re_flags re = []" by auto
  ultimately show ?thesis
    using assms unfolding regexp_of_lexeme_def regexp_lexeme_def option.case last Let_def
    by (cases "re_flags re = []") (simp_all add: regexp_readable_def)
qed

lemma parses_regex:
  assumes "regexp_readable c re" "\<not> ph_recovery c"
  shows "parses (primary_key c k) [StrTok k, RegexOp, RegexStr (regexp_lexeme re)] ok (\<lambda>x. x = Some (RegexExpr k re))"
proof -
  obtain r where r: "re = Some r" using assms(1) by (auto simp: regexp_readable_def split: option.splits)
  show ?thesis
    unfolding primary_key_def primary_regex_def
    by (intro parses_advance_then parses_match)
      (auto intro!: parses_peek_Cons parses_advance_then parses_return simp: assms(2) create_regex_def r
        regexp_of_lexeme_readable [OF assms(1) [unfolded r]] ContextKeyRegexExpr_create_def)
qed

text \<open>Reading a leaf that starts with its key\<close>

lemma parses_key:
  assumes "readable c e" "leaf_fine (ph_js c) (ph_constants c) ctx flags e" "\<not> ph_recovery c"
    and "tokens_of (ph_js c) e = StrTok k # ts" "and_parts e = None" "or_parts e = None"
  shows "parses (primary_key c k) (tokens_of (ph_js c) e) (follow {AndTok, OrTok, RParen, EOF}) (\<lambda>x. x = Some (fresh (ph_constants c) e))"
proof -
  have op: "parses (primary_key c k) (StrTok k # t # ts) (follow {AndTok, OrTok, RParen, EOF}) Q"
    if "t \<notin> {RegexOp, NotTok}" "parses (p_bind Parser_peek (\<lambda>maybeOp.
           let next = (\<lambda>create. p_bind Parser_advance (\<lambda>_. p_bind Parser_value (\<lambda>right. p_return (Some (create right)))))
           in case tok_type maybeOp of
             Eq _ \<Rightarrow> p_bind Parser_advance (\<lambda>_. primary_equals c k)
           | NotEq _ \<Rightarrow> p_bind Parser_advance (\<lambda>_. primary_notEquals c k)
           | Lt \<Rightarrow> next (\<lambda>v. ContextKeySmallerExpr_create (ph_js c) k (Str v) None)
           | LtEq \<Rightarrow> next (\<lambda>v. ContextKeySmallerEqualsExpr_create (ph_js c) k (Str v) None)
           | Gt \<Rightarrow> next (\<lambda>v. ContextKeyGreaterExpr_create (ph_js c) k (Str v) None)
           | GtEq \<Rightarrow> next (\<lambda>v. ContextKeyGreaterEqualsExpr_create (ph_js c) k (Str v) None)
           | InTok \<Rightarrow> next (\<lambda>v. ContextKeyInExpr_create k v)
           | _ \<Rightarrow> p_return (Some (ContextKeyDefinedExpr_create (ph_constants c) k None)))) (t # ts) (follow {AndTok, OrTok, RParen, EOF}) Q" for t ts Q
    unfolding primary_key_def using that by (intro parses_advance_then) (auto intro!: parses_no_match_Cons)
  show ?thesis
  proof (cases e)
    case (DefinedExpr k n)
    with assms show ?thesis
      by (auto simp: primary_key_def split: TokenType.split
          intro!: parses_advance_then parses_no_match_Nil parses_peek_Nil parses_return)
  next
    case (RegexExpr k re)
    with assms parses_regex [of c re k] show ?thesis by (auto intro: parses_mono)
  next
    case (NotInExpr k v)
    with assms show ?thesis
      by (auto simp: primary_key_def ContextKeyNotInExpr_create_def
          intro!: parses_advance_then parses_no_match_Cons parses_match parses_consume parses_value_then)
  next
    case (EqualsExpr k v n)
    with assms show ?thesis
      by (auto simp: quotable_def ContextKeyEqualsExpr_create_def primary_equals_def split: js_prim.splits
          intro!: op parses_peek_Cons parses_advance_then parses_quoted_value parses_return)
  next
    case (NotEqualsExpr k v n)
    with assms show ?thesis
      by (auto simp: quotable_def ContextKeyNotEqualsExpr_create_def primary_notEquals_def split: js_prim.splits
          intro!: op parses_peek_Cons parses_advance_then parses_quoted_value parses_return)
  next
    case (InExpr k v)
    with assms show ?thesis
      by (auto simp: ContextKeyInExpr_create_def intro!: op parses_peek_Cons parses_advance_then parses_value_then)
  qed (use assms in \<open>auto simp: number_ok_def create_defs split: js_prim.splits
      intro!: op parses_peek_Cons parses_advance_then parses_value_then\<close>)
qed

lemma negate_regex: "negate_opt c (Some (RegexExpr k re)) = p_lift (Some (Some (NotRegexExpr k re)))"
  by (simp add: negate_opt_def ContextKeyExpr_negate_def ck_simps negate_defs create_defs)

lemma parses_expr_regex:
  assumes "regexp_readable c re" "\<not> ph_recovery c" "n \<ge> 6"
  shows "parses (Parser_expr c n) [StrTok k, RegexOp, RegexStr (regexp_lexeme re)] (follow {RParen}) (\<lambda>x. x = Some (RegexExpr k re))"
proof -
  have n: "n = Suc (Suc (Suc (Suc (Suc (Suc (n - 6))))))" using assms(3) by simp
  have key: "parses (Parser_term c (Suc (Suc n))) [StrTok k, RegexOp, RegexStr (regexp_lexeme re)] ok (\<lambda>x. x = Some (RegexExpr k re))" for n ok
    using parses_regex [OF assms(1,2)] unfolding Parser_term.simps Parser_primary.simps
    by (auto intro!: parses_no_match_Cons parses_peek_Cons)
  have finish: "parses (and_loop c (Suc m) [x]) [] (follow {RParen}) (\<lambda>y. y = x)" "parses (or_loop c (Suc m) [x]) [] (follow {RParen}) (\<lambda>y. y = x)" for m x
    by (auto simp: and_loop.simps or_loop.simps intro!: parses_no_match_Nil parses_return)
  have and_re: "parses (Parser_and c (Suc (Suc (Suc n)))) ([StrTok k, RegexOp, RegexStr (regexp_lexeme re)] @ []) (follow {RParen}) (\<lambda>x. x = Some (RegexExpr k re))" for n
    unfolding Parser_and.simps by (rule parses_bind [OF key]) (auto intro: finish)
  have "parses (Parser_or c (Suc (Suc (Suc (Suc n))))) ([StrTok k, RegexOp, RegexStr (regexp_lexeme re)] @ []) (follow {RParen}) (\<lambda>x. x = Some (RegexExpr k re))" for n
    unfolding Parser_or.simps by (rule parses_bind [OF and_re [simplified]]) (auto intro: finish)
  then show ?thesis by (subst n) (simp add: Parser_expr.simps)
qed

lemma parses_leaf:
  assumes "readable c e" "leaf_fine (ph_js c) (ph_constants c) ctx flags e" "\<not> ph_recovery c" "and_parts e = None" "or_parts e = None" "n \<ge> 8"
  shows "parses (Parser_term c n) (tokens_of (ph_js c) e) (follow {AndTok, OrTok, RParen, EOF}) (\<lambda>x. x = Some (fresh (ph_constants c) e))"
proof -
  obtain m where n: "n = Suc (Suc m)" "m \<ge> 6" using assms(6) by (intro that [of "n - 2"]) auto
  have key: "parses (Parser_term c n) (tokens_of (ph_js c) e) (follow {AndTok, OrTok, RParen, EOF}) (\<lambda>x. x = Some (fresh (ph_constants c) e))"
    if "tokens_of (ph_js c) e = StrTok k # ts" for k ts
    using parses_key [OF assms(1-3) that assms(4,5)] unfolding n(1) Parser_term.simps Parser_primary.simps that
    by (auto intro!: parses_no_match_Cons parses_peek_Cons)
  show ?thesis
  proof (cases e)
    case (NotRegexExpr k re)
    then have re: "regexp_readable c re" using assms(1) by simp
    have "parses (p_bind (Parser_expr c (Suc m)) (\<lambda>expr. p_bind (Parser_consume c RParen (errorClosingParenthesis c)) (\<lambda>_. negate_opt c expr)))
        ([StrTok k, RegexOp, RegexStr (regexp_lexeme re)] @ [RParen]) ok (\<lambda>x. x = Some (NotRegexExpr k re))" for ok
      by (rule parses_bind [OF parses_expr_regex [OF re assms(3)]])
        (use n(2) in \<open>auto simp: negate_regex follow_def intro!: parses_consume parses_lift\<close>)
    then show ?thesis
      unfolding n(1) Parser_term.simps NotRegexExpr
      by (auto intro!: parses_match parses_peek_Cons parses_advance_then)
  qed (use key assms in \<open>auto simp: n(1) Parser_term.simps Parser_primary.simps advance_return_def
      intro!: parses_no_match_Cons parses_match parses_peek_Cons parses_advance_then parses_return\<close>)
qed

section \<open>Parsing conjunctions and disjunctions\<close>

text \<open>The leaves of a conjunction\<close>

fun leaves :: "ContextKeyExpression \<Rightarrow> ContextKeyExpression list" where
  "leaves (AndExpr es n) = concat (map leaves es)"
| "leaves e = [e]"

lemma join_with_concat:
  "(\<And>x. x \<in> set xs \<Longrightarrow> f x \<noteq> []) \<Longrightarrow> join_with s (map (\<lambda>x. join_with s (f x)) xs) = join_with s (concat (map f xs))"
proof -
  have app: "join_with s (xs @ ys) = (if xs = [] then join_with s ys else if ys = [] then join_with s xs else join_with s xs @ s @ join_with s ys)" for xs ys
    by (induction xs rule: induct_list012) (auto, (cases ys; simp)+)
  show "(\<And>x. x \<in> set xs \<Longrightarrow> f x \<noteq> []) \<Longrightarrow> ?thesis"
    by (induction xs rule: induct_list012) (auto simp: app)
qed

lemma conj_tree_leaves:
  "conj_tree late e \<Longrightarrow> leaves e \<noteq> [] \<and> (\<forall>l \<in> set (leaves e). lit late l) \<and>
     tokens_of h e = join_with [AndTok] (map (tokens_of h) (leaves e)) \<and>
     (ContextKeyExpr_evaluate h ctx e \<longleftrightarrow> (\<forall>l \<in> set (leaves e). ContextKeyExpr_evaluate h ctx l))"
proof (induction rule: conj_tree.induct)
  case (leaf e)
  then show ?case by (cases e) auto
next
  case (node es)
  then have "map (tokens_of h) es = map (\<lambda>e. join_with [AndTok] (map (tokens_of h) (leaves e))) es" by simp
  then have "tokens_of h (AndExpr es None) = join_with [AndTok] (map (\<lambda>e. join_with [AndTok] (map (tokens_of h) (leaves e))) es)"
    by (simp only: tokens_of.simps)
  also have "\<dots> = join_with [AndTok] (concat (map (\<lambda>e. map (tokens_of h) (leaves e)) es))"
    by (rule join_with_concat) (use node.IH in auto)
  finally have "tokens_of h (AndExpr es None) = join_with [AndTok] (concat (map (\<lambda>e. map (tokens_of h) (leaves e)) es))" .
  with node show ?case by (auto simp: map_concat comp_def)
qed

lemma conj_tree_leaves_fine:
  "conj_tree late e \<Longrightarrow> readable c e \<Longrightarrow> fine h env ctx flags e \<Longrightarrow> \<forall>l \<in> set (leaves e). readable c l \<and> fine h env ctx flags l"
proof (induction rule: conj_tree.induct)
  case (leaf e)
  then show ?case by (cases e) auto
next
  case (node es)
  have "readable c e \<and> fine h env ctx flags e" if "e \<in> set es" for e
    using that node.prems fine_parts [of h env ctx flags "AndExpr es None" e] by simp
  with node.IH show ?case by auto
qed

lemma join_with_Cons: "join_with [s] (t # ts) = t @ concat (map ((#) s) ts)"
  by (induction ts arbitrary: t) auto

lemma fresh_leaf:
  assumes "fine h env ctx flags l" "and_parts l = None" "or_parts l = None"
  shows "lit True (fresh env l)" "fine h env ctx flags (fresh env l)" "ContextKeyExpr_evaluate h ctx (fresh env l) = ContextKeyExpr_evaluate h ctx l"
proof -
  note leaf = fine_leaf [OF assms(1)]
  have shape: "and_parts (fresh env l) = None" "or_parts (fresh env l) = None" "negated_of (fresh env l) = None" "parts (fresh env l) = []"
    using assms(2,3) by (cases l; simp add: create_defs split: option.split)+
  then show "lit True (fresh env l)" by (auto intro: lit.plain)
  have "leaf_fine h env ctx flags (fresh env l)" using leaf assms(2,3) by (cases l) (auto simp: create_defs split: option.split)
  with shape show "fine h env ctx flags (fresh env l)" by (intro fine_leafI)
  show "ContextKeyExpr_evaluate h ctx (fresh env l) = ContextKeyExpr_evaluate h ctx l"
    using leaf by (cases l) (auto simp: evaluate_defs create_defs agrees_def split: option.split)
qed

text \<open>An expression in disjunctive normal form with a given value\<close>

definition means :: "parser_host \<Rightarrow> IContext \<Rightarrow> (js_string \<Rightarrow> js_string) \<Rightarrow> bool \<Rightarrow> ContextKeyExpression option \<Rightarrow> bool" where
  "means c ctx flags b x \<longleftrightarrow> (\<exists>e. x = Some e \<and> dnf True e \<and> fine (ph_js c) (ph_constants c) ctx flags e \<and>
     (ContextKeyExpr_evaluate (ph_js c) ctx e \<longleftrightarrow> b))"

lemma and_means:
  assumes "xs \<noteq> []" "\<And>x. x \<in> set xs \<Longrightarrow> lit True x \<and> fine (ph_js c) (ph_constants c) ctx flags x"
  shows "\<exists>r. ContextKeyExpr_and (ph_js c) (ph_constants c) (map Some xs) = Some r \<and>
    means c ctx flags (\<forall>x \<in> set xs. ContextKeyExpr_evaluate (ph_js c) ctx x) r"
proof -
  have "\<not> set (map Some xs) \<subseteq> {None}" using assms(1) by (cases xs) auto
  moreover have "conj_tree True e" if "Some e \<in> set (map Some xs)" for e using that assms(2) by (auto intro: conj_tree.leaf)
  ultimately obtain x where x: "ck (ph_js c) (ph_constants c) (CallAnd (map Some xs) None True) = Some (Some x)" "dnf True x"
    using create_some [OF and_create_trees] by blast
  have "all_of (fine (ph_js c) (ph_constants c) ctx flags) (map Some xs)" using assms(2) by (auto simp: all_of_def)
  with ck_semantics.ck_meets [OF x(1), of ctx flags] x show ?thesis
    by (auto simp: means_def ContextKeyExpr_and_def ContextKeyAndExpr_create_def ck_semantics.meets_def all_of_def)
qed

lemma or_means:
  assumes "xs \<noteq> []" "\<And>x. x \<in> set xs \<Longrightarrow> dnf True x \<and> fine (ph_js c) (ph_constants c) ctx flags x"
  shows "\<exists>r. ContextKeyExpr_or (ph_js c) (ph_constants c) (map Some xs) = Some r \<and>
    means c ctx flags (\<exists>x \<in> set xs. ContextKeyExpr_evaluate (ph_js c) ctx x) r"
proof -
  have "\<not> set (map Some xs) \<subseteq> {None}" using assms(1) by (cases xs) auto
  moreover have "dnf True e" if "Some e \<in> set (map Some xs)" for e using that assms(2) by auto
  ultimately obtain x where x: "ck (ph_js c) (ph_constants c) (CallOr (map Some xs) None True) = Some (Some x)" "dnf True x"
    using create_some [OF or_create_dnf] by blast
  have "all_of (fine (ph_js c) (ph_constants c) ctx flags) (map Some xs)" using assms(2) by (auto simp: all_of_def)
  with ck_semantics.ck_meets [OF x(1), of ctx flags] x show ?thesis
    by (auto simp: means_def ContextKeyExpr_or_def ContextKeyOrExpr_create_def ck_semantics.meets_def some_of_def)
qed

definition leaf_ok :: "parser_host \<Rightarrow> IContext \<Rightarrow> (js_string \<Rightarrow> js_string) \<Rightarrow> ContextKeyExpression \<Rightarrow> bool" where
  "leaf_ok c ctx flags l \<longleftrightarrow> readable c l \<and> fine (ph_js c) (ph_constants c) ctx flags l \<and> and_parts l = None \<and> or_parts l = None"

lemma parses_leaf_ok:
  "leaf_ok c ctx flags l \<Longrightarrow> \<not> ph_recovery c \<Longrightarrow> n \<ge> 8 \<Longrightarrow>
   parses (Parser_term c n) (tokens_of (ph_js c) l) (follow {AndTok, OrTok, RParen, EOF}) (\<lambda>x. x = Some (fresh (ph_constants c) l))"
  unfolding leaf_ok_def using fine_leaf parses_leaf by blast

lemma parses_and_loop:
  assumes "\<not> ph_recovery c"
  shows "\<forall>l \<in> set dn \<union> set ls. leaf_ok c ctx flags l \<Longrightarrow> dn \<noteq> [] \<Longrightarrow>
    n \<ge> 9 + length (concat (map (\<lambda>l. AndTok # tokens_of (ph_js c) l) ls)) \<Longrightarrow>
    parses (and_loop c n (map (\<lambda>l. Some (fresh (ph_constants c) l)) dn)) (concat (map (\<lambda>l. AndTok # tokens_of (ph_js c) l) ls)) (follow {OrTok, RParen, EOF})
      (means c ctx flags (\<forall>l \<in> set dn \<union> set ls. ContextKeyExpr_evaluate (ph_js c) ctx l))"
proof (induction ls arbitrary: dn n)
  case Nil
  obtain m where n: "n = Suc m" using Nil.prems(3) by (cases n) auto
  have dn: "lit True (fresh (ph_constants c) l)" "fine (ph_js c) (ph_constants c) ctx flags (fresh (ph_constants c) l)"
    "ContextKeyExpr_evaluate (ph_js c) ctx (fresh (ph_constants c) l) = ContextKeyExpr_evaluate (ph_js c) ctx l" if "l \<in> set dn" for l
    using Nil.prems(1) that fresh_leaf unfolding leaf_ok_def by blast+
  show ?case
  proof (cases "length dn = 1")
    case True
    then obtain l where l: "dn = [l]" by (auto simp: length_Suc_conv)
    have "means c ctx flags (ContextKeyExpr_evaluate (ph_js c) ctx l) (Some (fresh (ph_constants c) l))"
      using dn [of l] by (auto simp: l means_def intro: dnf.tree conj_tree.leaf)
    then show ?thesis by (auto simp: n and_loop.simps l intro!: parses_no_match_Nil parses_return)
  next
    case False
    have "means c ctx flags (\<forall>x \<in> set (map (fresh (ph_constants c)) dn). ContextKeyExpr_evaluate (ph_js c) ctx x) =
        means c ctx flags (\<forall>l \<in> set dn. ContextKeyExpr_evaluate (ph_js c) ctx l)" using dn(3) by simp
    then obtain r where "ContextKeyExpr_and (ph_js c) (ph_constants c) (map (\<lambda>l. Some (fresh (ph_constants c) l)) dn) = Some r"
        "means c ctx flags (\<forall>l \<in> set dn. ContextKeyExpr_evaluate (ph_js c) ctx l) r"
      using and_means [of "map (fresh (ph_constants c)) dn" c ctx flags] dn(1,2) Nil.prems(2) by (auto simp: comp_def)
    with False show ?thesis by (auto simp: n and_loop.simps intro!: parses_no_match_Nil parses_lift)
  qed
next
  case (Cons l ls)
  obtain m where n: "n = Suc m" using Cons.prems(3) by (cases n) auto
  have l: "parses (Parser_term c m) (tokens_of (ph_js c) l) (follow {AndTok, OrTok, RParen, EOF}) (\<lambda>x. x = Some (fresh (ph_constants c) l))"
    using Cons.prems(1,3) by (intro parses_leaf_ok assms) (auto simp: n)
  have "parses (and_loop c m (map (\<lambda>l. Some (fresh (ph_constants c) l)) (dn @ [l]))) (concat (map (\<lambda>l. AndTok # tokens_of (ph_js c) l) ls)) (follow {OrTok, RParen, EOF})
      (means c ctx flags (\<forall>l \<in> set (dn @ [l]) \<union> set ls. ContextKeyExpr_evaluate (ph_js c) ctx l))"
    by (rule Cons.IH) (use Cons.prems in \<open>auto simp: n\<close>)
  moreover have "set (dn @ [l]) \<union> set ls = set dn \<union> set (l # ls)" by auto
  ultimately have rest: "parses (and_loop c m (map (\<lambda>l. Some (fresh (ph_constants c) l)) dn @ [Some (fresh (ph_constants c) l)])) (concat (map (\<lambda>l. AndTok # tokens_of (ph_js c) l) ls))
      (follow {OrTok, RParen, EOF}) (means c ctx flags (\<forall>l \<in> set dn \<union> set (l # ls). ContextKeyExpr_evaluate (ph_js c) ctx l))"
    by simp
  have "parses (p_bind (Parser_term c m) (\<lambda>right. and_loop c m (map (\<lambda>l. Some (fresh (ph_constants c) l)) dn @ [right])))
      (tokens_of (ph_js c) l @ concat (map (\<lambda>l. AndTok # tokens_of (ph_js c) l) ls)) (follow {OrTok, RParen, EOF})
      (means c ctx flags (\<forall>l \<in> set dn \<union> set (l # ls). ContextKeyExpr_evaluate (ph_js c) ctx l))"
    by (rule parses_bind [OF l]) (use rest in \<open>auto intro: follow_concat\<close>)
  then show ?case unfolding n and_loop.simps by (auto intro!: parses_match)
qed

text \<open>Conjunctions\<close>

definition tree_ok :: "parser_host \<Rightarrow> IContext \<Rightarrow> (js_string \<Rightarrow> js_string) \<Rightarrow> ContextKeyExpression \<Rightarrow> bool" where
  "tree_ok c ctx flags e \<longleftrightarrow> conj_tree True e \<and> readable c e \<and> fine (ph_js c) (ph_constants c) ctx flags e"

lemma parses_and:
  assumes "\<not> ph_recovery c" "tree_ok c ctx flags e" "n \<ge> 10 + length (tokens_of (ph_js c) e)"
  shows "parses (Parser_and c n) (tokens_of (ph_js c) e) (follow {OrTok, RParen, EOF})
    (means c ctx flags (ContextKeyExpr_evaluate (ph_js c) ctx e))"
proof -
  have e: "conj_tree True e" "readable c e" "fine (ph_js c) (ph_constants c) ctx flags e" using assms(2) by (auto simp: tree_ok_def)
  obtain l ls where ls: "leaves e = l # ls" using conj_tree_leaves [OF e(1)] by (cases "leaves e") auto
  have ok: "\<forall>l \<in> set [l] \<union> set ls. leaf_ok c ctx flags l"
    using conj_tree_leaves [OF e(1), of "ph_js c" ctx] conj_tree_leaves_fine [OF e] by (auto simp: leaf_ok_def ls dest: lit_shape)
  have toks: "tokens_of (ph_js c) e = tokens_of (ph_js c) l @ concat (map (\<lambda>l. AndTok # tokens_of (ph_js c) l) ls)"
    using conj_tree_leaves [OF e(1), of "ph_js c"] by (simp add: ls join_with_Cons comp_def)
  obtain m where n: "n = Suc m" using assms(3) by (cases n) auto
  have len: "m \<ge> 8" "m \<ge> 9 + length (concat (map (\<lambda>l. AndTok # tokens_of (ph_js c) l) ls))" using assms(3) by (auto simp: n toks)
  have loop: "parses (and_loop c m [Some (fresh (ph_constants c) l)]) (concat (map (\<lambda>l. AndTok # tokens_of (ph_js c) l) ls)) (follow {OrTok, RParen, EOF})
      (means c ctx flags (ContextKeyExpr_evaluate (ph_js c) ctx e))"
    using parses_and_loop [OF assms(1) ok _ len(2)] conj_tree_leaves [OF e(1), of "ph_js c" ctx] by (auto simp: ls)
  have "leaf_ok c ctx flags l" using ok by simp
  from parses_leaf_ok [OF this assms(1) len(1)] show ?thesis
    unfolding n Parser_and.simps toks
    by (rule parses_bind) (use loop in \<open>auto intro: follow_concat\<close>)
qed

lemma parses_or_loop:
  assumes "\<not> ph_recovery c"
  shows "\<forall>t \<in> set ts. tree_ok c ctx flags t \<Longrightarrow> xs \<noteq> [] \<Longrightarrow> \<forall>x \<in> set xs. dnf True x \<and> fine (ph_js c) (ph_constants c) ctx flags x \<Longrightarrow>
    n \<ge> 11 + length (concat (map (\<lambda>t. OrTok # tokens_of (ph_js c) t) ts)) \<Longrightarrow>
    parses (or_loop c n (map Some xs)) (concat (map (\<lambda>t. OrTok # tokens_of (ph_js c) t) ts)) (follow {RParen, EOF})
      (means c ctx flags (\<exists>e \<in> set xs \<union> set ts. ContextKeyExpr_evaluate (ph_js c) ctx e))"
proof (induction ts arbitrary: xs n)
  case Nil
  obtain m where n: "n = Suc m" using Nil.prems(4) by (cases n) auto
  show ?case
  proof (cases "length xs = 1")
    case True
    then obtain x where x: "xs = [x]" by (auto simp: length_Suc_conv)
    have "means c ctx flags (ContextKeyExpr_evaluate (ph_js c) ctx x) (Some x)" using Nil.prems(3) by (simp add: x means_def)
    then show ?thesis by (auto simp: n or_loop.simps x intro!: parses_no_match_Nil parses_return)
  next
    case False
    obtain r where "ContextKeyExpr_or (ph_js c) (ph_constants c) (map Some xs) = Some r"
        "means c ctx flags (\<exists>x \<in> set xs. ContextKeyExpr_evaluate (ph_js c) ctx x) r"
      using or_means [of xs c ctx flags] Nil.prems(2,3) by auto
    with False show ?thesis by (auto simp: n or_loop.simps intro!: parses_no_match_Nil parses_lift)
  qed
next
  case (Cons t ts)
  obtain m where n: "n = Suc m" using Cons.prems(4) by (cases n) auto
  let ?toks = "concat (map (\<lambda>t. OrTok # tokens_of (ph_js c) t) ts)"
  have t: "parses (Parser_and c m) (tokens_of (ph_js c) t) (follow {OrTok, RParen, EOF}) (means c ctx flags (ContextKeyExpr_evaluate (ph_js c) ctx t))"
    using Cons.prems(1,4) by (intro parses_and assms) (auto simp: n)
  have rest: "parses (or_loop c m (map Some xs @ [r])) ?toks (follow {RParen, EOF})
      (means c ctx flags (\<exists>e \<in> set xs \<union> set (t # ts). ContextKeyExpr_evaluate (ph_js c) ctx e))"
    if r: "means c ctx flags (ContextKeyExpr_evaluate (ph_js c) ctx t) r" for r
  proof -
    obtain x where x: "r = Some x" "dnf True x" "fine (ph_js c) (ph_constants c) ctx flags x"
        "ContextKeyExpr_evaluate (ph_js c) ctx x = ContextKeyExpr_evaluate (ph_js c) ctx t" using r by (auto simp: means_def)
    have "parses (or_loop c m (map Some (xs @ [x]))) ?toks (follow {RParen, EOF})
        (means c ctx flags (\<exists>e \<in> set (xs @ [x]) \<union> set ts. ContextKeyExpr_evaluate (ph_js c) ctx e))"
      by (rule Cons.IH) (use Cons.prems x in \<open>auto simp: n\<close>)
    moreover have "(\<exists>e \<in> set (xs @ [x]) \<union> set ts. ContextKeyExpr_evaluate (ph_js c) ctx e) \<longleftrightarrow>
        (\<exists>e \<in> set xs \<union> set (t # ts). ContextKeyExpr_evaluate (ph_js c) ctx e)" using x(4) by auto
    ultimately show ?thesis by (simp add: x(1))
  qed
  have "parses (p_bind (Parser_and c m) (\<lambda>right. or_loop c m (map Some xs @ [right]))) (tokens_of (ph_js c) t @ ?toks) (follow {RParen, EOF})
      (means c ctx flags (\<exists>e \<in> set xs \<union> set (t # ts). ContextKeyExpr_evaluate (ph_js c) ctx e))"
    by (rule parses_bind [OF t rest]) (auto intro: follow_concat)
  then show ?case unfolding n or_loop.simps by (auto intro!: parses_match)
qed

text \<open>The terms of a disjunction\<close>

lemma dnf_terms:
  assumes "dnf True e" "readable c e" "fine (ph_js c) (ph_constants c) ctx flags e"
  obtains t ts where "\<forall>t \<in> set (t # ts). tree_ok c ctx flags t"
    "tokens_of (ph_js c) e = tokens_of (ph_js c) t @ concat (map (\<lambda>t. OrTok # tokens_of (ph_js c) t) ts)"
    "ContextKeyExpr_evaluate (ph_js c) ctx e \<longleftrightarrow> (\<exists>t \<in> set (t # ts). ContextKeyExpr_evaluate (ph_js c) ctx t)"
  using assms(1)
proof (cases rule: dnf_cases)
  case tree
  then show ?thesis using that [of e "[]"] assms by (simp add: tree_ok_def)
next
  case (disj es n)
  then obtain t ts where ts: "es = t # ts" by (cases es) auto
  show ?thesis
    by (rule that [of t ts])
      (use disj assms fine_parts [OF assms(3)] in \<open>auto simp: ts tree_ok_def join_with_Cons comp_def\<close>)
qed

lemma parses_or:
  assumes "\<not> ph_recovery c" "dnf True e" "readable c e" "fine (ph_js c) (ph_constants c) ctx flags e"
    "n \<ge> 12 + length (tokens_of (ph_js c) e)"
  shows "parses (Parser_or c n) (tokens_of (ph_js c) e) (follow {RParen, EOF}) (means c ctx flags (ContextKeyExpr_evaluate (ph_js c) ctx e))"
proof -
  obtain t ts where ok: "\<forall>t \<in> set (t # ts). tree_ok c ctx flags t"
    and toks: "tokens_of (ph_js c) e = tokens_of (ph_js c) t @ concat (map (\<lambda>t. OrTok # tokens_of (ph_js c) t) ts)"
    and ev: "ContextKeyExpr_evaluate (ph_js c) ctx e \<longleftrightarrow> (\<exists>t \<in> set (t # ts). ContextKeyExpr_evaluate (ph_js c) ctx t)"
    using dnf_terms [OF assms(2-4)] .
  obtain m where n: "n = Suc m" using assms(5) by (cases n) auto
  let ?toks = "concat (map (\<lambda>t. OrTok # tokens_of (ph_js c) t) ts)"
  have t: "parses (Parser_and c m) (tokens_of (ph_js c) t) (follow {OrTok, RParen, EOF}) (means c ctx flags (ContextKeyExpr_evaluate (ph_js c) ctx t))"
    using ok assms(5) by (intro parses_and assms(1)) (auto simp: n toks)
  have "parses (or_loop c m [r]) ?toks (follow {RParen, EOF}) (means c ctx flags (ContextKeyExpr_evaluate (ph_js c) ctx e))"
    if r: "means c ctx flags (ContextKeyExpr_evaluate (ph_js c) ctx t) r" for r
  proof -
    obtain x where x: "r = Some x" "dnf True x" "fine (ph_js c) (ph_constants c) ctx flags x"
        "ContextKeyExpr_evaluate (ph_js c) ctx x = ContextKeyExpr_evaluate (ph_js c) ctx t" using r by (auto simp: means_def)
    have "parses (or_loop c m (map Some [x])) ?toks (follow {RParen, EOF}) (means c ctx flags (\<exists>e \<in> set [x] \<union> set ts. ContextKeyExpr_evaluate (ph_js c) ctx e))"
      by (rule parses_or_loop [OF assms(1)]) (use ok x assms(5) in \<open>auto simp: n toks\<close>)
    then show ?thesis using x(1,4) ev by simp
  qed
  then show ?thesis unfolding n Parser_or.simps toks by (rule parses_bind [OF t]) (auto intro: follow_concat)
qed

text \<open>Parsing the text of an expression\<close>

lemma tokens_of_nonempty: "readable c e \<Longrightarrow> tokens_of h e \<noteq> []"
proof (induction e rule: measure_induct_rule [of size])
  case (less e)
  have IH: "tokens_of h a \<noteq> []" if "parts e = a # as" for a as
    using less size_parts_negated(1) [of a e] that by (cases e) auto
  show ?case
  proof (cases "parts e")
    case Nil
    then show ?thesis using less.prems by (cases e) auto
  next
    case (Cons a as)
    then show ?thesis using IH [OF Cons] by (cases e) (auto simp: join_with_Cons)
  qed
qed

lemma readable_recovery [simp]: "readable (c\<lparr>ph_recovery := b\<rparr>) e = readable c e"
proof (induction e rule: measure_induct_rule [of size])
  case (less e)
  have "(\<forall>x \<in> set (parts e). readable (c\<lparr>ph_recovery := b\<rparr>) x) \<longleftrightarrow> (\<forall>x \<in> set (parts e). readable c x)"
    using less.IH size_parts_negated(1) by blast
  then show ?case by (cases e) (auto simp: number_ok_def regexp_readable_def cong: option.case_cong js_prim.case_cong)
qed

lemma parse_serialized:
  assumes "dnf True e" "readable c e" "fine (ph_js c) (ph_constants c) ctx flags e" "letters_ok (ph_scan c)" "\<not> ph_recovery c"
  shows "\<exists>p' x. Parser_parse c p (ContextKeyExpr_serialize (ph_js c) e) = Some (p', Some x) \<and> dnf True x \<and>
    (ContextKeyExpr_evaluate (ph_js c) ctx x \<longleftrightarrow> ContextKeyExpr_evaluate (ph_js c) ctx e) \<and>
    ps_parsingErrors p' = [] \<and> sc_errors (ps_scanner p') = []"
proof -
  let ?input = "ContextKeyExpr_serialize (ph_js c) e"
  obtain sc toks where sc: "Scanner_scan (ph_scan c) (Scanner_reset (ps_scanner p) ?input) = (sc, toks)" by fastforce
  have toks: "map tok_type toks = tokens_of (ph_js c) e @ [EOF]" "sc_errors sc = []"
    using lexes_whole [OF lexes_serialize [OF assms(4,2)] word_boundary(2), of "ps_scanner p"] by (auto simp: sc)
  have "tokens_of (ph_js c) e \<noteq> []" using assms(2) by (rule tokens_of_nonempty)
  moreover have "toks = [Token EOF 0]" if "?input = []"
    using sc that by (subst (asm) Scanner_scan_def, subst (asm) scan_loop.simps)
      (auto simp: Let_def Scanner_reset_def Scanner_isAtEnd_def Scanner_addToken_def Scanner_push_def)
  moreover have len: "length toks = length (tokens_of (ph_js c) e) + 1" using arg_cong [OF toks(1), of length] by simp
  ultimately have "?input \<noteq> []" by auto
  let ?st = "p\<lparr>ps_scanner := sc, ps_tokens := toks, ps_current := 0, ps_parsingErrors := []\<rparr>"
  obtain n where n: "parse_fuel (length toks) = Suc n" by (simp add: parse_fuel_def)
  have "12 + length (tokens_of (ph_js c) e) \<le> n"
    using n len \<open>tokens_of (ph_js c) e \<noteq> []\<close> by (cases "tokens_of (ph_js c) e") (auto simp: parse_fuel_def)
  moreover have "upcoming ?st (tokens_of (ph_js c) e @ [EOF])" using toks(1) by (simp add: upcoming_def)
  ultimately obtain st' r where st': "Parser_or c n ?st = Some (st', Inr r)" "upcoming st' [EOF]" "ps_parsingErrors st' = []"
      "means c ctx flags (ContextKeyExpr_evaluate (ph_js c) ctx e) r"
    using parses_or [OF assms(5,1,2,3)] unfolding parses_def by (fastforce simp: follow_def)
  then obtain x where x: "r = Some x" "dnf True x" "ContextKeyExpr_evaluate (ph_js c) ctx x \<longleftrightarrow> ContextKeyExpr_evaluate (ph_js c) ctx e"
    by (auto simp: means_def)
  obtain tok where "Parser_peek st' = Some (st', Inr tok)" "tok_type tok = EOF" using upcoming_Cons [OF st'(2)] by metis
  then have "parse_tokens c (parse_fuel (length toks)) ?st = Some (st', Inr (Some x))"
    using st'(1) by (simp add: parse_tokens_def n Parser_expr.simps p_bind_def Parser_isAtEnd_def p_return_def x(1))
  moreover have "ps_scanner st' = sc" using steady_grammar [of c n] st'(1) by (auto dest: steadyD)
  ultimately show ?thesis using \<open>?input \<noteq> []\<close> sc x toks(2) st'(3) by (simp add: Parser_parse_def)
qed

section \<open>The promises of the parser\<close>

text \<open>
  C3: Deserializing what \<open>serialize\<close> wrote: for an expression in disjunctive normal form whose
  leaves are readable, \<open>deserialize\<close> returns an expression in disjunctive normal form with the
  value of the original in every context in which the original is fine, and reports no error.
\<close>

theorem deserialize_serialize_value:
  assumes "dnf True e" "readable c e" "fine (ph_js c) (ph_constants c) ctx flags e" "letters_ok (ph_scan c)"
  shows "\<exists>p' x. ContextKeyExpr_deserialize c p (Some (ContextKeyExpr_serialize (ph_js c) e)) = Some (p', Some x) \<and> dnf True x \<and>
    (ContextKeyExpr_evaluate (ph_js c) ctx x \<longleftrightarrow> ContextKeyExpr_evaluate (ph_js c) ctx e) \<and>
    ps_parsingErrors p' = [] \<and> sc_errors (ps_scanner p') = []"
  using parse_serialized [of e "c\<lparr>ph_recovery := False\<rparr>" ctx flags p] assms by (simp add: ContextKeyExpr_deserialize_def)

lemma sample_keys [simp]: "key_ok sample_scan (js ''a'')" "key_ok sample_scan (js ''b'')"
  by (simp_all add: key_ok_def word_ok_def js_def stringRe_class_def Scanner_keywords_def)

lemma sample_parser_fields [simp]:
  "ph_js sample_parser = sample_host" "ph_constants sample_parser = Map.empty" "ph_scan sample_parser = sample_scan"
  by (simp_all add: sample_parser_def)

lemma sample_readable [simp]: "quotable (Str (js ''c''))" "quotable (Str (js ''x''))" "letters_ok sample_scan"
  by (simp_all add: quotable_def js_def letters_ok_def sample_scan_def)

theorem deserialize_serialize_value_witness:
  "\<exists>p' x. ContextKeyExpr_deserialize sample_parser new_parser (Some (ContextKeyExpr_serialize sample_host
       (OrExpr [AndExpr [sample_a, sample_b] None, sample_in, sample_x] None))) = Some (p', Some x) \<and>
     dnf True x \<and> ContextKeyExpr_evaluate sample_host sample_context x"
  using deserialize_serialize_value [of "OrExpr [AndExpr [sample_a, sample_b] None, sample_in, sample_x] None" sample_parser sample_context
      "\<lambda>s. []" new_parser]
  by (auto simp: conj_tree_And_iff)

text \<open>
  \<open>parse\<close> of an empty clause keeps the errors of the clause before, so that
  \<open>validateWhenClauses\<close> reports the error of a clause again for the empty clause that follows it.
\<close>

theorem validateWhenClauses_empty_repeats:
  "\<exists>e1 e2. validateWhenClauses c [js ''!'', []] = Some [[e1], [e1, e2]]"
proof -
  define c' where "c' = c\<lparr>ph_recovery := False\<rparr>"
  obtain sc toks where sc: "Scanner_scan (ph_scan c') (Scanner_reset (ps_scanner new_parser) (js ''!'')) = (sc, toks)" by fastforce
  have "js ''!'' = [0x21]" by (simp add: js_def)
  then have toks: "map tok_type toks = [Neg, EOF]" "sc_errors sc = []"
    using lexes_whole [OF lexes_Neg, of "ph_scan c'" "ps_scanner new_parser"] sc by (auto simp: not_before_def)
  then obtain t u where tu: "toks = [t, u]" "tok_type t = Neg" "tok_type u = EOF" by (auto simp: map_eq_Cons_conv)
  let ?st = "new_parser\<lparr>ps_scanner := sc, ps_tokens := toks, ps_current := 0, ps_parsingErrors := []\<rparr>"
  obtain n where "parse_fuel (length toks) = Suc (Suc (Suc (Suc n)))" by (simp add: tu parse_fuel_def eval_nat_numeral)
  then have "\<exists>st' e. parse_tokens c' (parse_fuel (length toks)) ?st = Some (st', Inl ()) \<and> ps_parsingErrors st' = [e] \<and> ps_scanner st' = sc"
    by (simp add: parse_tokens_def Parser_expr.simps Parser_or.simps Parser_and.simps Parser_term.simps p_bind_def Parser_matchOne_def
        Parser_check_def Parser_peek_def p_lift_def Parser_advance_def Parser_isAtEnd_def p_return_def tu
        Parser_errExpectedButGot_def pushError_def p_throw_def Let_def)
  then obtain st' e where "parse_tokens c' (parse_fuel (length toks)) ?st = Some (st', Inl ())" "ps_parsingErrors st' = [e]" "ps_scanner st' = sc"
    by blast
  then show ?thesis
    using sc toks(2) by (simp add: validateWhenClauses_def Parser_parse_def clause_errors_def js_def flip: c'_def)
qed

end
