(* ===== verification/ContextKeyConstants.thy ===== *)
theory ContextKeyConstants
  imports ContextKeyLaws
begin

text \<open>
  What \<open>substituteConstants\<close> promises: on an expression in disjunctive normal form it returns,
  and in a context that gives the registered constants their values its result has the value of
  the expression.
\<close>

section \<open>Conjunctions of conjunctions\<close>

text \<open>\<open>And.create\<close> of conjunctions is a conjunction or a leaf.\<close>

lemma and_create_tree:
  assumes "\<And>e. Some e \<in> set arr \<Longrightarrow> conj_tree late e" "\<not> set arr \<subseteq> {None}"
  shows "\<exists>x. ck h env (CallAnd arr None False) = Some (Some x) \<and> conj_tree late x"
proof -
  obtain x where x: "ck h env (CallAnd arr None False) = Some (Some x)" "dnf late x"
    using create_some [OF and_create_trees assms(2)] assms(1) by blast
  have items: "\<forall>e \<in> set es. or_parts e = None" if "and_collect arr [] False = Some (es, t)" for es t
    using and_collect_items [OF that] tree_and_items [OF assms(1)] conj_tree_shape by fastforce
  have "or_parts x = None"
  proof (cases "and_collect arr [] False")
    case None
    with x(1) show ?thesis by (auto simp: ck_simps and_normalizeArr_def)
  next
    case (Some p)
    obtain es t where p: "p = (es, t)" by fastforce
    define ds where "ds = dedupe (expr_sort h es)"
    have ds: "es \<noteq> [] \<Longrightarrow> ds \<noteq> []" "\<forall>e \<in> set ds. or_parts e = None"
      using set_dedupe [of "expr_sort h es"] items Some p by (auto simp: ds_def ck_semantics.set_expr_sort)
    then have "es \<noteq> [] \<Longrightarrow> distribute h (ck h env) False ds = Some ds" by (intro distribute_done) (metis last_in_set)
    with x(1) items [of es t] Some p ds show ?thesis
      by (auto simp: ck_simps and_normalizeArr_def Let_def simp flip: ds_def split: if_splits)
  qed
  with x dnf_conj_tree show ?thesis by blast
qed

section \<open>Substitution of constants\<close>

lemmas substitute_defs = subst_leaf_def ContextKeyDefinedExpr_substituteConstants_def
  ContextKeyNotExpr_substituteConstants_def ContextKeyEqualsExpr_substituteConstants_def
  ContextKeyNotEqualsExpr_substituteConstants_def

lemma eliminate_total:
  assumes "\<And>e. e \<in> set es \<Longrightarrow> \<exists>x b. subst e = Some (Some x, b) \<and> P x"
  shows "\<exists>xs b. eliminateConstantsInArray subst es = Some (map Some xs, b) \<and> (\<forall>x \<in> set xs. P x) \<and> length xs = length es"
proof -
  have "\<exists>rs. mapM subst es = Some rs \<and> (\<forall>r \<in> set rs. \<exists>x. fst r = Some x \<and> P x) \<and> length rs = length es"
    by (rule mapM_total) (use assms in fastforce)
  then obtain rs where rs: "mapM subst es = Some rs" "\<forall>r \<in> set rs. \<exists>x. fst r = Some x \<and> P x" "length rs = length es" by blast
  then have "map fst rs = map Some (map (the \<circ> fst) rs)" by (auto simp: list_eq_iff_nth_eq) (metis nth_mem option.sel)
  moreover have "\<forall>x \<in> set (map (the \<circ> fst) rs). P x" using rs(2) by fastforce
  ultimately show ?thesis
    using rs(1,3) by (intro exI [of _ "map (the \<circ> fst) rs"] exI [of _ "\<exists>r \<in> set rs. snd r"]) (simp add: eliminateConstantsInArray_def)
qed

lemma substitute_lit:
  "lit late e \<Longrightarrow> \<exists>x b. ContextKeyExpr_substituteConstants h env e = Some (Some x, b) \<and> lit late x"
  using lit_AndOr by (cases e) (auto simp: substitute_defs Let_def split: option.split)

lemma substitute_tree:
  "conj_tree late e \<Longrightarrow> \<exists>x b. ContextKeyExpr_substituteConstants h env e = Some (Some x, b) \<and> conj_tree late x"
proof (induction rule: conj_tree.induct)
  case (leaf e)
  then show ?case using substitute_lit [OF leaf, of h env] conj_tree.leaf by blast
next
  case (node es)
  obtain xs b where xs: "eliminateConstantsInArray (ContextKeyExpr_substituteConstants h env) es = Some (map Some xs, b)"
      "\<forall>x \<in> set xs. conj_tree late x" "length xs = length es"
    using eliminate_total [of es "ContextKeyExpr_substituteConstants h env" "conj_tree late"] node.IH by blast
  moreover have "\<exists>x. ck h env (CallAnd (map Some xs) None False) = Some (Some x) \<and> conj_tree late x"
    by (rule and_create_tree) (use xs node.hyps(1) in \<open>cases xs; auto\<close>)+
  ultimately show ?case
    using conj_tree.node [OF node.hyps] by (cases b) (auto simp: ContextKeyAndExpr_create_def)
qed

lemma substitute_dnf:
  assumes "dnf late e"
  shows "\<exists>x b. ContextKeyExpr_substituteConstants h env e = Some (Some x, b) \<and> dnf late x"
  using assms
proof (cases rule: dnf_cases)
  case tree
  then show ?thesis using substitute_tree dnf.tree by blast
next
  case (disj es n)
  obtain xs b where xs: "eliminateConstantsInArray (ContextKeyExpr_substituteConstants h env) es = Some (map Some xs, b)"
      "\<forall>x \<in> set xs. conj_tree late x" "length xs = length es"
    using eliminate_total [of es "ContextKeyExpr_substituteConstants h env" "conj_tree late"] substitute_tree disj(3) by blast
  moreover have "dnf late m" if "n = Some m" for m using assms that disj(1) by (auto elim: dnf_OrE)
  then have "\<exists>x. ck h env (CallOr (map Some xs) n False) = Some (Some x) \<and> dnf late x"
    by (intro or_create_some) (use xs disj(2) in \<open>auto intro: dnf.tree\<close>)
  ultimately show ?thesis using disj(1) assms by (cases b) (auto simp: ContextKeyOrExpr_create_def)
qed

text \<open>The values of the substituted elements\<close>

lemma eliminate_values:
  assumes "eliminateConstantsInArray subst es = Some (xs, b)"
    and "\<And>e r c. e \<in> set es \<Longrightarrow> subst e = Some (r, c) \<Longrightarrow> \<exists>x. r = Some x \<and> F x \<and> (V x \<longleftrightarrow> V e)"
  shows "all_of F xs" "all_of V xs \<longleftrightarrow> (\<forall>e \<in> set es. V e)" "some_of V xs \<longleftrightarrow> (\<exists>e \<in> set es. V e)"
    "es \<noteq> [] \<Longrightarrow> \<not> set xs \<subseteq> {None}"
proof -
  obtain rs where rs: "mapM subst es = Some rs" "xs = map fst rs" using assms(1) by (auto simp: eliminateConstantsInArray_def)
  have "list_all2 (\<lambda>e x. \<exists>y. x = Some y \<and> F y \<and> (V y \<longleftrightarrow> V e)) es xs"
    unfolding rs(2) list_all2_map2 using ck_semantics.mapM_Some [OF rs(1)] assms(2)
    by (auto simp: list_all2_conv_all_nth) (metis nth_mem prod.collapse)
  then show "all_of F xs" "all_of V xs \<longleftrightarrow> (\<forall>e \<in> set es. V e)" "some_of V xs \<longleftrightarrow> (\<exists>e \<in> set es. V e)"
      "es \<noteq> [] \<Longrightarrow> \<not> set xs \<subseteq> {None}"
    by (induction es xs rule: list_all2_induct) auto
qed

lemma substitute_values:
  "ContextKeyExpr_substituteConstants h env e = Some (r, c) \<Longrightarrow> fine h env ctx flags e \<Longrightarrow>
    \<exists>x. r = Some x \<and> fine h env ctx flags x \<and> (ContextKeyExpr_evaluate h ctx x \<longleftrightarrow> ContextKeyExpr_evaluate h ctx e)"
proof (induction e arbitrary: r c rule: measure_induct_rule [of size])
  case (less e)
  have IH: "\<exists>x. r = Some x \<and> fine h env ctx flags x \<and> (ContextKeyExpr_evaluate h ctx x \<longleftrightarrow> ContextKeyExpr_evaluate h ctx e')"
    if "e' \<in> set (parts e)" "ContextKeyExpr_substituteConstants h env e' = Some (r, c)" for e' r c
    by (rule less.IH [OF size_parts_negated(1) [OF that(1)] that(2) fine_parts [OF less.prems(2) that(1)]])
  have const: "fine h env ctx flags TrueExpr" "fine h env ctx flags FalseExpr" by (auto intro: fine_leafI)
  show ?case
  proof (cases "parts e = [] \<and> and_parts e = None \<and> or_parts e = None")
    case True
    with less.prems const fine_leaf [OF less.prems(2)] show ?thesis
      by (cases e) (auto simp: substitute_defs agrees_def evaluate_defs Let_def split: option.splits if_splits)
  next
    case False
    then consider (conj) es n where "e = AndExpr es n" | (disj) es n where "e = OrExpr es n" by (cases e) auto
    then show ?thesis
    proof cases
      case conj
      obtain xs b where xs: "eliminateConstantsInArray (ContextKeyExpr_substituteConstants h env) es = Some (xs, b)"
        using less.prems(1) conj by (auto simp: bind_eq_Some_conv)
      note vals = eliminate_values [OF xs, of "fine h env ctx flags" "ContextKeyExpr_evaluate h ctx"]
      have es: "es \<noteq> []" "\<forall>m. n = Some m \<longrightarrow> fine h env ctx flags m \<and> (ContextKeyExpr_evaluate h ctx m \<longleftrightarrow> \<not> (\<forall>e \<in> set es. ContextKeyExpr_evaluate h ctx e))"
        using less.prems(2) by (auto simp: conj ck_semantics.fine_And)
      show ?thesis
      proof (cases b)
        case True
        then have "ck h env (CallAnd xs n False) = Some r" using less.prems(1) xs conj by (simp add: ContextKeyAndExpr_create_def)
        from ck_semantics.ck_meets [OF this, of ctx flags] vals [OF IH] es show ?thesis
          by (cases r) (auto simp: ck_semantics.meets_def ck_semantics.cached_def conj)
      next
        case False
        with less.prems xs conj show ?thesis by (auto simp: ck_semantics.ev_And)
      qed
    next
      case disj
      obtain xs b where xs: "eliminateConstantsInArray (ContextKeyExpr_substituteConstants h env) es = Some (xs, b)"
        using less.prems(1) disj by (auto simp: bind_eq_Some_conv)
      note vals = eliminate_values [OF xs, of "fine h env ctx flags" "ContextKeyExpr_evaluate h ctx"]
      have es: "es \<noteq> []" "\<forall>m. n = Some m \<longrightarrow> fine h env ctx flags m \<and> (ContextKeyExpr_evaluate h ctx m \<longleftrightarrow> \<not> (\<exists>e \<in> set es. ContextKeyExpr_evaluate h ctx e))"
        using less.prems(2) by (auto simp: disj ck_semantics.fine_Or)
      show ?thesis
      proof (cases b)
        case True
        then have "ck h env (CallOr xs n False) = Some r" using less.prems(1) xs disj by (simp add: ContextKeyOrExpr_create_def)
        from ck_semantics.ck_meets [OF this, of ctx flags] vals [OF IH] es show ?thesis
          by (cases r) (auto simp: ck_semantics.meets_def ck_semantics.cached_def disj)
      next
        case False
        with less.prems xs disj show ?thesis by (auto simp: ck_semantics.ev_Or)
      qed
    qed
  qed
qed

end
