(* ===== verification/Keybindings.thy ===== *)
theory Keybindings
  imports ContextKeyConstants "HOL-Library.AList" "HOL-Library.Sublist"
begin

text \<open>
  Keybinding resolution: \<open>ResolvedKeybindingItem\<close> (\<open>platform/keybinding/common/resolvedKeybindingItem.ts\<close>)
  and \<open>KeybindingResolver\<close> (\<open>platform/keybinding/common/keybindingResolver.ts\<close>).

  A JavaScript \<open>Map\<close> is an association list in insertion order, on which \<open>AList.update\<close> is
  \<open>set\<close> and \<open>map_of\<close> is \<open>get\<close>. An item carries its identity, which is what \<open>===\<close> compares.
  The arguments of a command (\<open>any\<close> in the source) have an arbitrary type. The results are \<open>None\<close>
  where the normalization of a context key expression does not return.
\<close>

section \<open>Keybinding items\<close>

text \<open>A \<open>ResolvedKeybinding\<close>, by the two methods that are called on it\<close>

record ResolvedKeybinding =
  getDispatchChords :: "js_string option list"
  getSingleModifierDispatchChords :: "js_string option list"

fun toEmptyArray_loop :: "js_string option list \<Rightarrow> js_string list \<Rightarrow> js_string list" where
  "toEmptyArray_loop [] result = result"
| "toEmptyArray_loop (element # arr) result =
     (case element of
        None \<Rightarrow> []
      | Some s \<Rightarrow> if s = [] then [] else toEmptyArray_loop arr (result @ [s]))"

definition toEmptyArrayIfContainsNull :: "js_string option list \<Rightarrow> js_string list" where
  "toEmptyArrayIfContainsNull arr = toEmptyArray_loop arr []"

record 'a ResolvedKeybindingItem =
  kb_ref :: nat
  kb_resolvedKeybinding :: "ResolvedKeybinding option"
  kb_chords :: "js_string list"
  kb_bubble :: bool
  kb_command :: "js_string option"
  kb_commandArgs :: 'a
  kb_when :: "ContextKeyExpression option"
  kb_isDefault :: bool
  kb_extensionId :: "js_string option"
  kb_isBuiltinExtension :: bool

definition ResolvedKeybindingItem_new :: "nat \<Rightarrow> ResolvedKeybinding option \<Rightarrow> js_string option \<Rightarrow> 'a \<Rightarrow>
    ContextKeyExpression option \<Rightarrow> bool \<Rightarrow> js_string option \<Rightarrow> bool \<Rightarrow> 'a ResolvedKeybindingItem" where
  "ResolvedKeybindingItem_new ref resolvedKeybinding command commandArgs w isDefault extensionId isBuiltinExtension =
     (let chords = (case resolvedKeybinding of
            None \<Rightarrow> []
          | Some kb \<Rightarrow>
              let chords = toEmptyArrayIfContainsNull (getDispatchChords kb)
              in if chords = [] then toEmptyArrayIfContainsNull (getSingleModifierDispatchChords kb) else chords);
          bubble = (case command of Some (c # _) \<Rightarrow> c = 0x5E | _ \<Rightarrow> False)
      in \<lparr>kb_ref = ref, kb_resolvedKeybinding = resolvedKeybinding, kb_chords = chords, kb_bubble = bubble,
          kb_command = (if bubble then map_option tl command else command), kb_commandArgs = commandArgs,
          kb_when = w, kb_isDefault = isDefault, kb_extensionId = extensionId,
          kb_isBuiltinExtension = isBuiltinExtension\<rparr>)"

text \<open>\<open>command && command.charAt(0) === '-'\<close>, with the rest of the command\<close>

fun removal_of :: "js_string option \<Rightarrow> js_string option" where
  "removal_of (Some (c # cs)) = (if c = 0x2D then Some cs else None)"
| "removal_of _ = None"

section \<open>Removals\<close>

fun keypress_matches :: "js_string list \<Rightarrow> js_string list \<Rightarrow> bool" where
  "keypress_matches [] chords = True"
| "keypress_matches (k # keypress) [] = False"
| "keypress_matches (k # keypress) (c # chords) = (k = c \<and> keypress_matches keypress chords)"

definition isTargetedForRemoval :: "js_host \<Rightarrow> constants \<Rightarrow> 'a ResolvedKeybindingItem \<Rightarrow> js_string list option \<Rightarrow>
    ContextKeyExpression option \<Rightarrow> bool option" where
  "isTargetedForRemoval h env defaultKb keypress w =
     (if (case keypress of Some ks \<Rightarrow> \<not> keypress_matches ks (kb_chords defaultKb) | None \<Rightarrow> False) then Some False
      else case w of
        None \<Rightarrow> Some True
      | Some e \<Rightarrow>
          if e = TrueExpr then Some True
          else if kb_when defaultKb = None then Some False
          else expressionsAreEqualWithConstantSubstitution h env (Some e) (kb_when defaultKb))"

fun collect_removals :: "'a ResolvedKeybindingItem list \<Rightarrow> (js_string \<times> 'a ResolvedKeybindingItem list) list \<Rightarrow>
    (js_string \<times> 'a ResolvedKeybindingItem list) list" where
  "collect_removals [] removals = removals"
| "collect_removals (rule # rules) removals =
     (case removal_of (kb_command rule) of
        None \<Rightarrow> collect_removals rules removals
      | Some command \<Rightarrow>
          collect_removals rules
            (case map_of removals command of
               None \<Rightarrow> AList.update command [rule] removals
             | Some rs \<Rightarrow> AList.update command (rs @ [rule]) removals))"

fun is_removed :: "js_host \<Rightarrow> constants \<Rightarrow> 'a ResolvedKeybindingItem \<Rightarrow> 'a ResolvedKeybindingItem list \<Rightarrow> bool option" where
  "is_removed h env rule [] = Some False"
| "is_removed h env rule (commandRemoval # rs) =
     Option.bind (isTargetedForRemoval h env rule (Some (kb_chords commandRemoval)) (kb_when commandRemoval))
       (\<lambda>b. if b then Some True else is_removed h env rule rs)"

text \<open>Whether the second pass keeps a rule\<close>

definition keeps_rule :: "js_host \<Rightarrow> constants \<Rightarrow> (js_string \<times> 'a ResolvedKeybindingItem list) list \<Rightarrow>
    'a ResolvedKeybindingItem \<Rightarrow> bool option" where
  "keeps_rule h env removals rule =
     (case kb_command rule of
        None \<Rightarrow> Some True
      | Some command \<Rightarrow>
          if command = [] then Some True
          else if removal_of (Some command) \<noteq> None then Some False
          else case map_of removals command of
            None \<Rightarrow> Some True
          | Some commandRemovals \<Rightarrow>
              if \<not> kb_isDefault rule then Some True
              else map_option Not (is_removed h env rule commandRemovals))"

fun keep_rules :: "js_host \<Rightarrow> constants \<Rightarrow> (js_string \<times> 'a ResolvedKeybindingItem list) list \<Rightarrow>
    'a ResolvedKeybindingItem list \<Rightarrow> 'a ResolvedKeybindingItem list \<Rightarrow> 'a ResolvedKeybindingItem list option" where
  "keep_rules h env removals [] result = Some result"
| "keep_rules h env removals (rule # rules) result =
     Option.bind (keeps_rule h env removals rule)
       (\<lambda>b. keep_rules h env removals rules (if b then result @ [rule] else result))"

definition handleRemovals :: "js_host \<Rightarrow> constants \<Rightarrow> 'a ResolvedKeybindingItem list \<Rightarrow> 'a ResolvedKeybindingItem list option" where
  "handleRemovals h env rules =
     (let removals = collect_removals rules []
      in if length removals = 0 then Some rules else keep_rules h env removals rules [])"

section \<open>The resolver\<close>

record 'a KeybindingResolver =
  kr_defaultKeybindings :: "'a ResolvedKeybindingItem list"
  kr_keybindings :: "'a ResolvedKeybindingItem list"
  kr_defaultBoundCommands :: "(js_string \<times> bool) list"
  kr_map :: "(js_string \<times> 'a ResolvedKeybindingItem list) list"
  kr_lookupMap :: "(js_string \<times> 'a ResolvedKeybindingItem list) list"

definition addToLookupMap :: "'a ResolvedKeybindingItem \<Rightarrow> 'a KeybindingResolver \<Rightarrow> 'a KeybindingResolver" where
  "addToLookupMap item r =
     (case kb_command item of
        None \<Rightarrow> r
      | Some command \<Rightarrow>
          if command = [] then r
          else case map_of (kr_lookupMap r) command of
            None \<Rightarrow> r\<lparr>kr_lookupMap := AList.update command [item] (kr_lookupMap r)\<rparr>
          | Some arr \<Rightarrow> r\<lparr>kr_lookupMap := AList.update command (arr @ [item]) (kr_lookupMap r)\<rparr>)"

fun splice_item :: "'a ResolvedKeybindingItem \<Rightarrow> 'a ResolvedKeybindingItem list \<Rightarrow> 'a ResolvedKeybindingItem list" where
  "splice_item item [] = []"
| "splice_item item (x # arr) = (if kb_ref x = kb_ref item then arr else x # splice_item item arr)"

definition removeFromLookupMap :: "'a ResolvedKeybindingItem \<Rightarrow> 'a KeybindingResolver \<Rightarrow> 'a KeybindingResolver" where
  "removeFromLookupMap item r =
     (case kb_command item of
        None \<Rightarrow> r
      | Some command \<Rightarrow>
          if command = [] then r
          else case map_of (kr_lookupMap r) command of
            None \<Rightarrow> r
          | Some arr \<Rightarrow> r\<lparr>kr_lookupMap := AList.update command (splice_item item arr) (kr_lookupMap r)\<rparr>)"

definition whenIsEntirelyIncluded :: "js_host \<Rightarrow> ContextKeyExpression option \<Rightarrow> ContextKeyExpression option \<Rightarrow> bool" where
  "whenIsEntirelyIncluded h a b =
     (case b of
        None \<Rightarrow> True
      | Some q \<Rightarrow>
          if q = TrueExpr then True
          else case a of None \<Rightarrow> False | Some p \<Rightarrow> if p = TrueExpr then False else implies h p q)"

text \<open>The loop over the chords behind the first, as far as both keybindings have them\<close>

fun is_shorter_prefix :: "js_string list \<Rightarrow> js_string list \<Rightarrow> bool" where
  "is_shorter_prefix (c # cs) (d # ds) = (c = d \<and> is_shorter_prefix cs ds)"
| "is_shorter_prefix cs ds = True"

definition overwrites :: "js_host \<Rightarrow> 'a ResolvedKeybindingItem \<Rightarrow> 'a ResolvedKeybindingItem \<Rightarrow> bool" where
  "overwrites h item conflict \<longleftrightarrow> kb_command conflict \<noteq> kb_command item \<and>
     is_shorter_prefix (tl (kb_chords conflict)) (tl (kb_chords item)) \<and>
     whenIsEntirelyIncluded h (kb_when conflict) (kb_when item)"

text \<open>The loop over the conflicts, given from the last to the first\<close>

fun drop_conflicts :: "js_host \<Rightarrow> 'a ResolvedKeybindingItem \<Rightarrow> 'a ResolvedKeybindingItem list \<Rightarrow> 'a KeybindingResolver \<Rightarrow>
    'a KeybindingResolver" where
  "drop_conflicts h item [] r = r"
| "drop_conflicts h item (conflict # conflicts) r =
     drop_conflicts h item conflicts (if overwrites h item conflict then removeFromLookupMap conflict r else r)"

definition addKeyPress :: "js_host \<Rightarrow> js_string \<Rightarrow> 'a ResolvedKeybindingItem \<Rightarrow> 'a KeybindingResolver \<Rightarrow> 'a KeybindingResolver" where
  "addKeyPress h keypress item r =
     (case map_of (kr_map r) keypress of
        None \<Rightarrow> addToLookupMap item (r\<lparr>kr_map := AList.update keypress [item] (kr_map r)\<rparr>)
      | Some conflicts \<Rightarrow>
          let r' = drop_conflicts h item (rev conflicts) r
          in addToLookupMap item (r'\<lparr>kr_map := AList.update keypress (conflicts @ [item]) (kr_map r')\<rparr>))"

fun default_commands :: "'a ResolvedKeybindingItem list \<Rightarrow> (js_string \<times> bool) list \<Rightarrow> (js_string \<times> bool) list" where
  "default_commands [] m = m"
| "default_commands (kb # kbs) m =
     default_commands kbs
       (case kb_command kb of
          None \<Rightarrow> m
        | Some command \<Rightarrow>
            if command \<noteq> [] \<and> removal_of (Some command) = None then AList.update command True m else m)"

text \<open>\<open>k.when?.substituteConstants()\<close>\<close>

definition substituted_when :: "js_host \<Rightarrow> constants \<Rightarrow> 'a ResolvedKeybindingItem \<Rightarrow> ContextKeyExpression option option" where
  "substituted_when h env k =
     (case kb_when k of None \<Rightarrow> Some None
      | Some w \<Rightarrow> map_option fst (ContextKeyExpr_substituteConstants h env w))"

fun add_keybindings :: "js_host \<Rightarrow> constants \<Rightarrow> 'a ResolvedKeybindingItem list \<Rightarrow> 'a KeybindingResolver \<Rightarrow>
    'a KeybindingResolver option" where
  "add_keybindings h env [] r = Some r"
| "add_keybindings h env (k # ks) r =
     (case kb_chords k of
        [] \<Rightarrow> add_keybindings h env ks r
      | c # _ \<Rightarrow> Option.bind (substituted_when h env k) (\<lambda>w.
          if w = Some FalseExpr then add_keybindings h env ks r
          else add_keybindings h env ks (addKeyPress h c k r)))"

definition KeybindingResolver_new :: "js_host \<Rightarrow> constants \<Rightarrow> 'a ResolvedKeybindingItem list \<Rightarrow>
    'a ResolvedKeybindingItem list \<Rightarrow> 'a KeybindingResolver option" where
  "KeybindingResolver_new h env defaultKeybindings overrides =
     Option.bind (handleRemovals h env (defaultKeybindings @ overrides)) (\<lambda>keybindings.
       add_keybindings h env keybindings
         \<lparr>kr_defaultKeybindings = defaultKeybindings, kr_keybindings = keybindings,
          kr_defaultBoundCommands = default_commands defaultKeybindings [], kr_map = [], kr_lookupMap = []\<rparr>)"

section \<open>Lookups\<close>

definition getDefaultBoundCommands :: "'a KeybindingResolver \<Rightarrow> (js_string \<times> bool) list" where
  "getDefaultBoundCommands r = kr_defaultBoundCommands r"

definition getDefaultKeybindings :: "'a KeybindingResolver \<Rightarrow> 'a ResolvedKeybindingItem list" where
  "getDefaultKeybindings r = kr_defaultKeybindings r"

definition getKeybindings :: "'a KeybindingResolver \<Rightarrow> 'a ResolvedKeybindingItem list" where
  "getKeybindings r = kr_keybindings r"

definition lookupKeybindings :: "'a KeybindingResolver \<Rightarrow> js_string \<Rightarrow> 'a ResolvedKeybindingItem list" where
  "lookupKeybindings r commandId =
     (case map_of (kr_lookupMap r) commandId of None \<Rightarrow> [] | Some items \<Rightarrow> rev items)"

text \<open>\<open>contextMatchesRules\<close> is the method of the context key service.\<close>

definition lookupPrimaryKeybinding :: "'a KeybindingResolver \<Rightarrow> js_string \<Rightarrow> (ContextKeyExpression option \<Rightarrow> bool) \<Rightarrow>
    'a ResolvedKeybindingItem option" where
  "lookupPrimaryKeybinding r commandId contextMatchesRules =
     (case map_of (kr_lookupMap r) commandId of
        None \<Rightarrow> None
      | Some items \<Rightarrow>
          if items = [] then None
          else if length items = 1 then Some (hd items)
          else case List.find (\<lambda>item. contextMatchesRules (kb_when item)) (rev items) of
            Some item \<Rightarrow> Some item
          | None \<Rightarrow> Some (last items))"

section \<open>Resolution\<close>

datatype 'a ResolutionResult = NoMatchingKb | MoreChordsNeeded | KbFound "js_string option" 'a bool

definition printWhenExplanation :: "js_host \<Rightarrow> ContextKeyExpression option \<Rightarrow> js_string" where
  "printWhenExplanation h w =
     (case w of None \<Rightarrow> js ''no when condition'' | Some e \<Rightarrow> ContextKeyExpr_serialize h e)"

definition printSourceExplanation :: "'a ResolvedKeybindingItem \<Rightarrow> js_string" where
  "printSourceExplanation kb =
     (case kb_extensionId kb of
        Some (c # cs) \<Rightarrow> (if kb_isBuiltinExtension kb then js ''built-in extension '' else js ''user extension '') @ c # cs
      | _ \<Rightarrow> if kb_isDefault kb then js ''built-in'' else js ''user'')"

definition contextMatchesRules :: "js_host \<Rightarrow> IContext \<Rightarrow> ContextKeyExpression option \<Rightarrow> bool" where
  "contextMatchesRules h ctx rules =
     (case rules of None \<Rightarrow> True | Some e \<Rightarrow> ContextKeyExpr_evaluate h ctx e)"

text \<open>The loop of \<open>_findCommand\<close> over the matches, given from the last to the first\<close>

fun find_command_loop :: "js_host \<Rightarrow> IContext \<Rightarrow> 'a ResolvedKeybindingItem list \<Rightarrow> 'a ResolvedKeybindingItem option" where
  "find_command_loop h ctx [] = None"
| "find_command_loop h ctx (k # ks) =
     (if \<not> contextMatchesRules h ctx (kb_when k) then find_command_loop h ctx ks else Some k)"

definition findCommand :: "js_host \<Rightarrow> IContext \<Rightarrow> 'a ResolvedKeybindingItem list \<Rightarrow> 'a ResolvedKeybindingItem option" where
  "findCommand h ctx matches = find_command_loop h ctx (rev matches)"

text \<open>\<open>candidate.chords[i] !== pressedChords[i]\<close> for the pressed chords behind the first\<close>

fun chord_candidates :: "js_string list \<Rightarrow> 'a ResolvedKeybindingItem list \<Rightarrow> 'a ResolvedKeybindingItem list" where
  "chord_candidates pressedChords [] = []"
| "chord_candidates pressedChords (candidate # kbCandidates) =
     (if length pressedChords > length (kb_chords candidate) then chord_candidates pressedChords kbCandidates
      else if keypress_matches (tl pressedChords) (tl (kb_chords candidate))
        then candidate # chord_candidates pressedChords kbCandidates
      else chord_candidates pressedChords kbCandidates)"

text \<open>A number in a template string\<close>

definition count_string :: "js_host \<Rightarrow> nat \<Rightarrow> js_string" where
  "count_string h n = host_numberToString h (Finite (of_nat n))"

text \<open>The result of \<open>resolve\<close> and the lines it logs\<close>

definition resolve :: "js_host \<Rightarrow> 'a KeybindingResolver \<Rightarrow> IContext \<Rightarrow> js_string list \<Rightarrow> js_string \<Rightarrow>
    'a ResolutionResult \<times> js_string list" where
  "resolve h r ctx currentChords keypress =
     (let pressedChords = currentChords @ [keypress];
          log1 = js ''| Resolving '' @ join_with (js '','') pressedChords
      in case map_of (kr_map r) (hd pressedChords) of
           None \<Rightarrow> (NoMatchingKb, [log1, [0x5C] @ js '' No keybinding entries.''])
         | Some kbCandidates \<Rightarrow>
             let lookupMap = (if length pressedChords < 2 then kbCandidates
                              else chord_candidates pressedChords kbCandidates);
                 entries = [0x5C] @ js '' From '' @ count_string h (length lookupMap) @ js '' keybinding entries, ''
             in case findCommand h ctx lookupMap of
                  None \<Rightarrow> (NoMatchingKb, [log1, entries @ js ''no when clauses matched the context.''])
                | Some result \<Rightarrow>
                    let reason = js '', when: '' @ printWhenExplanation h (kb_when result) @
                          js '', source: '' @ printSourceExplanation result @ js ''.''
                    in if length pressedChords < length (kb_chords result)
                       then (MoreChordsNeeded, [log1, entries @ js ''awaiting '' @
                          count_string h (length (kb_chords result) - length pressedChords) @ js '' more chord(s)'' @ reason])
                       else (KbFound (kb_command result) (kb_commandArgs result) (kb_bubble result),
                          [log1, entries @ js ''matched '' @
                            (case kb_command result of None \<Rightarrow> js ''null'' | Some c \<Rightarrow> c) @ reason]))"

end
