(* ===== verification/KeybindingLaws.thy ===== *)
theory KeybindingLaws
  imports Keybindings
begin

text \<open>
  What the keybinding resolver promises: which rules the removals leave, that \<open>resolve\<close> answers
  with the last keybinding that the pressed chords and the context select, and which keybindings
  of a command the lookup lists.
\<close>

section \<open>Chords\<close>

lemma keypress_matches_prefix: "keypress_matches ks cs \<longleftrightarrow> prefix ks cs"
  by (induction ks cs rule: keypress_matches.induct) auto

lemma is_shorter_prefix_iff: "is_shorter_prefix cs ds \<longleftrightarrow> prefix cs ds \<or> prefix ds cs"
  by (induction cs ds rule: is_shorter_prefix.induct) auto

section \<open>Removals\<close>

lemma map_of_collect:
  "map_of (collect_removals rules m) c =
     (let rs = filter (\<lambda>r. removal_of (kb_command r) = Some c) rules
      in case map_of m c of Some xs \<Rightarrow> Some (xs @ rs) | None \<Rightarrow> if rs = [] then None else Some rs)"
proof (induction rules m rule: collect_removals.induct)
  case (2 rule rules m)
  then show ?case
    by (cases "removal_of (kb_command rule)") (auto simp: Let_def update_conv split: option.splits)
qed (auto split: option.splits)

lemma collect_removals_Nil: "collect_removals rules [] = [] \<longleftrightarrow> (\<forall>r \<in> set rules. removal_of (kb_command r) = None)"
proof
  assume "collect_removals rules [] = []"
  then have "map_of (collect_removals rules []) c = None" for c by simp
  then show "\<forall>r \<in> set rules. removal_of (kb_command r) = None"
    by (auto simp: map_of_collect Let_def filter_empty_conv split: if_splits) (metis not_None_eq)
next
  have "m = [] \<Longrightarrow> \<forall>r \<in> set rules. removal_of (kb_command r) = None \<Longrightarrow> collect_removals rules m = []" for m
    by (induction rules m rule: collect_removals.induct) auto
  then show "\<forall>r \<in> set rules. removal_of (kb_command r) = None \<Longrightarrow> collect_removals rules [] = []" by simp
qed

text \<open>
  Two conditions are written alike: they are the same expression but for the cached negations and for the flags of
  regular expressions. A condition that compares with \<open>NaN\<close> is not alike to itself.
\<close>

fun bare :: "ContextKeyExpression \<Rightarrow> ContextKeyExpression" where
  "bare (DefinedExpr k n) = DefinedExpr k None"
| "bare (NotExpr k n) = NotExpr k None"
| "bare (EqualsExpr k v n) = EqualsExpr k v None"
| "bare (NotEqualsExpr k v n) = NotEqualsExpr k v None"
| "bare (AndExpr es n) = AndExpr (map bare es) None"
| "bare (RegexExpr k re) = RegexExpr k (Some (RegExp (case re of None \<Rightarrow> [] | Some r \<Rightarrow> re_source r) []))"
| "bare (NotRegexExpr k re) = NotRegexExpr k (Some (RegExp (case re of None \<Rightarrow> [] | Some r \<Rightarrow> re_source r) []))"
| "bare (OrExpr es n) = OrExpr (map bare es) None"
| "bare (GreaterExpr k v n) = GreaterExpr k v None"
| "bare (GreaterEqualsExpr k v n) = GreaterEqualsExpr k v None"
| "bare (SmallerExpr k v n) = SmallerExpr k v None"
| "bare (SmallerEqualsExpr k v n) = SmallerEqualsExpr k v None"
| "bare e = e"

fun without_NaN :: "ContextKeyExpression \<Rightarrow> bool" where
  "without_NaN (EqualsExpr k v n) = (v \<noteq> Number NaN)"
| "without_NaN (NotEqualsExpr k v n) = (v \<noteq> Number NaN)"
| "without_NaN (AndExpr es n) = (\<forall>e \<in> set es. without_NaN e)"
| "without_NaN (OrExpr es n) = (\<forall>e \<in> set es. without_NaN e)"
| "without_NaN (GreaterExpr k v n) = (v \<noteq> Number NaN)"
| "without_NaN (GreaterEqualsExpr k v n) = (v \<noteq> Number NaN)"
| "without_NaN (SmallerExpr k v n) = (v \<noteq> Number NaN)"
| "without_NaN (SmallerEqualsExpr k v n) = (v \<noteq> Number NaN)"
| "without_NaN e = True"

definition alike :: "ContextKeyExpression \<Rightarrow> ContextKeyExpression \<Rightarrow> bool" where
  "alike x y \<longleftrightarrow> bare x = bare y \<and> without_NaN x"

lemma strict_eq_iff: "strict_eq v w \<longleftrightarrow> v = w \<and> v \<noteq> Number NaN"
  by (cases v; cases w) (auto simp: number_eq_def)

lemma equals_arr_alike:
  "(\<And>x y. x \<in> set xs \<Longrightarrow> eq x y \<longleftrightarrow> alike x y) \<Longrightarrow>
     equals_arr eq xs ys \<longleftrightarrow> map bare xs = map bare ys \<and> (\<forall>x \<in> set xs. without_NaN x)"
  by (induction eq xs ys rule: equals_arr.induct) (auto simp: alike_def)

lemma equalsTo_alike: "ContextKeyExpr_equalsTo x y \<longleftrightarrow> alike x y"
proof (induction x arbitrary: y rule: measure_induct_rule [of size])
  case (less x)
  have arr: "equals_arr ContextKeyExpr_equalsTo (parts x) es \<longleftrightarrow> map bare (parts x) = map bare es \<and> (\<forall>e \<in> set (parts x). without_NaN e)" for es
    by (intro equals_arr_alike less.IH size_parts_negated(1))
  show ?case using arr
    by (cases x; cases y) (auto simp: equals_defs alike_def strict_eq_iff regexp_source_def dest: map_eq_imp_length_eq)
qed

text \<open>
  A removal rule targets a rule: its command is the one of the rule behind a minus, its chords start the chords
  of the rule, and it has no condition, the condition \<open>true\<close>, or one that is alike to the condition of the rule
  once the constants are substituted in both.
\<close>

definition targets :: "js_host \<Rightarrow> constants \<Rightarrow> 'a ResolvedKeybindingItem \<Rightarrow> 'a ResolvedKeybindingItem \<Rightarrow> bool" where
  "targets h env removal rule \<longleftrightarrow> (\<exists>c. kb_command removal = Some (js ''-'' @ c) \<and> kb_command rule = Some c) \<and>
     prefix (kb_chords removal) (kb_chords rule) \<and>
     (kb_when removal \<in> {None, Some TrueExpr} \<or>
      (\<exists>w v x y. kb_when removal = Some w \<and> kb_when rule = Some v \<and>
         map_option fst (ContextKeyExpr_substituteConstants h env w) = Some (Some x) \<and>
         map_option fst (ContextKeyExpr_substituteConstants h env v) = Some (Some y) \<and> alike x y))"

definition survives :: "js_host \<Rightarrow> constants \<Rightarrow> 'a ResolvedKeybindingItem list \<Rightarrow> 'a ResolvedKeybindingItem \<Rightarrow> bool" where
  "survives h env rules rule \<longleftrightarrow> kb_command rule \<in> {None, Some []} \<or>
     ((\<nexists>c. kb_command rule = Some (js ''-'' @ c)) \<and> \<not> (kb_isDefault rule \<and> (\<exists>r \<in> set rules. targets h env r rule)))"

lemma removal_of_Some: "removal_of x = Some c \<longleftrightarrow> x = Some (js ''-'' @ c)"
  by (cases x rule: removal_of.cases) (auto simp: js_def)

lemma removal_of_None: "removal_of x = None \<longleftrightarrow> (\<nexists>c. x = Some (js ''-'' @ c))"
  using removal_of_Some by (metis not_None_eq)

lemma survives_iff:
  "survives h env rules rule \<longleftrightarrow> kb_command rule \<in> {None, Some []} \<or>
     (removal_of (kb_command rule) = None \<and> \<not> (kb_isDefault rule \<and> (\<exists>r \<in> set rules. targets h env r rule)))"
  by (simp add: survives_def removal_of_None)

text \<open>Substituting the constants in the condition returns, as it does in disjunctive normal form and where there are no constants.\<close>

definition when_returns :: "js_host \<Rightarrow> constants \<Rightarrow> 'a ResolvedKeybindingItem \<Rightarrow> bool" where
  "when_returns h env k \<longleftrightarrow> (\<forall>w. kb_when k = Some w \<longrightarrow> (\<exists>x b. ContextKeyExpr_substituteConstants h env w = Some (Some x, b)))"

definition when_dnf :: "'a ResolvedKeybindingItem \<Rightarrow> bool" where
  "when_dnf k \<longleftrightarrow> (\<forall>w. kb_when k = Some w \<longrightarrow> dnf True w)"

lemma when_dnf_returns: "when_dnf k \<Longrightarrow> when_returns h env k"
  unfolding when_dnf_def when_returns_def using substitute_dnf by blast

lemma equal_alike:
  assumes "ContextKeyExpr_substituteConstants h env w = Some (Some x, b)" "ContextKeyExpr_substituteConstants h env v = Some (Some y, c)"
  shows "expressionsAreEqualWithConstantSubstitution h env (Some w) (Some v) = Some (alike x y)"
  using assms by (simp add: expressionsAreEqualWithConstantSubstitution_def equalsTo_alike)

lemma isTargeted_total:
  assumes "when_returns h env removal" "when_returns h env rule"
    "removal_of (kb_command removal) = Some c" "kb_command rule = Some c"
  shows "isTargetedForRemoval h env rule (Some (kb_chords removal)) (kb_when removal) = Some (targets h env removal rule)"
proof (cases "kb_when removal = None \<or> kb_when rule = None")
  case True
  then show ?thesis using assms(3,4)
    by (auto simp: isTargetedForRemoval_def targets_def keypress_matches_prefix removal_of_Some split: option.split)
next
  case False
  then obtain w v where wv: "kb_when removal = Some w" "kb_when rule = Some v" by auto
  obtain x b y c where sub: "ContextKeyExpr_substituteConstants h env w = Some (Some x, b)"
      "ContextKeyExpr_substituteConstants h env v = Some (Some y, c)"
    using assms(1,2) wv by (auto simp: when_returns_def)
  then show ?thesis using wv assms(3,4) equal_alike [OF sub]
    by (auto simp: isTargetedForRemoval_def targets_def keypress_matches_prefix removal_of_Some)
qed

lemma is_removed_total:
  assumes "\<forall>r \<in> set rs. when_returns h env r \<and> removal_of (kb_command r) = Some c" "when_returns h env rule" "kb_command rule = Some c"
  shows "is_removed h env rule rs = Some (\<exists>r \<in> set rs. targets h env r rule)"
  using assms(1) by (induction rs) (auto simp: isTargeted_total [OF _ assms(2) _ assms(3)])

lemma keeps_rule_survives:
  assumes "\<forall>r \<in> set rules. when_returns h env r" "when_returns h env rule"
  shows "keeps_rule h env (collect_removals rules []) rule = Some (survives h env rules rule)"
proof (cases "kb_command rule")
  case (Some c)
  let ?rs = "filter (\<lambda>r. removal_of (kb_command r) = Some c) rules"
  have "is_removed h env rule ?rs = Some (\<exists>r \<in> set ?rs. targets h env r rule)"
    by (rule is_removed_total) (use assms Some in auto)
  moreover have "(\<exists>r \<in> set ?rs. targets h env r rule) \<longleftrightarrow> (\<exists>r \<in> set rules. targets h env r rule)"
    using Some by (auto simp: targets_def removal_of_Some)
  moreover have "?rs = [] \<Longrightarrow> \<not> (\<exists>r \<in> set rules. targets h env r rule)"
    using Some by (auto simp: targets_def filter_empty_conv removal_of_Some)
  ultimately show ?thesis using Some by (auto simp: keeps_rule_def survives_iff map_of_collect Let_def)
qed (simp add: keeps_rule_def survives_def)

lemma keep_rules_filter:
  "(\<And>r. r \<in> set rules \<Longrightarrow> keeps_rule h env removals r = Some (P r)) \<Longrightarrow>
     keep_rules h env removals rules result = Some (result @ filter P rules)"
  by (induction rules arbitrary: result) auto

lemma handleRemovals_filter:
  assumes "\<forall>r \<in> set rules. when_returns h env r"
  shows "handleRemovals h env rules = Some (filter (survives h env rules) rules)"
proof (cases "collect_removals rules [] = []")
  case True
  then have none: "\<forall>r \<in> set rules. removal_of (kb_command r) = None" by (simp add: collect_removals_Nil)
  then have "\<forall>r \<in> set rules. survives h env rules r" by (auto simp: survives_def targets_def removal_of_None)
  with True show ?thesis by (simp add: handleRemovals_def)
next
  case False
  with keep_rules_filter [of rules h env _ "survives h env rules"] keeps_rule_survives [of rules] assms show ?thesis
    by (auto simp: handleRemovals_def)
qed

section \<open>The contents of the maps\<close>

text \<open>
  The keybindings that the constructor adds: with chords, and with a condition that is not \<open>false\<close> once the constants
  are substituted
\<close>

definition active :: "js_host \<Rightarrow> constants \<Rightarrow> 'a ResolvedKeybindingItem \<Rightarrow> bool" where
  "active h env k \<longleftrightarrow> kb_chords k \<noteq> [] \<and>
     (\<nexists>w. kb_when k = Some w \<and> map_option fst (ContextKeyExpr_substituteConstants h env w) = Some (Some FalseExpr))"

lemma active_iff: "active h env k \<longleftrightarrow> kb_chords k \<noteq> [] \<and> substituted_when h env k \<noteq> Some (Some FalseExpr)"
  by (auto simp: active_def substituted_when_def split: option.split)

lemma kr_map_simps [simp]:
  "kr_map (addToLookupMap item r) = kr_map r" "kr_map (removeFromLookupMap item r) = kr_map r"
  "kr_keybindings (addToLookupMap item r) = kr_keybindings r" "kr_keybindings (removeFromLookupMap item r) = kr_keybindings r"
  by (simp_all add: addToLookupMap_def removeFromLookupMap_def split: option.split)

lemma kr_map_drop [simp]:
  "kr_map (drop_conflicts h item cs r) = kr_map r" "kr_keybindings (drop_conflicts h item cs r) = kr_keybindings r"
  by (induction h item cs r rule: drop_conflicts.induct) simp_all

lemma kr_keybindings_add [simp]: "kr_keybindings (addKeyPress h c k r) = kr_keybindings r"
  by (simp add: addKeyPress_def Let_def split: option.split)

lemma map_of_addKeyPress:
  "map_of (kr_map (addKeyPress h c k r)) key =
     (if key = c then Some ((case map_of (kr_map r) c of None \<Rightarrow> [] | Some xs \<Rightarrow> xs) @ [k]) else map_of (kr_map r) key)"
  by (auto simp: addKeyPress_def Let_def update_conv split: option.split)

text \<open>The constructor's loop as a fold over the active keybindings\<close>

lemma add_keybindings_foldl:
  "add_keybindings h env ks r = Some r' \<Longrightarrow>
     r' = foldl (\<lambda>r k. addKeyPress h (hd (kb_chords k)) k r) r (filter (active h env) ks)"
  by (induction ks arbitrary: r)
    (auto simp: active_iff bind_eq_Some_conv split: list.splits if_splits)

lemma add_keybindings_total:
  assumes "\<forall>k \<in> set ks. when_returns h env k"
  shows "\<exists>r'. add_keybindings h env ks r = Some r'"
  using assms
proof (induction ks arbitrary: r)
  case (Cons k ks)
  have "\<exists>w. substituted_when h env k = Some w"
    using Cons.prems by (fastforce simp: substituted_when_def when_returns_def split: option.split)
  with Cons show ?case by (auto split: list.split)
qed simp

lemma foldl_keybindings:
  "kr_keybindings (foldl (\<lambda>r k. addKeyPress h (hd (kb_chords k)) k r) r ks) = kr_keybindings r"
  by (induction ks arbitrary: r) simp_all

lemma map_of_foldl:
  "map_of (kr_map (foldl (\<lambda>r k. addKeyPress h (hd (kb_chords k)) k r) r ks)) key =
     (let fs = filter (\<lambda>k. hd (kb_chords k) = key) ks
      in case map_of (kr_map r) key of Some xs \<Rightarrow> Some (xs @ fs) | None \<Rightarrow> if fs = [] then None else Some fs)"
  by (induction ks arbitrary: r) (auto simp: map_of_addKeyPress Let_def split: option.splits)

lemma KeybindingResolver_new_keybindings:
  "KeybindingResolver_new h env ds os = Some r \<Longrightarrow> handleRemovals h env (ds @ os) = Some (kr_keybindings r)"
  by (auto simp: KeybindingResolver_new_def bind_eq_Some_conv foldl_keybindings dest!: add_keybindings_foldl)

lemma KeybindingResolver_new_maps:
  assumes "KeybindingResolver_new h env ds os = Some r"
  obtains r0 where "kr_map r0 = []" "kr_lookupMap r0 = []"
    "r = foldl (\<lambda>r k. addKeyPress h (hd (kb_chords k)) k r) r0 (filter (active h env) (kr_keybindings r))"
    "handleRemovals h env (ds @ os) = Some (kr_keybindings r)"
proof -
  obtain ks where ks: "handleRemovals h env (ds @ os) = Some ks" and
    add: "add_keybindings h env ks \<lparr>kr_defaultKeybindings = ds, kr_keybindings = ks,
      kr_defaultBoundCommands = default_commands ds [], kr_map = [], kr_lookupMap = []\<rparr> = Some r"
    using assms by (auto simp: KeybindingResolver_new_def bind_eq_Some_conv)
  note r = add_keybindings_foldl [OF add]
  then have "kr_keybindings r = ks" by (simp add: foldl_keybindings)
  with r ks that show ?thesis by force
qed

lemma resolver_constructed:
  assumes "\<forall>k \<in> set (ds @ os). when_returns h env k"
  shows "\<exists>r. KeybindingResolver_new h env ds os = Some r \<and> kr_keybindings r = filter (survives h env (ds @ os)) (ds @ os)"
proof -
  let ?ks = "filter (survives h env (ds @ os)) (ds @ os)"
  have ks: "handleRemovals h env (ds @ os) = Some ?ks" using assms by (rule handleRemovals_filter)
  then obtain r where r: "KeybindingResolver_new h env ds os = Some r"
    using add_keybindings_total [of ?ks h env] assms by (auto simp: KeybindingResolver_new_def)
  with KeybindingResolver_new_keybindings [OF r] ks show ?thesis by simp
qed

section \<open>Resolution\<close>

lemma find_command_find: "findCommand h ctx ks = List.find (\<lambda>k. contextMatchesRules h ctx (kb_when k)) (rev ks)"
proof -
  have "find_command_loop h ctx ks = List.find (\<lambda>k. contextMatchesRules h ctx (kb_when k)) ks" for ks
    by (induction ks) auto
  then show ?thesis by (simp add: findCommand_def)
qed

lemma find_filter: "List.find P (filter Q xs) = List.find (\<lambda>x. Q x \<and> P x) xs"
  by (induction xs) auto

lemma find_cong_set: "(\<And>x. x \<in> set xs \<Longrightarrow> P x \<longleftrightarrow> Q x) \<Longrightarrow> List.find P xs = List.find Q xs"
  by (induction xs) auto

lemma chord_candidates_filter:
  "chord_candidates pressed ks =
     filter (\<lambda>k. length pressed \<le> length (kb_chords k) \<and> prefix (tl pressed) (tl (kb_chords k))) ks"
  by (induction ks) (auto simp: keypress_matches_prefix)

text \<open>The keybinding that a context and pressed chords select\<close>

definition selects :: "js_host \<Rightarrow> IContext \<Rightarrow> js_string list \<Rightarrow> 'a ResolvedKeybindingItem \<Rightarrow> bool" where
  "selects h ctx pressed k \<longleftrightarrow> prefix pressed (kb_chords k) \<and> contextMatchesRules h ctx (kb_when k)"

definition answer :: "js_string list \<Rightarrow> 'a ResolvedKeybindingItem option \<Rightarrow> 'a ResolutionResult" where
  "answer pressed found = (case found of
      None \<Rightarrow> NoMatchingKb
    | Some k \<Rightarrow> if length pressed < length (kb_chords k) then MoreChordsNeeded
                else KbFound (kb_command k) (kb_commandArgs k) (kb_bubble k))"

definition when_fine :: "js_host \<Rightarrow> constants \<Rightarrow> IContext \<Rightarrow> (js_string \<Rightarrow> js_string) \<Rightarrow> 'a ResolvedKeybindingItem \<Rightarrow> bool" where
  "when_fine h env ctx flags k \<longleftrightarrow> (\<forall>w. kb_when k = Some w \<longrightarrow> fine h env ctx flags w)"

text \<open>What is skipped as constantly false does not match the context.\<close>

lemma inactive_no_match:
  assumes "when_fine h env ctx flags k" "substituted_when h env k = Some (Some FalseExpr)"
  shows "\<not> contextMatchesRules h ctx (kb_when k)"
  using assms substitute_values [of h env _ "Some FalseExpr" _ ctx flags]
  by (auto simp: when_fine_def substituted_when_def contextMatchesRules_def ContextKeyFalseExpr_evaluate_def split: option.splits)

lemma selects_active:
  "when_fine h env ctx flags k \<Longrightarrow> pressed \<noteq> [] \<Longrightarrow> selects h ctx pressed k \<Longrightarrow> active h env k"
  using inactive_no_match [of h env ctx flags k] by (auto simp: selects_def active_iff)

lemma prefix_first:
  "pressed \<noteq> [] \<Longrightarrow> prefix pressed cs \<longleftrightarrow>
     cs \<noteq> [] \<and> hd cs = hd pressed \<and> length pressed \<le> length cs \<and> prefix (tl pressed) (tl cs)"
  by (cases pressed; cases cs) (auto dest: prefix_length_le)

lemma resolve_answer:
  assumes "KeybindingResolver_new h env ds os = Some r" "\<forall>k \<in> set (kr_keybindings r). when_fine h env ctx flags k"
  shows "fst (resolve h r ctx cur key) =
    answer (cur @ [key]) (List.find (selects h ctx (cur @ [key])) (rev (kr_keybindings r)))"
proof -
  let ?p = "cur @ [key]" and ?ks = "filter (active h env) (kr_keybindings r)"
  let ?c = "filter (\<lambda>k. hd (kb_chords k) = hd ?p) ?ks"
  obtain r0 where "kr_map r0 = []" "r = foldl (\<lambda>r k. addKeyPress h (hd (kb_chords k)) k r) r0 ?ks"
    by (rule KeybindingResolver_new_maps [OF assms(1)])
  then have map: "map_of (kr_map r) (hd ?p) = (if ?c = [] then None else Some ?c)"
    using map_of_foldl [of h r0 ?ks "hd ?p"] by (simp add: Let_def)
  have sel: "List.find (selects h ctx ?p) (rev (kr_keybindings r)) =
      findCommand h ctx (filter (\<lambda>k. length ?p \<le> length (kb_chords k) \<and> prefix (tl ?p) (tl (kb_chords k))) ?c)"
    unfolding find_command_find rev_filter find_filter
    using assms(2) selects_active [of h env ctx flags _ ?p]
    by (intro find_cong_set) (auto simp: selects_def prefix_first [of ?p] active_def)
  have single: "filter (\<lambda>k. length ?p \<le> length (kb_chords k) \<and> prefix (tl ?p) (tl (kb_chords k))) ?c = ?c" if "length ?p < 2"
    using that by (cases cur) (auto simp: active_def Suc_le_eq intro!: filter_cong)
  show ?thesis
  proof (cases "?c = []")
    case True
    then show ?thesis unfolding sel using map by (simp add: resolve_def Let_def answer_def find_command_find)
  next
    case False
    then have "fst (resolve h r ctx cur key) = answer ?p (findCommand h ctx (if length ?p < 2 then ?c else chord_candidates ?p ?c))"
      using map by (auto simp: resolve_def Let_def answer_def split: option.split)
    then show ?thesis unfolding sel using single by (auto simp: chord_candidates_filter)
  qed
qed

section \<open>Lookup\<close>

text \<open>
  A later keybinding \<open>s\<close> shadows an earlier one \<open>k\<close>: another command, chords of which one list starts the other, and no
  condition, the condition \<open>true\<close>, or one that \<^const>\<open>implies\<close> finds to follow from the condition of \<open>k\<close>.
\<close>

definition shadows :: "js_host \<Rightarrow> 'a ResolvedKeybindingItem \<Rightarrow> 'a ResolvedKeybindingItem \<Rightarrow> bool" where
  "shadows h s k \<longleftrightarrow> kb_command k \<noteq> kb_command s \<and>
     (prefix (kb_chords k) (kb_chords s) \<or> prefix (kb_chords s) (kb_chords k)) \<and>
     (kb_when s \<in> {None, Some TrueExpr} \<or>
      (\<exists>p q. kb_when k = Some p \<and> p \<noteq> TrueExpr \<and> kb_when s = Some q \<and> implies h p q))"

lemma shadows_overwrites:
  assumes "kb_chords s \<noteq> []" "kb_chords k \<noteq> []"
  shows "shadows h s k \<longleftrightarrow> hd (kb_chords k) = hd (kb_chords s) \<and> overwrites h s k"
proof -
  have "prefix (kb_chords k) (kb_chords s) \<or> prefix (kb_chords s) (kb_chords k) \<longleftrightarrow>
      hd (kb_chords k) = hd (kb_chords s) \<and> is_shorter_prefix (tl (kb_chords k)) (tl (kb_chords s))"
    using assms by (cases "kb_chords k"; cases "kb_chords s") (auto simp: is_shorter_prefix_iff)
  then show ?thesis
    by (auto simp: shadows_def overwrites_def whenIsEntirelyIncluded_def split: option.split)
qed

fun unshadowed :: "js_host \<Rightarrow> 'a ResolvedKeybindingItem list \<Rightarrow> 'a ResolvedKeybindingItem list" where
  "unshadowed h [] = []"
| "unshadowed h (k # ks) = (if \<exists>s \<in> set ks. shadows h s k then unshadowed h ks else k # unshadowed h ks)"

lemma unshadowed_snoc: "unshadowed h (ks @ [x]) = filter (\<lambda>k. \<not> shadows h x k) (unshadowed h ks) @ [x]"
  by (induction ks) auto

lemma unshadowed_subset: "set (unshadowed h ks) \<subseteq> set ks"
  by (induction ks) auto

lemma unshadowed_distinct: "distinct (map kb_ref ks) \<Longrightarrow> distinct (map kb_ref (unshadowed h ks))"
proof (induction ks)
  case (Cons k ks)
  with unshadowed_subset [of h ks] show ?case by (auto dest!: subsetD)
qed simp

definition looked :: "'a KeybindingResolver \<Rightarrow> js_string \<Rightarrow> 'a ResolvedKeybindingItem list" where
  "looked r c = (case map_of (kr_lookupMap r) c of None \<Rightarrow> [] | Some xs \<Rightarrow> xs)"

lemma lookupKeybindings_looked: "lookupKeybindings r c = rev (looked r c)"
  by (simp add: lookupKeybindings_def looked_def split: option.split)

lemma looked_map [simp]: "looked (r\<lparr>kr_map := m\<rparr>) c = looked r c"
  by (simp add: looked_def)

lemma looked_addToLookupMap:
  "c \<noteq> [] \<Longrightarrow> looked (addToLookupMap k r) c = looked r c @ (if kb_command k = Some c then [k] else [])"
  by (auto simp: looked_def addToLookupMap_def update_conv split: option.split)

lemma looked_removeFromLookupMap:
  "c \<noteq> [] \<Longrightarrow> looked (removeFromLookupMap k r) c = (if kb_command k = Some c then splice_item k (looked r c) else looked r c)"
  by (auto simp: looked_def removeFromLookupMap_def update_conv split: option.split)

lemma splice_item_filter:
  "distinct (map kb_ref xs) \<Longrightarrow> splice_item k xs = filter (\<lambda>x. kb_ref x \<noteq> kb_ref k) xs"
proof (induction xs)
  case (Cons x xs)
  have "filter (\<lambda>y. kb_ref y \<noteq> kb_ref x) xs = xs" using Cons.prems by (auto simp: filter_id_conv intro: rev_image_eqI)
  with Cons show ?case by auto
qed simp

lemma looked_drop_conflicts:
  assumes "c \<noteq> []"
  shows "distinct (map kb_ref (looked r c)) \<Longrightarrow> looked (drop_conflicts h item cs r) c =
    filter (\<lambda>x. \<not> (\<exists>k \<in> set cs. overwrites h item k \<and> kb_command k = Some c \<and> kb_ref k = kb_ref x)) (looked r c)"
proof (induction cs arbitrary: r)
  case (Cons k cs)
  have d: "distinct (map kb_ref (filter P (looked r c)))" for P using Cons.prems distinct_map_filter by blast
  show ?case
    by (auto simp: Cons d looked_removeFromLookupMap [OF assms] splice_item_filter intro!: filter_cong)
qed simp

lemma looked_addKeyPress:
  assumes "c \<noteq> []" "distinct (map kb_ref (looked r c))"
  shows "looked (addKeyPress h key x r) c =
    filter (\<lambda>y. \<not> (\<exists>k \<in> set (case map_of (kr_map r) key of None \<Rightarrow> [] | Some ks \<Rightarrow> ks).
        overwrites h x k \<and> kb_command k = Some c \<and> kb_ref k = kb_ref y)) (looked r c) @
    (if kb_command x = Some c then [x] else [])"
  using assms by (auto simp: addKeyPress_def Let_def looked_addToLookupMap looked_drop_conflicts intro!: filter_cong split: option.split)

lemma ref_unique: "distinct (map kb_ref ks) \<Longrightarrow> k \<in> set ks \<Longrightarrow> k' \<in> set ks \<Longrightarrow> kb_ref k = kb_ref k' \<Longrightarrow> k = k'"
  by (auto simp: distinct_map inj_on_def)

lemma looked_foldl:
  assumes "c \<noteq> []" "kr_map r = []" "kr_lookupMap r = []"
  shows "distinct (map kb_ref ks) \<Longrightarrow> \<forall>k \<in> set ks. kb_chords k \<noteq> [] \<Longrightarrow> looked (foldl (\<lambda>r k. addKeyPress h (hd (kb_chords k)) k r) r ks) c =
    filter (\<lambda>k. kb_command k = Some c) (unshadowed h ks)"
proof (induction ks rule: rev_induct)
  case Nil
  then show ?case using assms(3) by (simp add: looked_def)
next
  case (snoc x ks)
  let ?r = "foldl (\<lambda>r k. addKeyPress h (hd (kb_chords k)) k r) r ks" and ?key = "hd (kb_chords x)"
  have IH: "looked ?r c = filter (\<lambda>k. kb_command k = Some c) (unshadowed h ks)" using snoc by simp
  have d: "distinct (map kb_ref (looked ?r c))"
    unfolding IH using unshadowed_distinct [of ks h] snoc.prems by (intro distinct_map_filter) simp
  have cs: "(case map_of (kr_map ?r) ?key of None \<Rightarrow> [] | Some ks \<Rightarrow> ks) = filter (\<lambda>k. hd (kb_chords k) = ?key) ks"
    by (simp add: map_of_foldl Let_def assms(2))
  have "(\<exists>k \<in> set ks. hd (kb_chords k) = ?key \<and> overwrites h x k \<and> kb_command k = Some c \<and> kb_ref k = kb_ref y) \<longleftrightarrow> shadows h x y"
    if "y \<in> set (unshadowed h ks)" "kb_command y = Some c" for y
    using that unshadowed_subset [of h ks] ref_unique [of ks _ y] snoc.prems shadows_overwrites [of x y h] by fastforce
  then have "filter (\<lambda>y. \<not> (\<exists>k \<in> set ks. hd (kb_chords k) = ?key \<and> overwrites h x k \<and> kb_command k = Some c \<and> kb_ref k = kb_ref y)) (looked ?r c) =
      filter (\<lambda>y. kb_command y = Some c) (filter (\<lambda>k. \<not> shadows h x k) (unshadowed h ks))"
    unfolding IH filter_filter by (intro filter_cong) auto
  then show ?case by (simp add: looked_addKeyPress [OF assms(1) d] cs unshadowed_snoc Bex_def conj_assoc)
qed

lemma subseq_distinct_map: "subseq xs ys \<Longrightarrow> set xs \<subseteq> set ys \<and> (distinct (map f ys) \<longrightarrow> distinct (map f xs))"
  by (induction rule: list_emb.induct) auto

lemma survivors_subset: "handleRemovals h env rules = Some ks \<Longrightarrow> set ks \<subseteq> set rules \<and> (distinct (map kb_ref rules) \<longrightarrow> distinct (map kb_ref ks))"
proof -
  have *: "keep_rules h env removals rules result = Some ks \<Longrightarrow> \<exists>xs. ks = result @ xs \<and> subseq xs rules" for removals rules result
  proof (induction rules arbitrary: result)
    case (Cons rule rules)
    then obtain b where "keep_rules h env removals rules (if b then result @ [rule] else result) = Some ks"
      by (auto simp: bind_eq_Some_conv)
    from Cons.IH [OF this] obtain xs where "ks = (if b then result @ [rule] else result) @ xs" "subseq xs rules" by blast
    then show ?case by (intro exI [of _ "if b then rule # xs else xs"]) auto
  qed simp
  assume "handleRemovals h env rules = Some ks"
  then have "subseq ks rules" using * [of _ rules "[]"] by (auto simp: handleRemovals_def Let_def split: if_splits)
  then show ?thesis by (rule subseq_distinct_map)
qed

lemma lookupKeybindings_unshadowed_lemma:
  assumes "KeybindingResolver_new h env ds os = Some r" "distinct (map kb_ref (ds @ os))" "c \<noteq> []"
  shows "lookupKeybindings r c =
    rev (filter (\<lambda>k. kb_command k = Some c) (unshadowed h (filter (active h env) (kr_keybindings r))))"
proof -
  obtain r0 where r0: "kr_map r0 = []" "kr_lookupMap r0 = []"
      "r = foldl (\<lambda>r k. addKeyPress h (hd (kb_chords k)) k r) r0 (filter (active h env) (kr_keybindings r))"
      "handleRemovals h env (ds @ os) = Some (kr_keybindings r)"
    by (rule KeybindingResolver_new_maps [OF assms(1)])
  have "distinct (map kb_ref (filter (active h env) (kr_keybindings r)))"
    using survivors_subset [OF r0(4)] assms(2) distinct_map_filter by blast
  moreover have "\<forall>k \<in> set (filter (active h env) (kr_keybindings r)). kb_chords k \<noteq> []" by (simp add: active_def)
  ultimately show ?thesis using looked_foldl [OF assms(3) r0(1,2), of _ h]
    unfolding lookupKeybindings_looked by (subst r0(3)) simp
qed

text \<open>Where a keybinding is missing from the lookup, a later one shadows it.\<close>

lemma unshadowed_missing:
  "k \<in> set ks \<Longrightarrow> A k \<Longrightarrow> k \<notin> set (unshadowed h (filter A ks)) \<Longrightarrow>
     \<exists>xs ys s. ks = xs @ k # ys \<and> s \<in> set ys \<and> A s \<and> shadows h s k"
proof (induction ks)
  case (Cons x ks)
  show ?case
  proof (cases "k \<in> set ks \<and> k \<notin> set (unshadowed h (filter A ks))")
    case True
    with Cons obtain xs ys s where "ks = xs @ k # ys" "s \<in> set ys" "A s" "shadows h s k" by blast
    then have "x # ks = (x # xs) @ k # ys \<and> s \<in> set ys \<and> A s \<and> shadows h s k" by simp
    then show ?thesis by blast
  next
    case False
    with Cons.prems obtain s where "x = k" "s \<in> set ks" "A s" "shadows h s k" by (auto split: if_splits)
    then have "x # ks = [] @ k # ks \<and> s \<in> set ks \<and> A s \<and> shadows h s k" by simp
    then show ?thesis by blast
  qed
qed simp

definition when_strings :: "'a ResolvedKeybindingItem \<Rightarrow> bool" where
  "when_strings k \<longleftrightarrow> (\<forall>w. kb_when k = Some w \<longrightarrow> string_values w)"

lemma shadows_match:
  assumes "shadows h s k" "when_fine h env ctx flags s" "when_fine h env ctx flags k" "when_strings s" "when_strings k"
    "contextMatchesRules h ctx (kb_when k)"
  shows "contextMatchesRules h ctx (kb_when s)"
  using assms implies_values [of h env ctx flags]
  by (auto simp: shadows_def contextMatchesRules_def when_fine_def when_strings_def
      ContextKeyTrueExpr_evaluate_def split: option.splits if_splits)

lemma shadows_chords:
  assumes "shadows h s k" "kb_chords s \<noteq> []" "kb_chords k \<noteq> []"
  shows "\<exists>n < length (kb_chords k). prefix (take (Suc n) (kb_chords k)) (kb_chords s)"
proof -
  obtain a cs ds where "kb_chords k = a # cs" "kb_chords s = a # ds" "prefix cs ds \<or> prefix ds cs"
    using assms by (cases "kb_chords k"; cases "kb_chords s") (auto simp: shadows_def)
  moreover have "min (length cs) (length ds) < length (a # cs)" by simp
  moreover have "prefix (take (min (length cs) (length ds)) cs) ds"
    using \<open>prefix cs ds \<or> prefix ds cs\<close> by (auto simp: prefix_def)
  ultimately show ?thesis by (metis Cons_prefix_Cons take_Suc_Cons)
qed

lemma find_append: "List.find P (xs @ ys) = (case List.find P xs of None \<Rightarrow> List.find P ys | Some x \<Rightarrow> Some x)"
  by (induction xs) auto

lemma find_None_iff_set: "List.find P xs = None \<longleftrightarrow> (\<forall>x \<in> set xs. \<not> P x)"
  by (induction xs) auto

lemma find_Some_set: "List.find P xs = Some x \<Longrightarrow> x \<in> set xs \<and> P x"
  by (induction xs) (auto split: if_splits)

lemma shadowed_not_found:
  assumes "ks = xs @ k # ys" "s \<in> set ys" "shadows h s k" "active h env s" "active h env k" "distinct (map kb_ref ks)"
    "\<forall>k \<in> set ks. when_fine h env ctx flags k \<and> when_strings k" "contextMatchesRules h ctx (kb_when k)"
  shows "\<exists>n < length (kb_chords k). \<exists>s \<in> set ks. s \<noteq> k \<and>
    List.find (selects h ctx (take (Suc n) (kb_chords k))) (rev ks) = Some s"
proof -
  obtain n where n: "n < length (kb_chords k)" "prefix (take (Suc n) (kb_chords k)) (kb_chords s)"
    using shadows_chords [OF assms(3)] assms(4,5) by (auto simp: active_def)
  have "selects h ctx (take (Suc n) (kb_chords k)) s"
    using n(2) shadows_match [OF assms(3), of env ctx flags] assms(1,2,7,8) by (simp add: selects_def)
  then obtain s' where s': "List.find (selects h ctx (take (Suc n) (kb_chords k))) (rev ys) = Some s'"
    using assms(2) find_None_iff_set by (metis not_None_eq set_rev)
  then have "s' \<in> set ys" using find_Some_set by fastforce
  moreover from this have "s' \<noteq> k" using assms(1,6) by auto
  ultimately show ?thesis using n(1) s' assms(1) by (intro exI [of _ n]) (auto simp: find_append)
qed

section \<open>The promises of the resolver\<close>

definition sample_item :: "nat \<Rightarrow> string list \<Rightarrow> string \<Rightarrow> ContextKeyExpression option \<Rightarrow> bool \<Rightarrow> unit ResolvedKeybindingItem" where
  "sample_item ref chords command w isDefault = \<lparr>kb_ref = ref, kb_resolvedKeybinding = None, kb_chords = map js chords,
     kb_bubble = False, kb_command = Some (js command), kb_commandArgs = (), kb_when = w, kb_isDefault = isDefault,
     kb_extensionId = None, kb_isBuiltinExtension = False\<rparr>"

lemma js_inject [simp]: "js s = js t \<longleftrightarrow> s = t" "js s = [] \<longleftrightarrow> s = []"
proof -
  have "unat (of_nat (of_char c) :: code_unit) = of_char c" for c :: char
    using nat_of_char_less_256 [of c] by (simp add: unat_of_nat del: nat_of_char_less_256)
  then have "unat (of_char c :: code_unit) = of_char c" for c :: char by (simp only: of_nat_of_char)
  then have "inj (\<lambda>c. of_char c :: code_unit)" by (intro injI) (metis of_char_eq_iff)
  then show "js s = js t \<longleftrightarrow> s = t" by (simp add: js_def inj_map_eq_map)
qed (simp add: js_def)

lemma sample_removal_of [simp]:
  "removal_of (Some (js ''cmd'')) = None" "removal_of (Some (js ''other'')) = None"
  "removal_of (Some (js ''-other'')) = Some (js ''other'')"
  by (simp_all add: js_def)

lemma sample_item_sel [simp]:
  "kb_ref (sample_item n cs c w d) = n" "kb_chords (sample_item n cs c w d) = map js cs" "kb_command (sample_item n cs c w d) = Some (js c)"
  "kb_when (sample_item n cs c w d) = w" "kb_isDefault (sample_item n cs c w d) = d"
  by (simp_all add: sample_item_def)

lemma sample_item_fine [simp]:
  "when_dnf (sample_item n cs c None d)" "when_dnf (sample_item n cs c (Some sample_b) d)" "when_dnf (sample_item n cs c (Some sample_a) d)"
  "when_fine sample_host Map.empty sample_context flags (sample_item n cs c None d)"
  "when_fine sample_host Map.empty sample_context flags (sample_item n cs c (Some sample_b) d)"
  "when_fine sample_host Map.empty sample_context flags (sample_item n cs c (Some sample_a) d)"
  "when_strings (sample_item n cs c None d)" "when_strings (sample_item n cs c (Some sample_a) d)"
  by (auto simp: when_dnf_def when_fine_def when_strings_def intro: dnf.tree)

abbreviation "sample_defaults \<equiv> [sample_item 0 [''a''] ''cmd'' (Some sample_a) True, sample_item 1 [''a'', ''b''] ''other'' None True]"
abbreviation "sample_overrides \<equiv> [sample_item 2 [''a''] ''-other'' None False, sample_item 3 [''c''] ''other'' (Some sample_b) False]"

lemma sample_returns [simp]:
  "when_returns h env (sample_item n cs c None d)" "when_returns h env (sample_item n cs c (Some sample_a) d)"
  "when_returns h env (sample_item n cs c (Some sample_b) d)"
  by (simp_all add: when_dnf_returns)

lemma sample_command [simp]: "js ''cmd'' \<noteq> js ''-'' @ c" "js ''other'' \<noteq> js ''-'' @ c" "js ''-other'' = js ''-'' @ c \<longleftrightarrow> c = js ''other''"
  by (auto simp: js_def)

text \<open>
  C30: \<open>handleRemovals\<close> returns the rules without the removal rules and without the default rules
  that a removal rule targets: one with the same command behind its minus, with chords that start
  the chords of the rule, and with no condition, the condition \<open>true\<close>, or one that is written like the
  condition of the rule once the constants are substituted in both. Rules of the user and rules without a command stay.
  It is assumed that substituting the constants in the conditions returns, which it does for conditions in disjunctive normal form.
\<close>

theorem handleRemovals_exact:
  assumes "\<forall>r \<in> set rules. when_returns h env r"
  shows "handleRemovals h env rules = Some (filter (survives h env rules) rules)"
  using assms by (rule handleRemovals_filter)

text \<open>A removal with the condition of one of two rules, and one with chords and no condition\<close>

abbreviation "sample_rules \<equiv> [sample_item 0 [''a''] ''other'' (Some sample_a) True, sample_item 1 [''a''] ''other'' (Some sample_b) True,
   sample_item 2 [''a'', ''b''] ''cmd'' None True, sample_item 3 [''a''] ''-other'' (Some sample_a) False]"

theorem handleRemovals_exact_witness:
  "handleRemovals sample_host Map.empty sample_rules =
     Some [sample_item 1 [''a''] ''other'' (Some sample_b) True, sample_item 2 [''a'', ''b''] ''cmd'' None True]"
proof -
  have "handleRemovals sample_host Map.empty sample_rules = Some (filter (survives sample_host Map.empty sample_rules) sample_rules)"
    by (rule handleRemovals_exact) auto
  then show ?thesis by (simp add: survives_def targets_def substitute_defs alike_def all_bool_eq ex_bool_eq)
qed

text \<open>
  C4: A resolver is always constructed from keybindings with conditions in disjunctive normal
  form, and \<open>resolve\<close> answers with the last keybinding that the removals leave, whose chords start
  with the pressed chords and whose condition holds: with its command when all its chords are
  pressed, with a request for more chords otherwise, and with no match when there is none. The
  conditions have to be fine for the context: keys that are registered as constants have the constant's value in it and are
  not compared with \<open>==\<close> or \<open>!=\<close>, what is compared with a number is a number in the context, no value is compared with a Boolean,
  regular expressions with the same source have the same flags, and cached negations are negations.
\<close>

theorem resolve_last_keybinding:
  assumes "\<forall>k \<in> set (ds @ os). when_dnf k \<and> when_fine h env ctx flags k"
  shows "\<exists>r. KeybindingResolver_new h env ds os = Some r \<and>
    fst (resolve h r ctx cur key) = answer (cur @ [key])
      (List.find (selects h ctx (cur @ [key])) (rev (filter (survives h env (ds @ os)) (ds @ os))))"
proof -
  obtain r where r: "KeybindingResolver_new h env ds os = Some r" "kr_keybindings r = filter (survives h env (ds @ os)) (ds @ os)"
    using resolver_constructed [of ds os h env] assms when_dnf_returns by blast
  moreover from this have "\<forall>k \<in> set (kr_keybindings r). when_fine h env ctx flags k" using assms by auto
  ultimately show ?thesis using resolve_answer [OF r(1), of ctx flags cur key] by simp
qed

theorem resolve_last_keybinding_witness:
  "\<exists>r. KeybindingResolver_new sample_host Map.empty sample_defaults sample_overrides = Some r \<and>
     fst (resolve sample_host r sample_context [] (js ''a'')) = KbFound (Some (js ''cmd'')) () False"
proof -
  have all: "\<forall>k \<in> set (sample_defaults @ sample_overrides). when_dnf k \<and> when_fine sample_host Map.empty sample_context (\<lambda>s. []) k"
    by simp
  have "List.find (selects sample_host sample_context ([] @ [js ''a'']))
      (rev (filter (survives sample_host Map.empty (sample_defaults @ sample_overrides)) (sample_defaults @ sample_overrides))) =
      Some (sample_item 0 [''a''] ''cmd'' (Some sample_a) True)"
    by (simp add: survives_def targets_def selects_def contextMatchesRules_def)
  with resolve_last_keybinding [OF all, of "[]" "js ''a''"] show ?thesis
    by (simp add: answer_def sample_item_def)
qed

text \<open>
  C27: \<open>lookupKeybindings\<close> of a newly constructed resolver lists, the latest first, exactly the keybindings of a command that
  the removals leave, that have chords and a condition other than \<open>false\<close> once the constants are substituted, and that no later one of these
  shadows: a keybinding of another command, with chords of which one list starts the other, and with no
  condition, the condition \<open>true\<close>, or one that \<open>implies\<close> finds to follow from the earlier condition. The keybindings are different
  objects, the command is not empty, and substituting the constants in the conditions returns, as it does in disjunctive normal form.
\<close>

theorem lookupKeybindings_unshadowed:
  assumes "\<forall>k \<in> set (ds @ os). when_returns h env k" "distinct (map kb_ref (ds @ os))" "c \<noteq> []"
  shows "\<exists>r. KeybindingResolver_new h env ds os = Some r \<and> lookupKeybindings r c =
    rev (filter (\<lambda>k. kb_command k = Some c) (unshadowed h (filter (active h env) (filter (survives h env (ds @ os)) (ds @ os)))))"
proof -
  obtain r where r: "KeybindingResolver_new h env ds os = Some r" "kr_keybindings r = filter (survives h env (ds @ os)) (ds @ os)"
    using resolver_constructed [OF assms(1)] by blast
  with lookupKeybindings_unshadowed_lemma [OF r(1) assms(2,3)] show ?thesis by simp
qed

lemma sample_active [simp]:
  "active sample_host Map.empty (sample_item n cs c None d) \<longleftrightarrow> cs \<noteq> []"
  "active sample_host Map.empty (sample_item n cs c (Some sample_a) d) \<longleftrightarrow> cs \<noteq> []"
  by (simp_all add: active_def substitute_defs)

text \<open>The first keybinding is shadowed by the second one; the third one is not, because its chords differ in the second place.\<close>

abbreviation "sample_bindings \<equiv> [sample_item 0 [''a''] ''cmd'' (Some sample_a) True, sample_item 1 [''a'', ''b''] ''other'' None True,
   sample_item 2 [''a'', ''c''] ''cmd'' (Some sample_a) True, sample_item 3 [''a'', ''b''] ''other'' None True]"

theorem lookupKeybindings_unshadowed_witness:
  "\<exists>r. KeybindingResolver_new sample_host Map.empty sample_bindings [] = Some r \<and>
     lookupKeybindings r (js ''cmd'') = [sample_item 2 [''a'', ''c''] ''cmd'' (Some sample_a) True]"
proof -
  have "\<exists>r. KeybindingResolver_new sample_host Map.empty sample_bindings [] = Some r \<and> lookupKeybindings r (js ''cmd'') =
      rev (filter (\<lambda>k. kb_command k = Some (js ''cmd'')) (unshadowed sample_host (filter (active sample_host Map.empty)
        (filter (survives sample_host Map.empty (sample_bindings @ [])) (sample_bindings @ [])))))"
    by (rule lookupKeybindings_unshadowed) simp_all
  then show ?thesis by (simp add: survives_def targets_def shadows_def)
qed

lemma resolver_sample:
  "\<exists>r. KeybindingResolver_new sample_host Map.empty sample_defaults [] = Some r \<and> kr_keybindings r = sample_defaults"
  using resolver_constructed [of sample_defaults "[]" sample_host Map.empty] by (auto simp: survives_def targets_def)

text \<open>
  A keybinding that the lookup of its command does not list is not reached by typing its
  chords one after the other with nothing pending: in every context in which its condition holds,
  another, later keybinding answers for one of the prefixes of its chords.
\<close>

theorem hidden_keybinding_preempted:
  assumes "KeybindingResolver_new h env ds os = Some r" "distinct (map kb_ref (ds @ os))"
    and "\<forall>k \<in> set (kr_keybindings r). when_fine h env ctx flags k \<and> when_strings k"
    and "k \<in> set (kr_keybindings r)" "active h env k" "kb_command k = Some c" "c \<noteq> []" "k \<notin> set (lookupKeybindings r c)"
    and "contextMatchesRules h ctx (kb_when k)"
  shows "\<exists>n < length (kb_chords k). \<exists>s \<in> set (kr_keybindings r). s \<noteq> k \<and>
    fst (resolve h r ctx (take n (kb_chords k)) (kb_chords k ! n)) = answer (take (Suc n) (kb_chords k)) (Some s)"
proof -
  have "k \<notin> set (unshadowed h (filter (active h env) (kr_keybindings r)))"
    using assms(6,8) lookupKeybindings_unshadowed_lemma [OF assms(1,2,7)] by auto
  then obtain xs ys s where s: "kr_keybindings r = xs @ k # ys" "s \<in> set ys" "active h env s" "shadows h s k"
    using unshadowed_missing [of k "kr_keybindings r" "active h env" h] assms(4,5) by blast
  have "distinct (map kb_ref (kr_keybindings r))"
    using survivors_subset [OF KeybindingResolver_new_keybindings [OF assms(1)]] assms(2) by simp
  from shadowed_not_found [OF s(1,2,4,3) assms(5) this assms(3,9)] obtain n s' where
      n: "n < length (kb_chords k)" "s' \<in> set (kr_keybindings r)" "s' \<noteq> k"
        "List.find (selects h ctx (take (Suc n) (kb_chords k))) (rev (kr_keybindings r)) = Some s'" by blast
  have "take n (kb_chords k) @ [kb_chords k ! n] = take (Suc n) (kb_chords k)"
    using n(1) by (simp add: take_Suc_conv_app_nth)
  then have "fst (resolve h r ctx (take n (kb_chords k)) (kb_chords k ! n)) = answer (take (Suc n) (kb_chords k)) (Some s')"
    using resolve_answer [OF assms(1), of ctx flags "take n (kb_chords k)" "kb_chords k ! n"] assms(3) n(4) by simp
  with n show ?thesis by blast
qed

theorem hidden_keybinding_preempted_witness:
  "\<exists>r. KeybindingResolver_new sample_host Map.empty sample_defaults [] = Some r \<and>
     (\<exists>s \<in> set sample_defaults. s \<noteq> hd sample_defaults \<and>
        fst (resolve sample_host r sample_context [] (js ''a'')) = answer [js ''a''] (Some s))"
proof -
  obtain r where r: "KeybindingResolver_new sample_host Map.empty sample_defaults [] = Some r" "kr_keybindings r = sample_defaults"
    using resolver_sample by blast
  let ?k = "sample_item 0 [''a''] ''cmd'' (Some sample_a) True"
  have act: "active sample_host Map.empty ?k" "active sample_host Map.empty (sample_item 1 [''a'', ''b''] ''other'' None True)"
    by simp_all
  have neq: "?k \<noteq> sample_item 1 [''a'', ''b''] ''other'' None True" by (metis sample_item_sel(1) zero_neq_one)
  have "?k \<notin> set (unshadowed sample_host (filter (active sample_host Map.empty) (kr_keybindings r)))"
    using act neq by (simp add: r(2) shadows_def)
  then have "?k \<notin> set (lookupKeybindings r (js ''cmd''))"
    using lookupKeybindings_unshadowed_lemma [OF r(1), of "js ''cmd''"] by (simp add:)
  then have "\<exists>n < length (kb_chords ?k). \<exists>s \<in> set (kr_keybindings r). s \<noteq> ?k \<and>
      fst (resolve sample_host r sample_context (take n (kb_chords ?k)) (kb_chords ?k ! n)) = answer (take (Suc n) (kb_chords ?k)) (Some s)"
    by (intro hidden_keybinding_preempted [OF r(1), where flags = "\<lambda>s. []" and c = "js ''cmd''"])
      (auto simp: r(2) act contextMatchesRules_def)
  then show ?thesis using r by auto
qed

text \<open>
  A keybinding of two chords that a later keybinding of the first chord alone shadows is not
  listed for its command, although it is dispatched once a third keybinding makes the first chord
  a prefix again.
\<close>

theorem lookup_omits_dispatched:
  "\<exists>r. KeybindingResolver_new h env [sample_item 0 [''a'', ''b''] ''x'' None True, sample_item 1 [''a''] ''y'' None True,
        sample_item 2 [''a'', ''c''] ''z'' None True] [] = Some r \<and>
     lookupKeybindings r (js ''x'') = [] \<and> fst (resolve h r ctx [] (js ''a'')) = MoreChordsNeeded \<and>
     fst (resolve h r ctx [js ''a''] (js ''b'')) = KbFound (Some (js ''x'')) () False"
  by (simp add: KeybindingResolver_new_def handleRemovals_def substituted_when_def addKeyPress_def addToLookupMap_def
      removeFromLookupMap_def overwrites_def whenIsEntirelyIncluded_def resolve_def findCommand_def contextMatchesRules_def
      lookupKeybindings_def sample_item_def js_def Let_def)

end
