(* ===== verification/BracketLengths.thy ===== *)
theory BracketLengths
  imports TextLengths JsStrings
begin

text \<open>
  Model of \<open>model/bracketPairsTextModelPart/bracketPairsTree/length.ts\<close>: lengths of texts packed
  into one number, the line count above the 26 bits of the column count. Division by a power of
  two is exact on the numbers of the language, so \<open>Math.floor (l / factor)\<close> is integer division.

  The packed lengths refine \<open>TextLength\<close> as long as column counts stay below \<open>2^26\<close>.
\<close>

section \<open>Packed lengths\<close>

type_synonym Length = int

definition length_factor :: int where
  "length_factor = 2 ^ 26"

definition toLength :: "int \<Rightarrow> int \<Rightarrow> Length" where
  "toLength lines1 columns1 = lines1 * length_factor + columns1"

definition lengthDiff :: "int \<Rightarrow> int \<Rightarrow> int \<Rightarrow> int \<Rightarrow> Length" where
  "lengthDiff startLineCount startColumnCount endLineCount endColumnCount =
     (if startLineCount \<noteq> endLineCount then toLength (endLineCount - startLineCount) endColumnCount
      else toLength 0 (endColumnCount - startColumnCount))"

definition lengthZero :: Length where
  "lengthZero = 0"

definition lengthIsZero :: "Length \<Rightarrow> bool" where
  "lengthIsZero l \<longleftrightarrow> l = 0"

definition lengthToObj :: "Length \<Rightarrow> TextLength" where
  "lengthToObj l =
     (let lines1 = l div length_factor;
          columns1 = l - lines1 * length_factor
      in TextLength lines1 columns1)"

definition lengthGetLineCount :: "Length \<Rightarrow> int" where
  "lengthGetLineCount l = l div length_factor"

definition lengthGetColumnCountIfZeroLineCount :: "Length \<Rightarrow> int" where
  "lengthGetColumnCountIfZeroLineCount l = l"

definition lengthAdd :: "Length \<Rightarrow> Length \<Rightarrow> Length" where
  "lengthAdd l1 l2 =
     (let r = l1 + l2
      in if l2 \<ge> length_factor then r - js_rem l1 length_factor else r)"

definition sumLengths :: "'a list \<Rightarrow> ('a \<Rightarrow> Length) \<Rightarrow> Length" where
  "sumLengths items lengthFn = foldl (\<lambda>a b. lengthAdd a (lengthFn b)) lengthZero items"

definition lengthEquals :: "Length \<Rightarrow> Length \<Rightarrow> bool" where
  "lengthEquals l1 l2 \<longleftrightarrow> l1 = l2"

definition lengthDiffNonNegative :: "Length \<Rightarrow> Length \<Rightarrow> Length" where
  "lengthDiffNonNegative l1 l2 =
     (let diff = l2 - l1
      in if diff \<le> 0 then lengthZero
         else let lineCount1 = l1 div length_factor;
                  lineCount2 = l2 div length_factor;
                  colCount2 = l2 - lineCount2 * length_factor
              in if lineCount1 = lineCount2
                 then let colCount1 = l1 - lineCount1 * length_factor in toLength 0 (colCount2 - colCount1)
                 else toLength (lineCount2 - lineCount1) colCount2)"

definition lengthLessThan :: "Length \<Rightarrow> Length \<Rightarrow> bool" where
  "lengthLessThan l1 l2 \<longleftrightarrow> l1 < l2"

definition lengthLessThanEqual :: "Length \<Rightarrow> Length \<Rightarrow> bool" where
  "lengthLessThanEqual l1 l2 \<longleftrightarrow> l1 \<le> l2"

definition lengthGreaterThanEqual :: "Length \<Rightarrow> Length \<Rightarrow> bool" where
  "lengthGreaterThanEqual l1 l2 \<longleftrightarrow> l1 \<ge> l2"

definition lengthToPosition :: "Length \<Rightarrow> Position" where
  "lengthToPosition l =
     (let lines1 = l div length_factor;
          colCount = l - lines1 * length_factor
      in Position (lines1 + 1) (colCount + 1))"

definition positionToLength :: "Position \<Rightarrow> Length" where
  "positionToLength p = toLength (lineNumber p - 1) (column p - 1)"

definition lengthsToRange :: "Length \<Rightarrow> Length \<Rightarrow> Range" where
  "lengthsToRange lengthStart lengthEnd =
     (let lines1 = lengthStart div length_factor;
          colCount = lengthStart - lines1 * length_factor;
          lineCount2 = lengthEnd div length_factor;
          colCount2 = lengthEnd - lineCount2 * length_factor
      in Range_new (lines1 + 1) (colCount + 1) (lineCount2 + 1) (colCount2 + 1))"

definition lengthOfRange :: "Range \<Rightarrow> TextLength" where
  "lengthOfRange r =
     (if startLineNumber r = endLineNumber r then TextLength 0 (endColumn r - startColumn r)
      else TextLength (endLineNumber r - startLineNumber r) (endColumn r - 1))"

definition lengthCompare :: "Length \<Rightarrow> Length \<Rightarrow> int" where
  "lengthCompare l1 l2 = l1 - l2"

text \<open>\<open>splitLines\<close> of \<open>base/common/strings.ts\<close>: \<open>str.split(/\r\n|\r|\n/)\<close>\<close>

fun splitLines :: "js_string \<Rightarrow> js_string list" where
  "splitLines [] = [[]]"
| "splitLines [c] = (if c = CR \<or> c = LF then [[], []] else [[c]])"
| "splitLines (c # d # s) =
     (if c = CR \<and> d = LF then [] # splitLines s
      else if c = CR \<or> c = LF then [] # splitLines (d # s)
      else (case splitLines (d # s) of l # ls \<Rightarrow> (c # l) # ls))"

definition lengthOfString :: "js_string \<Rightarrow> Length" where
  "lengthOfString str =
     (let lines = splitLines str in toLength (int (length lines) - 1) (int (length (last lines))))"

definition lengthOfStringObj :: "js_string \<Rightarrow> TextLength" where
  "lengthOfStringObj str =
     (let lines = splitLines str in TextLength (int (length lines) - 1) (int (length (last lines))))"

definition lengthHash :: "Length \<Rightarrow> int" where
  "lengthHash l = l"

definition lengthMax :: "Length \<Rightarrow> Length \<Rightarrow> Length" where
  "lengthMax l1 l2 = (if l1 > l2 then l1 else l2)"

section \<open>The packed representation\<close>

definition cols :: "Length \<Rightarrow> int" where
  "cols l = l mod length_factor"

lemma length_factor_pos [simp]: "0 < length_factor" "length_factor \<noteq> 0"
  by (simp_all add: length_factor_def)

lemma lengthToObj_simps [simp]: "lineCount (lengthToObj l) = l div length_factor" "columnCount (lengthToObj l) = cols l"
  by (simp_all add: lengthToObj_def Let_def cols_def minus_div_mult_eq_mod)

lemma lengthToObj_eq: "lengthToObj l = TextLength (l div length_factor) (cols l)"
  by (rule TextLength.expand) simp

lemma cols_bounds [simp]: "0 \<le> cols l" "cols l < length_factor"
  by (simp_all add: cols_def)

lemma length_split: "l = (l div length_factor) * length_factor + cols l"
  by (simp add: cols_def)

lemma toLength_parts:
  assumes "0 \<le> c" "c < length_factor"
  shows "toLength n c div length_factor = n" "cols (toLength n c) = c"
  using assms by (simp_all add: toLength_def cols_def)

lemma toLength_nonneg: "0 \<le> n \<Longrightarrow> 0 \<le> c \<Longrightarrow> 0 \<le> toLength n c"
  unfolding toLength_def by (intro add_nonneg_nonneg mult_nonneg_nonneg) (simp_all add: length_factor_def)

lemma lengthToObj_toLength: "0 \<le> c \<Longrightarrow> c < length_factor \<Longrightarrow> lengthToObj (toLength n c) = TextLength n c"
  by (simp add: lengthToObj_eq toLength_parts)

lemma toLength_lengthToObj: "toLength (lineCount (lengthToObj l)) (columnCount (lengthToObj l)) = l"
  using length_split [of l] by (simp add: toLength_def)

lemma lengthToObj_inject: "lengthToObj a = lengthToObj b \<longleftrightarrow> a = b"
  by (metis toLength_lengthToObj)

lemma lengthToObj_ok [simp]: "0 \<le> l \<Longrightarrow> tl_ok (lengthToObj l)"
  by (simp add: tl_ok_def pos_imp_zdiv_nonneg_iff)

text \<open>Two lengths fit: their columns add up below the factor when the second has no line.\<close>

definition length_fits :: "Length \<Rightarrow> Length \<Rightarrow> bool" where
  "length_fits a b \<longleftrightarrow> cols a + cols b < length_factor"

lemma div_zero_iff: "0 \<le> l \<Longrightarrow> l div length_factor = 0 \<longleftrightarrow> l < length_factor"
  by (metis div_pos_pos_trivial length_factor_pos(1) not_less pos_imp_zdiv_pos_iff less_irrefl)

lemma lengthAdd_toLength:
  assumes "0 \<le> a" "0 \<le> b"
  shows "lengthAdd a b = (if b div length_factor = 0 then toLength (a div length_factor) (cols a + cols b)
    else toLength (a div length_factor + b div length_factor) (cols b))"
proof (cases "b < length_factor")
  case True
  then have "b div length_factor = 0" "cols b = b" using assms(2) by (simp_all add: cols_def)
  with True length_split [of a] show ?thesis by (simp add: lengthAdd_def toLength_def)
next
  case False
  then have "b div length_factor \<noteq> 0" using div_zero_iff [OF assms(2)] by simp
  moreover have "js_rem a length_factor = cols a" using assms(1) by (simp add: cols_def)
  ultimately show ?thesis
    using False length_split [of a] length_split [of b] by (simp add: lengthAdd_def toLength_def algebra_simps)
qed

lemma lengthAdd_obj:
  assumes "0 \<le> a" "0 \<le> b" "length_fits a b"
  shows "lengthToObj (lengthAdd a b) = TextLength_add (lengthToObj a) (lengthToObj b)"
  using assms by (auto simp: lengthAdd_toLength lengthToObj_toLength length_fits_def TextLength_add_def)

lemma lengthAdd_nonneg: "0 \<le> a \<Longrightarrow> 0 \<le> b \<Longrightarrow> 0 \<le> lengthAdd a b"
proof -
  assume "0 \<le> a" "0 \<le> b"
  then have "0 \<le> a div length_factor" "0 \<le> b div length_factor" by (simp_all add: pos_imp_zdiv_nonneg_iff)
  with \<open>0 \<le> a\<close> \<open>0 \<le> b\<close> show ?thesis by (simp add: lengthAdd_toLength toLength_nonneg)
qed

lemma lengthAdd_cols: "0 \<le> a \<Longrightarrow> 0 \<le> b \<Longrightarrow> length_fits a b \<Longrightarrow> cols (lengthAdd a b) \<le> cols a + cols b"
  using lengthAdd_obj [of a b] by (metis (no_types) TextLength.sel(2) TextLength_add_def add_increasing cols_bounds(1) lengthToObj_simps(2) order_refl)

lemma lengthAdd_zero [simp]: "lengthAdd a 0 = a" "0 \<le> a \<Longrightarrow> lengthAdd 0 a = a"
  by (simp_all add: lengthAdd_def Let_def length_factor_def js_rem_def)

text \<open>A sum whose columns stay below the factor in total\<close>

definition lengths_fit :: "Length list \<Rightarrow> bool" where
  "lengths_fit ls \<longleftrightarrow> (\<forall>l \<in> set ls. 0 \<le> l) \<and> sum_list (map cols ls) < length_factor"

lemma foldl_lengthAdd:
  "0 \<le> a \<Longrightarrow> \<forall>l \<in> set ls. 0 \<le> l \<Longrightarrow> cols a + sum_list (map cols ls) < length_factor \<Longrightarrow>
     lengthToObj (foldl lengthAdd a ls) = foldl TextLength_add (lengthToObj a) (map lengthToObj ls) \<and>
     0 \<le> foldl lengthAdd a ls \<and> cols (foldl lengthAdd a ls) \<le> cols a + sum_list (map cols ls)"
proof (induction ls arbitrary: a)
  case (Cons l ls)
  have nn: "0 \<le> sum_list (map cols ls)" by (rule sum_list_nonneg) auto
  have fits: "length_fits a l" using Cons.prems(3) nn unfolding length_fits_def by simp
  have step: "0 \<le> lengthAdd a l" "cols (lengthAdd a l) \<le> cols a + cols l"
    "lengthToObj (lengthAdd a l) = TextLength_add (lengthToObj a) (lengthToObj l)"
    using Cons.prems fits by (simp_all add: lengthAdd_nonneg lengthAdd_cols lengthAdd_obj)
  have "cols (lengthAdd a l) + sum_list (map cols ls) < length_factor" using step(2) Cons.prems(3) by simp
  with Cons.IH [of "lengthAdd a l"] step Cons.prems(2) show ?case by auto
qed simp

lemma sumLengths_foldl: "sumLengths items f = foldl lengthAdd 0 (map f items)"
proof -
  have "foldl (\<lambda>a b. lengthAdd a (f b)) z items = foldl lengthAdd z (map f items)" for z
    by (induction items arbitrary: z) auto
  then show ?thesis by (simp add: sumLengths_def lengthZero_def)
qed

lemma lengths_fit_append: "lengths_fit (xs @ ys) \<Longrightarrow> lengths_fit xs \<and> lengths_fit ys"
proof -
  assume fit: "lengths_fit (xs @ ys)"
  have "0 \<le> sum_list (map cols ls)" for ls by (rule sum_list_nonneg) auto
  from this [of xs] this [of ys] fit show ?thesis by (auto simp: lengths_fit_def)
qed

abbreviation total_length :: "Length list \<Rightarrow> Length" where
  "total_length ls \<equiv> foldl lengthAdd 0 ls"

lemma total_obj:
  assumes "lengths_fit ls"
  shows "lengthToObj (total_length ls) = foldl TextLength_add TextLength_zero (map lengthToObj ls)"
    and "0 \<le> total_length ls" "cols (total_length ls) \<le> sum_list (map cols ls)"
  using foldl_lengthAdd [of 0 ls] assms by (auto simp: lengths_fit_def cols_def lengthToObj_eq TextLength_zero_def)

lemma total_fits:
  assumes "lengths_fit (xs @ ys)"
  shows "length_fits (total_length xs) (total_length ys)"
  using total_obj(3) [of xs] total_obj(3) [of ys] lengths_fit_append [OF assms] assms
  by (auto simp: lengths_fit_def length_fits_def)

lemma total_append:
  assumes "lengths_fit (xs @ ys)"
  shows "total_length (xs @ ys) = lengthAdd (total_length xs) (total_length ys)"
proof -
  note fit = lengths_fit_append [OF assms]
  have ok: "list_all tl_ok (map lengthToObj xs)" "list_all tl_ok (map lengthToObj ys)"
    using fit by (auto simp: list_all_iff lengths_fit_def)
  have "lengthToObj (total_length (xs @ ys)) = lengthToObj (lengthAdd (total_length xs) (total_length ys))"
    using text_length.foldl_append [OF ok] fit total_fits [OF assms]
    by (simp add: total_obj(1) [OF assms] total_obj lengthAdd_obj del: foldl_append)
  then show ?thesis by (simp only: lengthToObj_inject)
qed

section \<open>Refinement of TextLength\<close>

lemma lengthLess_obj: "l1 < l2 \<longleftrightarrow> TextLength_isLessThan (lengthToObj l1) (lengthToObj l2)"
proof -
  have "l1 div length_factor < l2 div length_factor \<Longrightarrow> l1 < l2" "l2 div length_factor < l1 div length_factor \<Longrightarrow> l2 < l1"
    using zdiv_mono1 [of l2 l1 length_factor] zdiv_mono1 [of l1 l2 length_factor] by fastforce+
  then show ?thesis
    using length_split [of l1] length_split [of l2] by (cases "l1 div length_factor" "l2 div length_factor" rule: linorder_cases)
      (auto simp: TextLength_isLessThan_def)
qed

lemma lengthDiffNonNegative_eq:
  assumes "l1 \<le> l2"
  shows "lengthDiffNonNegative l1 l2 =
    (if l1 div length_factor = l2 div length_factor then toLength 0 (cols l2 - cols l1)
     else toLength (l2 div length_factor - l1 div length_factor) (cols l2))"
proof -
  have "cols l = l - l div length_factor * length_factor" for l by (simp add: cols_def minus_div_mult_eq_mod)
  with assms show ?thesis
    by (cases "l1 = l2") (simp_all add: lengthDiffNonNegative_def Let_def lengthZero_def toLength_def)
qed

lemma lengthDiffNonNegative_obj:
  "0 \<le> l1 \<Longrightarrow> 0 \<le> l2 \<Longrightarrow> lengthToObj (lengthDiffNonNegative l1 l2) = TextLength_lengthDiffNonNegative (lengthToObj l1) (lengthToObj l2)"
proof (cases "l2 \<le> l1")
  case True
  then have "l1 = l2 \<or> l2 < l1" by linarith
  then show ?thesis
    using True lengthLess_obj [of l2 l1] lengthLess_obj [of l1 l2]
    by (auto simp: lengthDiffNonNegative_def TextLength_lengthDiffNonNegative_def lengthZero_def lengthToObj_eq cols_def TextLength_zero_def)
next
  case False
  have "\<not> TextLength_isLessThan (lengthToObj l2) (lengthToObj l1)" using False by (simp flip: lengthLess_obj)
  moreover have "cols l1 \<le> cols l2" if "l1 div length_factor = l2 div length_factor"
    using that False length_split [of l1] length_split [of l2] by simp
  moreover have "cols l2 - cols l1 < length_factor" using cols_bounds(1) [of l1] cols_bounds(2) [of l2] by linarith
  ultimately show ?thesis
    using False by (auto simp: lengthDiffNonNegative_eq TextLength_lengthDiffNonNegative_def lengthToObj_toLength)
qed

text \<open>
  The packed lengths refine \<open>TextLength\<close>: unpacking commutes with the sum, as long as the
  columns do not overflow into the line count, with the difference, with the order and with the
  conversion to positions, and unpacking undoes packing.
\<close>

theorem packed_lengths_refine:
  assumes "0 \<le> l1" "0 \<le> l2" "length_fits l1 l2"
  shows "lengthToObj (lengthAdd l1 l2) = TextLength_add (lengthToObj l1) (lengthToObj l2) \<and>
    lengthToObj (lengthDiffNonNegative l1 l2) = TextLength_lengthDiffNonNegative (lengthToObj l1) (lengthToObj l2) \<and>
    (lengthLessThan l1 l2 \<longleftrightarrow> TextLength_isLessThan (lengthToObj l1) (lengthToObj l2)) \<and>
    lengthToPosition l1 = TextLength_addToPosition (lengthToObj l1) (Position 1 1) \<and>
    positionToLength (lengthToPosition l1) = l1 \<and>
    toLength (lineCount (lengthToObj l1)) (columnCount (lengthToObj l1)) = l1"
proof -
  have "lengthToPosition l1 = TextLength_addToPosition (lengthToObj l1) (Position 1 1)"
    by (simp add: lengthToPosition_def TextLength_addToPosition_def Let_def minus_div_mult_eq_mod flip: cols_def)
  moreover have "positionToLength (lengthToPosition l1) = l1"
    using length_split [of l1] by (simp add: lengthToPosition_def positionToLength_def toLength_def Let_def)
  ultimately show ?thesis
    using assms lengthAdd_obj lengthDiffNonNegative_obj lengthLess_obj toLength_lengthToObj
    by (simp add: lengthLessThan_def)
qed

theorem packed_lengths_refine_witness:
  "lengthToObj (lengthAdd (toLength 10 5) (toLength 20 3)) = TextLength 30 3 \<and> length_fits (toLength 10 5) (toLength 20 3)"
  using packed_lengths_refine [of "toLength 10 5" "toLength 20 3"]
  by (simp add: length_fits_def toLength_def cols_def length_factor_def lengthToObj_def TextLength_add_def)

text \<open>
  \<open>lengthDiffNonNegative(l1, l2)\<close> is the length that added to \<open>l1\<close> gives \<open>l2\<close>, or zero when
  \<open>l2\<close> is not longer than \<open>l1\<close>.
\<close>

theorem packed_lengthDiffNonNegative_add:
  assumes "0 \<le> l1" "l1 \<le> l2"
  shows "0 \<le> lengthDiffNonNegative l1 l2 \<and> lengthAdd l1 (lengthDiffNonNegative l1 l2) = l2"
proof -
  have div: "l1 div length_factor \<le> l2 div length_factor" using assms by (simp add: zdiv_mono1)
  have same: "cols l1 \<le> cols l2" if "l1 div length_factor = l2 div length_factor"
    using that assms(2) length_split [of l1] length_split [of l2] by simp
  let ?d = "lengthDiffNonNegative l1 l2"
  note d = lengthDiffNonNegative_eq [OF assms(2)]
  have nn: "0 \<le> ?d" using div same by (auto simp: d intro: toLength_nonneg)
  have "cols l2 - cols l1 < length_factor" using cols_bounds(1) [of l1] cols_bounds(2) [of l2] by linarith
  then have "?d div length_factor = l2 div length_factor - l1 div length_factor"
      "cols ?d = (if l1 div length_factor = l2 div length_factor then cols l2 - cols l1 else cols l2)"
    using same by (auto simp: d toLength_parts)
  with nn assms(1) length_split [of l2] show ?thesis by (auto simp: lengthAdd_toLength toLength_def)
qed

theorem packed_lengthDiffNonNegative_add_witness:
  "lengthAdd (toLength 1 4) (lengthDiffNonNegative (toLength 1 4) (toLength 3 2)) = toLength 3 2"
  using packed_lengthDiffNonNegative_add [of "toLength 1 4" "toLength 3 2"] by (simp add: toLength_def length_factor_def)

end
