(* ===== verification/EditMapper.thy ===== *)
theory EditMapper
  imports BracketLengths
begin

text \<open>
  Model of \<open>model/bracketPairsTextModelPart/bracketPairsTree/beforeEditPositionMapper.ts\<close>: the mapper
  translates offsets of the text after a list of edits to offsets before them, for offsets that
  are asked in ascending order.
\<close>

section \<open>Edits\<close>

record TextEditInfo =
  te_startOffset :: Length
  te_endOffset :: Length
  te_newLength :: Length

text \<open>A content change is given by its range and its text.\<close>

definition TextEditInfo_fromModelContentChanges :: "(Range \<times> js_string) list \<Rightarrow> TextEditInfo list" where
  "TextEditInfo_fromModelContentChanges changes =
     rev (map (\<lambda>(r, t). \<lparr>te_startOffset = positionToLength (Range_getStartPosition r),
        te_endOffset = positionToLength (Range_getEndPosition r), te_newLength = lengthOfString t\<rparr>) changes)"

record TextEditInfoCache =
  endOffsetBeforeObj :: TextLength
  endOffsetAfterObj :: TextLength
  offsetObj :: TextLength

definition TextEditInfoCache_from :: "TextEditInfo \<Rightarrow> TextEditInfoCache" where
  "TextEditInfoCache_from e =
     \<lparr>endOffsetBeforeObj = lengthToObj (te_endOffset e),
      endOffsetAfterObj = lengthToObj (lengthAdd (te_startOffset e) (te_newLength e)),
      offsetObj = lengthToObj (te_startOffset e)\<rparr>"

section \<open>The mapper\<close>

record BeforeEditPositionMapper =
  nextEditIdx :: nat
  deltaOldToNewLineCount :: int
  deltaOldToNewColumnCount :: int
  deltaLineIdxInOld :: int
  mapper_edits :: "TextEditInfoCache list"

definition BeforeEditPositionMapper_new :: "TextEditInfo list \<Rightarrow> BeforeEditPositionMapper" where
  "BeforeEditPositionMapper_new es =
     \<lparr>nextEditIdx = 0, deltaOldToNewLineCount = 0, deltaOldToNewColumnCount = 0, deltaLineIdxInOld = -1,
      mapper_edits = map TextEditInfoCache_from es\<rparr>"

definition translateOldToCur :: "BeforeEditPositionMapper \<Rightarrow> TextLength \<Rightarrow> Length" where
  "translateOldToCur m oldOffsetObj =
     (if lineCount oldOffsetObj = deltaLineIdxInOld m
      then toLength (lineCount oldOffsetObj + deltaOldToNewLineCount m) (columnCount oldOffsetObj + deltaOldToNewColumnCount m)
      else toLength (lineCount oldOffsetObj + deltaOldToNewLineCount m) (columnCount oldOffsetObj))"

definition translateCurToOld :: "BeforeEditPositionMapper \<Rightarrow> Length \<Rightarrow> Length" where
  "translateCurToOld m newOffset =
     (let obj = lengthToObj newOffset
      in if lineCount obj - deltaOldToNewLineCount m = deltaLineIdxInOld m
         then toLength (lineCount obj - deltaOldToNewLineCount m) (columnCount obj - deltaOldToNewColumnCount m)
         else toLength (lineCount obj - deltaOldToNewLineCount m) (columnCount obj))"

function adjustNextEdit :: "BeforeEditPositionMapper \<Rightarrow> Length \<Rightarrow> BeforeEditPositionMapper" where
  "adjustNextEdit m offset =
     (if nextEditIdx m < length (mapper_edits m) then
        let nextEdit = mapper_edits m ! nextEditIdx m;
            nextEditEndOffsetInCur = translateOldToCur m (endOffsetAfterObj nextEdit)
        in if lengthLessThanEqual nextEditEndOffsetInCur offset then
             let nextEditEndOffsetInCurObj = lengthToObj nextEditEndOffsetInCur;
                 nextEditEndOffsetBeforeInCurObj = lengthToObj (translateOldToCur m (endOffsetBeforeObj nextEdit));
                 lineDelta = lineCount nextEditEndOffsetInCurObj - lineCount nextEditEndOffsetBeforeInCurObj;
                 previousColumnDelta =
                   (if deltaLineIdxInOld m = lineCount (endOffsetBeforeObj nextEdit) then deltaOldToNewColumnCount m else 0);
                 columnDelta = columnCount nextEditEndOffsetInCurObj - columnCount nextEditEndOffsetBeforeInCurObj
             in adjustNextEdit (m\<lparr>nextEditIdx := nextEditIdx m + 1,
                  deltaOldToNewLineCount := deltaOldToNewLineCount m + lineDelta,
                  deltaOldToNewColumnCount := previousColumnDelta + columnDelta,
                  deltaLineIdxInOld := lineCount (endOffsetBeforeObj nextEdit)\<rparr>) offset
           else m
      else m)"
  by pat_completeness auto
termination adjustNextEdit
  by (relation "measure (\<lambda>(m, offset). length (mapper_edits m) - nextEditIdx m)") auto

declare adjustNextEdit.simps [simp del]

definition getOffsetBeforeChange :: "BeforeEditPositionMapper \<Rightarrow> Length \<Rightarrow> Length \<times> BeforeEditPositionMapper" where
  "getOffsetBeforeChange m offset = (let m' = adjustNextEdit m offset in (translateCurToOld m' offset, m'))"

definition getDistanceToNextChange :: "BeforeEditPositionMapper \<Rightarrow> Length \<Rightarrow> Length option \<times> BeforeEditPositionMapper" where
  "getDistanceToNextChange m offset =
     (let m' = adjustNextEdit m offset
      in if nextEditIdx m' < length (mapper_edits m')
         then (Some (lengthDiffNonNegative offset (translateOldToCur m' (offsetObj (mapper_edits m' ! nextEditIdx m')))), m')
         else (None, m'))"

section \<open>Correspondence of the texts\<close>

text \<open>
  The ends of the first \<open>k\<close> edits, in the text before and in the text after all edits: between
  two edits the texts agree, and an edit replaces the text up to its end by one of its new length.
\<close>

fun edit_ends :: "TextEditInfo list \<Rightarrow> nat \<Rightarrow> TextLength \<times> TextLength" where
  "edit_ends es 0 = (TextLength_zero, TextLength_zero)"
| "edit_ends es (Suc k) =
     (let (old, cur) = edit_ends es k
      in (lengthToObj (te_endOffset (es ! k)),
          TextLength_add (TextLength_add cur (TextLength_lengthDiffNonNegative old (lengthToObj (te_startOffset (es ! k)))))
            (lengthToObj (te_newLength (es ! k)))))"

definition old_end :: "TextEditInfo list \<Rightarrow> nat \<Rightarrow> TextLength" where
  "old_end es k = fst (edit_ends es k)"

definition cur_end :: "TextEditInfo list \<Rightarrow> nat \<Rightarrow> TextLength" where
  "cur_end es k = snd (edit_ends es k)"

text \<open>The position after the edits of a position behind the \<open>k\<close>-th edit, and back\<close>

definition to_cur :: "TextEditInfo list \<Rightarrow> nat \<Rightarrow> TextLength \<Rightarrow> TextLength" where
  "to_cur es k p = TextLength_add (cur_end es k) (TextLength_lengthDiffNonNegative (old_end es k) p)"

definition to_old :: "TextEditInfo list \<Rightarrow> nat \<Rightarrow> TextLength \<Rightarrow> TextLength" where
  "to_old es k p = TextLength_add (old_end es k) (TextLength_lengthDiffNonNegative (cur_end es k) p)"

definition tl_le :: "TextLength \<Rightarrow> TextLength \<Rightarrow> bool" where
  "tl_le a b \<longleftrightarrow> \<not> TextLength_isLessThan b a"

definition tl_fits :: "TextLength \<Rightarrow> bool" where
  "tl_fits a \<longleftrightarrow> columnCount a < length_factor"

text \<open>Edits in ascending order, whose columns fit before, after and between the edits\<close>

definition edits_ok :: "TextEditInfo list \<Rightarrow> bool" where
  "edits_ok es \<longleftrightarrow> (\<forall>k < length es. 0 \<le> te_startOffset (es ! k) \<and> te_startOffset (es ! k) \<le> te_endOffset (es ! k) \<and>
     0 \<le> te_newLength (es ! k) \<and> length_fits (te_startOffset (es ! k)) (te_newLength (es ! k)) \<and>
     tl_le (old_end es k) (lengthToObj (te_startOffset (es ! k))) \<and>
     tl_fits (to_cur es k (lengthToObj (te_endOffset (es ! k)))) \<and> tl_fits (to_cur es k (lengthToObj (te_startOffset (es ! k)))) \<and>
     tl_fits (cur_end es (Suc k)))"

text \<open>The state of the mapper behind the first edits\<close>

definition mapper_ok :: "TextEditInfo list \<Rightarrow> BeforeEditPositionMapper \<Rightarrow> bool" where
  "mapper_ok es m \<longleftrightarrow> mapper_edits m = map TextEditInfoCache_from es \<and> nextEditIdx m \<le> length es \<and>
     deltaOldToNewLineCount m = lineCount (cur_end es (nextEditIdx m)) - lineCount (old_end es (nextEditIdx m)) \<and>
     deltaOldToNewColumnCount m = columnCount (cur_end es (nextEditIdx m)) - columnCount (old_end es (nextEditIdx m)) \<and>
     (if nextEditIdx m = 0 then deltaLineIdxInOld m = -1 else deltaLineIdxInOld m = lineCount (old_end es (nextEditIdx m)))"

lemma ends_0 [simp]: "old_end es 0 = TextLength_zero" "cur_end es 0 = TextLength_zero"
  by (simp_all add: old_end_def cur_end_def)

lemma ends_Suc:
  "old_end es (Suc k) = lengthToObj (te_endOffset (es ! k))"
  "cur_end es (Suc k) = TextLength_add (to_cur es k (lengthToObj (te_startOffset (es ! k)))) (lengthToObj (te_newLength (es ! k)))"
  by (simp_all add: old_end_def cur_end_def to_cur_def case_prod_beta Let_def)

lemma ends_ok: "edits_ok es \<Longrightarrow> k \<le> length es \<Longrightarrow> tl_ok (old_end es k) \<and> tl_ok (cur_end es k)"
proof (induction k)
  case (Suc k)
  then have "0 \<le> te_startOffset (es ! k)" "te_startOffset (es ! k) \<le> te_endOffset (es ! k)" "0 \<le> te_newLength (es ! k)"
    by (auto simp: edits_ok_def)
  then have "tl_ok (lengthToObj (te_endOffset (es ! k)))" "tl_ok (lengthToObj (te_newLength (es ! k)))" "tl_ok (lengthToObj (te_startOffset (es ! k)))"
    by simp_all
  with Suc show ?case by (auto simp: ends_Suc to_cur_def tl_defs)
qed (simp add: tl_defs)

text \<open>Translation at the state of the mapper\<close>

lemma translateOldToCur_obj:
  assumes "mapper_ok es m" "edits_ok es" "tl_ok p" "tl_le (old_end es (nextEditIdx m)) p" "tl_fits (to_cur es (nextEditIdx m) p)"
  shows "lengthToObj (translateOldToCur m p) = to_cur es (nextEditIdx m) p"
proof -
  let ?k = "nextEditIdx m"
  have ok: "tl_ok (old_end es ?k)" "tl_ok (cur_end es ?k)" using ends_ok assms(1,2) by (auto simp: mapper_ok_def)
  have "translateOldToCur m p = toLength (lineCount (to_cur es ?k p)) (columnCount (to_cur es ?k p))"
    using assms(1,3,4) ok by (cases "?k = 0") (auto simp: mapper_ok_def translateOldToCur_def to_cur_def tl_defs tl_le_def intro!: arg_cong2 [of _ _ _ _ toLength])
  moreover have "0 \<le> columnCount (to_cur es ?k p)" using ok assms(3,4) by (auto simp: to_cur_def tl_defs)
  ultimately show ?thesis using assms(5) by (simp add: lengthToObj_toLength tl_fits_def)
qed

lemma translateCurToOld_obj:
  assumes "mapper_ok es m" "edits_ok es" "0 \<le> offset" "tl_le (cur_end es (nextEditIdx m)) (lengthToObj offset)"
    "tl_fits (to_old es (nextEditIdx m) (lengthToObj offset))"
  shows "lengthToObj (translateCurToOld m offset) = to_old es (nextEditIdx m) (lengthToObj offset)"
proof -
  let ?k = "nextEditIdx m" and ?p = "lengthToObj offset"
  have ok: "tl_ok (old_end es ?k)" "tl_ok (cur_end es ?k)" "tl_ok ?p" using ends_ok assms(1-3) by (auto simp: mapper_ok_def)
  have "translateCurToOld m offset = toLength (lineCount (to_old es ?k ?p)) (columnCount (to_old es ?k ?p))"
    using assms(1,4) ok by (cases "?k = 0") (auto simp: mapper_ok_def translateCurToOld_def to_old_def tl_defs tl_le_def Let_def intro!: arg_cong2 [of _ _ _ _ toLength])
  moreover have "0 \<le> columnCount (to_old es ?k ?p)" using ok assms(4) by (auto simp: to_old_def tl_defs)
  ultimately show ?thesis using assms(5) by (simp add: lengthToObj_toLength tl_fits_def)
qed

section \<open>The loop\<close>

lemma edits_okD:
  assumes "edits_ok es" "k < length es"
  shows "0 \<le> te_startOffset (es ! k)" "te_startOffset (es ! k) \<le> te_endOffset (es ! k)" "0 \<le> te_newLength (es ! k)"
    "length_fits (te_startOffset (es ! k)) (te_newLength (es ! k))" "tl_le (old_end es k) (lengthToObj (te_startOffset (es ! k)))"
    "tl_fits (to_cur es k (lengthToObj (te_endOffset (es ! k))))" "tl_fits (to_cur es k (lengthToObj (te_startOffset (es ! k))))"
    "tl_fits (cur_end es (Suc k))"
  using assms by (auto simp: edits_ok_def)

lemma tl_le_iff: "tl_le (lengthToObj a) (lengthToObj b) \<longleftrightarrow> a \<le> b"
  using lengthLess_obj [of b a] by (auto simp: tl_le_def)

lemma tl_le_trans: "tl_le a b \<Longrightarrow> tl_le b c \<Longrightarrow> tl_le a c"
  by (auto simp: tl_le_def TextLength_isLessThan_def split: if_splits)

lemma tl_le_add: "tl_ok a \<Longrightarrow> tl_ok b \<Longrightarrow> tl_le a (TextLength_add a b)"
  by (auto simp: tl_le_def tl_defs)

text \<open>The end of the next edit, in the text after the edits\<close>

lemma cur_end_next:
  assumes "edits_ok es" "k < length es"
  shows "cur_end es (Suc k) = to_cur es k (lengthToObj (lengthAdd (te_startOffset (es ! k)) (te_newLength (es ! k))))"
    and "tl_le (old_end es k) (lengthToObj (lengthAdd (te_startOffset (es ! k)) (te_newLength (es ! k))))"
proof -
  note e = edits_okD [OF assms]
  let ?s = "lengthToObj (te_startOffset (es ! k))" and ?n = "lengthToObj (te_newLength (es ! k))"
  have ok: "tl_ok ?s" "tl_ok ?n" "tl_ok (old_end es k)" "tl_ok (cur_end es k)" using e(1,3) ends_ok [OF assms(1), of k] assms(2) by simp_all
  have add: "lengthToObj (lengthAdd (te_startOffset (es ! k)) (te_newLength (es ! k))) = TextLength_add ?s ?n"
    using e lengthAdd_obj by blast
  have "tl_ok (TextLength_lengthDiffNonNegative (old_end es k) ?s)" using ok e(5) by (auto simp: tl_defs tl_le_def)
  then have "TextLength_add (to_cur es k ?s) ?n =
      TextLength_add (cur_end es k) (TextLength_add (TextLength_lengthDiffNonNegative (old_end es k) ?s) ?n)"
    unfolding to_cur_def using ok by (simp add: text_length.add_assoc)
  moreover have "TextLength_add (TextLength_lengthDiffNonNegative (old_end es k) ?s) ?n = TextLength_lengthDiffNonNegative (old_end es k) (TextLength_add ?s ?n)"
    using ok e(5) by (auto simp: tl_defs tl_le_def simp del: lengthToObj_simps)
  ultimately show "cur_end es (Suc k) = to_cur es k (lengthToObj (lengthAdd (te_startOffset (es ! k)) (te_newLength (es ! k))))"
    by (simp add: ends_Suc(2) add to_cur_def)
  show "tl_le (old_end es k) (lengthToObj (lengthAdd (te_startOffset (es ! k)) (te_newLength (es ! k))))"
    unfolding add using tl_le_trans [OF e(5) tl_le_add [OF ok(1,2)]] .
qed

text \<open>One step of the loop\<close>

lemma mapper_step:
  assumes "mapper_ok es m" "edits_ok es" "nextEditIdx m < length es"
  defines "e \<equiv> mapper_edits m ! nextEditIdx m"
  shows "lengthToObj (translateOldToCur m (endOffsetAfterObj e)) = cur_end es (Suc (nextEditIdx m))"
    and "mapper_ok es (m\<lparr>nextEditIdx := nextEditIdx m + 1,
      deltaOldToNewLineCount := deltaOldToNewLineCount m + (lineCount (lengthToObj (translateOldToCur m (endOffsetAfterObj e))) -
        lineCount (lengthToObj (translateOldToCur m (endOffsetBeforeObj e)))),
      deltaOldToNewColumnCount := (if deltaLineIdxInOld m = lineCount (endOffsetBeforeObj e) then deltaOldToNewColumnCount m else 0) +
        (columnCount (lengthToObj (translateOldToCur m (endOffsetAfterObj e))) - columnCount (lengthToObj (translateOldToCur m (endOffsetBeforeObj e)))),
      deltaLineIdxInOld := lineCount (endOffsetBeforeObj e)\<rparr>)"
proof -
  let ?k = "nextEditIdx m"
  note k = edits_okD [OF assms(2,3)] and nxt = cur_end_next [OF assms(2,3)]
  have e: "endOffsetBeforeObj e = lengthToObj (te_endOffset (es ! ?k))"
      "endOffsetAfterObj e = lengthToObj (lengthAdd (te_startOffset (es ! ?k)) (te_newLength (es ! ?k)))"
    using assms(1,3) by (auto simp: e_def mapper_ok_def TextEditInfoCache_from_def)
  have nn: "0 \<le> lengthAdd (te_startOffset (es ! ?k)) (te_newLength (es ! ?k))" using k by (simp add: lengthAdd_nonneg)
  show after: "lengthToObj (translateOldToCur m (endOffsetAfterObj e)) = cur_end es (Suc ?k)"
    unfolding e(2) nxt(1)
    by (rule translateOldToCur_obj [OF assms(1,2)]) (use nxt k(8) nn in \<open>simp_all\<close>)
  have le: "tl_le (old_end es ?k) (lengthToObj (te_endOffset (es ! ?k)))"
    using tl_le_trans [OF k(5)] k(2) by (simp add: tl_le_iff)
  have before: "lengthToObj (translateOldToCur m (endOffsetBeforeObj e)) = to_cur es ?k (lengthToObj (te_endOffset (es ! ?k)))"
    unfolding e(1) using translateOldToCur_obj [OF assms(1,2) _ le k(6)] k(1,2) by simp
  have ok: "tl_ok (old_end es ?k)" "tl_ok (cur_end es ?k)" "tl_ok (lengthToObj (te_endOffset (es ! ?k)))"
    using ends_ok [OF assms(2), of ?k] assms(3) k(1,2) by simp_all
  have "lineCount (to_cur es ?k (lengthToObj (te_endOffset (es ! ?k)))) = lineCount (lengthToObj (te_endOffset (es ! ?k))) + deltaOldToNewLineCount m"
      "columnCount (to_cur es ?k (lengthToObj (te_endOffset (es ! ?k)))) = columnCount (lengthToObj (te_endOffset (es ! ?k))) +
        (if deltaLineIdxInOld m = lineCount (lengthToObj (te_endOffset (es ! ?k))) then deltaOldToNewColumnCount m else 0)"
    using assms(1) ok le by (cases "?k = 0"; auto simp: mapper_ok_def to_cur_def tl_defs tl_le_def simp del: lengthToObj_simps)+
  then show "mapper_ok es (m\<lparr>nextEditIdx := ?k + 1,
      deltaOldToNewLineCount := deltaOldToNewLineCount m + (lineCount (lengthToObj (translateOldToCur m (endOffsetAfterObj e))) -
        lineCount (lengthToObj (translateOldToCur m (endOffsetBeforeObj e)))),
      deltaOldToNewColumnCount := (if deltaLineIdxInOld m = lineCount (endOffsetBeforeObj e) then deltaOldToNewColumnCount m else 0) +
        (columnCount (lengthToObj (translateOldToCur m (endOffsetAfterObj e))) - columnCount (lengthToObj (translateOldToCur m (endOffsetBeforeObj e)))),
      deltaLineIdxInOld := lineCount (endOffsetBeforeObj e)\<rparr>)"
    unfolding after before [unfolded e(1)] e(1) using assms(1,3) by (auto simp: mapper_ok_def ends_Suc(1) simp del: lengthToObj_simps)
qed

text \<open>Where the loop stops for an offset: behind the last edit that ends at or before it\<close>

definition mapper_at :: "TextEditInfo list \<Rightarrow> Length \<Rightarrow> BeforeEditPositionMapper \<Rightarrow> bool" where
  "mapper_at es offset m \<longleftrightarrow> mapper_ok es m \<and> tl_le (cur_end es (nextEditIdx m)) (lengthToObj offset) \<and>
     (nextEditIdx m < length es \<longrightarrow> \<not> tl_le (cur_end es (Suc (nextEditIdx m))) (lengthToObj offset))"

lemma adjustNextEdit_at:
  assumes "edits_ok es"
  shows "mapper_ok es m \<Longrightarrow> tl_le (cur_end es (nextEditIdx m)) (lengthToObj offset) \<Longrightarrow> mapper_at es offset (adjustNextEdit m offset)"
proof (induction m offset rule: adjustNextEdit.induct)
  case (1 m offset)
  have len: "length (mapper_edits m) = length es" using "1.prems"(1) by (simp add: mapper_ok_def)
  show ?case
  proof (cases "nextEditIdx m < length es")
    case True
    note step = mapper_step [OF "1.prems"(1) assms True]
    let ?e = "mapper_edits m ! nextEditIdx m"
    have cond: "lengthLessThanEqual (translateOldToCur m (endOffsetAfterObj ?e)) offset \<longleftrightarrow>
        tl_le (cur_end es (Suc (nextEditIdx m))) (lengthToObj offset)"
      by (simp add: lengthLessThanEqual_def tl_le_iff flip: step(1))
    show ?thesis
    proof (cases "tl_le (cur_end es (Suc (nextEditIdx m))) (lengthToObj offset)")
      case le: True
      note IH = "1.IH" [OF _ refl refl _ refl refl refl refl refl]
      show ?thesis
        using IH [unfolded len cond, OF True le step(2)] le True len cond
        by (subst adjustNextEdit.simps) (simp add: Let_def del: lengthToObj_simps)
    next
      case False
      with True len cond "1.prems" show ?thesis
        by (subst adjustNextEdit.simps) (simp add: Let_def mapper_at_def)
    qed
  next
    case False
    with len "1.prems" show ?thesis by (subst adjustNextEdit.simps) (simp add: mapper_at_def)
  qed
qed

lemma mapper_new_ok: "mapper_ok es (BeforeEditPositionMapper_new es)"
  by (simp add: mapper_ok_def BeforeEditPositionMapper_new_def TextLength_zero_def)

lemma tl_le_zero: "0 \<le> offset \<Longrightarrow> tl_le TextLength_zero (lengthToObj offset)"
  using tl_le_iff [of 0 offset] by (simp add: TextLength_zero_def lengthToObj_eq cols_def)

lemma cur_end_mono: "edits_ok es \<Longrightarrow> k < length es \<Longrightarrow> tl_le (cur_end es k) (cur_end es (Suc k))"
proof -
  assume es: "edits_ok es" and k: "k < length es"
  note e = edits_okD [OF es k]
  have ok: "tl_ok (old_end es k)" "tl_ok (cur_end es k)" "tl_ok (lengthToObj (te_startOffset (es ! k)))" "tl_ok (lengthToObj (te_newLength (es ! k)))"
    using ends_ok [OF es, of k] k e(1,3) by simp_all
  then have "tl_ok (TextLength_lengthDiffNonNegative (old_end es k) (lengthToObj (te_startOffset (es ! k))))"
    using e(5) by (auto simp: tl_defs tl_le_def)
  then have "tl_le (cur_end es k) (to_cur es k (lengthToObj (te_startOffset (es ! k))))" "tl_ok (to_cur es k (lengthToObj (te_startOffset (es ! k))))"
    using ok by (auto simp: to_cur_def tl_le_add) (auto simp: tl_defs)
  then show ?thesis unfolding ends_Suc(2) using tl_le_trans tl_le_add ok(4) by blast
qed

section \<open>Mappers in use\<close>

text \<open>A mapper of some edits after queries for ascending offsets, the last of which is given\<close>

inductive mapper_reach :: "TextEditInfo list \<Rightarrow> Length \<Rightarrow> BeforeEditPositionMapper \<Rightarrow> bool" for es where
  mapper_created: "mapper_reach es 0 (BeforeEditPositionMapper_new es)"
| mapper_asked_offset: "mapper_reach es offset0 m \<Longrightarrow> offset0 \<le> offset \<Longrightarrow> mapper_reach es offset (snd (getOffsetBeforeChange m offset))"
| mapper_asked_distance: "mapper_reach es offset0 m \<Longrightarrow> offset0 \<le> offset \<Longrightarrow> mapper_reach es offset (snd (getDistanceToNextChange m offset))"

lemma query_state [simp]:
  "snd (getOffsetBeforeChange m offset) = adjustNextEdit m offset" "snd (getDistanceToNextChange m offset) = adjustNextEdit m offset"
  by (simp_all add: getOffsetBeforeChange_def getDistanceToNextChange_def Let_def)

lemma adjustNextEdit_later:
  assumes "edits_ok es" "mapper_ok es m" "tl_le (cur_end es (nextEditIdx m)) (lengthToObj offset0)" "offset0 \<le> offset"
  shows "mapper_at es offset (adjustNextEdit m offset)"
  using adjustNextEdit_at [OF assms(1,2)] tl_le_trans [OF assms(3)] assms(4) tl_le_iff by blast

lemma mapper_reach_ok:
  "mapper_reach es offset m \<Longrightarrow> edits_ok es \<Longrightarrow> 0 \<le> offset \<and> mapper_ok es m \<and> tl_le (cur_end es (nextEditIdx m)) (lengthToObj offset)"
proof (induction rule: mapper_reach.induct)
  case mapper_created
  then show ?case using mapper_new_ok [of es] tl_le_zero [of 0] by (simp add: BeforeEditPositionMapper_new_def)
qed (use adjustNextEdit_later in \<open>auto simp: mapper_at_def\<close>)

text \<open>The number of edits that end at or before an offset in the text after the edits\<close>

definition ended_edits :: "TextEditInfo list \<Rightarrow> Length \<Rightarrow> nat" where
  "ended_edits es offset = card {k. k < length es \<and> tl_le (cur_end es (Suc k)) (lengthToObj offset)}"

lemma mapper_at_ended:
  assumes "edits_ok es" "mapper_at es offset m"
  shows "nextEditIdx m = ended_edits es offset"
proof -
  let ?i = "nextEditIdx m" and ?le = "\<lambda>k. tl_le (cur_end es k) (lengthToObj offset)"
  have i: "?i \<le> length es" "?le ?i" "?i < length es \<Longrightarrow> \<not> ?le (Suc ?i)" using assms(2) by (auto simp: mapper_at_def mapper_ok_def)
  have down: "?le k" if "?le n" "k \<le> n" "n \<le> length es" for k n
    using that(2,1,3) by (induction rule: dec_induct) (use cur_end_mono [OF assms(1)] tl_le_trans in \<open>auto simp: Suc_le_eq\<close>)
  have "{k. k < length es \<and> ?le (Suc k)} = {..<?i}"
  proof (intro set_eqI iffI)
    fix k assume "k \<in> {k. k < length es \<and> ?le (Suc k)}"
    then have k: "k < length es" "?le (Suc k)" by auto
    show "k \<in> {..<?i}"
    proof (rule ccontr)
      assume "k \<notin> {..<?i}"
      then have "Suc ?i \<le> Suc k" "?i < length es" using k(1) by auto
      with down [OF k(2)] i(3) k(1) show False by simp
    qed
  qed (use down [OF i(2)] i(1) in auto)
  then show ?thesis by (simp add: ended_edits_def)
qed

section \<open>What the mapper promises\<close>

text \<open>
  C28: A mapper that is constructed from edits and asked for ascending offsets answers each of them with the offset before the
  edits: the old end of the last edit that ends at or before the offset, plus the distance of the
  offset from the new end of that edit; or the offset itself when there is no such edit. It also tells the distance to the start of the next edit, which
  is zero inside of that edit, or that there is no next edit. The edits are in ascending order and do not overlap, and the columns of their bounds in both texts, and of the answer, fit into a
  packed length.
\<close>

theorem mapper_offsets_exact:
  assumes "edits_ok es" "mapper_reach es offset0 m" "offset0 \<le> offset" "tl_fits (to_old es (ended_edits es offset) (lengthToObj offset))"
  shows "lengthToObj (fst (getOffsetBeforeChange m offset)) = to_old es (ended_edits es offset) (lengthToObj offset) \<and>
    (if ended_edits es offset < length es
     then \<exists>d. fst (getDistanceToNextChange m offset) = Some d \<and> lengthToObj d = TextLength_lengthDiffNonNegative (lengthToObj offset)
       (to_cur es (ended_edits es offset) (lengthToObj (te_startOffset (es ! ended_edits es offset))))
     else fst (getDistanceToNextChange m offset) = None)"
proof -
  define m' where "m' = adjustNextEdit m offset"
  note reach = mapper_reach_ok [OF assms(2,1)]
  have at: "mapper_at es offset m'" unfolding m'_def using adjustNextEdit_later [OF assms(1)] reach assms(3) by blast
  note idx = mapper_at_ended [OF assms(1) at]
  have ok: "mapper_ok es m'" "tl_le (cur_end es (nextEditIdx m')) (lengthToObj offset)" using at by (auto simp: mapper_at_def)
  have len: "length (mapper_edits m') = length es" using ok(1) by (simp add: mapper_ok_def)
  have old: "lengthToObj (fst (getOffsetBeforeChange m offset)) = to_old es (nextEditIdx m') (lengthToObj offset)"
    using translateCurToOld_obj [OF ok(1) assms(1) _ ok(2)] assms(3,4) reach idx by (simp add: getOffsetBeforeChange_def m'_def [symmetric])
  show ?thesis
  proof (cases "nextEditIdx m' < length es")
    case True
    note k = edits_okD [OF assms(1) True]
    let ?s = "lengthToObj (te_startOffset (es ! nextEditIdx m'))"
    have obj: "offsetObj (mapper_edits m' ! nextEditIdx m') = ?s"
      using ok(1) True by (auto simp: mapper_ok_def TextEditInfoCache_from_def)
    have cur: "lengthToObj (translateOldToCur m' ?s) = to_cur es (nextEditIdx m') ?s"
      using translateOldToCur_obj [OF ok(1) assms(1) _ k(5,7)] k(1) by simp
    have "tl_ok (to_cur es (nextEditIdx m') ?s)"
      using ends_ok [OF assms(1), of "nextEditIdx m'"] True k(1,5) lengthToObj_ok [OF k(1)]
      by (auto simp: to_cur_def tl_defs tl_le_def simp del: lengthToObj_simps)
    then have "0 \<le> translateOldToCur m' ?s"
      unfolding cur [symmetric] by (simp add: tl_ok_def pos_imp_zdiv_nonneg_iff)
    with cur obj True len old idx assms(3) reach show ?thesis
      by (auto simp: getDistanceToNextChange_def Let_def m'_def [symmetric] lengthDiffNonNegative_obj simp del: lengthToObj_simps)
  next
    case False
    with old len idx show ?thesis by (auto simp: getDistanceToNextChange_def Let_def m'_def [symmetric])
  qed
qed

text \<open>The first three columns are deleted, and five columns are inserted at column eight; the offsets 1 and 12 are asked for.\<close>

abbreviation "sample_edits \<equiv> [\<lparr>te_startOffset = 0, te_endOffset = 3, te_newLength = 0\<rparr>, \<lparr>te_startOffset = 8, te_endOffset = 8, te_newLength = 5\<rparr>]"

lemma sample_edits_ok: "edits_ok sample_edits"
  by (auto simp: edits_ok_def less_Suc_eq numeral_2_eq_2 length_fits_def ends_Suc to_cur_def tl_fits_def tl_le_def lengthToObj_def tl_defs cols_def length_factor_def)

theorem mapper_offsets_exact_witness:
  "lengthToObj (fst (getOffsetBeforeChange (BeforeEditPositionMapper_new sample_edits) 1)) = TextLength 0 4 \<and>
   lengthToObj (fst (getOffsetBeforeChange (snd (getOffsetBeforeChange (BeforeEditPositionMapper_new sample_edits) 1)) 12)) = TextLength 0 10"
proof -
  let ?m = "BeforeEditPositionMapper_new sample_edits"
  have le: "tl_le (cur_end sample_edits (Suc 0)) (lengthToObj 1)" "tl_le (cur_end sample_edits (Suc 0)) (lengthToObj 12)"
      "\<not> tl_le (cur_end sample_edits (Suc (Suc 0))) (lengthToObj 1)" "tl_le (cur_end sample_edits (Suc (Suc 0))) (lengthToObj 12)"
    by (simp_all add: ends_Suc to_cur_def lengthToObj_def tl_defs tl_le_def length_factor_def)
  have "{k. k < length sample_edits \<and> tl_le (cur_end sample_edits (Suc k)) (lengthToObj 1)} = {0}"
      "{k. k < length sample_edits \<and> tl_le (cur_end sample_edits (Suc k)) (lengthToObj 12)} = {0, Suc 0}"
    using le by (auto simp: less_Suc_eq numeral_2_eq_2)
  then have ended: "ended_edits sample_edits 1 = Suc 0" "ended_edits sample_edits 12 = Suc (Suc 0)" by (simp_all add: ended_edits_def)
  have old: "to_old sample_edits (Suc 0) (lengthToObj 1) = TextLength 0 4" "to_old sample_edits (Suc (Suc 0)) (lengthToObj 12) = TextLength 0 10"
    by (simp_all add: to_old_def ends_Suc to_cur_def lengthToObj_def tl_defs length_factor_def)
  have reach: "mapper_reach sample_edits 1 (snd (getOffsetBeforeChange ?m 1))" by (rule mapper_asked_offset [OF mapper_created]) simp
  show ?thesis
    using mapper_offsets_exact [OF sample_edits_ok mapper_created, of 1] mapper_offsets_exact [OF sample_edits_ok reach, of 12] ended old
    by (simp add: tl_fits_def length_factor_def)
qed

end
