(* ===== verification/PackedTexts.thy ===== *)
theory PackedTexts
  imports BracketLengths
begin

text \<open>
  The packed length of a text, with its laws for texts shorter than the largest column, and the
  function \<open>lengthOfString\<close> of \<open>length.ts\<close> that computes it.
\<close>

definition plen :: "js_string \<Rightarrow> Length" where
  "plen s = toLength (lineCount (tlen s)) (columnCount (tlen s))"

abbreviation short :: "js_string \<Rightarrow> bool" where
  "short s \<equiv> int (length s) < length_factor"

lemma tlen_bounds: "0 \<le> lineCount (tlen s) \<and> 0 \<le> columnCount (tlen s) \<and> columnCount (tlen s) \<le> int (length s)"
  by (induction s rule: rev_induct) (auto simp: tlen_snoc tlen_step_def TextLength_zero_def)

lemma plen_Nil [simp]: "plen [] = 0"
  by (simp add: plen_def toLength_def TextLength_zero_def)

lemma plen_nonneg [simp]: "0 \<le> plen s"
  using tlen_bounds [of s] by (simp add: plen_def toLength_def length_factor_def)

lemma lengthToObj_plen: "short s \<Longrightarrow> lengthToObj (plen s) = tlen s"
  using tlen_bounds [of s] by (simp add: plen_def lengthToObj_toLength)

lemma cols_plen: "short s \<Longrightarrow> cols (plen s) = columnCount (tlen s)"
  by (metis lengthToObj_plen lengthToObj_simps(2))

lemma plen_append:
  assumes "short (s @ t)"
  shows "plen (s @ t) = lengthAdd (plen s) (plen t)"
proof -
  have short: "short s" "short t" using assms by auto
  have "cols (plen s) + cols (plen t) < length_factor"
    using assms cols_plen [OF short(1)] cols_plen [OF short(2)] tlen_bounds [of s] tlen_bounds [of t] by simp
  then have "lengthToObj (lengthAdd (plen s) (plen t)) = lengthToObj (plen (s @ t))"
    using short assms by (simp add: lengthAdd_obj length_fits_def lengthToObj_plen tlen_append)
  then show ?thesis by (simp add: lengthToObj_inject)
qed

lemma tlen_zero: "columnCount (tlen s) = 0 \<Longrightarrow> lineCount (tlen s) = 0 \<Longrightarrow> s = []"
proof (cases s rule: rev_cases)
  case (snoc xs x)
  assume "columnCount (tlen s) = 0" "lineCount (tlen s) = 0"
  with snoc tlen_bounds [of xs] show ?thesis by (auto simp: tlen_snoc tlen_step_def split: if_splits)
qed simp

lemma plen_0_iff: "plen s = 0 \<longleftrightarrow> s = []"
proof
  assume "plen s = 0"
  then have z: "lineCount (tlen s) * length_factor + columnCount (tlen s) = 0" by (simp add: plen_def toLength_def)
  moreover have "0 \<le> lineCount (tlen s) * length_factor" using tlen_bounds [of s] by (simp add: length_factor_def)
  ultimately have "columnCount (tlen s) = 0" "lineCount (tlen s) = 0" using tlen_bounds [of s] by (simp_all add: length_factor_def)
  then show "s = []" by (rule tlen_zero)
qed simp

lemma plen_diff:
  assumes "short (s @ t)"
  shows "lengthDiffNonNegative (plen s) (plen (s @ t)) = plen t"
proof -
  have "lengthToObj (lengthDiffNonNegative (plen s) (plen (s @ t))) = TextLength_lengthDiffNonNegative (tlen s) (TextLength_add (tlen s) (tlen t))"
    using assms by (simp add: lengthDiffNonNegative_obj lengthToObj_plen tlen_append)
  also have "\<dots> = tlen t"
    using tlen_bounds [of s] tlen_bounds [of t] tlen_ok [of t]
    by (cases "tlen s"; cases "tlen t") (auto simp: TextLength_lengthDiffNonNegative_def TextLength_isLessThan_def TextLength_add_def TextLength_zero_def)
  finally show ?thesis using assms by (simp add: lengthToObj_plen flip: lengthToObj_inject)
qed

lemma plen_mono:
  assumes "short (s @ t)"
  shows "plen s \<le> plen (s @ t)"
proof (rule ccontr)
  assume "\<not> plen s \<le> plen (s @ t)"
  then have "plen (s @ t) < plen s" "t \<noteq> []" by auto
  then have "lengthDiffNonNegative (plen s) (plen (s @ t)) = 0" by (simp add: lengthDiffNonNegative_def Let_def lengthZero_def)
  with plen_diff [OF assms] \<open>t \<noteq> []\<close> show False by (simp add: plen_0_iff)
qed

lemma plen_diff_0: "short (s @ t) \<Longrightarrow> lengthDiffNonNegative (plen (s @ t)) (plen s) = 0"
  using plen_mono [of s t] by (simp add: lengthDiffNonNegative_def Let_def lengthZero_def)

lemma plen_inject_prefix: "short (s @ t) \<Longrightarrow> plen (s @ t) = plen s \<longleftrightarrow> t = []"
  using plen_diff [of s t] by (auto simp: plen_0_iff lengthDiffNonNegative_def lengthZero_def)

section \<open>lengthOfString\<close>

lemma splitLines_nonempty: "splitLines s \<noteq> []"
  by (induction s rule: splitLines.induct) (auto split: list.splits)

lemma splitLines_tlen:
  "CR \<notin> set s \<Longrightarrow> tlen s = TextLength (int (length (splitLines s)) - 1) (int (length (last (splitLines s))))"
proof (induction s rule: splitLines.induct)
  case (3 c d s)
  have step: "tlen (c # d # s) = TextLength_add (tlen [c]) (tlen (d # s))" using tlen_append [of "[c]" "d # s"] by simp
  have c: "tlen [c] = (if c = LF then TextLength 1 0 else TextLength 0 1)" by (simp add: tlen_def tlen_step_def TextLength_zero_def)
  have rest: "tlen (d # s) = TextLength (int (length (splitLines (d # s))) - 1) (int (length (last (splitLines (d # s)))))"
    using 3 by (cases "c = LF") auto
  obtain l ls where l: "splitLines (d # s) = l # ls" using splitLines_nonempty [of "d # s"] by (cases "splitLines (d # s)") auto
  show ?case
    using 3(4) unfolding step c rest l by (auto simp: l TextLength_add_def)
qed (auto simp: tlen_def tlen_step_def TextLength_zero_def)

lemma lengthOfString_plen: "CR \<notin> set s \<Longrightarrow> lengthOfString s = plen s"
  by (simp add: lengthOfString_def Let_def plen_def splitLines_tlen)

end
