(* ===== verification/CombineEdits.thy ===== *)
theory CombineEdits
  imports EditMapper PackedTexts
begin

text \<open>
  Model of \<open>model/bracketPairsTextModelPart/bracketPairsTree/combineTextEditInfos.ts\<close>, which merges
  two consecutive lists of edits into one, and of the \<open>ArrayQueue\<close> of \<open>base/common/arrays.ts\<close>.
\<close>

section \<open>ArrayQueue\<close>

record 'a ArrayQueue =
  aq_items :: "'a list"
  aq_firstIdx :: nat
  aq_lastIdx :: int

definition ArrayQueue_new :: "'a list \<Rightarrow> 'a ArrayQueue" where
  "ArrayQueue_new items = \<lparr>aq_items = items, aq_firstIdx = 0, aq_lastIdx = int (length items) - 1\<rparr>"

definition ArrayQueue_length :: "'a ArrayQueue \<Rightarrow> int" where
  "ArrayQueue_length q = aq_lastIdx q - int (aq_firstIdx q) + 1"

definition ArrayQueue_takeWhile :: "('a \<Rightarrow> bool) \<Rightarrow> 'a ArrayQueue \<Rightarrow> 'a list option \<times> 'a ArrayQueue" where
  "ArrayQueue_takeWhile predicate q =
     (let taken = takeWhile predicate (drop (aq_firstIdx q) (aq_items q));
          startIdx = aq_firstIdx q + length taken
      in (if startIdx = aq_firstIdx q then None else Some taken, q\<lparr>aq_firstIdx := startIdx\<rparr>))"

definition ArrayQueue_takeFromEndWhile :: "('a \<Rightarrow> bool) \<Rightarrow> 'a ArrayQueue \<Rightarrow> 'a list option \<times> 'a ArrayQueue" where
  "ArrayQueue_takeFromEndWhile predicate q =
     (let taken = rev (takeWhile predicate (rev (take (nat (aq_lastIdx q + 1)) (aq_items q))));
          endIdx = aq_lastIdx q - int (length taken)
      in (if endIdx = aq_lastIdx q then None else Some taken, q\<lparr>aq_lastIdx := endIdx\<rparr>))"

definition ArrayQueue_peek :: "'a ArrayQueue \<Rightarrow> 'a option" where
  "ArrayQueue_peek q = (if ArrayQueue_length q = 0 then None else js_get (aq_items q) (int (aq_firstIdx q)))"

definition ArrayQueue_peekLast :: "'a ArrayQueue \<Rightarrow> 'a option" where
  "ArrayQueue_peekLast q = (if ArrayQueue_length q = 0 then None else js_get (aq_items q) (aq_lastIdx q))"

definition ArrayQueue_dequeue :: "'a ArrayQueue \<Rightarrow> 'a option \<times> 'a ArrayQueue" where
  "ArrayQueue_dequeue q = (js_get (aq_items q) (int (aq_firstIdx q)), q\<lparr>aq_firstIdx := aq_firstIdx q + 1\<rparr>)"

definition ArrayQueue_removeLast :: "'a ArrayQueue \<Rightarrow> 'a option \<times> 'a ArrayQueue" where
  "ArrayQueue_removeLast q = (js_get (aq_items q) (aq_lastIdx q), q\<lparr>aq_lastIdx := aq_lastIdx q - 1\<rparr>)"

definition ArrayQueue_takeCount :: "nat \<Rightarrow> 'a ArrayQueue \<Rightarrow> 'a list \<times> 'a ArrayQueue" where
  "ArrayQueue_takeCount count q =
     (js_slice (aq_items q) (int (aq_firstIdx q)) (int (aq_firstIdx q + count)), q\<lparr>aq_firstIdx := aq_firstIdx q + count\<rparr>)"

text \<open>The elements from the first index on\<close>

definition queue_rest :: "'a ArrayQueue \<Rightarrow> 'a list" where
  "queue_rest q = drop (aq_firstIdx q) (aq_items q)"

section \<open>LengthMapping\<close>

record LengthMapping =
  lm_modified :: bool
  lm_lengthBefore :: Length
  lm_lengthAfter :: Length

definition LengthMapping_new :: "bool \<Rightarrow> Length \<Rightarrow> Length \<Rightarrow> LengthMapping" where
  "LengthMapping_new modified lengthBefore lengthAfter =
     \<lparr>lm_modified = modified, lm_lengthBefore = lengthBefore, lm_lengthAfter = lengthAfter\<rparr>"

definition LengthMapping_splitAt :: "LengthMapping \<Rightarrow> Length \<Rightarrow> LengthMapping \<times> LengthMapping option" where
  "LengthMapping_splitAt m lengthAfter =
     (let remainingLengthAfter = lengthDiffNonNegative lengthAfter (lm_lengthAfter m)
      in if lengthEquals remainingLengthAfter lengthZero then (m, None)
         else if lm_modified m
         then (LengthMapping_new (lm_modified m) (lm_lengthBefore m) lengthAfter,
               Some (LengthMapping_new (lm_modified m) lengthZero remainingLengthAfter))
         else (LengthMapping_new (lm_modified m) lengthAfter lengthAfter,
               Some (LengthMapping_new (lm_modified m) remainingLengthAfter remainingLengthAfter)))"

fun toLengthMapping_loop :: "TextEditInfo list \<Rightarrow> Length \<Rightarrow> LengthMapping list" where
  "toLengthMapping_loop [] lastOffset = []"
| "toLengthMapping_loop (e # es) lastOffset =
     (let spaceLength = lengthDiffNonNegative lastOffset (te_startOffset e);
          lengthBefore = lengthDiffNonNegative (te_startOffset e) (te_endOffset e)
      in (if \<not> lengthIsZero spaceLength then [LengthMapping_new False spaceLength spaceLength] else []) @
         LengthMapping_new True lengthBefore (te_newLength e) # toLengthMapping_loop es (te_endOffset e))"

definition toLengthMapping :: "TextEditInfo list \<Rightarrow> LengthMapping list" where
  "toLengthMapping es = toLengthMapping_loop es lengthZero"

section \<open>combineTextEditInfos\<close>

text \<open>The variables \<open>curItem\<close> and \<open>s0ToS1Map\<close>\<close>

type_synonym mapping_queue = "LengthMapping option \<times> LengthMapping ArrayQueue"

text \<open>The loop of \<open>nextS0ToS1MapWithS1LengthOf\<close>: the mappings, the rest of the length and the queue\<close>

function next_mappings :: "Length \<Rightarrow> mapping_queue \<Rightarrow> LengthMapping list \<times> Length \<times> mapping_queue" where
  "next_mappings s1Length (curItem, q) =
     (case curItem of
        None \<Rightarrow> ([], s1Length, (curItem, q))
      | Some cur \<Rightarrow>
          if lengthIsZero s1Length then ([], s1Length, (curItem, q))
          else
            let (item, remainingItem) = LengthMapping_splitAt cur s1Length;
                s1Length' = lengthDiffNonNegative (lm_lengthAfter item) s1Length;
                st = (case remainingItem of Some r \<Rightarrow> (Some r, q) | None \<Rightarrow> ArrayQueue_dequeue q);
                (result, rest) = next_mappings s1Length' st
            in (item # result, rest))"
  by pat_completeness auto

lemma dequeue_rest:
  "ArrayQueue_dequeue q = (case queue_rest q of [] \<Rightarrow> None | x # _ \<Rightarrow> Some x, q\<lparr>aq_firstIdx := Suc (aq_firstIdx q)\<rparr>)"
  "queue_rest (q\<lparr>aq_firstIdx := Suc (aq_firstIdx q)\<rparr>) = tl (queue_rest q)"
  by (auto simp: ArrayQueue_dequeue_def queue_rest_def js_get_def drop_Suc drop_tl nth_via_drop split: list.split)

lemma splitAt_remaining: "LengthMapping_splitAt m l = (item, Some r) \<Longrightarrow> lm_lengthAfter item = l"
  by (auto simp: LengthMapping_splitAt_def LengthMapping_new_def Let_def split: if_splits)

lemma lengthDiffNonNegative_same: "lengthDiffNonNegative l l = 0"
  by (simp add: lengthDiffNonNegative_def lengthZero_def)

termination next_mappings
proof (relation "measure (\<lambda>(l, cur, q). if cur = None \<or> l = 0 then 0 else Suc (length (queue_rest q)))", goal_cases)
  case (2 s1Length curItem q cur p item remainingItem s1Length' st)
  show ?case
  proof (cases remainingItem)
    case None
    with 2 show ?thesis by (cases "queue_rest q") (auto simp: dequeue_rest lengthIsZero_def)
  next
    case (Some r)
    with 2 splitAt_remaining [of cur s1Length item r] show ?thesis by (simp add: lengthIsZero_def lengthDiffNonNegative_same)
  qed
qed simp

definition nextS0ToS1MapWithS1LengthOf :: "Length option \<Rightarrow> mapping_queue \<Rightarrow> LengthMapping list \<times> mapping_queue" where
  "nextS0ToS1MapWithS1LengthOf s1Length st =
     (case s1Length of
        None \<Rightarrow>
          let (curItem, q) = st;
              (taken, q') = ArrayQueue_takeWhile (\<lambda>v. True) q;
              arr = (case taken of None \<Rightarrow> [] | Some xs \<Rightarrow> xs)
          in (case curItem of None \<Rightarrow> arr | Some cur \<Rightarrow> cur # arr, (curItem, q'))
      | Some l \<Rightarrow>
          let (result, l', st') = next_mappings l st
          in (result @ (if \<not> lengthIsZero l' then [LengthMapping_new False l' l'] else []), st'))"

definition pushEdit :: "Length \<Rightarrow> Length \<Rightarrow> Length \<Rightarrow> TextEditInfo list \<Rightarrow> TextEditInfo list" where
  "pushEdit startOffset endOffset newLength result =
     (if result \<noteq> [] \<and> lengthEquals (te_endOffset (last result)) startOffset
      then butlast result @ [\<lparr>te_startOffset = te_startOffset (last result), te_endOffset = endOffset,
             te_newLength = lengthAdd (te_newLength (last result)) newLength\<rparr>]
      else result @ [\<lparr>te_startOffset = startOffset, te_endOffset = endOffset, te_newLength = newLength\<rparr>])"

text \<open>The loop over the mappings in front of an unmodified stretch\<close>

fun push_mappings :: "LengthMapping list \<Rightarrow> Length \<Rightarrow> TextEditInfo list \<Rightarrow> Length \<times> TextEditInfo list" where
  "push_mappings [] s0offset result = (s0offset, result)"
| "push_mappings (s1 # ms) s0offset result =
     (let s0startOffset = s0offset;
          s0offset = lengthAdd s0offset (lm_lengthBefore s1)
      in push_mappings ms s0offset (if lm_modified s1 then pushEdit s0startOffset s0offset (lm_lengthAfter s1) result else result))"

text \<open>The main loop; \<open>None\<close> stands for the last mapping, which copies everything from the old to the new text.\<close>

fun combine_loop :: "LengthMapping option list \<Rightarrow> mapping_queue \<Rightarrow> Length \<Rightarrow> TextEditInfo list \<Rightarrow> TextEditInfo list" where
  "combine_loop [] st s0offset result = result"
| "combine_loop (s1ToS2 # ms) st s0offset result =
     (let (s0ToS1Map, st') = nextS0ToS1MapWithS1LengthOf (map_option lm_lengthBefore s1ToS2) st
      in case s1ToS2 of
           Some m \<Rightarrow>
             if lm_modified m then
               let s0Length = sumLengths s0ToS1Map lm_lengthBefore;
                   s0EndOffset = lengthAdd s0offset s0Length
               in combine_loop ms st' s0EndOffset (pushEdit s0offset s0EndOffset (lm_lengthAfter m) result)
             else
               let (s0offset', result') = push_mappings s0ToS1Map s0offset result
               in combine_loop ms st' s0offset' result'
         | None \<Rightarrow>
             let (s0offset', result') = push_mappings s0ToS1Map s0offset result
             in combine_loop ms st' s0offset' result')"

definition combineTextEditInfos :: "TextEditInfo list \<Rightarrow> TextEditInfo list \<Rightarrow> TextEditInfo list" where
  "combineTextEditInfos textEditInfoFirst textEditInfoSecond =
     (if textEditInfoFirst = [] then textEditInfoSecond
      else if textEditInfoSecond = [] then textEditInfoFirst
      else combine_loop (map Some (toLengthMapping textEditInfoSecond) @ [None])
             (ArrayQueue_dequeue (ArrayQueue_new (toLengthMapping textEditInfoFirst))) lengthZero [])"

section \<open>Edits that lead from one text to another\<close>

text \<open>A stretch of text that is kept, one that is removed and one that is inserted in its place\<close>

type_synonym stretch = "js_string \<times> js_string \<times> js_string"

fun stretch_infos :: "js_string \<Rightarrow> stretch list \<Rightarrow> TextEditInfo list" where
  "stretch_infos p [] = []"
| "stretch_infos p ((u, d, n) # ss) =
     \<lparr>te_startOffset = plen (p @ u), te_endOffset = plen (p @ u @ d), te_newLength = plen n\<rparr> # stretch_infos (p @ u @ d) ss"

fun stretch_old :: "stretch list \<Rightarrow> js_string" where
  "stretch_old [] = []"
| "stretch_old ((u, d, n) # ss) = u @ d @ stretch_old ss"

fun stretch_new :: "stretch list \<Rightarrow> js_string" where
  "stretch_new [] = []"
| "stretch_new ((u, d, n) # ss) = u @ n @ stretch_new ss"

definition leads_text :: "TextEditInfo list \<Rightarrow> js_string \<Rightarrow> js_string \<Rightarrow> bool" where
  "leads_text es s t \<longleftrightarrow> (\<exists>ss w. es = stretch_infos [] ss \<and> s = stretch_old ss @ w \<and> t = stretch_new ss @ w)"

lemma stretch_append:
  "stretch_infos p (ss @ ss') = stretch_infos p ss @ stretch_infos (p @ stretch_old ss) ss'"
  "stretch_old (ss @ ss') = stretch_old ss @ stretch_old ss'" "stretch_new (ss @ ss') = stretch_new ss @ stretch_new ss'"
  by (induction ss arbitrary: p) auto

lemma stretch_infos_Nil: "[] = stretch_infos p ss \<longleftrightarrow> ss = []"
  by (cases ss) auto

lemma leads_text_Nil: "leads_text [] s t \<longleftrightarrow> s = t"
  by (auto simp: leads_text_def stretch_infos_Nil)

lemma leads_text_keep: "leads_text es s t \<Longrightarrow> leads_text es (s @ w) (t @ w)"
  unfolding leads_text_def by fastforce

lemma leads_text_push:
  assumes "leads_text es s t" "short (s @ d)" "short (t @ n)"
  shows "leads_text (pushEdit (plen s) (plen (s @ d)) (plen n) es) (s @ d) (t @ n)"
proof -
  obtain ss w where ss: "es = stretch_infos [] ss" "s = stretch_old ss @ w" "t = stretch_new ss @ w"
    using assms(1) by (auto simp: leads_text_def)
  show ?thesis
  proof (cases "es \<noteq> [] \<and> te_endOffset (last es) = plen s")
    case False
    then have "pushEdit (plen s) (plen (s @ d)) (plen n) es = stretch_infos [] (ss @ [(w, d, n)])"
      using ss by (auto simp: pushEdit_def lengthEquals_def stretch_append)
    then show ?thesis using ss by (auto simp: leads_text_def stretch_append intro!: exI [of _ "ss @ [(w, d, n)]"])
  next
    case True
    then have "ss \<noteq> []" using ss(1) by auto
    then obtain ss' u d' n' where ss': "ss = ss' @ [(u, d', n')]" by (metis rev_exhaust prod_cases3)
    have es: "es = stretch_infos [] ss' @ [\<lparr>te_startOffset = plen (stretch_old ss' @ u), te_endOffset = plen (stretch_old ss), te_newLength = plen n'\<rparr>]"
      using ss(1) ss' by (simp add: stretch_append)
    have "w = []" using True es ss(2) assms(2) plen_inject_prefix [of "stretch_old ss" w] by simp
    moreover have "plen (n' @ n) = lengthAdd (plen n') (plen n)" using assms(3) ss(3) ss' by (intro plen_append) (simp add: stretch_append)
    ultimately have "pushEdit (plen s) (plen (s @ d)) (plen n) es = stretch_infos [] (ss' @ [(u, d' @ d, n' @ n)])"
      using True es ss ss' by (simp add: pushEdit_def lengthEquals_def stretch_append)
    then show ?thesis
      using ss ss' \<open>w = []\<close> by (auto simp: leads_text_def stretch_append intro!: exI [of _ "ss' @ [(u, d' @ d, n' @ n)]"])
  qed
qed

section \<open>Mappings of texts\<close>

text \<open>A mapping with the texts that it stands for: whether it is modified, the text before and the text after it\<close>

type_synonym text_mapping = "bool \<times> js_string \<times> js_string"

abbreviation mapped_old :: "text_mapping list \<Rightarrow> js_string" where
  "mapped_old xs \<equiv> concat (map (\<lambda>x. fst (snd x)) xs)"

abbreviation mapped_new :: "text_mapping list \<Rightarrow> js_string" where
  "mapped_new xs \<equiv> concat (map (\<lambda>x. snd (snd x)) xs)"

definition of_text :: "text_mapping \<Rightarrow> LengthMapping" where
  "of_text x = LengthMapping_new (fst x) (plen (fst (snd x))) (plen (snd (snd x)))"

definition kept_ok :: "text_mapping list \<Rightarrow> bool" where
  "kept_ok xs \<longleftrightarrow> (\<forall>x \<in> set xs. fst x \<or> fst (snd x) = snd (snd x))"

lemma kept_ok_simps [simp]: "kept_ok []" "kept_ok (x # xs) \<longleftrightarrow> (fst x \<or> fst (snd x) = snd (snd x)) \<and> kept_ok xs"
    "kept_ok (xs @ ys) \<longleftrightarrow> kept_ok xs \<and> kept_ok ys"
  by (auto simp: kept_ok_def)

lemma of_text_simps [simp]: "lm_modified (of_text x) = fst x" "lm_lengthBefore (of_text x) = plen (fst (snd x))"
    "lm_lengthAfter (of_text x) = plen (snd (snd x))"
  by (simp_all add: of_text_def LengthMapping_new_def)

lemma toLengthMapping_loop_texts:
  "short (p @ stretch_old ss) \<Longrightarrow> \<exists>xs. toLengthMapping_loop (stretch_infos p ss) (plen p) = map of_text xs \<and>
     kept_ok xs \<and> mapped_old xs = stretch_old ss \<and> mapped_new xs = stretch_new ss"
proof (induction ss arbitrary: p)
  case (Cons s ss)
  obtain u d n where s: "s = (u, d, n)" by (cases s) auto
  have short: "short (p @ u)" "short ((p @ u) @ d)" "short ((p @ u @ d) @ stretch_old ss)" using Cons.prems s by simp_all
  obtain xs where xs: "toLengthMapping_loop (stretch_infos (p @ u @ d) ss) (plen (p @ u @ d)) = map of_text xs"
      "kept_ok xs" "mapped_old xs = stretch_old ss" "mapped_new xs = stretch_new ss"
    using Cons.IH [OF short(3)] by blast
  let ?xs = "(if u = [] then [] else [(False, u, u)]) @ (True, d, n) # xs"
  have "toLengthMapping_loop (stretch_infos p (s # ss)) (plen p) = map of_text ?xs"
    using s xs(1) plen_diff [OF short(1)] plen_diff [OF short(2)]
    by (simp add: Let_def lengthIsZero_def plen_0_iff of_text_def)
  moreover have "kept_ok ?xs" "mapped_old ?xs = stretch_old (s # ss)" "mapped_new ?xs = stretch_new (s # ss)"
    using xs(2-4) s by simp_all
  ultimately show ?case by blast
qed simp

section \<open>The queue of mappings\<close>

definition queue_items :: "mapping_queue \<Rightarrow> LengthMapping list" where
  "queue_items st = (case fst st of None \<Rightarrow> [] | Some c \<Rightarrow> c # queue_rest (snd st))"

definition queue_ok :: "mapping_queue \<Rightarrow> bool" where
  "queue_ok st \<longleftrightarrow> (fst st = None \<longrightarrow> queue_rest (snd st) = [])"

lemma dequeue_items: "queue_items (ArrayQueue_dequeue q) = queue_rest q" "queue_ok (ArrayQueue_dequeue q)"
  by (auto simp: dequeue_rest queue_items_def queue_ok_def split: list.split)

lemma takeWhile_items:
  "ArrayQueue_takeWhile (\<lambda>v. True) q = (if queue_rest q = [] then None else Some (queue_rest q), q\<lparr>aq_firstIdx := aq_firstIdx q + length (queue_rest q)\<rparr>)"
proof -
  have all: "takeWhile (\<lambda>v. True) (drop (aq_firstIdx q) (aq_items q)) = drop (aq_firstIdx q) (aq_items q)" by simp
  show ?thesis by (simp only: ArrayQueue_takeWhile_def queue_rest_def Let_def all) simp
qed

text \<open>A length is taken from the front of a mapping or spans it.\<close>

lemma splitAt_texts:
  assumes "short (snd (snd x) @ w)" "fst x \<or> fst (snd x) = snd (snd x)" "snd (snd x) @ w = y @ r"
  obtains y' where "y = snd (snd x) @ y'" "w = y' @ r" "LengthMapping_splitAt (of_text x) (plen y) = (of_text x, None)"
  | z where "z \<noteq> []" "snd (snd x) = y @ z" "r = z @ w"
      "LengthMapping_splitAt (of_text x) (plen y) =
        (of_text (fst x, if fst x then fst (snd x) else y, y), Some (of_text (fst x, if fst x then [] else z, z)))"
proof -
  obtain m a b where x: "x = (m, a, b)" by (cases x) auto
  from assms(3) x obtain u where "y = b @ u \<and> w = u @ r \<or> b = y @ u \<and> r = u @ w" by (auto simp: append_eq_append_conv2)
  then consider y' where "y = b @ y'" "w = y' @ r" | z where "z \<noteq> []" "b = y @ z" "r = z @ w" by (cases "u = []") auto
  then show ?thesis
  proof cases
    case 1
    then have "lengthDiffNonNegative (plen y) (plen b) = 0" using assms(1) x by (auto intro: plen_diff_0)
    with 1 x show ?thesis by (intro that(1)) (simp_all add: LengthMapping_splitAt_def lengthEquals_def lengthZero_def)
  next
    case 2
    then have "lengthDiffNonNegative (plen y) (plen b) = plen z" using assms(1) x by (auto intro: plen_diff)
    with 2 x show ?thesis
      by (intro that(2)) (auto simp: LengthMapping_splitAt_def lengthEquals_def lengthZero_def plen_0_iff of_text_def Let_def LengthMapping_new_def)
  qed
qed

lemma next_mappings_texts:
  "queue_ok st \<Longrightarrow> queue_items st = map of_text xs \<Longrightarrow> kept_ok xs \<Longrightarrow> short (mapped_new xs @ w) \<Longrightarrow> mapped_new xs @ w = y @ r \<Longrightarrow>
   \<exists>xs1 xs2 y2 st'. next_mappings (plen y) st = (map of_text xs1, plen y2, st') \<and> queue_ok st' \<and> queue_items st' = map of_text xs2 \<and>
     kept_ok xs1 \<and> kept_ok xs2 \<and> y = mapped_new xs1 @ y2 \<and> (y2 = [] \<or> xs2 = []) \<and> mapped_new xs2 @ w = y2 @ r \<and>
     mapped_old xs1 @ mapped_old xs2 = mapped_old xs"
proof (induction xs arbitrary: st y)
  case Nil
  then have "next_mappings (plen y) st = ([], plen y, st)" by (cases st) (simp add: queue_items_def split: option.splits)
  then show ?case using Nil by (intro exI [of _ "[]"] exI [of _ y]) simp
next
  case (Cons x xs)
  obtain q where st: "st = (Some (of_text x), q)" "queue_rest q = map of_text xs"
    using Cons.prems(2) by (cases st) (auto simp: queue_items_def split: option.splits)
  show ?case
  proof (cases "y = []")
    case True
    then have "next_mappings (plen y) st = ([], plen y, st)" using st by (simp add: lengthIsZero_def)
    then show ?thesis using True Cons.prems by (intro exI [of _ "[]"] exI [of _ "x # xs"] exI [of _ "[]"]) simp
  next
    case False
    then have step: "next_mappings (plen y) st = (case LengthMapping_splitAt (of_text x) (plen y) of (item, r) \<Rightarrow>
        case next_mappings (lengthDiffNonNegative (lm_lengthAfter item) (plen y)) (case r of Some r \<Rightarrow> (Some r, q) | None \<Rightarrow> ArrayQueue_dequeue q) of
          (result, rest) \<Rightarrow> (item # result, rest))"
      using st(1) by (simp add: lengthIsZero_def plen_0_iff Let_def split: prod.split)
    have pre: "fst x \<or> fst (snd x) = snd (snd x)" "snd (snd x) @ (mapped_new xs @ w) = y @ r" using Cons.prems(3,5) by simp_all
    have xs_ok: "kept_ok xs" "short (mapped_new xs @ w)" using Cons.prems(3,4) by simp_all
    have x_short: "short (snd (snd x) @ (mapped_new xs @ w))" using Cons.prems(4) by simp
    show ?thesis
    proof (rule splitAt_texts [OF x_short pre], goal_cases)
      case (1 y')
      have "short y" using x_short unfolding pre(2) by simp
      with 1 step have "next_mappings (plen y) st = (case next_mappings (plen y') (ArrayQueue_dequeue q) of (result, rest) \<Rightarrow> (of_text x # result, rest))"
        using plen_diff [of "snd (snd x)" y'] by simp
      moreover obtain xs1 xs2 y2 st' where "next_mappings (plen y') (ArrayQueue_dequeue q) = (map of_text xs1, plen y2, st')" "queue_ok st'"
          "queue_items st' = map of_text xs2" "kept_ok xs1" "kept_ok xs2" "y' = mapped_new xs1 @ y2" "y2 = [] \<or> xs2 = []"
          "mapped_new xs2 @ w = y2 @ r" "mapped_old xs1 @ mapped_old xs2 = mapped_old xs"
        using Cons.IH [OF dequeue_items(2) trans [OF dequeue_items(1) st(2)] xs_ok 1(2)] by blast
      ultimately show ?thesis using 1(1) pre(1) by (intro exI [of _ "x # xs1"] exI [of _ xs2] exI [of _ y2] exI [of _ st']) simp
    next
      case (2 z)
      let ?b = "(fst x, if fst x then fst (snd x) else y, y)" and ?c = "(fst x, if fst x then [] else z, z)"
      have "next_mappings (plen y) st = ([of_text ?b], 0, (Some (of_text ?c), q))"
        using 2 step by (simp add: lengthDiffNonNegative_same lengthIsZero_def)
      then show ?thesis
        using 2 Cons.prems(3) st(2) pre(1)
        by (intro exI [of _ "[?b]"] exI [of _ "?c # xs"] exI [of _ "[]"]) (auto simp: queue_ok_def queue_items_def)
    qed
  qed
qed

text \<open>The mappings in front of a stretch of the text between the two lists of edits\<close>

lemma nextS0ToS1Map_texts:
  assumes "queue_ok st" "queue_items st = map of_text xs" "kept_ok xs" "short (mapped_new xs @ w)" "mapped_new xs @ w = y @ r"
  obtains xs1 xs2 w' st' where "nextS0ToS1MapWithS1LengthOf (Some (plen y)) st = (map of_text xs1, st')" "queue_ok st'"
    "queue_items st' = map of_text xs2" "kept_ok xs1" "kept_ok xs2" "mapped_new xs1 = y" "mapped_new xs2 @ w' = r"
    "mapped_old xs1 @ mapped_old xs2 @ w' = mapped_old xs @ w"
proof -
  obtain xs1 xs2 y2 st' where r: "next_mappings (plen y) st = (map of_text xs1, plen y2, st')" "queue_ok st'" "queue_items st' = map of_text xs2"
      "kept_ok xs1" "kept_ok xs2" "y = mapped_new xs1 @ y2" "y2 = [] \<or> xs2 = []" "mapped_new xs2 @ w = y2 @ r"
      "mapped_old xs1 @ mapped_old xs2 = mapped_old xs"
    using next_mappings_texts [OF assms] by blast
  have old: "mapped_old xs1 @ mapped_old xs2 @ w = mapped_old xs @ w" using r(9) by (metis append.assoc)
  show ?thesis
  proof (cases "y2 = []")
    case True
    then show ?thesis using r old by (intro that [of xs1 st' xs2 w]) (simp_all add: nextS0ToS1MapWithS1LengthOf_def lengthIsZero_def)
  next
    case False
    then show ?thesis using r old
      by (intro that [of "xs1 @ [(False, y2, y2)]" st' xs2 r])
        (auto simp: nextS0ToS1MapWithS1LengthOf_def lengthIsZero_def plen_0_iff of_text_def)
  qed
qed

lemma push_mappings_leads:
  "kept_ok xs \<Longrightarrow> leads_text result s t \<Longrightarrow> short (s @ mapped_old xs) \<Longrightarrow> short (t @ mapped_new xs) \<Longrightarrow>
   \<exists>result'. push_mappings (map of_text xs) (plen s) result = (plen (s @ mapped_old xs), result') \<and>
     leads_text result' (s @ mapped_old xs) (t @ mapped_new xs)"
proof (induction xs arbitrary: s t result)
  case (Cons x xs)
  obtain m a b where x: "x = (m, a, b)" by (cases x) auto
  have add: "lengthAdd (plen s) (plen a) = plen (s @ a)" using Cons.prems(3) x by (intro plen_append [symmetric]) simp
  have short: "short ((s @ a) @ mapped_old xs)" "short ((t @ b) @ mapped_new xs)" "short (s @ a)" "short (t @ b)"
    using Cons.prems(3,4) x by simp_all
  let ?result = "if m then pushEdit (plen s) (plen (s @ a)) (plen b) result else result"
  have "leads_text ?result (s @ a) (t @ b)"
    using leads_text_push [OF Cons.prems(2) short(3,4)] leads_text_keep [OF Cons.prems(2)] Cons.prems(1) x by auto
  from Cons.IH [OF _ this short(1,2)] Cons.prems(1) x add show ?case by (auto simp: Let_def)
qed simp

lemma sumLengths_texts: "short (mapped_old xs) \<Longrightarrow> sumLengths (map of_text xs) lm_lengthBefore = plen (mapped_old xs)"
proof (induction xs rule: rev_induct)
  case (snoc x xs)
  then show ?case using plen_append [of "mapped_old xs" "fst (snd x)"] by (simp add: sumLengths_def)
qed (simp add: sumLengths_def lengthZero_def)

lemma combine_loop_leads:
  "queue_ok st \<Longrightarrow> queue_items st = map of_text xs \<Longrightarrow> kept_ok xs \<Longrightarrow> kept_ok ys \<Longrightarrow> leads_text result s t \<Longrightarrow>
   mapped_new xs @ w = mapped_old ys @ v \<Longrightarrow> short (s @ mapped_old xs @ w) \<Longrightarrow> short (mapped_new xs @ w) \<Longrightarrow> short (t @ mapped_new ys @ v) \<Longrightarrow>
   leads_text (combine_loop (map (Some \<circ> of_text) ys @ [None]) st (plen s) result) (s @ mapped_old xs @ w) (t @ mapped_new ys @ v)"
proof (induction ys arbitrary: st xs w s t result)
  case Nil
  have "nextS0ToS1MapWithS1LengthOf None st = (map of_text xs, fst st, snd (ArrayQueue_takeWhile (\<lambda>v. True) (snd st)))"
    using Nil.prems(1,2) by (cases st) (auto simp: nextS0ToS1MapWithS1LengthOf_def takeWhile_items queue_items_def queue_ok_def split: option.splits)
  moreover have v: "v = mapped_new xs @ w" using Nil.prems(6) by simp
  moreover have "short (s @ mapped_old xs)" "short (t @ mapped_new xs)" using Nil.prems(7,9) v by simp_all
  then obtain result' where "push_mappings (map of_text xs) (plen s) result = (plen (s @ mapped_old xs), result')"
      "leads_text result' (s @ mapped_old xs) (t @ mapped_new xs)"
    using push_mappings_leads [OF Nil.prems(3,5)] by blast
  moreover note leads_text_keep [OF this(2), of w]
  ultimately show ?case by simp
next
  case (Cons y ys)
  obtain m a b where y: "y = (m, a, b)" by (cases y) auto
  have eq: "mapped_new xs @ w = a @ mapped_old ys @ v" using Cons.prems(6) y by simp
  obtain xs1 xs2 w' st' where r: "nextS0ToS1MapWithS1LengthOf (Some (plen a)) st = (map of_text xs1, st')" "queue_ok st'"
      "queue_items st' = map of_text xs2" "kept_ok xs1" "kept_ok xs2" "mapped_new xs1 = a" "mapped_new xs2 @ w' = mapped_old ys @ v"
      "mapped_old xs1 @ mapped_old xs2 @ w' = mapped_old xs @ w"
    by (rule nextS0ToS1Map_texts [OF Cons.prems(1-3,8) eq])
  have split: "s @ mapped_old xs @ w = (s @ mapped_old xs1) @ mapped_old xs2 @ w'" using r(8) by simp
  have short: "short (s @ mapped_old xs1)" "short (t @ b)" "short ((s @ mapped_old xs1) @ mapped_old xs2 @ w')"
      "short ((t @ b) @ mapped_new ys @ v)"
    using Cons.prems(7,9) y unfolding split by simp_all
  have short': "short (mapped_new xs2 @ w')"
    using Cons.prems(8) unfolding eq r(7) by simp
  note IH = Cons.IH [OF r(2,3,5) _ _ r(7) short(3) short' short(4)]
  have kept: "kept_ok ys" "m \<or> a = b" using Cons.prems(4) y by simp_all
  show ?case
  proof (cases m)
    case True
    have "sumLengths (map of_text xs1) lm_lengthBefore = plen (mapped_old xs1)" using short(1) by (intro sumLengths_texts) simp
    moreover have "lengthAdd (plen s) (plen (mapped_old xs1)) = plen (s @ mapped_old xs1)" using plen_append [OF short(1)] by simp
    ultimately show ?thesis
      using True y r(1) IH [OF kept(1) leads_text_push [OF Cons.prems(5) short(1,2)]] unfolding split by (simp add: Let_def)
  next
    case False
    then obtain result' where "push_mappings (map of_text xs1) (plen s) result = (plen (s @ mapped_old xs1), result')"
        "leads_text result' (s @ mapped_old xs1) (t @ b)"
      using push_mappings_leads [OF r(4) Cons.prems(5) short(1)] short(2) r(6) kept(2) by auto
    then show ?thesis using False y r(1) IH [OF kept(1)] unfolding split by simp
  qed
qed

lemma leads_text_mapping:
  assumes "leads_text es s t" "short s"
  obtains xs w where "toLengthMapping es = map of_text xs" "kept_ok xs" "s = mapped_old xs @ w" "t = mapped_new xs @ w"
proof -
  obtain ss w where ss: "es = stretch_infos [] ss" "s = stretch_old ss @ w" "t = stretch_new ss @ w"
    using assms(1) by (auto simp: leads_text_def)
  obtain xs where "toLengthMapping_loop (stretch_infos [] ss) (plen []) = map of_text xs" "kept_ok xs"
      "mapped_old xs = stretch_old ss" "mapped_new xs = stretch_new ss"
    using toLengthMapping_loop_texts [of "[]" ss] assms(2) ss(2) by auto
  with ss show ?thesis by (intro that [of xs w]) (simp_all add: toLengthMapping_def lengthZero_def)
qed

text \<open>
  C6: \<open>combineTextEditInfos\<close> composes edits. Whenever the first list of edits describes the way
  from a text to a second one and the second list the way from there to a third (each edit gives
  the packed offsets of the replaced stretch and the packed length of its replacement),
  the combined list describes the way from the first text to the third, in ascending order and
  in offsets of the first text; the texts are shorter than 2^26 code units, the largest column.
\<close>

theorem combineTextEditInfos_composes:
  assumes "leads_text es1 t0 t1" "leads_text es2 t1 t2" "short t0" "short t1" "short t2"
  shows "leads_text (combineTextEditInfos es1 es2) t0 t2"
proof -
  obtain xs w where xs: "toLengthMapping es1 = map of_text xs" "kept_ok xs" "t0 = mapped_old xs @ w" "t1 = mapped_new xs @ w"
    by (rule leads_text_mapping [OF assms(1,3)])
  obtain ys v where ys: "toLengthMapping es2 = map of_text ys" "kept_ok ys" "t1 = mapped_old ys @ v" "t2 = mapped_new ys @ v"
    by (rule leads_text_mapping [OF assms(2,4)])
  have "queue_items (ArrayQueue_dequeue (ArrayQueue_new (map of_text xs))) = map of_text xs"
    by (simp add: dequeue_items queue_rest_def ArrayQueue_new_def)
  moreover have "mapped_new xs @ w = mapped_old ys @ v" "short (mapped_old ys @ v)" using xs(4) ys(3) assms(4) by simp_all
  ultimately have "leads_text (combine_loop (map (Some \<circ> of_text) ys @ [None])
      (ArrayQueue_dequeue (ArrayQueue_new (map of_text xs))) (plen []) []) t0 t2"
    using combine_loop_leads [OF dequeue_items(2) _ xs(2) ys(2), of "ArrayQueue_new (map of_text xs)" "[]" "[]" "[]" w v] xs ys assms
    by (simp add: leads_text_Nil)
  then show ?thesis using assms(1,2) by (auto simp: combineTextEditInfos_def leads_text_Nil lengthZero_def xs(1) ys(1))
qed

theorem combineTextEditInfos_composes_witness:
  "combineTextEditInfos [\<lparr>te_startOffset = 1, te_endOffset = 2, te_newLength = 2\<rparr>] [\<lparr>te_startOffset = 2, te_endOffset = 4, te_newLength = 1\<rparr>] =
     [\<lparr>te_startOffset = 1, te_endOffset = 3, te_newLength = 2\<rparr>] \<and>
   leads_text [\<lparr>te_startOffset = 1, te_endOffset = 3, te_newLength = 2\<rparr>] [97, 98, 99, 100] [97, 120, 122, 100]"
proof -
  have one: "leads_text [\<lparr>te_startOffset = 1, te_endOffset = 2, te_newLength = 2\<rparr>] [97, 98, 99, 100] [97, 120, 121, 99, 100]"
    unfolding leads_text_def
    by (intro exI [of _ "[([97], [98], [120, 121])]"] exI [of _ "[99, 100]"])
      (simp add: plen_def tlen_def tlen_step_def TextLength_zero_def toLength_def)
  have two: "leads_text [\<lparr>te_startOffset = 2, te_endOffset = 4, te_newLength = 1\<rparr>] [97, 120, 121, 99, 100] [97, 120, 122, 100]"
    unfolding leads_text_def
    by (intro exI [of _ "[([97, 120], [121, 99], [122])]"] exI [of _ "[100]"])
      (simp add: plen_def tlen_def tlen_step_def TextLength_zero_def toLength_def)
  have "combineTextEditInfos [\<lparr>te_startOffset = 1, te_endOffset = 2, te_newLength = 2\<rparr>] [\<lparr>te_startOffset = 2, te_endOffset = 4, te_newLength = 1\<rparr>] =
      [\<lparr>te_startOffset = 1, te_endOffset = 3, te_newLength = 2\<rparr>]"
    by code_simp
  with combineTextEditInfos_composes [OF one two] show ?thesis by (simp add: length_factor_def)
qed

end
