(* ===== verification/SmallSets.thy ===== *)
theory SmallSets
  imports Prelude "HOL-Library.AList"
begin

unbundle bit_operations_syntax

text \<open>
  Model of \<open>model/bracketPairsTextModelPart/bracketPairsTree/smallImmutableSet.ts\<close>: sets of small
  numbers as bit masks, and the provider of dense keys.

  A mask is a \<^typ>\<open>32 word\<close>, the 32 bits on which the bitwise operators of the language work. The
  cache of \<open>create\<close> and the early returns of \<open>this\<close> only save allocations; the additional items
  are \<open>emptyArr\<close> exactly when there are none. The key of a value is passed in place of the value.
\<close>

section \<open>SmallImmutableSet\<close>

record SmallImmutableSet =
  sis_items :: "32 word"
  sis_additionalItems :: "32 word list"

definition SmallImmutableSet_create :: "32 word \<Rightarrow> 32 word list \<Rightarrow> SmallImmutableSet" where
  "SmallImmutableSet_create items additionalItems = \<lparr>sis_items = items, sis_additionalItems = additionalItems\<rparr>"

definition SmallImmutableSet_getEmpty :: SmallImmutableSet where
  "SmallImmutableSet_getEmpty = SmallImmutableSet_create 0 []"

text \<open>\<open>1 << n\<close>\<close>

definition bit_mask :: "nat \<Rightarrow> 32 word" where
  "bit_mask n = push_bit (n mod 32) 1"

text \<open>\<open>arr[i] || 0\<close>\<close>

definition item_or_0 :: "32 word list \<Rightarrow> nat \<Rightarrow> 32 word" where
  "item_or_0 arr i = (if i < length arr then arr ! i else 0)"

definition SmallImmutableSet_add :: "SmallImmutableSet \<Rightarrow> nat \<Rightarrow> SmallImmutableSet" where
  "SmallImmutableSet_add s key =
     (let idx = key div 32
      in if idx = 0 then
           let newItem = bit_mask key OR sis_items s
           in if newItem = sis_items s then s else SmallImmutableSet_create newItem (sis_additionalItems s)
         else
           let idx = idx - 1;
               newItems = sis_additionalItems s @ replicate (idx - length (sis_additionalItems s)) 0;
               newItem = item_or_0 newItems idx OR bit_mask (key mod 32)
           in SmallImmutableSet_create (sis_items s)
                (if idx < length newItems then newItems[idx := newItem] else newItems @ [newItem]))"

definition SmallImmutableSet_has :: "SmallImmutableSet \<Rightarrow> nat \<Rightarrow> bool" where
  "SmallImmutableSet_has s key =
     (let idx = key div 32
      in if idx = 0 then sis_items s AND bit_mask key \<noteq> 0
         else item_or_0 (sis_additionalItems s) (idx - 1) AND bit_mask (key mod 32) \<noteq> 0)"

definition SmallImmutableSet_merge :: "SmallImmutableSet \<Rightarrow> SmallImmutableSet \<Rightarrow> SmallImmutableSet" where
  "SmallImmutableSet_merge s t =
     (let merged = sis_items s OR sis_items t
      in if sis_additionalItems s = [] \<and> sis_additionalItems t = [] then
           if merged = sis_items s then s
           else if merged = sis_items t then t
           else SmallImmutableSet_create merged []
         else
           let newItems = map (\<lambda>i. item_or_0 (sis_additionalItems s) i OR item_or_0 (sis_additionalItems t) i)
                 [0..<max (length (sis_additionalItems s)) (length (sis_additionalItems t))]
           in SmallImmutableSet_create merged newItems)"

fun intersects_loop :: "32 word list \<Rightarrow> 32 word list \<Rightarrow> bool" where
  "intersects_loop (x # xs) (y # ys) = (if x AND y \<noteq> 0 then True else intersects_loop xs ys)"
| "intersects_loop xs ys = False"

definition SmallImmutableSet_intersects :: "SmallImmutableSet \<Rightarrow> SmallImmutableSet \<Rightarrow> bool" where
  "SmallImmutableSet_intersects s t =
     (if sis_items s AND sis_items t \<noteq> 0 then True
      else intersects_loop (sis_additionalItems s) (sis_additionalItems t))"

fun set_equals_loop :: "32 word list \<Rightarrow> 32 word list \<Rightarrow> bool" where
  "set_equals_loop (x # xs) (y # ys) = (if x \<noteq> y then False else set_equals_loop xs ys)"
| "set_equals_loop xs ys = True"

definition SmallImmutableSet_equals :: "SmallImmutableSet \<Rightarrow> SmallImmutableSet \<Rightarrow> bool" where
  "SmallImmutableSet_equals s t =
     (if sis_items s \<noteq> sis_items t then False
      else if length (sis_additionalItems s) \<noteq> length (sis_additionalItems t) then False
      else set_equals_loop (sis_additionalItems s) (sis_additionalItems t))"

section \<open>DenseKeyProvider\<close>

text \<open>The map from values to keys, in insertion order; \<open>getKey\<close> also returns the new map.\<close>

type_synonym 'a DenseKeyProvider = "('a \<times> nat) list"

definition DenseKeyProvider_getKey :: "'a DenseKeyProvider \<Rightarrow> 'a \<Rightarrow> nat \<times> 'a DenseKeyProvider" where
  "DenseKeyProvider_getKey items v =
     (case map_of items v of
        Some existing \<Rightarrow> (existing, items)
      | None \<Rightarrow> let existing = length items in (existing, AList.update v existing items))"

definition DenseKeyProvider_reverseLookup :: "'a DenseKeyProvider \<Rightarrow> nat \<Rightarrow> 'a option" where
  "DenseKeyProvider_reverseLookup items n = map_option fst (List.find (\<lambda>(k, v). v = n) items)"

definition DenseKeyProvider_reverseLookupSet :: "'a DenseKeyProvider \<Rightarrow> SmallImmutableSet \<Rightarrow> 'a list" where
  "DenseKeyProvider_reverseLookupSet items s =
     map fst (filter (\<lambda>(key, _). SmallImmutableSet_has s (fst (DenseKeyProvider_getKey items key))) items)"

definition DenseKeyProvider_keys :: "'a DenseKeyProvider \<Rightarrow> 'a list" where
  "DenseKeyProvider_keys items = map fst items"

section \<open>The interface of sets of bracket ids\<close>

locale id_set =
  fixes has :: "'s \<Rightarrow> nat \<Rightarrow> bool" and getEmpty :: 's and add :: "'s \<Rightarrow> nat \<Rightarrow> 's"
    and merge :: "'s \<Rightarrow> 's \<Rightarrow> 's" and intersects :: "'s \<Rightarrow> 's \<Rightarrow> bool"
  assumes has_empty: "\<not> has getEmpty k"
    and has_add: "has (add s k) k' \<longleftrightarrow> k' = k \<or> has s k'"
    and has_merge: "has (merge s t) k \<longleftrightarrow> has s k \<or> has t k"
    and intersects_iff: "intersects s t \<longleftrightarrow> (\<exists>k. has s k \<and> has t k)"
begin

lemma has_fold_add: "has (foldl add s ks) k \<longleftrightarrow> k \<in> set ks \<or> has s k"
  by (induction ks arbitrary: s) (auto simp: has_add)

lemma has_fold_merge: "has (foldl merge s ts) k \<longleftrightarrow> has s k \<or> (\<exists>t \<in> set ts. has t k)"
  by (induction ts arbitrary: s) (auto simp: has_merge)

lemma intersects_fold_merge: "intersects s (foldl merge t ts) \<longleftrightarrow> intersects s t \<or> (\<exists>t \<in> set ts. intersects s t)"
  by (auto simp: intersects_iff has_fold_merge)

lemma intersects_empty: "\<not> intersects s getEmpty" "\<not> intersects getEmpty s"
  by (auto simp: intersects_iff has_empty)

end

section \<open>Masks as sets\<close>

lemma bit_bit_mask: "bit (bit_mask n) i \<longleftrightarrow> i = n mod 32"
  by (auto simp: bit_mask_def bit_simps)

lemma and_word_0: "(x::32 word) AND y \<noteq> 0 \<longleftrightarrow> (\<exists>i < 32. bit x i \<and> bit y i)"
proof -
  have "x AND y = 0 \<longleftrightarrow> (\<forall>i < 32. bit x i \<longrightarrow> \<not> bit y i)" by (simp add: bit_eq_iff bit_simps)
  then show ?thesis by blast
qed

lemma and_mask_0: "w AND bit_mask n \<noteq> 0 \<longleftrightarrow> bit w (n mod 32)"
  by (auto simp: and_word_0 bit_bit_mask)

text \<open>All words of a set, the first included\<close>

definition sis_words :: "SmallImmutableSet \<Rightarrow> 32 word list" where
  "sis_words s = sis_items s # sis_additionalItems s"

lemma sis_words_create [simp]: "sis_words (SmallImmutableSet_create w ws) = w # ws"
  by (simp add: sis_words_def SmallImmutableSet_create_def)

lemma has_words: "SmallImmutableSet_has s k \<longleftrightarrow> bit (item_or_0 (sis_words s) (k div 32)) (k mod 32)"
  by (cases "k div 32") (auto simp: SmallImmutableSet_has_def sis_words_def item_or_0_def and_mask_0 Let_def)

lemma item_or_0_simps [simp]: "item_or_0 (x # xs) 0 = x" "item_or_0 (x # xs) (Suc i) = item_or_0 xs i" "item_or_0 [] i = 0"
  by (simp_all add: item_or_0_def)

lemma item_or_0_add:
  assumes "ws' = xs @ replicate (i - length xs) 0"
  shows "item_or_0 (if i < length ws' then ws'[i := item_or_0 ws' i OR m] else ws' @ [item_or_0 ws' i OR m]) j =
    (if j = i then item_or_0 xs j OR m else item_or_0 xs j)"
  using assms by (auto simp: item_or_0_def nth_append nth_list_update)

lemma item_or_0_merge:
  "item_or_0 (map (\<lambda>i. item_or_0 xs i OR item_or_0 ys i) [0..<max (length xs) (length ys)]) j = item_or_0 xs j OR item_or_0 ys j"
  by (auto simp: item_or_0_def)

lemma add_words:
  "item_or_0 (sis_words (SmallImmutableSet_add s k)) j =
     (if j = k div 32 then item_or_0 (sis_words s) j OR bit_mask k else item_or_0 (sis_words s) j)"
proof (cases "k div 32")
  case 0
  then show ?thesis
    by (cases j) (auto simp: SmallImmutableSet_add_def Let_def sis_words_def SmallImmutableSet_create_def or.commute)
next
  case (Suc i)
  have "bit_mask (k mod 32) = bit_mask k" by (simp add: bit_mask_def)
  with Suc item_or_0_add [OF refl, of i "sis_additionalItems s" "bit_mask k"] show ?thesis
    by (cases j) (simp_all add: SmallImmutableSet_add_def Let_def sis_words_def SmallImmutableSet_create_def)
qed

lemma merge_words:
  "item_or_0 (sis_words (SmallImmutableSet_merge s t)) j = item_or_0 (sis_words s) j OR item_or_0 (sis_words t) j"
  using item_or_0_merge [of "sis_additionalItems s" "sis_additionalItems t"]
  by (cases j) (auto simp: SmallImmutableSet_merge_def Let_def sis_words_def SmallImmutableSet_create_def)

lemma intersects_words: "intersects_loop xs ys \<longleftrightarrow> (\<exists>j. item_or_0 xs j AND item_or_0 ys j \<noteq> 0)"
proof (induction xs ys rule: intersects_loop.induct)
  case (1 x xs y ys)
  have "(\<exists>j. item_or_0 (x # xs) j AND item_or_0 (y # ys) j \<noteq> 0) \<longleftrightarrow>
      x AND y \<noteq> 0 \<or> (\<exists>j. item_or_0 xs j AND item_or_0 ys j \<noteq> 0)"
    by (metis item_or_0_simps(1,2) not0_implies_Suc)
  with 1 show ?case by auto
qed simp_all

lemma SmallImmutableSet_intersects_iff:
  "SmallImmutableSet_intersects s t \<longleftrightarrow> (\<exists>k. SmallImmutableSet_has s k \<and> SmallImmutableSet_has t k)"
proof -
  have "SmallImmutableSet_intersects s t \<longleftrightarrow> intersects_loop (sis_words s) (sis_words t)"
    by (simp add: SmallImmutableSet_intersects_def sis_words_def)
  also have "\<dots> \<longleftrightarrow> (\<exists>j i. i < 32 \<and> bit (item_or_0 (sis_words s) j) i \<and> bit (item_or_0 (sis_words t) j) i)"
    by (auto simp: intersects_words and_word_0)
  also have "\<dots> \<longleftrightarrow> (\<exists>k. bit (item_or_0 (sis_words s) (k div 32)) (k mod 32) \<and> bit (item_or_0 (sis_words t) (k div 32)) (k mod 32))"
  proof
    assume "\<exists>j i. i < 32 \<and> bit (item_or_0 (sis_words s) j) i \<and> bit (item_or_0 (sis_words t) j) i"
    then obtain j i where ij: "i < 32" "bit (item_or_0 (sis_words s) j) i" "bit (item_or_0 (sis_words t) j) i" by blast
    then have "(32 * j + i) div 32 = j" "(32 * j + i) mod 32 = i" by simp_all
    with ij show "\<exists>k. bit (item_or_0 (sis_words s) (k div 32)) (k mod 32) \<and> bit (item_or_0 (sis_words t) (k div 32)) (k mod 32)" by metis
  next
    assume "\<exists>k. bit (item_or_0 (sis_words s) (k div 32)) (k mod 32) \<and> bit (item_or_0 (sis_words t) (k div 32)) (k mod 32)"
    then show "\<exists>j i. i < 32 \<and> bit (item_or_0 (sis_words s) j) i \<and> bit (item_or_0 (sis_words t) j) i"
      by (meson mod_less_divisor zero_less_numeral)
  qed
  finally show ?thesis by (simp add: has_words)
qed

interpretation bracket_ids: id_set SmallImmutableSet_has SmallImmutableSet_getEmpty SmallImmutableSet_add
    SmallImmutableSet_merge SmallImmutableSet_intersects
proof
  show "\<not> SmallImmutableSet_has SmallImmutableSet_getEmpty k" for k
    by (cases "k div 32") (auto simp: has_words SmallImmutableSet_getEmpty_def)
  show "SmallImmutableSet_has (SmallImmutableSet_add s k) k' \<longleftrightarrow> k' = k \<or> SmallImmutableSet_has s k'" for s k k'
  proof -
    have "k' = k \<longleftrightarrow> k' div 32 = k div 32 \<and> k' mod 32 = k mod 32" by (metis div_mult_mod_eq)
    then show ?thesis by (auto simp: has_words add_words bit_simps bit_bit_mask)
  qed
  show "SmallImmutableSet_has (SmallImmutableSet_merge s t) k \<longleftrightarrow> SmallImmutableSet_has s k \<or> SmallImmutableSet_has t k" for s t k
    by (simp add: has_words merge_words bit_simps)
qed (rule SmallImmutableSet_intersects_iff)

section \<open>What the sets and keys promise\<close>

lemma set_equals_loop_iff: "length xs = length ys \<Longrightarrow> set_equals_loop xs ys \<longleftrightarrow> xs = ys"
  by (induction xs ys rule: set_equals_loop.induct) auto

lemma SmallImmutableSet_equals_iff: "SmallImmutableSet_equals s t \<longleftrightarrow> s = t"
  by (cases s; cases t) (auto simp: SmallImmutableSet_equals_def set_equals_loop_iff)

text \<open>
  The bit masks implement sets of numbers of any size: after adding the keys of a list to the
  empty set, exactly these keys are members; \<open>merge\<close> is union; \<open>intersects\<close> tells whether there is
  a common member; and \<open>equals\<close> of two sets implies that they have the same members.
\<close>

theorem SmallImmutableSet_sets:
  "SmallImmutableSet_has (SmallImmutableSet_merge (foldl SmallImmutableSet_add SmallImmutableSet_getEmpty ks)
      (foldl SmallImmutableSet_add SmallImmutableSet_getEmpty ls)) k = (k \<in> set ks \<union> set ls) \<and>
   SmallImmutableSet_intersects (foldl SmallImmutableSet_add SmallImmutableSet_getEmpty ks)
      (foldl SmallImmutableSet_add SmallImmutableSet_getEmpty ls) = (set ks \<inter> set ls \<noteq> {}) \<and>
   \<not> (SmallImmutableSet_equals s t \<and> SmallImmutableSet_has s k \<noteq> SmallImmutableSet_has t k)"
  by (auto simp: bracket_ids.has_merge bracket_ids.has_fold_add bracket_ids.has_empty bracket_ids.intersects_iff
      SmallImmutableSet_equals_iff)

text \<open>The keys of a provider are the numbers from zero on, one for each value.\<close>

definition dense :: "'a DenseKeyProvider \<Rightarrow> bool" where
  "dense items \<longleftrightarrow> map snd items = [0..<length items] \<and> distinct (map fst items)"

lemma dense_nth: "dense items \<Longrightarrow> i < length items \<Longrightarrow> snd (items ! i) = i"
  unfolding dense_def by (metis nth_map nth_upt add_0 length_map)

lemma update_new: "k \<notin> fst ` set items \<Longrightarrow> AList.update k v items = items @ [(k, v)]"
  by (induction items) auto

lemma getKey_dense:
  assumes "dense items" "DenseKeyProvider_getKey items v = (k, items')"
  shows "dense items'" "map_of items' v = Some k" "map_of items w = Some n \<Longrightarrow> map_of items' w = Some n"
proof -
  have d: "dense items' \<and> map_of items' v = Some k \<and> (map_of items w = Some n \<longrightarrow> map_of items' w = Some n)"
  proof (cases "map_of items v")
    case None
    then have "v \<notin> fst ` set items" by (simp add: map_of_eq_None_iff)
    with None assms have "items' = items @ [(v, k)]" "k = length items" by (auto simp: DenseKeyProvider_getKey_def update_new Let_def)
    with assms(1) \<open>v \<notin> fst ` set items\<close> None show ?thesis by (auto simp: dense_def map_add_def split: option.split)
  next
    case (Some n)
    with assms show ?thesis by (auto simp: DenseKeyProvider_getKey_def)
  qed
  then show "dense items'" "map_of items' v = Some k" "map_of items w = Some n \<Longrightarrow> map_of items' w = Some n" by blast+
qed

lemma find_nth_first:
  "i < length xs \<Longrightarrow> P (xs ! i) \<Longrightarrow> \<forall>j < i. \<not> P (xs ! j) \<Longrightarrow> List.find P xs = Some (xs ! i)"
proof (induction xs arbitrary: i)
  case (Cons x xs)
  then show ?case by (cases i) (auto simp: All_less_Suc2)
qed simp

text \<open>
  \<open>getKey\<close> keeps the keys dense and distinct and the keys given before, and \<open>reverseLookup\<close> of
  the key it returns is the value it was given.
\<close>

theorem DenseKeyProvider_reverseLookup_getKey:
  assumes "dense items" "DenseKeyProvider_getKey items v = (k, items')"
  shows "dense items' \<and> DenseKeyProvider_reverseLookup items' k = Some v \<and> DenseKeyProvider_getKey items' v = (k, items') \<and>
    (map_of items w = Some n \<longrightarrow> fst (DenseKeyProvider_getKey items' w) = n)"
proof -
  note d = getKey_dense [OF assms]
  have "(v, k) \<in> set items'" using d(2) by (rule map_of_SomeD)
  then obtain i where i: "i < length items'" "items' ! i = (v, k)" by (auto simp: in_set_conv_nth)
  with dense_nth [OF d(1) i(1)] have "k = i" by simp
  with i dense_nth [OF d(1)] have "List.find (\<lambda>(a, b). b = k) items' = Some (items' ! i)"
    by (intro find_nth_first) (auto simp: case_prod_beta)
  with i d show ?thesis by (auto simp: DenseKeyProvider_reverseLookup_def DenseKeyProvider_getKey_def)
qed

theorem DenseKeyProvider_reverseLookup_getKey_witness:
  "DenseKeyProvider_reverseLookup (snd (DenseKeyProvider_getKey [(True, 0)] False)) 1 = Some False \<and> dense [(True, 0)]"
  using DenseKeyProvider_reverseLookup_getKey [of "[(True, 0)]" False 1 "[(True, 0), (False, 1)]"]
  by (simp add: dense_def DenseKeyProvider_getKey_def)

end
