(* ===== verification/BracketAst.thy ===== *)
theory BracketAst
  imports BracketLengths SmallSets
begin

text \<open>
  Model of \<open>model/bracketPairsTextModelPart/bracketPairsTree/ast.ts\<close>: the nodes of the bracket pair
  tree. Lists are (2,3)-trees of \<open>TwoThreeListAstNode\<close>s; \<open>ArrayListAstNode\<close>s only occur as the empty
  list and for debugging. The flag of a list node tells the immutable subclass apart.

  The mutating methods return the changed node. \<open>computeMinIndentation\<close>, with the field that
  caches its result, reads the text model and is left out. The kind of a bracket (\<open>bracketInfo\<close>)
  has an arbitrary type.
\<close>

section \<open>Nodes\<close>

datatype AstNodeKind = TextKind | BracketKind | PairKind | UnexpectedClosingBracketKind | ListKind

datatype 'b BracketAstNode = BracketAstNode (bracket_length: Length) (bracketInfo: 'b) (bracketIds: SmallImmutableSet)

datatype 'b AstNode =
    TextNode Length
  | BracketNode "'b BracketAstNode"
  | InvalidBracketNode SmallImmutableSet Length
  | PairNode Length "'b BracketAstNode" "'b AstNode option" "'b BracketAstNode option" SmallImmutableSet
  | TwoThreeListNode bool Length nat "'b AstNode" "'b AstNode" "'b AstNode option" SmallImmutableSet
  | ArrayListNode bool Length nat "'b AstNode list" SmallImmutableSet

fun ast_kind :: "'b AstNode \<Rightarrow> AstNodeKind" where
  "ast_kind (TextNode l) = TextKind"
| "ast_kind (BracketNode b) = BracketKind"
| "ast_kind (InvalidBracketNode s l) = UnexpectedClosingBracketKind"
| "ast_kind (PairNode l b c d s) = PairKind"
| "ast_kind _ = ListKind"

fun ast_length :: "'b AstNode \<Rightarrow> Length" where
  "ast_length (TextNode l) = l"
| "ast_length (BracketNode b) = bracket_length b"
| "ast_length (InvalidBracketNode s l) = l"
| "ast_length (PairNode l b c d s) = l"
| "ast_length (TwoThreeListNode i l ht x y z s) = l"
| "ast_length (ArrayListNode i l ht xs s) = l"

fun listHeight :: "'b AstNode \<Rightarrow> nat" where
  "listHeight (TwoThreeListNode i l ht x y z s) = ht"
| "listHeight (ArrayListNode i l ht xs s) = ht"
| "listHeight _ = 0"

fun missingOpeningBracketIds :: "'b AstNode \<Rightarrow> SmallImmutableSet" where
  "missingOpeningBracketIds (TextNode l) = SmallImmutableSet_getEmpty"
| "missingOpeningBracketIds (BracketNode b) = SmallImmutableSet_getEmpty"
| "missingOpeningBracketIds (InvalidBracketNode s l) = s"
| "missingOpeningBracketIds (PairNode l b c d s) = s"
| "missingOpeningBracketIds (TwoThreeListNode i l ht x y z s) = s"
| "missingOpeningBracketIds (ArrayListNode i l ht xs s) = s"

fun childrenLength :: "'b AstNode \<Rightarrow> nat" where
  "childrenLength (PairNode l b c d s) = 3"
| "childrenLength (TwoThreeListNode i l ht x y z s) = (if z \<noteq> None then 3 else 2)"
| "childrenLength (ArrayListNode i l ht xs s) = length xs"
| "childrenLength _ = 0"

text \<open>\<open>getChild\<close>, with \<open>None\<close> for \<open>null\<close> and \<open>undefined\<close>\<close>

fun getChild :: "'b AstNode \<Rightarrow> nat \<Rightarrow> 'b AstNode option result" where
  "getChild (PairNode l b c d s) idx =
     (if idx = 0 then Inr (Some (BracketNode b))
      else if idx = 1 then Inr c
      else if idx = 2 then Inr (map_option BracketNode d)
      else Inl PlainError)"
| "getChild (TwoThreeListNode i l ht x y z s) idx =
     (if idx = 0 then Inr (Some x) else if idx = 1 then Inr (Some y) else if idx = 2 then Inr z else Inl PlainError)"
| "getChild (ArrayListNode i l ht xs s) idx = Inr (if idx < length xs then Some (xs ! idx) else None)"
| "getChild _ idx = Inr None"

fun ast_children :: "'b AstNode \<Rightarrow> 'b AstNode list" where
  "ast_children (PairNode l b c d s) =
     BracketNode b # (case c of None \<Rightarrow> [] | Some n \<Rightarrow> [n]) @ (case d of None \<Rightarrow> [] | Some b' \<Rightarrow> [BracketNode b'])"
| "ast_children (TwoThreeListNode i l ht x y z s) = (case z of None \<Rightarrow> [x, y] | Some n \<Rightarrow> [x, y, n])"
| "ast_children (ArrayListNode i l ht xs s) = xs"
| "ast_children _ = []"

section \<open>Construction\<close>

definition PairAstNode_create :: "'b BracketAstNode \<Rightarrow> 'b AstNode option \<Rightarrow> 'b BracketAstNode option \<Rightarrow> 'b AstNode" where
  "PairAstNode_create openingBracket child closingBracket =
     (let l = bracket_length openingBracket;
          l = (case child of None \<Rightarrow> l | Some c \<Rightarrow> lengthAdd l (ast_length c));
          l = (case closingBracket of None \<Rightarrow> l | Some b \<Rightarrow> lengthAdd l (bracket_length b))
      in PairNode l openingBracket child closingBracket
           (case child of None \<Rightarrow> SmallImmutableSet_getEmpty | Some c \<Rightarrow> missingOpeningBracketIds c))"

definition ListAstNode_create23 :: "'b AstNode \<Rightarrow> 'b AstNode \<Rightarrow> 'b AstNode option \<Rightarrow> bool \<Rightarrow> 'b AstNode result" where
  "ListAstNode_create23 item1 item2 item3 immutable =
     (if listHeight item1 \<noteq> listHeight item2 then Inl PlainError
      else
        let l = lengthAdd (ast_length item1) (ast_length item2);
            missingBracketIds = SmallImmutableSet_merge (missingOpeningBracketIds item1) (missingOpeningBracketIds item2)
        in case item3 of
             None \<Rightarrow> Inr (TwoThreeListNode immutable l (listHeight item1 + 1) item1 item2 None missingBracketIds)
           | Some n \<Rightarrow>
               if listHeight item1 \<noteq> listHeight n then Inl PlainError
               else Inr (TwoThreeListNode immutable (lengthAdd l (ast_length n)) (listHeight item1 + 1) item1 item2 (Some n)
                 (SmallImmutableSet_merge missingBracketIds (missingOpeningBracketIds n))))"

definition ListAstNode_getEmpty :: "'b AstNode" where
  "ListAstNode_getEmpty = ArrayListNode True lengthZero 0 [] SmallImmutableSet_getEmpty"

text \<open>The length and the ids of a sequence of nodes, as the loops of \<open>create\<close> and \<open>handleChildrenChanged\<close> compute them\<close>

fun sum_nodes :: "'b AstNode list \<Rightarrow> Length \<Rightarrow> SmallImmutableSet \<Rightarrow> Length \<times> SmallImmutableSet" where
  "sum_nodes [] l unopenedBrackets = (l, unopenedBrackets)"
| "sum_nodes (n # ns) l unopenedBrackets =
     sum_nodes ns (lengthAdd l (ast_length n)) (SmallImmutableSet_merge unopenedBrackets (missingOpeningBracketIds n))"

definition ListAstNode_create :: "'b AstNode list \<Rightarrow> bool \<Rightarrow> 'b AstNode" where
  "ListAstNode_create items immutable =
     (case items of
        [] \<Rightarrow> ListAstNode_getEmpty
      | n # ns \<Rightarrow>
          let (l, unopenedBrackets) = sum_nodes ns (ast_length n) (missingOpeningBracketIds n)
          in ArrayListNode immutable l (listHeight n + 1) items unopenedBrackets)"

section \<open>Mutation\<close>

fun throwIfImmutable :: "'b AstNode \<Rightarrow> unit result" where
  "throwIfImmutable (TwoThreeListNode i l ht x y z s) = (if i then Inl PlainError else Inr ())"
| "throwIfImmutable (ArrayListNode i l ht xs s) = (if i then Inl PlainError else Inr ())"
| "throwIfImmutable _ = Inr ()"

text \<open>\<open>toMutable\<close>, which only list nodes have\<close>

fun toMutable :: "'b AstNode \<Rightarrow> 'b AstNode result" where
  "toMutable (TwoThreeListNode i l ht x y z s) = Inr (TwoThreeListNode False l ht x y z s)"
| "toMutable (ArrayListNode i l ht xs s) = Inr (ArrayListNode False l ht xs s)"
| "toMutable _ = Inl TypeError"

fun setChild :: "'b AstNode \<Rightarrow> nat \<Rightarrow> 'b AstNode \<Rightarrow> 'b AstNode result" where
  "setChild (TwoThreeListNode i l ht x y z s) idx n =
     (if idx = 0 then Inr (TwoThreeListNode i l ht n y z s)
      else if idx = 1 then Inr (TwoThreeListNode i l ht x n z s)
      else if idx = 2 then Inr (TwoThreeListNode i l ht x y (Some n) s)
      else Inl PlainError)"
| "setChild (ArrayListNode i l ht xs s) idx n = Inr (ArrayListNode i l ht (xs[idx := n]) s)"
| "setChild _ idx n = Inl TypeError"

text \<open>\<open>lastChild.kind === AstNodeKind.List ? lastChild.toMutable() : lastChild\<close>\<close>

definition mutable_child :: "'b AstNode \<Rightarrow> 'b AstNode" where
  "mutable_child n = (case toMutable n of Inr m \<Rightarrow> m | Inl _ \<Rightarrow> n)"

text \<open>\<open>makeLastElementMutable\<close> and \<open>makeFirstElementMutable\<close>: the child and the changed node\<close>

definition makeElementMutable :: "nat \<Rightarrow> 'b AstNode \<Rightarrow> ('b AstNode option \<times> 'b AstNode) result" where
  "makeElementMutable idx node =
     ebind (throwIfImmutable node) (\<lambda>_.
       if childrenLength node = 0 then Inr (None, node)
       else ebind (getChild node idx) (\<lambda>child.
         case child of
           None \<Rightarrow> Inl TypeError
         | Some c \<Rightarrow> emap (\<lambda>node'. (Some (mutable_child c), node')) (setChild node idx (mutable_child c))))"

definition makeLastElementMutable :: "'b AstNode \<Rightarrow> ('b AstNode option \<times> 'b AstNode) result" where
  "makeLastElementMutable node = makeElementMutable (childrenLength node - 1) node"

definition makeFirstElementMutable :: "'b AstNode \<Rightarrow> ('b AstNode option \<times> 'b AstNode) result" where
  "makeFirstElementMutable node = makeElementMutable 0 node"

fun handleChildrenChanged :: "'b AstNode \<Rightarrow> 'b AstNode result" where
  "handleChildrenChanged (TwoThreeListNode i l ht x y z s) =
     (if i then Inl PlainError
      else
        let (l', s') = sum_nodes (y # (case z of None \<Rightarrow> [] | Some n \<Rightarrow> [n])) (ast_length x) (missingOpeningBracketIds x)
        in Inr (TwoThreeListNode i l' ht x y z s'))"
| "handleChildrenChanged (ArrayListNode i l ht xs s) =
     (if i then Inl PlainError
      else case xs of
        [] \<Rightarrow> Inl TypeError
      | n # ns \<Rightarrow>
          let (l', s') = sum_nodes ns (ast_length n) (missingOpeningBracketIds n)
          in Inr (ArrayListNode i l' ht xs s'))"
| "handleChildrenChanged _ = Inl TypeError"

fun appendChildOfSameHeight :: "'b AstNode \<Rightarrow> 'b AstNode \<Rightarrow> 'b AstNode result" where
  "appendChildOfSameHeight (TwoThreeListNode i l ht x y z s) n =
     (if z \<noteq> None then Inl PlainError
      else if i then Inl PlainError
      else handleChildrenChanged (TwoThreeListNode i l ht x y (Some n) s))"
| "appendChildOfSameHeight (ArrayListNode i l ht xs s) n =
     (if i then Inl PlainError else handleChildrenChanged (ArrayListNode i l ht (xs @ [n]) s))"
| "appendChildOfSameHeight _ n = Inl TypeError"

fun unappendChild :: "'b AstNode \<Rightarrow> ('b AstNode option \<times> 'b AstNode) result" where
  "unappendChild (TwoThreeListNode i l ht x y z s) =
     (if z = None then Inl PlainError
      else if i then Inl PlainError
      else emap (\<lambda>node. (z, node)) (handleChildrenChanged (TwoThreeListNode i l ht x y None s)))"
| "unappendChild (ArrayListNode i l ht xs s) =
     (if i then Inl PlainError
      else emap (\<lambda>node. (if xs = [] then None else Some (last xs), node))
        (handleChildrenChanged (ArrayListNode i l ht (butlast xs) s)))"
| "unappendChild _ = Inl TypeError"

fun prependChildOfSameHeight :: "'b AstNode \<Rightarrow> 'b AstNode \<Rightarrow> 'b AstNode result" where
  "prependChildOfSameHeight (TwoThreeListNode i l ht x y z s) n =
     (if z \<noteq> None then Inl PlainError
      else if i then Inl PlainError
      else handleChildrenChanged (TwoThreeListNode i l ht n x (Some y) s))"
| "prependChildOfSameHeight (ArrayListNode i l ht xs s) n =
     (if i then Inl PlainError else handleChildrenChanged (ArrayListNode i l ht (n # xs) s))"
| "prependChildOfSameHeight _ n = Inl TypeError"

fun unprependChild :: "'b AstNode \<Rightarrow> ('b AstNode option \<times> 'b AstNode) result" where
  "unprependChild (TwoThreeListNode i l ht x y z s) =
     (case z of
        None \<Rightarrow> Inl PlainError
      | Some n \<Rightarrow>
          if i then Inl PlainError
          else emap (\<lambda>node. (Some x, node)) (handleChildrenChanged (TwoThreeListNode i l ht y n None s)))"
| "unprependChild (ArrayListNode i l ht xs s) =
     (if i then Inl PlainError
      else emap (\<lambda>node. (if xs = [] then None else Some (hd xs), node))
        (handleChildrenChanged (ArrayListNode i l ht (tl xs) s)))"
| "unprependChild _ = Inl TypeError"

section \<open>Reuse, flattening and cloning\<close>

lemma size_last [termination_simp]: "xs \<noteq> [] \<Longrightarrow> size (last xs) < size_list size xs"
  by (induction xs) auto

fun last_child :: "'b AstNode \<Rightarrow> 'b AstNode result" where
  "last_child (TwoThreeListNode i l ht x y z s) = (case z of None \<Rightarrow> last_child y | Some n \<Rightarrow> last_child n)"
| "last_child (ArrayListNode i l ht xs s) = (if xs = [] then Inl BugIndicatingError else last_child (last xs))"
| "last_child n = Inr n"

text \<open>\<open>canBeReused\<close> of the nodes that are not lists\<close>

fun leaf_canBeReused :: "SmallImmutableSet \<Rightarrow> 'b AstNode \<Rightarrow> bool" where
  "leaf_canBeReused openBracketIds (TextNode l) = True"
| "leaf_canBeReused openBracketIds (BracketNode b) = False"
| "leaf_canBeReused openBracketIds (InvalidBracketNode s l) = (\<not> SmallImmutableSet_intersects openBracketIds s)"
| "leaf_canBeReused openBracketIds (PairNode l b c d s) =
     (if d = None then False
      else if SmallImmutableSet_intersects openBracketIds s then False
      else True)"
| "leaf_canBeReused openBracketIds n = False"

definition canBeReused :: "SmallImmutableSet \<Rightarrow> 'b AstNode \<Rightarrow> bool result" where
  "canBeReused openBracketIds n =
     (if ast_kind n \<noteq> ListKind then Inr (leaf_canBeReused openBracketIds n)
      else if SmallImmutableSet_intersects openBracketIds (missingOpeningBracketIds n) then Inr False
      else if childrenLength n = 0 then Inr False
      else emap (leaf_canBeReused openBracketIds) (last_child n))"

text \<open>\<open>normalized.kind === AstNodeKind.List ? normalized.children : [normalized]\<close>\<close>

definition spread_list :: "'b AstNode \<Rightarrow> 'b AstNode list" where
  "spread_list n = (if ast_kind n = ListKind then ast_children n else [n])"

fun flattenLists :: "'b AstNode \<Rightarrow> 'b AstNode" where
  "flattenLists (PairNode l b c d s) = PairAstNode_create b (map_option flattenLists c) d"
| "flattenLists (TwoThreeListNode i l ht x y z s) =
     ListAstNode_create (spread_list (flattenLists x) @ spread_list (flattenLists y) @
       (case z of None \<Rightarrow> [] | Some n \<Rightarrow> spread_list (flattenLists n))) False"
| "flattenLists (ArrayListNode i l ht xs s) = ListAstNode_create (concat (map (\<lambda>n. spread_list (flattenLists n)) xs)) False"
| "flattenLists n = n"

fun deepClone :: "'b AstNode \<Rightarrow> 'b AstNode" where
  "deepClone (PairNode l b c d s) = PairNode l b (map_option deepClone c) d s"
| "deepClone (TwoThreeListNode i l ht x y z s) =
     TwoThreeListNode False l ht (deepClone x) (deepClone y) (map_option deepClone z) s"
| "deepClone (ArrayListNode i l ht xs s) = ArrayListNode False l ht (map deepClone xs) s"
| "deepClone n = n"

section \<open>Well-formed trees\<close>

text \<open>
  The list nodes of the tree are (2,3)-nodes over children of the same height, and every node
  stores the sum of the lengths and the union of the missing brackets of its children.
\<close>

fun ast_ok :: "'b AstNode \<Rightarrow> bool" where
  "ast_ok (PairNode l b c d s) \<longleftrightarrow> (case c of None \<Rightarrow> True | Some n \<Rightarrow> ast_ok n) \<and>
     l = ast_length (PairAstNode_create b c d) \<and> s = missingOpeningBracketIds (PairAstNode_create b c d)"
| "ast_ok (TwoThreeListNode i l ht x y z s) \<longleftrightarrow> ast_ok x \<and> ast_ok y \<and> listHeight y = listHeight x \<and>
     (case z of None \<Rightarrow> True | Some n \<Rightarrow> ast_ok n \<and> listHeight n = listHeight x) \<and> ht = Suc (listHeight x) \<and>
     (l, s) = sum_nodes (y # (case z of None \<Rightarrow> [] | Some n \<Rightarrow> [n])) (ast_length x) (missingOpeningBracketIds x)"
| "ast_ok (ArrayListNode i l ht xs s) \<longleftrightarrow> False"
| "ast_ok n \<longleftrightarrow> True"

text \<open>The sequence of nodes that a (2,3)-tree stands for\<close>

fun list_items :: "'b AstNode \<Rightarrow> 'b AstNode list" where
  "list_items (TwoThreeListNode i l ht x y z s) =
     list_items x @ list_items y @ (case z of None \<Rightarrow> [] | Some n \<Rightarrow> list_items n)"
| "list_items (ArrayListNode i l ht xs s) = concat (map list_items xs)"
| "list_items n = [n]"

text \<open>The lengths of the leaves, the brackets of pairs included\<close>

fun leaf_lengths :: "'b AstNode \<Rightarrow> Length list" where
  "leaf_lengths (TextNode l) = [l]"
| "leaf_lengths (BracketNode b) = [bracket_length b]"
| "leaf_lengths (InvalidBracketNode s l) = [l]"
| "leaf_lengths (PairNode l b c d s) =
     bracket_length b # (case c of None \<Rightarrow> [] | Some n \<Rightarrow> leaf_lengths n) @ (case d of None \<Rightarrow> [] | Some e \<Rightarrow> [bracket_length e])"
| "leaf_lengths (TwoThreeListNode i l ht x y z s) =
     leaf_lengths x @ leaf_lengths y @ (case z of None \<Rightarrow> [] | Some n \<Rightarrow> leaf_lengths n)"
| "leaf_lengths (ArrayListNode i l ht xs s) = concat (map leaf_lengths xs)"

lemma leaf_lengths_items: "leaf_lengths n = concat (map leaf_lengths (list_items n))"
proof (induction n)
  case (ArrayListNode i l ht xs s)
  then show ?case by (induction xs) auto
qed (auto split: option.split)

definition option_items :: "'b AstNode option \<Rightarrow> 'b AstNode list" where
  "option_items z = (case z of None \<Rightarrow> [] | Some n \<Rightarrow> list_items n)"

lemma create23_ok:
  assumes "ast_ok a" "ast_ok b" "listHeight b = listHeight a"
    "\<And>n. c = Some n \<Longrightarrow> ast_ok n \<and> listHeight n = listHeight a"
  shows "\<exists>n. ListAstNode_create23 a b c immutable = Inr n \<and> ast_ok n \<and> listHeight n = Suc (listHeight a) \<and>
    ast_kind n = ListKind \<and> list_items n = list_items a @ list_items b @ option_items c"
  using assms by (auto simp: ListAstNode_create23_def Let_def option_items_def split: option.split)

lemma ast_ok_height: "ast_ok n \<Longrightarrow> 0 < listHeight n \<longleftrightarrow> ast_kind n = ListKind"
  by (cases n) auto

lemma ast_ok_list:
  assumes "ast_ok n" "ast_kind n = ListKind"
  obtains i l ht x y z s where "n = TwoThreeListNode i l ht x y z s"
  using assms by (cases n) auto

lemma mutable_child_simps:
  assumes "ast_ok n"
  shows "ast_ok (mutable_child n)" "listHeight (mutable_child n) = listHeight n" "list_items (mutable_child n) = list_items n"
    "ast_kind (mutable_child n) = ast_kind n" "throwIfImmutable (mutable_child n) = Inr ()" "size (mutable_child n) = size n"
    "ast_length (mutable_child n) = ast_length n" "missingOpeningBracketIds (mutable_child n) = missingOpeningBracketIds n"
  using assms by (cases n; auto simp: mutable_child_def)+

lemma size_mutable_child: "size (mutable_child n) = size n"
  by (cases n) (simp_all add: mutable_child_def)

section \<open>The length of a tree\<close>

lemma ast_ok_leaf_length:
  "ast_ok n \<Longrightarrow> lengths_fit (leaf_lengths n) \<Longrightarrow> ast_length n = total_length (leaf_lengths n)"
proof (induction n)
  case (PairNode l b c d s)
  have pair: "l = ast_length (PairAstNode_create b c d)" using PairNode.prems(1) by simp
  let ?c = "case c of None \<Rightarrow> [] | Some n \<Rightarrow> leaf_lengths n" and ?d = "case d of None \<Rightarrow> [] | Some e \<Rightarrow> [bracket_length e]"
  have fit: "lengths_fit (([bracket_length b] @ ?c) @ ?d)" using PairNode.prems(2) by simp
  note fit2 = conjunct1 [OF lengths_fit_append [OF fit]]
  have c: "ast_length n = total_length (leaf_lengths n)" if "c = Some n" for n
    using PairNode that lengths_fit_append [OF fit2] by auto
  have nn: "0 \<le> bracket_length b" using fit2 by (simp add: lengths_fit_def)
  have dnn: "0 \<le> bracket_length e" if "d = Some e" for e using fit that by (simp add: lengths_fit_def)
  have "total_length ([bracket_length b] @ ?c) = (case c of None \<Rightarrow> bracket_length b | Some n \<Rightarrow> lengthAdd (bracket_length b) (ast_length n))"
    using total_append [OF fit2] nn c by (auto split: option.split)
  then have "l = total_length (([bracket_length b] @ ?c) @ ?d)"
    unfolding pair total_append [OF fit] using dnn nn by (auto simp: PairAstNode_create_def Let_def split: option.split)
  then show ?case by simp
next
  case (TwoThreeListNode i l ht x y z s)
  let ?z = "case z of None \<Rightarrow> [] | Some n \<Rightarrow> leaf_lengths n"
  have fit: "lengths_fit ((leaf_lengths x @ leaf_lengths y) @ ?z)" using TwoThreeListNode.prems(2) by simp
  note fit2 = conjunct1 [OF lengths_fit_append [OF fit]]
  have xy: "ast_length x = total_length (leaf_lengths x)" "ast_length y = total_length (leaf_lengths y)"
    using TwoThreeListNode lengths_fit_append [OF fit2] by auto
  have z: "ast_length n = total_length (leaf_lengths n)" if "z = Some n" for n
    using TwoThreeListNode that lengths_fit_append [OF fit] by auto
  have "l = total_length ((leaf_lengths x @ leaf_lengths y) @ ?z)"
    unfolding total_append [OF fit] total_append [OF fit2]
    using TwoThreeListNode.prems(1) xy z by (auto split: option.splits)
  then show ?case by simp
qed (auto simp: lengths_fit_def)

text \<open>The missing opening brackets: those of the unexpected closing brackets\<close>

fun missing_ids :: "'b AstNode \<Rightarrow> nat \<Rightarrow> bool" where
  "missing_ids (InvalidBracketNode s l) k = SmallImmutableSet_has s k"
| "missing_ids (PairNode l b c d s) k = (case c of None \<Rightarrow> False | Some n \<Rightarrow> missing_ids n k)"
| "missing_ids (TwoThreeListNode i l ht x y z s) k =
     (missing_ids x k \<or> missing_ids y k \<or> (case z of None \<Rightarrow> False | Some n \<Rightarrow> missing_ids n k))"
| "missing_ids (ArrayListNode i l ht xs s) k = (\<exists>n \<in> set xs. missing_ids n k)"
| "missing_ids n k = False"

lemma missing_ids_items: "missing_ids n k \<longleftrightarrow> (\<exists>m \<in> set (list_items n). missing_ids m k)"
proof (induction n)
  case (TwoThreeListNode i l ht x y z s)
  then show ?case by (cases z) (simp_all add: bex_Un)
next
  case (ArrayListNode i l ht xs s)
  then show ?case by (induction xs) (simp_all add: bex_Un)
qed simp_all

lemma ast_ok_missing: "ast_ok n \<Longrightarrow> SmallImmutableSet_has (missingOpeningBracketIds n) k \<longleftrightarrow> missing_ids n k"
proof (induction n)
  case (PairNode l b c d s)
  then show ?case by (auto simp: PairAstNode_create_def Let_def bracket_ids.has_empty split: option.splits)
qed (auto simp: bracket_ids.has_empty bracket_ids.has_merge split: option.splits)

lemma ast_ok_items: "ast_ok n \<Longrightarrow> list_items n \<noteq> [] \<and> (\<forall>m \<in> set (list_items n). ast_ok m \<and> ast_kind m \<noteq> ListKind)"
proof (induction n)
  case (TwoThreeListNode i l ht x y z s)
  have parts: "ast_ok x" "ast_ok y" "\<And>n. z = Some n \<Longrightarrow> ast_ok n" using TwoThreeListNode.prems by (cases z; simp)+
  have "\<forall>m \<in> set (case z of None \<Rightarrow> [] | Some n \<Rightarrow> list_items n). ast_ok m \<and> ast_kind m \<noteq> ListKind"
    using TwoThreeListNode.IH(3) parts(3) by (cases z) auto
  with TwoThreeListNode.IH(1) [OF parts(1)] TwoThreeListNode.IH(2) [OF parts(2)] show ?case by auto
qed auto

lemma ast_ok_height_bounds:
  "ast_ok n \<Longrightarrow> 2 ^ listHeight n \<le> length (list_items n) \<and> length (list_items n) \<le> 3 ^ listHeight n"
proof (induction n)
  case (TwoThreeListNode i l ht x y z s)
  from TwoThreeListNode.prems have ht: "ht = Suc (listHeight x)" "listHeight y = listHeight x" by auto
  have xy: "2 ^ listHeight x \<le> length (list_items x)" "length (list_items x) \<le> 3 ^ listHeight x"
      "2 ^ listHeight x \<le> length (list_items y)" "length (list_items y) \<le> 3 ^ listHeight x"
    using TwoThreeListNode by auto
  show ?case
  proof (cases z)
    case None
    with xy ht show ?thesis by simp
  next
    case (Some n)
    then have "length (list_items n) \<le> 3 ^ listHeight x" using TwoThreeListNode by auto
    with Some xy ht show ?thesis by simp
  qed
qed auto

end
