(* ===== verification/Concat23.thy ===== *)
theory Concat23
  imports BracketAst
begin

text \<open>
  Model of \<open>model/bracketPairsTextModelPart/bracketPairsTree/concat23Trees.ts\<close>: concatenation of
  (2,3)-trees of any heights.

  \<open>append\<close> and \<open>prepend\<close> walk down one spine of the tree, make its nodes mutable, and change them
  on the way back. Here the walk is a recursion that returns the changed node and what is left to
  insert in the parent; the source changes the child in place, here it is written back.
\<close>

section \<open>Trees of the same height\<close>

text \<open>One pass of the loop that creates the parents of the first \<open>length\<close> items\<close>

fun pair_level :: "bool \<Rightarrow> 'b AstNode list \<Rightarrow> 'b AstNode list result" where
  "pair_level immutable [a, b, c] = emap (\<lambda>n. [n]) (ListAstNode_create23 a b (Some c) immutable)"
| "pair_level immutable (a # b # items) =
     ebind (ListAstNode_create23 a b None immutable) (\<lambda>n. emap (\<lambda>ns. n # ns) (pair_level immutable items))"
| "pair_level immutable items = Inr []"

lemma pair_level_length: "pair_level immutable items = Inr ns \<Longrightarrow> length ns = length items div 2"
  by (induction immutable items arbitrary: ns rule: pair_level.induct) (auto simp: result_iffs)

function same_height_loop :: "bool \<Rightarrow> 'b AstNode list \<Rightarrow> 'b AstNode result" where
  "same_height_loop immutable items =
     (if length items > 3 then
        (case pair_level immutable items of Inl e \<Rightarrow> Inl e | Inr ns \<Rightarrow> same_height_loop immutable ns)
      else case items of
        [a, b] \<Rightarrow> ListAstNode_create23 a b None immutable
      | [a, b, c] \<Rightarrow> ListAstNode_create23 a b (Some c) immutable
      | _ \<Rightarrow> Inl TypeError)"
  by pat_completeness auto
termination same_height_loop
  by (relation "measure (\<lambda>(i, items). length items)") (auto dest: pair_level_length)

declare same_height_loop.simps [simp del]

definition concat23TreesOfSameHeight :: "'b AstNode list \<Rightarrow> bool \<Rightarrow> 'b AstNode option result" where
  "concat23TreesOfSameHeight items createImmutableLists =
     (case items of
        [] \<Rightarrow> Inr None
      | [x] \<Rightarrow> Inr (Some x)
      | _ \<Rightarrow> emap Some (same_height_loop createImmutableLists items))"

section \<open>Insertion at the end and at the start\<close>

text \<open>What the way back does at a node of the right spine\<close>

definition append_up :: "'b AstNode \<Rightarrow> 'b AstNode option \<Rightarrow> ('b AstNode \<times> 'b AstNode option) result" where
  "append_up parent nodeToAppendOfCorrectHeight =
     (case nodeToAppendOfCorrectHeight of
        Some n \<Rightarrow>
          if childrenLength parent \<ge> 3 then
            ebind (unappendChild parent) (\<lambda>(child, parent').
              case child of
                None \<Rightarrow> Inl TypeError
              | Some c \<Rightarrow> emap (\<lambda>m. (parent', Some m)) (ListAstNode_create23 c n None False))
          else emap (\<lambda>parent'. (parent', None)) (appendChildOfSameHeight parent n)
      | None \<Rightarrow> emap (\<lambda>parent'. (parent', None)) (handleChildrenChanged parent))"

lemma makeElementMutable_size:
  "makeElementMutable idx node = Inr (Some child, parent) \<Longrightarrow> size child < size node"
proof -
  assume "makeElementMutable idx node = Inr (Some child, parent)"
  then obtain c where c: "getChild node idx = Inr (Some c)" "child = mutable_child c"
    and list: "\<exists>node'. setChild node idx (mutable_child c) = Inr node'"
    by (auto simp: makeElementMutable_def result_iffs split: if_splits option.splits)
  show ?thesis
  proof (cases node)
    case (ArrayListNode i l ht xs s)
    then have "c \<in> set xs" using c(1) by (auto split: if_splits)
    then show ?thesis using ArrayListNode c(2) size_list_estimation' [of c xs "size c" size] by (simp add: size_mutable_child)
  qed (use c list in \<open>auto simp: size_mutable_child split: if_splits\<close>)
qed

function append_spine :: "'b AstNode \<Rightarrow> 'b AstNode \<Rightarrow> ('b AstNode \<times> 'b AstNode option) result" where
  "append_spine curNode nodeToAppend =
     (if listHeight nodeToAppend = listHeight curNode then Inr (curNode, Some nodeToAppend)
      else if ast_kind curNode \<noteq> ListKind then Inl PlainError
      else case makeLastElementMutable curNode of
        Inl e \<Rightarrow> Inl e
      | Inr (None, parent) \<Rightarrow> Inl TypeError
      | Inr (Some child, parent) \<Rightarrow>
          ebind (append_spine child nodeToAppend) (\<lambda>(child', carry).
            ebind (setChild parent (childrenLength parent - 1) child') (\<lambda>parent'. append_up parent' carry)))"
  by pat_completeness auto
termination append_spine
  by (relation "measure (\<lambda>(c, n). size c)") (auto simp: makeLastElementMutable_def dest: makeElementMutable_size)

declare append_spine.simps [simp del]

definition concat23_append :: "'b AstNode \<Rightarrow> 'b AstNode \<Rightarrow> 'b AstNode result" where
  "concat23_append l nodeToAppend =
     ebind (toMutable l) (\<lambda>l. ebind (append_spine l nodeToAppend) (\<lambda>(l, nodeToAppendOfCorrectHeight).
       case nodeToAppendOfCorrectHeight of
         Some n \<Rightarrow> ListAstNode_create23 l n None False
       | None \<Rightarrow> Inr l))"

definition prepend_up :: "'b AstNode \<Rightarrow> 'b AstNode option \<Rightarrow> ('b AstNode \<times> 'b AstNode option) result" where
  "prepend_up parent nodeToPrependOfCorrectHeight =
     (case nodeToPrependOfCorrectHeight of
        Some n \<Rightarrow>
          if childrenLength parent \<ge> 3 then
            ebind (unprependChild parent) (\<lambda>(child, parent').
              case child of
                None \<Rightarrow> Inl TypeError
              | Some c \<Rightarrow> emap (\<lambda>m. (parent', Some m)) (ListAstNode_create23 n c None False))
          else emap (\<lambda>parent'. (parent', None)) (prependChildOfSameHeight parent n)
      | None \<Rightarrow> emap (\<lambda>parent'. (parent', None)) (handleChildrenChanged parent))"

function prepend_spine :: "'b AstNode \<Rightarrow> 'b AstNode \<Rightarrow> ('b AstNode \<times> 'b AstNode option) result" where
  "prepend_spine curNode nodeToAppend =
     (if listHeight nodeToAppend = listHeight curNode then Inr (curNode, Some nodeToAppend)
      else if ast_kind curNode \<noteq> ListKind then Inl PlainError
      else case makeFirstElementMutable curNode of
        Inl e \<Rightarrow> Inl e
      | Inr (None, parent) \<Rightarrow> Inl TypeError
      | Inr (Some child, parent) \<Rightarrow>
          ebind (prepend_spine child nodeToAppend) (\<lambda>(child', carry).
            ebind (setChild parent 0 child') (\<lambda>parent'. prepend_up parent' carry)))"
  by pat_completeness auto
termination prepend_spine
  by (relation "measure (\<lambda>(c, n). size c)") (auto simp: makeFirstElementMutable_def dest: makeElementMutable_size)

declare prepend_spine.simps [simp del]

definition concat23_prepend :: "'b AstNode \<Rightarrow> 'b AstNode \<Rightarrow> 'b AstNode result" where
  "concat23_prepend l nodeToAppend =
     ebind (toMutable l) (\<lambda>l. ebind (prepend_spine l nodeToAppend) (\<lambda>(l, nodeToPrependOfCorrectHeight).
       case nodeToPrependOfCorrectHeight of
         Some n \<Rightarrow> ListAstNode_create23 n l None False
       | None \<Rightarrow> Inr l))"

section \<open>Concatenation\<close>

definition heightDiff :: "'b AstNode \<Rightarrow> 'b AstNode \<Rightarrow> int" where
  "heightDiff node1 node2 = \<bar>int (listHeight node1) - int (listHeight node2)\<bar>"

definition concat23 :: "'b AstNode \<Rightarrow> 'b AstNode \<Rightarrow> 'b AstNode result" where
  "concat23 node1 node2 =
     (if listHeight node1 = listHeight node2 then ListAstNode_create23 node1 node2 None False
      else if listHeight node1 > listHeight node2 then concat23_append node1 node2
      else concat23_prepend node2 node1)"

text \<open>\<open>readNode\<close>: the node made of the next items of the same height, and the items behind them\<close>

fun readNode :: "'b AstNode list \<Rightarrow> ('b AstNode option \<times> 'b AstNode list) result" where
  "readNode [] = Inr (None, [])"
| "readNode (x # items) =
     (let same = takeWhile (\<lambda>y. listHeight y = listHeight x) items;
          rest = dropWhile (\<lambda>y. listHeight y = listHeight x) items
      in if same \<noteq> [] then emap (\<lambda>n. (n, rest)) (concat23TreesOfSameHeight (x # same) False)
         else Inr (Some x, rest))"

lemma readNode_length: "readNode items = Inr (Some n, rest) \<Longrightarrow> length rest < length items"
proof (cases items)
  case (Cons x xs)
  assume "readNode items = Inr (Some n, rest)"
  with Cons have "rest = dropWhile (\<lambda>y. listHeight y = listHeight x) xs" by (auto simp: Let_def result_iffs split: if_splits)
  with Cons show ?thesis by (simp add: length_dropWhile_le le_imp_less_Suc)
qed simp

function concat23_loop :: "'b AstNode \<Rightarrow> 'b AstNode \<Rightarrow> 'b AstNode list \<Rightarrow> 'b AstNode result" where
  "concat23_loop first second items =
     (case readNode items of
        Inl e \<Rightarrow> Inl e
      | Inr (None, _) \<Rightarrow> concat23 first second
      | Inr (Some item, rest) \<Rightarrow>
          if heightDiff first second \<le> heightDiff second item
          then ebind (concat23 first second) (\<lambda>n. concat23_loop n item rest)
          else ebind (concat23 second item) (\<lambda>n. concat23_loop first n rest))"
  by pat_completeness auto
termination concat23_loop
  by (relation "measure (\<lambda>(f, s, items). length items)") (auto dest: readNode_length)

declare concat23_loop.simps [simp del]

definition concat23Trees :: "'b AstNode list \<Rightarrow> 'b AstNode option result" where
  "concat23Trees items =
     (case items of
        [] \<Rightarrow> Inr None
      | [x] \<Rightarrow> Inr (Some x)
      | _ \<Rightarrow> ebind (readNode items) (\<lambda>(first, rest).
          case first of
            None \<Rightarrow> Inl TypeError
          | Some f \<Rightarrow> ebind (readNode rest) (\<lambda>(second, rest).
              case second of
                None \<Rightarrow> Inr (Some f)
              | Some s \<Rightarrow> emap Some (concat23_loop f s rest))))"

section \<open>Correctness\<close>

abbreviation items_of :: "'b AstNode list \<Rightarrow> 'b AstNode list" where
  "items_of ns \<equiv> concat (map list_items ns)"

text \<open>A node that stands for a sequence of nodes\<close>

definition stands_for :: "'b AstNode list \<Rightarrow> 'b AstNode result \<Rightarrow> bool" where
  "stands_for xs r \<longleftrightarrow> (\<exists>n. r = Inr n \<and> ast_ok n \<and> list_items n = xs)"

lemma pair_level_ok:
  "\<forall>n \<in> set items. ast_ok n \<and> listHeight n = ht \<Longrightarrow> length items \<noteq> 1 \<Longrightarrow>
     \<exists>ns. pair_level immutable items = Inr ns \<and> (\<forall>n \<in> set ns. ast_ok n \<and> listHeight n = Suc ht) \<and> items_of ns = items_of items"
proof (induction immutable items rule: pair_level.induct, goal_cases)
  case (1 immutable a b c)
  with create23_ok [of a b "Some c" immutable] show ?case by (auto simp: option_items_def)
next
  case (2 immutable a b)
  with create23_ok [of a b None immutable] show ?case by (auto simp: option_items_def)
next
  case (3 immutable a b c d items)
  let ?rest = "c # d # items"
  obtain n where n: "ListAstNode_create23 a b None immutable = Inr n" "ast_ok n" "listHeight n = Suc ht"
      "list_items n = list_items a @ list_items b"
    using create23_ok [of a b None immutable] 3(2) by (auto simp: option_items_def)
  moreover obtain ns where "pair_level immutable ?rest = Inr ns" "\<forall>n \<in> set ns. ast_ok n \<and> listHeight n = Suc ht" "items_of ns = items_of ?rest"
    using 3 by auto
  ultimately show ?case by auto
qed auto

lemma same_height_ok:
  "\<forall>n \<in> set items. ast_ok n \<and> listHeight n = ht \<Longrightarrow> length items \<ge> 2 \<Longrightarrow>
     stands_for (items_of items) (same_height_loop immutable items)"
proof (induction "length items" arbitrary: items ht rule: less_induct)
  case less
  show ?case
  proof (cases "length items > 3")
    case True
    obtain ns where ns: "pair_level immutable items = Inr ns" "\<forall>n \<in> set ns. ast_ok n \<and> listHeight n = Suc ht"
        "items_of ns = items_of items"
      using pair_level_ok [OF less.prems(1), of immutable] True by auto
    with less.hyps [of ns "Suc ht"] True pair_level_length [OF ns(1)] show ?thesis
      by (subst same_height_loop.simps) auto
  next
    case False
    with less.prems(2) consider a b where "items = [a, b]" | a b c where "items = [a, b, c]"
      by (cases items rule: remdups_adj.cases; cases "tl (tl items)"; cases "tl (tl (tl items))") auto
    then show ?thesis
    proof cases
      case (1 a b)
      with less.prems create23_ok [of a b None immutable] show ?thesis
        by (subst same_height_loop.simps) (auto simp: option_items_def stands_for_def)
    next
      case (2 a b c)
      with less.prems create23_ok [of a b "Some c" immutable] show ?thesis
        by (subst same_height_loop.simps) (auto simp: option_items_def stands_for_def)
    qed
  qed
qed

lemma concat23TreesOfSameHeight_ok:
  assumes "\<forall>n \<in> set items. ast_ok n \<and> listHeight n = ht" "items \<noteq> []"
  shows "\<exists>n. concat23TreesOfSameHeight items immutable = Inr (Some n) \<and> ast_ok n \<and> list_items n = items_of items"
proof (cases items rule: remdups_adj.cases)
  case (3 x y xs)
  with same_height_ok [OF assms(1), of immutable] show ?thesis
    by (auto simp: concat23TreesOfSameHeight_def stands_for_def)
qed (use assms in \<open>auto simp: concat23TreesOfSameHeight_def\<close>)

text \<open>The effect of the mutating operations on a well-formed (2,3)-node\<close>

definition mutable_list :: "'b AstNode \<Rightarrow> bool" where
  "mutable_list n \<longleftrightarrow> throwIfImmutable n = Inr ()"

text \<open>What the walk along a spine leaves: a changed node of the same height and a rest of that height\<close>

definition walked :: "'b AstNode \<Rightarrow> ('b AstNode list \<Rightarrow> 'b AstNode list \<Rightarrow> 'b AstNode list) \<Rightarrow> 'b AstNode list \<Rightarrow>
    ('b AstNode \<times> 'b AstNode option) result \<Rightarrow> bool" where
  "walked cur join xs r \<longleftrightarrow> (\<exists>cur' carry. r = Inr (cur', carry) \<and> ast_ok cur' \<and> mutable_list cur' \<and>
     listHeight cur' = listHeight cur \<and> (\<forall>m. carry = Some m \<longrightarrow> ast_ok m \<and> listHeight m = listHeight cur) \<and>
     join (list_items cur') (option_items carry) = xs)"

lemma rebuild_ok:
  assumes "ast_ok x" "ast_ok y" "listHeight y = listHeight x" "\<And>n. z = Some n \<Longrightarrow> ast_ok n \<and> listHeight n = listHeight x"
    "ht = Suc (listHeight x)"
  shows "\<exists>n. handleChildrenChanged (TwoThreeListNode False l ht x y z s) = Inr n \<and> ast_ok n \<and> mutable_list n \<and>
    listHeight n = ht \<and> list_items n = list_items x @ list_items y @ option_items z"
proof -
  obtain l' s' where "sum_nodes (y # (case z of None \<Rightarrow> [] | Some n \<Rightarrow> [n])) (ast_length x) (missingOpeningBracketIds x) = (l', s')"
    by fastforce
  with assms show ?thesis by (auto simp: mutable_list_def option_items_def Let_def split: option.split)
qed

text \<open>The way back, at a mutable node whose changed child is written back\<close>

lemma append_up_ok:
  assumes node: "ast_ok x" "ast_ok y" "listHeight y = listHeight x" "\<And>n. z = Some n \<Longrightarrow> ast_ok n \<and> listHeight n = listHeight x"
    "ht = Suc (listHeight x)"
    and carry: "\<And>m. carry = Some m \<Longrightarrow> ast_ok m \<and> listHeight m = listHeight x"
  shows "\<exists>p c. append_up (TwoThreeListNode False l ht x y z s) carry = Inr (p, c) \<and> ast_ok p \<and> mutable_list p \<and> listHeight p = ht \<and>
    (\<forall>m. c = Some m \<longrightarrow> ast_ok m \<and> listHeight m = ht) \<and>
    list_items p @ option_items c = list_items x @ list_items y @ option_items z @ option_items carry"
proof (cases carry)
  case None
  with rebuild_ok [of x y z ht l s] node show ?thesis by (auto simp: append_up_def option_items_def)
next
  case (Some m)
  show ?thesis
  proof (cases z)
    case None
    with rebuild_ok [of x y "Some m" ht l s] node carry Some show ?thesis by (auto simp: append_up_def option_items_def)
  next
    case (Some n)
    have "ast_ok n" "listHeight n = listHeight x" using node(4) Some by auto
    with carry \<open>carry = Some m\<close> obtain q where
      q: "ListAstNode_create23 n m None False = Inr q" "ast_ok q" "listHeight q = ht" "list_items q = list_items n @ list_items m"
      using create23_ok [of n m None False] node(5) by (auto simp: option_items_def)
    with rebuild_ok [of x y None ht l s] node Some \<open>carry = Some m\<close> show ?thesis
      by (auto simp: append_up_def option_items_def)
  qed
qed

lemma append_spine_ok:
  "ast_ok cur \<Longrightarrow> ast_ok n \<Longrightarrow> listHeight n \<le> listHeight cur \<Longrightarrow> mutable_list cur \<Longrightarrow>
     walked cur (@) (list_items cur @ list_items n) (append_spine cur n)"
proof (induction cur rule: measure_induct_rule [of size])
  case (less cur)
  show ?case
  proof (cases "listHeight n = listHeight cur")
    case True
    with less.prems show ?thesis by (subst append_spine.simps) (auto simp: walked_def option_items_def)
  next
    case False
    with less.prems ast_ok_height [of cur] have list: "ast_kind cur = ListKind" by simp
    with less.prems(1,4) obtain l ht x y z s where cur: "cur = TwoThreeListNode False l ht x y z s"
      by (auto simp: mutable_list_def elim!: ast_ok_list split: if_splits)
    from less.prems(1) have ok: "ast_ok x" "ast_ok y" "listHeight y = listHeight x" "ht = Suc (listHeight x)"
        "\<And>c. z = Some c \<Longrightarrow> ast_ok c \<and> listHeight c = listHeight x" by (auto simp: cur split: option.splits)
    define c where "c = (case z of None \<Rightarrow> y | Some c \<Rightarrow> c)"
    have c: "ast_ok c" "listHeight c = listHeight x" "size c < size cur" using ok by (auto simp: c_def cur split: option.split)
    note mc = mutable_child_simps [OF c(1)]
    have "listHeight n \<le> listHeight (mutable_child c)" using False less.prems(3) ok(4) c(2) mc(2) by (simp add: cur)
    then have "walked (mutable_child c) (@) (list_items (mutable_child c) @ list_items n) (append_spine (mutable_child c) n)"
      using less.IH [of "mutable_child c"] c mc less.prems(2) by (simp add: mutable_list_def)
    then obtain c' carry where IH: "append_spine (mutable_child c) n = Inr (c', carry)" "ast_ok c'" "listHeight c' = listHeight x"
        "\<And>m. carry = Some m \<Longrightarrow> ast_ok m \<and> listHeight m = listHeight x"
        "list_items c' @ option_items carry = list_items c @ list_items n"
      using mc c(2) by (auto simp: walked_def)
    have "append_spine cur n = (case z of
        None \<Rightarrow> append_up (TwoThreeListNode False l ht x c' None s) carry
      | Some _ \<Rightarrow> append_up (TwoThreeListNode False l ht x y (Some c') s) carry)"
      using False list IH(1) by (subst append_spine.simps)
        (auto simp: cur c_def makeLastElementMutable_def makeElementMutable_def split: option.splits)
    with append_up_ok [of x c' None ht carry l s] append_up_ok [of x y "Some c'" ht carry l s] ok IH(2-) show ?thesis
      by (cases z) (fastforce simp: walked_def cur c_def option_items_def)+
  qed
qed

lemma concat23_append_ok:
  assumes "ast_ok a" "ast_ok b" "listHeight b < listHeight a"
  shows "stands_for (list_items a @ list_items b) (concat23_append a b)"
proof -
  have list: "ast_kind a = ListKind" using assms ast_ok_height [of a] by simp
  then have m: "toMutable a = Inr (mutable_child a)" using assms(1) by (cases a) (auto simp: mutable_child_def)
  note mc = mutable_child_simps [OF assms(1)]
  have "walked (mutable_child a) (@) (list_items a @ list_items b) (append_spine (mutable_child a) b)"
    using append_spine_ok [of "mutable_child a" b] mc assms by (simp add: mutable_list_def)
  then obtain a' carry where w: "append_spine (mutable_child a) b = Inr (a', carry)" "ast_ok a'" "listHeight a' = listHeight a"
      "\<And>m. carry = Some m \<Longrightarrow> ast_ok m \<and> listHeight m = listHeight a" "list_items a' @ option_items carry = list_items a @ list_items b"
    using mc(2) by (auto simp: walked_def)
  show ?thesis
  proof (cases carry)
    case None
    with w m show ?thesis by (auto simp: concat23_append_def stands_for_def option_items_def)
  next
    case (Some n)
    with w m create23_ok [of a' n None False] show ?thesis by (auto simp: concat23_append_def stands_for_def option_items_def)
  qed
qed

lemma prepend_up_ok:
  assumes node: "ast_ok x" "ast_ok y" "listHeight y = listHeight x" "\<And>n. z = Some n \<Longrightarrow> ast_ok n \<and> listHeight n = listHeight x"
    "ht = Suc (listHeight x)"
    and carry: "\<And>m. carry = Some m \<Longrightarrow> ast_ok m \<and> listHeight m = listHeight x"
  shows "\<exists>p c. prepend_up (TwoThreeListNode False l ht x y z s) carry = Inr (p, c) \<and> ast_ok p \<and> mutable_list p \<and> listHeight p = ht \<and>
    (\<forall>m. c = Some m \<longrightarrow> ast_ok m \<and> listHeight m = ht) \<and>
    option_items c @ list_items p = option_items carry @ list_items x @ list_items y @ option_items z"
proof (cases carry)
  case None
  with rebuild_ok [of x y z ht l s] node show ?thesis by (auto simp: prepend_up_def option_items_def)
next
  case (Some m)
  show ?thesis
  proof (cases z)
    case None
    with rebuild_ok [of m x "Some y" ht l s] node carry Some show ?thesis by (auto simp: prepend_up_def option_items_def)
  next
    case (Some n)
    have n: "ast_ok n" "listHeight n = listHeight x" using node(4) Some by auto
    from carry \<open>carry = Some m\<close> obtain q where
      q: "ListAstNode_create23 m x None False = Inr q" "ast_ok q" "listHeight q = ht" "list_items q = list_items m @ list_items x"
      using create23_ok [of m x None False] node(1,5) by (auto simp: option_items_def)
    with rebuild_ok [of y n None ht l s] node n Some \<open>carry = Some m\<close> show ?thesis
      by (auto simp: prepend_up_def option_items_def)
  qed
qed

lemma prepend_spine_ok:
  "ast_ok cur \<Longrightarrow> ast_ok n \<Longrightarrow> listHeight n \<le> listHeight cur \<Longrightarrow> mutable_list cur \<Longrightarrow>
     walked cur (\<lambda>xs ys. ys @ xs) (list_items n @ list_items cur) (prepend_spine cur n)"
proof (induction cur rule: measure_induct_rule [of size])
  case (less cur)
  show ?case
  proof (cases "listHeight n = listHeight cur")
    case True
    with less.prems show ?thesis by (subst prepend_spine.simps) (auto simp: walked_def option_items_def)
  next
    case False
    with less.prems ast_ok_height [of cur] have list: "ast_kind cur = ListKind" by simp
    with less.prems(1,4) obtain l ht x y z s where cur: "cur = TwoThreeListNode False l ht x y z s"
      by (auto simp: mutable_list_def elim!: ast_ok_list split: if_splits)
    from less.prems(1) have ok: "ast_ok x" "ast_ok y" "listHeight y = listHeight x" "ht = Suc (listHeight x)"
        "\<And>c. z = Some c \<Longrightarrow> ast_ok c \<and> listHeight c = listHeight x" by (auto simp: cur split: option.splits)
    note mc = mutable_child_simps [OF ok(1)]
    have "listHeight n \<le> listHeight (mutable_child x)" using False less.prems(3) ok(4) mc(2) by (simp add: cur)
    then have "walked (mutable_child x) (\<lambda>xs ys. ys @ xs) (list_items n @ list_items (mutable_child x)) (prepend_spine (mutable_child x) n)"
      using less.IH [of "mutable_child x"] ok(1) mc less.prems(2) by (simp add: mutable_list_def cur)
    then obtain x' carry where IH: "prepend_spine (mutable_child x) n = Inr (x', carry)" "ast_ok x'" "listHeight x' = listHeight x"
        "\<And>m. carry = Some m \<Longrightarrow> ast_ok m \<and> listHeight m = listHeight x"
        "option_items carry @ list_items x' = list_items n @ list_items x"
      using mc by (auto simp: walked_def)
    have "prepend_spine cur n = prepend_up (TwoThreeListNode False l ht x' y z s) carry"
      using False list IH(1) by (subst prepend_spine.simps) (auto simp: cur makeFirstElementMutable_def makeElementMutable_def)
    moreover have "list_items n @ list_items cur = option_items carry @ list_items x' @ list_items y @ option_items z"
      using IH(5) by (simp add: cur option_items_def flip: append_assoc)
    ultimately show ?thesis
      using prepend_up_ok [of x' y z ht carry l s] ok IH(2-4) by (auto simp: walked_def cur)
  qed
qed

lemma concat23_prepend_ok:
  assumes "ast_ok a" "ast_ok b" "listHeight b < listHeight a"
  shows "stands_for (list_items b @ list_items a) (concat23_prepend a b)"
proof -
  have list: "ast_kind a = ListKind" using assms ast_ok_height [of a] by simp
  then have m: "toMutable a = Inr (mutable_child a)" using assms(1) by (cases a) (auto simp: mutable_child_def)
  note mc = mutable_child_simps [OF assms(1)]
  have "walked (mutable_child a) (\<lambda>xs ys. ys @ xs) (list_items b @ list_items a) (prepend_spine (mutable_child a) b)"
    using prepend_spine_ok [of "mutable_child a" b] mc assms by (simp add: mutable_list_def)
  then obtain a' carry where w: "prepend_spine (mutable_child a) b = Inr (a', carry)" "ast_ok a'" "listHeight a' = listHeight a"
      "\<And>m. carry = Some m \<Longrightarrow> ast_ok m \<and> listHeight m = listHeight a" "option_items carry @ list_items a' = list_items b @ list_items a"
    using mc(2) by (auto simp: walked_def)
  show ?thesis
  proof (cases carry)
    case None
    with w m show ?thesis by (auto simp: concat23_prepend_def stands_for_def option_items_def)
  next
    case (Some n)
    with w m create23_ok [of n a' None False] show ?thesis by (auto simp: concat23_prepend_def stands_for_def option_items_def)
  qed
qed

lemma concat23_ok:
  assumes "ast_ok a" "ast_ok b"
  shows "stands_for (list_items a @ list_items b) (concat23 a b)"
proof (cases "listHeight a = listHeight b")
  case True
  with assms create23_ok [of a b None False] show ?thesis by (auto simp: concat23_def stands_for_def option_items_def)
next
  case False
  then consider "listHeight b < listHeight a" | "listHeight a < listHeight b" by linarith
  then show ?thesis using assms concat23_append_ok concat23_prepend_ok by cases (auto simp: concat23_def)
qed

lemma readNode_ok:
  assumes "\<forall>n \<in> set items. ast_ok n"
  shows "items = [] \<and> readNode items = Inr (None, []) \<or>
    (\<exists>n rest. readNode items = Inr (Some n, rest) \<and> ast_ok n \<and> (\<forall>n \<in> set rest. ast_ok n) \<and>
       list_items n @ items_of rest = items_of items)"
proof (cases items)
  case (Cons x xs)
  let ?same = "takeWhile (\<lambda>y. listHeight y = listHeight x) xs" and ?rest = "dropWhile (\<lambda>y. listHeight y = listHeight x) xs"
  have same: "\<forall>n \<in> set (x # ?same). ast_ok n \<and> listHeight n = listHeight x"
    using assms Cons by (auto dest: set_takeWhileD)
  have rest: "\<forall>n \<in> set ?rest. ast_ok n" using assms Cons by (auto dest: set_dropWhileD)
  have "items_of (x # ?same) @ items_of ?rest = items_of items"
    unfolding Cons by (simp flip: concat_append map_append)
  with concat23TreesOfSameHeight_ok [OF same, of False] rest assms Cons show ?thesis by (auto simp: Let_def)
qed simp

lemma concat23_loop_ok:
  "\<forall>n \<in> set items. ast_ok n \<Longrightarrow> ast_ok first \<Longrightarrow> ast_ok second \<Longrightarrow>
     stands_for (list_items first @ list_items second @ items_of items) (concat23_loop first second items)"
proof (induction "length items" arbitrary: items first second rule: less_induct)
  case less
  from readNode_ok [OF less.prems(1)] show ?case
  proof
    assume "items = [] \<and> readNode items = Inr (None, [])"
    then show ?thesis using concat23_ok [OF less.prems(2,3)] by (subst concat23_loop.simps) simp
  next
    assume "\<exists>n rest. readNode items = Inr (Some n, rest) \<and> ast_ok n \<and> (\<forall>n \<in> set rest. ast_ok n) \<and>
       list_items n @ items_of rest = items_of items"
    then obtain n rest where n: "readNode items = Inr (Some n, rest)" "ast_ok n" "\<forall>n \<in> set rest. ast_ok n"
       "list_items n @ items_of rest = items_of items" by blast
    note IH = less.hyps [OF readNode_length [OF n(1)] n(3)]
    obtain fs where fs: "concat23 first second = Inr fs" "ast_ok fs" "list_items fs = list_items first @ list_items second"
      using concat23_ok [OF less.prems(2,3)] by (auto simp: stands_for_def)
    obtain sn where sn: "concat23 second n = Inr sn" "ast_ok sn" "list_items sn = list_items second @ list_items n"
      using concat23_ok [OF less.prems(3) n(2)] by (auto simp: stands_for_def)
    have "stands_for (list_items first @ list_items second @ items_of items) (concat23_loop fs n rest)"
      using IH [OF fs(2) n(2)] fs(3) n(4) by simp
    moreover have "stands_for (list_items first @ list_items second @ items_of items) (concat23_loop first sn rest)"
      using IH [OF less.prems(2) sn(2)] sn(3) n(4) [symmetric] by simp
    ultimately show ?thesis using n(1) fs(1) sn(1) by (subst concat23_loop.simps) auto
  qed
qed

lemma concat23Trees_ok:
  assumes "\<forall>n \<in> set items. ast_ok n" "items \<noteq> []"
  shows "\<exists>n. concat23Trees items = Inr (Some n) \<and> ast_ok n \<and> list_items n = items_of items"
proof (cases items rule: remdups_adj.cases)
  case (3 x y xs)
  obtain f rest where f: "readNode items = Inr (Some f, rest)" "ast_ok f" "\<forall>n \<in> set rest. ast_ok n"
      "list_items f @ items_of rest = items_of items"
    using readNode_ok [OF assms(1)] assms(2) by auto
  show ?thesis
  proof (cases "rest = []")
    case True
    with f 3 show ?thesis by (auto simp: concat23Trees_def)
  next
    case False
    then obtain s rest' where s: "readNode rest = Inr (Some s, rest')" "ast_ok s" "\<forall>n \<in> set rest'. ast_ok n"
        "list_items s @ items_of rest' = items_of rest"
      using readNode_ok [OF f(3)] by auto
    with concat23_loop_ok [OF s(3) f(2) s(2)] f 3 show ?thesis by (auto simp: concat23Trees_def stands_for_def)
  qed
qed (use assms in \<open>auto simp: concat23Trees_def\<close>)

section \<open>What concatenation promises\<close>

text \<open>
  C25: \<open>concat23Trees\<close> of well-formed trees of any heights returns a well-formed (2,3)-tree of all
  their items in order: inner nodes have two or three children of one height and store the length
  and the missing brackets of their children, the height is logarithmic in the number of items,
  the length is the total length of the leaves, and the missing brackets are those of the trees.
\<close>

theorem concat23Trees_correct:
  assumes "\<forall>n \<in> set items. ast_ok n" "items \<noteq> []" "lengths_fit (concat (map leaf_lengths items))"
  shows "\<exists>n. concat23Trees items = Inr (Some n) \<and> ast_ok n \<and> list_items n = concat (map list_items items) \<and>
    2 ^ listHeight n \<le> length (list_items n) \<and> length (list_items n) \<le> 3 ^ listHeight n \<and>
    ast_length n = total_length (concat (map leaf_lengths items)) \<and>
    (\<forall>k. SmallImmutableSet_has (missingOpeningBracketIds n) k \<longleftrightarrow>
      (\<exists>m \<in> set items. SmallImmutableSet_has (missingOpeningBracketIds m) k))"
proof -
  obtain n where n: "concat23Trees items = Inr (Some n)" "ast_ok n" "list_items n = items_of items"
    using concat23Trees_ok [OF assms(1,2)] by blast
  have items: "concat (map leaf_lengths (items_of ms)) = concat (map leaf_lengths ms)" for ms :: "'a AstNode list"
    by (induction ms) (simp_all flip: leaf_lengths_items)
  have "missing_ids n k \<longleftrightarrow> (\<exists>m \<in> set items. \<exists>x \<in> set (list_items m). missing_ids x k)" for k
    using missing_ids_items [of n k] n(3) by simp
  then have "missing_ids n k \<longleftrightarrow> (\<exists>m \<in> set items. missing_ids m k)" for k by (simp flip: missing_ids_items)
  then have miss: "SmallImmutableSet_has (missingOpeningBracketIds n) k \<longleftrightarrow>
      (\<exists>m \<in> set items. SmallImmutableSet_has (missingOpeningBracketIds m) k)" for k
    using assms(1) ast_ok_missing n(2) by (metis (no_types, lifting))
  have "leaf_lengths n = concat (map leaf_lengths items)" using leaf_lengths_items [of n] items [of items] n(3) by simp
  then have "ast_length n = total_length (concat (map leaf_lengths items))" using ast_ok_leaf_length [OF n(2)] assms(3) by simp
  then show ?thesis using n ast_ok_height_bounds [OF n(2)] miss by blast
qed

theorem concat23Trees_correct_witness:
  "\<exists>n. concat23Trees [TextNode 1, TwoThreeListNode False 2 1 (TextNode 1) (TextNode 1 :: unit AstNode) None
       (SmallImmutableSet_merge SmallImmutableSet_getEmpty SmallImmutableSet_getEmpty), TextNode 3] = Inr (Some n) \<and>
     list_items n = [TextNode 1, TextNode 1, TextNode 1, TextNode 3] \<and> ast_length n = 6"
proof -
  let ?items = "[TextNode 1, TwoThreeListNode False 2 1 (TextNode 1) (TextNode 1 :: unit AstNode) None
       (SmallImmutableSet_merge SmallImmutableSet_getEmpty SmallImmutableSet_getEmpty), TextNode 3]"
  have "\<forall>n \<in> set ?items. ast_ok n" by (simp add: lengthAdd_def Let_def length_factor_def)
  moreover have "lengths_fit (concat (map leaf_lengths ?items))" by (simp add: lengths_fit_def cols_def length_factor_def)
  moreover have "total_length (concat (map leaf_lengths ?items)) = 6" by (simp add: lengthAdd_def Let_def length_factor_def)
  ultimately show ?thesis using concat23Trees_correct [of ?items] by auto
qed

end
