(* ===== verification/NodeReader.thy ===== *)
theory NodeReader
  imports BracketAst
begin

text \<open>
  Model of \<open>model/bracketPairsTextModelPart/bracketPairsTree/nodeReader.ts\<close>: the reader that finds, for
  ascending offsets, the longest node of the old tree at an offset that satisfies a predicate.

  The three arrays of the reader are only used as stacks; here the head of a list is the last
  element of the array. \<open>-1\<close> as a child index is \<open>None\<close>. The loop of \<open>readLongestNodeAt\<close> runs with
  fuel; the number of nodes of the tree is always enough.
\<close>

section \<open>The reader\<close>

record 'b NodeReader =
  nr_nextNodes :: "'b AstNode list"
  nr_offsets :: "Length list"
  nr_idxs :: "nat list"
  nr_lastOffset :: Length

definition NodeReader_new :: "'b AstNode \<Rightarrow> 'b NodeReader" where
  "NodeReader_new node = \<lparr>nr_nextNodes = [node], nr_offsets = [lengthZero], nr_idxs = [], nr_lastOffset = lengthZero\<rparr>"

text \<open>\<open>getNextChildIdx(node, start - 1)\<close>\<close>

definition getNextChildIdx :: "'b AstNode \<Rightarrow> nat \<Rightarrow> nat option" where
  "getNextChildIdx node start = List.find (\<lambda>idx. getChild node idx \<noteq> Inr None) [start..<childrenLength node]"

text \<open>Pushing the child of an index\<close>

definition push_child :: "'b AstNode \<Rightarrow> nat \<Rightarrow> Length \<Rightarrow> 'b NodeReader \<Rightarrow> 'b NodeReader result" where
  "push_child parent idx offset r =
     ebind (getChild parent idx) (\<lambda>child. case child of
         None \<Rightarrow> Inl TypeError
       | Some c \<Rightarrow> Inr (r\<lparr>nr_nextNodes := c # nr_nextNodes r, nr_offsets := offset # nr_offsets r, nr_idxs := idx # nr_idxs r\<rparr>))"

function nextNodeAfterCurrent :: "'b NodeReader \<Rightarrow> 'b NodeReader result" where
  "nextNodeAfterCurrent r =
     (let currentOffset = nr_offsets r;
          currentNode = nr_nextNodes r;
          r' = r\<lparr>nr_nextNodes := tl (nr_nextNodes r), nr_offsets := tl (nr_offsets r)\<rparr>
      in case nr_idxs r of
           [] \<Rightarrow> Inr r'
         | idx # idxs \<Rightarrow>
             (case nr_nextNodes r' of
                [] \<Rightarrow> Inl TypeError
              | parent # _ \<Rightarrow>
                  (case getNextChildIdx parent (Suc idx) of
                     Some nextChildIdx \<Rightarrow>
                       (case (currentOffset, currentNode) of
                          (o' # _, n # _) \<Rightarrow> push_child parent nextChildIdx (lengthAdd o' (ast_length n)) (r'\<lparr>nr_idxs := idxs\<rparr>)
                        | _ \<Rightarrow> Inl TypeError)
                   | None \<Rightarrow> nextNodeAfterCurrent (r'\<lparr>nr_idxs := idxs\<rparr>))))"
  by pat_completeness auto
termination nextNodeAfterCurrent
  by (relation "measure (\<lambda>r. length (nr_idxs r))") auto

declare nextNodeAfterCurrent.simps [simp del]

fun read_loop :: "nat \<Rightarrow> Length \<Rightarrow> ('b AstNode \<Rightarrow> bool result) \<Rightarrow> 'b NodeReader \<Rightarrow>
    ('b AstNode option \<times> 'b NodeReader) result option" where
  "read_loop 0 offset predicate r = None"
| "read_loop (Suc fuel) offset predicate r =
     (case (nr_nextNodes r, nr_offsets r) of
        ([], _) \<Rightarrow> Some (Inr (None, r))
      | (_, []) \<Rightarrow> Some (Inl TypeError)
      | (curNode # _, curNodeOffset # _) \<Rightarrow>
          let continue = (\<lambda>r. case r of Inl e \<Rightarrow> Some (Inl e) | Inr r \<Rightarrow> read_loop fuel offset predicate r)
          in if lengthLessThan offset curNodeOffset then Some (Inr (None, r))
             else if lengthLessThan curNodeOffset offset then
               if lengthAdd curNodeOffset (ast_length curNode) \<le> offset then continue (nextNodeAfterCurrent r)
               else (case getNextChildIdx curNode 0 of
                   Some nextChildIdx \<Rightarrow> continue (push_child curNode nextChildIdx curNodeOffset r)
                 | None \<Rightarrow> continue (nextNodeAfterCurrent r))
             else (case predicate curNode of
                 Inl e \<Rightarrow> Some (Inl e)
               | Inr b \<Rightarrow>
                   if b then Some (emap (\<lambda>r. (Some curNode, r)) (nextNodeAfterCurrent r))
                   else (case getNextChildIdx curNode 0 of
                       None \<Rightarrow> Some (emap (\<lambda>r. (None, r)) (nextNodeAfterCurrent r))
                     | Some nextChildIdx \<Rightarrow> continue (push_child curNode nextChildIdx curNodeOffset r))))"

definition readLongestNodeAt :: "nat \<Rightarrow> Length \<Rightarrow> ('b AstNode \<Rightarrow> bool result) \<Rightarrow> 'b NodeReader \<Rightarrow>
    ('b AstNode option \<times> 'b NodeReader) result option" where
  "readLongestNodeAt fuel offset predicate r =
     (if lengthLessThan offset (nr_lastOffset r) then Some (Inl PlainError)
      else read_loop fuel offset predicate (r\<lparr>nr_lastOffset := offset\<rparr>))"

section \<open>Where a node is in a tree\<close>

text \<open>The children of a node by their index, and those before an index\<close>

definition child_at :: "'b AstNode \<Rightarrow> nat \<Rightarrow> 'b AstNode option" where
  "child_at node idx = (if idx < childrenLength node then (case getChild node idx of Inr c \<Rightarrow> c | Inl _ \<Rightarrow> None) else None)"

definition before_child :: "'b AstNode \<Rightarrow> nat \<Rightarrow> 'b AstNode list" where
  "before_child node idx = concat (map (\<lambda>i. case child_at node i of None \<Rightarrow> [] | Some c \<Rightarrow> [c]) [0..<idx])"

inductive node_at :: "'b AstNode \<Rightarrow> Length \<Rightarrow> 'b AstNode \<Rightarrow> bool" for root where
  root: "node_at root lengthZero root"
| child: "node_at root offset parent \<Longrightarrow> child_at parent idx = Some c \<Longrightarrow>
    node_at root (foldl lengthAdd offset (map ast_length (before_child parent idx))) c"

text \<open>The stacks of the reader hold a path of the tree.\<close>

fun reader_path :: "'b AstNode \<Rightarrow> 'b AstNode list \<Rightarrow> Length list \<Rightarrow> nat list \<Rightarrow> bool" where
  "reader_path root [] [] [] \<longleftrightarrow> True"
| "reader_path root [n] [off] [] \<longleftrightarrow> n = root \<and> off = lengthZero"
| "reader_path root (n # p # ns) (off # poff # offs) (i # is) \<longleftrightarrow> child_at p i = Some n \<and>
     off = foldl lengthAdd poff (map ast_length (before_child p i)) \<and> reader_path root (p # ns) (poff # offs) is"
| "reader_path root ns offs is \<longleftrightarrow> False"

definition reader_ok :: "'b AstNode \<Rightarrow> 'b NodeReader \<Rightarrow> bool" where
  "reader_ok root r \<longleftrightarrow> reader_path root (nr_nextNodes r) (nr_offsets r) (nr_idxs r)"

lemma reader_path_node_at:
  "reader_path root ns offs is \<Longrightarrow> ns = n # ns' \<Longrightarrow> offs = off # offs' \<Longrightarrow> node_at root off n"
  by (induction root ns offs "is" arbitrary: n ns' off offs' rule: reader_path.induct) (auto intro: node_at.intros)

lemma getChild_child_at:
  "idx < childrenLength node \<Longrightarrow> getChild node idx = Inr (child_at node idx)"
  by (cases node) (auto simp: child_at_def split: if_splits)

lemma getNextChildIdx_Some:
  assumes "getNextChildIdx node start = Some idx"
  shows "start \<le> idx" "idx < childrenLength node" "\<exists>c. child_at node idx = Some c"
    "\<And>i. start \<le> i \<Longrightarrow> i < idx \<Longrightarrow> child_at node i = None"
proof -
  let ?P = "\<lambda>idx. getChild node idx \<noteq> Inr None" and ?is = "[start..<childrenLength node]"
  from assms obtain j where j: "j < length ?is" "?P (?is ! j)" "idx = ?is ! j" "\<forall>k < j. \<not> ?P (?is ! k)"
    unfolding getNextChildIdx_def find_Some_iff by blast
  then have idx: "idx = start + j" "idx < childrenLength node" by auto
  then show "start \<le> idx" "idx < childrenLength node" by auto
  show "\<exists>c. child_at node idx = Some c" using j(2,3) getChild_child_at [OF idx(2)] by auto
  fix i assume i: "start \<le> i" "i < idx"
  then have "getChild node i = Inr None" using j(4) idx by (auto dest!: spec [of _ "i - start"])
  then show "child_at node i = None" using i idx(2) by (simp add: child_at_def)
qed

lemma getNextChildIdx_None:
  assumes "getNextChildIdx node start = None" "start \<le> i"
  shows "child_at node i = None"
proof (cases "i < childrenLength node")
  case True
  then have "getChild node i = Inr None" using assms by (auto simp: getNextChildIdx_def find_None_iff)
  with getChild_child_at [OF True] show ?thesis by simp
qed (simp add: child_at_def)

lemma before_child_append: "i \<le> j \<Longrightarrow> before_child node j = before_child node i @
    concat (map (\<lambda>k. case child_at node k of None \<Rightarrow> [] | Some c \<Rightarrow> [c]) [i..<j])"
  using upt_add_eq_append [of 0 i "j - i"] by (simp add: before_child_def)

lemma before_child_next:
  assumes "i \<le> j" "\<And>k. i \<le> k \<Longrightarrow> k < j \<Longrightarrow> child_at node k = None"
  shows "before_child node j = before_child node i"
  using assms by (subst before_child_append [OF assms(1)]) auto

lemma before_child_Suc: "child_at node i = Some c \<Longrightarrow> before_child node (Suc i) = before_child node i @ [c]"
  by (simp add: before_child_append [of i "Suc i"])

lemma push_child_ok:
  assumes "reader_path root (p # ns) (poff # offs) is" "child_at p i = Some c"
    "off = foldl lengthAdd poff (map ast_length (before_child p i))"
  shows "push_child p i off (r\<lparr>nr_nextNodes := p # ns, nr_offsets := poff # offs, nr_idxs := is\<rparr>) =
      Inr (r\<lparr>nr_nextNodes := c # p # ns, nr_offsets := off # poff # offs, nr_idxs := i # is\<rparr>)"
    and "reader_path root (c # p # ns) (off # poff # offs) (i # is)"
proof -
  have "i < childrenLength p" using assms(2) by (auto simp: child_at_def split: if_splits)
  with assms show "push_child p i off (r\<lparr>nr_nextNodes := p # ns, nr_offsets := poff # offs, nr_idxs := is\<rparr>) =
      Inr (r\<lparr>nr_nextNodes := c # p # ns, nr_offsets := off # poff # offs, nr_idxs := i # is\<rparr>)"
    by (simp add: push_child_def getChild_child_at)
  show "reader_path root (c # p # ns) (off # poff # offs) (i # is)" using assms by simp
qed

section \<open>Work left\<close>

fun node_count :: "'b AstNode \<Rightarrow> nat" where
  "node_count (PairNode l b c d s) =
     2 + (case c of None \<Rightarrow> 0 | Some n \<Rightarrow> node_count n) + (case d of None \<Rightarrow> 0 | Some _ \<Rightarrow> 1)"
| "node_count (TwoThreeListNode i l ht x y z s) =
     1 + node_count x + node_count y + (case z of None \<Rightarrow> 0 | Some n \<Rightarrow> node_count n)"
| "node_count (ArrayListNode i l ht xs s) = 1 + sum_list (map node_count xs)"
| "node_count n = 1"

text \<open>The nodes of the children from an index on\<close>

definition rest_count :: "'b AstNode \<Rightarrow> nat \<Rightarrow> nat" where
  "rest_count node idx = (\<Sum>i \<in> {idx..<childrenLength node}. case child_at node i of None \<Rightarrow> 0 | Some c \<Rightarrow> node_count c)"

lemma node_count_children: "node_count node = Suc (rest_count node 0)"
proof (cases node)
  case (PairNode l b c d s)
  have "{0..<3} = {0, 1, 2::nat}" by auto
  then show ?thesis by (simp add: PairNode rest_count_def child_at_def split: option.split)
next
  case (TwoThreeListNode i l ht x y z s)
  have "{0..<3} = {0, 1, 2::nat}" "{0..<2} = {0, 1::nat}" by auto
  then show ?thesis by (simp add: TwoThreeListNode rest_count_def child_at_def split: option.split)
next
  case (ArrayListNode i l ht xs s)
  have "rest_count node 0 = (\<Sum>i \<in> {0..<length xs}. node_count (xs ! i))"
    by (simp add: ArrayListNode rest_count_def child_at_def)
  then show ?thesis by (simp add: ArrayListNode sum_list_sum_nth)
qed (simp_all add: rest_count_def)

lemma rest_count_skip:
  assumes "i \<le> j" "\<And>k. i \<le> k \<Longrightarrow> k < j \<Longrightarrow> child_at node k = None"
  shows "rest_count node i = rest_count node j"
proof -
  have "k \<in> {i..<childrenLength node} - {j..<childrenLength node} \<Longrightarrow> child_at node k = None" for k using assms by auto
  then show ?thesis unfolding rest_count_def using assms(1) by (intro sum.mono_neutral_right) auto
qed

lemma rest_count_child: "child_at node i = Some c \<Longrightarrow> rest_count node i = node_count c + rest_count node (Suc i)"
  by (auto simp: rest_count_def child_at_def sum.atLeast_Suc_lessThan split: if_splits)

fun path_work :: "'b AstNode list \<Rightarrow> nat list \<Rightarrow> nat" where
  "path_work (p # ns) (i # is) = rest_count p (Suc i) + path_work ns is"
| "path_work ns is = 0"

definition reader_work :: "'b AstNode list \<Rightarrow> nat list \<Rightarrow> nat" where
  "reader_work ns is = (case ns of [] \<Rightarrow> 0 | n # ns \<Rightarrow> node_count n + path_work ns is)"

lemma node_count_pos: "0 < node_count n"
  by (cases n) auto

section \<open>The reader stays on the tree\<close>

lemma reader_shape:
  assumes "reader_ok root r"
  shows "nr_nextNodes r = [] \<longleftrightarrow> nr_offsets r = []"
  using assms unfolding reader_ok_def by (cases rule: reader_path.cases [of "(root, nr_nextNodes r, nr_offsets r, nr_idxs r)"]) auto

lemma nextNodeAfterCurrent_ok:
  "reader_ok root r \<Longrightarrow> nr_nextNodes r = n # ns \<Longrightarrow>
     \<exists>r'. nextNodeAfterCurrent r = Inr r' \<and> reader_ok root r' \<and> nr_lastOffset r' = nr_lastOffset r \<and>
       reader_work (nr_nextNodes r') (nr_idxs r') \<le> path_work ns (nr_idxs r)"
proof (induction r arbitrary: n ns rule: nextNodeAfterCurrent.induct)
  case (1 r)
  from "1.prems" consider (top) off where "ns = []" "nr_offsets r = [off]" "nr_idxs r = []"
    | (inner) p ns' off poff offs i "is" where "ns = p # ns'" "nr_offsets r = off # poff # offs" "nr_idxs r = i # is"
        "child_at p i = Some n" "off = foldl lengthAdd poff (map ast_length (before_child p i))" "reader_path root (p # ns') (poff # offs) is"
    unfolding reader_ok_def by (cases rule: reader_path.cases [of "(root, nr_nextNodes r, nr_offsets r, nr_idxs r)"]) auto
  then show ?case
  proof cases
    case top
    with "1.prems" show ?thesis
      by (subst nextNodeAfterCurrent.simps) (simp add: reader_ok_def reader_work_def Let_def)
  next
    case inner
    let ?r' = "r\<lparr>nr_nextNodes := p # ns', nr_offsets := poff # offs, nr_idxs := is\<rparr>"
    show ?thesis
    proof (cases "getNextChildIdx p (Suc i)")
      case None
      have eq: "nextNodeAfterCurrent r = nextNodeAfterCurrent ?r'"
        using "1.prems"(2) inner None by (subst nextNodeAfterCurrent.simps) (simp add: Let_def)
      have "reader_ok root ?r'" using inner by (simp add: reader_ok_def)
      with "1.IH" [OF refl refl refl inner(3) _ None] "1.prems"(2) inner obtain r' where
          "nextNodeAfterCurrent ?r' = Inr r'" "reader_ok root r'" "nr_lastOffset r' = nr_lastOffset r"
          "reader_work (nr_nextNodes r') (nr_idxs r') \<le> path_work ns' is" by auto
      with eq inner show ?thesis by simp
    next
      case (Some j)
      note nx = getNextChildIdx_Some [OF Some]
      then obtain c where c: "child_at p j = Some c" by blast
      have "lengthAdd off (ast_length n) = foldl lengthAdd poff (map ast_length (before_child p j))"
        using before_child_next [OF nx(1,4)] before_child_Suc [OF inner(4)] inner(5) by simp
      note push = push_child_ok [OF inner(6) c this]
      have eq: "nextNodeAfterCurrent r = push_child p j (lengthAdd off (ast_length n)) ?r'"
        using "1.prems"(2) inner Some by (subst nextNodeAfterCurrent.simps) (simp add: Let_def)
      have "rest_count p (Suc i) = node_count c + rest_count p (Suc j)"
        using rest_count_skip [OF nx(1,4)] rest_count_child [OF c] by simp
      with push eq inner show ?thesis by (simp add: reader_ok_def reader_work_def)
    qed
  qed
qed

lemma descend_ok:
  assumes "reader_ok root r" "nr_nextNodes r = n # ns" "nr_offsets r = off # offs" "getNextChildIdx n 0 = Some i"
  shows "\<exists>r'. push_child n i off r = Inr r' \<and> reader_ok root r' \<and> nr_lastOffset r' = nr_lastOffset r \<and>
    reader_work (nr_nextNodes r') (nr_idxs r') < reader_work (nr_nextNodes r) (nr_idxs r)"
proof -
  note nx = getNextChildIdx_Some [OF assms(4)]
  obtain c where c: "child_at n i = Some c" using nx(3) by blast
  have "before_child n i = []" using nx(4) by (simp add: before_child_def)
  then have off: "off = foldl lengthAdd off (map ast_length (before_child n i))" by simp
  have path: "reader_path root (n # ns) (off # offs) (nr_idxs r)" using assms(1-3) by (simp add: reader_ok_def)
  note push = push_child_ok [OF path c off]
  have "r = r\<lparr>nr_nextNodes := n # ns, nr_offsets := off # offs, nr_idxs := nr_idxs r\<rparr>" using assms(2,3) by (cases r) simp
  then have "push_child n i off r = Inr (r\<lparr>nr_nextNodes := c # n # ns, nr_offsets := off # off # offs, nr_idxs := i # nr_idxs r\<rparr>)"
    using push(1) [of r] by simp
  moreover have "node_count n = Suc (node_count c + rest_count n (Suc i))"
    using node_count_children [of n] rest_count_skip [OF nx(1,4)] rest_count_child [OF c] by simp
  ultimately show ?thesis using push(2) assms(2) by (simp add: reader_ok_def reader_work_def)
qed

text \<open>Reading with enough fuel, where the predicate does not throw\<close>

lemma read_loop_ok:
  assumes "\<And>n. \<exists>b. predicate n = Inr b"
  shows "reader_ok root r \<Longrightarrow> reader_work (nr_nextNodes r) (nr_idxs r) < fuel \<Longrightarrow>
    \<exists>found r'. read_loop fuel offset predicate r = Some (Inr (found, r')) \<and> reader_ok root r' \<and> nr_lastOffset r' = nr_lastOffset r \<and>
      reader_work (nr_nextNodes r') (nr_idxs r') \<le> reader_work (nr_nextNodes r) (nr_idxs r) \<and>
      (\<forall>n. found = Some n \<longrightarrow> node_at root offset n \<and> predicate n = Inr True \<and>
        reader_work (nr_nextNodes r') (nr_idxs r') < reader_work (nr_nextNodes r) (nr_idxs r))"
proof (induction fuel arbitrary: r)
  case (Suc fuel)
  show ?case
  proof (cases "nr_nextNodes r")
    case Nil
    with Suc.prems show ?thesis by simp
  next
    case (Cons n ns)
    then obtain off offs where off: "nr_offsets r = off # offs" using reader_shape [OF Suc.prems(1)] by (cases "nr_offsets r") auto
    have at: "node_at root off n" using reader_path_node_at [of root] Suc.prems(1) Cons off by (simp add: reader_ok_def)
    have work: "path_work ns (nr_idxs r) < reader_work (nr_nextNodes r) (nr_idxs r)"
      using node_count_pos [of n] by (simp add: reader_work_def Cons)
    obtain b where b: "predicate n = Inr b" using assms by blast
    obtain ra where ra: "nextNodeAfterCurrent r = Inr ra" "reader_ok root ra" "nr_lastOffset ra = nr_lastOffset r"
        "reader_work (nr_nextNodes ra) (nr_idxs ra) < reader_work (nr_nextNodes r) (nr_idxs r)"
      using nextNodeAfterCurrent_ok [OF Suc.prems(1) Cons] work by fastforce
    let ?goal = "\<lambda>found r'. reader_ok root r' \<and> nr_lastOffset r' = nr_lastOffset r \<and>
      reader_work (nr_nextNodes r') (nr_idxs r') \<le> reader_work (nr_nextNodes r) (nr_idxs r) \<and>
      (\<forall>n. found = Some n \<longrightarrow> node_at root offset n \<and> predicate n = Inr True \<and>
        reader_work (nr_nextNodes r') (nr_idxs r') < reader_work (nr_nextNodes r) (nr_idxs r))"
    have continue: "\<exists>found r'. read_loop fuel offset predicate q = Some (Inr (found, r')) \<and> ?goal found r'"
      if "reader_ok root q" "nr_lastOffset q = nr_lastOffset r"
        "reader_work (nr_nextNodes q) (nr_idxs q) < reader_work (nr_nextNodes r) (nr_idxs r)" for q
      using Suc.IH [OF that(1)] that Suc.prems(2) by fastforce
    note after = continue [OF ra(2-4)]
    have down: "\<exists>q. push_child n i off r = Inr q \<and> (\<exists>found r'. read_loop fuel offset predicate q = Some (Inr (found, r')) \<and> ?goal found r')"
      if "getNextChildIdx n 0 = Some i" for i
      using descend_ok [OF Suc.prems(1) Cons off that] continue by blast
    consider (behind) "offset < off" | (skip) "off < offset" "lengthAdd off (ast_length n) \<le> offset"
      | (inside) "off < offset" "\<not> lengthAdd off (ast_length n) \<le> offset" | (here) "off = offset" by linarith
    then show ?thesis
    proof cases
      case behind
      with Suc.prems(1) Cons off show ?thesis by (simp add: lengthLessThan_def)
    next
      case skip
      with Cons off ra(1) after show ?thesis by (simp add: lengthLessThan_def)
    next
      case inside
      with Cons off ra(1) after down show ?thesis
        by (cases "getNextChildIdx n 0") (fastforce simp: lengthLessThan_def)+
    next
      case here
      with Cons off ra at b down show ?thesis
        by (cases b; cases "getNextChildIdx n 0") (fastforce simp: lengthLessThan_def)+
    qed
  qed
qed simp

section \<open>What the reader promises\<close>

definition reader_inv :: "'b AstNode \<Rightarrow> 'b NodeReader \<Rightarrow> bool" where
  "reader_inv root r \<longleftrightarrow> reader_ok root r \<and> reader_work (nr_nextNodes r) (nr_idxs r) \<le> node_count root"

lemma reader_inv_new: "reader_inv root (NodeReader_new root)"
  by (simp add: reader_inv_def NodeReader_new_def reader_ok_def reader_work_def)

lemma readLongestNodeAt_ok:
  assumes "reader_inv root r" "nr_lastOffset r \<le> offset" "node_count root < fuel" "\<And>n. \<exists>b. predicate n = Inr b"
  shows "\<exists>found r'. readLongestNodeAt fuel offset predicate r = Some (Inr (found, r')) \<and> reader_inv root r' \<and>
    nr_lastOffset r' = offset \<and> (\<forall>n. found = Some n \<longrightarrow> node_at root offset n \<and> predicate n = Inr True)"
proof -
  let ?r = "r\<lparr>nr_lastOffset := offset\<rparr>"
  have "reader_ok root ?r" "reader_work (nr_nextNodes ?r) (nr_idxs ?r) < fuel" using assms(1,3) by (auto simp: reader_inv_def reader_ok_def)
  from read_loop_ok [OF assms(4) this, of offset] show ?thesis
    using assms(1,2) by (fastforce simp: readLongestNodeAt_def lengthLessThan_def reader_inv_def)
qed

text \<open>
  C29: For ascending offsets \<open>readLongestNodeAt\<close> returns within as many steps as the tree has nodes,
  and a node it returns is a node of the tree that starts exactly at the offset and satisfies the
  predicate; the reader stays on a path of the tree.
\<close>

theorem readLongestNodeAt_sound:
  assumes "reader_inv root r" "nr_lastOffset r \<le> offset" "node_count root < fuel" "\<And>n. \<exists>b. predicate n = Inr b"
  shows "\<exists>found r'. readLongestNodeAt fuel offset predicate r = Some (Inr (found, r')) \<and> reader_inv root r' \<and>
    nr_lastOffset r' = offset \<and> (\<forall>n. found = Some n \<longrightarrow> node_at root offset n \<and> predicate n = Inr True)"
  using assms by (rule readLongestNodeAt_ok)

theorem readLongestNodeAt_sound_witness:
  "\<exists>found r'. readLongestNodeAt 4 1 (\<lambda>n. Inr (ast_kind n = TextKind)) (NodeReader_new (TwoThreeListNode False 3 1 (TextNode 1)
       (TextNode 2 :: unit AstNode) None SmallImmutableSet_getEmpty)) = Some (Inr (found, r')) \<and> nr_lastOffset r' = 1"
proof -
  let ?root = "TwoThreeListNode False 3 1 (TextNode 1) (TextNode 2 :: unit AstNode) None SmallImmutableSet_getEmpty"
  have "\<exists>found r'. readLongestNodeAt 4 1 (\<lambda>n. Inr (ast_kind n = TextKind)) (NodeReader_new ?root) = Some (Inr (found, r')) \<and>
      reader_inv ?root r' \<and> nr_lastOffset r' = 1 \<and>
      (\<forall>n. found = Some n \<longrightarrow> node_at ?root 1 n \<and> (Inr (ast_kind n = TextKind) :: bool result) = Inr True)"
    by (rule readLongestNodeAt_sound [OF reader_inv_new]) (simp_all add: NodeReader_new_def lengthZero_def)
  then show ?thesis by blast
qed

end
