(* ===== verification/BracketParser.thy ===== *)
theory BracketParser
  imports Concat23 EditMapper NodeReader
begin

text \<open>
  Model of \<open>model/bracketPairsTextModelPart/bracketPairsTree/tokenizer.ts\<close> (tokens, the tokenizer
  interface and \<open>FastTokenizer\<close>) and of \<open>parser.ts\<close>, the incremental parser of brackets.

  The parser works with any tokenizer, given by its methods on a state. It runs with fuel, and
  \<open>None\<close> means that the fuel did not suffice. The matches of the bracket expression in a text are
  a parameter of \<open>FastTokenizer\<close>: the list of their offsets and values that \<open>regexp.exec\<close> finds,
  or \<open>None\<close> when there is no expression.
\<close>

section \<open>Computations\<close>

text \<open>Computations on a state that may throw; \<open>None\<close> when one does not end or runs out of fuel\<close>

type_synonym ('s, 'a) run = "'s \<Rightarrow> ('a \<times> 's) result option"

definition run_return :: "'a \<Rightarrow> ('s, 'a) run" where
  "run_return a s = Some (Inr (a, s))"

definition run_bind :: "('s, 'a) run \<Rightarrow> ('a \<Rightarrow> ('s, 'c) run) \<Rightarrow> ('s, 'c) run" where
  "run_bind m f s = (case m s of None \<Rightarrow> None | Some (Inl e) \<Rightarrow> Some (Inl e) | Some (Inr (a, s')) \<Rightarrow> f a s')"

definition run_result :: "'a result \<Rightarrow> ('s, 'a) run" where
  "run_result r s = Some (emap (\<lambda>a. (a, s)) r)"

section \<open>Tokens\<close>

datatype TokenKind = TextToken | OpeningBracketToken | ClosingBracketToken

record 'b BracketToken =
  tk_length :: Length
  tk_kind :: TokenKind
  tk_bracketId :: int
  tk_bracketIds :: SmallImmutableSet
  tk_astNode :: "'b AstNode option"

definition text_token :: "Length \<Rightarrow> 'b BracketToken" where
  "text_token l = \<lparr>tk_length = l, tk_kind = TextToken, tk_bracketId = -1, tk_bracketIds = SmallImmutableSet_getEmpty,
     tk_astNode = Some (TextNode l)\<rparr>"

text \<open>The interface \<open>Tokenizer\<close>\<close>

record ('t, 'b) Tokenizer =
  tz_offset :: "'t \<Rightarrow> Length"
  tz_read :: "('t, 'b BracketToken option) run"
  tz_peek :: "('t, 'b BracketToken option) run"
  tz_skip :: "Length \<Rightarrow> 't \<Rightarrow> 't result"

section \<open>FastTokenizer\<close>

record 'b FastTokenizer =
  ft_offset :: Length
  ft_tokens :: "'b BracketToken option list"
  ft_idx :: nat
  ft_length :: Length

record 'b fast_state =
  fs_tokens :: "'b BracketToken option list"
  fs_curLineCount :: int
  fs_lastLineBreakOffset :: int
  fs_lastTokenEndOffset :: int
  fs_lastTokenEndLine :: int

text \<open>
  The token of the text between the last token and an offset. The source shares the tokens of short
  texts between its uses; they are immutable.
\<close>

definition fast_text :: "'b fast_state \<Rightarrow> int \<Rightarrow> 'b BracketToken" where
  "fast_text s curOffset =
     (if fs_lastTokenEndLine s = fs_curLineCount s
      then text_token (toLength 0 (curOffset - fs_lastTokenEndOffset s))
      else text_token (toLength (fs_curLineCount s - fs_lastTokenEndLine s) (curOffset - fs_lastLineBreakOffset s)))"

definition fast_push_text :: "'b fast_state \<Rightarrow> int \<Rightarrow> 'b BracketToken option list" where
  "fast_push_text s curOffset =
     (if fs_lastTokenEndOffset s \<noteq> curOffset then fs_tokens s @ [Some (fast_text s curOffset)] else fs_tokens s)"

fun fast_match :: "(js_string \<Rightarrow> 'b BracketToken option) \<Rightarrow> 'b fast_state \<Rightarrow> int \<times> js_string \<Rightarrow> 'b fast_state" where
  "fast_match getToken s (curOffset, v) =
     (if v = [LF]
      then s\<lparr>fs_curLineCount := fs_curLineCount s + 1, fs_lastLineBreakOffset := curOffset + 1\<rparr>
      else s\<lparr>fs_tokens := fast_push_text s curOffset @ [getToken v],
             fs_lastTokenEndOffset := curOffset + int (length v), fs_lastTokenEndLine := fs_curLineCount s\<rparr>)"

definition FastTokenizer_new :: "js_string \<Rightarrow> (int \<times> js_string) list option \<Rightarrow> (js_string \<Rightarrow> 'b BracketToken option) \<Rightarrow> 'b FastTokenizer" where
  "FastTokenizer_new str matches getToken =
     (let s = foldl (fast_match getToken)
            \<lparr>fs_tokens = [], fs_curLineCount = 0, fs_lastLineBreakOffset = 0, fs_lastTokenEndOffset = 0, fs_lastTokenEndLine = 0\<rparr>
            (case matches of None \<Rightarrow> [] | Some ms \<Rightarrow> ms);
          offset = int (length str)
      in \<lparr>ft_offset = lengthZero, ft_tokens = fast_push_text s offset, ft_idx = 0,
           ft_length = toLength (fs_curLineCount s) (offset - fs_lastLineBreakOffset s)\<rparr>)"

text \<open>\<open>this.tokens[this.idx] || null\<close>\<close>

definition token_at :: "'b FastTokenizer \<Rightarrow> 'b BracketToken option" where
  "token_at t = (if ft_idx t < length (ft_tokens t) then ft_tokens t ! ft_idx t else None)"

definition FastTokenizer_read :: "('b FastTokenizer, 'b BracketToken option) run" where
  "FastTokenizer_read t = Some (Inr (token_at t, t\<lparr>ft_idx := ft_idx t + 1\<rparr>))"

definition FastTokenizer_peek :: "('b FastTokenizer, 'b BracketToken option) run" where
  "FastTokenizer_peek t = Some (Inr (token_at t, t))"

definition FastTokenizer_skip :: "Length \<Rightarrow> 'b FastTokenizer \<Rightarrow> 'b FastTokenizer result" where
  "FastTokenizer_skip l t = Inl NotSupportedError"

definition FastTokenizer_methods :: "('b FastTokenizer, 'b) Tokenizer" where
  "FastTokenizer_methods = \<lparr>tz_offset = ft_offset, tz_read = FastTokenizer_read, tz_peek = FastTokenizer_peek, tz_skip = FastTokenizer_skip\<rparr>"

section \<open>The parser\<close>

record ('t, 'b) BracketParser =
  bp_tokenizer :: 't
  bp_oldNodeReader :: "'b NodeReader option"
  bp_positionMapper :: BeforeEditPositionMapper
  bp_createImmutableLists :: bool
  bp_itemsConstructed :: nat
  bp_itemsFromCache :: nat

definition BracketParser_new :: "'t \<Rightarrow> TextEditInfo list \<Rightarrow> 'b AstNode option \<Rightarrow> bool \<Rightarrow> ('t, 'b) BracketParser result" where
  "BracketParser_new tokenizer es oldNode createImmutableLists =
     (if oldNode \<noteq> None \<and> createImmutableLists then Inl PlainError
      else Inr \<lparr>bp_tokenizer = tokenizer, bp_oldNodeReader = map_option NodeReader_new oldNode,
        bp_positionMapper = BeforeEditPositionMapper_new es, bp_createImmutableLists = createImmutableLists,
        bp_itemsConstructed = 0, bp_itemsFromCache = 0\<rparr>)"

definition on_tokenizer :: "('t, 'a) run \<Rightarrow> (('t, 'b) BracketParser, 'a) run" where
  "on_tokenizer m s = map_option (emap (\<lambda>(a, tok). (a, s\<lparr>bp_tokenizer := tok\<rparr>))) (m (bp_tokenizer s))"

definition tokenizer_read :: "('t, 'b) Tokenizer \<Rightarrow> (('t, 'b) BracketParser, 'b BracketToken option) run" where
  "tokenizer_read tz = on_tokenizer (tz_read tz)"

definition tokenizer_peek :: "('t, 'b) Tokenizer \<Rightarrow> (('t, 'b) BracketParser, 'b BracketToken option) run" where
  "tokenizer_peek tz = on_tokenizer (tz_peek tz)"

text \<open>The predicate for the nodes of the old tree that can be used again\<close>

definition reusable :: "Length option \<Rightarrow> SmallImmutableSet \<Rightarrow> 'b AstNode \<Rightarrow> bool result" where
  "reusable maxCacheableLength openedBracketIds curNode =
     (case maxCacheableLength of
        Some l \<Rightarrow> if \<not> lengthLessThan (ast_length curNode) l then Inr False else canBeReused openedBracketIds curNode
      | None \<Rightarrow> canBeReused openedBracketIds curNode)"

definition tryReadChildFromCache :: "('t, 'b) Tokenizer \<Rightarrow> nat \<Rightarrow> SmallImmutableSet \<Rightarrow> (('t, 'b) BracketParser, 'b AstNode option) run" where
  "tryReadChildFromCache tz fuel openedBracketIds s =
     (case bp_oldNodeReader s of
        None \<Rightarrow> Some (Inr (None, s))
      | Some reader \<Rightarrow>
          let offset = tz_offset tz (bp_tokenizer s);
              (maxCacheableLength, mapper) = getDistanceToNextChange (bp_positionMapper s) offset;
              s = s\<lparr>bp_positionMapper := mapper\<rparr>
          in if maxCacheableLength = Some 0 then Some (Inr (None, s))
             else
               let (oldOffset, mapper) = getOffsetBeforeChange mapper offset;
                   s = s\<lparr>bp_positionMapper := mapper\<rparr>
               in case readLongestNodeAt fuel oldOffset (reusable maxCacheableLength openedBracketIds) reader of
                    None \<Rightarrow> None
                  | Some (Inl e) \<Rightarrow> Some (Inl e)
                  | Some (Inr (cachedNode, reader)) \<Rightarrow>
                      let s = s\<lparr>bp_oldNodeReader := Some reader\<rparr>
                      in (case cachedNode of
                            None \<Rightarrow> Some (Inr (None, s))
                          | Some n \<Rightarrow>
                              (case tz_skip tz (ast_length n) (bp_tokenizer s) of
                                 Inl e \<Rightarrow> Some (Inl e)
                               | Inr tok \<Rightarrow> Some (Inr (Some n, s\<lparr>bp_itemsFromCache := bp_itemsFromCache s + 1, bp_tokenizer := tok\<rparr>)))))"

text \<open>The end of \<open>parseList\<close>\<close>

definition finish_list :: "'b AstNode list \<Rightarrow> (('t, 'b) BracketParser, 'b AstNode option) run" where
  "finish_list items s =
     run_result (if bp_oldNodeReader s \<noteq> None then concat23Trees items
       else concat23TreesOfSameHeight items (bp_createImmutableLists s)) s"

text \<open>
  \<open>token.astNode as BracketAstNode\<close> and \<open>token.astNode as TextAstNode\<close>. The casts are not checked:
  without a node, the first access to a field of the result throws, while \<open>PairAstNode.create\<close> takes
  a missing closing bracket as \<open>null\<close>. That a bracket token carries a node that is not a bracket is
  excluded by the tokenizers; the model makes it an error.
\<close>

definition as_bracket :: "'b BracketToken \<Rightarrow> 'b BracketAstNode result" where
  "as_bracket t = (case tk_astNode t of Some (BracketNode b) \<Rightarrow> Inr b | _ \<Rightarrow> Inl TypeError)"

definition as_closing :: "'b BracketToken \<Rightarrow> 'b BracketAstNode option result" where
  "as_closing t = (case tk_astNode t of None \<Rightarrow> Inr None | Some _ \<Rightarrow> emap Some (as_bracket t))"

definition as_text :: "'b BracketToken \<Rightarrow> 'b AstNode result" where
  "as_text t = (case tk_astNode t of Some n \<Rightarrow> Inr n | None \<Rightarrow> Inl TypeError)"

definition closes_list :: "SmallImmutableSet \<Rightarrow> 'b BracketToken option \<Rightarrow> bool" where
  "closes_list openedBracketIds t \<longleftrightarrow> (case t of None \<Rightarrow> True
     | Some t \<Rightarrow> tk_kind t = ClosingBracketToken \<and> SmallImmutableSet_intersects (tk_bracketIds t) openedBracketIds)"

definition closes_pair :: "'b BracketToken \<Rightarrow> 'b BracketToken option \<Rightarrow> bool" where
  "closes_pair token nextToken \<longleftrightarrow> (case nextToken of None \<Rightarrow> False
     | Some t \<Rightarrow> tk_kind t = ClosingBracketToken \<and>
         (tk_bracketId t = tk_bracketId token \<or> SmallImmutableSet_intersects (tk_bracketIds t) (tk_bracketIds token)))"

definition count_constructed :: "(('t, 'b) BracketParser, unit) run" where
  "count_constructed s = Some (Inr ((), s\<lparr>bp_itemsConstructed := bp_itemsConstructed s + 1\<rparr>))"

text \<open>The loop of \<open>parseList\<close>, and \<open>parseChild\<close>\<close>

fun parse_items :: "('t, 'b) Tokenizer \<Rightarrow> nat \<Rightarrow> nat \<Rightarrow> SmallImmutableSet \<Rightarrow> nat \<Rightarrow> 'b AstNode list \<Rightarrow>
    (('t, 'b) BracketParser, 'b AstNode list) run"
  and parseChild :: "('t, 'b) Tokenizer \<Rightarrow> nat \<Rightarrow> nat \<Rightarrow> SmallImmutableSet \<Rightarrow> nat \<Rightarrow> (('t, 'b) BracketParser, 'b AstNode) run"
where
  "parse_items tz rf 0 openedBracketIds level items = (\<lambda>s. None)"
| "parse_items tz rf (Suc fuel) openedBracketIds level items =
     run_bind (tryReadChildFromCache tz rf openedBracketIds) (\<lambda>child.
       let continue = (\<lambda>child. parse_items tz rf fuel openedBracketIds level
             (if ast_kind child = ListKind \<and> childrenLength child = 0 then items else items @ [child]))
       in case child of
            Some c \<Rightarrow> continue c
          | None \<Rightarrow> run_bind (tokenizer_peek tz) (\<lambda>token.
              if closes_list openedBracketIds token then run_return items
              else run_bind (parseChild tz rf fuel openedBracketIds (level + 1)) continue))"
| "parseChild tz rf 0 openedBracketIds level = (\<lambda>s. None)"
| "parseChild tz rf (Suc fuel) openedBracketIds level =
     run_bind count_constructed (\<lambda>_. run_bind (tokenizer_read tz) (\<lambda>token.
       case token of
         None \<Rightarrow> run_result (Inl TypeError)
       | Some token \<Rightarrow>
           (case tk_kind token of
              ClosingBracketToken \<Rightarrow> run_return (InvalidBracketNode (tk_bracketIds token) (tk_length token))
            | TextToken \<Rightarrow> run_result (as_text token)
            | OpeningBracketToken \<Rightarrow>
                if level > 300 then run_return (TextNode (tk_length token))
                else
                  let opened = SmallImmutableSet_merge openedBracketIds (tk_bracketIds token)
                  in run_bind (run_bind (parse_items tz rf fuel opened (level + 1) []) finish_list) (\<lambda>child.
                       run_bind (tokenizer_peek tz) (\<lambda>nextToken.
                         if closes_pair token nextToken then
                           run_bind (tokenizer_read tz) (\<lambda>_.
                             run_bind (run_result (as_bracket token)) (\<lambda>b.
                               run_bind (run_result (as_closing (the nextToken))) (\<lambda>c.
                                 run_return (PairAstNode_create b child c))))
                         else
                           run_bind (run_result (as_bracket token)) (\<lambda>b.
                             run_return (PairAstNode_create b child None)))))))"

definition parseList :: "('t, 'b) Tokenizer \<Rightarrow> nat \<Rightarrow> nat \<Rightarrow> SmallImmutableSet \<Rightarrow> nat \<Rightarrow> (('t, 'b) BracketParser, 'b AstNode option) run" where
  "parseList tz rf fuel openedBracketIds level = run_bind (parse_items tz rf fuel openedBracketIds level []) finish_list"

definition BracketParser_parseDocument :: "('t, 'b) Tokenizer \<Rightarrow> nat \<Rightarrow> nat \<Rightarrow> (('t, 'b) BracketParser, 'b AstNode) run" where
  "BracketParser_parseDocument tz rf fuel s =
     run_bind (parseList tz rf fuel SmallImmutableSet_getEmpty 0) (\<lambda>r.
         run_return (case r of None \<Rightarrow> ListAstNode_getEmpty | Some n \<Rightarrow> n))
       (s\<lparr>bp_itemsConstructed := 0, bp_itemsFromCache := 0\<rparr>)"

definition parseDocument :: "('t, 'b) Tokenizer \<Rightarrow> nat \<Rightarrow> nat \<Rightarrow> 't \<Rightarrow> TextEditInfo list \<Rightarrow> 'b AstNode option \<Rightarrow> bool \<Rightarrow>
    'b AstNode result option" where
  "parseDocument tz rf fuel tokenizer es oldNode createImmutableLists =
     (case BracketParser_new tokenizer es oldNode createImmutableLists of
        Inl e \<Rightarrow> Some (Inl e)
      | Inr s \<Rightarrow> map_option (emap fst) (BracketParser_parseDocument tz rf fuel s))"

end
