(* ===== verification/BracketParsing.thy ===== *)
theory BracketParsing
  imports BracketParser
begin

text \<open>
  The parser of \<open>parser.ts\<close> without an old tree, against a stack machine: every closing bracket closes
  the innermost open bracket that it matches and leaves the brackets opened since then unclosed, a
  closing bracket without a match is unexpected, and an opening bracket at depth 150 is text.

  The locale \<open>token_stream\<close> states what the parser relies on of a tokenizer.
\<close>

section \<open>Trees of brackets\<close>

datatype 'b bracket_tree =
    LeafTree "'b AstNode"
  | PairTree "'b BracketAstNode" "'b bracket_tree list" "'b BracketAstNode option"

text \<open>The trees of a node, without the shape of its lists\<close>

fun bracket_trees :: "'b AstNode \<Rightarrow> 'b bracket_tree list" where
  "bracket_trees (PairNode l b c d s) = [PairTree b (case c of None \<Rightarrow> [] | Some n \<Rightarrow> bracket_trees n) d]"
| "bracket_trees (TwoThreeListNode i l ht x y z s) =
     bracket_trees x @ bracket_trees y @ (case z of None \<Rightarrow> [] | Some n \<Rightarrow> bracket_trees n)"
| "bracket_trees (ArrayListNode i l ht xs s) = concat (map bracket_trees xs)"
| "bracket_trees n = [LeafTree n]"

lemma bracket_trees_items: "bracket_trees n = concat (map bracket_trees (list_items n))"
proof (induction n)
  case (ArrayListNode i l ht xs s)
  then show ?case by (induction xs) auto
qed (auto split: option.split)

section \<open>Tokens\<close>

text \<open>What the doc comments of \<open>Token\<close> promise\<close>

definition token_bracket :: "'b BracketToken \<Rightarrow> 'b BracketAstNode" where
  "token_bracket t = (case tk_astNode t of Some (BracketNode b) \<Rightarrow> b)"

definition token_ok :: "'b BracketToken \<Rightarrow> bool" where
  "token_ok t \<longleftrightarrow>
     (if tk_kind t = TextToken then tk_astNode t = Some (TextNode (tk_length t))
      else (case tk_astNode t of Some (BracketNode b) \<Rightarrow> bracket_length b = tk_length t | _ \<Rightarrow> False) \<and>
        0 \<le> tk_bracketId t \<and> SmallImmutableSet_has (tk_bracketIds t) (nat (tk_bracketId t)))"

definition token_matches :: "'b BracketToken \<Rightarrow> 'b BracketToken \<Rightarrow> bool" where
  "token_matches closing opening \<longleftrightarrow> SmallImmutableSet_intersects (tk_bracketIds closing) (tk_bracketIds opening)"

lemma token_ok_bracket:
  assumes "token_ok t" "tk_kind t \<noteq> TextToken"
  shows "as_bracket t = Inr (token_bracket t)" "as_closing t = Inr (Some (token_bracket t))"
    "bracket_length (token_bracket t) = tk_length t"
  using assms
  by (auto simp: token_ok_def as_bracket_def as_closing_def token_bracket_def split: option.splits AstNode.splits if_splits)

lemma token_ok_text: "token_ok t \<Longrightarrow> tk_kind t = TextToken \<Longrightarrow> as_text t = Inr (TextNode (tk_length t))"
  by (simp add: token_ok_def as_text_def)

lemma closes_pair_iff:
  assumes "token_ok t" "tk_kind t = OpeningBracketToken" "token_ok c"
  shows "closes_pair t (Some c) \<longleftrightarrow> tk_kind c = ClosingBracketToken \<and> token_matches c t"
  using assms by (auto simp: closes_pair_def token_matches_def token_ok_def bracket_ids.intersects_iff)

section \<open>The stack machine\<close>

type_synonym 'b frames = "('b BracketToken \<times> 'b bracket_tree list) list"

text \<open>A frame is an open bracket with the trees in front of it.\<close>

fun stack_parse :: "'b bracket_tree list \<Rightarrow> 'b frames \<Rightarrow> 'b BracketToken list \<Rightarrow> 'b bracket_tree list" where
  "stack_parse ts [] [] = ts"
| "stack_parse ts ((opening, before) # frames) [] =
     stack_parse (before @ [PairTree (token_bracket opening) ts None]) frames []"
| "stack_parse ts frames (t # tokens) =
     (if tk_kind t = TextToken then stack_parse (ts @ [LeafTree (TextNode (tk_length t))]) frames tokens
      else if tk_kind t = OpeningBracketToken then
        (if length frames < 150 then stack_parse [] ((t, ts) # frames) tokens
         else stack_parse (ts @ [LeafTree (TextNode (tk_length t))]) frames tokens)
      else if \<forall>f \<in> set frames. \<not> token_matches t (fst f)
      then stack_parse (ts @ [LeafTree (InvalidBracketNode (tk_bracketIds t) (tk_length t))]) frames tokens
      else case frames of
        [] \<Rightarrow> ts
      | (opening, before) # frames \<Rightarrow>
          if token_matches t opening
          then stack_parse (before @ [PairTree (token_bracket opening) ts (Some (token_bracket t))]) frames tokens
          else stack_parse (before @ [PairTree (token_bracket opening) ts None]) frames (t # tokens))"

section \<open>The parser on a stream of tokens\<close>

lemma run_simps [simp]:
  "run_return a s = Some (Inr (a, s))"
  "run_result (Inr a) s = Some (Inr (a, s))"
  "m s = Some (Inr (a, s')) \<Longrightarrow> run_bind m f s = f a s'"
  by (simp_all add: run_return_def run_result_def run_bind_def)

lemma run_bind_assoc: "run_bind (run_bind m f) g = run_bind m (\<lambda>a. run_bind (f a) g)"
  by (rule ext) (simp add: run_bind_def split: option.split sum.split)

abbreviation head_of :: "'a list \<Rightarrow> 'a option" where
  "head_of xs \<equiv> (case xs of [] \<Rightarrow> None | x # _ \<Rightarrow> Some x)"

locale token_stream =
  fixes tz :: "('t, 'b) Tokenizer" and rest :: "'t \<Rightarrow> 'b BracketToken list" and good ready :: "'t \<Rightarrow> bool"
  assumes ready_good: "ready t \<Longrightarrow> good t"
    and peek_law: "good t \<Longrightarrow> \<exists>t'. tz_peek tz t = Some (Inr (head_of (rest t), t')) \<and> ready t' \<and> rest t' = rest t"
    and read_law: "ready t \<Longrightarrow> rest t \<noteq> [] \<Longrightarrow> \<exists>t'. tz_read tz t = Some (Inr (Some (hd (rest t)), t')) \<and> good t' \<and> rest t' = tl (rest t)"
begin

abbreviation tokens_left :: "('t, 'b) BracketParser \<Rightarrow> 'b BracketToken list" where
  "tokens_left s \<equiv> rest (bp_tokenizer s)"

definition fresh_parser :: "('t \<Rightarrow> bool) \<Rightarrow> ('t, 'b) BracketParser \<Rightarrow> bool" where
  "fresh_parser P s \<longleftrightarrow> bp_oldNodeReader s = None \<and> P (bp_tokenizer s) \<and> (\<forall>t \<in> set (tokens_left s). token_ok t)"

lemma fresh_ready_good: "fresh_parser ready s \<Longrightarrow> fresh_parser good s"
  by (simp add: fresh_parser_def ready_good)

lemma fresh_cache: "fresh_parser P s \<Longrightarrow> tryReadChildFromCache tz rf opened s = Some (Inr (None, s))"
  by (simp add: fresh_parser_def tryReadChildFromCache_def)

lemma fresh_peek:
  assumes "fresh_parser good s"
  shows "\<exists>s'. tokenizer_peek tz s = Some (Inr (head_of (tokens_left s), s')) \<and> fresh_parser ready s' \<and> tokens_left s' = tokens_left s"
  using assms peek_law [of "bp_tokenizer s"] by (auto simp: fresh_parser_def tokenizer_peek_def on_tokenizer_def)

lemma fresh_read:
  assumes "fresh_parser ready s" "tokens_left s = t # ts"
  shows "\<exists>s'. tokenizer_read tz s = Some (Inr (Some t, s')) \<and> fresh_parser good s' \<and> tokens_left s' = ts"
  using assms read_law [of "bp_tokenizer s"] by (auto simp: fresh_parser_def tokenizer_read_def on_tokenizer_def)

lemma fresh_count:
  "fresh_parser P s \<Longrightarrow> \<exists>s'. count_constructed s = Some (Inr ((), s')) \<and> fresh_parser P s' \<and> tokens_left s' = tokens_left s"
  by (simp add: fresh_parser_def count_constructed_def)

end

text \<open>The ids of the open brackets\<close>

definition opened_by :: "SmallImmutableSet \<Rightarrow> 'b frames \<Rightarrow> bool" where
  "opened_by opened frames \<longleftrightarrow>
     (\<forall>k. SmallImmutableSet_has opened k \<longleftrightarrow> (\<exists>f \<in> set frames. SmallImmutableSet_has (tk_bracketIds (fst f)) k))"

lemma opened_by_empty: "opened_by SmallImmutableSet_getEmpty []"
  by (simp add: opened_by_def bracket_ids.has_empty)

lemma opened_by_merge:
  "opened_by opened frames \<Longrightarrow> opened_by (SmallImmutableSet_merge opened (tk_bracketIds t)) ((t, ts) # frames)"
  by (auto simp: opened_by_def bracket_ids.has_merge)

lemma opened_by_intersects:
  "opened_by opened frames \<Longrightarrow> SmallImmutableSet_intersects (tk_bracketIds t) opened \<longleftrightarrow> (\<exists>f \<in> set frames. token_matches t (fst f))"
  by (auto simp: opened_by_def token_matches_def bracket_ids.intersects_iff)

text \<open>Items that the parser makes: well-formed and not lists\<close>

definition items_ok :: "'b AstNode list \<Rightarrow> bool" where
  "items_ok ns \<longleftrightarrow> (\<forall>n \<in> set ns. ast_ok n \<and> ast_kind n \<noteq> ListKind)"

abbreviation trees_of :: "'b AstNode list \<Rightarrow> 'b bracket_tree list" where
  "trees_of ns \<equiv> concat (map bracket_trees ns)"

abbreviation lengths_of :: "'b AstNode list \<Rightarrow> Length list" where
  "lengths_of ns \<equiv> concat (map leaf_lengths ns)"

lemma items_ok_height: "items_ok ns \<Longrightarrow> n \<in> set ns \<Longrightarrow> listHeight n = 0 \<and> list_items n = [n]"
  by (cases n) (auto simp: items_ok_def)

lemma items_ok_concat:
  assumes "items_ok ns" "ns \<noteq> []"
  shows "\<exists>n. concat23TreesOfSameHeight ns i = Inr (Some n) \<and> ast_ok n \<and> bracket_trees n = trees_of ns \<and> leaf_lengths n = lengths_of ns"
proof -
  have "\<forall>n \<in> set ns. ast_ok n \<and> listHeight n = 0" "concat (map list_items ns) = ns"
    using assms(1) items_ok_height [OF assms(1)] by (auto simp: items_ok_def intro: trans [OF arg_cong [OF map_cong [OF refl]]])
  with concat23TreesOfSameHeight_ok [of ns 0 i] assms(2) show ?thesis
    by (metis bracket_trees_items leaf_lengths_items)
qed

lemma finish_list_fresh:
  assumes "bp_oldNodeReader s = None" "items_ok ns"
  shows "\<exists>c. finish_list ns s = Some (Inr (c, s)) \<and> (c = None \<longleftrightarrow> ns = []) \<and> (case c of None \<Rightarrow> True | Some n \<Rightarrow> ast_ok n) \<and>
    (case c of None \<Rightarrow> [] | Some n \<Rightarrow> bracket_trees n) = trees_of ns \<and> (case c of None \<Rightarrow> [] | Some n \<Rightarrow> leaf_lengths n) = lengths_of ns"
proof (cases "ns = []")
  case True
  then show ?thesis using assms by (simp add: finish_list_def concat23TreesOfSameHeight_def)
next
  case False
  then show ?thesis using assms items_ok_concat [of ns "bp_createImmutableLists s"] by (auto simp: finish_list_def)
qed

lemma pair_ok:
  assumes "case c of None \<Rightarrow> True | Some n \<Rightarrow> ast_ok n"
  shows "ast_ok (PairAstNode_create b c d)" "ast_kind (PairAstNode_create b c d) = PairKind"
    "bracket_trees (PairAstNode_create b c d) = [PairTree b (case c of None \<Rightarrow> [] | Some n \<Rightarrow> bracket_trees n) d]"
    "leaf_lengths (PairAstNode_create b c d) = bracket_length b # (case c of None \<Rightarrow> [] | Some n \<Rightarrow> leaf_lengths n) @
       (case d of None \<Rightarrow> [] | Some e \<Rightarrow> [bracket_length e])"
  using assms by (simp_all add: PairAstNode_create_def Let_def)

section \<open>Equivalence with the stack machine\<close>

context token_stream
begin

text \<open>What the two functions of the parser achieve with a given fuel\<close>

definition parses_items :: "nat \<Rightarrow> nat \<Rightarrow> bool" where
  "parses_items rf fuel \<longleftrightarrow> (\<forall>s opened frames ns.
     fresh_parser good s \<and> opened_by opened frames \<and> items_ok ns \<and> 2 * length (tokens_left s) + 1 \<le> fuel \<longrightarrow>
     (\<exists>ns' s' used. parse_items tz rf fuel opened (2 * length frames) ns s = Some (Inr (ns', s')) \<and>
        fresh_parser ready s' \<and> items_ok ns' \<and> tokens_left s = used @ tokens_left s' \<and>
        lengths_of ns' = lengths_of ns @ map tk_length used \<and> closes_list opened (head_of (tokens_left s')) \<and>
        stack_parse (trees_of ns) frames (tokens_left s) = stack_parse (trees_of ns') frames (tokens_left s')))"

definition parses_child :: "nat \<Rightarrow> nat \<Rightarrow> bool" where
  "parses_child rf fuel \<longleftrightarrow> (\<forall>s opened frames ts.
     fresh_parser ready s \<and> opened_by opened frames \<and> tokens_left s \<noteq> [] \<and> \<not> closes_list opened (head_of (tokens_left s)) \<and>
     2 * length (tokens_left s) \<le> fuel \<longrightarrow>
     (\<exists>n s' used. parseChild tz rf fuel opened (2 * length frames + 1) s = Some (Inr (n, s')) \<and>
        fresh_parser good s' \<and> ast_ok n \<and> ast_kind n \<noteq> ListKind \<and> tokens_left s = used @ tokens_left s' \<and> used \<noteq> [] \<and>
        leaf_lengths n = map tk_length used \<and>
        stack_parse ts frames (tokens_left s) = stack_parse (ts @ bracket_trees n) frames (tokens_left s')))"

lemma parses_items_step:
  assumes "parses_items rf fuel" "parses_child rf fuel"
  shows "parses_items rf (Suc fuel)"
  unfolding parses_items_def
proof (intro allI impI, elim conjE)
  fix s opened and ns :: "'b AstNode list" and frames :: "'b frames"
  assume s: "fresh_parser good s" "opened_by opened frames" "items_ok ns" "2 * length (tokens_left s) + 1 \<le> Suc fuel"
  obtain s1 where s1: "tokenizer_peek tz s = Some (Inr (head_of (tokens_left s), s1))" "fresh_parser ready s1" "tokens_left s1 = tokens_left s"
    using fresh_peek [OF s(1)] by blast
  show "\<exists>ns' s' used. parse_items tz rf (Suc fuel) opened (2 * length frames) ns s = Some (Inr (ns', s')) \<and>
        fresh_parser ready s' \<and> items_ok ns' \<and> tokens_left s = used @ tokens_left s' \<and>
        lengths_of ns' = lengths_of ns @ map tk_length used \<and> closes_list opened (head_of (tokens_left s')) \<and>
        stack_parse (trees_of ns) frames (tokens_left s) = stack_parse (trees_of ns') frames (tokens_left s')"
  proof (cases "closes_list opened (head_of (tokens_left s))")
    case True
    then show ?thesis using s s1 fresh_cache [OF s(1)] by (auto simp: Let_def intro!: exI [of _ ns])
  next
    case False
    then have ne: "tokens_left s1 \<noteq> []" using s1(3) by (auto simp: closes_list_def)
    have len: "2 * length (tokens_left s1) \<le> fuel" using s(4) s1(3) by simp
    obtain n s2 used where n: "parseChild tz rf fuel opened (2 * length frames + 1) s1 = Some (Inr (n, s2))"
        "fresh_parser good s2" "ast_ok n" "ast_kind n \<noteq> ListKind" "tokens_left s1 = used @ tokens_left s2" "used \<noteq> []"
        "leaf_lengths n = map tk_length used"
        "stack_parse (trees_of ns) frames (tokens_left s1) = stack_parse (trees_of ns @ bracket_trees n) frames (tokens_left s2)"
      using assms(2) [unfolded parses_child_def, rule_format, of s1 opened frames "trees_of ns"] s(2) s1 ne len False by auto
    have ok: "items_ok (ns @ [n])" using s(3) n(3,4) by (auto simp: items_ok_def)
    have len2: "2 * length (tokens_left s2) + 1 \<le> fuel" using len n(5,6) by (cases used) auto
    obtain ns' s' used' where r: "parse_items tz rf fuel opened (2 * length frames) (ns @ [n]) s2 = Some (Inr (ns', s'))"
        "fresh_parser ready s'" "items_ok ns'" "tokens_left s2 = used' @ tokens_left s'"
        "lengths_of ns' = lengths_of (ns @ [n]) @ map tk_length used'" "closes_list opened (head_of (tokens_left s'))"
        "stack_parse (trees_of (ns @ [n])) frames (tokens_left s2) = stack_parse (trees_of ns') frames (tokens_left s')"
      using assms(1) [unfolded parses_items_def, rule_format, of s2 opened frames "ns @ [n]"] s(2) n(2) ok len2 by auto
    have "parse_items tz rf (Suc fuel) opened (2 * length frames) ns s = Some (Inr (ns', s'))"
      using fresh_cache [OF s(1)] s1(1) False n(1,4) r(1) by (simp add: Let_def)
    moreover have "tokens_left s = (used @ used') @ tokens_left s'" using s1(3) n(5) r(4) by simp
    moreover have "lengths_of ns' = lengths_of ns @ map tk_length (used @ used')" using r(5) n(7) by simp
    moreover have "stack_parse (trees_of ns) frames (tokens_left s) = stack_parse (trees_of ns') frames (tokens_left s')"
      using n(8) r(7) s1(3) by simp
    ultimately show ?thesis using r(2,3,6) by blast
  qed
qed

text \<open>An opening bracket: the list up to the bracket that closes it or an enclosing one, and the pair\<close>

lemma parses_pair:
  assumes "fresh_parser ready s" "opened_by (SmallImmutableSet_merge opened (tk_bracketIds t)) ((t, ts) # frames)"
    "token_ok t" "tk_kind t = OpeningBracketToken" "items_ok ns"
    "closes_list (SmallImmutableSet_merge opened (tk_bracketIds t)) (head_of (tokens_left s))"
  shows "\<exists>n s' used. run_bind (finish_list ns) (\<lambda>child. run_bind (tokenizer_peek tz) (\<lambda>nextToken.
      if closes_pair t nextToken then
        run_bind (tokenizer_read tz) (\<lambda>_. run_bind (run_result (as_bracket t)) (\<lambda>b.
          run_bind (run_result (as_closing (the nextToken))) (\<lambda>c. run_return (PairAstNode_create b child c))))
      else run_bind (run_result (as_bracket t)) (\<lambda>b. run_return (PairAstNode_create b child None)))) s = Some (Inr (n, s')) \<and>
    fresh_parser good s' \<and> ast_ok n \<and> ast_kind n \<noteq> ListKind \<and> tokens_left s = used @ tokens_left s' \<and>
    leaf_lengths n = tk_length t # lengths_of ns @ map tk_length used \<and>
    stack_parse (trees_of ns) ((t, ts) # frames) (tokens_left s) = stack_parse (ts @ bracket_trees n) frames (tokens_left s')"
proof -
  obtain c where c: "finish_list ns s = Some (Inr (c, s))" "case c of None \<Rightarrow> True | Some n \<Rightarrow> ast_ok n"
      "(case c of None \<Rightarrow> [] | Some n \<Rightarrow> bracket_trees n) = trees_of ns"
      "(case c of None \<Rightarrow> [] | Some n \<Rightarrow> leaf_lengths n) = lengths_of ns"
    using finish_list_fresh [OF _ assms(5)] assms(1) unfolding fresh_parser_def by blast
  obtain s1 where s1: "tokenizer_peek tz s = Some (Inr (head_of (tokens_left s), s1))" "fresh_parser ready s1" "tokens_left s1 = tokens_left s"
    using fresh_peek [OF fresh_ready_good [OF assms(1)]] by blast
  have b: "as_bracket t = Inr (token_bracket t)" "bracket_length (token_bracket t) = tk_length t"
    using token_ok_bracket [OF assms(3)] assms(4) by simp_all
  note pair = pair_ok [OF c(2), of "token_bracket t"]
  show ?thesis
  proof (cases "closes_pair t (head_of (tokens_left s))")
    case True
    then obtain d ds where d: "tokens_left s = d # ds" by (cases "tokens_left s") (auto simp: closes_pair_def)
    have d_ok: "token_ok d" using assms(1) d by (simp add: fresh_parser_def)
    then have match: "tk_kind d = ClosingBracketToken" "token_matches d t" using True d closes_pair_iff [OF assms(3,4)] by auto
    obtain s2 where s2: "tokenizer_read tz s1 = Some (Inr (Some d, s2))" "fresh_parser good s2" "tokens_left s2 = ds"
      using fresh_read [OF s1(2)] s1(3) d by auto
    show ?thesis
      using True d match s1 s2 c b pair token_ok_bracket [OF d_ok]
      by (intro exI [of _ "PairAstNode_create (token_bracket t) c (Some (token_bracket d))"] exI [of _ s2] exI [of _ "[d]"]) simp
  next
    case False
    have "stack_parse (trees_of ns) ((t, ts) # frames) (tokens_left s) =
        stack_parse (ts @ [PairTree (token_bracket t) (trees_of ns) None]) frames (tokens_left s)"
    proof (cases "tokens_left s")
      case (Cons d ds)
      then have d: "token_ok d" "tk_kind d = ClosingBracketToken" "\<exists>f \<in> set ((t, ts) # frames). token_matches d (fst f)"
        using assms(1,6) opened_by_intersects [OF assms(2), of d] by (auto simp: fresh_parser_def closes_list_def)
      then have "\<not> token_matches d t" using False Cons closes_pair_iff [OF assms(3,4)] by auto
      then show ?thesis using d Cons by auto
    qed simp
    then show ?thesis
      using False s1 c b pair fresh_ready_good [OF s1(2)]
      by (intro exI [of _ "PairAstNode_create (token_bracket t) c None"] exI [of _ s1] exI [of _ "[]"]) simp
  qed
qed

lemma parses_child_step:
  assumes "parses_items rf fuel"
  shows "parses_child rf (Suc fuel)"
  unfolding parses_child_def
proof (intro allI impI, elim conjE)
  fix s opened and ts :: "'b bracket_tree list" and frames :: "'b frames"
  assume s: "fresh_parser ready s" "opened_by opened frames" "tokens_left s \<noteq> []" "\<not> closes_list opened (head_of (tokens_left s))"
    "2 * length (tokens_left s) \<le> Suc fuel"
  obtain t toks where t: "tokens_left s = t # toks" using s(3) by (cases "tokens_left s") auto
  have t_ok: "token_ok t" using s(1) t by (simp add: fresh_parser_def)
  obtain s1 s2 where s2: "count_constructed s = Some (Inr ((), s1))" "tokenizer_read tz s1 = Some (Inr (Some t, s2))"
      "fresh_parser good s2" "tokens_left s2 = toks"
    using fresh_count [OF s(1)] fresh_read t by metis
  show "\<exists>n s' used. parseChild tz rf (Suc fuel) opened (2 * length frames + 1) s = Some (Inr (n, s')) \<and>
        fresh_parser good s' \<and> ast_ok n \<and> ast_kind n \<noteq> ListKind \<and> tokens_left s = used @ tokens_left s' \<and> used \<noteq> [] \<and>
        leaf_lengths n = map tk_length used \<and>
        stack_parse ts frames (tokens_left s) = stack_parse (ts @ bracket_trees n) frames (tokens_left s')" (is "\<exists>n s' used. ?P n s' used")
  proof (cases "tk_kind t")
    case TextToken
    then have "?P (TextNode (tk_length t)) s2 [t]" using s2 t token_ok_text [OF t_ok] by simp
    then show ?thesis by blast
  next
    case ClosingBracketToken
    then have "\<forall>f \<in> set frames. \<not> token_matches t (fst f)"
      using s(4) t opened_by_intersects [OF s(2), of t] by (auto simp: closes_list_def)
    then have "?P (InvalidBracketNode (tk_bracketIds t) (tk_length t)) s2 [t]" using ClosingBracketToken s2 t by simp
    then show ?thesis by blast
  next
    case OpeningBracketToken
    show ?thesis
    proof (cases "length frames < 150")
      case False
      then have "?P (TextNode (tk_length t)) s2 [t]" using OpeningBracketToken s2 t by simp
      then show ?thesis by blast
    next
      case True
      let ?opened = "SmallImmutableSet_merge opened (tk_bracketIds t)"
      note opened = opened_by_merge [OF s(2), of t ts]
      obtain ns s3 used where ns: "parse_items tz rf fuel ?opened (2 * length ((t, ts) # frames)) [] s2 = Some (Inr (ns, s3))"
          "fresh_parser ready s3" "items_ok ns" "toks = used @ tokens_left s3" "lengths_of ns = map tk_length used"
          "closes_list ?opened (head_of (tokens_left s3))"
          "stack_parse [] ((t, ts) # frames) toks = stack_parse (trees_of ns) ((t, ts) # frames) (tokens_left s3)"
        using assms [unfolded parses_items_def, rule_format, of s2 ?opened "(t, ts) # frames" "[]"] opened s(5) s2(3,4) t
        by (auto simp: items_ok_def)
      from parses_pair [OF ns(2) opened t_ok OpeningBracketToken ns(3,6)]
      obtain n s' used' where n: "parseChild tz rf (Suc fuel) opened (2 * length frames + 1) s = Some (Inr (n, s'))"
          "fresh_parser good s'" "ast_ok n" "ast_kind n \<noteq> ListKind" "tokens_left s3 = used' @ tokens_left s'"
          "leaf_lengths n = tk_length t # lengths_of ns @ map tk_length used'"
          "stack_parse (trees_of ns) ((t, ts) # frames) (tokens_left s3) = stack_parse (ts @ bracket_trees n) frames (tokens_left s')"
        using s2(1,2) ns(1) True OpeningBracketToken by (auto simp: Let_def run_bind_assoc)
      then have "?P n s' (t # used @ used')" using t True OpeningBracketToken ns(4,5,7) by simp
      then show ?thesis by blast
    qed
  qed
qed

lemma parses_all: "parses_items rf fuel \<and> parses_child rf fuel"
proof (induction fuel)
  case 0
  then show ?case by (auto simp: parses_items_def parses_child_def)
next
  case (Suc fuel)
  then show ?case using parses_items_step parses_child_step by blast
qed

lemma parseDocument_stack_parse:
  assumes "good tok" "\<forall>t \<in> set (rest tok). token_ok t" "2 * length (rest tok) + 1 \<le> fuel"
  shows "\<exists>n. parseDocument tz rf fuel tok es None i = Some (Inr n) \<and> (n = ListAstNode_getEmpty \<and> rest tok = [] \<or> ast_ok n) \<and>
    bracket_trees n = stack_parse [] [] (rest tok) \<and> leaf_lengths n = map tk_length (rest tok)"
proof -
  obtain s where s: "BracketParser_new tok es None i = Inr s" "fresh_parser good (s\<lparr>bp_itemsConstructed := 0, bp_itemsFromCache := 0\<rparr>)"
      "bp_tokenizer s = tok"
    using assms(1,2) by (auto simp: BracketParser_new_def fresh_parser_def)
  obtain ns s' where ns: "parse_items tz rf fuel SmallImmutableSet_getEmpty 0 []
        (s\<lparr>bp_itemsConstructed := 0, bp_itemsFromCache := 0\<rparr>) = Some (Inr (ns, s'))"
      "fresh_parser ready s'" "items_ok ns" "lengths_of ns = map tk_length (rest tok)" "tokens_left s' = []"
      "stack_parse [] [] (rest tok) = trees_of ns"
    using conjunct1 [OF parses_all, unfolded parses_items_def, rule_format, of _ SmallImmutableSet_getEmpty "[]" "[]" fuel rf]
      s opened_by_empty assms(3)
    by (force simp: items_ok_def closes_list_def bracket_ids.intersects_empty split: list.splits)
  obtain c where c: "finish_list ns s' = Some (Inr (c, s'))" "c = None \<longleftrightarrow> ns = []" "case c of None \<Rightarrow> True | Some n \<Rightarrow> ast_ok n"
      "(case c of None \<Rightarrow> [] | Some n \<Rightarrow> bracket_trees n) = trees_of ns"
      "(case c of None \<Rightarrow> [] | Some n \<Rightarrow> leaf_lengths n) = lengths_of ns"
    using finish_list_fresh [OF _ ns(3)] ns(2) unfolding fresh_parser_def by blast
  have "parseDocument tz rf fuel tok es None i = Some (Inr (case c of None \<Rightarrow> ListAstNode_getEmpty | Some n \<Rightarrow> n))"
    using s(1) ns(1) c(1) by (simp add: parseDocument_def BracketParser_parseDocument_def parseList_def)
  then show ?thesis using c ns(4,6) by (cases c) (auto simp: ListAstNode_getEmpty_def)
qed

end

section \<open>The tokens of FastTokenizer\<close>

definition fast_rest :: "'b FastTokenizer \<Rightarrow> 'b BracketToken list" where
  "fast_rest t = map the (takeWhile (\<lambda>x. x \<noteq> None) (drop (ft_idx t) (ft_tokens t)))"

lemma fast_rest_head: "head_of (fast_rest t) = token_at t"
proof (cases "ft_idx t < length (ft_tokens t)")
  case True
  then show ?thesis by (auto simp: fast_rest_def token_at_def Cons_nth_drop_Suc [symmetric])
qed (simp add: fast_rest_def token_at_def)

lemma fast_rest_tail:
  assumes "fast_rest t \<noteq> []"
  shows "token_at t = Some (hd (fast_rest t)) \<and> fast_rest (t\<lparr>ft_idx := ft_idx t + 1\<rparr>) = tl (fast_rest t)"
proof -
  have "ft_idx t < length (ft_tokens t)" using assms by (auto simp: fast_rest_def intro: ccontr)
  then show ?thesis
    using assms by (auto simp: fast_rest_def token_at_def Cons_nth_drop_Suc [symmetric] split: if_splits)
qed

interpretation fast: token_stream FastTokenizer_methods fast_rest "\<lambda>_. True" "\<lambda>_. True"
  by unfold_locales
    (auto simp: FastTokenizer_methods_def FastTokenizer_peek_def FastTokenizer_read_def fast_rest_head dest: fast_rest_tail)

definition tokens_of :: "'b FastTokenizer \<Rightarrow> 'b BracketToken list \<Rightarrow> bool" where
  "tokens_of ft tokens \<longleftrightarrow> ft_tokens ft = map Some tokens \<and> ft_idx ft = 0"

lemma tokens_of_rest: "tokens_of ft tokens \<Longrightarrow> fast_rest ft = tokens"
  by (simp add: tokens_of_def fast_rest_def comp_def takeWhile_map)

lemma parse_fast:
  assumes "tokens_of ft tokens" "\<forall>t \<in> set tokens. token_ok t" "2 * length tokens + 1 \<le> fuel"
  shows "\<exists>n. parseDocument FastTokenizer_methods rf fuel ft es None i = Some (Inr n) \<and> (n = ListAstNode_getEmpty \<and> tokens = [] \<or> ast_ok n) \<and>
    bracket_trees n = stack_parse [] [] tokens \<and> leaf_lengths n = map tk_length tokens"
  using fast.parseDocument_stack_parse [of ft fuel rf es i] assms by (simp add: tokens_of_rest)

lemma parse_fast_length:
  assumes "n = ListAstNode_getEmpty \<and> tokens = [] \<or> ast_ok n" "leaf_lengths n = map tk_length tokens" "lengths_fit (map tk_length tokens)"
  shows "ast_length n = total_length (map tk_length tokens)"
  using assms ast_ok_leaf_length [of n] by (auto simp: ListAstNode_getEmpty_def lengthZero_def)

text \<open>Tokens for the examples: a text, and brackets with the ids they open or close\<close>

definition sample_token :: "TokenKind \<Rightarrow> nat list \<Rightarrow> unit BracketToken" where
  "sample_token k ids =
     (let s = foldl SmallImmutableSet_add SmallImmutableSet_getEmpty ids
      in \<lparr>tk_length = 1, tk_kind = k, tk_bracketId = int (hd ids), tk_bracketIds = s, tk_astNode = Some (BracketNode (BracketAstNode 1 () s))\<rparr>)"

lemma sample_token_simps [simp]:
  "tk_kind (sample_token k ids) = k" "tk_length (sample_token k ids) = 1"
  "k \<noteq> TextToken \<Longrightarrow> ids \<noteq> [] \<Longrightarrow> token_ok (sample_token k ids)"
  "token_matches (sample_token k ids) (sample_token k' ids') \<longleftrightarrow> set ids \<inter> set ids' \<noteq> {}"
  by (auto simp: sample_token_def Let_def token_ok_def token_matches_def bracket_ids.has_fold_add bracket_ids.has_empty
      bracket_ids.intersects_iff)

definition sample_stream :: "'b BracketToken list \<Rightarrow> 'b FastTokenizer" where
  "sample_stream tokens = \<lparr>ft_offset = 0, ft_tokens = map Some tokens, ft_idx = 0, ft_length = 0\<rparr>"

lemma sample_stream_tokens [simp]: "tokens_of (sample_stream tokens) tokens"
  by (simp add: sample_stream_def tokens_of_def)

section \<open>Properties\<close>

text \<open>
  C5: Parsing from scratch is the stack machine. For well-formed tokens, fuel of twice their number plus one suffices
  and nothing is thrown; the resulting tree has the pairs of the stack machine, in which every
  closing bracket closes the innermost open bracket it matches and an opening bracket at depth
  150 is text; the (2,3)-trees of its lists are well-formed, its leaves are the tokens in
  order, and its length is the sum of their lengths.
\<close>

theorem parseDocument_equals_stack:
  assumes "tokens_of ft tokens" "\<forall>t \<in> set tokens. token_ok t" "2 * length tokens + 1 \<le> fuel" "lengths_fit (map tk_length tokens)"
  shows "\<exists>n. parseDocument FastTokenizer_methods rf fuel ft es None i = Some (Inr n) \<and> (n = ListAstNode_getEmpty \<and> tokens = [] \<or> ast_ok n) \<and>
    bracket_trees n = stack_parse [] [] tokens \<and> leaf_lengths n = map tk_length tokens \<and>
    ast_length n = total_length (map tk_length tokens)"
  using parse_fast [OF assms(1-3), of rf es i] parse_fast_length [OF _ _ assms(4)] by blast

theorem parseDocument_equals_stack_witness:
  "\<exists>n. parseDocument FastTokenizer_methods 0 7 (sample_stream [sample_token OpeningBracketToken [1], sample_token OpeningBracketToken [2],
      sample_token ClosingBracketToken [1]]) [] None True = Some (Inr n) \<and>
    bracket_trees n = [PairTree (token_bracket (sample_token OpeningBracketToken [1]))
      [PairTree (token_bracket (sample_token OpeningBracketToken [2])) [] None] (Some (token_bracket (sample_token ClosingBracketToken [1])))] \<and>
    ast_length n = 3"
  using parseDocument_equals_stack [OF sample_stream_tokens, of "[sample_token OpeningBracketToken [1], sample_token OpeningBracketToken [2],
      sample_token ClosingBracketToken [1]]" 7 0 "[]" True]
  by (auto simp: lengths_fit_def cols_def length_factor_def lengthAdd_def)

section \<open>Nested brackets\<close>

text \<open>Texts with brackets that are nested at most \<open>d\<close> deep and all closed, with their trees\<close>

inductive nested :: "nat \<Rightarrow> 'b BracketToken list \<Rightarrow> 'b bracket_tree list \<Rightarrow> bool" where
  nested_nil: "nested d [] []"
| nested_text: "tk_kind t = TextToken \<Longrightarrow> nested d tokens ts \<Longrightarrow> nested d (t # tokens) (LeafTree (TextNode (tk_length t)) # ts)"
| nested_pair: "tk_kind t = OpeningBracketToken \<Longrightarrow> tk_kind c = ClosingBracketToken \<Longrightarrow> token_matches c t \<Longrightarrow>
    nested d inside us \<Longrightarrow> nested (Suc d) tokens ts \<Longrightarrow>
    nested (Suc d) (t # inside @ c # tokens) (PairTree (token_bracket t) us (Some (token_bracket c)) # ts)"

lemma stack_parse_nested:
  "nested d tokens ts \<Longrightarrow> length frames + d \<le> 150 \<Longrightarrow> stack_parse acc frames (tokens @ tail) = stack_parse (acc @ ts) frames tail"
  by (induction arbitrary: acc frames tail rule: nested.induct) auto

text \<open>
  C26: The parser recovers every nesting of brackets. When the tokens spell out a forest of pairs,
  nested at most 150 deep, in which each closing bracket can close its opening one, the tree
  that the parser builds from the tokens is that forest: no bracket is unexpected and no pair
  is left open, whichever brackets the pairs enclose.
\<close>

theorem parseDocument_nested:
  assumes "nested 150 tokens ts" "tokens_of ft tokens" "\<forall>t \<in> set tokens. token_ok t" "2 * length tokens + 1 \<le> fuel"
  shows "\<exists>n. parseDocument FastTokenizer_methods rf fuel ft es None i = Some (Inr n) \<and> bracket_trees n = ts"
  using parse_fast [OF assms(2-4), of rf es i] stack_parse_nested [OF assms(1), of "[]" "[]" "[]"] by auto

theorem parseDocument_nested_witness:
  "\<exists>n. parseDocument FastTokenizer_methods 0 9 (sample_stream [sample_token OpeningBracketToken [1], sample_token OpeningBracketToken [2],
      sample_token ClosingBracketToken [1, 2], sample_token ClosingBracketToken [1]]) [] None True = Some (Inr n) \<and>
    bracket_trees n = [PairTree (token_bracket (sample_token OpeningBracketToken [1]))
      [PairTree (token_bracket (sample_token OpeningBracketToken [2])) [] (Some (token_bracket (sample_token ClosingBracketToken [1, 2])))]
      (Some (token_bracket (sample_token ClosingBracketToken [1])))]"
proof -
  let ?o = "sample_token OpeningBracketToken" and ?c = "sample_token ClosingBracketToken"
  have "nested (Suc 148) (?o [2] # [] @ ?c [1, 2] # []) [PairTree (token_bracket (?o [2])) [] (Some (token_bracket (?c [1, 2])))]"
    by (intro nested_pair nested_nil) simp_all
  then have "nested (Suc (Suc 148)) (?o [1] # (?o [2] # [] @ ?c [1, 2] # []) @ ?c [1] # [])
      [PairTree (token_bracket (?o [1])) [PairTree (token_bracket (?o [2])) [] (Some (token_bracket (?c [1, 2])))] (Some (token_bracket (?c [1])))]"
    by (intro nested_pair nested_nil) simp_all
  then have "nested 150 [?o [1], ?o [2], ?c [1, 2], ?c [1]]
      [PairTree (token_bracket (?o [1])) [PairTree (token_bracket (?o [2])) [] (Some (token_bracket (?c [1, 2])))] (Some (token_bracket (?c [1])))]"
    by simp
  from parseDocument_nested [OF this sample_stream_tokens, of 9 0 "[]" True] show ?thesis by auto
qed

end
