(* ===== verification/LanguageBrackets.thy ===== *)
theory LanguageBrackets
  imports BracketParsing "HOL-Library.AList" "HOL-Library.List_Lexorder"
begin

text \<open>
  Model of \<open>languages/supports/languageBracketsConfiguration.ts\<close>, the brackets of a language, and of
  \<open>model/bracketPairsTextModelPart/bracketPairsTree/brackets.ts\<close>, which makes tokens of them.

  Maps are association lists in the order of insertion. The objects of the bracket kinds refer
  to each other; here a kind is its configuration with its text, and the configuration lists the
  texts of the brackets that are opened or closed. A configuration is identified by a number.
  \<open>toLowerCase\<close> and \<open>new RegExp\<close> with its matching are parameters.
\<close>

section \<open>The brackets of a language\<close>

record LanguageBracketsConfiguration =
  lbc_ref :: nat
  lbc_languageId :: js_string
  lbc_openingBrackets :: "(js_string \<times> js_string list) list"
  lbc_closingBrackets :: "(js_string \<times> js_string list \<times> js_string list) list"

datatype BracketKind =
    OpeningBracketKind LanguageBracketsConfiguration js_string
  | ClosingBracketKind LanguageBracketsConfiguration js_string

fun bracketText :: "BracketKind \<Rightarrow> js_string" where
  "bracketText (OpeningBracketKind c t) = t"
| "bracketText (ClosingBracketKind c t) = t"

fun bracket_config :: "BracketKind \<Rightarrow> LanguageBracketsConfiguration" where
  "bracket_config (OpeningBracketKind c t) = c"
| "bracket_config (ClosingBracketKind c t) = c"

definition bracket_languageId :: "BracketKind \<Rightarrow> js_string" where
  "bracket_languageId k = lbc_languageId (bracket_config k)"

definition filterValidBrackets :: "(js_string \<times> js_string) list \<Rightarrow> (js_string \<times> js_string) list" where
  "filterValidBrackets bracketPairs = filter (\<lambda>(opn, close). opn \<noteq> [] \<and> close \<noteq> []) bracketPairs"

text \<open>\<open>Set.add\<close> on the elements in the order of insertion, and \<open>CachedFunction.get\<close> for the two caches\<close>

definition set_add :: "'a \<Rightarrow> 'a list \<Rightarrow> 'a list" where
  "set_add x xs = (if x \<in> set xs then xs else xs @ [x])"

definition cached :: "'v \<Rightarrow> (js_string \<times> 'v) list \<Rightarrow> js_string \<Rightarrow> (js_string \<times> 'v) list" where
  "cached v m k = (if map_of m k = None then m @ [(k, v)] else m)"

type_synonym bracket_infos = "(js_string \<times> js_string list) list \<times> (js_string \<times> js_string list \<times> js_string list) list"

definition add_pair :: "bracket_infos \<Rightarrow> js_string \<times> js_string \<Rightarrow> bracket_infos" where
  "add_pair infos p =
     (let (openings, closings) = infos;
          (opn, close) = p;
          openings = cached [] openings opn;
          closings = cached ([], []) closings close
      in (AList.map_entry opn (set_add close) openings,
          AList.map_entry close (\<lambda>(opening, colorized). (set_add opn opening, colorized)) closings))"

definition add_colorized_pair :: "bracket_infos \<Rightarrow> js_string \<times> js_string \<Rightarrow> bracket_infos" where
  "add_colorized_pair infos p =
     (let (openings, closings) = infos;
          (opn, close) = p;
          openings = cached [] openings opn;
          closings = cached ([], []) closings close
      in (AList.map_entry opn (set_add close) openings,
          AList.map_entry close (\<lambda>(opening, colorized). (set_add opn opening, set_add opn colorized)) closings))"

text \<open>The constructor; the lists are \<open>config.brackets\<close> and \<open>config.colorizedBracketPairs\<close>.\<close>

definition LanguageBracketsConfiguration_new :: "nat \<Rightarrow> js_string \<Rightarrow> (js_string \<times> js_string) list option \<Rightarrow>
    (js_string \<times> js_string) list option \<Rightarrow> LanguageBracketsConfiguration" where
  "LanguageBracketsConfiguration_new ref languageId brackets colorizedBracketPairs =
     (let bracketPairs = (case brackets of None \<Rightarrow> [] | Some ps \<Rightarrow> filterValidBrackets ps);
          infos = foldl add_pair ([], []) bracketPairs;
          colorizedPairs = (case colorizedBracketPairs of
              Some ps \<Rightarrow> filterValidBrackets ps
            | None \<Rightarrow> filter (\<lambda>p. \<not> (fst p = js ''<'' \<and> snd p = js ''>'')) bracketPairs);
          (openings, closings) = foldl add_colorized_pair infos colorizedPairs
      in \<lparr>lbc_ref = ref, lbc_languageId = languageId, lbc_openingBrackets = openings, lbc_closingBrackets = closings\<rparr>)"

definition openingBrackets :: "LanguageBracketsConfiguration \<Rightarrow> BracketKind list" where
  "openingBrackets c = map (OpeningBracketKind c \<circ> fst) (lbc_openingBrackets c)"

definition closingBrackets :: "LanguageBracketsConfiguration \<Rightarrow> BracketKind list" where
  "closingBrackets c = map (ClosingBracketKind c \<circ> fst) (lbc_closingBrackets c)"

definition getOpeningBracketInfo :: "LanguageBracketsConfiguration \<Rightarrow> js_string \<Rightarrow> BracketKind option" where
  "getOpeningBracketInfo c t = map_option (\<lambda>_. OpeningBracketKind c t) (map_of (lbc_openingBrackets c) t)"

definition getClosingBracketInfo :: "LanguageBracketsConfiguration \<Rightarrow> js_string \<Rightarrow> BracketKind option" where
  "getClosingBracketInfo c t = map_option (\<lambda>_. ClosingBracketKind c t) (map_of (lbc_closingBrackets c) t)"

definition getBracketInfo :: "LanguageBracketsConfiguration \<Rightarrow> js_string \<Rightarrow> BracketKind option" where
  "getBracketInfo c t = (case getOpeningBracketInfo c t of Some k \<Rightarrow> Some k | None \<Rightarrow> getClosingBracketInfo c t)"

text \<open>The sets of a kind: \<open>openedBrackets\<close>, \<open>openingBrackets\<close> and \<open>openingColorizedBrackets\<close>\<close>

definition openedBrackets :: "BracketKind \<Rightarrow> BracketKind list" where
  "openedBrackets k = map (ClosingBracketKind (bracket_config k))
     (case map_of (lbc_openingBrackets (bracket_config k)) (bracketText k) of None \<Rightarrow> [] | Some ts \<Rightarrow> ts)"

definition getOpeningBrackets :: "BracketKind \<Rightarrow> BracketKind list" where
  "getOpeningBrackets k = map (OpeningBracketKind (bracket_config k))
     (case map_of (lbc_closingBrackets (bracket_config k)) (bracketText k) of None \<Rightarrow> [] | Some (ts, _) \<Rightarrow> ts)"

definition openingColorizedBrackets :: "BracketKind \<Rightarrow> BracketKind list" where
  "openingColorizedBrackets k = map (OpeningBracketKind (bracket_config k))
     (case map_of (lbc_closingBrackets (bracket_config k)) (bracketText k) of None \<Rightarrow> [] | Some (_, ts) \<Rightarrow> ts)"

definition closes_bracket :: "BracketKind \<Rightarrow> BracketKind \<Rightarrow> bool" where
  "closes_bracket k other =
     (if lbc_ref (bracket_config other) \<noteq> lbc_ref (bracket_config k) then False
      else bracketText other \<in> bracketText ` set (getOpeningBrackets k))"

definition closesColorized :: "BracketKind \<Rightarrow> BracketKind \<Rightarrow> bool" where
  "closesColorized k other =
     (if lbc_ref (bracket_config other) \<noteq> lbc_ref (bracket_config k) then False
      else bracketText other \<in> bracketText ` set (openingColorizedBrackets k))"

section \<open>Tokens of the brackets of a language\<close>

type_synonym BracketTokens = "(js_string \<times> BracketKind BracketToken) list"

definition bracket_key :: "BracketKind \<Rightarrow> js_string" where
  "bracket_key k = bracket_languageId k @ js '':::'' @ bracketText k"

definition getId :: "js_string DenseKeyProvider \<Rightarrow> BracketKind \<Rightarrow> nat \<times> js_string DenseKeyProvider" where
  "getId provider k = DenseKeyProvider_getKey provider (bracket_key k)"

definition bracket_token :: "TokenKind \<Rightarrow> BracketKind \<Rightarrow> nat \<Rightarrow> SmallImmutableSet \<Rightarrow> BracketKind BracketToken" where
  "bracket_token kind k i ids =
     (let l = toLength 0 (int (length (bracketText k)))
      in \<lparr>tk_length = l, tk_kind = kind, tk_bracketId = int i, tk_bracketIds = ids, tk_astNode = Some (BracketNode (BracketAstNode l k ids))\<rparr>)"

fun opening_tokens :: "BracketKind list \<Rightarrow> BracketTokens \<times> js_string DenseKeyProvider \<Rightarrow> BracketTokens \<times> js_string DenseKeyProvider" where
  "opening_tokens [] st = st"
| "opening_tokens (k # ks) (m, provider) =
     (let (i, provider) = getId provider k
      in opening_tokens ks (AList.update (bracketText k) (bracket_token OpeningBracketToken k i (SmallImmutableSet_add SmallImmutableSet_getEmpty i)) m, provider))"

fun opening_ids :: "BracketKind list \<Rightarrow> SmallImmutableSet \<Rightarrow> js_string DenseKeyProvider \<Rightarrow> SmallImmutableSet \<times> js_string DenseKeyProvider" where
  "opening_ids [] ids provider = (ids, provider)"
| "opening_ids (k # ks) ids provider =
     (let (i, provider) = getId provider k in opening_ids ks (SmallImmutableSet_add ids i) provider)"

text \<open>The loop over the closing brackets; \<open>getId(closingBrackets[0])\<close> throws when there is no opening bracket.\<close>

fun closing_tokens :: "BracketKind list \<Rightarrow> BracketTokens \<times> js_string DenseKeyProvider \<Rightarrow> (BracketTokens \<times> js_string DenseKeyProvider) result" where
  "closing_tokens [] st = Inr st"
| "closing_tokens (k # ks) (m, provider) =
     (let (ids, provider) = opening_ids (getOpeningBrackets k) SmallImmutableSet_getEmpty provider
      in case getOpeningBrackets k of
           [] \<Rightarrow> Inl TypeError
         | b # _ \<Rightarrow>
             let (i, provider) = getId provider b
             in closing_tokens ks (AList.update (bracketText k) (bracket_token ClosingBracketToken k i ids) m, provider))"

definition BracketTokens_createFromLanguage :: "LanguageBracketsConfiguration \<Rightarrow> js_string DenseKeyProvider \<Rightarrow>
    (BracketTokens \<times> js_string DenseKeyProvider) result" where
  "BracketTokens_createFromLanguage c provider =
     closing_tokens (closingBrackets c) (opening_tokens (openingBrackets c) ([], provider))"

text \<open>\<open>escapeRegExpCharacters\<close> of \<open>base/common/strings.ts\<close>\<close>

definition escapeRegExpCharacters :: "js_string \<Rightarrow> js_string" where
  "escapeRegExpCharacters v = concat (map (\<lambda>c. if c \<in> set (js (CHR 0x5C # ''{}*+?|^$.[]()'')) then [0x5C, c] else [c]) v)"

text \<open>The class \<open>[\w ]\<close>\<close>

definition word_or_space :: "code_unit \<Rightarrow> bool" where
  "word_or_space c \<longleftrightarrow> 0x30 \<le> c \<and> c \<le> 0x39 \<or> 0x41 \<le> c \<and> c \<le> 0x5A \<or> 0x61 \<le> c \<and> c \<le> 0x7A \<or> c = 0x5F \<or> c = 0x20"

definition prepareBracketForRegExp :: "js_string \<Rightarrow> js_string" where
  "prepareBracketForRegExp str =
     (let escaped = escapeRegExpCharacters str;
          escaped = (if str \<noteq> [] \<and> word_or_space (hd str) then [0x5C, 0x62] @ escaped else escaped)
      in if str \<noteq> [] \<and> word_or_space (last str) then escaped @ [0x5C, 0x62] else escaped)"

definition BracketTokens_isEmpty :: "BracketTokens \<Rightarrow> bool" where
  "BracketTokens_isEmpty m \<longleftrightarrow> m = []"

fun join_bars :: "js_string list \<Rightarrow> js_string" where
  "join_bars [] = []"
| "join_bars [s] = s"
| "join_bars (s # ss) = s @ js ''|'' @ join_bars ss"

definition BracketTokens_getRegExpStr :: "BracketTokens \<Rightarrow> js_string option" where
  "BracketTokens_getRegExpStr m =
     (if BracketTokens_isEmpty m then None
      else Some (join_bars (map prepareBracketForRegExp (rev (sort (map fst m))))))"

definition BracketTokens_getToken :: "(js_string \<Rightarrow> js_string) \<Rightarrow> BracketTokens \<Rightarrow> js_string \<Rightarrow> BracketKind BracketToken option" where
  "BracketTokens_getToken toLowerCase m v = map_of m (toLowerCase v)"

definition BracketTokens_findClosingTokenText :: "BracketTokens \<Rightarrow> SmallImmutableSet \<Rightarrow> js_string option" where
  "BracketTokens_findClosingTokenText m openingBracketIds =
     map_option fst (find (\<lambda>(closingText, info). tk_kind info = ClosingBracketToken \<and>
       SmallImmutableSet_intersects (tk_bracketIds info) openingBracketIds) m)"

section \<open>Tokens of all languages\<close>

record LanguageAgnosticBracketTokens =
  la_provider :: "js_string DenseKeyProvider"
  la_languages :: "(js_string \<times> BracketTokens) list"

definition LanguageAgnosticBracketTokens_new :: "js_string DenseKeyProvider \<Rightarrow> LanguageAgnosticBracketTokens" where
  "LanguageAgnosticBracketTokens_new provider = \<lparr>la_provider = provider, la_languages = []\<rparr>"

definition didLanguageChange :: "LanguageAgnosticBracketTokens \<Rightarrow> js_string \<Rightarrow> bool" where
  "didLanguageChange a languageId \<longleftrightarrow> map_of (la_languages a) languageId \<noteq> None"

definition getSingleLanguageBracketTokens :: "(js_string \<Rightarrow> LanguageBracketsConfiguration) \<Rightarrow> js_string \<Rightarrow> LanguageAgnosticBracketTokens \<Rightarrow>
    (BracketTokens \<times> LanguageAgnosticBracketTokens) result" where
  "getSingleLanguageBracketTokens getLanguageConfiguration languageId a =
     (case map_of (la_languages a) languageId of
        Some m \<Rightarrow> Inr (m, a)
      | None \<Rightarrow> emap (\<lambda>(m, provider). (m, a\<lparr>la_provider := provider, la_languages := AList.update languageId m (la_languages a)\<rparr>))
          (BracketTokens_createFromLanguage (getLanguageConfiguration languageId) (la_provider a)))"

definition LanguageAgnostic_getToken :: "(js_string \<Rightarrow> js_string) \<Rightarrow> (js_string \<Rightarrow> LanguageBracketsConfiguration) \<Rightarrow> js_string \<Rightarrow> js_string \<Rightarrow>
    LanguageAgnosticBracketTokens \<Rightarrow> (BracketKind BracketToken option \<times> LanguageAgnosticBracketTokens) result" where
  "LanguageAgnostic_getToken toLowerCase getLanguageConfiguration v languageId a =
     emap (\<lambda>(m, a). (BracketTokens_getToken toLowerCase m v, a)) (getSingleLanguageBracketTokens getLanguageConfiguration languageId a)"

section \<open>The pairs of a configuration\<close>

definition texts_of :: "(js_string \<times> 'v) list \<Rightarrow> ('v \<Rightarrow> js_string list) \<Rightarrow> js_string \<Rightarrow> js_string set" where
  "texts_of m f k = (case map_of m k of None \<Rightarrow> {} | Some v \<Rightarrow> set (f v))"

text \<open>The two caches hold exactly the brackets of a set of pairs, of which some are colorized.\<close>

definition infos_of :: "(js_string \<times> js_string) set \<Rightarrow> (js_string \<times> js_string) set \<Rightarrow> bracket_infos \<Rightarrow> bool" where
  "infos_of P C infos \<longleftrightarrow> distinct (map fst (fst infos)) \<and> distinct (map fst (snd infos)) \<and>
     set (map fst (fst infos)) = fst ` P \<and> set (map fst (snd infos)) = snd ` P \<and>
     (\<forall>a b. b \<in> texts_of (fst infos) id a \<longleftrightarrow> (a, b) \<in> P) \<and>
     (\<forall>a b. a \<in> texts_of (snd infos) fst b \<longleftrightarrow> (a, b) \<in> P) \<and>
     (\<forall>a b. a \<in> texts_of (snd infos) snd b \<longleftrightarrow> (a, b) \<in> C)"

lemma map_of_cached: "map_of (cached v m k) k' = (if k' = k \<and> map_of m k = None then Some v else map_of m k')"
  by (auto simp: cached_def map_add_def split: option.split)

lemma keys_cached:
  "set (map fst (cached v m k)) = insert k (set (map fst m))"
  "distinct (map fst m) \<Longrightarrow> distinct (map fst (cached v m k))"
  by (auto simp: cached_def map_of_eq_None_iff domIff [symmetric] dom_map_of_conv_image_fst)

lemma texts_of_add:
  assumes "\<And>v x. x \<in> set (f (g v)) \<longleftrightarrow> Q x \<or> x \<in> set (f v)" "f v0 = []"
  shows "x \<in> texts_of (AList.map_entry k g (cached v0 m k)) f k' \<longleftrightarrow> (k' = k \<and> Q x) \<or> x \<in> texts_of m f k'"
  using assms by (auto simp: texts_of_def map_of_map_entry map_of_cached split: option.split)

lemma set_add_set [simp]: "set (set_add x xs) = insert x (set xs)"
  by (auto simp: set_add_def)

lemma infos_of_add:
  assumes "infos_of P C (openings, closings)" "\<And>ts us. set (fst (g (ts, us))) = insert a (set ts)"
    "\<And>x ts us. x \<in> set (snd (g (ts, us))) \<longleftrightarrow> (colorized \<and> x = a) \<or> x \<in> set us"
  shows "infos_of (insert (a, b) P) (if colorized then insert (a, b) C else C)
    (AList.map_entry a (set_add b) (cached [] openings a), AList.map_entry b g (cached ([], []) closings b))"
proof -
  have keys: "set (map fst (AList.map_entry k f m)) = set (map fst m)" for k f and m :: "(js_string \<times> 'v) list"
    by (simp add: AList.dom_map_entry)
  have 1: "x \<in> texts_of (AList.map_entry a (set_add b) (cached [] openings a)) id k \<longleftrightarrow> (k = a \<and> x = b) \<or> x \<in> texts_of openings id k" for x k
    by (rule texts_of_add) auto
  have 2: "x \<in> texts_of (AList.map_entry b g (cached ([], []) closings b)) fst k \<longleftrightarrow> (k = b \<and> x = a) \<or> x \<in> texts_of closings fst k" for x k
    by (rule texts_of_add) (auto simp: assms(2))
  have 3: "x \<in> texts_of (AList.map_entry b g (cached ([], []) closings b)) snd k \<longleftrightarrow> (k = b \<and> colorized \<and> x = a) \<or> x \<in> texts_of closings snd k" for x k
    by (rule texts_of_add) (auto simp: assms(3))
  show ?thesis
    using assms(1) unfolding infos_of_def fst_conv snd_conv keys keys_cached(1) 1 2 3
    by (auto simp: keys_cached(2) AList.distinct_map_entry)
qed

lemma infos_of_add_pair: "infos_of P C infos \<Longrightarrow> infos_of (insert p P) C (add_pair infos p)"
  using infos_of_add [of P C "fst infos" "snd infos" "\<lambda>(ts, us). (set_add (fst p) ts, us)" "fst p" False "snd p"]
  by (simp add: add_pair_def case_prod_unfold Let_def)

lemma infos_of_add_colorized: "infos_of P C infos \<Longrightarrow> infos_of (insert p P) (insert p C) (add_colorized_pair infos p)"
  using infos_of_add [of P C "fst infos" "snd infos" "\<lambda>(ts, us). (set_add (fst p) ts, set_add (fst p) us)" "fst p" True "snd p"]
  by (simp add: add_colorized_pair_def case_prod_unfold Let_def)

lemma infos_of_pairs: "infos_of P C infos \<Longrightarrow> infos_of (P \<union> set ps) C (foldl add_pair infos ps)"
proof (induction ps arbitrary: P infos)
  case (Cons p ps)
  from Cons.IH [OF infos_of_add_pair [OF Cons.prems, of p]] show ?case by simp
qed simp

lemma infos_of_colorized: "infos_of P C infos \<Longrightarrow> infos_of (P \<union> set ps) (C \<union> set ps) (foldl add_colorized_pair infos ps)"
proof (induction ps arbitrary: P C infos)
  case (Cons p ps)
  from Cons.IH [OF infos_of_add_colorized [OF Cons.prems, of p]] show ?case by simp
qed simp

text \<open>The pairs that a configuration makes valid, and those of them that are colorized\<close>

definition valid_pairs :: "(js_string \<times> js_string) list option \<Rightarrow> (js_string \<times> js_string) set" where
  "valid_pairs brackets = (case brackets of None \<Rightarrow> {} | Some ps \<Rightarrow> {p \<in> set ps. fst p \<noteq> [] \<and> snd p \<noteq> []})"

definition colorized_pairs :: "(js_string \<times> js_string) list option \<Rightarrow> (js_string \<times> js_string) list option \<Rightarrow> (js_string \<times> js_string) set" where
  "colorized_pairs brackets colorized =
     (case colorized of None \<Rightarrow> valid_pairs brackets - {(js ''<'', js ''>'')} | Some ps \<Rightarrow> valid_pairs (Some ps))"

lemma configuration_infos:
  assumes "c = LanguageBracketsConfiguration_new ref languageId brackets colorized"
  shows "infos_of (valid_pairs brackets \<union> colorized_pairs brackets colorized) (colorized_pairs brackets colorized)
    (lbc_openingBrackets c, lbc_closingBrackets c)"
proof -
  let ?bs = "case brackets of None \<Rightarrow> [] | Some ps \<Rightarrow> filterValidBrackets ps"
  let ?cs = "case colorized of Some ps \<Rightarrow> filterValidBrackets ps
            | None \<Rightarrow> filter (\<lambda>p. \<not> (fst p = js ''<'' \<and> snd p = js ''>'')) ?bs"
  have sets: "set ?bs = valid_pairs brackets" "set ?cs = colorized_pairs brackets colorized"
    by (auto simp: valid_pairs_def colorized_pairs_def filterValidBrackets_def split: option.splits)
  have "infos_of {} {} ([], [])" by (simp add: infos_of_def texts_of_def)
  from infos_of_colorized [OF infos_of_pairs [OF this, of ?bs], of ?cs] show ?thesis
    unfolding assms sets by (simp add: LanguageBracketsConfiguration_new_def Let_def case_prod_unfold)
qed

lemma closes_pairs:
  assumes "c = LanguageBracketsConfiguration_new ref languageId brackets colorized"
  shows "closes_bracket (ClosingBracketKind c b) (OpeningBracketKind c a) \<longleftrightarrow> (a, b) \<in> valid_pairs brackets \<union> colorized_pairs brackets colorized"
    "closesColorized (ClosingBracketKind c b) (OpeningBracketKind c a) \<longleftrightarrow> (a, b) \<in> colorized_pairs brackets colorized"
proof -
  have "closes_bracket (ClosingBracketKind c b) (OpeningBracketKind c a) \<longleftrightarrow> a \<in> texts_of (lbc_closingBrackets c) fst b"
    "closesColorized (ClosingBracketKind c b) (OpeningBracketKind c a) \<longleftrightarrow> a \<in> texts_of (lbc_closingBrackets c) snd b"
    by (auto simp: closes_bracket_def closesColorized_def getOpeningBrackets_def openingColorizedBrackets_def texts_of_def image_image
        split: option.split)
  then show "closes_bracket (ClosingBracketKind c b) (OpeningBracketKind c a) \<longleftrightarrow> (a, b) \<in> valid_pairs brackets \<union> colorized_pairs brackets colorized"
    "closesColorized (ClosingBracketKind c b) (OpeningBracketKind c a) \<longleftrightarrow> (a, b) \<in> colorized_pairs brackets colorized"
    using configuration_infos [OF assms] by (simp_all add: infos_of_def)
qed

section \<open>Ids and tokens\<close>

lemma dense_inject: "dense p \<Longrightarrow> map_of p x = Some i \<Longrightarrow> map_of p y = Some i \<Longrightarrow> x = y"
proof -
  assume d: "dense p" and "map_of p x = Some i" "map_of p y = Some i"
  then have "(x, i) \<in> set p" "(y, i) \<in> set p" by (auto dest: map_of_SomeD)
  then obtain m n where "m < length p" "p ! m = (x, i)" "n < length p" "p ! n = (y, i)" by (auto simp: in_set_conv_nth)
  moreover have "snd (p ! k) = k" if "k < length p" for k using d that unfolding dense_def by (metis add_0 nth_map nth_upt)
  ultimately show "x = y" by (metis prod.sel(1) snd_conv)
qed

lemma bracket_key_inject: "bracket_key (OpeningBracketKind c a) = bracket_key (OpeningBracketKind c b) \<longleftrightarrow> a = b"
  by (simp add: bracket_key_def bracket_languageId_def)

lemma getId_dense:
  assumes "dense p" "getId p k = (i, p')"
  shows "dense p'" "map_of p' (bracket_key k) = Some i" "map_of p \<subseteq>\<^sub>m map_of p'"
  using getKey_dense [OF assms(1) assms(2) [unfolded getId_def]] by (auto simp: map_le_def)

text \<open>The token of an opening bracket carries its id, that of a closing bracket the ids of the brackets it closes.\<close>

definition opening_token :: "LanguageBracketsConfiguration \<Rightarrow> js_string DenseKeyProvider \<Rightarrow> js_string \<Rightarrow> BracketKind BracketToken \<Rightarrow> bool" where
  "opening_token c p t tok \<longleftrightarrow> (\<exists>i. map_of p (bracket_key (OpeningBracketKind c t)) = Some i \<and>
     tok = bracket_token OpeningBracketToken (OpeningBracketKind c t) i (SmallImmutableSet_add SmallImmutableSet_getEmpty i))"

definition closing_token :: "LanguageBracketsConfiguration \<Rightarrow> js_string DenseKeyProvider \<Rightarrow> js_string \<Rightarrow> BracketKind BracketToken \<Rightarrow> bool" where
  "closing_token c p t tok \<longleftrightarrow> (\<exists>i ids. tok = bracket_token ClosingBracketToken (ClosingBracketKind c t) i ids \<and>
     SmallImmutableSet_has ids i \<and> (\<forall>k \<in> set (getOpeningBrackets (ClosingBracketKind c t)). bracket_key k \<in> dom (map_of p)) \<and>
     (\<forall>j. SmallImmutableSet_has ids j \<longleftrightarrow> (\<exists>k \<in> set (getOpeningBrackets (ClosingBracketKind c t)). map_of p (bracket_key k) = Some j)))"

lemma opening_token_mono: "opening_token c p t tok \<Longrightarrow> map_of p \<subseteq>\<^sub>m map_of p' \<Longrightarrow> opening_token c p' t tok"
  unfolding opening_token_def by (metis domI map_le_def)

lemma closing_token_mono:
  assumes "closing_token c p t tok" "map_of p \<subseteq>\<^sub>m map_of p'"
  shows "closing_token c p' t tok"
proof -
  have "map_of p' x = map_of p x" if "x \<in> dom (map_of p)" for x using that assms(2) by (simp add: map_le_def)
  then show ?thesis using assms unfolding closing_token_def by (metis domIff)
qed

lemma opening_tokens_ok:
  "dense p \<Longrightarrow> distinct ts \<Longrightarrow> opening_tokens (map (OpeningBracketKind c) ts) (m, p) = (m', p') \<Longrightarrow>
   dense p' \<and> map_of p \<subseteq>\<^sub>m map_of p' \<and> (\<forall>t \<in> set ts. \<exists>tok. map_of m' t = Some tok \<and> opening_token c p' t tok) \<and>
   (\<forall>t. t \<notin> set ts \<longrightarrow> map_of m' t = map_of m t)"
proof (induction ts arbitrary: m p)
  case (Cons t ts)
  obtain i p1 where i: "getId p (OpeningBracketKind c t) = (i, p1)" by (cases "getId p (OpeningBracketKind c t)")
  note d = getId_dense [OF Cons.prems(1) i]
  let ?tok = "bracket_token OpeningBracketToken (OpeningBracketKind c t) i (SmallImmutableSet_add SmallImmutableSet_getEmpty i)"
  have r: "dense p'" "map_of p1 \<subseteq>\<^sub>m map_of p'" "\<forall>t \<in> set ts. \<exists>tok. map_of m' t = Some tok \<and> opening_token c p' t tok"
      "\<forall>t'. t' \<notin> set ts \<longrightarrow> map_of m' t' = map_of (AList.update t ?tok m) t'"
    using Cons.IH [OF d(1), of "AList.update t ?tok m"] Cons.prems(2,3) i by auto
  have "opening_token c p' t ?tok" using opening_token_mono [OF _ r(2), of c t ?tok] d(2) unfolding opening_token_def by blast
  then have "\<forall>t' \<in> set (t # ts). \<exists>tok. map_of m' t' = Some tok \<and> opening_token c p' t' tok"
    using r(3,4) Cons.prems(2) by (simp add: AList.update_conv)
  moreover have "\<forall>t'. t' \<notin> set (t # ts) \<longrightarrow> map_of m' t' = map_of m t'" using r(4) by (simp add: AList.update_conv)
  ultimately show ?case using r(1) map_le_trans [OF d(3) r(2)] by blast
qed simp

lemma opening_ids_ok:
  "dense p \<Longrightarrow> opening_ids ks ids p = (ids', p') \<Longrightarrow> dense p' \<and> map_of p \<subseteq>\<^sub>m map_of p' \<and> (\<forall>k \<in> set ks. bracket_key k \<in> dom (map_of p')) \<and>
   (\<forall>j. SmallImmutableSet_has ids' j \<longleftrightarrow> SmallImmutableSet_has ids j \<or> (\<exists>k \<in> set ks. map_of p' (bracket_key k) = Some j))"
proof (induction ks arbitrary: ids p)
  case (Cons k ks)
  obtain i p1 where i: "getId p k = (i, p1)" by (cases "getId p k")
  note d = getId_dense [OF Cons.prems(1) i]
  have r: "dense p'" "map_of p1 \<subseteq>\<^sub>m map_of p'" "\<forall>k \<in> set ks. bracket_key k \<in> dom (map_of p')"
      "\<And>j. SmallImmutableSet_has ids' j \<longleftrightarrow> SmallImmutableSet_has (SmallImmutableSet_add ids i) j \<or> (\<exists>k \<in> set ks. map_of p' (bracket_key k) = Some j)"
    using Cons.IH [OF d(1), of "SmallImmutableSet_add ids i"] Cons.prems(2) i by auto
  have "map_of p' (bracket_key k) = Some i" using d(2) r(2) by (metis domI map_le_def)
  then show ?case using r map_le_trans [OF d(3) r(2)] by (auto simp: bracket_ids.has_add)
qed simp

lemma closing_tokens_ok:
  "dense p \<Longrightarrow> distinct ts \<Longrightarrow> \<forall>t \<in> set ts. getOpeningBrackets (ClosingBracketKind c t) \<noteq> [] \<Longrightarrow>
   \<exists>m' p'. closing_tokens (map (ClosingBracketKind c) ts) (m, p) = Inr (m', p') \<and> dense p' \<and> map_of p \<subseteq>\<^sub>m map_of p' \<and>
     (\<forall>t \<in> set ts. \<exists>tok. map_of m' t = Some tok \<and> closing_token c p' t tok) \<and> (\<forall>t. t \<notin> set ts \<longrightarrow> map_of m' t = map_of m t)"
proof (induction ts arbitrary: m p)
  case (Cons t ts)
  let ?ks = "getOpeningBrackets (ClosingBracketKind c t)"
  obtain ids p1 where ids: "opening_ids ?ks SmallImmutableSet_getEmpty p = (ids, p1)" by (cases "opening_ids ?ks SmallImmutableSet_getEmpty p")
  note d1 = opening_ids_ok [OF Cons.prems(1) ids]
  obtain b bs where b: "?ks = b # bs" using Cons.prems(3) by (cases ?ks) auto
  obtain i p2 where i: "getId p1 b = (i, p2)" by (cases "getId p1 b")
  note d2 = getId_dense [OF conjunct1 [OF d1] i]
  let ?tok = "bracket_token ClosingBracketToken (ClosingBracketKind c t) i ids"
  have same: "map_of p2 (bracket_key k) = map_of p1 (bracket_key k)" if "k \<in> set ?ks" for k
    using d1 d2(3) that by (metis map_le_def)
  have "SmallImmutableSet_has ids i" using d1 d2(2) same [of b] b by (auto simp: bracket_ids.has_empty)
  then have tok: "closing_token c p2 t ?tok"
    using d1 same unfolding closing_token_def by (auto simp: bracket_ids.has_empty domIff intro!: exI [of _ i] exI [of _ ids])
  obtain m' p' where r: "closing_tokens (map (ClosingBracketKind c) ts) (AList.update t ?tok m, p2) = Inr (m', p')" "dense p'"
      "map_of p2 \<subseteq>\<^sub>m map_of p'" "\<forall>t \<in> set ts. \<exists>tok. map_of m' t = Some tok \<and> closing_token c p' t tok"
      "\<forall>t'. t' \<notin> set ts \<longrightarrow> map_of m' t' = map_of (AList.update t ?tok m) t'"
    using Cons.IH [OF d2(1), of "AList.update t ?tok m"] Cons.prems(2,3) by auto
  have "closing_tokens (map (ClosingBracketKind c) (t # ts)) (m, p) = Inr (m', p')" using ids b i r(1) by simp
  moreover have "\<forall>t' \<in> set (t # ts). \<exists>tok. map_of m' t' = Some tok \<and> closing_token c p' t' tok"
    using r(4,5) Cons.prems(2) closing_token_mono [OF tok r(3)] by (simp add: AList.update_conv)
  moreover have "\<forall>t'. t' \<notin> set (t # ts) \<longrightarrow> map_of m' t' = map_of m t'" using r(5) by (simp add: AList.update_conv)
  moreover have "map_of p \<subseteq>\<^sub>m map_of p'" using d1 map_le_trans [OF _ map_le_trans [OF d2(3) r(3)]] by blast
  ultimately show ?case using r(2) by blast
qed simp

lemma tokens_match_closes:
  assumes "dense p" "opening_token c p a ot" "closing_token c p b ct"
  shows "token_matches ct ot \<longleftrightarrow> closes_bracket (ClosingBracketKind c b) (OpeningBracketKind c a)"
proof -
  obtain i where i: "map_of p (bracket_key (OpeningBracketKind c a)) = Some i" "\<And>j. SmallImmutableSet_has (tk_bracketIds ot) j \<longleftrightarrow> j = i"
    using assms(2) by (auto simp: opening_token_def bracket_token_def Let_def bracket_ids.has_add bracket_ids.has_empty)
  have "token_matches ct ot \<longleftrightarrow> (\<exists>k \<in> set (getOpeningBrackets (ClosingBracketKind c b)). map_of p (bracket_key k) = Some i)"
    using assms(3) i(2) by (auto simp: token_matches_def bracket_ids.intersects_iff closing_token_def bracket_token_def Let_def)
  also have "\<dots> \<longleftrightarrow> (\<exists>k \<in> set (getOpeningBrackets (ClosingBracketKind c b)). k = OpeningBracketKind c a)"
  proof (intro bex_cong refl)
    fix k assume "k \<in> set (getOpeningBrackets (ClosingBracketKind c b))"
    then obtain t where "k = OpeningBracketKind c t" by (auto simp: getOpeningBrackets_def)
    then show "map_of p (bracket_key k) = Some i \<longleftrightarrow> k = OpeningBracketKind c a"
      using dense_inject [OF assms(1) _ i(1)] i(1) by (metis bracket_key_inject)
  qed
  also have "\<dots> \<longleftrightarrow> closes_bracket (ClosingBracketKind c b) (OpeningBracketKind c a)"
    by (auto simp: closes_bracket_def getOpeningBrackets_def image_image split: option.split)
  finally show ?thesis .
qed

lemma bracket_token_ok: "SmallImmutableSet_has ids i \<Longrightarrow> kind \<noteq> TextToken \<Longrightarrow> token_ok (bracket_token kind k i ids)"
  by (simp add: bracket_token_def token_ok_def Let_def)

lemma configuration_texts:
  assumes "c = LanguageBracketsConfiguration_new ref languageId brackets colorized"
  shows "distinct (map fst (lbc_openingBrackets c))" "distinct (map fst (lbc_closingBrackets c))"
    "t \<in> set (map fst (lbc_closingBrackets c)) \<Longrightarrow> getOpeningBrackets (ClosingBracketKind c t) \<noteq> []"
proof -
  note infos = configuration_infos [OF assms, unfolded infos_of_def fst_conv snd_conv]
  then show "distinct (map fst (lbc_openingBrackets c))" "distinct (map fst (lbc_closingBrackets c))" by blast+
  assume "t \<in> set (map fst (lbc_closingBrackets c))"
  then obtain a where "a \<in> texts_of (lbc_closingBrackets c) fst t" using infos by fastforce
  then show "getOpeningBrackets (ClosingBracketKind c t) \<noteq> []" by (auto simp: texts_of_def getOpeningBrackets_def split: option.splits)
qed

text \<open>The pairs of a configuration, and the texts of its brackets\<close>

definition config_pairs :: "(js_string \<times> js_string) list option \<Rightarrow> (js_string \<times> js_string) list option \<Rightarrow> (js_string \<times> js_string) set" where
  "config_pairs brackets colorized = valid_pairs brackets \<union> colorized_pairs brackets colorized"

definition bracket_texts :: "(js_string \<times> js_string) list option \<Rightarrow> (js_string \<times> js_string) list option \<Rightarrow> js_string set" where
  "bracket_texts brackets colorized = fst ` config_pairs brackets colorized \<union> snd ` config_pairs brackets colorized"

lemma create_tokens_ok:
  assumes "c = LanguageBracketsConfiguration_new ref languageId brackets colorized" "dense provider"
  shows "\<exists>m provider'. BracketTokens_createFromLanguage c provider = Inr (m, provider') \<and> dense provider' \<and>
    (\<forall>t. map_of m t = None \<longleftrightarrow> t \<notin> bracket_texts brackets colorized) \<and>
    (\<forall>t tok. map_of m t = Some tok \<longrightarrow> token_ok tok \<and> tk_length tok = toLength 0 (int (length t)) \<and>
       tk_kind tok = (if t \<in> snd ` config_pairs brackets colorized then ClosingBracketToken else OpeningBracketToken)) \<and>
    (\<forall>a b ot ct. map_of m a = Some ot \<and> tk_kind ot = OpeningBracketToken \<and> map_of m b = Some ct \<and> tk_kind ct = ClosingBracketToken \<longrightarrow>
       (token_matches ct ot \<longleftrightarrow> (a, b) \<in> config_pairs brackets colorized))"
proof -
  note texts = configuration_texts [OF assms(1)]
  obtain m1 p1 where 1: "opening_tokens (openingBrackets c) ([], provider) = (m1, p1)" by (cases "opening_tokens (openingBrackets c) ([], provider)")
  have o: "dense p1" "\<forall>t \<in> set (map fst (lbc_openingBrackets c)). \<exists>tok. map_of m1 t = Some tok \<and> opening_token c p1 t tok"
      "\<forall>t. t \<notin> set (map fst (lbc_openingBrackets c)) \<longrightarrow> map_of m1 t = None"
    using opening_tokens_ok [OF assms(2) texts(1), of c "[]" m1 p1] 1 by (auto simp: openingBrackets_def comp_def)
  obtain m p where 2: "closing_tokens (closingBrackets c) (m1, p1) = Inr (m, p)" "dense p" "map_of p1 \<subseteq>\<^sub>m map_of p"
      "\<forall>t \<in> set (map fst (lbc_closingBrackets c)). \<exists>tok. map_of m t = Some tok \<and> closing_token c p t tok"
      "\<forall>t. t \<notin> set (map fst (lbc_closingBrackets c)) \<longrightarrow> map_of m t = map_of m1 t"
    using closing_tokens_ok [OF o(1) texts(2), of c m1] texts(3) by (auto simp: closingBrackets_def comp_def)
  have tokens: "opening_token c p t tok \<or> closing_token c p t tok" if "map_of m t = Some tok" for t tok
    using that 2(4,5) o(2,3) opening_token_mono [OF _ 2(3)] by (metis option.distinct(1) option.inject)
  have kinds: "opening_token c p t tok \<Longrightarrow> tk_kind tok = OpeningBracketToken" "closing_token c p t tok \<Longrightarrow> tk_kind tok = ClosingBracketToken" for t tok
    by (auto simp: opening_token_def closing_token_def bracket_token_def Let_def)
  have keys: "set (map fst (lbc_openingBrackets c)) = fst ` config_pairs brackets colorized"
      "set (map fst (lbc_closingBrackets c)) = snd ` config_pairs brackets colorized"
    using configuration_infos [OF assms(1)] unfolding infos_of_def config_pairs_def fst_conv snd_conv by blast+
  have closing: "\<exists>tok. map_of m t = Some tok \<and> closing_token c p t tok" if "t \<in> snd ` config_pairs brackets colorized" for t
    using 2(4) that unfolding keys by blast
  have opens: "\<exists>tok. map_of m t = Some tok \<and> opening_token c p1 t tok"
    if "t \<in> fst ` config_pairs brackets colorized" "t \<notin> snd ` config_pairs brackets colorized" for t
    using 2(5) o(2) that unfolding keys by (metis (no_types, lifting))
  have neither: "map_of m t = None"
    if "t \<notin> fst ` config_pairs brackets colorized" "t \<notin> snd ` config_pairs brackets colorized" for t
    using 2(5) o(3) that unfolding keys by simp
  have "map_of m t = None \<longleftrightarrow> t \<notin> bracket_texts brackets colorized" for t
    using closing [of t] opens [of t] neither [of t] unfolding bracket_texts_def by fastforce
  moreover have "token_ok tok \<and> tk_length tok = toLength 0 (int (length t))" if "map_of m t = Some tok" for t tok
    using tokens [OF that] unfolding opening_token_def closing_token_def
    by (elim disjE exE conjE) (simp_all add: bracket_token_ok bracket_ids.has_add, simp_all add: bracket_token_def Let_def)
  moreover have "tk_kind tok = (if t \<in> snd ` config_pairs brackets colorized then ClosingBracketToken else OpeningBracketToken)"
    if "map_of m t = Some tok" for t tok
  proof (cases "t \<in> snd ` config_pairs brackets colorized")
    case True
    then show ?thesis using closing [OF True] that kinds(2) [of t tok] by auto
  next
    case False
    then have "t \<in> fst ` config_pairs brackets colorized" using neither [of t] that by auto
    from opens [OF this False] opening_token_mono [OF _ 2(3)] that kinds(1) [of t tok] False show ?thesis by auto
  qed
  moreover have "token_matches ct ot \<longleftrightarrow> (a, b) \<in> config_pairs brackets colorized"
    if "map_of m a = Some ot" "tk_kind ot = OpeningBracketToken" "map_of m b = Some ct" "tk_kind ct = ClosingBracketToken" for a b ot ct
    using that tokens kinds tokens_match_closes [OF 2(2)] closes_pairs(1) [OF assms(1), folded config_pairs_def] by (metis TokenKind.distinct(5))
  ultimately show ?thesis using 1 2(1,2) by (auto simp: BracketTokens_createFromLanguage_def)
qed

text \<open>
  C9: The tokens that are made of a language's brackets are exactly those of its configuration, and pair up as it says.
  For every configuration and every key provider in use, the construction succeeds; there is a token for a text if and only if the text is
  an opening or a closing text of a bracket pair or a colorized bracket pair without empty texts; the token is well-formed, as long as the text, and
  a closing one if and only if the text closes a pair; and the token of a closing bracket matches that of an opening one if and
  only if the two are one of these pairs.
\<close>

theorem createFromLanguage_pairs:
  assumes "c = LanguageBracketsConfiguration_new ref languageId brackets colorized" "dense provider"
  shows "\<exists>m provider'. BracketTokens_createFromLanguage c provider = Inr (m, provider') \<and> dense provider' \<and>
    (\<forall>t. map_of m t = None \<longleftrightarrow> t \<notin> bracket_texts brackets colorized) \<and>
    (\<forall>t tok. map_of m t = Some tok \<longrightarrow> token_ok tok \<and> tk_length tok = toLength 0 (int (length t)) \<and>
       tk_kind tok = (if t \<in> snd ` config_pairs brackets colorized then ClosingBracketToken else OpeningBracketToken)) \<and>
    (\<forall>a b ot ct. map_of m a = Some ot \<and> tk_kind ot = OpeningBracketToken \<and> map_of m b = Some ct \<and> tk_kind ct = ClosingBracketToken \<longrightarrow>
       (token_matches ct ot \<longleftrightarrow> (a, b) \<in> config_pairs brackets colorized))"
  using create_tokens_ok [OF assms] .

theorem createFromLanguage_pairs_witness:
  "\<exists>m provider opn close other. BracketTokens_createFromLanguage
      (LanguageBracketsConfiguration_new 0 (js ''c'') (Some [(js ''('', js '')''), (js ''['', js '']''), (js ''<'', js ''>'')]) None) [] = Inr (m, provider) \<and>
    map_of m (js ''('') = Some opn \<and> tk_kind opn = OpeningBracketToken \<and> map_of m (js '')'') = Some close \<and> tk_kind close = ClosingBracketToken \<and>
    map_of m (js '']'') = Some other \<and> token_matches close opn \<and> \<not> token_matches other opn \<and> map_of m (js ''{'') = None"
proof -
  let ?bs = "Some [(js ''('', js '')''), (js ''['', js '']''), (js ''<'', js ''>'')]"
  have pairs: "config_pairs ?bs None = {(js ''('', js '')''), (js ''['', js '']''), (js ''<'', js ''>'')}"
    by (auto simp: config_pairs_def valid_pairs_def colorized_pairs_def js_def)
  obtain m provider where m: "BracketTokens_createFromLanguage (LanguageBracketsConfiguration_new 0 (js ''c'') ?bs None) [] = Inr (m, provider)"
      "\<forall>t. map_of m t = None \<longleftrightarrow> t \<notin> bracket_texts ?bs None"
      "\<forall>t tok. map_of m t = Some tok \<longrightarrow> token_ok tok \<and> tk_length tok = toLength 0 (int (length t)) \<and>
         tk_kind tok = (if t \<in> snd ` config_pairs ?bs None then ClosingBracketToken else OpeningBracketToken)"
      "\<forall>a b ot ct. map_of m a = Some ot \<and> tk_kind ot = OpeningBracketToken \<and> map_of m b = Some ct \<and> tk_kind ct = ClosingBracketToken \<longrightarrow>
         (token_matches ct ot \<longleftrightarrow> (a, b) \<in> config_pairs ?bs None)"
    using createFromLanguage_pairs [OF refl, of "[]" 0 "js ''c''" ?bs None] by (auto simp: dense_def)
  note m = m(1) m(2-4) [unfolded bracket_texts_def pairs]
  have "map_of m (js ''('') \<noteq> None" "map_of m (js '')'') \<noteq> None" "map_of m (js '']'') \<noteq> None" and none: "map_of m (js ''{'') = None"
    using m(2) by (simp_all add: js_def)
  then obtain opn close other where toks: "map_of m (js ''('') = Some opn" "map_of m (js '')'') = Some close" "map_of m (js '']'') = Some other" by blast
  have kinds: "tk_kind opn = OpeningBracketToken" "tk_kind close = ClosingBracketToken" "tk_kind other = ClosingBracketToken"
    using m(3) toks by (simp_all add: js_def)
  then have "token_matches close opn" "\<not> token_matches other opn"
    using m(4) toks by (auto simp: js_def)
  with m(1) toks kinds none show ?thesis by blast
qed

end
