(* ===== verification/FastTokens.thy ===== *)
theory FastTokens
  imports LanguageBrackets PackedTexts "HOL-Library.Sublist"
begin

text \<open>
  The tokens that \<open>FastTokenizer\<close> cuts a text into, and the tree that the parser makes of them.
  The matches of the expression are those of \<open>regexp.exec\<close> with the global flag: from left to
  right, none of them empty, with all line breaks between them among them.
\<close>

section \<open>Matches of the bracket expression\<close>

text \<open>A text cut into stretches without a match, each followed by a match\<close>

type_synonym cuts = "(js_string \<times> js_string) list"

fun cut_text :: "cuts \<Rightarrow> js_string" where
  "cut_text [] = []"
| "cut_text ((g, v) # cs) = g @ v @ cut_text cs"

fun cut_matches :: "int \<Rightarrow> cuts \<Rightarrow> (int \<times> js_string) list" where
  "cut_matches o1 [] = []"
| "cut_matches o1 ((g, v) # cs) = (o1 + int (length g), v) # cut_matches (o1 + int (length g) + int (length v)) cs"

definition global_matches :: "js_string \<Rightarrow> (int \<times> js_string) list \<Rightarrow> bool" where
  "global_matches str ms \<longleftrightarrow> (\<exists>cs w. ms = cut_matches 0 cs \<and> str = cut_text cs @ w \<and> LF \<notin> set w \<and>
     (\<forall>(g, v) \<in> set cs. LF \<notin> set g \<and> v \<noteq> [] \<and> (v = [LF] \<or> LF \<notin> set v)))"

lemma cut_matches_snoc: "cut_matches o1 (cs @ [(g, v)]) =
    cut_matches o1 cs @ [(o1 + int (length (cut_text cs)) + int (length g), v)]"
  by (induction o1 cs rule: cut_matches.induct) auto

lemma cut_text_append: "cut_text (cs @ ds) = cut_text cs @ cut_text ds"
  by (induction cs rule: cut_text.induct) auto

section \<open>The state of the constructor\<close>

lemma tlen_no_LF: "LF \<notin> set s \<Longrightarrow> tlen s = TextLength 0 (int (length s))"
  by (induction s rule: rev_induct) (auto simp: tlen_snoc tlen_step_def TextLength_zero_def)

lemma plen_no_LF: "LF \<notin> set s \<Longrightarrow> plen s = toLength 0 (int (length s))"
  by (simp add: plen_def tlen_no_LF)

lemma tlen_no_lines: "lineCount (tlen s) = 0 \<Longrightarrow> columnCount (tlen s) = int (length s)"
proof (induction s rule: rev_induct)
  case (snoc c s)
  then show ?case using tlen_bounds [of s] by (auto simp: tlen_snoc tlen_step_def split: if_splits)
qed (simp add: TextLength_zero_def)

text \<open>After the text \<open>p\<close>, of which the tokens cover the front \<open>q\<close>\<close>

definition fast_inv :: "js_string \<Rightarrow> js_string \<Rightarrow> js_string list \<Rightarrow> 'b BracketToken list \<Rightarrow> 'b fast_state \<Rightarrow> bool" where
  "fast_inv p q pieces tokens s \<longleftrightarrow> fs_tokens s = map Some tokens \<and> map tk_length tokens = map plen pieces \<and> concat pieces = q \<and> [] \<notin> set pieces \<and>
     fs_curLineCount s = lineCount (tlen p) \<and> fs_lastLineBreakOffset s = int (length p) - columnCount (tlen p) \<and>
     fs_lastTokenEndOffset s = int (length q) \<and> fs_lastTokenEndLine s = lineCount (tlen q)"

lemma fast_text_length:
  assumes "fast_inv p q pieces tokens s" "p = q @ r" "LF \<notin> set g"
  shows "tk_length (fast_text s (int (length (p @ g)))) = plen (r @ g)"
proof -
  have cur: "fs_curLineCount s = lineCount (tlen q) + lineCount (tlen r)" "fs_lastTokenEndLine s = lineCount (tlen q)"
    "fs_lastTokenEndOffset s = int (length q)"
    using assms(1,2) by (simp_all add: fast_inv_def tlen_append TextLength_add_def)
  have rg: "lineCount (tlen (r @ g)) = lineCount (tlen r)" "columnCount (tlen (r @ g)) = columnCount (tlen r) + int (length g)"
    using assms(3) by (simp_all add: tlen_append tlen_no_LF TextLength_add_def)
  show ?thesis
  proof (cases "lineCount (tlen r) = 0")
    case True
    then show ?thesis using cur rg assms(2) tlen_no_lines [of r] by (simp add: fast_text_def text_token_def plen_def)
  next
    case False
    then have "columnCount (tlen p) = columnCount (tlen r)" "lineCount (tlen r) > 0"
      using assms(2) tlen_bounds [of r] by (simp_all add: tlen_append TextLength_add_def)
    then have "fs_lastLineBreakOffset s = int (length p) - columnCount (tlen r)" using assms(1) by (simp add: fast_inv_def)
    then show ?thesis using False cur rg by (simp add: fast_text_def text_token_def plen_def add.commute)
  qed
qed

text \<open>The text token in front of a match, or at the end\<close>

lemma fast_push_text_inv:
  assumes "fast_inv p q pieces tokens s" "p = q @ r" "LF \<notin> set g" "\<forall>t \<in> set tokens. token_ok t"
  shows "\<exists>pieces' tokens'. fast_push_text s (int (length (p @ g))) = map Some tokens' \<and> map tk_length tokens' = map plen pieces' \<and>
    concat pieces' = p @ g \<and> [] \<notin> set pieces' \<and> (\<forall>t \<in> set tokens'. token_ok t)"
proof (cases "r @ g = []")
  case True
  then show ?thesis using assms by (auto simp: fast_push_text_def fast_inv_def intro!: exI [of _ pieces])
next
  case False
  have "token_ok (text_token l :: 'a BracketToken)" for l by (simp add: token_ok_def text_token_def)
  then have "token_ok (fast_text s (int (length (p @ g))))" by (simp add: fast_text_def)
  moreover have "int (length r) + int (length g) \<noteq> 0" using False by (cases r; cases g) auto
  then have "fast_push_text s (int (length (p @ g))) = map Some (tokens @ [fast_text s (int (length (p @ g)))])"
    using assms(1,2) by (simp add: fast_push_text_def fast_inv_def)
  moreover note fast_text_length [OF assms(1-3)]
  ultimately show ?thesis
    using assms False by (intro exI [of _ "pieces @ [r @ g]"] exI [of _ "tokens @ [fast_text s (int (length (p @ g)))]"]) (auto simp: fast_inv_def)
qed

lemma fast_match_inv:
  assumes "fast_inv p q pieces tokens s" "p = q @ r" "LF \<notin> set g" "v = [LF] \<or> LF \<notin> set v" "v \<noteq> []" "\<forall>t \<in> set tokens. token_ok t"
    "v \<noteq> [LF] \<Longrightarrow> \<exists>t. getToken v = Some t \<and> token_ok t \<and> tk_length t = toLength 0 (int (length v))"
  shows "\<exists>q' r' pieces' tokens'. fast_inv (p @ g @ v) q' pieces' tokens' (fast_match getToken s (int (length (p @ g)), v)) \<and>
    p @ g @ v = q' @ r' \<and> (\<forall>t \<in> set tokens'. token_ok t)"
proof (cases "v = [LF]")
  case True
  then have "fast_inv (p @ g @ v) q pieces tokens (fast_match getToken s (int (length (p @ g)), v))"
    using assms(1,3) by (simp add: fast_inv_def tlen_append tlen_no_LF TextLength_add_def) (simp add: tlen_def tlen_step_def TextLength_zero_def)
  with assms(2,6) show ?thesis by (intro exI [of _ q] exI [of _ "r @ g @ v"] exI [of _ pieces] exI [of _ tokens]) simp
next
  case False
  then obtain t where t: "getToken v = Some t" "token_ok t" "tk_length t = plen v" and v: "LF \<notin> set v"
    using assms(4,7) by (auto simp: plen_no_LF)
  obtain pieces' tokens' where push: "fast_push_text s (int (length (p @ g))) = map Some tokens'" "map tk_length tokens' = map plen pieces'"
      "concat pieces' = p @ g" "[] \<notin> set pieces'" "\<forall>t \<in> set tokens'. token_ok t"
    using fast_push_text_inv [OF assms(1-3,6)] by blast
  have "fast_inv (p @ g @ v) (p @ g @ v) (pieces' @ [v]) (tokens' @ [t]) (fast_match getToken s (int (length (p @ g)), v))"
    using False t push assms(1,3,5) v by (simp add: fast_inv_def tlen_append tlen_no_LF TextLength_add_def)
  with push(5) t(2) show ?thesis
    by (intro exI [of _ "p @ g @ v"] exI [of _ "[]"] exI [of _ "pieces' @ [v]"] exI [of _ "tokens' @ [t]"]) auto
qed

lemma fast_matches_inv:
  assumes "\<forall>(g, v) \<in> set cs. LF \<notin> set g \<and> v \<noteq> [] \<and> (v = [LF] \<or> LF \<notin> set v)"
    "\<forall>(g, v) \<in> set cs. v \<noteq> [LF] \<longrightarrow> (\<exists>t. getToken v = Some t \<and> token_ok t \<and> tk_length t = toLength 0 (int (length v)))"
  shows "\<exists>q r pieces tokens. fast_inv (cut_text cs) q pieces tokens (foldl (fast_match getToken)
      \<lparr>fs_tokens = [], fs_curLineCount = 0, fs_lastLineBreakOffset = 0, fs_lastTokenEndOffset = 0, fs_lastTokenEndLine = 0\<rparr> (cut_matches 0 cs)) \<and>
    cut_text cs = q @ r \<and> (\<forall>t \<in> set tokens. token_ok t)"
  using assms
proof (induction cs rule: rev_induct)
  case Nil
  show ?case by (intro exI [of _ "[]"]) (simp add: fast_inv_def TextLength_zero_def)
next
  case (snoc c cs)
  obtain g v where c: "c = (g, v)" by (cases c)
  let ?s = "foldl (fast_match getToken)
      \<lparr>fs_tokens = [], fs_curLineCount = 0, fs_lastLineBreakOffset = 0, fs_lastTokenEndOffset = 0, fs_lastTokenEndLine = 0\<rparr> (cut_matches 0 cs)"
  obtain q r pieces tokens where inv: "fast_inv (cut_text cs) q pieces tokens ?s" "cut_text cs = q @ r" "\<forall>t \<in> set tokens. token_ok t"
    using snoc.IH snoc.prems by (metis (no_types, lifting) UnCI set_append)
  have gv: "LF \<notin> set g" "v = [LF] \<or> LF \<notin> set v" "v \<noteq> []"
      "v \<noteq> [LF] \<Longrightarrow> \<exists>t. getToken v = Some t \<and> token_ok t \<and> tk_length t = toLength 0 (int (length v))"
    using snoc.prems c by auto
  show ?case using fast_match_inv [where getToken = getToken, OF inv(1,2) gv(1,2,3) inv(3) gv(4)] c by (simp add: cut_matches_snoc cut_text_append)
qed

lemma FastTokenizer_new_covers:
  assumes "global_matches str ms"
    "\<And>o1 v. (o1, v) \<in> set ms \<Longrightarrow> v \<noteq> [LF] \<Longrightarrow> \<exists>t. getToken v = Some t \<and> token_ok t \<and> tk_length t = toLength 0 (int (length v))"
  shows "\<exists>tokens pieces. tokens_of (FastTokenizer_new str (Some ms) getToken) tokens \<and> (\<forall>t \<in> set tokens. token_ok t) \<and>
    map tk_length tokens = map plen pieces \<and> concat pieces = str \<and> [] \<notin> set pieces \<and> ft_length (FastTokenizer_new str (Some ms) getToken) = plen str"
proof -
  obtain cs w where cs: "ms = cut_matches 0 cs" "str = cut_text cs @ w" "LF \<notin> set w"
      "\<forall>(g, v) \<in> set cs. LF \<notin> set g \<and> v \<noteq> [] \<and> (v = [LF] \<or> LF \<notin> set v)"
    using assms(1) by (auto simp: global_matches_def)
  have "\<exists>o1. (o1, v) \<in> set (cut_matches p cs)" if "(g, v) \<in> set cs" for g v p using that
    by (induction p cs rule: cut_matches.induct) auto
  then have get: "\<forall>(g, v) \<in> set cs. v \<noteq> [LF] \<longrightarrow> (\<exists>t. getToken v = Some t \<and> token_ok t \<and> tk_length t = toLength 0 (int (length v)))"
    using assms(2) cs(1) by blast
  let ?s = "foldl (fast_match getToken)
      \<lparr>fs_tokens = [], fs_curLineCount = 0, fs_lastLineBreakOffset = 0, fs_lastTokenEndOffset = 0, fs_lastTokenEndLine = 0\<rparr> ms"
  obtain q r pieces tokens where inv: "fast_inv (cut_text cs) q pieces tokens ?s" "cut_text cs = q @ r" "\<forall>t \<in> set tokens. token_ok t"
    using fast_matches_inv [OF cs(4) get] unfolding cs(1) by blast
  obtain pieces' tokens' where push: "fast_push_text ?s (int (length str)) = map Some tokens'" "map tk_length tokens' = map plen pieces'"
      "concat pieces' = str" "[] \<notin> set pieces'" "\<forall>t \<in> set tokens'. token_ok t"
    using fast_push_text_inv [OF inv(1,2) cs(3) inv(3)] cs(2) by auto
  have "toLength (fs_curLineCount ?s) (int (length str) - fs_lastLineBreakOffset ?s) = plen str"
    using inv(1) cs(2,3) by (simp add: fast_inv_def plen_def tlen_append tlen_no_LF TextLength_add_def add.commute)
  with push show ?thesis by (intro exI [of _ tokens'] exI [of _ pieces']) (simp add: FastTokenizer_new_def Let_def tokens_of_def)
qed

section \<open>The initial tree\<close>

lemma lengths_fit_pieces: "short (concat pieces) \<Longrightarrow> lengths_fit (map plen pieces) \<and> total_length (map plen pieces) = plen (concat pieces)"
proof (induction pieces rule: rev_induct)
  case (snoc x xs)
  have short: "short (concat xs)" "short x" "short (concat xs @ x)" using snoc.prems by simp_all
  have "sum_list (map cols (map plen ys)) \<le> int (length (concat ys))" if "short (concat ys)" for ys using that
  proof (induction ys)
    case (Cons y ys)
    then show ?case using tlen_bounds [of y] by (simp add: cols_plen)
  qed simp
  from this [of "xs @ [x]"] snoc.prems have "lengths_fit (map plen (xs @ [x]))" by (simp add: lengths_fit_def)
  with snoc.IH [OF short(1)] plen_append [OF short(3)] show ?case by simp
qed (simp add: lengths_fit_def length_factor_def)

lemma pieces_bound: "[] \<notin> set pieces \<Longrightarrow> length pieces \<le> length (concat pieces)"
proof (induction pieces)
  case (Cons x xs)
  then show ?case by (cases x) auto
qed simp

text \<open>The tree of tokens that cover the beginning of a text, up to where the tokenizer has \<open>undefined\<close> for a token or its end\<close>

lemma tree_covers:
  assumes "fast_rest ft = tokens" "\<forall>t \<in> set tokens. token_ok t" "map tk_length tokens = map plen pieces" "concat pieces = p" "[] \<notin> set pieces"
    "short p" "2 * length p + 1 \<le> fuel"
  shows "\<exists>n. parseDocument FastTokenizer_methods rf fuel ft es None i = Some (Inr n) \<and> (n = ListAstNode_getEmpty \<and> p = [] \<or> ast_ok n) \<and>
    leaf_lengths n = map plen pieces \<and> ast_length n = plen p"
proof -
  have "length tokens \<le> length p" using assms(3-5) pieces_bound [of pieces] by (metis length_map)
  then have "2 * length tokens + 1 \<le> fuel" using assms(7) by simp
  then obtain n where n: "parseDocument FastTokenizer_methods rf fuel ft es None i = Some (Inr n)"
      "n = ListAstNode_getEmpty \<and> tokens = [] \<or> ast_ok n" "leaf_lengths n = map tk_length tokens"
    using fast.parseDocument_stack_parse [of ft fuel rf es i] assms(1,2) by auto
  moreover have "ast_length n = plen p"
    using parse_fast_length [OF n(2,3)] lengths_fit_pieces [of pieces] assms(3,4,6) by simp
  moreover have "tokens = [] \<Longrightarrow> p = []" using assms(3,4) by simp
  ultimately show ?thesis using assms(3) by metis
qed

text \<open>What \<open>getToken\<close> finds for the text of a match\<close>

lemma getToken_known:
  assumes "c = LanguageBracketsConfiguration_new ref languageId brackets colorized" "dense provider"
    "BracketTokens_createFromLanguage c provider = Inr (m, provider')" "toLowerCase v \<in> bracket_texts brackets colorized"
    "length (toLowerCase v) = length v"
  shows "\<exists>t. BracketTokens_getToken toLowerCase m v = Some t \<and> token_ok t \<and> tk_length t = toLength 0 (int (length v))"
  using create_tokens_ok [OF assms(1,2)] assms(3-5) by (fastforce simp: BracketTokens_getToken_def)

lemma getToken_unknown:
  assumes "c = LanguageBracketsConfiguration_new ref languageId brackets colorized" "dense provider"
    "BracketTokens_createFromLanguage c provider = Inr (m, provider')" "toLowerCase v \<notin> bracket_texts brackets colorized"
  shows "BracketTokens_getToken toLowerCase m v = None"
  using create_tokens_ok [OF assms(1,2)] assms(3,4) by (fastforce simp: BracketTokens_getToken_def)

text \<open>
  C7: The initial tree of a document covers its text. Given the tokens of the brackets of a language, all of them configured in lower case,
  and the matches of the bracket expression in a text of less than \<open>2^26\<close> code units (from left to right, with every line break,
  each other match being the text of a bracket up to case and of the same length), tokenizing and parsing the text from scratch
  terminates without an error, the leaves of the tree are the consecutive stretches of the
  text, and the length of the tree is the length of the text.
\<close>

theorem initial_tree_covers_text:
  assumes "c = LanguageBracketsConfiguration_new ref languageId brackets colorized" "dense provider"
    "BracketTokens_createFromLanguage c provider = Inr (m, provider')" "\<forall>t \<in> bracket_texts brackets colorized. toLowerCase t = t"
    "global_matches str ms" "short str"
    "\<forall>(o1, v) \<in> set ms. v \<noteq> [LF] \<longrightarrow> (\<exists>t \<in> bracket_texts brackets colorized. toLowerCase v = toLowerCase t \<and> length v = length t)"
    "2 * length str + 1 \<le> fuel"
  shows "\<exists>n pieces. parseDocument FastTokenizer_methods rf fuel (FastTokenizer_new str (Some ms) (BracketTokens_getToken toLowerCase m)) es None i =
      Some (Inr n) \<and> (n = ListAstNode_getEmpty \<and> str = [] \<or> ast_ok n) \<and>
    leaf_lengths n = map plen pieces \<and> concat pieces = str \<and> ast_length n = plen str"
proof -
  let ?ft = "FastTokenizer_new str (Some ms) (BracketTokens_getToken toLowerCase m)"
  have get: "\<exists>t. BracketTokens_getToken toLowerCase m v = Some t \<and> token_ok t \<and> tk_length t = toLength 0 (int (length v))"
    if v: "(o1, v) \<in> set ms" "v \<noteq> [LF]" for o1 v
  proof -
    obtain t where "t \<in> bracket_texts brackets colorized" "toLowerCase v = toLowerCase t" "length v = length t" using assms(7) v by blast
    then show ?thesis using getToken_known [OF assms(1-3), of toLowerCase v] assms(4) by simp
  qed
  obtain tokens pieces where tokens: "tokens_of ?ft tokens" "\<forall>t \<in> set tokens. token_ok t" "map tk_length tokens = map plen pieces"
      "concat pieces = str" "[] \<notin> set pieces"
    using FastTokenizer_new_covers [OF assms(5), of "BracketTokens_getToken toLowerCase m"] get by blast
  with tree_covers [OF tokens_of_rest [OF tokens(1)] tokens(2-5) assms(6,8)] show ?thesis by blast
qed

text \<open>Samples for the examples: a language with one pair of brackets, and the lower case of the letters A to Z\<close>

definition sample_language :: "js_string \<Rightarrow> js_string \<Rightarrow> LanguageBracketsConfiguration" where
  "sample_language a b = LanguageBracketsConfiguration_new 0 (js ''x'') (Some [(a, b)]) None"

definition ascii_lower :: "js_string \<Rightarrow> js_string" where
  "ascii_lower s = map (\<lambda>c. if 0x41 \<le> c \<and> c \<le> 0x5A then c + 0x20 else c) s"

lemma sample_texts:
  assumes "a \<noteq> []" "b \<noteq> []"
  shows "bracket_texts (Some [(a, b)]) None = {a, b}"
proof -
  have "valid_pairs (Some [(a, b)]) = {(a, b)}" using assms by (auto simp: valid_pairs_def)
  then show ?thesis by (auto simp: bracket_texts_def config_pairs_def colorized_pairs_def)
qed

lemma sample_tokens: "\<exists>m provider. BracketTokens_createFromLanguage (sample_language a b) [] = Inr (m, provider)"
  using create_tokens_ok [OF sample_language_def, of "[]" a b] by (auto simp: dense_def)

text \<open>The brackets \<open>begin\<close> and \<open>end\<close>, and the text \<open>Begin\<close>, a line break, and \<open>end\<close>\<close>

theorem initial_tree_covers_text_witness:
  "\<exists>m provider n. BracketTokens_createFromLanguage (sample_language (js ''begin'') (js ''end'')) [] = Inr (m, provider) \<and>
    parseDocument FastTokenizer_methods 0 19 (FastTokenizer_new (js ''Begin'' @ [LF] @ js ''end'') (Some [(0, js ''Begin''), (5, [LF]), (6, js ''end'')])
      (BracketTokens_getToken ascii_lower m)) [] None True = Some (Inr n) \<and>
    ast_length n = toLength 1 3"
proof -
  obtain m p where m: "BracketTokens_createFromLanguage (sample_language (js ''begin'') (js ''end'')) [] = Inr (m, p)" using sample_tokens by blast
  have texts: "bracket_texts (Some [(js ''begin'', js ''end'')]) None = {js ''begin'', js ''end''}"
    by (rule sample_texts) (simp_all add: js_def)
  let ?str = "js ''Begin'' @ [LF] @ js ''end''" and ?ms = "[(0, js ''Begin''), (5, [LF]), (6, js ''end'')]"
  have "global_matches ?str ?ms"
    unfolding global_matches_def
    by (intro exI [of _ "[([], js ''Begin''), ([], [LF]), ([], js ''end'')]"] exI [of _ "[]"]) (simp add: js_def)
  from initial_tree_covers_text [OF sample_language_def _ m _ this, of ascii_lower 19 0 "[]" True] texts
  obtain n where "parseDocument FastTokenizer_methods 0 19 (FastTokenizer_new ?str (Some ?ms) (BracketTokens_getToken ascii_lower m)) [] None True = Some (Inr n)"
      "ast_length n = plen ?str"
    by (auto simp: dense_def ascii_lower_def js_def length_factor_def)
  moreover have "plen ?str = toLength 1 3" by (simp add: js_def plen_def tlen_def tlen_step_def TextLength_zero_def)
  ultimately show ?thesis using m by auto
qed

section \<open>Brackets that are not found\<close>

lemma fast_match_extends: "prefix (fs_tokens s) (fs_tokens (fast_match getToken s x))"
  by (cases x) (auto simp: fast_push_text_def)

lemma fast_matches_extend: "prefix (fs_tokens s) (fs_tokens (foldl (fast_match getToken) s ms))"
proof (induction ms arbitrary: s)
  case (Cons x ms)
  show ?case using prefix_order.trans [OF fast_match_extends Cons.IH] by simp
qed simp

lemma cut_matches_append: "cut_matches o1 (cs @ ds) = cut_matches o1 cs @ cut_matches (o1 + int (length (cut_text cs))) ds"
  by (induction o1 cs rule: cut_matches.induct) (auto simp: ac_simps)

lemma cut_matches_split:
  "cut_matches o1 cs = ms1 @ (o2, v) # ms2 \<Longrightarrow>
   \<exists>cs1 g cs2. cs = cs1 @ (g, v) # cs2 \<and> ms1 = cut_matches o1 cs1 \<and> o2 = o1 + int (length (cut_text cs1)) + int (length g)"
proof (induction o1 cs arbitrary: ms1 rule: cut_matches.induct)
  case (2 o1 g w cs)
  show ?case
  proof (cases ms1)
    case Nil
    then show ?thesis using "2.prems" by (intro exI [of _ "[]"] exI [of _ g] exI [of _ cs]) auto
  next
    case (Cons x ms)
    then have "cut_matches (o1 + int (length g) + int (length w)) cs = ms @ (o2, v) # ms2" "x = (o1 + int (length g), w)" using "2.prems" by auto
    with "2.IH" [OF this(1)] Cons obtain cs1 h cs2 where "cs = cs1 @ (h, v) # cs2" "ms = cut_matches (o1 + int (length g) + int (length w)) cs1"
        "o2 = o1 + int (length g) + int (length w) + int (length (cut_text cs1)) + int (length h)" by blast
    with Cons \<open>x = _\<close> show ?thesis by (intro exI [of _ "(g, w) # cs1"] exI [of _ h] exI [of _ cs2]) auto
  qed
qed simp

text \<open>The tokens in front of the first match that has no token\<close>

lemma FastTokenizer_new_front:
  assumes "global_matches str (ms1 @ (o1, v) # ms2)" "v \<noteq> [LF]" "getToken v = None"
    "\<And>o2 u. (o2, u) \<in> set ms1 \<Longrightarrow> u \<noteq> [LF] \<Longrightarrow> \<exists>t. getToken u = Some t \<and> token_ok t \<and> tk_length t = toLength 0 (int (length u))"
  shows "\<exists>tokens pieces. fast_rest (FastTokenizer_new str (Some (ms1 @ (o1, v) # ms2)) getToken) = tokens \<and> (\<forall>t \<in> set tokens. token_ok t) \<and>
    map tk_length tokens = map plen pieces \<and> concat pieces = take (nat o1) str \<and> [] \<notin> set pieces"
proof -
  obtain cs w where cs: "cut_matches 0 cs = ms1 @ (o1, v) # ms2" "str = cut_text cs @ w"
      "\<forall>(g, v) \<in> set cs. LF \<notin> set g \<and> v \<noteq> [] \<and> (v = [LF] \<or> LF \<notin> set v)"
    using assms(1) by (auto simp: global_matches_def)
  obtain cs1 g cs2 where split: "cs = cs1 @ (g, v) # cs2" "ms1 = cut_matches 0 cs1" "o1 = int (length (cut_text cs1 @ g))"
    using cut_matches_split [OF cs(1)] by auto
  have front: "take (nat o1) str = cut_text cs1 @ g" using split cs(2) by (simp add: cut_text_append)
  have "\<exists>o2. (o2, u) \<in> set (cut_matches p cs1)" if "(h, u) \<in> set cs1" for h u p using that
    by (induction p cs1 rule: cut_matches.induct) auto
  then have get: "\<forall>(g, v) \<in> set cs1. v \<noteq> [LF] \<longrightarrow> (\<exists>t. getToken v = Some t \<and> token_ok t \<and> tk_length t = toLength 0 (int (length v)))"
    using assms(4) split(2) by blast
  have ok: "\<forall>(g, v) \<in> set cs1. LF \<notin> set g \<and> v \<noteq> [] \<and> (v = [LF] \<or> LF \<notin> set v)" "LF \<notin> set g" using cs(3) split(1) by auto
  let ?init = "\<lparr>fs_tokens = [], fs_curLineCount = 0, fs_lastLineBreakOffset = 0, fs_lastTokenEndOffset = 0, fs_lastTokenEndLine = 0\<rparr>"
  let ?s = "foldl (fast_match getToken) ?init ms1"
  obtain q r pieces tokens where inv: "fast_inv (cut_text cs1) q pieces tokens ?s" "cut_text cs1 = q @ r" "\<forall>t \<in> set tokens. token_ok t"
    using fast_matches_inv [OF ok(1) get] unfolding split(2) by blast
  obtain pieces' tokens' where push: "fast_push_text ?s o1 = map Some tokens'" "map tk_length tokens' = map plen pieces'"
      "concat pieces' = cut_text cs1 @ g" "[] \<notin> set pieces'" "\<forall>t \<in> set tokens'. token_ok t"
    using fast_push_text_inv [OF inv(1,2) ok(2) inv(3)] split(3) by auto
  have "fs_tokens (fast_match getToken ?s (o1, v)) = map Some tokens' @ [None]" using push(1) assms(2,3) by simp
  then have "prefix (map Some tokens' @ [None]) (fs_tokens (foldl (fast_match getToken) ?init (ms1 @ (o1, v) # ms2)))"
    using fast_matches_extend [of "fast_match getToken ?s (o1, v)" getToken ms2] by (simp del: fast_match.simps)
  then have "prefix (map Some tokens' @ [None]) (fast_push_text (foldl (fast_match getToken) ?init (ms1 @ (o1, v) # ms2)) (int (length str)))"
    unfolding fast_push_text_def by (simp del: fast_match.simps foldl_append)
  then obtain zs where "ft_tokens (FastTokenizer_new str (Some (ms1 @ (o1, v) # ms2)) getToken) = map Some tokens' @ None # zs"
    by (auto simp: prefix_def FastTokenizer_new_def Let_def simp del: fast_match.simps foldl_append)
  moreover have "takeWhile (\<lambda>x. x \<noteq> None) (map Some tokens' @ None # zs) = map Some tokens'" by (induction tokens') auto
  ultimately have "fast_rest (FastTokenizer_new str (Some (ms1 @ (o1, v) # ms2)) getToken) = tokens'"
    by (simp add: fast_rest_def FastTokenizer_new_def Let_def comp_def)
  with push front show ?thesis by metis
qed

text \<open>
  C39: A bracket that is configured with capital letters ends the initial tree. \<open>createFromLanguage\<close> stores the
  token under the text as it is configured, the expression ignores case, and \<open>getToken\<close> looks up
  the text in lower case. For every configuration and every text (short enough for packed lengths): at the first match that is not, in lower case, the text of a bracket
  as it is configured, even where the match itself is one, \<open>getToken\<close> finds nothing, \<open>FastTokenizer\<close> takes \<open>undefined\<close> for a token, and the parser stops there as at the end of the
  text: it returns a tree that covers just the text in front of this match. The matches in front of it are, in lower case, texts of brackets of the same length.
\<close>

theorem capital_bracket_ends_tree:
  assumes "c = LanguageBracketsConfiguration_new ref languageId brackets colorized" "dense provider"
    "BracketTokens_createFromLanguage c provider = Inr (m, provider')" "global_matches str (ms1 @ (o1, v) # ms2)" "short str"
    "\<forall>(o2, u) \<in> set ms1. u \<noteq> [LF] \<longrightarrow> toLowerCase u \<in> bracket_texts brackets colorized \<and> length (toLowerCase u) = length u"
    "v \<noteq> [LF]" "toLowerCase v \<notin> bracket_texts brackets colorized" "2 * length str + 1 \<le> fuel"
  shows "(v \<in> bracket_texts brackets colorized \<longrightarrow> map_of m v \<noteq> None) \<and> BracketTokens_getToken toLowerCase m v = None \<and>
    (\<exists>n pieces. parseDocument FastTokenizer_methods rf fuel
        (FastTokenizer_new str (Some (ms1 @ (o1, v) # ms2)) (BracketTokens_getToken toLowerCase m)) es None i = Some (Inr n) \<and>
      leaf_lengths n = map plen pieces \<and> concat pieces = take (nat o1) str \<and> ast_length n = plen (take (nat o1) str))"
proof -
  have get: "\<exists>t. BracketTokens_getToken toLowerCase m u = Some t \<and> token_ok t \<and> tk_length t = toLength 0 (int (length u))"
    if "(o2, u) \<in> set ms1" "u \<noteq> [LF]" for o2 u
    using getToken_known [OF assms(1-3), of toLowerCase u] assms(6) that by blast
  have none: "BracketTokens_getToken toLowerCase m v = None" using getToken_unknown [OF assms(1-3), of toLowerCase v] assms(8) by blast
  obtain tokens pieces where tokens: "fast_rest (FastTokenizer_new str (Some (ms1 @ (o1, v) # ms2)) (BracketTokens_getToken toLowerCase m)) = tokens"
      "\<forall>t \<in> set tokens. token_ok t" "map tk_length tokens = map plen pieces" "concat pieces = take (nat o1) str" "[] \<notin> set pieces"
    using FastTokenizer_new_front [of str ms1 o1 v ms2 "BracketTokens_getToken toLowerCase m", OF assms(4,7) none] get by metis
  have "short (take (nat o1) str)" "2 * length (take (nat o1) str) + 1 \<le> fuel" using assms(5,9) by auto
  from tree_covers [OF tokens this, of rf es i] obtain n where n: "parseDocument FastTokenizer_methods rf fuel
        (FastTokenizer_new str (Some (ms1 @ (o1, v) # ms2)) (BracketTokens_getToken toLowerCase m)) es None i = Some (Inr n)"
      "leaf_lengths n = map plen pieces" "ast_length n = plen (take (nat o1) str)"
    by (elim exE conjE) (rule that)
  have "v \<in> bracket_texts brackets colorized \<longrightarrow> map_of m v \<noteq> None"
    using create_tokens_ok [OF assms(1,2)] assms(3) by fastforce
  then show ?thesis using none n tokens(4) by (intro conjI exI) assumption+
qed

text \<open>The brackets \<open>BEGIN\<close> and \<open>END\<close>, and the text \<open>x BEGIN y END\<close>, of which the tree covers the first two code units\<close>

theorem capital_bracket_ends_tree_witness:
  "\<exists>m provider n. BracketTokens_createFromLanguage (sample_language (js ''BEGIN'') (js ''END'')) [] = Inr (m, provider) \<and>
    map_of m (js ''BEGIN'') \<noteq> None \<and> BracketTokens_getToken ascii_lower m (js ''BEGIN'') = None \<and>
    parseDocument FastTokenizer_methods 0 30 (FastTokenizer_new (js ''x BEGIN y END'') (Some [(2, js ''BEGIN''), (10, js ''END'')])
      (BracketTokens_getToken ascii_lower m)) [] None True = Some (Inr n) \<and> ast_length n = 2"
proof -
  obtain m p where m: "BracketTokens_createFromLanguage (sample_language (js ''BEGIN'') (js ''END'')) [] = Inr (m, p)" using sample_tokens by blast
  have texts: "bracket_texts (Some [(js ''BEGIN'', js ''END'')]) None = {js ''BEGIN'', js ''END''}"
    by (rule sample_texts) (simp_all add: js_def)
  let ?str = "js ''x BEGIN y END''"
  have "global_matches ?str ([] @ (2, js ''BEGIN'') # [(10, js ''END'')])"
    unfolding global_matches_def
    by (intro exI [of _ "[(js ''x '', js ''BEGIN''), (js '' y '', js ''END'')]"] exI [of _ "[]"]) (simp add: js_def)
  from capital_bracket_ends_tree [OF sample_language_def _ m this, of ascii_lower 30 0 "[]" True] texts
  have "map_of m (js ''BEGIN'') \<noteq> None \<and> BracketTokens_getToken ascii_lower m (js ''BEGIN'') = None \<and>
    (\<exists>n. parseDocument FastTokenizer_methods 0 30 (FastTokenizer_new ?str (Some [(2, js ''BEGIN''), (10, js ''END'')])
      (BracketTokens_getToken ascii_lower m)) [] None True = Some (Inr n) \<and> ast_length n = plen (take 2 ?str))"
    by (auto simp: dense_def ascii_lower_def js_def length_factor_def)
  moreover have "plen (take 2 ?str) = 2" by (simp add: js_def plen_def tlen_def tlen_step_def TextLength_zero_def toLength_def)
  ultimately show ?thesis using m by auto
qed

end
