(* ===== verification/BracketQueries.thy ===== *)
theory BracketQueries
  imports FastTokens
begin

text \<open>
  Model of the queries of \<open>model/bracketPairsTextModelPart/bracketPairsTree/bracketPairsTree.ts\<close> on a
  tree of brackets: the first bracket after or before a position, the brackets and the bracket
  pairs in a range, with the results of \<open>textModelBracketPairs.ts\<close>.

  An iteration with a callback is a function of the items that the callback accepts (it returns
  \<open>true\<close> to continue); the items that were passed to it are the result. The minimal indentation
  of a pair is a parameter.
\<close>

section \<open>The first bracket after or before a position\<close>

record IFoundBracket =
  fb_range :: Range
  fb_bracketInfo :: BracketKind

definition found_bracket :: "BracketKind AstNode \<Rightarrow> Length \<Rightarrow> Length \<Rightarrow> IFoundBracket option" where
  "found_bracket node nodeOffsetStart nodeOffsetEnd =
     (case node of
        BracketNode b \<Rightarrow> Some \<lparr>fb_range = lengthsToRange nodeOffsetStart nodeOffsetEnd, fb_bracketInfo = bracketInfo b\<rparr>
      | _ \<Rightarrow> None)"

text \<open>The children of a node with their offsets\<close>

fun child_offsets :: "Length \<Rightarrow> 'b AstNode list \<Rightarrow> (Length \<times> Length \<times> 'b AstNode) list" where
  "child_offsets nodeOffsetStart [] = []"
| "child_offsets nodeOffsetStart (child # cs) =
     (let nodeOffsetEnd = lengthAdd nodeOffsetStart (ast_length child)
      in (nodeOffsetStart, nodeOffsetEnd, child) # child_offsets nodeOffsetEnd cs)"

abbreviation offsets_count :: "(Length \<times> Length \<times> 'b AstNode) list \<Rightarrow> nat" where
  "offsets_count cs \<equiv> sum_list (map (\<lambda>(s, e, c). 2 * node_count c) cs)"

lemma offsets_count_children: "offsets_count (child_offsets s cs) = 2 * sum_list (map node_count cs)"
  by (induction s cs rule: child_offsets.induct) (simp_all add: Let_def)

lemma offsets_count_rev: "offsets_count (rev cs) = offsets_count cs"
  by (simp add: sum_list_rev rev_map [symmetric])

lemma node_count_list: "node_count n = Suc (sum_list (map node_count (ast_children n)))"
  by (cases n) (auto split: option.split)

lemma offsets_count_less: "Suc (offsets_count (child_offsets s (ast_children n))) < 2 * node_count n"
  unfolding offsets_count_children node_count_list [of n] by simp

lemma node_count_child: "node_count c < node_count (PairNode l b (Some c) d s)"
  by simp

lemmas query_measure = offsets_count_rev offsets_count_less node_count_pos node_count_child

function getFirstBracketBefore :: "BracketKind AstNode \<Rightarrow> Length \<Rightarrow> Length \<Rightarrow> Length \<Rightarrow> IFoundBracket option"
  and first_before :: "(Length \<times> Length \<times> BracketKind AstNode) list \<Rightarrow> Length \<Rightarrow> IFoundBracket option"
where
  "getFirstBracketBefore node nodeOffsetStart nodeOffsetEnd position =
     (if ast_kind node = ListKind \<or> ast_kind node = PairKind
      then first_before (rev (child_offsets nodeOffsetStart (ast_children node))) position
      else found_bracket node nodeOffsetStart nodeOffsetEnd)"
| "first_before [] position = None"
| "first_before ((s, e, c) # cs) position =
     (if lengthLessThan s position
      then (case getFirstBracketBefore c s e position of Some r \<Rightarrow> Some r | None \<Rightarrow> first_before cs position)
      else first_before cs position)"
  by pat_completeness auto

termination
  by (relation "measure (\<lambda>x. case x of Inl (n, s, e, p) \<Rightarrow> 2 * node_count n | Inr (cs, p) \<Rightarrow> 1 + offsets_count cs)")
    (auto simp: query_measure)

function getFirstBracketAfter :: "BracketKind AstNode \<Rightarrow> Length \<Rightarrow> Length \<Rightarrow> Length \<Rightarrow> IFoundBracket option"
  and first_after :: "(Length \<times> Length \<times> BracketKind AstNode) list \<Rightarrow> Length \<Rightarrow> IFoundBracket option"
where
  "getFirstBracketAfter node nodeOffsetStart nodeOffsetEnd position =
     (if ast_kind node = ListKind \<or> ast_kind node = PairKind
      then first_after (child_offsets nodeOffsetStart (ast_children node)) position
      else found_bracket node nodeOffsetStart nodeOffsetEnd)"
| "first_after [] position = None"
| "first_after ((s, e, c) # cs) position =
     (if lengthLessThan position e
      then (case getFirstBracketAfter c s e position of Some r \<Rightarrow> Some r | None \<Rightarrow> first_after cs position)
      else first_after cs position)"
  by pat_completeness auto

termination
  by (relation "measure (\<lambda>x. case x of Inl (n, s, e, p) \<Rightarrow> 2 * node_count n | Inr (cs, p) \<Rightarrow> 1 + offsets_count cs)")
    (auto simp: query_measure)

section \<open>The pairs in a range\<close>

record BracketPairWithMinIndentationInfo =
  bp_range :: Range
  bp_openingBracketRange :: Range
  bp_closingBracketRange :: "Range option"
  bp_nestingLevel :: nat
  bp_nestingLevelOfEqualBracketType :: nat
  bp_node :: "BracketKind AstNode"
  bp_minVisibleColumnIndentation :: int

definition openingBracketInfo :: "BracketPairWithMinIndentationInfo \<Rightarrow> BracketKind option" where
  "openingBracketInfo p = (case bp_node p of PairNode l b c d s \<Rightarrow> Some (bracketInfo b) | _ \<Rightarrow> None)"

definition closingBracketInfo :: "BracketPairWithMinIndentationInfo \<Rightarrow> BracketKind option" where
  "closingBracketInfo p = (case bp_node p of PairNode l b c d s \<Rightarrow> map_option bracketInfo d | _ \<Rightarrow> None)"

text \<open>\<open>CollectBracketPairsContext\<close>; the text model only serves to compute the indentation.\<close>

record CollectBracketPairsContext =
  cx_push :: "BracketPairWithMinIndentationInfo \<Rightarrow> bool"
  cx_includeMinIndentation :: bool
  cx_computeMinIndentation :: "BracketKind AstNode \<Rightarrow> Length \<Rightarrow> int"

type_synonym levels = "js_string \<Rightarrow> nat option"

definition bracket_text :: "BracketKind BracketAstNode \<Rightarrow> js_string" where
  "bracket_text b = bracketText (bracketInfo b)"

definition level_of :: "levels \<Rightarrow> js_string \<Rightarrow> nat" where
  "level_of levelPerBracketType t = (case levelPerBracketType t of None \<Rightarrow> 0 | Some n \<Rightarrow> n)"

definition pair_info :: "BracketKind AstNode \<Rightarrow> BracketKind BracketAstNode \<Rightarrow> BracketKind AstNode option \<Rightarrow> BracketKind BracketAstNode option \<Rightarrow>
    Length \<Rightarrow> Length \<Rightarrow> nat \<Rightarrow> nat \<Rightarrow> int \<Rightarrow> BracketPairWithMinIndentationInfo" where
  "pair_info node b child closing nodeOffsetStart nodeOffsetEnd level levelPerBracket minIndentation =
     (let openingBracketEnd = lengthAdd nodeOffsetStart (bracket_length b)
      in \<lparr>bp_range = lengthsToRange nodeOffsetStart nodeOffsetEnd,
          bp_openingBracketRange = lengthsToRange nodeOffsetStart openingBracketEnd,
          bp_closingBracketRange = map_option (\<lambda>_. lengthsToRange
            (lengthAdd openingBracketEnd (case child of None \<Rightarrow> lengthZero | Some c \<Rightarrow> ast_length c)) nodeOffsetEnd) closing,
          bp_nestingLevel = level, bp_nestingLevelOfEqualBracketType = levelPerBracket, bp_node = node,
          bp_minVisibleColumnIndentation = minIndentation\<rparr>)"

text \<open>Whether to continue, the levels and the items passed to the callback\<close>

type_synonym 'i collected = "bool \<times> levels \<times> 'i list"

function collectBracketPairs :: "CollectBracketPairsContext \<Rightarrow> Length \<Rightarrow> Length \<Rightarrow> BracketKind AstNode \<Rightarrow> Length \<Rightarrow> Length \<Rightarrow> nat \<Rightarrow>
    levels \<Rightarrow> BracketPairWithMinIndentationInfo list \<Rightarrow> BracketPairWithMinIndentationInfo collected"
  and collect_children :: "CollectBracketPairsContext \<Rightarrow> Length \<Rightarrow> Length \<Rightarrow> (Length \<times> Length \<times> BracketKind AstNode) list \<Rightarrow> nat \<Rightarrow>
    levels \<Rightarrow> BracketPairWithMinIndentationInfo list \<Rightarrow> BracketPairWithMinIndentationInfo collected"
where
  "collectBracketPairs cx startOffset endOffset node nodeOffsetStart nodeOffsetEnd level lv items =
     (if level > 200 then (True, lv, items)
      else case node of
        PairNode l b c d ids \<Rightarrow>
          let levelPerBracket = level_of lv (bracket_text b);
              lv1 = lv(bracket_text b \<mapsto> levelPerBracket + 1);
              openingBracketEnd = lengthAdd nodeOffsetStart (bracket_length b);
              minIndentation = (if cx_includeMinIndentation cx then cx_computeMinIndentation cx node nodeOffsetStart else - 1);
              item = pair_info node b c d nodeOffsetStart nodeOffsetEnd level levelPerBracket minIndentation;
              shouldContinue = cx_push cx item;
              items1 = items @ [item]
          in (case c of
                Some child \<Rightarrow>
                  let childEnd = lengthAdd openingBracketEnd (ast_length child)
                  in if shouldContinue \<and> lengthLessThanEqual openingBracketEnd endOffset \<and> lengthGreaterThanEqual childEnd startOffset
                     then (case collectBracketPairs cx startOffset endOffset child openingBracketEnd childEnd (level + 1) lv1 items1 of
                         (goOn, lv2, items2) \<Rightarrow>
                           if \<not> goOn then (False, lv2, items2) else (goOn, lv2(bracket_text b \<mapsto> levelPerBracket), items2))
                     else (shouldContinue, lv1(bracket_text b \<mapsto> levelPerBracket), items1)
              | None \<Rightarrow> (shouldContinue, lv1(bracket_text b \<mapsto> levelPerBracket), items1))
      | _ \<Rightarrow> collect_children cx startOffset endOffset (child_offsets nodeOffsetStart (ast_children node)) level lv items)"
| "collect_children cx startOffset endOffset [] level lv items = (True, lv, items)"
| "collect_children cx startOffset endOffset ((s, e, c) # cs) level lv items =
     (if lengthLessThanEqual s endOffset \<and> lengthLessThanEqual startOffset e
      then (case collectBracketPairs cx startOffset endOffset c s e level lv items of
          (goOn, lv1, items1) \<Rightarrow> if \<not> goOn then (False, lv1, items1) else collect_children cx startOffset endOffset cs level lv1 items1)
      else collect_children cx startOffset endOffset cs level lv items)"
  by pat_completeness auto

termination
  by (relation "measure (\<lambda>x. case x of Inl (cx, a, z, n, r) \<Rightarrow> 2 * node_count n | Inr (cx, a, z, cs, r) \<Rightarrow> 1 + offsets_count cs)")
    (auto simp: query_measure simp del: child_offsets.simps ast_children.simps node_count.simps split: option.splits)

section \<open>The brackets in a range\<close>

record BracketInfo =
  bi_range :: Range
  bi_nestingLevel :: int
  bi_nestingLevelOfEqualBracketType :: int
  bi_isInvalid :: bool

text \<open>The parameters of \<open>collectBrackets\<close> that stay the same\<close>

record collect_context =
  cb_startOffset :: Length
  cb_endOffset :: Length
  cb_push :: "BracketInfo \<Rightarrow> bool"
  cb_onlyColorizedBrackets :: bool

definition bracket_info :: "Length \<Rightarrow> Length \<Rightarrow> int \<Rightarrow> int \<Rightarrow> bool \<Rightarrow> BracketInfo" where
  "bracket_info nodeOffsetStart nodeOffsetEnd level nesting invalid =
     \<lparr>bi_range = lengthsToRange nodeOffsetStart nodeOffsetEnd, bi_nestingLevel = level, bi_nestingLevelOfEqualBracketType = nesting,
      bi_isInvalid = invalid\<rparr>"

definition in_window :: "collect_context \<Rightarrow> Length \<Rightarrow> Length \<Rightarrow> bool" where
  "in_window cx s e \<longleftrightarrow> lengthLessThanEqual s (cb_endOffset cx) \<and> lengthGreaterThanEqual e (cb_startOffset cx)"

definition colorize_pair :: "bool \<Rightarrow> BracketKind BracketAstNode \<Rightarrow> BracketKind BracketAstNode option \<Rightarrow> bool" where
  "colorize_pair only b d \<longleftrightarrow> \<not> only \<or> (case d of None \<Rightarrow> True | Some d \<Rightarrow> closesColorized (bracketInfo d) (bracketInfo b))"

abbreviation node_work :: "(Length \<times> Length \<times> 'b AstNode) list \<Rightarrow> nat" where
  "node_work cs \<equiv> sum_list (map (\<lambda>(s, e, c). 3 * node_count c) cs)"

lemma node_work_children: "node_work (child_offsets s cs) = 3 * sum_list (map node_count cs)"
  by (induction s cs rule: child_offsets.induct) (simp_all add: Let_def)

lemma node_work_less: "Suc (node_work (child_offsets s (ast_children n))) < 3 * node_count n - Suc 0"
  unfolding node_work_children node_count_list [of n] by simp

text \<open>\<open>collect_node\<close> is the loop: without the test of the level, it goes on with a child that reaches the end of the range.\<close>

function (sequential) collectBrackets :: "collect_context \<Rightarrow> BracketKind AstNode \<Rightarrow> Length \<Rightarrow> Length \<Rightarrow> nat \<Rightarrow> nat \<Rightarrow> bool \<Rightarrow> levels \<Rightarrow>
    BracketInfo list \<Rightarrow> BracketInfo collected"
  and collect_node :: "collect_context \<Rightarrow> BracketKind AstNode \<Rightarrow> Length \<Rightarrow> Length \<Rightarrow> nat \<Rightarrow> nat \<Rightarrow> bool \<Rightarrow> levels \<Rightarrow>
    BracketInfo list \<Rightarrow> BracketInfo collected"
  and collect_list :: "collect_context \<Rightarrow> (Length \<times> Length \<times> BracketKind AstNode) list \<Rightarrow> nat \<Rightarrow> nat \<Rightarrow> bool \<Rightarrow> levels \<Rightarrow>
    BracketInfo list \<Rightarrow> BracketInfo collected"
  and collect_pair :: "collect_context \<Rightarrow> (Length \<times> Length \<times> BracketKind AstNode) list \<Rightarrow> bool \<Rightarrow> bool \<Rightarrow> js_string \<Rightarrow> nat \<Rightarrow> nat \<Rightarrow> bool \<Rightarrow> levels \<Rightarrow>
    BracketInfo list \<Rightarrow> BracketInfo collected"
where
  "collectBrackets cx node s e level nesting parentPairIsIncomplete lv items =
     (if level > 200 then (True, lv, items) else collect_node cx node s e level nesting parentPairIsIncomplete lv items)"
| "collect_node cx (TextNode l) s e level nesting parentPairIsIncomplete lv items = (True, lv, items)"
| "collect_node cx (BracketNode b) s e level nesting parentPairIsIncomplete lv items =
     (let item = bracket_info s e (int level - 1) (int nesting - 1) parentPairIsIncomplete
      in (cb_push cx item, lv, items @ [item]))"
| "collect_node cx (InvalidBracketNode ids l) s e level nesting parentPairIsIncomplete lv items =
     (let item = bracket_info s e (int level - 1) 0 True in (cb_push cx item, lv, items @ [item]))"
| "collect_node cx (PairNode l b c d ids) s e level nesting parentPairIsIncomplete lv items =
     (let colorize = colorize_pair (cb_onlyColorizedBrackets cx) b d;
          levelPerBracket = level_of lv (bracket_text b);
          lv1 = (if colorize then lv(bracket_text b \<mapsto> levelPerBracket + 1) else lv)
      in collect_pair cx (child_offsets s (ast_children (PairNode l b c d ids))) colorize (d = None) (bracket_text b) levelPerBracket level
           parentPairIsIncomplete lv1 items)"
| "collect_node cx node s e level nesting parentPairIsIncomplete lv items =
     collect_list cx (child_offsets s (ast_children node)) level nesting parentPairIsIncomplete lv items"
| "collect_list cx [] level nesting parentPairIsIncomplete lv items = (True, lv, items)"
| "collect_list cx ((s, e, c) # cs) level nesting parentPairIsIncomplete lv items =
     (if in_window cx s e then
        if lengthGreaterThanEqual e (cb_endOffset cx) then collect_node cx c s e level nesting parentPairIsIncomplete lv items
        else (case collectBrackets cx c s e level 0 False lv items of
            (goOn, lv1, items1) \<Rightarrow>
              if \<not> goOn then (False, lv1, items1) else collect_list cx cs level nesting parentPairIsIncomplete lv1 items1)
      else collect_list cx cs level nesting parentPairIsIncomplete lv items)"
| "collect_pair cx [] colorize incomplete t levelPerBracket level parentPairIsIncomplete lv items = (True, lv(t \<mapsto> levelPerBracket), items)"
| "collect_pair cx ((s, e, c) # cs) colorize incomplete t levelPerBracket level parentPairIsIncomplete lv items =
     (let level' = (if colorize then level + 1 else level);
          nesting' = (if colorize then levelPerBracket + 1 else levelPerBracket)
      in if in_window cx s e then
           if lengthGreaterThanEqual e (cb_endOffset cx) \<and> ast_kind c \<noteq> BracketKind
           then collect_node cx c s e level' nesting' parentPairIsIncomplete lv items
           else if colorize \<or> ast_kind c \<noteq> BracketKind \<or> incomplete
           then (case collectBrackets cx c s e level' nesting' incomplete lv items of
               (goOn, lv1, items1) \<Rightarrow>
                 if \<not> goOn then (False, lv1, items1)
                 else collect_pair cx cs colorize incomplete t levelPerBracket level parentPairIsIncomplete lv1 items1)
           else collect_pair cx cs colorize incomplete t levelPerBracket level parentPairIsIncomplete lv items
         else collect_pair cx cs colorize incomplete t levelPerBracket level parentPairIsIncomplete lv items)"
  by pat_completeness auto

termination
  by (relation "measure (\<lambda>x. case x of Inl (Inl (cx, n, r)) \<Rightarrow> 3 * node_count n | Inl (Inr (cx, n, r)) \<Rightarrow> 3 * node_count n - 1
      | Inr (Inl (cx, cs, r)) \<Rightarrow> Suc (node_work cs) | Inr (Inr (cx, cs, r)) \<Rightarrow> Suc (node_work cs))")
    (auto simp: node_work_less node_count_pos simp del: child_offsets.simps ast_children.simps node_count.simps)

end
