(* ===== verification/BracketQueryLaws.thy ===== *)
theory BracketQueryLaws
  imports BracketQueries
begin

text \<open>
  What the queries on a well-formed tree answer, in terms of its leaves from left to right with
  their offsets in the text.
\<close>

section \<open>Leaves and their offsets\<close>

fun leaf_nodes :: "'b AstNode \<Rightarrow> 'b AstNode list" where
  "leaf_nodes (PairNode l b c d s) =
     BracketNode b # (case c of None \<Rightarrow> [] | Some n \<Rightarrow> leaf_nodes n) @ (case d of None \<Rightarrow> [] | Some e \<Rightarrow> [BracketNode e])"
| "leaf_nodes (TwoThreeListNode i l ht x y z s) = leaf_nodes x @ leaf_nodes y @ (case z of None \<Rightarrow> [] | Some n \<Rightarrow> leaf_nodes n)"
| "leaf_nodes (ArrayListNode i l ht xs s) = concat (map leaf_nodes xs)"
| "leaf_nodes n = [n]"

lemma leaf_nodes_lengths: "leaf_lengths n = map ast_length (leaf_nodes n)"
proof (induction n)
  case (ArrayListNode i l ht xs s)
  then show ?case by (induction xs) auto
qed (auto split: option.split)

lemma leaf_nodes_children:
  "ast_kind n = ListKind \<or> ast_kind n = PairKind \<Longrightarrow> leaf_nodes n = concat (map leaf_nodes (ast_children n))"
  by (cases n) (auto split: option.split)

lemma leaf_nodes_leaf: "ast_kind n \<noteq> ListKind \<Longrightarrow> ast_kind n \<noteq> PairKind \<Longrightarrow> leaf_nodes n = [n]"
  by (cases n) auto

lemma ast_ok_children: "ast_ok n \<Longrightarrow> c \<in> set (ast_children n) \<Longrightarrow> ast_ok c"
  by (cases n) (auto split: option.splits)

lemma child_offsets_append:
  "child_offsets s (xs @ ys) = child_offsets s xs @ child_offsets (foldl lengthAdd s (map ast_length xs)) ys"
  by (induction s xs rule: child_offsets.induct) (simp_all add: Let_def)

lemma lengthAdd_ge:
  assumes "0 \<le> a" "0 \<le> b"
  shows "a \<le> lengthAdd a b"
proof -
  have a: "a div length_factor * length_factor + cols a = a" using length_split [of a] by simp
  show ?thesis
  proof (cases "b div length_factor = 0")
    case True
    then have "lengthAdd a b = a div length_factor * length_factor + (cols a + cols b)" using lengthAdd_toLength [OF assms] by (simp add: toLength_def)
    with a cols_bounds(1) [of b] show ?thesis by linarith
  next
    case False
    then have "lengthAdd a b = a div length_factor * length_factor + b div length_factor * length_factor + cols b"
      using lengthAdd_toLength [OF assms] by (simp add: toLength_def distrib_right)
    moreover have "1 \<le> b div length_factor" using False assms(2) by (simp add: length_factor_def)
    then have "length_factor \<le> b div length_factor * length_factor"
      using mult_right_mono [of 1 "b div length_factor" length_factor] by (simp add: length_factor_def)
    ultimately show ?thesis using a cols_bounds(1) [of b] cols_bounds(2) [of a] by linarith
  qed
qed

lemma total_mono: "lengths_fit (xs @ ys) \<Longrightarrow> total_length xs \<le> total_length (xs @ ys)"
  using lengthAdd_ge [of "total_length xs" "total_length ys"] total_obj(2) lengths_fit_append [of xs ys] total_append [of xs ys] by simp

text \<open>A sequence of well-formed nodes behind leaves of the lengths \<open>P\<close>\<close>

definition placed :: "Length list \<Rightarrow> 'b AstNode list \<Rightarrow> bool" where
  "placed P cs \<longleftrightarrow> (\<forall>c \<in> set cs. ast_ok c) \<and> lengths_fit (P @ concat (map leaf_lengths cs))"

lemma placed_Cons:
  assumes "placed P (c # cs)"
  shows "ast_ok c" "lengths_fit (P @ leaf_lengths c)" "placed (P @ leaf_lengths c) cs"
    "lengthAdd (total_length P) (ast_length c) = total_length (P @ leaf_lengths c)"
proof -
  have fit: "lengths_fit ((P @ leaf_lengths c) @ concat (map leaf_lengths cs))" and ok: "ast_ok c" using assms by (simp_all add: placed_def)
  note fit2 = conjunct1 [OF lengths_fit_append [OF fit]]
  show "ast_ok c" "lengths_fit (P @ leaf_lengths c)" by fact+
  show "placed (P @ leaf_lengths c) cs" using assms by (simp add: placed_def)
  show "lengthAdd (total_length P) (ast_length c) = total_length (P @ leaf_lengths c)"
    using total_append [OF fit2] ast_ok_leaf_length [OF ok] lengths_fit_append [OF fit2] by simp
qed

lemma placed_children: "placed P [n] \<Longrightarrow> ast_kind n = ListKind \<or> ast_kind n = PairKind \<Longrightarrow> placed P (ast_children n)"
proof -
  assume a: "placed P [n]" "ast_kind n = ListKind \<or> ast_kind n = PairKind"
  then have "leaf_lengths n = concat (map leaf_lengths (ast_children n))"
    by (cases n) (auto split: option.split)
  with a show ?thesis using ast_ok_children [of n] by (auto simp: placed_def)
qed

lemma child_offsets_placed:
  "placed P (c # cs) \<Longrightarrow> child_offsets (total_length P) (c # cs) =
     (total_length P, total_length (P @ leaf_lengths c), c) # child_offsets (total_length (P @ leaf_lengths c)) cs"
  using placed_Cons(4) [of P c cs] by (simp add: Let_def)

lemma leaf_spans_bounds:
  assumes "lengths_fit (P @ map ast_length ns)" "(s, e, n) \<in> set (child_offsets (total_length P) ns)"
  shows "total_length P \<le> s \<and> e \<le> total_length (P @ map ast_length ns)"
  using assms
proof (induction ns arbitrary: P)
  case (Cons m ns)
  have fit: "lengths_fit ((P @ [ast_length m]) @ map ast_length ns)" using Cons.prems(1) by simp
  note fit2 = conjunct1 [OF lengths_fit_append [OF fit]]
  have split: "child_offsets (total_length P) (m # ns) =
      (total_length P, total_length (P @ [ast_length m]), m) # child_offsets (total_length (P @ [ast_length m])) ns"
    by (simp add: Let_def)
  have up: "total_length P \<le> total_length (P @ [ast_length m])" "total_length (P @ [ast_length m]) \<le> total_length (P @ map ast_length (m # ns))"
    using total_mono [OF fit2] total_mono [OF fit] by simp_all
  from Cons.prems(2) consider "s = total_length P" "e = total_length (P @ [ast_length m])"
    | "(s, e, n) \<in> set (child_offsets (total_length (P @ [ast_length m])) ns)"
    unfolding split by auto
  then show ?case
  proof cases
    case 2
    from Cons.IH [OF fit 2] up(1) show ?thesis by simp
  qed (use up in simp)
qed simp

section \<open>The first bracket after or before a position\<close>

text \<open>The first leaf in a list of leaves with their offsets that is a bracket and fulfils a condition on its offsets\<close>

definition first_bracket :: "(Length \<Rightarrow> Length \<Rightarrow> bool) \<Rightarrow> (Length \<times> Length \<times> BracketKind AstNode) list \<Rightarrow> IFoundBracket option" where
  "first_bracket Q spans =
     (case List.find (\<lambda>(s, e, n). Q s e \<and> ast_kind n = BracketKind) spans of
        None \<Rightarrow> None
      | Some (s, e, n) \<Rightarrow> found_bracket n s e)"

lemma found_bracket_kind: "found_bracket n s e = None \<longleftrightarrow> ast_kind n \<noteq> BracketKind"
  by (cases n) (auto simp: found_bracket_def)

lemma first_bracket_simps:
  "first_bracket Q [] = None"
  "first_bracket Q ((s, e, n) # spans) = (if Q s e \<and> ast_kind n = BracketKind then found_bracket n s e else first_bracket Q spans)"
  by (auto simp: first_bracket_def)

lemma first_bracket_append:
  "first_bracket Q (xs @ ys) = (case first_bracket Q xs of Some r \<Rightarrow> Some r | None \<Rightarrow> first_bracket Q ys)"
proof (induction xs)
  case (Cons x xs)
  then show ?case by (cases x) (auto simp: first_bracket_simps found_bracket_kind split: option.split)
qed (simp add: first_bracket_simps)

lemma first_bracket_None: "(\<And>s e n. (s, e, n) \<in> set xs \<Longrightarrow> \<not> Q s e) \<Longrightarrow> first_bracket Q xs = None"
proof -
  assume "\<And>s e n. (s, e, n) \<in> set xs \<Longrightarrow> \<not> Q s e"
  then have "List.find (\<lambda>(s, e, n). Q s e \<and> ast_kind n = BracketKind) xs = None" by (auto simp: find_None_iff)
  then show ?thesis by (simp add: first_bracket_def)
qed

abbreviation spans :: "Length list \<Rightarrow> 'b AstNode list \<Rightarrow> (Length \<times> Length \<times> 'b AstNode) list" where
  "spans P cs \<equiv> child_offsets (total_length P) (concat (map leaf_nodes cs))"

lemma spans_Cons: "placed P (c # cs) \<Longrightarrow> spans P (c # cs) = spans P [c] @ spans (P @ leaf_lengths c) cs"
  by (simp add: child_offsets_append leaf_nodes_lengths)

lemma spans_bounds: "placed P [c] \<Longrightarrow> (s, e, n) \<in> set (spans P [c]) \<Longrightarrow> total_length P \<le> s \<and> e \<le> total_length (P @ leaf_lengths c)"
  using leaf_spans_bounds [of P "leaf_nodes c" s e n] by (simp add: placed_def leaf_nodes_lengths)

lemma first_after_spans:
  assumes "placed P cs" "\<And>c P. c \<in> set cs \<Longrightarrow> placed P [c] \<Longrightarrow> pos < total_length (P @ leaf_lengths c) \<Longrightarrow>
      getFirstBracketAfter c (total_length P) (total_length (P @ leaf_lengths c)) pos = first_bracket (\<lambda>s e. pos < e) (spans P [c])"
  shows "first_after (child_offsets (total_length P) cs) pos = first_bracket (\<lambda>s e. pos < e) (spans P cs)"
  using assms
proof (induction cs arbitrary: P)
  case (Cons c cs)
  note pl = placed_Cons [OF Cons.prems(1)]
  have c: "placed P [c]" using pl(1,2) by (simp add: placed_def)
  have rest: "first_after (child_offsets (total_length (P @ leaf_lengths c)) cs) pos = first_bracket (\<lambda>s e. pos < e) (spans (P @ leaf_lengths c) cs)"
    using Cons.IH [OF pl(3)] Cons.prems(2) by simp
  have split: "first_bracket (\<lambda>s e. pos < e) (spans P (c # cs)) =
      (case first_bracket (\<lambda>s e. pos < e) (spans P [c]) of Some r \<Rightarrow> Some r
       | None \<Rightarrow> first_bracket (\<lambda>s e. pos < e) (spans (P @ leaf_lengths c) cs))"
    unfolding spans_Cons [OF Cons.prems(1)] by (rule first_bracket_append)
  show ?case
  proof (cases "pos < total_length (P @ leaf_lengths c)")
    case True
    then show ?thesis
      unfolding child_offsets_placed [OF Cons.prems(1)] split using Cons.prems(2) [OF _ c True] rest
      by (simp add: lengthLessThan_def del: getFirstBracketAfter.simps split: option.split)
  next
    case False
    then have "first_bracket (\<lambda>s e. pos < e) (spans P [c]) = None"
      using spans_bounds [OF c] by (intro first_bracket_None) fastforce
    then show ?thesis
      unfolding child_offsets_placed [OF Cons.prems(1)] split using False rest
      by (simp add: lengthLessThan_def del: getFirstBracketAfter.simps split: option.split)
  qed
qed (simp add: first_bracket_simps)

lemma getFirstBracketAfter_spans:
  "placed P [n] \<Longrightarrow> pos < total_length (P @ leaf_lengths n) \<or> ast_kind n \<noteq> BracketKind \<Longrightarrow>
   getFirstBracketAfter n (total_length P) (total_length (P @ leaf_lengths n)) pos = first_bracket (\<lambda>s e. pos < e) (spans P [n])"
proof (induction "node_count n" arbitrary: n P rule: less_induct)
  case less
  show ?case
  proof (cases "ast_kind n = ListKind \<or> ast_kind n = PairKind")
    case True
    have "node_count c < node_count n" if "c \<in> set (ast_children n)" for c
      using that member_le_sum_list [of "node_count c" "map node_count (ast_children n)"] node_count_list [of n] by simp
    then have "first_after (child_offsets (total_length P) (ast_children n)) pos = first_bracket (\<lambda>s e. pos < e) (spans P (ast_children n))"
      using less.hyps by (intro first_after_spans placed_children [OF less.prems(1) True]) blast
    then show ?thesis using True leaf_nodes_children [OF True] by simp
  next
    case False
    have "ast_length n = total_length (leaf_lengths n)" using ast_ok_leaf_length less.prems(1) lengths_fit_append [of P "leaf_lengths n"] by (auto simp: placed_def)
    then have "lengthAdd (total_length P) (ast_length n) = total_length (P @ leaf_lengths n)" using placed_Cons(4) [OF less.prems(1)] by simp
    then show ?thesis using False less.prems(2) leaf_nodes_leaf [of n] found_bracket_kind [of n]
      by (auto simp: first_bracket_simps Let_def)
  qed
qed

lemma child_offsets_snoc:
  assumes "placed P (cs @ [c])"
  shows "placed P cs" "placed (P @ concat (map leaf_lengths cs)) [c]"
    "child_offsets (total_length P) (cs @ [c]) = child_offsets (total_length P) cs @
       [(total_length (P @ concat (map leaf_lengths cs)), total_length ((P @ concat (map leaf_lengths cs)) @ leaf_lengths c), c)]"
    "spans P (cs @ [c]) = spans P cs @ spans (P @ concat (map leaf_lengths cs)) [c]"
proof -
  show cs: "placed P cs" using assms lengths_fit_append [of "P @ concat (map leaf_lengths cs)" "leaf_lengths c"] by (simp add: placed_def)
  show c: "placed (P @ concat (map leaf_lengths cs)) [c]" using assms by (simp add: placed_def)
  have sum: "foldl lengthAdd (total_length P) (map ast_length cs) = total_length (P @ concat (map leaf_lengths cs))" using cs
  proof (induction cs arbitrary: P)
    case (Cons c cs)
    from Cons.IH [OF placed_Cons(3) [OF Cons.prems]] placed_Cons(4) [OF Cons.prems] show ?case by simp
  qed simp
  show "child_offsets (total_length P) (cs @ [c]) = child_offsets (total_length P) cs @
       [(total_length (P @ concat (map leaf_lengths cs)), total_length ((P @ concat (map leaf_lengths cs)) @ leaf_lengths c), c)]"
    unfolding child_offsets_append sum child_offsets_placed [OF c] by simp
  show "spans P (cs @ [c]) = spans P cs @ spans (P @ concat (map leaf_lengths cs)) [c]"
    by (simp add: child_offsets_append map_concat comp_def leaf_nodes_lengths [symmetric])
qed

lemma first_before_spans:
  assumes "placed P cs" "\<And>c P. c \<in> set cs \<Longrightarrow> placed P [c] \<Longrightarrow> total_length P < pos \<Longrightarrow>
      getFirstBracketBefore c (total_length P) (total_length (P @ leaf_lengths c)) pos = first_bracket (\<lambda>s e. s < pos) (rev (spans P [c]))"
  shows "first_before (rev (child_offsets (total_length P) cs)) pos = first_bracket (\<lambda>s e. s < pos) (rev (spans P cs))"
  using assms
proof (induction cs rule: rev_induct)
  case (snoc c cs)
  let ?P = "P @ concat (map leaf_lengths cs)"
  note pl = child_offsets_snoc [OF snoc.prems(1)]
  have rest: "first_before (rev (child_offsets (total_length P) cs)) pos = first_bracket (\<lambda>s e. s < pos) (rev (spans P cs))"
    using snoc.IH [OF pl(1)] snoc.prems(2) by simp
  have split: "first_bracket (\<lambda>s e. s < pos) (rev (spans P (cs @ [c]))) =
      (case first_bracket (\<lambda>s e. s < pos) (rev (spans ?P [c])) of Some r \<Rightarrow> Some r
       | None \<Rightarrow> first_bracket (\<lambda>s e. s < pos) (rev (spans P cs)))"
    unfolding pl(4) rev_append by (rule first_bracket_append)
  show ?case
  proof (cases "total_length ?P < pos")
    case True
    then show ?thesis
      unfolding pl(3) split rest [symmetric] using snoc.prems(2) [OF _ pl(2) True]
      by (simp add: lengthLessThan_def del: getFirstBracketBefore.simps split: option.split)
  next
    case False
    then have "first_bracket (\<lambda>s e. s < pos) (rev (spans ?P [c])) = None"
      using spans_bounds [OF pl(2)] by (intro first_bracket_None) fastforce
    then show ?thesis
      unfolding pl(3) split rest [symmetric] using False by (simp add: lengthLessThan_def del: getFirstBracketBefore.simps)
  qed
qed (simp add: first_bracket_simps)

lemma getFirstBracketBefore_spans:
  "placed P [n] \<Longrightarrow> total_length P < pos \<or> ast_kind n \<noteq> BracketKind \<Longrightarrow>
   getFirstBracketBefore n (total_length P) (total_length (P @ leaf_lengths n)) pos = first_bracket (\<lambda>s e. s < pos) (rev (spans P [n]))"
proof (induction "node_count n" arbitrary: n P rule: less_induct)
  case less
  show ?case
  proof (cases "ast_kind n = ListKind \<or> ast_kind n = PairKind")
    case True
    have "node_count c < node_count n" if "c \<in> set (ast_children n)" for c
      using that member_le_sum_list [of "node_count c" "map node_count (ast_children n)"] node_count_list [of n] by simp
    then have "first_before (rev (child_offsets (total_length P) (ast_children n))) pos =
        first_bracket (\<lambda>s e. s < pos) (rev (spans P (ast_children n)))"
      using less.hyps by (intro first_before_spans placed_children [OF less.prems(1) True]) blast
    then show ?thesis using True leaf_nodes_children [OF True] by simp
  next
    case False
    have "lengthAdd (total_length P) (ast_length n) = total_length (P @ leaf_lengths n)" using placed_Cons(4) [OF less.prems(1)] by simp
    then show ?thesis using False less.prems(2) leaf_nodes_leaf [of n] found_bracket_kind [of n]
      by (auto simp: first_bracket_simps Let_def)
  qed
qed

text \<open>
  C8: The two searches for a bracket are searches through the leaves of the tree. On a well-formed
  tree, \<open>getFirstBracketAfter\<close> returns the first bracket in the text that ends after the
  position and \<open>getFirstBracketBefore\<close> the last one that starts before it, with their ranges, and
  nothing if there is none, although both skip the subtrees that lie on the other side.
\<close>

theorem first_bracket_queries:
  assumes "ast_ok root" "lengths_fit (leaf_lengths root)" "ast_kind root \<noteq> BracketKind"
  shows "getFirstBracketAfter root lengthZero (ast_length root) pos =
      first_bracket (\<lambda>s e. pos < e) (child_offsets 0 (leaf_nodes root)) \<and>
    getFirstBracketBefore root lengthZero (ast_length root) pos =
      first_bracket (\<lambda>s e. s < pos) (rev (child_offsets 0 (leaf_nodes root)))"
proof -
  have "placed [] [root]" using assms by (simp add: placed_def)
  then show ?thesis
    using getFirstBracketAfter_spans [of "[]" root pos] getFirstBracketBefore_spans [of "[]" root pos] assms(3)
      ast_ok_leaf_length [OF assms(1,2)] by (simp add: lengthZero_def)
qed

text \<open>A sample: the tree of a text \<open>a\<close> and a pair of parentheses\<close>

abbreviation sample_kind :: "bool \<Rightarrow> BracketKind" where
  "sample_kind opn \<equiv> (if opn then OpeningBracketKind else ClosingBracketKind) (sample_language [40] [41]) (if opn then [40] else [41])"

abbreviation sample_bracket :: "bool \<Rightarrow> BracketKind BracketAstNode" where
  "sample_bracket opn \<equiv> BracketAstNode 1 (sample_kind opn) SmallImmutableSet_getEmpty"

abbreviation sample_ast :: "BracketKind AstNode" where
  "sample_ast \<equiv> TwoThreeListNode False 3 1 (TextNode 1)
     (PairAstNode_create (sample_bracket True) None (Some (sample_bracket False))) None
     (SmallImmutableSet_merge SmallImmutableSet_getEmpty SmallImmutableSet_getEmpty)"

lemma sample_ast_ok: "ast_ok sample_ast" "lengths_fit (leaf_lengths sample_ast)"
  by (simp_all add: PairAstNode_create_def lengthAdd_def length_factor_def lengths_fit_def cols_def Let_def)

theorem first_bracket_queries_witness:
  "map_option fb_range (getFirstBracketAfter sample_ast lengthZero (ast_length sample_ast) 2) = Some (Range_new 1 3 1 4) \<and>
   map_option fb_range (getFirstBracketBefore sample_ast lengthZero (ast_length sample_ast) 2) = Some (Range_new 1 2 1 3)"
  using first_bracket_queries [OF sample_ast_ok, of 2]
  by (simp add: PairAstNode_create_def first_bracket_simps found_bracket_def lengthAdd_def length_factor_def Let_def lengthsToRange_def
      del: getFirstBracketAfter.simps getFirstBracketBefore.simps)

end
