(* ===== verification/TokenMetadata.thy ===== *)
theory TokenMetadata
  imports Prelude
begin

unbundle bit_operations_syntax

text \<open>
  Model of \<open>editor/common/encodedTokenAttributes.ts\<close>: the attributes of a token packed into one
  number. A number that the source takes apart by \<open>&\<close> and \<open>>>>\<close> is a \<^typ>\<open>32 word\<close>.
\<close>

section \<open>Fields\<close>

definition LANGUAGEID_MASK :: "32 word" where "LANGUAGEID_MASK = 0b00000000000000000000000011111111"
definition TOKEN_TYPE_MASK :: "32 word" where "TOKEN_TYPE_MASK = 0b00000000000000000000001100000000"
definition BALANCED_BRACKETS_MASK :: "32 word" where "BALANCED_BRACKETS_MASK = 0b00000000000000000000010000000000"
definition FONT_STYLE_MASK :: "32 word" where "FONT_STYLE_MASK = 0b00000000000000000111100000000000"
definition FOREGROUND_MASK :: "32 word" where "FOREGROUND_MASK = 0b00000000111111111000000000000000"
definition BACKGROUND_MASK :: "32 word" where "BACKGROUND_MASK = 0b11111111000000000000000000000000"

definition LANGUAGEID_OFFSET :: nat where "LANGUAGEID_OFFSET = 0"
definition TOKEN_TYPE_OFFSET :: nat where "TOKEN_TYPE_OFFSET = 8"
definition BALANCED_BRACKETS_OFFSET :: nat where "BALANCED_BRACKETS_OFFSET = 10"
definition FONT_STYLE_OFFSET :: nat where "FONT_STYLE_OFFSET = 11"
definition FOREGROUND_OFFSET :: nat where "FOREGROUND_OFFSET = 15"
definition BACKGROUND_OFFSET :: nat where "BACKGROUND_OFFSET = 24"

definition FontStyle_Italic :: "32 word" where "FontStyle_Italic = 1"
definition FontStyle_Bold :: "32 word" where "FontStyle_Bold = 2"
definition FontStyle_Underline :: "32 word" where "FontStyle_Underline = 4"
definition FontStyle_Strikethrough :: "32 word" where "FontStyle_Strikethrough = 8"

definition StandardTokenType_Other :: "32 word" where "StandardTokenType_Other = 0"

definition TokenMetadata_getLanguageId :: "32 word \<Rightarrow> 32 word" where
  "TokenMetadata_getLanguageId metadata = drop_bit LANGUAGEID_OFFSET (metadata AND LANGUAGEID_MASK)"

definition TokenMetadata_getTokenType :: "32 word \<Rightarrow> 32 word" where
  "TokenMetadata_getTokenType metadata = drop_bit TOKEN_TYPE_OFFSET (metadata AND TOKEN_TYPE_MASK)"

definition TokenMetadata_containsBalancedBrackets :: "32 word \<Rightarrow> bool" where
  "TokenMetadata_containsBalancedBrackets metadata \<longleftrightarrow> metadata AND BALANCED_BRACKETS_MASK \<noteq> 0"

definition TokenMetadata_getFontStyle :: "32 word \<Rightarrow> 32 word" where
  "TokenMetadata_getFontStyle metadata = drop_bit FONT_STYLE_OFFSET (metadata AND FONT_STYLE_MASK)"

definition TokenMetadata_getForeground :: "32 word \<Rightarrow> 32 word" where
  "TokenMetadata_getForeground metadata = drop_bit FOREGROUND_OFFSET (metadata AND FOREGROUND_MASK)"

definition TokenMetadata_getBackground :: "32 word \<Rightarrow> 32 word" where
  "TokenMetadata_getBackground metadata = drop_bit BACKGROUND_OFFSET (metadata AND BACKGROUND_MASK)"

text \<open>A number as a string\<close>

fun decimal :: "nat \<Rightarrow> js_string" where
  "decimal n = (if n < 10 then [word_of_nat (48 + n)] else decimal (n div 10) @ [word_of_nat (48 + n mod 10)])"

declare decimal.simps [simp del]

definition TokenMetadata_getClassNameFromMetadata :: "32 word \<Rightarrow> js_string" where
  "TokenMetadata_getClassNameFromMetadata metadata =
     (let foreground = TokenMetadata_getForeground metadata;
          fontStyle = TokenMetadata_getFontStyle metadata
      in js ''mtk'' @ decimal (unat foreground) @
         (if fontStyle AND FontStyle_Italic \<noteq> 0 then js '' mtki'' else []) @
         (if fontStyle AND FontStyle_Bold \<noteq> 0 then js '' mtkb'' else []) @
         (if fontStyle AND FontStyle_Underline \<noteq> 0 then js '' mtku'' else []) @
         (if fontStyle AND FontStyle_Strikethrough \<noteq> 0 then js '' mtks'' else []))"

text \<open>A missing color is written as \<open>undefined\<close>.\<close>

definition TokenMetadata_getInlineStyleFromMetadata :: "32 word \<Rightarrow> js_string list \<Rightarrow> js_string" where
  "TokenMetadata_getInlineStyleFromMetadata metadata colorMap =
     (let foreground = TokenMetadata_getForeground metadata;
          fontStyle = TokenMetadata_getFontStyle metadata;
          color = (case js_get colorMap (uint foreground) of None \<Rightarrow> js ''undefined'' | Some c \<Rightarrow> c);
          textDecoration =
            (if fontStyle AND FontStyle_Underline \<noteq> 0 then js '' underline'' else []) @
            (if fontStyle AND FontStyle_Strikethrough \<noteq> 0 then js '' line-through'' else [])
      in js ''color: '' @ color @ js '';'' @
         (if fontStyle AND FontStyle_Italic \<noteq> 0 then js ''font-style: italic;'' else []) @
         (if fontStyle AND FontStyle_Bold \<noteq> 0 then js ''font-weight: bold;'' else []) @
         (if textDecoration \<noteq> [] then js ''text-decoration:'' @ textDecoration @ js '';'' else []))"

record ITokenPresentation =
  tp_foreground :: "32 word"
  tp_italic :: bool
  tp_bold :: bool
  tp_underline :: bool
  tp_strikethrough :: bool

definition TokenMetadata_getPresentationFromMetadata :: "32 word \<Rightarrow> ITokenPresentation" where
  "TokenMetadata_getPresentationFromMetadata metadata =
     (let fontStyle = TokenMetadata_getFontStyle metadata
      in \<lparr>tp_foreground = TokenMetadata_getForeground metadata,
          tp_italic = (fontStyle AND FontStyle_Italic \<noteq> 0),
          tp_bold = (fontStyle AND FontStyle_Bold \<noteq> 0),
          tp_underline = (fontStyle AND FontStyle_Underline \<noteq> 0),
          tp_strikethrough = (fontStyle AND FontStyle_Strikethrough \<noteq> 0)\<rparr>)"

section \<open>The fields are disjoint and cover the word\<close>

lemma masked_field:
  assumes "m = push_bit k (mask w)"
  shows "drop_bit k (x AND m) = take_bit w (drop_bit k (x :: 32 word))"
  unfolding assms by (rule bit_eqI) (auto simp: bit_simps dest: bit_imp_le_length)

lemma metadata_masks:
  "LANGUAGEID_MASK = push_bit 0 (mask 8)" "TOKEN_TYPE_MASK = push_bit 8 (mask 2)" "BALANCED_BRACKETS_MASK = push_bit 10 (mask 1)"
  "FONT_STYLE_MASK = push_bit 11 (mask 4)" "FOREGROUND_MASK = push_bit 15 (mask 9)" "BACKGROUND_MASK = push_bit 24 (mask 8)"
  by (simp_all add: LANGUAGEID_MASK_def TOKEN_TYPE_MASK_def BALANCED_BRACKETS_MASK_def FONT_STYLE_MASK_def FOREGROUND_MASK_def
      BACKGROUND_MASK_def mask_eq_exp_minus_1 push_bit_eq_mult)

lemma metadata_fields:
  "TokenMetadata_getLanguageId x = take_bit 8 x" "TokenMetadata_getTokenType x = take_bit 2 (drop_bit 8 x)"
  "TokenMetadata_getFontStyle x = take_bit 4 (drop_bit 11 x)" "TokenMetadata_getForeground x = take_bit 9 (drop_bit 15 x)"
  "TokenMetadata_getBackground x = take_bit 8 (drop_bit 24 x)"
  using masked_field [OF metadata_masks(1), of x] masked_field [OF metadata_masks(2)] masked_field [OF metadata_masks(4)]
    masked_field [OF metadata_masks(5)] masked_field [OF metadata_masks(6)]
  by (simp_all add: TokenMetadata_getLanguageId_def TokenMetadata_getTokenType_def TokenMetadata_getFontStyle_def
      TokenMetadata_getForeground_def TokenMetadata_getBackground_def LANGUAGEID_OFFSET_def TOKEN_TYPE_OFFSET_def FONT_STYLE_OFFSET_def
      FOREGROUND_OFFSET_def BACKGROUND_OFFSET_def)

lemma containsBalancedBrackets_bit: "TokenMetadata_containsBalancedBrackets x \<longleftrightarrow> bit x 10"
proof -
  have eq: "BALANCED_BRACKETS_MASK = 2 ^ 10" by (simp add: BALANCED_BRACKETS_MASK_def)
  show ?thesis unfolding TokenMetadata_containsBalancedBrackets_def eq by (simp only: and_exp_eq_0_iff_not_bit not_not)
qed

text \<open>The metadata with given fields\<close>

definition pack_metadata :: "32 word \<Rightarrow> 32 word \<Rightarrow> bool \<Rightarrow> 32 word \<Rightarrow> 32 word \<Rightarrow> 32 word \<Rightarrow> 32 word" where
  "pack_metadata language tokenType balanced style foreground background =
     language OR push_bit 8 tokenType OR push_bit 10 (of_bool balanced) OR push_bit 11 style OR push_bit 15 foreground OR push_bit 24 background"

lemma field_width: "uint (take_bit w (x :: 32 word)) < 2 ^ w"
  by (simp add: unsigned_take_bit_eq)

lemma field_bits:
  assumes "uint (x :: 32 word) < 2 ^ w" "bit x n"
  shows "n < w"
proof -
  have "take_bit w x = x" using assms(1) by (intro word_uint_eqI) (simp add: unsigned_take_bit_eq take_bit_int_eq_self)
  with assms(2) show ?thesis by (metis bit_take_bit_iff)
qed

lemma pack_metadata_bits:
  assumes "n < 32"
  shows "bit (pack_metadata language tokenType balanced style foreground background) n \<longleftrightarrow>
    bit language n \<or> 8 \<le> n \<and> bit tokenType (n - 8) \<or> n = 10 \<and> balanced \<or> 11 \<le> n \<and> bit style (n - 11) \<or>
    15 \<le> n \<and> bit foreground (n - 15) \<or> 24 \<le> n \<and> bit background (n - 24)"
  using assms by (auto simp: pack_metadata_def bit_simps)

lemma pack_fields:
  "pack_metadata (TokenMetadata_getLanguageId x) (TokenMetadata_getTokenType x) (TokenMetadata_containsBalancedBrackets x)
     (TokenMetadata_getFontStyle x) (TokenMetadata_getForeground x) (TokenMetadata_getBackground x) = x"
proof (rule bit_eqI)
  fix n assume "possible_bit TYPE(32 word) n"
  then have n: "n < 32" by simp
  then consider "n < 8" | "8 \<le> n" "n < 10" | "n = 10" | "11 \<le> n" "n < 15" | "15 \<le> n" "n < 24" | "24 \<le> n" by linarith
  then show "bit (pack_metadata (TokenMetadata_getLanguageId x) (TokenMetadata_getTokenType x) (TokenMetadata_containsBalancedBrackets x)
     (TokenMetadata_getFontStyle x) (TokenMetadata_getForeground x) (TokenMetadata_getBackground x)) n = bit x n"
    using n by cases (auto simp: pack_metadata_bits metadata_fields containsBalancedBrackets_bit bit_simps)
qed

lemma fields_pack:
  fixes language tokenType style foreground background :: "32 word"
  assumes "uint language < 2 ^ 8" "uint tokenType < 2 ^ 2" "uint style < 2 ^ 4" "uint foreground < 2 ^ 9" "uint background < 2 ^ 8"
    "x = pack_metadata language tokenType balanced style foreground background"
  shows "TokenMetadata_getLanguageId x = language" "TokenMetadata_getTokenType x = tokenType" "TokenMetadata_containsBalancedBrackets x = balanced"
    "TokenMetadata_getFontStyle x = style" "TokenMetadata_getForeground x = foreground" "TokenMetadata_getBackground x = background"
proof -
  note fields = field_bits [OF assms(1)] field_bits [OF assms(2)] field_bits [OF assms(3)] field_bits [OF assms(4)] field_bits [OF assms(5)]
  show "TokenMetadata_containsBalancedBrackets x = balanced"
    using fields [of 10] fields(2) [of 2] by (auto simp: containsBalancedBrackets_bit assms(6) pack_metadata_bits)
  have bits: "bit x n \<longleftrightarrow> bit language n \<or> 8 \<le> n \<and> bit tokenType (n - 8) \<or> n = 10 \<and> balanced \<or> 11 \<le> n \<and> bit style (n - 11) \<or>
      15 \<le> n \<and> bit foreground (n - 15) \<or> 24 \<le> n \<and> bit background (n - 24)" if "n < 32" for n
    using that by (simp add: assms(6) pack_metadata_bits)
  show "TokenMetadata_getLanguageId x = language"
    by (rule bit_eqI) (use fields in \<open>auto simp: metadata_fields bit_take_bit_iff bits\<close>)
  show "TokenMetadata_getTokenType x = tokenType"
    by (rule bit_eqI) (use fields in \<open>force simp: metadata_fields bit_take_bit_iff bit_drop_bit_eq bits\<close>)
  show "TokenMetadata_getFontStyle x = style"
    by (rule bit_eqI) (use fields in \<open>force simp: metadata_fields bit_take_bit_iff bit_drop_bit_eq bits\<close>)
  show "TokenMetadata_getForeground x = foreground"
    by (rule bit_eqI) (use fields in \<open>force simp: metadata_fields bit_take_bit_iff bit_drop_bit_eq bits\<close>)
  show "TokenMetadata_getBackground x = background"
    by (rule bit_eqI) (use fields in \<open>force simp: metadata_fields bit_take_bit_iff bit_drop_bit_eq bits\<close>)
qed

text \<open>
  C33: The attributes of a token fit into their fields, and nothing else is in the number. Each
  attribute that is read from a number stays within the width that the format gives it, packing the
  six attributes again yields the number, and attributes within their widths are read back from the
  number they are packed into, whatever the others are.
\<close>

theorem metadata_fields_exact:
  assumes "uint language < 2 ^ 8" "uint tokenType < 2 ^ 2" "uint style < 2 ^ 4" "uint foreground < 2 ^ 9" "uint background < 2 ^ 8"
    "y = pack_metadata language tokenType balanced style foreground background"
  shows "uint (TokenMetadata_getLanguageId x) < 2 ^ 8 \<and> uint (TokenMetadata_getTokenType x) < 2 ^ 2 \<and> uint (TokenMetadata_getFontStyle x) < 2 ^ 4 \<and>
    uint (TokenMetadata_getForeground x) < 2 ^ 9 \<and> uint (TokenMetadata_getBackground x) < 2 ^ 8 \<and>
    pack_metadata (TokenMetadata_getLanguageId x) (TokenMetadata_getTokenType x) (TokenMetadata_containsBalancedBrackets x)
      (TokenMetadata_getFontStyle x) (TokenMetadata_getForeground x) (TokenMetadata_getBackground x) = x \<and>
    TokenMetadata_getLanguageId y = language \<and> TokenMetadata_getTokenType y = tokenType \<and> TokenMetadata_containsBalancedBrackets y = balanced \<and>
    TokenMetadata_getFontStyle y = style \<and> TokenMetadata_getForeground y = foreground \<and> TokenMetadata_getBackground y = background"
  unfolding assms(6) using fields_pack [OF assms(1-5) refl] pack_fields [of x] 
    field_width [of 8 x] field_width [of 2 "drop_bit 8 x"] field_width [of 4 "drop_bit 11 x"] field_width [of 9 "drop_bit 15 x"] field_width [of 8 "drop_bit 24 x"]
  by (simp add: metadata_fields)

theorem metadata_fields_exact_witness:
  "TokenMetadata_getFontStyle (pack_metadata 3 2 True 5 300 7) = 5 \<and> TokenMetadata_getForeground (pack_metadata 3 2 True 5 300 7) = 300"
  using metadata_fields_exact [of 3 2 5 300 7 _ True 0, OF _ _ _ _ _ refl] by simp

end
