(* ===== verification/LineTokens.thy ===== *)
theory LineTokens
  imports TokenMetadata OffsetRange
begin

text \<open>
  Model of \<open>editor/common/tokens/lineTokens.ts\<close> and \<open>editor/common/tokens/tokenArray.ts\<close>: the tokens
  of a line, with the offset at which each of them ends and its metadata in turn in one
  \<open>Uint32Array\<close>, which is a list of 32-bit words here. Indices of tokens are far below \<open>2^30\<close>, so
  that \<open>i << 1\<close> is \<open>2 * i\<close>. What an array holds behind its end is \<^const>\<open>None\<close>, for \<open>undefined\<close>;
  \<open>undefined\<close> counts as 0 in the bitwise operators.
\<close>

section \<open>LineTokens\<close>

record LineTokens =
  lt_tokens :: "32 word list"
  lt_tokensCount :: int
  lt_text :: js_string
  lt_languageIdCodec :: "32 word \<Rightarrow> js_string"

definition LineTokens_new :: "32 word list \<Rightarrow> js_string \<Rightarrow> (32 word \<Rightarrow> js_string) \<Rightarrow> LineTokens" where
  "LineTokens_new tokens txt decoder =
     \<lparr>lt_tokens = tokens, lt_tokensCount = int (length tokens div 2), lt_text = txt, lt_languageIdCodec = decoder\<rparr>"

text \<open>\<open>new Uint32Array(numbers)\<close>, where \<open>undefined\<close> becomes 0\<close>

definition uint32_array :: "int option list \<Rightarrow> 32 word list" where
  "uint32_array xs = map (\<lambda>x. case x of None \<Rightarrow> 0 | Some i \<Rightarrow> word_of_int i) xs"

definition defaultTokenMetadata :: "32 word" where
  "defaultTokenMetadata = push_bit FONT_STYLE_OFFSET 0 OR push_bit FOREGROUND_OFFSET 1 OR push_bit BACKGROUND_OFFSET 2"

definition LineTokens_createEmpty :: "js_string \<Rightarrow> (32 word \<Rightarrow> js_string) \<Rightarrow> LineTokens" where
  "LineTokens_createEmpty lineContent decoder =
     LineTokens_new [word_of_int (int (length lineContent)), defaultTokenMetadata] lineContent decoder"

fun textAndMetadata_loop :: "(js_string \<times> int) list \<Rightarrow> int \<Rightarrow> js_string \<Rightarrow> int option list \<Rightarrow> js_string \<times> int option list" where
  "textAndMetadata_loop [] offset fullText tokens = (fullText, tokens)"
| "textAndMetadata_loop ((txt, metadata) # data) offset fullText tokens =
     textAndMetadata_loop data (offset + int (length txt)) (fullText @ txt) (tokens @ [Some (offset + int (length txt)), Some metadata])"

definition LineTokens_createFromTextAndMetadata :: "(js_string \<times> int) list \<Rightarrow> (32 word \<Rightarrow> js_string) \<Rightarrow> LineTokens" where
  "LineTokens_createFromTextAndMetadata data decoder =
     (let (fullText, tokens) = textAndMetadata_loop data 0 [] [] in LineTokens_new (uint32_array tokens) fullText decoder)"

function convertToEndOffset_loop :: "32 word list \<Rightarrow> int \<Rightarrow> int \<Rightarrow> 32 word list" where
  "convertToEndOffset_loop tokens tokenIndex lastTokenIndex =
     (if tokenIndex < lastTokenIndex
      then convertToEndOffset_loop (typed_put tokens (2 * tokenIndex) (js_get tokens (2 * (tokenIndex + 1)))) (tokenIndex + 1) lastTokenIndex
      else tokens)"
  by pat_completeness auto
termination
  by (relation "measure (\<lambda>(tokens, i, l). nat (l - i))") auto

declare convertToEndOffset_loop.simps [simp del]

definition LineTokens_convertToEndOffset :: "32 word list \<Rightarrow> int \<Rightarrow> 32 word list" where
  "LineTokens_convertToEndOffset tokens lineTextLength =
     (let tokenCount = int (length tokens div 2);
          lastTokenIndex = tokenCount - 1
      in typed_put (convertToEndOffset_loop tokens 0 lastTokenIndex) (2 * lastTokenIndex) (Some (word_of_int lineTextLength)))"

text \<open>The binary search; \<open>mid\<close> is an index of a token, so that the end offset exists.\<close>

function findIndex_loop :: "32 word list \<Rightarrow> int \<Rightarrow> nat \<Rightarrow> nat \<Rightarrow> nat" where
  "findIndex_loop tokens desiredIndex low high =
     (if low < high then
        let mid = low + (high - low) div 2;
            endOffset = uint (tokens ! (2 * mid))
        in if endOffset = desiredIndex then mid + 1
           else if endOffset < desiredIndex then findIndex_loop tokens desiredIndex (mid + 1) high
           else findIndex_loop tokens desiredIndex low mid
      else low)"
  by pat_completeness auto
termination
  by (relation "measure (\<lambda>(tokens, d, low, high). high - low)") auto

declare findIndex_loop.simps [simp del]

definition LineTokens_findIndexInTokensArray :: "32 word list \<Rightarrow> int \<Rightarrow> int" where
  "LineTokens_findIndexInTokensArray tokens desiredIndex =
     (if length tokens \<le> 2 then 0 else int (findIndex_loop tokens desiredIndex 0 (length tokens div 2 - 1)))"

definition LineTokens_slicedEquals :: "LineTokens \<Rightarrow> LineTokens \<Rightarrow> int \<Rightarrow> int \<Rightarrow> bool" where
  "LineTokens_slicedEquals lt other sliceFromTokenIndex sliceTokenCount =
     (if lt_text lt \<noteq> lt_text other then False
      else if lt_tokensCount lt \<noteq> lt_tokensCount other then False
      else let from1 = 2 * sliceFromTokenIndex; to1 = from1 + 2 * sliceTokenCount
           in \<forall>i \<in> set [from1..to1 - 1]. js_get (lt_tokens lt) i = js_get (lt_tokens other) i)"

definition LineTokens_equals :: "LineTokens \<Rightarrow> LineTokens \<Rightarrow> bool" where
  "LineTokens_equals lt other = LineTokens_slicedEquals lt other 0 (lt_tokensCount lt)"

definition LineTokens_getLineContent :: "LineTokens \<Rightarrow> js_string" where
  "LineTokens_getLineContent lt = lt_text lt"

definition LineTokens_getCount :: "LineTokens \<Rightarrow> int" where
  "LineTokens_getCount lt = lt_tokensCount lt"

definition LineTokens_getStartOffset :: "LineTokens \<Rightarrow> int \<Rightarrow> int option" where
  "LineTokens_getStartOffset lt tokenIndex =
     (if tokenIndex > 0 then map_option uint (js_get (lt_tokens lt) (2 * (tokenIndex - 1))) else Some 0)"

definition LineTokens_getMetadata :: "LineTokens \<Rightarrow> int \<Rightarrow> 32 word option" where
  "LineTokens_getMetadata lt tokenIndex = js_get (lt_tokens lt) (2 * tokenIndex + 1)"

definition metadata_bits :: "32 word option \<Rightarrow> 32 word" where
  "metadata_bits m = (case m of None \<Rightarrow> 0 | Some w \<Rightarrow> w)"

definition LineTokens_getLanguageId :: "LineTokens \<Rightarrow> int \<Rightarrow> js_string" where
  "LineTokens_getLanguageId lt tokenIndex =
     lt_languageIdCodec lt (TokenMetadata_getLanguageId (metadata_bits (LineTokens_getMetadata lt tokenIndex)))"

definition LineTokens_getStandardTokenType :: "LineTokens \<Rightarrow> int \<Rightarrow> 32 word" where
  "LineTokens_getStandardTokenType lt tokenIndex = TokenMetadata_getTokenType (metadata_bits (LineTokens_getMetadata lt tokenIndex))"

definition LineTokens_getForeground :: "LineTokens \<Rightarrow> int \<Rightarrow> 32 word" where
  "LineTokens_getForeground lt tokenIndex = TokenMetadata_getForeground (metadata_bits (LineTokens_getMetadata lt tokenIndex))"

definition LineTokens_getClassName :: "LineTokens \<Rightarrow> int \<Rightarrow> js_string" where
  "LineTokens_getClassName lt tokenIndex = TokenMetadata_getClassNameFromMetadata (metadata_bits (LineTokens_getMetadata lt tokenIndex))"

definition LineTokens_getInlineStyle :: "LineTokens \<Rightarrow> int \<Rightarrow> js_string list \<Rightarrow> js_string" where
  "LineTokens_getInlineStyle lt tokenIndex colorMap =
     TokenMetadata_getInlineStyleFromMetadata (metadata_bits (LineTokens_getMetadata lt tokenIndex)) colorMap"

definition LineTokens_getPresentation :: "LineTokens \<Rightarrow> int \<Rightarrow> ITokenPresentation" where
  "LineTokens_getPresentation lt tokenIndex = TokenMetadata_getPresentationFromMetadata (metadata_bits (LineTokens_getMetadata lt tokenIndex))"

definition LineTokens_getEndOffset :: "LineTokens \<Rightarrow> int \<Rightarrow> int option" where
  "LineTokens_getEndOffset lt tokenIndex = map_option uint (js_get (lt_tokens lt) (2 * tokenIndex))"

definition LineTokens_findTokenIndexAtOffset :: "LineTokens \<Rightarrow> int \<Rightarrow> int" where
  "LineTokens_findTokenIndexAtOffset lt offset = LineTokens_findIndexInTokensArray (lt_tokens lt) offset"

text \<open>
  The tokens to insert: their offset, text and metadata. In the loop, an index below the number of
  tokens always has an end offset; the last case does not occur.
\<close>

record insert_token =
  it_offset :: int
  it_text :: js_string
  it_tokenMetadata :: int

function withInserted_loop :: "LineTokens \<Rightarrow> int \<Rightarrow> insert_token list \<Rightarrow> js_string \<Rightarrow> int option list \<Rightarrow> int \<Rightarrow> js_string \<times> int option list" where
  "withInserted_loop lt nextOriginalTokenIdx inserts txt newTokens originalEndOffset =
     (let nextOriginalTokenEndOffset =
            (if nextOriginalTokenIdx < lt_tokensCount lt then map_option uint (js_get (lt_tokens lt) (2 * nextOriginalTokenIdx)) else Some (-1));
          originalMetadata = map_option uint (js_get (lt_tokens lt) (2 * nextOriginalTokenIdx + 1))
      in case nextOriginalTokenEndOffset of
           Some e \<Rightarrow>
             if e \<noteq> -1 \<and> (inserts = [] \<or> e \<le> it_offset (hd inserts)) then
               let txt = txt @ js_substring (lt_text lt) originalEndOffset e
               in withInserted_loop lt (nextOriginalTokenIdx + 1) inserts txt (newTokens @ [Some (int (length txt)), originalMetadata]) e
             else (case inserts of
                [] \<Rightarrow> (txt, newTokens)
              | nextInsertToken # rest \<Rightarrow>
                  let middle = it_offset nextInsertToken > originalEndOffset;
                      txt1 = (if middle then txt @ js_substring (lt_text lt) originalEndOffset (it_offset nextInsertToken) else txt);
                      newTokens1 = (if middle then newTokens @ [Some (int (length txt1)), originalMetadata] else newTokens);
                      originalEndOffset1 = (if middle then it_offset nextInsertToken else originalEndOffset);
                      txt2 = txt1 @ it_text nextInsertToken
                  in withInserted_loop lt nextOriginalTokenIdx rest txt2
                       (newTokens1 @ [Some (int (length txt2)), Some (it_tokenMetadata nextInsertToken)]) originalEndOffset1)
         | None \<Rightarrow> (txt, newTokens))"
  by pat_completeness auto
termination
  by (relation "measure (\<lambda>(lt, i, inserts, r). nat (lt_tokensCount lt - i) + length inserts)") (auto split: if_splits)

declare withInserted_loop.simps [simp del]

definition LineTokens_withInserted :: "LineTokens \<Rightarrow> insert_token list \<Rightarrow> LineTokens" where
  "LineTokens_withInserted lt insertTokens =
     (if insertTokens = [] then lt
      else let (txt, newTokens) = withInserted_loop lt 0 insertTokens [] [] 0
           in LineTokens_new (uint32_array newTokens) txt (lt_languageIdCodec lt))"

definition LineTokens_getTokenText :: "LineTokens \<Rightarrow> int \<Rightarrow> js_string" where
  "LineTokens_getTokenText lt tokenIndex =
     (case (LineTokens_getStartOffset lt tokenIndex, LineTokens_getEndOffset lt tokenIndex) of
        (Some s, Some e) \<Rightarrow> js_substring (lt_text lt) s e
      | (Some s, None) \<Rightarrow> js_substring_from (lt_text lt) s
      | (None, Some e) \<Rightarrow> js_substring (lt_text lt) 0 e
      | (None, None) \<Rightarrow> lt_text lt)"

text \<open>What the callback of \<open>forEach\<close> is called with\<close>

definition LineTokens_forEach :: "LineTokens \<Rightarrow> int list" where
  "LineTokens_forEach lt = [0..LineTokens_getCount lt - 1]"

section \<open>TokenArray\<close>

record TokenInfo =
  ti_length :: int
  ti_metadata :: "32 word"

type_synonym TokenArray = "TokenInfo list"

fun tokenArray_ranges :: "int \<Rightarrow> TokenArray \<Rightarrow> (OffsetRange \<times> TokenInfo) list result" where
  "tokenArray_ranges lengthSum [] = Inr []"
| "tokenArray_ranges lengthSum (tokenInfo # tokens) =
     ebind (OffsetRange_new lengthSum (lengthSum + ti_length tokenInfo)) (\<lambda>rng.
       emap ((#) (rng, tokenInfo)) (tokenArray_ranges (lengthSum + ti_length tokenInfo) tokens))"

text \<open>What the callback of \<open>TokenArray.forEach\<close> is called with, as long as it does not throw\<close>

definition TokenArray_forEach :: "TokenArray \<Rightarrow> (OffsetRange \<times> TokenInfo) list result" where
  "TokenArray_forEach tokens = tokenArray_ranges 0 tokens"

fun tokenArray_slice_loop :: "OffsetRange \<Rightarrow> int \<Rightarrow> TokenArray \<Rightarrow> TokenArray" where
  "tokenArray_slice_loop rng lengthSum [] = []"
| "tokenArray_slice_loop rng lengthSum (tokenInfo # tokens) =
     (let tokenStart = lengthSum;
          tokenEndEx = tokenStart + ti_length tokenInfo
      in if tokenEndEx > or_start rng then
           if tokenStart \<ge> or_endExclusive rng then []
           else let deltaBefore = max 0 (or_start rng - tokenStart);
                    deltaAfter = max 0 (tokenEndEx - or_endExclusive rng)
                in \<lparr>ti_length = ti_length tokenInfo - deltaBefore - deltaAfter, ti_metadata = ti_metadata tokenInfo\<rparr> #
                     tokenArray_slice_loop rng (lengthSum + ti_length tokenInfo) tokens
         else tokenArray_slice_loop rng (lengthSum + ti_length tokenInfo) tokens)"

definition TokenArray_slice :: "TokenArray \<Rightarrow> OffsetRange \<Rightarrow> TokenArray" where
  "TokenArray_slice tokens rng = tokenArray_slice_loop rng 0 tokens"

definition TokenArrayBuilder_add :: "TokenInfo list \<Rightarrow> int \<Rightarrow> 32 word \<Rightarrow> TokenInfo list" where
  "TokenArrayBuilder_add tokens n metadata = tokens @ [\<lparr>ti_length = n, ti_metadata = metadata\<rparr>]"

definition TokenArrayBuilder_build :: "TokenInfo list \<Rightarrow> TokenArray" where
  "TokenArrayBuilder_build tokens = tokens"

text \<open>
  The token at an index of \<open>getTokensInRange\<close>: without an end offset, the length is not a number and
  nothing is added.
\<close>

definition tokensInRange_step :: "LineTokens \<Rightarrow> OffsetRange \<Rightarrow> TokenInfo list \<Rightarrow> int \<Rightarrow> TokenInfo list result" where
  "tokensInRange_step lt rng builder tokenIndex =
     (case (LineTokens_getStartOffset lt tokenIndex, LineTokens_getEndOffset lt tokenIndex) of
        (Some s, Some e) \<Rightarrow>
          ebind (OffsetRange_new s e) (\<lambda>tokenRange.
            let n = OffsetRange_intersectionLength tokenRange rng
            in Inr (if n > 0 then TokenArrayBuilder_add builder n (metadata_bits (LineTokens_getMetadata lt tokenIndex)) else builder))
      | _ \<Rightarrow> Inr builder)"

definition LineTokens_getTokensInRange :: "LineTokens \<Rightarrow> OffsetRange \<Rightarrow> TokenArray result" where
  "LineTokens_getTokensInRange lt rng =
     (let startTokenIndex = LineTokens_findTokenIndexAtOffset lt (or_start rng);
          endTokenIndex = LineTokens_findTokenIndexAtOffset lt (or_endExclusive rng)
      in emap TokenArrayBuilder_build (efold (\<lambda>tokenIndex builder. tokensInRange_step lt rng builder tokenIndex) [startTokenIndex..endTokenIndex] []))"

section \<open>SliceLineTokens\<close>

record SliceLineTokens =
  sl_source :: LineTokens
  sl_startOffset :: int
  sl_endOffset :: int
  sl_deltaOffset :: int
  sl_firstTokenIndex :: int
  sl_tokensCount :: int

fun slice_count :: "LineTokens \<Rightarrow> int \<Rightarrow> int list \<Rightarrow> int" where
  "slice_count source endOffset [] = 0"
| "slice_count source endOffset (i # is) =
     (if (case LineTokens_getStartOffset source i of Some s \<Rightarrow> s \<ge> endOffset | None \<Rightarrow> False) then 0
      else 1 + slice_count source endOffset is)"

definition SliceLineTokens_new :: "LineTokens \<Rightarrow> int \<Rightarrow> int \<Rightarrow> int \<Rightarrow> SliceLineTokens" where
  "SliceLineTokens_new source startOffset endOffset deltaOffset =
     (let first = LineTokens_findTokenIndexAtOffset source startOffset
      in \<lparr>sl_source = source, sl_startOffset = startOffset, sl_endOffset = endOffset, sl_deltaOffset = deltaOffset,
          sl_firstTokenIndex = first, sl_tokensCount = slice_count source endOffset [first..LineTokens_getCount source - 1]\<rparr>)"

definition LineTokens_sliceAndInflate :: "LineTokens \<Rightarrow> int \<Rightarrow> int \<Rightarrow> int \<Rightarrow> SliceLineTokens" where
  "LineTokens_sliceAndInflate lt startOffset endOffset deltaOffset = SliceLineTokens_new lt startOffset endOffset deltaOffset"

definition SliceLineTokens_getMetadata :: "SliceLineTokens \<Rightarrow> int \<Rightarrow> 32 word option" where
  "SliceLineTokens_getMetadata sl tokenIndex = LineTokens_getMetadata (sl_source sl) (sl_firstTokenIndex sl + tokenIndex)"

definition SliceLineTokens_getLanguageId :: "SliceLineTokens \<Rightarrow> int \<Rightarrow> js_string" where
  "SliceLineTokens_getLanguageId sl tokenIndex = LineTokens_getLanguageId (sl_source sl) (sl_firstTokenIndex sl + tokenIndex)"

definition SliceLineTokens_getLineContent :: "SliceLineTokens \<Rightarrow> js_string" where
  "SliceLineTokens_getLineContent sl = js_substring (LineTokens_getLineContent (sl_source sl)) (sl_startOffset sl) (sl_endOffset sl)"

definition SliceLineTokens_equals :: "SliceLineTokens \<Rightarrow> SliceLineTokens \<Rightarrow> bool" where
  "SliceLineTokens_equals sl other \<longleftrightarrow> sl_startOffset sl = sl_startOffset other \<and> sl_endOffset sl = sl_endOffset other \<and>
     sl_deltaOffset sl = sl_deltaOffset other \<and>
     LineTokens_slicedEquals (sl_source sl) (sl_source other) (sl_firstTokenIndex sl) (sl_tokensCount sl)"

definition SliceLineTokens_getCount :: "SliceLineTokens \<Rightarrow> int" where
  "SliceLineTokens_getCount sl = sl_tokensCount sl"

definition SliceLineTokens_getStandardTokenType :: "SliceLineTokens \<Rightarrow> int \<Rightarrow> 32 word" where
  "SliceLineTokens_getStandardTokenType sl tokenIndex = LineTokens_getStandardTokenType (sl_source sl) (sl_firstTokenIndex sl + tokenIndex)"

definition SliceLineTokens_getForeground :: "SliceLineTokens \<Rightarrow> int \<Rightarrow> 32 word" where
  "SliceLineTokens_getForeground sl tokenIndex = LineTokens_getForeground (sl_source sl) (sl_firstTokenIndex sl + tokenIndex)"

definition SliceLineTokens_getEndOffset :: "SliceLineTokens \<Rightarrow> int \<Rightarrow> int option" where
  "SliceLineTokens_getEndOffset sl tokenIndex =
     map_option (\<lambda>tokenEndOffset. min (sl_endOffset sl) tokenEndOffset - sl_startOffset sl + sl_deltaOffset sl)
       (LineTokens_getEndOffset (sl_source sl) (sl_firstTokenIndex sl + tokenIndex))"

definition SliceLineTokens_getClassName :: "SliceLineTokens \<Rightarrow> int \<Rightarrow> js_string" where
  "SliceLineTokens_getClassName sl tokenIndex = LineTokens_getClassName (sl_source sl) (sl_firstTokenIndex sl + tokenIndex)"

definition SliceLineTokens_getInlineStyle :: "SliceLineTokens \<Rightarrow> int \<Rightarrow> js_string list \<Rightarrow> js_string" where
  "SliceLineTokens_getInlineStyle sl tokenIndex colorMap = LineTokens_getInlineStyle (sl_source sl) (sl_firstTokenIndex sl + tokenIndex) colorMap"

definition SliceLineTokens_getPresentation :: "SliceLineTokens \<Rightarrow> int \<Rightarrow> ITokenPresentation" where
  "SliceLineTokens_getPresentation sl tokenIndex = LineTokens_getPresentation (sl_source sl) (sl_firstTokenIndex sl + tokenIndex)"

definition SliceLineTokens_findTokenIndexAtOffset :: "SliceLineTokens \<Rightarrow> int \<Rightarrow> int" where
  "SliceLineTokens_findTokenIndexAtOffset sl offset =
     LineTokens_findTokenIndexAtOffset (sl_source sl) (offset + sl_startOffset sl - sl_deltaOffset sl) - sl_firstTokenIndex sl"

definition SliceLineTokens_getTokenText :: "SliceLineTokens \<Rightarrow> int \<Rightarrow> js_string" where
  "SliceLineTokens_getTokenText sl tokenIndex =
     (let adjustedTokenIndex = sl_firstTokenIndex sl + tokenIndex;
          txt = LineTokens_getTokenText (sl_source sl) adjustedTokenIndex;
          txt = (case LineTokens_getStartOffset (sl_source sl) adjustedTokenIndex of
              Some s \<Rightarrow> if s < sl_startOffset sl then js_substring_from txt (sl_startOffset sl - s) else txt
            | None \<Rightarrow> txt)
      in case LineTokens_getEndOffset (sl_source sl) adjustedTokenIndex of
           Some e \<Rightarrow> if e > sl_endOffset sl then js_substring txt 0 (int (length txt) - (e - sl_endOffset sl)) else txt
         | None \<Rightarrow> txt)"

definition SliceLineTokens_forEach :: "SliceLineTokens \<Rightarrow> int list" where
  "SliceLineTokens_forEach sl = [0..SliceLineTokens_getCount sl - 1]"

section \<open>Tokens as pairs of end offset and metadata\<close>

fun token_list :: "32 word list \<Rightarrow> (nat \<times> 32 word) list" where
  "token_list (e # m # ws) = (unat e, m) # token_list ws"
| "token_list ws = []"

definition flat_tokens :: "(nat \<times> 32 word) list \<Rightarrow> 32 word list" where
  "flat_tokens ps = concat (map (\<lambda>(e, m). [of_nat e, m]) ps)"

text \<open>The metadata of each code unit of a line, from offset \<open>p\<close> on\<close>

fun spread :: "nat \<Rightarrow> (nat \<times> 32 word) list \<Rightarrow> 32 word list" where
  "spread p [] = []"
| "spread p ((e, m) # ps) = replicate (e - p) m @ spread e ps"

text \<open>End offsets that ascend and fit into 32 bits\<close>

definition ends_ok :: "(nat \<times> 32 word) list \<Rightarrow> bool" where
  "ends_ok ps \<longleftrightarrow> sorted_wrt (\<le>) (map fst ps) \<and> (\<forall>p \<in> set ps. fst p < 2 ^ 32)"

definition end_from :: "nat \<Rightarrow> (nat \<times> 32 word) list \<Rightarrow> nat" where
  "end_from p ps = (if ps = [] then p else fst (last ps))"

lemma flat_simps [simp]: "flat_tokens [] = []" "flat_tokens ((e, m) # ps) = of_nat e # m # flat_tokens ps"
  "flat_tokens (xs @ ys) = flat_tokens xs @ flat_tokens ys"
  by (simp_all add: flat_tokens_def)

lemma length_flat [simp]: "length (flat_tokens ps) = 2 * length ps"
  by (induction ps) auto

lemma end_from_simps [simp]: "end_from p [] = p" "end_from p ((e, m) # ps) = end_from e ps" "end_from p (xs @ ys) = end_from (end_from p xs) ys"
  by (auto simp: end_from_def)

lemma nth_flat: "i < length ps \<Longrightarrow> flat_tokens ps ! (2 * i) = of_nat (fst (ps ! i)) \<and> flat_tokens ps ! (2 * i + 1) = snd (ps ! i)"
proof (induction ps arbitrary: i)
  case (Cons p ps)
  then show ?case by (cases p; cases i) auto
qed simp

lemma token_list_flat: "\<forall>p \<in> set ps. fst p < 2 ^ 32 \<Longrightarrow> token_list (flat_tokens ps) = ps"
  by (induction ps) (auto simp: unat_of_nat take_bit_nat_eq_self)

lemma get_flat:
  assumes "i < length ps"
  shows "js_get (flat_tokens ps) (2 * int i) = Some (of_nat (fst (ps ! i)))" "js_get (flat_tokens ps) (2 * int i + 1) = Some (snd (ps ! i))"
proof -
  have "nat (2 * int i) = 2 * i" "nat (2 * int i + 1) = 2 * i + 1" by simp_all
  then show "js_get (flat_tokens ps) (2 * int i) = Some (of_nat (fst (ps ! i)))" "js_get (flat_tokens ps) (2 * int i + 1) = Some (snd (ps ! i))"
    using assms nth_flat [OF assms] by (auto simp: js_get_def)
qed

lemma uint_end: "e < 2 ^ 32 \<Longrightarrow> uint (of_nat e :: 32 word) = int e"
  by (simp add: uint_word_of_int_eq unsigned_of_nat take_bit_nat_eq_self)

lemma ends_ok_Nil: "ends_ok []"
  by (simp add: ends_ok_def)

lemma ends_ok_append: "ends_ok (xs @ ys) \<longleftrightarrow> ends_ok xs \<and> ends_ok ys \<and> (\<forall>x \<in> set xs. \<forall>y \<in> set ys. fst x \<le> fst y)"
  by (auto simp: ends_ok_def sorted_wrt_append)

lemma ends_ok_Cons: "ends_ok ((e, m) # ps) \<longleftrightarrow> e < 2 ^ 32 \<and> ends_ok ps \<and> (\<forall>p \<in> set ps. e \<le> fst p)"
  by (auto simp: ends_ok_def)

lemma spread_append: "spread p (xs @ ys) = spread p xs @ spread (end_from p xs) ys"
  by (induction xs arbitrary: p) auto

lemma length_spread: "ends_ok ps \<Longrightarrow> \<forall>x \<in> set ps. p \<le> fst x \<Longrightarrow> length (spread p ps) = end_from p ps - p"
proof (induction ps arbitrary: p)
  case (Cons x ps)
  obtain e m where x: "x = (e, m)" by (cases x)
  have len: "length (spread e ps) = end_from e ps - e" using Cons x by (intro Cons.IH) (auto simp: ends_ok_Cons)
  have "e \<le> end_from e ps" using Cons.prems(1) x last_in_set [of ps] by (auto simp: end_from_def ends_ok_Cons less_imp_le)
  then show ?case using Cons.prems(2) x len by simp
qed simp

section \<open>The token at an offset\<close>

text \<open>An index whose token holds an offset, or the last index; empty tokens may precede it.\<close>

definition holds_offset :: "(nat \<times> 32 word) list \<Rightarrow> int \<Rightarrow> nat \<Rightarrow> bool" where
  "holds_offset ps d i \<longleftrightarrow> i < length ps \<and> (\<forall>j < i. int (fst (ps ! j)) \<le> d) \<and>
     (i < length ps - 1 \<longrightarrow> d < int (fst (ps ! i)) \<or> d = int (fst (ps ! i)) \<and> (\<exists>j < i. int (fst (ps ! j)) = d))"

lemma findIndex_loop_spec:
  assumes "ends_ok ps" "tokens = flat_tokens ps" "low \<le> high" "high < length ps"
    "\<forall>i < low. int (fst (ps ! i)) \<le> d" "high < length ps - 1 \<Longrightarrow> d < int (fst (ps ! high))"
  shows "holds_offset ps d (findIndex_loop tokens d low high)"
  using assms(3-6)
proof (induction "high - low" arbitrary: low high rule: less_induct)
  case less
  show ?case
  proof (cases "low < high")
    case False
    then show ?thesis using less.prems unfolding findIndex_loop.simps [of tokens d low high] by (auto simp: holds_offset_def)
  next
    case True
    define mid where "mid = low + (high - low) div 2"
    have mid: "low \<le> mid" "mid < high" "mid < length ps" using True less.prems(2) by (auto simp: mid_def)
    have bound: "fst p < 2 ^ 32" if "p \<in> set ps" for p using assms(1) that unfolding ends_ok_def by blast
    have uint: "uint (tokens ! (2 * mid)) = int (fst (ps ! mid))"
      using nth_flat [OF mid(3)] assms(2) bound [OF nth_mem [OF mid(3)]] by (simp only: uint_end)
    have mono: "i < j \<Longrightarrow> j < length ps \<Longrightarrow> fst (ps ! i) \<le> fst (ps ! j)" for i j
      using assms(1) by (auto simp: ends_ok_def sorted_wrt_iff_nth_less)
    have step: "findIndex_loop tokens d low high = (if int (fst (ps ! mid)) = d then mid + 1
        else if int (fst (ps ! mid)) < d then findIndex_loop tokens d (mid + 1) high else findIndex_loop tokens d low mid)"
      using True uint by (simp add: findIndex_loop.simps [of tokens d low high] Let_def flip: mid_def)
    have upto: "int (fst (ps ! i)) \<le> d" if "i < mid + 1" "int (fst (ps ! mid)) \<le> d" for i
      using that mono [of i mid] mid(3) by (cases "i = mid") auto
    consider "int (fst (ps ! mid)) = d" | "int (fst (ps ! mid)) < d" | "d < int (fst (ps ! mid))" by linarith
    then show ?thesis
    proof cases
      case 1
      have "d \<le> int (fst (ps ! (mid + 1)))" using 1 mono [of mid "mid + 1"] mid(2) less.prems(2) by simp
      then show ?thesis using 1 upto step mid(2) less.prems(2) by (auto simp: holds_offset_def)
    next
      case 2
      then show ?thesis using step less.hyps [of high "mid + 1"] less.prems mid upto by simp
    next
      case 3
      then show ?thesis using step less.hyps [of mid low] less.prems mid by simp
    qed
  qed
qed

lemma findIndex_spec:
  assumes "ends_ok ps" "ps \<noteq> []"
  obtains i where "LineTokens_findIndexInTokensArray (flat_tokens ps) d = int i" "holds_offset ps d i"
proof (cases "length ps = 1")
  case True
  then show ?thesis using that [of 0] by (simp add: LineTokens_findIndexInTokensArray_def holds_offset_def)
next
  case False
  with assms(2) have "length ps > 1" by (cases ps) auto
  then show ?thesis
    using that findIndex_loop_spec [OF assms(1) refl, of 0 "length ps - 1" d] by (simp add: LineTokens_findIndexInTokensArray_def)
qed

lemma end_from_le: "ends_ok ps \<Longrightarrow> x \<in> set ps \<Longrightarrow> fst x \<le> end_from p ps"
proof (induction ps rule: rev_induct)
  case (snoc y ps)
  then show ?case by (cases y) (auto simp: ends_ok_append end_from_def less_imp_le)
qed simp

lemma findIndex_split:
  assumes "ends_ok ps" "ps \<noteq> []" "d \<le> end_from 0 ps"
  obtains pre e m post where "ps = pre @ (e, m) # post" "LineTokens_findIndexInTokensArray (flat_tokens ps) (int d) = int (length pre)"
    "end_from 0 pre \<le> d" "d \<le> e" "d < e \<or> post = [] \<or> d \<in> fst ` set pre"
proof -
  obtain i where i0: "LineTokens_findIndexInTokensArray (flat_tokens ps) (int d) = int i" "holds_offset ps (int d) i"
    using findIndex_spec [OF assms(1,2)] .
  then have i: "LineTokens_findIndexInTokensArray (flat_tokens ps) (int d) = int i" "i < length ps" "\<forall>j < i. fst (ps ! j) \<le> d"
      "i < length ps - 1 \<Longrightarrow> d < fst (ps ! i) \<or> d = fst (ps ! i) \<and> (\<exists>j < i. fst (ps ! j) = d)"
    by (simp_all add: holds_offset_def)
  obtain e m where em: "ps ! i = (e, m)" by (cases "ps ! i")
  have split: "ps = take i ps @ (e, m) # drop (Suc i) ps" using id_take_nth_drop [OF i(2)] em by simp
  have "end_from 0 (take i ps) \<le> d"
  proof (cases i)
    case (Suc j)
    then have "end_from 0 (take i ps) = fst (ps ! j)" using i(2) by (auto simp: end_from_def take_Suc_conv_app_nth)
    with Suc i(3) show ?thesis by simp
  qed simp
  moreover have "ps ! j \<in> set (take i ps)" if "j < i" for j using that i(2) nth_mem [of j "take i ps"] by simp
  then have "d < e \<or> drop (Suc i) ps = [] \<or> d \<in> fst ` set (take i ps)" using i(2,4) em by (cases "i < length ps - 1") force+
  moreover have "d \<le> e"
  proof (cases "i < length ps - 1")
    case False
    then have "drop (Suc i) ps = []" using i(2) by simp
    then have "end_from 0 ps = e" by (subst split) simp
    with assms(3) show ?thesis by simp
  qed (use i(4) em in auto)
  ultimately show ?thesis using that [OF split] i(1,2) by simp
qed

text \<open>A line whose tokens cover its text\<close>

definition line_ok :: "LineTokens \<Rightarrow> bool" where
  "line_ok lt \<longleftrightarrow> (let ps = token_list (lt_tokens lt) in lt_tokens lt = flat_tokens ps \<and> ends_ok ps \<and> ps \<noteq> [] \<and>
     end_from 0 ps = length (lt_text lt) \<and> lt_tokensCount lt = int (length ps))"

definition line_metadata :: "LineTokens \<Rightarrow> 32 word list" where
  "line_metadata lt = spread 0 (token_list (lt_tokens lt))"

lemma line_okI:
  "lt_tokens lt = flat_tokens ps \<Longrightarrow> ends_ok ps \<Longrightarrow> ps \<noteq> [] \<Longrightarrow> end_from 0 ps = length (lt_text lt) \<Longrightarrow> lt_tokensCount lt = int (length ps) \<Longrightarrow>
   line_ok lt \<and> line_metadata lt = spread 0 ps"
  by (simp add: line_ok_def line_metadata_def Let_def token_list_flat ends_ok_def)

lemma line_okE:
  assumes "line_ok lt"
  obtains ps where "lt_tokens lt = flat_tokens ps" "ends_ok ps" "ps \<noteq> []" "end_from 0 ps = length (lt_text lt)" "lt_tokensCount lt = int (length ps)"
    "line_metadata lt = spread 0 ps"
  using assms that [of "token_list (lt_tokens lt)"] by (simp add: line_ok_def Let_def line_metadata_def)

lemma line_metadata_length: "line_ok lt \<Longrightarrow> length (line_metadata lt) = length (lt_text lt)"
  by (elim line_okE) (simp add: length_spread)

text \<open>The offsets and the metadata of the token at an index\<close>

lemma line_token:
  assumes "lt_tokens lt = flat_tokens (pre @ (e, m) # post)" "ends_ok (pre @ (e, m) # post)"
  shows "LineTokens_getStartOffset lt (int (length pre)) = Some (int (end_from 0 pre))" "LineTokens_getEndOffset lt (int (length pre)) = Some (int e)"
    "LineTokens_getMetadata lt (int (length pre)) = Some m"
proof -
  have len: "length pre < length (pre @ (e, m) # post)" by simp
  have nth: "(pre @ (e, m) # post) ! length pre = (e, m)" by simp
  note get = get_flat [OF len, unfolded nth]
  have "e < 2 ^ 32" using assms(2) by (simp add: ends_ok_append ends_ok_Cons)
  from uint_end [OF this] get(1) show "LineTokens_getEndOffset lt (int (length pre)) = Some (int e)"
    unfolding LineTokens_getEndOffset_def assms(1) by simp
  show "LineTokens_getMetadata lt (int (length pre)) = Some m"
    using get(2) unfolding LineTokens_getMetadata_def assms(1) by simp
  show "LineTokens_getStartOffset lt (int (length pre)) = Some (int (end_from 0 pre))"
  proof (cases pre rule: rev_cases)
    case (snoc qs q)
    have "js_get (flat_tokens ((qs @ [q]) @ (e, m) # post)) (2 * int (length qs)) = Some (of_nat (fst q))"
      using get_flat(1) [of "length qs" "(qs @ [q]) @ (e, m) # post"] by (simp add: nth_append)
    moreover have "fst q < 2 ^ 32" using assms(2) snoc by (cases q) (auto simp: ends_ok_def)
    moreover have "end_from 0 (qs @ [q]) = fst q" by (simp add: end_from_def)
    ultimately show ?thesis using uint_end [of "fst q"] unfolding LineTokens_getStartOffset_def assms(1) snoc by simp
  qed (simp add: LineTokens_getStartOffset_def)
qed

text \<open>
  C32: \<open>findTokenIndexAtOffset\<close> finds the token of an offset. On a line whose tokens cover its text,
  none of them empty, the binary search returns the index of the token that holds the offset, and
  of the last token for the offset behind the text; the metadata of that token is that of the code unit.
\<close>

theorem findTokenIndexAtOffset_holds:
  assumes "line_ok lt" "distinct (map fst (token_list (lt_tokens lt)))" "d \<le> length (lt_text lt)"
  shows "\<exists>s e. LineTokens_getStartOffset lt (LineTokens_findTokenIndexAtOffset lt (int d)) = Some (int s) \<and>
    LineTokens_getEndOffset lt (LineTokens_findTokenIndexAtOffset lt (int d)) = Some (int e) \<and> s \<le> d \<and> d \<le> e \<and>
    (d < e \<or> e = length (lt_text lt)) \<and>
    (d < length (lt_text lt) \<longrightarrow> LineTokens_getMetadata lt (LineTokens_findTokenIndexAtOffset lt (int d)) = Some (line_metadata lt ! d))"
proof -
  obtain ps where ps: "lt_tokens lt = flat_tokens ps" "ends_ok ps" "ps \<noteq> []" "end_from 0 ps = length (lt_text lt)" "line_metadata lt = spread 0 ps"
    using assms(1) by (elim line_okE)
  obtain pre e m post where split: "ps = pre @ (e, m) # post" "LineTokens_findIndexInTokensArray (flat_tokens ps) (int d) = int (length pre)"
      "end_from 0 pre \<le> d" "d \<le> e" "d < e \<or> post = [] \<or> d \<in> fst ` set pre"
    using findIndex_split [OF ps(2,3)] assms(3) ps(4) by metis
  have "token_list (lt_tokens lt) = ps" using ps(1,2) by (simp add: token_list_flat ends_ok_def)
  then have "d < e \<or> post = []" using assms(2) split(1,4,5) by force
  note split = split(1-4) this
  note token = line_token [of lt pre e m post, OF ps(1) [unfolded split(1)] ps(2) [unfolded split(1)]]
  have "post = [] \<Longrightarrow> e = length (lt_text lt)" using ps(4) split(1) by simp
  moreover have "line_metadata lt ! d = m" if "d < length (lt_text lt)"
  proof -
    have "d < e" using split(4,5) that calculation by auto
    moreover have "length (spread 0 pre) = end_from 0 pre" using length_spread [of pre 0] ps(2) split(1) by (simp add: ends_ok_append)
    ultimately show ?thesis using split(3) diff_less_mono [of d e "end_from 0 pre"] by (simp add: ps(5) split(1) spread_append nth_append)
  qed
  ultimately show ?thesis using split(2-5) token unfolding LineTokens_findTokenIndexAtOffset_def ps(1) by auto
qed

definition sample_line :: LineTokens where
  "sample_line = LineTokens_new [2, 7, 5, 9] (js ''ab cd'') (\<lambda>_. [])"

theorem findTokenIndexAtOffset_holds_witness: "LineTokens_getMetadata sample_line (LineTokens_findTokenIndexAtOffset sample_line 3) = Some 9"
proof -
  have "line_ok sample_line"
    by (simp add: line_ok_def sample_line_def LineTokens_new_def Let_def ends_ok_def end_from_def js_def)
  from findTokenIndexAtOffset_holds [OF this, of 3] show ?thesis
    by (auto simp: sample_line_def LineTokens_new_def js_def line_metadata_def nth_append)
qed

section \<open>Inserted tokens\<close>

text \<open>The text with the metadata of its code units, and the insertion of tokens into it\<close>

definition line_units :: "LineTokens \<Rightarrow> (code_unit \<times> 32 word) list" where
  "line_units lt = zip (lt_text lt) (line_metadata lt)"

fun spliced :: "nat \<Rightarrow> insert_token list \<Rightarrow> (code_unit \<times> 32 word) list \<Rightarrow> (code_unit \<times> 32 word) list" where
  "spliced p [] us = drop p us"
| "spliced p (t # ts) us =
     take (nat (it_offset t) - p) (drop p us) @ map (\<lambda>c. (c, word_of_int (it_tokenMetadata t))) (it_text t) @ spliced (nat (it_offset t)) ts us"

definition inserts_ok :: "nat \<Rightarrow> insert_token list \<Rightarrow> nat \<Rightarrow> bool" where
  "inserts_ok p ts n \<longleftrightarrow> sorted_wrt (\<le>) (map it_offset ts) \<and> (\<forall>t \<in> set ts. int p \<le> it_offset t \<and> it_offset t \<le> int n \<and> it_text t \<noteq> [])"

lemma inserts_ok_Nil [simp]: "inserts_ok p [] n"
  by (simp add: inserts_ok_def)

lemma inserts_ok_Cons:
  "inserts_ok p (t # ts) n \<longleftrightarrow> int p \<le> it_offset t \<and> it_offset t \<le> int n \<and> it_text t \<noteq> [] \<and> inserts_ok (nat (it_offset t)) ts n"
  by (auto simp: inserts_ok_def)

text \<open>What the loop has built: a text with tokens that cover it\<close>

definition built :: "js_string \<Rightarrow> int option list \<Rightarrow> (code_unit \<times> 32 word) list \<Rightarrow> bool" where
  "built txt newTokens us \<longleftrightarrow> (\<exists>qs. uint32_array newTokens = flat_tokens qs \<and> sorted_wrt (\<le>) (map fst qs) \<and> (\<forall>q \<in> set qs. fst q \<le> length txt) \<and>
     end_from 0 qs = length txt \<and> zip txt (spread 0 qs) = us \<and> length us = length txt)"

lemma built_extend:
  assumes "built txt newTokens us"
  shows "built (txt @ xs) (newTokens @ [Some (int (length (txt @ xs))), Some (uint m)]) (us @ map (\<lambda>c. (c, m)) xs)"
proof -
  obtain qs where qs: "uint32_array newTokens = flat_tokens qs" "sorted_wrt (\<le>) (map fst qs)" "\<forall>q \<in> set qs. fst q \<le> length txt"
      "end_from 0 qs = length txt" "zip txt (spread 0 qs) = us" "length us = length txt"
    using assms by (auto simp: built_def)
  let ?qs = "qs @ [(length (txt @ xs), m)]"
  have "uint32_array (newTokens @ [Some (int (length (txt @ xs))), Some (uint m)]) = flat_tokens ?qs"
    using qs(1) by (simp add: uint32_array_def)
  moreover have "sorted_wrt (\<le>) (map fst ?qs)" using qs(2,3) by (auto simp: sorted_wrt_append)
  moreover have "\<forall>q \<in> set ?qs. fst q \<le> length (txt @ xs)" using qs(3) by auto
  moreover have "zip (txt @ xs) (spread 0 ?qs) = us @ map (\<lambda>c. (c, m)) xs"
  proof -
    have "length (spread 0 qs) \<ge> length txt" using qs(5,6) by (metis length_zip min.cobounded2)
    moreover have "length (spread 0 qs) \<le> length txt" using qs(2,3,4)
    proof -
      have "length (spread p rs) \<le> end_from p rs - p" if "sorted_wrt (\<le>) (map fst rs)" "\<forall>r \<in> set rs. p \<le> fst r" for p rs using that
      proof (induction rs arbitrary: p)
        case (Cons r rs)
        obtain e k where r: "r = (e, k)" by (cases r)
        have "length (spread e rs) \<le> end_from e rs - e" using Cons r by (intro Cons.IH) (auto intro: less_imp_le)
        moreover have "e \<le> end_from e rs" using Cons.prems(1) r last_in_set [of rs] by (auto simp: end_from_def less_imp_le)
        ultimately show ?case using Cons.prems(2) r by simp
      qed simp
      from this [OF qs(2), of 0] qs(4) show ?thesis by simp
    qed
    moreover have "zip xs (replicate (length xs) m) = map (\<lambda>c. (c, m)) xs" by (induction xs) auto
    ultimately show ?thesis using qs(4,5) by (simp add: spread_append)
  qed
  ultimately show ?thesis using qs(6) by (auto simp: built_def intro!: exI [of _ ?qs])
qed

lemma unit_seg:
  assumes "ends_ok (pre @ (e, m) # post)" "length txt = end_from 0 (pre @ (e, m) # post)" "end_from 0 pre \<le> o1" "o1 \<le> x" "x \<le> e"
  shows "take (x - o1) (drop o1 (zip txt (spread 0 (pre @ (e, m) # post)))) = map (\<lambda>c. (c, m)) (js_substring txt (int o1) (int x))"
proof -
  let ?md = "spread 0 (pre @ (e, m) # post)"
  have "end_from e post = end_from 0 (pre @ (e, m) # post)" by simp
  then have x: "x \<le> length txt" using end_from_le [OF assms(1), of "(e, m)" 0] assms(2,5) by simp
  have md: "?md ! i = m" if "end_from 0 pre \<le> i" "i < e" for i
  proof -
    have "length (spread 0 pre) = end_from 0 pre" using length_spread [of pre 0] assms(1) by (simp add: ends_ok_append)
    then show ?thesis using that diff_less_mono [OF that(2,1)] by (simp add: spread_append nth_append)
  qed
  have len: "length ?md = length txt" using length_spread [OF assms(1), of 0] assms(2) by simp
  have sub: "js_substring txt (int o1) (int x) = take (x - o1) (drop o1 txt)" using x assms(4) by (simp add: js_substring_seg seg_def nat_diff_distrib)
  show ?thesis
    using x assms(3-5) len md by (intro nth_equalityI) (auto simp: sub)
qed

lemma spliced_step: "o1 \<le> x \<Longrightarrow> inserts_ok x ts n \<Longrightarrow> spliced o1 ts us = take (x - o1) (drop o1 us) @ spliced x ts us"
proof (cases ts)
  case Nil
  assume "o1 \<le> x"
  then have "drop o1 us = take (x - o1) (drop o1 us) @ drop x us" by (metis append_take_drop_id drop_drop le_add_diff_inverse2)
  then show ?thesis using Nil by simp
next
  case (Cons t ts')
  assume x: "o1 \<le> x" and ok: "inserts_ok x ts n"
  then have "x \<le> nat (it_offset t)" using Cons by (auto simp: inserts_ok_Cons)
  then have "take (nat (it_offset t) - o1) (drop o1 us) = take (x - o1) (drop o1 us) @ take (nat (it_offset t) - x) (drop x us)"
    using x take_add [of "x - o1" "nat (it_offset t) - x" "drop o1 us"] by simp
  then show ?thesis using Cons by simp
qed

lemma withInserted_loop_spec:
  assumes "lt_tokens lt = flat_tokens (pre @ post)" "ends_ok (pre @ post)" "lt_tokensCount lt = int (length (pre @ post))"
    "length (lt_text lt) = end_from 0 (pre @ post)" "end_from 0 pre \<le> o1" "inserts_ok o1 ts (length (lt_text lt))"
    "case post of [] \<Rightarrow> o1 = length (lt_text lt) | x # _ \<Rightarrow> o1 \<le> fst x" "built txt newTokens us"
  shows "\<exists>txt' newTokens'. withInserted_loop lt (int (length pre)) ts txt newTokens (int o1) = (txt', newTokens') \<and>
    built txt' newTokens' (us @ spliced o1 ts (zip (lt_text lt) (spread 0 (pre @ post))))"
  using assms
proof (induction "length post + length ts" arbitrary: pre post o1 ts "txt" newTokens us rule: less_induct)
  case less
  let ?U = "zip (lt_text lt) (spread 0 (pre @ post))"
  show ?case
  proof (cases post)
    case Nil
    have len: "length ?U = length (lt_text lt)" using length_spread [OF less.prems(2), of 0] less.prems(4) by simp
    show ?thesis
    proof (cases ts)
      case Nil
      then show ?thesis using \<open>post = []\<close> less.prems(3,7,8) len by (subst withInserted_loop.simps) (simp add: Let_def)
    next
      case (Cons t ts')
      have off: "it_offset t = int o1" using less.prems(6,7) \<open>post = []\<close> Cons by (simp add: inserts_ok_Cons)
      have t: "it_offset t = int o1" "it_text t \<noteq> []" "inserts_ok o1 ts' (length (lt_text lt))"
        using less.prems(6) Cons off by (simp_all add: inserts_ok_Cons)
      let ?m = "word_of_int (it_tokenMetadata t) :: 32 word" and ?txt = "txt @ it_text t"
      have b: "built ?txt (newTokens @ [Some (int (length ?txt)), Some (it_tokenMetadata t)]) (us @ map (\<lambda>c. (c, ?m)) (it_text t))"
        using built_extend [OF less.prems(8), of "it_text t" ?m] t(2) by (simp add: built_def uint32_array_def)
      have "withInserted_loop lt (int (length pre)) ts txt newTokens (int o1) =
          withInserted_loop lt (int (length pre)) ts' ?txt (newTokens @ [Some (int (length ?txt)), Some (it_tokenMetadata t)]) (int o1)"
        using Cons t(1) \<open>post = []\<close> less.prems(3) by (subst withInserted_loop.simps) (simp add: Let_def)
      then show ?thesis
        using less.hyps [OF _ less.prems(1-5) t(3) _ b] less.prems(7) \<open>post = []\<close> Cons t(1) by simp
    qed
  next
    case (Cons x post')
    obtain e m where x: "x = (e, m)" by (cases x)
    note post = Cons [unfolded x]
    have tok: "map_option uint (js_get (lt_tokens lt) (2 * int (length pre))) = Some (int e)"
        "map_option uint (js_get (lt_tokens lt) (2 * int (length pre) + 1)) = Some (uint m)"
      using line_token(2,3) [of lt pre e m post'] less.prems(1,2) post by (simp_all add: LineTokens_getEndOffset_def LineTokens_getMetadata_def)
    have oe: "o1 \<le> e" using less.prems(7) post by simp
    have seg: "take (y - o1) (drop o1 ?U) = map (\<lambda>c. (c, m)) (js_substring (lt_text lt) (int o1) (int y))" if "o1 \<le> y" "y \<le> e" for y
      using unit_seg [of pre e m post' "lt_text lt" o1 y] less.prems(2,4,5) post that by simp
    have en: "e \<le> length (lt_text lt)" using end_from_le [OF less.prems(2), of "(e, m)" 0] post less.prems(4) by simp
    show ?thesis
    proof (cases "ts = [] \<or> int e \<le> it_offset (hd ts)")
      case True
      let ?txt = "txt @ js_substring (lt_text lt) (int o1) (int e)"
      have b: "built ?txt (newTokens @ [Some (int (length ?txt)), Some (uint m)]) (us @ take (e - o1) (drop o1 ?U))"
        using built_extend [OF less.prems(8), of "js_substring (lt_text lt) (int o1) (int e)" m] oe seg [of e] by simp
      have ok: "inserts_ok e ts (length (lt_text lt))" using True less.prems(6) by (cases ts) (auto simp: inserts_ok_Cons)
      have pre': "(pre @ [(e, m)]) @ post' = pre @ post" using post by simp
      have next1: "case post' of [] \<Rightarrow> e = length (lt_text lt) | y # _ \<Rightarrow> e \<le> fst y"
        using less.prems(2,4) post by (cases post') (auto simp: ends_ok_append ends_ok_Cons)
      have "withInserted_loop lt (int (length pre)) ts txt newTokens (int o1) =
          withInserted_loop lt (int (length (pre @ [(e, m)]))) ts ?txt (newTokens @ [Some (int (length ?txt)), Some (uint m)]) (int e)"
        using True tok less.prems(3) post by (subst withInserted_loop.simps) (auto simp: Let_def add.commute)
      moreover have "\<exists>txt' newTokens'. withInserted_loop lt (int (length (pre @ [(e, m)]))) ts ?txt
            (newTokens @ [Some (int (length ?txt)), Some (uint m)]) (int e) = (txt', newTokens') \<and>
          built txt' newTokens' ((us @ take (e - o1) (drop o1 ?U)) @ spliced e ts ?U)"
        using less.hyps [of post' ts "pre @ [(e, m)]" e, unfolded pre', OF _ less.prems(1-4) _ ok _ b] next1 post
        by (simp split: list.splits)
      ultimately show ?thesis using spliced_step [OF _ ok, of o1 ?U] oe by (auto simp: less_imp_le)
    next
      case False
      then obtain t ts' where ts: "ts = t # ts'" "it_offset t < int e" by (cases ts) auto
      define y where "y = nat (it_offset t)"
      have t: "it_offset t = int y" "o1 \<le> y" "y < e" "it_text t \<noteq> []" "inserts_ok y ts' (length (lt_text lt))"
        using less.prems(6) ts by (auto simp: inserts_ok_Cons y_def)
      let ?m = "word_of_int (it_tokenMetadata t) :: 32 word"
      define txt1 where "txt1 = txt @ js_substring (lt_text lt) (int o1) (int y)"
      define new1 where "new1 = (if o1 < y then newTokens @ [Some (int (length txt1)), Some (uint m)] else newTokens)"
      have b1: "built txt1 new1 (us @ take (y - o1) (drop o1 ?U))"
      proof (cases "o1 < y")
        case True
        then show ?thesis using built_extend [OF less.prems(8), of "js_substring (lt_text lt) (int o1) (int y)" m] seg [of y] t(3)
          by (simp add: txt1_def new1_def)
      next
        case False
        then show ?thesis using less.prems(8) t(2) by (simp add: txt1_def new1_def js_substring_def)
      qed
      let ?txt = "txt1 @ it_text t"
      have b: "built ?txt (new1 @ [Some (int (length ?txt)), Some (it_tokenMetadata t)]) ((us @ take (y - o1) (drop o1 ?U)) @ map (\<lambda>c. (c, ?m)) (it_text t))"
        using built_extend [OF b1, of "it_text t" ?m] t(4) by (simp add: built_def uint32_array_def)
      have "withInserted_loop lt (int (length pre)) ts txt newTokens (int o1) =
          withInserted_loop lt (int (length pre)) ts' ?txt (new1 @ [Some (int (length ?txt)), Some (it_tokenMetadata t)]) (int y)"
        using ts t tok less.prems(3) post by (subst withInserted_loop.simps) (auto simp: Let_def txt1_def new1_def js_substring_def add.assoc)
      then show ?thesis
        using less.hyps [OF _ less.prems(1-4) _ t(5) _ b] less.prems(5) t post ts(1) by (simp flip: y_def)
    qed
  qed
qed

lemma uint32_array_length: "length (uint32_array xs) = length xs"
  by (simp add: uint32_array_def)

text \<open>
  C14: \<open>withInserted\<close> splices tokens into a line. For a line whose tokens cover its text and non-empty
  tokens to insert, sorted by their offsets in the line, the result is a line whose tokens
  cover its text; its text is that of the line with the inserted texts at their offsets, and every
  code unit has the metadata of the token it comes from, whether the offset is at the end of a
  token or inside of one.
\<close>

theorem withInserted_splices:
  assumes "line_ok lt" "inserts_ok 0 ts (length (lt_text lt))" "length (lt_text lt) + length (concat (map it_text ts)) < 2 ^ 32"
  shows "line_ok (LineTokens_withInserted lt ts) \<and> line_units (LineTokens_withInserted lt ts) = spliced 0 ts (line_units lt)"
proof (cases "ts = []")
  case True
  then show ?thesis using assms(1) by (simp add: LineTokens_withInserted_def)
next
  case False
  obtain ps where ps: "lt_tokens lt = flat_tokens ps" "ends_ok ps" "ps \<noteq> []" "end_from 0 ps = length (lt_text lt)"
      "lt_tokensCount lt = int (length ps)" "line_metadata lt = spread 0 ps"
    using assms(1) by (elim line_okE)
  have start: "case ps of [] \<Rightarrow> 0 = length (lt_text lt) | x # _ \<Rightarrow> 0 \<le> fst x"
    using ps(3) by (cases ps) auto
  have "built [] [] []" by (auto simp: built_def uint32_array_def intro: exI [of _ "[]"])
  then obtain txt' new' where r: "withInserted_loop lt 0 ts [] [] 0 = (txt', new')" "built txt' new' (spliced 0 ts (line_units lt))"
    using withInserted_loop_spec [of lt "[]" ps 0 ts "[]" "[]" "[]"] ps start assms(2) unfolding line_units_def by auto
  obtain qs where qs: "uint32_array new' = flat_tokens qs" "sorted_wrt (\<le>) (map fst qs)" "\<forall>q \<in> set qs. fst q \<le> length txt'"
      "end_from 0 qs = length txt'" "zip txt' (spread 0 qs) = spliced 0 ts (line_units lt)" "length (spliced 0 ts (line_units lt)) = length txt'"
    using r(2) by (auto simp: built_def)
  have len: "length (spliced p ts us) \<le> length us - p + length (concat (map it_text ts))" if "inserts_ok p ts (length us)" for p us using that
  proof (induction ts arbitrary: p)
    case (Cons t ts)
    have t: "p \<le> nat (it_offset t)" "nat (it_offset t) \<le> length us" "inserts_ok (nat (it_offset t)) ts (length us)"
      using Cons.prems by (auto simp: inserts_ok_Cons)
    then show ?case using Cons.IH [OF t(3)] by simp
  qed simp
  have units: "length (line_units lt) = length (lt_text lt)" using line_metadata_length [OF assms(1)] by (simp add: line_units_def)
  have "length (spliced 0 ts (line_units lt)) \<le> length (lt_text lt) + length (concat (map it_text ts))"
    using len [of 0 "line_units lt"] assms(2) units by simp
  then have "length txt' < 2 ^ 32" using assms(3) qs(6) by linarith
  then have ok: "ends_ok qs" using qs(2,3) by (auto simp: ends_ok_def)
  have "spliced p ts us \<noteq> []" if "ts \<noteq> []" "inserts_ok p ts n" for p n us
    using that by (cases ts) (auto simp: inserts_ok_Cons)
  then have ne: "qs \<noteq> []" using False assms(2) qs(4,6) by fastforce
  have "line_ok (LineTokens_withInserted lt ts) \<and> line_metadata (LineTokens_withInserted lt ts) = spread 0 qs"
    using line_okI [of "LineTokens_withInserted lt ts" qs] False r(1) qs(1,4) ok ne
    by (simp add: LineTokens_withInserted_def LineTokens_new_def)
  moreover have "lt_text (LineTokens_withInserted lt ts) = txt'"
    using False r(1) by (simp add: LineTokens_withInserted_def LineTokens_new_def)
  ultimately show ?thesis using qs(5) by (simp add: line_units_def)
qed

theorem withInserted_splices_witness:
  "lt_text (LineTokens_withInserted sample_line [\<lparr>it_offset = 1, it_text = js ''xy'', it_tokenMetadata = 4\<rparr>]) = js ''axyb cd'' \<and>
   line_metadata (LineTokens_withInserted sample_line [\<lparr>it_offset = 1, it_text = js ''xy'', it_tokenMetadata = 4\<rparr>]) = [7, 4, 4, 7, 9, 9, 9]"
proof -
  let ?ts = "[\<lparr>it_offset = 1, it_text = js ''xy'', it_tokenMetadata = 4\<rparr>]"
  have ok: "line_ok sample_line"
    by (simp add: line_ok_def sample_line_def LineTokens_new_def Let_def ends_ok_def end_from_def js_def)
  have "replicate 2 (7 :: 32 word) @ replicate 3 9 = [7, 7, 9, 9, 9]" by (simp add: numeral_eq_Suc)
  then have "spliced 0 ?ts (line_units sample_line) = zip (js ''axyb cd'') [7, 4, 4, 7, 9, 9, 9]"
    by (simp add: line_units_def sample_line_def LineTokens_new_def js_def line_metadata_def)
  then have "line_ok (LineTokens_withInserted sample_line ?ts)" and
      u: "zip (lt_text (LineTokens_withInserted sample_line ?ts)) (line_metadata (LineTokens_withInserted sample_line ?ts)) =
        zip (js ''axyb cd'') [7, 4, 4, 7, 9, 9, 9]"
    using withInserted_splices [OF ok, of ?ts] by (simp_all add: inserts_ok_def sample_line_def LineTokens_new_def js_def line_units_def)
  then have "length (line_metadata (LineTokens_withInserted sample_line ?ts)) = length (lt_text (LineTokens_withInserted sample_line ?ts))"
    by (simp add: line_metadata_length)
  moreover have "map fst (zip xs ys) = xs \<and> map snd (zip xs ys) = ys" if "length ys = length xs" for xs :: "code_unit list" and ys :: "32 word list"
    using that by simp
  moreover have "length ([7, 4, 4, 7, 9, 9, 9] :: 32 word list) = length (js ''axyb cd'')" by (simp add: js_def)
  ultimately show ?thesis using u by metis
qed

end
