(* ===== verification/TokenEditing.thy ===== *)
theory TokenEditing
  imports LineTokens
begin

text \<open>
  Model of \<open>editor/common/tokens/contiguousTokensEditing.ts\<close>: how the tokens of a line change when
  text of the line is deleted or inserted, and when two lines are joined.

  The source edits the arrays in place; an operation here returns the array as it is afterwards.
  \<open>EMPTY_LINE_TOKENS\<close> is recognized by its identity, which makes it a constructor of its own.
\<close>

section \<open>Operations\<close>

datatype line_tokens = NullTokens | EMPTY_LINE_TOKENS | TokenArr "32 word list"

abbreviation u32_get :: "32 word list \<Rightarrow> int \<Rightarrow> int option" where
  "u32_get tokens i \<equiv> map_option uint (js_get tokens i)"

text \<open>\<open>tokens[i << 1] += d\<close> for all tokens from an index on\<close>

function shift_ends :: "32 word list \<Rightarrow> int \<Rightarrow> int \<Rightarrow> int \<Rightarrow> 32 word list" where
  "shift_ends tokens tokenIndex tokensCount d =
     (if tokenIndex < tokensCount
      then shift_ends (typed_put tokens (2 * tokenIndex) (map_option (\<lambda>w. w + word_of_int d) (js_get tokens (2 * tokenIndex))))
        (tokenIndex + 1) tokensCount d
      else tokens)"
  by pat_completeness auto
termination
  by (relation "measure (\<lambda>(tokens, i, n, d). nat (n - i))") auto

declare shift_ends.simps [simp del]

function delete_loop :: "32 word list \<Rightarrow> int \<Rightarrow> int \<Rightarrow> int \<Rightarrow> int \<Rightarrow> int \<Rightarrow> 32 word list \<times> int" where
  "delete_loop tokens tokenIndex tokensCount delta dest lastEnd =
     (if tokenIndex < tokensCount then
        (case u32_get tokens (2 * tokenIndex) of
           Some e \<Rightarrow>
             let tokenEndOffset = e - delta
             in if tokenEndOffset > lastEnd then
                  let tokens1 = typed_put tokens dest (Some (word_of_int tokenEndOffset));
                      tokens2 = typed_put tokens1 (dest + 1) (js_get tokens1 (2 * tokenIndex + 1))
                  in delete_loop tokens2 (tokenIndex + 1) tokensCount delta (dest + 2) tokenEndOffset
                else delete_loop tokens (tokenIndex + 1) tokensCount delta dest lastEnd
         | None \<Rightarrow> delete_loop tokens (tokenIndex + 1) tokensCount delta dest lastEnd)
      else (tokens, dest))"
  by pat_completeness auto
termination
  by (relation "measure (\<lambda>(tokens, i, n, r). nat (n - i))") auto

declare delete_loop.simps [simp del]

definition ContiguousTokensEditing_delete :: "line_tokens \<Rightarrow> int \<Rightarrow> int \<Rightarrow> line_tokens" where
  "ContiguousTokensEditing_delete lineTokens fromChIndex toChIndex =
     (case lineTokens of
        TokenArr tokens \<Rightarrow>
          if fromChIndex = toChIndex then lineTokens
          else
            let tokensCount = int (length tokens div 2)
            in if fromChIndex = 0 \<and> u32_get tokens (int (length tokens) - 2) = Some toChIndex then EMPTY_LINE_TOKENS
               else
                 let fromTokenIndex = LineTokens_findIndexInTokensArray tokens fromChIndex;
                     fromTokenStartOffset = (if fromTokenIndex > 0 then u32_get tokens (2 * (fromTokenIndex - 1)) else Some 0);
                     fromTokenEndOffset = u32_get tokens (2 * fromTokenIndex);
                     delta = toChIndex - fromChIndex
                 in if (case fromTokenEndOffset of Some e \<Rightarrow> toChIndex < e | None \<Rightarrow> False)
                    then TokenArr (shift_ends tokens fromTokenIndex tokensCount (- delta))
                    else
                      let (tokens, dest) =
                        (if fromTokenStartOffset \<noteq> Some fromChIndex
                         then delete_loop (typed_put tokens (2 * fromTokenIndex) (Some (word_of_int fromChIndex))) (fromTokenIndex + 1) tokensCount delta
                           (2 * (fromTokenIndex + 1)) fromChIndex
                         else delete_loop tokens (fromTokenIndex + 1) tokensCount delta (2 * fromTokenIndex) fromChIndex)
                      in if dest = int (length tokens) then TokenArr tokens else TokenArr (take (nat dest) tokens)
      | _ \<Rightarrow> lineTokens)"

definition ContiguousTokensEditing_deleteBeginning :: "line_tokens \<Rightarrow> int \<Rightarrow> line_tokens" where
  "ContiguousTokensEditing_deleteBeginning lineTokens toChIndex =
     (case lineTokens of TokenArr tokens \<Rightarrow> ContiguousTokensEditing_delete lineTokens 0 toChIndex | _ \<Rightarrow> lineTokens)"

text \<open>Arrays of tokens that are stored have a last token, so that there is a text length.\<close>

definition ContiguousTokensEditing_deleteEnding :: "line_tokens \<Rightarrow> int \<Rightarrow> line_tokens" where
  "ContiguousTokensEditing_deleteEnding lineTokens fromChIndex =
     (case lineTokens of
        TokenArr tokens \<Rightarrow>
          (case u32_get tokens (int (length tokens) - 2) of
             Some lineTextLength \<Rightarrow> ContiguousTokensEditing_delete lineTokens fromChIndex lineTextLength
           | None \<Rightarrow> lineTokens)
      | _ \<Rightarrow> lineTokens)"

text \<open>The loop of \<open>append\<close>; the sum is stored modulo \<open>2^32\<close>, and a missing operand makes it 0.\<close>

function append_loop :: "32 word list \<Rightarrow> 32 word list \<Rightarrow> int \<Rightarrow> int \<Rightarrow> int \<Rightarrow> 32 word option \<Rightarrow> 32 word list" where
  "append_loop result otherTokens i otherTokensCount dest delta =
     (if i < otherTokensCount
      then append_loop (typed_put (typed_put result dest (Option.bind delta (\<lambda>d. map_option (\<lambda>w. w + d) (js_get otherTokens (2 * i))))) (dest + 1) (js_get otherTokens (2 * i + 1)))
        otherTokens (i + 1) otherTokensCount (dest + 2) delta
      else result)"
  by pat_completeness auto
termination
  by (relation "measure (\<lambda>(r, t, i, n, d). nat (n - i))") auto

declare append_loop.simps [simp del]

definition ContiguousTokensEditing_append :: "line_tokens \<Rightarrow> line_tokens \<Rightarrow> line_tokens" where
  "ContiguousTokensEditing_append lineTokens otherTokens =
     (if otherTokens = EMPTY_LINE_TOKENS then lineTokens
      else if lineTokens = EMPTY_LINE_TOKENS then otherTokens
      else case (lineTokens, otherTokens) of
          (TokenArr my, TokenArr other) \<Rightarrow>
            TokenArr (append_loop (my @ replicate (length other) 0) other 0 (int (length other div 2)) (int (length my))
              (js_get my (int (length my) - 2)))
        | (TokenArr my, _) \<Rightarrow> NullTokens
        | _ \<Rightarrow> lineTokens)"

definition ContiguousTokensEditing_insert :: "line_tokens \<Rightarrow> int \<Rightarrow> int \<Rightarrow> line_tokens" where
  "ContiguousTokensEditing_insert lineTokens chIndex textLength =
     (case lineTokens of
        TokenArr tokens \<Rightarrow>
          let tokensCount = int (length tokens div 2);
              fromTokenIndex = LineTokens_findIndexInTokensArray tokens chIndex;
              fromTokenIndex =
                (if fromTokenIndex > 0 \<and> u32_get tokens (2 * (fromTokenIndex - 1)) = Some chIndex then fromTokenIndex - 1 else fromTokenIndex)
          in TokenArr (shift_ends tokens fromTokenIndex tokensCount textLength)
      | _ \<Rightarrow> lineTokens)"

section \<open>In-place updates of the arrays\<close>

lemma typed_put_at: "typed_put (A @ x # B) (int (length A)) (Some v) = A @ v # B"
  by (simp add: typed_put_def)

lemma js_get_at: "js_get (A @ x # B) (int (length A)) = Some x"
  by (simp add: js_get_def)

text \<open>Tokens behind other words\<close>

lemma flat_get:
  assumes "2 * i = int (length A)"
  shows "js_get (A @ flat_tokens ((e, m) # ps)) (2 * i) = Some (of_nat e)" "js_get (A @ flat_tokens ((e, m) # ps)) (2 * i + 1) = Some m"
    "typed_put (A @ flat_tokens ((e, m) # ps)) (2 * i) (Some v) = A @ v # m # flat_tokens ps"
proof -
  have "2 * i + 1 = int (length (A @ [of_nat e]))" using assms by simp
  then show "js_get (A @ flat_tokens ((e, m) # ps)) (2 * i + 1) = Some m" using js_get_at [of "A @ [of_nat e]" m "flat_tokens ps"] by (simp add: add.commute)
qed (use assms js_get_at [of A] typed_put_at [of A] in simp_all)

lemma shift_ends_flat:
  "2 * i = int (length A) \<Longrightarrow> n = i + int (length ps) \<Longrightarrow>
   shift_ends (A @ flat_tokens ps) i n d = A @ concat (map (\<lambda>(e, m). [of_nat e + word_of_int d, m]) ps)"
proof (induction ps arbitrary: A i)
  case (Cons p ps)
  obtain e m where p: "p = (e, m)" by (cases p)
  have step: "shift_ends (A @ flat_tokens (p # ps)) i n d = shift_ends ((A @ [of_nat e + word_of_int d, m]) @ flat_tokens ps) (i + 1) n d"
    using Cons.prems flat_get [OF Cons.prems(1), of e m ps] p by (subst shift_ends.simps) simp
  show ?case unfolding step using Cons.IH [of "i + 1" "A @ [of_nat e + word_of_int d, m]"] Cons.prems p by simp
qed (subst shift_ends.simps, simp)

text \<open>The pairs that the loop of \<open>delete\<close> keeps\<close>

fun keep :: "int \<Rightarrow> int \<Rightarrow> (nat \<times> 32 word) list \<Rightarrow> (nat \<times> 32 word) list" where
  "keep delta lastEnd [] = []"
| "keep delta lastEnd ((e, m) # ps) =
     (if int e - delta > lastEnd then (nat (int e - delta), m) # keep delta (int e - delta) ps else keep delta lastEnd ps)"

lemma delete_loop_flat:
  assumes "\<forall>p \<in> set ps. fst p < 2 ^ 32" "2 * i = int (length (flat_tokens qs @ G))" "n = i + int (length ps)" "0 \<le> lastEnd"
  shows "\<exists>G'. delete_loop (flat_tokens qs @ G @ flat_tokens ps) i n delta (2 * int (length qs)) lastEnd =
      (flat_tokens (qs @ keep delta lastEnd ps) @ G', 2 * int (length (qs @ keep delta lastEnd ps)))"
  using assms
proof (induction ps arbitrary: qs G i lastEnd)
  case Nil
  then show ?case by (subst delete_loop.simps) simp
next
  case (Cons p ps)
  obtain e m where p: "p = (e, m)" by (cases p)
  have e: "uint (of_nat e :: 32 word) = int e" using Cons.prems(1) p by (intro uint_end) simp
  note get = flat_get [of i "flat_tokens qs @ G" e m ps, unfolded append_assoc, OF Cons.prems(2)]
  show ?case
  proof (cases "int e - delta > lastEnd")
    case False
    then have step: "delete_loop (flat_tokens qs @ G @ flat_tokens (p # ps)) i n delta (2 * int (length qs)) lastEnd =
        delete_loop (flat_tokens qs @ (G @ [of_nat e, m]) @ flat_tokens ps) (i + 1) n delta (2 * int (length qs)) lastEnd"
      using Cons.prems(3) get e p by (subst delete_loop.simps) (simp add: Let_def)
    show ?thesis unfolding step using Cons.IH [of "i + 1" qs "G @ [of_nat e, m]" lastEnd] Cons.prems False p by simp
  next
    case True
    obtain x y G' where G: "G @ [of_nat e, m] = x # y # G'"
      by (cases "G @ [of_nat e, m]"; cases "tl (G @ [of_nat e, m])") auto
    have len: "length G' = length G" using arg_cong [OF G, of length] by simp
    let ?E = "nat (int e - delta)" and ?T = "flat_tokens qs @ G @ flat_tokens (p # ps)"
    have T: "?T = flat_tokens qs @ x # y # G' @ flat_tokens ps" using arg_cong [OF G, of "\<lambda>l. l @ flat_tokens ps"] p by simp
    let ?T1 = "flat_tokens qs @ of_nat ?E # y # G' @ flat_tokens ps"
    have nE: "of_nat ?E = (word_of_int (int e - delta) :: 32 word)" using True Cons.prems(4) by (simp add: of_nat_nat)
    have put1: "typed_put ?T (2 * int (length qs)) (Some (word_of_int (int e - delta))) = ?T1"
      using typed_put_at [of "flat_tokens qs" x "y # G' @ flat_tokens ps"] nE by (simp add: T)
    have m: "js_get ?T1 (2 * i + 1) = Some m"
    proof -
      have idx: "nat (2 * i + 1) = length (flat_tokens qs) + length G + 1" "0 \<le> 2 * i + 1" using Cons.prems(2) by auto
      have "(x # y # G') ! (length G + 1) = m" using arg_cong [OF G, of "\<lambda>l. l ! (length G + 1)"] by (simp add: nth_append)
      then have "(of_nat ?E # y # G') ! (length G + 1) = m" by simp
      then have "((of_nat ?E # y # G') @ flat_tokens ps) ! (length G + 1) = m" unfolding nth_append using len by simp
      then show ?thesis using idx len by (simp add: js_get_def nth_append)
    qed
    have put2: "typed_put ?T1 (2 * int (length qs) + 1) (Some m) = flat_tokens (qs @ [(?E, m)]) @ G' @ flat_tokens ps"
      using typed_put_at [of "flat_tokens qs @ [of_nat ?E]" y "G' @ flat_tokens ps"] by (simp add: add.commute)
    have step: "delete_loop ?T i n delta (2 * int (length qs)) lastEnd =
        delete_loop (flat_tokens (qs @ [(?E, m)]) @ G' @ flat_tokens ps) (i + 1) n delta (2 * int (length qs) + 2) (int e - delta)"
      using Cons.prems(3) get(1) e p True put1 m put2 by (subst delete_loop.simps) (simp add: Let_def)
    show ?thesis unfolding step using Cons.IH [of "i + 1" "qs @ [(?E, m)]" G' "int e - delta"] Cons.prems True p len by (simp add: add.commute)
  qed
qed

section \<open>Shifted and deleted pairs\<close>

definition lowered :: "nat \<Rightarrow> (nat \<times> 32 word) list \<Rightarrow> (nat \<times> 32 word) list" where
  "lowered d ps = map (\<lambda>(e, m). (e - d, m)) ps"

definition raised :: "nat \<Rightarrow> (nat \<times> 32 word) list \<Rightarrow> (nat \<times> 32 word) list" where
  "raised d ps = map (\<lambda>(e, m). (e + d, m)) ps"

lemma lowered_simps [simp]: "lowered d [] = []" "lowered d ((e, m) # ps) = (e - d, m) # lowered d ps"
  by (simp_all add: lowered_def)

lemma raised_simps [simp]: "raised d [] = []" "raised d ((e, m) # ps) = (e + d, m) # raised d ps"
  by (simp_all add: raised_def)

lemma spread_lowered: "\<forall>x \<in> set ps. p + d \<le> fst x \<Longrightarrow> ends_ok ps \<Longrightarrow> spread p (lowered d ps) = spread (p + d) ps"
proof (induction ps arbitrary: p)
  case (Cons x ps)
  obtain e m where x: "x = (e, m)" by (cases x)
  have "spread (e - d) (lowered d ps) = spread (e - d + d) ps" using Cons x by (intro Cons.IH) (auto simp: ends_ok_Cons less_imp_le)
  moreover have "e - d + d = e" "e - d - p = e - (p + d)" using Cons.prems(1) x by auto
  ultimately show ?case using x by simp
qed simp

lemma spread_raised: "spread (p + d) (raised d ps) = spread p ps"
proof (induction ps arbitrary: p)
  case (Cons x ps)
  then show ?case by (cases x) simp
qed simp

lemma ends_ok_lowered: "ends_ok ps \<Longrightarrow> \<forall>x \<in> set ps. d < fst x \<Longrightarrow> ends_ok (lowered d ps)"
proof (induction ps)
  case (Cons x ps)
  obtain e m where x: "x = (e, m)" by (cases x)
  have "ends_ok (lowered d ps)" using Cons x by (intro Cons.IH) (auto simp: ends_ok_Cons)
  moreover have "\<forall>y \<in> set (lowered d ps). e - d \<le> fst y" using Cons.prems x by (fastforce simp: lowered_def ends_ok_Cons)
  ultimately show ?case using Cons.prems x by (auto simp: ends_ok_Cons)
qed (simp add: ends_ok_def)

lemma ends_ok_raised: "ends_ok ps \<Longrightarrow> \<forall>x \<in> set ps. fst x + d < 2 ^ 32 \<Longrightarrow> ends_ok (raised d ps)"
proof (induction ps)
  case (Cons x ps)
  obtain e m where x: "x = (e, m)" by (cases x)
  have "ends_ok (raised d ps)" using Cons x by (intro Cons.IH) (auto simp: ends_ok_Cons)
  moreover have "\<forall>y \<in> set (raised d ps). e + d \<le> fst y" using Cons.prems x by (fastforce simp: raised_def ends_ok_Cons)
  ultimately show ?case using Cons.prems x by (auto simp: ends_ok_Cons)
qed (simp add: ends_ok_def)

lemma end_from_map: "ps \<noteq> [] \<Longrightarrow> end_from q (lowered d ps) = end_from p ps - d" "ps \<noteq> [] \<Longrightarrow> end_from q (raised d ps) = end_from p ps + d"
  by (cases "last ps"; simp add: end_from_def lowered_def raised_def last_map)+

lemma flat_lowered:
  "\<forall>x \<in> set ps. d \<le> fst x \<Longrightarrow> concat (map (\<lambda>(e, m). [of_nat e + word_of_int (- int d), m]) ps) = flat_tokens (lowered d ps)"
  by (induction ps) (auto simp: of_nat_diff)

lemma flat_raised: "concat (map (\<lambda>(e, m). [of_nat e + word_of_int (int d), m]) ps) = flat_tokens (raised d ps)"
  by (induction ps) auto

abbreviation behind :: "nat \<Rightarrow> (nat \<times> 32 word) list \<Rightarrow> (nat \<times> 32 word) list" where
  "behind b ps \<equiv> filter (\<lambda>(e, m). b < e) ps"

lemma drop_spread: "ends_ok ps \<Longrightarrow> \<forall>x \<in> set ps. p \<le> fst x \<Longrightarrow> p \<le> b \<Longrightarrow> drop (b - p) (spread p ps) = spread b (behind b ps)"
proof (induction ps arbitrary: p)
  case (Cons x ps)
  obtain e m where x: "x = (e, m)" by (cases x)
  show ?case
  proof (cases "b < e")
    case True
    then have "behind b (x # ps) = x # ps" using Cons.prems x by (auto simp: ends_ok_Cons filter_id_conv)
    then show ?thesis using True Cons.prems(2,3) x by simp
  next
    case False
    have "drop (b - e) (spread e ps) = spread b (behind b ps)" using Cons False x by (intro Cons.IH) (auto simp: ends_ok_Cons less_imp_le)
    moreover have "b - p - (e - p) = b - e" using Cons.prems(2,3) False x by auto
    ultimately show ?thesis using False x Cons.prems(2) by simp
  qed
qed simp

lemma keep_spec:
  assumes "ends_ok ps"
  shows "ends_ok (keep (int d) (int l) ps) \<and> (\<forall>x \<in> set (keep (int d) (int l) ps). l < fst x) \<and>
    spread l (keep (int d) (int l) ps) = spread (l + d) (behind (l + d) ps)"
  using assms
proof (induction ps arbitrary: l)
  case (Cons x ps)
  obtain e m where x: "x = (e, m)" by (cases x)
  have ps: "ends_ok ps" "\<forall>y \<in> set ps. e \<le> fst y" "e < 2 ^ 32" using Cons.prems x by (simp_all add: ends_ok_Cons)
  show ?case
  proof (cases "l + d < e")
    case True
    then have e: "int e - int d = int (e - d)" "l < e - d" by auto
    have all: "behind (l + d) ps = ps" using ps(2) True by (auto simp: filter_id_conv)
    have "e - d + d = e" using True by simp
    note IH = Cons.IH [OF ps(1), of "e - d", unfolded this]
    have "spread e (behind e ps) = spread e ps" using drop_spread [OF ps(1,2), of e] by simp
    moreover have k: "keep (int d) (int l) (x # ps) = (e - d, m) # keep (int d) (int (e - d)) ps" unfolding x keep.simps e(1) using e(2) by (simp only: of_nat_less_iff nat_int if_True)
    moreover have "behind (l + d) (x # ps) = (e, m) # ps" using True all x by simp
    moreover have "spread (e - d) (keep (int d) (int (e - d)) ps) = spread e (behind e ps)" using IH by blast
    moreover have "ends_ok ((e - d, m) # keep (int d) (int (e - d)) ps)" unfolding ends_ok_Cons using IH ps(3) less_imp_diff_less by (blast intro: less_imp_le)
    moreover have "\<forall>y \<in> set ((e - d, m) # keep (int d) (int (e - d)) ps). l < fst y"
    proof -
      have "\<forall>y \<in> set (keep (int d) (int (e - d)) ps). l < fst y" using IH e(2) less_trans by blast
      then show ?thesis using e(2) by (metis fst_conv set_ConsD)
    qed
    ultimately show ?thesis by (simp only: k spread.simps diff_diff_left add.commute)
  next
    case False
    then show ?thesis using Cons.IH [OF ps(1), of l] x by simp
  qed
qed (simp add: ends_ok_def)

section \<open>Refinement of lists of metadata\<close>

definition line_good :: "line_tokens \<Rightarrow> bool" where
  "line_good lt = (case lt of TokenArr ts \<Rightarrow> let ps = token_list ts in ts = flat_tokens ps \<and> ends_ok ps \<and> ps \<noteq> [] | _ \<Rightarrow> True)"

text \<open>The metadata of the code units that the tokens cover, if there are tokens\<close>

definition line_md :: "line_tokens \<Rightarrow> 32 word list option" where
  "line_md lt = (case lt of NullTokens \<Rightarrow> None | EMPTY_LINE_TOKENS \<Rightarrow> Some [] | TokenArr ts \<Rightarrow> Some (spread 0 (token_list ts)))"

lemma line_good_flat: "ends_ok ps \<Longrightarrow> ps \<noteq> [] \<Longrightarrow> line_good (TokenArr (flat_tokens ps)) \<and> line_md (TokenArr (flat_tokens ps)) = Some (spread 0 ps)"
  by (simp add: line_good_def line_md_def Let_def token_list_flat ends_ok_def)

lemma line_good_arr:
  assumes "line_good (TokenArr ts)"
  obtains ps where "ts = flat_tokens ps" "ends_ok ps" "ps \<noteq> []" "line_md (TokenArr ts) = Some (spread 0 ps)" "length (spread 0 ps) = end_from 0 ps"
  using assms that [of "token_list ts"] length_spread [of "token_list ts" 0] by (simp add: line_good_def line_md_def Let_def)

lemma last_end:
  assumes "ends_ok ps" "ps \<noteq> []"
  shows "u32_get (flat_tokens ps) (2 * int (length ps) - 2) = Some (int (end_from 0 ps))"
proof -
  obtain qs e m where ps: "ps = qs @ [(e, m)]" using assms(2) by (cases ps rule: rev_cases) auto
  then have "js_get (flat_tokens ps) (2 * int (length qs)) = Some (of_nat e)" using get_flat(1) [of "length qs" ps] by (simp add: nth_append)
  moreover have "e < 2 ^ 32" using assms(1) ps by (auto simp: ends_ok_def)
  ultimately show ?thesis using ps uint_end [of e] by simp
qed

text \<open>The offsets around the token at which a change starts\<close>

lemma token_around:
  assumes "ends_ok (pre @ (e, m) # post)"
  shows "u32_get (flat_tokens (pre @ (e, m) # post)) (2 * int (length pre)) = Some (int e)"
    "pre \<noteq> [] \<Longrightarrow> u32_get (flat_tokens (pre @ (e, m) # post)) (2 * (int (length pre) - 1)) = Some (int (end_from 0 pre))"
  using line_token(1,2) [of "LineTokens_new (flat_tokens (pre @ (e, m) # post)) [] (\<lambda>_. [])" pre e m post] assms
  by (simp_all add: LineTokens_new_def LineTokens_getEndOffset_def LineTokens_getStartOffset_def)

lemma delete_inside:
  assumes "ends_ok (pre @ (e, m) # post)" "end_from 0 pre \<le> a" "a < b" "b < e"
  defines "rs \<equiv> pre @ lowered (b - a) ((e, m) # post)" and "md \<equiv> spread 0 (pre @ (e, m) # post)"
  shows "shift_ends (flat_tokens (pre @ (e, m) # post)) (int (length pre)) (int (length (pre @ (e, m) # post))) (- (int b - int a)) = flat_tokens rs"
    "ends_ok rs" "spread 0 rs = take a md @ drop b md"
proof -
  have post: "ends_ok ((e, m) # post)" "ends_ok pre" "\<forall>x \<in> set ((e, m) # post). e \<le> fst x"
    using assms(1) by (auto simp: ends_ok_append ends_ok_Cons)
  have low: "b - a < e" using assms(3,4) by simp
  have "shift_ends (flat_tokens pre @ flat_tokens ((e, m) # post)) (int (length pre)) (int (length pre) + int (length ((e, m) # post))) (- int (b - a)) =
      flat_tokens pre @ flat_tokens (lowered (b - a) ((e, m) # post))"
    using shift_ends_flat [of "int (length pre)" "flat_tokens pre" _ "(e, m) # post" "- int (b - a)"]
      flat_lowered [of "(e, m) # post" "b - a"] post(3) low by fastforce
  then show "shift_ends (flat_tokens (pre @ (e, m) # post)) (int (length pre)) (int (length (pre @ (e, m) # post))) (- (int b - int a)) = flat_tokens rs"
    using assms(3) by (simp add: rs_def of_nat_diff ac_simps)
  have "\<forall>x \<in> set ((e, m) # post). b - a < fst x" using post(3) low by auto
  then have "ends_ok (lowered (b - a) ((e, m) # post))" using ends_ok_lowered post(1) by blast
  moreover have "fst x \<le> fst y" if "x \<in> set pre" "y \<in> set (lowered (b - a) ((e, m) # post))" for x y
  proof -
    have "fst x \<le> a" using end_from_le [OF post(2) that(1), of 0] assms(2) by simp
    moreover have "a < fst y" using that(2) post(3) assms(3,4) by (auto simp: lowered_def)
    ultimately show ?thesis by simp
  qed
  ultimately show "ends_ok rs" using post(2) by (auto simp: rs_def ends_ok_append simp del: lowered_simps)
  have len: "length (spread 0 pre) = end_from 0 pre" using length_spread [OF post(2), of 0] by simp
  have "spread (e - (b - a)) (lowered (b - a) post) = spread (e - (b - a) + (b - a)) post"
    using post(1) low by (intro spread_lowered) (auto simp: ends_ok_Cons less_imp_le)
  moreover have "replicate (e - (b - a) - end_from 0 pre) m = replicate (a - end_from 0 pre) m @ replicate (e - b) m"
    using assms(2-4) by (simp flip: replicate_add)
  ultimately show "spread 0 rs = take a md @ drop b md"
    using len assms(2-4) low by (simp add: rs_def md_def spread_append)
qed

lemma delete_across:
  assumes "ends_ok (pre @ (e, m) # post)" "end_from 0 pre \<le> a" "a \<le> e" "e \<le> b"
  defines "rs \<equiv> pre @ (if end_from 0 pre = a then [] else [(a, m)]) @ keep (int (b - a)) (int a) post" and "md \<equiv> spread 0 (pre @ (e, m) # post)"
  shows "ends_ok rs" "spread 0 rs = take a md @ drop b md"
proof -
  have parts: "ends_ok pre" "ends_ok post" "e < 2 ^ 32" "\<forall>x \<in> set post. e \<le> fst x"
    using assms(1) by (auto simp: ends_ok_append ends_ok_Cons)
  note kept = keep_spec [OF parts(2), of "b - a" a]
  have pre: "fst x \<le> a" if "x \<in> set pre" for x using end_from_le [OF parts(1) that, of 0] assms(2) by simp
  have "fst x \<le> fst y" if "x \<in> set pre" "y \<in> set (keep (int (b - a)) (int a) post)" for x y
    using pre [OF that(1)] kept that(2) by (meson le_less_trans less_imp_le)
  then show "ends_ok rs" using kept parts(1,3) pre assms(3) by (auto simp: rs_def ends_ok_append ends_ok_Cons ends_ok_Nil less_imp_le)
  have len: "length (spread 0 pre) = end_from 0 pre" using length_spread [OF parts(1), of 0] by simp
  have "spread a (keep (int (b - a)) (int a) post) = drop (b - e) (spread e post)"
    using kept drop_spread [OF parts(2,4) assms(4)] assms(3,4) by simp
  moreover have "b - end_from 0 pre - (e - end_from 0 pre) = b - e" using assms(2-4) by simp
  ultimately show "spread 0 rs = take a md @ drop b md"
    using len assms(2-4) by (simp add: rs_def md_def spread_append)
qed

lemma delete_unfold:
  assumes "a \<noteq> b" "\<not> (a = 0 \<and> u32_get tokens (int (length tokens) - 2) = Some b)" "LineTokens_findIndexInTokensArray tokens a = i"
    "(if i > 0 then u32_get tokens (2 * (i - 1)) else Some 0) = Some s" "u32_get tokens (2 * i) = Some e"
  shows "ContiguousTokensEditing_delete (TokenArr tokens) a b =
    (if b < e then TokenArr (shift_ends tokens i (int (length tokens div 2)) (- (b - a)))
     else let (tokens, dest) =
       (if s \<noteq> a then delete_loop (typed_put tokens (2 * i) (Some (word_of_int a))) (i + 1) (int (length tokens div 2)) (b - a) (2 * (i + 1)) a
        else delete_loop tokens (i + 1) (int (length tokens div 2)) (b - a) (2 * i) a)
       in if dest = int (length tokens) then TokenArr tokens else TokenArr (take (nat dest) tokens))"
  unfolding ContiguousTokensEditing_delete_def Let_def line_tokens.case assms(3,4,5) using assms(1,2) by (simp only: option.simps option.inject if_False)

lemma delete_arr:
  assumes "ends_ok ps" "ps \<noteq> []" "a \<le> b" "b \<le> end_from 0 ps"
  defines "r \<equiv> ContiguousTokensEditing_delete (TokenArr (flat_tokens ps)) (int a) (int b)"
  shows "line_good r \<and> line_md r = Some (take a (spread 0 ps) @ drop b (spread 0 ps))"
proof -
  have len: "length (spread 0 ps) = end_from 0 ps" using length_spread [OF assms(1), of 0] by simp
  consider "a = b" | "a = 0" "b = end_from 0 ps" "a \<noteq> b" | "a < b" "a \<noteq> 0 \<or> b \<noteq> end_from 0 ps" using assms(3) by linarith
  then show ?thesis
  proof cases
    case 1
    then show ?thesis using line_good_flat [OF assms(1,2)] by (simp add: r_def ContiguousTokensEditing_delete_def)
  next
    case 2
    then have "r = EMPTY_LINE_TOKENS" using last_end [OF assms(1,2)] by (simp add: r_def ContiguousTokensEditing_delete_def)
    then show ?thesis using 2 len by (simp add: line_good_def line_md_def)
  next
    case 3
    have "a \<le> end_from 0 ps" using 3 assms(4) by simp
    then obtain pre e m post where sp: "ps = pre @ (e, m) # post"
        "LineTokens_findIndexInTokensArray (flat_tokens ps) (int a) = int (length pre)" "end_from 0 pre \<le> a" "a \<le> e"
      using findIndex_split [OF assms(1,2)] by metis
    note ok = assms(1) [unfolded sp(1)]
    note around = token_around [OF ok, folded sp(1)]
    have notall: "\<not> (int a = 0 \<and> u32_get (flat_tokens ps) (int (length (flat_tokens ps)) - 2) = Some (int b))"
      using 3(2) last_end [OF assms(1,2)] by auto
    have start: "(if int (length pre) > 0 then u32_get (flat_tokens ps) (2 * (int (length pre) - 1)) else Some 0) = Some (int (end_from 0 pre))"
      using around(2) by (cases "pre = []") auto
    show ?thesis
    proof (cases "b < e")
      case True
      note inside = delete_inside [OF ok sp(3) 3(1) True]
      have "r = TokenArr (shift_ends (flat_tokens ps) (int (length pre)) (int (length ps)) (- (int b - int a)))"
        using delete_unfold [OF _ notall sp(2) start around(1)] 3(1) True by (simp add: r_def)
      also have "\<dots> = TokenArr (flat_tokens (pre @ lowered (b - a) ((e, m) # post)))" using inside(1) sp(1) by simp
      finally show ?thesis using line_good_flat [OF inside(2)] inside(3) sp(1) by simp
    next
      case False
      have be: "e \<le> b" using False by simp
      note across = delete_across [OF ok sp(3,4) be]
      let ?q = "if end_from 0 pre = a then [] else [(a, m)]" and ?low = "keep (int (b - a)) (int a) post"
      have post: "ends_ok post" using ok by (simp add: ends_ok_append ends_ok_Cons)
      then have post_bound: "\<forall>p \<in> set post. fst p < 2 ^ 32" by (simp add: ends_ok_def)
      have keep: "keep (int b - int a) (int a) post = ?low" using 3(1) by (simp add: of_nat_diff)
      obtain G where G: "delete_loop (if end_from 0 pre = a then flat_tokens ps else typed_put (flat_tokens ps) (2 * int (length pre)) (Some (word_of_int (int a))))
          (int (length pre) + 1) (int (length ps)) (int b - int a) (2 * int (length (pre @ ?q))) (int a) =
          (flat_tokens (pre @ ?q @ ?low) @ G, 2 * int (length (pre @ ?q @ ?low)))"
      proof (cases "end_from 0 pre = a")
        case True
        then show ?thesis
          using that delete_loop_flat [OF post_bound, of "int (length pre) + 1" pre "[of_nat e, m]" "int (length ps)" "int a" "int b - int a"] keep sp(1) by auto
      next
        case False
        have "typed_put (flat_tokens ps) (2 * int (length pre)) (Some (word_of_int (int a))) = flat_tokens (pre @ [(a, m)]) @ flat_tokens post"
          using flat_get(3) [of "int (length pre)" "flat_tokens pre" e m post "word_of_int (int a)"] sp(1) by simp
        then show ?thesis
          using that False delete_loop_flat [OF post_bound, of "int (length pre) + 1" "pre @ [(a, m)]" "[]" "int (length ps)" "int a" "int b - int a"] keep sp(1) by auto
      qed
      have "r = TokenArr (flat_tokens (pre @ ?q @ ?low))"
      proof -
        have "r = (let (tokens, dest) = (flat_tokens (pre @ ?q @ ?low) @ G, 2 * int (length (pre @ ?q @ ?low)))
            in if dest = int (length tokens) then TokenArr tokens else TokenArr (take (nat dest) tokens))"
          using delete_unfold [OF _ notall sp(2) start around(1)] 3(1) False G by (cases "end_from 0 pre = a") (simp_all add: r_def ac_simps)
        then show ?thesis by (simp add: nat_mult_distrib split: if_splits)
      qed
      moreover have "pre @ ?q @ ?low \<noteq> []"
      proof
        assume "pre @ ?q @ ?low = []"
        then have "take a (spread 0 ps) @ drop b (spread 0 ps) = []" using across(2) sp(1) by (metis spread.simps(1))
        with 3 assms(4) len show False by auto
      qed
      ultimately show ?thesis using line_good_flat [OF across(1)] across(2) sp(1) by simp
    qed
  qed
qed

lemma delete_refines:
  assumes "line_good lt" "line_md lt = Some md" "a \<le> b" "b \<le> length md"
  shows "line_good (ContiguousTokensEditing_delete lt (int a) (int b)) \<and>
    line_md (ContiguousTokensEditing_delete lt (int a) (int b)) = Some (take a md @ drop b md)"
proof (cases lt)
  case (TokenArr ts)
  obtain ps where ps: "ts = flat_tokens ps" "ends_ok ps" "ps \<noteq> []" "md = spread 0 ps" "length (spread 0 ps) = end_from 0 ps"
    using assms(1,2) TokenArr by (auto elim: line_good_arr)
  then show ?thesis using delete_arr [OF ps(2,3) assms(3)] assms(4) TokenArr by simp
qed (use assms in \<open>auto simp: line_md_def line_good_def ContiguousTokensEditing_delete_def\<close>)

lemma deleteBeginning_refines:
  assumes "line_good lt" "line_md lt = Some md" "b \<le> length md"
  shows "line_good (ContiguousTokensEditing_deleteBeginning lt (int b)) \<and> line_md (ContiguousTokensEditing_deleteBeginning lt (int b)) = Some (drop b md)"
proof (cases lt)
  case (TokenArr ts)
  then show ?thesis using delete_refines [OF assms(1,2) _ assms(3), of 0] by (simp add: ContiguousTokensEditing_deleteBeginning_def)
qed (use assms in \<open>auto simp: line_md_def line_good_def ContiguousTokensEditing_deleteBeginning_def\<close>)

lemma deleteEnding_refines:
  assumes "line_good lt" "line_md lt = Some md" "a \<le> length md"
  shows "line_good (ContiguousTokensEditing_deleteEnding lt (int a)) \<and> line_md (ContiguousTokensEditing_deleteEnding lt (int a)) = Some (take a md)"
proof (cases lt)
  case (TokenArr ts)
  obtain ps where ps: "ts = flat_tokens ps" "ends_ok ps" "ps \<noteq> []" "md = spread 0 ps" "length (spread 0 ps) = end_from 0 ps"
    using assms(1,2) TokenArr by (auto elim: line_good_arr)
  then have "ContiguousTokensEditing_deleteEnding lt (int a) = ContiguousTokensEditing_delete lt (int a) (int (length md))"
    using TokenArr last_end [OF ps(2,3)] by (auto simp: ContiguousTokensEditing_deleteEnding_def)
  then show ?thesis using delete_refines [OF assms(1,2,3)] by simp
qed (use assms in \<open>auto simp: line_md_def line_good_def ContiguousTokensEditing_deleteEnding_def\<close>)

text \<open>\<open>append\<close>\<close>

lemma append_loop_flat:
  assumes "2 * i = int (length A)" "n = i + int (length ps)" "length Z = 2 * length ps"
  shows "append_loop (R @ Z) (A @ flat_tokens ps) i n (int (length R)) (Some d) = R @ concat (map (\<lambda>(e, m). [of_nat e + d, m]) ps)"
  using assms
proof (induction ps arbitrary: A i R Z)
  case (Cons p ps)
  obtain e m where p: "p = (e, m)" by (cases p)
  obtain x y Z' where Z: "Z = x # y # Z'" "length Z' = 2 * length ps" using Cons.prems(3) by (cases Z; cases "tl Z") auto
  have put: "typed_put (typed_put (R @ Z) (int (length R)) (Some v)) (int (length R) + 1) (Some w) = (R @ [v, w]) @ Z'" for v w
    using typed_put_at [of R x "y # Z'" v] typed_put_at [of "R @ [v]" y Z' w] Z(1) by (simp add: add.commute)
  have step: "append_loop (R @ Z) (A @ flat_tokens (p # ps)) i n (int (length R)) (Some d) =
      append_loop ((R @ [of_nat e + d, m]) @ Z') ((A @ [of_nat e, m]) @ flat_tokens ps) (i + 1) n (int (length (R @ [of_nat e + d, m]))) (Some d)"
    using Cons.prems(2) flat_get [OF Cons.prems(1), of e m ps] p put by (subst append_loop.simps) (simp add: add.commute)
  show ?case unfolding step using Cons.IH [of "i + 1" "A @ [of_nat e, m]" Z' "R @ [of_nat e + d, m]"] Cons.prems Z(2) p by simp
qed (subst append_loop.simps, simp)

lemma append_refines:
  assumes "line_good lt" "line_md lt = Some md" "line_good lt'" "line_md lt' = Some md'" "length md + length md' < 2 ^ 32"
  shows "line_good (ContiguousTokensEditing_append lt lt') \<and> line_md (ContiguousTokensEditing_append lt lt') = Some (md @ md')"
proof -
  consider "lt' = EMPTY_LINE_TOKENS" | "lt = EMPTY_LINE_TOKENS" "lt' \<noteq> EMPTY_LINE_TOKENS" | ts ts' where "lt = TokenArr ts" "lt' = TokenArr ts'"
    using assms(2,4) by (cases lt; cases lt') (auto simp: line_md_def)
  then show ?thesis
  proof cases
    case 3
    obtain ps where ps: "ts = flat_tokens ps" "ends_ok ps" "ps \<noteq> []" "md = spread 0 ps" "length (spread 0 ps) = end_from 0 ps"
      using assms(1,2) 3(1) by (auto elim: line_good_arr)
    obtain qs where qs: "ts' = flat_tokens qs" "ends_ok qs" "qs \<noteq> []" "md' = spread 0 qs" "length (spread 0 qs) = end_from 0 qs"
      using assms(3,4) 3(2) by (auto elim: line_good_arr)
    let ?n = "end_from 0 ps"
    have last: "js_get (flat_tokens ps) (int (length (flat_tokens ps)) - 2) = Some (of_nat ?n)"
    proof -
      obtain w where w: "js_get (flat_tokens ps) (2 * int (length ps) - 2) = Some w" "uint w = int ?n" using last_end [OF ps(2,3)] by auto
      then have "w = of_nat ?n" by (metis of_int_of_nat_eq word_of_int_uint)
      with w(1) show ?thesis by simp
    qed
    have "append_loop (flat_tokens ps @ replicate (2 * length qs) 0) (flat_tokens qs) 0 (int (length qs)) (int (length (flat_tokens ps))) (Some (of_nat ?n)) =
        flat_tokens ps @ flat_tokens (raised ?n qs)"
      using append_loop_flat [of 0 "[]" "int (length qs)" qs "replicate (2 * length qs) 0" "flat_tokens ps" "of_nat ?n"] flat_raised [of ?n qs] by simp
    then have r: "ContiguousTokensEditing_append lt lt' = TokenArr (flat_tokens (ps @ raised ?n qs))"
      using 3 ps(1) qs(1) last by (simp add: ContiguousTokensEditing_append_def)
    have "fst x \<le> end_from 0 qs" if "x \<in> set qs" for x using end_from_le [OF qs(2) that] .
    then have "ends_ok (raised ?n qs)" using assms(5) ps(4,5) qs(2,4,5) by (intro ends_ok_raised) fastforce+
    moreover have "fst x \<le> fst y" if "x \<in> set ps" "y \<in> set (raised ?n qs)" for x y
      using end_from_le [OF ps(2) that(1), of 0] that(2) by (auto simp: raised_def)
    ultimately have ok: "ends_ok (ps @ raised ?n qs)" using ps(2) by (simp add: ends_ok_append)
    have "spread ?n (raised ?n qs) = spread 0 qs" using spread_raised [of 0 ?n qs] by simp
    then show ?thesis using r line_good_flat [OF ok] ps(3,4) qs(4) by (simp add: spread_append)
  qed (use assms in \<open>auto simp: ContiguousTokensEditing_append_def line_md_def\<close>)
qed

text \<open>\<open>insert\<close>: the token that ends at the offset grows, or the one around it, or the first one\<close>

lemma insert_grow:
  assumes "ends_ok (pre @ (e, m) # post)" "end_from 0 pre \<le> c" "c \<le> e" "end_from e post + n < 2 ^ 32"
  defines "rs \<equiv> pre @ raised n ((e, m) # post)" and "md \<equiv> spread 0 (pre @ (e, m) # post)"
  shows "shift_ends (flat_tokens (pre @ (e, m) # post)) (int (length pre)) (int (length (pre @ (e, m) # post))) (int n) = flat_tokens rs"
    "ends_ok rs" "spread 0 rs = take c md @ replicate n m @ drop c md"
proof -
  have parts: "ends_ok ((e, m) # post)" "ends_ok pre" "\<forall>x \<in> set pre. \<forall>y \<in> set ((e, m) # post). fst x \<le> fst y"
    using assms(1) unfolding ends_ok_append by blast+
  show "shift_ends (flat_tokens (pre @ (e, m) # post)) (int (length pre)) (int (length (pre @ (e, m) # post))) (int n) = flat_tokens rs"
    using shift_ends_flat [of "int (length pre)" "flat_tokens pre" "int (length (pre @ (e, m) # post))" "(e, m) # post" "int n"]
      flat_raised [of n "(e, m) # post"] by (simp add: rs_def)
  have "fst x \<le> end_from e post" if "x \<in> set ((e, m) # post)" for x using end_from_le [OF parts(1) that, of 0] by simp
  then have "ends_ok (raised n ((e, m) # post))" using assms(4) by (intro ends_ok_raised [OF parts(1)]) fastforce
  moreover have "fst x \<le> fst y" if "x \<in> set pre" "y \<in> set (raised n ((e, m) # post))" for x y
    using parts(3) that by (fastforce simp: raised_def)
  ultimately show "ends_ok rs" using parts(2) unfolding rs_def ends_ok_append by blast
  have len: "length (spread 0 pre) = end_from 0 pre" using length_spread [OF parts(2), of 0] by simp
  have "replicate (e + n - end_from 0 pre) m = replicate (c - end_from 0 pre) m @ replicate n m @ replicate (e - c) m"
    using assms(2,3) by (simp flip: replicate_add)
  then show "spread 0 rs = take c md @ replicate n m @ drop c md"
    using len assms(2,3) spread_raised [of e n post] by (simp add: rs_def md_def spread_append)
qed

definition no_empty_tokens :: "line_tokens \<Rightarrow> bool" where
  "no_empty_tokens lt = (case lt of TokenArr ts \<Rightarrow> distinct (map fst (token_list ts)) | _ \<Rightarrow> True)"

lemma spread_nth:
  assumes "ends_ok (pre @ (e, m) # post)" "end_from 0 pre < c" "c \<le> e"
  shows "spread 0 (pre @ (e, m) # post) ! (c - 1) = m"
proof -
  have "length (spread 0 pre) = end_from 0 pre" using length_spread [of pre 0] assms(1) by (simp add: ends_ok_append)
  moreover have "\<not> c - 1 < end_from 0 pre" "c - 1 - end_from 0 pre < e - end_from 0 pre" using assms(2,3) by auto
  ultimately show ?thesis by (simp add: spread_append nth_append)
qed

lemma insert_index:
  assumes "ends_ok ps" "ps \<noteq> []" "c \<le> end_from 0 ps"
  obtains pre e m post where "ps = pre @ (e, m) # post" "end_from 0 pre \<le> c" "c \<le> e" "0 < c \<Longrightarrow> distinct (map fst ps) \<Longrightarrow> m = spread 0 ps ! (c - 1)"
    "ContiguousTokensEditing_insert (TokenArr (flat_tokens ps)) (int c) n =
       TokenArr (shift_ends (flat_tokens ps) (int (length pre)) (int (length ps)) n)"
proof -
  obtain pre e m post where sp: "ps = pre @ (e, m) # post"
      "LineTokens_findIndexInTokensArray (flat_tokens ps) (int c) = int (length pre)" "end_from 0 pre \<le> c" "c \<le> e"
    using findIndex_split [OF assms] by metis
  note ok = assms(1) [unfolded sp(1)]
  note around = token_around [OF ok, folded sp(1)]
  show ?thesis
  proof (cases "pre \<noteq> [] \<and> end_from 0 pre = c")
    case True
    then obtain qs e' m' where pre: "pre = qs @ [(e', m')]" "e' = c" by (cases pre rule: rev_cases) auto
    then have ps: "ps = qs @ (c, m') # (e, m) # post" using sp(1) by simp
    have qs: "ends_ok qs" "\<forall>x \<in> set qs. fst x \<le> c" using assms(1) ps by (auto simp: ends_ok_append)
    have start: "end_from 0 qs \<le> c" using qs(2) by (cases qs rule: rev_cases) (auto simp: end_from_def)
    have "m' = spread 0 ps ! (c - 1)" if "0 < c" "distinct (map fst ps)"
    proof -
      have "end_from 0 qs \<noteq> c" using that ps by (cases qs rule: rev_cases) (auto simp: end_from_def)
      then show ?thesis using spread_nth [of qs c m' "(e, m) # post" c] assms(1) ps start by simp
    qed
    moreover have "ContiguousTokensEditing_insert (TokenArr (flat_tokens ps)) (int c) n =
       TokenArr (shift_ends (flat_tokens ps) (int (length qs)) (int (length ps)) n)"
      using around(2) True pre by (simp add: ContiguousTokensEditing_insert_def sp(2) Let_def)
    ultimately show ?thesis using that [OF ps start] by simp
  next
    case False
    then have "\<not> (int (length pre) > 0 \<and> u32_get (flat_tokens ps) (2 * (int (length pre) - 1)) = Some (int c))"
      using around(2) by auto
    then have "ContiguousTokensEditing_insert (TokenArr (flat_tokens ps)) (int c) n =
       TokenArr (shift_ends (flat_tokens ps) (int (length pre)) (int (length ps)) n)"
      unfolding ContiguousTokensEditing_insert_def Let_def line_tokens.case sp(2) by (simp only: if_False length_flat) simp
    moreover have "m = spread 0 ps ! (c - 1)" if "0 < c"
      using spread_nth [OF ok] sp(1,3,4) False that by (cases "pre = []") auto
    ultimately show ?thesis using that [OF sp(1,3,4)] by simp
  qed
qed

lemma insert_refines:
  assumes "line_good lt" "line_md lt = Some md" "lt \<noteq> EMPTY_LINE_TOKENS" "c \<le> length md" "length md + n < 2 ^ 32"
  shows "line_good (ContiguousTokensEditing_insert lt (int c) (int n)) \<and>
    (\<exists>m. line_md (ContiguousTokensEditing_insert lt (int c) (int n)) = Some (take c md @ replicate n m @ drop c md) \<and>
       (0 < c \<longrightarrow> no_empty_tokens lt \<longrightarrow> m = md ! (c - 1)))"
proof (cases lt)
  case (TokenArr ts)
  obtain ps where ps: "ts = flat_tokens ps" "ends_ok ps" "ps \<noteq> []" "md = spread 0 ps" "length (spread 0 ps) = end_from 0 ps"
    using assms(1,2) TokenArr by (auto elim: line_good_arr)
  have c: "c \<le> end_from 0 ps" using assms(4) ps(4,5) by simp
  obtain pre e m post where g: "ps = pre @ (e, m) # post" "end_from 0 pre \<le> c" "c \<le> e"
      "0 < c \<Longrightarrow> distinct (map fst ps) \<Longrightarrow> m = spread 0 ps ! (c - 1)"
      "ContiguousTokensEditing_insert (TokenArr (flat_tokens ps)) (int c) (int n) =
         TokenArr (shift_ends (flat_tokens ps) (int (length pre)) (int (length ps)) (int n))"
    using insert_index [OF ps(2,3) c] by metis
  have bound: "end_from e post + n < 2 ^ 32" using assms(5) ps(4,5) g(1) by simp
  note grow = insert_grow [OF ps(2) [unfolded g(1)] g(2,3) bound]
  have "ContiguousTokensEditing_insert lt (int c) (int n) = TokenArr (flat_tokens (pre @ raised n ((e, m) # post)))"
    using grow(1) g(1,5) TokenArr ps(1) by simp
  moreover have "no_empty_tokens lt \<longleftrightarrow> distinct (map fst ps)"
    using TokenArr ps(1,2) by (simp add: no_empty_tokens_def token_list_flat ends_ok_def)
  ultimately show ?thesis using line_good_flat [OF grow(2)] grow(3) g(1,4) ps(4) by auto
qed (use assms in \<open>auto simp: line_md_def\<close>)

text \<open>
  C13: Edits of the tokens of a line are edits of the metadata of its code units. For ascending tokens that
  cover a line of less than \<open>2^32\<close> code units, deleting a range of the line removes the metadata of that range, deleting its
  ending or beginning does likewise, appending the tokens of another line appends their
  metadata, and every result is again a well-formed array of tokens; this holds whether the range lies within one
  token or spans several, which the source treats differently. Text that is inserted into a line that is not marked as empty gets the
  same metadata for all its code units, and when no two tokens end at the same offset and the text is inserted behind a code unit, the metadata of that code unit.
\<close>

theorem ContiguousTokensEditing_refines:
  assumes "line_good lt" "line_md lt = Some md" "a \<le> b" "b \<le> length md" "line_good lt'" "line_md lt' = Some md'" "length md + length md' < 2 ^ 32"
    "c \<le> length md" "length md + n < 2 ^ 32"
  shows "line_good (ContiguousTokensEditing_delete lt (int a) (int b)) \<and>
    line_md (ContiguousTokensEditing_delete lt (int a) (int b)) = Some (take a md @ drop b md) \<and>
    line_md (ContiguousTokensEditing_deleteBeginning lt (int b)) = Some (drop b md) \<and>
    line_md (ContiguousTokensEditing_deleteEnding lt (int a)) = Some (take a md) \<and>
    line_good (ContiguousTokensEditing_append lt lt') \<and> line_md (ContiguousTokensEditing_append lt lt') = Some (md @ md') \<and>
    (lt = EMPTY_LINE_TOKENS \<or> line_good (ContiguousTokensEditing_insert lt (int c) (int n)) \<and>
      (\<exists>m. line_md (ContiguousTokensEditing_insert lt (int c) (int n)) = Some (take c md @ replicate n m @ drop c md) \<and>
         (0 < c \<longrightarrow> no_empty_tokens lt \<longrightarrow> m = md ! (c - 1))))"
  using delete_refines [OF assms(1-4)] deleteBeginning_refines [OF assms(1,2,4)] deleteEnding_refines [OF assms(1,2), of a]
    append_refines [OF assms(1,2,5,6,7)] insert_refines [OF assms(1,2) _ assms(8,9)] assms(3,4) by auto

theorem ContiguousTokensEditing_refines_witness:
  "line_md (ContiguousTokensEditing_delete (TokenArr [2, 7, 5, 9]) 1 4) = Some [7, 9] \<and>
   line_md (ContiguousTokensEditing_append (TokenArr [2, 7, 5, 9]) (TokenArr [1, 8])) = Some [7, 7, 9, 9, 9, 8] \<and>
   line_md (ContiguousTokensEditing_insert (TokenArr [2, 7, 5, 9]) 2 2) = Some [7, 7, 7, 7, 9, 9, 9]"
proof -
  have md: "replicate 2 (7 :: 32 word) @ replicate 3 9 = [7, 7, 9, 9, 9]" "replicate 2 (7 :: 32 word) = [7, 7]" by (simp_all add: numeral_eq_Suc)
  show ?thesis
    using ContiguousTokensEditing_refines [of "TokenArr [2, 7, 5, 9]" "[7, 7, 9, 9, 9]" 1 4 "TokenArr [1, 8]" "[8]" 2 2] md
    by (auto simp: line_good_def line_md_def ends_ok_def Let_def no_empty_tokens_def)
qed

end
