(* ===== verification/TokenStore.thy ===== *)
theory TokenStore
  imports TokenEditing PrefixSum PositionRange BracketLengths
begin

unbundle bit_operations_syntax

text \<open>
  Model of \<open>editor/common/tokens/contiguousTokensStore.ts\<close>, which keeps the tokens of the lines of a
  text and moves them along when the text is edited, of
  \<open>editor/common/tokens/contiguousMultilineTokens.ts\<close> without its serialization, and of
  \<open>editor/common/core/eolCounter.ts\<close>.

  The array of lines always has \<open>_len\<close> elements, so that an assignment never leaves a hole. The
  ids of languages come from a parameter, the \<open>ILanguageIdCodec\<close>.
\<close>

section \<open>countEOL\<close>

definition StringEOL_Invalid :: "32 word" where "StringEOL_Invalid = 3"
definition StringEOL_LF :: "32 word" where "StringEOL_LF = 1"
definition StringEOL_CRLF :: "32 word" where "StringEOL_CRLF = 2"

fun countEOL_loop :: "int \<Rightarrow> js_string \<Rightarrow> int \<Rightarrow> int \<Rightarrow> int \<Rightarrow> 32 word \<Rightarrow> int \<times> int \<times> int \<times> 32 word" where
  "countEOL_loop i [] eolCount firstLineLength lastLineStart eol = (eolCount, firstLineLength, lastLineStart, eol)"
| "countEOL_loop i (chr # rest) eolCount firstLineLength lastLineStart eol =
     (if chr = CR then
        let firstLineLength = (if eolCount = 0 then i else firstLineLength)
        in (case rest of
              c # rest' \<Rightarrow>
                if c = LF then countEOL_loop (i + 2) rest' (eolCount + 1) firstLineLength (i + 2) (eol OR StringEOL_CRLF)
                else countEOL_loop (i + 1) rest (eolCount + 1) firstLineLength (i + 1) (eol OR StringEOL_Invalid)
            | [] \<Rightarrow> countEOL_loop (i + 1) rest (eolCount + 1) firstLineLength (i + 1) (eol OR StringEOL_Invalid))
      else if chr = LF then
        countEOL_loop (i + 1) rest (eolCount + 1) (if eolCount = 0 then i else firstLineLength) (i + 1) (eol OR StringEOL_LF)
      else countEOL_loop (i + 1) rest eolCount firstLineLength lastLineStart eol)"

definition countEOL :: "js_string \<Rightarrow> int \<times> int \<times> int \<times> 32 word" where
  "countEOL s =
     (let (eolCount, firstLineLength, lastLineStart, eol) = countEOL_loop 0 s 0 0 0 0
      in (eolCount, if eolCount = 0 then int (length s) else firstLineLength, int (length s) - lastLineStart, eol))"

section \<open>ContiguousTokensStore\<close>

record ContiguousTokensStore =
  cts_lineTokens :: "line_tokens list"
  cts_len :: int

definition ContiguousTokensStore_new :: ContiguousTokensStore where
  "ContiguousTokensStore_new = \<lparr>cts_lineTokens = [], cts_len = 0\<rparr>"

definition ContiguousTokensStore_flush :: "ContiguousTokensStore \<Rightarrow> ContiguousTokensStore" where
  "ContiguousTokensStore_flush st = st\<lparr>cts_lineTokens := [], cts_len := 0\<rparr>"

definition ContiguousTokensStore_hasTokens :: "ContiguousTokensStore \<Rightarrow> bool" where
  "ContiguousTokensStore_hasTokens st \<longleftrightarrow> length (cts_lineTokens st) > 0"

definition getDefaultMetadata :: "32 word \<Rightarrow> 32 word" where
  "getDefaultMetadata topLevelLanguageId =
     push_bit LANGUAGEID_OFFSET topLevelLanguageId OR push_bit TOKEN_TYPE_OFFSET StandardTokenType_Other OR push_bit FONT_STYLE_OFFSET 0 OR
     push_bit FOREGROUND_OFFSET 1 OR push_bit BACKGROUND_OFFSET 2 OR BALANCED_BRACKETS_MASK"

record ILanguageIdCodec =
  encodeLanguageId :: "js_string \<Rightarrow> 32 word"
  decodeLanguageId :: "32 word \<Rightarrow> js_string"

text \<open>\<open>this._lineTokens[i]\<close> for an index in the array\<close>

definition line_at :: "ContiguousTokensStore \<Rightarrow> int \<Rightarrow> line_tokens" where
  "line_at st i = (case js_get (cts_lineTokens st) i of None \<Rightarrow> NullTokens | Some t \<Rightarrow> t)"

definition set_line :: "ContiguousTokensStore \<Rightarrow> int \<Rightarrow> line_tokens \<Rightarrow> ContiguousTokensStore" where
  "set_line st i t = st\<lparr>cts_lineTokens := (cts_lineTokens st)[nat i := t]\<rparr>"

definition ContiguousTokensStore_getTokens :: "ILanguageIdCodec \<Rightarrow> ContiguousTokensStore \<Rightarrow> js_string \<Rightarrow> int \<Rightarrow> js_string \<Rightarrow> LineTokens" where
  "ContiguousTokensStore_getTokens codec st topLevelLanguageId lineIndex lineText =
     (let rawLineTokens = (if lineIndex < cts_len st then line_at st lineIndex else NullTokens)
      in case rawLineTokens of
           TokenArr ts \<Rightarrow> LineTokens_new ts lineText (decodeLanguageId codec)
         | _ \<Rightarrow> LineTokens_new [word_of_int (int (length lineText)), getDefaultMetadata (encodeLanguageId codec topLevelLanguageId)] lineText
             (decodeLanguageId codec))"

definition ContiguousTokensStore_massageTokens :: "32 word \<Rightarrow> int \<Rightarrow> line_tokens \<Rightarrow> line_tokens" where
  "ContiguousTokensStore_massageTokens topLevelLanguageId lineTextLength tokens0 =
     (let tokens = (case tokens0 of NullTokens \<Rightarrow> None | EMPTY_LINE_TOKENS \<Rightarrow> Some [] | TokenArr ts \<Rightarrow> Some ts);
          hasDifferentLanguageId =
            (case tokens of Some (w # metadata # ws) \<Rightarrow> TokenMetadata_getLanguageId metadata \<noteq> topLevelLanguageId | _ \<Rightarrow> False)
      in if lineTextLength = 0 \<and> \<not> hasDifferentLanguageId then EMPTY_LINE_TOKENS
         else case tokens of
             None \<Rightarrow> TokenArr [word_of_int lineTextLength, getDefaultMetadata topLevelLanguageId]
           | Some ts \<Rightarrow>
               if ts = [] then TokenArr [word_of_int lineTextLength, getDefaultMetadata topLevelLanguageId]
               else TokenArr (typed_put ts (int (length ts) - 2) (Some (word_of_int lineTextLength))))"

definition ContiguousTokensStore_ensureLine :: "ContiguousTokensStore \<Rightarrow> int \<Rightarrow> ContiguousTokensStore" where
  "ContiguousTokensStore_ensureLine st lineIndex =
     (let n = nat (lineIndex + 1 - cts_len st)
      in st\<lparr>cts_lineTokens := cts_lineTokens st @ replicate n NullTokens, cts_len := cts_len st + int n\<rparr>)"

definition ContiguousTokensStore_deleteLines :: "ContiguousTokensStore \<Rightarrow> int \<Rightarrow> int \<Rightarrow> ContiguousTokensStore" where
  "ContiguousTokensStore_deleteLines st start deleteCount =
     (if deleteCount = 0 then st
      else let deleteCount = (if start + deleteCount > cts_len st then cts_len st - start else deleteCount)
           in st\<lparr>cts_lineTokens := js_splice (cts_lineTokens st) start deleteCount [], cts_len := cts_len st - deleteCount\<rparr>)"

definition ContiguousTokensStore_insertLines :: "ContiguousTokensStore \<Rightarrow> int \<Rightarrow> int \<Rightarrow> ContiguousTokensStore" where
  "ContiguousTokensStore_insertLines st insertIndex insertCount =
     (if insertCount = 0 then st
      else st\<lparr>cts_lineTokens := arrayInsert (cts_lineTokens st) insertIndex (replicate (nat insertCount) NullTokens), cts_len := cts_len st + insertCount\<rparr>)"

definition ContiguousTokensStore_equals :: "line_tokens \<Rightarrow> line_tokens \<Rightarrow> bool" where
  "ContiguousTokensStore_equals a b =
     (let arr = (\<lambda>t. case t of TokenArr ts \<Rightarrow> ts | _ \<Rightarrow> [])
      in if a = NullTokens \<or> b = NullTokens then a = NullTokens \<and> b = NullTokens else arr a = arr b)"

definition ContiguousTokensStore_setTokens :: "ILanguageIdCodec \<Rightarrow> ContiguousTokensStore \<Rightarrow> js_string \<Rightarrow> int \<Rightarrow> int \<Rightarrow> line_tokens \<Rightarrow> bool \<Rightarrow>
    ContiguousTokensStore \<times> bool" where
  "ContiguousTokensStore_setTokens codec st topLevelLanguageId lineIndex lineTextLength tokens0 checkEquality =
     (let tokens = ContiguousTokensStore_massageTokens (encodeLanguageId codec topLevelLanguageId) lineTextLength tokens0;
          st = ContiguousTokensStore_ensureLine st lineIndex;
          oldTokens = line_at st lineIndex;
          st = set_line st lineIndex tokens
      in (st, if checkEquality then \<not> ContiguousTokensStore_equals oldTokens tokens else False))"

definition ContiguousTokensStore_acceptDeleteRange :: "ContiguousTokensStore \<Rightarrow> Range \<Rightarrow> ContiguousTokensStore" where
  "ContiguousTokensStore_acceptDeleteRange st rng =
     (let firstLineIndex = startLineNumber rng - 1
      in if firstLineIndex \<ge> cts_len st then st
         else if startLineNumber rng = endLineNumber rng then
           if startColumn rng = endColumn rng then st
           else set_line st firstLineIndex (ContiguousTokensEditing_delete (line_at st firstLineIndex) (startColumn rng - 1) (endColumn rng - 1))
         else
           let st = set_line st firstLineIndex (ContiguousTokensEditing_deleteEnding (line_at st firstLineIndex) (startColumn rng - 1));
               lastLineIndex = endLineNumber rng - 1;
               lastLineTokens = (if lastLineIndex < cts_len st then ContiguousTokensEditing_deleteBeginning (line_at st lastLineIndex) (endColumn rng - 1)
                 else NullTokens);
               st = set_line st firstLineIndex (ContiguousTokensEditing_append (line_at st firstLineIndex) lastLineTokens)
           in ContiguousTokensStore_deleteLines st (startLineNumber rng) (endLineNumber rng - startLineNumber rng))"

definition ContiguousTokensStore_acceptInsertText :: "ContiguousTokensStore \<Rightarrow> Position \<Rightarrow> int \<Rightarrow> int \<Rightarrow> ContiguousTokensStore" where
  "ContiguousTokensStore_acceptInsertText st pos eolCount firstLineLength =
     (if eolCount = 0 \<and> firstLineLength = 0 then st
      else
        let lineIndex = lineNumber pos - 1
        in if lineIndex \<ge> cts_len st then st
           else if eolCount = 0 then
             set_line st lineIndex (ContiguousTokensEditing_insert (line_at st lineIndex) (column pos - 1) firstLineLength)
           else
             let st = set_line st lineIndex (ContiguousTokensEditing_deleteEnding (line_at st lineIndex) (column pos - 1));
                 st = set_line st lineIndex (ContiguousTokensEditing_insert (line_at st lineIndex) (column pos - 1) firstLineLength)
             in ContiguousTokensStore_insertLines st (lineNumber pos) eolCount)"

definition ContiguousTokensStore_acceptEdit :: "ContiguousTokensStore \<Rightarrow> Range \<Rightarrow> int \<Rightarrow> int \<Rightarrow> ContiguousTokensStore" where
  "ContiguousTokensStore_acceptEdit st rng eolCount firstLineLength =
     ContiguousTokensStore_acceptInsertText (ContiguousTokensStore_acceptDeleteRange st rng)
       (Position (startLineNumber rng) (startColumn rng)) eolCount firstLineLength"

section \<open>ContiguousMultilineTokens\<close>

record ContiguousMultilineTokens =
  cmt_startLineNumber :: int
  cmt_tokens :: "line_tokens list"

definition ContiguousMultilineTokens_endLineNumber :: "ContiguousMultilineTokens \<Rightarrow> int" where
  "ContiguousMultilineTokens_endLineNumber c = cmt_startLineNumber c + int (length (cmt_tokens c)) - 1"

text \<open>\<open>undefined\<close> outside of the block counts as \<open>null\<close>, as in all uses of the result.\<close>

definition ContiguousMultilineTokens_getLineTokens :: "ContiguousMultilineTokens \<Rightarrow> int \<Rightarrow> line_tokens" where
  "ContiguousMultilineTokens_getLineTokens c n =
     (case js_get (cmt_tokens c) (n - cmt_startLineNumber c) of None \<Rightarrow> NullTokens | Some t \<Rightarrow> t)"

definition ContiguousMultilineTokens_appendLineTokens :: "ContiguousMultilineTokens \<Rightarrow> 32 word list \<Rightarrow> ContiguousMultilineTokens" where
  "ContiguousMultilineTokens_appendLineTokens c lineTokens = c\<lparr>cmt_tokens := cmt_tokens c @ [TokenArr lineTokens]\<rparr>"

definition block_line :: "ContiguousMultilineTokens \<Rightarrow> int \<Rightarrow> line_tokens" where
  "block_line c i = (case js_get (cmt_tokens c) i of None \<Rightarrow> NullTokens | Some t \<Rightarrow> t)"

definition set_block_line :: "ContiguousMultilineTokens \<Rightarrow> int \<Rightarrow> line_tokens \<Rightarrow> ContiguousMultilineTokens" where
  "set_block_line c i t = c\<lparr>cmt_tokens := (cmt_tokens c)[nat i := t]\<rparr>"

definition ContiguousMultilineTokens_acceptDeleteRange :: "ContiguousMultilineTokens \<Rightarrow> Range \<Rightarrow> ContiguousMultilineTokens" where
  "ContiguousMultilineTokens_acceptDeleteRange c rng =
     (if startLineNumber rng = endLineNumber rng \<and> startColumn rng = endColumn rng then c
      else
        let firstLineIndex = startLineNumber rng - cmt_startLineNumber c;
            lastLineIndex = endLineNumber rng - cmt_startLineNumber c;
            n = int (length (cmt_tokens c))
        in if lastLineIndex < 0 then c\<lparr>cmt_startLineNumber := cmt_startLineNumber c - (lastLineIndex - firstLineIndex)\<rparr>
           else if firstLineIndex \<ge> n then c
           else if firstLineIndex < 0 \<and> lastLineIndex \<ge> n then c\<lparr>cmt_startLineNumber := 0, cmt_tokens := []\<rparr>
           else if firstLineIndex = lastLineIndex then
             set_block_line c firstLineIndex
               (ContiguousTokensEditing_delete (block_line c firstLineIndex) (startColumn rng - 1) (endColumn rng - 1))
           else if firstLineIndex \<ge> 0 then
             let c = set_block_line c firstLineIndex (ContiguousTokensEditing_deleteEnding (block_line c firstLineIndex) (startColumn rng - 1))
             in if lastLineIndex < n then
                  let lastLineTokens = ContiguousTokensEditing_deleteBeginning (block_line c lastLineIndex) (endColumn rng - 1);
                      c = set_block_line c firstLineIndex (ContiguousTokensEditing_append (block_line c firstLineIndex) lastLineTokens)
                  in c\<lparr>cmt_tokens := js_splice (cmt_tokens c) (firstLineIndex + 1) (lastLineIndex - firstLineIndex) []\<rparr>
                else
                  let c = set_block_line c firstLineIndex (ContiguousTokensEditing_append (block_line c firstLineIndex) NullTokens)
                  in c\<lparr>cmt_tokens := js_slice (cmt_tokens c) 0 (firstLineIndex + 1)\<rparr>
           else
             let c = c\<lparr>cmt_startLineNumber := cmt_startLineNumber c - (- firstLineIndex)\<rparr>;
                 c = set_block_line c lastLineIndex (ContiguousTokensEditing_deleteBeginning (block_line c lastLineIndex) (endColumn rng - 1))
             in c\<lparr>cmt_tokens := js_slice_from (cmt_tokens c) lastLineIndex\<rparr>)"

definition ContiguousMultilineTokens_insertLines :: "ContiguousMultilineTokens \<Rightarrow> int \<Rightarrow> int \<Rightarrow> ContiguousMultilineTokens" where
  "ContiguousMultilineTokens_insertLines c insertIndex insertCount =
     (if insertCount = 0 then c
      else c\<lparr>cmt_tokens := arrayInsert (cmt_tokens c) insertIndex (replicate (nat insertCount) NullTokens)\<rparr>)"

definition ContiguousMultilineTokens_acceptInsertText :: "ContiguousMultilineTokens \<Rightarrow> Position \<Rightarrow> int \<Rightarrow> int \<Rightarrow> ContiguousMultilineTokens" where
  "ContiguousMultilineTokens_acceptInsertText c pos eolCount firstLineLength =
     (if eolCount = 0 \<and> firstLineLength = 0 then c
      else
        let lineIndex = lineNumber pos - cmt_startLineNumber c
        in if lineIndex < 0 then c\<lparr>cmt_startLineNumber := cmt_startLineNumber c + eolCount\<rparr>
           else if lineIndex \<ge> int (length (cmt_tokens c)) then c
           else if eolCount = 0 then
             set_block_line c lineIndex (ContiguousTokensEditing_insert (block_line c lineIndex) (column pos - 1) firstLineLength)
           else
             let c = set_block_line c lineIndex (ContiguousTokensEditing_deleteEnding (block_line c lineIndex) (column pos - 1));
                 c = set_block_line c lineIndex (ContiguousTokensEditing_insert (block_line c lineIndex) (column pos - 1) firstLineLength)
             in ContiguousMultilineTokens_insertLines c (lineNumber pos) eolCount)"

definition ContiguousMultilineTokens_applyEdit :: "ContiguousMultilineTokens \<Rightarrow> Range \<Rightarrow> js_string \<Rightarrow> ContiguousMultilineTokens" where
  "ContiguousMultilineTokens_applyEdit c rng s =
     (let (eolCount, firstLineLength, lastLineLength, eol) = countEOL s
      in ContiguousMultilineTokens_acceptInsertText (ContiguousMultilineTokens_acceptDeleteRange c rng)
           (Position (startLineNumber rng) (startColumn rng)) eolCount firstLineLength)"

section \<open>Setting the tokens of many lines\<close>

text \<open>The lines of one block: the store, and the first and the last changed line\<close>

fun setMultiline_lines :: "ILanguageIdCodec \<Rightarrow> js_string \<Rightarrow> (int \<Rightarrow> int) \<Rightarrow> ContiguousMultilineTokens \<Rightarrow> int list \<Rightarrow>
    ContiguousTokensStore \<times> int \<times> int \<times> bool \<Rightarrow> ContiguousTokensStore \<times> int \<times> int \<times> bool" where
  "setMultiline_lines codec languageId getLineLength element [] s = s"
| "setMultiline_lines codec languageId getLineLength element (n # ns) (st, minChanged, maxChanged, hasChange) =
     (let (st, lineHasChange) = ContiguousTokensStore_setTokens codec st languageId (n - 1) (getLineLength n)
            (ContiguousMultilineTokens_getLineTokens element n) (\<not> hasChange)
      in setMultiline_lines codec languageId getLineLength element ns
           (if hasChange then (st, minChanged, n, True)
            else if lineHasChange then (st, n, n, True) else (st, minChanged, maxChanged, False)))"

fun setMultiline_loop :: "ILanguageIdCodec \<Rightarrow> js_string \<Rightarrow> (int \<Rightarrow> int) \<Rightarrow> ContiguousMultilineTokens list \<Rightarrow> ContiguousTokensStore \<Rightarrow>
    (int \<times> int) list \<Rightarrow> ContiguousTokensStore \<times> (int \<times> int) list" where
  "setMultiline_loop codec languageId getLineLength [] st ranges = (st, ranges)"
| "setMultiline_loop codec languageId getLineLength (element # tokens) st ranges =
     (let (st, minChanged, maxChanged, hasChange) = setMultiline_lines codec languageId getLineLength element
            [cmt_startLineNumber element..ContiguousMultilineTokens_endLineNumber element] (st, 0, 0, False)
      in setMultiline_loop codec languageId getLineLength tokens st (if hasChange then ranges @ [(minChanged, maxChanged)] else ranges))"

definition ContiguousTokensStore_setMultilineTokens :: "ILanguageIdCodec \<Rightarrow> js_string \<Rightarrow> (int \<Rightarrow> int) \<Rightarrow> ContiguousTokensStore \<Rightarrow>
    ContiguousMultilineTokens list \<Rightarrow> ContiguousTokensStore \<times> (int \<times> int) list" where
  "ContiguousTokensStore_setMultilineTokens codec languageId getLineLength st tokens =
     (if tokens = [] then (st, []) else setMultiline_loop codec languageId getLineLength tokens st [])"

end
