(* ===== verification/TokenStoreLaws.thy ===== *)
theory TokenStoreLaws
  imports TokenStore PackedTexts
begin

text \<open>
  The tokens of the store stay aligned with the lines of the text: the tokens of a line cover it
  after every edit of the text, so that the tokens of any line can be looked up at any time.
\<close>

section \<open>Tokens that fit a line\<close>

text \<open>\<open>EMPTY_LINE_TOKENS\<close> is looked up like missing tokens, and fits every line.\<close>

definition fits :: "line_tokens \<Rightarrow> nat \<Rightarrow> bool" where
  "fits t n \<longleftrightarrow> line_good t \<and> (case t of TokenArr ts \<Rightarrow> length (spread 0 (token_list ts)) = n | _ \<Rightarrow> True)"

definition really_empty :: "line_tokens \<Rightarrow> nat \<Rightarrow> bool" where
  "really_empty t n \<longleftrightarrow> (t = EMPTY_LINE_TOKENS \<longrightarrow> n = 0)"

lemma fits_simps [simp]: "fits NullTokens n" "fits EMPTY_LINE_TOKENS n" "really_empty NullTokens n" "really_empty (TokenArr ts) n"
  by (simp_all add: fits_def line_good_def really_empty_def)

lemma fits_md: "line_good t \<Longrightarrow> line_md t = Some md \<Longrightarrow> fits t (length md) \<and> really_empty t (length md)"
  by (cases t) (auto simp: fits_def line_md_def really_empty_def)

lemma fits_arr: "fits (TokenArr ts) n \<Longrightarrow> line_good (TokenArr ts) \<and> (\<exists>md. line_md (TokenArr ts) = Some md \<and> length md = n)"
  by (simp add: fits_def line_md_def)

lemma fits_delete:
  assumes "fits t n" "a \<le> b" "b \<le> n"
  shows "fits (ContiguousTokensEditing_delete t (int a) (int b)) (a + (n - b))"
proof (cases t)
  case (TokenArr ts)
  obtain md where md: "line_good t" "line_md t = Some md" "length md = n" using fits_arr assms(1) TokenArr by blast
  from delete_refines [OF md(1,2) assms(2)] fits_md assms(2,3) md(3) show ?thesis by fastforce
qed (simp_all add: ContiguousTokensEditing_delete_def)

lemma fits_deleteBeginning:
  assumes "fits t n" "really_empty t n" "b \<le> n"
  shows "fits (ContiguousTokensEditing_deleteBeginning t (int b)) (n - b) \<and> really_empty (ContiguousTokensEditing_deleteBeginning t (int b)) (n - b)"
proof (cases t)
  case (TokenArr ts)
  obtain md where md: "line_good t" "line_md t = Some md" "length md = n" using fits_arr assms(1) TokenArr by blast
  from deleteBeginning_refines [OF md(1,2)] fits_md assms(3) md(3) show ?thesis by fastforce
qed (use assms in \<open>simp_all add: ContiguousTokensEditing_deleteBeginning_def really_empty_def\<close>)

lemma fits_deleteEnding:
  assumes "fits t n" "a \<le> n"
  shows "fits (ContiguousTokensEditing_deleteEnding t (int a)) a \<and> (really_empty t n \<longrightarrow> really_empty (ContiguousTokensEditing_deleteEnding t (int a)) a)"
proof (cases t)
  case (TokenArr ts)
  obtain md where md: "line_good t" "line_md t = Some md" "length md = n" using fits_arr assms(1) TokenArr by blast
  from deleteEnding_refines [OF md(1,2), of a] fits_md assms(2) md(3) show ?thesis by fastforce
qed (use assms in \<open>simp_all add: ContiguousTokensEditing_deleteEnding_def really_empty_def\<close>)

lemma fits_append:
  assumes "fits t n" "really_empty t n" "fits t' n'" "really_empty t' n'" "n + n' < 2 ^ 32"
  shows "fits (ContiguousTokensEditing_append t t') (n + n')"
proof -
  consider "t = EMPTY_LINE_TOKENS \<or> t' = EMPTY_LINE_TOKENS" | "t = NullTokens \<or> t' = NullTokens" "t \<noteq> EMPTY_LINE_TOKENS" "t' \<noteq> EMPTY_LINE_TOKENS"
    | ts ts' where "t = TokenArr ts" "t' = TokenArr ts'" by (cases t; cases t') auto
  then show ?thesis
  proof cases
    case 1
    then show ?thesis using assms by (auto simp: ContiguousTokensEditing_append_def really_empty_def)
  next
    case 2
    then show ?thesis by (cases t; cases t') (auto simp: ContiguousTokensEditing_append_def)
  next
    case 3
    obtain md where md: "line_good t" "line_md t = Some md" "length md = n" using fits_arr assms(1) 3(1) by blast
    obtain md' where md': "line_good t'" "line_md t' = Some md'" "length md' = n'" using fits_arr assms(3) 3(2) by blast
    from append_refines [OF md(1,2) md'(1,2)] fits_md assms(5) md(3) md'(3) show ?thesis by fastforce
  qed
qed

lemma fits_insert:
  assumes "fits t n" "c \<le> n" "n + k < 2 ^ 32"
  shows "fits (ContiguousTokensEditing_insert t (int c) (int k)) (n + k)"
proof (cases t)
  case (TokenArr ts)
  obtain md where md: "line_good t" "line_md t = Some md" "length md = n" using fits_arr assms(1) TokenArr by blast
  obtain m where m: "line_good (ContiguousTokensEditing_insert t (int c) (int k))"
      "line_md (ContiguousTokensEditing_insert t (int c) (int k)) = Some (take c md @ replicate k m @ drop c md)"
    using insert_refines [OF md(1,2), of c k] TokenArr assms(2,3) md(3) by auto
  have len: "length (take c md @ replicate k m @ drop c md) = n + k" using assms(2) md(3) by simp
  show ?thesis using fits_md [OF m] unfolding len by blast
qed (simp_all add: ContiguousTokensEditing_insert_def)

section \<open>Stores that are aligned with the lines of a text\<close>

definition aligned :: "nat list \<Rightarrow> ContiguousTokensStore \<Rightarrow> bool" where
  "aligned lens st \<longleftrightarrow> cts_len st = int (length (cts_lineTokens st)) \<and> length (cts_lineTokens st) \<le> length lens \<and>
     (\<forall>i < length (cts_lineTokens st). fits (cts_lineTokens st ! i) (lens ! i))"

lemma line_at_nth: "i < length (cts_lineTokens st) \<Longrightarrow> line_at st (int i) = cts_lineTokens st ! i"
  by (simp add: line_at_def)

lemma set_line_simps [simp]: "cts_len (set_line st i t) = cts_len st" "length (cts_lineTokens (set_line st i t)) = length (cts_lineTokens st)"
  "cts_lineTokens (set_line st i t) = (cts_lineTokens st)[nat i := t]"
  by (simp_all add: set_line_def)

lemma aligned_set_line: "aligned lens st \<Longrightarrow> fits t n \<Longrightarrow> i < length lens \<Longrightarrow> aligned (lens[i := n]) (set_line st (int i) t)"
  by (auto simp: aligned_def nth_list_update)

lemma aligned_deleteLines:
  assumes "aligned lens st" "i \<le> length (cts_lineTokens st)" "i + n \<le> length lens"
  shows "aligned (take i lens @ drop (i + n) lens) (ContiguousTokensStore_deleteLines st (int i) (int n))"
proof (cases "n = 0")
  case True
  then show ?thesis using assms by (simp add: ContiguousTokensStore_deleteLines_def)
next
  case False
  let ?T = "cts_lineTokens st"
  define k where "k = min n (length ?T - i)"
  have k: "ContiguousTokensStore_deleteLines st (int i) (int n) =
      st\<lparr>cts_lineTokens := take i ?T @ drop (i + k) ?T, cts_len := cts_len st - int k\<rparr>"
    using assms(1,2) False by (auto simp: ContiguousTokensStore_deleteLines_def aligned_def js_splice_def Let_def k_def)
  have drop: "drop (i + k) ?T = drop (i + n) ?T" by (simp add: k_def min_def)
  have "fits ((take i ?T @ drop (i + n) ?T) ! p) ((take i lens @ drop (i + n) lens) ! p)" if "p < length (take i ?T @ drop (i + n) ?T)" for p
  proof (cases "p < i")
    case True
    then show ?thesis using assms that by (simp add: aligned_def nth_append)
  next
    case False
    then have "i + n + (p - i) < length ?T" using that assms(2) by auto
    then show ?thesis using False assms by (simp add: aligned_def nth_append)
  qed
  then show ?thesis using k drop assms by (auto simp: aligned_def k_def)
qed

lemma aligned_insertLines:
  assumes "aligned lens st" "i \<le> length (cts_lineTokens st)"
  shows "aligned (take i lens @ ns @ drop i lens) (ContiguousTokensStore_insertLines st (int i) (int (length ns)))"
proof (cases "ns = []")
  case True
  then show ?thesis using assms by (simp add: ContiguousTokensStore_insertLines_def)
next
  case False
  let ?T = "cts_lineTokens st"
  have st: "ContiguousTokensStore_insertLines st (int i) (int (length ns)) =
      st\<lparr>cts_lineTokens := take i ?T @ replicate (length ns) NullTokens @ drop i ?T, cts_len := cts_len st + int (length ns)\<rparr>"
    using False assms(2) by (simp add: ContiguousTokensStore_insertLines_def arrayInsert_def js_slice_def js_slice_from_def seg_def)
  have "fits ((take i ?T @ replicate (length ns) NullTokens @ drop i ?T) ! p) ((take i lens @ ns @ drop i lens) ! p)"
    if "p < length ?T + length ns" for p
  proof -
    have len: "length (take i ?T) = i" "length (take i lens) = i" "length ?T \<le> length lens" using assms by (auto simp: aligned_def)
    consider "p < i" | "i \<le> p" "p < i + length ns" | "i + length ns \<le> p" by linarith
    then show ?thesis
    proof cases
      case 1
      then show ?thesis using assms len by (simp add: aligned_def nth_append)
    next
      case 2
      then show ?thesis using len False by (simp add: nth_append)
    next
      case 3
      then have "i + (p - i - length ns) < length ?T" using that by simp
      then show ?thesis using 3 assms len by (simp add: aligned_def nth_append)
    qed
  qed
  then show ?thesis using st assms by (auto simp: aligned_def)
qed

section \<open>Edits of the text\<close>

text \<open>The lines after the text from column \<open>a\<close> of line \<open>i\<close> to column \<open>b\<close> of line \<open>j\<close> is replaced by the lines \<open>ins\<close>\<close>

definition deleted_lines :: "js_string list \<Rightarrow> nat \<Rightarrow> nat \<Rightarrow> nat \<Rightarrow> nat \<Rightarrow> js_string list" where
  "deleted_lines L i a j b = take i L @ [take a (L ! i) @ drop b (L ! j)] @ drop (Suc j) L"

definition inserted_lines :: "js_string list \<Rightarrow> nat \<Rightarrow> nat \<Rightarrow> js_string list \<Rightarrow> js_string list" where
  "inserted_lines L i a ins =
     (let before = take a (L ! i); after = drop a (L ! i)
      in take i L @ (case ins of [] \<Rightarrow> [before @ after] | [x] \<Rightarrow> [before @ x @ after] | x # xs \<Rightarrow> (before @ x) # butlast xs @ [last xs @ after]) @ drop (Suc i) L)"

abbreviation edit_range :: "nat \<Rightarrow> nat \<Rightarrow> nat \<Rightarrow> nat \<Rightarrow> Range" where
  "edit_range i a j b \<equiv> MkRange (int i + 1) (int a + 1) (int j + 1) (int b + 1)"

text \<open>A line that joins two others must not have \<open>EMPTY_LINE_TOKENS\<close> although it has text.\<close>

definition joinable :: "js_string list \<Rightarrow> ContiguousTokensStore \<Rightarrow> nat \<Rightarrow> nat \<Rightarrow> bool" where
  "joinable L st i j \<longleftrightarrow> i = j \<or> really_empty (line_at st (int i)) (length (L ! i)) \<and> really_empty (line_at st (int j)) (length (L ! j))"

lemma aligned_beyond: "aligned (map length L) st \<Longrightarrow> length (cts_lineTokens st) \<le> i \<Longrightarrow> length (cts_lineTokens st) \<le> length L' \<Longrightarrow>
    take i L' = take i L \<Longrightarrow> aligned (map length L') st"
proof -
  assume a: "aligned (map length L) st" "length (cts_lineTokens st) \<le> i" "length (cts_lineTokens st) \<le> length L'" "take i L' = take i L"
  have "L' ! p = L ! p" if "p < length (cts_lineTokens st)" for p using a(2,4) that by (metis less_le_trans nth_take)
  with a(1,3) show ?thesis by (auto simp: aligned_def)
qed

text \<open>The tokens of the two lines that the deletion of a range of several lines joins\<close>

definition joined_tokens :: "ContiguousTokensStore \<Rightarrow> nat \<Rightarrow> nat \<Rightarrow> nat \<Rightarrow> nat \<Rightarrow> line_tokens" where
  "joined_tokens st i a j b = ContiguousTokensEditing_append (ContiguousTokensEditing_deleteEnding (line_at st (int i)) (int a))
     (if int j < cts_len st then ContiguousTokensEditing_deleteBeginning (line_at st (int j)) (int b) else NullTokens)"

lemma acceptDeleteRange_joins:
  assumes "i < j" "i < length (cts_lineTokens st)" "cts_len st = int (length (cts_lineTokens st))"
  shows "ContiguousTokensStore_acceptDeleteRange st (edit_range i a j b) =
    ContiguousTokensStore_deleteLines (set_line st (int i) (joined_tokens st i a j b)) (int (Suc i)) (int (j - i))"
  using assms by (simp add: ContiguousTokensStore_acceptDeleteRange_def Let_def joined_tokens_def set_line_def line_at_def js_get_def of_nat_diff add.commute)

lemma delete_aligned:
  assumes "aligned (map length L) st" "i \<le> j" "j < length L" "a \<le> length (L ! i)" "b \<le> length (L ! j)" "i = j \<longrightarrow> a \<le> b" "joinable L st i j"
    "length (L ! i) + length (L ! j) < 2 ^ 32"
  shows "aligned (map length (deleted_lines L i a j b)) (ContiguousTokensStore_acceptDeleteRange st (edit_range i a j b))"
proof (cases "i < length (cts_lineTokens st)")
  case False
  then have "ContiguousTokensStore_acceptDeleteRange st (edit_range i a j b) = st"
    using assms(1) by (simp add: ContiguousTokensStore_acceptDeleteRange_def aligned_def)
  then show ?thesis using aligned_beyond [OF assms(1), of i "deleted_lines L i a j b"] False assms(2,3) by (auto simp: deleted_lines_def)
next
  case True
  have len: "cts_len st = int (length (cts_lineTokens st))" "length (cts_lineTokens st) \<le> length L" using assms(1) by (simp_all add: aligned_def)
  have at: "line_at st (int p) = cts_lineTokens st ! p \<and> fits (line_at st (int p)) (length (L ! p))" if "p < length (cts_lineTokens st)" for p
    using that assms(1) len(2) by (auto simp: aligned_def line_at_nth)
  show ?thesis
  proof (cases "i = j")
    case eq: True
    define t where "t = (if a = b then line_at st (int i) else ContiguousTokensEditing_delete (line_at st (int i)) (int a) (int b))"
    have ab: "a \<le> b" using assms(6) eq by simp
    have st: "ContiguousTokensStore_acceptDeleteRange st (edit_range i a j b) = set_line st (int i) t"
      using eq True len(1) at [OF True] by (auto simp: ContiguousTokensStore_acceptDeleteRange_def t_def set_line_def)
    have fit: "fits t (a + (length (L ! i) - b))" using at [OF True] fits_delete [of _ "length (L ! i)" a b] ab assms(4,5) eq by (auto simp: t_def)
    have "(map length L)[i := a + (length (L ! i) - b)] = map length (deleted_lines L i a j b)"
      using eq assms(3,4) by (simp add: deleted_lines_def upd_conv_take_nth_drop take_map drop_map)
    then show ?thesis unfolding st using aligned_set_line [OF assms(1) fit, of i] eq assms(3) by simp
  next
    case False
    then have ij: "i < j" using assms(2) by simp
    have joinable: "really_empty (line_at st (int i)) (length (L ! i))" "really_empty (line_at st (int j)) (length (L ! j))"
      using assms(7) False by (simp_all add: joinable_def)
    define t1 where "t1 = ContiguousTokensEditing_deleteEnding (line_at st (int i)) (int a)"
    define t2 where "t2 = (if int j < cts_len st then ContiguousTokensEditing_deleteBeginning (line_at st (int j)) (int b) else NullTokens)"
    define t where "t = joined_tokens st i a j b"
    have t1: "fits t1 a" "really_empty t1 a" using fits_deleteEnding [OF conjunct2 [OF at [OF True]] assms(4)] joinable(1) by (simp_all add: t1_def)
    have t2: "fits t2 (length (L ! j) - b)" "really_empty t2 (length (L ! j) - b)"
      using fits_deleteBeginning [OF _ joinable(2) assms(5)] at [of j] len(1) by (auto simp: t2_def)
    have fit: "fits t (a + (length (L ! j) - b))" using fits_append [OF t1 t2] assms(4,8) by (simp add: t_def joined_tokens_def t1_def t2_def)
    let ?lens = "(map length L)[i := a + (length (L ! j) - b)]"
    have al: "aligned ?lens (set_line st (int i) t)" using aligned_set_line [OF assms(1) fit] ij assms(3) by simp
    have st: "ContiguousTokensStore_acceptDeleteRange st (edit_range i a j b) = ContiguousTokensStore_deleteLines (set_line st (int i) t) (int (Suc i)) (int (j - i))"
      unfolding t_def by (rule acceptDeleteRange_joins [OF ij True len(1)])
    have "take (Suc i) ?lens @ drop (Suc i + (j - i)) ?lens = map length (deleted_lines L i a j b)"
      using ij assms(3,4) by (simp add: deleted_lines_def take_Suc_conv_app_nth take_map drop_map)
    then show ?thesis unfolding st using aligned_deleteLines [OF al, of "Suc i" "j - i"] True ij assms(3) by simp
  qed
qed

lemma insert_aligned:
  assumes "aligned (map length L) st" "i < length L" "a \<le> length (L ! i)" "ins \<noteq> []" "length (L ! i) + length (hd ins) < 2 ^ 32"
  shows "aligned (map length (inserted_lines L i a ins))
    (ContiguousTokensStore_acceptInsertText st (Position (int i + 1) (int a + 1)) (int (length ins) - 1) (int (length (hd ins))))"
proof (cases "i < length (cts_lineTokens st)")
  case False
  then have "ContiguousTokensStore_acceptInsertText st (Position (int i + 1) (int a + 1)) (int (length ins) - 1) (int (length (hd ins))) = st"
    using assms(1) by (simp add: ContiguousTokensStore_acceptInsertText_def aligned_def)
  then show ?thesis using aligned_beyond [OF assms(1), of i "inserted_lines L i a ins"] False assms(2) by (auto simp: inserted_lines_def Let_def)
next
  case True
  have len: "cts_len st = int (length (cts_lineTokens st))" "length (cts_lineTokens st) \<le> length L" using assms(1) by (simp_all add: aligned_def)
  have at: "fits (line_at st (int i)) (length (L ! i))" "line_at st (int i) = cts_lineTokens st ! i"
    using True assms(1) len(2) by (auto simp: aligned_def line_at_nth)
  obtain x xs where ins: "ins = x # xs" using assms(4) by (cases ins) auto
  show ?thesis
  proof (cases "xs = []")
    case one: True
    define t where "t = (if x = [] then line_at st (int i) else ContiguousTokensEditing_insert (line_at st (int i)) (int a) (int (length x)))"
    have fit: "fits t (length (L ! i) + length x)" using at(1) fits_insert [OF at(1) assms(3)] assms(5) ins by (auto simp: t_def)
    have "ContiguousTokensStore_acceptInsertText st (Position (int i + 1) (int a + 1)) (int (length ins) - 1) (int (length (hd ins))) = set_line st (int i) t"
      using ins one True len(1) at(2) by (auto simp: ContiguousTokensStore_acceptInsertText_def t_def set_line_def)
    moreover have "(map length L)[i := length (L ! i) + length x] = map length (inserted_lines L i a ins)"
      using ins one assms(2,3) by (simp add: inserted_lines_def Let_def upd_conv_take_nth_drop take_map drop_map)
    ultimately show ?thesis using aligned_set_line [OF assms(1) fit, of i] assms(2) by simp
  next
    case False
    define t1 where "t1 = ContiguousTokensEditing_deleteEnding (line_at st (int i)) (int a)"
    define t where "t = ContiguousTokensEditing_insert t1 (int a) (int (length x))"
    have "fits t1 a" using fits_deleteEnding [OF at(1) assms(3)] by (simp add: t1_def)
    then have fit: "fits t (a + length x)" using fits_insert [of t1 a a "length x"] assms(3,5) ins by (simp add: t_def)
    let ?lens = "(map length L)[i := a + length x]"
    have al: "aligned ?lens (set_line st (int i) t)" using aligned_set_line [OF assms(1) fit] assms(2) by simp
    let ?new = "map length (butlast xs @ [last xs @ drop a (L ! i)])"
    have st: "ContiguousTokensStore_acceptInsertText st (Position (int i + 1) (int a + 1)) (int (length ins) - 1) (int (length (hd ins))) =
        ContiguousTokensStore_insertLines (set_line st (int i) t) (int (Suc i)) (int (length ?new))"
      using ins False True len(1)
      by (simp add: ContiguousTokensStore_acceptInsertText_def Let_def t_def t1_def set_line_def line_at_def js_get_def add.commute)
    have "take (Suc i) ?lens @ ?new @ drop (Suc i) ?lens = map length (inserted_lines L i a ins)"
      using ins False assms(2,3) by (cases xs) (simp_all add: inserted_lines_def Let_def take_Suc_conv_app_nth take_map drop_map)
    then show ?thesis unfolding st using aligned_insertLines [OF al, of "Suc i" ?new] True by simp
  qed
qed

section \<open>Setting and looking up tokens\<close>

text \<open>Tokens that may be set for a line: all but the last one end within it; the end of the last one is corrected.\<close>

definition settable :: "line_tokens \<Rightarrow> nat \<Rightarrow> bool" where
  "settable t n = (case t of TokenArr ts \<Rightarrow> let ps = token_list ts in ts = flat_tokens ps \<and> ends_ok (butlast ps) \<and> (\<forall>x \<in> set (butlast ps). fst x \<le> n)
     | _ \<Rightarrow> True)"

lemma default_fits: "n < 2 ^ 32 \<Longrightarrow> fits (TokenArr [word_of_int (int n), m]) n"
  using line_good_flat [of "[(n, m)]"] fits_md [of "TokenArr (flat_tokens [(n, m)])" "spread 0 [(n, m)]"] by (simp add: ends_ok_def)

lemma massage_fits:
  assumes "settable t n" "n < 2 ^ 32"
  shows "fits (ContiguousTokensStore_massageTokens languageId (int n) t) n"
proof (cases "\<exists>ts. t = TokenArr ts \<and> ts \<noteq> []")
  case True
  then obtain ts where ts: "t = TokenArr ts" "ts \<noteq> []" by blast
  define ps where "ps = token_list ts"
  have ps: "ts = flat_tokens ps" "ends_ok (butlast ps)" "\<forall>x \<in> set (butlast ps). fst x \<le> n" "ps \<noteq> []"
    using assms(1) ts by (auto simp: settable_def ps_def Let_def)
  obtain e m where em: "last ps = (e, m)" by (cases "last ps")
  have split: "ps = butlast ps @ [(e, m)]" using ps(4) em by (metis append_butlast_last_id)
  let ?qs = "butlast ps @ [(n, m)]"
  have put: "typed_put ts (int (length ts) - 2) (Some (word_of_int (int n))) = flat_tokens ?qs"
  proof -
    have "ts = flat_tokens (butlast ps) @ flat_tokens ((e, m) # [])" using ps(1) split by (metis flat_simps(3))
    moreover have "int (length ts) - 2 = 2 * int (length (butlast ps))" using ps(1,4) by (cases ps rule: rev_cases) auto
    ultimately show ?thesis using flat_get(3) [of "int (length (butlast ps))" "flat_tokens (butlast ps)" e m "[]"] by simp
  qed
  have ok: "ends_ok ?qs" using ps(2,3) assms(2) by (simp add: ends_ok_append) (simp add: ends_ok_def)
  have "fits (TokenArr (flat_tokens ?qs)) (length (spread 0 ?qs))" using line_good_flat [OF ok] fits_md by blast
  moreover have "length (spread 0 ?qs) = n" using length_spread [OF ok, of 0] by simp
  ultimately show ?thesis using ts put by (simp add: ContiguousTokensStore_massageTokens_def Let_def)
next
  case False
  then show ?thesis using default_fits [OF assms(2)] by (cases t) (auto simp: ContiguousTokensStore_massageTokens_def Let_def)
qed

lemma ensureLine_aligned:
  assumes "aligned lens st" "i < length lens"
  shows "aligned lens (ContiguousTokensStore_ensureLine st (int i)) \<and> i < length (cts_lineTokens (ContiguousTokensStore_ensureLine st (int i)))"
  using assms by (auto simp: aligned_def ContiguousTokensStore_ensureLine_def Let_def nth_append)

lemma setTokens_aligned:
  assumes "aligned (map length L) st" "i < length L" "settable t (length (L ! i))" "length (L ! i) < 2 ^ 32"
  shows "aligned (map length L) (fst (ContiguousTokensStore_setTokens codec st languageId (int i) (int (length (L ! i))) t check))"
proof -
  note al = ensureLine_aligned [OF assms(1), of i]
  note fit = massage_fits [OF assms(3,4), of "encodeLanguageId codec languageId"]
  have "(map length L)[i := length (L ! i)] = map length L" using assms(2) by (simp add: list_update_same_conv)
  then show ?thesis
    using aligned_set_line [OF conjunct1 [OF al] fit, of i] assms(2) by (simp add: ContiguousTokensStore_setTokens_def Let_def)
qed

lemma getTokens_ok:
  assumes "aligned (map length L) st" "i < length L" "length (L ! i) < 2 ^ 32"
  shows "line_ok (ContiguousTokensStore_getTokens codec st languageId (int i) (L ! i)) \<and>
    lt_text (ContiguousTokensStore_getTokens codec st languageId (int i) (L ! i)) = L ! i"
proof (cases "\<exists>ts. i < length (cts_lineTokens st) \<and> cts_lineTokens st ! i = TokenArr ts")
  case True
  then obtain ts where ts: "i < length (cts_lineTokens st)" "cts_lineTokens st ! i = TokenArr ts" by blast
  then have "fits (TokenArr ts) (length (L ! i))" using assms(1) by (auto simp: aligned_def)
  then have good: "line_good (TokenArr ts)" and len: "length (spread 0 (token_list ts)) = length (L ! i)" by (simp_all add: fits_def)
  obtain ps where ps: "ts = flat_tokens ps" "ends_ok ps" "ps \<noteq> []" "line_md (TokenArr ts) = Some (spread 0 ps)" "length (spread 0 ps) = end_from 0 ps"
    using line_good_arr [OF good] .
  have "ContiguousTokensStore_getTokens codec st languageId (int i) (L ! i) = LineTokens_new ts (L ! i) (decodeLanguageId codec)"
    using ts assms(1) by (simp add: ContiguousTokensStore_getTokens_def aligned_def line_at_nth)
  moreover have "end_from 0 ps = length (L ! i)" using ps(4,5) len by (simp add: line_md_def)
  ultimately show ?thesis using line_okI [of "LineTokens_new ts (L ! i) (decodeLanguageId codec)" ps] ps(1-3) by (simp add: LineTokens_new_def)
next
  case False
  let ?m = "getDefaultMetadata (encodeLanguageId codec languageId)"
  let ?lt = "LineTokens_new [word_of_int (int (length (L ! i))), ?m] (L ! i) (decodeLanguageId codec)"
  have "ContiguousTokensStore_getTokens codec st languageId (int i) (L ! i) = ?lt"
    using False assms(1) by (auto simp: ContiguousTokensStore_getTokens_def aligned_def line_at_def js_get_def split: line_tokens.split)
  moreover have "ends_ok [(length (L ! i), ?m)]" using assms(3) by (simp add: ends_ok_def)
  ultimately show ?thesis using line_okI [of ?lt "[(length (L ! i), ?m)]"] by (simp add: LineTokens_new_def)
qed

section \<open>countEOL\<close>

lemma countEOL_steps:
  "countEOL_loop i (CR # LF # s) c f l eol = countEOL_loop (i + 2) s (c + 1) (if c = 0 then i else f) (i + 2) (eol OR StringEOL_CRLF)"
  "x \<noteq> CR \<Longrightarrow> x \<noteq> LF \<Longrightarrow> countEOL_loop i (x # s) c f l eol = countEOL_loop (i + 1) s c f l eol"
  "x = CR \<or> x = LF \<Longrightarrow> \<not> (x = CR \<and> s \<noteq> [] \<and> hd s = LF) \<Longrightarrow>
     \<exists>eol'. countEOL_loop i (x # s) c f l eol = countEOL_loop (i + 1) s (c + 1) (if c = 0 then i else f) (i + 1) eol'"
proof -
  assume a: "x = CR \<or> x = LF" "\<not> (x = CR \<and> s \<noteq> [] \<and> hd s = LF)"
  show "\<exists>eol'. countEOL_loop i (x # s) c f l eol = countEOL_loop (i + 1) s (c + 1) (if c = 0 then i else f) (i + 1) eol'"
  proof (cases "x = CR")
    case True
    show ?thesis
    proof (cases s)
      case Nil
      then show ?thesis unfolding True Nil by (intro exI [of _ "eol OR StringEOL_Invalid"], subst countEOL_loop.simps(2)) (simp only: Let_def list.case if_True simp_thms)
    next
      case (Cons y ys)
      then have "y \<noteq> LF" using a(2) True by simp
      then show ?thesis unfolding True Cons by (intro exI [of _ "eol OR StringEOL_Invalid"], subst countEOL_loop.simps(2)) (simp only: Let_def list.case if_True if_False simp_thms)
    qed
  next
    case False
    then have "x = LF" using a(1) by simp
    with False show ?thesis by (intro exI [of _ "eol OR StringEOL_LF"], subst countEOL_loop.simps(2)) (simp only: if_False if_True simp_thms)
  qed
next
  show "countEOL_loop i (CR # LF # s) c f l eol = countEOL_loop (i + 2) s (c + 1) (if c = 0 then i else f) (i + 2) (eol OR StringEOL_CRLF)"
    by (subst countEOL_loop.simps(2)) (simp only: Let_def list.case if_True simp_thms)
next
  assume "x \<noteq> CR" "x \<noteq> LF"
  then show "countEOL_loop i (x # s) c f l eol = countEOL_loop (i + 1) s c f l eol" by (subst countEOL_loop.simps(2)) (simp only: if_False)
qed

definition counts_lines :: "int \<Rightarrow> js_string \<Rightarrow> int \<Rightarrow> int \<Rightarrow> int \<times> int \<times> int \<times> 32 word \<Rightarrow> bool" where
  "counts_lines i s c f r \<longleftrightarrow> fst r = c + int (length (splitLines s)) - 1 \<and>
     fst (snd r) = (if c = 0 \<and> length (splitLines s) > 1 then i + int (length (hd (splitLines s))) else f)"

lemma countEOL_loop_lines: "0 \<le> c \<Longrightarrow> counts_lines i s c f (countEOL_loop i s c f l eol)"
proof (induction s arbitrary: i c f l eol rule: splitLines.induct)
  case (3 c1 d s)
  have ne: "splitLines s \<noteq> []" "splitLines (d # s) \<noteq> []" by (rule splitLines_nonempty)+
  consider "c1 = CR" "d = LF" | "\<not> (c1 = CR \<and> d = LF)" "c1 = CR \<or> c1 = LF" | "c1 \<noteq> CR" "c1 \<noteq> LF" by blast
  then show ?case
  proof cases
    case 1
    have "counts_lines (i + 2) s (c + 1) (if c = 0 then i else f) (countEOL_loop (i + 2) s (c + 1) (if c = 0 then i else f) (i + 2) (eol OR StringEOL_CRLF))"
      using 1 3(4) by (intro 3(1)) auto
    then show ?thesis unfolding 1 countEOL_steps(1) using 3(4) ne(1) by (cases "splitLines s") (auto simp: counts_lines_def)
  next
    case 2
    then obtain eol' where step: "countEOL_loop i (c1 # d # s) c f l eol = countEOL_loop (i + 1) (d # s) (c + 1) (if c = 0 then i else f) (i + 1) eol'"
      using countEOL_steps(3) [of c1 "d # s" i c f l eol] by auto
    have "counts_lines (i + 1) (d # s) (c + 1) (if c = 0 then i else f) (countEOL_loop (i + 1) (d # s) (c + 1) (if c = 0 then i else f) (i + 1) eol')"
      using 2 3(4) by (intro 3(2)) auto
    moreover have "splitLines (c1 # d # s) = [] # splitLines (d # s)" using 2 by auto
    ultimately show ?thesis unfolding step using 3(4) ne(2) by (cases "splitLines (d # s)") (auto simp: counts_lines_def simp del: countEOL_loop.simps)
  next
    case 3
    have "counts_lines (i + 1) (d # s) c f (countEOL_loop (i + 1) (d # s) c f l eol)" using 3 "3.prems" by (intro "3.IH"(3)) auto
    moreover obtain x xs where x: "splitLines (d # s) = x # xs" using ne(2) by (cases "splitLines (d # s)") auto
    moreover have "splitLines (c1 # d # s) = (c1 # x) # xs" using 3 x by simp
    ultimately show ?thesis unfolding countEOL_steps(2) [OF 3] by (auto simp: counts_lines_def simp del: countEOL_loop.simps)
  qed
qed (auto simp: counts_lines_def)

lemma countEOL_lines:
  "fst (countEOL s) = int (length (splitLines s)) - 1" "fst (snd (countEOL s)) = int (length (hd (splitLines s)))"
proof -
  have one: "hd (splitLines s) = s" if "length (splitLines s) = 1" using that
    by (induction s rule: splitLines.induct) (auto simp: splitLines_nonempty split: list.splits if_splits)
  obtain e f l x where r: "countEOL_loop 0 s 0 0 0 0 = (e, f, l, x)" by (metis prod_cases4)
  have "length (splitLines s) = 1 \<or> 1 < length (splitLines s)" using splitLines_nonempty [of s] by (cases "splitLines s") auto
  then show "fst (countEOL s) = int (length (splitLines s)) - 1" "fst (snd (countEOL s)) = int (length (hd (splitLines s)))"
    using countEOL_loop_lines [of 0 0 s 0 0 0] r one by (auto simp: countEOL_def counts_lines_def)
qed

section \<open>All reachable stores\<close>

text \<open>
  A store beside a text of the lines \<open>L\<close>: it starts empty or is flushed for any text, tokens are set
  for lines, and every edit of the text is accepted.
\<close>

inductive store_reach :: "ILanguageIdCodec \<Rightarrow> js_string list \<Rightarrow> ContiguousTokensStore \<Rightarrow> bool" for codec where
  reach_new: "store_reach codec L ContiguousTokensStore_new"
| reach_flush: "store_reach codec L st \<Longrightarrow> store_reach codec L' (ContiguousTokensStore_flush st)"
| reach_set: "store_reach codec L st \<Longrightarrow> i < length L \<Longrightarrow> length (L ! i) < 2 ^ 32 \<Longrightarrow> settable t (length (L ! i)) \<Longrightarrow>
    store_reach codec L (fst (ContiguousTokensStore_setTokens codec st languageId (int i) (int (length (L ! i))) t check))"
| reach_edit: "store_reach codec L st \<Longrightarrow> i \<le> j \<Longrightarrow> j < length L \<Longrightarrow> a \<le> length (L ! i) \<Longrightarrow> b \<le> length (L ! j) \<Longrightarrow> i = j \<longrightarrow> a \<le> b \<Longrightarrow>
    joinable L st i j \<Longrightarrow> length (L ! i) + length (L ! j) + length (hd (splitLines s)) < 2 ^ 32 \<Longrightarrow>
    store_reach codec (inserted_lines (deleted_lines L i a j b) i a (splitLines s))
      (ContiguousTokensStore_acceptEdit st (edit_range i a j b) (fst (countEOL s)) (fst (snd (countEOL s))))"

inductive_cases store_reach_cases: "store_reach codec L st"

lemma store_reach_aligned: "store_reach codec L st \<Longrightarrow> aligned (map length L) st"
proof (induction rule: store_reach.induct)
  case (reach_edit L st i j a b s)
  let ?D = "deleted_lines L i a j b"
  have al: "aligned (map length ?D) (ContiguousTokensStore_acceptDeleteRange st (edit_range i a j b))"
    using reach_edit.IH reach_edit.hyps by (intro delete_aligned) auto
  have line: "?D ! i = take a (L ! i) @ drop b (L ! j)" "i < length ?D" using reach_edit.hyps(2,3) by (simp_all add: deleted_lines_def nth_append)
  have "a \<le> length (?D ! i)" "length (?D ! i) + length (hd (splitLines s)) < 2 ^ 32" using line(1) reach_edit.hyps(4,8) by simp_all
  from insert_aligned [OF al line(2) this(1) splitLines_nonempty this(2)] show ?case
    by (simp add: ContiguousTokensStore_acceptEdit_def countEOL_lines)
next
  case (reach_set L st i t languageId check)
  then show ?case by (intro setTokens_aligned) auto
qed (auto simp: ContiguousTokensStore_new_def ContiguousTokensStore_flush_def aligned_def)

text \<open>
  C12: The tokens of every line can be looked up at any time. When every array of tokens that was set for a line was
  a list of pairs whose ends ascend within the line, but for the last end, which the store corrects, and whatever
  edits of the text were accepted since, for every line of the text as it is now the store
  answers with ascending tokens that cover exactly the text of the line. Lines have less than \<open>2^32\<close> code units. The only exception are
  edits that join a line that has text but whose tokens are marked as empty with another one.
\<close>

theorem getTokens_cover_line:
  assumes "store_reach codec L st" "i < length L" "length (L ! i) < 2 ^ 32"
  shows "line_ok (ContiguousTokensStore_getTokens codec st languageId (int i) (L ! i)) \<and>
    lt_text (ContiguousTokensStore_getTokens codec st languageId (int i) (L ! i)) = L ! i \<and>
    length (line_metadata (ContiguousTokensStore_getTokens codec st languageId (int i) (L ! i))) = length (L ! i)"
  using getTokens_ok [OF store_reach_aligned [OF assms(1)] assms(2,3), of codec languageId] line_metadata_length by fastforce

definition sample_codec :: ILanguageIdCodec where
  "sample_codec = \<lparr>encodeLanguageId = (\<lambda>_. 1), decodeLanguageId = (\<lambda>_. [])\<rparr>"

abbreviation sample_set :: "js_string list \<Rightarrow> nat \<Rightarrow> line_tokens \<Rightarrow> ContiguousTokensStore \<Rightarrow> ContiguousTokensStore" where
  "sample_set L i t st \<equiv> fst (ContiguousTokensStore_setTokens sample_codec st [] (int i) (int (length (L ! i))) t False)"

theorem getTokens_cover_line_witness:
  "line_ok (ContiguousTokensStore_getTokens sample_codec
     (ContiguousTokensStore_acceptEdit (sample_set [js ''abc''] 0 (TokenArr [1, 7, 9, 8]) ContiguousTokensStore_new)
       (edit_range 0 1 0 1) 1 0) [] 0 (js ''a''))"
proof -
  let ?L = "[js ''abc'']" and ?s = "[LF]"
  let ?st = "sample_set ?L 0 (TokenArr [1, 7, 9, 8]) ContiguousTokensStore_new"
  have "store_reach sample_codec ?L ?st"
    by (rule reach_set [OF reach_new]) (simp_all add: settable_def ends_ok_def js_def Let_def)
  moreover have "joinable ?L ?st 0 0" by (simp add: joinable_def)
  ultimately have "store_reach sample_codec (inserted_lines (deleted_lines ?L 0 1 0 1) 0 1 (splitLines ?s))
      (ContiguousTokensStore_acceptEdit ?st (edit_range 0 1 0 1) (fst (countEOL ?s)) (fst (snd (countEOL ?s))))"
    by (intro reach_edit) (simp_all add: js_def)
  moreover have "inserted_lines (deleted_lines ?L 0 1 0 1) 0 1 (splitLines ?s) = [js ''a'', js ''bc'']"
    by (simp add: inserted_lines_def deleted_lines_def js_def)
  moreover have "fst (countEOL ?s) = 1" "fst (snd (countEOL ?s)) = 0" by (simp_all add: countEOL_lines)
  ultimately have "store_reach sample_codec [js ''a'', js ''bc''] (ContiguousTokensStore_acceptEdit ?st (edit_range 0 1 0 1) 1 0)" by simp
  from getTokens_cover_line [OF this, of 0 "[]"] show ?thesis by (simp add: js_def)
qed

lemma deleteLines_front:
  "cts_len st = int (length (cts_lineTokens st)) \<Longrightarrow> i < length (cts_lineTokens st) \<Longrightarrow>
   line_at (ContiguousTokensStore_deleteLines st (int (Suc i)) (int n)) (int i) = line_at st (int i) \<and>
   int i < cts_len (ContiguousTokensStore_deleteLines st (int (Suc i)) (int n))"
  by (auto simp: ContiguousTokensStore_deleteLines_def js_splice_def line_at_def js_get_def Let_def nth_append)

text \<open>
  C37: Joining a line whose tokens are marked as empty misplaces tokens. When a line has the mark although it has text, and the text
  from a column of it, other than the first, to a column of a later line with tokens is deleted, but not all of the later line,
  then the store answers for the joined line with the tokens of the rest of the later line: they start at
  the beginning of the joined line, and do not cover it. A line has the mark and text when its tokens were set while it was empty, and
  text was inserted into it since. Lines have less than \<open>2^32\<close> code units.
\<close>

theorem joined_line_not_covered:
  fixes languageId :: js_string
  assumes "store_reach codec L st" "i < j" "j < length L" "0 < a" "a \<le> length (L ! i)" "b < length (L ! j)" "length (L ! j) < 2 ^ 32"
    and "line_at st (int i) = EMPTY_LINE_TOKENS" "line_at st (int j) = TokenArr ts"
  defines "st' \<equiv> ContiguousTokensStore_acceptEdit st (edit_range i a j b) 0 0"
  defines "lt \<equiv> ContiguousTokensStore_getTokens codec st' languageId (int i) (take a (L ! i) @ drop b (L ! j))"
  shows "line_metadata lt = drop b (line_metadata (ContiguousTokensStore_getTokens codec st languageId (int j) (L ! j))) \<and> \<not> line_ok lt"
proof -
  have al: "aligned (map length L) st" using assms(1) by (rule store_reach_aligned)
  have len: "cts_len st = int (length (cts_lineTokens st))" using al by (simp add: aligned_def)
  have j: "j < length (cts_lineTokens st)"
    using assms(9) by (cases "j < length (cts_lineTokens st)") (auto simp: line_at_def js_get_def)
  have fit: "fits (TokenArr ts) (length (L ! j))" using al j assms(3,9) by (auto simp: aligned_def line_at_nth)
  then obtain md where md: "line_good (TokenArr ts)" "line_md (TokenArr ts) = Some md" "length md = length (L ! j)" using fits_arr by blast
  define t where "t = ContiguousTokensEditing_deleteBeginning (TokenArr ts) (int b)"
  have t: "line_md t = Some (drop b md)" unfolding t_def using deleteBeginning_refines [OF md(1,2)] assms(6) md(3) by simp
  moreover have "drop b md \<noteq> []" using assms(6) md(3) by simp
  ultimately obtain us where us: "t = TokenArr us" "spread 0 (token_list us) = drop b md" by (cases t) (auto simp: line_md_def)
  have "joined_tokens st i a j b = t"
    using assms(8,9) len j us(1)
    by (simp add: joined_tokens_def ContiguousTokensEditing_deleteEnding_def ContiguousTokensEditing_append_def t_def [symmetric])
  then have st': "st' = ContiguousTokensStore_deleteLines (set_line st (int i) t) (int (Suc i)) (int (j - i))"
    using acceptDeleteRange_joins [OF assms(2) _ len, of a b] assms(2) j
    by (simp add: st'_def ContiguousTokensStore_acceptEdit_def ContiguousTokensStore_acceptInsertText_def)
  have "line_at st' (int i) = t" "int i < cts_len st'"
    using deleteLines_front [of "set_line st (int i) t" i "j - i"] len assms(2) j unfolding st' by (simp_all add: line_at_nth)
  then have lt: "lt = LineTokens_new us (take a (L ! i) @ drop b (L ! j)) (decodeLanguageId codec)"
    using us(1) by (simp add: lt_def ContiguousTokensStore_getTokens_def)
  then have meta: "line_metadata lt = drop b md" using us(2) by (simp add: line_metadata_def LineTokens_new_def)
  have "line_metadata (ContiguousTokensStore_getTokens codec st languageId (int j) (L ! j)) = md"
    using md(2) assms(9) len j by (simp add: ContiguousTokensStore_getTokens_def line_metadata_def LineTokens_new_def line_md_def)
  moreover have "length (drop b md) \<noteq> length (lt_text lt)" using lt assms(4,5,6) md(3) by (simp add: LineTokens_new_def)
  ultimately show ?thesis using meta line_metadata_length by metis
qed

text \<open>An empty line gets its tokens, then the text \<open>ab\<close>, and then the next line is joined to it.\<close>

theorem joined_line_not_covered_witness:
  "line_metadata (ContiguousTokensStore_getTokens sample_codec
     (ContiguousTokensStore_acceptEdit (ContiguousTokensStore_acceptEdit
        (sample_set [[], js ''xyz''] 1 (TokenArr [3, 9]) (sample_set [[], js ''xyz''] 0 NullTokens ContiguousTokensStore_new))
        (edit_range 0 0 0 0) 0 2) (edit_range 0 2 1 0) 0 0) [] 0 (js ''abxyz'')) = [9, 9, 9]"
proof -
  let ?L = "[[], js ''xyz'']" and ?s = "js ''ab''"
  let ?st = "sample_set ?L 1 (TokenArr [3, 9]) (sample_set ?L 0 NullTokens ContiguousTokensStore_new)"
  let ?st1 = "ContiguousTokensStore_acceptEdit ?st (edit_range 0 0 0 0) 0 2"
  have "store_reach sample_codec ?L ?st"
    by (intro reach_set reach_new) (simp_all add: settable_def ends_ok_def js_def Let_def)
  then have "store_reach sample_codec (inserted_lines (deleted_lines ?L 0 0 0 0) 0 0 (splitLines ?s))
      (ContiguousTokensStore_acceptEdit ?st (edit_range 0 0 0 0) (fst (countEOL ?s)) (fst (snd (countEOL ?s))))"
    by (rule reach_edit) (simp_all add: joinable_def js_def)
  moreover have "inserted_lines (deleted_lines ?L 0 0 0 0) 0 0 (splitLines ?s) = [js ''ab'', js ''xyz'']"
    by (simp add: inserted_lines_def deleted_lines_def js_def)
  moreover have "fst (countEOL ?s) = 0" "fst (snd (countEOL ?s)) = 2" by (simp_all add: countEOL_lines js_def)
  ultimately have reach: "store_reach sample_codec [js ''ab'', js ''xyz''] ?st1" by simp
  have st1: "?st1 = \<lparr>cts_lineTokens = [EMPTY_LINE_TOKENS, TokenArr [3, 9]], cts_len = 2\<rparr>"
    by (simp add: js_def ContiguousTokensStore_setTokens_def ContiguousTokensStore_new_def ContiguousTokensStore_ensureLine_def
        ContiguousTokensStore_massageTokens_def set_line_def typed_put_def Let_def sample_codec_def ContiguousTokensStore_acceptEdit_def
        ContiguousTokensStore_acceptDeleteRange_def ContiguousTokensStore_acceptInsertText_def line_at_def js_get_def ContiguousTokensEditing_insert_def)
  have rep: "replicate 3 (9 :: 32 word) = [9, 9, 9]" by (simp add: numeral_eq_Suc)
  have md: "line_metadata (ContiguousTokensStore_getTokens sample_codec ?st1 [] 1 (js ''xyz'')) = [9, 9, 9]"
    unfolding st1 by (simp add: ContiguousTokensStore_getTokens_def line_at_def js_get_def line_metadata_def LineTokens_new_def rep)
  have line: "line_at ?st1 (int 0) = EMPTY_LINE_TOKENS" "line_at ?st1 (int 1) = TokenArr [3, 9]"
    unfolding st1 by (simp_all add: line_at_def js_get_def)
  show ?thesis
    using joined_line_not_covered [OF reach _ _ _ _ _ _ line, of 2 0 "[]"] md by (simp add: js_def)
qed

text \<open>
  A line break inserted into a block of tokens that does not start at the first line is not
  accounted for where it was inserted: the number of the line is used as an index into the block, so
  that in a block that starts at line 10 the tokens of line 11 still stand for line 11 when a line
  break is inserted at the end of line 10, although their text has moved to line 12.
\<close>

theorem applyEdit_block_misplaced:
  "cmt_tokens (ContiguousMultilineTokens_applyEdit \<lparr>cmt_startLineNumber = 10, cmt_tokens = [TokenArr [3, 7], TokenArr [4, 8]]\<rparr> (MkRange 10 4 10 4) [LF]) =
     [TokenArr [3, 7], TokenArr [4, 8], NullTokens] \<and>
   ContiguousMultilineTokens_getLineTokens (ContiguousMultilineTokens_applyEdit \<lparr>cmt_startLineNumber = 10, cmt_tokens = [TokenArr [3, 7], TokenArr [4, 8]]\<rparr>
     (MkRange 10 4 10 4) [LF]) 11 = TokenArr [4, 8]"
  by (simp add: ContiguousMultilineTokens_applyEdit_def countEOL_def ContiguousMultilineTokens_acceptDeleteRange_def
      ContiguousMultilineTokens_acceptInsertText_def ContiguousMultilineTokens_insertLines_def arrayInsert_def set_block_line_def block_line_def js_get_def
      ContiguousTokensEditing_deleteEnding_def ContiguousTokensEditing_delete_def ContiguousTokensEditing_insert_def shift_ends.simps typed_put_def
      LineTokens_findIndexInTokensArray_def js_slice_def js_slice_from_def seg_def ContiguousMultilineTokens_getLineTokens_def Let_def)

end
