(* ===== verification/DiffAlgorithms.thy ===== *)
theory DiffAlgorithms
  imports PrefixSum OffsetRange
begin

text \<open>
  Model of \<open>editor/common/diff/defaultLinesDiffComputer/algorithms/diffAlgorithm.ts\<close>, of
  \<open>dynamicProgrammingDiffing.ts\<close> beside it and of the class \<open>Array2D\<close> of \<open>utils.ts\<close>.

  A sequence is a record of the operations of the interface \<open>ISequence\<close>. The scores of the dynamic
  program are floating-point numbers of the source; here they have any linearly ordered type
  with an addition of which nothing is assumed. A read of \<open>undefined\<close> and \<open>NaN\<close> are both
  \<^const>\<open>None\<close>. The \<open>k\<close>-th call of \<open>timeout.isValid()\<close> returns \<open>timeout k\<close>.
\<close>

section \<open>Sequences and differences\<close>

record ISequence =
  getElement :: "int \<Rightarrow> int option"
  seq_length :: int
  getBoundaryScore :: "(int \<Rightarrow> int) option"
  isStronglyEqual :: "int \<Rightarrow> int \<Rightarrow> bool"

type_synonym ITimeout = "nat \<Rightarrow> bool"

definition InfiniteTimeout_isValid :: ITimeout where
  "InfiniteTimeout_isValid k = True"

datatype OffsetPair = MkOffsetPair (offset1: int) (offset2: int)

definition OffsetPair_zero :: OffsetPair where
  "OffsetPair_zero = MkOffsetPair 0 0"

definition OffsetPair_max :: OffsetPair where
  "OffsetPair_max = MkOffsetPair MAX_SAFE_INTEGER MAX_SAFE_INTEGER"

definition OffsetPair_delta :: "OffsetPair \<Rightarrow> int \<Rightarrow> OffsetPair" where
  "OffsetPair_delta p k = (if k = 0 then p else MkOffsetPair (offset1 p + k) (offset2 p + k))"

definition OffsetPair_equals :: "OffsetPair \<Rightarrow> OffsetPair \<Rightarrow> bool" where
  "OffsetPair_equals p q \<longleftrightarrow> offset1 p = offset1 q \<and> offset2 p = offset2 q"

datatype SequenceDiff = MkSequenceDiff (seq1Range: OffsetRange) (seq2Range: OffsetRange)

definition SequenceDiff_fromOffsetPairs :: "OffsetPair \<Rightarrow> OffsetPair \<Rightarrow> SequenceDiff result" where
  "SequenceDiff_fromOffsetPairs s e =
     ebind (OffsetRange_new (offset1 s) (offset1 e)) (\<lambda>r1.
     ebind (OffsetRange_new (offset2 s) (offset2 e)) (\<lambda>r2. Inr (MkSequenceDiff r1 r2)))"

fun assertSorted_loop :: "SequenceDiff option \<Rightarrow> SequenceDiff list \<Rightarrow> unit result" where
  "assertSorted_loop prev [] = Inr ()"
| "assertSorted_loop prev (cur # ds) =
     (if case prev of None \<Rightarrow> False
         | Some l \<Rightarrow> \<not> (or_endExclusive (seq1Range l) \<le> or_start (seq1Range cur) \<and> or_endExclusive (seq2Range l) \<le> or_start (seq2Range cur))
      then Inl BugIndicatingError else assertSorted_loop (Some cur) ds)"

definition SequenceDiff_assertSorted :: "SequenceDiff list \<Rightarrow> unit result" where
  "SequenceDiff_assertSorted ds = assertSorted_loop None ds"

definition SequenceDiff_swap :: "SequenceDiff \<Rightarrow> SequenceDiff" where
  "SequenceDiff_swap d = MkSequenceDiff (seq2Range d) (seq1Range d)"

definition on_both :: "(OffsetRange \<Rightarrow> OffsetRange result) \<Rightarrow> (OffsetRange \<Rightarrow> OffsetRange result) \<Rightarrow> SequenceDiff \<Rightarrow> SequenceDiff result" where
  "on_both f g d = ebind (f (seq1Range d)) (\<lambda>r1. ebind (g (seq2Range d)) (\<lambda>r2. Inr (MkSequenceDiff r1 r2)))"

definition SequenceDiff_join :: "SequenceDiff \<Rightarrow> SequenceDiff \<Rightarrow> SequenceDiff result" where
  "SequenceDiff_join d e = on_both (\<lambda>r. OffsetRange_join r (seq1Range e)) (\<lambda>r. OffsetRange_join r (seq2Range e)) d"

definition SequenceDiff_delta :: "SequenceDiff \<Rightarrow> int \<Rightarrow> SequenceDiff result" where
  "SequenceDiff_delta d k = (if k = 0 then Inr d else on_both (\<lambda>r. OffsetRange_delta r k) (\<lambda>r. OffsetRange_delta r k) d)"

definition SequenceDiff_deltaStart :: "SequenceDiff \<Rightarrow> int \<Rightarrow> SequenceDiff result" where
  "SequenceDiff_deltaStart d k = (if k = 0 then Inr d else on_both (\<lambda>r. OffsetRange_deltaStart r k) (\<lambda>r. OffsetRange_deltaStart r k) d)"

definition SequenceDiff_deltaEnd :: "SequenceDiff \<Rightarrow> int \<Rightarrow> SequenceDiff result" where
  "SequenceDiff_deltaEnd d k = (if k = 0 then Inr d else on_both (\<lambda>r. OffsetRange_deltaEnd r k) (\<lambda>r. OffsetRange_deltaEnd r k) d)"

definition SequenceDiff_intersectsOrTouches :: "SequenceDiff \<Rightarrow> SequenceDiff \<Rightarrow> bool" where
  "SequenceDiff_intersectsOrTouches d e \<longleftrightarrow>
     OffsetRange_intersectsOrTouches (seq1Range d) (seq1Range e) \<or> OffsetRange_intersectsOrTouches (seq2Range d) (seq2Range e)"

definition SequenceDiff_intersect :: "SequenceDiff \<Rightarrow> SequenceDiff \<Rightarrow> SequenceDiff option result" where
  "SequenceDiff_intersect d e =
     ebind (OffsetRange_intersect (seq1Range d) (seq1Range e)) (\<lambda>i1.
     ebind (OffsetRange_intersect (seq2Range d) (seq2Range e)) (\<lambda>i2.
     Inr (case (i1, i2) of (Some r1, Some r2) \<Rightarrow> Some (MkSequenceDiff r1 r2) | _ \<Rightarrow> None)))"

definition SequenceDiff_getStarts :: "SequenceDiff \<Rightarrow> OffsetPair" where
  "SequenceDiff_getStarts d = MkOffsetPair (or_start (seq1Range d)) (or_start (seq2Range d))"

definition SequenceDiff_getEndExclusives :: "SequenceDiff \<Rightarrow> OffsetPair" where
  "SequenceDiff_getEndExclusives d = MkOffsetPair (or_endExclusive (seq1Range d)) (or_endExclusive (seq2Range d))"

text \<open>\<open>forEachAdjacent(sequenceDiffs, (a, b) => \<dots>)\<close> from the pair that starts with \<open>a\<close>.\<close>

fun invert_loop :: "int \<Rightarrow> SequenceDiff option \<Rightarrow> SequenceDiff list \<Rightarrow> SequenceDiff list result" where
  "invert_loop doc1Length a ds =
     ebind (SequenceDiff_fromOffsetPairs
        (case a of None \<Rightarrow> OffsetPair_zero | Some a \<Rightarrow> SequenceDiff_getEndExclusives a)
        (case ds of b # _ \<Rightarrow> SequenceDiff_getStarts b
         | [] \<Rightarrow> MkOffsetPair doc1Length
             ((case a of None \<Rightarrow> 0 | Some a \<Rightarrow> or_endExclusive (seq2Range a) - or_endExclusive (seq1Range a)) + doc1Length))) (\<lambda>r.
      case ds of [] \<Rightarrow> Inr [r] | b # ds \<Rightarrow> emap ((#) r) (invert_loop doc1Length (Some b) ds))"

declare invert_loop.simps [simp del]

definition SequenceDiff_invert :: "SequenceDiff list \<Rightarrow> int \<Rightarrow> SequenceDiff list result" where
  "SequenceDiff_invert ds doc1Length = invert_loop doc1Length None ds"

datatype DiffAlgorithmResult = MkDiffAlgorithmResult (dar_diffs: "SequenceDiff list") (hitTimeout: bool)

definition DiffAlgorithmResult_whole :: "bool \<Rightarrow> ISequence \<Rightarrow> ISequence \<Rightarrow> DiffAlgorithmResult result" where
  "DiffAlgorithmResult_whole hit s1 s2 =
     ebind (OffsetRange_ofLength (seq_length s1)) (\<lambda>r1.
     ebind (OffsetRange_ofLength (seq_length s2)) (\<lambda>r2. Inr (MkDiffAlgorithmResult [MkSequenceDiff r1 r2] hit)))"

definition DiffAlgorithmResult_trivial :: "ISequence \<Rightarrow> ISequence \<Rightarrow> DiffAlgorithmResult result" where
  "DiffAlgorithmResult_trivial = DiffAlgorithmResult_whole False"

definition DiffAlgorithmResult_trivialTimedOut :: "ISequence \<Rightarrow> ISequence \<Rightarrow> DiffAlgorithmResult result" where
  "DiffAlgorithmResult_trivialTimedOut = DiffAlgorithmResult_whole True"

section \<open>The dynamic program\<close>

record 'a Array2D =
  a2_array :: "'a option list"
  a2_width :: int
  a2_height :: int

definition Array2D_new :: "int \<Rightarrow> int \<Rightarrow> 'a Array2D" where
  "Array2D_new w h = \<lparr>a2_array = replicate (nat (w * h)) None, a2_width = w, a2_height = h\<rparr>"

definition Array2D_get :: "'a Array2D \<Rightarrow> int \<Rightarrow> int \<Rightarrow> 'a option" where
  "Array2D_get a x y = array_get (a2_array a) (Some (x + y * a2_width a))"

definition Array2D_set :: "'a Array2D \<Rightarrow> int \<Rightarrow> int \<Rightarrow> 'a option \<Rightarrow> 'a Array2D" where
  "Array2D_set a x y v = a\<lparr>a2_array := array_put (a2_array a) (Some (x + y * a2_width a)) v\<rparr>"

fun num_max :: "'s::linorder option \<Rightarrow> 's option \<Rightarrow> 's option" where
  "num_max (Some a) (Some b) = Some (max a b)"
| "num_max _ _ = None"

fun num_plus :: "'s::plus option \<Rightarrow> 's option \<Rightarrow> 's option" where
  "num_plus (Some a) (Some b) = Some (a + b)"
| "num_plus _ _ = None"

text \<open>\<open>a === b\<close> on numbers: \<open>NaN\<close> is not equal to itself.\<close>

definition num_same :: "'s option \<Rightarrow> 's option \<Rightarrow> bool" where
  "num_same a b \<longleftrightarrow> a = b \<and> a \<noteq> None"

record 's dp_tables =
  lcsLengths :: "'s Array2D"
  directions :: "int Array2D"
  dp_lengths :: "'s Array2D"

definition extendedSeqScore ::
    "ISequence \<Rightarrow> ISequence \<Rightarrow> (int \<Rightarrow> int \<Rightarrow> 's) option \<Rightarrow> 's dp_tables \<Rightarrow> int \<Rightarrow> int \<Rightarrow> 's::{linorder,zero,one,plus,uminus} option" where
  "extendedSeqScore sequence1 sequence2 equalityScore t s1 s2 =
     (if getElement sequence1 s1 = getElement sequence2 s2
      then let e = (if s1 = 0 \<or> s2 = 0 then Some 0 else Array2D_get (lcsLengths t) (s1 - 1) (s2 - 1));
               e = (if s1 > 0 \<and> s2 > 0 \<and> Array2D_get (directions t) (s1 - 1) (s2 - 1) = Some 3
                    then num_plus e (Array2D_get (dp_lengths t) (s1 - 1) (s2 - 1)) else e)
           in num_plus e (Some (case equalityScore of Some f \<Rightarrow> f s1 s2 | None \<Rightarrow> 1))
      else Some (- 1))"

definition fill_cell ::
    "ISequence \<Rightarrow> ISequence \<Rightarrow> (int \<Rightarrow> int \<Rightarrow> 's) option \<Rightarrow> int \<Rightarrow> int \<Rightarrow> 's dp_tables \<Rightarrow> 's::{linorder,zero,one,plus,uminus} dp_tables" where
  "fill_cell sequence1 sequence2 equalityScore s1 s2 t =
     (let horizontalLen = (if s1 = 0 then Some 0 else Array2D_get (lcsLengths t) (s1 - 1) s2);
          verticalLen = (if s2 = 0 then Some 0 else Array2D_get (lcsLengths t) s1 (s2 - 1));
          ext = extendedSeqScore sequence1 sequence2 equalityScore t s1 s2;
          newValue = num_max (num_max horizontalLen verticalLen) ext;
          t = (if num_same newValue ext
               then let prevLen = (if s1 > 0 \<and> s2 > 0 then Array2D_get (dp_lengths t) (s1 - 1) (s2 - 1) else Some 0)
                    in t\<lparr>dp_lengths := Array2D_set (dp_lengths t) s1 s2 (num_plus prevLen (Some 1)),
                         directions := Array2D_set (directions t) s1 s2 (Some 3)\<rparr>
               else if num_same newValue horizontalLen
               then t\<lparr>dp_lengths := Array2D_set (dp_lengths t) s1 s2 (Some 0), directions := Array2D_set (directions t) s1 s2 (Some 1)\<rparr>
               else if num_same newValue verticalLen
               then t\<lparr>dp_lengths := Array2D_set (dp_lengths t) s1 s2 (Some 0), directions := Array2D_set (directions t) s1 s2 (Some 2)\<rparr>
               else t)
      in t\<lparr>lcsLengths := Array2D_set (lcsLengths t) s1 s2 newValue\<rparr>)"

text \<open>The two nested loops; \<^const>\<open>None\<close> when the timeout is reached.\<close>

fun fill_cells ::
    "ISequence \<Rightarrow> ISequence \<Rightarrow> ITimeout \<Rightarrow> (int \<Rightarrow> int \<Rightarrow> 's) option \<Rightarrow> (int \<times> int) list \<Rightarrow> nat \<Rightarrow> 's dp_tables \<Rightarrow>
     's::{linorder,zero,one,plus,uminus} dp_tables option" where
  "fill_cells sequence1 sequence2 timeout equalityScore [] k t = Some t"
| "fill_cells sequence1 sequence2 timeout equalityScore ((s1, s2) # cells) k t =
     (if \<not> timeout k then None
      else fill_cells sequence1 sequence2 timeout equalityScore cells (Suc k) (fill_cell sequence1 sequence2 equalityScore s1 s2 t))"

text \<open>
  The backtracking: the array \<open>result\<close> and the last pair of aligned positions. The model puts a
  difference in front of the list where the source pushes it, and the list needs no reversal.
\<close>

definition reportDecreasingAligningPositions :: "int \<Rightarrow> int \<Rightarrow> SequenceDiff list \<times> int \<times> int \<Rightarrow> (SequenceDiff list \<times> int \<times> int) result" where
  "reportDecreasingAligningPositions s1 s2 st =
     (case st of (ds, last1, last2) \<Rightarrow>
      emap (\<lambda>ds. (ds, s1, s2))
       (if s1 + 1 \<noteq> last1 \<or> s2 + 1 \<noteq> last2
        then emap (\<lambda>d. d # ds) (SequenceDiff_fromOffsetPairs (MkOffsetPair (s1 + 1) (s2 + 1)) (MkOffsetPair last1 last2))
        else Inr ds))"

function backtrack_loop :: "int Array2D \<Rightarrow> int \<Rightarrow> int \<Rightarrow> SequenceDiff list \<times> int \<times> int \<Rightarrow> (SequenceDiff list \<times> int \<times> int) result" where
  "backtrack_loop dirs s1 s2 st =
     (if s1 \<ge> 0 \<and> s2 \<ge> 0
      then if Array2D_get dirs s1 s2 = Some 3
           then ebind (reportDecreasingAligningPositions s1 s2 st) (backtrack_loop dirs (s1 - 1) (s2 - 1))
           else if Array2D_get dirs s1 s2 = Some 1 then backtrack_loop dirs (s1 - 1) s2 st
           else backtrack_loop dirs s1 (s2 - 1) st
      else Inr st)"
  by pat_completeness auto
termination
  by (relation "measure (\<lambda>(dirs, s1, s2, st). nat (s1 + 1) + nat (s2 + 1))") auto

declare backtrack_loop.simps [simp del]

definition DynamicProgrammingDiffing_compute ::
    "ISequence \<Rightarrow> ISequence \<Rightarrow> ITimeout \<Rightarrow> (int \<Rightarrow> int \<Rightarrow> 's::{linorder,zero,one,plus,uminus}) option \<Rightarrow> DiffAlgorithmResult result" where
  "DynamicProgrammingDiffing_compute sequence1 sequence2 timeout equalityScore =
     (let n = seq_length sequence1; m = seq_length sequence2
      in if n = 0 \<or> m = 0 then DiffAlgorithmResult_trivial sequence1 sequence2
         else case fill_cells sequence1 sequence2 timeout equalityScore (List.product (int_upto 0 n) (int_upto 0 m)) 0
                     \<lparr>lcsLengths = Array2D_new n m, directions = Array2D_new n m, dp_lengths = Array2D_new n m\<rparr> of
           None \<Rightarrow> DiffAlgorithmResult_trivialTimedOut sequence1 sequence2
         | Some t \<Rightarrow>
             ebind (backtrack_loop (directions t) (n - 1) (m - 1) ([], n, m)) (\<lambda>st.
             ebind (reportDecreasingAligningPositions (- 1) (- 1) st) (\<lambda>(ds, _).
             Inr (MkDiffAlgorithmResult ds False))))"

section \<open>What a list of differences means\<close>

abbreviation from1 :: "SequenceDiff \<Rightarrow> int" where "from1 d \<equiv> or_start (seq1Range d)"

abbreviation to1 :: "SequenceDiff \<Rightarrow> int" where "to1 d \<equiv> or_endExclusive (seq1Range d)"

abbreviation from2 :: "SequenceDiff \<Rightarrow> int" where "from2 d \<equiv> or_start (seq2Range d)"

abbreviation to2 :: "SequenceDiff \<Rightarrow> int" where "to2 d \<equiv> or_endExclusive (seq2Range d)"

text \<open>The \<open>k\<close> elements from \<open>a\<close> in the first and from \<open>b\<close> in the second sequence are the same.\<close>

definition equal_part :: "ISequence \<Rightarrow> ISequence \<Rightarrow> int \<Rightarrow> int \<Rightarrow> int \<Rightarrow> bool" where
  "equal_part S T a b k \<longleftrightarrow> 0 \<le> k \<and> (\<forall>i. 0 \<le> i \<and> i < k \<longrightarrow> getElement S (a + i) = getElement T (b + i))"

text \<open>From the offsets \<open>a\<close> and \<open>b\<close> on: equal parts and differences alternate up to the ends of both sequences.\<close>

fun diffs_from :: "ISequence \<Rightarrow> ISequence \<Rightarrow> int \<Rightarrow> int \<Rightarrow> SequenceDiff list \<Rightarrow> bool" where
  "diffs_from S T a b [] \<longleftrightarrow> equal_part S T a b (seq_length S - a) \<and> seq_length T - b = seq_length S - a"
| "diffs_from S T a b (d # ds) \<longleftrightarrow>
     equal_part S T a b (from1 d - a) \<and> from2 d - b = from1 d - a \<and> from1 d \<le> to1 d \<and> from2 d \<le> to2 d \<and>
     diffs_from S T (to1 d) (to2 d) ds"

definition diffs_ok :: "ISequence \<Rightarrow> ISequence \<Rightarrow> SequenceDiff list \<Rightarrow> bool" where
  "diffs_ok S T ds \<longleftrightarrow> diffs_from S T 0 0 ds"

text \<open>Between two differences there is at least one element.\<close>

abbreviation separated :: "SequenceDiff list \<Rightarrow> bool" where
  "separated \<equiv> successively (\<lambda>d e. to1 d < from1 e)"

definition seq_elements :: "ISequence \<Rightarrow> int option list" where
  "seq_elements S = map (getElement S) (int_upto 0 (seq_length S))"

text \<open>The first sequence with every difference replaced by what the second one has there.\<close>

fun patched :: "'a list \<Rightarrow> 'a list \<Rightarrow> int \<Rightarrow> SequenceDiff list \<Rightarrow> 'a list" where
  "patched xs ys a [] = seg a (int (length xs)) xs"
| "patched xs ys a (d # ds) = seg a (from1 d) xs @ seg (from2 d) (to2 d) ys @ patched xs ys (to1 d) ds"

lemma length_seq_elements [simp]: "length (seq_elements S) = nat (seq_length S)"
  by (simp add: seq_elements_def)

lemma diffs_from_bounds:
  "diffs_from S T a b ds \<Longrightarrow> a \<le> seq_length S \<and> b \<le> seq_length T"
  by (induction ds arbitrary: a b) (fastforce simp: equal_part_def)+

text \<open>
  Two lists beside the sequences, in which the entries of equal elements are the same: then the equal parts
  are the same in the lists.
\<close>

definition beside :: "ISequence \<Rightarrow> ISequence \<Rightarrow> 'a list \<Rightarrow> 'a list \<Rightarrow> bool" where
  "beside S T xs ys \<longleftrightarrow> int (length xs) = seq_length S \<and> int (length ys) = seq_length T \<and>
     (\<forall>i < length xs. \<forall>j < length ys. getElement S (int i) = getElement T (int j) \<longrightarrow> xs ! i = ys ! j)"

lemma beside_elements: "0 \<le> seq_length S \<Longrightarrow> 0 \<le> seq_length T \<Longrightarrow> beside S T (seq_elements S) (seq_elements T)"
  by (simp add: beside_def seq_elements_def)

lemma equal_part_segs:
  assumes xy: "beside S T xs ys" and eq: "equal_part S T a b k" and "0 \<le> a" "0 \<le> b" "a + k \<le> seq_length S" "b + k \<le> seq_length T"
  shows "seg a (a + k) xs = seg b (b + k) ys"
proof (rule nth_equalityI)
  have k: "0 \<le> k" using eq by (simp add: equal_part_def)
  have len: "int (length (seg a (a + k) xs)) = k" "int (length (seg b (b + k) ys)) = k"
    using assms k by (simp_all add: length_seg beside_def)
  then show "length (seg a (a + k) xs) = length (seg b (b + k) ys)" by simp
  fix i assume "i < length (seg a (a + k) xs)"
  then have i: "int i < k" using len by simp
  then have "getElement S (a + int i) = getElement T (b + int i)" using eq by (simp add: equal_part_def)
  then have "xs ! nat (a + int i) = ys ! nat (b + int i)"
    using xy i assms(3-6) unfolding beside_def by (elim conjE allE [of _ "nat (a + int i)"] allE [of _ "nat (b + int i)"]) auto
  moreover have "nat a + i < length xs" "nat b + i < length ys" using xy i assms(3-6) by (auto simp: beside_def)
  ultimately show "seg a (a + k) xs ! i = seg b (b + k) ys ! i"
    using i assms(3,4) by (simp add: seg_def nat_add_distrib)
qed

lemma patched_from:
  assumes xy: "beside S T xs ys" and "diffs_from S T a b ds" "0 \<le> a" "0 \<le> b"
  shows "patched xs ys a ds = seg b (seq_length T) ys"
  using assms(2-)
proof (induction ds arbitrary: a b)
  case Nil
  then have k: "equal_part S T a b (seq_length S - a)" "seq_length T = b + (seq_length S - a)" "a \<le> seq_length S" by (auto simp: equal_part_def)
  have "seg a (a + (seq_length S - a)) xs = seg b (b + (seq_length S - a)) ys" using k Nil.prems by (intro equal_part_segs [OF xy]) auto
  with k xy show ?case by (simp add: beside_def)
next
  case (Cons d ds)
  let ?k = "from1 d - a"
  have b: "to1 d \<le> seq_length S" "to2 d \<le> seq_length T" using diffs_from_bounds Cons.prems(1) by auto
  have ep: "equal_part S T a b ?k" and f: "from2 d = b + ?k" "0 \<le> ?k" "from1 d \<le> to1 d" "from2 d \<le> to2 d"
    using Cons.prems(1) by (auto simp: equal_part_def)
  have "seg a (a + ?k) xs = seg b (b + ?k) ys" using ep f b Cons.prems(2,3) by (intro equal_part_segs [OF xy]) auto
  then have "seg a (from1 d) xs = seg b (from2 d) ys" using f by simp
  moreover have "patched xs ys (to1 d) ds = seg (to2 d) (seq_length T) ys" using Cons f by simp
  moreover have "seg b (from2 d) ys @ seg (from2 d) (to2 d) ys @ seg (to2 d) (seq_length T) ys = seg b (seq_length T) ys"
    using f b Cons.prems(3) by (subst seg_append_seg [of "from2 d" "to2 d"]; simp add: seg_append_seg)
  ultimately show ?case by simp
qed

lemma diffs_ok_patched_lists: "beside S T xs ys \<Longrightarrow> diffs_ok S T ds \<Longrightarrow> patched xs ys 0 ds = ys"
  using patched_from [of S T xs ys 0 0 ds] seg_all [of ys] by (simp add: diffs_ok_def beside_def)

lemma diffs_ok_patched:
  assumes "diffs_ok S T ds"
  shows "patched (seq_elements S) (seq_elements T) 0 ds = seq_elements T"
  using diffs_ok_patched_lists [OF beside_elements assms] diffs_from_bounds [OF assms [unfolded diffs_ok_def]] by simp

subsection \<open>Moving the start of a list of differences\<close>

lemma equal_part_0 [simp]: "equal_part S T a b 0"
  by (auto simp: equal_part_def)

lemma equal_part_split:
  assumes "0 \<le> j" "0 \<le> k"
  shows "equal_part S T a b (j + k) \<longleftrightarrow> equal_part S T a b j \<and> equal_part S T (a + j) (b + j) k"
proof -
  have "getElement S (a + i) = getElement T (b + i)"
    if "equal_part S T a b j" "equal_part S T (a + j) (b + j) k" "0 \<le> i" "i < j + k" for i
  proof (cases "i < j")
    case False
    with that(2-4) show ?thesis unfolding equal_part_def by (elim conjE allE [of _ "i - j"]) (simp add: algebra_simps)
  qed (use that in \<open>simp add: equal_part_def\<close>)
  moreover have "equal_part S T (a + j) (b + j) k" if "equal_part S T a b (j + k)"
    unfolding equal_part_def
  proof (intro conjI allI impI)
    show "getElement S (a + j + i) = getElement T (b + j + i)" if "0 \<le> i \<and> i < k" for i
      using \<open>equal_part S T a b (j + k)\<close> that \<open>0 \<le> j\<close> unfolding equal_part_def by (elim conjE allE [of _ "j + i"]) (simp add: algebra_simps)
  qed (rule assms)
  ultimately show ?thesis using assms by (auto simp: equal_part_def)
qed

text \<open>An equal part in front of the rest, and its removal.\<close>

lemma diffs_from_extend:
  assumes "equal_part S T a b k" "diffs_from S T (a + k) (b + k) ds"
  shows "diffs_from S T a b ds"
proof -
  have k: "0 \<le> k" using assms(1) by (simp add: equal_part_def)
  have "equal_part S T a b (c - a)" if "equal_part S T (a + k) (b + k) (c - (a + k))" for c
  proof -
    have "0 \<le> c - (a + k)" using that by (simp add: equal_part_def)
    from equal_part_split [OF k this, of S T a b] that assms(1) show ?thesis by simp
  qed
  with assms(2) k show ?thesis by (cases ds) auto
qed

lemma diffs_from_skip:
  assumes "diffs_from S T a b ds" "0 \<le> k" "case ds of [] \<Rightarrow> a + k \<le> seq_length S | d # _ \<Rightarrow> a + k \<le> from1 d"
  shows "diffs_from S T (a + k) (b + k) ds"
proof -
  have "equal_part S T (a + k) (b + k) (c - (a + k))" if "equal_part S T a b (c - a)" "a + k \<le> c" for c
  proof -
    have "0 \<le> c - (a + k)" using that by simp
    from equal_part_split [OF assms(2) this, of S T a b] that show ?thesis by simp
  qed
  with assms show ?thesis by (cases ds) auto
qed

section \<open>Correctness of the dynamic program\<close>

text \<open>The law of a table: what is read after a write, and that a new table is empty.\<close>

locale table =
  fixes get :: "'t \<Rightarrow> int \<Rightarrow> int \<Rightarrow> 'v option"
    and put :: "'t \<Rightarrow> int \<Rightarrow> int \<Rightarrow> 'v option \<Rightarrow> 't"
    and new :: "int \<Rightarrow> int \<Rightarrow> 't"
    and shape :: "int \<Rightarrow> int \<Rightarrow> 't \<Rightarrow> bool"
  assumes new_shape: "0 \<le> n \<Longrightarrow> 0 \<le> m \<Longrightarrow> shape n m (new n m)"
    and get_new: "0 \<le> n \<Longrightarrow> 0 \<le> m \<Longrightarrow> get (new n m) i j = None"
    and put_shape: "shape n m t \<Longrightarrow> 0 \<le> x \<Longrightarrow> x < n \<Longrightarrow> 0 \<le> y \<Longrightarrow> y < m \<Longrightarrow> shape n m (put t x y v)"
    and get_put: "shape n m t \<Longrightarrow> 0 \<le> x \<Longrightarrow> x < n \<Longrightarrow> 0 \<le> y \<Longrightarrow> y < m \<Longrightarrow> 0 \<le> i \<Longrightarrow> i < n \<Longrightarrow> 0 \<le> j \<Longrightarrow> j < m \<Longrightarrow>
      get (put t x y v) i j = (if i = x \<and> j = y then v else get t i j)"
begin

definition every :: "int \<Rightarrow> int \<Rightarrow> (int \<Rightarrow> int \<Rightarrow> 'v \<Rightarrow> bool) \<Rightarrow> 't \<Rightarrow> bool" where
  "every n m P t \<longleftrightarrow> shape n m t \<and> (\<forall>i j v. 0 \<le> i \<longrightarrow> i < n \<longrightarrow> 0 \<le> j \<longrightarrow> j < m \<longrightarrow> get t i j = Some v \<longrightarrow> P i j v)"

lemma every_new: "0 \<le> n \<Longrightarrow> 0 \<le> m \<Longrightarrow> every n m P (new n m)"
  by (simp add: every_def new_shape get_new)

lemma every_get: "every n m P t \<Longrightarrow> get t i j = Some v \<Longrightarrow> 0 \<le> i \<Longrightarrow> i < n \<Longrightarrow> 0 \<le> j \<Longrightarrow> j < m \<Longrightarrow> P i j v"
  by (simp add: every_def)

lemma every_put:
  assumes "every n m P t" "0 \<le> x" "x < n" "0 \<le> y" "y < m" "\<And>w. v = Some w \<Longrightarrow> P x y w"
  shows "every n m P (put t x y v)"
  using assms by (auto simp: every_def put_shape get_put split: if_splits)

end

definition array2D_shape :: "int \<Rightarrow> int \<Rightarrow> 'a Array2D \<Rightarrow> bool" where
  "array2D_shape n m t \<longleftrightarrow> 0 \<le> n \<and> a2_width t = n \<and> length (a2_array t) = nat (n * m)"

lemma cell_index:
  fixes n m :: int
  assumes "0 \<le> x" "x < n" "0 \<le> y" "y < m"
  shows "0 \<le> x + y * n" "x + y * n < n * m"
proof -
  show "0 \<le> x + y * n" using assms by simp
  have "x + y * n < n + y * n" using assms by simp
  also have "\<dots> = (y + 1) * n" by (simp add: algebra_simps)
  also have "\<dots> \<le> m * n" using assms by (intro mult_right_mono) auto
  finally show "x + y * n < n * m" by (simp add: algebra_simps)
qed

lemma cell_index_inj:
  fixes n :: int
  assumes "0 \<le> x" "x < n" "0 \<le> i" "i < n" "x + y * n = i + j * n"
  shows "i = x \<and> j = y"
proof -
  have "(x + y * n) mod n = x" "(i + j * n) mod n = i" using assms(1-4) by simp_all
  then have "i = x" using assms(5) by simp
  then show ?thesis using assms by simp
qed

lemma array_put_inside: "0 \<le> i \<Longrightarrow> i < int (length xs) \<Longrightarrow> array_put xs (Some i) v = xs[nat i := v]"
  by (simp add: array_put_def Suc_le_eq nat_less_iff)

interpretation array2D: table Array2D_get Array2D_set Array2D_new array2D_shape
proof
  fix n m x y i j :: int and t :: "'a Array2D" and v
  assume a: "array2D_shape n m t" "0 \<le> x" "x < n" "0 \<le> y" "y < m"
  have len: "int (length (a2_array t)) = n * m" using a cell_index [of x n y m] by (simp add: array2D_shape_def)
  then have ix: "0 \<le> x + y * n" "x + y * n < int (length (a2_array t))" using cell_index [of x n y m] a by simp_all
  moreover have w: "a2_width t = n" using a(1) by (simp add: array2D_shape_def)
  ultimately have set: "Array2D_set t x y v = t\<lparr>a2_array := (a2_array t)[nat (x + y * n) := v]\<rparr>"
    by (simp add: Array2D_set_def array_put_inside)
  then show "array2D_shape n m (Array2D_set t x y v)" using a(1) by (simp add: array2D_shape_def)
  assume b: "0 \<le> i" "i < n" "0 \<le> j" "j < m"
  have iy: "0 \<le> i + j * n" "i + j * n < int (length (a2_array t))" using cell_index [of i n j m] b len by simp_all
  have "nat (x + y * n) = nat (i + j * n) \<longleftrightarrow> i = x \<and> j = y" using cell_index_inj [of x n i y j] a b ix iy by (auto simp: eq_nat_nat_iff)
  then show "Array2D_get (Array2D_set t x y v) i j = (if i = x \<and> j = y then v else Array2D_get t i j)"
    using ix iy by (simp add: set Array2D_get_def array_get_def js_get_def nth_list_update w nat_less_iff)
qed (auto simp: array2D_shape_def Array2D_new_def Array2D_get_def array_get_def js_get_def)

text \<open>
  The tables while they are filled: a diagonal direction stands only where the elements are the same,
  because a length that is stored is never negative and so never the score -1 of different elements.
\<close>

definition tables_ok :: "ISequence \<Rightarrow> ISequence \<Rightarrow> 's::{linorder,zero,one,plus,uminus} dp_tables \<Rightarrow> bool" where
  "tables_ok S T t \<longleftrightarrow>
     array2D.every (seq_length S) (seq_length T) (\<lambda>i j v. 0 \<le> v) (lcsLengths t) \<and>
     array2D.every (seq_length S) (seq_length T) (\<lambda>i j v. v = 3 \<longrightarrow> getElement S i = getElement T j) (directions t)"

lemma num_max_Some: "num_max a b = Some v \<longleftrightarrow> (\<exists>x y. a = Some x \<and> b = Some y \<and> v = max x y)"
  by (cases a; cases b) auto

lemma fill_cell_ok:
  fixes t :: "'s::{linorder,zero,one,plus,uminus} dp_tables"
  assumes t: "tables_ok S T t" and c: "0 \<le> s1" "s1 < seq_length S" "0 \<le> s2" "s2 < seq_length T" and neg: "- 1 < (0::'s)"
  shows "tables_ok S T (fill_cell S T score s1 s2 t)"
proof -
  define h where "h = (if s1 = 0 then Some 0 else Array2D_get (lcsLengths t) (s1 - 1) s2)"
  define v where "v = (if s2 = 0 then Some 0 else Array2D_get (lcsLengths t) s1 (s2 - 1))"
  define e where "e = extendedSeqScore S T score t s1 s2"
  define w where "w = num_max (num_max h v) e"
  have "0 \<le> x" if "h = Some x" for x
    using that t c by (cases "s1 = 0") (auto simp: h_def tables_ok_def dest: array2D.every_get)
  then have w: "0 \<le> x" if "w = Some x" for x using that by (fastforce simp: w_def num_max_Some le_max_iff_disj)
  have diag: "getElement S s1 = getElement T s2" if "num_same w e"
  proof (rule ccontr)
    assume "getElement S s1 \<noteq> getElement T s2"
    then have "w = Some (- 1)" using that by (simp add: e_def extendedSeqScore_def num_same_def)
    with w neg show False by fastforce
  qed
  let ?t = "fill_cell S T score s1 s2 t"
  have "lcsLengths ?t = Array2D_set (lcsLengths t) s1 s2 w"
    by (simp add: fill_cell_def Let_def h_def v_def e_def w_def)
  moreover have "directions ?t \<in> {directions t, Array2D_set (directions t) s1 s2 (Some 1), Array2D_set (directions t) s1 s2 (Some 2)} \<or>
      directions ?t = Array2D_set (directions t) s1 s2 (Some 3) \<and> num_same w e"
    by (simp add: fill_cell_def Let_def h_def v_def e_def w_def)
  ultimately show ?thesis using t c w diag unfolding tables_ok_def by (auto intro!: array2D.every_put)
qed

lemma fill_cells_ok:
  fixes t :: "'s::{linorder,zero,one,plus,uminus} dp_tables"
  assumes "tables_ok S T t" "set cells \<subseteq> {0..<seq_length S} \<times> {0..<seq_length T}" "- 1 < (0::'s)"
    and "fill_cells S T timeout score cells k t = Some t'"
  shows "tables_ok S T t'"
  using assms
proof (induction cells arbitrary: k t)
  case (Cons c cells)
  then show ?case by (cases c) (auto split: if_splits intro: fill_cell_ok)
qed simp

lemma fill_cells_None: "fill_cells S T timeout score cells k t = None \<longleftrightarrow> (\<exists>i<length cells. \<not> timeout (k + i))"
proof (induction cells arbitrary: k t)
  case (Cons c cells)
  have "(\<exists>i<Suc (length cells). \<not> timeout (k + i)) \<longleftrightarrow> \<not> timeout k \<or> (\<exists>i<length cells. \<not> timeout (Suc k + i))"
    by (subst Ex_less_Suc2) simp
  with Cons show ?case by (cases c) simp
qed simp

text \<open>While backtracking, the differences found lead from the last aligned pair to the ends.\<close>

definition aligned_from :: "ISequence \<Rightarrow> ISequence \<Rightarrow> SequenceDiff list \<times> int \<times> int \<Rightarrow> bool" where
  "aligned_from S T st \<longleftrightarrow> (case st of (ds, a, b) \<Rightarrow>
     diffs_from S T a b ds \<and> separated ds \<and> (ds \<noteq> [] \<longrightarrow> a < from1 (hd ds)))"

lemma report_aligned:
  assumes st: "aligned_from S T (ds, a, b)" and "s1 < a" "s2 < b" and eq: "0 \<le> s1 \<Longrightarrow> getElement S s1 = getElement T s2"
  obtains ds' where "reportDecreasingAligningPositions s1 s2 (ds, a, b) = Inr (ds', s1, s2)" "separated ds'"
    "diffs_from S T (s1 + 1) (s2 + 1) ds'" "0 \<le> s1 \<Longrightarrow> aligned_from S T (ds', s1, s2)"
proof -
  define ds' where "ds' = (if s1 + 1 \<noteq> a \<or> s2 + 1 \<noteq> b then MkSequenceDiff (MkOffsetRange (s1 + 1) a) (MkOffsetRange (s2 + 1) b) # ds else ds)"
  have d: "diffs_from S T (s1 + 1) (s2 + 1) ds'" using st assms(2,3) by (auto simp: ds'_def aligned_from_def)
  have "separated ds'" using st by (cases ds) (auto simp: ds'_def aligned_from_def)
  moreover have "aligned_from S T (ds', s1, s2)" if "0 \<le> s1"
  proof -
    have "equal_part S T s1 s2 1" using eq [OF that] by (auto simp: equal_part_def dest: order.antisym)
    from diffs_from_extend [OF this d] \<open>separated ds'\<close> st assms(2) show ?thesis by (auto simp: aligned_from_def ds'_def)
  qed
  moreover have "reportDecreasingAligningPositions s1 s2 (ds, a, b) = Inr (ds', s1, s2)"
    using assms(2,3) by (simp add: reportDecreasingAligningPositions_def SequenceDiff_fromOffsetPairs_def OffsetRange_new_def ds'_def)
  ultimately show thesis using d that by blast
qed

lemma backtrack_aligned:
  assumes "aligned_from S T st" "s1 < fst (snd st)" "s2 < snd (snd st)"
    and "\<And>i j. 0 \<le> i \<Longrightarrow> i \<le> s1 \<Longrightarrow> 0 \<le> j \<Longrightarrow> j \<le> s2 \<Longrightarrow> Array2D_get dirs i j = Some 3 \<Longrightarrow> getElement S i = getElement T j"
    and "- 1 \<le> s1" "- 1 \<le> s2"
  shows "\<exists>st'. backtrack_loop dirs s1 s2 st = Inr st' \<and> aligned_from S T st' \<and> - 1 < fst (snd st') \<and> - 1 < snd (snd st')"
  using assms
proof (induction dirs s1 s2 st rule: backtrack_loop.induct)
  case (1 dirs s1 s2 st)
  show ?case
  proof (cases "s1 \<ge> 0 \<and> s2 \<ge> 0")
    case True
    show ?thesis
    proof (cases "Array2D_get dirs s1 s2 = Some 3")
      case diag: True
      obtain ds a b where st: "st = (ds, a, b)" by (cases st)
      have "aligned_from S T (ds, a, b)" "s1 < a" "s2 < b" "getElement S s1 = getElement T s2" using 1(4-7) True diag by (auto simp: st)
      then obtain ds' where r: "reportDecreasingAligningPositions s1 s2 st = Inr (ds', s1, s2)" "aligned_from S T (ds', s1, s2)"
        using True by (metis report_aligned st)
      have "\<exists>st'. backtrack_loop dirs (s1 - 1) (s2 - 1) (ds', s1, s2) = Inr st' \<and> aligned_from S T st' \<and> - 1 < fst (snd st') \<and> - 1 < snd (snd st')"
        using True diag r 1(7) by (intro 1(1)) auto
      with True diag r show ?thesis by (subst backtrack_loop.simps) simp
    next
      case False
      with True 1 show ?thesis by (subst backtrack_loop.simps) auto
    qed
  next
    case False
    then have "backtrack_loop dirs s1 s2 st = Inr st" by (subst backtrack_loop.simps) auto
    then show ?thesis using 1(4-6,8,9) by auto
  qed
qed

text \<open>One difference that spans both sequences is always right.\<close>

lemma whole_ok:
  assumes "0 \<le> seq_length S" "0 \<le> seq_length T"
  shows "\<exists>ds. DiffAlgorithmResult_whole hit S T = Inr (MkDiffAlgorithmResult ds hit) \<and> diffs_ok S T ds \<and> separated ds"
  using assms by (simp add: DiffAlgorithmResult_whole_def OffsetRange_ofLength_def OffsetRange_new_def diffs_ok_def)

lemma dynamic_program_ok:
  fixes score :: "(int \<Rightarrow> int \<Rightarrow> 's::{linorder,zero,one,plus,uminus}) option"
  assumes "- 1 < (0::'s)" "0 \<le> seq_length S" "0 \<le> seq_length T"
  shows "\<exists>ds. DynamicProgrammingDiffing_compute S T timeout score =
      Inr (MkDiffAlgorithmResult ds (\<exists>k < nat (seq_length S) * nat (seq_length T). \<not> timeout k)) \<and> diffs_ok S T ds \<and> separated ds"
proof -
  let ?n = "seq_length S" and ?m = "seq_length T"
  let ?cells = "List.product (int_upto 0 ?n) (int_upto 0 ?m)"
  let ?t = "\<lparr>lcsLengths = Array2D_new ?n ?m, directions = Array2D_new ?n ?m, dp_lengths = Array2D_new ?n ?m\<rparr> :: 's dp_tables"
  let ?hit = "\<exists>k < nat ?n * nat ?m. \<not> timeout k"
  have timeout: "fill_cells S T timeout score ?cells 0 ?t = None \<longleftrightarrow> ?hit" by (simp add: fill_cells_None)
  show ?thesis
  proof (cases "?n = 0 \<or> ?m = 0")
    case True
    then have hit: "?hit = False" by auto
    show ?thesis unfolding hit using True whole_ok [of S T False] assms by (simp add: DynamicProgrammingDiffing_compute_def DiffAlgorithmResult_trivial_def)
  next
    case nonempty: False
    show ?thesis
    proof (cases ?hit)
      case True
      then have hit: "?hit = True" by simp
      show ?thesis unfolding hit using True timeout nonempty whole_ok [of S T True] assms
        by (simp add: DynamicProgrammingDiffing_compute_def DiffAlgorithmResult_trivialTimedOut_def)
    next
      case False
      then obtain t where t: "fill_cells S T timeout score ?cells 0 ?t = Some t" using timeout by (cases "fill_cells S T timeout score ?cells 0 ?t") auto
      have "tables_ok S T ?t" using assms by (simp add: tables_ok_def array2D.every_new)
      then have "tables_ok S T t" by (rule fill_cells_ok [OF _ _ assms(1) t]) auto
      then have dirs: "getElement S i = getElement T j" if "0 \<le> i" "i \<le> ?n - 1" "0 \<le> j" "j \<le> ?m - 1" "Array2D_get (directions t) i j = Some 3" for i j
        using that by (auto simp: tables_ok_def dest: array2D.every_get)
      have "aligned_from S T ([], ?n, ?m)" by (simp add: aligned_from_def)
      then have "\<exists>st'. backtrack_loop (directions t) (?n - 1) (?m - 1) ([], ?n, ?m) = Inr st' \<and> aligned_from S T st' \<and> - 1 < fst (snd st') \<and> - 1 < snd (snd st')"
        using assms(2,3) dirs by (intro backtrack_aligned) auto
      then obtain ds a b where
        b: "backtrack_loop (directions t) (?n - 1) (?m - 1) ([], ?n, ?m) = Inr (ds, a, b)" "aligned_from S T (ds, a, b)" "- 1 < a" "- 1 < b"
        by auto
      obtain ds' where "reportDecreasingAligningPositions (- 1) (- 1) (ds, a, b) = Inr (ds', - 1, - 1)" "separated ds'" "diffs_from S T (- 1 + 1) (- 1 + 1) ds'"
        using report_aligned [OF b(2-4)] by auto
      moreover have hit: "?hit = False" using False by simp
      ultimately show ?thesis unfolding hit using nonempty t b by (simp add: DynamicProgrammingDiffing_compute_def Let_def diffs_ok_def)
    qed
  qed
qed

text \<open>
  C11: The dynamic program computes a difference of the two sequences, whatever the scores are and whenever the
  time runs out: it throws nothing, the differences are in order and at least one element apart, everything between
  them is the same in both sequences, and replacing the differences in the first sequence gives the second.
  The result says that the time ran out exactly if one of the checks of the time failed.
\<close>

theorem dynamic_programming_diff_correct:
  fixes score :: "(int \<Rightarrow> int \<Rightarrow> 's::{linorder,zero,one,plus,uminus}) option"
  assumes "- 1 < (0::'s)" "0 \<le> seq_length S" "0 \<le> seq_length T"
  shows "\<exists>ds hit. DynamicProgrammingDiffing_compute S T timeout score = Inr (MkDiffAlgorithmResult ds hit) \<and>
    diffs_ok S T ds \<and> separated ds \<and> patched (seq_elements S) (seq_elements T) 0 ds = seq_elements T \<and>
    (hit \<longleftrightarrow> (\<exists>k < nat (seq_length S) * nat (seq_length T). \<not> timeout k))"
  using dynamic_program_ok [OF assms] diffs_ok_patched by blast

definition list_sequence :: "int list \<Rightarrow> ISequence" where
  "list_sequence xs = \<lparr>getElement = js_get xs, seq_length = int (length xs), getBoundaryScore = None, isStronglyEqual = (\<lambda>i j. js_get xs i = js_get xs j)\<rparr>"

theorem dynamic_programming_diff_correct_witness:
  "\<exists>ds hit. DynamicProgrammingDiffing_compute (list_sequence [1, 2, 3]) (list_sequence [1, 3, 3, 4]) InfiniteTimeout_isValid (Some (\<lambda>i j. i + 2 * j)) =
     Inr (MkDiffAlgorithmResult ds hit) \<and> patched [Some 1, Some 2, Some (3::int)] [Some 1, Some 3, Some 3, Some 4] 0 ds = [Some 1, Some 3, Some 3, Some 4]"
proof -
  have "seq_elements (list_sequence [1, 2, 3]) = [Some 1, Some 2, Some 3]" "seq_elements (list_sequence [1, 3, 3, 4]) = [Some 1, Some 3, Some 3, Some 4]"
    by (simp_all add: seq_elements_def list_sequence_def int_upto_def js_get_def upt_rec)
  then show ?thesis
    using dynamic_programming_diff_correct [of "list_sequence [1, 2, 3]" "list_sequence [1, 3, 3, 4]" InfiniteTimeout_isValid "Some (\<lambda>i j. i + 2 * j)"]
    by (auto simp: list_sequence_def)
qed

text \<open>The inverse of a list of differences is the list of the equal parts.\<close>

lemma invert_from:
  assumes "diffs_from S T a b ds" "case p of None \<Rightarrow> a = 0 \<and> b = 0 | Some d \<Rightarrow> a = to1 d \<and> b = to2 d"
  shows "\<exists>es. invert_loop (seq_length S) p ds = Inr es \<and> length es = Suc (length ds) \<and>
    (\<forall>e \<in> set es. to2 e - from2 e = to1 e - from1 e \<and> equal_part S T (from1 e) (from2 e) (to1 e - from1 e))"
  using assms
proof (induction ds arbitrary: a b p)
  case Nil
  then show ?case
    by (subst invert_loop.simps)
      (auto simp: SequenceDiff_fromOffsetPairs_def OffsetRange_new_def OffsetPair_zero_def SequenceDiff_getEndExclusives_def equal_part_def split: option.splits)
next
  case (Cons d ds)
  from Cons.IH [of "to1 d" "to2 d" "Some d"] Cons.prems(1) obtain es where es: "invert_loop (seq_length S) (Some d) ds = Inr es" "length es = Suc (length ds)"
      "\<forall>e \<in> set es. to2 e - from2 e = to1 e - from1 e \<and> equal_part S T (from1 e) (from2 e) (to1 e - from1 e)" by auto
  let ?e = "MkSequenceDiff (MkOffsetRange a (from1 d)) (MkOffsetRange b (from2 d))"
  have "SequenceDiff_fromOffsetPairs (case p of None \<Rightarrow> OffsetPair_zero | Some a \<Rightarrow> SequenceDiff_getEndExclusives a) (SequenceDiff_getStarts d) = Inr ?e"
    using Cons.prems by (auto simp: SequenceDiff_fromOffsetPairs_def OffsetRange_new_def OffsetPair_zero_def SequenceDiff_getEndExclusives_def
        SequenceDiff_getStarts_def equal_part_def split: option.splits)
  then have "invert_loop (seq_length S) p (d # ds) = Inr (?e # es)" by (subst invert_loop.simps) (simp add: es(1))
  with es Cons.prems(1) show ?case by auto
qed

lemma invert_equal_parts:
  assumes "diffs_ok S T ds"
  shows "\<exists>es. SequenceDiff_invert ds (seq_length S) = Inr es \<and> length es = Suc (length ds) \<and>
    (\<forall>e \<in> set es. to2 e - from2 e = to1 e - from1 e \<and> equal_part S T (from1 e) (from2 e) (to1 e - from1 e))"
  unfolding SequenceDiff_invert_def using assms by (intro invert_from [of S T 0 0]) (auto simp: diffs_ok_def)

lemma assertSorted_from: "diffs_from S T a b ds \<Longrightarrow> (\<forall>d. p = Some d \<longrightarrow> a = to1 d \<and> b = to2 d) \<Longrightarrow> assertSorted_loop p ds = Inr ()"
  by (induction ds arbitrary: a b p) (auto simp: equal_part_def split: option.splits)

lemma diffs_ok_sorted: "diffs_ok S T ds \<Longrightarrow> SequenceDiff_assertSorted ds = Inr ()"
  by (simp add: diffs_ok_def SequenceDiff_assertSorted_def assertSorted_from)

end
