(* ===== verification/DiffShifting.thy ===== *)
theory DiffShifting
  imports DiffAlgorithms
begin

text \<open>
  Model of the improvements of a difference in \<open>heuristicSequenceOptimizations.ts\<close> that work on any two
  sequences: neighbouring differences are moved towards each other and joined, single differences are moved to
  the best boundary, and differences with little between them are joined. Each of them leads from a correct list
  of differences to a correct list of differences.
\<close>

section \<open>Joining differences by shifting them\<close>

datatype shift_step = Merged SequenceDiff | Shifted SequenceDiff

definition one_sided :: "SequenceDiff \<Rightarrow> bool" where
  "one_sided d \<longleftrightarrow> OffsetRange_isEmpty (seq1Range d) \<or> OffsetRange_isEmpty (seq2Range d)"

text \<open>\<open>for (d = lo; d < hi && p(d); d++) { }\<close>: the final value of \<open>d\<close>.\<close>

function count_while :: "(int \<Rightarrow> bool) \<Rightarrow> int \<Rightarrow> int \<Rightarrow> int" where
  "count_while p hi d = (if d < hi \<and> p d then count_while p hi (d + 1) else d)"
  by pat_completeness auto
termination
  by (relation "measure (\<lambda>(p, hi, d). nat (hi - d))") auto

declare count_while.simps [simp del]

definition shift_left_loop :: "ISequence \<Rightarrow> ISequence \<Rightarrow> SequenceDiff \<Rightarrow> int \<Rightarrow> int" where
  "shift_left_loop sequence1 sequence2 cur len =
     count_while (\<lambda>d.
         \<not> (getElement sequence1 (or_start (seq1Range cur) - d) \<noteq> getElement sequence1 (or_endExclusive (seq1Range cur) - d) \<or>
            getElement sequence2 (or_start (seq2Range cur) - d) \<noteq> getElement sequence2 (or_endExclusive (seq2Range cur) - d))) (len + 1) 1"

definition join_left_step :: "ISequence \<Rightarrow> ISequence \<Rightarrow> SequenceDiff \<Rightarrow> SequenceDiff \<Rightarrow> shift_step result" where
  "join_left_step sequence1 sequence2 prevResult cur =
     (if one_sided cur
      then let len = or_start (seq1Range cur) - or_endExclusive (seq1Range prevResult);
               d = shift_left_loop sequence1 sequence2 cur len - 1
           in if d = len
              then emap Merged (SequenceDiff_fromOffsetPairs
                     (MkOffsetPair (or_start (seq1Range prevResult)) (or_start (seq2Range prevResult)))
                     (MkOffsetPair (or_endExclusive (seq1Range cur) - len) (or_endExclusive (seq2Range cur) - len)))
              else emap Shifted (SequenceDiff_delta cur (- d))
      else Inr (Shifted cur))"

text \<open>The first loop: the last element of \<open>result\<close> and the differences that are still to come.\<close>

fun join_left_loop :: "ISequence \<Rightarrow> ISequence \<Rightarrow> SequenceDiff \<Rightarrow> SequenceDiff list \<Rightarrow> SequenceDiff list result" where
  "join_left_loop sequence1 sequence2 prevResult [] = Inr [prevResult]"
| "join_left_loop sequence1 sequence2 prevResult (cur # ds) =
     ebind (join_left_step sequence1 sequence2 prevResult cur) (\<lambda>s. case s of
        Merged d \<Rightarrow> join_left_loop sequence1 sequence2 d ds
      | Shifted d \<Rightarrow> emap ((#) prevResult) (join_left_loop sequence1 sequence2 d ds))"

definition shift_right_loop :: "ISequence \<Rightarrow> ISequence \<Rightarrow> SequenceDiff \<Rightarrow> int \<Rightarrow> int" where
  "shift_right_loop sequence1 sequence2 cur len =
     count_while (\<lambda>d.
         \<not> (\<not> isStronglyEqual sequence1 (or_start (seq1Range cur) + d) (or_endExclusive (seq1Range cur) + d) \<or>
            \<not> isStronglyEqual sequence2 (or_start (seq2Range cur) + d) (or_endExclusive (seq2Range cur) + d))) len 0"

definition join_right_step :: "ISequence \<Rightarrow> ISequence \<Rightarrow> SequenceDiff \<Rightarrow> SequenceDiff \<Rightarrow> shift_step result" where
  "join_right_step sequence1 sequence2 cur nextResult =
     (if one_sided cur
      then let len = or_start (seq1Range nextResult) - or_endExclusive (seq1Range cur);
               d = shift_right_loop sequence1 sequence2 cur len
           in if d = len
              then emap Merged (SequenceDiff_fromOffsetPairs
                     (MkOffsetPair (or_start (seq1Range cur) + len) (or_start (seq2Range cur) + len))
                     (MkOffsetPair (or_endExclusive (seq1Range nextResult)) (or_endExclusive (seq2Range nextResult))))
              else if d > 0 then emap Shifted (SequenceDiff_delta cur d)
              else Inr (Shifted cur)
      else Inr (Shifted cur))"

text \<open>The second loop, with the element of \<open>result\<close> at the index and the ones behind it.\<close>

fun join_right_loop :: "ISequence \<Rightarrow> ISequence \<Rightarrow> SequenceDiff \<Rightarrow> SequenceDiff list \<Rightarrow> SequenceDiff list result" where
  "join_right_loop sequence1 sequence2 cur [] = Inr [cur]"
| "join_right_loop sequence1 sequence2 cur (nextResult # ds) =
     ebind (join_right_step sequence1 sequence2 cur nextResult) (\<lambda>s. case s of
        Merged d \<Rightarrow> join_right_loop sequence1 sequence2 d ds
      | Shifted d \<Rightarrow> emap ((#) d) (join_right_loop sequence1 sequence2 nextResult ds))"

definition joinSequenceDiffsByShifting :: "ISequence \<Rightarrow> ISequence \<Rightarrow> SequenceDiff list \<Rightarrow> SequenceDiff list result" where
  "joinSequenceDiffsByShifting sequence1 sequence2 sequenceDiffs =
     (case sequenceDiffs of [] \<Rightarrow> Inr sequenceDiffs
      | d # ds \<Rightarrow> ebind (join_left_loop sequence1 sequence2 d ds) (\<lambda>rs. case rs of
           [] \<Rightarrow> Inr []
         | r # rs \<Rightarrow> join_right_loop sequence1 sequence2 r rs))"

section \<open>Moving a difference to the best boundary\<close>

definition deltaBefore_loop :: "SequenceDiff \<Rightarrow> ISequence \<Rightarrow> OffsetRange \<Rightarrow> OffsetRange \<Rightarrow> int" where
  "deltaBefore_loop diff sequence2 seq1ValidRange seq2ValidRange =
     count_while (\<lambda>deltaBefore.
         or_start (seq1Range diff) - deltaBefore \<ge> or_start seq1ValidRange \<and>
         or_start (seq2Range diff) - deltaBefore \<ge> or_start seq2ValidRange \<and>
         isStronglyEqual sequence2 (or_start (seq2Range diff) - deltaBefore) (or_endExclusive (seq2Range diff) - deltaBefore)) 100 1"

definition deltaAfter_loop :: "SequenceDiff \<Rightarrow> ISequence \<Rightarrow> OffsetRange \<Rightarrow> OffsetRange \<Rightarrow> int" where
  "deltaAfter_loop diff sequence2 seq1ValidRange seq2ValidRange =
     count_while (\<lambda>deltaAfter.
         or_start (seq1Range diff) + deltaAfter < or_endExclusive seq1ValidRange \<and>
         or_endExclusive (seq2Range diff) + deltaAfter < or_endExclusive seq2ValidRange \<and>
         isStronglyEqual sequence2 (or_start (seq2Range diff) + deltaAfter) (or_endExclusive (seq2Range diff) + deltaAfter)) 100 0"

definition better_delta :: "(int \<Rightarrow> int) \<Rightarrow> (int \<Rightarrow> int) \<Rightarrow> SequenceDiff \<Rightarrow> int \<times> int \<Rightarrow> int \<Rightarrow> int \<times> int" where
  "better_delta score1 score2 diff best delta =
     (let score = score1 (or_start (seq1Range diff) + delta) + score2 (or_start (seq2Range diff) + delta) + score2 (or_endExclusive (seq2Range diff) + delta)
      in if score > snd best then (delta, score) else best)"

definition shiftDiffToBetterPosition ::
    "SequenceDiff \<Rightarrow> (int \<Rightarrow> int) \<Rightarrow> (int \<Rightarrow> int) \<Rightarrow> ISequence \<Rightarrow> OffsetRange \<Rightarrow> OffsetRange \<Rightarrow> SequenceDiff result" where
  "shiftDiffToBetterPosition diff score1 score2 sequence2 seq1ValidRange seq2ValidRange =
     (let deltaBefore = deltaBefore_loop diff sequence2 seq1ValidRange seq2ValidRange - 1;
          deltaAfter = deltaAfter_loop diff sequence2 seq1ValidRange seq2ValidRange
      in if deltaBefore = 0 \<and> deltaAfter = 0 then Inr diff
         else SequenceDiff_delta diff (fst (foldl (better_delta score1 score2 diff) (0, - 1) (int_upto (- deltaBefore) (deltaAfter + 1)))))"

definition shift_one :: "ISequence \<Rightarrow> ISequence \<Rightarrow> (int \<Rightarrow> int) \<Rightarrow> (int \<Rightarrow> int) \<Rightarrow> OffsetRange \<Rightarrow> OffsetRange \<Rightarrow> SequenceDiff \<Rightarrow> SequenceDiff result" where
  "shift_one sequence1 sequence2 score1 score2 seq1ValidRange seq2ValidRange diff =
     (if OffsetRange_isEmpty (seq1Range diff)
      then shiftDiffToBetterPosition diff score1 score2 sequence2 seq1ValidRange seq2ValidRange
      else if OffsetRange_isEmpty (seq2Range diff)
      then emap SequenceDiff_swap (shiftDiffToBetterPosition (SequenceDiff_swap diff) score2 score1 sequence1 seq2ValidRange seq1ValidRange)
      else Inr diff)"

text \<open>The loop over the array of differences, which holds the moved ones already.\<close>

fun shift_diffs_loop :: "ISequence \<Rightarrow> ISequence \<Rightarrow> (int \<Rightarrow> int) \<Rightarrow> (int \<Rightarrow> int) \<Rightarrow> SequenceDiff option \<Rightarrow> SequenceDiff list \<Rightarrow> SequenceDiff list result" where
  "shift_diffs_loop sequence1 sequence2 score1 score2 prevDiff [] = Inr []"
| "shift_diffs_loop sequence1 sequence2 score1 score2 prevDiff (diff # ds) =
     ebind (OffsetRange_new (case prevDiff of Some p \<Rightarrow> or_endExclusive (seq1Range p) + 1 | None \<Rightarrow> 0)
              (case ds of e # _ \<Rightarrow> or_start (seq1Range e) - 1 | [] \<Rightarrow> seq_length sequence1)) (\<lambda>seq1ValidRange.
     ebind (OffsetRange_new (case prevDiff of Some p \<Rightarrow> or_endExclusive (seq2Range p) + 1 | None \<Rightarrow> 0)
              (case ds of e # _ \<Rightarrow> or_start (seq2Range e) - 1 | [] \<Rightarrow> seq_length sequence2)) (\<lambda>seq2ValidRange.
     ebind (shift_one sequence1 sequence2 score1 score2 seq1ValidRange seq2ValidRange diff) (\<lambda>d.
     emap ((#) d) (shift_diffs_loop sequence1 sequence2 score1 score2 (Some d) ds))))"

definition shiftSequenceDiffs :: "ISequence \<Rightarrow> ISequence \<Rightarrow> SequenceDiff list \<Rightarrow> SequenceDiff list result" where
  "shiftSequenceDiffs sequence1 sequence2 sequenceDiffs =
     (case (getBoundaryScore sequence1, getBoundaryScore sequence2) of
        (Some score1, Some score2) \<Rightarrow> shift_diffs_loop sequence1 sequence2 score1 score2 None sequenceDiffs
      | _ \<Rightarrow> Inr sequenceDiffs)"

definition optimizeSequenceDiffs :: "ISequence \<Rightarrow> ISequence \<Rightarrow> SequenceDiff list \<Rightarrow> SequenceDiff list result" where
  "optimizeSequenceDiffs sequence1 sequence2 sequenceDiffs =
     ebind (joinSequenceDiffsByShifting sequence1 sequence2 sequenceDiffs) (\<lambda>ds.
     ebind (joinSequenceDiffsByShifting sequence1 sequence2 ds) (shiftSequenceDiffs sequence1 sequence2))"

section \<open>Joining differences that are close\<close>

text \<open>
  A loop that joins a difference with the last one of the result where a test on the two asks for it;
  \<open>removeShortMatches\<close> and the loops of the other removals have this form.
\<close>

fun join_close :: "(SequenceDiff \<Rightarrow> SequenceDiff \<Rightarrow> bool result) \<Rightarrow> SequenceDiff \<Rightarrow> SequenceDiff list \<Rightarrow> SequenceDiff list result" where
  "join_close close lastResult [] = Inr [lastResult]"
| "join_close close lastResult (cur # ds) =
     ebind (close lastResult cur) (\<lambda>c.
     if c then ebind (SequenceDiff_join lastResult cur) (\<lambda>d. join_close close d ds)
     else emap ((#) lastResult) (join_close close cur ds))"

definition removeShortMatches :: "SequenceDiff list \<Rightarrow> SequenceDiff list result" where
  "removeShortMatches sequenceDiffs =
     (case sequenceDiffs of [] \<Rightarrow> Inr []
      | d # ds \<Rightarrow> join_close (\<lambda>lst s. Inr (or_start (seq1Range s) - or_endExclusive (seq1Range lst) \<le> 2 \<or>
                                            or_start (seq2Range s) - or_endExclusive (seq2Range lst) \<le> 2)) d ds)"

section \<open>Correct differences stay correct\<close>

text \<open>
  The contract of a sequence: elements that are strongly equal are equal. \<open>isStronglyEqual\<close> exists because
  \<open>getElement\<close> may identify more, as it does for lines that differ in white space.
\<close>

locale sequence =
  fixes S :: ISequence
  assumes length_nonneg: "0 \<le> seq_length S"
    and strongly_equal: "isStronglyEqual S i j \<Longrightarrow> 0 \<le> i \<Longrightarrow> i < seq_length S \<Longrightarrow> 0 \<le> j \<Longrightarrow> j < seq_length S \<Longrightarrow>
      getElement S i = getElement S j"

definition moved :: "int \<Rightarrow> SequenceDiff \<Rightarrow> SequenceDiff" where
  "moved k d = MkSequenceDiff (MkOffsetRange (from1 d + k) (to1 d + k)) (MkOffsetRange (from2 d + k) (to2 d + k))"

lemma moved_simps [simp]: "from1 (moved k d) = from1 d + k" "to1 (moved k d) = to1 d + k" "from2 (moved k d) = from2 d + k" "to2 (moved k d) = to2 d + k"
  by (simp_all add: moved_def)

lemma moved_0 [simp]: "moved 0 d = d"
  by (cases d; cases "seq1Range d"; cases "seq2Range d") (auto simp: moved_def)

lemma swap_simps [simp]: "seq1Range (SequenceDiff_swap d) = seq2Range d" "seq2Range (SequenceDiff_swap d) = seq1Range d"
  by (simp_all add: SequenceDiff_swap_def)

lemma moved_swap: "SequenceDiff_swap (moved k (SequenceDiff_swap d)) = moved k d"
  by (simp add: moved_def SequenceDiff_swap_def)

lemma delta_moved: "from1 d \<le> to1 d \<Longrightarrow> from2 d \<le> to2 d \<Longrightarrow> SequenceDiff_delta d k = Inr (moved k d)"
  by (simp add: SequenceDiff_delta_def on_both_def OffsetRange_delta_def OffsetRange_new_def moved_def)

lemma equal_part_le: "equal_part S T a b k \<Longrightarrow> 0 \<le> j \<Longrightarrow> j \<le> k \<Longrightarrow> equal_part S T a b j"
  by (auto simp: equal_part_def)

lemma equal_part_nth: "equal_part S T a b k \<Longrightarrow> a \<le> i \<Longrightarrow> i < a + k \<Longrightarrow> getElement S i = getElement T (b + (i - a))"
  by (auto simp: equal_part_def dest: spec [of _ "i - a"])

text \<open>A difference may be moved over elements that are equal at both of its ends.\<close>

lemma move_left:
  assumes "diffs_from S T a b (d # ds)" "0 \<le> k" "a + k \<le> from1 d"
    and "\<And>i. 1 \<le> i \<Longrightarrow> i \<le> k \<Longrightarrow> getElement S (from1 d - i) = getElement S (to1 d - i)"
    and "\<And>i. 1 \<le> i \<Longrightarrow> i \<le> k \<Longrightarrow> getElement T (from2 d - i) = getElement T (to2 d - i)"
  shows "diffs_from S T a b (moved (- k) d # ds)"
proof -
  have gap: "equal_part S T a b (from1 d - a)" "from2 d - b = from1 d - a" and rest: "diffs_from S T (to1 d) (to2 d) ds" using assms(1) by simp_all
  have "equal_part S T (to1 d - k) (to2 d - k) k"
    unfolding equal_part_def
  proof (intro conjI allI impI)
    fix i assume i: "0 \<le> i \<and> i < k"
    have "getElement S (to1 d - k + i) = getElement S (from1 d - k + i)" using assms(4) [of "k - i"] i by (simp add: algebra_simps)
    also have "\<dots> = getElement T (b + (from1 d - k + i - a))" using i assms(3) by (intro equal_part_nth [OF gap(1)]) auto
    also have "\<dots> = getElement T (from2 d - k + i)" using gap(2) by (intro arg_cong [of _ _ "getElement T"]) simp
    also have "\<dots> = getElement T (to2 d - k + i)" using assms(5) [of "k - i"] i by (simp add: algebra_simps)
    finally show "getElement S (to1 d - k + i) = getElement T (to2 d - k + i)" .
  qed (rule assms)
  from diffs_from_extend [OF this] rest have "diffs_from S T (to1 d - k) (to2 d - k) ds" by simp
  with assms(1-3) gap show ?thesis by (auto intro: equal_part_le)
qed

lemma move_right:
  assumes "diffs_from S T a b (d # ds)" "0 \<le> k" "case ds of [] \<Rightarrow> to1 d + k \<le> seq_length S | e # _ \<Rightarrow> to1 d + k \<le> from1 e"
    and "\<And>i. 0 \<le> i \<Longrightarrow> i < k \<Longrightarrow> getElement S (from1 d + i) = getElement S (to1 d + i)"
    and "\<And>i. 0 \<le> i \<Longrightarrow> i < k \<Longrightarrow> getElement T (from2 d + i) = getElement T (to2 d + i)"
  shows "diffs_from S T a b (moved k d # ds)"
proof -
  have gap: "equal_part S T a b (from1 d - a)" "from2 d = b + (from1 d - a)" "0 \<le> from1 d - a" and rest: "diffs_from S T (to1 d) (to2 d) ds"
    using assms(1) by (auto simp: equal_part_def)
  have "equal_part S T (to1 d) (to2 d) k" using rest assms(2,3) by (cases ds) (auto intro: equal_part_le)
  then have "equal_part S T (from1 d) (from2 d) k" using assms(2,4,5) by (auto simp: equal_part_def)
  then have "equal_part S T a b (from1 d - a + k)" using gap equal_part_split [OF gap(3) assms(2), of S T a b] by simp
  moreover have "diffs_from S T (to1 d + k) (to2 d + k) ds" using diffs_from_skip [OF rest assms(2,3)] .
  ultimately show ?thesis using assms(1) gap(2) by (simp add: algebra_simps)
qed

subsection \<open>The joining loops\<close>

lemma count_while_spec:
  assumes "lo \<le> hi"
  shows "lo \<le> count_while p hi lo \<and> count_while p hi lo \<le> hi \<and> (\<forall>i. lo \<le> i \<and> i < count_while p hi lo \<longrightarrow> p i)"
  using assms
proof (induction p hi lo rule: count_while.induct)
  case (1 p hi d)
  show ?case
  proof (cases "d < hi \<and> p d")
    case True
    then have eq: "count_while p hi d = count_while p hi (d + 1)" by (subst count_while.simps) simp
    have "d \<le> i \<Longrightarrow> i = d \<or> d + 1 \<le> i" for i :: int by auto
    with 1 True show ?thesis unfolding eq by fastforce
  next
    case False
    then have "count_while p hi d = d" by (subst count_while.simps) auto
    with 1 show ?thesis by auto
  qed
qed

lemma count_while_ge: "lo \<le> hi \<Longrightarrow> lo \<le> count_while p hi lo"
  and count_while_le: "lo \<le> hi \<Longrightarrow> count_while p hi lo \<le> hi"
  and count_while_all: "lo \<le> hi \<Longrightarrow> lo \<le> i \<Longrightarrow> i < count_while p hi lo \<Longrightarrow> p i"
  using count_while_spec by blast+

lemma shift_left_count:
  assumes "0 \<le> len"
  shows "1 \<le> shift_left_loop S T cur len" "shift_left_loop S T cur len \<le> len + 1"
    and "1 \<le> i \<Longrightarrow> i < shift_left_loop S T cur len \<Longrightarrow> getElement S (from1 cur - i) = getElement S (to1 cur - i)"
    and "1 \<le> i \<Longrightarrow> i < shift_left_loop S T cur len \<Longrightarrow> getElement T (from2 cur - i) = getElement T (to2 cur - i)"
proof -
  let ?p = "\<lambda>d. \<not> (getElement S (from1 cur - d) \<noteq> getElement S (to1 cur - d) \<or> getElement T (from2 cur - d) \<noteq> getElement T (to2 cur - d))"
  have le: "1 \<le> len + 1" using assms by simp
  note c = count_while_ge [OF le, of ?p] count_while_le [OF le, of ?p] count_while_all [OF le, of _ ?p]
  show "1 \<le> shift_left_loop S T cur len" "shift_left_loop S T cur len \<le> len + 1" unfolding shift_left_loop_def by (rule c(1), rule c(2))
  show "getElement S (from1 cur - i) = getElement S (to1 cur - i)" "getElement T (from2 cur - i) = getElement T (to2 cur - i)"
    if "1 \<le> i" "i < shift_left_loop S T cur len" using c(3) [OF that [unfolded shift_left_loop_def]] by simp_all
qed

lemma shift_right_count:
  assumes "0 \<le> len"
  shows "0 \<le> shift_right_loop S T cur len" "shift_right_loop S T cur len \<le> len"
    and "0 \<le> i \<Longrightarrow> i < shift_right_loop S T cur len \<Longrightarrow> isStronglyEqual S (from1 cur + i) (to1 cur + i)"
    and "0 \<le> i \<Longrightarrow> i < shift_right_loop S T cur len \<Longrightarrow> isStronglyEqual T (from2 cur + i) (to2 cur + i)"
proof -
  let ?p = "\<lambda>d. \<not> (\<not> isStronglyEqual S (from1 cur + d) (to1 cur + d) \<or> \<not> isStronglyEqual T (from2 cur + d) (to2 cur + d))"
  note c = count_while_ge [OF assms, of ?p] count_while_le [OF assms, of ?p] count_while_all [OF assms, of _ ?p]
  show "0 \<le> shift_right_loop S T cur len" "shift_right_loop S T cur len \<le> len" unfolding shift_right_loop_def by (rule c(1), rule c(2))
  show "isStronglyEqual S (from1 cur + i) (to1 cur + i)" "isStronglyEqual T (from2 cur + i) (to2 cur + i)"
    if "0 \<le> i" "i < shift_right_loop S T cur len" using c(3) [OF that [unfolded shift_right_loop_def]] by simp_all
qed

text \<open>A correct list that starts with two differences which touch can be given as one with their union.\<close>

definition union_diff :: "SequenceDiff \<Rightarrow> SequenceDiff \<Rightarrow> SequenceDiff" where
  "union_diff d e = MkSequenceDiff (MkOffsetRange (from1 d) (to1 e)) (MkOffsetRange (from2 d) (to2 e))"

lemma union_diff_simps [simp]: "from1 (union_diff d e) = from1 d" "to1 (union_diff d e) = to1 e" "from2 (union_diff d e) = from2 d" "to2 (union_diff d e) = to2 e"
  by (simp_all add: union_diff_def)

lemma union_from: "diffs_from S T a b (d # e # ds) \<Longrightarrow> diffs_from S T a b (union_diff d e # ds)"
  by (auto simp: equal_part_def)

lemma join_left_step_ok:
  assumes d: "diffs_from S T a b (p # cur # ds)" and gap: "to1 p < from1 cur"
  obtains e where "join_left_step S T p cur = Inr (Merged e)" "diffs_from S T a b (e # ds)" "to1 e \<le> to1 cur"
  | e where "join_left_step S T p cur = Inr (Shifted e)" "diffs_from S T a b (p # e # ds)" "to1 p < from1 e" "to1 e \<le> to1 cur"
proof (cases "one_sided cur")
  case True
  define len where "len = from1 cur - to1 p"
  define k where "k = shift_left_loop S T cur len - 1"
  have k: "0 \<le> k" "k \<le> len" and eq: "\<And>i. 1 \<le> i \<Longrightarrow> i \<le> k \<Longrightarrow> getElement S (from1 cur - i) = getElement S (to1 cur - i)"
      "\<And>i. 1 \<le> i \<Longrightarrow> i \<le> k \<Longrightarrow> getElement T (from2 cur - i) = getElement T (to2 cur - i)"
    using shift_left_count [where len = len and S = S and T = T and cur = cur] gap by (simp_all add: k_def len_def)
  have rest: "diffs_from S T (to1 p) (to2 p) (cur # ds)" using d by simp
  have m: "diffs_from S T (to1 p) (to2 p) (moved (- k) cur # ds)" by (rule move_left [OF rest k(1) _ eq]) (use k(2) in \<open>simp_all add: len_def\<close>)
  then have m': "diffs_from S T a b (p # moved (- k) cur # ds)" using d by simp
  have le: "from1 cur \<le> to1 cur" "from2 cur \<le> to2 cur" using d by simp_all
  show thesis
  proof (cases "k = len")
    case merge: True
    have "to2 p = from2 cur - len" using d by (simp add: len_def)
    moreover have "from1 p \<le> to1 p" "from2 p \<le> to2 p" using d by simp_all
    ultimately have "join_left_step S T p cur = Inr (Merged (union_diff p (moved (- k) cur)))"
      using True merge le by (simp add: join_left_step_def len_def [symmetric] k_def [symmetric] SequenceDiff_fromOffsetPairs_def OffsetRange_new_def
          union_diff_def, simp add: len_def)
    moreover have "diffs_from S T a b (union_diff p (moved (- k) cur) # ds)" by (rule union_from [OF m'])
    ultimately show thesis using that(1) k by simp
  next
    case False
    then have "join_left_step S T p cur = Inr (Shifted (moved (- k) cur))"
      using True le by (simp add: join_left_step_def len_def [symmetric] k_def [symmetric] delta_moved)
    with m' that(2) k False show thesis by (simp add: len_def)
  qed
next
  case False
  then show thesis using that(2) d gap by (simp add: join_left_step_def)
qed

lemma join_left_loop_ok:
  assumes "diffs_from S T a b (p # ds)" "separated (p # ds)"
  shows "\<exists>r rs. join_left_loop S T p ds = Inr (r # rs) \<and> diffs_from S T a b (r # rs) \<and> separated (r # rs) \<and> from1 r = from1 p"
  using assms
proof (induction ds arbitrary: a b p)
  case (Cons cur ds)
  have sep: "separated (cur # ds)" "to1 p < from1 cur" using Cons.prems(2) by auto
  have sep_e: "separated (e # ds)" if "to1 e \<le> to1 cur" for e using sep that by (cases ds) auto
  from Cons.prems(1) sep(2) show ?case
  proof (cases rule: join_left_step_ok)
    case (1 e)
    have "from1 e = from1 p" using 1(1) by (auto simp: join_left_step_def SequenceDiff_fromOffsetPairs_def OffsetRange_new_def Let_def emap_Inr_iff split: if_splits)
    with Cons.IH [OF 1(2) sep_e] 1 show ?thesis by simp
  next
    case (2 e)
    from 2(2) have "diffs_from S T (to1 p) (to2 p) (e # ds)" by simp
    from Cons.IH [OF this sep_e] 2 obtain r rs where r: "join_left_loop S T e ds = Inr (r # rs)" "diffs_from S T (to1 p) (to2 p) (r # rs)" "separated (r # rs)" "from1 r = from1 e" by auto
    with 2 show ?thesis by simp
  qed
qed simp

lemma join_right_step_ok:
  assumes S: "sequence S" and T: "sequence T" and d: "diffs_from S T a b (cur # nxt # ds)" "0 \<le> a" "0 \<le> b" and gap: "to1 cur < from1 nxt"
  obtains e where "join_right_step S T cur nxt = Inr (Merged e)" "diffs_from S T a b (e # ds)" "from1 cur \<le> from1 e" "to1 e = to1 nxt"
  | e where "join_right_step S T cur nxt = Inr (Shifted e)" "diffs_from S T a b (e # nxt # ds)" "to1 e < from1 nxt" "from1 cur \<le> from1 e"
proof (cases "one_sided cur")
  case True
  define len where "len = from1 nxt - to1 cur"
  define k where "k = shift_right_loop S T cur len"
  have le: "from1 cur \<le> to1 cur" "from2 cur \<le> to2 cur" "from1 nxt \<le> to1 nxt" "from2 nxt \<le> to2 nxt" and len2: "from2 nxt = to2 cur + len"
    using d(1) by (simp_all add: len_def)
  have nonneg: "0 \<le> from1 cur" "0 \<le> from2 cur" using d by (auto simp: equal_part_def)
  have bound: "from1 nxt \<le> seq_length S" "from2 nxt \<le> seq_length T" using diffs_from_bounds [of S T "to1 nxt" "to2 nxt" ds] d(1) le by auto
  have k: "0 \<le> k" "k \<le> len" using shift_right_count [where len = len and S = S and T = T and cur = cur] gap by (simp_all add: k_def len_def)
  have eq1: "getElement S (from1 cur + i) = getElement S (to1 cur + i)" if "0 \<le> i" "i < k" for i
    using shift_right_count(3) [where len = len and S = S and T = T and cur = cur and i = i] gap that k le bound nonneg
    by (intro sequence.strongly_equal [OF S]) (simp_all add: k_def len_def)
  have eq2: "getElement T (from2 cur + i) = getElement T (to2 cur + i)" if "0 \<le> i" "i < k" for i
    using shift_right_count(4) [where len = len and S = S and T = T and cur = cur and i = i] gap that k le bound nonneg len2
    by (intro sequence.strongly_equal [OF T]) (simp_all add: k_def len_def)
  have m: "diffs_from S T a b (moved k cur # nxt # ds)" by (rule move_right [OF d(1) k(1) _ eq1 eq2]) (use k(2) in \<open>simp_all add: len_def\<close>)
  show thesis
  proof (cases "k = len")
    case merge: True
    have "join_right_step S T cur nxt = Inr (Merged (union_diff (moved k cur) nxt))"
      using True merge le len2 by (simp add: join_right_step_def len_def [symmetric] k_def [symmetric] SequenceDiff_fromOffsetPairs_def OffsetRange_new_def
          union_diff_def, simp add: len_def)
    moreover have "diffs_from S T a b (union_diff (moved k cur) nxt # ds)" by (rule union_from [OF m])
    ultimately show thesis using that(1) k by simp
  next
    case False
    then have "join_right_step S T cur nxt = Inr (Shifted (moved k cur))"
      using True le k by (auto simp: join_right_step_def len_def [symmetric] k_def [symmetric] delta_moved)
    with m that(2) k False show thesis by (simp add: len_def)
  qed
next
  case False
  then show thesis using that(2) d gap by (simp add: join_right_step_def)
qed

lemma join_right_loop_ok:
  assumes S: "sequence S" and T: "sequence T" and "diffs_from S T a b (cur # ds)" "separated (cur # ds)" "0 \<le> a" "0 \<le> b"
  shows "\<exists>r rs. join_right_loop S T cur ds = Inr (r # rs) \<and> diffs_from S T a b (r # rs) \<and> separated (r # rs) \<and> from1 cur \<le> from1 r"
  using assms(3-)
proof (induction ds arbitrary: a b cur)
  case (Cons nxt ds)
  have sep: "separated (nxt # ds)" "to1 cur < from1 nxt" using Cons.prems(2) by auto
  from S T Cons.prems(1,3,4) sep(2) show ?case
  proof (cases rule: join_right_step_ok)
    case (1 e)
    have "separated (e # ds)" using sep 1(4) by (cases ds) auto
    with Cons.IH [OF 1(2) _ Cons.prems(3,4)] 1 show ?thesis by fastforce
  next
    case (2 e)
    have "diffs_from S T (to1 e) (to2 e) (nxt # ds)" "0 \<le> to1 e" "0 \<le> to2 e" using 2(2) Cons.prems(3,4) by (auto simp: equal_part_def)
    from Cons.IH [OF this(1) sep(1) this(2,3)] obtain r rs where
      "join_right_loop S T nxt ds = Inr (r # rs)" "diffs_from S T (to1 e) (to2 e) (r # rs)" "separated (r # rs)" "from1 nxt \<le> from1 r" by blast
    with 2 show ?thesis by (intro exI [of _ e] exI [of _ "r # rs"]) auto
  qed
qed simp

lemma join_by_shifting_ok:
  assumes "sequence S" "sequence T" "diffs_ok S T ds" "separated ds"
  shows "\<exists>rs. joinSequenceDiffsByShifting S T ds = Inr rs \<and> diffs_ok S T rs \<and> separated rs"
proof (cases ds)
  case (Cons d ds')
  with assms join_left_loop_ok [of S T 0 0 d ds'] obtain r rs where
    r: "join_left_loop S T d ds' = Inr (r # rs)" "diffs_from S T 0 0 (r # rs)" "separated (r # rs)" by (auto simp: diffs_ok_def)
  from join_right_loop_ok [OF assms(1,2) r(2,3)] r(1) Cons show ?thesis by (auto simp: joinSequenceDiffsByShifting_def diffs_ok_def)
qed (use assms in \<open>simp add: joinSequenceDiffsByShifting_def\<close>)

subsection \<open>The best boundary\<close>

lemma better_delta_in: "fst (foldl (better_delta f g d) best ks) \<in> insert (fst best) (set ks)"
  by (induction ks rule: rev_induct) (auto simp: better_delta_def Let_def)

lemma shiftDiffToBetterPosition_moves:
  assumes le: "from1 d \<le> to1 d" "from2 d \<le> to2 d"
  obtains k where "shiftDiffToBetterPosition d f g T v1 v2 = Inr (moved k d)"
    "\<And>i. 1 \<le> i \<Longrightarrow> i \<le> - k \<Longrightarrow> or_start v1 \<le> from1 d - i \<and> or_start v2 \<le> from2 d - i \<and> isStronglyEqual T (from2 d - i) (to2 d - i)"
    "\<And>i. 0 \<le> i \<Longrightarrow> i < k \<Longrightarrow> from1 d + i < or_endExclusive v1 \<and> to2 d + i < or_endExclusive v2 \<and> isStronglyEqual T (from2 d + i) (to2 d + i)"
proof -
  let ?p = "\<lambda>i. or_start v1 \<le> from1 d - i \<and> or_start v2 \<le> from2 d - i \<and> isStronglyEqual T (from2 d - i) (to2 d - i)"
  let ?q = "\<lambda>i. from1 d + i < or_endExclusive v1 \<and> to2 d + i < or_endExclusive v2 \<and> isStronglyEqual T (from2 d + i) (to2 d + i)"
  define m where "m = deltaBefore_loop d T v1 v2 - 1"
  define n where "n = deltaAfter_loop d T v1 v2"
  have before: "0 \<le> m" "\<And>i. 1 \<le> i \<Longrightarrow> i \<le> m \<Longrightarrow> ?p i"
    using count_while_ge [of 1 100 ?p] count_while_all [of 1 100 _ ?p] by (simp_all add: m_def deltaBefore_loop_def)
  have after: "0 \<le> n" "\<And>i. 0 \<le> i \<Longrightarrow> i < n \<Longrightarrow> ?q i"
    using count_while_ge [of 0 100 ?q] count_while_all [of 0 100 _ ?q] by (simp_all add: n_def deltaAfter_loop_def)
  define k where "k = (if m = 0 \<and> n = 0 then 0 else fst (foldl (better_delta f g d) (0, - 1) (int_upto (- m) (n + 1))))"
  have "shiftDiffToBetterPosition d f g T v1 v2 = Inr (moved k d)"
    using le by (simp add: shiftDiffToBetterPosition_def m_def [symmetric] n_def [symmetric] k_def delta_moved)
  moreover have "k \<in> {- m..n}" using better_delta_in [of f g d "(0, - 1)" "int_upto (- m) (n + 1)"] before(1) after(1) by (auto simp: k_def)
  ultimately show thesis using before after by (intro that) auto
qed

text \<open>Where the moved difference may lie, and that it is correct there.\<close>

lemma shift_one_ok:
  assumes S: "sequence S" and T: "sequence T" and d: "diffs_from S T a b (d # ds)" "0 \<le> a" "0 \<le> b"
    and v1: "or_start v1 = v + a" "or_endExclusive v1 = (case ds of e # _ \<Rightarrow> from1 e - 1 | [] \<Rightarrow> seq_length S)"
    and v2: "or_start v2 = v + b" "or_endExclusive v2 = (case ds of e # _ \<Rightarrow> from2 e - 1 | [] \<Rightarrow> seq_length T)"
    and v: "v \<ge> 0" and lo: "from1 d \<ge> v + a" and hi: "ds \<noteq> [] \<longrightarrow> to1 d < from1 (hd ds)"
  shows "\<exists>e. shift_one S T f g v1 v2 d = Inr e \<and> diffs_from S T a b (e # ds) \<and> v + a \<le> from1 e \<and> (ds \<noteq> [] \<longrightarrow> to1 e < from1 (hd ds))"
proof -
  have le: "from1 d \<le> to1 d" "from2 d \<le> to2 d" and gap: "from2 d - b = from1 d - a" using d(1) by simp_all
  have nonneg: "0 \<le> from1 d" "0 \<le> from2 d" using d by (auto simp: equal_part_def)
  have bound: "to1 d \<le> seq_length S" "to2 d \<le> seq_length T" using diffs_from_bounds [of S T "to1 d" "to2 d" ds] d(1) by auto
  have vend: "or_endExclusive v1 \<le> seq_length S" "or_endExclusive v2 \<le> seq_length T"
    using diffs_from_bounds d(1) v1 v2 by (cases ds; fastforce)+
  have move: "diffs_from S T a b (moved k d # ds) \<and> v + a \<le> from1 (moved k d) \<and> (ds \<noteq> [] \<longrightarrow> to1 (moved k d) < from1 (hd ds))"
    if left: "\<And>i. 1 \<le> i \<Longrightarrow> i \<le> - k \<Longrightarrow> v + a \<le> from1 d - i \<and> getElement S (from1 d - i) = getElement S (to1 d - i) \<and> getElement T (from2 d - i) = getElement T (to2 d - i)"
      and right: "\<And>i. 0 \<le> i \<Longrightarrow> i < k \<Longrightarrow> to1 d + i < or_endExclusive v1 \<and> getElement S (from1 d + i) = getElement S (to1 d + i) \<and> getElement T (from2 d + i) = getElement T (to2 d + i)"
    for k
  proof (cases "k \<le> 0")
    case True
    have "v + a \<le> from1 d + k" using True left [of "- k"] lo by (cases "k = 0") auto
    moreover have "diffs_from S T a b (moved (- (- k)) d # ds)"
      by (rule move_left [OF d(1)]) (use True left calculation v in auto)
    ultimately show ?thesis using True hi by auto
  next
    case False
    then have "to1 d + k \<le> or_endExclusive v1" using right [of "k - 1"] by simp
    with False d(1) right have "diffs_from S T a b (moved k d # ds)" by (intro move_right) (auto simp: v1 split: list.splits)
    with False \<open>to1 d + k \<le> or_endExclusive v1\<close> lo show ?thesis by (auto simp: v1 split: list.splits)
  qed
  show ?thesis
  proof (cases "from1 d = to1 d")
    case True
    then obtain k where r: "shift_one S T f g v1 v2 d = Inr (moved k d)"
      and left: "\<And>i. 1 \<le> i \<Longrightarrow> i \<le> - k \<Longrightarrow> or_start v1 \<le> from1 d - i \<and> or_start v2 \<le> from2 d - i \<and> isStronglyEqual T (from2 d - i) (to2 d - i)"
      and right: "\<And>i. 0 \<le> i \<Longrightarrow> i < k \<Longrightarrow> from1 d + i < or_endExclusive v1 \<and> to2 d + i < or_endExclusive v2 \<and> isStronglyEqual T (from2 d + i) (to2 d + i)"
      using shiftDiffToBetterPosition_moves [OF le, of f g T v1 v2] by (auto simp: shift_one_def OffsetRange_isEmpty_def)
    show ?thesis unfolding r
      using True left right v1(1) v2(1) vend d(3) le nonneg bound v
      by (intro exI [of _ "moved k d"] conjI [OF refl] move) (fastforce intro: sequence.strongly_equal [OF T])+
  next
    case one: False
    show ?thesis
    proof (cases "from2 d = to2 d")
      case True
      have le': "from1 (SequenceDiff_swap d) \<le> to1 (SequenceDiff_swap d)" "from2 (SequenceDiff_swap d) \<le> to2 (SequenceDiff_swap d)"
        using le by simp_all
      let ?d = "SequenceDiff_swap d"
      obtain k where k: "shiftDiffToBetterPosition ?d g f S v2 v1 = Inr (moved k ?d)"
        and left: "\<And>i. 1 \<le> i \<Longrightarrow> i \<le> - k \<Longrightarrow> or_start v2 \<le> from1 ?d - i \<and> or_start v1 \<le> from2 ?d - i \<and> isStronglyEqual S (from2 ?d - i) (to2 ?d - i)"
        and right: "\<And>i. 0 \<le> i \<Longrightarrow> i < k \<Longrightarrow> from1 ?d + i < or_endExclusive v2 \<and> to2 ?d + i < or_endExclusive v1 \<and> isStronglyEqual S (from2 ?d + i) (to2 ?d + i)"
        by (rule shiftDiffToBetterPosition_moves [OF le', of g f S v2 v1]) blast
      have r: "shift_one S T f g v1 v2 d = Inr (moved k d)" using one True by (simp add: shift_one_def OffsetRange_isEmpty_def k moved_swap)
      note left = left [unfolded swap_simps] and right = right [unfolded swap_simps]
      show ?thesis unfolding r
        using True left right v1(1) v2(1) vend d(2) le nonneg bound v
        by (intro exI [of _ "moved k d"] conjI [OF refl] move) (fastforce intro: sequence.strongly_equal [OF S])+
    next
      case False
      with one d(1) lo hi show ?thesis by (simp add: shift_one_def OffsetRange_isEmpty_def)
    qed
  qed
qed

text \<open>A gap is kept behind the previous difference, so the start moves by one where there is one.\<close>

lemma shift_diffs_loop_ok:
  assumes S: "sequence S" and T: "sequence T"
    and "diffs_from S T a b ds" "0 \<le> a" "0 \<le> b" "separated ds"
    and "case p of None \<Rightarrow> a = 0 \<and> b = 0 | Some q \<Rightarrow> a = to1 q \<and> b = to2 q \<and> (ds \<noteq> [] \<longrightarrow> to1 q < from1 (hd ds))"
  shows "\<exists>rs. shift_diffs_loop S T f g p ds = Inr rs \<and> diffs_from S T a b rs \<and> separated rs \<and>
    (p \<noteq> None \<longrightarrow> rs \<noteq> [] \<longrightarrow> a < from1 (hd rs))"
  using assms(3-)
proof (induction ds arbitrary: a b p)
  case (Cons d ds)
  define v where "v = (if p = None then 0 else 1 :: int)"
  define v1 where "v1 = MkOffsetRange (v + a) (case ds of e # _ \<Rightarrow> from1 e - 1 | [] \<Rightarrow> seq_length S)"
  define v2 where "v2 = MkOffsetRange (v + b) (case ds of e # _ \<Rightarrow> from2 e - 1 | [] \<Rightarrow> seq_length T)"
  have lo: "v + a \<le> from1 d" "v + b \<le> from2 d" using Cons.prems by (auto simp: v_def equal_part_def split: option.splits)
  have hi: "ds \<noteq> [] \<longrightarrow> to1 d < from1 (hd ds)" using Cons.prems(4) by (cases ds) auto
  have le: "from1 d \<le> to1 d" "from2 d \<le> to2 d" using Cons.prems(1) by simp_all
  have bound: "to1 d \<le> or_endExclusive v1" "to2 d \<le> or_endExclusive v2"
    using hi Cons.prems(1) diffs_from_bounds [of S T "to1 d" "to2 d" ds] by (cases ds; simp add: v1_def v2_def)+
  have ranges: "OffsetRange_new (case p of Some q \<Rightarrow> to1 q + 1 | None \<Rightarrow> 0) (case ds of e # _ \<Rightarrow> from1 e - 1 | [] \<Rightarrow> seq_length S) = Inr v1"
      "OffsetRange_new (case p of Some q \<Rightarrow> to2 q + 1 | None \<Rightarrow> 0) (case ds of e # _ \<Rightarrow> from2 e - 1 | [] \<Rightarrow> seq_length T) = Inr v2"
    using lo le bound Cons.prems(5) by (auto simp: OffsetRange_new_def v1_def v2_def v_def split: option.splits)
  have "\<exists>e. shift_one S T f g v1 v2 d = Inr e \<and> diffs_from S T a b (e # ds) \<and> v + a \<le> from1 e \<and> (ds \<noteq> [] \<longrightarrow> to1 e < from1 (hd ds))"
    using lo(1) hi by (intro shift_one_ok [OF S T Cons.prems(1-3)]) (auto simp: v1_def v2_def v_def)
  then obtain e where e: "shift_one S T f g v1 v2 d = Inr e" "diffs_from S T a b (e # ds)" "v + a \<le> from1 e" "ds \<noteq> [] \<longrightarrow> to1 e < from1 (hd ds)" by blast
  then have "diffs_from S T (to1 e) (to2 e) ds" "0 \<le> to1 e" "0 \<le> to2 e" using Cons.prems(2,3) by (auto simp: equal_part_def)
  then obtain rs where rs: "shift_diffs_loop S T f g (Some e) ds = Inr rs" "diffs_from S T (to1 e) (to2 e) rs" "separated rs" "rs \<noteq> [] \<longrightarrow> to1 e < from1 (hd rs)"
    using Cons.IH [of "to1 e" "to2 e" "Some e"] e(4) Cons.prems(4) by (auto simp: successively_Cons)
  have "shift_diffs_loop S T f g p (d # ds) = Inr (e # rs)" by (simp add: ranges e(1) rs(1))
  then show ?case using e rs by (auto simp: successively_Cons v_def)
qed simp

lemma shiftSequenceDiffs_ok:
  assumes "sequence S" "sequence T" "diffs_ok S T ds" "separated ds"
  shows "\<exists>rs. shiftSequenceDiffs S T ds = Inr rs \<and> diffs_ok S T rs \<and> separated rs"
proof (cases "getBoundaryScore S"; cases "getBoundaryScore T")
  fix f g assume "getBoundaryScore S = Some f" "getBoundaryScore T = Some g"
  then show ?thesis using shift_diffs_loop_ok [OF assms(1,2), of 0 0 ds None f g] assms(3,4) by (simp add: shiftSequenceDiffs_def diffs_ok_def)
qed (use assms in \<open>simp_all add: shiftSequenceDiffs_def\<close>)

lemma optimize_ok:
  assumes "sequence S" "sequence T" "diffs_ok S T ds" "separated ds"
  shows "\<exists>rs. optimizeSequenceDiffs S T ds = Inr rs \<and> diffs_ok S T rs \<and> separated rs"
proof -
  obtain d1 where 1: "joinSequenceDiffsByShifting S T ds = Inr d1" "diffs_ok S T d1" "separated d1" using join_by_shifting_ok [OF assms] by blast
  obtain d2 where 2: "joinSequenceDiffsByShifting S T d1 = Inr d2" "diffs_ok S T d2" "separated d2" using join_by_shifting_ok [OF assms(1,2) 1(2,3)] by blast
  from shiftSequenceDiffs_ok [OF assms(1,2) 2(2,3)] 1(1) 2(1) show ?thesis by (simp add: optimizeSequenceDiffs_def)
qed

subsection \<open>Joining close differences\<close>

lemma SequenceDiff_join_union:
  assumes "from1 d \<le> to1 d" "from2 d \<le> to2 d" "to1 d \<le> from1 e" "to2 d \<le> from2 e" "from1 e \<le> to1 e" "from2 e \<le> to2 e"
  shows "SequenceDiff_join d e = Inr (union_diff d e)"
  using assms by (simp add: SequenceDiff_join_def on_both_def OffsetRange_join_def OffsetRange_new_def union_diff_def min_absorb1 max_absorb2)

lemma join_close_ok:
  assumes P: "\<And>d e. to1 d \<le> from1 e \<Longrightarrow> \<exists>c. P d e = Inr c" and "diffs_from S T a b (d # ds)"
  shows "\<exists>r rs. join_close P d ds = Inr (r # rs) \<and> diffs_from S T a b (r # rs) \<and> length rs \<le> length ds"
  using assms(2)
proof (induction ds arbitrary: a b d)
  case (Cons e ds)
  have "to1 d \<le> from1 e" using Cons.prems by (auto simp: equal_part_def)
  then obtain c where c: "P d e = Inr c" using P by blast
  show ?case
  proof (cases c)
    case True
    have "SequenceDiff_join d e = Inr (union_diff d e)" using Cons.prems by (intro SequenceDiff_join_union) (auto simp: equal_part_def)
    with Cons.IH [OF union_from [OF Cons.prems]] True c show ?thesis by fastforce
  next
    case False
    have "diffs_from S T (to1 d) (to2 d) (e # ds)" using Cons.prems by simp
    from Cons.IH [OF this] obtain r rs where "join_close P e ds = Inr (r # rs)" "diffs_from S T (to1 d) (to2 d) (r # rs)" "length rs \<le> length ds" by blast
    with False c Cons.prems show ?thesis by (intro exI [of _ d] exI [of _ "r # rs"]) simp
  qed
qed simp

lemma removeShortMatches_ok:
  assumes "diffs_ok S T ds"
  shows "\<exists>rs. removeShortMatches ds = Inr rs \<and> diffs_ok S T rs"
proof (cases ds)
  case (Cons d ds')
  with assms join_close_ok [of _ S T 0 0 d ds'] show ?thesis by (fastforce simp: removeShortMatches_def diffs_ok_def)
qed (use assms in \<open>simp add: removeShortMatches_def\<close>)

end
