(* ===== verification/MyersDiff.thy ===== *)
theory MyersDiff
  imports DiffAlgorithms
begin

text \<open>
  Model of \<open>editor/common/diff/defaultLinesDiffComputer/algorithms/myersDiffAlgorithm.ts\<close>.

  Numbers that may be \<open>undefined\<close> or \<open>NaN\<close> are options, because the arrays of the source are read
  outside of their bounds. The paths \<open>null\<close> and \<open>undefined\<close>, which the source only tests
  for being there, are both \<open>NoPath\<close>. The outer loop has fuel: one unit for each \<open>d\<close>.
\<close>

section \<open>Arrays with negative indices\<close>

record FastInt32Array =
  positiveArr :: "int list"
  negativeArr :: "int list"

definition FastInt32Array_new :: FastInt32Array where
  "FastInt32Array_new = \<lparr>positiveArr = replicate 10 0, negativeArr = replicate 10 0\<rparr>"

definition FastInt32Array_get :: "FastInt32Array \<Rightarrow> int \<Rightarrow> int option" where
  "FastInt32Array_get a idx = (if idx < 0 then js_get (negativeArr a) (- idx - 1) else js_get (positiveArr a) idx)"

text \<open>A write into one of the arrays, which is doubled first where the index is outside of it.\<close>

definition int32_set :: "int list \<Rightarrow> int \<Rightarrow> int option \<Rightarrow> int list" where
  "int32_set arr idx v =
     (let arr = (if idx \<ge> int (length arr) then arr @ replicate (length arr) 0 else arr)
      in if 0 \<le> idx \<and> idx < int (length arr) then arr[nat idx := (case v of None \<Rightarrow> 0 | Some x \<Rightarrow> to_int32 x)] else arr)"

definition FastInt32Array_set :: "FastInt32Array \<Rightarrow> int \<Rightarrow> int option \<Rightarrow> FastInt32Array" where
  "FastInt32Array_set a idx v =
     (if idx < 0 then a\<lparr>negativeArr := int32_set (negativeArr a) (- idx - 1) v\<rparr>
      else a\<lparr>positiveArr := int32_set (positiveArr a) idx v\<rparr>)"

record 'a FastArrayNegativeIndices =
  fan_positiveArr :: "'a option list"
  fan_negativeArr :: "'a option list"

definition FastArrayNegativeIndices_new :: "'a FastArrayNegativeIndices" where
  "FastArrayNegativeIndices_new = \<lparr>fan_positiveArr = [], fan_negativeArr = []\<rparr>"

definition FastArrayNegativeIndices_get :: "'a FastArrayNegativeIndices \<Rightarrow> int \<Rightarrow> 'a option" where
  "FastArrayNegativeIndices_get a idx =
     (if idx < 0 then array_get (fan_negativeArr a) (Some (- idx - 1)) else array_get (fan_positiveArr a) (Some idx))"

definition FastArrayNegativeIndices_set :: "'a FastArrayNegativeIndices \<Rightarrow> int \<Rightarrow> 'a option \<Rightarrow> 'a FastArrayNegativeIndices" where
  "FastArrayNegativeIndices_set a idx v =
     (if idx < 0 then a\<lparr>fan_negativeArr := array_put (fan_negativeArr a) (Some (- idx - 1)) v\<rparr>
      else a\<lparr>fan_positiveArr := array_put (fan_positiveArr a) (Some idx) v\<rparr>)"

section \<open>The algorithm\<close>

datatype SnakePath = NoPath | MkSnakePath SnakePath "int option" "int option" "int option"

definition path_at :: "SnakePath FastArrayNegativeIndices \<Rightarrow> int \<Rightarrow> SnakePath" where
  "path_at paths k = (case FastArrayNegativeIndices_get paths k of None \<Rightarrow> NoPath | Some path \<Rightarrow> path)"

function snake_loop :: "ISequence \<Rightarrow> ISequence \<Rightarrow> int \<Rightarrow> int \<Rightarrow> int" where
  "snake_loop seqX seqY x y =
     (if x < seq_length seqX \<and> y < seq_length seqY \<and> getElement seqX x = getElement seqY y
      then snake_loop seqX seqY (x + 1) (y + 1) else x)"
  by pat_completeness auto
termination
  by (relation "measure (\<lambda>(seqX, seqY, x, y). nat (seq_length seqX - x))") auto

declare snake_loop.simps [simp del]

definition getXAfterSnake :: "ISequence \<Rightarrow> ISequence \<Rightarrow> int option \<Rightarrow> int option \<Rightarrow> int option" where
  "getXAfterSnake seqX seqY x y =
     (case (x, y) of (Some x, Some y) \<Rightarrow> Some (snake_loop seqX seqY x y) | _ \<Rightarrow> x)"

fun num_min :: "int option \<Rightarrow> int option \<Rightarrow> int option" where
  "num_min (Some a) (Some b) = Some (min a b)"
| "num_min _ _ = None"

definition num_minus :: "int option \<Rightarrow> int option \<Rightarrow> int option" where
  "num_minus a b = num_plus a (map_option uminus b)"

fun num_gt :: "int option \<Rightarrow> int option \<Rightarrow> bool" where
  "num_gt (Some a) (Some b) = (a > b)"
| "num_gt _ _ = False"

type_synonym myers_state = "FastInt32Array \<times> SnakePath FastArrayNegativeIndices"

text \<open>The body of the loop over \<open>k\<close>; the flag says that the end of both sequences is reached.\<close>

definition diagonal_step :: "ISequence \<Rightarrow> ISequence \<Rightarrow> int \<Rightarrow> int \<Rightarrow> int \<Rightarrow> myers_state \<Rightarrow> bool \<times> myers_state" where
  "diagonal_step seqX seqY lowerBound upperBound k st =
     (case st of (V, paths) \<Rightarrow>
      let maxXofDLineTop = (if k = upperBound then Some (- 1) else FastInt32Array_get V (k + 1));
          maxXofDLineLeft = (if k = lowerBound then Some (- 1) else num_plus (FastInt32Array_get V (k - 1)) (Some 1));
          x = num_min (num_max maxXofDLineTop maxXofDLineLeft) (Some (seq_length seqX));
          y = num_minus x (Some k)
      in if num_gt x (Some (seq_length seqX)) \<or> num_gt y (Some (seq_length seqY)) then (False, V, paths)
         else let newMaxX = getXAfterSnake seqX seqY x y;
                  V = FastInt32Array_set V k newMaxX;
                  lastPath = (if num_same x maxXofDLineTop then path_at paths (k + 1) else path_at paths (k - 1));
                  paths = FastArrayNegativeIndices_set paths k
                    (Some (if \<not> num_same newMaxX x then MkSnakePath lastPath x y (num_minus newMaxX x) else lastPath))
              in (FastInt32Array_get V k = Some (seq_length seqX) \<and>
                  num_minus (FastInt32Array_get V k) (Some k) = Some (seq_length seqY), V, paths))"

text \<open>The loop over \<open>k\<close>: the diagonal it was left at, if it was.\<close>

function diagonal_loop :: "ISequence \<Rightarrow> ISequence \<Rightarrow> int \<Rightarrow> int \<Rightarrow> int \<Rightarrow> myers_state \<Rightarrow> int option \<times> myers_state" where
  "diagonal_loop seqX seqY lowerBound upperBound k st =
     (if k \<le> upperBound
      then let (found, st') = diagonal_step seqX seqY lowerBound upperBound k st
           in if found then (Some k, st') else diagonal_loop seqX seqY lowerBound upperBound (k + 2) st'
      else (None, st))"
  by pat_completeness auto
termination
  by (relation "measure (\<lambda>(seqX, seqY, lowerBound, upperBound, k, st). nat (upperBound + 2 - k))") auto

declare diagonal_loop.simps [simp del]

definition lower_bound :: "ISequence \<Rightarrow> int \<Rightarrow> int" where
  "lower_bound seqY d = - min d (seq_length seqY + js_rem d 2)"

definition upper_bound :: "ISequence \<Rightarrow> int \<Rightarrow> int" where
  "upper_bound seqX d = min d (seq_length seqX + js_rem d 2)"

datatype myers_end = TimedOut | Reached int "SnakePath FastArrayNegativeIndices"

fun myers_loop :: "nat \<Rightarrow> ISequence \<Rightarrow> ISequence \<Rightarrow> ITimeout \<Rightarrow> int \<Rightarrow> myers_state \<Rightarrow> myers_end option" where
  "myers_loop 0 seqX seqY timeout d st = None"
| "myers_loop (Suc fuel) seqX seqY timeout d st =
     (let d = d + 1
      in if \<not> timeout (nat (d - 1)) then Some TimedOut
         else case diagonal_loop seqX seqY (lower_bound seqY d) (upper_bound seqX d) (lower_bound seqY d) st of
                (Some k, _, paths) \<Rightarrow> Some (Reached k paths)
              | (None, st) \<Rightarrow> myers_loop fuel seqX seqY timeout d st)"

text \<open>
  The differences along a path, from its end; the model puts a difference in front of the list where the
  source pushes it. A difference with a bound that is \<open>NaN\<close> is not represented: the outcome is then \<^const>\<open>None\<close>.
\<close>

definition push_diff :: "int option \<Rightarrow> int option \<Rightarrow> int option \<Rightarrow> int option \<Rightarrow> SequenceDiff list \<Rightarrow> SequenceDiff list result option" where
  "push_diff endX endY last1 last2 ds =
     (if \<not> num_same endX last1 \<or> \<not> num_same endY last2
      then case (endX, endY, last1, last2) of
             (Some a, Some b, Some c, Some d) \<Rightarrow>
               Some (emap (\<lambda>e. e # ds) (SequenceDiff_fromOffsetPairs (MkOffsetPair a b) (MkOffsetPair c d)))
           | _ \<Rightarrow> None
      else Some (Inr ds))"

fun path_diffs :: "SnakePath \<Rightarrow> int option \<Rightarrow> int option \<Rightarrow> SequenceDiff list \<Rightarrow> SequenceDiff list result option" where
  "path_diffs NoPath last1 last2 ds = push_diff (Some 0) (Some 0) last1 last2 ds"
| "path_diffs (MkSnakePath prev x y len) last1 last2 ds =
     (case push_diff (num_plus x len) (num_plus y len) last1 last2 ds of
        None \<Rightarrow> None
      | Some (Inl e) \<Rightarrow> Some (Inl e)
      | Some (Inr ds) \<Rightarrow> path_diffs prev x y ds)"

definition MyersDiffAlgorithm_compute :: "nat \<Rightarrow> ISequence \<Rightarrow> ISequence \<Rightarrow> ITimeout \<Rightarrow> DiffAlgorithmResult result option" where
  "MyersDiffAlgorithm_compute fuel seq1 seq2 timeout =
     (if seq_length seq1 = 0 \<or> seq_length seq2 = 0 then Some (DiffAlgorithmResult_trivial seq1 seq2)
      else let V = FastInt32Array_set FastInt32Array_new 0 (getXAfterSnake seq1 seq2 (Some 0) (Some 0));
               paths = FastArrayNegativeIndices_set FastArrayNegativeIndices_new 0
                 (Some (if FastInt32Array_get V 0 = Some 0 then NoPath else MkSnakePath NoPath (Some 0) (Some 0) (FastInt32Array_get V 0)))
           in case myers_loop fuel seq1 seq2 timeout 0 (V, paths) of
                None \<Rightarrow> None
              | Some TimedOut \<Rightarrow> Some (DiffAlgorithmResult_trivialTimedOut seq1 seq2)
              | Some (Reached k paths) \<Rightarrow>
                  map_option (emap (\<lambda>ds. MkDiffAlgorithmResult ds False))
                    (path_diffs (path_at paths k) (Some (seq_length seq1)) (Some (seq_length seq2)) []))"

section \<open>The differences are not always minimal\<close>

definition changed :: "SequenceDiff list \<Rightarrow> int" where
  "changed ds = sum_list (map (\<lambda>d. OffsetRange_length (seq1Range d) + OffsetRange_length (seq2Range d)) ds)"

lemma equal_part_snoc:
  assumes "equal_part S T a b k" "getElement S (a + k) = getElement T (b + k)"
  shows "equal_part S T a b (k + 1)"
  unfolding equal_part_def
proof (intro conjI allI impI)
  show "0 \<le> k + 1" using assms(1) by (simp add: equal_part_def)
  show "getElement S (a + i) = getElement T (b + i)" if "0 \<le> i \<and> i < k + 1" for i
    using assms that by (cases "i = k") (auto simp: equal_part_def)
qed

text \<open>
  The differences need not be minimal. From the round on whose number exceeds an odd length of the second sequence,
  the bounds of the diagonals have the other parity than the round. The last diagonal then reads the one behind the upper bound,
  which may lie outside of the array; the \<open>NaN\<close> it computes with is stored as 0, and the furthest point on this
  diagonal is lost. For the two sequences of the statement, the second of which is a subsequence of the first, the
  algorithm finds differences of eleven elements, although there are differences of nine.
\<close>

theorem myers_not_minimal:
  fixes A B :: ISequence
  defines "A \<equiv> list_sequence [4, 2, 1, 4, 3, 5, 1, 2, 2, 1, 0, 1]" and "B \<equiv> list_sequence [2, 0, 1]"
  shows "\<exists>ds ds'. MyersDiffAlgorithm_compute 40 A B InfiniteTimeout_isValid = Some (Inr (MkDiffAlgorithmResult ds False)) \<and> changed ds = 11 \<and>
    diffs_ok A B ds' \<and> changed ds' = 9"
proof -
  let ?diff = "\<lambda>a b c d. MkSequenceDiff (MkOffsetRange a b) (MkOffsetRange c d)"
  let ?ds' = "[?diff 0 8 0 0, ?diff 9 10 1 1]"
  have "MyersDiffAlgorithm_compute 40 A B InfiniteTimeout_isValid =
      Some (Inr (MkDiffAlgorithmResult [?diff 0 1 0 0, ?diff 2 2 1 2, ?diff 3 12 3 3] False))"
    unfolding A_def B_def by code_simp
  moreover have "equal_part A B 8 0 1" "equal_part A B 10 1 2"
    using equal_part_snoc [of A B 8 0 0] equal_part_snoc [OF equal_part_snoc [of A B 10 1 0]] by (simp_all add: A_def B_def list_sequence_def js_get_def)
  then have "diffs_ok A B ?ds'" by (simp add: A_def B_def list_sequence_def diffs_ok_def)
  ultimately show ?thesis by (intro exI [of _ ?ds'] exI conjI) (auto simp: changed_def OffsetRange_length_def)
qed

end
