(* ===== verification/DiffLines.thy ===== *)
theory DiffLines
  imports DiffShifting MyersDiff LineRange
begin

text \<open>
  Model of \<open>lineSequence.ts\<close>, of \<open>removeVeryShortMatchingLinesBetweenDiffs\<close> in
  \<open>heuristicSequenceOptimizations.ts\<close> and of the alignment of lines in
  \<open>DefaultLinesDiffComputer.computeDiff\<close> (\<open>defaultLinesDiffComputer.ts\<close>). The three scores of two aligned
  lines, which the source computes with \<open>Math.log\<close>, are a parameter.
\<close>

section \<open>Sequences of lines\<close>

definition getIndentation :: "js_string \<Rightarrow> int" where
  "getIndentation str = int (scan_while (\<lambda>c. c = 0x20 \<or> c = 0x09) str 0)"

record LineSequence =
  trimmedHash :: "int list"
  ls_lines :: "js_string list"

definition LineSequence_getElement :: "LineSequence \<Rightarrow> int \<Rightarrow> int option" where
  "LineSequence_getElement s k = js_get (trimmedHash s) k"

definition LineSequence_length :: "LineSequence \<Rightarrow> int" where
  "LineSequence_length s = int (length (trimmedHash s))"

text \<open>The score is only asked for offsets from 0 to the number of lines, so that both lines exist.\<close>

definition LineSequence_getBoundaryScore :: "LineSequence \<Rightarrow> int \<Rightarrow> int" where
  "LineSequence_getBoundaryScore s k =
     (let indentation = (\<lambda>i. case js_get (ls_lines s) i of None \<Rightarrow> 0 | Some l \<Rightarrow> getIndentation l);
          indentationBefore = (if k = 0 then 0 else indentation (k - 1));
          indentationAfter = (if k = int (length (ls_lines s)) then 0 else indentation k)
      in 1000 - (indentationBefore + indentationAfter))"

fun join_lines :: "js_string list \<Rightarrow> js_string" where
  "join_lines [] = []"
| "join_lines [l] = l"
| "join_lines (l # ls) = l @ LF # join_lines ls"

definition LineSequence_getText :: "LineSequence \<Rightarrow> OffsetRange \<Rightarrow> js_string" where
  "LineSequence_getText s r = join_lines (js_slice (ls_lines s) (or_start r) (or_endExclusive r))"

definition LineSequence_isStronglyEqual :: "LineSequence \<Rightarrow> int \<Rightarrow> int \<Rightarrow> bool" where
  "LineSequence_isStronglyEqual s i j \<longleftrightarrow> js_get (ls_lines s) i = js_get (ls_lines s) j"

definition LineSequence_sequence :: "LineSequence \<Rightarrow> ISequence" where
  "LineSequence_sequence s =
     \<lparr>getElement = LineSequence_getElement s, seq_length = LineSequence_length s,
      getBoundaryScore = Some (LineSequence_getBoundaryScore s), isStronglyEqual = LineSequence_isStronglyEqual s\<rparr>"

section \<open>Short equal parts\<close>

definition shouldJoinDiffs :: "LineSequence \<Rightarrow> SequenceDiff \<Rightarrow> SequenceDiff \<Rightarrow> bool result" where
  "shouldJoinDiffs sequence1 before after =
     ebind (OffsetRange_new (or_endExclusive (seq1Range before)) (or_start (seq1Range after))) (\<lambda>unchangedRange.
     let unchangedText = LineSequence_getText sequence1 unchangedRange;
         unchangedTextWithoutWs = List.filter (\<lambda>c. \<not> js_space c) unchangedText
     in Inr (length unchangedTextWithoutWs \<le> 4 \<and>
             (OffsetRange_length (seq1Range before) + OffsetRange_length (seq2Range before) > 5 \<or>
              OffsetRange_length (seq1Range after) + OffsetRange_length (seq2Range after) > 5)))"

text \<open>
  The \<open>do \<dots> while\<close> loop, which ends after eleven rounds at the latest. Two differences were joined in a
  round exactly if the list got shorter.
\<close>

fun removeVeryShort_loop :: "nat \<Rightarrow> LineSequence \<Rightarrow> SequenceDiff \<Rightarrow> SequenceDiff list \<Rightarrow> SequenceDiff list result" where
  "removeVeryShort_loop rounds sequence1 d ds =
     ebind (join_close (shouldJoinDiffs sequence1) d ds) (\<lambda>rs. case rs of
        [] \<Rightarrow> Inr []
      | r # rs \<Rightarrow> (case rounds of
           0 \<Rightarrow> Inr (r # rs)
         | Suc n \<Rightarrow> if length rs < length ds then removeVeryShort_loop n sequence1 r rs else Inr (r # rs)))"

definition removeVeryShortMatchingLinesBetweenDiffs :: "LineSequence \<Rightarrow> SequenceDiff list \<Rightarrow> SequenceDiff list result" where
  "removeVeryShortMatchingLinesBetweenDiffs sequence1 sequenceDiffs =
     (case sequenceDiffs of [] \<Rightarrow> Inr [] | d # ds \<Rightarrow> removeVeryShort_loop 10 sequence1 d ds)"

section \<open>The alignment of lines\<close>

text \<open>The map \<open>perfectHashes\<close>: the hash of a text is its place in the order of insertion.\<close>

definition getOrCreateHash :: "js_string list \<Rightarrow> js_string \<Rightarrow> js_string list \<times> int" where
  "getOrCreateHash perfectHashes s =
     (let k = length (takeWhile (\<lambda>t. t \<noteq> s) perfectHashes)
      in if k < length perfectHashes then (perfectHashes, int k) else (perfectHashes @ [s], int (length perfectHashes)))"

fun hash_lines :: "js_string list \<Rightarrow> js_string list \<Rightarrow> js_string list \<times> int list" where
  "hash_lines perfectHashes [] = (perfectHashes, [])"
| "hash_lines perfectHashes (l # ls) =
     (let (ph, h) = getOrCreateHash perfectHashes (js_trim l); (ph, hs) = hash_lines ph ls in (ph, h # hs))"

record 's line_scores =
  score_empty :: 's
  score_length :: "int \<Rightarrow> 's"
  score_trimmed :: 's

definition line_score :: "'s line_scores \<Rightarrow> js_string list \<Rightarrow> js_string list \<Rightarrow> int \<Rightarrow> int \<Rightarrow> 's" where
  "line_score scores originalLines modifiedLines o1 o2 =
     (if js_get originalLines o1 = js_get modifiedLines o2
      then case js_get modifiedLines o2 of
             Some [] \<Rightarrow> score_empty scores
           | Some l \<Rightarrow> score_length scores (int (length l))
           | None \<Rightarrow> score_trimmed scores
      else score_trimmed scores)"

definition line_sequences :: "js_string list \<Rightarrow> js_string list \<Rightarrow> LineSequence \<times> LineSequence" where
  "line_sequences originalLines modifiedLines =
     (let (ph, originalLinesHashes) = hash_lines [] originalLines;
          (ph, modifiedLinesHashes) = hash_lines ph modifiedLines
      in (\<lparr>trimmedHash = originalLinesHashes, ls_lines = originalLines\<rparr>, \<lparr>trimmedHash = modifiedLinesHashes, ls_lines = modifiedLines\<rparr>))"

definition lineAlignmentResult ::
    "nat \<Rightarrow> 's::{linorder,zero,one,plus,uminus} line_scores \<Rightarrow> ITimeout \<Rightarrow> js_string list \<Rightarrow> js_string list \<Rightarrow> DiffAlgorithmResult result option" where
  "lineAlignmentResult fuel scores timeout originalLines modifiedLines =
     (let (s1, s2) = line_sequences originalLines modifiedLines;
          sequence1 = LineSequence_sequence s1; sequence2 = LineSequence_sequence s2
      in if seq_length sequence1 + seq_length sequence2 < 1700
         then Some (DynamicProgrammingDiffing_compute sequence1 sequence2 timeout (Some (line_score scores originalLines modifiedLines)))
         else MyersDiffAlgorithm_compute fuel sequence1 sequence2 timeout)"

definition lineAlignments ::
    "nat \<Rightarrow> 's::{linorder,zero,one,plus,uminus} line_scores \<Rightarrow> ITimeout \<Rightarrow> js_string list \<Rightarrow> js_string list \<Rightarrow> (SequenceDiff list \<times> bool) result option" where
  "lineAlignments fuel scores timeout originalLines modifiedLines =
     (let (s1, s2) = line_sequences originalLines modifiedLines
      in map_option (\<lambda>r. ebind r (\<lambda>r.
           ebind (optimizeSequenceDiffs (LineSequence_sequence s1) (LineSequence_sequence s2) (dar_diffs r)) (\<lambda>ds.
           ebind (removeVeryShortMatchingLinesBetweenDiffs s1 ds) (\<lambda>ds. Inr (ds, hitTimeout r)))))
         (lineAlignmentResult fuel scores timeout originalLines modifiedLines))"

section \<open>The alignment is a difference of the trimmed lines\<close>

text \<open>A table of hashes without duplicates is only extended, and the hash of a text is where the table has it.\<close>

lemma takeWhile_first: "s \<in> set xs \<Longrightarrow> length (takeWhile (\<lambda>t. t \<noteq> s) xs) < length xs \<and> xs ! length (takeWhile (\<lambda>t. t \<noteq> s) xs) = s"
  by (induction xs) auto

lemma getOrCreateHash_ok:
  assumes "distinct ph" "getOrCreateHash ph s = (ph', h)"
  shows "distinct ph' \<and> (\<exists>zs. ph' = ph @ zs) \<and> 0 \<le> h \<and> nat h < length ph' \<and> ph' ! nat h = s"
proof (cases "s \<in> set ph")
  case True
  with assms takeWhile_first [OF True] show ?thesis by (auto simp: getOrCreateHash_def Let_def)
next
  case False
  then have "takeWhile (\<lambda>t. t \<noteq> s) ph = ph" by (induction ph) auto
  with assms False show ?thesis by (auto simp: getOrCreateHash_def Let_def)
qed

lemma hash_lines_ok:
  assumes "distinct ph" "hash_lines ph ls = (ph', hs)"
  shows "distinct ph' \<and> (\<exists>zs. ph' = ph @ zs) \<and> length hs = length ls \<and>
    (\<forall>i < length ls. 0 \<le> hs ! i \<and> nat (hs ! i) < length ph' \<and> ph' ! nat (hs ! i) = js_trim (ls ! i))"
  using assms
proof (induction ls arbitrary: ph ph' hs)
  case (Cons l ls)
  obtain ph1 h where h: "getOrCreateHash ph (js_trim l) = (ph1, h)" by fastforce
  obtain ph2 hs1 where hs1: "hash_lines ph1 ls = (ph2, hs1)" by fastforce
  have eq: "ph' = ph2" "hs = h # hs1" using Cons.prems h hs1 by auto
  have 1: "distinct ph1" "\<exists>zs. ph1 = ph @ zs" "0 \<le> h" "nat h < length ph1" "ph1 ! nat h = js_trim l" using getOrCreateHash_ok [OF Cons.prems(1) h] by auto
  have 2: "distinct ph2" "\<exists>zs. ph2 = ph1 @ zs" "length hs1 = length ls"
      "\<forall>i < length ls. 0 \<le> hs1 ! i \<and> nat (hs1 ! i) < length ph2 \<and> ph2 ! nat (hs1 ! i) = js_trim (ls ! i)"
    using Cons.IH [OF 1(1) hs1] by auto
  from 1 2(1-2) have "distinct ph2 \<and> (\<exists>zs. ph2 = ph @ zs) \<and> nat h < length ph2 \<and> ph2 ! nat h = js_trim l" by (auto simp: nth_append)
  with 1(3) 2(3,4) show ?case unfolding eq by (auto simp: nth_Cons split: nat.splits)
qed auto

text \<open>The hashes that were computed for lines are the same for the same line.\<close>

definition hashed :: "LineSequence \<Rightarrow> bool" where
  "hashed s \<longleftrightarrow> length (trimmedHash s) = length (ls_lines s) \<and>
     (\<forall>i < length (ls_lines s). \<forall>j < length (ls_lines s). ls_lines s ! i = ls_lines s ! j \<longrightarrow> trimmedHash s ! i = trimmedHash s ! j)"

lemma line_sequences_ok:
  assumes "line_sequences os ms = (s1, s2)"
  shows "hashed s1" "hashed s2" "ls_lines s1 = os" "ls_lines s2 = ms"
    and "i < length os \<Longrightarrow> j < length ms \<Longrightarrow> trimmedHash s1 ! i = trimmedHash s2 ! j \<Longrightarrow> js_trim (os ! i) = js_trim (ms ! j)"
proof -
  obtain ph h1 where 1: "hash_lines [] os = (ph, h1)" by fastforce
  obtain ph' h2 where 2: "hash_lines ph ms = (ph', h2)" by fastforce
  have a: "distinct ph" "length h1 = length os" "\<forall>i < length os. 0 \<le> h1 ! i \<and> nat (h1 ! i) < length ph \<and> ph ! nat (h1 ! i) = js_trim (os ! i)"
    using hash_lines_ok [OF distinct.simps(1) [THEN iffD2, OF TrueI] 1] by auto
  have b: "distinct ph'" "\<exists>zs. ph' = ph @ zs" "length h2 = length ms" "\<forall>i < length ms. 0 \<le> h2 ! i \<and> nat (h2 ! i) < length ph' \<and> ph' ! nat (h2 ! i) = js_trim (ms ! i)"
    using hash_lines_ok [OF a(1) 2] by auto
  have c: "0 \<le> h1 ! i \<and> nat (h1 ! i) < length ph' \<and> ph' ! nat (h1 ! i) = js_trim (os ! i)" if "i < length os" for i
    using a(3) b(2) that by (auto simp: nth_append)
  have same: "h = h'" if "ph' ! nat h = ph' ! nat h'" "0 \<le> h" "0 \<le> h'" "nat h < length ph'" "nat h' < length ph'" for h h'
    using that nth_eq_iff_index_eq [OF b(1)] by auto
  have s: "s1 = \<lparr>trimmedHash = h1, ls_lines = os\<rparr>" "s2 = \<lparr>trimmedHash = h2, ls_lines = ms\<rparr>" using assms 1 2 by (auto simp: line_sequences_def)
  show "js_trim (os ! i) = js_trim (ms ! j)" if "i < length os" "j < length ms" "trimmedHash s1 ! i = trimmedHash s2 ! j" for i j
    using c [OF that(1)] b(4) [rule_format, OF that(2)] that(3) by (simp add: s)
  have "h1 ! i = h1 ! j" if "i < length os" "j < length os" "os ! i = os ! j" for i j
    using c [OF that(1)] c [OF that(2)] that(3) by (intro same) simp_all
  then show "hashed s1" using a(2) unfolding hashed_def s LineSequence.simps by blast
  have "h2 ! i = h2 ! j" if "i < length ms" "j < length ms" "ms ! i = ms ! j" for i j
    using b(4) [rule_format, OF that(1)] b(4) [rule_format, OF that(2)] that(3) by (intro same) simp_all
  then show "hashed s2" using b(3) unfolding hashed_def s LineSequence.simps by blast
  show "ls_lines s1 = os" "ls_lines s2 = ms" by (simp_all add: s)
qed

lemma hashed_sequence: "hashed s \<Longrightarrow> sequence (LineSequence_sequence s)"
proof
  assume h: "hashed s"
  show "0 \<le> seq_length (LineSequence_sequence s)" by (simp add: LineSequence_sequence_def LineSequence_length_def)
  fix i j assume a: "isStronglyEqual (LineSequence_sequence s) i j" "0 \<le> i" "i < seq_length (LineSequence_sequence s)" "0 \<le> j" "j < seq_length (LineSequence_sequence s)"
  then have ij: "nat i < length (ls_lines s)" "nat j < length (ls_lines s)" and len: "length (trimmedHash s) = length (ls_lines s)"
    using h by (simp_all add: hashed_def LineSequence_sequence_def LineSequence_length_def)
  then have "ls_lines s ! nat i = ls_lines s ! nat j"
    using a(1,2,4) by (simp add: LineSequence_sequence_def LineSequence_isStronglyEqual_def js_get_def nat_less_iff)
  then have "trimmedHash s ! nat i = trimmedHash s ! nat j" using h ij unfolding hashed_def by blast
  then show "getElement (LineSequence_sequence s) i = getElement (LineSequence_sequence s) j"
    using ij len a(2,4) by (simp add: LineSequence_sequence_def LineSequence_getElement_def js_get_def nat_less_iff)
qed

interpretation original_lines: sequence "LineSequence_sequence (fst (line_sequences os ms))" for os ms
  by (rule hashed_sequence, rule line_sequences_ok(1) [of os ms, OF prod.collapse [symmetric]])

interpretation modified_lines: sequence "LineSequence_sequence (snd (line_sequences os ms))" for os ms
  by (rule hashed_sequence, rule line_sequences_ok(2) [of os ms, OF prod.collapse [symmetric]])

lemma lines_beside:
  assumes "line_sequences os ms = (s1, s2)"
  shows "beside (LineSequence_sequence s1) (LineSequence_sequence s2) (map js_trim os) (map js_trim ms)"
  unfolding beside_def
proof (intro conjI allI impI)
  have len: "length (trimmedHash s1) = length os" "length (trimmedHash s2) = length ms" using line_sequences_ok(1-4) [OF assms] by (auto simp: hashed_def)
  then show "int (length (map js_trim os)) = seq_length (LineSequence_sequence s1)" "int (length (map js_trim ms)) = seq_length (LineSequence_sequence s2)"
    by (simp_all add: LineSequence_sequence_def LineSequence_length_def)
  show "map js_trim os ! i = map js_trim ms ! j"
    if "i < length (map js_trim os)" "j < length (map js_trim ms)" "getElement (LineSequence_sequence s1) (int i) = getElement (LineSequence_sequence s2) (int j)" for i j
    using that line_sequences_ok(5) [OF assms, of i j] len by (simp add: LineSequence_sequence_def LineSequence_getElement_def)
qed

lemma removeVeryShort_loop_ok:
  assumes "diffs_from S T a b (d # ds)"
  shows "\<exists>rs. removeVeryShort_loop n s1 d ds = Inr rs \<and> diffs_from S T a b rs"
  using assms
proof (induction n arbitrary: d ds)
  case 0
  have "\<exists>r rs. join_close (shouldJoinDiffs s1) d ds = Inr (r # rs) \<and> diffs_from S T a b (r # rs) \<and> length rs \<le> length ds"
    by (rule join_close_ok [OF _ 0]) (simp add: shouldJoinDiffs_def OffsetRange_new_def)
  then show ?case by auto
next
  case (Suc n)
  have "\<exists>r rs. join_close (shouldJoinDiffs s1) d ds = Inr (r # rs) \<and> diffs_from S T a b (r # rs) \<and> length rs \<le> length ds"
    by (rule join_close_ok [OF _ Suc.prems]) (simp add: shouldJoinDiffs_def OffsetRange_new_def)
  with Suc.IH show ?case by fastforce
qed

lemma removeVeryShort_ok:
  assumes "diffs_ok S T ds"
  shows "\<exists>rs. removeVeryShortMatchingLinesBetweenDiffs s1 ds = Inr rs \<and> diffs_ok S T rs"
  using assms removeVeryShort_loop_ok [of S T 0 0 _ _ 10 s1]
  by (cases ds) (auto simp: removeVeryShortMatchingLinesBetweenDiffs_def diffs_ok_def simp del: removeVeryShort_loop.simps)

text \<open>
  C10: The alignment of the lines of two texts is a difference of their trimmed lines. For texts of together less than
  1700 lines, for which the dynamic program is used, whatever the scores are and whenever the time runs out,
  the computation throws nothing. Its differences stay correct while they are shifted, joined over short equal parts and
  moved to the best boundaries: they are in order, outside of them both texts have the same lines up to
  white space at the ends, and replacing the differences in the first text gives the second.
\<close>

theorem lineAlignments_correct:
  fixes scores :: "'s::{linorder,zero,one,plus,uminus} line_scores"
  assumes "- 1 < (0::'s)" "length os + length ms < 1700"
  shows "\<exists>ds hit. lineAlignments fuel scores timeout os ms = Some (Inr (ds, hit)) \<and> SequenceDiff_assertSorted ds = Inr () \<and>
    (case line_sequences os ms of (s1, s2) \<Rightarrow> diffs_ok (LineSequence_sequence s1) (LineSequence_sequence s2) ds) \<and>
    patched (map js_trim os) (map js_trim ms) 0 ds = map js_trim ms"
proof -
  obtain s1 s2 where s: "line_sequences os ms = (s1, s2)" by fastforce
  let ?S = "LineSequence_sequence s1" and ?T = "LineSequence_sequence s2"
  have S: "sequence ?S" and T: "sequence ?T" using original_lines.sequence_axioms [of os ms] modified_lines.sequence_axioms [of os ms] s by simp_all
  have len: "seq_length ?S = int (length os)" "seq_length ?T = int (length ms)"
    using line_sequences_ok(1-4) [OF s] by (simp_all add: LineSequence_sequence_def LineSequence_length_def hashed_def)
  obtain d0 hit where 0: "lineAlignmentResult fuel scores timeout os ms = Some (Inr (MkDiffAlgorithmResult d0 hit))" "diffs_ok ?S ?T d0" "separated d0"
    using dynamic_program_ok [OF assms(1), of ?S ?T timeout "Some (line_score scores os ms)"] assms(2) len
    by (auto simp: lineAlignmentResult_def s)
  obtain d1 where 1: "optimizeSequenceDiffs ?S ?T d0 = Inr d1" "diffs_ok ?S ?T d1" using optimize_ok [OF S T 0(2,3)] by blast
  obtain d2 where 2: "removeVeryShortMatchingLinesBetweenDiffs s1 d1 = Inr d2" "diffs_ok ?S ?T d2" using removeVeryShort_ok [OF 1(2)] by blast
  have "lineAlignments fuel scores timeout os ms = Some (Inr (d2, hit))" by (simp add: lineAlignments_def s 0(1) 1(1) 2(1))
  then show ?thesis using 2(2) diffs_ok_sorted [OF 2(2)] diffs_ok_patched_lists [OF lines_beside [OF s] 2(2)] by (simp add: s)
qed

definition sample_scores :: "int line_scores" where
  "sample_scores = \<lparr>score_empty = 1, score_length = (\<lambda>n. 10 + n), score_trimmed = 9\<rparr>"

theorem lineAlignments_correct_witness:
  "\<exists>ds hit. lineAlignments 0 sample_scores InfiniteTimeout_isValid [js ''a'', js '' b''] [js ''b'', js ''c''] = Some (Inr (ds, hit)) \<and>
    patched (map js_trim [js ''a'', js '' b'']) (map js_trim [js ''b'', js ''c'']) 0 ds = map js_trim [js ''b'', js ''c'']"
  using lineAlignments_correct [of "[js ''a'', js '' b'']" "[js ''b'', js ''c'']" 0 sample_scores InfiniteTimeout_isValid] by auto

end
