(* ===== verification/Spec2Isabelle.thy ===== *)
theory Spec2Isabelle
  imports ArraysFind Selection OffsetRange LineRange TextEdits TextChangeIO PrefixSum ContextKeyParserTotal ContextKeyRoundTrip KeybindingLaws CombineEdits BracketQueryLaws TokenStoreLaws DiffLines
begin

text \<open>
  Verification of the algorithmic core of the code editor in \<open>src/Source/vs\<close>: text coordinates and edits, prefix
  sums, tokens of lines, the tree of bracket pairs, differences of texts, context key expressions and the
  resolution of keybindings. This theory imports all others. Paths below are relative to \<open>src/Source/vs\<close>.

  \<^bold>\<open>Parts of the program and how they interact.\<close>
  A text model keeps lines; everything else speaks of it in coordinates. Positions, ranges, line ranges, offset ranges
  and text lengths (\<open>editor/common/core\<close>) are the coordinates, offset edits and text edits describe changes in them, and
  consecutive changes are compressed and serialized for the undo stack. Line heights and line lengths are summed by prefix sum
  computers (\<open>editor/common/model\<close>). The tokens of a line are kept packed in arrays (\<open>editor/common/tokens\<close>) that
  follow every edit. The tree of bracket pairs (\<open>editor/common/model/bracketPairsTextModelPart\<close>) is parsed from a
  token stream, queried by position, and reused after edits with the help of a position mapper and a reader of old nodes. The
  difference of two texts (\<open>editor/common/diff\<close>) is computed on sequences of lines and then improved. Context key
  expressions (\<open>platform/contextkey\<close>) decide when a keybinding applies; the keybinding resolver
  (\<open>platform/keybinding\<close>) evaluates them to find the command of a key press.

  \<^bold>\<open>Theories, with the sources they model and what they show.\<close>
  \<^item> \<open>Prelude\<close>: values of the language (strings as lists of 16 bit code units, arrays as lists, \<open>undefined\<close> as
    \<open>None\<close>, thrown errors as the left summand), array and string operations, and shared lemmas. \<open>JsStrings\<close>: helpers of
    \<open>base/common/strings.ts\<close>.
  \<^item> \<open>ArraysFind\<close> (\<open>base/common/arraysFind.ts\<close>): the binary searches find what the linear scans find.
  \<^item> \<open>PositionRange\<close>, \<open>Selection\<close> (\<open>position.ts\<close>, \<open>range.ts\<close>, \<open>selection.ts\<close>): order and geometry of positions.
  \<^item> \<open>Intervals\<close>, \<open>OffsetRange\<close>, \<open>LineRange\<close> (\<open>offsetRange.ts\<close>, \<open>lineRange.ts\<close>): the locales of half-open
    intervals, interpreted for both kinds; sets of ranges stay sorted and denote unions, intersections and differences.
  \<^item> \<open>TextLengths\<close>, \<open>PositionOffset\<close> (\<open>textLength.ts\<close>, \<open>positionToOffset.ts\<close>): round trips of positions and offsets.
  \<^item> \<open>OffsetEdits\<close>, \<open>TextEdits\<close> (\<open>offsetEdit.ts\<close>, \<open>textEdit.ts\<close>): composition, inverse and rebasing of edits
    against the application of edits to a string; text edits refine offset edits.
  \<^item> \<open>TextChanges\<close>, \<open>TextChangeIO\<close> (\<open>textChange.ts\<close>, \<open>buffer.ts\<close>, \<open>stringBuilder.ts\<close>): compression of
    consecutive changes leads from the same text to the same text; writing and reading are inverse.
  \<^item> \<open>PrefixSum\<close> (\<open>prefixSumComputer.ts\<close>, with words of 32 bits): cached sums stay exact under all operations.
  \<^item> \<open>ContextKeyValues\<close>, \<open>ContextKeyExprs\<close>, \<open>ContextKeyNormalize\<close> (\<open>contextkey.ts\<close>): the sixteen classes of expressions.
    \<open>ContextKeyTotal\<close>, \<open>ContextKeySemantics\<close>, \<open>ContextKeyLaws\<close>, \<open>ContextKeyConstants\<close>: the normalizing operations return
    and keep the value.
  \<^item> \<open>ContextKeyScanner\<close>, \<open>ContextKeyParser\<close> (\<open>scanner.ts\<close>, \<open>contextkey.ts\<close>); \<open>ContextKeyLexing\<close>, \<open>ContextKeyParsing\<close>,
    \<open>ContextKeyParserTotal\<close>, \<open>ContextKeyRoundTrip\<close>: the parser returns an expression in disjunctive normal form or records an error, and reading
    back a serialized expression keeps its value.
  \<^item> \<open>Keybindings\<close>, \<open>KeybindingLaws\<close> (\<open>keybindingResolver.ts\<close>, \<open>resolvedKeybindingItem.ts\<close>): which rules remain after removals,
    which command a key press resolves to, and which keybindings of a command are listed, each against a specification that is written out
    on the chords, commands and conditions.
  \<^item> \<open>BracketLengths\<close>, \<open>SmallSets\<close>, \<open>BracketAst\<close>, \<open>Concat23\<close>, \<open>EditMapper\<close>, \<open>NodeReader\<close>, \<open>CombineEdits\<close>,
    \<open>LanguageBrackets\<close>, \<open>BracketParser\<close>, \<open>BracketQueries\<close> (\<open>length.ts\<close>, \<open>smallImmutableSet.ts\<close>, \<open>ast.ts\<close>, \<open>concat23Trees.ts\<close>,
    \<open>beforeEditPositionMapper.ts\<close>, \<open>nodeReader.ts\<close>, \<open>combineTextEditInfos.ts\<close>, \<open>languageBracketsConfiguration.ts\<close>, \<open>brackets.ts\<close>,
    \<open>parser.ts\<close>, \<open>tokenizer.ts\<close>, \<open>bracketPairsTree.ts\<close>); \<open>BracketParsing\<close>, \<open>FastTokens\<close>, \<open>PackedTexts\<close>, \<open>BracketQueryLaws\<close>: the parser
    against a stack machine, the tree covers the text, concatenation keeps (2,3)-trees, combined edits map as the two
    edits one after the other, and the queries against the list of brackets of the tree.
  \<^item> \<open>TokenMetadata\<close>, \<open>LineTokens\<close>, \<open>TokenEditing\<close>, \<open>TokenStore\<close> (\<open>encodedTokenAttributes.ts\<close>, \<open>lineTokens.ts\<close>, \<open>tokenArray.ts\<close>,
    \<open>contiguousTokensEditing.ts\<close>, \<open>contiguousTokensStore.ts\<close>, \<open>contiguousMultilineTokens.ts\<close>, \<open>eolCounter.ts\<close>); \<open>TokenStoreLaws\<close>: editing
    token arrays is editing the list of the metadata of the characters, and the tokens of the store cover the lines of the
    text in every reachable state.
  \<^item> \<open>DiffAlgorithms\<close>, \<open>MyersDiff\<close>, \<open>DiffShifting\<close>, \<open>DiffLines\<close> (\<open>diffAlgorithm.ts\<close>, \<open>dynamicProgrammingDiffing.ts\<close>,
    \<open>myersDiffAlgorithm.ts\<close>, \<open>heuristicSequenceOptimizations.ts\<close>, \<open>lineSequence.ts\<close>, \<open>defaultLinesDiffComputer.ts\<close>): replacing the computed
    differences in the first text gives the second, through all improvements.

  \<^bold>\<open>How state and operations correspond.\<close>
  A class is a record or datatype with the fields of the source, a method is a definition \<open>Class_method\<close>; a private
  member drops its underscore. A method that changes its object returns the changed object; this holds in
  particular for the nodes of the bracket tree and the arrays of tokens, which the source changes in place. A loop is a
  recursive function named after what it does, with the suffix \<open>_loop\<close>. Numbers that are offsets, lines or counts are unbounded
  integers, typed arrays and bit operations use words of 32 bits, and where \<open>undefined\<close> or \<open>NaN\<close> can be computed with, a
  number is an option. \<open>Array.sort\<close> is a stable insertion sort.

  \<^bold>\<open>Parameters.\<close> What is not in the sources is an argument: conversions between numbers and strings and the matching of regular
  expressions (\<open>js_host\<close>), \<open>localize\<close> and the class of letters (\<open>scan_host\<close>), \<open>new RegExp\<close> (\<open>parser_host\<close>), the matches of the bracket
  expression, \<open>toLowerCase\<close>, the minimal indentation of a bracket pair, the codec of language ids, the answers of a timeout and the
  floating-point scores of aligned lines.

  \<^bold>\<open>Fuel.\<close> The parser of context keys has the fuel \<open>6 n + 6\<close> for \<open>n\<close> tokens, and \<open>Parser_parse_returns\<close> shows that
  it returns with it, for texts that have no parentheses or none of the operators whose expressions sort behind \<open>Or\<close>; for every text \<open>parse_tokens_fuel\<close> shows that more fuel
  changes nothing. The parser
  of brackets is shown to return with the fuel \<open>2 n + 1\<close> for \<open>n\<close> tokens. The reader of old nodes is shown to return with the number of nodes as
  fuel. The outer loop of the Myers algorithm takes fuel; for it only the concrete run of \<open>myers_not_minimal\<close> is shown, and
  \<open>lineAlignments_correct\<close> is about texts for which the dynamic program is used. All other loops have a termination proof.

  \<^bold>\<open>Interfaces.\<close> Each locale states what one component relies on of another and is interpreted on the definitions that provide it: index
  searches and comparators (\<open>ArraysFind\<close>, \<open>PositionRange\<close>), half-open intervals (\<open>Intervals\<close>), lengths and measures of texts
  (\<open>TextLengths\<close>), abstract texts (\<open>TextEdits\<close>), indexed sums (\<open>PrefixSum\<close>), sets of ids (\<open>SmallSets\<close>), the meaning of expressions
  (\<open>ContextKeySemantics\<close>), the token stream of the bracket parser (\<open>BracketParsing\<close>), tables (\<open>DiffAlgorithms\<close>) and
  sequences (\<open>DiffShifting\<close>).

  \<^bold>\<open>Not modelled.\<close> \<open>toString\<close> methods and type guards on untyped objects; \<open>computeMinIndentation\<close>, \<open>TextBufferTokenizer\<close> and the class
  \<open>BracketPairsTree\<close> with its queue of edits, which read the text model; the serialization of token blocks; the refinement of line
  differences to characters and the detection of moved lines; the piece tree and the undo service; the user interface, the
  extension host and the services, whose behaviour is that of the browser, of other processes and of the file system.
\<close>

end
